(* ===== verification/Prelude.thy ===== *)
theory Prelude
  imports Main "HOL-Library.Word" "HOL-Library.Monad_Syntax"
begin

text \<open>
  The vocabulary the component theories share: the C integer types of
  \<^verbatim>\<open>include/rtdef.h\<close> as words, the kernel's error codes, the fallible computations
  (\<open>'a option\<close>, where \<open>None\<close> is a stopped kernel: a failed \<^verbatim>\<open>RT_ASSERT\<close>, a dereferenced
  \<^verbatim>\<open>RT_NULL\<close>, or a list node linked twice), the collections of rewrite rules the
  component proofs use, and the generic lemmas on lists, options and words.
\<close>

section \<open>C integer types\<close>

type_synonym u8 = "8 word"
type_synonym u16 = "16 word"
type_synonym u32 = "32 word"
type_synonym rt_tick_t = u32

section \<open>Error codes\<close>

text \<open>\<^verbatim>\<open>rt_err_t\<close> is a signed long; functions return the negated code.\<close>

type_synonym rt_err_t = int

abbreviation (input) RT_EOK :: rt_err_t where "RT_EOK \<equiv> 0"
abbreviation (input) RT_ERROR :: rt_err_t where "RT_ERROR \<equiv> 1"
abbreviation (input) RT_ETIMEOUT :: rt_err_t where "RT_ETIMEOUT \<equiv> 2"
abbreviation (input) RT_EFULL :: rt_err_t where "RT_EFULL \<equiv> 3"
abbreviation (input) RT_EEMPTY :: rt_err_t where "RT_EEMPTY \<equiv> 4"
abbreviation (input) RT_ENOMEM :: rt_err_t where "RT_ENOMEM \<equiv> 5"

section \<open>Rule collections\<close>

named_theorems kernel_defs \<open>definitions of the kernel state's accessors and field updates\<close>
named_theorems inv_intro \<open>an operation keeps an invariant\<close>

section \<open>Options as computations that may stop the kernel\<close>

definition rt_assert :: "bool \<Rightarrow> unit option" where
  "rt_assert b = (if b then Some () else None)"

lemma rt_assert_bind [simp]: "Option.bind (rt_assert b) f = (if b then f () else None)"
  by (simp add: rt_assert_def)

text \<open>An access to an array element or through a pointer, valid when \<open>b\<close> holds.\<close>

definition valid_access :: "bool \<Rightarrow> unit option" where
  "valid_access b = (if b then Some () else None)"

lemma valid_access_bind [simp]: "Option.bind (valid_access b) f = (if b then f () else None)"
  by (simp add: valid_access_def)

lemma bind_SomeD: "Option.bind x f = Some y \<Longrightarrow> \<exists>a. x = Some a \<and> f a = Some y"
  by (simp add: Option.bind_eq_Some_conv)

lemma if_None_eq_Some [simp]:
  "((if b then x else None) = Some y) \<longleftrightarrow> b \<and> x = Some y"
  "((if b then None else x) = Some y) \<longleftrightarrow> \<not> b \<and> x = Some y"
  by auto

section \<open>Lists\<close>

lemma remove1_middle: "x \<notin> set as \<Longrightarrow> remove1 x (as @ x # bs) = as @ bs"
  by (simp add: remove1_append)

end
