(* ===== verification/RtList.thy ===== *)
theory RtList
  imports Prelude
begin

text \<open>
  The intrusive doubly linked lists of \<^verbatim>\<open>include/rtservice.h\<close>, twice.  First as the C code
  has them: a heap of nodes with \<^verbatim>\<open>next\<close> and \<^verbatim>\<open>prev\<close> pointers and the six inline functions as
  sequences of pointer stores.  Then as the rest of the kernel model uses them: a family of
  HOL lists, one per list head, in which a node is on at most one list.  The refinement
  lemmas at the end show that each pointer routine implements the operation on the family,
  and the locale \<open>list_family\<close> states that contract for its clients.
\<close>

section \<open>The pointer representation\<close>

text \<open>A pointer is a list head embedded in some object, or the list node of an element.\<close>

datatype ('q, 't) lptr = Head 'q | Node 't

record ('q, 't) rt_list_node =
  ln_next :: "('q, 't) lptr"
  ln_prev :: "('q, 't) lptr"

type_synonym ('q, 't) lheap = "('q, 't) lptr \<Rightarrow> ('q, 't) rt_list_node"

definition set_next :: "('q, 't) lptr \<Rightarrow> ('q, 't) lptr \<Rightarrow> ('q, 't) lheap \<Rightarrow> ('q, 't) lheap" where
  "set_next p v h = h(p := (h p)\<lparr>ln_next := v\<rparr>)"

definition set_prev :: "('q, 't) lptr \<Rightarrow> ('q, 't) lptr \<Rightarrow> ('q, 't) lheap \<Rightarrow> ('q, 't) lheap" where
  "set_prev p v h = h(p := (h p)\<lparr>ln_prev := v\<rparr>)"

definition rt_list_init :: "('q, 't) lptr \<Rightarrow> ('q, 't) lheap \<Rightarrow> ('q, 't) lheap" where
  "rt_list_init l h = set_next l l (set_prev l l h)"

definition rt_list_insert_after ::
  "('q, 't) lptr \<Rightarrow> ('q, 't) lptr \<Rightarrow> ('q, 't) lheap \<Rightarrow> ('q, 't) lheap" where
  "rt_list_insert_after l n h =
     (let h = set_prev (ln_next (h l)) n h;
          h = set_next n (ln_next (h l)) h;
          h = set_next l n h
      in set_prev n l h)"

definition rt_list_insert_before ::
  "('q, 't) lptr \<Rightarrow> ('q, 't) lptr \<Rightarrow> ('q, 't) lheap \<Rightarrow> ('q, 't) lheap" where
  "rt_list_insert_before l n h =
     (let h = set_next (ln_prev (h l)) n h;
          h = set_prev n (ln_prev (h l)) h;
          h = set_prev l n h
      in set_next n l h)"

definition rt_list_remove :: "('q, 't) lptr \<Rightarrow> ('q, 't) lheap \<Rightarrow> ('q, 't) lheap" where
  "rt_list_remove n h =
     (let h = set_prev (ln_next (h n)) (ln_prev (h n)) h;
          h = set_next (ln_prev (h n)) (ln_next (h n)) h;
          h = set_prev n n h
      in set_next n n h)"

definition rt_list_isempty :: "('q, 't) lptr \<Rightarrow> ('q, 't) lheap \<Rightarrow> bool" where
  "rt_list_isempty l h = (ln_next (h l) = l)"

section \<open>The family of lists the kernel model uses\<close>

text \<open>
  One HOL list per head, and for every element the head of the list its node is linked on
  (\<open>None\<close> for a node that points to itself).  Linking a node that is already on a list
  breaks both lists in C; the family operations stop there (\<open>None\<close>), so that the absence
  of such a call is something to prove.
\<close>

record ('q, 't) family =
  fam_list :: "'q \<Rightarrow> 't list"
  fam_loc :: "'t \<Rightarrow> 'q option"

definition fam_insert_before :: "'q \<Rightarrow> 't \<Rightarrow> ('q, 't) family \<Rightarrow> ('q, 't) family option" where
  "fam_insert_before q t F =
     (if fam_loc F t = None
      then Some (F\<lparr>fam_list := (fam_list F)(q := fam_list F q @ [t]),
                   fam_loc := (fam_loc F)(t \<mapsto> q)\<rparr>)
      else None)"

definition fam_insert_after :: "'q \<Rightarrow> 't \<Rightarrow> ('q, 't) family \<Rightarrow> ('q, 't) family option" where
  "fam_insert_after q t F =
     (if fam_loc F t = None
      then Some (F\<lparr>fam_list := (fam_list F)(q := t # fam_list F q),
                   fam_loc := (fam_loc F)(t \<mapsto> q)\<rparr>)
      else None)"

fun insert_before_elem :: "'t \<Rightarrow> 't \<Rightarrow> 't list \<Rightarrow> 't list" where
  "insert_before_elem x t [] = []"
| "insert_before_elem x t (y # ys) = (if y = x then t # y # ys else y # insert_before_elem x t ys)"

definition fam_insert_before_node ::
  "'t \<Rightarrow> 't \<Rightarrow> ('q, 't) family \<Rightarrow> ('q, 't) family option" where
  "fam_insert_before_node x t F =
     (case (fam_loc F x, fam_loc F t) of
        (Some q, None) \<Rightarrow>
          Some (F\<lparr>fam_list := (fam_list F)(q := insert_before_elem x t (fam_list F q)),
                  fam_loc := (fam_loc F)(t \<mapsto> q)\<rparr>)
      | _ \<Rightarrow> None)"

definition fam_remove :: "'t \<Rightarrow> ('q, 't) family \<Rightarrow> ('q, 't) family" where
  "fam_remove t F =
     (case fam_loc F t of
        None \<Rightarrow> F
      | Some q \<Rightarrow> F\<lparr>fam_list := (fam_list F)(q := remove1 t (fam_list F q)),
                    fam_loc := (fam_loc F)(t := None)\<rparr>)"

definition fam_isempty :: "'q \<Rightarrow> ('q, 't) family \<Rightarrow> bool" where
  "fam_isempty q F = (fam_list F q = [])"

text \<open>A node's two neighbours differ: it is linked and not the only element of its list.\<close>

definition fam_has_neighbours :: "'t \<Rightarrow> ('q, 't) family \<Rightarrow> bool" where
  "fam_has_neighbours t F =
     (case fam_loc F t of None \<Rightarrow> False | Some q \<Rightarrow> 1 < length (fam_list F q))"

definition fam_wf :: "('q, 't) family \<Rightarrow> bool" where
  "fam_wf F \<longleftrightarrow> (\<forall>q. distinct (fam_list F q)) \<and>
     (\<forall>q t. t \<in> set (fam_list F q) \<longleftrightarrow> fam_loc F t = Some q)"

subsection \<open>The operations keep the family well formed\<close>

lemma fam_wfD:
  assumes "fam_wf F"
  shows fam_wf_distinct: "distinct (fam_list F q)"
    and fam_wf_mem: "t \<in> set (fam_list F q) \<longleftrightarrow> fam_loc F t = Some q"
  using assms by (auto simp: fam_wf_def)

lemma fam_locD: "fam_wf F \<Longrightarrow> fam_loc F t = Some q \<Longrightarrow> \<exists>as bs. fam_list F q = as @ t # bs \<and> t \<notin> set as"
  by (metis fam_wf_mem split_list_first)

lemma set_insert_before_elem:
  "x \<in> set xs \<Longrightarrow> set (insert_before_elem x t xs) = insert t (set xs)"
  by (induction xs) auto

lemma insert_before_elem_notin: "x \<notin> set xs \<Longrightarrow> insert_before_elem x t xs = xs"
  by (induction xs) auto

lemma insert_before_elem_split:
  "x \<notin> set as \<Longrightarrow> insert_before_elem x t (as @ x # bs) = as @ t # x # bs"
  by (induction as) auto

lemma distinct_insert_before_elem:
  "distinct xs \<Longrightarrow> t \<notin> set xs \<Longrightarrow> distinct (insert_before_elem x t xs)"
proof (induction xs)
  case (Cons y ys)
  then show ?case
    by (cases "x \<in> set ys") (auto simp: set_insert_before_elem insert_before_elem_notin)
qed simp

lemma fam_insert_before_wf: "fam_wf F \<Longrightarrow> fam_insert_before q t F = Some F' \<Longrightarrow> fam_wf F'"
  by (auto simp: fam_wf_def fam_insert_before_def split: if_splits)

lemma fam_insert_after_wf: "fam_wf F \<Longrightarrow> fam_insert_after q t F = Some F' \<Longrightarrow> fam_wf F'"
  by (auto simp: fam_wf_def fam_insert_after_def split: if_splits)

lemma fam_insert_before_node_wf:
  assumes wf: "fam_wf F" and ins: "fam_insert_before_node x t F = Some F'"
  shows "fam_wf F'"
proof -
  from ins obtain q where q: "fam_loc F x = Some q" "fam_loc F t = None"
    and F': "F' = F\<lparr>fam_list := (fam_list F)(q := insert_before_elem x t (fam_list F q)),
                  fam_loc := (fam_loc F)(t \<mapsto> q)\<rparr>"
    by (auto simp: fam_insert_before_node_def split: option.splits)
  have "x \<in> set (fam_list F q)" "\<And>r. t \<notin> set (fam_list F r)"
    using wf q by (auto simp: fam_wf_def)
  with wf show ?thesis
    by (auto simp: F' fam_wf_def set_insert_before_elem distinct_insert_before_elem split: if_splits)
qed

lemma fam_remove_wf: "fam_wf F \<Longrightarrow> fam_wf (fam_remove t F)"
  by (auto simp: fam_wf_def fam_remove_def split: option.splits if_splits)

lemma fam_loc_remove [simp]: "fam_loc (fam_remove t F) t = None"
  by (simp add: fam_remove_def split: option.splits)

lemma fam_loc_remove_other [simp]: "u \<noteq> t \<Longrightarrow> fam_loc (fam_remove t F) u = fam_loc F u"
  by (simp add: fam_remove_def split: option.splits)

lemma fam_list_remove: "fam_wf F \<Longrightarrow> fam_list (fam_remove t F) q = remove1 t (fam_list F q)"
  by (auto simp: fam_remove_def remove1_idem fam_wf_def split: option.splits)

section \<open>The pointer lists implement the family\<close>

text \<open>A doubly linked segment from node \<open>a\<close> through \<open>xs\<close> to node \<open>b\<close>.\<close>

fun dseg :: "('q, 't) lheap \<Rightarrow> ('q, 't) lptr \<Rightarrow> ('q, 't) lptr list \<Rightarrow> ('q, 't) lptr \<Rightarrow> bool" where
  "dseg h a [] b \<longleftrightarrow> ln_next (h a) = b \<and> ln_prev (h b) = a"
| "dseg h a (x # xs) b \<longleftrightarrow> ln_next (h a) = x \<and> ln_prev (h x) = a \<and> dseg h x xs b"

definition fam_rep :: "('q, 't) lheap \<Rightarrow> ('q, 't) family \<Rightarrow> bool" where
  "fam_rep h F \<longleftrightarrow> fam_wf F \<and>
     (\<forall>q. dseg h (Head q) (map Node (fam_list F q)) (Head q)) \<and>
     (\<forall>t. fam_loc F t = None \<longrightarrow> ln_next (h (Node t)) = Node t \<and> ln_prev (h (Node t)) = Node t)"

lemma dseg_append: "dseg h a (xs @ y # ys) b \<longleftrightarrow> dseg h a xs y \<and> dseg h y ys b"
  by (induction xs arbitrary: a) auto

lemma dseg_cong:
  assumes "\<And>p. p \<in> set (a # xs) \<Longrightarrow> ln_next (h' p) = ln_next (h p)"
    and "\<And>p. p \<in> set (xs @ [b]) \<Longrightarrow> ln_prev (h' p) = ln_prev (h p)"
  shows "dseg h' a xs b = dseg h a xs b"
  using assms by (induction xs arbitrary: a) auto

lemma next_set_next [simp]: "ln_next (set_next p v h q) = (if q = p then v else ln_next (h q))"
  and prev_set_next [simp]: "ln_prev (set_next p v h q) = ln_prev (h q)"
  and next_set_prev [simp]: "ln_next (set_prev p v h q) = ln_next (h q)"
  and prev_set_prev [simp]: "ln_prev (set_prev p v h q) = (if q = p then v else ln_prev (h q))"
  by (simp_all add: set_next_def set_prev_def)

text \<open>
  The effect of each routine on every pointer, under what the callers' lists guarantee: the
  neighbours point to each other and the new node is not one of them.
\<close>

definition splice :: "('q, 't) lheap \<Rightarrow> ('q, 't) lheap \<Rightarrow> ('q, 't) lptr \<Rightarrow> ('q, 't) lptr \<Rightarrow> ('q, 't) lptr \<Rightarrow> bool" where
  "splice h h' p n s \<longleftrightarrow>
     (\<forall>x. ln_next (h' x) = (if x = n then s else if x = p then n else ln_next (h x))) \<and>
     (\<forall>x. ln_prev (h' x) = (if x = n then p else if x = s then n else ln_prev (h x)))"

lemma insert_before_splice:
  "n \<noteq> l \<Longrightarrow> ln_prev (h l) \<noteq> n \<Longrightarrow> splice h (rt_list_insert_before l n h) (ln_prev (h l)) n l"
  by (auto simp: splice_def rt_list_insert_before_def Let_def)

lemma insert_after_splice:
  "n \<noteq> l \<Longrightarrow> ln_next (h l) \<noteq> n \<Longrightarrow> splice h (rt_list_insert_after l n h) l n (ln_next (h l))"
  by (auto simp: splice_def rt_list_insert_after_def Let_def)

lemma dseg_splice:
  assumes "dseg h a (xs @ ys) b" and "splice h h' (last (a # xs)) n (hd (ys @ [b]))"
    and "n \<notin> set (a # xs @ ys @ [b])" and "distinct (a # xs @ ys)" and "distinct (xs @ ys @ [b])"
  shows "dseg h' a (xs @ n # ys) b"
  using assms
proof (induction xs arbitrary: a)
  case Nil
  show ?case
  proof (cases ys)
    case Nil
    with Nil.prems show ?thesis by (auto simp: splice_def)
  next
    case (Cons y zs)
    with Nil.prems have "dseg h' y zs b = dseg h y zs b"
      by (intro dseg_cong) (auto simp: splice_def)
    with Cons Nil.prems show ?thesis by (auto simp: splice_def)
  qed
next
  case (Cons x xs)
  have "dseg h' x (xs @ n # ys) b"
    using Cons.prems by (intro Cons.IH) auto
  moreover have "last (x # xs) \<noteq> a" "hd (ys @ [b]) \<noteq> x"
    using Cons.prems(4,5) last_in_set [of "x # xs"] hd_in_set [of "ys @ [b]"] by auto
  then have "ln_next (h' a) = x" "ln_prev (h' x) = a"
    using Cons.prems(1,2,3) by (auto simp: splice_def)
  ultimately show ?case by simp
qed

lemma dseg_ends:
  assumes "dseg h a (xs @ ys) b"
  shows "ln_next (h (last (a # xs))) = hd (ys @ [b])" and "ln_prev (h (hd (ys @ [b]))) = last (a # xs)"
  using assms by (induction xs arbitrary: a; cases ys; auto)+

lemma fam_node_fresh: "fam_wf F \<Longrightarrow> fam_loc F t = None \<Longrightarrow> t \<notin> set (fam_list F q)"
  by (simp add: fam_wf_mem)

text \<open>Splicing a fresh node into one list of the family leaves every other list alone.\<close>

lemma fam_rep_splice:
  assumes rep: "fam_rep h F" and t: "fam_loc F t = None" and split: "fam_list F q = as @ bs"
    and spl: "splice h h' (last (Head q # map Node as)) (Node t) (hd (map Node bs @ [Head q]))"
  shows "fam_rep h' (F\<lparr>fam_list := (fam_list F)(q := as @ t # bs), fam_loc := (fam_loc F)(t \<mapsto> q)\<rparr>)"
proof -
  from rep have wf: "fam_wf F" and seg: "\<And>r. dseg h (Head r) (map Node (fam_list F r)) (Head r)"
    by (auto simp: fam_rep_def)
  have fresh: "t \<notin> set (fam_list F r)" for r using wf t by (rule fam_node_fresh)
  have dq: "distinct (as @ bs)" using fam_wf_distinct [OF wf, of q] split by simp
  have dqt: "distinct (as @ t # bs)" using dq fresh [of q] split by auto
  have here: "dseg h' (Head q) (map Node as @ Node t # map Node bs) (Head q)"
    using seg [of q] split spl fresh [of q] dq
    by (intro dseg_splice [where h = h]) (auto simp: distinct_map inj_on_def)
  have touched: "last (Head q # map Node as) \<in> insert (Head q) (Node ` set (fam_list F q))"
    "hd (map Node bs @ [Head q]) \<in> insert (Head q) (Node ` set (fam_list F q))"
    using split last_in_set [of "Head q # map Node as"] by (cases bs; auto)+
  have other: "dseg h' (Head r) (map Node (fam_list F r)) (Head r)" if "r \<noteq> q" for r
  proof -
    have "x \<notin> set (fam_list F q)" if "x \<in> set (fam_list F r)" for x
      using that \<open>r \<noteq> q\<close> wf by (simp add: fam_wf_mem)
    then have "dseg h' (Head r) (map Node (fam_list F r)) (Head r) =
        dseg h (Head r) (map Node (fam_list F r)) (Head r)"
      using spl touched \<open>r \<noteq> q\<close> fresh [of r] by (intro dseg_cong) (auto simp: splice_def)
    with seg show ?thesis by simp
  qed
  have lone: "ln_next (h' (Node u)) = Node u \<and> ln_prev (h' (Node u)) = Node u"
    if "u \<noteq> t" "fam_loc F u = None" for u
  proof -
    have "u \<notin> set (fam_list F q)" using wf that(2) by (rule fam_node_fresh)
    with touched spl that rep show ?thesis by (auto simp: splice_def fam_rep_def)
  qed
  have "u \<in> set as \<union> set bs \<longleftrightarrow> fam_loc F u = Some q" for u
    using fam_wf_mem [OF wf, of u q] split by simp
  then have "fam_wf (F\<lparr>fam_list := (fam_list F)(q := as @ t # bs), fam_loc := (fam_loc F)(t \<mapsto> q)\<rparr>)"
    using wf dqt t by (auto simp: fam_wf_def)
  with here other lone show ?thesis by (auto simp: fam_rep_def)
qed

definition unsplice :: "('q, 't) lheap \<Rightarrow> ('q, 't) lheap \<Rightarrow> ('q, 't) lptr \<Rightarrow> ('q, 't) lptr \<Rightarrow> ('q, 't) lptr \<Rightarrow> bool" where
  "unsplice h h' p n s \<longleftrightarrow>
     (\<forall>x. ln_next (h' x) = (if x = n then n else if x = p then s else ln_next (h x))) \<and>
     (\<forall>x. ln_prev (h' x) = (if x = n then n else if x = s then p else ln_prev (h x)))"

lemma remove_unsplice:
  "ln_prev (h n) \<noteq> n \<Longrightarrow> ln_next (h n) \<noteq> n \<Longrightarrow>
   unsplice h (rt_list_remove n h) (ln_prev (h n)) n (ln_next (h n))"
  by (auto simp: unsplice_def rt_list_remove_def Let_def)

lemma remove_lone:
  "ln_prev (h n) = n \<Longrightarrow> ln_next (h n) = n \<Longrightarrow>
   ln_next (rt_list_remove n h x) = ln_next (h x) \<and> ln_prev (rt_list_remove n h x) = ln_prev (h x)"
  by (auto simp: rt_list_remove_def Let_def)

lemma dseg_unsplice:
  assumes "dseg h a (xs @ n # ys) b" and "unsplice h h' (last (a # xs)) n (hd (ys @ [b]))"
    and "n \<notin> set (a # xs @ ys @ [b])" and "distinct (a # xs @ ys)" and "distinct (xs @ ys @ [b])"
  shows "dseg h' a (xs @ ys) b"
  using assms
proof (induction xs arbitrary: a)
  case Nil
  show ?case
  proof (cases ys)
    case Nil
    with Nil.prems show ?thesis by (auto simp: unsplice_def)
  next
    case (Cons y zs)
    with Nil.prems have "dseg h' y zs b = dseg h y zs b"
      by (intro dseg_cong) (auto simp: unsplice_def)
    with Cons Nil.prems show ?thesis by (auto simp: unsplice_def)
  qed
next
  case (Cons x xs)
  have "dseg h' x (xs @ ys) b"
    using Cons.prems by (intro Cons.IH) auto
  moreover have "last (x # xs) \<noteq> a" "hd (ys @ [b]) \<noteq> x"
    using Cons.prems(4,5) last_in_set [of "x # xs"] hd_in_set [of "ys @ [b]"] by auto
  then have "ln_next (h' a) = x" "ln_prev (h' x) = a"
    using Cons.prems(1,2,3) by (auto simp: unsplice_def)
  ultimately show ?case by simp
qed

lemma fam_rep_unsplice:
  assumes rep: "fam_rep h F" and split: "fam_list F q = as @ t # bs"
    and spl: "unsplice h h' (last (Head q # map Node as)) (Node t) (hd (map Node bs @ [Head q]))"
  shows "fam_rep h' (F\<lparr>fam_list := (fam_list F)(q := as @ bs), fam_loc := (fam_loc F)(t := None)\<rparr>)"
proof -
  from rep have wf: "fam_wf F" and seg: "\<And>r. dseg h (Head r) (map Node (fam_list F r)) (Head r)"
    by (auto simp: fam_rep_def)
  have dq: "distinct (as @ t # bs)" using fam_wf_distinct [OF wf, of q] split by simp
  have "dseg h (Head q) (map Node as @ Node t # map Node bs) (Head q)"
    using seg [of q] split by simp
  moreover have "Node t \<notin> set (Head q # map Node as @ map Node bs @ [Head q])"
    "distinct (Head q # map Node as @ map Node bs)" "distinct (map Node as @ map Node bs @ [Head q])"
    using dq by (auto simp: distinct_map inj_on_def)
  ultimately have here: "dseg h' (Head q) (map Node as @ map Node bs) (Head q)"
    using spl dseg_unsplice by blast
  have touched: "last (Head q # map Node as) \<in> insert (Head q) (Node ` set (fam_list F q))"
    "hd (map Node bs @ [Head q]) \<in> insert (Head q) (Node ` set (fam_list F q))"
    using split last_in_set [of "Head q # map Node as"] by (cases bs; auto)+
  have sep: "x \<notin> set (fam_list F q)" if "x \<in> set (fam_list F r)" "r \<noteq> q" for x r
    using that wf by (simp add: fam_wf_mem)
  have other: "dseg h' (Head r) (map Node (fam_list F r)) (Head r)" if "r \<noteq> q" for r
  proof -
    have "t \<notin> set (fam_list F r)" "\<And>x. x \<in> set (fam_list F r) \<Longrightarrow> x \<notin> set (fam_list F q)"
      using sep [OF _ that] split by auto
    then have "dseg h' (Head r) (map Node (fam_list F r)) (Head r) =
        dseg h (Head r) (map Node (fam_list F r)) (Head r)"
      using spl touched that by (intro dseg_cong) (auto simp: unsplice_def)
    with seg show ?thesis by simp
  qed
  have lone: "ln_next (h' (Node u)) = Node u \<and> ln_prev (h' (Node u)) = Node u"
    if "u \<noteq> t" "fam_loc F u = None" for u
  proof -
    have "u \<notin> set (fam_list F q)" using wf that(2) by (rule fam_node_fresh)
    with touched spl that rep show ?thesis by (auto simp: unsplice_def fam_rep_def)
  qed
  have "u \<in> set as \<union> set bs \<or> u = t \<longleftrightarrow> fam_loc F u = Some q" for u
    using fam_wf_mem [OF wf, of u q] split by auto
  then have "fam_wf (F\<lparr>fam_list := (fam_list F)(q := as @ bs), fam_loc := (fam_loc F)(t := None)\<rparr>)"
    using wf dq fam_wf_mem [OF wf, of t q] split by (auto simp: fam_wf_def)
  moreover have "ln_next (h' (Node t)) = Node t" "ln_prev (h' (Node t)) = Node t"
    using spl by (simp_all add: unsplice_def)
  ultimately show ?thesis using here other lone by (auto simp: fam_rep_def)
qed

subsection \<open>Refinement of each routine\<close>

lemma fam_rep_next_Head:
  assumes "fam_rep h F"
  shows "ln_next (h (Head q)) = (case fam_list F q of [] \<Rightarrow> Head q | t # _ \<Rightarrow> Node t)"
  using assms by (cases "fam_list F q") (auto simp: fam_rep_def dest: spec [of _ q])

lemma refine_insert_before:
  assumes rep: "fam_rep h F" and ins: "fam_insert_before q t F = Some F'"
  shows "fam_rep (rt_list_insert_before (Head q) (Node t) h) F'"
proof -
  from ins have t: "fam_loc F t = None"
    and F': "F' = F\<lparr>fam_list := (fam_list F)(q := fam_list F q @ t # []), fam_loc := (fam_loc F)(t \<mapsto> q)\<rparr>"
    by (auto simp: fam_insert_before_def)
  from rep have seg: "dseg h (Head q) (map Node (fam_list F q) @ []) (Head q)" and wf: "fam_wf F"
    by (auto simp: fam_rep_def)
  have p: "ln_prev (h (Head q)) = last (Head q # map Node (fam_list F q))"
    using dseg_ends(2) [OF seg] by simp
  have "t \<notin> set (fam_list F q)" using wf t by (rule fam_node_fresh)
  then have "last (Head q # map Node (fam_list F q)) \<noteq> Node t"
    using last_in_set [of "Head q # map Node (fam_list F q)"] by auto
  with p have "splice h (rt_list_insert_before (Head q) (Node t) h)
      (last (Head q # map Node (fam_list F q))) (Node t) (hd (map Node [] @ [Head q]))"
    using insert_before_splice [of "Node t" "Head q" h] by simp
  with rep t show ?thesis unfolding F' by (intro fam_rep_splice) auto
qed

lemma refine_insert_after:
  assumes rep: "fam_rep h F" and ins: "fam_insert_after q t F = Some F'"
  shows "fam_rep (rt_list_insert_after (Head q) (Node t) h) F'"
proof -
  from ins have t: "fam_loc F t = None"
    and F': "F' = F\<lparr>fam_list := (fam_list F)(q := [] @ t # fam_list F q), fam_loc := (fam_loc F)(t \<mapsto> q)\<rparr>"
    by (auto simp: fam_insert_after_def)
  from rep have seg: "dseg h (Head q) ([] @ map Node (fam_list F q)) (Head q)" and wf: "fam_wf F"
    by (auto simp: fam_rep_def)
  have s: "ln_next (h (Head q)) = hd (map Node (fam_list F q) @ [Head q])"
    using dseg_ends(1) [OF seg] by simp
  have "t \<notin> set (fam_list F q)" using wf t by (rule fam_node_fresh)
  then have "hd (map Node (fam_list F q) @ [Head q]) \<noteq> Node t"
    by (cases "fam_list F q") auto
  with s have "splice h (rt_list_insert_after (Head q) (Node t) h)
      (last (Head q # map Node [])) (Node t) (hd (map Node (fam_list F q) @ [Head q]))"
    using insert_after_splice [of "Node t" "Head q" h] by simp
  with rep t show ?thesis unfolding F' by (intro fam_rep_splice) auto
qed

lemma refine_insert_before_node:
  assumes rep: "fam_rep h F" and ins: "fam_insert_before_node x t F = Some F'"
  shows "fam_rep (rt_list_insert_before (Node x) (Node t) h) F'"
proof -
  from ins obtain q where x: "fam_loc F x = Some q" and t: "fam_loc F t = None"
    and F'0: "F' = F\<lparr>fam_list := (fam_list F)(q := insert_before_elem x t (fam_list F q)),
                  fam_loc := (fam_loc F)(t \<mapsto> q)\<rparr>"
    by (auto simp: fam_insert_before_node_def split: option.splits)
  from rep have wf: "fam_wf F" by (simp add: fam_rep_def)
  from fam_locD [OF wf x] obtain as bs where split: "fam_list F q = as @ x # bs" "x \<notin> set as" by blast
  then have F': "F' = F\<lparr>fam_list := (fam_list F)(q := as @ t # x # bs), fam_loc := (fam_loc F)(t \<mapsto> q)\<rparr>"
    by (simp add: F'0 insert_before_elem_split)
  from rep split have seg: "dseg h (Head q) (map Node as @ map Node (x # bs)) (Head q)"
    by (auto simp: fam_rep_def dest: spec [of _ q])
  have p: "ln_prev (h (Node x)) = last (Head q # map Node as)"
    using dseg_ends(2) [OF seg] by simp
  have "t \<notin> set (fam_list F q)" using wf t by (rule fam_node_fresh)
  then have "last (Head q # map Node as) \<noteq> Node t" and "t \<noteq> x"
    using split last_in_set [of "Head q # map Node as"] by auto
  with p have "splice h (rt_list_insert_before (Node x) (Node t) h)
      (last (Head q # map Node as)) (Node t) (hd (map Node (x # bs) @ [Head q]))"
    using insert_before_splice [of "Node t" "Node x" h] by simp
  with rep t split show ?thesis unfolding F' by (intro fam_rep_splice) auto
qed

lemma refine_remove:
  assumes rep: "fam_rep h F"
  shows "fam_rep (rt_list_remove (Node t) h) (fam_remove t F)"
proof (cases "fam_loc F t")
  case None
  with rep have lone: "ln_prev (h (Node t)) = Node t" "ln_next (h (Node t)) = Node t"
    by (auto simp: fam_rep_def)
  then have "dseg (rt_list_remove (Node t) h) a xs b = dseg h a xs b" for a xs b
    by (intro dseg_cong) (auto simp: remove_lone)
  with rep None lone show ?thesis by (simp add: fam_rep_def fam_remove_def remove_lone)
next
  case (Some q)
  from rep have wf: "fam_wf F" by (simp add: fam_rep_def)
  from fam_locD [OF wf Some] obtain as bs where split: "fam_list F q = as @ t # bs" "t \<notin> set as" by blast
  have dq: "distinct (as @ t # bs)" using fam_wf_distinct [OF wf, of q] split by simp
  from rep split have seg: "dseg h (Head q) (map Node as) (Node t)" "dseg h (Node t) (map Node bs) (Head q)"
    by (auto simp: fam_rep_def dseg_append dest: spec [of _ q])
  have p: "ln_prev (h (Node t)) = last (Head q # map Node as)"
    using dseg_ends(2) [of h "Head q" "map Node as" "[]"] seg(1) by simp
  have s: "ln_next (h (Node t)) = hd (map Node bs @ [Head q])"
    using dseg_ends(1) [of h "Node t" "[]" "map Node bs"] seg(2) by simp
  have "last (Head q # map Node as) \<noteq> Node t" "hd (map Node bs @ [Head q]) \<noteq> Node t"
    using dq last_in_set [of "Head q # map Node as"] by (cases bs; auto)+
  then have "unsplice h (rt_list_remove (Node t) h) (last (Head q # map Node as)) (Node t)
      (hd (map Node bs @ [Head q]))"
    using remove_unsplice [of h "Node t"] p s by simp
  from fam_rep_unsplice [OF rep split(1) this] show ?thesis
    using Some split by (simp add: fam_remove_def remove1_middle)
qed

lemma refine_has_neighbours:
  assumes rep: "fam_rep h F"
  shows "(ln_next (h (Node t)) \<noteq> ln_prev (h (Node t))) = fam_has_neighbours t F"
proof (cases "fam_loc F t")
  case None
  with rep show ?thesis by (simp add: fam_rep_def fam_has_neighbours_def)
next
  case (Some q)
  have wf: "fam_wf F" using rep by (simp add: fam_rep_def)
  from fam_locD [OF wf Some] obtain as bs where sp: "fam_list F q = as @ t # bs" by blast
  have d: "distinct (as @ t # bs)" using fam_wf_distinct [OF wf, of q] sp by simp
  have "dseg h (Head q) (map Node (fam_list F q)) (Head q)" using rep by (simp add: fam_rep_def)
  then have seg: "dseg h (Head q) (map Node as @ Node t # map Node bs) (Head q)" by (simp add: sp)
  have n: "ln_next (h (Node t)) = hd (map Node bs @ [Head q])"
    using dseg_ends(1) [of h "Head q" "map Node as @ [Node t]" "map Node bs" "Head q"] seg by simp
  have p: "ln_prev (h (Node t)) = last (Head q # map Node as)"
    using dseg_ends(2) [of h "Head q" "map Node as" "Node t # map Node bs" "Head q"] seg by simp
  show ?thesis unfolding n p fam_has_neighbours_def using Some sp d
    by (cases as rule: rev_cases; cases bs) auto
qed

lemma refine_isempty: "fam_rep h F \<Longrightarrow> rt_list_isempty (Head q) h = fam_isempty q F"
  by (simp add: rt_list_isempty_def fam_isempty_def fam_rep_next_Head split: list.split)

section \<open>The contract the kernel relies on\<close>

text \<open>
  What the scheduler, the timer queue, the object containers and the wait queues of the IPC
  objects use of the list routines, for any representation \<open>rep\<close> of a family.
\<close>

locale list_family =
  fixes rep :: "'h \<Rightarrow> ('q, 't) family \<Rightarrow> bool"
    and insert_before :: "('q, 't) lptr \<Rightarrow> ('q, 't) lptr \<Rightarrow> 'h \<Rightarrow> 'h"
    and insert_after :: "('q, 't) lptr \<Rightarrow> ('q, 't) lptr \<Rightarrow> 'h \<Rightarrow> 'h"
    and remove :: "('q, 't) lptr \<Rightarrow> 'h \<Rightarrow> 'h"
    and isempty :: "('q, 't) lptr \<Rightarrow> 'h \<Rightarrow> bool"
  assumes rep_insert_before:
      "rep h F \<Longrightarrow> fam_insert_before q t F = Some F' \<Longrightarrow> rep (insert_before (Head q) (Node t) h) F'"
    and rep_insert_after:
      "rep h F \<Longrightarrow> fam_insert_after q t F = Some F' \<Longrightarrow> rep (insert_after (Head q) (Node t) h) F'"
    and rep_insert_before_node:
      "rep h F \<Longrightarrow> fam_insert_before_node x t F = Some F' \<Longrightarrow> rep (insert_before (Node x) (Node t) h) F'"
    and rep_remove: "rep h F \<Longrightarrow> rep (remove (Node t) h) (fam_remove t F)"
    and rep_isempty: "rep h F \<Longrightarrow> isempty (Head q) h = fam_isempty q F"

datatype ('q, 't) list_op =
    InsertBefore 'q 't
  | InsertAfter 'q 't
  | InsertBeforeNode 't 't
  | Remove 't

fun fam_op :: "('q, 't) list_op \<Rightarrow> ('q, 't) family \<Rightarrow> ('q, 't) family option" where
  "fam_op (InsertBefore q t) F = fam_insert_before q t F"
| "fam_op (InsertAfter q t) F = fam_insert_after q t F"
| "fam_op (InsertBeforeNode x t) F = fam_insert_before_node x t F"
| "fam_op (Remove t) F = Some (fam_remove t F)"

fun fam_run :: "('q, 't) list_op list \<Rightarrow> ('q, 't) family \<Rightarrow> ('q, 't) family option" where
  "fam_run [] F = Some F"
| "fam_run (x # xs) F = Option.bind (fam_op x F) (fam_run xs)"

fun impl_op ::
  "(('q, 't) lptr \<Rightarrow> ('q, 't) lptr \<Rightarrow> 'h \<Rightarrow> 'h) \<Rightarrow> (('q, 't) lptr \<Rightarrow> ('q, 't) lptr \<Rightarrow> 'h \<Rightarrow> 'h) \<Rightarrow>
   (('q, 't) lptr \<Rightarrow> 'h \<Rightarrow> 'h) \<Rightarrow> ('q, 't) list_op \<Rightarrow> 'h \<Rightarrow> 'h" where
  "impl_op ib ia rm (InsertBefore q t) h = ib (Head q) (Node t) h"
| "impl_op ib ia rm (InsertAfter q t) h = ia (Head q) (Node t) h"
| "impl_op ib ia rm (InsertBeforeNode x t) h = ib (Node x) (Node t) h"
| "impl_op ib ia rm (Remove t) h = rm (Node t) h"

context list_family
begin

lemma op_refines:
  "rep h F \<Longrightarrow> fam_op x F = Some F' \<Longrightarrow> rep (impl_op insert_before insert_after remove x h) F'"
  by (cases x) (auto intro: rep_insert_before rep_insert_after rep_insert_before_node rep_remove)

lemma run_refines:
  "rep h F \<Longrightarrow> fam_run xs F = Some F' \<Longrightarrow>
   rep (fold (impl_op insert_before insert_after remove) xs h) F'"
  by (induction xs arbitrary: h F) (auto simp: Option.bind_eq_Some_conv intro: op_refines)

lemma run_isempty:
  "rep h F \<Longrightarrow> fam_run xs F = Some F' \<Longrightarrow>
   isempty (Head q) (fold (impl_op insert_before insert_after remove) xs h) = (fam_list F' q = [])"
  using run_refines [of h F xs F'] by (simp add: rep_isempty fam_isempty_def)

end

interpretation ptr_lists: list_family fam_rep rt_list_insert_before rt_list_insert_after
    rt_list_remove rt_list_isempty
  by unfold_locales
    (auto intro: refine_insert_before refine_insert_after refine_insert_before_node refine_remove
      simp: refine_isempty)

text \<open>The heads a static table holds after \<^verbatim>\<open>rt_list_init\<close>, and unlinked nodes.\<close>

definition init_heap :: "('q, 't) lheap" where
  "init_heap = (\<lambda>p. \<lparr>ln_next = p, ln_prev = p\<rparr>)"

definition empty_family :: "('q, 't) family" where
  "empty_family = \<lparr>fam_list = (\<lambda>_. []), fam_loc = (\<lambda>_. None)\<rparr>"

lemma rt_list_init_self: "rt_list_init p h p = \<lparr>ln_next = p, ln_prev = p\<rparr>"
  by (simp add: rt_list_init_def set_next_def set_prev_def)

lemma init_heap_rep: "fam_rep init_heap empty_family"
  by (simp add: fam_rep_def fam_wf_def init_heap_def empty_family_def)

text \<open>The list read off the pointers, following \<^verbatim>\<open>next\<close> for at most \<open>n\<close> steps.\<close>

fun walk :: "nat \<Rightarrow> ('q, 't) lheap \<Rightarrow> ('q, 't) lptr \<Rightarrow> 't list" where
  "walk 0 h p = []"
| "walk (Suc n) h p = (case ln_next (h p) of Head _ \<Rightarrow> [] | Node t \<Rightarrow> t # walk n h (Node t))"

lemma walk_dseg: "dseg h p (map Node ts) (Head q) \<Longrightarrow> length ts < n \<Longrightarrow> walk n h p = ts"
proof (induction ts arbitrary: p n)
  case Nil
  then show ?case by (cases n) auto
next
  case (Cons t ts)
  then show ?case by (cases n) auto
qed

text \<open>
  C1: Any sequence of \<^verbatim>\<open>rt_list_insert_before\<close>, \<^verbatim>\<open>rt_list_insert_after\<close> and
  \<^verbatim>\<open>rt_list_remove\<close> calls that never links a node twice, executed as pointer stores from
  freshly initialised nodes, leaves every list walkable through its \<^verbatim>\<open>next\<close> pointers as
  exactly the list the abstract operations compute.
\<close>

theorem rt_list_refines_family:
  assumes "fam_run ops empty_family = Some F" and "length (fam_list F q) < n"
  shows "walk n (fold (impl_op rt_list_insert_before rt_list_insert_after rt_list_remove) ops init_heap)
           (Head q) = fam_list F q"
proof -
  have "fam_rep (fold (impl_op rt_list_insert_before rt_list_insert_after rt_list_remove) ops init_heap) F"
    using init_heap_rep assms(1) by (rule ptr_lists.run_refines)
  with assms(2) show ?thesis by (auto simp: fam_rep_def intro: walk_dseg)
qed

theorem rt_list_refines_family_witness:
  "walk 5 (fold (impl_op rt_list_insert_before rt_list_insert_after rt_list_remove)
       [InsertBefore 0 7, InsertBefore 0 8, InsertAfter 1 9, InsertBeforeNode 8 6, Remove (7::nat)]
       init_heap) (Head (0::nat)) = [6, 8]"
proof -
  let ?ops = "[InsertBefore (0::nat) (7::nat), InsertBefore 0 8, InsertAfter 1 9, InsertBeforeNode 8 6, Remove 7]"
  obtain F where F: "fam_run ?ops empty_family = Some F" "fam_list F 0 = [6, 8]"
    by (simp add: fam_insert_before_def fam_insert_after_def fam_insert_before_node_def
        fam_remove_def empty_family_def)
  show ?thesis using rt_list_refines_family [OF F(1), of 0 5] F(2) by simp
qed

end
