(* ===== verification/KService.thy ===== *)
theory KService
  imports Prelude
begin

text \<open>
  The kernel services of \<^verbatim>\<open>src/kservice.c\<close> the kernel proper relies on: the lowest-set-bit
  search \<^verbatim>\<open>__rt_ffs\<close> over its 256-entry table, and the bounded string routines with which
  objects are named and found.
\<close>

unbundle bit_operations_syntax

section \<open>Find first set\<close>

definition lowest_bit_bitmap :: "nat list" where
  "lowest_bit_bitmap =
    [0, 0, 1, 0, 2, 0, 1, 0, 3, 0, 1, 0, 2, 0, 1, 0,
     4, 0, 1, 0, 2, 0, 1, 0, 3, 0, 1, 0, 2, 0, 1, 0,
     5, 0, 1, 0, 2, 0, 1, 0, 3, 0, 1, 0, 2, 0, 1, 0,
     4, 0, 1, 0, 2, 0, 1, 0, 3, 0, 1, 0, 2, 0, 1, 0,
     6, 0, 1, 0, 2, 0, 1, 0, 3, 0, 1, 0, 2, 0, 1, 0,
     4, 0, 1, 0, 2, 0, 1, 0, 3, 0, 1, 0, 2, 0, 1, 0,
     5, 0, 1, 0, 2, 0, 1, 0, 3, 0, 1, 0, 2, 0, 1, 0,
     4, 0, 1, 0, 2, 0, 1, 0, 3, 0, 1, 0, 2, 0, 1, 0,
     7, 0, 1, 0, 2, 0, 1, 0, 3, 0, 1, 0, 2, 0, 1, 0,
     4, 0, 1, 0, 2, 0, 1, 0, 3, 0, 1, 0, 2, 0, 1, 0,
     5, 0, 1, 0, 2, 0, 1, 0, 3, 0, 1, 0, 2, 0, 1, 0,
     4, 0, 1, 0, 2, 0, 1, 0, 3, 0, 1, 0, 2, 0, 1, 0,
     6, 0, 1, 0, 2, 0, 1, 0, 3, 0, 1, 0, 2, 0, 1, 0,
     4, 0, 1, 0, 2, 0, 1, 0, 3, 0, 1, 0, 2, 0, 1, 0,
     5, 0, 1, 0, 2, 0, 1, 0, 3, 0, 1, 0, 2, 0, 1, 0,
     4, 0, 1, 0, 2, 0, 1, 0, 3, 0, 1, 0, 2, 0, 1, 0]"

definition rt_ffs :: "u32 \<Rightarrow> nat" where
  "rt_ffs v =
     (if v = 0 then 0
      else if v AND 0xff \<noteq> 0 then lowest_bit_bitmap ! unat (v AND 0xff) + 1
      else if v AND 0xff00 \<noteq> 0 then lowest_bit_bitmap ! unat (drop_bit 8 (v AND 0xff00)) + 9
      else if v AND 0xff0000 \<noteq> 0 then lowest_bit_bitmap ! unat (drop_bit 16 (v AND 0xff0000)) + 17
      else lowest_bit_bitmap ! unat (drop_bit 24 (v AND 0xff000000)) + 25)"

text \<open>An entry is right when its index is an odd multiple of the power of two it names.\<close>

fun table_ok :: "nat \<Rightarrow> nat list \<Rightarrow> bool" where
  "table_ok i [] = True"
| "table_ok i (b # bs) = (b < 8 \<and> i mod 2 ^ Suc b = 2 ^ b \<and> table_ok (i + 1) bs)"

lemma table_okD:
  "table_ok i bs \<Longrightarrow> k < length bs \<Longrightarrow> bs ! k < 8 \<and> take_bit (Suc (bs ! k)) (i + k) = 2 ^ (bs ! k)"
proof (induction bs arbitrary: i k)
  case (Cons b bs)
  then show ?case using Cons.IH [of "Suc i" "k - 1"] by (cases k) (auto simp: take_bit_eq_mod)
qed simp

lemma lowest_bit_bitmap_ok: "table_ok 1 (tl lowest_bit_bitmap)" "length lowest_bit_bitmap = 256"
  by (simp_all add: lowest_bit_bitmap_def)

lemma take_bit_exp_bits:
  assumes "take_bit (Suc b) i = (2::nat) ^ b" and "j \<le> b"
  shows "bit i j \<longleftrightarrow> j = b"
proof -
  have "bit (take_bit (Suc b) i) j = bit ((2::nat) ^ b) j" using assms(1) by simp
  with assms(2) show ?thesis by (auto simp: bit_take_bit_iff bit_exp_iff)
qed

lemma lowest_bit_bitmap_nth:
  assumes "0 < i" and "i < 256"
  shows "lowest_bit_bitmap ! i < 8" "bit i (lowest_bit_bitmap ! i)"
    "j < lowest_bit_bitmap ! i \<Longrightarrow> \<not> bit i j"
proof -
  have "tl lowest_bit_bitmap ! (i - 1) = lowest_bit_bitmap ! i"
    using assms lowest_bit_bitmap_ok(2) by (simp add: nth_tl)
  with table_okD [OF lowest_bit_bitmap_ok(1), of "i - 1"] assms lowest_bit_bitmap_ok(2)
  have *: "lowest_bit_bitmap ! i < 8" "take_bit (Suc (lowest_bit_bitmap ! i)) i = 2 ^ (lowest_bit_bitmap ! i)"
    by auto
  then show "lowest_bit_bitmap ! i < 8" "bit i (lowest_bit_bitmap ! i)"
    "j < lowest_bit_bitmap ! i \<Longrightarrow> \<not> bit i j"
    using take_bit_exp_bits [OF *(2)] by auto
qed

text \<open>One byte of the word, as the table is indexed.\<close>

lemma byte_nth:
  fixes v :: u32
  assumes "w = take_bit 8 (drop_bit s v)" and "w \<noteq> 0" and "s \<le> 24"
  defines "b \<equiv> lowest_bit_bitmap ! unat w"
  shows "b < 8" "bit v (s + b)" "j < b \<Longrightarrow> \<not> bit v (s + j)"
proof -
  have lt: "unat w < 256"
    unfolding assms(1) unsigned_take_bit_eq using take_bit_nat_less_exp [of 8 "unat (drop_bit s v)"]
    by simp
  have pos: "0 < unat w" using assms(2) by (simp add: unat_gt_0)
  have bits: "bit (unat w) i \<longleftrightarrow> i < 8 \<and> bit v (s + i)" for i
    unfolding assms(1) using assms(3)
    by (auto simp: bit_unsigned_iff bit_take_bit_iff bit_drop_bit_eq bit_imp_le_length
        dest: bit_imp_le_length)
  show "b < 8" unfolding b_def using pos lt by (rule lowest_bit_bitmap_nth(1))
  show "bit v (s + b)" using lowest_bit_bitmap_nth(2) [OF pos lt] bits by (simp add: b_def)
  show "\<not> bit v (s + j)" if "j < b"
    using lowest_bit_bitmap_nth(1) [OF pos lt] lowest_bit_bitmap_nth(3) [OF pos lt, of j] that bits
    by (simp add: b_def)
qed

lemma mask_byte:
  fixes v :: u32
  shows "v AND 0xff = take_bit 8 (drop_bit 0 v)"
    and "drop_bit 8 (v AND 0xff00) = take_bit 8 (drop_bit 8 v)"
    and "drop_bit 16 (v AND 0xff0000) = take_bit 8 (drop_bit 16 v)"
    and "drop_bit 24 (v AND 0xff000000) = take_bit 8 (drop_bit 24 v)"
proof -
  have m: "0xff = (mask 8 :: u32)" "0xff00 = (push_bit 8 (mask 8) :: u32)"
    "0xff0000 = (push_bit 16 (mask 8) :: u32)" "0xff000000 = (push_bit 24 (mask 8) :: u32)"
    by (simp_all add: mask_eq_exp_minus_1)
  show "v AND 0xff = take_bit 8 (drop_bit 0 v)" by (simp add: m take_bit_eq_mask)
  show "drop_bit 8 (v AND 0xff00) = take_bit 8 (drop_bit 8 v)"
    unfolding m by (rule bit_eqI) (auto simp: bit_simps)
  show "drop_bit 16 (v AND 0xff0000) = take_bit 8 (drop_bit 16 v)"
    unfolding m by (rule bit_eqI) (auto simp: bit_simps)
  show "drop_bit 24 (v AND 0xff000000) = take_bit 8 (drop_bit 24 v)"
    unfolding m by (rule bit_eqI) (auto simp: bit_simps)
qed

lemma bits_of_bytes:
  fixes v :: u32
  assumes "v \<noteq> 0"
  shows "take_bit 8 (drop_bit 0 v) \<noteq> 0 \<or> take_bit 8 (drop_bit 8 v) \<noteq> 0 \<or>
    take_bit 8 (drop_bit 16 v) \<noteq> 0 \<or> take_bit 8 (drop_bit 24 v) \<noteq> 0"
proof -
  from assms obtain i where i: "bit v i" by (auto simp: bit_eq_iff)
  then have "i < 32" by (auto dest: bit_imp_le_length)
  have "bit (take_bit 8 (drop_bit s v)) (i - s)" if "s \<le> i" "i < s + 8" for s
    using i that by (simp add: bit_take_bit_iff bit_drop_bit_eq)
  moreover have "i < 8 \<or> 8 \<le> i \<and> i < 16 \<or> 16 \<le> i \<and> i < 24 \<or> 24 \<le> i \<and> i < 32"
    using \<open>i < 32\<close> by linarith
  ultimately show ?thesis by fastforce
qed

lemma byte_zero_bits:
  fixes v :: u32
  assumes "take_bit 8 (drop_bit s v) = 0" and "s \<le> i" and "i < s + 8"
  shows "\<not> bit v i"
proof -
  have "\<not> bit (take_bit 8 (drop_bit s v)) (i - s)" using assms(1) by simp
  with assms(2,3) show ?thesis by (simp add: bit_take_bit_iff bit_drop_bit_eq)
qed

lemma rt_ffs_byte:
  assumes low: "\<And>i. i < s \<Longrightarrow> \<not> bit v i" and "s \<le> 24" and w: "take_bit 8 (drop_bit s v) \<noteq> (0::u32)"
  shows "lowest_bit_bitmap ! unat (take_bit 8 (drop_bit s v)) + s = (LEAST p. bit v p)"
proof -
  note b = byte_nth [OF refl w \<open>s \<le> 24\<close>]
  have "\<not> bit v j" if "j < s + lowest_bit_bitmap ! unat (take_bit 8 (drop_bit s v))" for j
    using low [of j] b(3) [of "j - s"] that by (cases "j < s") auto
  with b(2) show ?thesis by (intro Least_equality [symmetric]) (auto simp: add.commute not_less [symmetric])
qed

lemma mask_zero:
  fixes v :: u32
  shows "v AND 0xff00 = 0 \<longleftrightarrow> take_bit 8 (drop_bit 8 v) = 0"
    and "v AND 0xff0000 = 0 \<longleftrightarrow> take_bit 8 (drop_bit 16 v) = 0"
proof -
  have *: "v AND push_bit s (mask 8) = push_bit s (take_bit 8 (drop_bit s v))" for s
    by (rule bit_eqI) (auto simp: bit_simps)
  have zero: "push_bit s w = 0 \<longleftrightarrow> w = 0" if "w = take_bit 8 (drop_bit s v)" "s \<le> 24" for s and w :: u32
  proof
    assume "push_bit s w = 0"
    then have "drop_bit s (push_bit s w) = 0" by simp
    moreover have "drop_bit s (push_bit s w) = w"
      using that by (intro bit_eqI) (auto simp: bit_simps)
    ultimately show "w = 0" by simp
  qed simp
  have m: "0xff00 = (push_bit 8 (mask 8) :: u32)" "0xff0000 = (push_bit 16 (mask 8) :: u32)"
    by (simp_all add: mask_eq_exp_minus_1)
  show "v AND 0xff00 = 0 \<longleftrightarrow> take_bit 8 (drop_bit 8 v) = 0"
    unfolding m * by (rule zero) simp_all
  show "v AND 0xff0000 = 0 \<longleftrightarrow> take_bit 8 (drop_bit 16 v) = 0"
    unfolding m * by (rule zero) simp_all
qed

lemma rt_ffs_eq:
  "rt_ffs v = (if v = 0 then 0
     else if take_bit 8 (drop_bit 0 v) \<noteq> 0 then lowest_bit_bitmap ! unat (take_bit 8 (drop_bit 0 v)) + 0 + 1
     else if take_bit 8 (drop_bit 8 v) \<noteq> 0 then lowest_bit_bitmap ! unat (take_bit 8 (drop_bit 8 v)) + 8 + 1
     else if take_bit 8 (drop_bit 16 v) \<noteq> 0 then lowest_bit_bitmap ! unat (take_bit 8 (drop_bit 16 v)) + 16 + 1
     else lowest_bit_bitmap ! unat (take_bit 8 (drop_bit 24 v)) + 24 + 1)"
  unfolding rt_ffs_def by (simp only: mask_byte mask_zero add.assoc) simp

lemma rt_ffs_Least: "rt_ffs v = (if v = 0 then 0 else Suc (LEAST p. bit v p))"
proof (cases "v = 0")
  case False
  let ?B = "\<lambda>s. take_bit 8 (drop_bit s v)"
  consider "?B 0 \<noteq> 0" | "?B 0 = 0" "?B 8 \<noteq> 0" | "?B 0 = 0" "?B 8 = 0" "?B 16 \<noteq> 0"
    | "?B 0 = 0" "?B 8 = 0" "?B 16 = 0" "?B 24 \<noteq> 0"
    using bits_of_bytes [OF False] by blast
  then show ?thesis
  proof cases
    case 1
    with False rt_ffs_byte [of 0 v] show ?thesis by (simp add: rt_ffs_eq)
  next
    case 2
    then have "\<not> bit v i" if "i < 8" for i using that byte_zero_bits [of 0 v i] by simp
    with 2 False rt_ffs_byte [of 8 v] show ?thesis by (simp add: rt_ffs_eq)
  next
    case 3
    then have "\<not> bit v i" if "i < 16" for i
      using that byte_zero_bits [of 0 v i] byte_zero_bits [of 8 v i] by (cases "i < 8") simp_all
    with 3 False rt_ffs_byte [of 16 v] show ?thesis by (simp add: rt_ffs_eq)
  next
    case 4
    then have "\<not> bit v i" if "i < 24" for i
      using that byte_zero_bits [of 0 v i] byte_zero_bits [of 8 v i] byte_zero_bits [of 16 v i]
      by (cases "i < 8"; cases "i < 16") simp_all
    with 4 False rt_ffs_byte [of 24 v] show ?thesis by (simp add: rt_ffs_eq)
  qed
qed (simp add: rt_ffs_def)

text \<open>
  \<^verbatim>\<open>__rt_ffs\<close> returns 0 on 0, and otherwise one more than the number of the lowest bit
  that is set, for every 32-bit value: the table search agrees with the definition of
  "find first set".
\<close>

theorem rt_ffs_correct: "rt_ffs v = (if v = 0 then 0 else Suc (LEAST p. bit v p))"
  by (rule rt_ffs_Least)

section \<open>Bounded strings\<close>

text \<open>
  A C string is the list of its bytes; reading at its end reads the terminating zero.
\<close>

type_synonym cstr = "u8 list"

definition at0 :: "cstr \<Rightarrow> u8" where
  "at0 s = (case s of [] \<Rightarrow> 0 | c # _ \<Rightarrow> c)"

fun rt_strncpy :: "cstr \<Rightarrow> nat \<Rightarrow> u8 list" where
  "rt_strncpy src 0 = []"
| "rt_strncpy src (Suc n) =
     (if at0 src = 0 then 0 # replicate n 0 else at0 src # rt_strncpy (tl src) n)"

text \<open>\<^verbatim>\<open>__res\<close> is a signed char: the difference is taken modulo 256.\<close>

fun rt_strncmp :: "cstr \<Rightarrow> cstr \<Rightarrow> nat \<Rightarrow> u8" where
  "rt_strncmp cs ct 0 = 0"
| "rt_strncmp cs ct (Suc n) =
     (let res = at0 cs - at0 ct
      in if res \<noteq> 0 \<or> at0 cs = 0 then res else rt_strncmp (tl cs) (tl ct) n)"

lemma length_rt_strncpy [simp]: "length (rt_strncpy s n) = n"
  by (induction s n rule: rt_strncpy.induct) auto

lemma rt_strncpy_replicate [simp]: "rt_strncpy (replicate m 0) n = replicate n 0"
  by (cases n; cases m) (auto simp: at0_def)

lemma rt_strncpy_idem: "rt_strncpy (rt_strncpy s n) n = rt_strncpy s n"
  by (induction s n rule: rt_strncpy.induct) (auto simp: at0_def)

lemma rt_strncmp_zero_iff: "rt_strncmp cs ct n = 0 \<longleftrightarrow> rt_strncpy cs n = rt_strncpy ct n"
  by (induction cs ct n rule: rt_strncmp.induct) (auto simp: Let_def)

end
