(* ===== verification/Object.thy ===== *)
theory Object
  imports RtList KService
begin

text \<open>
  Kernel object management, \<^verbatim>\<open>src/object.c\<close>: the header every kernel object carries and the
  containers, one list per object class.  The object that is looked up, attached or
  detached is named by a value of a type \<open>'o\<close>; the containers are a list family over it, so
  attaching an object that is already in a container stops the model.
\<close>

unbundle bit_operations_syntax

abbreviation (input) RT_NAME_MAX :: nat where "RT_NAME_MAX \<equiv> 8"

abbreviation (input) RT_Object_Class_Static :: u8 where "RT_Object_Class_Static \<equiv> 0x80"

datatype rt_object_class_type =
    RT_Object_Class_Thread
  | RT_Object_Class_Semaphore
  | RT_Object_Class_Mutex
  | RT_Object_Class_Event
  | RT_Object_Class_MailBox
  | RT_Object_Class_MessageQueue
  | RT_Object_Class_MemHeap
  | RT_Object_Class_MemPool
  | RT_Object_Class_Device
  | RT_Object_Class_Timer
  | RT_Object_Class_Unknown

fun class_code :: "rt_object_class_type \<Rightarrow> u8" where
  "class_code RT_Object_Class_Thread = 0"
| "class_code RT_Object_Class_Semaphore = 1"
| "class_code RT_Object_Class_Mutex = 2"
| "class_code RT_Object_Class_Event = 3"
| "class_code RT_Object_Class_MailBox = 4"
| "class_code RT_Object_Class_MessageQueue = 5"
| "class_code RT_Object_Class_MemHeap = 6"
| "class_code RT_Object_Class_MemPool = 7"
| "class_code RT_Object_Class_Device = 8"
| "class_code RT_Object_Class_Timer = 9"
| "class_code RT_Object_Class_Unknown = 10"

record rt_object =
  obj_name :: "u8 list"
  obj_type :: u8
  obj_flag :: u8

record 'o objects =
  rt_object_container :: "(u8, 'o) family"
  obj_hdr :: "'o \<Rightarrow> rt_object"

definition rt_object_init :: "'o \<Rightarrow> rt_object_class_type \<Rightarrow> cstr \<Rightarrow> 'o objects \<Rightarrow> 'o objects option" where
  "rt_object_init ob ty name os =
     do { let hdr = (obj_hdr os ob)\<lparr>obj_type := class_code ty OR RT_Object_Class_Static,
                                    obj_name := rt_strncpy name RT_NAME_MAX\<rparr>;
          C \<leftarrow> fam_insert_after (class_code ty) ob (rt_object_container os);
          Some (os\<lparr>rt_object_container := C, obj_hdr := (obj_hdr os)(ob := hdr)\<rparr>) }"

definition rt_object_detach :: "'o \<Rightarrow> 'o objects \<Rightarrow> 'o objects" where
  "rt_object_detach ob os = os\<lparr>rt_object_container := fam_remove ob (rt_object_container os)\<rparr>"

text \<open>
  \<^verbatim>\<open>rt_object_allocate\<close> takes the outcome of \<^verbatim>\<open>RT_KERNEL_MALLOC\<close> (the object at the address
  returned, or nothing) as an argument and returns the object.
\<close>

definition rt_object_allocate ::
  "'o option \<Rightarrow> rt_object_class_type \<Rightarrow> cstr \<Rightarrow> 'o objects \<Rightarrow> ('o option \<times> 'o objects) option" where
  "rt_object_allocate mem ty name os =
     (case mem of
        None \<Rightarrow> Some (None, os)
      | Some ob \<Rightarrow>
          do { let hdr = \<lparr>obj_name = rt_strncpy name RT_NAME_MAX, obj_type = class_code ty, obj_flag = 0\<rparr>;
               C \<leftarrow> fam_insert_after (class_code ty) ob (rt_object_container os);
               Some (Some ob, os\<lparr>rt_object_container := C, obj_hdr := (obj_hdr os)(ob := hdr)\<rparr>) })"

text \<open>The memory of a deleted object goes back to the heap; only the container changes here.\<close>

definition rt_object_delete :: "'o \<Rightarrow> 'o objects \<Rightarrow> 'o objects option" where
  "rt_object_delete ob os =
     do { rt_assert (obj_type (obj_hdr os ob) AND RT_Object_Class_Static = 0);
          Some (os\<lparr>rt_object_container := fam_remove ob (rt_object_container os)\<rparr>) }"

definition rt_object_is_systemobject :: "'o \<Rightarrow> 'o objects \<Rightarrow> bool" where
  "rt_object_is_systemobject ob os = (obj_type (obj_hdr os ob) AND RT_Object_Class_Static \<noteq> 0)"

text \<open>The search loop of \<^verbatim>\<open>rt_object_find\<close> and \<^verbatim>\<open>rt_thread_find\<close> over one container.\<close>

fun find_named :: "('o \<Rightarrow> rt_object) \<Rightarrow> cstr \<Rightarrow> 'o list \<Rightarrow> 'o option" where
  "find_named hdr name [] = None"
| "find_named hdr name (ob # obs) =
     (if rt_strncmp (obj_name (hdr ob)) name RT_NAME_MAX = 0 then Some ob
      else find_named hdr name obs)"

section \<open>Invariant\<close>

text \<open>
  The containers are a well-formed family and every attached object carries the class of
  its container and a name of exactly \<^verbatim>\<open>RT_NAME_MAX\<close> bytes.
\<close>

definition obj_inv :: "'o objects \<Rightarrow> bool" where
  "obj_inv os \<longleftrightarrow> fam_wf (rt_object_container os) \<and>
     (\<forall>ob c. fam_loc (rt_object_container os) ob = Some c \<longrightarrow>
        obj_type (obj_hdr os ob) AND 0x7f = c \<and> length (obj_name (obj_hdr os ob)) = RT_NAME_MAX)"

lemma class_code_mask [simp]: "(class_code ty OR RT_Object_Class_Static) AND 0x7f = class_code ty"
  "class_code ty AND 0x7f = class_code ty"
  "(class_code ty OR RT_Object_Class_Static) AND RT_Object_Class_Static = RT_Object_Class_Static"
  "class_code ty AND RT_Object_Class_Static = 0"
  by (cases ty; simp)+

lemma rt_object_init_inv:
  assumes "obj_inv os" and "rt_object_init ob ty name os = Some os'"
  shows "obj_inv os'"
proof -
  from assms(2) obtain C where C: "fam_insert_after (class_code ty) ob (rt_object_container os) = Some C"
    and os': "os' = os\<lparr>rt_object_container := C,
      obj_hdr := (obj_hdr os)(ob := (obj_hdr os ob)\<lparr>obj_type := class_code ty OR RT_Object_Class_Static,
        obj_name := rt_strncpy name RT_NAME_MAX\<rparr>)\<rparr>"
    by (auto simp: rt_object_init_def Let_def Option.bind_eq_Some_conv)
  have "fam_wf C" using assms(1) C by (auto simp: obj_inv_def intro: fam_insert_after_wf)
  moreover have "fam_loc C = (fam_loc (rt_object_container os))(ob \<mapsto> class_code ty)"
    using C by (auto simp: fam_insert_after_def split: if_splits)
  ultimately show ?thesis using assms(1) by (auto simp: obj_inv_def os')
qed

lemma rt_object_allocate_inv:
  assumes "obj_inv os" and "rt_object_allocate mem ty name os = Some (r, os')"
  shows "obj_inv os'"
proof (cases mem)
  case None
  with assms show ?thesis by (simp add: rt_object_allocate_def)
next
  case (Some ob)
  with assms(2) obtain C where C: "fam_insert_after (class_code ty) ob (rt_object_container os) = Some C"
    and os': "os' = os\<lparr>rt_object_container := C, obj_hdr := (obj_hdr os)(ob :=
        \<lparr>obj_name = rt_strncpy name RT_NAME_MAX, obj_type = class_code ty, obj_flag = 0\<rparr>)\<rparr>"
    by (auto simp: rt_object_allocate_def Let_def Option.bind_eq_Some_conv)
  have "fam_wf C" using assms(1) C by (auto simp: obj_inv_def intro: fam_insert_after_wf)
  moreover have "fam_loc C = (fam_loc (rt_object_container os))(ob \<mapsto> class_code ty)"
    using C by (auto simp: fam_insert_after_def split: if_splits)
  ultimately show ?thesis using assms(1) by (auto simp: obj_inv_def os')
qed

lemma fam_loc_remove_cases:
  "fam_loc (fam_remove t F) u = Some q \<Longrightarrow> fam_loc F u = Some q \<and> u \<noteq> t"
  by (cases "u = t") auto

lemma rt_object_detach_inv: "obj_inv os \<Longrightarrow> obj_inv (rt_object_detach ob os)"
  by (auto simp: obj_inv_def rt_object_detach_def fam_remove_wf dest!: fam_loc_remove_cases)

lemma rt_object_delete_inv: "obj_inv os \<Longrightarrow> rt_object_delete ob os = Some os' \<Longrightarrow> obj_inv os'"
  using rt_object_detach_inv [of os ob] by (auto simp: rt_object_delete_def rt_object_detach_def)

section \<open>Finding an object by name\<close>

lemma find_named_find:
  "find_named hdr name obs = find (\<lambda>ob. rt_strncpy (obj_name (hdr ob)) RT_NAME_MAX = rt_strncpy name RT_NAME_MAX) obs"
  by (induction obs) (auto simp: rt_strncmp_zero_iff)

end
