(* ===== verification/KState.thy ===== *)
theory KState
  imports Object
begin

text \<open>
  The state the kernel proper shares: threads, timers, the system tick, the interrupt nesting
  count, the scheduler's ready table and the object containers, as declared in
  \<^verbatim>\<open>include/rtdef.h\<close>, \<^verbatim>\<open>src/scheduler.c\<close>, \<^verbatim>\<open>src/timer.c\<close>, \<^verbatim>\<open>src/clock.c\<close> and \<^verbatim>\<open>src/irq.c\<close>.

  The configuration is that of the boards under \<^verbatim>\<open>bsp\<close>: 32 priorities, 8-byte names, a timer
  list of one level, no software timers, no modules, stack overflow checks on, and no hook
  installed.  A thread's \<^verbatim>\<open>tlist\<close> node is on one of the lists a \<open>qhead\<close> names; the threads'
  lists are a family in the sense of theory RtList.
\<close>

abbreviation (input) RT_THREAD_PRIORITY_MAX :: nat where "RT_THREAD_PRIORITY_MAX \<equiv> 32"
abbreviation (input) RT_TICK_MAX :: u32 where "RT_TICK_MAX \<equiv> 0xffffffff"
abbreviation (input) RT_TICK_HALF :: u32 where "RT_TICK_HALF \<equiv> 0x7fffffff" \<comment> \<open>\<^verbatim>\<open>RT_TICK_MAX / 2\<close>\<close>

type_synonym tid = nat

text \<open>The heads a thread can be linked on: the ready table, the defunct list, the list of an
  IPC object or memory pool, and the second list of a mailbox.\<close>

datatype qhead = Ready nat | Defunct | Wait nat | SenderWait nat

text \<open>A timer is the one built into a thread, or a timer object of its own.\<close>

datatype timer_id = ThreadTimer tid | UserTimer nat

datatype objref = OThread tid | OTimer timer_id | OIpc nat | ODevice nat

text \<open>\<^verbatim>\<open>timeout_func\<close> with its \<^verbatim>\<open>parameter\<close>: \<^verbatim>\<open>rt_thread_timeout\<close> on a thread, or a function
  of the application.\<close>

datatype timeout_fn = TF_thread tid | TF_user nat

datatype thread_stat =
    RT_THREAD_INIT
  | RT_THREAD_READY
  | RT_THREAD_SUSPEND
  | RT_THREAD_RUNNING
  | RT_THREAD_CLOSE

record rt_timer =
  tm_flag :: u8
  timeout_func :: timeout_fn
  tm_init_tick :: rt_tick_t
  timeout_tick :: rt_tick_t

record rt_thread =
  sp :: u32
  entry :: u32
  parameter :: u32
  stack_addr :: u32
  stack_size :: u16
  error :: rt_err_t
  stat :: thread_stat
  current_priority :: u8
  init_priority :: u8
  number_mask :: u32
  event_set :: u32
  event_info :: u8
  th_init_tick :: u32
  remaining_tick :: u32
  cleanup :: "nat option"
  user_data :: u32

text \<open>The context switches the port code is asked to do.\<close>

datatype hw_switch = SwitchTo tid | Switch tid tid | SwitchInterrupt tid tid

record kernel =
  rt_tick :: rt_tick_t
  rt_interrupt_nest :: u8
  rt_scheduler_lock_nest :: u16 \<comment> \<open>a signed short\<close>
  rt_current_thread :: "tid option"
  rt_current_priority :: u8
  rt_thread_ready_priority_group :: u32
  queues :: "(qhead, tid) family"
  threads :: "tid \<Rightarrow> rt_thread"
  timers :: "timer_id \<Rightarrow> rt_timer"
  rt_timer_list :: "timer_id list"
  objs :: "objref objects"
  hw_log :: "hw_switch list"
  rt_errno :: rt_err_t \<comment> \<open>the variable \<^verbatim>\<open>_errno\<close>\<close>

definition upd_thread :: "tid \<Rightarrow> (rt_thread \<Rightarrow> rt_thread) \<Rightarrow> kernel \<Rightarrow> kernel" where
  [kernel_defs]: "upd_thread t f k = k\<lparr>threads := (threads k)(t := f (threads k t))\<rparr>"

definition upd_timer :: "timer_id \<Rightarrow> (rt_timer \<Rightarrow> rt_timer) \<Rightarrow> kernel \<Rightarrow> kernel" where
  [kernel_defs]: "upd_timer i f k = k\<lparr>timers := (timers k)(i := f (timers k i))\<rparr>"

abbreviation q_list :: "kernel \<Rightarrow> qhead \<Rightarrow> tid list" where
  "q_list k \<equiv> fam_list (queues k)"

abbreviation q_loc :: "kernel \<Rightarrow> tid \<Rightarrow> qhead option" where
  "q_loc k \<equiv> fam_loc (queues k)"

abbreviation prio :: "kernel \<Rightarrow> tid \<Rightarrow> nat" where
  "prio k t \<equiv> unat (current_priority (threads k t))"

abbreviation ready :: "kernel \<Rightarrow> nat \<Rightarrow> tid list" where
  "ready k p \<equiv> q_list k (Ready p)"

lemma upd_thread_sel [simp]:
  "threads (upd_thread t f k) = (threads k)(t := f (threads k t))"
  "rt_tick (upd_thread t f k) = rt_tick k"
  "rt_interrupt_nest (upd_thread t f k) = rt_interrupt_nest k"
  "rt_scheduler_lock_nest (upd_thread t f k) = rt_scheduler_lock_nest k"
  "rt_current_thread (upd_thread t f k) = rt_current_thread k"
  "rt_current_priority (upd_thread t f k) = rt_current_priority k"
  "rt_thread_ready_priority_group (upd_thread t f k) = rt_thread_ready_priority_group k"
  "queues (upd_thread t f k) = queues k"
  "timers (upd_thread t f k) = timers k"
  "rt_timer_list (upd_thread t f k) = rt_timer_list k"
  "objs (upd_thread t f k) = objs k"
  "hw_log (upd_thread t f k) = hw_log k"
  "rt_errno (upd_thread t f k) = rt_errno k"
  by (simp_all add: upd_thread_def)

lemma upd_timer_sel [simp]:
  "timers (upd_timer i g k) = (timers k)(i := g (timers k i))"
  "rt_tick (upd_timer i g k) = rt_tick k"
  "rt_interrupt_nest (upd_timer i g k) = rt_interrupt_nest k"
  "rt_scheduler_lock_nest (upd_timer i g k) = rt_scheduler_lock_nest k"
  "rt_current_thread (upd_timer i g k) = rt_current_thread k"
  "rt_current_priority (upd_timer i g k) = rt_current_priority k"
  "rt_thread_ready_priority_group (upd_timer i g k) = rt_thread_ready_priority_group k"
  "queues (upd_timer i g k) = queues k"
  "threads (upd_timer i g k) = threads k"
  "rt_timer_list (upd_timer i g k) = rt_timer_list k"
  "objs (upd_timer i g k) = objs k"
  "hw_log (upd_timer i g k) = hw_log k"
  "rt_errno (upd_timer i g k) = rt_errno k"
  by (simp_all add: upd_timer_def)

section \<open>Interrupt nesting, \<^verbatim>\<open>src/irq.c\<close>\<close>

definition rt_interrupt_enter :: "kernel \<Rightarrow> kernel" where
  "rt_interrupt_enter k = k\<lparr>rt_interrupt_nest := rt_interrupt_nest k + 1\<rparr>"

definition rt_interrupt_leave :: "kernel \<Rightarrow> kernel" where
  "rt_interrupt_leave k = k\<lparr>rt_interrupt_nest := rt_interrupt_nest k - 1\<rparr>"

definition rt_interrupt_get_nest :: "kernel \<Rightarrow> u8" where
  "rt_interrupt_get_nest k = rt_interrupt_nest k"

section \<open>The tick, \<^verbatim>\<open>src/clock.c\<close>\<close>

definition rt_tick_get :: "kernel \<Rightarrow> rt_tick_t" where
  "rt_tick_get k = rt_tick k"

definition rt_tick_set :: "rt_tick_t \<Rightarrow> kernel \<Rightarrow> kernel" where
  "rt_tick_set tick k = k\<lparr>rt_tick := tick\<rparr>"

text \<open>\<^verbatim>\<open>RT_TICK_PER_SECOND\<close> is a constant of the board; the product is taken in 32 bits.\<close>

definition rt_tick_from_millisecond :: "u32 \<Rightarrow> u32 \<Rightarrow> rt_tick_t" where
  "rt_tick_from_millisecond tick_per_second ms = (tick_per_second * ms + 999) div 1000"

lemma rt_tick_from_millisecond_exact:
  assumes "unat tps * unat ms + 999 < 2 ^ 32"
  shows "unat (rt_tick_from_millisecond tps ms) = (unat tps * unat ms + 999) div 1000"
proof -
  have "unat (tps * ms) = unat tps * unat ms"
    using assms by (simp add: unat_word_ariths)
  then have "unat (tps * ms + 999) = unat tps * unat ms + 999"
    using assms by (simp add: unat_word_ariths)
  then show ?thesis by (simp add: rt_tick_from_millisecond_def unat_div)
qed

end
