(* ===== verification/Timer.thy ===== *)
theory Timer
  imports KState
begin

text \<open>
  The timer queue of \<^verbatim>\<open>src/timer.c\<close>: initialising, starting, stopping and controlling timers,
  with the queue kept in the order of the wrapping 32-bit timeout ticks.  Dispatching the
  expired timers (\<^verbatim>\<open>rt_timer_check\<close>) is in theory Clock, after the thread operations the
  callbacks perform.
\<close>

unbundle bit_operations_syntax

abbreviation (input) RT_TIMER_FLAG_ACTIVATED :: u8 where "RT_TIMER_FLAG_ACTIVATED \<equiv> 0x1"
abbreviation (input) RT_TIMER_FLAG_PERIODIC :: u8 where "RT_TIMER_FLAG_PERIODIC \<equiv> 0x2"
abbreviation (input) RT_TIMER_FLAG_ONE_SHOT :: u8 where "RT_TIMER_FLAG_ONE_SHOT \<equiv> 0x0"

datatype timer_cmd =
    RT_TIMER_CTRL_SET_TIME rt_tick_t
  | RT_TIMER_CTRL_GET_TIME
  | RT_TIMER_CTRL_SET_ONESHOT
  | RT_TIMER_CTRL_SET_PERIODIC

text \<open>
  \<^verbatim>\<open>_rt_timer_init\<close> resets the timer's list node without unlinking it, so initialising a
  running timer would break the queue: the model stops there.
\<close>

definition rt_timer_init0 :: "timer_id \<Rightarrow> timeout_fn \<Rightarrow> rt_tick_t \<Rightarrow> u8 \<Rightarrow> kernel \<Rightarrow> kernel option" where
  "rt_timer_init0 i f time flag k =
     (if i \<in> set (rt_timer_list k) then None
      else Some (upd_timer i (\<lambda>_. \<lparr>tm_flag = flag AND NOT RT_TIMER_FLAG_ACTIVATED, timeout_func = f,
                                   tm_init_tick = time, timeout_tick = 0\<rparr>) k))"

definition rt_timer_init ::
  "timer_id \<Rightarrow> cstr \<Rightarrow> timeout_fn \<Rightarrow> rt_tick_t \<Rightarrow> u8 \<Rightarrow> kernel \<Rightarrow> kernel option" where
  "rt_timer_init i name f time flag k =
     do { os \<leftarrow> rt_object_init (OTimer i) RT_Object_Class_Timer name (objs k);
          rt_timer_init0 i f time flag (k\<lparr>objs := os\<rparr>) }"

definition rt_timer_list_next_timeout :: "kernel \<Rightarrow> timer_id list \<Rightarrow> rt_tick_t" where
  "rt_timer_list_next_timeout k row =
     (case row of [] \<Rightarrow> RT_TICK_MAX | i # _ \<Rightarrow> timeout_tick (timers k i))"

definition rt_timer_remove :: "timer_id \<Rightarrow> kernel \<Rightarrow> kernel" where
  "rt_timer_remove i k = k\<lparr>rt_timer_list := remove1 i (rt_timer_list k)\<rparr>"

definition rt_timer_detach :: "timer_id \<Rightarrow> kernel \<Rightarrow> kernel" where
  "rt_timer_detach i k =
     (let k = rt_timer_remove i k
      in k\<lparr>objs := rt_object_detach (OTimer i) (objs k)\<rparr>)"

text \<open>The search for the insertion point: past every timer that fires earlier or at the same
  tick, as the wrapping difference decides.\<close>

fun timer_insert :: "(timer_id \<Rightarrow> rt_tick_t) \<Rightarrow> timer_id \<Rightarrow> timer_id list \<Rightarrow> timer_id list" where
  "timer_insert tt i [] = [i]"
| "timer_insert tt i (t # ts) =
     (if tt t - tt i = 0 then t # timer_insert tt i ts
      else if tt t - tt i < RT_TICK_HALF then i # t # ts
      else t # timer_insert tt i ts)"

definition rt_timer_start :: "timer_id \<Rightarrow> kernel \<Rightarrow> kernel option" where
  "rt_timer_start i k =
     do { let k = rt_timer_remove i k;
          let k = upd_timer i (\<lambda>t. t\<lparr>tm_flag := tm_flag t AND NOT RT_TIMER_FLAG_ACTIVATED\<rparr>) k;
          rt_assert (tm_init_tick (timers k i) < RT_TICK_HALF);
          let k = upd_timer i (\<lambda>t. t\<lparr>timeout_tick := rt_tick_get k + tm_init_tick t\<rparr>) k;
          let k = k\<lparr>rt_timer_list := timer_insert (\<lambda>j. timeout_tick (timers k j)) i (rt_timer_list k)\<rparr>;
          Some (upd_timer i (\<lambda>t. t\<lparr>tm_flag := tm_flag t OR RT_TIMER_FLAG_ACTIVATED\<rparr>) k) }"

definition rt_timer_stop :: "timer_id \<Rightarrow> kernel \<Rightarrow> rt_err_t \<times> kernel" where
  "rt_timer_stop i k =
     (if tm_flag (timers k i) AND RT_TIMER_FLAG_ACTIVATED = 0 then (- RT_ERROR, k)
      else let k = rt_timer_remove i k
           in (RT_EOK, upd_timer i (\<lambda>t. t\<lparr>tm_flag := tm_flag t AND NOT RT_TIMER_FLAG_ACTIVATED\<rparr>) k))"

text \<open>\<^verbatim>\<open>RT_TIMER_CTRL_GET_TIME\<close> writes the time through \<^verbatim>\<open>arg\<close>: the value returned beside the
  state.\<close>

definition rt_timer_control :: "timer_id \<Rightarrow> timer_cmd \<Rightarrow> kernel \<Rightarrow> rt_tick_t option \<times> kernel" where
  "rt_timer_control i cmd k =
     (case cmd of
        RT_TIMER_CTRL_GET_TIME \<Rightarrow> (Some (tm_init_tick (timers k i)), k)
      | RT_TIMER_CTRL_SET_TIME tick \<Rightarrow> (None, upd_timer i (\<lambda>t. t\<lparr>tm_init_tick := tick\<rparr>) k)
      | RT_TIMER_CTRL_SET_ONESHOT \<Rightarrow>
          (None, upd_timer i (\<lambda>t. t\<lparr>tm_flag := tm_flag t AND NOT RT_TIMER_FLAG_PERIODIC\<rparr>) k)
      | RT_TIMER_CTRL_SET_PERIODIC \<Rightarrow>
          (None, upd_timer i (\<lambda>t. t\<lparr>tm_flag := tm_flag t OR RT_TIMER_FLAG_PERIODIC\<rparr>) k))"

definition rt_timer_next_timeout_tick :: "kernel \<Rightarrow> rt_tick_t" where
  "rt_timer_next_timeout_tick k = rt_timer_list_next_timeout k (rt_timer_list k)"

definition rt_system_timer_init :: "kernel \<Rightarrow> kernel" where
  "rt_system_timer_init k = k\<lparr>rt_timer_list := []\<rparr>"

section \<open>The flag bits\<close>

definition activated :: "kernel \<Rightarrow> timer_id \<Rightarrow> bool" where
  "activated k i \<longleftrightarrow> tm_flag (timers k i) AND RT_TIMER_FLAG_ACTIVATED \<noteq> 0"

lemma flag_bit0: "(w AND 1 = (0::u8)) \<longleftrightarrow> \<not> bit w 0"
  by (simp add: and_one_eq mod_2_eq_odd bit_0)

lemma flag_clear_set [simp]:
  fixes w :: u8
  shows "(w OR 1) AND 1 \<noteq> 0" "(w AND NOT 1) AND 1 = 0"
  unfolding flag_bit0 by (simp_all add: bit_simps)

section \<open>Order of the queue\<close>

text \<open>
  The ticks left until a timer fires, as a signed number.  The queue is in order when these
  are sorted and lie in the window in which the wrapping comparisons of the code are exact.
\<close>

definition ticks_left :: "rt_tick_t \<Rightarrow> rt_tick_t \<Rightarrow> int" where
  "ticks_left now tt = sint (tt - now)"

definition in_window :: "rt_tick_t \<Rightarrow> rt_tick_t \<Rightarrow> bool" where
  "in_window now tt \<longleftrightarrow> - 1 \<le> ticks_left now tt \<and> ticks_left now tt < 2 ^ 31 - 1"

lemma uint_diff_ticks: "uint (a - b) = (ticks_left now a - ticks_left now b) mod 2 ^ 32"
proof -
  have "a - b = (a - now) - (b - now)" by simp
  also have "\<dots> = word_of_int (sint (a - now) - sint (b - now))"
    by (simp only: of_int_diff of_int_sint scast_id)
  finally show ?thesis by (simp only: ticks_left_def uint_word_of_int) simp
qed

lemma uint_late: "uint (now - a) = (- ticks_left now a) mod 2 ^ 32"
  using uint_diff_ticks [of now a now] by (simp add: ticks_left_def)

lemma mod_window:
  fixes d :: int
  shows "0 \<le> d \<Longrightarrow> d < 2 ^ 32 \<Longrightarrow> d mod 2 ^ 32 = d"
    and "- (2 ^ 32) \<le> d \<Longrightarrow> d < 0 \<Longrightarrow> d mod 2 ^ 32 = d + 2 ^ 32"
proof -
  show "0 \<le> d \<Longrightarrow> d < 2 ^ 32 \<Longrightarrow> d mod 2 ^ 32 = d" by (simp add: mod_pos_pos_trivial)
  show "- (2 ^ 32) \<le> d \<Longrightarrow> d < 0 \<Longrightarrow> d mod 2 ^ 32 = d + 2 ^ 32"
    using mod_pos_pos_trivial [of "d + 2 ^ 32" "2 ^ 32"] by simp
qed

lemma tick_diff_zero: "a - b = (0::u32) \<Longrightarrow> ticks_left now a = ticks_left now b"
  by (simp add: ticks_left_def)

lemma tick_diff_less:
  assumes "in_window now a" and "in_window now b" and "0 \<le> ticks_left now b"
  shows "a - b < RT_TICK_HALF \<longleftrightarrow> ticks_left now b \<le> ticks_left now a"
proof -
  let ?d = "ticks_left now a - ticks_left now b"
  have d: "- (2 ^ 31) < ?d" "?d < 2 ^ 31 - 1" using assms by (auto simp: in_window_def)
  have less: "a - b < RT_TICK_HALF \<longleftrightarrow> ?d mod 2 ^ 32 < 2 ^ 31 - 1"
    unfolding word_less_def uint_diff_ticks [of a b now] by simp
  show ?thesis
  proof (cases "0 \<le> ?d")
    case True
    with d mod_window(1) [of ?d] less show ?thesis by simp
  next
    case False
    with d mod_window(2) [of ?d] less show ?thesis by simp
  qed
qed

lemma tick_expired:
  assumes "in_window now a"
  shows "now - a < RT_TICK_HALF \<longleftrightarrow> ticks_left now a \<le> 0"
proof -
  let ?d = "- ticks_left now a"
  have d: "- (2 ^ 31) < ?d" "?d \<le> 1" using assms by (auto simp: in_window_def)
  have less: "now - a < RT_TICK_HALF \<longleftrightarrow> ?d mod 2 ^ 32 < 2 ^ 31 - 1"
    unfolding word_less_def uint_late by simp
  show ?thesis
  proof (cases "0 \<le> ?d")
    case True
    with d mod_window(1) [of ?d] less show ?thesis by simp
  next
    case False
    with d mod_window(2) [of ?d] less show ?thesis by simp
  qed
qed

text \<open>
  \<open>lo\<close> is the least number of ticks left a queued timer may have: 0 between two clock
  interrupts, -1 while \<^verbatim>\<open>rt_timer_check\<close> handles the timers that expired with the last one.
\<close>

definition queue_ok :: "int \<Rightarrow> kernel \<Rightarrow> bool" where
  "queue_ok lo k \<longleftrightarrow> distinct (rt_timer_list k) \<and>
     (\<forall>i\<in>set (rt_timer_list k). in_window (rt_tick k) (timeout_tick (timers k i)) \<and>
        lo \<le> ticks_left (rt_tick k) (timeout_tick (timers k i))) \<and>
     sorted (map (\<lambda>i. ticks_left (rt_tick k) (timeout_tick (timers k i))) (rt_timer_list k))"

lemma set_timer_insert [simp]: "set (timer_insert tt i ts) = insert i (set ts)"
  by (induction ts) auto

lemma distinct_timer_insert: "distinct ts \<Longrightarrow> i \<notin> set ts \<Longrightarrow> distinct (timer_insert tt i ts)"
  by (induction ts) auto

lemma timer_insert_cong:
  "(\<And>j. j \<in> insert i (set ts) \<Longrightarrow> tt j = tt' j) \<Longrightarrow> timer_insert tt i ts = timer_insert tt' i ts"
  by (induction ts) auto

text \<open>The insertion loop puts the timer after exactly the timers that fire no later.\<close>

lemma timer_insert_eq:
  assumes "\<forall>j\<in>insert i (set ts). in_window now (tt j)" and "0 \<le> ticks_left now (tt i)"
  shows "timer_insert tt i ts =
    takeWhile (\<lambda>j. ticks_left now (tt j) \<le> ticks_left now (tt i)) ts @ i #
    dropWhile (\<lambda>j. ticks_left now (tt j) \<le> ticks_left now (tt i)) ts"
  using assms
proof (induction ts)
  case (Cons t ts)
  have eq: "tt t - tt i = 0 \<Longrightarrow> ticks_left now (tt t) = ticks_left now (tt i)"
    by (rule tick_diff_zero)
  have eq': "ticks_left now (tt t) = ticks_left now (tt i) \<Longrightarrow> tt t - tt i = 0"
    unfolding ticks_left_def
    by (drule arg_cong [where f = "of_int :: int \<Rightarrow> u32"]) (simp add: scast_id)
  have le: "tt t - tt i < RT_TICK_HALF \<longleftrightarrow> ticks_left now (tt i) \<le> ticks_left now (tt t)"
    using Cons.prems by (intro tick_diff_less) auto
  show ?case using Cons eq eq' le by auto
qed simp

lemma sorted_insert_middle:
  fixes f :: "'a \<Rightarrow> int"
  assumes "sorted (map f ts)"
  shows "sorted (map f (takeWhile (\<lambda>j. f j \<le> f i) ts @ i # dropWhile (\<lambda>j. f j \<le> f i) ts))"
  using assms
proof (induction ts)
  case (Cons t ts)
  show ?case
  proof (cases "f t \<le> f i")
    case True
    have "set (takeWhile (\<lambda>j. f j \<le> f i) ts @ i # dropWhile (\<lambda>j. f j \<le> f i) ts) = insert i (set ts)"
      using takeWhile_dropWhile_id [of "\<lambda>j. f j \<le> f i" ts] by (metis insert_commute list.set(2) set_append Un_insert_right)
    with Cons True show ?thesis by auto
  next
    case False
    with Cons.prems show ?thesis by auto
  qed
qed simp

lemma ticks_left_start:
  assumes "w < RT_TICK_HALF"
  shows "ticks_left now (now + w) = uint w" and "in_window now (now + w)"
proof -
  have u: "uint w < 2 ^ 31 - 1" using assms by (simp add: word_less_def)
  have ge: "- 1 \<le> uint w" by (rule order_trans [of _ 0]) simp_all
  then have "- (2 ^ 31) \<le> uint w" by (rule order_trans [rotated]) simp
  then have "sint w = uint w"
    using u signed_take_bit_int_eq_self [of 31 "uint w"] by (simp add: sint_uint)
  then show "ticks_left now (now + w) = uint w" by (simp add: ticks_left_def)
  with u ge show "in_window now (now + w)" by (simp add: in_window_def)
qed

section \<open>What the operations do to the queue\<close>

lemma rt_timer_start_eq:
  assumes "tm_init_tick (timers k i) < RT_TICK_HALF"
  shows "rt_timer_start i k = Some (k\<lparr>
     rt_timer_list := timer_insert (\<lambda>j. if j = i then rt_tick k + tm_init_tick (timers k i)
                                        else timeout_tick (timers k j)) i (remove1 i (rt_timer_list k)),
     timers := (timers k)(i := (timers k i)\<lparr>
        timeout_tick := rt_tick k + tm_init_tick (timers k i),
        tm_flag := tm_flag (timers k i) AND NOT RT_TIMER_FLAG_ACTIVATED OR RT_TIMER_FLAG_ACTIVATED\<rparr>)\<rparr>)"
  using assms
  by (simp add: rt_timer_start_def Let_def rt_timer_remove_def rt_tick_get_def kernel_defs
      if_distrib [of timeout_tick] cong: if_cong)

lemma rt_timer_start_queue_ok:
  assumes ok: "queue_ok lo k" and w: "tm_init_tick (timers k i) < RT_TICK_HALF" and lo: "lo \<le> 0"
  shows "\<exists>k'. rt_timer_start i k = Some k' \<and> queue_ok lo k'"
proof -
  let ?tt = "\<lambda>j. if j = i then rt_tick k + tm_init_tick (timers k i) else timeout_tick (timers k j)"
  let ?f = "\<lambda>j. ticks_left (rt_tick k) (?tt j)"
  let ?r = "remove1 i (rt_timer_list k)"
  have notin: "i \<notin> set ?r" using ok by (simp add: queue_ok_def)
  have sub: "set ?r \<subseteq> set (rt_timer_list k)" by (rule set_remove1_subset)
  have ge0: "0 \<le> ?f i" using ticks_left_start(1) [OF w, of "rt_tick k"] by simp
  have win: "\<forall>j\<in>insert i (set ?r). in_window (rt_tick k) (?tt j)"
    and late: "\<forall>j\<in>insert i (set ?r). lo \<le> ?f j"
    using ok sub ge0 lo ticks_left_start(2) [OF w] by (auto simp: queue_ok_def)
  have "map ?f ?r = map (\<lambda>j. ticks_left (rt_tick k) (timeout_tick (timers k j))) ?r"
    using notin by auto
  then have "sorted (map ?f ?r)"
    using ok by (simp only: queue_ok_def sorted_map_remove1)
  then have "sorted (map ?f (timer_insert ?tt i ?r))"
    unfolding timer_insert_eq [OF win ge0] by (rule sorted_insert_middle)
  moreover have "distinct (timer_insert ?tt i ?r)"
    using ok notin by (intro distinct_timer_insert) (auto simp: queue_ok_def)
  ultimately show ?thesis using win late
    by (auto simp: rt_timer_start_eq [OF w] queue_ok_def if_distrib [of timeout_tick] cong: if_cong)
qed

lemma queue_ok_cong:
  "(\<And>i. i \<in> set (rt_timer_list k) \<Longrightarrow> timeout_tick (timers k' i) = timeout_tick (timers k i)) \<Longrightarrow>
   rt_timer_list k' = rt_timer_list k \<Longrightarrow> rt_tick k' = rt_tick k \<Longrightarrow> queue_ok lo k' = queue_ok lo k"
  by (auto simp: queue_ok_def cong: map_cong)

lemma rt_timer_remove_queue_ok: "queue_ok lo k \<Longrightarrow> queue_ok lo (rt_timer_remove i k)"
  by (auto simp: queue_ok_def rt_timer_remove_def sorted_map_remove1
      dest: set_remove1_subset [THEN subsetD])

lemma rt_timer_remove_gone: "queue_ok lo k \<Longrightarrow> i \<notin> set (rt_timer_list (rt_timer_remove i k))"
  by (simp add: queue_ok_def rt_timer_remove_def)

lemma rt_timer_stop_queue_ok: "queue_ok lo k \<Longrightarrow> queue_ok lo (snd (rt_timer_stop i k))"
proof -
  assume ok: "queue_ok lo k"
  have "queue_ok lo (upd_timer i (\<lambda>t. t\<lparr>tm_flag := tm_flag t AND NOT RT_TIMER_FLAG_ACTIVATED\<rparr>) (rt_timer_remove i k))
      = queue_ok lo (rt_timer_remove i k)"
    by (rule queue_ok_cong) simp_all
  with ok show ?thesis by (simp add: rt_timer_stop_def Let_def rt_timer_remove_queue_ok)
qed

text \<open>A timer that is queued and activated is off the queue once it is stopped.\<close>

lemma rt_timer_stop_list:
  "queue_ok lo k \<Longrightarrow> (i \<in> set (rt_timer_list k) \<Longrightarrow> activated k i) \<Longrightarrow>
   set (rt_timer_list (snd (rt_timer_stop i k))) = set (rt_timer_list k) - {i}"
  by (auto simp: rt_timer_stop_def queue_ok_def activated_def rt_timer_remove_def Let_def)

text \<open>What stopping and detaching leave alone.\<close>

lemma rt_timer_stop_frame [simp]:
  "threads (snd (rt_timer_stop i k)) = threads k" "queues (snd (rt_timer_stop i k)) = queues k"
  "objs (snd (rt_timer_stop i k)) = objs k" "rt_tick (snd (rt_timer_stop i k)) = rt_tick k"
  "rt_current_thread (snd (rt_timer_stop i k)) = rt_current_thread k"
  "rt_current_priority (snd (rt_timer_stop i k)) = rt_current_priority k"
  "rt_scheduler_lock_nest (snd (rt_timer_stop i k)) = rt_scheduler_lock_nest k"
  "rt_interrupt_nest (snd (rt_timer_stop i k)) = rt_interrupt_nest k"
  "hw_log (snd (rt_timer_stop i k)) = hw_log k"
  "rt_thread_ready_priority_group (snd (rt_timer_stop i k)) = rt_thread_ready_priority_group k"
  "timeout_func (timers (snd (rt_timer_stop i k)) j) = timeout_func (timers k j)"
  "timeout_tick (timers (snd (rt_timer_stop i k)) j) = timeout_tick (timers k j)"
  "tm_init_tick (timers (snd (rt_timer_stop i k)) j) = tm_init_tick (timers k j)"
  "j \<noteq> i \<Longrightarrow> timers (snd (rt_timer_stop i k)) j = timers k j"
  by (simp_all add: rt_timer_stop_def rt_timer_remove_def Let_def)

lemma rt_timer_remove_frame [simp]:
  "threads (rt_timer_remove i k) = threads k" "queues (rt_timer_remove i k) = queues k"
  "timers (rt_timer_remove i k) = timers k" "objs (rt_timer_remove i k) = objs k"
  "rt_tick (rt_timer_remove i k) = rt_tick k" "hw_log (rt_timer_remove i k) = hw_log k"
  "rt_current_thread (rt_timer_remove i k) = rt_current_thread k"
  "rt_current_priority (rt_timer_remove i k) = rt_current_priority k"
  "rt_scheduler_lock_nest (rt_timer_remove i k) = rt_scheduler_lock_nest k"
  "rt_interrupt_nest (rt_timer_remove i k) = rt_interrupt_nest k"
  "rt_thread_ready_priority_group (rt_timer_remove i k) = rt_thread_ready_priority_group k"
  by (simp_all add: rt_timer_remove_def)

end
