(* ===== verification/Scheduler.thy ===== *)
theory Scheduler
  imports Timer
begin

text \<open>
  The scheduler, \<^verbatim>\<open>src/scheduler.c\<close>: the ready table with its 32-bit summary word, the choice of
  the next thread, and the scheduler lock.  The ready lists are the family members
  \<open>Ready p\<close>.  A read outside the table of 32 lists, or of a list head as if it were a
  thread, stops the model.
\<close>

unbundle bit_operations_syntax

definition rt_scheduler_stack_check :: "tid \<Rightarrow> kernel \<Rightarrow> unit option" where
  "rt_scheduler_stack_check t k =
     (let th = threads k t
      in if sp th \<le> stack_addr th \<or> sp th > stack_addr th + ucast (stack_size th) then None
         else Some ())"

definition rt_system_scheduler_init :: "kernel \<Rightarrow> kernel" where
  "rt_system_scheduler_init k =
     k\<lparr>rt_scheduler_lock_nest := 0,
       queues := (queues k)\<lparr>fam_list := (\<lambda>q. case q of
           Ready p \<Rightarrow> if p < RT_THREAD_PRIORITY_MAX then [] else fam_list (queues k) q
         | Defunct \<Rightarrow> []
         | _ \<Rightarrow> fam_list (queues k) q)\<rparr>,
       rt_current_priority := of_nat (RT_THREAD_PRIORITY_MAX - 1),
       rt_current_thread := None,
       rt_thread_ready_priority_group := 0\<rparr>"

text \<open>\<^verbatim>\<open>__rt_ffs(group) - 1\<close> is an unsigned number: with an empty group it is no index of the
  table.\<close>

definition highest_ready :: "kernel \<Rightarrow> (nat \<times> tid) option" where
  "highest_ready k =
     (case rt_ffs (rt_thread_ready_priority_group k) of
        0 \<Rightarrow> None
      | Suc p \<Rightarrow> (case ready k p of [] \<Rightarrow> None | t # _ \<Rightarrow> Some (p, t)))"

definition rt_system_scheduler_start :: "kernel \<Rightarrow> kernel option" where
  "rt_system_scheduler_start k =
     do { (p, t) \<leftarrow> highest_ready k;
          Some (k\<lparr>rt_current_thread := Some t, hw_log := SwitchTo t # hw_log k\<rparr>) }"

definition rt_schedule :: "kernel \<Rightarrow> kernel option" where
  "rt_schedule k =
     (if rt_scheduler_lock_nest k = 0 then
        do { (p, to_thread) \<leftarrow> highest_ready k;
             if Some to_thread \<noteq> rt_current_thread k then
               do { from_thread \<leftarrow> rt_current_thread k;
                    rt_scheduler_stack_check to_thread k;
                    Some (k\<lparr>rt_current_priority := of_nat p,
                            rt_current_thread := Some to_thread,
                            hw_log := (if rt_interrupt_nest k = 0 then Switch from_thread to_thread
                                       else SwitchInterrupt from_thread to_thread) # hw_log k\<rparr>) }
             else Some k }
      else Some k)"

definition rt_schedule_insert_thread :: "tid \<Rightarrow> kernel \<Rightarrow> kernel option" where
  "rt_schedule_insert_thread t k =
     do { let k = upd_thread t (\<lambda>th. th\<lparr>stat := RT_THREAD_READY\<rparr>) k;
          valid_access (prio k t < RT_THREAD_PRIORITY_MAX);
          Q \<leftarrow> fam_insert_before (Ready (prio k t)) t (queues k);
          Some (k\<lparr>queues := Q,
                  rt_thread_ready_priority_group :=
                    rt_thread_ready_priority_group k OR number_mask (threads k t)\<rparr>) }"

definition rt_schedule_remove_thread :: "tid \<Rightarrow> kernel \<Rightarrow> kernel option" where
  "rt_schedule_remove_thread t k =
     do { let k = k\<lparr>queues := fam_remove t (queues k)\<rparr>;
          valid_access (prio k t < RT_THREAD_PRIORITY_MAX);
          if fam_isempty (Ready (prio k t)) (queues k)
          then Some (k\<lparr>rt_thread_ready_priority_group :=
                         rt_thread_ready_priority_group k AND NOT (number_mask (threads k t))\<rparr>)
          else Some k }"

definition rt_enter_critical :: "kernel \<Rightarrow> kernel" where
  "rt_enter_critical k = k\<lparr>rt_scheduler_lock_nest := rt_scheduler_lock_nest k + 1\<rparr>"

definition rt_exit_critical :: "kernel \<Rightarrow> kernel option" where
  "rt_exit_critical k =
     (let k = k\<lparr>rt_scheduler_lock_nest := rt_scheduler_lock_nest k - 1\<rparr>
      in if sint (rt_scheduler_lock_nest k) \<le> 0
         then rt_schedule (k\<lparr>rt_scheduler_lock_nest := 0\<rparr>)
         else Some k)"

definition rt_critical_level :: "kernel \<Rightarrow> u16" where
  "rt_critical_level k = rt_scheduler_lock_nest k"

section \<open>The scheduler's invariant\<close>

text \<open>
  The summary word has a bit for exactly the non-empty ready lists.  For every thread: it is
  on the ready list of its current priority exactly when its state is READY; while it is READY
  or suspended, its priority is below 32 with the matching mask, its stack pointer is inside its
  stack and its one-shot timer calls the thread timeout; on a waiting list it is suspended, on
  the defunct list closed; and its timer is only queued, and then activated, while it is
  suspended.
\<close>

definition live :: "kernel \<Rightarrow> tid \<Rightarrow> bool" where
  "live k t \<longleftrightarrow> stat (threads k t) = RT_THREAD_READY \<or> stat (threads k t) = RT_THREAD_SUSPEND"

definition stack_ok :: "rt_thread \<Rightarrow> bool" where
  "stack_ok th \<longleftrightarrow> stack_addr th < sp th \<and> sp th \<le> stack_addr th + ucast (stack_size th)"

definition table_ok32 :: "kernel \<Rightarrow> bool" where
  "table_ok32 k \<longleftrightarrow> fam_wf (queues k) \<and>
     (\<forall>p. bit (rt_thread_ready_priority_group k) p \<longleftrightarrow> p < 32 \<and> ready k p \<noteq> [])"

definition thread_static_ok :: "rt_thread \<Rightarrow> bool" where
  "thread_static_ok th \<longleftrightarrow> unat (current_priority th) < 32 \<and>
     number_mask th = 2 ^ unat (current_priority th) \<and> stack_ok th"

definition thread_timer_ok :: "kernel \<Rightarrow> tid \<Rightarrow> bool" where
  "thread_timer_ok k t \<longleftrightarrow> timeout_func (timers k (ThreadTimer t)) = TF_thread t \<and>
     tm_flag (timers k (ThreadTimer t)) AND RT_TIMER_FLAG_PERIODIC = 0"

definition thread_ok :: "kernel \<Rightarrow> tid \<Rightarrow> bool" where
  "thread_ok k t \<longleftrightarrow>
     (\<forall>p. q_loc k t = Some (Ready p) \<longleftrightarrow> stat (threads k t) = RT_THREAD_READY \<and> p = prio k t) \<and>
     (live k t \<longrightarrow> thread_static_ok (threads k t) \<and> thread_timer_ok k t) \<and>
     (\<forall>i. q_loc k t = Some (Wait i) \<or> q_loc k t = Some (SenderWait i) \<longrightarrow>
            stat (threads k t) = RT_THREAD_SUSPEND) \<and>
     (q_loc k t = Some Defunct \<longrightarrow> stat (threads k t) = RT_THREAD_CLOSE) \<and>
     (ThreadTimer t \<in> set (rt_timer_list k) \<longrightarrow>
        stat (threads k t) = RT_THREAD_SUSPEND \<and> activated k (ThreadTimer t))"

definition ready_inv :: "kernel \<Rightarrow> bool" where
  "ready_inv k \<longleftrightarrow> table_ok32 k \<and> (\<forall>t. thread_ok k t)"

text \<open>
  While an operation works on a thread \<open>t\<close>, the invariant holds for every other thread, and
  for \<open>t\<close> only that its list, when it is a ready list, is that of its priority.
\<close>

definition ready_inv_but :: "tid \<Rightarrow> kernel \<Rightarrow> bool" where
  "ready_inv_but t k \<longleftrightarrow> table_ok32 k \<and> (\<forall>p. q_loc k t = Some (Ready p) \<longrightarrow> p = prio k t) \<and>
     (\<forall>u. u \<noteq> t \<longrightarrow> thread_ok k u)"

lemma ready_inv_split: "ready_inv k \<longleftrightarrow> ready_inv_but t k \<and> thread_ok k t"
  by (auto simp: ready_inv_def ready_inv_but_def thread_ok_def)

lemma thread_ok_cong:
  "q_loc k' t = q_loc k t \<Longrightarrow> threads k' t = threads k t \<Longrightarrow>
   timers k' (ThreadTimer t) = timers k (ThreadTimer t) \<Longrightarrow>
   (ThreadTimer t \<in> set (rt_timer_list k') \<longleftrightarrow> ThreadTimer t \<in> set (rt_timer_list k)) \<Longrightarrow>
   thread_ok k' t = thread_ok k t"
  by (simp add: thread_ok_def live_def activated_def thread_timer_ok_def)

lemma ready_inv_wf: "ready_inv k \<Longrightarrow> fam_wf (queues k)"
  and ready_inv_but_wf: "ready_inv_but t k \<Longrightarrow> fam_wf (queues k)"
  by (auto simp: ready_inv_def ready_inv_but_def table_ok32_def)

lemma ready_invD:
  assumes "ready_inv k"
  shows ready_inv_bit: "bit (rt_thread_ready_priority_group k) p \<longleftrightarrow> p < 32 \<and> ready k p \<noteq> []"
    and ready_inv_loc: "q_loc k t = Some (Ready p) \<longleftrightarrow> stat (threads k t) = RT_THREAD_READY \<and> p = prio k t"
    and ready_inv_mem: "t \<in> set (ready k p) \<longleftrightarrow> stat (threads k t) = RT_THREAD_READY \<and> p = prio k t"
    and ready_inv_live: "live k t \<Longrightarrow> thread_static_ok (threads k t)"
  using assms fam_wf_mem [of "queues k" t "Ready p"]
  by (auto simp: ready_inv_def table_ok32_def thread_ok_def)

lemma ready_inv_waiting:
  "ready_inv k \<Longrightarrow> q_loc k t = Some (Wait i) \<or> q_loc k t = Some (SenderWait i) \<Longrightarrow>
   stat (threads k t) = RT_THREAD_SUSPEND"
  by (auto simp: ready_inv_def thread_ok_def)

lemma liveI: "stat (threads k t) = RT_THREAD_READY \<Longrightarrow> live k t"
  "stat (threads k t) = RT_THREAD_SUSPEND \<Longrightarrow> live k t"
  by (simp_all add: live_def)

subsection \<open>Choosing the next thread\<close>

lemma highest_readyD:
  assumes inv: "ready_inv k" and hr: "highest_ready k = Some (p, t)"
  shows "p < 32" "ready k p \<noteq> []" "t = hd (ready k p)" "stat (threads k t) = RT_THREAD_READY" "prio k t = p"
    "q < p \<Longrightarrow> ready k q = []"
proof -
  let ?g = "rt_thread_ready_priority_group k"
  from hr have ne: "?g \<noteq> 0" and p: "p = (LEAST p. bit ?g p)" and t: "\<exists>ts. ready k p = t # ts"
    by (auto simp: highest_ready_def rt_ffs_Least split: nat.splits list.splits if_splits)
  from ne obtain b where "bit ?g b" by (metis bit_eqI bit_0_eq bot_apply bot_bool_def)
  then have "bit ?g p" unfolding p by (rule LeastI)
  then show "p < 32" "ready k p \<noteq> []" using ready_inv_bit [OF inv] by auto
  show "t = hd (ready k p)" using t by auto
  have "t \<in> set (ready k p)" using t by auto
  then show "stat (threads k t) = RT_THREAD_READY" "prio k t = p" using ready_inv_mem [OF inv] by auto
  show "ready k q = []" if "q < p"
    using that not_less_Least [of q "bit ?g"] ready_inv_bit [OF inv, of q] \<open>p < 32\<close> unfolding p by auto
qed

lemma highest_ready_ex:
  assumes inv: "ready_inv k" and u: "stat (threads k u) = RT_THREAD_READY"
  shows "\<exists>p t. highest_ready k = Some (p, t)"
proof -
  let ?g = "rt_thread_ready_priority_group k"
  have "u \<in> set (ready k (prio k u))" using ready_inv_mem [OF inv] u by simp
  then have "bit ?g (prio k u)"
    using ready_inv_bit [OF inv, of "prio k u"] ready_inv_live [OF inv liveI(1) [OF u]]
    by (auto simp: thread_static_ok_def)
  then have "?g \<noteq> 0" "bit ?g (LEAST p. bit ?g p)" by (auto intro: LeastI)
  then have "ready k (LEAST p. bit ?g p) \<noteq> []" using ready_inv_bit [OF inv] by blast
  with \<open>?g \<noteq> 0\<close> show ?thesis
    by (auto simp: highest_ready_def rt_ffs_Least split: list.splits)
qed

lemma highest_ready_least:
  assumes inv: "ready_inv k" and hr: "highest_ready k = Some (p, t)" and u: "stat (threads k u) = RT_THREAD_READY"
  shows "p \<le> prio k u"
proof (rule ccontr)
  assume "\<not> p \<le> prio k u"
  then have "ready k (prio k u) = []" using highest_readyD(6) [OF inv hr] by simp
  with ready_inv_mem [OF inv, of u "prio k u"] u show False by simp
qed

lemma rt_schedule_total:
  assumes inv: "ready_inv k" and u: "stat (threads k u) = RT_THREAD_READY"
    and cur: "rt_current_thread k = Some c"
  shows "\<exists>k'. rt_schedule k = Some k'"
proof -
  from highest_ready_ex [OF inv u] obtain p t where hr: "highest_ready k = Some (p, t)" by blast
  have "stack_ok (threads k t)"
    using highest_readyD(4) [OF inv hr] ready_inv_live [OF inv] liveI(1) by (auto simp: thread_static_ok_def)
  then have "rt_scheduler_stack_check t k = Some ()"
    by (auto simp: rt_scheduler_stack_check_def stack_ok_def Let_def)
  with hr cur show ?thesis by (simp add: rt_schedule_def)
qed

text \<open>What a schedule can change.\<close>

lemma rt_schedule_Some:
  assumes "rt_schedule k = Some k'"
  shows "k' = k\<lparr>rt_current_priority := rt_current_priority k', rt_current_thread := rt_current_thread k',
                hw_log := hw_log k'\<rparr>"
  using assms by (auto simp: rt_schedule_def Option.bind_eq_Some_conv split: if_splits)

lemma rt_schedule_frame:
  assumes "rt_schedule k = Some k'"
  shows "rt_tick k' = rt_tick k" "rt_interrupt_nest k' = rt_interrupt_nest k"
    "rt_scheduler_lock_nest k' = rt_scheduler_lock_nest k"
    "rt_thread_ready_priority_group k' = rt_thread_ready_priority_group k"
    "queues k' = queues k" "threads k' = threads k" "timers k' = timers k"
    "rt_timer_list k' = rt_timer_list k" "objs k' = objs k"
  by (subst rt_schedule_Some [OF assms]; simp)+

lemma ready_inv_cong:
  "queues k' = queues k \<Longrightarrow> threads k' = threads k \<Longrightarrow>
   rt_thread_ready_priority_group k' = rt_thread_ready_priority_group k \<Longrightarrow>
   timers k' = timers k \<Longrightarrow> rt_timer_list k' = rt_timer_list k \<Longrightarrow> ready_inv k' = ready_inv k"
  by (simp add: ready_inv_def table_ok32_def thread_ok_def live_def activated_def thread_timer_ok_def)

subsection \<open>Inserting into and removing from the ready table\<close>

lemma bit_mask32 [simp]: "p < 32 \<Longrightarrow> bit ((2::u32) ^ p) q \<longleftrightarrow> q = p"
  by (auto simp: bit_exp_iff possible_bit_def)

lemma rt_schedule_remove_thread_eq:
  "prio k t < 32 \<Longrightarrow> rt_schedule_remove_thread t k =
     Some (k\<lparr>queues := fam_remove t (queues k),
             rt_thread_ready_priority_group :=
               (if fam_list (fam_remove t (queues k)) (Ready (prio k t)) = []
                then rt_thread_ready_priority_group k AND NOT (number_mask (threads k t))
                else rt_thread_ready_priority_group k)\<rparr>)"
  by (simp add: rt_schedule_remove_thread_def Let_def fam_isempty_def)

lemma ready_group_clear:
  assumes bits: "\<And>q. bit g q \<longleftrightarrow> q < 32 \<and> rd q \<noteq> []" and p: "p < 32" and rd: "\<And>q. q \<noteq> p \<Longrightarrow> t \<notin> set (rd q)"
  shows "bit (if remove1 t (rd p) = [] then g AND NOT (2 ^ p) else g :: u32) q \<longleftrightarrow> q < 32 \<and> remove1 t (rd q) \<noteq> []"
proof (cases "q = p")
  case True
  then show ?thesis using bits [of p] p by (simp add: bit_and_iff bit_not_iff) (metis remove1.simps(1))
next
  case False
  then have "remove1 t (rd q) = rd q" using rd by (simp add: remove1_idem)
  with False show ?thesis using bits [of q] p by (simp add: bit_and_iff bit_not_iff) blast
qed

lemma rt_schedule_remove_thread_inv:
  assumes inv: "ready_inv_but t k" and st: "thread_static_ok (threads k t)"
    and k': "rt_schedule_remove_thread t k = Some k'"
  shows "ready_inv_but t k'" "q_loc k' t = None"
proof -
  from st have p: "prio k t < 32" and m: "number_mask (threads k t) = 2 ^ prio k t"
    by (simp_all add: thread_static_ok_def)
  have wf: "fam_wf (queues k)" using inv by (rule ready_inv_but_wf)
  note eq = k' [unfolded rt_schedule_remove_thread_eq [OF p], simplified, symmetric]
  show loc: "q_loc k' t = None" by (simp add: eq)
  have other: "t \<notin> set (ready k q)" if "q \<noteq> prio k t" for q
    using that inv fam_wf_mem [OF wf] by (auto simp: ready_inv_but_def)
  have bits: "bit (rt_thread_ready_priority_group k) q \<longleftrightarrow> q < 32 \<and> ready k q \<noteq> []" for q
    using inv by (simp add: ready_inv_but_def table_ok32_def)
  have grp: "rt_thread_ready_priority_group k' = (if remove1 t (ready k (prio k t)) = []
      then rt_thread_ready_priority_group k AND NOT (2 ^ prio k t) else rt_thread_ready_priority_group k)"
    by (simp add: eq fam_list_remove [OF wf] m)
  have "ready k' q = remove1 t (ready k q)" for q by (simp add: eq fam_list_remove [OF wf])
  then have "table_ok32 k'"
    using ready_group_clear [OF bits p other] fam_remove_wf [OF wf, of t] unfolding table_ok32_def grp
    by (simp only: eq) simp
  moreover have "thread_ok k' u" if "u \<noteq> t" for u
    using that inv thread_ok_cong [of k' u k] by (simp add: ready_inv_but_def eq)
  ultimately show "ready_inv_but t k'" using loc by (simp add: ready_inv_but_def)
qed

lemma rt_schedule_insert_thread_eq:
  assumes "prio k t < 32" and "q_loc k t = None"
  shows "rt_schedule_insert_thread t k =
     Some (k\<lparr>threads := (threads k)(t := (threads k t)\<lparr>stat := RT_THREAD_READY\<rparr>),
             queues := (queues k)\<lparr>fam_list := (q_list k)(Ready (prio k t) := ready k (prio k t) @ [t]),
                                  fam_loc := (q_loc k)(t \<mapsto> Ready (prio k t))\<rparr>,
             rt_thread_ready_priority_group :=
               rt_thread_ready_priority_group k OR number_mask (threads k t)\<rparr>)"
  using assms by (simp add: rt_schedule_insert_thread_def Let_def fam_insert_before_def upd_thread_def)

lemma rt_schedule_insert_thread_inv:
  assumes inv: "ready_inv_but t k" and st: "thread_static_ok (threads k t)" and tm: "thread_timer_ok k t"
    and off: "ThreadTimer t \<notin> set (rt_timer_list k)" and l: "q_loc k t = None"
  shows "\<exists>k'. rt_schedule_insert_thread t k = Some k' \<and> ready_inv k'"
proof -
  from st have p: "prio k t < 32" and m: "number_mask (threads k t) = 2 ^ prio k t"
    by (simp_all add: thread_static_ok_def)
  obtain k' where k': "rt_schedule_insert_thread t k = Some k'"
    using rt_schedule_insert_thread_eq [OF p l] by blast
  note eq = k' [unfolded rt_schedule_insert_thread_eq [OF p l], simplified, symmetric]
  have "fam_insert_before (Ready (prio k t)) t (queues k) = Some (queues k')"
    using l by (simp add: eq fam_insert_before_def)
  from fam_insert_before_wf [OF ready_inv_but_wf [OF inv] this] have wf: "fam_wf (queues k')" .
  have "bit (rt_thread_ready_priority_group k') q \<longleftrightarrow> q < 32 \<and> ready k' q \<noteq> []" for q
    using inv p m by (simp add: eq ready_inv_but_def table_ok32_def bit_or_iff)
  with wf have "table_ok32 k'" by (simp add: table_ok32_def)
  moreover have "thread_ok k' u" if "u \<noteq> t" for u
    using that inv thread_ok_cong [of k' u k] by (simp add: ready_inv_but_def eq)
  moreover have "thread_ok k' t" 
    using st tm off by (auto simp: eq thread_ok_def thread_static_ok_def stack_ok_def thread_timer_ok_def)
  ultimately have "ready_inv k'" unfolding ready_inv_def by metis
  with k' show ?thesis by blast
qed

end
