(* ===== verification/Thread.thy ===== *)
theory Thread
  imports Scheduler
begin

text \<open>
  Threads, \<^verbatim>\<open>src/thread.c\<close>: creation, startup, suspension and resumption, sleeping, priority
  changes, timeouts, and the ways a thread ends.  A call that blocks is split at its call of
  \<^verbatim>\<open>rt_schedule\<close>: the code after that call runs when the thread is switched to again.
  \<open>kinv\<close> is the invariant of the kernel proper; every operation keeps it.
\<close>

unbundle bit_operations_syntax

datatype thread_cmd =
    RT_THREAD_CTRL_STARTUP
  | RT_THREAD_CTRL_CLOSE
  | RT_THREAD_CTRL_CHANGE_PRIORITY u8
  | RT_THREAD_CTRL_INFO

definition rt_thread_self :: "kernel \<Rightarrow> tid option" where
  "rt_thread_self k = rt_current_thread k"

definition rt_thread_exit :: "kernel \<Rightarrow> kernel option" where
  "rt_thread_exit k =
     do { thread \<leftarrow> rt_current_thread k;
          k \<leftarrow> rt_schedule_remove_thread thread k;
          let k = upd_thread thread (\<lambda>th. th\<lparr>stat := RT_THREAD_CLOSE\<rparr>) k;
          let k = rt_timer_detach (ThreadTimer thread) k;
          k \<leftarrow> (if rt_object_is_systemobject (OThread thread) (objs k) \<and> cleanup (threads k thread) = None
               then Some (k\<lparr>objs := rt_object_detach (OThread thread) (objs k)\<rparr>)
               else do { Q \<leftarrow> fam_insert_after Defunct thread (queues k);
                         Some (k\<lparr>queues := Q\<rparr>) });
          rt_schedule k }"

text \<open>
  \<open>hw_stack_init\<close> is the port's \<^verbatim>\<open>rt_hw_stack_init\<close>: entry, parameter and the top of the stack
  to the initial stack pointer.  The thread's list node is reset without being unlinked, so
  initialising a thread that is linked stops the model.
\<close>

type_synonym stack_init = "u32 \<Rightarrow> u32 \<Rightarrow> u32 \<Rightarrow> u32"

definition rt_thread_init0 ::
  "stack_init \<Rightarrow> tid \<Rightarrow> u32 \<Rightarrow> u32 \<Rightarrow> u32 \<Rightarrow> u32 \<Rightarrow> u8 \<Rightarrow> u32 \<Rightarrow> kernel \<Rightarrow> kernel option" where
  "rt_thread_init0 hw_stack_init t ent par stack_start ssize priority tick k =
     do { valid_access (q_loc k t = None);
          let k = upd_thread t (\<lambda>th. th\<lparr>entry := ent, parameter := par,
                                        stack_addr := stack_start, stack_size := ucast ssize\<rparr>) k;
          let k = upd_thread t (\<lambda>th. th\<lparr>sp := hw_stack_init (entry th) (parameter th)
                                               (stack_addr th + ucast (stack_size th) - 4)\<rparr>) k;
          rt_assert (unat priority < RT_THREAD_PRIORITY_MAX);
          let k = upd_thread t (\<lambda>th. th\<lparr>init_priority := priority, current_priority := priority,
                                        th_init_tick := tick, remaining_tick := tick,
                                        error := RT_EOK, stat := RT_THREAD_INIT,
                                        cleanup := None, user_data := 0\<rparr>) k;
          rt_timer_init (ThreadTimer t) (obj_name (obj_hdr (objs k) (OThread t))) (TF_thread t) 0
            RT_TIMER_FLAG_ONE_SHOT k }"

definition rt_thread_init ::
  "stack_init \<Rightarrow> tid \<Rightarrow> cstr \<Rightarrow> u32 \<Rightarrow> u32 \<Rightarrow> u32 \<Rightarrow> u32 \<Rightarrow> u8 \<Rightarrow> u32 \<Rightarrow> kernel \<Rightarrow> kernel option" where
  "rt_thread_init hw_stack_init t name ent par stack_start ssize priority tick k =
     do { rt_assert (stack_start \<noteq> 0);
          os \<leftarrow> rt_object_init (OThread t) RT_Object_Class_Thread name (objs k);
          rt_thread_init0 hw_stack_init t ent par stack_start ssize priority tick (k\<lparr>objs := os\<rparr>) }"

text \<open>\<open>mem\<close> and \<open>stack_start\<close> are what the two \<^verbatim>\<open>RT_KERNEL_MALLOC\<close> calls return.\<close>

definition rt_thread_create ::
  "stack_init \<Rightarrow> tid option \<Rightarrow> u32 \<Rightarrow> cstr \<Rightarrow> u32 \<Rightarrow> u32 \<Rightarrow> u32 \<Rightarrow> u8 \<Rightarrow> u32 \<Rightarrow> kernel
   \<Rightarrow> (tid option \<times> kernel) option" where
  "rt_thread_create hw_stack_init mem stack_start name ent par ssize priority tick k =
     do { (ob, os) \<leftarrow> rt_object_allocate (map_option OThread mem) RT_Object_Class_Thread name (objs k);
          let k = k\<lparr>objs := os\<rparr>;
          (case mem of
             None \<Rightarrow> Some (None, k)
           | Some t \<Rightarrow>
               if stack_start = 0 then
                 do { os \<leftarrow> rt_object_delete (OThread t) (objs k);
                      Some (None, k\<lparr>objs := os\<rparr>) }
               else
                 do { k \<leftarrow> rt_thread_init0 hw_stack_init t ent par stack_start ssize priority tick k;
                      Some (Some t, k) }) }"

definition rt_thread_resume :: "tid \<Rightarrow> kernel \<Rightarrow> (rt_err_t \<times> kernel) option" where
  "rt_thread_resume thread k =
     (if stat (threads k thread) \<noteq> RT_THREAD_SUSPEND then Some (- RT_ERROR, k)
      else
        do { let k = k\<lparr>queues := fam_remove thread (queues k)\<rparr>;
             let k = snd (rt_timer_stop (ThreadTimer thread) k);
             k \<leftarrow> rt_schedule_insert_thread thread k;
             Some (RT_EOK, k) })"

definition rt_thread_suspend :: "tid \<Rightarrow> kernel \<Rightarrow> (rt_err_t \<times> kernel) option" where
  "rt_thread_suspend thread k =
     (if stat (threads k thread) \<noteq> RT_THREAD_READY then Some (- RT_ERROR, k)
      else
        do { let k = upd_thread thread (\<lambda>th. th\<lparr>stat := RT_THREAD_SUSPEND\<rparr>) k;
             k \<leftarrow> rt_schedule_remove_thread thread k;
             let k = snd (rt_timer_stop (ThreadTimer thread) k);
             Some (RT_EOK, k) })"

text \<open>A shift by 32 or more is undefined in C.\<close>

definition rt_thread_startup :: "tid \<Rightarrow> kernel \<Rightarrow> (rt_err_t \<times> kernel) option" where
  "rt_thread_startup thread k =
     do { rt_assert (stat (threads k thread) = RT_THREAD_INIT);
          let k = upd_thread thread (\<lambda>th. th\<lparr>current_priority := init_priority th\<rparr>) k;
          valid_access (prio k thread < 32);
          let k = upd_thread thread (\<lambda>th. th\<lparr>number_mask := push_bit (unat (current_priority th)) 1\<rparr>) k;
          let k = upd_thread thread (\<lambda>th. th\<lparr>stat := RT_THREAD_SUSPEND\<rparr>) k;
          (_, k) \<leftarrow> rt_thread_resume thread k;
          k \<leftarrow> (if rt_thread_self k \<noteq> None then rt_schedule k else Some k);
          Some (RT_EOK, k) }"

definition rt_thread_detach :: "tid \<Rightarrow> kernel \<Rightarrow> (rt_err_t \<times> kernel) option" where
  "rt_thread_detach thread k =
     do { k \<leftarrow> rt_schedule_remove_thread thread k;
          let k = rt_timer_detach (ThreadTimer thread) k;
          let k = upd_thread thread (\<lambda>th. th\<lparr>stat := RT_THREAD_CLOSE\<rparr>) k;
          let k = k\<lparr>objs := rt_object_detach (OThread thread) (objs k)\<rparr>;
          if cleanup (threads k thread) \<noteq> None
          then do { Q \<leftarrow> fam_insert_after Defunct thread (queues k);
                    Some (RT_EOK, k\<lparr>queues := Q\<rparr>) }
          else Some (RT_EOK, k) }"

definition rt_thread_delete :: "tid \<Rightarrow> kernel \<Rightarrow> (rt_err_t \<times> kernel) option" where
  "rt_thread_delete thread k =
     do { k \<leftarrow> rt_schedule_remove_thread thread k;
          let k = rt_timer_detach (ThreadTimer thread) k;
          let k = upd_thread thread (\<lambda>th. th\<lparr>stat := RT_THREAD_CLOSE\<rparr>) k;
          Q \<leftarrow> fam_insert_after Defunct thread (queues k);
          Some (RT_EOK, k\<lparr>queues := Q\<rparr>) }"

definition rt_thread_yield :: "kernel \<Rightarrow> (rt_err_t \<times> kernel) option" where
  "rt_thread_yield k =
     do { thread \<leftarrow> rt_current_thread k;
          if stat (threads k thread) = RT_THREAD_READY \<and> fam_has_neighbours thread (queues k) then
            do { let k = k\<lparr>queues := fam_remove thread (queues k)\<rparr>;
                 valid_access (prio k thread < RT_THREAD_PRIORITY_MAX);
                 Q \<leftarrow> fam_insert_before (Ready (prio k thread)) thread (queues k);
                 k \<leftarrow> rt_schedule (k\<lparr>queues := Q\<rparr>);
                 Some (RT_EOK, k) }
          else Some (RT_EOK, k) }"

text \<open>\<^verbatim>\<open>rt_thread_sleep\<close> up to and including its \<^verbatim>\<open>rt_schedule\<close>, and what it does when it runs
  again.\<close>

definition rt_thread_sleep :: "rt_tick_t \<Rightarrow> kernel \<Rightarrow> kernel option" where
  "rt_thread_sleep tick k =
     do { thread \<leftarrow> rt_current_thread k;
          (_, k) \<leftarrow> rt_thread_suspend thread k;
          let k = snd (rt_timer_control (ThreadTimer thread) (RT_TIMER_CTRL_SET_TIME tick) k);
          k \<leftarrow> rt_timer_start (ThreadTimer thread) k;
          rt_schedule k }"

definition rt_thread_sleep_wake :: "tid \<Rightarrow> kernel \<Rightarrow> rt_err_t \<times> kernel" where
  "rt_thread_sleep_wake thread k =
     (RT_EOK, if error (threads k thread) = - RT_ETIMEOUT
              then upd_thread thread (\<lambda>th. th\<lparr>error := RT_EOK\<rparr>) k else k)"

definition rt_thread_delay :: "rt_tick_t \<Rightarrow> kernel \<Rightarrow> kernel option" where
  "rt_thread_delay tick k = rt_thread_sleep tick k"

definition rt_thread_control :: "tid \<Rightarrow> thread_cmd \<Rightarrow> kernel \<Rightarrow> (rt_err_t \<times> kernel) option" where
  "rt_thread_control thread cmd k =
     (case cmd of
        RT_THREAD_CTRL_CHANGE_PRIORITY p \<Rightarrow>
          if stat (threads k thread) = RT_THREAD_READY then
            do { k \<leftarrow> rt_schedule_remove_thread thread k;
                 let k = upd_thread thread (\<lambda>th. th\<lparr>current_priority := p\<rparr>) k;
                 valid_access (prio k thread < 32);
                 let k = upd_thread thread (\<lambda>th. th\<lparr>number_mask := push_bit (unat (current_priority th)) 1\<rparr>) k;
                 k \<leftarrow> rt_schedule_insert_thread thread k;
                 Some (RT_EOK, k) }
          else
            do { let k = upd_thread thread (\<lambda>th. th\<lparr>current_priority := p\<rparr>) k;
                 valid_access (prio k thread < 32);
                 let k = upd_thread thread (\<lambda>th. th\<lparr>number_mask := push_bit (unat (current_priority th)) 1\<rparr>) k;
                 Some (RT_EOK, k) }
      | RT_THREAD_CTRL_STARTUP \<Rightarrow> rt_thread_startup thread k
      | RT_THREAD_CTRL_CLOSE \<Rightarrow> rt_thread_delete thread k
      | RT_THREAD_CTRL_INFO \<Rightarrow> Some (RT_EOK, k))"

definition rt_thread_timeout :: "tid \<Rightarrow> kernel \<Rightarrow> kernel option" where
  "rt_thread_timeout thread k =
     do { rt_assert (stat (threads k thread) = RT_THREAD_SUSPEND);
          let k = upd_thread thread (\<lambda>th. th\<lparr>error := - RT_ETIMEOUT\<rparr>) k;
          let k = k\<lparr>queues := fam_remove thread (queues k)\<rparr>;
          k \<leftarrow> rt_schedule_insert_thread thread k;
          rt_schedule k }"

definition rt_thread_find :: "cstr \<Rightarrow> kernel \<Rightarrow> (objref option \<times> kernel) option" where
  "rt_thread_find name k =
     do { let k = (if rt_thread_self k \<noteq> None then rt_enter_critical k else k);
          let r = find_named (obj_hdr (objs k)) name
                    (fam_list (rt_object_container (objs k)) (class_code RT_Object_Class_Thread));
          k \<leftarrow> (if rt_thread_self k \<noteq> None then rt_exit_critical k else Some k);
          Some (r, k) }"

section \<open>The kernel invariant\<close>

definition kinv :: "int \<Rightarrow> kernel \<Rightarrow> bool" where
  "kinv lo k \<longleftrightarrow> ready_inv k \<and> queue_ok lo k \<and> obj_inv (objs k)"

text \<open>The invariant for every thread but the one an operation is working on.\<close>

definition kinv_but :: "int \<Rightarrow> tid \<Rightarrow> kernel \<Rightarrow> bool" where
  "kinv_but lo t k \<longleftrightarrow> ready_inv_but t k \<and> queue_ok lo k \<and> obj_inv (objs k)"

lemma kinv_split: "kinv lo k \<longleftrightarrow> kinv_but lo t k \<and> thread_ok k t"
  using ready_inv_split [of k t] by (auto simp: kinv_def kinv_but_def)

lemma kinvD: "kinv lo k \<Longrightarrow> ready_inv k" "kinv lo k \<Longrightarrow> queue_ok lo k" "kinv lo k \<Longrightarrow> obj_inv (objs k)"
  by (simp_all add: kinv_def)

lemma kinv_wf: "kinv lo k \<Longrightarrow> fam_wf (queues k)" "kinv_but lo t k \<Longrightarrow> fam_wf (queues k)"
  by (auto simp: kinv_def kinv_but_def intro: ready_inv_wf ready_inv_but_wf)

lemma kinv_butD: "kinv lo k \<Longrightarrow> kinv_but lo t k"
  using kinv_split by blast

lemma kinv_thread: "kinv lo k \<Longrightarrow> thread_ok k t"
  using kinv_split by blast

lemma kinv_live:
  assumes "kinv lo k" and "stat (threads k t) = RT_THREAD_READY \<or> stat (threads k t) = RT_THREAD_SUSPEND"
  shows "thread_static_ok (threads k t)" "thread_timer_ok k t"
  using kinv_thread [OF assms(1), of t] assms(2) by (auto simp: thread_ok_def live_def)

text \<open>What an operation leaves alone: the clock, the nesting counts, the current thread, and
  the log of context switches.\<close>

definition same_ctx :: "kernel \<Rightarrow> kernel \<Rightarrow> bool" where
  "same_ctx k k' \<longleftrightarrow> rt_tick k' = rt_tick k \<and> rt_interrupt_nest k' = rt_interrupt_nest k \<and>
     rt_scheduler_lock_nest k' = rt_scheduler_lock_nest k \<and> rt_current_thread k' = rt_current_thread k \<and>
     rt_current_priority k' = rt_current_priority k \<and> hw_log k' = hw_log k"

lemma same_ctx_refl [simp]: "same_ctx k k"
  by (simp add: same_ctx_def)

lemma same_ctx_trans: "same_ctx k k' \<Longrightarrow> same_ctx k' k'' \<Longrightarrow> same_ctx k k''"
  by (simp add: same_ctx_def)

lemma same_ctxD:
  assumes "same_ctx k k'"
  shows "rt_tick k' = rt_tick k" "rt_interrupt_nest k' = rt_interrupt_nest k"
    "rt_scheduler_lock_nest k' = rt_scheduler_lock_nest k" "rt_current_thread k' = rt_current_thread k"
  using assms by (simp_all add: same_ctx_def)

subsection \<open>Steps on the thread being worked on\<close>

lemma kinv_but_upd_thread:
  assumes "kinv_but lo t k" and "current_priority (f (threads k t)) = current_priority (threads k t) \<or> q_loc k t = None"
  shows "kinv_but lo t (upd_thread t f k)"
proof -
  have "thread_ok (upd_thread t f k) u = thread_ok k u" if "u \<noteq> t" for u
    using that by (intro thread_ok_cong) auto
  moreover have "queue_ok lo (upd_thread t f k) = queue_ok lo k" by (intro queue_ok_cong) auto
  ultimately show ?thesis using assms by (auto simp: kinv_but_def ready_inv_but_def table_ok32_def)
qed

lemma kinv_but_remove_thread:
  assumes inv: "kinv_but lo t k" and st: "thread_static_ok (threads k t)"
  shows "\<exists>k'. rt_schedule_remove_thread t k = Some k' \<and> kinv_but lo t k' \<and> q_loc k' t = None \<and>
     threads k' = threads k \<and> timers k' = timers k \<and> rt_timer_list k' = rt_timer_list k \<and>
     objs k' = objs k \<and> same_ctx k k' \<and> (\<forall>q. q_list k' q = remove1 t (q_list k q))"
proof -
  from st have p: "prio k t < 32" by (simp add: thread_static_ok_def)
  obtain k' where k': "rt_schedule_remove_thread t k = Some k'"
    using rt_schedule_remove_thread_eq [OF p] by blast
  note eq = k' [unfolded rt_schedule_remove_thread_eq [OF p], simplified, symmetric]
  have "ready_inv_but t k'" "q_loc k' t = None"
    using rt_schedule_remove_thread_inv [OF _ st k'] inv by (simp_all add: kinv_but_def)
  moreover have "queue_ok lo k' = queue_ok lo k" by (intro queue_ok_cong) (simp_all add: eq)
  ultimately show ?thesis
    using k' inv fam_list_remove [OF kinv_wf(2) [OF inv], of t] by (simp add: kinv_but_def eq same_ctx_def)
qed

text \<open>Unlinking a thread that is on no ready list.\<close>

lemma kinv_but_unlink:
  assumes inv: "kinv_but lo t k" and loc: "\<And>p. q_loc k t \<noteq> Some (Ready p)"
  shows "kinv_but lo t (k\<lparr>queues := fam_remove t (queues k)\<rparr>)"
proof -
  let ?k = "k\<lparr>queues := fam_remove t (queues k)\<rparr>"
  have wf: "fam_wf (queues k)" by (rule kinv_wf(2) [OF inv])
  have "remove1 t (ready k p) = ready k p" for p
    using loc fam_wf_mem [OF wf] by (intro remove1_idem) auto
  then have "table_ok32 ?k"
    using inv fam_remove_wf [OF wf] by (simp add: kinv_but_def ready_inv_but_def table_ok32_def fam_list_remove [OF wf])
  moreover have "thread_ok ?k u = thread_ok k u" if "u \<noteq> t" for u
    using that by (intro thread_ok_cong) auto
  moreover have "queue_ok lo ?k = queue_ok lo k" by (intro queue_ok_cong) auto
  ultimately show ?thesis using inv by (simp add: kinv_but_def ready_inv_but_def)
qed

lemma kinv_but_timer_stop:
  assumes inv: "kinv_but lo t k"
  shows "kinv_but lo t (snd (rt_timer_stop (ThreadTimer t) k))"
proof -
  let ?k = "snd (rt_timer_stop (ThreadTimer t) k)"
  have "ThreadTimer u \<in> set (rt_timer_list ?k) \<longleftrightarrow> ThreadTimer u \<in> set (rt_timer_list k)" if "u \<noteq> t" for u
    using that by (auto simp: rt_timer_stop_def rt_timer_remove_def Let_def)
  then have "thread_ok ?k u = thread_ok k u" if "u \<noteq> t" for u
    using that by (intro thread_ok_cong) auto
  then show ?thesis using inv rt_timer_stop_queue_ok [of lo k]
    by (simp add: kinv_but_def ready_inv_but_def table_ok32_def)
qed

lemma kinv_but_timer_start:
  assumes inv: "kinv_but lo t k" and w: "tm_init_tick (timers k (ThreadTimer t)) < RT_TICK_HALF" and lo: "lo \<le> 0"
  shows "\<exists>k'. rt_timer_start (ThreadTimer t) k = Some k' \<and> kinv_but lo t k' \<and>
     queues k' = queues k \<and> threads k' = threads k \<and> objs k' = objs k \<and> same_ctx k k' \<and>
     set (rt_timer_list k') = insert (ThreadTimer t) (set (rt_timer_list k)) \<and>
     (\<forall>i. i \<noteq> ThreadTimer t \<longrightarrow> timers k' i = timers k i) \<and>
     timeout_tick (timers k' (ThreadTimer t)) = rt_tick k + tm_init_tick (timers k (ThreadTimer t)) \<and>
     activated k' (ThreadTimer t) \<and> (thread_timer_ok k t \<longrightarrow> thread_timer_ok k' t)"
proof -
  from rt_timer_start_queue_ok [OF _ w lo] inv obtain k'
    where k': "rt_timer_start (ThreadTimer t) k = Some k'" and ok: "queue_ok lo k'"
    by (auto simp: kinv_but_def)
  note eq = k' [unfolded rt_timer_start_eq [OF w], simplified, symmetric]
  have d: "distinct (rt_timer_list k)" using inv by (simp add: kinv_but_def queue_ok_def)
  have s: "set (rt_timer_list k') = insert (ThreadTimer t) (set (rt_timer_list k))"
    using d by (auto simp: eq)
  have "thread_ok k' u = thread_ok k u" if "u \<noteq> t" for u
    using that s by (intro thread_ok_cong) (auto simp: eq)
  then have inv': "kinv_but lo t k'"
    using inv ok by (auto simp: eq kinv_but_def ready_inv_but_def table_ok32_def)
  have "thread_timer_ok k t \<longrightarrow> thread_timer_ok k' t"
    by (auto simp: eq thread_timer_ok_def bit_eq_iff bit_simps)
  then show ?thesis
    using k' inv' s by (simp add: eq same_ctx_def activated_def)
qed

lemma kinv_insert_thread:
  assumes inv: "kinv_but lo t k" and st: "thread_static_ok (threads k t)" and tm: "thread_timer_ok k t"
    and off: "ThreadTimer t \<notin> set (rt_timer_list k)" and l: "q_loc k t = None"
  shows "\<exists>k'. rt_schedule_insert_thread t k = Some k' \<and> kinv lo k' \<and>
     threads k' = (threads k)(t := (threads k t)\<lparr>stat := RT_THREAD_READY\<rparr>) \<and>
     timers k' = timers k \<and> rt_timer_list k' = rt_timer_list k \<and> objs k' = objs k \<and> same_ctx k k' \<and>
     q_list k' = (q_list k)(Ready (prio k t) := ready k (prio k t) @ [t])"
proof -
  from st have p: "prio k t < 32" by (simp add: thread_static_ok_def)
  from rt_schedule_insert_thread_inv [OF _ st tm off l] inv obtain k'
    where k': "rt_schedule_insert_thread t k = Some k'" and r: "ready_inv k'"
    by (auto simp: kinv_but_def)
  note eq = k' [unfolded rt_schedule_insert_thread_eq [OF p l], simplified, symmetric]
  have "queue_ok lo k' = queue_ok lo k" by (intro queue_ok_cong) (simp_all add: eq)
  then show ?thesis using k' r inv by (simp add: kinv_def kinv_but_def eq same_ctx_def)
qed

text \<open>Linking the thread on a list that is no ready list.\<close>

lemma kinv_but_link:
  assumes inv: "kinv_but lo t k" and wf: "fam_wf Q" and oth: "\<And>u. u \<noteq> t \<Longrightarrow> fam_loc Q u = q_loc k u"
    and rd: "\<And>p. fam_list Q (Ready p) = ready k p" and loc: "\<And>p. fam_loc Q t \<noteq> Some (Ready p)"
  shows "kinv_but lo t (k\<lparr>queues := Q\<rparr>)"
proof -
  have "thread_ok (k\<lparr>queues := Q\<rparr>) u = thread_ok k u" if "u \<noteq> t" for u
    using that oth by (intro thread_ok_cong) auto
  moreover have "queue_ok lo (k\<lparr>queues := Q\<rparr>) = queue_ok lo k" by (intro queue_ok_cong) auto
  ultimately show ?thesis using inv wf rd loc by (simp add: kinv_but_def ready_inv_but_def table_ok32_def)
qed

lemma kinv_but_insert_after:
  assumes inv: "kinv_but lo t k" and q: "\<And>p. q \<noteq> Ready p" and l: "q_loc k t = None"
  shows "\<exists>Q. fam_insert_after q t (queues k) = Some Q \<and> kinv_but lo t (k\<lparr>queues := Q\<rparr>) \<and>
     fam_loc Q t = Some q \<and> fam_list Q = (q_list k)(q := t # q_list k q)"
proof -
  from l obtain Q where Q: "fam_insert_after q t (queues k) = Some Q" by (simp add: fam_insert_after_def)
  have wf: "fam_wf Q" by (rule fam_insert_after_wf [OF kinv_wf(2) [OF inv] Q])
  have "fam_loc Q = (q_loc k)(t \<mapsto> q)" "fam_list Q = (q_list k)(q := t # q_list k q)"
    using Q l by (auto simp: fam_insert_after_def)
  moreover from this have "kinv_but lo t (k\<lparr>queues := Q\<rparr>)"
    using q q [symmetric] by (intro kinv_but_link [OF inv wf]) simp_all
  ultimately show ?thesis using Q by simp
qed

lemma kinv_but_insert_before:
  assumes inv: "kinv_but lo t k" and q: "\<And>p. q \<noteq> Ready p" and l: "q_loc k t = None"
  shows "\<exists>Q. fam_insert_before q t (queues k) = Some Q \<and> kinv_but lo t (k\<lparr>queues := Q\<rparr>) \<and>
     fam_loc Q t = Some q \<and> fam_list Q = (q_list k)(q := q_list k q @ [t])"
proof -
  from l obtain Q where Q: "fam_insert_before q t (queues k) = Some Q" by (simp add: fam_insert_before_def)
  have wf: "fam_wf Q" by (rule fam_insert_before_wf [OF kinv_wf(2) [OF inv] Q])
  have "fam_loc Q = (q_loc k)(t \<mapsto> q)" "fam_list Q = (q_list k)(q := q_list k q @ [t])"
    using Q l by (auto simp: fam_insert_before_def)
  moreover from this have "kinv_but lo t (k\<lparr>queues := Q\<rparr>)"
    using q q [symmetric] by (intro kinv_but_link [OF inv wf]) simp_all
  ultimately show ?thesis using Q by simp
qed

lemma rt_timer_detach_frame [simp]:
  "threads (rt_timer_detach i k) = threads k" "queues (rt_timer_detach i k) = queues k"
  "timers (rt_timer_detach i k) = timers k" "same_ctx k (rt_timer_detach i k)"
  "rt_thread_ready_priority_group (rt_timer_detach i k) = rt_thread_ready_priority_group k"
  by (simp_all add: rt_timer_detach_def Let_def same_ctx_def)

lemma kinv_but_timer_detach:
  assumes inv: "kinv_but lo t k"
  shows "kinv_but lo t (rt_timer_detach (ThreadTimer t) k)"
    and "ThreadTimer t \<notin> set (rt_timer_list (rt_timer_detach (ThreadTimer t) k))"
proof -
  let ?k = "rt_timer_detach (ThreadTimer t) k"
  have ok: "queue_ok lo ?k = queue_ok lo (rt_timer_remove (ThreadTimer t) k)"
    by (intro queue_ok_cong) (auto simp: rt_timer_detach_def Let_def)
  have "thread_ok ?k u = thread_ok k u" if "u \<noteq> t" for u
    using that by (intro thread_ok_cong) (auto simp: rt_timer_detach_def Let_def rt_timer_remove_def)
  moreover have "queue_ok lo ?k" using inv ok rt_timer_remove_queue_ok by (simp add: kinv_but_def)
  moreover have "obj_inv (objs ?k)"
    using inv rt_object_detach_inv [of "objs k"] by (simp add: kinv_but_def rt_timer_detach_def Let_def)
  ultimately show "kinv_but lo t ?k"
    using inv by (simp add: kinv_but_def ready_inv_but_def table_ok32_def)
  show "ThreadTimer t \<notin> set (rt_timer_list ?k)"
    using inv rt_timer_remove_gone by (auto simp: kinv_but_def rt_timer_detach_def Let_def)
qed

lemma kinv_but_objs: "kinv_but lo t k \<Longrightarrow> obj_inv os \<Longrightarrow> kinv_but lo t (k\<lparr>objs := os\<rparr>)"
  using queue_ok_cong [of k "k\<lparr>objs := os\<rparr>" lo] thread_ok_cong [of "k\<lparr>objs := os\<rparr>" _ k]
  by (auto simp: kinv_but_def ready_inv_but_def table_ok32_def)

text \<open>A call of the scheduler: only the current thread and the switch log change.\<close>

definition same_data :: "kernel \<Rightarrow> kernel \<Rightarrow> bool" where
  "same_data k k' \<longleftrightarrow> rt_tick k' = rt_tick k \<and> rt_interrupt_nest k' = rt_interrupt_nest k \<and>
     rt_scheduler_lock_nest k' = rt_scheduler_lock_nest k \<and>
     rt_thread_ready_priority_group k' = rt_thread_ready_priority_group k \<and>
     queues k' = queues k \<and> threads k' = threads k \<and> timers k' = timers k \<and>
     rt_timer_list k' = rt_timer_list k \<and> objs k' = objs k"

lemma same_data_kinv: "same_data k k' \<Longrightarrow> kinv lo k' = kinv lo k"
  using ready_inv_cong [of k' k] queue_ok_cong [of k k' lo] by (simp add: same_data_def kinv_def)

lemma rt_schedule_same: "rt_schedule k = Some k' \<Longrightarrow> same_data k k'"
  using rt_schedule_frame [of k k'] by (simp add: same_data_def)

definition some_ready :: "kernel \<Rightarrow> bool" where
  "some_ready k \<longleftrightarrow> (\<exists>u. stat (threads k u) = RT_THREAD_READY)"

lemma rt_schedule_current:
  assumes k': "rt_schedule k = Some k'" and lock: "rt_scheduler_lock_nest k = 0"
  shows "\<exists>p t. highest_ready k = Some (p, t) \<and> rt_current_thread k' = Some t"
proof (cases "highest_ready k")
  case None
  with assms show ?thesis by (simp add: rt_schedule_def)
next
  case (Some pt)
  obtain p t where pt: "pt = (p, t)" by (cases pt)
  show ?thesis
  proof (cases "rt_current_thread k = Some t")
    case True
    with assms Some pt show ?thesis by (simp add: rt_schedule_def)
  next
    case False
    with k' lock Some pt have "rt_current_thread k' = Some t"
      by (cases "rt_current_thread k"; cases "rt_scheduler_stack_check t k") (auto simp: rt_schedule_def)
    with Some pt show ?thesis by simp
  qed
qed

lemma kinv_current_ready:
  assumes "kinv lo k" and "rt_schedule k = Some k'" and "rt_scheduler_lock_nest k = 0"
  shows "\<exists>t. rt_current_thread k' = Some t \<and> stat (threads k t) = RT_THREAD_READY"
  using rt_schedule_current [OF assms(2,3)] highest_readyD(4) [OF kinvD(1) [OF assms(1)]] by blast

lemma kinv_schedule:
  assumes "kinv lo k" and "some_ready k" and "rt_current_thread k = Some c"
  shows "\<exists>k'. rt_schedule k = Some k' \<and> same_data k k' \<and> kinv lo k' \<and> rt_current_thread k' \<noteq> None"
proof -
  from assms(2) obtain u where u: "stat (threads k u) = RT_THREAD_READY" by (auto simp: some_ready_def)
  from rt_schedule_total [OF kinvD(1) [OF assms(1)] u assms(3)] obtain k' where k': "rt_schedule k = Some k'" by blast
  moreover have "rt_current_thread k' \<noteq> None"
    using k' assms(3) by (auto simp: rt_schedule_def Option.bind_eq_Some_conv split: if_splits)
  ultimately show ?thesis using rt_schedule_same same_data_kinv assms(1) by blast
qed

section \<open>The operations\<close>

lemma thread_timer_ok_stop [simp]: "thread_timer_ok (snd (rt_timer_stop i k)) t = thread_timer_ok k t"
proof -
  have "(w AND NOT 1) AND 2 = w AND (2::u8)" for w by (simp only: and.assoc) simp
  then show ?thesis by (cases "i = ThreadTimer t") (auto simp: thread_timer_ok_def rt_timer_stop_def Let_def)
qed

lemma rt_thread_suspend_spec:
  assumes inv: "kinv lo k" and r: "stat (threads k t) = RT_THREAD_READY"
  shows "\<exists>k'. rt_thread_suspend t k = Some (RT_EOK, k') \<and> kinv lo k' \<and>
     threads k' = (threads k)(t := (threads k t)\<lparr>stat := RT_THREAD_SUSPEND\<rparr>) \<and> q_loc k' t = None \<and>
     set (rt_timer_list k') = set (rt_timer_list k) \<and> ThreadTimer t \<notin> set (rt_timer_list k) \<and>
     objs k' = objs k \<and> same_ctx k k' \<and> (\<forall>q. q_list k' q = remove1 t (q_list k q))"
proof -
  let ?k1 = "upd_thread t (\<lambda>th. th\<lparr>stat := RT_THREAD_SUSPEND\<rparr>) k"
  have st: "thread_static_ok (threads k t)" and tm: "thread_timer_ok k t" using kinv_live [OF inv] r by auto
  have st1: "thread_static_ok (threads ?k1 t)" using st by (simp add: thread_static_ok_def stack_ok_def)
  have off: "ThreadTimer t \<notin> set (rt_timer_list k)" using kinv_thread [OF inv, of t] r by (auto simp: thread_ok_def)
  have "kinv_but lo t ?k1" using kinv_butD [OF inv] by (intro kinv_but_upd_thread) auto
  from kinv_but_remove_thread [OF this st1] obtain k2 where k2: "rt_schedule_remove_thread t ?k1 = Some k2"
    and inv2: "kinv_but lo t k2" and loc2: "q_loc k2 t = None"
    and fr: "threads k2 = threads ?k1" "timers k2 = timers k" "rt_timer_list k2 = rt_timer_list k"
      "objs k2 = objs k" "same_ctx ?k1 k2" "\<forall>q. q_list k2 q = remove1 t (q_list k q)" by auto
  let ?k3 = "snd (rt_timer_stop (ThreadTimer t) k2)"
  have l3: "set (rt_timer_list ?k3) = set (rt_timer_list k)"
    using rt_timer_stop_list [of lo k2 "ThreadTimer t"] off inv2 fr by (auto simp: kinv_but_def)
  have "kinv_but lo t ?k3" by (rule kinv_but_timer_stop [OF inv2])
  moreover have "thread_ok ?k3 t"
    using loc2 fr st1 tm l3 off
    by (simp add: thread_ok_def) (simp add: thread_timer_ok_def)
  ultimately have "kinv lo ?k3" using kinv_split by blast
  then show ?thesis
    using r k2 loc2 fr l3 off by (auto simp: rt_thread_suspend_def Let_def same_ctx_def)
qed


text \<open>
  The common tail of \<^verbatim>\<open>rt_thread_resume\<close> and \<^verbatim>\<open>rt_thread_timeout\<close>: a suspended thread whose
  timer is off the queue is unlinked and made ready.
\<close>

lemma make_ready_spec:
  assumes inv: "kinv_but lo t k" and st: "thread_static_ok (threads k t)" and tm: "thread_timer_ok k t"
    and off: "ThreadTimer t \<notin> set (rt_timer_list k)" and nr: "\<And>p. q_loc k t \<noteq> Some (Ready p)"
  shows "\<exists>k'. rt_schedule_insert_thread t (k\<lparr>queues := fam_remove t (queues k)\<rparr>) = Some k' \<and> kinv lo k' \<and>
     threads k' = (threads k)(t := (threads k t)\<lparr>stat := RT_THREAD_READY\<rparr>) \<and>
     rt_timer_list k' = rt_timer_list k \<and> timers k' = timers k \<and> objs k' = objs k \<and> same_ctx k k' \<and>
     (\<forall>q. q_list k' q = (if q = Ready (prio k t) then q_list k q @ [t] else remove1 t (q_list k q)))"
proof -
  let ?k = "k\<lparr>queues := fam_remove t (queues k)\<rparr>"
  have wf: "fam_wf (queues k)" by (rule kinv_wf(2) [OF inv])
  have rd: "remove1 t (ready k p) = ready k p" for p
    using nr fam_wf_mem [OF wf] by (intro remove1_idem) auto
  have "kinv_but lo t ?k" by (rule kinv_but_unlink [OF inv nr])
  from kinv_insert_thread [OF this] st tm off obtain k' where
    "rt_schedule_insert_thread t ?k = Some k'" "kinv lo k'"
    "threads k' = (threads k)(t := (threads k t)\<lparr>stat := RT_THREAD_READY\<rparr>)"
    "rt_timer_list k' = rt_timer_list k" "timers k' = timers k" "objs k' = objs k" "same_ctx ?k k'"
    "q_list k' = (q_list ?k)(Ready (prio k t) := ready ?k (prio k t) @ [t])"
    by (auto simp: thread_timer_ok_def)
  then show ?thesis by (auto simp: fam_list_remove [OF wf] rd same_ctx_def)
qed

lemma suspended_not_ready:
  "kinv lo k \<Longrightarrow> stat (threads k t) \<noteq> RT_THREAD_READY \<Longrightarrow> q_loc k t \<noteq> Some (Ready p)"
  using kinv_thread [of lo k t] by (auto simp: thread_ok_def)

lemma rt_thread_resume_spec:
  assumes inv: "kinv lo k" and s: "stat (threads k t) = RT_THREAD_SUSPEND"
  shows "\<exists>k'. rt_thread_resume t k = Some (RT_EOK, k') \<and> kinv lo k' \<and>
     threads k' = (threads k)(t := (threads k t)\<lparr>stat := RT_THREAD_READY\<rparr>) \<and>
     set (rt_timer_list k') = set (rt_timer_list k) - {ThreadTimer t} \<and> objs k' = objs k \<and> same_ctx k k' \<and>
     (\<forall>q. q_list k' q = (if q = Ready (prio k t) then q_list k q @ [t] else remove1 t (q_list k q)))"
proof -
  let ?k1 = "snd (rt_timer_stop (ThreadTimer t) k)"
  have st: "thread_static_ok (threads k t)" and tm: "thread_timer_ok k t" using kinv_live [OF inv] s by auto
  have "ThreadTimer t \<in> set (rt_timer_list k) \<Longrightarrow> activated k (ThreadTimer t)"
    using kinv_thread [OF inv, of t] by (auto simp: thread_ok_def)
  then have l1: "set (rt_timer_list ?k1) = set (rt_timer_list k) - {ThreadTimer t}"
    using rt_timer_stop_list [OF kinvD(2) [OF inv]] by blast
  have nr: "q_loc ?k1 t \<noteq> Some (Ready p)" for p using suspended_not_ready [OF inv] s by simp
  have swap: "snd (rt_timer_stop (ThreadTimer t) (k\<lparr>queues := fam_remove t (queues k)\<rparr>)) =
      ?k1\<lparr>queues := fam_remove t (queues ?k1)\<rparr>"
    by (simp add: rt_timer_stop_def Let_def rt_timer_remove_def upd_timer_def)
  from make_ready_spec [OF kinv_but_timer_stop [OF kinv_butD [OF inv]], of t] st tm l1 nr obtain k' where
    "rt_schedule_insert_thread t (?k1\<lparr>queues := fam_remove t (queues ?k1)\<rparr>) = Some k'" "kinv lo k'"
    "threads k' = (threads k)(t := (threads k t)\<lparr>stat := RT_THREAD_READY\<rparr>)"
    "rt_timer_list k' = rt_timer_list ?k1" "objs k' = objs k" "same_ctx ?k1 k'"
    "\<forall>q. q_list k' q = (if q = Ready (prio k t) then q_list k q @ [t] else remove1 t (q_list k q))"
    by auto
  then show ?thesis using s l1 by (simp add: rt_thread_resume_def Let_def swap same_ctx_def)
qed

lemma rt_thread_timeout_ready:
  assumes inv: "kinv lo k" and s: "stat (threads k t) = RT_THREAD_SUSPEND"
    and off: "ThreadTimer t \<notin> set (rt_timer_list k)"
  shows "\<exists>k'. rt_schedule_insert_thread t ((upd_thread t (\<lambda>th. th\<lparr>error := - RT_ETIMEOUT\<rparr>) k)
         \<lparr>queues := fam_remove t (queues k)\<rparr>) = Some k' \<and> kinv lo k' \<and>
     threads k' = (threads k)(t := (threads k t)\<lparr>error := - RT_ETIMEOUT, stat := RT_THREAD_READY\<rparr>) \<and>
     rt_timer_list k' = rt_timer_list k \<and> timers k' = timers k \<and> objs k' = objs k \<and> same_ctx k k' \<and>
     (\<forall>q. q_list k' q = (if q = Ready (prio k t) then q_list k q @ [t] else remove1 t (q_list k q)))"
proof -
  let ?k1 = "upd_thread t (\<lambda>th. th\<lparr>error := - RT_ETIMEOUT\<rparr>) k"
  have st: "thread_static_ok (threads k t)" and tm: "thread_timer_ok k t" using kinv_live [OF inv] s by auto
  have inv1: "kinv_but lo t ?k1" using kinv_butD [OF inv] by (intro kinv_but_upd_thread) auto
  have nr: "q_loc ?k1 t \<noteq> Some (Ready p)" for p using suspended_not_ready [OF inv] s by simp
  have "\<exists>k'. rt_schedule_insert_thread t (?k1\<lparr>queues := fam_remove t (queues ?k1)\<rparr>) = Some k' \<and> kinv lo k' \<and>
     threads k' = (threads ?k1)(t := (threads ?k1 t)\<lparr>stat := RT_THREAD_READY\<rparr>) \<and>
     rt_timer_list k' = rt_timer_list ?k1 \<and> timers k' = timers ?k1 \<and> objs k' = objs ?k1 \<and> same_ctx ?k1 k' \<and>
     (\<forall>q. q_list k' q = (if q = Ready (prio ?k1 t) then q_list ?k1 q @ [t] else remove1 t (q_list ?k1 q)))"
    using st tm off nr
    by (intro make_ready_spec [OF inv1]) (simp_all add: thread_static_ok_def stack_ok_def thread_timer_ok_def)
  then show ?thesis by (simp add: same_ctx_def cong: if_cong)
qed

lemma rt_thread_timeout_spec:
  assumes inv: "kinv lo k" and s: "stat (threads k t) = RT_THREAD_SUSPEND"
    and off: "ThreadTimer t \<notin> set (rt_timer_list k)" and c: "rt_current_thread k = Some c"
  shows "\<exists>k'. rt_thread_timeout t k = Some k' \<and> kinv lo k' \<and>
     threads k' = (threads k)(t := (threads k t)\<lparr>error := - RT_ETIMEOUT, stat := RT_THREAD_READY\<rparr>) \<and>
     rt_timer_list k' = rt_timer_list k \<and> timers k' = timers k \<and> objs k' = objs k \<and>
     rt_tick k' = rt_tick k \<and> rt_scheduler_lock_nest k' = rt_scheduler_lock_nest k \<and>
     rt_interrupt_nest k' = rt_interrupt_nest k \<and> rt_current_thread k' \<noteq> None \<and>
     (\<forall>q. q_list k' q = (if q = Ready (prio k t) then q_list k q @ [t] else remove1 t (q_list k q)))"
proof -
  from rt_thread_timeout_ready [OF inv s off] obtain k1 where
    k1: "rt_schedule_insert_thread t ((upd_thread t (\<lambda>th. th\<lparr>error := - RT_ETIMEOUT\<rparr>) k)
         \<lparr>queues := fam_remove t (queues k)\<rparr>) = Some k1" and inv1: "kinv lo k1"
    and th1: "threads k1 = (threads k)(t := (threads k t)\<lparr>error := - RT_ETIMEOUT, stat := RT_THREAD_READY\<rparr>)"
    and fr: "rt_timer_list k1 = rt_timer_list k" "timers k1 = timers k" "objs k1 = objs k" "same_ctx k k1"
      "\<forall>q. q_list k1 q = (if q = Ready (prio k t) then q_list k q @ [t] else remove1 t (q_list k q))" by blast
  have "some_ready k1" using th1 by (auto simp: some_ready_def)
  from kinv_schedule [OF inv1 this] c fr(4) obtain k' where
    "rt_schedule k1 = Some k'" "same_data k1 k'" "kinv lo k'" "rt_current_thread k' \<noteq> None"
    by (auto simp: same_ctx_def)
  then show ?thesis
    using s k1 th1 fr by (simp add: rt_thread_timeout_def same_data_def same_ctx_def)
qed


text \<open>A thread that \<^verbatim>\<open>rt_thread_init\<close> has set up and nothing has started yet.\<close>

definition thread_inited :: "kernel \<Rightarrow> tid \<Rightarrow> bool" where
  "thread_inited k t \<longleftrightarrow> stat (threads k t) = RT_THREAD_INIT \<and> unat (init_priority (threads k t)) < 32 \<and>
     stack_ok (threads k t) \<and> thread_timer_ok k t"

lemma thread_ok_unlinked:
  assumes "thread_ok k t" and "stat (threads k t) = RT_THREAD_INIT"
  shows "q_loc k t = None" "ThreadTimer t \<notin> set (rt_timer_list k)"
  using assms by (cases "q_loc k t"; auto simp: thread_ok_def; case_tac a; auto)+

lemma set_priority_static:
  "unat p < 32 \<Longrightarrow> stack_ok th \<Longrightarrow>
   thread_static_ok (th\<lparr>current_priority := p, number_mask := push_bit (unat p) 1\<rparr>)"
  by (simp add: thread_static_ok_def stack_ok_def push_bit_eq_mult)

lemma thread_static_ok_stat [simp]: "thread_static_ok (th\<lparr>stat := s\<rparr>) = thread_static_ok th"
  "thread_static_ok (th\<lparr>error := e\<rparr>) = thread_static_ok th"
  "thread_static_ok (th\<lparr>remaining_tick := r\<rparr>) = thread_static_ok th"
  by (simp_all add: thread_static_ok_def stack_ok_def)

lemma thread_timer_ok_cong:
  "timers k' (ThreadTimer t) = timers k (ThreadTimer t) \<Longrightarrow> thread_timer_ok k' t = thread_timer_ok k t"
  by (simp add: thread_timer_ok_def)

lemma fam_loc_cong:
  assumes "fam_wf F'" and "fam_wf F" and "\<And>q. u \<in> set (fam_list F' q) \<longleftrightarrow> u \<in> set (fam_list F q)"
  shows "fam_loc F' u = fam_loc F u"
proof -
  have "fam_loc F' u = Some q \<longleftrightarrow> fam_loc F u = Some q" for q
    using fam_wf_mem [OF assms(1), of u q] fam_wf_mem [OF assms(2), of u q] assms(3) by simp
  then show ?thesis by (cases "fam_loc F u") (metis not_Some_eq)+
qed

lemma rt_thread_startup_spec:
  assumes inv: "kinv lo k" and i: "thread_inited k t"
  shows "\<exists>k'. rt_thread_startup t k = Some (RT_EOK, k') \<and> kinv lo k' \<and>
     stat (threads k' t) = RT_THREAD_READY \<and> current_priority (threads k' t) = init_priority (threads k t) \<and>
     t \<in> set (ready k' (unat (init_priority (threads k t)))) \<and>
     (\<forall>u. u \<noteq> t \<longrightarrow> threads k' u = threads k u \<and> q_loc k' u = q_loc k u) \<and>
     set (rt_timer_list k') = set (rt_timer_list k) \<and> objs k' = objs k \<and> rt_tick k' = rt_tick k \<and>
     rt_scheduler_lock_nest k' = rt_scheduler_lock_nest k \<and> rt_interrupt_nest k' = rt_interrupt_nest k \<and>
     (rt_current_thread k = None \<longrightarrow> rt_current_thread k' = None)"
proof -
  let ?th = "(threads k t)\<lparr>current_priority := init_priority (threads k t),
               number_mask := push_bit (unat (init_priority (threads k t))) 1, stat := RT_THREAD_SUSPEND\<rparr>"
  let ?k1 = "upd_thread t (\<lambda>_. ?th) k"
  have l: "q_loc k t = None" and off: "ThreadTimer t \<notin> set (rt_timer_list k)"
    using thread_ok_unlinked [OF kinv_thread [OF inv]] i by (auto simp: thread_inited_def)
  have tm: "thread_timer_ok ?k1 t" using i by (simp add: thread_inited_def thread_timer_ok_def)
  have st: "thread_static_ok ?th" using i set_priority_static [of "init_priority (threads k t)" "threads k t"]
    by (simp add: thread_inited_def)
  have "kinv_but lo t ?k1" using kinv_butD [OF inv] l by (intro kinv_but_upd_thread) auto
  moreover have "thread_ok ?k1 t" using l off st tm by (simp add: thread_ok_def)
  ultimately have "kinv lo ?k1" using kinv_split by blast
  from rt_thread_resume_spec [OF this, of t] obtain k2 where
    k2: "rt_thread_resume t ?k1 = Some (RT_EOK, k2)" and inv2: "kinv lo k2"
    and th2: "threads k2 = (threads k)(t := ?th\<lparr>stat := RT_THREAD_READY\<rparr>)"
    and tl2: "set (rt_timer_list k2) = set (rt_timer_list k)" and fr: "objs k2 = objs k" "same_ctx ?k1 k2"
    and ql: "\<forall>q. q_list k2 q = (if q = Ready (unat (init_priority (threads k t))) then q_list k q @ [t]
                                 else remove1 t (q_list k q))" using off by auto
  have loc: "q_loc k2 u = q_loc k u" if "u \<noteq> t" for u
    using that ql by (intro fam_loc_cong [OF kinv_wf(1) [OF inv2] kinv_wf(1) [OF inv]]) auto
  have r: "stat (threads k2 t) = RT_THREAD_READY" "prio k2 t = unat (init_priority (threads k t))"
    using th2 by simp_all
  have mem: "t \<in> set (ready k2 (unat (init_priority (threads k t))))"
    using ready_inv_mem [OF kinvD(1) [OF inv2]] r by simp
  have "\<exists>k'. (if rt_thread_self k2 \<noteq> None then rt_schedule k2 else Some k2) = Some k' \<and> same_data k2 k'"
    using kinv_schedule [OF inv2] r by (auto simp: rt_thread_self_def some_ready_def same_data_def)
  then obtain k' where k': "(if rt_thread_self k2 \<noteq> None then rt_schedule k2 else Some k2) = Some k'"
    and sd: "same_data k2 k'" by blast
  have "kinv lo k'" using sd inv2 same_data_kinv by blast
  moreover have "rt_thread_startup t k = Some (RT_EOK, k')"
    using k2 k' i by (simp add: rt_thread_startup_def Let_def upd_thread_def thread_inited_def)
  moreover have "rt_current_thread k = None \<longrightarrow> rt_current_thread k' = None"
    using k' fr(2) by (auto simp: rt_thread_self_def same_ctx_def)
  ultimately show ?thesis using sd th2 mem tl2 fr loc by (simp add: same_data_def same_ctx_def)
qed

lemma rt_thread_sleep_spec:
  assumes inv: "kinv lo k" and c: "rt_current_thread k = Some t" and r: "stat (threads k t) = RT_THREAD_READY"
    and other: "stat (threads k u) = RT_THREAD_READY" "u \<noteq> t" and w: "tick < RT_TICK_HALF" and lo: "lo \<le> 0"
  shows "\<exists>k'. rt_thread_sleep tick k = Some k' \<and> kinv lo k' \<and>
     threads k' = (threads k)(t := (threads k t)\<lparr>stat := RT_THREAD_SUSPEND\<rparr>) \<and>
     set (rt_timer_list k') = insert (ThreadTimer t) (set (rt_timer_list k)) \<and>
     timeout_tick (timers k' (ThreadTimer t)) = rt_tick k + tick \<and>
     rt_tick k' = rt_tick k \<and> rt_current_thread k' \<noteq> None \<and> (rt_scheduler_lock_nest k = 0 \<longrightarrow> rt_current_thread k' \<noteq> Some t)"
proof -
  let ?i = "ThreadTimer t"
  from rt_thread_suspend_spec [OF inv r] obtain k1 where k1: "rt_thread_suspend t k = Some (RT_EOK, k1)"
    and inv1: "kinv lo k1" and th1: "threads k1 = (threads k)(t := (threads k t)\<lparr>stat := RT_THREAD_SUSPEND\<rparr>)"
    and l1: "q_loc k1 t = None" and sc1: "same_ctx k k1" and tl1: "set (rt_timer_list k1) = set (rt_timer_list k)" by blast
  let ?k2 = "upd_timer ?i (\<lambda>tm. tm\<lparr>tm_init_tick := tick\<rparr>) k1"
  have tm: "thread_timer_ok k1 t" and st: "thread_static_ok (threads k1 t)"
    using kinv_live [OF inv1, of t] th1 by auto
  have "thread_ok ?k2 v = thread_ok k1 v" for v
    by (cases "v = t") (auto simp: thread_ok_def live_def activated_def thread_timer_ok_def)
  moreover have "queue_ok lo ?k2 = queue_ok lo k1" by (intro queue_ok_cong) auto
  ultimately have inv2: "kinv lo ?k2" using inv1 by (simp add: kinv_def ready_inv_def table_ok32_def)
  from kinv_but_timer_start [OF kinv_butD [OF inv2] _ lo, of t] w obtain k3 where
    k3: "rt_timer_start ?i ?k2 = Some k3" and inv3: "kinv_but lo t k3" and fr3: "queues k3 = queues k1"
    "threads k3 = threads k1" "same_ctx ?k2 k3" and mem: "set (rt_timer_list k3) = insert ?i (set (rt_timer_list k1))"
    and tt: "timeout_tick (timers k3 ?i) = rt_tick k1 + tick" and act: "activated k3 ?i"
    and tm3: "thread_timer_ok k3 t"
    using tm by (auto simp: thread_timer_ok_def)
  have "thread_ok k3 t" using fr3 l1 st th1 act tm3 by (auto simp: thread_ok_def)
  then have inv3: "kinv lo k3" using inv3 kinv_split by blast
  have "some_ready k3" "rt_current_thread k3 = Some t"
    using fr3 th1 other sc1 c by (auto simp: some_ready_def same_ctx_def)
  from kinv_schedule [OF inv3 this] obtain k' where k': "rt_schedule k3 = Some k'" "rt_current_thread k' \<noteq> None"
    and sd: "same_data k3 k'" and inv': "kinv lo k'" by blast
  have "rt_current_thread k' \<noteq> Some t" if lock: "rt_scheduler_lock_nest k = 0"
  proof
    assume ct: "rt_current_thread k' = Some t"
    have "rt_scheduler_lock_nest k3 = 0" using lock sc1 fr3 by (simp add: same_ctx_def)
    with kinv_current_ready [OF inv3 k'(1)] ct have "stat (threads k3 t) = RT_THREAD_READY" by auto
    with fr3 th1 show False by simp
  qed
  then show ?thesis
    using c k1 k3 k' sd inv' th1 fr3 mem tl1 tt sc1
    by (simp add: rt_thread_sleep_def rt_timer_control_def same_data_def same_ctx_def)
qed


text \<open>Moving a ready thread to the back of its list.\<close>

lemma rotate_ready_spec:
  assumes inv: "kinv lo k" and r: "stat (threads k t) = RT_THREAD_READY"
  shows "\<exists>Q. fam_insert_before (Ready (prio k t)) t (fam_remove t (queues k)) = Some Q \<and>
     kinv lo (k\<lparr>queues := Q\<rparr>) \<and>
     fam_list Q = (\<lambda>q. if q = Ready (prio k t) then remove1 t (q_list k q) @ [t] else q_list k q)"
proof -
  let ?q = "Ready (prio k t)"
  have wf: "fam_wf (queues k)" by (rule kinv_wf(1) [OF inv])
  have loc: "q_loc k t = Some ?q" using ready_inv_loc [OF kinvD(1) [OF inv]] r by simp
  obtain Q where Q: "fam_insert_before ?q t (fam_remove t (queues k)) = Some Q"
    by (simp add: fam_insert_before_def)
  have wfQ: "fam_wf Q" by (rule fam_insert_before_wf [OF fam_remove_wf [OF wf] Q])
  have locQ: "fam_loc Q u = q_loc k u" for u
    using Q loc by (cases "u = t") (auto simp: fam_insert_before_def)
  have "remove1 t (q_list k q) = q_list k q" if "q \<noteq> ?q" for q
    using that loc fam_wf_mem [OF wf] by (intro remove1_idem) auto
  then have lst: "fam_list Q = (\<lambda>q. if q = ?q then remove1 t (q_list k q) @ [t] else q_list k q)"
    using Q by (auto simp: fam_insert_before_def fam_list_remove [OF wf] fun_eq_iff)
  have "t \<in> set (ready k (prio k t))" using loc fam_wf_mem [OF wf] by simp
  then have "fam_list Q (Ready p) \<noteq> [] \<longleftrightarrow> ready k p \<noteq> []" for p unfolding lst by auto
  then have "table_ok32 (k\<lparr>queues := Q\<rparr>)"
    using kinvD(1) [OF inv] wfQ by (simp add: ready_inv_def table_ok32_def)
  moreover have "thread_ok (k\<lparr>queues := Q\<rparr>) u = thread_ok k u" for u
    by (intro thread_ok_cong) (simp_all add: locQ)
  moreover have "queue_ok lo (k\<lparr>queues := Q\<rparr>) = queue_ok lo k" by (intro queue_ok_cong) auto
  ultimately have "kinv lo (k\<lparr>queues := Q\<rparr>)" using inv by (simp add: kinv_def ready_inv_def)
  then show ?thesis using Q lst by blast
qed

lemma rt_thread_yield_spec:
  assumes inv: "kinv lo k" and c: "rt_current_thread k = Some t" and sr: "some_ready k"
  shows "\<exists>k'. rt_thread_yield k = Some (RT_EOK, k') \<and> kinv lo k' \<and> threads k' = threads k \<and>
     timers k' = timers k \<and> rt_timer_list k' = rt_timer_list k \<and> objs k' = objs k \<and> rt_tick k' = rt_tick k \<and>
     rt_scheduler_lock_nest k' = rt_scheduler_lock_nest k \<and> rt_interrupt_nest k' = rt_interrupt_nest k \<and>
     rt_current_thread k' \<noteq> None \<and>
     (stat (threads k t) = RT_THREAD_READY \<and> fam_has_neighbours t (queues k) \<longrightarrow>
        ready k' (prio k t) = remove1 t (ready k (prio k t)) @ [t] \<and>
        (rt_scheduler_lock_nest k = 0 \<longrightarrow> (\<exists>p u. highest_ready k' = Some (p, u) \<and> rt_current_thread k' = Some u)))"
proof (cases "stat (threads k t) = RT_THREAD_READY \<and> fam_has_neighbours t (queues k)")
  case False
  with inv c show ?thesis by (auto simp: rt_thread_yield_def)
next
  case True
  from rotate_ready_spec [OF inv, of t] True obtain Q where
    Q: "fam_insert_before (Ready (prio k t)) t (fam_remove t (queues k)) = Some Q"
    and inv1: "kinv lo (k\<lparr>queues := Q\<rparr>)" and l: "fam_list Q (Ready (prio k t)) = remove1 t (ready k (prio k t)) @ [t]"
    by auto
  have p: "prio k t < 32" using kinv_live(1) [OF inv] True by (simp add: thread_static_ok_def)
  from kinv_schedule [OF inv1] sr c obtain k' where k': "rt_schedule (k\<lparr>queues := Q\<rparr>) = Some k'"
    and sd: "same_data (k\<lparr>queues := Q\<rparr>) k'" and r: "kinv lo k'" "rt_current_thread k' \<noteq> None"
    by (auto simp: some_ready_def)
  have "highest_ready k' = highest_ready (k\<lparr>queues := Q\<rparr>)" 
    using sd by (simp add: highest_ready_def same_data_def cong: nat.case_cong)
  then show ?thesis
    using c True Q p k' sd r l rt_schedule_current [OF k'] by (simp add: rt_thread_yield_def same_data_def)
qed

text \<open>Ending a thread: out of the schedule, its timer detached, its state CLOSE.\<close>

lemma close_thread_spec:
  assumes inv: "kinv lo k" and lv: "live k t"
  shows "\<exists>k1. rt_schedule_remove_thread t k = Some k1 \<and> threads k1 = threads k \<and>
     (let k2 = upd_thread t (\<lambda>th. th\<lparr>stat := RT_THREAD_CLOSE\<rparr>) (rt_timer_detach (ThreadTimer t) k1) in
      kinv_but lo t k2 \<and> q_loc k2 t = None \<and> ThreadTimer t \<notin> set (rt_timer_list k2) \<and>
      threads k2 = (threads k)(t := (threads k t)\<lparr>stat := RT_THREAD_CLOSE\<rparr>) \<and> same_ctx k k2 \<and>
      objs k2 = rt_object_detach (OTimer (ThreadTimer t)) (objs k) \<and>
      (\<forall>q. q_list k2 q = remove1 t (q_list k q)))"
proof -
  have st: "thread_static_ok (threads k t)" using kinv_live(1) [OF inv] lv by (simp add: live_def)
  from kinv_but_remove_thread [OF kinv_butD [OF inv] st] obtain k1 where
    k1: "rt_schedule_remove_thread t k = Some k1" and inv1: "kinv_but lo t k1" and l1: "q_loc k1 t = None"
    and fr: "threads k1 = threads k" "objs k1 = objs k" "same_ctx k k1" "\<forall>q. q_list k1 q = remove1 t (q_list k q)"
    by blast
  let ?k1 = "rt_timer_detach (ThreadTimer t) k1"
  have "kinv_but lo t (upd_thread t (\<lambda>th. th\<lparr>stat := RT_THREAD_CLOSE\<rparr>) ?k1)"
    using kinv_but_timer_detach(1) [OF inv1] by (intro kinv_but_upd_thread) auto
  moreover have "objs ?k1 = rt_object_detach (OTimer (ThreadTimer t)) (objs k)"
    using fr by (simp add: rt_timer_detach_def Let_def)
  moreover have "same_ctx k ?k1" using fr by (auto intro: same_ctx_trans)
  ultimately show ?thesis
    using k1 l1 fr kinv_but_timer_detach(2) [OF inv1] by (simp add: Let_def same_ctx_def)
qed

lemma closed_kinv:
  assumes "kinv_but lo t k" and "stat (threads k t) = RT_THREAD_CLOSE" and "q_loc k t = None \<or> q_loc k t = Some Defunct"
    and "ThreadTimer t \<notin> set (rt_timer_list k)"
  shows "kinv lo k"
proof -
  have "thread_ok k t" using assms(2-4) by (auto simp: thread_ok_def live_def)
  with assms(1) show ?thesis using kinv_split by blast
qed

lemma rt_thread_delete_spec:
  assumes inv: "kinv lo k" and lv: "live k t"
  shows "\<exists>k'. rt_thread_delete t k = Some (RT_EOK, k') \<and> kinv lo k' \<and>
     threads k' = (threads k)(t := (threads k t)\<lparr>stat := RT_THREAD_CLOSE\<rparr>) \<and> same_ctx k k' \<and>
     q_list k' Defunct = t # remove1 t (q_list k Defunct)"
proof -
  from close_thread_spec [OF inv lv] obtain k1 k2 where
    k1: "rt_schedule_remove_thread t k = Some k1" "threads k1 = threads k"
    and k2: "k2 = upd_thread t (\<lambda>th. th\<lparr>stat := RT_THREAD_CLOSE\<rparr>) (rt_timer_detach (ThreadTimer t) k1)"
    and inv2: "kinv_but lo t k2" and l: "q_loc k2 t = None" and off: "ThreadTimer t \<notin> set (rt_timer_list k2)"
    and th: "threads k2 = (threads k)(t := (threads k t)\<lparr>stat := RT_THREAD_CLOSE\<rparr>)" and sc: "same_ctx k k2"
    and ql: "\<forall>q. q_list k2 q = remove1 t (q_list k q)"
    by (auto simp: Let_def)
  have qk: "queues k1 = queues k2" by (simp add: k2)
  from kinv_but_insert_after [OF inv2 _ l, of Defunct] obtain Q where
    Q: "fam_insert_after Defunct t (queues k2) = Some Q" "kinv_but lo t (k2\<lparr>queues := Q\<rparr>)"
    "fam_loc Q t = Some Defunct" "fam_list Q = (q_list k2)(Defunct := t # q_list k2 Defunct)" by auto
  have "kinv lo (k2\<lparr>queues := Q\<rparr>)" using Q th off by (intro closed_kinv) auto
  with k1 Q th sc ql show ?thesis
    by (simp add: rt_thread_delete_def Let_def k2 [symmetric] qk same_ctx_def)
qed

lemma rt_thread_detach_spec:
  assumes inv: "kinv lo k" and lv: "live k t"
  shows "\<exists>k'. rt_thread_detach t k = Some (RT_EOK, k') \<and> kinv lo k' \<and>
     threads k' = (threads k)(t := (threads k t)\<lparr>stat := RT_THREAD_CLOSE\<rparr>) \<and> same_ctx k k' \<and>
     fam_loc (rt_object_container (objs k')) (OThread t) = None \<and>
     (t \<in> set (q_list k' Defunct) \<longleftrightarrow> cleanup (threads k t) \<noteq> None)"
proof -
  from close_thread_spec [OF inv lv] obtain k1 k2 where
    k1: "rt_schedule_remove_thread t k = Some k1" "threads k1 = threads k"
    and k2: "k2 = upd_thread t (\<lambda>th. th\<lparr>stat := RT_THREAD_CLOSE\<rparr>) (rt_timer_detach (ThreadTimer t) k1)"
    and inv2: "kinv_but lo t k2" and l: "q_loc k2 t = None" and off: "ThreadTimer t \<notin> set (rt_timer_list k2)"
    and th: "threads k2 = (threads k)(t := (threads k t)\<lparr>stat := RT_THREAD_CLOSE\<rparr>)" and sc: "same_ctx k k2"
    by (auto simp: Let_def)
  have qk: "queues k1 = queues k2" by (simp add: k2)
  let ?k3 = "k2\<lparr>objs := rt_object_detach (OThread t) (objs k2)\<rparr>"
  have inv3: "kinv_but lo t ?k3"
    using inv2 rt_object_detach_inv [of "objs k2"] by (intro kinv_but_objs) (auto simp: kinv_but_def)
  have wf: "fam_wf (queues k2)" by (rule kinv_wf(2) [OF inv2])
  have gone: "fam_loc (rt_object_container (objs ?k3)) (OThread t) = None" by (simp add: rt_object_detach_def)
  show ?thesis
  proof (cases "cleanup (threads k t)")
    case None
    have "kinv lo ?k3" using inv3 th l off by (intro closed_kinv) auto
    with k1 th sc gone None l show ?thesis
      by (simp add: rt_thread_detach_def Let_def k2 [symmetric] qk same_ctx_def fam_wf_mem [OF wf])
  next
    case (Some f)
    from kinv_but_insert_after [OF inv3, of Defunct] l obtain Q where
      Q: "fam_insert_after Defunct t (queues k2) = Some Q" "kinv_but lo t (?k3\<lparr>queues := Q\<rparr>)"
      "fam_loc Q t = Some Defunct" "fam_list Q = (q_list k2)(Defunct := t # q_list k2 Defunct)" by auto
    have "kinv lo (?k3\<lparr>queues := Q\<rparr>)" using Q th off by (intro closed_kinv) auto
    with k1 Q th sc gone Some show ?thesis
      by (simp add: rt_thread_detach_def Let_def k2 [symmetric] qk same_ctx_def)
  qed
qed


lemma rt_thread_exit_spec:
  assumes inv: "kinv lo k" and c: "rt_current_thread k = Some t" and lv: "live k t"
    and other: "stat (threads k u) = RT_THREAD_READY" "u \<noteq> t"
  shows "\<exists>k'. rt_thread_exit k = Some k' \<and> kinv lo k' \<and>
     threads k' = (threads k)(t := (threads k t)\<lparr>stat := RT_THREAD_CLOSE\<rparr>) \<and>
     (rt_scheduler_lock_nest k = 0 \<longrightarrow> rt_current_thread k' \<noteq> Some t) \<and>
     (t \<in> set (q_list k' Defunct) \<longleftrightarrow>
        \<not> (rt_object_is_systemobject (OThread t) (objs k) \<and> cleanup (threads k t) = None))"
proof -
  from close_thread_spec [OF inv lv] obtain k1 k2 where
    k1: "rt_schedule_remove_thread t k = Some k1" "threads k1 = threads k"
    and k2: "k2 = upd_thread t (\<lambda>th. th\<lparr>stat := RT_THREAD_CLOSE\<rparr>) (rt_timer_detach (ThreadTimer t) k1)"
    and inv2: "kinv_but lo t k2" and l: "q_loc k2 t = None" and off: "ThreadTimer t \<notin> set (rt_timer_list k2)"
    and th: "threads k2 = (threads k)(t := (threads k t)\<lparr>stat := RT_THREAD_CLOSE\<rparr>)" and sc: "same_ctx k k2"
    and ob: "objs k2 = rt_object_detach (OTimer (ThreadTimer t)) (objs k)"
    by (auto simp: Let_def)
  have k2': "rt_timer_detach (ThreadTimer t) (upd_thread t (\<lambda>th. th\<lparr>stat := RT_THREAD_CLOSE\<rparr>) k1) = k2"
    by (simp add: k2 rt_timer_detach_def rt_timer_remove_def upd_thread_def Let_def)
  have wf: "fam_wf (queues k2)" by (rule kinv_wf(2) [OF inv2])
  let ?sys = "rt_object_is_systemobject (OThread t) (objs k2) \<and> cleanup (threads k2 t) = None"
  have sys: "rt_object_is_systemobject (OThread t) (objs k2) = rt_object_is_systemobject (OThread t) (objs k)"
    by (simp add: ob rt_object_is_systemobject_def rt_object_detach_def)
  define st where "st = (if ?sys then Some (k2\<lparr>objs := rt_object_detach (OThread t) (objs k2)\<rparr>)
     else do { Q \<leftarrow> fam_insert_after Defunct t (queues k2); Some (k2\<lparr>queues := Q\<rparr>) })"
  have "\<exists>k3. st = Some k3 \<and> kinv lo k3 \<and> threads k3 = threads k2 \<and> same_ctx k2 k3 \<and>
     (t \<in> set (q_list k3 Defunct) \<longleftrightarrow> \<not> ?sys)"
  proof (cases ?sys)
    case True
    let ?k3 = "k2\<lparr>objs := rt_object_detach (OThread t) (objs k2)\<rparr>"
    have "kinv_but lo t ?k3"
      using inv2 rt_object_detach_inv [of "objs k2"] by (intro kinv_but_objs) (auto simp: kinv_but_def)
    then have "kinv lo ?k3" using th l off by (intro closed_kinv) auto
    with True l show ?thesis by (simp add: st_def same_ctx_def fam_wf_mem [OF wf])
  next
    case False
    from kinv_but_insert_after [OF inv2 _ l, of Defunct] obtain Q where
      Q: "fam_insert_after Defunct t (queues k2) = Some Q" "kinv_but lo t (k2\<lparr>queues := Q\<rparr>)"
      "fam_loc Q t = Some Defunct" "fam_list Q = (q_list k2)(Defunct := t # q_list k2 Defunct)" by auto
    have "kinv lo (k2\<lparr>queues := Q\<rparr>)" using Q th off by (intro closed_kinv) auto
    with False Q show ?thesis by (auto simp: st_def same_ctx_def)
  qed
  then obtain k3 where k3: "st = Some k3" and inv3: "kinv lo k3" and th3: "threads k3 = threads k2"
    and sc3: "same_ctx k2 k3" and df: "t \<in> set (q_list k3 Defunct) \<longleftrightarrow> \<not> ?sys" by blast
  have "some_ready k3" "rt_current_thread k3 = Some t"
    using th3 th other sc sc3 c by (auto simp: some_ready_def same_ctx_def)
  from kinv_schedule [OF inv3 this] obtain k' where k': "rt_schedule k3 = Some k'" and sd: "same_data k3 k'"
    and inv': "kinv lo k'" by blast
  have "rt_current_thread k' \<noteq> Some t" if "rt_scheduler_lock_nest k = 0"
    using kinv_current_ready [OF inv3 k'] that sc sc3 th3 th by (auto simp: same_ctx_def)
  moreover have "rt_thread_exit k = Option.bind st rt_schedule"
    using c k1 by (simp add: rt_thread_exit_def Let_def k2' st_def th)
  ultimately show ?thesis using k3 k' inv' sd th3 th df sys by (simp add: same_data_def)
qed

lemma change_priority_spec:
  assumes inv: "kinv lo k" and lv: "live k t" and p: "unat p < 32"
  shows "\<exists>k'. rt_thread_control t (RT_THREAD_CTRL_CHANGE_PRIORITY p) k = Some (RT_EOK, k') \<and> kinv lo k' \<and>
     threads k' = (threads k)(t := (threads k t)\<lparr>current_priority := p, number_mask := push_bit (unat p) 1\<rparr>) \<and>
     timers k' = timers k \<and> rt_timer_list k' = rt_timer_list k \<and> objs k' = objs k \<and> same_ctx k k' \<and>
     (stat (threads k t) = RT_THREAD_READY \<longrightarrow> ready k' (unat p) = remove1 t (ready k (unat p)) @ [t]) \<and>
     (\<forall>i. q_list k' (Wait i) = q_list k (Wait i) \<and> q_list k' (SenderWait i) = q_list k (SenderWait i))"
proof -
  let ?f = "\<lambda>th. th\<lparr>current_priority := p, number_mask := push_bit (unat p) 1\<rparr>"
  have st: "thread_static_ok (threads k t)" and tm: "thread_timer_ok k t"
    using kinv_live [OF inv] lv by (simp_all add: live_def)
  then have st1: "thread_static_ok (?f (threads k t))"
    using p by (intro set_priority_static) (simp_all add: thread_static_ok_def)
  have wf: "fam_wf (queues k)" by (rule kinv_wf(1) [OF inv])
  show ?thesis
  proof (cases "stat (threads k t) = RT_THREAD_READY")
    case True
    have "q_loc k t = Some (Ready (prio k t))" using ready_inv_loc [OF kinvD(1) [OF inv]] True by simp
    then have wait: "remove1 t (q_list k q) = q_list k q" if "\<And>p. q \<noteq> Ready p" for q
      using that fam_wf_mem [OF wf] by (intro remove1_idem) auto
    have off: "ThreadTimer t \<notin> set (rt_timer_list k)"
      using kinv_thread [OF inv, of t] True by (auto simp: thread_ok_def)
    from kinv_but_remove_thread [OF kinv_butD [OF inv] st] obtain k1 where
      k1: "rt_schedule_remove_thread t k = Some k1" and inv1: "kinv_but lo t k1" and l1: "q_loc k1 t = None"
      and fr: "threads k1 = threads k" "timers k1 = timers k" "rt_timer_list k1 = rt_timer_list k"
        "objs k1 = objs k" "same_ctx k k1" "\<forall>q. q_list k1 q = remove1 t (q_list k q)" by blast
    let ?k2 = "upd_thread t ?f k1"
    have "kinv_but lo t ?k2" using inv1 l1 by (intro kinv_but_upd_thread) auto
    from kinv_insert_thread [OF this] st1 tm off l1 fr obtain k' where
      "rt_schedule_insert_thread t ?k2 = Some k'" "kinv lo k'"
      "threads k' = (threads k)(t := (?f (threads k t))\<lparr>stat := RT_THREAD_READY\<rparr>)"
      "timers k' = timers k" "rt_timer_list k' = rt_timer_list k" "objs k' = objs k" "same_ctx ?k2 k'"
      "q_list k' = (q_list k1)(Ready (unat p) := ready k1 (unat p) @ [t])"
      by (auto simp: thread_timer_ok_def)
    moreover have "(threads k t)\<lparr>current_priority := p, number_mask := m, stat := RT_THREAD_READY\<rparr> =
        (threads k t)\<lparr>current_priority := p, number_mask := m\<rparr>" for m using True by (cases "threads k t") simp
    ultimately show ?thesis
      using True k1 p fr wait by (simp add: rt_thread_control_def Let_def same_ctx_def upd_thread_def)
  next
    case False
    then have s: "stat (threads k t) = RT_THREAD_SUSPEND" using lv by (simp add: live_def)
    let ?k = "upd_thread t ?f k"
    have nr: "q_loc k t \<noteq> Some (Ready p)" for p using suspended_not_ready [OF inv] s by simp
    have "thread_ok ?k u = thread_ok k u" if "u \<noteq> t" for u using that by (intro thread_ok_cong) auto
    moreover have "thread_ok ?k t"
      using kinv_thread [OF inv, of t] s nr st1 tm
      by (auto simp: thread_ok_def activated_def thread_timer_ok_def)
    moreover have "queue_ok lo ?k = queue_ok lo k" by (intro queue_ok_cong) auto
    ultimately have "kinv lo ?k"
      using inv kinv_thread [OF inv] by (auto simp: kinv_def ready_inv_def table_ok32_def) (metis)
    with False p show ?thesis by (simp add: rt_thread_control_def Let_def upd_thread_def same_ctx_def)
  qed
qed


text \<open>Initialising a thread object that is on no list and whose timer is not attached.\<close>

lemma rt_thread_init0_spec:
  assumes inv: "kinv lo k" and l: "q_loc k t = None" and off: "ThreadTimer t \<notin> set (rt_timer_list k)"
    and fresh: "fam_loc (rt_object_container (objs k)) (OTimer (ThreadTimer t)) = None"
    and p: "unat priority < 32"
    and hw: "stack_start < hw ent par (stack_start + ucast (ucast ssize :: u16) - 4) \<and>
             hw ent par (stack_start + ucast (ucast ssize :: u16) - 4) \<le> stack_start + ucast (ucast ssize :: u16)"
  shows "\<exists>k'. rt_thread_init0 hw t ent par stack_start ssize priority tick k = Some k' \<and> kinv lo k' \<and>
     thread_inited k' t \<and> init_priority (threads k' t) = priority \<and> number_mask (threads k' t) = number_mask (threads k t) \<and>
     (\<forall>u. u \<noteq> t \<longrightarrow> threads k' u = threads k u) \<and> queues k' = queues k \<and> rt_timer_list k' = rt_timer_list k \<and>
     same_ctx k k' \<and> (\<forall>ob. ob \<noteq> OTimer (ThreadTimer t) \<longrightarrow>
        fam_loc (rt_object_container (objs k')) ob = fam_loc (rt_object_container (objs k)) ob)"
proof -
  let ?nm = "obj_name (obj_hdr (objs k) (OThread t))"
  let ?ob = "OTimer (ThreadTimer t)"
  obtain os where os: "rt_object_init ?ob RT_Object_Class_Timer ?nm (objs k) = Some os"
    and oth: "\<forall>ob. ob \<noteq> ?ob \<longrightarrow> fam_loc (rt_object_container os) ob = fam_loc (rt_object_container (objs k)) ob"
    using fresh by (auto simp: rt_object_init_def fam_insert_after_def)
  have oi: "obj_inv os" using rt_object_init_inv [OF kinvD(3) [OF inv] os] .
  define th where "th = (threads k t)\<lparr>entry := ent, parameter := par,
     stack_addr := stack_start, stack_size := ucast ssize,
     sp := hw ent par (stack_start + ucast (ucast ssize :: u16) - 4),
     init_priority := priority, current_priority := priority, th_init_tick := tick, remaining_tick := tick,
     error := RT_EOK, stat := RT_THREAD_INIT, cleanup := None, user_data := 0\<rparr>"
  define tm where "tm = \<lparr>tm_flag = RT_TIMER_FLAG_ONE_SHOT AND NOT RT_TIMER_FLAG_ACTIVATED, timeout_func = TF_thread t,
     tm_init_tick = 0, timeout_tick = 0\<rparr>"
  define k' where "k' = upd_timer (ThreadTimer t) (\<lambda>_. tm) (upd_thread t (\<lambda>_. th) (k\<lparr>objs := os\<rparr>))"
  have run: "rt_thread_init0 hw t ent par stack_start ssize priority tick k = Some k'"
    using l p os off
    by (simp add: rt_thread_init0_def Let_def rt_timer_init_def rt_timer_init0_def k'_def th_def tm_def upd_thread_def)
  have ob: "obj_inv (objs k')" using oi by (simp add: k'_def)
  have inited: "thread_inited k' t"
    using p hw by (simp add: k'_def thread_inited_def th_def tm_def stack_ok_def thread_timer_ok_def)
  have "thread_ok k' u" if "u \<noteq> t" for u
    using that kinv_thread [OF inv, of u] thread_ok_cong [of k' u k] by (simp add: k'_def)
  moreover have "thread_ok k' t" using l off by (simp add: k'_def th_def thread_ok_def live_def)
  moreover have "queue_ok lo k' = queue_ok lo k" using off by (intro queue_ok_cong) (auto simp: k'_def)
  moreover have "table_ok32 k'" using kinvD(1) [OF inv] by (simp add: k'_def ready_inv_def table_ok32_def)
  ultimately have "kinv lo k'"
    using inv ob unfolding kinv_def ready_inv_def by metis
  with run inited oth show ?thesis
    by (simp add: k'_def th_def same_ctx_def)
qed


lemma kinv_objs: "kinv lo k \<Longrightarrow> obj_inv os \<Longrightarrow> kinv lo (k\<lparr>objs := os\<rparr>)"
  using kinv_but_objs [of lo 0 k os] kinv_split [of lo k 0] kinv_split [of lo "k\<lparr>objs := os\<rparr>" 0]
    thread_ok_cong [of "k\<lparr>objs := os\<rparr>" 0 k] by simp

lemma rt_thread_init_spec:
  assumes inv: "kinv lo k" and l: "q_loc k t = None" and off: "ThreadTimer t \<notin> set (rt_timer_list k)"
    and fresh: "fam_loc (rt_object_container (objs k)) (OThread t) = None"
      "fam_loc (rt_object_container (objs k)) (OTimer (ThreadTimer t)) = None"
    and p: "unat priority < 32" and s: "stack_start \<noteq> 0"
    and hw: "stack_start < hw ent par (stack_start + ucast (ucast ssize :: u16) - 4) \<and>
             hw ent par (stack_start + ucast (ucast ssize :: u16) - 4) \<le> stack_start + ucast (ucast ssize :: u16)"
  shows "\<exists>k'. rt_thread_init hw t name ent par stack_start ssize priority tick k = Some k' \<and> kinv lo k' \<and>
     thread_inited k' t \<and> init_priority (threads k' t) = priority \<and>
     (\<forall>u. u \<noteq> t \<longrightarrow> threads k' u = threads k u) \<and> queues k' = queues k \<and> rt_timer_list k' = rt_timer_list k \<and>
     same_ctx k k' \<and> fam_loc (rt_object_container (objs k')) (OThread t) = Some (class_code RT_Object_Class_Thread) \<and>
     (\<forall>ob. ob \<noteq> OTimer (ThreadTimer t) \<and> ob \<noteq> OThread t \<longrightarrow>
        fam_loc (rt_object_container (objs k')) ob = fam_loc (rt_object_container (objs k)) ob)"
proof -
  obtain os where os: "rt_object_init (OThread t) RT_Object_Class_Thread name (objs k) = Some os"
    and loc: "fam_loc (rt_object_container os) = (fam_loc (rt_object_container (objs k)))(OThread t \<mapsto> class_code RT_Object_Class_Thread)"
    using fresh by (auto simp: rt_object_init_def fam_insert_after_def)
  have inv1: "kinv lo (k\<lparr>objs := os\<rparr>)"
    using kinv_objs [OF inv rt_object_init_inv [OF kinvD(3) [OF inv] os]] .
  have "\<exists>k'. rt_thread_init0 hw t ent par stack_start ssize priority tick (k\<lparr>objs := os\<rparr>) = Some k' \<and> kinv lo k' \<and>
     thread_inited k' t \<and> init_priority (threads k' t) = priority \<and>
     number_mask (threads k' t) = number_mask (threads (k\<lparr>objs := os\<rparr>) t) \<and>
     (\<forall>u. u \<noteq> t \<longrightarrow> threads k' u = threads (k\<lparr>objs := os\<rparr>) u) \<and> queues k' = queues (k\<lparr>objs := os\<rparr>) \<and>
     rt_timer_list k' = rt_timer_list (k\<lparr>objs := os\<rparr>) \<and> same_ctx (k\<lparr>objs := os\<rparr>) k' \<and>
     (\<forall>ob. ob \<noteq> OTimer (ThreadTimer t) \<longrightarrow>
        fam_loc (rt_object_container (objs k')) ob = fam_loc (rt_object_container (objs (k\<lparr>objs := os\<rparr>))) ob)"
    using l off loc fresh p hw by (intro rt_thread_init0_spec [OF inv1]) simp_all
  then show ?thesis using os s loc by (auto simp: rt_thread_init_def same_ctx_def)
qed

text \<open>
  Deleting a thread that was never started uses the mask an earlier use of its memory left:
  \<^verbatim>\<open>_rt_thread_init\<close> does not set it.
\<close>

lemma rt_thread_delete_init_group:
  assumes inv: "kinv lo k" and i: "stat (threads k t) = RT_THREAD_INIT" and p: "prio k t < 32"
    and e: "ready k (prio k t) = []"
  shows "\<exists>k'. rt_thread_delete t k = Some (RT_EOK, k') \<and>
     rt_thread_ready_priority_group k' =
       rt_thread_ready_priority_group k AND NOT (number_mask (threads k t)) \<and> (\<forall>p. ready k' p = ready k p)"
proof -
  have l: "q_loc k t = None" by (rule thread_ok_unlinked(1) [OF kinv_thread [OF inv] i])
  then have "fam_remove t (queues k) = (queues k)" by (simp add: fam_remove_def)
  with l e p show ?thesis
    by (simp add: rt_thread_delete_def rt_schedule_remove_thread_def fam_isempty_def Let_def fam_insert_after_def)
qed


text \<open>\<^verbatim>\<open>rt_thread_create\<close> returns no thread when either allocation fails, and leaves no object behind.\<close>

lemma rt_thread_create_spec:
  assumes inv: "kinv lo k" and l: "q_loc k t = None" and off: "ThreadTimer t \<notin> set (rt_timer_list k)"
    and fresh: "fam_loc (rt_object_container (objs k)) (OThread t) = None"
      "fam_loc (rt_object_container (objs k)) (OTimer (ThreadTimer t)) = None"
    and p: "unat priority < 32" and s: "stack_start \<noteq> 0"
    and hw: "stack_start < hw ent par (stack_start + ucast (ucast ssize :: u16) - 4) \<and>
             hw ent par (stack_start + ucast (ucast ssize :: u16) - 4) \<le> stack_start + ucast (ucast ssize :: u16)"
  shows "\<exists>k'. rt_thread_create hw (Some t) stack_start name ent par ssize priority tick k = Some (Some t, k') \<and>
     kinv lo k' \<and> thread_inited k' t \<and> init_priority (threads k' t) = priority \<and>
     (\<forall>u. u \<noteq> t \<longrightarrow> threads k' u = threads k u) \<and> queues k' = queues k \<and> rt_timer_list k' = rt_timer_list k \<and>
     same_ctx k k' \<and> (\<forall>ob. ob \<noteq> OTimer (ThreadTimer t) \<and> ob \<noteq> OThread t \<longrightarrow>
        fam_loc (rt_object_container (objs k')) ob = fam_loc (rt_object_container (objs k)) ob)"
proof -
  obtain os where os: "rt_object_allocate (Some (OThread t)) RT_Object_Class_Thread name (objs k) = Some (Some (OThread t), os)"
    and loc: "fam_loc (rt_object_container os) = (fam_loc (rt_object_container (objs k)))(OThread t \<mapsto> class_code RT_Object_Class_Thread)"
    using fresh by (auto simp: rt_object_allocate_def fam_insert_after_def)
  have inv1: "kinv lo (k\<lparr>objs := os\<rparr>)"
    using kinv_objs [OF inv rt_object_allocate_inv [OF kinvD(3) [OF inv] os]] .
  have "\<exists>k'. rt_thread_init0 hw t ent par stack_start ssize priority tick (k\<lparr>objs := os\<rparr>) = Some k' \<and> kinv lo k' \<and>
     thread_inited k' t \<and> init_priority (threads k' t) = priority \<and>
     number_mask (threads k' t) = number_mask (threads (k\<lparr>objs := os\<rparr>) t) \<and>
     (\<forall>u. u \<noteq> t \<longrightarrow> threads k' u = threads (k\<lparr>objs := os\<rparr>) u) \<and> queues k' = queues (k\<lparr>objs := os\<rparr>) \<and>
     rt_timer_list k' = rt_timer_list (k\<lparr>objs := os\<rparr>) \<and> same_ctx (k\<lparr>objs := os\<rparr>) k' \<and>
     (\<forall>ob. ob \<noteq> OTimer (ThreadTimer t) \<longrightarrow>
        fam_loc (rt_object_container (objs k')) ob = fam_loc (rt_object_container (objs (k\<lparr>objs := os\<rparr>))) ob)"
    using l off loc fresh p hw by (intro rt_thread_init0_spec [OF inv1]) simp_all
  then show ?thesis using os s loc by (auto simp: rt_thread_create_def same_ctx_def)
qed

lemma rt_thread_create_fail:
  assumes inv: "kinv lo k" and fresh: "fam_loc (rt_object_container (objs k)) (OThread t) = None"
  shows "rt_thread_create hw None stack_start name ent par ssize priority tick k = Some (None, k)"
    and "\<exists>k'. rt_thread_create hw (Some t) 0 name ent par ssize priority tick k = Some (None, k') \<and> kinv lo k' \<and>
      rt_object_container (objs k') = rt_object_container (objs k)"
proof -
  show "rt_thread_create hw None stack_start name ent par ssize priority tick k = Some (None, k)"
    by (simp add: rt_thread_create_def rt_object_allocate_def)
  obtain os where os: "rt_object_allocate (Some (OThread t)) RT_Object_Class_Thread name (objs k) = Some (Some (OThread t), os)"
    and eq: "os = (objs k)\<lparr>rt_object_container := (rt_object_container (objs k))
        \<lparr>fam_list := (fam_list (rt_object_container (objs k)))(0 := OThread t # fam_list (rt_object_container (objs k)) 0),
         fam_loc := (fam_loc (rt_object_container (objs k)))(OThread t \<mapsto> 0)\<rparr>,
        obj_hdr := (obj_hdr (objs k))(OThread t := \<lparr>obj_name = rt_strncpy name 8, obj_type = 0, obj_flag = 0\<rparr>)\<rparr>"
    using fresh by (simp add: rt_object_allocate_def fam_insert_after_def)
  have "\<not> rt_object_is_systemobject (OThread t) os" by (simp add: eq rt_object_is_systemobject_def)
  then obtain os' where os': "rt_object_delete (OThread t) os = Some os'"
    by (auto simp: rt_object_delete_def rt_object_is_systemobject_def)
  have inv': "kinv lo (k\<lparr>objs := os'\<rparr>)"
    using rt_object_delete_inv [OF rt_object_allocate_inv [OF kinvD(3) [OF inv] os] os'] kinv_objs [OF inv] by blast
  have "rt_object_container os' = rt_object_container (objs k)"
    using os' fresh by (auto simp: rt_object_delete_def eq fam_remove_def fun_upd_idem intro!: family.equality)
  with inv' os os' show "\<exists>k'. rt_thread_create hw (Some t) 0 name ent par ssize priority tick k = Some (None, k') \<and> kinv lo k' \<and>
      rt_object_container (objs k') = rt_object_container (objs k)"
    by (simp add: rt_thread_create_def)
qed

end
