(* ===== verification/Clock.thy ===== *)
theory Clock
  imports Thread
begin

text \<open>
  The clock interrupt: \<^verbatim>\<open>rt_timer_check\<close> of \<^verbatim>\<open>src/timer.c\<close>, which runs the functions of the timers
  that are due, and \<^verbatim>\<open>rt_tick_increase\<close> of \<^verbatim>\<open>src/clock.c\<close>.  The functions an application
  registers are a parameter \<open>cb\<close> of the model; the loop is a partial function, since a periodic
  timer with a period of 0 keeps it from ending.
\<close>

unbundle bit_operations_syntax

definition call_timeout :: "(nat \<Rightarrow> kernel \<Rightarrow> kernel option) \<Rightarrow> timeout_fn \<Rightarrow> kernel \<Rightarrow> kernel option" where
  "call_timeout cb f k = (case f of TF_thread t \<Rightarrow> rt_thread_timeout t k | TF_user n \<Rightarrow> cb n k)"

partial_function (option) rt_timer_check_loop ::
  "(nat \<Rightarrow> kernel \<Rightarrow> kernel option) \<Rightarrow> rt_tick_t \<Rightarrow> kernel \<Rightarrow> kernel option" where
  "rt_timer_check_loop cb current_tick k =
     (case rt_timer_list k of
        [] \<Rightarrow> Some k
      | t # _ \<Rightarrow>
          if current_tick - timeout_tick (timers k t) < RT_TICK_HALF then
            do { let k = rt_timer_remove t k;
                 k \<leftarrow> call_timeout cb (timeout_func (timers k t)) k;
                 let current_tick = rt_tick_get k;
                 k \<leftarrow> (if tm_flag (timers k t) AND RT_TIMER_FLAG_PERIODIC \<noteq> 0 \<and>
                         tm_flag (timers k t) AND RT_TIMER_FLAG_ACTIVATED \<noteq> 0
                      then rt_timer_start t
                             (upd_timer t (\<lambda>tm. tm\<lparr>tm_flag := tm_flag tm AND NOT RT_TIMER_FLAG_ACTIVATED\<rparr>) k)
                      else Some (upd_timer t (\<lambda>tm. tm\<lparr>tm_flag := tm_flag tm AND NOT RT_TIMER_FLAG_ACTIVATED\<rparr>) k));
                 rt_timer_check_loop cb current_tick k }
          else Some k)"

definition rt_timer_check :: "(nat \<Rightarrow> kernel \<Rightarrow> kernel option) \<Rightarrow> kernel \<Rightarrow> kernel option" where
  "rt_timer_check cb k = rt_timer_check_loop cb (rt_tick_get k) k"

definition rt_tick_increase :: "(nat \<Rightarrow> kernel \<Rightarrow> kernel option) \<Rightarrow> kernel \<Rightarrow> kernel option" where
  "rt_tick_increase cb k =
     do { let k = k\<lparr>rt_tick := rt_tick k + 1\<rparr>;
          thread \<leftarrow> rt_thread_self k;
          let k = upd_thread thread (\<lambda>th. th\<lparr>remaining_tick := remaining_tick th - 1\<rparr>) k;
          k \<leftarrow> (if remaining_tick (threads k thread) = 0 then
                 do { let k = upd_thread thread (\<lambda>th. th\<lparr>remaining_tick := th_init_tick th\<rparr>) k;
                      (_, k) \<leftarrow> rt_thread_yield k;
                      Some k }
               else Some k);
          rt_timer_check cb k }"

lemma flag_two [simp]:
  fixes w :: u8
  shows "(w AND - 2) AND 2 = w AND 2" "(w OR 1) AND 2 = w AND 2" "(w AND - 2) AND 1 = 0"
proof -
  show "(w AND - 2) AND 2 = w AND 2" "(w AND - 2) AND 1 = 0" by (simp_all add: and.assoc)
  show "(w OR 1) AND 2 = w AND 2" by (simp add: bit.conj_disj_distrib2)
qed

section \<open>What is due\<close>

definition left :: "kernel \<Rightarrow> timer_id \<Rightarrow> int" where
  "left k i = ticks_left (rt_tick k) (timeout_tick (timers k i))"

definition due :: "kernel \<Rightarrow> timer_id set" where
  "due k = {i \<in> set (rt_timer_list k). left k i \<le> 0}"

lemma queue_okD:
  assumes "queue_ok lo k"
  shows "distinct (rt_timer_list k)" "sorted (map (left k) (rt_timer_list k))"
    "i \<in> set (rt_timer_list k) \<Longrightarrow> lo \<le> left k i"
    "i \<in> set (rt_timer_list k) \<Longrightarrow> in_window (rt_tick k) (timeout_tick (timers k i))"
  using assms by (auto simp: queue_ok_def left_def [abs_def])

text \<open>The test of the loop on the first timer of the queue decides whether any timer is due.\<close>

lemma head_due:
  assumes ok: "queue_ok lo k" and l: "rt_timer_list k = i # is"
  shows "rt_tick k - timeout_tick (timers k i) < RT_TICK_HALF \<longleftrightarrow> i \<in> due k"
    and "i \<notin> due k \<Longrightarrow> due k = {}"
proof -
  have "in_window (rt_tick k) (timeout_tick (timers k i))" using queue_okD(4) [OF ok] l by simp
  from tick_expired [OF this] show "rt_tick k - timeout_tick (timers k i) < RT_TICK_HALF \<longleftrightarrow> i \<in> due k"
    using l by (simp add: due_def left_def)
  show "i \<notin> due k \<Longrightarrow> due k = {}"
    using queue_okD(2) [OF ok] l by (auto simp: due_def)
qed

lemma due_empty_kinv:
  assumes "kinv lo k" and "due k = {}"
  shows "kinv 1 k"
proof -
  have "1 \<le> left k i" if "i \<in> set (rt_timer_list k)" for i using that assms(2) by (force simp: due_def)
  then show ?thesis using assms(1) by (auto simp: kinv_def queue_ok_def left_def)
qed

lemma finite_due [simp]: "finite (due k)"
  by (rule finite_subset [of _ "set (rt_timer_list k)"]) (auto simp: due_def)

section \<open>The loop on thread timers\<close>

text \<open>One round of the loop when the first timer is a thread's.\<close>

definition clear_activated :: "timer_id \<Rightarrow> kernel \<Rightarrow> kernel" where
  "clear_activated i = upd_timer i (\<lambda>tm. tm\<lparr>tm_flag := tm_flag tm AND NOT RT_TIMER_FLAG_ACTIVATED\<rparr>)"

lemma kinv_clear_activated:
  assumes "kinv lo k" and "i \<notin> set (rt_timer_list k) \<or> (\<exists>n. i = UserTimer n)"
  shows "kinv lo (clear_activated i k)"
proof -
  have "thread_ok (clear_activated i k) t = thread_ok k t" for t
    using assms(2)
    by (cases "i = ThreadTimer t") (auto simp: clear_activated_def thread_ok_def live_def activated_def thread_timer_ok_def)
  moreover have "queue_ok lo (clear_activated i k) = queue_ok lo k"
    by (intro queue_ok_cong) (auto simp: clear_activated_def)
  ultimately show ?thesis
    using assms(1) by (simp add: kinv_def ready_inv_def table_ok32_def) (simp add: clear_activated_def)
qed

lemma clear_activated_sel [simp]:
  "threads (clear_activated i k) = threads k" "queues (clear_activated i k) = queues k"
  "rt_timer_list (clear_activated i k) = rt_timer_list k" "rt_tick (clear_activated i k) = rt_tick k"
  "rt_current_thread (clear_activated i k) = rt_current_thread k" "objs (clear_activated i k) = objs k"
  "rt_scheduler_lock_nest (clear_activated i k) = rt_scheduler_lock_nest k"
  "rt_interrupt_nest (clear_activated i k) = rt_interrupt_nest k"
  "timeout_tick (timers (clear_activated i k) j) = timeout_tick (timers k j)"
  "tm_init_tick (timers (clear_activated i k) j) = tm_init_tick (timers k j)"
  "timeout_func (timers (clear_activated i k) j) = timeout_func (timers k j)"
  "tm_flag (timers (clear_activated i k) j) AND 2 = tm_flag (timers k j) AND 2"
  by (simp_all add: clear_activated_def)

lemma left_clear [simp]: "left (clear_activated i k) j = left k j" "due (clear_activated i k) = due k"
  by (simp_all add: left_def due_def)
section \<open>The loop ends\<close>

text \<open>
  What the application owes: timers it made call its own functions, an active periodic timer
  has a period the queue can hold and that is not 0, and its functions, called from the clock
  interrupt, return, keep the kernel's invariant and leave no timer due that was not.
\<close>

definition user_timers_ok :: "kernel \<Rightarrow> bool" where
  "user_timers_ok k \<longleftrightarrow> (\<forall>n. let i = UserTimer n; tm = timers k i in
     (i \<in> set (rt_timer_list k) \<longrightarrow> (\<exists>f. timeout_func tm = TF_user f)) \<and>
     (tm_flag tm AND RT_TIMER_FLAG_PERIODIC \<noteq> 0 \<and> tm_flag tm AND RT_TIMER_FLAG_ACTIVATED \<noteq> 0 \<longrightarrow>
        (\<exists>f. timeout_func tm = TF_user f) \<and> 0 < tm_init_tick tm \<and> tm_init_tick tm < RT_TICK_HALF))"

definition callback_ok :: "(nat \<Rightarrow> kernel \<Rightarrow> kernel option) \<Rightarrow> bool" where
  "callback_ok cb \<longleftrightarrow> (\<forall>n k. kinv (- 1) k \<and> user_timers_ok k \<and> rt_current_thread k \<noteq> None \<longrightarrow>
     (\<exists>k'. cb n k = Some k' \<and> kinv (- 1) k' \<and> user_timers_ok k' \<and> rt_current_thread k' \<noteq> None \<and>
           rt_tick k' = rt_tick k \<and> due k' \<subseteq> due k))"

lemma kinv_timer_remove:
  assumes inv: "kinv lo k"
  shows "kinv lo (rt_timer_remove i k)" "due (rt_timer_remove i k) = due k - {i}"
    "set (rt_timer_list (rt_timer_remove i k)) = set (rt_timer_list k) - {i}"
proof -
  have d: "distinct (rt_timer_list k)" using queue_okD(1) [OF kinvD(2) [OF inv]] .
  show s: "set (rt_timer_list (rt_timer_remove i k)) = set (rt_timer_list k) - {i}"
    using d by (simp add: rt_timer_remove_def)
  have "thread_ok (rt_timer_remove i k) t" for t
    using kinv_thread [OF inv, of t] s
    by (auto simp: thread_ok_def live_def activated_def thread_timer_ok_def)
  then show "kinv lo (rt_timer_remove i k)"
    using inv rt_timer_remove_queue_ok [of lo k i] by (simp add: kinv_def ready_inv_def table_ok32_def)
  show "due (rt_timer_remove i k) = due k - {i}"
    using s by (auto simp: due_def left_def)
qed

lemma kinv_user_timer_start:
  assumes inv: "kinv lo k" and w: "tm_init_tick (timers k (UserTimer n)) < RT_TICK_HALF" and lo: "lo \<le> 0"
  shows "\<exists>k'. rt_timer_start (UserTimer n) k = Some k' \<and> kinv lo k' \<and> same_ctx k k' \<and>
     threads k' = threads k \<and> queues k' = queues k \<and>
     set (rt_timer_list k') = insert (UserTimer n) (set (rt_timer_list k)) \<and>
     (\<forall>i. i \<noteq> UserTimer n \<longrightarrow> timers k' i = timers k i) \<and>
     timeout_func (timers k' (UserTimer n)) = timeout_func (timers k (UserTimer n)) \<and>
     tm_init_tick (timers k' (UserTimer n)) = tm_init_tick (timers k (UserTimer n)) \<and>
     left k' (UserTimer n) = uint (tm_init_tick (timers k (UserTimer n)))"
proof -
  from rt_timer_start_queue_ok [OF kinvD(2) [OF inv] w lo] obtain k'
    where k': "rt_timer_start (UserTimer n) k = Some k'" and ok: "queue_ok lo k'" by blast
  note eq = k' [unfolded rt_timer_start_eq [OF w], simplified, symmetric]
  have d: "distinct (rt_timer_list k)" using queue_okD(1) [OF kinvD(2) [OF inv]] .
  have s: "set (rt_timer_list k') = insert (UserTimer n) (set (rt_timer_list k))" using d by (auto simp: eq)
  have "thread_ok k' t = thread_ok k t" for t using s by (intro thread_ok_cong) (auto simp: eq)
  then have "kinv lo k'" using inv ok by (simp add: kinv_def ready_inv_def table_ok32_def) (simp add: eq)
  moreover have "left k' (UserTimer n) = uint (tm_init_tick (timers k (UserTimer n)))"
    using ticks_left_start(1) [OF w] by (simp add: left_def eq)
  ultimately show ?thesis using k' s by (simp add: eq same_ctx_def)
qed

text \<open>One call of a timeout function on the timer taken off the queue.\<close>

lemma call_timeout_spec:
  assumes cb: "callback_ok cb" and inv: "kinv (- 1) k" and u: "user_timers_ok k"
    and c: "rt_current_thread k \<noteq> None" and mem: "i \<in> set (rt_timer_list k)"
  shows "\<exists>k'. call_timeout cb (timeout_func (timers k i)) (rt_timer_remove i k) = Some k' \<and> kinv (- 1) k' \<and>
     user_timers_ok k' \<and> rt_current_thread k' \<noteq> None \<and> rt_tick k' = rt_tick k \<and> due k' \<subseteq> due k - {i} \<and>
     (\<forall>t. i = ThreadTimer t \<longrightarrow> i \<notin> set (rt_timer_list k') \<and> tm_flag (timers k' i) AND RT_TIMER_FLAG_PERIODIC = 0)"
proof -
  let ?k1 = "rt_timer_remove i k"
  have inv1: "kinv (- 1) ?k1" and due1: "due ?k1 = due k - {i}"
    and l1: "set (rt_timer_list ?k1) = set (rt_timer_list k) - {i}"
    using kinv_timer_remove [OF inv] by auto
  have u1: "user_timers_ok ?k1" using u l1 by (auto simp: user_timers_ok_def Let_def)
  show ?thesis
  proof (cases i)
    case (ThreadTimer t)
    have s: "stat (threads k t) = RT_THREAD_SUSPEND" using kinv_thread [OF inv, of t] mem ThreadTimer by (auto simp: thread_ok_def)
    have tm: "thread_timer_ok k t" using kinv_live(2) [OF inv] s by blast
    from rt_thread_timeout_spec [OF inv1, of t] s l1 c ThreadTimer obtain k' where
      "rt_thread_timeout t ?k1 = Some k'" "kinv (- 1) k'" "rt_timer_list k' = rt_timer_list ?k1"
      "timers k' = timers k" "rt_tick k' = rt_tick k" "rt_current_thread k' \<noteq> None" by auto
    moreover from this have "due k' = due ?k1" by (simp add: due_def left_def)
    moreover from calculation have "user_timers_ok k'" using u1 by (simp add: user_timers_ok_def)
    ultimately show ?thesis
      using tm due1 l1 ThreadTimer by (simp add: call_timeout_def thread_timer_ok_def)
  next
    case (UserTimer n)
    then obtain f where "timeout_func (timers k i) = TF_user f"
      using u mem by (auto simp: user_timers_ok_def Let_def)
    moreover from cb inv1 u1 c obtain k' where "cb f ?k1 = Some k'" "kinv (- 1) k'" "user_timers_ok k'"
      "rt_current_thread k' \<noteq> None" "rt_tick k' = rt_tick k" "due k' \<subseteq> due ?k1"
      unfolding callback_ok_def by (metis rt_timer_remove_frame(5,7))
    ultimately show ?thesis using due1 UserTimer by (simp add: call_timeout_def)
  qed
qed

lemma user_timers_ok_clear: "user_timers_ok k \<Longrightarrow> user_timers_ok (clear_activated i k)"
  by (auto simp: user_timers_ok_def Let_def clear_activated_def)

text \<open>The second half of a round: the timer is started again or its flag cleared.\<close>

lemma restart_spec:
  assumes inv: "kinv (- 1) k" and u: "user_timers_ok k"
    and th: "\<forall>t. i = ThreadTimer t \<longrightarrow> i \<notin> set (rt_timer_list k) \<and> tm_flag (timers k i) AND RT_TIMER_FLAG_PERIODIC = 0"
  shows "\<exists>k'. (if tm_flag (timers k i) AND RT_TIMER_FLAG_PERIODIC \<noteq> 0 \<and> tm_flag (timers k i) AND RT_TIMER_FLAG_ACTIVATED \<noteq> 0
        then rt_timer_start i (clear_activated i k) else Some (clear_activated i k)) = Some k' \<and>
     kinv (- 1) k' \<and> user_timers_ok k' \<and> rt_current_thread k' = rt_current_thread k \<and> rt_tick k' = rt_tick k \<and>
     due k' \<subseteq> due k"
proof (cases "tm_flag (timers k i) AND RT_TIMER_FLAG_PERIODIC \<noteq> 0 \<and> tm_flag (timers k i) AND RT_TIMER_FLAG_ACTIVATED \<noteq> 0")
  case False
  have "kinv (- 1) (clear_activated i k)" using kinv_clear_activated [OF inv] th by (cases i) auto
  with False u show ?thesis by (auto intro: user_timers_ok_clear)
next
  case True
  with th obtain n where i: "i = UserTimer n" by (cases i) auto
  let ?k = "clear_activated i k"
  have w: "0 < tm_init_tick (timers k i)" "tm_init_tick (timers k i) < RT_TICK_HALF" "\<exists>f. timeout_func (timers k i) = TF_user f"
    using u True i by (auto simp: user_timers_ok_def Let_def)
  have "kinv (- 1) ?k" using kinv_clear_activated [OF inv] i by auto
  from kinv_user_timer_start [OF this, of n] w(2) i obtain k' where
    k': "rt_timer_start i ?k = Some k'" "kinv (- 1) k'" "same_ctx ?k k'"
    and s: "set (rt_timer_list k') = insert i (set (rt_timer_list k))"
    and oth: "\<forall>j. j \<noteq> i \<longrightarrow> timers k' j = timers ?k j"
    and self: "timeout_func (timers k' i) = timeout_func (timers k i)"
      "tm_init_tick (timers k' i) = tm_init_tick (timers k i)" "left k' i = uint (tm_init_tick (timers k i))"
    by auto
  have "0 < left k' i" using self(3) w(1) by (simp add: word_less_def)
  moreover have "left k' j = left k j" if "j \<noteq> i" for j
    using that oth k'(3) by (simp add: left_def same_ctx_def)
  ultimately have "j \<in> due k" if "j \<in> due k'" for j
    using that s by (cases "j = i") (simp_all add: due_def)
  then have "due k' \<subseteq> due k" by blast
  moreover have "user_timers_ok k'"
  proof -
    have "timers k' (UserTimer m) = timers k (UserTimer m)" if "m \<noteq> n" for m
      using that oth i by (simp add: clear_activated_def)
    then show ?thesis using u s w self i by (auto simp: user_timers_ok_def Let_def) metis+
  qed
  ultimately show ?thesis using True k' by (simp add: same_ctx_def)
qed

lemma rt_timer_check_loop_due:
  assumes "rt_timer_list k = i # rest" and "current_tick - timeout_tick (timers k i) < RT_TICK_HALF"
    and "call_timeout cb (timeout_func (timers k i)) (rt_timer_remove i k) = Some k1"
    and "(if tm_flag (timers k1 i) AND RT_TIMER_FLAG_PERIODIC \<noteq> 0 \<and> tm_flag (timers k1 i) AND RT_TIMER_FLAG_ACTIVATED \<noteq> 0
          then rt_timer_start i (clear_activated i k1) else Some (clear_activated i k1)) = Some k2"
  shows "rt_timer_check_loop cb current_tick k = rt_timer_check_loop cb (rt_tick k1) k2"
  using assms unfolding clear_activated_def
  by (subst rt_timer_check_loop.simps) (simp add: Let_def rt_tick_get_def split del: if_split)

lemma rt_timer_check_loop_total:
  assumes "callback_ok cb" and "kinv (- 1) k" and "user_timers_ok k" and "rt_current_thread k \<noteq> None"
  shows "\<exists>k'. rt_timer_check_loop cb (rt_tick k) k = Some k' \<and> kinv 1 k' \<and> user_timers_ok k' \<and>
     rt_current_thread k' \<noteq> None \<and> rt_tick k' = rt_tick k \<and> due k' = {}"
  using assms(2-)
proof (induction "card (due k)" arbitrary: k rule: less_induct)
  case less
  note inv = less.prems(1) and ok = kinvD(2) [OF less.prems(1)]
  show ?case
  proof (cases "rt_timer_list k")
    case Nil
    then have "due k = {}" by (simp add: due_def)
    with Nil less.prems due_empty_kinv [OF inv] show ?thesis by (subst rt_timer_check_loop.simps) simp
  next
    case (Cons i rest)
    show ?thesis
    proof (cases "i \<in> due k")
      case False
      then have "due k = {}" using head_due(2) [OF ok Cons] by blast
      with False Cons less.prems due_empty_kinv [OF inv] head_due(1) [OF ok Cons] show ?thesis
        by (subst rt_timer_check_loop.simps) simp
    next
      case True
      from call_timeout_spec [OF assms(1) less.prems, of i] Cons obtain k1 where
        k1: "call_timeout cb (timeout_func (timers k i)) (rt_timer_remove i k) = Some k1" and inv1: "kinv (- 1) k1"
        and u1: "user_timers_ok k1" and c1: "rt_current_thread k1 \<noteq> None" and t1: "rt_tick k1 = rt_tick k"
        and d1: "due k1 \<subseteq> due k - {i}"
        and th: "\<forall>t. i = ThreadTimer t \<longrightarrow> i \<notin> set (rt_timer_list k1) \<and> tm_flag (timers k1 i) AND RT_TIMER_FLAG_PERIODIC = 0"
        by auto
      from restart_spec [OF inv1 u1 th] obtain k2 where
        k2: "(if tm_flag (timers k1 i) AND RT_TIMER_FLAG_PERIODIC \<noteq> 0 \<and> tm_flag (timers k1 i) AND RT_TIMER_FLAG_ACTIVATED \<noteq> 0
          then rt_timer_start i (clear_activated i k1) else Some (clear_activated i k1)) = Some k2"
        and inv2: "kinv (- 1) k2" "user_timers_ok k2" "rt_current_thread k2 \<noteq> None" and t2: "rt_tick k2 = rt_tick k"
        and d2: "due k2 \<subseteq> due k1" using c1 t1 by auto
      have "card (due k2) < card (due k)" using d1 d2 True by (intro psubset_card_mono) auto
      from less.hyps [OF this inv2] t2 obtain k' where "rt_timer_check_loop cb (rt_tick k) k2 = Some k'" "kinv 1 k'"
        "user_timers_ok k'" "rt_current_thread k' \<noteq> None" "rt_tick k' = rt_tick k" "due k' = {}" by auto
      moreover have "rt_timer_check_loop cb (rt_tick k) k = rt_timer_check_loop cb (rt_tick k) k2"
        using rt_timer_check_loop_due [OF Cons _ k1 k2] head_due(1) [OF ok Cons] True t1 by simp
      ultimately show ?thesis by simp
    qed
  qed
qed

section \<open>Exactly the due threads wake\<close>

definition wake_due :: "kernel \<Rightarrow> tid \<Rightarrow> rt_thread" where
  "wake_due k t = (if ThreadTimer t \<in> due k
     then (threads k t)\<lparr>error := - RT_ETIMEOUT, stat := RT_THREAD_READY\<rparr> else threads k t)"

lemma rt_timer_check_loop_threads:
  assumes "kinv (- 1) k" and "rt_current_thread k \<noteq> None" and "\<forall>n. UserTimer n \<notin> due k"
  shows "\<exists>k'. rt_timer_check_loop cb (rt_tick k) k = Some k' \<and> kinv 1 k' \<and> rt_tick k' = rt_tick k \<and>
     rt_current_thread k' \<noteq> None \<and> threads k' = wake_due k \<and>
     rt_timer_list k' = filter (\<lambda>i. i \<notin> due k) (rt_timer_list k) \<and>
     (\<forall>i. i \<notin> due k \<longrightarrow> timers k' i = timers k i)"
  using assms
proof (induction "card (due k)" arbitrary: k rule: less_induct)
  case less
  note inv = less.prems(1) and ok = kinvD(2) [OF less.prems(1)]
  show ?case
  proof (cases "rt_timer_list k")
    case Nil
    then have "due k = {}" by (simp add: due_def)
    with Nil less.prems due_empty_kinv [OF inv] show ?thesis
      by (subst rt_timer_check_loop.simps) (simp add: wake_due_def [abs_def])
  next
    case (Cons i rest)
    show ?thesis
    proof (cases "i \<in> due k")
      case False
      then have "due k = {}" using head_due(2) [OF ok Cons] by blast
      with False Cons less.prems due_empty_kinv [OF inv] head_due(1) [OF ok Cons] show ?thesis
        by (subst rt_timer_check_loop.simps) (simp add: wake_due_def [abs_def])
    next
      case True
      with less.prems(3) obtain t where i: "i = ThreadTimer t" by (cases i) auto
      have s: "stat (threads k t) = RT_THREAD_SUSPEND"
        using kinv_thread [OF inv, of t] Cons i by (auto simp: thread_ok_def)
      have tm: "thread_timer_ok k t" using kinv_live(2) [OF inv] s by blast
      note rm = kinv_timer_remove [OF inv, of i]
      from rt_thread_timeout_spec [OF rm(1), of t] s rm(3) less.prems(2) i obtain k1 where
        k1: "rt_thread_timeout t (rt_timer_remove i k) = Some k1" and inv1: "kinv (- 1) k1"
        and th1: "threads k1 = (threads k)(t := (threads k t)\<lparr>error := - RT_ETIMEOUT, stat := RT_THREAD_READY\<rparr>)"
        and fr: "rt_timer_list k1 = rt_timer_list (rt_timer_remove i k)" "timers k1 = timers k"
          "rt_tick k1 = rt_tick k" "rt_current_thread k1 \<noteq> None" by auto
      let ?k2 = "clear_activated i k1"
      have l2: "rt_timer_list ?k2 = rest" using fr Cons by (simp add: rt_timer_remove_def)
      have nin: "i \<notin> set rest" using queue_okD(1) [OF ok] Cons by simp
      have inv2: "kinv (- 1) ?k2" using kinv_clear_activated [OF inv1] l2 nin by simp
      have d2: "due ?k2 = due k - {i}" using rm(2) fr by (simp add: due_def left_def)
      have "rt_timer_check_loop cb (rt_tick k) k = rt_timer_check_loop cb (rt_tick k1) ?k2"
        using rt_timer_check_loop_due [OF Cons, of "rt_tick k" cb k1 ?k2] head_due(1) [OF ok Cons] True k1 tm fr i
        by (simp add: call_timeout_def thread_timer_ok_def)
      moreover have "card (due ?k2) < card (due k)" using d2 True by (intro psubset_card_mono) auto
      from less.hyps [OF this inv2] fr less.prems(3) d2 obtain k' where
        "rt_timer_check_loop cb (rt_tick k) ?k2 = Some k'" "kinv 1 k'" "rt_tick k' = rt_tick k"
        "rt_current_thread k' \<noteq> None" "threads k' = wake_due ?k2"
        "rt_timer_list k' = filter (\<lambda>j. j \<notin> due k - {i}) rest"
        "\<forall>j. j \<notin> due k - {i} \<longrightarrow> timers k' j = timers ?k2 j" using l2 by auto
      moreover have "wake_due ?k2 u = wake_due k u" for u
        using d2 th1 i True by (cases "u = t") (simp_all add: wake_due_def)
      then have "wake_due ?k2 = wake_due k" by blast
      moreover have "filter (\<lambda>j. j \<notin> due k - {i}) rest = filter (\<lambda>j. j \<notin> due k) (rt_timer_list k)"
        using Cons True nin by (auto intro!: filter_cong)
      moreover have "timers ?k2 j = timers k j" if "j \<notin> due k" for j
        using that True fr by (auto simp: clear_activated_def)
      ultimately show ?thesis using fr by simp
    qed
  qed
qed

section \<open>A tick\<close>

lemma tick_succ_left:
  assumes "0 \<le> ticks_left now tt"
  shows "ticks_left (now + 1) tt = ticks_left now tt - 1"
proof -
  let ?d = "tt - now"
  have "sint ?d < 2 ^ 31" "0 \<le> sint ?d" using sint_lt [of ?d] assms by (simp_all add: ticks_left_def)
  then have "signed_take_bit 31 (sint ?d - 1) = sint ?d - 1" by (intro signed_take_bit_int_eq_self) auto
  moreover have e: "tt - (now + 1) = word_of_int (sint ?d - 1)" by simp
  ultimately show ?thesis unfolding ticks_left_def e by (simp only: sint_sbintrunc') simp
qed

lemma kinv_tick:
  assumes inv: "kinv 0 k"
  shows "kinv (- 1) (k\<lparr>rt_tick := rt_tick k + 1\<rparr>)" "i \<in> set (rt_timer_list k) \<Longrightarrow> left (k\<lparr>rt_tick := rt_tick k + 1\<rparr>) i = left k i - 1"
proof -
  let ?k = "k\<lparr>rt_tick := rt_tick k + 1\<rparr>"
  note ok = kinvD(2) [OF inv]
  show l: "left ?k i = left k i - 1" if "i \<in> set (rt_timer_list k)" for i
    using tick_succ_left queue_okD(3) [OF ok that] by (simp add: left_def)
  have "map (left ?k) (rt_timer_list k) = map (\<lambda>x. x - 1) (map (left k) (rt_timer_list k))" using l by simp
  moreover have "sorted (map (\<lambda>x. x - 1 :: int) xs)" if "sorted xs" for xs
    using that by (induction xs) auto
  ultimately have "sorted (map (left ?k) (rt_timer_list k))" using queue_okD(2) [OF ok] by (simp only:)
  moreover have "in_window (rt_tick ?k) (timeout_tick (timers ?k i)) \<and> - 1 \<le> left ?k i"
    if "i \<in> set (rt_timer_list k)" for i
    using l [OF that] queue_okD(3,4) [OF ok that] by (simp add: in_window_def left_def)
  ultimately have "queue_ok (- 1) ?k" using queue_okD(1) [OF ok] by (simp add: queue_ok_def left_def [abs_def])
  moreover have "ready_inv ?k = ready_inv k" by (intro ready_inv_cong) auto
  ultimately show "kinv (- 1) ?k" using inv by (simp add: kinv_def)
qed


lemma kinv_weaken: "kinv lo k \<Longrightarrow> lo' \<le> lo \<Longrightarrow> kinv lo' k"
  by (fastforce simp: kinv_def queue_ok_def)

text \<open>The time slice: the part of \<^verbatim>\<open>rt_tick_increase\<close> before the timers.\<close>

definition time_slice :: "tid \<Rightarrow> kernel \<Rightarrow> kernel option" where
  "time_slice t k =
     (let k = upd_thread t (\<lambda>th. th\<lparr>remaining_tick := remaining_tick th - 1\<rparr>) k
      in if remaining_tick (threads k t) = 0
         then do { (_, k) \<leftarrow> rt_thread_yield (upd_thread t (\<lambda>th. th\<lparr>remaining_tick := th_init_tick th\<rparr>) k); Some k }
         else Some k)"

lemma rt_tick_increase_alt:
  "rt_tick_increase cb k =
     do { t \<leftarrow> rt_current_thread k;
          k \<leftarrow> time_slice t (k\<lparr>rt_tick := rt_tick k + 1\<rparr>);
          rt_timer_check cb k }"
  unfolding rt_tick_increase_def time_slice_def rt_thread_self_def Let_def by simp

lemma kinv_upd_remaining:
  assumes "kinv lo k"
  shows "kinv lo (upd_thread t (\<lambda>th. th\<lparr>remaining_tick := f th\<rparr>) k)"
proof -
  let ?k = "upd_thread t (\<lambda>th. th\<lparr>remaining_tick := f th\<rparr>) k"
  have "thread_ok ?k u = thread_ok k u" for u
    by (cases "u = t") (auto simp: thread_ok_def live_def activated_def thread_timer_ok_def)
  moreover have "queue_ok lo ?k = queue_ok lo k" by (intro queue_ok_cong) auto
  ultimately show ?thesis using assms by (simp add: kinv_def ready_inv_def table_ok32_def)
qed

lemma time_slice_spec:
  assumes inv: "kinv lo k" and c: "rt_current_thread k = Some t" and sr: "some_ready k"
  shows "\<exists>k'. time_slice t k = Some k' \<and> kinv lo k' \<and> rt_current_thread k' \<noteq> None \<and>
     (\<exists>r. threads k' = (threads k)(t := (threads k t)\<lparr>remaining_tick := r\<rparr>)) \<and> timers k' = timers k \<and>
     rt_timer_list k' = rt_timer_list k \<and> rt_tick k' = rt_tick k"
proof -
  let ?k1 = "upd_thread t (\<lambda>th. th\<lparr>remaining_tick := remaining_tick th - 1\<rparr>) k"
  let ?k2 = "upd_thread t (\<lambda>th. th\<lparr>remaining_tick := th_init_tick th\<rparr>) ?k1"
  have inv1: "kinv lo ?k1" by (rule kinv_upd_remaining [OF inv])
  have inv2: "kinv lo ?k2" by (rule kinv_upd_remaining [OF inv1])
  have "some_ready ?k2" using sr by (fastforce simp: some_ready_def)
  from rt_thread_yield_spec [OF inv2 _ this] c obtain k' where
    "rt_thread_yield ?k2 = Some (RT_EOK, k')" "kinv lo k'" "threads k' = threads ?k2" "timers k' = timers k"
    "rt_timer_list k' = rt_timer_list k" "rt_tick k' = rt_tick k" "rt_current_thread k' \<noteq> None" by auto
  then show ?thesis using inv1 c by (auto simp: time_slice_def Let_def)
qed

lemma due_after_slice:
  "timers k' = timers k \<Longrightarrow> rt_timer_list k' = rt_timer_list k \<Longrightarrow> rt_tick k' = rt_tick k \<Longrightarrow>
   due k' = due k \<and> left k' = left k"
  by (simp add: due_def left_def fun_eq_iff)

lemma rt_tick_increase_threads:
  assumes inv: "kinv 0 k" and c: "rt_current_thread k \<noteq> None" and sr: "some_ready k"
    and nu: "\<forall>n. UserTimer n \<notin> set (rt_timer_list k)"
  shows "\<exists>k'. rt_tick_increase cb k = Some k' \<and> kinv 0 k' \<and> rt_tick k' = rt_tick k + 1 \<and>
     rt_current_thread k' \<noteq> None \<and> some_ready k' \<and>
     rt_timer_list k' = filter (\<lambda>i. 1 < left k i) (rt_timer_list k) \<and>
     (\<forall>i\<in>set (rt_timer_list k'). left k' i = left k i - 1) \<and>
     (\<forall>t. if ThreadTimer t \<in> set (rt_timer_list k) \<and> left k (ThreadTimer t) \<le> 1
          then stat (threads k' t) = RT_THREAD_READY \<and> error (threads k' t) = - RT_ETIMEOUT
          else stat (threads k' t) = stat (threads k t) \<and> error (threads k' t) = error (threads k t))"
proof -
  let ?k1 = "k\<lparr>rt_tick := rt_tick k + 1\<rparr>"
  from c obtain t where c: "rt_current_thread k = Some t" by blast
  note inv1 = kinv_tick [OF inv]
  have "some_ready ?k1" using sr by (simp add: some_ready_def)
  from time_slice_spec [OF inv1(1) _ this] c obtain k2 r where k2: "time_slice t ?k1 = Some k2" and inv2: "kinv (- 1) k2"
    and c2: "rt_current_thread k2 \<noteq> None" and th2: "threads k2 = (threads k)(t := (threads k t)\<lparr>remaining_tick := r\<rparr>)"
    and fr: "timers k2 = timers k" "rt_timer_list k2 = rt_timer_list k" "rt_tick k2 = rt_tick k + 1" by auto
  have l2: "left k2 i = left k i - 1" if "i \<in> set (rt_timer_list k)" for i
    using inv1(2) [OF that] fr by (simp add: left_def)
  then have due: "due k2 = {i \<in> set (rt_timer_list k). left k i \<le> 1}" using fr by (auto simp: due_def)
  from rt_timer_check_loop_threads [OF inv2 c2, of cb] nu due obtain k' where
    k': "rt_timer_check_loop cb (rt_tick k2) k2 = Some k'" "kinv 1 k'" "rt_tick k' = rt_tick k2"
      "rt_current_thread k' \<noteq> None" "threads k' = wake_due k2"
      "rt_timer_list k' = filter (\<lambda>i. i \<notin> due k2) (rt_timer_list k2)"
      "\<forall>i. i \<notin> due k2 \<longrightarrow> timers k' i = timers k2 i" by auto
  have "rt_timer_list k' = filter (\<lambda>i. 1 < left k i) (rt_timer_list k)"
    using k'(6) fr due by (auto intro: filter_cong)
  moreover have "left k' i = left k i - 1" if "i \<in> set (rt_timer_list k')" for i
    using that l2 [of i] k' fr by (simp add: left_def)
  moreover have st: "stat (threads k' u) = (if ThreadTimer u \<in> due k2 then RT_THREAD_READY else stat (threads k u))"
    "error (threads k' u) = (if ThreadTimer u \<in> due k2 then - RT_ETIMEOUT else error (threads k u))" for u
    using k'(5) th2 by (auto simp: wake_due_def)
  moreover have "some_ready k'" using sr st(1) unfolding some_ready_def by metis
  moreover have "rt_tick_increase cb k = Some k'"
    using c k2 k'(1) by (simp add: rt_tick_increase_alt rt_timer_check_def rt_tick_get_def)
  ultimately show ?thesis using k' fr due kinv_weaken [of 1 k' 0] by auto
qed


fun ticks :: "(nat \<Rightarrow> kernel \<Rightarrow> kernel option) \<Rightarrow> nat \<Rightarrow> kernel \<Rightarrow> kernel option" where
  "ticks cb 0 k = Some k"
| "ticks cb (Suc n) k = Option.bind (rt_tick_increase cb k) (ticks cb n)"

text \<open>A suspended thread whose timer has \<open>d\<close> ticks left stays suspended for the ticks before the
  last and is ready after it.\<close>

lemma ticks_waiting:
  assumes "kinv 0 k" and "rt_current_thread k \<noteq> None" and "some_ready k"
    and "\<forall>n. UserTimer n \<notin> set (rt_timer_list k)" and "ThreadTimer t \<in> set (rt_timer_list k)"
    and "int m < max 1 (left k (ThreadTimer t))"
  shows "\<exists>k'. ticks cb m k = Some k' \<and> kinv 0 k' \<and> rt_current_thread k' \<noteq> None \<and> some_ready k' \<and>
     (\<forall>n. UserTimer n \<notin> set (rt_timer_list k')) \<and> ThreadTimer t \<in> set (rt_timer_list k') \<and>
     stat (threads k' t) = RT_THREAD_SUSPEND \<and> left k' (ThreadTimer t) = left k (ThreadTimer t) - int m"
  using assms
proof (induction m arbitrary: k)
  case 0
  then show ?case using kinv_thread [of 0 k t] by (auto simp: thread_ok_def)
next
  case (Suc m)
  from rt_tick_increase_threads [OF Suc.prems(1-4), of cb] obtain k1 where
    k1: "rt_tick_increase cb k = Some k1" "kinv 0 k1" "rt_current_thread k1 \<noteq> None" "some_ready k1"
    and l1: "rt_timer_list k1 = filter (\<lambda>i. 1 < left k i) (rt_timer_list k)"
    and left1: "\<forall>i\<in>set (rt_timer_list k1). left k1 i = left k i - 1" by blast
  have mem: "ThreadTimer t \<in> set (rt_timer_list k1)" using l1 Suc.prems by auto
  moreover have "\<forall>n. UserTimer n \<notin> set (rt_timer_list k1)" using l1 Suc.prems(4) by auto
  moreover have "left k1 (ThreadTimer t) = left k (ThreadTimer t) - 1" using left1 mem by blast
  moreover from this have "int m < max 1 (left k1 (ThreadTimer t))" using Suc.prems(6) by simp
  ultimately show ?case using Suc.IH [OF k1(2-4)] k1(1) by auto
qed

lemma ticks_Suc_end: "ticks cb (Suc n) k = Option.bind (ticks cb n k) (rt_tick_increase cb)"
proof (induction n arbitrary: k)
  case 0
  show ?case by (cases "rt_tick_increase cb k") simp_all
next
  case (Suc n)
  have "ticks cb (Suc (Suc n)) k = Option.bind (rt_tick_increase cb k) (ticks cb (Suc n))" by simp
  also have "\<dots> = Option.bind (rt_tick_increase cb k) (\<lambda>k. Option.bind (ticks cb n k) (rt_tick_increase cb))"
    using Suc.IH by (intro arg_cong [where f = "Option.bind _"]) blast
  also have "\<dots> = Option.bind (ticks cb (Suc n) k) (rt_tick_increase cb)" by (simp add: Option.bind_assoc)
  finally show ?case .
qed

lemma ticks_wake:
  assumes "kinv 0 k" and "rt_current_thread k \<noteq> None" and "some_ready k"
    and "\<forall>n. UserTimer n \<notin> set (rt_timer_list k)" and "ThreadTimer t \<in> set (rt_timer_list k)"
    and "int m = max 1 (left k (ThreadTimer t))"
  shows "\<exists>k'. ticks cb m k = Some k' \<and> kinv 0 k' \<and> stat (threads k' t) = RT_THREAD_READY \<and>
     error (threads k' t) = - RT_ETIMEOUT"
proof -
  obtain n where m: "m = Suc n" using assms(6) by (cases m) auto
  have "int n < max 1 (left k (ThreadTimer t))" using assms(6) m by simp
  from ticks_waiting [OF assms(1-5) this, of cb] obtain k1 where k1: "ticks cb n k = Some k1" "kinv 0 k1"
    "rt_current_thread k1 \<noteq> None" "some_ready k1" "\<forall>n. UserTimer n \<notin> set (rt_timer_list k1)"
    "ThreadTimer t \<in> set (rt_timer_list k1)" "left k1 (ThreadTimer t) = left k (ThreadTimer t) - int n" by blast
  have "left k1 (ThreadTimer t) \<le> 1" using k1(7) assms(6) m by simp
  with rt_tick_increase_threads [OF k1(2-5), of cb] k1(6) obtain k' where
    "rt_tick_increase cb k1 = Some k'" "kinv 0 k'" "stat (threads k' t) = RT_THREAD_READY" "error (threads k' t) = - RT_ETIMEOUT"
    by (metis (no_types, lifting))
  with k1(1) m show ?thesis by (simp add: ticks_Suc_end del: ticks.simps(2))
qed

end
