(* ===== verification/Idle.thy ===== *)
theory Idle
  imports Clock
begin

text \<open>
  The idle thread, \<^verbatim>\<open>src/idle.c\<close>: its initialisation, and the work it does, which is to clean up
  the threads that ended.  The \<^verbatim>\<open>cleanup\<close> functions of the application are a parameter.
\<close>

unbundle bit_operations_syntax

definition has_defunct_thread :: "kernel \<Rightarrow> bool" where
  "has_defunct_thread k = (\<not> fam_isempty Defunct (queues k))"

partial_function (option) rt_thread_idle_excute ::
  "(nat \<Rightarrow> tid \<Rightarrow> kernel \<Rightarrow> kernel option) \<Rightarrow> kernel \<Rightarrow> kernel option" where
  "rt_thread_idle_excute clean k =
     (if has_defunct_thread k then
        (if rt_interrupt_get_nest k \<noteq> 0 then None
         else (case q_list k Defunct of
            [] \<Rightarrow> Some k
          | thread # _ \<Rightarrow>
              do { let k = k\<lparr>queues := fam_remove thread (queues k)\<rparr>;
                   k \<leftarrow> (case cleanup (threads k thread) of None \<Rightarrow> Some k | Some f \<Rightarrow> clean f thread k);
                   if rt_object_is_systemobject (OThread thread) (objs k) then Some k
                   else do { os \<leftarrow> rt_object_delete (OThread thread) (objs k);
                             rt_thread_idle_excute clean (k\<lparr>objs := os\<rparr>) } }))
      else Some k)"

abbreviation (input) idle :: tid where "idle \<equiv> 0"

definition rt_thread_idle_init :: "stack_init \<Rightarrow> u32 \<Rightarrow> kernel \<Rightarrow> kernel option" where
  "rt_thread_idle_init hw_stack_init rt_thread_stack k =
     do { k \<leftarrow> rt_thread_init hw_stack_init idle [0x74, 0x69, 0x64, 0x6c, 0x65] 0 0 rt_thread_stack 256
                (of_nat RT_THREAD_PRIORITY_MAX - 1) 32 k;
          (_, k) \<leftarrow> rt_thread_startup idle k;
          Some k }"

section \<open>Cleaning up\<close>

text \<open>
  What the application owes: a cleanup function returns and keeps the invariant, the list of
  ended threads and the object containers.
\<close>

definition cleanup_ok :: "(nat \<Rightarrow> tid \<Rightarrow> kernel \<Rightarrow> kernel option) \<Rightarrow> bool" where
  "cleanup_ok clean \<longleftrightarrow> (\<forall>f t k. kinv 0 k \<longrightarrow> (\<exists>k'. clean f t k = Some k' \<and> kinv 0 k' \<and>
     q_list k' Defunct = q_list k Defunct \<and> objs k' = objs k \<and> rt_interrupt_nest k' = rt_interrupt_nest k))"

lemma defunct_unlink:
  assumes inv: "kinv 0 k" and l: "q_list k Defunct = t # ts"
  shows "kinv 0 (k\<lparr>queues := fam_remove t (queues k)\<rparr>)" "fam_list (fam_remove t (queues k)) Defunct = ts"
proof -
  let ?k = "k\<lparr>queues := fam_remove t (queues k)\<rparr>"
  have wf: "fam_wf (queues k)" by (rule kinv_wf(1) [OF inv])
  have loc: "q_loc k t = Some Defunct" using fam_wf_mem [OF wf, of t Defunct] l by simp
  then have s: "stat (threads k t) = RT_THREAD_CLOSE" and off: "ThreadTimer t \<notin> set (rt_timer_list k)"
    using kinv_thread [OF inv, of t] by (auto simp: thread_ok_def)
  have "kinv_but 0 t ?k" using kinv_butD [OF inv] loc by (intro kinv_but_unlink) auto
  then show "kinv 0 ?k" using s off by (intro closed_kinv [of 0 t]) auto
  show "fam_list (fam_remove t (queues k)) Defunct = ts" using fam_list_remove [OF wf, of t Defunct] l by simp
qed

lemma rt_object_delete_dynamic:
  assumes "obj_inv os" and "\<not> rt_object_is_systemobject ob os"
  shows "\<exists>os'. rt_object_delete ob os = Some os' \<and> obj_inv os' \<and> obj_hdr os' = obj_hdr os \<and>
     fam_loc (rt_object_container os') = (fam_loc (rt_object_container os))(ob := None)"
proof -
  obtain os' where os': "rt_object_delete ob os = Some os'"
    using assms(2) by (auto simp: rt_object_delete_def rt_object_is_systemobject_def)
  then have "obj_hdr os' = obj_hdr os" "fam_loc (rt_object_container os') = (fam_loc (rt_object_container os))(ob := None)"
    by (auto simp: rt_object_delete_def fam_remove_def fun_eq_iff split: option.splits)
  with os' rt_object_delete_inv [OF assms(1) os'] show ?thesis by blast
qed

text \<open>Threads made by \<^verbatim>\<open>rt_thread_create\<close> are all deleted by one call.\<close>

lemma rt_thread_idle_excute_dynamic:
  assumes "cleanup_ok clean" and "kinv 0 k" and "rt_interrupt_nest k = 0"
    and "\<forall>t\<in>set (q_list k Defunct). \<not> rt_object_is_systemobject (OThread t) (objs k)"
  shows "\<exists>k'. rt_thread_idle_excute clean k = Some k' \<and> kinv 0 k' \<and> q_list k' Defunct = [] \<and>
     (\<forall>ob. fam_loc (rt_object_container (objs k')) ob =
        (if ob \<in> OThread ` set (q_list k Defunct) then None else fam_loc (rt_object_container (objs k)) ob))"
  using assms(2-)
proof (induction "q_list k Defunct" arbitrary: k)
  case Nil
  then show ?case
    by (subst rt_thread_idle_excute.simps) (simp add: has_defunct_thread_def fam_isempty_def)
next
  case (Cons t ts)
  note l = Cons.hyps(2) [symmetric]
  let ?k1 = "k\<lparr>queues := fam_remove t (queues k)\<rparr>"
  have inv1: "kinv 0 ?k1" and l1: "q_list ?k1 Defunct = ts"
    using defunct_unlink [OF Cons.prems(1) l] by simp_all
  have "\<exists>k2. (case cleanup (threads ?k1 t) of None \<Rightarrow> Some ?k1 | Some f \<Rightarrow> clean f t ?k1) = Some k2 \<and>
     kinv 0 k2 \<and> q_list k2 Defunct = ts \<and> objs k2 = objs k \<and> rt_interrupt_nest k2 = 0"
    using inv1 l1 assms(1) Cons.prems(2)
    by (cases "cleanup (threads ?k1 t)") (force simp: cleanup_ok_def)+
  then obtain k2 where k2: "(case cleanup (threads ?k1 t) of None \<Rightarrow> Some ?k1 | Some f \<Rightarrow> clean f t ?k1) = Some k2"
    and inv2: "kinv 0 k2" and l2: "q_list k2 Defunct = ts" and fr: "objs k2 = objs k" "rt_interrupt_nest k2 = 0" by blast
  have dyn: "\<not> rt_object_is_systemobject (OThread t) (objs k2)" using Cons.prems(3) l fr by simp
  from rt_object_delete_dynamic [OF kinvD(3) [OF inv2] dyn] obtain os where
    os: "rt_object_delete (OThread t) (objs k2) = Some os" "obj_inv os" "obj_hdr os = obj_hdr (objs k)"
    "fam_loc (rt_object_container os) = (fam_loc (rt_object_container (objs k)))(OThread t := None)" using fr by auto
  let ?k3 = "k2\<lparr>objs := os\<rparr>"
  have "rt_thread_idle_excute clean k = rt_thread_idle_excute clean ?k3"
    using l k2 dyn os(1) Cons.prems(2)
    by (subst rt_thread_idle_excute.simps) (simp add: has_defunct_thread_def fam_isempty_def rt_interrupt_get_nest_def Let_def)
  moreover have "\<forall>u\<in>set (q_list ?k3 Defunct). \<not> rt_object_is_systemobject (OThread u) (objs ?k3)"
    using Cons.prems(3) l l2 os(3) by (simp add: rt_object_is_systemobject_def)
  with Cons.hyps(1) [of ?k3] l2 kinv_objs [OF inv2 os(2)] fr obtain k' where
    "rt_thread_idle_excute clean ?k3 = Some k'" "kinv 0 k'" "q_list k' Defunct = []"
    "\<forall>ob. fam_loc (rt_object_container (objs k')) ob =
        (if ob \<in> OThread ` set ts then None else fam_loc (rt_object_container os) ob)" by auto
  ultimately show ?case using l os(4) by (auto simp: fun_upd_def)
qed

text \<open>A static thread with a cleanup function ends the call after it: the threads behind it stay.\<close>

lemma rt_thread_idle_excute_static:
  assumes ok: "cleanup_ok clean" and inv: "kinv 0 k" and n: "rt_interrupt_nest k = 0"
    and l: "q_list k Defunct = t # ts" and s: "rt_object_is_systemobject (OThread t) (objs k)"
  shows "\<exists>k'. rt_thread_idle_excute clean k = Some k' \<and> kinv 0 k' \<and> q_list k' Defunct = ts"
proof -
  let ?k1 = "k\<lparr>queues := fam_remove t (queues k)\<rparr>"
  have inv1: "kinv 0 ?k1" and l1: "q_list ?k1 Defunct = ts" using defunct_unlink [OF inv l] by simp_all
  have "\<exists>k2. (case cleanup (threads ?k1 t) of None \<Rightarrow> Some ?k1 | Some f \<Rightarrow> clean f t ?k1) = Some k2 \<and>
     kinv 0 k2 \<and> q_list k2 Defunct = ts \<and> objs k2 = objs k"
    using inv1 l1 ok by (cases "cleanup (threads ?k1 t)") (force simp: cleanup_ok_def)+
  then show ?thesis
    using l s n
    by (subst rt_thread_idle_excute.simps) (auto simp: has_defunct_thread_def fam_isempty_def rt_interrupt_get_nest_def Let_def)
qed
end
