(* ===== verification/Boot.thy ===== *)
theory Boot
  imports Idle
begin

text \<open>
  The start of the system on the board \<^verbatim>\<open>bsp/stm32f103ZET6\<close> (\<^verbatim>\<open>applications/startup.c\<close> and
  \<^verbatim>\<open>application.c\<close>, with the Cortex-M3 port's \<^verbatim>\<open>rt_hw_stack_init\<close>): from cleared memory to the first
  context switch, with the idle thread, a static and a dynamic thread.  The invariant holds in
  the state it reaches, which is also where the properties of the scheduler, the threads and the
  clock are tried out.
\<close>

unbundle bit_operations_syntax

text \<open>\<^verbatim>\<open>struct stack_frame\<close> has sixteen registers; the frame goes below the end of the stack, aligned
  down to 8 bytes.\<close>

definition rt_hw_stack_init :: stack_init where
  "rt_hw_stack_init tentry par stk = ((stk + 4) AND NOT 7) - 64"

text \<open>Cleared memory: all counters 0, no thread, no timer; the list heads point to themselves.\<close>

definition kernel0 :: kernel where
  "kernel0 = \<lparr>rt_tick = 0, rt_interrupt_nest = 0, rt_scheduler_lock_nest = 0, rt_current_thread = None,
     rt_current_priority = 0, rt_thread_ready_priority_group = 0, queues = empty_family,
     threads = (\<lambda>_. \<lparr>sp = 0, entry = 0, parameter = 0, stack_addr = 0, stack_size = 0, error = 0,
        stat = RT_THREAD_INIT, current_priority = 0, init_priority = 0, number_mask = 0, event_set = 0,
        event_info = 0, th_init_tick = 0, remaining_tick = 0, cleanup = None, user_data = 0\<rparr>),
     timers = (\<lambda>_. \<lparr>tm_flag = 0, timeout_func = TF_user 0, tm_init_tick = 0, timeout_tick = 0\<rparr>),
     rt_timer_list = [],
     objs = \<lparr>rt_object_container = empty_family, obj_hdr = (\<lambda>_. \<lparr>obj_name = [], obj_type = 0, obj_flag = 0\<rparr>)\<rparr>,
     hw_log = [], rt_errno = 0\<rparr>"

text \<open>The threads of the board: idle is 0, led is 1 and init is 2.\<close>

definition rt_application_init :: "stack_init \<Rightarrow> u32 \<Rightarrow> tid option \<Rightarrow> u32 \<Rightarrow> kernel \<Rightarrow> kernel option" where
  "rt_application_init hw led_stack mem init_stack k =
     do { k \<leftarrow> rt_thread_init hw 1 [0x6c, 0x65, 0x64] 0x08000100 0 led_stack 512 20 5 k;
          (_, k) \<leftarrow> rt_thread_startup 1 k;
          (init_thread, k) \<leftarrow> rt_thread_create hw mem init_stack [0x69, 0x6e, 0x69, 0x74] 0x08000200 0 2048 8 20 k;
          (case init_thread of
             None \<Rightarrow> Some k
           | Some t \<Rightarrow> do { (_, k) \<leftarrow> rt_thread_startup t k; Some k }) }"

definition rtthread_startup ::
  "stack_init \<Rightarrow> u32 \<Rightarrow> u32 \<Rightarrow> tid option \<Rightarrow> u32 \<Rightarrow> kernel \<Rightarrow> kernel option" where
  "rtthread_startup hw rt_thread_stack led_stack mem init_stack k =
     do { let k = rt_system_scheduler_init k;
          let k = rt_system_timer_init k;
          k \<leftarrow> rt_application_init hw led_stack mem init_stack k;
          k \<leftarrow> rt_thread_idle_init hw rt_thread_stack k;
          rt_system_scheduler_start k }"

definition boot :: "kernel option" where
  "boot = rtthread_startup rt_hw_stack_init 0x20000100 0x20000200 (Some 2) 0x20001000 kernel0"

section \<open>The state reached\<close>

lemma kinv_kernel0: "kinv 0 (rt_system_timer_init (rt_system_scheduler_init kernel0))"
proof -
  let ?k = "rt_system_timer_init (rt_system_scheduler_init kernel0)"
  have e: "q_list ?k q = []" "q_loc ?k t = None" "rt_timer_list ?k = []" "stat (threads ?k t) = RT_THREAD_INIT"
    "rt_thread_ready_priority_group ?k = 0" for q t
    by (simp_all add: rt_system_timer_init_def rt_system_scheduler_init_def kernel0_def empty_family_def split: qhead.split)
  have "fam_wf (queues ?k)" by (simp add: fam_wf_def e)
  then have "ready_inv ?k" by (simp add: ready_inv_def table_ok32_def thread_ok_def live_def e)
  moreover have "objs ?k = objs kernel0" by (simp add: rt_system_timer_init_def rt_system_scheduler_init_def)
  then have "obj_inv (objs ?k)" by (simp add: kernel0_def obj_inv_def fam_wf_def empty_family_def)
  ultimately show ?thesis by (simp add: kinv_def queue_ok_def e)
qed

text \<open>A thread object no list, timer or container knows.\<close>

definition unused :: "kernel \<Rightarrow> tid \<Rightarrow> bool" where
  "unused k t \<longleftrightarrow> q_loc k t = None \<and> ThreadTimer t \<notin> set (rt_timer_list k) \<and>
     fam_loc (rt_object_container (objs k)) (OThread t) = None \<and>
     fam_loc (rt_object_container (objs k)) (OTimer (ThreadTimer t)) = None"

definition stack_init_ok :: "stack_init \<Rightarrow> u32 \<Rightarrow> u32 \<Rightarrow> u32 \<Rightarrow> u32 \<Rightarrow> bool" where
  "stack_init_ok hw ent par start sz \<longleftrightarrow> start \<noteq> 0 \<and>
     start < hw ent par (start + ucast (ucast sz :: u16) - 4) \<and>
     hw ent par (start + ucast (ucast sz :: u16) - 4) \<le> start + ucast (ucast sz :: u16)"

text \<open>\<open>brought_up k t p k'\<close>: from \<open>k\<close> to \<open>k'\<close>, thread \<open>t\<close> was set up and started at priority \<open>p\<close>
  and nothing else changed.\<close>

definition brought_up :: "kernel \<Rightarrow> tid \<Rightarrow> u8 \<Rightarrow> kernel \<Rightarrow> bool" where
  "brought_up k t p k' \<longleftrightarrow> kinv 0 k' \<and> rt_current_thread k' = None \<and>
     stat (threads k' t) = RT_THREAD_READY \<and> current_priority (threads k' t) = p \<and>
     (\<forall>u. u \<noteq> t \<longrightarrow> threads k' u = threads k u \<and> (unused k u \<longrightarrow> unused k' u)) \<and>
     set (rt_timer_list k') = set (rt_timer_list k) \<and> rt_tick k' = rt_tick k \<and>
     rt_scheduler_lock_nest k' = rt_scheduler_lock_nest k \<and> rt_interrupt_nest k' = rt_interrupt_nest k"

lemma init_startup:
  assumes inv: "kinv 0 k" and c: "rt_current_thread k = None" and u: "unused k t" and p: "unat p < 32"
    and hw: "stack_init_ok hw ent par start sz"
  shows "\<exists>k1 k2. rt_thread_init hw t name ent par start sz p tick k = Some k1 \<and>
     rt_thread_startup t k1 = Some (RT_EOK, k2) \<and> brought_up k t p k2"
proof -
  from rt_thread_init_spec [OF inv, of t p start hw ent par sz name tick] u p hw obtain k1 where
    k1: "rt_thread_init hw t name ent par start sz p tick k = Some k1" "kinv 0 k1" "thread_inited k1 t"
    "init_priority (threads k1 t) = p" "\<forall>u. u \<noteq> t \<longrightarrow> threads k1 u = threads k u" "queues k1 = queues k"
    "rt_timer_list k1 = rt_timer_list k" "same_ctx k k1"
    "\<forall>ob. ob \<noteq> OTimer (ThreadTimer t) \<and> ob \<noteq> OThread t \<longrightarrow>
        fam_loc (rt_object_container (objs k1)) ob = fam_loc (rt_object_container (objs k)) ob"
    by (auto simp: unused_def stack_init_ok_def)
  from rt_thread_startup_spec [OF k1(2,3)] obtain k2 where
    "rt_thread_startup t k1 = Some (RT_EOK, k2)" "kinv 0 k2" "stat (threads k2 t) = RT_THREAD_READY"
    "current_priority (threads k2 t) = p" "\<forall>u. u \<noteq> t \<longrightarrow> threads k2 u = threads k1 u \<and> q_loc k2 u = q_loc k1 u"
    "set (rt_timer_list k2) = set (rt_timer_list k1)" "objs k2 = objs k1"
    "rt_tick k2 = rt_tick k1" "rt_scheduler_lock_nest k2 = rt_scheduler_lock_nest k1"
    "rt_interrupt_nest k2 = rt_interrupt_nest k1"
    "rt_current_thread k1 = None \<longrightarrow> rt_current_thread k2 = None" using k1(4) by auto
  with k1 c show ?thesis by (auto simp: brought_up_def unused_def same_ctx_def)
qed

lemma create_startup:
  assumes inv: "kinv 0 k" and c: "rt_current_thread k = None" and u: "unused k t" and p: "unat p < 32"
    and hw: "stack_init_ok hw ent par start sz"
  shows "\<exists>k1 k2. rt_thread_create hw (Some t) start name ent par sz p tick k = Some (Some t, k1) \<and>
     rt_thread_startup t k1 = Some (RT_EOK, k2) \<and> brought_up k t p k2"
proof -
  from rt_thread_create_spec [OF inv, of t p start hw ent par sz name tick] u p hw obtain k1 where
    k1: "rt_thread_create hw (Some t) start name ent par sz p tick k = Some (Some t, k1)" "kinv 0 k1" "thread_inited k1 t"
    "init_priority (threads k1 t) = p" "\<forall>u. u \<noteq> t \<longrightarrow> threads k1 u = threads k u" "queues k1 = queues k"
    "rt_timer_list k1 = rt_timer_list k" "same_ctx k k1"
    "\<forall>ob. ob \<noteq> OTimer (ThreadTimer t) \<and> ob \<noteq> OThread t \<longrightarrow>
        fam_loc (rt_object_container (objs k1)) ob = fam_loc (rt_object_container (objs k)) ob"
    by (auto simp: unused_def stack_init_ok_def)
  from rt_thread_startup_spec [OF k1(2,3)] obtain k2 where
    "rt_thread_startup t k1 = Some (RT_EOK, k2)" "kinv 0 k2" "stat (threads k2 t) = RT_THREAD_READY"
    "current_priority (threads k2 t) = p" "\<forall>u. u \<noteq> t \<longrightarrow> threads k2 u = threads k1 u \<and> q_loc k2 u = q_loc k1 u"
    "set (rt_timer_list k2) = set (rt_timer_list k1)" "objs k2 = objs k1"
    "rt_tick k2 = rt_tick k1" "rt_scheduler_lock_nest k2 = rt_scheduler_lock_nest k1"
    "rt_interrupt_nest k2 = rt_interrupt_nest k1"
    "rt_current_thread k1 = None \<longrightarrow> rt_current_thread k2 = None" using k1(4) by auto
  with k1 c show ?thesis by (auto simp: brought_up_def unused_def same_ctx_def)
qed

lemma boot_application:
  assumes inv: "kinv 0 k" and c: "rt_current_thread k = None"
    and u: "unused k 0" "unused k 1" "unused k 2"
    and hw: "stack_init_ok hw 0x08000100 0 led_stack 512" "stack_init_ok hw 0x08000200 0 init_stack 2048"
    and idle: "stack_init_ok hw 0 0 idle_stack 256"
  shows "\<exists>k1 k2. rt_application_init hw led_stack (Some 2) init_stack k = Some k1 \<and>
     rt_thread_idle_init hw idle_stack k1 = Some k2 \<and> kinv 0 k2 \<and> rt_current_thread k2 = None \<and>
     (\<forall>t. stat (threads k2 t) = (if t \<in> {0, 1, 2} then RT_THREAD_READY else stat (threads k t))) \<and>
     prio k2 0 = 31 \<and> prio k2 1 = 20 \<and> prio k2 2 = 8 \<and> set (rt_timer_list k2) = set (rt_timer_list k) \<and>
     rt_tick k2 = rt_tick k \<and> rt_scheduler_lock_nest k2 = rt_scheduler_lock_nest k \<and>
     rt_interrupt_nest k2 = rt_interrupt_nest k"
proof -
  from init_startup [OF inv c u(2) _ hw(1), of 20 "[0x6c, 0x65, 0x64]" 5] obtain a b where
    ab: "rt_thread_init hw 1 [0x6c, 0x65, 0x64] 0x08000100 0 led_stack 512 20 5 k = Some a"
    "rt_thread_startup 1 a = Some (RT_EOK, b)" and bu1: "brought_up k 1 20 b" by auto
  from create_startup [of b 2 8 hw _ 0 init_stack 2048 "[0x69, 0x6e, 0x69, 0x74]" 20, OF _ _ _ _ hw(2)] bu1 u obtain c d where
    cd: "rt_thread_create hw (Some 2) init_stack [0x69, 0x6e, 0x69, 0x74] 0x08000200 0 2048 8 20 b = Some (Some 2, c)"
    "rt_thread_startup 2 c = Some (RT_EOK, d)" and bu2: "brought_up b 2 8 d" by (auto simp: brought_up_def)
  from init_startup [of d 0 31 hw 0 0 idle_stack 256 "[0x74, 0x69, 0x64, 0x6c, 0x65]" 32, OF _ _ _ _ idle] bu1 bu2 u obtain e f where
    ef: "rt_thread_init hw 0 [0x74, 0x69, 0x64, 0x6c, 0x65] 0 0 idle_stack 256 31 32 d = Some e"
    "rt_thread_startup 0 e = Some (RT_EOK, f)" and bu3: "brought_up d 0 31 f" by (auto simp: brought_up_def)
  have "rt_application_init hw led_stack (Some 2) init_stack k = Some d"
    using ab cd by (simp add: rt_application_init_def)
  moreover have "rt_thread_idle_init hw idle_stack d = Some f"
    using ef by (simp add: rt_thread_idle_init_def)
  ultimately show ?thesis using bu1 bu2 bu3 by (auto simp: brought_up_def)
qed


lemma rtthread_startup_reaches:
  assumes hw: "stack_init_ok hw 0x08000100 0 led_stack 512" "stack_init_ok hw 0x08000200 0 init_stack 2048"
    "stack_init_ok hw 0 0 idle_stack 256"
  shows "\<exists>k. rtthread_startup hw idle_stack led_stack (Some 2) init_stack kernel0 = Some k \<and> kinv 0 k \<and>
     rt_current_thread k = Some 2 \<and> hw_log k = SwitchTo 2 # tl (hw_log k) \<and>
     (\<forall>t. stat (threads k t) = (if t \<in> {0, 1, 2} then RT_THREAD_READY else RT_THREAD_INIT)) \<and>
     prio k 0 = 31 \<and> prio k 1 = 20 \<and> prio k 2 = 8 \<and> rt_timer_list k = [] \<and> rt_tick k = 0 \<and>
     rt_scheduler_lock_nest k = 0 \<and> rt_interrupt_nest k = 0"
proof -
  let ?k = "rt_system_timer_init (rt_system_scheduler_init kernel0)"
  have e: "rt_timer_list ?k = []" "stat (threads ?k t) = RT_THREAD_INIT" "unused ?k t" "rt_current_thread ?k = None"
    "rt_tick ?k = 0" "rt_scheduler_lock_nest ?k = 0" "rt_interrupt_nest ?k = 0" for t
    by (simp_all add: rt_system_timer_init_def rt_system_scheduler_init_def kernel0_def empty_family_def unused_def)
  from boot_application [OF kinv_kernel0 e(4) e(3) e(3) e(3) hw] obtain k1 k2 where
    k1: "rt_application_init hw led_stack (Some 2) init_stack ?k = Some k1" "rt_thread_idle_init hw idle_stack k1 = Some k2"
    and inv: "kinv 0 k2"
    and st: "\<And>t. stat (threads k2 t) = (if t \<in> {0, 1, 2} then RT_THREAD_READY else RT_THREAD_INIT)"
    and pr: "prio k2 0 = 31" "prio k2 1 = 20" "prio k2 2 = 8"
    and fr: "rt_timer_list k2 = []" "rt_tick k2 = 0" "rt_scheduler_lock_nest k2 = 0" "rt_interrupt_nest k2 = 0"
    unfolding e by auto
  have rdy: "stat (threads k2 2) = RT_THREAD_READY" using st by simp
  from highest_ready_ex [OF kinvD(1) [OF inv] rdy] obtain p t where hr: "highest_ready k2 = Some (p, t)" by blast
  have t: "t = 2"
    using highest_readyD(4,5) [OF kinvD(1) [OF inv] hr] highest_ready_least [OF kinvD(1) [OF inv] hr rdy] st pr
    by (auto split: if_splits)
  let ?k3 = "k2\<lparr>rt_current_thread := Some 2, hw_log := SwitchTo 2 # hw_log k2\<rparr>"
  have "kinv 0 ?k3" using inv same_data_kinv [of k2 ?k3 0] by (simp add: same_data_def)
  moreover have "rtthread_startup hw idle_stack led_stack (Some 2) init_stack kernel0 = Some ?k3"
    using k1 hr t by (simp add: rtthread_startup_def rt_system_scheduler_start_def Let_def)
  ultimately show ?thesis using st pr fr by simp
qed

lemma boot_stacks:
  "stack_init_ok rt_hw_stack_init 0x08000100 0 0x20000200 512"
  "stack_init_ok rt_hw_stack_init 0x08000200 0 0x20001000 2048"
  "stack_init_ok rt_hw_stack_init 0 0 0x20000100 256"
  by (simp_all add: stack_init_ok_def rt_hw_stack_init_def)

definition boot_kernel :: kernel where
  "boot_kernel = the boot"

lemma boot_kernel:
  "boot = Some boot_kernel" "kinv 0 boot_kernel" "rt_current_thread boot_kernel = Some 2"
  "stat (threads boot_kernel t) = (if t \<in> {0, 1, 2} then RT_THREAD_READY else RT_THREAD_INIT)"
  "prio boot_kernel 0 = 31" "prio boot_kernel 1 = 20" "prio boot_kernel 2 = 8"
  "rt_timer_list boot_kernel = []" "rt_tick boot_kernel = 0"
  "rt_scheduler_lock_nest boot_kernel = 0" "rt_interrupt_nest boot_kernel = 0"
  using rtthread_startup_reaches [OF boot_stacks] unfolding boot_kernel_def boot_def by auto

end
