(* ===== verification/KernelProps.thy ===== *)
theory KernelProps
  imports Boot
begin

text \<open>
  What the scheduler, the threads, the timers and the clock guarantee, as theorems about the
  operations of theories Scheduler to Idle, each tried out on the state the boot sequence reaches.
\<close>

unbundle bit_operations_syntax

section \<open>Boot and schedule\<close>

text \<open>
  C2: For every port whose \<^verbatim>\<open>rt_hw_stack_init\<close> returns a stack pointer inside the stack it is
  given, the start-up sequence of the board runs to the first context switch without a failed
  assertion: it switches to the init thread, the ready thread of the highest priority, with the
  led and idle threads ready behind it, and the kernel's invariant holds.
\<close>

theorem rtthread_startup_boots:
  assumes "stack_init_ok hw 0x08000100 0 led_stack 512" and "stack_init_ok hw 0x08000200 0 init_stack 2048"
    and "stack_init_ok hw 0 0 idle_stack 256"
  shows "\<exists>k. rtthread_startup hw idle_stack led_stack (Some 2) init_stack kernel0 = Some k \<and> kinv 0 k \<and>
     rt_current_thread k = Some 2 \<and> hd (hw_log k) = SwitchTo 2 \<and>
     (\<forall>t. stat (threads k t) = (if t \<in> {0, 1, 2} then RT_THREAD_READY else RT_THREAD_INIT)) \<and>
     prio k 0 = 31 \<and> prio k 1 = 20 \<and> prio k 2 = 8"
  using rtthread_startup_reaches [OF assms] by (metis list.sel(1))

theorem rtthread_startup_boots_witness:
  "\<exists>k. rtthread_startup rt_hw_stack_init 0x20000100 0x20000200 (Some 2) 0x20001000 kernel0 = Some k \<and>
     kinv 0 k \<and> rt_current_thread k = Some 2"
  using rtthread_startup_boots [OF boot_stacks] by auto

text \<open>
  C3: When the scheduler is not locked, \<^verbatim>\<open>rt_schedule\<close> makes current the thread at the front of
  the ready list of the numerically lowest priority any ready thread has: no ready thread
  has a higher priority, and the tables, threads and timers are unchanged.
\<close>

theorem rt_schedule_picks_highest:
  assumes "ready_inv k" and "stat (threads k u) = RT_THREAD_READY" and "rt_current_thread k = Some c"
    and "rt_scheduler_lock_nest k = 0"
  shows "\<exists>k' t. rt_schedule k = Some k' \<and> rt_current_thread k' = Some t \<and>
     stat (threads k' t) = RT_THREAD_READY \<and> t = hd (ready k' (prio k' t)) \<and>
     (\<forall>v. stat (threads k' v) = RT_THREAD_READY \<longrightarrow> prio k' t \<le> prio k' v) \<and>
     queues k' = queues k \<and> threads k' = threads k \<and> timers k' = timers k"
proof -
  from rt_schedule_total [OF assms(1-3)] obtain k' where k': "rt_schedule k = Some k'" by blast
  from rt_schedule_current [OF k' assms(4)] obtain p t where hr: "highest_ready k = Some (p, t)"
    and c: "rt_current_thread k' = Some t" by blast
  then show ?thesis
    using k' rt_schedule_frame [OF k'] highest_readyD [OF assms(1) hr] highest_ready_least [OF assms(1) hr]
    by auto
qed

theorem rt_schedule_picks_highest_witness:
  "\<exists>k' t. rt_schedule boot_kernel = Some k' \<and> rt_current_thread k' = Some t \<and> t = hd (ready k' (prio k' t))"
  using rt_schedule_picks_highest [of boot_kernel 2 2] boot_kernel kinvD(1) by auto

lemma sint_add_nat:
  fixes w :: u16
  assumes "0 \<le> sint w" and "sint w + int m < 2 ^ 15"
  shows "sint (w + of_nat m) = sint w + int m"
proof -
  have "w + of_nat m = word_of_int (sint w + int m)" by simp
  then have "sint (w + of_nat m) = signed_take_bit 15 (sint w + int m)" by (simp only: sint_sbintrunc') simp
  also have "\<dots> = sint w + int m" using assms by (intro signed_take_bit_int_eq_self) auto
  finally show ?thesis .
qed

lemma sint_0_word: "sint w = 0 \<longleftrightarrow> w = (0 :: u16)"
  by (metis of_int_sint of_int_0 signed_0 scast_id)

lemma enter_pow: "(rt_enter_critical ^^ n) k = k\<lparr>rt_scheduler_lock_nest := rt_scheduler_lock_nest k + of_nat n\<rparr>"
  by (induction n) (simp_all add: rt_enter_critical_def ac_simps)

text \<open>
  The scheduler lock: between \<^verbatim>\<open>rt_enter_critical\<close> and the matching \<^verbatim>\<open>rt_exit_critical\<close>, at any
  nesting depth a signed 16-bit counter holds, \<^verbatim>\<open>rt_schedule\<close> does nothing, and leaving the
  outermost section schedules.
\<close>

theorem rt_critical_sections:
  assumes "sint (rt_scheduler_lock_nest k) + int (Suc n) < 2 ^ 15" and "0 \<le> sint (rt_scheduler_lock_nest k)"
  shows "sint (rt_critical_level ((rt_enter_critical ^^ Suc n) k)) = sint (rt_scheduler_lock_nest k) + int (Suc n) \<and>
    rt_schedule ((rt_enter_critical ^^ Suc n) k) = Some ((rt_enter_critical ^^ Suc n) k) \<and>
    rt_exit_critical ((rt_enter_critical ^^ Suc n) k) =
      (if n = 0 \<and> rt_scheduler_lock_nest k = 0 then rt_schedule k else Some ((rt_enter_critical ^^ n) k))"
proof -
  let ?l = "rt_scheduler_lock_nest k"
  have nest: "sint (?l + of_nat m) = sint ?l + int m" if "m \<le> Suc n" for m
    using that assms by (intro sint_add_nat) auto
  have "sint (?l + of_nat (Suc n)) \<noteq> 0" using nest [of "Suc n"] assms(2) by linarith
  then have pos: "?l + of_nat (Suc n) \<noteq> 0" using sint_0_word by metis
  have "rt_exit_critical ((rt_enter_critical ^^ Suc n) k) =
      (if sint (?l + of_nat n) \<le> 0 then rt_schedule (k\<lparr>rt_scheduler_lock_nest := 0\<rparr>)
       else Some (k\<lparr>rt_scheduler_lock_nest := ?l + of_nat n\<rparr>))"
    unfolding enter_pow by (simp add: rt_exit_critical_def Let_def)
  moreover have "sint (?l + of_nat n) \<le> 0 \<longleftrightarrow> n = 0 \<and> ?l = 0"
    using nest [of n] assms(2) sint_0_word [of ?l] by auto
  moreover have "rt_schedule (k\<lparr>rt_scheduler_lock_nest := ?l + of_nat (Suc n)\<rparr>) =
      Some (k\<lparr>rt_scheduler_lock_nest := ?l + of_nat (Suc n)\<rparr>)"
    using pos by (simp add: rt_schedule_def)
  moreover have "rt_schedule (k\<lparr>rt_scheduler_lock_nest := 0\<rparr>) = rt_schedule k" if "?l = 0"
    using that by (cases k) simp
  ultimately show ?thesis
    using nest [of "Suc n"] unfolding enter_pow by (simp add: rt_critical_level_def)
qed

theorem rt_critical_sections_witness:
  "rt_exit_critical (rt_enter_critical (rt_enter_critical boot_kernel)) = Some (rt_enter_critical boot_kernel)"
  using rt_critical_sections [of boot_kernel 1] boot_kernel by simp

section \<open>Threads\<close>

text \<open>
  Suspending a ready thread takes it off its ready list and resuming it puts it at the back
  of the list of its priority: the round trip succeeds, keeps the invariant and every thread's
  record, and changes no other list.
\<close>

theorem rt_thread_suspend_resume:
  assumes inv: "kinv lo k" and r: "stat (threads k t) = RT_THREAD_READY"
  shows "\<exists>k1 k2. rt_thread_suspend t k = Some (RT_EOK, k1) \<and> q_loc k1 t = None \<and> kinv lo k1 \<and>
     rt_thread_resume t k1 = Some (RT_EOK, k2) \<and> kinv lo k2 \<and> threads k2 = threads k \<and>
     (\<forall>q. q_list k2 q = (if q = Ready (prio k t) then remove1 t (q_list k q) @ [t] else q_list k q))"
proof -
  from rt_thread_suspend_spec [OF inv r] obtain k1 where k1: "rt_thread_suspend t k = Some (RT_EOK, k1)" "kinv lo k1"
    "threads k1 = (threads k)(t := (threads k t)\<lparr>stat := RT_THREAD_SUSPEND\<rparr>)" "q_loc k1 t = None"
    "\<forall>q. q_list k1 q = remove1 t (q_list k q)" by blast
  from rt_thread_resume_spec [OF k1(2), of t] k1(3) obtain k2 where
    k2: "rt_thread_resume t k1 = Some (RT_EOK, k2)" "kinv lo k2"
      "threads k2 = (threads k)(t := (threads k t)\<lparr>stat := RT_THREAD_READY\<rparr>)"
      "\<forall>q. q_list k2 q = (if q = Ready (prio k t) then q_list k1 q @ [t] else remove1 t (q_list k1 q))" by auto
  have wf: "fam_wf (queues k)" by (rule kinv_wf(1) [OF inv])
  have loc: "q_loc k t = Some (Ready (prio k t))" using ready_inv_loc [OF kinvD(1) [OF inv]] r by simp
  have "remove1 t (remove1 t (q_list k q)) = q_list k q" if "q \<noteq> Ready (prio k t)" for q
    using that loc fam_wf_mem [OF wf, of t q] by (simp add: remove1_idem)
  moreover have "threads k2 = threads k" using k2(3) r by (auto simp: fun_eq_iff)
  ultimately show ?thesis using k1 k2 by simp
qed

theorem rt_thread_suspend_resume_witness:
  "\<exists>k1 k2. rt_thread_suspend 1 boot_kernel = Some (RT_EOK, k1) \<and> rt_thread_resume 1 k1 = Some (RT_EOK, k2) \<and>
     threads k2 = threads boot_kernel"
  using rt_thread_suspend_resume [of 0 boot_kernel 1] boot_kernel by auto

text \<open>
  \<^verbatim>\<open>rt_thread_yield\<close> is round robin: with the scheduler unlocked, when the running thread is at
  the front of the highest non-empty ready list and another thread is behind it, that thread runs
  next and the yielding one goes to the back.
\<close>

theorem rt_thread_yield_round_robin:
  assumes inv: "kinv lo k" and c: "rt_current_thread k = Some t" and lock: "rt_scheduler_lock_nest k = 0"
    and l: "highest_ready k = Some (p, t)" "ready k p = t # u # ts"
  shows "\<exists>k'. rt_thread_yield k = Some (RT_EOK, k') \<and> kinv lo k' \<and> ready k' p = u # ts @ [t] \<and>
     rt_current_thread k' = Some u \<and> threads k' = threads k"
proof -
  note hr = highest_readyD [OF kinvD(1) [OF inv] l(1)]
  have loc: "q_loc k t = Some (Ready p)" using ready_inv_loc [OF kinvD(1) [OF inv]] hr(4,5) by simp
  then have nb: "fam_has_neighbours t (queues k)" using l(2) by (simp add: fam_has_neighbours_def)
  have "some_ready k" using hr(4) by (auto simp: some_ready_def)
  from rt_thread_yield_spec [OF inv c this] nb hr(4,5) lock obtain k' where
    k': "rt_thread_yield k = Some (RT_EOK, k')" and inv': "kinv lo k'" and th: "threads k' = threads k"
    and rd: "ready k' p = remove1 t (ready k p) @ [t]"
    and cur: "\<exists>q v. highest_ready k' = Some (q, v) \<and> rt_current_thread k' = Some v" by blast
  from cur obtain q v where v: "highest_ready k' = Some (q, v)" "rt_current_thread k' = Some v" by blast
  note hr' = highest_readyD [OF kinvD(1) [OF inv'] v(1)]
  have "q \<le> prio k' t" using highest_ready_least [OF kinvD(1) [OF inv'] v(1), of t] hr(4) th by simp
  moreover have "p \<le> prio k v" using highest_ready_least [OF kinvD(1) [OF inv] l(1), of v] hr'(4) th by simp
  ultimately have "q = p" using hr(5) hr'(5) th by simp
  then have "v = u" using hr'(3) rd l(2) by simp
  then show ?thesis using k' inv' th rd l(2) v by simp
qed

lemma boot_kernel1: "prio boot_kernel (Suc 0) = 20"
  using boot_kernel(6) by simp

lemma ready_singleton:
  assumes inv: "kinv lo k" and u: "\<And>t. stat (threads k t) = RT_THREAD_READY \<and> prio k t = p \<longleftrightarrow> t = u"
  shows "ready k p = [u]"
proof -
  have "t \<in> set (ready k p) \<longleftrightarrow> t = u" for t
    using ready_inv_mem [OF kinvD(1) [OF inv], of t p] u [of t] by metis
  moreover have "distinct (ready k p)" using fam_wf_distinct [OF kinv_wf(1) [OF inv]] .
  ultimately show ?thesis
    by (cases "ready k p"; cases "tl (ready k p)") (auto; metis)+
qed


theorem rt_thread_yield_round_robin_witness:
  "\<exists>k k'. rt_thread_control 1 (RT_THREAD_CTRL_CHANGE_PRIORITY 8) boot_kernel = Some (RT_EOK, k) \<and>
     rt_thread_yield k = Some (RT_EOK, k') \<and> rt_current_thread k' = Some 1"
proof -
  have "live boot_kernel 1" by (simp add: live_def boot_kernel)
  from change_priority_spec [OF boot_kernel(2) this, of 8] obtain k where
    k: "rt_thread_control 1 (RT_THREAD_CTRL_CHANGE_PRIORITY 8) boot_kernel = Some (RT_EOK, k)" and inv: "kinv 0 k"
    and th: "threads k = (threads boot_kernel)(1 := (threads boot_kernel 1)\<lparr>current_priority := 8, number_mask := push_bit 8 1\<rparr>)"
    and sc: "same_ctx boot_kernel k" and rd: "ready k 8 = remove1 1 (ready boot_kernel 8) @ [1]"
    by (auto simp: boot_kernel)
  have "ready boot_kernel 8 = [2]"
    by (rule ready_singleton [OF boot_kernel(2)]) (auto simp: boot_kernel boot_kernel1 split: if_splits)
  then have r8: "ready k 8 = [2, 1]" using rd by simp
  have "stat (threads k 2) = RT_THREAD_READY" "prio k 2 = 8" using th by (simp_all add: boot_kernel)
  moreover from this obtain p t where hr: "highest_ready k = Some (p, t)" using highest_ready_ex [OF kinvD(1) [OF inv]] by blast
  note h = highest_readyD [OF kinvD(1) [OF inv] hr]
  have "p = 8" using highest_ready_least [OF kinvD(1) [OF inv] hr, of 2] h(4,5) th
    by (auto simp: boot_kernel split: if_splits)
  then have "highest_ready k = Some (8, 2)" using hr h(3) r8 by simp
  from rt_thread_yield_round_robin [OF inv _ _ this r8] sc k show ?thesis
    by (auto simp: same_ctx_def boot_kernel)
qed

text \<open>
  \<^verbatim>\<open>rt_thread_control\<close> with \<^verbatim>\<open>RT_THREAD_CTRL_CHANGE_PRIORITY\<close> and a priority below 32 sets the
  priority and the mask of a ready or suspended thread, moves a ready thread to the back of the
  new list and keeps the invariant.
\<close>

theorem rt_thread_control_change_priority:
  assumes "kinv lo k" and "live k t" and "unat p < 32"
  shows "\<exists>k'. rt_thread_control t (RT_THREAD_CTRL_CHANGE_PRIORITY p) k = Some (RT_EOK, k') \<and> kinv lo k' \<and>
     threads k' = (threads k)(t := (threads k t)\<lparr>current_priority := p, number_mask := push_bit (unat p) 1\<rparr>) \<and>
     (stat (threads k t) = RT_THREAD_READY \<longrightarrow> last (ready k' (unat p)) = t \<and> bit (rt_thread_ready_priority_group k') (unat p))"
proof -
  from change_priority_spec [OF assms] obtain k' where k': "rt_thread_control t (RT_THREAD_CTRL_CHANGE_PRIORITY p) k = Some (RT_EOK, k')"
    "kinv lo k'" "threads k' = (threads k)(t := (threads k t)\<lparr>current_priority := p, number_mask := push_bit (unat p) 1\<rparr>)"
    "stat (threads k t) = RT_THREAD_READY \<longrightarrow> ready k' (unat p) = remove1 t (ready k (unat p)) @ [t]" by blast
  moreover have "bit (rt_thread_ready_priority_group k') (unat p)" if "stat (threads k t) = RT_THREAD_READY"
    using ready_inv_bit [OF kinvD(1) [OF k'(2)]] k'(4) that assms(3) by simp
  ultimately show ?thesis by auto
qed

theorem rt_thread_control_change_priority_witness:
  "\<exists>k'. rt_thread_control 1 (RT_THREAD_CTRL_CHANGE_PRIORITY 8) boot_kernel = Some (RT_EOK, k') \<and> last (ready k' 8) = 1"
proof -
  have "live boot_kernel 1" by (simp add: live_def boot_kernel)
  from rt_thread_control_change_priority [OF boot_kernel(2) this, of 8] show ?thesis by (auto simp: boot_kernel)
qed

text \<open>
  C4: A thread that sleeps for \<open>tick\<close> ticks is suspended at once and stays so during the next
  \<open>tick - 1\<close> clock interrupts; the interrupt after them makes it ready, and the call returns
  \<^verbatim>\<open>RT_EOK\<close> with the thread's error cleared.  A sleep of 0 ticks lasts until the next interrupt.
\<close>

theorem rt_thread_sleep_wakes:
  assumes inv: "kinv 0 k" and c: "rt_current_thread k = Some t" and r: "stat (threads k t) = RT_THREAD_READY"
    and other: "stat (threads k u) = RT_THREAD_READY" "u \<noteq> t" and w: "tick < RT_TICK_HALF"
    and nu: "\<forall>n. UserTimer n \<notin> set (rt_timer_list k)"
  shows "\<exists>k1. rt_thread_sleep tick k = Some k1 \<and>
     (\<forall>m. m < max 1 (unat tick) \<longrightarrow> (\<exists>k'. ticks cb m k1 = Some k' \<and> stat (threads k' t) = RT_THREAD_SUSPEND)) \<and>
     (\<exists>k'. ticks cb (max 1 (unat tick)) k1 = Some k' \<and> stat (threads k' t) = RT_THREAD_READY \<and>
        fst (rt_thread_sleep_wake t k') = RT_EOK \<and> error (threads (snd (rt_thread_sleep_wake t k')) t) = RT_EOK)"
proof -
  from rt_thread_sleep_spec [OF inv c r other w] obtain k1 where k1: "rt_thread_sleep tick k = Some k1" "kinv 0 k1"
    "threads k1 = (threads k)(t := (threads k t)\<lparr>stat := RT_THREAD_SUSPEND\<rparr>)"
    "set (rt_timer_list k1) = insert (ThreadTimer t) (set (rt_timer_list k))"
    "timeout_tick (timers k1 (ThreadTimer t)) = rt_tick k + tick" "rt_tick k1 = rt_tick k" "rt_current_thread k1 \<noteq> None"
    by auto
  have l: "left k1 (ThreadTimer t) = int (unat tick)"
    using ticks_left_start(1) [OF w] k1(5,6) by (simp add: left_def)
  have sr: "some_ready k1" using k1(3) other by (auto simp: some_ready_def)
  have nu1: "\<forall>n. UserTimer n \<notin> set (rt_timer_list k1)" using nu k1(4) by simp
  have mem: "ThreadTimer t \<in> set (rt_timer_list k1)" using k1(4) by simp
  note pre = k1(2,7) sr nu1 mem
  have "\<exists>k'. ticks cb m k1 = Some k' \<and> stat (threads k' t) = RT_THREAD_SUSPEND" if "m < max 1 (unat tick)" for m
  proof -
    have "int m < max 1 (left k1 (ThreadTimer t))" using that unfolding l by linarith
    from ticks_waiting [OF pre this, of cb] show ?thesis by blast
  qed
  moreover have "int (max 1 (unat tick)) = max 1 (left k1 (ThreadTimer t))" unfolding l by linarith
  from ticks_wake [OF pre this, of cb] obtain k' where
    "ticks cb (max 1 (unat tick)) k1 = Some k'" "stat (threads k' t) = RT_THREAD_READY" "error (threads k' t) = - RT_ETIMEOUT"
    by blast
  ultimately show ?thesis using k1(1) by (auto simp: rt_thread_sleep_wake_def)
qed

theorem rt_thread_sleep_wakes_witness:
  "\<exists>k1 k'. rt_thread_sleep 3 boot_kernel = Some k1 \<and> ticks (\<lambda>_ k. Some k) 3 k1 = Some k' \<and>
     stat (threads k' 2) = RT_THREAD_READY"
  using rt_thread_sleep_wakes [of boot_kernel 2 0 3 "\<lambda>_ k. Some k"] by (auto simp: boot_kernel)


section \<open>Timers and the clock\<close>

text \<open>
  \<^verbatim>\<open>rt_timer_start\<close> on a timer of less than half the tick range puts it behind exactly the
  queued timers that fire no later, whatever the value of the wrapping tick counter, and the
  queue stays in the order of the ticks left.
\<close>

theorem rt_timer_start_in_order:
  assumes ok: "queue_ok lo k" and w: "tm_init_tick (timers k i) < RT_TICK_HALF" and lo: "lo \<le> 0"
  shows "\<exists>k'. rt_timer_start i k = Some k' \<and> queue_ok lo k' \<and> activated k' i \<and>
     left k' i = uint (tm_init_tick (timers k i)) \<and>
     rt_timer_list k' =
       takeWhile (\<lambda>j. left k j \<le> uint (tm_init_tick (timers k i))) (remove1 i (rt_timer_list k)) @ i #
       dropWhile (\<lambda>j. left k j \<le> uint (tm_init_tick (timers k i))) (remove1 i (rt_timer_list k))"
proof -
  let ?w = "tm_init_tick (timers k i)"
  let ?r = "remove1 i (rt_timer_list k)"
  let ?tt = "\<lambda>j. if j = i then rt_tick k + ?w else timeout_tick (timers k j)"
  from rt_timer_start_queue_ok [OF ok w lo] obtain k' where k': "rt_timer_start i k = Some k'" "queue_ok lo k'" by blast
  note eq = k'(1) [unfolded rt_timer_start_eq [OF w], simplified, symmetric]
  have li: "ticks_left (rt_tick k) (rt_tick k + ?w) = uint ?w" by (rule ticks_left_start(1) [OF w])
  have nin: "j \<noteq> i" if "j \<in> set ?r" for j using that queue_okD(1) [OF ok] by auto
  have win: "\<forall>j\<in>insert i (set ?r). in_window (rt_tick k) (?tt j)"
    using queue_okD(4) [OF ok] ticks_left_start(2) [OF w] set_remove1_subset [of i "rt_timer_list k"] by auto
  have ge0: "0 \<le> ticks_left (rt_tick k) (?tt i)" by (simp add: li)
  have "rt_timer_list k' = timer_insert ?tt i ?r" by (simp add: eq)
  also have "\<dots> = takeWhile (\<lambda>j. ticks_left (rt_tick k) (?tt j) \<le> ticks_left (rt_tick k) (?tt i)) ?r @ i #
      dropWhile (\<lambda>j. ticks_left (rt_tick k) (?tt j) \<le> ticks_left (rt_tick k) (?tt i)) ?r"
    by (rule timer_insert_eq [OF win ge0])
  also have "\<dots> = takeWhile (\<lambda>j. left k j \<le> uint ?w) ?r @ i # dropWhile (\<lambda>j. left k j \<le> uint ?w) ?r"
    using nin by (auto simp: left_def li cong: takeWhile_cong dropWhile_cong)
  finally show ?thesis using k' li by (simp add: eq left_def activated_def)
qed

theorem rt_timer_start_in_order_witness:
  "\<exists>k1 k2. rt_timer_start (UserTimer 1) (upd_timer (UserTimer 1) (\<lambda>tm. tm\<lparr>tm_init_tick := 9\<rparr>) boot_kernel) = Some k1 \<and>
     rt_timer_start (UserTimer 0) (upd_timer (UserTimer 0) (\<lambda>tm. tm\<lparr>tm_init_tick := 5\<rparr>) k1) = Some k2 \<and>
     rt_timer_list k2 = [UserTimer 0, UserTimer 1]"
proof -
  let ?k = "upd_timer (UserTimer 1) (\<lambda>tm. tm\<lparr>tm_init_tick := 9\<rparr>) boot_kernel"
  have "queue_ok 0 ?k" by (simp add: queue_ok_def boot_kernel)
  from rt_timer_start_in_order [OF this, of "UserTimer 1"] obtain k1 where
    k1: "rt_timer_start (UserTimer 1) ?k = Some k1" "queue_ok 0 k1" "left k1 (UserTimer 1) = 9" "rt_timer_list k1 = [UserTimer 1]"
    by (auto simp: boot_kernel)
  let ?k1 = "upd_timer (UserTimer 0) (\<lambda>tm. tm\<lparr>tm_init_tick := 5\<rparr>) k1"
  have "queue_ok 0 ?k1" using k1(2) queue_ok_cong [of k1 ?k1 0] by simp
  from rt_timer_start_in_order [OF this, of "UserTimer 0"] k1(3,4) obtain k2 where
    "rt_timer_start (UserTimer 0) ?k1 = Some k2" "rt_timer_list k2 = [UserTimer 0, UserTimer 1]"
    by (auto simp: left_def)
  with k1(1) show ?thesis by blast
qed

text \<open>
  C5: \<^verbatim>\<open>rt_timer_check\<close> ends, with no timer left that is due, no failed assertion in
  \<^verbatim>\<open>rt_thread_timeout\<close>, and the invariant kept, for every behaviour of the application's
  timeout functions that keeps what the kernel needs and every active periodic timer with a
  period that is not 0.
\<close>

theorem rt_timer_check_ends:
  assumes "callback_ok cb" and "kinv (- 1) k" and "user_timers_ok k" and "rt_current_thread k \<noteq> None"
  shows "\<exists>k'. rt_timer_check cb k = Some k' \<and> kinv 0 k' \<and> user_timers_ok k' \<and> due k' = {} \<and> rt_tick k' = rt_tick k"
  using rt_timer_check_loop_total [OF assms] kinv_weaken [of 1 _ 0]
  by (auto simp: rt_timer_check_def rt_tick_get_def)

text \<open>The kernel with every timer of the application stopped.\<close>

definition no_user_timers :: "kernel \<Rightarrow> kernel" where
  "no_user_timers k = k\<lparr>timers := (\<lambda>i. case i of ThreadTimer t \<Rightarrow> timers k i
     | UserTimer n \<Rightarrow> \<lparr>tm_flag = 0, timeout_func = TF_user n, tm_init_tick = 0, timeout_tick = 0\<rparr>)\<rparr>"

lemma no_user_timers_ok:
  assumes "kinv lo k" and "\<forall>n. UserTimer n \<notin> set (rt_timer_list k)"
  shows "kinv lo (no_user_timers k)" "user_timers_ok (no_user_timers k)"
proof -
  have "thread_ok (no_user_timers k) t = thread_ok k t" for t
    by (intro thread_ok_cong) (simp_all add: no_user_timers_def)
  moreover have "queue_ok lo (no_user_timers k) = queue_ok lo k"
    using assms(2) by (intro queue_ok_cong) (auto simp: no_user_timers_def split: timer_id.split)
  ultimately show "kinv lo (no_user_timers k)"
    using assms(1) by (simp add: kinv_def ready_inv_def table_ok32_def) (simp add: no_user_timers_def)
  show "user_timers_ok (no_user_timers k)"
    using assms(2) by (simp add: user_timers_ok_def no_user_timers_def)
qed

lemma boot_sleep0:
  "\<exists>k. rt_thread_sleep 0 boot_kernel = Some k \<and> kinv 0 k \<and> set (rt_timer_list k) = {ThreadTimer 2} \<and>
     rt_current_thread k \<noteq> None \<and> left k (ThreadTimer 2) = 0"
  using rt_thread_sleep_spec [of 0 boot_kernel 2 0 0]
  by (auto simp: boot_kernel left_def ticks_left_def)

theorem rt_timer_check_ends_witness:
  "\<exists>k k'. rt_thread_sleep 0 boot_kernel = Some k \<and>
     rt_timer_check (\<lambda>_ k. Some k) (no_user_timers k) = Some k' \<and> due k' = {}"
proof -
  from boot_sleep0 obtain k where k: "rt_thread_sleep 0 boot_kernel = Some k" "kinv 0 k"
    "set (rt_timer_list k) = {ThreadTimer 2}" "rt_current_thread k \<noteq> None" by blast
  have nu: "\<forall>n. UserTimer n \<notin> set (rt_timer_list k)" using k(3) by simp
  have cb: "callback_ok (\<lambda>_ k. Some k)" by (simp add: callback_ok_def)
  have inv: "kinv (- 1) (no_user_timers k)" using no_user_timers_ok(1) [OF k(2) nu] by (rule kinv_weaken) simp
  have "rt_current_thread (no_user_timers k) \<noteq> None" using k(4) by (simp add: no_user_timers_def)
  from rt_timer_check_ends [OF cb inv no_user_timers_ok(2) [OF k(2) nu] this] k(1) show ?thesis by blast
qed

text \<open>
  C6: When the timers that are due are threads' own, \<^verbatim>\<open>rt_timer_check\<close> wakes exactly their
  threads, each ready with the error \<^verbatim>\<open>-RT_ETIMEOUT\<close>, changes no other thread, and takes exactly those timers
  off the queue.
\<close>

theorem rt_timer_check_wakes_due:
  assumes "kinv (- 1) k" and "rt_current_thread k \<noteq> None" and "\<forall>n. UserTimer n \<notin> due k"
  shows "\<exists>k'. rt_timer_check cb k = Some k' \<and> kinv 0 k' \<and>
     (\<forall>t. threads k' t = (if ThreadTimer t \<in> due k
        then (threads k t)\<lparr>error := - RT_ETIMEOUT, stat := RT_THREAD_READY\<rparr> else threads k t)) \<and>
     rt_timer_list k' = filter (\<lambda>i. i \<notin> due k) (rt_timer_list k)"
proof -
  from rt_timer_check_loop_threads [OF assms, of cb] obtain k' where
    k': "rt_timer_check_loop cb (rt_tick k) k = Some k'" "kinv 1 k'" "threads k' = wake_due k"
    "rt_timer_list k' = filter (\<lambda>i. i \<notin> due k) (rt_timer_list k)" by blast
  have "kinv 0 k'" by (rule kinv_weaken [OF k'(2)]) simp
  moreover have "rt_timer_check cb k = Some k'"
    using k'(1) by (simp only: rt_timer_check_def rt_tick_get_def)
  moreover have "threads k' t = (if ThreadTimer t \<in> due k
        then (threads k t)\<lparr>error := - RT_ETIMEOUT, stat := RT_THREAD_READY\<rparr> else threads k t)" for t
    by (simp only: k'(3) wake_due_def)
  ultimately show ?thesis using k'(4) by (intro exI [of _ k'] conjI allI)
qed

theorem rt_timer_check_wakes_due_witness:
  "\<exists>k k'. rt_thread_sleep 0 boot_kernel = Some k \<and> rt_timer_check (\<lambda>_ _. None) k = Some k' \<and>
     stat (threads k' 2) = RT_THREAD_READY \<and> rt_timer_list k' = []"
proof -
  from boot_sleep0 obtain k where k: "rt_thread_sleep 0 boot_kernel = Some k" "kinv 0 k"
    "set (rt_timer_list k) = {ThreadTimer 2}" "rt_current_thread k \<noteq> None" "left k (ThreadTimer 2) = 0" by blast
  have due: "due k = {ThreadTimer 2}" 
    unfolding due_def k(3) using k(5) by (intro equalityI subsetI) simp_all
  have "kinv (- 1) k" by (rule kinv_weaken [OF k(2)]) simp
  from rt_timer_check_wakes_due [OF this k(4), of "\<lambda>_ _. None"] due obtain k' where
    "rt_timer_check (\<lambda>_ _. None) k = Some k'" "stat (threads k' 2) = RT_THREAD_READY"
    "rt_timer_list k' = filter (\<lambda>i. i \<notin> due k) (rt_timer_list k)" by auto
  with k(1,3) due show ?thesis by (auto simp: filter_empty_conv)
qed

text \<open>
  A one-shot timer whose function starts it again ends up in the queue with its activated
  flag cleared by \<^verbatim>\<open>rt_timer_check\<close>: it will fire, but \<^verbatim>\<open>rt_timer_stop\<close> refuses to stop it.
\<close>

theorem rt_timer_restart_in_callback:
  assumes l: "rt_timer_list k = [UserTimer n]" and f: "timeout_func (timers k (UserTimer n)) = TF_user f"
    and one: "tm_flag (timers k (UserTimer n)) AND RT_TIMER_FLAG_PERIODIC = 0"
    and d: "rt_tick k - timeout_tick (timers k (UserTimer n)) < RT_TICK_HALF"
    and w: "0 < tm_init_tick (timers k (UserTimer n))" "tm_init_tick (timers k (UserTimer n)) < RT_TICK_HALF"
    and cb: "cb f = rt_timer_start (UserTimer n)"
  shows "\<exists>k'. rt_timer_check cb k = Some k' \<and> rt_timer_list k' = [UserTimer n] \<and>
     left k' (UserTimer n) = uint (tm_init_tick (timers k (UserTimer n))) \<and>
     rt_timer_stop (UserTimer n) k' = (- RT_ERROR, k')"
proof -
  let ?i = "UserTimer n" and ?w = "tm_init_tick (timers k (UserTimer n))"
  have w1: "tm_init_tick (timers (rt_timer_remove ?i k) ?i) < RT_TICK_HALF" using w(2) by simp
  obtain k1 where k1: "rt_timer_start ?i (rt_timer_remove ?i k) = Some k1"
    using rt_timer_start_eq [OF w1] by blast
  note eq = k1 [unfolded rt_timer_start_eq [OF w1], simplified, symmetric]
  have l1: "rt_timer_list k1 = [?i]" by (simp add: eq rt_timer_remove_def l)
  have one1: "tm_flag (timers k1 ?i) AND RT_TIMER_FLAG_PERIODIC = 0" using one by (simp add: eq)
  let ?k2 = "clear_activated ?i k1"
  have left: "left ?k2 ?i = uint ?w" using ticks_left_start(1) [OF w(2)] by (simp add: left_def eq)
  have win: "in_window (rt_tick ?k2) (timeout_tick (timers ?k2 ?i))" using ticks_left_start(2) [OF w(2)] by (simp add: eq)
  have nd: "\<not> rt_tick ?k2 - timeout_tick (timers ?k2 ?i) < RT_TICK_HALF"
    using tick_expired [OF win] left w(1) by (simp add: left_def word_less_def)
  have "rt_timer_check_loop cb (rt_tick k) k = rt_timer_check_loop cb (rt_tick k1) ?k2"
    using rt_timer_check_loop_due [OF l d, of cb k1 ?k2] f cb k1 one1 by (simp add: call_timeout_def)
  also have "\<dots> = Some ?k2" using l1 nd by (subst rt_timer_check_loop.simps) simp
  finally have "rt_timer_check cb k = Some ?k2" by (simp add: rt_timer_check_def rt_tick_get_def)
  moreover have "rt_timer_stop ?i ?k2 = (- RT_ERROR, ?k2)" by (simp add: rt_timer_stop_def clear_activated_def)
  ultimately show ?thesis using l1 left by simp
qed

definition armed_kernel :: kernel where
  "armed_kernel = boot_kernel\<lparr>rt_timer_list := [UserTimer 0], timers := (timers boot_kernel)(UserTimer 0 :=
     \<lparr>tm_flag = RT_TIMER_FLAG_ACTIVATED, timeout_func = TF_user 0, tm_init_tick = 10, timeout_tick = 0\<rparr>)\<rparr>"

theorem rt_timer_restart_in_callback_witness:
  "\<exists>k'. rt_timer_check (\<lambda>_. rt_timer_start (UserTimer 0)) armed_kernel = Some k' \<and> rt_timer_list k' = [UserTimer 0] \<and>
     rt_timer_stop (UserTimer 0) k' = (- RT_ERROR, k')"
  using rt_timer_restart_in_callback [of armed_kernel 0 0 "\<lambda>_. rt_timer_start (UserTimer 0)"]
  by (auto simp: armed_kernel_def boot_kernel)

section \<open>The end of a thread\<close>

text \<open>
  A thread that ends leaves the schedule for good: \<^verbatim>\<open>rt_thread_exit\<close> closes the running
  thread, switches to another one, and keeps the invariant; the thread is queued for the
  idle thread's clean-up exactly if it is dynamic or has a cleanup function.
\<close>

theorem rt_thread_exit_switches:
  assumes "kinv lo k" and "rt_current_thread k = Some t" and "live k t"
    and "stat (threads k u) = RT_THREAD_READY" and "u \<noteq> t" and "rt_scheduler_lock_nest k = 0"
  shows "\<exists>k'. rt_thread_exit k = Some k' \<and> kinv lo k' \<and> stat (threads k' t) = RT_THREAD_CLOSE \<and>
     (\<forall>w. w \<noteq> t \<longrightarrow> threads k' w = threads k w) \<and> rt_current_thread k' \<noteq> Some t \<and>
     (t \<in> set (q_list k' Defunct) \<longleftrightarrow>
        \<not> rt_object_is_systemobject (OThread t) (objs k) \<or> cleanup (threads k t) \<noteq> None)"
proof -
  from rt_thread_exit_spec [OF assms(1-5)] obtain k' where "rt_thread_exit k = Some k'" "kinv lo k'"
    "threads k' = (threads k)(t := (threads k t)\<lparr>stat := RT_THREAD_CLOSE\<rparr>)"
    "rt_scheduler_lock_nest k = 0 \<longrightarrow> rt_current_thread k' \<noteq> Some t"
    "t \<in> set (q_list k' Defunct) \<longleftrightarrow>
        \<not> (rt_object_is_systemobject (OThread t) (objs k) \<and> cleanup (threads k t) = None)" by blast
  then show ?thesis using assms(6) by (intro exI [of _ k'] conjI) auto
qed

lemma boot_objects:
  "rt_object_is_systemobject (OThread 2) (objs boot_kernel) = False"
  "rt_object_is_systemobject (OThread 1) (objs boot_kernel) = True"
  "cleanup (threads boot_kernel 2) = None" "q_list boot_kernel Defunct = []"
proof -
  have "map_option (\<lambda>k. (rt_object_is_systemobject (OThread 2) (objs k), rt_object_is_systemobject (OThread 1) (objs k),
      cleanup (threads k 2), q_list k Defunct)) boot = Some (False, True, None, [])" by code_simp
  then show "rt_object_is_systemobject (OThread 2) (objs boot_kernel) = False"
    "rt_object_is_systemobject (OThread 1) (objs boot_kernel) = True"
    "cleanup (threads boot_kernel 2) = None" "q_list boot_kernel Defunct = []"
    unfolding boot_kernel(1) by simp_all
qed

theorem rt_thread_exit_switches_witness:
  "\<exists>k'. rt_thread_exit boot_kernel = Some k' \<and> rt_current_thread k' \<noteq> Some 2 \<and> 2 \<in> set (q_list k' Defunct)"
  using rt_thread_exit_switches [of 0 boot_kernel 2 0] by (auto simp: boot_kernel live_def boot_objects)

text \<open>
  One call of \<^verbatim>\<open>rt_thread_idle_excute\<close> on ended threads that were all created dynamically
  deletes every one of them and empties the list; it ends and keeps the invariant.
\<close>

theorem rt_thread_idle_excute_cleans:
  assumes "cleanup_ok clean" and "kinv 0 k" and "rt_interrupt_nest k = 0"
    and "\<forall>t\<in>set (q_list k Defunct). \<not> rt_object_is_systemobject (OThread t) (objs k)"
  shows "\<exists>k'. rt_thread_idle_excute clean k = Some k' \<and> kinv 0 k' \<and> \<not> has_defunct_thread k' \<and>
     (\<forall>t\<in>set (q_list k Defunct). fam_loc (rt_object_container (objs k')) (OThread t) = None)"
  using rt_thread_idle_excute_dynamic [OF assms] by (force simp: has_defunct_thread_def fam_isempty_def)

theorem rt_thread_idle_excute_cleans_witness:
  "\<exists>k k'. rt_thread_delete 2 boot_kernel = Some (RT_EOK, k) \<and> has_defunct_thread k \<and>
     rt_thread_idle_excute (\<lambda>_ _ k. Some k) k = Some k' \<and> \<not> has_defunct_thread k'"
proof -
  have "live boot_kernel 2" by (simp add: live_def boot_kernel)
  from rt_thread_delete_spec [OF boot_kernel(2) this] boot_objects(4) obtain k where
    k: "rt_thread_delete 2 boot_kernel = Some (RT_EOK, k)" "kinv 0 k" "same_ctx boot_kernel k" "q_list k Defunct = [2]" by auto
  have "objs k = rt_object_detach (OTimer (ThreadTimer 2)) (objs boot_kernel)"
    using k(1) by (auto simp: rt_thread_delete_def rt_schedule_remove_thread_def Let_def rt_timer_detach_def
        Option.bind_eq_Some_conv split: if_splits)
  then have "\<not> rt_object_is_systemobject (OThread 2) (objs k)"
    using boot_objects(1) by (simp add: rt_object_is_systemobject_def rt_object_detach_def)
  moreover have "cleanup_ok (\<lambda>_ _ k. Some k)" by (simp add: cleanup_ok_def)
  ultimately show ?thesis
    using rt_thread_idle_excute_cleans [of "\<lambda>_ _ k. Some k" k] k
    by (auto simp: same_ctx_def boot_kernel has_defunct_thread_def fam_isempty_def)
qed

text \<open>
  \<^verbatim>\<open>rt_thread_idle_excute\<close> stops after the first static thread it meets: the threads behind it
  are still waiting when it returns, although its comment says one call does all the clean-ups.
\<close>

theorem rt_thread_idle_excute_stops_early:
  assumes "cleanup_ok clean" and "kinv 0 k" and "rt_interrupt_nest k = 0"
    and "q_list k Defunct = t # u # ts" and "rt_object_is_systemobject (OThread t) (objs k)"
  shows "\<exists>k'. rt_thread_idle_excute clean k = Some k' \<and> kinv 0 k' \<and> q_list k' Defunct = u # ts"
  using rt_thread_idle_excute_static [OF assms] .

lemma delete_objs:
  assumes "rt_thread_delete t k = Some (r, k')"
  shows "rt_object_is_systemobject ob (objs k') = rt_object_is_systemobject ob (objs k)"
proof -
  have "objs k' = rt_object_detach (OTimer (ThreadTimer t)) (objs k)"
    using assms by (auto simp: rt_thread_delete_def rt_schedule_remove_thread_def Let_def rt_timer_detach_def
        Option.bind_eq_Some_conv split: if_splits)
  then show ?thesis by (simp add: rt_object_is_systemobject_def rt_object_detach_def)
qed

theorem rt_thread_idle_excute_stops_early_witness:
  "\<exists>k1 k2 k3. rt_thread_delete 2 boot_kernel = Some (RT_EOK, k1) \<and> rt_thread_delete 1 k1 = Some (RT_EOK, k2) \<and>
     rt_thread_idle_excute (\<lambda>_ _ k. Some k) k2 = Some k3 \<and> q_list k3 Defunct = [2]"
proof -
  have "live boot_kernel 2" by (simp add: live_def boot_kernel)
  from rt_thread_delete_spec [OF boot_kernel(2) this] boot_objects(4) obtain k1 where
    k1: "rt_thread_delete 2 boot_kernel = Some (RT_EOK, k1)" "kinv 0 k1" "same_ctx boot_kernel k1" "q_list k1 Defunct = [2]"
    and th: "threads k1 = (threads boot_kernel)(2 := (threads boot_kernel 2)\<lparr>stat := RT_THREAD_CLOSE\<rparr>)" by auto
  have "live k1 1" using th by (simp add: live_def boot_kernel)
  from rt_thread_delete_spec [OF k1(2) this] k1(4) obtain k2 where
    k2: "rt_thread_delete 1 k1 = Some (RT_EOK, k2)" "kinv 0 k2" "same_ctx k1 k2" "q_list k2 Defunct = [1, 2]" by auto
  have "rt_object_is_systemobject (OThread 1) (objs k2)"
    using delete_objs [OF k1(1)] delete_objs [OF k2(1)] boot_objects(2) by simp
  moreover have "cleanup_ok (\<lambda>_ _ k. Some k)" by (simp add: cleanup_ok_def)
  ultimately show ?thesis
    using rt_thread_idle_excute_stops_early [of "\<lambda>_ _ k. Some k" k2 1 2 "[]"] k1 k2
    by (auto simp: same_ctx_def boot_kernel)
qed

text \<open>
  Deleting a thread that was initialised but never started clears the bits of the summary
  word that its \<^verbatim>\<open>number_mask\<close> happens to have, which \<^verbatim>\<open>_rt_thread_init\<close> does not set: a ready
  list can be left non-empty with its bit 0, and the scheduler no longer sees its threads.
\<close>

theorem rt_thread_delete_unstarted_hides_ready:
  assumes inv: "kinv lo k" and i: "stat (threads k t) = RT_THREAD_INIT" and p: "prio k t < 32"
    and e: "ready k (prio k t) = []" and q: "ready k q \<noteq> []" and m: "bit (number_mask (threads k t)) q"
  shows "\<exists>k'. rt_thread_delete t k = Some (RT_EOK, k') \<and> ready k' q \<noteq> [] \<and>
     \<not> bit (rt_thread_ready_priority_group k') q \<and> \<not> kinv lo k'"
proof -
  from rt_thread_delete_init_group [OF inv i p e] obtain k' where k': "rt_thread_delete t k = Some (RT_EOK, k')"
    "rt_thread_ready_priority_group k' = rt_thread_ready_priority_group k AND NOT (number_mask (threads k t))"
    "\<forall>p. ready k' p = ready k p" by blast
  have "q < 32" using bit_imp_le_length [OF m] by simp
  have "\<not> bit (rt_thread_ready_priority_group k') q" using k'(2) m by (simp add: bit_and_iff bit_not_iff)
  moreover from this have "\<not> kinv lo k'"
    using ready_inv_bit [OF kinvD(1), of lo k' q] k'(3) q \<open>q < 32\<close> by auto
  ultimately show ?thesis using k' q by auto
qed

theorem rt_thread_delete_unstarted_hides_ready_witness:
  "\<exists>k'. rt_thread_delete 5 (upd_thread 5 (\<lambda>th. th\<lparr>number_mask := 0x100\<rparr>) boot_kernel) = Some (RT_EOK, k') \<and>
     ready k' 8 \<noteq> [] \<and> \<not> bit (rt_thread_ready_priority_group k') 8"
proof -
  let ?k = "upd_thread 5 (\<lambda>th. th\<lparr>number_mask := 0x100\<rparr>) boot_kernel"
  have ev: "map_option (\<lambda>k. (prio k 5, ready k 0, ready k 8, q_loc k 5)) boot = Some (0, [], [2], None)" by code_simp
  have b: "prio boot_kernel 5 = 0" "ready boot_kernel 0 = []" "ready boot_kernel 8 = [2]" "q_loc boot_kernel 5 = None"
    using ev unfolding boot_kernel(1) by simp_all
  have "kinv_but 0 5 ?k" using kinv_butD [OF boot_kernel(2)] by (intro kinv_but_upd_thread) auto
  moreover have "thread_ok ?k 5"
    using kinv_thread [OF boot_kernel(2), of 5] b(4) by (simp add: thread_ok_def live_def boot_kernel)
  ultimately have "kinv 0 ?k" using kinv_split by blast
  from rt_thread_delete_unstarted_hides_ready [OF this, of 5 8] b show ?thesis
    by (auto simp: boot_kernel bit_iff_odd_drop_bit)
qed

end
