(* ===== verification/Ipc.thy ===== *)
theory Ipc
  imports KernelProps
begin

text \<open>
  The part of \<^verbatim>\<open>src/ipc.c\<close> the five kinds of IPC object share: the list of suspended threads,
  with its two orders, and the way a thread waits on it.  A call that waits is modelled in two
  halves, split at its \<^verbatim>\<open>rt_schedule\<close>: the first gives \<open>Blocked\<close> with what the second half
  needs, or \<open>Ret\<close> with the result; the second half runs when the thread is switched to again.
\<close>

abbreviation (input) RT_IPC_FLAG_FIFO :: u8 where "RT_IPC_FLAG_FIFO \<equiv> 0"
abbreviation (input) RT_IPC_FLAG_PRIO :: u8 where "RT_IPC_FLAG_PRIO \<equiv> 1"

text \<open>\<^verbatim>\<open>rt_int32_t\<close>: the word whose \<open>sint\<close> is the number.\<close>

type_synonym rt_int32_t = u32

abbreviation (input) RT_WAITING_FOREVER :: rt_int32_t where "RT_WAITING_FOREVER \<equiv> - 1"
abbreviation (input) RT_WAITING_NO :: rt_int32_t where "RT_WAITING_NO \<equiv> 0"

datatype ('r, 'w) outcome = Ret 'r | Blocked 'w

text \<open>\<^verbatim>\<open>RT_DEBUG_NOT_IN_INTERRUPT\<close> and \<^verbatim>\<open>RT_DEBUG_IN_THREAD_CONTEXT\<close> of \<^verbatim>\<open>rtdebug.h\<close>.\<close>

definition not_in_interrupt :: "kernel \<Rightarrow> unit option" where
  "not_in_interrupt k = rt_assert (rt_interrupt_get_nest k = 0)"

definition in_thread_context :: "kernel \<Rightarrow> tid option" where
  "in_thread_context k = do { t \<leftarrow> rt_thread_self k; not_in_interrupt k; Some t }"

section \<open>The list of suspended threads\<close>

text \<open>The search of \<^verbatim>\<open>RT_IPC_FLAG_PRIO\<close>: the first waiting thread of a lower priority.\<close>

fun find_position :: "(tid \<Rightarrow> u8) \<Rightarrow> u8 \<Rightarrow> tid list \<Rightarrow> tid option" where
  "find_position pr p [] = None"
| "find_position pr p (s # ss) = (if p < pr s then Some s else find_position pr p ss)"

definition rt_ipc_list_suspend :: "qhead \<Rightarrow> tid \<Rightarrow> u8 \<Rightarrow> kernel \<Rightarrow> kernel option" where
  "rt_ipc_list_suspend list thread flag k =
     do { (_, k) \<leftarrow> rt_thread_suspend thread k;
          if flag = RT_IPC_FLAG_FIFO then
            do { Q \<leftarrow> fam_insert_before list thread (queues k); Some (k\<lparr>queues := Q\<rparr>) }
          else if flag = RT_IPC_FLAG_PRIO then
            (case find_position (\<lambda>t. current_priority (threads k t)) (current_priority (threads k thread)) (q_list k list) of
               Some sthread \<Rightarrow> do { Q \<leftarrow> fam_insert_before_node sthread thread (queues k); Some (k\<lparr>queues := Q\<rparr>) }
             | None \<Rightarrow> do { Q \<leftarrow> fam_insert_before list thread (queues k); Some (k\<lparr>queues := Q\<rparr>) })
          else Some k }"

text \<open>The entry before the head of an empty list is no thread.\<close>

definition rt_ipc_list_resume :: "qhead \<Rightarrow> kernel \<Rightarrow> kernel option" where
  "rt_ipc_list_resume list k =
     (case q_list k list of
        [] \<Rightarrow> None
      | thread # _ \<Rightarrow> do { (_, k) \<leftarrow> rt_thread_resume thread k; Some k })"

partial_function (option) rt_ipc_list_resume_all :: "qhead \<Rightarrow> kernel \<Rightarrow> kernel option" where
  "rt_ipc_list_resume_all list k =
     (case q_list k list of
        [] \<Rightarrow> Some k
      | thread # _ \<Rightarrow>
          do { let k = upd_thread thread (\<lambda>th. th\<lparr>error := - RT_ERROR\<rparr>) k;
               (_, k) \<leftarrow> rt_thread_resume thread k;
               rt_ipc_list_resume_all list k })"

text \<open>The second part of a wait: a thread that has just been suspended starts its timer, if the
  time is positive, and the scheduler turns to another thread.\<close>

definition timer_schedule :: "rt_int32_t \<Rightarrow> tid \<Rightarrow> kernel \<Rightarrow> kernel option" where
  "timer_schedule time thread k =
     do { k \<leftarrow> (if 0 < sint time then
                 do { let k = snd (rt_timer_control (ThreadTimer thread) (RT_TIMER_CTRL_SET_TIME time) k);
                      rt_timer_start (ThreadTimer thread) k }
               else Some k);
          rt_schedule k }"

text \<open>
  What every waiting call does: suspend the running thread on the list, start its timer when
  the waiting time is positive, and schedule.
\<close>

definition ipc_wait :: "qhead \<Rightarrow> u8 \<Rightarrow> rt_int32_t \<Rightarrow> tid \<Rightarrow> kernel \<Rightarrow> kernel option" where
  "ipc_wait list flag time thread k =
     do { k \<leftarrow> rt_ipc_list_suspend list thread flag k;
          timer_schedule time thread k }"

section \<open>IPC objects\<close>

definition ipc_flag :: "nat \<Rightarrow> kernel \<Rightarrow> u8" where
  "ipc_flag i k = obj_flag (obj_hdr (objs k) (OIpc i))"

definition set_ipc_flag :: "nat \<Rightarrow> u8 \<Rightarrow> kernel \<Rightarrow> kernel" where
  "set_ipc_flag i flag k =
     k\<lparr>objs := (objs k)\<lparr>obj_hdr := (obj_hdr (objs k))(OIpc i := (obj_hdr (objs k) (OIpc i))\<lparr>obj_flag := flag\<rparr>)\<rparr>\<rparr>"

text \<open>\<^verbatim>\<open>rt_ipc_object_init\<close> resets the list head: it must be empty.\<close>

definition rt_ipc_object_init :: "nat \<Rightarrow> kernel \<Rightarrow> kernel option" where
  "rt_ipc_object_init i k = do { valid_access (q_list k (Wait i) = []); Some k }"

text \<open>The commands of the \<^verbatim>\<open>_control\<close> functions: a reset with its argument, or any other.\<close>

datatype ipc_cmd = RT_IPC_CMD_RESET u32 | RT_IPC_CMD_UNKNOWN

section \<open>Where a thread is inserted\<close>

definition wait_insert :: "u8 \<Rightarrow> (tid \<Rightarrow> u8) \<Rightarrow> tid \<Rightarrow> tid list \<Rightarrow> tid list" where
  "wait_insert flag pr t ts =
     (if flag = RT_IPC_FLAG_PRIO
      then takeWhile (\<lambda>s. pr s \<le> pr t) ts @ t # dropWhile (\<lambda>s. pr s \<le> pr t) ts
      else ts @ [t])"

lemma set_wait_insert [simp]: "set (wait_insert flag pr t ts) = insert t (set ts)"
proof -
  have "set ts = set (takeWhile P ts) \<union> set (dropWhile P ts)" for P
    by (metis set_append takeWhile_dropWhile_id)
  then show ?thesis by (auto simp: wait_insert_def)
qed

lemma find_position_None: "find_position pr p ts = None \<longleftrightarrow> (\<forall>s\<in>set ts. pr s \<le> p)"
  by (induction ts) auto

lemma find_position_Some:
  "find_position pr p ts = Some s \<Longrightarrow> \<exists>as bs. ts = as @ s # bs \<and> s \<notin> set as \<and>
     takeWhile (\<lambda>s. pr s \<le> p) ts = as \<and> dropWhile (\<lambda>s. pr s \<le> p) ts = s # bs"
proof (induction ts)
  case (Cons x xs)
  show ?case
  proof (cases "p < pr x")
    case True
    with Cons.prems show ?thesis by (intro exI [of _ "[]"] exI [of _ xs]) auto
  next
    case False
    with Cons obtain as bs where IH: "xs = as @ s # bs" "s \<notin> set as"
      "takeWhile (\<lambda>s. pr s \<le> p) xs = as" "dropWhile (\<lambda>s. pr s \<le> p) xs = s # bs" by auto
    have "\<not> pr s \<le> p" using IH(4) by (metis dropWhile_eq_Cons_conv)
    with False IH show ?thesis by (intro exI [of _ "x # as"] exI [of _ bs]) auto
  qed
qed simp

text \<open>The waiting list of a PRIO object stays in the order of the priorities.\<close>

lemma wait_insert_sorted:
  assumes "sorted (map (\<lambda>s. unat (pr s)) ts)"
  shows "sorted (map (\<lambda>s. unat (pr s)) (wait_insert RT_IPC_FLAG_PRIO pr t ts))"
  using assms
proof (induction ts)
  case (Cons x xs)
  show ?case
  proof (cases "pr x \<le> pr t")
    case True
    have "wait_insert RT_IPC_FLAG_PRIO pr t (x # xs) = x # wait_insert RT_IPC_FLAG_PRIO pr t xs"
      using True by (simp add: wait_insert_def)
    moreover have "\<forall>y\<in>insert t (set xs). unat (pr x) \<le> unat (pr y)"
      using Cons.prems True by (auto simp: word_le_nat_alt)
    ultimately show ?thesis using Cons by simp
  next
    case False
    then have "unat (pr t) \<le> unat (pr x)" by (simp add: word_le_nat_alt)
    with False Cons.prems show ?thesis by (auto simp: wait_insert_def)
  qed
qed (simp add: wait_insert_def)
section \<open>What the shared operations do\<close>

definition waiting :: "qhead \<Rightarrow> bool" where
  "waiting q \<longleftrightarrow> (\<exists>i. q = Wait i \<or> q = SenderWait i)"

lemma waiting_simps [simp]: "waiting (Wait i)" "waiting (SenderWait i)" "\<not> waiting (Ready p)" "\<not> waiting Defunct"
  by (auto simp: waiting_def)

lemma waiting_not_ready: "waiting q \<Longrightarrow> q \<noteq> Ready p"
  by auto

lemma waiting_suspended:
  assumes inv: "kinv lo k" and "waiting q" and "t \<in> set (q_list k q)"
  shows "stat (threads k t) = RT_THREAD_SUSPEND"
proof -
  have "q_loc k t = Some q" using fam_wf_mem [OF kinv_wf(1) [OF inv]] assms(3) by blast
  with assms(2) kinv_thread [OF inv, of t] show ?thesis by (auto simp: thread_ok_def waiting_def)
qed

text \<open>The invariant of a suspended thread on a waiting list or on none, with its timer off or
  properly started.\<close>

lemma suspended_kinv:
  assumes "kinv_but lo t k" and "stat (threads k t) = RT_THREAD_SUSPEND" and "thread_static_ok (threads k t)"
    and "thread_timer_ok k t" and "q_loc k t = None \<or> (\<exists>q. q_loc k t = Some q \<and> waiting q)"
    and "ThreadTimer t \<in> set (rt_timer_list k) \<longrightarrow> activated k (ThreadTimer t)"
  shows "kinv lo k"
proof -
  have "thread_ok k t" using assms(2-) by (auto simp: thread_ok_def waiting_def)
  with assms(1) show ?thesis using kinv_split by blast
qed

lemma kinv_but_insert_before_node:
  assumes inv: "kinv_but lo t k" and q: "waiting q" and l: "q_loc k t = None" and s: "q_list k q = as @ s # bs" "s \<notin> set as"
  shows "\<exists>Q. fam_insert_before_node s t (queues k) = Some Q \<and> kinv_but lo t (k\<lparr>queues := Q\<rparr>) \<and>
     fam_loc Q t = Some q \<and> fam_list Q = (q_list k)(q := as @ t # s # bs)"
proof -
  have loc: "q_loc k s = Some q" using fam_wf_mem [OF kinv_wf(2) [OF inv], of s q] s by simp
  define Q where "Q = (queues k)\<lparr>fam_list := (q_list k)(q := as @ t # s # bs), fam_loc := (q_loc k)(t \<mapsto> q)\<rparr>"
  have Q: "fam_insert_before_node s t (queues k) = Some Q"
    using l loc s by (simp add: fam_insert_before_node_def insert_before_elem_split Q_def)
  have lst: "fam_list Q = (q_list k)(q := as @ t # s # bs)" "fam_loc Q = (q_loc k)(t \<mapsto> q)" by (simp_all add: Q_def)
  have wf: "fam_wf Q" by (rule fam_insert_before_node_wf [OF kinv_wf(2) [OF inv] Q])
  have "kinv_but lo t (k\<lparr>queues := Q\<rparr>)"
    using q lst by (intro kinv_but_link [OF inv wf]) (auto simp: waiting_def)
  then show ?thesis using Q lst by simp
qed

lemma rt_ipc_list_suspend_spec:
  assumes inv: "kinv lo k" and r: "stat (threads k t) = RT_THREAD_READY" and q: "waiting q"
    and fl: "flag = RT_IPC_FLAG_FIFO \<or> flag = RT_IPC_FLAG_PRIO"
  shows "\<exists>k'. rt_ipc_list_suspend q t flag k = Some k' \<and> kinv lo k' \<and>
     threads k' = (threads k)(t := (threads k t)\<lparr>stat := RT_THREAD_SUSPEND\<rparr>) \<and>
     q_list k' q = wait_insert flag (\<lambda>s. current_priority (threads k s)) t (q_list k q) \<and>
     (\<forall>q'. q' \<noteq> q \<longrightarrow> q_list k' q' = remove1 t (q_list k q')) \<and> q_loc k' t = Some q \<and>
     set (rt_timer_list k') = set (rt_timer_list k) \<and> ThreadTimer t \<notin> set (rt_timer_list k) \<and>
     objs k' = objs k \<and> same_ctx k k'"
proof -
  let ?pr = "\<lambda>s. current_priority (threads k s)"
  from rt_thread_suspend_spec [OF inv r] obtain k1 where k1: "rt_thread_suspend t k = Some (RT_EOK, k1)" and inv1: "kinv lo k1"
    and th1: "threads k1 = (threads k)(t := (threads k t)\<lparr>stat := RT_THREAD_SUSPEND\<rparr>)" and l1: "q_loc k1 t = None"
    and fr: "set (rt_timer_list k1) = set (rt_timer_list k)" "ThreadTimer t \<notin> set (rt_timer_list k)"
      "objs k1 = objs k" "same_ctx k k1" and ql: "\<forall>q. q_list k1 q = remove1 t (q_list k q)" by blast
  have nin: "t \<notin> set (q_list k q)" using waiting_suspended [OF inv q] r by auto
  then have ql1: "q_list k1 q = q_list k q" using ql by (simp add: remove1_idem)
  have pr1: "current_priority (threads k1 s) = ?pr s" for s using th1 by simp
  have ins: "\<exists>Q. (if flag = RT_IPC_FLAG_FIFO then
            do { Q \<leftarrow> fam_insert_before q t (queues k1); Some (k1\<lparr>queues := Q\<rparr>) }
          else if flag = RT_IPC_FLAG_PRIO then
            (case find_position (\<lambda>t. current_priority (threads k1 t)) (current_priority (threads k1 t)) (q_list k1 q) of
               Some sthread \<Rightarrow> do { Q \<leftarrow> fam_insert_before_node sthread t (queues k1); Some (k1\<lparr>queues := Q\<rparr>) }
             | None \<Rightarrow> do { Q \<leftarrow> fam_insert_before q t (queues k1); Some (k1\<lparr>queues := Q\<rparr>) })
          else Some k1) = Some (k1\<lparr>queues := Q\<rparr>) \<and>
     kinv_but lo t (k1\<lparr>queues := Q\<rparr>) \<and> fam_loc Q t = Some q \<and>
     fam_list Q = (q_list k1)(q := wait_insert flag ?pr t (q_list k q))"
  proof (cases "flag = RT_IPC_FLAG_PRIO \<and> (\<exists>s. find_position ?pr (?pr t) (q_list k q) = Some s)")
    case True
    then obtain s where s: "find_position ?pr (?pr t) (q_list k q) = Some s" by blast
    from find_position_Some [OF s] obtain as bs where sp: "q_list k q = as @ s # bs" "s \<notin> set as"
      "takeWhile (\<lambda>s. ?pr s \<le> ?pr t) (q_list k q) = as" "dropWhile (\<lambda>s. ?pr s \<le> ?pr t) (q_list k q) = s # bs" by blast
    have "q_list k1 q = as @ s # bs" using ql1 sp(1) by simp
    from kinv_but_insert_before_node [OF kinv_butD [OF inv1] q l1 this sp(2)] obtain Q where
      "fam_insert_before_node s t (queues k1) = Some Q" "kinv_but lo t (k1\<lparr>queues := Q\<rparr>)"
      "fam_loc Q t = Some q" "fam_list Q = (q_list k1)(q := as @ t # s # bs)" by blast
    with True s sp show ?thesis by (intro exI [of _ Q]) (simp add: pr1 ql1 wait_insert_def)
  next
    case False
    from kinv_but_insert_before [OF kinv_butD [OF inv1] waiting_not_ready [OF q] l1] obtain Q where
      Q: "fam_insert_before q t (queues k1) = Some Q" "kinv_but lo t (k1\<lparr>queues := Q\<rparr>)"
      "fam_loc Q t = Some q" "fam_list Q = (q_list k1)(q := q_list k1 q @ [t])" by blast
    have "flag = RT_IPC_FLAG_PRIO \<longrightarrow> find_position ?pr (?pr t) (q_list k q) = None" using False by auto
    moreover from this have "wait_insert flag ?pr t (q_list k q) = q_list k q @ [t]"
      by (auto simp: wait_insert_def find_position_None)
    ultimately show ?thesis using Q fl by (intro exI [of _ Q]) (auto simp: pr1 ql1)
  qed
  then obtain Q where Q: "rt_ipc_list_suspend q t flag k = Some (k1\<lparr>queues := Q\<rparr>)" "kinv_but lo t (k1\<lparr>queues := Q\<rparr>)"
    "fam_loc Q t = Some q" "fam_list Q = (q_list k1)(q := wait_insert flag ?pr t (q_list k q))"
    using k1 by (auto simp: rt_ipc_list_suspend_def)
  have "kinv lo (k1\<lparr>queues := Q\<rparr>)"
    using Q q th1 fr kinv_live [OF inv1, of t]
    by (intro suspended_kinv [OF Q(2)]) (auto simp: thread_timer_ok_def)
  then show ?thesis using Q th1 fr ql by (simp add: same_ctx_def)
qed

lemma rt_ipc_list_resume_spec:
  assumes inv: "kinv lo k" and q: "waiting q" and l: "q_list k q = t # ts"
  shows "\<exists>k'. rt_ipc_list_resume q k = Some k' \<and> kinv lo k' \<and>
     threads k' = (threads k)(t := (threads k t)\<lparr>stat := RT_THREAD_READY\<rparr>) \<and> q_list k' q = ts \<and>
     (\<forall>q'. waiting q' \<and> q' \<noteq> q \<longrightarrow> q_list k' q' = q_list k q') \<and>
     set (rt_timer_list k') = set (rt_timer_list k) - {ThreadTimer t} \<and> objs k' = objs k \<and> same_ctx k k'"
proof -
  have s: "stat (threads k t) = RT_THREAD_SUSPEND" using waiting_suspended [OF inv q] l by simp
  have wf: "fam_wf (queues k)" by (rule kinv_wf(1) [OF inv])
  have loc: "q_loc k t = Some q" using fam_wf_mem [OF wf, of t q] l by simp
  have oth: "remove1 t (q_list k q') = q_list k q'" if "q' \<noteq> q" for q'
    using that loc fam_wf_mem [OF wf, of t q'] by (simp add: remove1_idem)
  from rt_thread_resume_spec [OF inv s] obtain k' where "rt_thread_resume t k = Some (RT_EOK, k')" "kinv lo k'"
    "threads k' = (threads k)(t := (threads k t)\<lparr>stat := RT_THREAD_READY\<rparr>)"
    "set (rt_timer_list k') = set (rt_timer_list k) - {ThreadTimer t}" "objs k' = objs k" "same_ctx k k'"
    "\<forall>q. q_list k' q = (if q = Ready (prio k t) then q_list k q @ [t] else remove1 t (q_list k q))" by blast
  then show ?thesis using l q oth by (auto simp: rt_ipc_list_resume_def)
qed

lemma kinv_upd_error:
  assumes "kinv lo k"
  shows "kinv lo (upd_thread t (\<lambda>th. th\<lparr>error := e\<rparr>) k)"
proof -
  let ?k = "upd_thread t (\<lambda>th. th\<lparr>error := e\<rparr>) k"
  have "thread_ok ?k u = thread_ok k u" for u
    by (cases "u = t") (auto simp: thread_ok_def live_def activated_def thread_timer_ok_def)
  moreover have "queue_ok lo ?k = queue_ok lo k" by (intro queue_ok_cong) auto
  ultimately show ?thesis using assms by (simp add: kinv_def ready_inv_def table_ok32_def)
qed

definition resumed_with_error :: "kernel \<Rightarrow> qhead \<Rightarrow> tid \<Rightarrow> rt_thread" where
  "resumed_with_error k q u = (if u \<in> set (q_list k q)
     then (threads k u)\<lparr>error := - RT_ERROR, stat := RT_THREAD_READY\<rparr> else threads k u)"

lemma rt_ipc_list_resume_all_spec:
  assumes "kinv lo k" and q: "waiting q"
  shows "\<exists>k'. rt_ipc_list_resume_all q k = Some k' \<and> kinv lo k' \<and> threads k' = resumed_with_error k q \<and>
     q_list k' q = [] \<and> (\<forall>q'. waiting q' \<and> q' \<noteq> q \<longrightarrow> q_list k' q' = q_list k q') \<and> objs k' = objs k \<and> same_ctx k k'"
  using assms(1)
proof (induction "q_list k q" arbitrary: k)
  case Nil
  then show ?case
    by (subst rt_ipc_list_resume_all.simps) (simp add: resumed_with_error_def fun_eq_iff)
next
  case (Cons t ts)
  note l = Cons.hyps(2) [symmetric]
  let ?k1 = "upd_thread t (\<lambda>th. th\<lparr>error := - RT_ERROR\<rparr>) k"
  have inv1: "kinv lo ?k1" by (rule kinv_upd_error [OF Cons.prems])
  have l1: "q_list ?k1 q = t # ts" using l by simp
  from rt_ipc_list_resume_spec [OF inv1 q l1] obtain k2 where
    k2: "rt_ipc_list_resume q ?k1 = Some k2" and inv2: "kinv lo k2"
    and th2: "threads k2 = (threads ?k1)(t := (threads ?k1 t)\<lparr>stat := RT_THREAD_READY\<rparr>)" and l2: "q_list k2 q = ts"
    and fr: "\<forall>q'. waiting q' \<and> q' \<noteq> q \<longrightarrow> q_list k2 q' = q_list ?k1 q'" "objs k2 = objs ?k1" "same_ctx ?k1 k2" by blast
  have t: "t \<notin> set ts" using fam_wf_distinct [OF kinv_wf(1) [OF Cons.prems], of q] l by simp
  have r: "resumed_with_error k2 q u = resumed_with_error k q u" for u
    using l l2 th2 t by (simp add: resumed_with_error_def)
  have "rt_ipc_list_resume_all q k = rt_ipc_list_resume_all q k2"
    using k2 l by (subst rt_ipc_list_resume_all.simps)
      (auto simp: rt_ipc_list_resume_def Option.bind_eq_Some_conv Let_def)
  moreover from Cons.hyps(1) [of k2] l2 inv2 obtain k' where
    "rt_ipc_list_resume_all q k2 = Some k'" "kinv lo k'" "threads k' = resumed_with_error k2 q"
    "q_list k' q = []" "\<forall>q'. waiting q' \<and> q' \<noteq> q \<longrightarrow> q_list k' q' = q_list k2 q'" "objs k' = objs k2" "same_ctx k2 k'"
    by blast
  ultimately show ?case using fr r by (auto simp: same_ctx_def fun_eq_iff)
qed

lemma start_thread_timer:
  assumes inv: "kinv lo k" and s: "stat (threads k t) = RT_THREAD_SUSPEND" and w: "time < RT_TICK_HALF" and lo: "lo \<le> 0"
  shows "\<exists>k'. rt_timer_start (ThreadTimer t) (snd (rt_timer_control (ThreadTimer t) (RT_TIMER_CTRL_SET_TIME time) k)) = Some k' \<and>
     kinv lo k' \<and> queues k' = queues k \<and> threads k' = threads k \<and> objs k' = objs k \<and> same_ctx k k' \<and>
     set (rt_timer_list k') = insert (ThreadTimer t) (set (rt_timer_list k)) \<and>
     timeout_tick (timers k' (ThreadTimer t)) = rt_tick k + time"
proof -
  let ?i = "ThreadTimer t"
  let ?k2 = "upd_timer ?i (\<lambda>tm. tm\<lparr>tm_init_tick := time\<rparr>) k"
  have tm: "thread_timer_ok k t" and st: "thread_static_ok (threads k t)" using kinv_live [OF inv, of t] s by auto
  have "thread_ok ?k2 v = thread_ok k v" for v
    by (cases "v = t") (auto simp: thread_ok_def live_def activated_def thread_timer_ok_def)
  moreover have "queue_ok lo ?k2 = queue_ok lo k" by (intro queue_ok_cong) auto
  ultimately have inv2: "kinv lo ?k2" using inv by (simp add: kinv_def ready_inv_def table_ok32_def)
  from kinv_but_timer_start [OF kinv_butD [OF inv2] _ lo, of t] w obtain k3 where
    k3: "rt_timer_start ?i ?k2 = Some k3" and inv3: "kinv_but lo t k3" and fr3: "queues k3 = queues k"
    "threads k3 = threads k" "same_ctx ?k2 k3" "objs k3 = objs k"
    and mem: "set (rt_timer_list k3) = insert ?i (set (rt_timer_list k))"
    and tt: "timeout_tick (timers k3 ?i) = rt_tick k + time" and act: "activated k3 ?i" and tm3: "thread_timer_ok k3 t"
    using tm by (auto simp: thread_timer_ok_def)
  have "thread_ok k3 t"
    using kinv_thread [OF inv, of t] fr3 st s act tm3 by (auto simp: thread_ok_def)
  then have "kinv lo k3" using inv3 kinv_split by blast
  then show ?thesis using k3 fr3 mem tt by (simp add: rt_timer_control_def same_ctx_def)
qed

text \<open>A waiting time the timer queue can hold; forever is negative.\<close>

definition time_ok :: "rt_int32_t \<Rightarrow> bool" where
  "time_ok time \<longleftrightarrow> time \<noteq> 0x7fffffff"

lemma time_ok_half: "time_ok time \<Longrightarrow> 0 < sint time \<Longrightarrow> time < RT_TICK_HALF"
proof -
  assume ok: "time_ok time" and p: "0 < sint time"
  have "sint time < 2 ^ 31" using sint_lt [of time] by simp
  have "uint (word_of_int (sint time) :: u32) = sint time mod 2 ^ 32" by (simp only: uint_word_of_int) simp
  then have "uint time = sint time" using p \<open>sint time < 2 ^ 31\<close> by simp
  moreover have "uint time \<noteq> uint (0x7fffffff :: u32)" using ok unfolding time_ok_def word_uint_eq_iff .
  ultimately show ?thesis using \<open>sint time < 2 ^ 31\<close> by (simp add: word_less_def)
qed


lemma timer_schedule_spec:
  assumes inv1: "kinv lo k1" and lo: "lo \<le> 0" and c: "rt_current_thread k1 = Some t" and s1: "stat (threads k1 t) = RT_THREAD_SUSPEND"
    and u: "stat (threads k1 u) = RT_THREAD_READY" and off: "ThreadTimer t \<notin> set (rt_timer_list k1)" and tm: "time_ok time"
  shows "\<exists>k'. timer_schedule time t k1 = Some k' \<and> kinv lo k' \<and> queues k' = queues k1 \<and> threads k' = threads k1 \<and> objs k' = objs k1 \<and>
     (ThreadTimer t \<in> set (rt_timer_list k') \<longleftrightarrow> 0 < sint time) \<and>
     rt_tick k' = rt_tick k1 \<and> rt_scheduler_lock_nest k' = rt_scheduler_lock_nest k1 \<and>
     rt_interrupt_nest k' = rt_interrupt_nest k1 \<and> rt_current_thread k' \<noteq> None \<and>
     (rt_scheduler_lock_nest k1 = 0 \<longrightarrow> rt_current_thread k' \<noteq> Some t)"
proof -
  have "\<exists>k2. (if 0 < sint time then
                 do { let k = snd (rt_timer_control (ThreadTimer t) (RT_TIMER_CTRL_SET_TIME time) k1);
                      rt_timer_start (ThreadTimer t) k }
               else Some k1) = Some k2 \<and> kinv lo k2 \<and> queues k2 = queues k1 \<and> threads k2 = threads k1 \<and> objs k2 = objs k1 \<and>
     same_ctx k1 k2 \<and> (ThreadTimer t \<in> set (rt_timer_list k2) \<longleftrightarrow> 0 < sint time)"
  proof (cases "0 < sint time")
    case True
    from start_thread_timer [OF inv1 s1 time_ok_half [OF tm True] lo] obtain k2 where
      "rt_timer_start (ThreadTimer t) (snd (rt_timer_control (ThreadTimer t) (RT_TIMER_CTRL_SET_TIME time) k1)) = Some k2"
      "kinv lo k2" "queues k2 = queues k1" "threads k2 = threads k1" "objs k2 = objs k1" "same_ctx k1 k2"
      "set (rt_timer_list k2) = insert (ThreadTimer t) (set (rt_timer_list k1))" by blast
    with True show ?thesis by simp
  next
    case False
    with inv1 off show ?thesis by auto
  qed
  then obtain k2 where k2: "(if 0 < sint time then
                 do { let k = snd (rt_timer_control (ThreadTimer t) (RT_TIMER_CTRL_SET_TIME time) k1);
                      rt_timer_start (ThreadTimer t) k }
               else Some k1) = Some k2" and inv2: "kinv lo k2" and fr2: "queues k2 = queues k1" "threads k2 = threads k1" "objs k2 = objs k1"
     "same_ctx k1 k2" "ThreadTimer t \<in> set (rt_timer_list k2) \<longleftrightarrow> 0 < sint time" by blast
  have "some_ready k2" using u fr2(2) unfolding some_ready_def by metis
  moreover have "rt_current_thread k2 = Some t" using fr2(4) c by (simp add: same_ctx_def)
  ultimately obtain k' where k': "rt_schedule k2 = Some k'" "same_data k2 k'" "kinv lo k'"
    "rt_current_thread k' \<noteq> None" using kinv_schedule [OF inv2] by metis
  have "rt_current_thread k' \<noteq> Some t" if "rt_scheduler_lock_nest k1 = 0"
  proof -
    have "rt_scheduler_lock_nest k2 = 0" using that fr2(4) by (simp add: same_ctx_def)
    from kinv_current_ready [OF inv2 k'(1) this] obtain v where
      "rt_current_thread k' = Some v" "stat (threads k2 v) = RT_THREAD_READY" by blast
    moreover have "stat (threads k2 t) = RT_THREAD_SUSPEND" using fr2(2) s1 by simp
    ultimately show ?thesis by auto
  qed
  moreover have "timer_schedule time t k1 = Some k'" unfolding timer_schedule_def using k2 k'(1) by simp
  moreover have "queues k' = queues k1" "threads k' = threads k1" "objs k' = objs k1"
    "rt_timer_list k' = rt_timer_list k2" "rt_tick k' = rt_tick k1" "rt_scheduler_lock_nest k' = rt_scheduler_lock_nest k1"
    "rt_interrupt_nest k' = rt_interrupt_nest k1"
    using k'(2) fr2 by (simp_all add: same_data_def same_ctx_def)
  ultimately show ?thesis using k'(3,4) fr2(5) by simp
qed

lemma ipc_wait_spec:
  assumes inv: "kinv lo k" and lo: "lo \<le> 0" and c: "rt_current_thread k = Some t" and r: "stat (threads k t) = RT_THREAD_READY"
    and u: "stat (threads k u) = RT_THREAD_READY" "u \<noteq> t" and q: "waiting q"
    and fl: "flag = RT_IPC_FLAG_FIFO \<or> flag = RT_IPC_FLAG_PRIO" and tm: "time_ok time"
  shows "\<exists>k'. ipc_wait q flag time t k = Some k' \<and> kinv lo k' \<and>
     threads k' = (threads k)(t := (threads k t)\<lparr>stat := RT_THREAD_SUSPEND\<rparr>) \<and>
     q_list k' q = wait_insert flag (\<lambda>s. current_priority (threads k s)) t (q_list k q) \<and>
     (\<forall>q'. waiting q' \<and> q' \<noteq> q \<longrightarrow> q_list k' q' = q_list k q') \<and>
     (ThreadTimer t \<in> set (rt_timer_list k') \<longleftrightarrow> 0 < sint time) \<and> objs k' = objs k \<and>
     rt_tick k' = rt_tick k \<and> rt_scheduler_lock_nest k' = rt_scheduler_lock_nest k \<and>
     rt_interrupt_nest k' = rt_interrupt_nest k \<and> rt_current_thread k' \<noteq> None \<and>
     (rt_scheduler_lock_nest k = 0 \<longrightarrow> rt_current_thread k' \<noteq> Some t)"
proof -
  from rt_ipc_list_suspend_spec [OF inv r q fl] obtain k1 where k1: "rt_ipc_list_suspend q t flag k = Some k1" and inv1: "kinv lo k1"
    and th1: "threads k1 = (threads k)(t := (threads k t)\<lparr>stat := RT_THREAD_SUSPEND\<rparr>)"
    and l1: "q_list k1 q = wait_insert flag (\<lambda>s. current_priority (threads k s)) t (q_list k q)"
      "\<forall>q'. q' \<noteq> q \<longrightarrow> q_list k1 q' = remove1 t (q_list k q')"
    and fr1: "set (rt_timer_list k1) = set (rt_timer_list k)" "ThreadTimer t \<notin> set (rt_timer_list k)" "objs k1 = objs k" "same_ctx k k1"
    by blast
  have oth: "q_list k1 q' = q_list k q'" if "waiting q'" "q' \<noteq> q" for q'
  proof -
    have "t \<notin> set (q_list k q')" using waiting_suspended [OF inv that(1), of t] r by auto
    with l1(2) that show ?thesis by (simp add: remove1_idem)
  qed
  have s1: "rt_current_thread k1 = Some t" "stat (threads k1 t) = RT_THREAD_SUSPEND" "stat (threads k1 u) = RT_THREAD_READY"
    "ThreadTimer t \<notin> set (rt_timer_list k1)"
    using th1 u fr1 c by (simp_all add: same_ctx_def)
  from timer_schedule_spec [OF inv1 lo s1 tm] obtain k' where "timer_schedule time t k1 = Some k'" "kinv lo k'" "queues k' = queues k1"
    "threads k' = threads k1" "objs k' = objs k1" "ThreadTimer t \<in> set (rt_timer_list k') \<longleftrightarrow> 0 < sint time"
    "rt_tick k' = rt_tick k1" "rt_scheduler_lock_nest k' = rt_scheduler_lock_nest k1" "rt_interrupt_nest k' = rt_interrupt_nest k1"
    "rt_current_thread k' \<noteq> None" "rt_scheduler_lock_nest k1 = 0 \<longrightarrow> rt_current_thread k' \<noteq> Some t" by blast
  moreover have "ipc_wait q flag time t k = timer_schedule time t k1"
    unfolding ipc_wait_def using k1 by simp
  ultimately show ?thesis using th1 l1(1) oth fr1 by (simp add: same_ctx_def)
qed


section \<open>Waiting and waking in a running system\<close>

text \<open>A running system: the invariant, with a ready current thread, and another ready thread (the
  idle thread) for the scheduler to turn to.\<close>

definition running :: "kernel \<Rightarrow> tid \<Rightarrow> bool" where
  "running k t \<longleftrightarrow> kinv 0 k \<and> rt_current_thread k = Some t \<and> stat (threads k t) = RT_THREAD_READY \<and>
     (\<exists>u. u \<noteq> t \<and> stat (threads k u) = RT_THREAD_READY)"

lemma runningD:
  assumes "running k t"
  shows "kinv 0 k" "rt_current_thread k = Some t" "stat (threads k t) = RT_THREAD_READY" "some_ready k"
    "\<exists>u. u \<noteq> t \<and> stat (threads k u) = RT_THREAD_READY"
  using assms by (auto simp: running_def some_ready_def)

text \<open>The flag of the object is one of the two orders.\<close>

definition ipc_flag_ok :: "nat \<Rightarrow> kernel \<Rightarrow> bool" where
  "ipc_flag_ok i k \<longleftrightarrow> ipc_flag i k = RT_IPC_FLAG_FIFO \<or> ipc_flag i k = RT_IPC_FLAG_PRIO"

text \<open>Blocking the running thread on the object's list, with its error cleared.\<close>

lemma block_spec:
  assumes run: "running k t" and q: "waiting q" and fl: "flag = RT_IPC_FLAG_FIFO \<or> flag = RT_IPC_FLAG_PRIO" and tm: "time_ok time"
  shows "\<exists>k'. ipc_wait q flag time t (upd_thread t (\<lambda>th. th\<lparr>error := RT_EOK\<rparr>) k) = Some k' \<and> kinv 0 k' \<and>
     threads k' = (threads k)(t := (threads k t)\<lparr>error := RT_EOK, stat := RT_THREAD_SUSPEND\<rparr>) \<and>
     q_list k' q = wait_insert flag (\<lambda>s. current_priority (threads k s)) t (q_list k q) \<and>
     (\<forall>q'. waiting q' \<and> q' \<noteq> q \<longrightarrow> q_list k' q' = q_list k q') \<and>
     (ThreadTimer t \<in> set (rt_timer_list k') \<longleftrightarrow> 0 < sint time) \<and> objs k' = objs k \<and>
     rt_tick k' = rt_tick k \<and> rt_scheduler_lock_nest k' = rt_scheduler_lock_nest k \<and>
     rt_interrupt_nest k' = rt_interrupt_nest k \<and> rt_current_thread k' \<noteq> None \<and>
     (rt_scheduler_lock_nest k = 0 \<longrightarrow> rt_current_thread k' \<noteq> Some t)"
proof -
  let ?k1 = "upd_thread t (\<lambda>th. th\<lparr>error := RT_EOK\<rparr>) k"
  from runningD(5) [OF run] obtain u where u: "u \<noteq> t" "stat (threads k u) = RT_THREAD_READY" by blast
  have inv1: "kinv 0 ?k1" by (rule kinv_upd_error [OF runningD(1) [OF run]])
  have pr: "(\<lambda>s. current_priority (threads ?k1 s)) = (\<lambda>s. current_priority (threads k s))" by (rule ext) simp
  have "\<exists>k'. ipc_wait q flag time t ?k1 = Some k' \<and> kinv 0 k' \<and>
     threads k' = (threads ?k1)(t := (threads ?k1 t)\<lparr>stat := RT_THREAD_SUSPEND\<rparr>) \<and>
     q_list k' q = wait_insert flag (\<lambda>s. current_priority (threads ?k1 s)) t (q_list ?k1 q) \<and>
     (\<forall>q'. waiting q' \<and> q' \<noteq> q \<longrightarrow> q_list k' q' = q_list ?k1 q') \<and>
     (ThreadTimer t \<in> set (rt_timer_list k') \<longleftrightarrow> 0 < sint time) \<and> objs k' = objs ?k1 \<and>
     rt_tick k' = rt_tick ?k1 \<and> rt_scheduler_lock_nest k' = rt_scheduler_lock_nest ?k1 \<and>
     rt_interrupt_nest k' = rt_interrupt_nest ?k1 \<and> rt_current_thread k' \<noteq> None \<and>
     (rt_scheduler_lock_nest ?k1 = 0 \<longrightarrow> rt_current_thread k' \<noteq> Some t)"
    using runningD(2,3) [OF run] u
    by (intro ipc_wait_spec [OF inv1 order_refl _ _ _ u(1) q fl tm]) auto
  then show ?thesis unfolding pr by simp
qed

lemma wake_schedule_spec:
  assumes inv: "kinv 0 k" and q: "waiting q" and l: "q_list k q = t # ts" and c: "rt_current_thread k = Some c"
  shows "\<exists>k1 k'. rt_ipc_list_resume q k = Some k1 \<and> rt_schedule k1 = Some k' \<and> kinv 0 k' \<and>
     threads k' = (threads k)(t := (threads k t)\<lparr>stat := RT_THREAD_READY\<rparr>) \<and> q_list k' q = ts \<and>
     (\<forall>q'. waiting q' \<and> q' \<noteq> q \<longrightarrow> q_list k' q' = q_list k q') \<and> objs k' = objs k \<and> rt_tick k' = rt_tick k \<and>
     rt_current_thread k' \<noteq> None"
proof -
  from rt_ipc_list_resume_spec [OF inv q l] obtain k1 where k1: "rt_ipc_list_resume q k = Some k1" "kinv 0 k1"
    "threads k1 = (threads k)(t := (threads k t)\<lparr>stat := RT_THREAD_READY\<rparr>)" "q_list k1 q = ts"
    "\<forall>q'. waiting q' \<and> q' \<noteq> q \<longrightarrow> q_list k1 q' = q_list k q'" "objs k1 = objs k" "same_ctx k k1" by blast
  have "some_ready k1" unfolding some_ready_def by (rule exI [of _ t]) (simp add: k1(3))
  moreover have "rt_current_thread k1 = Some c" using k1(7) c by (simp add: same_ctx_def)
  ultimately obtain k' where "rt_schedule k1 = Some k'" "same_data k1 k'" "kinv 0 k'" "rt_current_thread k' \<noteq> None"
    using kinv_schedule [OF k1(2)] by metis
  with k1 show ?thesis by (simp add: same_data_def same_ctx_def)
qed
section \<open>The interface of a waiting list\<close>

text \<open>
  What the IPC objects rely on: suspending a runnable thread puts it where the list's order
  says, resuming takes the first one and makes it runnable, and resuming all empties the list.
\<close>

fun seq_opt :: "('a \<Rightarrow> 'k \<Rightarrow> 'k option) \<Rightarrow> 'a list \<Rightarrow> 'k \<Rightarrow> 'k option" where
  "seq_opt f [] k = Some k"
| "seq_opt f (x # xs) k = Option.bind (f x k) (seq_opt f xs)"

locale wait_list =
  fixes ok :: "'k \<Rightarrow> bool" and waiters :: "'k \<Rightarrow> 't list" and runnable :: "'k \<Rightarrow> 't \<Rightarrow> bool"
    and suspend :: "'t \<Rightarrow> 'k \<Rightarrow> 'k option" and resume :: "'k \<Rightarrow> 'k option" and resume_all :: "'k \<Rightarrow> 'k option"
    and place :: "'k \<Rightarrow> 't \<Rightarrow> 't list \<Rightarrow> 't list"
  assumes suspend_law: "ok k \<Longrightarrow> runnable k t \<Longrightarrow> \<exists>k'. suspend t k = Some k' \<and> ok k' \<and>
        waiters k' = place k t (waiters k) \<and> (\<forall>u. runnable k' u \<longleftrightarrow> runnable k u \<and> u \<noteq> t)"
    and resume_law: "ok k \<Longrightarrow> waiters k = t # ts \<Longrightarrow> \<exists>k'. resume k = Some k' \<and> ok k' \<and> waiters k' = ts \<and>
        (\<forall>u. runnable k' u \<longleftrightarrow> runnable k u \<or> u = t)"
    and resume_all_law: "ok k \<Longrightarrow> \<exists>k'. resume_all k = Some k' \<and> ok k' \<and> waiters k' = [] \<and>
        (\<forall>u. runnable k' u \<longleftrightarrow> runnable k u \<or> u \<in> set (waiters k))"
begin

lemma resume_take:
  "ok k \<Longrightarrow> n \<le> length (waiters k) \<Longrightarrow> \<exists>k'. seq_opt (\<lambda>_. resume) [0..<n] k = Some k' \<and> ok k' \<and>
     waiters k' = drop n (waiters k) \<and> (\<forall>u. runnable k' u \<longleftrightarrow> runnable k u \<or> u \<in> set (take n (waiters k)))"
proof -
  have "ok k \<Longrightarrow> length ns \<le> length (waiters k) \<Longrightarrow> \<exists>k'. seq_opt (\<lambda>_. resume) ns k = Some k' \<and> ok k' \<and>
     waiters k' = drop (length ns) (waiters k) \<and>
     (\<forall>u. runnable k' u \<longleftrightarrow> runnable k u \<or> u \<in> set (take (length ns) (waiters k)))" for ns :: "nat list"
  proof (induction ns arbitrary: k)
    case (Cons n ns)
    then obtain t ts where w: "waiters k = t # ts" by (cases "waiters k") auto
    from resume_law [OF Cons.prems(1) w] obtain k1 where k1: "resume k = Some k1" "ok k1" "waiters k1 = ts"
      "\<forall>u. runnable k1 u \<longleftrightarrow> runnable k u \<or> u = t" by blast
    with Cons.IH [OF k1(2)] Cons.prems(2) w show ?case by auto
  qed simp
  from this [of "[0..<n]"] show "ok k \<Longrightarrow> n \<le> length (waiters k) \<Longrightarrow> ?thesis" by simp
qed

end

locale fifo_list = wait_list +
  assumes place_last: "place k t ts = ts @ [t]"
begin

lemma suspend_seq:
  "ok k \<Longrightarrow> distinct ts \<Longrightarrow> \<forall>t\<in>set ts. runnable k t \<Longrightarrow> \<exists>k'. seq_opt suspend ts k = Some k' \<and> ok k' \<and>
     waiters k' = waiters k @ ts \<and> (\<forall>u. runnable k' u \<longleftrightarrow> runnable k u \<and> u \<notin> set ts)"
proof (induction ts arbitrary: k)
  case (Cons t ts)
  from suspend_law [of k t] Cons.prems obtain k1 where k1: "suspend t k = Some k1" "ok k1" "waiters k1 = waiters k @ [t]"
    "\<forall>u. runnable k1 u \<longleftrightarrow> runnable k u \<and> u \<noteq> t" by (auto simp: place_last)
  with Cons.IH [OF k1(2)] Cons.prems show ?case by auto
qed simp

text \<open>First come, first served.\<close>

lemma fifo_order:
  assumes "ok k" and "waiters k = []" and "distinct ts" and "\<forall>t\<in>set ts. runnable k t" and "n \<le> length ts"
  shows "\<exists>k1 k2. seq_opt suspend ts k = Some k1 \<and> seq_opt (\<lambda>_. resume) [0..<n] k1 = Some k2 \<and> ok k2 \<and>
     waiters k2 = drop n ts \<and> (\<forall>t\<in>set ts. runnable k2 t \<longleftrightarrow> t \<in> set (take n ts))"
proof -
  from suspend_seq [OF assms(1,3,4)] assms(2) obtain k1 where k1: "seq_opt suspend ts k = Some k1" "ok k1" "waiters k1 = ts"
    "\<forall>u. runnable k1 u \<longleftrightarrow> runnable k u \<and> u \<notin> set ts" by auto
  from resume_take [OF k1(2), of n] assms(5) k1 show ?thesis by auto
qed

end

locale prio_list = wait_list +
  fixes level :: "'k \<Rightarrow> 't \<Rightarrow> nat"
  assumes place_sorted: "sorted (map (level k) ts) \<Longrightarrow> sorted (map (level k) (place k t ts))"
    and suspend_level: "ok k \<Longrightarrow> runnable k t \<Longrightarrow> suspend t k = Some k' \<Longrightarrow> level k' = level k"
    and resume_level: "ok k \<Longrightarrow> waiters k \<noteq> [] \<Longrightarrow> resume k = Some k' \<Longrightarrow> level k' = level k"
    and place_set: "set (place k t ts) = insert t (set ts)"
begin

lemma suspend_sorted:
  "ok k \<Longrightarrow> distinct ts \<Longrightarrow> \<forall>t\<in>set ts. runnable k t \<Longrightarrow> sorted (map (level k) (waiters k)) \<Longrightarrow>
   \<exists>k'. seq_opt suspend ts k = Some k' \<and> ok k' \<and> level k' = level k \<and>
     set (waiters k') = set (waiters k) \<union> set ts \<and> sorted (map (level k) (waiters k')) \<and>
     (\<forall>u. runnable k' u \<longleftrightarrow> runnable k u \<and> u \<notin> set ts)"
proof (induction ts arbitrary: k)
  case (Cons t ts)
  from suspend_law [of k t] Cons.prems obtain k1 where k1: "suspend t k = Some k1" "ok k1" "waiters k1 = place k t (waiters k)"
    "\<forall>u. runnable k1 u \<longleftrightarrow> runnable k u \<and> u \<noteq> t" by auto
  have lv: "level k1 = level k" using suspend_level [OF _ _ k1(1)] Cons.prems by auto
  have "sorted (map (level k1) (waiters k1))" using place_sorted [OF Cons.prems(4)] k1(3) lv by simp
  with Cons.IH [OF k1(2)] Cons.prems k1 lv place_set show ?case by auto
qed simp

text \<open>The thread resumed is one of the highest priority waiting.\<close>

lemma resume_highest:
  assumes "ok k" and "distinct ts" and "\<forall>t\<in>set ts. runnable k t" and "waiters k = []" and "ts \<noteq> []"
  shows "\<exists>k1 k2 t. seq_opt suspend ts k = Some k1 \<and> resume k1 = Some k2 \<and> ok k2 \<and> t \<in> set ts \<and> runnable k2 t \<and>
     (\<forall>u\<in>set ts. level k t \<le> level k u)"
proof -
  from suspend_sorted [OF assms(1-3)] assms(4) obtain k1 where k1: "seq_opt suspend ts k = Some k1" "ok k1"
    "set (waiters k1) = set ts" "sorted (map (level k) (waiters k1))" by auto
  from assms(5) k1(3) obtain t ws where w: "waiters k1 = t # ws" by (cases "waiters k1") auto
  from resume_law [OF k1(2) w] obtain k2 where k2: "resume k1 = Some k2" "ok k2" "runnable k2 t" by blast
  have "level k t \<le> level k u" if "u \<in> set ts" for u
    using that k1(3,4) w by auto
  then show ?thesis using k1 k2 w by auto
qed

end


text \<open>Both orders of \<^verbatim>\<open>rt_ipc_list_suspend\<close> provide the interface.\<close>

lemma suspend_law_kernel:
  assumes "kinv lo k" and "stat (threads k t) = RT_THREAD_READY" and "flag = RT_IPC_FLAG_FIFO \<or> flag = RT_IPC_FLAG_PRIO"
  shows "\<exists>k'. rt_ipc_list_suspend (Wait i) t flag k = Some k' \<and> kinv lo k' \<and>
     q_list k' (Wait i) = wait_insert flag (\<lambda>s. current_priority (threads k s)) t (q_list k (Wait i)) \<and>
     (\<forall>u. stat (threads k' u) = RT_THREAD_READY \<longleftrightarrow> stat (threads k u) = RT_THREAD_READY \<and> u \<noteq> t)"
proof -
  from rt_ipc_list_suspend_spec [OF assms(1,2) waiting_simps(1) assms(3), of i] obtain k' where
    "rt_ipc_list_suspend (Wait i) t flag k = Some k'" "kinv lo k'"
    "threads k' = (threads k)(t := (threads k t)\<lparr>stat := RT_THREAD_SUSPEND\<rparr>)"
    "q_list k' (Wait i) = wait_insert flag (\<lambda>s. current_priority (threads k s)) t (q_list k (Wait i))" by blast
  then show ?thesis by simp
qed

lemma resume_law_kernel:
  assumes "kinv lo k" and "q_list k (Wait i) = t # ts"
  shows "\<exists>k'. rt_ipc_list_resume (Wait i) k = Some k' \<and> kinv lo k' \<and> q_list k' (Wait i) = ts \<and>
     (\<forall>u. stat (threads k' u) = RT_THREAD_READY \<longleftrightarrow> stat (threads k u) = RT_THREAD_READY \<or> u = t)"
proof -
  from rt_ipc_list_resume_spec [OF assms(1) waiting_simps(1) assms(2)] obtain k' where
    "rt_ipc_list_resume (Wait i) k = Some k'" "kinv lo k'" "q_list k' (Wait i) = ts"
    "threads k' = (threads k)(t := (threads k t)\<lparr>stat := RT_THREAD_READY\<rparr>)" by blast
  then show ?thesis by simp
qed

lemma resume_all_law_kernel:
  assumes "kinv lo k"
  shows "\<exists>k'. rt_ipc_list_resume_all (Wait i) k = Some k' \<and> kinv lo k' \<and> q_list k' (Wait i) = [] \<and>
     (\<forall>u. stat (threads k' u) = RT_THREAD_READY \<longleftrightarrow> stat (threads k u) = RT_THREAD_READY \<or> u \<in> set (q_list k (Wait i)))"
proof -
  from rt_ipc_list_resume_all_spec [OF assms waiting_simps(1), of i] obtain k' where
    "rt_ipc_list_resume_all (Wait i) k = Some k'" "kinv lo k'" "q_list k' (Wait i) = []"
    "threads k' = resumed_with_error k (Wait i)" by blast
  then show ?thesis by (simp add: resumed_with_error_def)
qed

interpretation ipc_fifo: fifo_list "kinv lo" "\<lambda>k. q_list k (Wait i)" "\<lambda>k t. stat (threads k t) = RT_THREAD_READY"
    "\<lambda>t. rt_ipc_list_suspend (Wait i) t RT_IPC_FLAG_FIFO" "rt_ipc_list_resume (Wait i)" "rt_ipc_list_resume_all (Wait i)"
    "\<lambda>k t ts. ts @ [t]" for lo i
proof unfold_locales
  fix k t
  assume a: "kinv lo k" "stat (threads k t) = RT_THREAD_READY"
  show "\<exists>k'. rt_ipc_list_suspend (Wait i) t RT_IPC_FLAG_FIFO k = Some k' \<and> kinv lo k' \<and>
      q_list k' (Wait i) = q_list k (Wait i) @ [t] \<and>
      (\<forall>u. stat (threads k' u) = RT_THREAD_READY \<longleftrightarrow> stat (threads k u) = RT_THREAD_READY \<and> u \<noteq> t)"
    using suspend_law_kernel [OF a, of RT_IPC_FLAG_FIFO i] by (simp add: wait_insert_def)
qed (fact resume_law_kernel resume_all_law_kernel | rule refl)+

lemma suspend_prio:
  assumes "rt_ipc_list_suspend q t flag k = Some k'" and "kinv lo k" and "stat (threads k t) = RT_THREAD_READY"
    and "waiting q" and "flag = RT_IPC_FLAG_FIFO \<or> flag = RT_IPC_FLAG_PRIO"
  shows "prio k' u = prio k u"
proof -
  from rt_ipc_list_suspend_spec [OF assms(2-5)] assms(1)
  have "threads k' = (threads k)(t := (threads k t)\<lparr>stat := RT_THREAD_SUSPEND\<rparr>)" by auto
  then show ?thesis by simp
qed

lemma resume_prio:
  assumes "rt_ipc_list_resume q k = Some k'" and "kinv lo k" and "q_list k q \<noteq> []" and "waiting q"
  shows "prio k' u = prio k u"
proof -
  from assms(3) obtain t ts where "q_list k q = t # ts" by (cases "q_list k q") auto
  from rt_ipc_list_resume_spec [OF assms(2,4) this] assms(1)
  have "threads k' = (threads k)(t := (threads k t)\<lparr>stat := RT_THREAD_READY\<rparr>)" by auto
  then show ?thesis by simp
qed

interpretation ipc_prio: prio_list "kinv lo" "\<lambda>k. q_list k (Wait i)" "\<lambda>k t. stat (threads k t) = RT_THREAD_READY"
    "\<lambda>t. rt_ipc_list_suspend (Wait i) t RT_IPC_FLAG_PRIO" "rt_ipc_list_resume (Wait i)" "rt_ipc_list_resume_all (Wait i)"
    "\<lambda>k t ts. wait_insert RT_IPC_FLAG_PRIO (\<lambda>s. current_priority (threads k s)) t ts" "\<lambda>k t. prio k t" for lo i
proof unfold_locales
  fix k t
  assume a: "kinv lo k" "stat (threads k t) = RT_THREAD_READY"
  show "\<exists>k'. rt_ipc_list_suspend (Wait i) t RT_IPC_FLAG_PRIO k = Some k' \<and> kinv lo k' \<and>
      q_list k' (Wait i) = wait_insert RT_IPC_FLAG_PRIO (\<lambda>s. current_priority (threads k s)) t (q_list k (Wait i)) \<and>
      (\<forall>u. stat (threads k' u) = RT_THREAD_READY \<longleftrightarrow> stat (threads k u) = RT_THREAD_READY \<and> u \<noteq> t)"
    using suspend_law_kernel [OF a, of RT_IPC_FLAG_PRIO i] by simp
next
  fix k t k'
  assume "kinv lo k" "stat (threads k t) = RT_THREAD_READY" "rt_ipc_list_suspend (Wait i) t RT_IPC_FLAG_PRIO k = Some k'"
  then show "(\<lambda>t. prio k' t) = (\<lambda>t. prio k t)" by (intro ext suspend_prio) auto
next
  fix k k'
  assume "kinv lo k" "q_list k (Wait i) \<noteq> []" "rt_ipc_list_resume (Wait i) k = Some k'"
  then show "(\<lambda>t. prio k' t) = (\<lambda>t. prio k t)" by (intro ext resume_prio) auto
qed (fact resume_law_kernel resume_all_law_kernel wait_insert_sorted set_wait_insert)+

text \<open>
  Threads suspended on an IPC object with \<^verbatim>\<open>RT_IPC_FLAG_FIFO\<close> are resumed in the order in which
  they were suspended: after \<open>n\<close> calls of \<^verbatim>\<open>rt_ipc_list_resume\<close> the first \<open>n\<close> of them are ready and
  the others still wait in order.
\<close>

theorem rt_ipc_list_fifo_order:
  assumes "kinv lo k" and "q_list k (Wait i) = []" and "distinct ts"
    and "\<forall>t\<in>set ts. stat (threads k t) = RT_THREAD_READY" and "n \<le> length ts"
  shows "\<exists>k1 k2. seq_opt (\<lambda>t. rt_ipc_list_suspend (Wait i) t RT_IPC_FLAG_FIFO) ts k = Some k1 \<and>
     seq_opt (\<lambda>_. rt_ipc_list_resume (Wait i)) [0..<n] k1 = Some k2 \<and> kinv lo k2 \<and>
     q_list k2 (Wait i) = drop n ts \<and>
     (\<forall>t\<in>set ts. stat (threads k2 t) = RT_THREAD_READY \<longleftrightarrow> t \<in> set (take n ts))"
  using ipc_fifo.fifo_order [OF assms] .

lemma boot_no_waiters: "q_list boot_kernel (Wait i) = []"
proof -
  have "t \<notin> set (q_list boot_kernel (Wait i))" for t
    using waiting_suspended [OF boot_kernel(2) waiting_simps(1), of t i] boot_kernel(4) [of t] by (auto split: if_splits)
  then show ?thesis by (metis list.set_intros(1) neq_Nil_conv)
qed

theorem rt_ipc_list_fifo_order_witness:
  "\<exists>k1 k2. seq_opt (\<lambda>t. rt_ipc_list_suspend (Wait 7) t RT_IPC_FLAG_FIFO) [1, 2] boot_kernel = Some k1 \<and>
     seq_opt (\<lambda>_. rt_ipc_list_resume (Wait 7)) [0..<1] k1 = Some k2 \<and> q_list k2 (Wait 7) = [2]"
  using rt_ipc_list_fifo_order [OF boot_kernel(2) boot_no_waiters, of "[1, 2]" 1 7] by (auto simp: boot_kernel)



end
