(* ===== verification/Semaphore.thy ===== *)
theory Semaphore
  imports Ipc
begin

text \<open>
  Semaphores, \<^verbatim>\<open>src/ipc.c\<close>: the operations on a semaphore \<open>i\<close> whose threads wait on the list
  \<open>Wait i\<close> and whose object is \<open>OIpc i\<close>, and their refinement of a counting semaphore with a
  queue.  An operation takes and returns the semaphore's record beside the kernel's state.
\<close>

unbundle bit_operations_syntax

section \<open>The operations\<close>

record rt_semaphore =
  sem_value :: u16

definition rt_sem_init :: "nat \<Rightarrow> cstr \<Rightarrow> u32 \<Rightarrow> u8 \<Rightarrow> kernel \<Rightarrow> (rt_err_t \<times> rt_semaphore \<times> kernel) option" where
  "rt_sem_init i name value flag k =
     do { os \<leftarrow> rt_object_init (OIpc i) RT_Object_Class_Semaphore name (objs k);
          k \<leftarrow> rt_ipc_object_init i (k\<lparr>objs := os\<rparr>);
          let sem = \<lparr>sem_value = ucast value\<rparr>;
          Some (RT_EOK, sem, set_ipc_flag i flag k) }"

definition rt_sem_detach :: "nat \<Rightarrow> kernel \<Rightarrow> (rt_err_t \<times> kernel) option" where
  "rt_sem_detach i k =
     do { k \<leftarrow> rt_ipc_list_resume_all (Wait i) k;
          Some (RT_EOK, k\<lparr>objs := rt_object_detach (OIpc i) (objs k)\<rparr>) }"

text \<open>\<open>mem\<close> is the outcome of the allocation in \<^verbatim>\<open>rt_object_allocate\<close>.\<close>

definition rt_sem_create ::
  "nat option \<Rightarrow> cstr \<Rightarrow> u32 \<Rightarrow> u8 \<Rightarrow> kernel \<Rightarrow> ((nat \<times> rt_semaphore) option \<times> kernel) option" where
  "rt_sem_create mem name value flag k =
     do { not_in_interrupt k;
          (sem, os) \<leftarrow> rt_object_allocate (map_option OIpc mem) RT_Object_Class_Semaphore name (objs k);
          let k = k\<lparr>objs := os\<rparr>;
          (case mem of
             None \<Rightarrow> Some (None, k)
           | Some i \<Rightarrow> do { k \<leftarrow> rt_ipc_object_init i k;
                            Some (Some (i, \<lparr>sem_value = ucast value\<rparr>), set_ipc_flag i flag k) }) }"

definition rt_sem_delete :: "nat \<Rightarrow> kernel \<Rightarrow> (rt_err_t \<times> kernel) option" where
  "rt_sem_delete i k =
     do { not_in_interrupt k;
          k \<leftarrow> rt_ipc_list_resume_all (Wait i) k;
          os \<leftarrow> rt_object_delete (OIpc i) (objs k);
          Some (RT_EOK, k\<lparr>objs := os\<rparr>) }"

text \<open>\<^verbatim>\<open>rt_sem_take\<close> up to its result or its wait, and the rest of a call that waited.\<close>

definition rt_sem_take ::
  "nat \<Rightarrow> rt_int32_t \<Rightarrow> rt_semaphore \<Rightarrow> kernel \<Rightarrow> ((rt_err_t, tid) outcome \<times> rt_semaphore \<times> kernel) option" where
  "rt_sem_take i time sem k =
     (if sem_value sem > 0 then Some (Ret RT_EOK, sem\<lparr>sem_value := sem_value sem - 1\<rparr>, k)
      else if time = 0 then Some (Ret (- RT_ETIMEOUT), sem, k)
      else do { thread \<leftarrow> in_thread_context k;
                let k = upd_thread thread (\<lambda>th. th\<lparr>error := RT_EOK\<rparr>) k;
                k \<leftarrow> ipc_wait (Wait i) (ipc_flag i k) time thread k;
                Some (Blocked thread, sem, k) })"

definition rt_sem_take_wake :: "tid \<Rightarrow> kernel \<Rightarrow> rt_err_t" where
  "rt_sem_take_wake thread k =
     (if error (threads k thread) \<noteq> RT_EOK then error (threads k thread) else RT_EOK)"

definition rt_sem_trytake ::
  "nat \<Rightarrow> rt_semaphore \<Rightarrow> kernel \<Rightarrow> ((rt_err_t, tid) outcome \<times> rt_semaphore \<times> kernel) option" where
  "rt_sem_trytake i sem k = rt_sem_take i RT_WAITING_NO sem k"

definition rt_sem_release :: "nat \<Rightarrow> rt_semaphore \<Rightarrow> kernel \<Rightarrow> (rt_err_t \<times> rt_semaphore \<times> kernel) option" where
  "rt_sem_release i sem k =
     do { (need_schedule, sem, k) \<leftarrow>
            (if \<not> fam_isempty (Wait i) (queues k)
             then do { k \<leftarrow> rt_ipc_list_resume (Wait i) k; Some (True, sem, k) }
             else Some (False, sem\<lparr>sem_value := sem_value sem + 1\<rparr>, k));
          k \<leftarrow> (if need_schedule then rt_schedule k else Some k);
          Some (RT_EOK, sem, k) }"

definition rt_sem_control ::
  "nat \<Rightarrow> ipc_cmd \<Rightarrow> rt_semaphore \<Rightarrow> kernel \<Rightarrow> (rt_err_t \<times> rt_semaphore \<times> kernel) option" where
  "rt_sem_control i cmd sem k =
     (case cmd of
        RT_IPC_CMD_RESET value \<Rightarrow>
          do { k \<leftarrow> rt_ipc_list_resume_all (Wait i) k;
               let sem = sem\<lparr>sem_value := ucast value\<rparr>;
               k \<leftarrow> rt_schedule k;
               Some (RT_EOK, sem, k) }
      | RT_IPC_CMD_UNKNOWN \<Rightarrow> Some (- RT_ERROR, sem, k))"

section \<open>A counting semaphore with a queue\<close>

text \<open>
  What a semaphore promises, with an unbounded count: \<open>asem_take\<close> gives the result of a call that
  returns at once, or nothing for a caller that waits.
\<close>

record asem =
  asem_value :: nat
  asem_waiters :: "tid list"

definition asem_take :: "(tid \<Rightarrow> tid list \<Rightarrow> tid list) \<Rightarrow> rt_int32_t \<Rightarrow> tid \<Rightarrow> asem \<Rightarrow> rt_err_t option \<times> asem" where
  "asem_take place time t a =
     (if 0 < asem_value a then (Some RT_EOK, a\<lparr>asem_value := asem_value a - 1\<rparr>)
      else if time = 0 then (Some (- RT_ETIMEOUT), a)
      else (None, a\<lparr>asem_waiters := place t (asem_waiters a)\<rparr>))"

definition asem_release :: "asem \<Rightarrow> asem" where
  "asem_release a =
     (case asem_waiters a of [] \<Rightarrow> a\<lparr>asem_value := asem_value a + 1\<rparr> | t # ts \<Rightarrow> a\<lparr>asem_waiters := ts\<rparr>)"

definition asem_inv :: "asem \<Rightarrow> bool" where
  "asem_inv a \<longleftrightarrow> asem_value a = 0 \<or> asem_waiters a = []"

lemma asem_take_inv: "asem_inv a \<Longrightarrow> asem_inv (snd (asem_take place time t a))"
  by (auto simp: asem_inv_def asem_take_def)

lemma asem_release_inv: "asem_inv a \<Longrightarrow> asem_inv (asem_release a)"
  by (auto simp: asem_inv_def asem_release_def split: list.split)

definition sem_abs :: "nat \<Rightarrow> rt_semaphore \<Rightarrow> kernel \<Rightarrow> asem" where
  "sem_abs i sem k = \<lparr>asem_value = unat (sem_value sem), asem_waiters = q_list k (Wait i)\<rparr>"

lemma unat_dec: "0 < w \<Longrightarrow> unat (w - 1 :: u16) = unat w - 1"
  by (simp add: unat_minus_one word_gt_0)

lemma rt_sem_take_spec:
  assumes run: "running k t" and fl: "ipc_flag_ok i k" and tm: "time_ok time" and n: "rt_interrupt_nest k = 0"
  shows "\<exists>out sem' k'. rt_sem_take i time sem k = Some (out, sem', k') \<and> kinv 0 k' \<and>
     (case out of
        Ret e \<Rightarrow> k' = k \<and> asem_take (wait_insert (ipc_flag i k) (\<lambda>s. current_priority (threads k s))) time t (sem_abs i sem k)
                   = (Some e, sem_abs i sem' k')
      | Blocked t' \<Rightarrow> t' = t \<and> asem_take (wait_insert (ipc_flag i k) (\<lambda>s. current_priority (threads k s))) time t (sem_abs i sem k)
                   = (None, sem_abs i sem' k') \<and>
          threads k' = (threads k)(t := (threads k t)\<lparr>error := RT_EOK, stat := RT_THREAD_SUSPEND\<rparr>) \<and>
          (ThreadTimer t \<in> set (rt_timer_list k') \<longleftrightarrow> 0 < sint time) \<and>
          (rt_scheduler_lock_nest k = 0 \<longrightarrow> rt_current_thread k' \<noteq> Some t))"
proof (cases "sem_value sem > 0 \<or> time = 0")
  case True
  then show ?thesis
    using runningD(1) [OF run]
    by (auto simp: rt_sem_take_def asem_take_def sem_abs_def unat_dec unat_gt_0 word_gt_0)
next
  case False
  then have v: "sem_value sem = 0" and t0: "time \<noteq> 0" by (auto simp: word_gt_0)
  have ctx: "in_thread_context k = Some t"
    using runningD(2) [OF run] n by (simp add: in_thread_context_def rt_thread_self_def not_in_interrupt_def rt_interrupt_get_nest_def)
  have "ipc_flag i k = RT_IPC_FLAG_FIFO \<or> ipc_flag i k = RT_IPC_FLAG_PRIO" using fl by (simp add: ipc_flag_ok_def)
  from block_spec [OF run waiting_simps(1) this tm, of i] obtain k' where
    k': "ipc_wait (Wait i) (ipc_flag i k) time t (upd_thread t (\<lambda>th. th\<lparr>error := RT_EOK\<rparr>) k) = Some k'" "kinv 0 k'"
     "threads k' = (threads k)(t := (threads k t)\<lparr>error := RT_EOK, stat := RT_THREAD_SUSPEND\<rparr>)"
     "q_list k' (Wait i) = wait_insert (ipc_flag i k) (\<lambda>s. current_priority (threads k s)) t (q_list k (Wait i))"
     "ThreadTimer t \<in> set (rt_timer_list k') \<longleftrightarrow> 0 < sint time"
     "rt_scheduler_lock_nest k = 0 \<longrightarrow> rt_current_thread k' \<noteq> Some t" by blast
  have "ipc_flag i (upd_thread t (\<lambda>th. th\<lparr>error := RT_EOK\<rparr>) k) = ipc_flag i k" by (simp add: ipc_flag_def)
  with ctx v t0 k' have "rt_sem_take i time sem k = Some (Blocked t, sem, k')" by (simp add: rt_sem_take_def Let_def)
  with k' v t0 show ?thesis by (simp add: asem_take_def sem_abs_def)
qed

lemma rt_sem_release_spec:
  assumes inv: "kinv 0 k" and c: "rt_current_thread k = Some c"
  shows "\<exists>sem' k'. rt_sem_release i sem k = Some (RT_EOK, sem', k') \<and> kinv 0 k' \<and>
     (case q_list k (Wait i) of
        [] \<Rightarrow> k' = k \<and> sem' = sem\<lparr>sem_value := sem_value sem + 1\<rparr>
      | t # ts \<Rightarrow> sem' = sem \<and> q_list k' (Wait i) = ts \<and>
          threads k' = (threads k)(t := (threads k t)\<lparr>stat := RT_THREAD_READY\<rparr>))"
proof (cases "q_list k (Wait i)")
  case Nil
  with inv show ?thesis by (simp add: rt_sem_release_def fam_isempty_def)
next
  case (Cons t ts)
  from wake_schedule_spec [OF inv waiting_simps(1) Cons c] obtain k1 k' where
    "rt_ipc_list_resume (Wait i) k = Some k1" "rt_schedule k1 = Some k'" "kinv 0 k'"
    "threads k' = (threads k)(t := (threads k t)\<lparr>stat := RT_THREAD_READY\<rparr>)" "q_list k' (Wait i) = ts" by blast
  with Cons show ?thesis by (simp add: rt_sem_release_def fam_isempty_def)
qed

text \<open>
  C8: \<^verbatim>\<open>rt_sem_take\<close> refines the counting semaphore in every branch: it takes a positive count at
  once, returns \<^verbatim>\<open>-RT_ETIMEOUT\<close> when the count is 0 and the waiting time is 0, and otherwise
  suspends the caller at its place in the waiting list, with its timer running exactly if the
  time is positive, and switches away.
\<close>

theorem rt_sem_take_refines:
  assumes "running k t" and "ipc_flag_ok i k" and "time_ok time" and "rt_interrupt_nest k = 0"
  shows "\<exists>out sem' k'. rt_sem_take i time sem k = Some (out, sem', k') \<and> kinv 0 k' \<and>
     (case out of
        Ret e \<Rightarrow> k' = k \<and> asem_take (wait_insert (ipc_flag i k) (\<lambda>s. current_priority (threads k s))) time t (sem_abs i sem k)
                   = (Some e, sem_abs i sem' k')
      | Blocked t' \<Rightarrow> t' = t \<and> asem_take (wait_insert (ipc_flag i k) (\<lambda>s. current_priority (threads k s))) time t (sem_abs i sem k)
                   = (None, sem_abs i sem' k') \<and>
          threads k' = (threads k)(t := (threads k t)\<lparr>error := RT_EOK, stat := RT_THREAD_SUSPEND\<rparr>) \<and>
          (ThreadTimer t \<in> set (rt_timer_list k') \<longleftrightarrow> 0 < sint time) \<and>
          (rt_scheduler_lock_nest k = 0 \<longrightarrow> rt_current_thread k' \<noteq> Some t))"
  using rt_sem_take_spec [OF assms] .

lemma boot_running: "running boot_kernel 2"
  unfolding running_def by (auto simp: boot_kernel intro: exI [of _ 0])

lemma boot_ipc_flag: "ipc_flag 7 boot_kernel = RT_IPC_FLAG_FIFO"
proof -
  have "map_option (ipc_flag 7) boot = Some 0" by code_simp
  then show ?thesis unfolding boot_kernel(1) by simp
qed

theorem rt_sem_take_refines_witness:
  "\<exists>k'. rt_sem_take 7 5 \<lparr>sem_value = 0\<rparr> boot_kernel = Some (Blocked 2, \<lparr>sem_value = 0\<rparr>, k') \<and>
     q_list k' (Wait 7) = [2] \<and> ThreadTimer 2 \<in> set (rt_timer_list k') \<and> rt_current_thread k' \<noteq> Some 2"
proof -
  have "ipc_flag_ok 7 boot_kernel" by (simp add: ipc_flag_ok_def boot_ipc_flag)
  moreover have "time_ok 5" by (simp add: time_ok_def)
  ultimately obtain out sem' k' where r: "rt_sem_take 7 5 \<lparr>sem_value = 0\<rparr> boot_kernel = Some (out, sem', k')"
    and c: "case out of
        Ret e \<Rightarrow> k' = boot_kernel \<and> asem_take (wait_insert (ipc_flag 7 boot_kernel) (\<lambda>s. current_priority (threads boot_kernel s))) 5 2
            (sem_abs 7 \<lparr>sem_value = 0\<rparr> boot_kernel) = (Some e, sem_abs 7 sem' k')
      | Blocked t' \<Rightarrow> t' = 2 \<and> asem_take (wait_insert (ipc_flag 7 boot_kernel) (\<lambda>s. current_priority (threads boot_kernel s))) 5 2
            (sem_abs 7 \<lparr>sem_value = 0\<rparr> boot_kernel) = (None, sem_abs 7 sem' k') \<and>
          threads k' = (threads boot_kernel)(2 := (threads boot_kernel 2)\<lparr>error := RT_EOK, stat := RT_THREAD_SUSPEND\<rparr>) \<and>
          (ThreadTimer 2 \<in> set (rt_timer_list k') \<longleftrightarrow> 0 < sint (5 :: rt_int32_t)) \<and>
          (rt_scheduler_lock_nest boot_kernel = 0 \<longrightarrow> rt_current_thread k' \<noteq> Some 2)"
    using rt_sem_take_refines [OF boot_running, of 7 5 "\<lparr>sem_value = 0\<rparr>"] boot_kernel(11) by blast
  have "out = Blocked 2" using c by (cases out) (auto simp: asem_take_def sem_abs_def)
  moreover have "sem' = \<lparr>sem_value = 0\<rparr>" using r by (auto simp: rt_sem_take_def Option.bind_eq_Some_conv Let_def)
  ultimately show ?thesis
    using c r by (auto simp: asem_take_def sem_abs_def boot_no_waiters wait_insert_def boot_kernel boot_ipc_flag)
qed

text \<open>
  C9: \<^verbatim>\<open>rt_sem_release\<close> refines the counting semaphore as long as the 16-bit count does not overflow:
  with a thread waiting it hands the unit to the first one, which becomes ready and whose
  \<^verbatim>\<open>rt_sem_take\<close> will return \<^verbatim>\<open>RT_EOK\<close>; otherwise it counts up.  Together with C20 this keeps the
  semaphore free of waiters whenever its count is positive.
\<close>

theorem rt_sem_release_refines:
  assumes inv: "kinv 0 k" and c: "rt_current_thread k = Some c" and w: "unat (sem_value sem) < 2 ^ 16 - 1"
    and e: "\<forall>t\<in>set (q_list k (Wait i)). error (threads k t) = RT_EOK"
  shows "\<exists>sem' k'. rt_sem_release i sem k = Some (RT_EOK, sem', k') \<and> kinv 0 k' \<and>
     sem_abs i sem' k' = asem_release (sem_abs i sem k) \<and>
     (asem_inv (sem_abs i sem k) \<longrightarrow> asem_inv (sem_abs i sem' k')) \<and>
     (q_list k (Wait i) \<noteq> [] \<longrightarrow> stat (threads k' (hd (q_list k (Wait i)))) = RT_THREAD_READY \<and>
        rt_sem_take_wake (hd (q_list k (Wait i))) k' = RT_EOK)"
proof -
  from rt_sem_release_spec [OF inv c, of i sem] obtain sem' k' where r: "rt_sem_release i sem k = Some (RT_EOK, sem', k')" "kinv 0 k'"
    and cs: "case q_list k (Wait i) of
        [] \<Rightarrow> k' = k \<and> sem' = sem\<lparr>sem_value := sem_value sem + 1\<rparr>
      | t # ts \<Rightarrow> sem' = sem \<and> q_list k' (Wait i) = ts \<and>
          threads k' = (threads k)(t := (threads k t)\<lparr>stat := RT_THREAD_READY\<rparr>)" by blast
  have inc: "unat (sem_value sem + 1) = unat (sem_value sem) + 1" using w by (simp add: unat_word_ariths)
  have abs: "sem_abs i sem' k' = asem_release (sem_abs i sem k)"
    using cs inc by (auto simp: sem_abs_def asem_release_def split: list.splits)
  have "stat (threads k' t) = RT_THREAD_READY \<and> rt_sem_take_wake t k' = RT_EOK" if "q_list k (Wait i) = t # ts" for t ts
    using cs that e by (simp add: rt_sem_take_wake_def)
  then show ?thesis using r abs asem_release_inv by (cases "q_list k (Wait i)") auto
qed

lemma boot_blocked:
  "\<exists>k. rt_sem_take 7 5 \<lparr>sem_value = 0\<rparr> boot_kernel = Some (Blocked 2, \<lparr>sem_value = 0\<rparr>, k) \<and> kinv 0 k \<and>
     q_list k (Wait 7) = [2] \<and> rt_current_thread k \<noteq> None \<and>
     threads k = (threads boot_kernel)(2 := (threads boot_kernel 2)\<lparr>error := RT_EOK, stat := RT_THREAD_SUSPEND\<rparr>)"
proof -
  have "RT_IPC_FLAG_FIFO = RT_IPC_FLAG_FIFO \<or> RT_IPC_FLAG_FIFO = RT_IPC_FLAG_PRIO" "time_ok 5" by (simp_all add: time_ok_def)
  from block_spec [OF boot_running waiting_simps(1) this, of 7] obtain k where
    "ipc_wait (Wait 7) 0 5 2 (upd_thread 2 (\<lambda>th. th\<lparr>error := RT_EOK\<rparr>) boot_kernel) = Some k" "kinv 0 k"
    "threads k = (threads boot_kernel)(2 := (threads boot_kernel 2)\<lparr>error := RT_EOK, stat := RT_THREAD_SUSPEND\<rparr>)"
    "q_list k (Wait 7) = [2]" "rt_current_thread k \<noteq> None"
    by (auto simp: wait_insert_def boot_no_waiters)
  moreover have "ipc_flag 7 (upd_thread 2 (\<lambda>th. th\<lparr>error := RT_EOK\<rparr>) boot_kernel) = 0"
    using boot_ipc_flag by (simp add: ipc_flag_def)
  moreover have "in_thread_context boot_kernel = Some 2"
    by (simp add: in_thread_context_def rt_thread_self_def not_in_interrupt_def rt_interrupt_get_nest_def boot_kernel)
  ultimately show ?thesis by (simp add: rt_sem_take_def Let_def)
qed

theorem rt_sem_release_refines_witness:
  "\<exists>k k'. rt_sem_take 7 5 \<lparr>sem_value = 0\<rparr> boot_kernel = Some (Blocked 2, \<lparr>sem_value = 0\<rparr>, k) \<and>
     rt_sem_release 7 \<lparr>sem_value = 0\<rparr> k = Some (RT_EOK, \<lparr>sem_value = 0\<rparr>, k') \<and> rt_sem_take_wake 2 k' = RT_EOK"
proof -
  from boot_blocked obtain k where k: "rt_sem_take 7 5 \<lparr>sem_value = 0\<rparr> boot_kernel = Some (Blocked 2, \<lparr>sem_value = 0\<rparr>, k)"
    "kinv 0 k" "q_list k (Wait 7) = [2]" "rt_current_thread k \<noteq> None"
    "threads k = (threads boot_kernel)(2 := (threads boot_kernel 2)\<lparr>error := RT_EOK, stat := RT_THREAD_SUSPEND\<rparr>)" by blast
  then obtain c where "rt_current_thread k = Some c" by blast
  from rt_sem_release_refines [OF k(2) this, of "\<lparr>sem_value = 0\<rparr>" 7] k(3,5) obtain sem' k' where
    r: "rt_sem_release 7 \<lparr>sem_value = 0\<rparr> k = Some (RT_EOK, sem', k')" "sem_abs 7 sem' k' = asem_release (sem_abs 7 \<lparr>sem_value = 0\<rparr> k)"
    "rt_sem_take_wake 2 k' = RT_EOK" by auto
  have "sem' = \<lparr>sem_value = 0\<rparr>" using r(2) k(3) by (cases sem') (simp add: sem_abs_def asem_release_def unat_eq_0)
  with k(1) r show ?thesis by auto
qed

text \<open>
  The other ways a waiting \<^verbatim>\<open>rt_sem_take\<close> ends: when the waiting time runs out, the caller leaves
  the list and gets \<^verbatim>\<open>-RT_ETIMEOUT\<close>; when the semaphore is detached, every waiter is made ready and
  gets \<^verbatim>\<open>-RT_ERROR\<close>, and the object is in no container any more.
\<close>

theorem rt_sem_take_interrupted:
  assumes inv: "kinv 0 k" and t: "t \<in> set (q_list k (Wait i))" and c: "rt_current_thread k = Some c"
  shows "(ThreadTimer t \<notin> set (rt_timer_list k) \<longrightarrow> (\<exists>k'. rt_thread_timeout t k = Some k' \<and> kinv 0 k' \<and>
           q_list k' (Wait i) = remove1 t (q_list k (Wait i)) \<and> rt_sem_take_wake t k' = - RT_ETIMEOUT)) \<and>
     (\<exists>k'. rt_sem_detach i k = Some (RT_EOK, k') \<and> kinv 0 k' \<and> q_list k' (Wait i) = [] \<and>
           stat (threads k' t) = RT_THREAD_READY \<and> rt_sem_take_wake t k' = - RT_ERROR \<and>
           fam_loc (rt_object_container (objs k')) (OIpc i) = None)"
proof -
  have s: "stat (threads k t) = RT_THREAD_SUSPEND" using waiting_suspended [OF inv waiting_simps(1) t] .
  have "\<exists>k'. rt_thread_timeout t k = Some k' \<and> kinv 0 k' \<and>
      q_list k' (Wait i) = remove1 t (q_list k (Wait i)) \<and> rt_sem_take_wake t k' = - RT_ETIMEOUT"
    if off: "ThreadTimer t \<notin> set (rt_timer_list k)"
  proof -
    from rt_thread_timeout_spec [OF inv s off c] obtain k' where "rt_thread_timeout t k = Some k'" "kinv 0 k'"
      "threads k' = (threads k)(t := (threads k t)\<lparr>error := - RT_ETIMEOUT, stat := RT_THREAD_READY\<rparr>)"
      "\<forall>q. q_list k' q = (if q = Ready (prio k t) then q_list k q @ [t] else remove1 t (q_list k q))" by blast
    then show ?thesis by (simp add: rt_sem_take_wake_def)
  qed
  moreover from rt_ipc_list_resume_all_spec [OF inv waiting_simps(1), of i] obtain k1 where
    k1: "rt_ipc_list_resume_all (Wait i) k = Some k1" "kinv 0 k1" "threads k1 = resumed_with_error k (Wait i)"
      "q_list k1 (Wait i) = []" by blast
  let ?k' = "k1\<lparr>objs := rt_object_detach (OIpc i) (objs k1)\<rparr>"
  have "kinv 0 ?k'" using kinv_objs [OF k1(2) rt_object_detach_inv [OF kinvD(3) [OF k1(2)]]] .
  moreover have "fam_loc (rt_object_container (objs ?k')) (OIpc i) = None" by (simp add: rt_object_detach_def)
  ultimately show ?thesis
    using k1 t by (simp add: rt_sem_detach_def rt_sem_take_wake_def resumed_with_error_def)
qed

theorem rt_sem_take_interrupted_witness:
  "\<exists>k k'. rt_sem_take 7 5 \<lparr>sem_value = 0\<rparr> boot_kernel = Some (Blocked 2, \<lparr>sem_value = 0\<rparr>, k) \<and>
     rt_sem_detach 7 k = Some (RT_EOK, k') \<and> rt_sem_take_wake 2 k' = - RT_ERROR"
proof -
  from boot_blocked obtain k where k: "rt_sem_take 7 5 \<lparr>sem_value = 0\<rparr> boot_kernel = Some (Blocked 2, \<lparr>sem_value = 0\<rparr>, k)"
    "kinv 0 k" "q_list k (Wait 7) = [2]" "rt_current_thread k \<noteq> None" by blast
  then obtain c where "rt_current_thread k = Some c" by blast
  from rt_sem_take_interrupted [OF k(2) _ this, of 2 7] k(1,3) show ?thesis by auto
qed

text \<open>
  The count is an unsigned 16-bit number: the release that should make it 65536 makes it 0,
  and all the units are lost.
\<close>

theorem rt_sem_release_wraps:
  assumes "kinv 0 k" and "rt_current_thread k = Some c" and "q_list k (Wait i) = []" and "unat (sem_value sem) = 2 ^ 16 - 1"
  shows "\<exists>sem'. rt_sem_release i sem k = Some (RT_EOK, sem', k) \<and> sem_value sem' = 0"
proof -
  have "unat (sem_value sem) = unat (0xffff :: u16)" using assms(4) by simp
  then have "sem_value sem = 0xffff" by (simp only: word_unat_eq_iff)
  with rt_sem_release_spec [OF assms(1,2), of i sem] assms(3) show ?thesis by auto
qed

theorem rt_sem_release_wraps_witness:
  "\<exists>sem'. rt_sem_release 7 \<lparr>sem_value = 0xffff\<rparr> boot_kernel = Some (RT_EOK, sem', boot_kernel) \<and> sem_value sem' = 0"
  using rt_sem_release_wraps [OF boot_kernel(2,3) boot_no_waiters, of "\<lparr>sem_value = 0xffff\<rparr>" 7] by simp

end
