(* ===== verification/Mutex.thy ===== *)
theory Mutex
  imports Semaphore
begin

text \<open>
  Mutexes, \<^verbatim>\<open>src/ipc.c\<close>: recursive ownership, the hand-over to a waiter on release, and
  priority inheritance.
\<close>

unbundle bit_operations_syntax

record rt_mutex =
  mtx_value :: u16
  original_priority :: u8
  hold :: u8
  owner :: "tid option"

definition mutex_fields :: rt_mutex where
  "mutex_fields = \<lparr>mtx_value = 1, original_priority = 0xff, hold = 0, owner = None\<rparr>"

definition rt_mutex_init :: "nat \<Rightarrow> cstr \<Rightarrow> u8 \<Rightarrow> kernel \<Rightarrow> (rt_err_t \<times> rt_mutex \<times> kernel) option" where
  "rt_mutex_init i name flag k =
     do { os \<leftarrow> rt_object_init (OIpc i) RT_Object_Class_Mutex name (objs k);
          k \<leftarrow> rt_ipc_object_init i (k\<lparr>objs := os\<rparr>);
          Some (RT_EOK, mutex_fields, set_ipc_flag i flag k) }"

definition rt_mutex_detach :: "nat \<Rightarrow> kernel \<Rightarrow> (rt_err_t \<times> kernel) option" where
  "rt_mutex_detach i k =
     do { k \<leftarrow> rt_ipc_list_resume_all (Wait i) k;
          Some (RT_EOK, k\<lparr>objs := rt_object_detach (OIpc i) (objs k)\<rparr>) }"

definition rt_mutex_create ::
  "nat option \<Rightarrow> cstr \<Rightarrow> u8 \<Rightarrow> kernel \<Rightarrow> ((nat \<times> rt_mutex) option \<times> kernel) option" where
  "rt_mutex_create mem name flag k =
     do { not_in_interrupt k;
          (mutex, os) \<leftarrow> rt_object_allocate (map_option OIpc mem) RT_Object_Class_Mutex name (objs k);
          let k = k\<lparr>objs := os\<rparr>;
          (case mem of
             None \<Rightarrow> Some (None, k)
           | Some i \<Rightarrow> do { k \<leftarrow> rt_ipc_object_init i k;
                            Some (Some (i, mutex_fields), set_ipc_flag i flag k) }) }"

definition rt_mutex_delete :: "nat \<Rightarrow> kernel \<Rightarrow> (rt_err_t \<times> kernel) option" where
  "rt_mutex_delete i k =
     do { not_in_interrupt k;
          k \<leftarrow> rt_ipc_list_resume_all (Wait i) k;
          os \<leftarrow> rt_object_delete (OIpc i) (objs k);
          Some (RT_EOK, k\<lparr>objs := os\<rparr>) }"

definition rt_mutex_take ::
  "nat \<Rightarrow> rt_int32_t \<Rightarrow> rt_mutex \<Rightarrow> kernel \<Rightarrow> ((rt_err_t, tid) outcome \<times> rt_mutex \<times> kernel) option" where
  "rt_mutex_take i time mutex k =
     do { thread \<leftarrow> in_thread_context k;
          let k = upd_thread thread (\<lambda>th. th\<lparr>error := RT_EOK\<rparr>) k;
          if owner mutex = Some thread then
            Some (Ret RT_EOK, mutex\<lparr>hold := hold mutex + 1\<rparr>, k)
          else if mtx_value mutex > 0 then
            Some (Ret RT_EOK,
                  mutex\<lparr>mtx_value := mtx_value mutex - 1, owner := Some thread,
                        original_priority := current_priority (threads k thread), hold := hold mutex + 1\<rparr>, k)
          else if time = 0 then
            Some (Ret (- RT_ETIMEOUT), mutex, upd_thread thread (\<lambda>th. th\<lparr>error := - RT_ETIMEOUT\<rparr>) k)
          else
            do { own \<leftarrow> owner mutex;
                 k \<leftarrow> (if current_priority (threads k thread) < current_priority (threads k own)
                      then do { (_, k) \<leftarrow> rt_thread_control own
                                  (RT_THREAD_CTRL_CHANGE_PRIORITY (current_priority (threads k thread))) k;
                                Some k }
                      else Some k);
                 k \<leftarrow> ipc_wait (Wait i) (ipc_flag i k) time thread k;
                 Some (Blocked thread, mutex, k) } }"

definition rt_mutex_take_wake :: "tid \<Rightarrow> kernel \<Rightarrow> rt_err_t" where
  "rt_mutex_take_wake thread k =
     (if error (threads k thread) \<noteq> RT_EOK then error (threads k thread) else RT_EOK)"

definition rt_mutex_release :: "nat \<Rightarrow> rt_mutex \<Rightarrow> kernel \<Rightarrow> (rt_err_t \<times> rt_mutex \<times> kernel) option" where
  "rt_mutex_release i mutex k =
     do { thread \<leftarrow> in_thread_context k;
          if Some thread \<noteq> owner mutex then
            Some (- RT_ERROR, mutex, upd_thread thread (\<lambda>th. th\<lparr>error := - RT_ERROR\<rparr>) k)
          else
            do { let mutex = mutex\<lparr>hold := hold mutex - 1\<rparr>;
                 if hold mutex = 0 then
                   do { k \<leftarrow> (if original_priority mutex \<noteq> current_priority (threads k thread)
                             then do { (_, k) \<leftarrow> rt_thread_control thread
                                         (RT_THREAD_CTRL_CHANGE_PRIORITY (original_priority mutex)) k;
                                       Some k }
                             else Some k);
                        (case q_list k (Wait i) of
                           new # _ \<Rightarrow>
                             do { let mutex = mutex\<lparr>owner := Some new,
                                                   original_priority := current_priority (threads k new),
                                                   hold := hold mutex + 1\<rparr>;
                                  k \<leftarrow> rt_ipc_list_resume (Wait i) k;
                                  k \<leftarrow> rt_schedule k;
                                  Some (RT_EOK, mutex, k) }
                         | [] \<Rightarrow>
                             Some (RT_EOK, mutex\<lparr>mtx_value := mtx_value mutex + 1, owner := None,
                                                 original_priority := 0xff\<rparr>, k)) }
                 else Some (RT_EOK, mutex, k) } }"

definition rt_mutex_control :: "rt_mutex \<Rightarrow> rt_err_t" where
  "rt_mutex_control mutex = - RT_ERROR"

section \<open>Invariant\<close>

text \<open>
  The mutex is free, with count 1, no owner and nobody waiting, or it is owned by a live
  thread that does not wait on it, with count 0 and a positive hold count.  With
  \<^verbatim>\<open>RT_IPC_FLAG_PRIO\<close> the waiters are in the order of their priorities, and the owner's priority
  is at least that of every waiter.
\<close>

definition mutex_inv :: "nat \<Rightarrow> rt_mutex \<Rightarrow> kernel \<Rightarrow> bool" where
  "mutex_inv i m k \<longleftrightarrow>
     (case owner m of
        None \<Rightarrow> mtx_value m = 1 \<and> hold m = 0 \<and> q_list k (Wait i) = []
      | Some t \<Rightarrow> mtx_value m = 0 \<and> hold m \<noteq> 0 \<and> live k t \<and> t \<notin> set (q_list k (Wait i)) \<and>
                  unat (original_priority m) < 32)"

definition inherits :: "nat \<Rightarrow> rt_mutex \<Rightarrow> kernel \<Rightarrow> bool" where
  "inherits i m k \<longleftrightarrow> sorted (map (prio k) (q_list k (Wait i))) \<and>
     (\<forall>t. owner m = Some t \<longrightarrow> (\<forall>w\<in>set (q_list k (Wait i)). prio k t \<le> prio k w))"

lemma wait_insert_cong:
  assumes "\<And>s. s \<in> insert t (set ts) \<Longrightarrow> pr' s = pr s"
  shows "wait_insert flag pr' t ts = wait_insert flag pr t ts"
  using assms by (auto simp: wait_insert_def cong: takeWhile_cong dropWhile_cong)

text \<open>The waiting branch: the owner is raised to the caller's priority when that is higher.\<close>

definition boosted :: "kernel \<Rightarrow> tid \<Rightarrow> tid \<Rightarrow> rt_thread" where
  "boosted k t own = (if current_priority (threads k t) < current_priority (threads k own)
     then (threads k own)\<lparr>current_priority := current_priority (threads k t),
                           number_mask := push_bit (prio k t) 1\<rparr>
     else threads k own)"

lemma boost_spec:
  assumes inv: "kinv 0 k" and own: "live k own" and t: "live k t"
  shows "\<exists>k'. (if current_priority (threads k t) < current_priority (threads k own)
              then do { (_, k) \<leftarrow> rt_thread_control own
                          (RT_THREAD_CTRL_CHANGE_PRIORITY (current_priority (threads k t))) k; Some k }
              else Some k) = Some k' \<and> kinv 0 k' \<and> threads k' = (threads k)(own := boosted k t own) \<and>
     objs k' = objs k \<and> same_ctx k k' \<and> (\<forall>j. q_list k' (Wait j) = q_list k (Wait j) \<and> q_list k' (SenderWait j) = q_list k (SenderWait j))"
proof (cases "current_priority (threads k t) < current_priority (threads k own)")
  case True
  have "prio k t < 32" using kinv_live(1) [OF inv, of t] t by (simp add: live_def thread_static_ok_def)
  from change_priority_spec [OF inv own this] obtain k' where
    "rt_thread_control own (RT_THREAD_CTRL_CHANGE_PRIORITY (current_priority (threads k t))) k = Some (RT_EOK, k')" "kinv 0 k'"
    "threads k' = (threads k)(own := (threads k own)\<lparr>current_priority := current_priority (threads k t), number_mask := push_bit (prio k t) 1\<rparr>)"
    "objs k' = objs k" "same_ctx k k'"
    "\<forall>i. q_list k' (Wait i) = q_list k (Wait i) \<and> q_list k' (SenderWait i) = q_list k (SenderWait i)" by blast
  with True show ?thesis by (simp add: boosted_def)
next
  case False
  with inv show ?thesis by (simp add: boosted_def)
qed
lemma mutex_inv_cong:
  "q_list k' (Wait i) = q_list k (Wait i) \<Longrightarrow> (\<And>t. live k' t = live k t) \<Longrightarrow> mutex_inv i m k' = mutex_inv i m k"
  by (auto simp: mutex_inv_def split: option.split)

lemma inherits_cong:
  "q_list k' (Wait i) = q_list k (Wait i) \<Longrightarrow> (\<And>t. prio k' t = prio k t) \<Longrightarrow> inherits i m k' = inherits i m k"
  by (simp add: inherits_def)

lemma boosted_prio: "unat (current_priority (boosted k t own)) = min (prio k own) (prio k t)"
  by (auto simp: boosted_def word_less_nat_alt)

lemma rt_mutex_take_block:
  assumes run: "running k t" and mi: "mutex_inv i m k" and fl: "ipc_flag_ok i k" and tm: "time_ok time" and n: "rt_interrupt_nest k = 0"
    and own: "owner m = Some own" "own \<noteq> t" and t0: "time \<noteq> 0"
  shows "\<exists>k'. rt_mutex_take i time m k = Some (Blocked t, m, k') \<and> kinv 0 k' \<and>
     threads k' = (threads k)(own := boosted k t own, t := (threads k t)\<lparr>error := RT_EOK, stat := RT_THREAD_SUSPEND\<rparr>) \<and>
     q_list k' (Wait i) = wait_insert (ipc_flag i k) (\<lambda>s. current_priority (threads k s)) t (q_list k (Wait i)) \<and>
     (rt_scheduler_lock_nest k = 0 \<longrightarrow> rt_current_thread k' \<noteq> Some t)"
proof -
  let ?k1 = "upd_thread t (\<lambda>th. th\<lparr>error := RT_EOK\<rparr>) k"
  have ctx: "in_thread_context k = Some t"
    using runningD(2) [OF run] n by (simp add: in_thread_context_def rt_thread_self_def not_in_interrupt_def rt_interrupt_get_nest_def)
  have v: "mtx_value m = 0" and lv: "live k own" and nw: "own \<notin> set (q_list k (Wait i))"
    using mi own by (simp_all add: mutex_inv_def)
  have inv1: "kinv 0 ?k1" by (rule kinv_upd_error [OF runningD(1) [OF run]])
  have lv1: "live ?k1 own" "live ?k1 t" using lv own runningD(3) [OF run] by (simp_all add: live_def)
  have b1: "boosted ?k1 t own = boosted k t own" using own by (simp add: boosted_def)
  from boost_spec [OF inv1 lv1] obtain k2 where
    k2: "(if current_priority (threads ?k1 t) < current_priority (threads ?k1 own)
              then do { (_, k) \<leftarrow> rt_thread_control own
                          (RT_THREAD_CTRL_CHANGE_PRIORITY (current_priority (threads ?k1 t))) ?k1; Some k }
              else Some ?k1) = Some k2" and inv2: "kinv 0 k2"
    and th2: "threads k2 = (threads ?k1)(own := boosted k t own)" and fr2: "objs k2 = objs k" "same_ctx ?k1 k2"
      "q_list k2 (Wait i) = q_list k (Wait i)" unfolding b1 by auto
  have stat2: "stat (threads k2 u) = stat (threads k u)" for u using th2 by (auto simp: boosted_def)
  from runningD(5) [OF run] obtain u where u: "u \<noteq> t" "stat (threads k2 u) = RT_THREAD_READY" using stat2 by auto
  have flag: "ipc_flag i k2 = ipc_flag i k" using fr2 by (simp add: ipc_flag_def)
  have c2: "rt_current_thread k2 = Some t" "stat (threads k2 t) = RT_THREAD_READY"
    using fr2(2) runningD(2,3) [OF run] stat2 by (simp_all add: same_ctx_def)
  from ipc_wait_spec [OF inv2 order_refl c2 u(2,1) waiting_simps(1) _ tm, of "ipc_flag i k" i] fl obtain k' where
    k': "ipc_wait (Wait i) (ipc_flag i k) time t k2 = Some k'" "kinv 0 k'"
      "threads k' = (threads k2)(t := (threads k2 t)\<lparr>stat := RT_THREAD_SUSPEND\<rparr>)"
      "q_list k' (Wait i) = wait_insert (ipc_flag i k) (\<lambda>s. current_priority (threads k2 s)) t (q_list k2 (Wait i))"
      "rt_scheduler_lock_nest k2 = 0 \<longrightarrow> rt_current_thread k' \<noteq> Some t"
    unfolding ipc_flag_ok_def by blast
  have "wait_insert (ipc_flag i k) (\<lambda>s. current_priority (threads k2 s)) t (q_list k (Wait i)) =
      wait_insert (ipc_flag i k) (\<lambda>s. current_priority (threads k s)) t (q_list k (Wait i))"
    using nw own(2) th2 by (intro wait_insert_cong) auto
  moreover have "rt_mutex_take i time m k = Some (Blocked t, m, k')"
    using ctx own v t0 k2 k'(1) flag by (simp add: rt_mutex_take_def Let_def split del: if_split)
  moreover have "threads k' = (threads k)(own := boosted k t own, t := (threads k t)\<lparr>error := RT_EOK, stat := RT_THREAD_SUSPEND\<rparr>)"
    using k'(3) th2 own(2) by (auto simp: fun_eq_iff)
  ultimately show ?thesis using k' fr2 by (simp add: same_ctx_def)
qed

lemma block_mutex_inv:
  assumes mi: "mutex_inv i m k" and own: "owner m = Some own" "own \<noteq> t"
    and th: "threads k' = (threads k)(own := boosted k t own, t := (threads k t)\<lparr>error := RT_EOK, stat := RT_THREAD_SUSPEND\<rparr>)"
    and ql: "q_list k' (Wait i) = wait_insert flag (\<lambda>s. current_priority (threads k s)) t (q_list k (Wait i))"
  shows "mutex_inv i m k'" and "flag = RT_IPC_FLAG_PRIO \<Longrightarrow> inherits i m k \<Longrightarrow> inherits i m k'"
proof -
  have nw: "own \<notin> set (q_list k (Wait i))" using mi own by (simp add: mutex_inv_def)
  have "stat (threads k' own) = stat (threads k own)" using th own by (simp add: boosted_def)
  then have lv: "live k' own = live k own" by (simp add: live_def)
  with mi own ql show "mutex_inv i m k'" by (simp add: mutex_inv_def)
  have pr: "prio k' s = prio k s" if "s \<noteq> own" for s using th that by simp
  have po: "prio k' own = min (prio k own) (prio k t)" using th own(2) boosted_prio by simp
  assume fl: "flag = RT_IPC_FLAG_PRIO" and inh: "inherits i m k"
  have no: "x \<noteq> own" if "x \<in> set (q_list k' (Wait i))" for x using that ql nw own(2) by auto
  then have mp: "map (prio k') (q_list k' (Wait i)) = map (prio k) (q_list k' (Wait i))" using pr by (intro map_cong) simp_all
  have "sorted (map (prio k) (q_list k' (Wait i)))"
    unfolding ql fl using inh wait_insert_sorted by (auto simp: inherits_def)
  then have "sorted (map (prio k') (q_list k' (Wait i)))" by (simp only: mp)
  moreover have "prio k' own \<le> prio k' w" if "w \<in> set (q_list k' (Wait i))" for w
  proof (cases "w = t")
    case True
    then show ?thesis using po pr [of t] own(2) by simp
  next
    case False
    then have "w \<in> set (q_list k (Wait i))" using that ql by simp
    then have "prio k own \<le> prio k w" using inh own by (simp add: inherits_def)
    then show ?thesis using po pr [OF no [OF that]] by simp
  qed
  ultimately show "inherits i m k'" using own by (simp add: inherits_def)
qed


lemma running_not_waiting:
  assumes "running k t" and "waiting q"
  shows "t \<notin> set (q_list k q)"
  using waiting_suspended [OF runningD(1) [OF assms(1)] assms(2), of t] runningD(3) [OF assms(1)] by auto

lemma running_prio: "running k t \<Longrightarrow> prio k t < 32"
  using kinv_live(1) [OF runningD(1), of k t t] runningD(3) [of k t] by (auto simp: thread_static_ok_def)

lemma upd_error_prio [simp]: "prio (upd_thread t (\<lambda>th. th\<lparr>error := e\<rparr>) k) u = prio k u"
  by simp

lemma upd_error_live [simp]: "live (upd_thread t (\<lambda>th. th\<lparr>error := e\<rparr>) k) u = live k u"
  by (simp add: live_def)

text \<open>The branches that return at once.\<close>

lemma rt_mutex_take_now:
  assumes run: "running k t" and mi: "mutex_inv i m k" and n: "rt_interrupt_nest k = 0"
    and h: "owner m = Some t \<longrightarrow> unat (hold m) < 255"
    and now: "owner m = None \<or> owner m = Some t"
  shows "\<exists>m' k'. rt_mutex_take i time m k = Some (Ret RT_EOK, m', k') \<and> kinv 0 k' \<and> mutex_inv i m' k' \<and>
     (inherits i m k \<longrightarrow> inherits i m' k') \<and> owner m' = Some t \<and> unat (hold m') = Suc (unat (hold m)) \<and>
     original_priority m' = (if owner m = None then current_priority (threads k t) else original_priority m) \<and>
     k' = upd_thread t (\<lambda>th. th\<lparr>error := RT_EOK\<rparr>) k"
proof -
  let ?k1 = "upd_thread t (\<lambda>th. th\<lparr>error := RT_EOK\<rparr>) k"
  have ctx: "in_thread_context k = Some t"
    using runningD(2) [OF run] n by (simp add: in_thread_context_def rt_thread_self_def not_in_interrupt_def rt_interrupt_get_nest_def)
  have inv1: "kinv 0 ?k1" by (rule kinv_upd_error [OF runningD(1) [OF run]])
  have lt: "live k t" using runningD(3) [OF run] by (simp add: live_def)
  have nw: "t \<notin> set (q_list k (Wait i))" using running_not_waiting [OF run] by simp
  from now show ?thesis
  proof
    assume o: "owner m = None"
    let ?m = "m\<lparr>mtx_value := mtx_value m - 1, owner := Some t, original_priority := current_priority (threads k t), hold := hold m + 1\<rparr>"
    have e: "mtx_value m = 1" "hold m = 0" "q_list k (Wait i) = []" using mi o by (simp_all add: mutex_inv_def)
    have "rt_mutex_take i time m k = Some (Ret RT_EOK, ?m, ?k1)"
      using ctx o e by (simp add: rt_mutex_take_def Let_def)
    moreover have "mutex_inv i ?m ?k1" using e lt running_prio [OF run] by (simp add: mutex_inv_def)
    ultimately show ?thesis using inv1 o e by (simp add: inherits_def)
  next
    assume o: "owner m = Some t"
    have inc: "unat (hold m + 1) = Suc (unat (hold m))" using h o by (simp add: unat_word_ariths)
    then have "hold m + 1 \<noteq> 0" by (metis nat.distinct(1) unat_0)
    then have "mutex_inv i (m\<lparr>hold := hold m + 1\<rparr>) ?k1" using mi o by (simp add: mutex_inv_def)
    moreover have "inherits i (m\<lparr>hold := hold m + 1\<rparr>) ?k1 = inherits i m ?k1" by (simp add: inherits_def)
    moreover have "inherits i m ?k1 = inherits i m k" by (intro inherits_cong) simp_all
    moreover have "rt_mutex_take i time m k = Some (Ret RT_EOK, m\<lparr>hold := hold m + 1\<rparr>, ?k1)"
      using ctx o by (simp add: rt_mutex_take_def Let_def)
    ultimately show ?thesis using inv1 o inc by simp
  qed
qed

lemma rt_mutex_take_timeout:
  assumes run: "running k t" and mi: "mutex_inv i m k" and n: "rt_interrupt_nest k = 0" and own: "owner m = Some own" "own \<noteq> t"
  shows "\<exists>k'. rt_mutex_take i 0 m k = Some (Ret (- RT_ETIMEOUT), m, k') \<and> kinv 0 k' \<and> mutex_inv i m k' \<and>
     (inherits i m k \<longrightarrow> inherits i m k') \<and> error (threads k' t) = - RT_ETIMEOUT"
proof -
  let ?k = "upd_thread t (\<lambda>th. th\<lparr>error := - RT_ETIMEOUT\<rparr>) (upd_thread t (\<lambda>th. th\<lparr>error := RT_EOK\<rparr>) k)"
  have ctx: "in_thread_context k = Some t"
    using runningD(2) [OF run] n by (simp add: in_thread_context_def rt_thread_self_def not_in_interrupt_def rt_interrupt_get_nest_def)
  have "kinv 0 ?k" by (intro kinv_upd_error runningD(1) [OF run])
  moreover have "mutex_inv i m ?k = mutex_inv i m k" by (intro mutex_inv_cong) simp_all
  moreover have "inherits i m ?k = inherits i m k" by (intro inherits_cong) simp_all
  moreover have "mtx_value m = 0" using mi own by (simp add: mutex_inv_def)
  then have "rt_mutex_take i 0 m k = Some (Ret (- RT_ETIMEOUT), m, ?k)"
    using ctx own by (simp add: rt_mutex_take_def Let_def)
  ultimately show ?thesis using mi by simp
qed


section \<open>Release\<close>

definition restored :: "rt_thread \<Rightarrow> u8 \<Rightarrow> rt_thread" where
  "restored th p = (if p \<noteq> current_priority th
     then th\<lparr>current_priority := p, number_mask := push_bit (unat p) 1\<rparr> else th)"

lemma restored_sel [simp]: "current_priority (restored th p) = p" "stat (restored th p) = stat th" "error (restored th p) = error th"
  by (simp_all add: restored_def)

lemma restore_spec:
  assumes inv: "kinv 0 k" and t: "live k t" and p: "unat p < 32"
  shows "\<exists>k'. (if p \<noteq> current_priority (threads k t)
              then do { (_, k) \<leftarrow> rt_thread_control t (RT_THREAD_CTRL_CHANGE_PRIORITY p) k; Some k }
              else Some k) = Some k' \<and> kinv 0 k' \<and> threads k' = (threads k)(t := restored (threads k t) p) \<and>
     objs k' = objs k \<and> same_ctx k k' \<and> (\<forall>j. q_list k' (Wait j) = q_list k (Wait j))"
proof (cases "p \<noteq> current_priority (threads k t)")
  case True
  from change_priority_spec [OF inv t p] obtain k' where
    "rt_thread_control t (RT_THREAD_CTRL_CHANGE_PRIORITY p) k = Some (RT_EOK, k')" "kinv 0 k'"
    "threads k' = (threads k)(t := (threads k t)\<lparr>current_priority := p, number_mask := push_bit (unat p) 1\<rparr>)"
    "objs k' = objs k" "same_ctx k k'" "\<forall>i. q_list k' (Wait i) = q_list k (Wait i)" by blast
  with True show ?thesis by (simp add: restored_def)
next
  case False
  with inv show ?thesis by (simp add: restored_def)
qed

lemma rt_mutex_release_not_owner:
  assumes run: "running k t" and n: "rt_interrupt_nest k = 0" and o: "owner m \<noteq> Some t"
  shows "rt_mutex_release i m k = Some (- RT_ERROR, m, upd_thread t (\<lambda>th. th\<lparr>error := - RT_ERROR\<rparr>) k)"
  using runningD(2) [OF run] n o
  by (auto simp: rt_mutex_release_def in_thread_context_def rt_thread_self_def not_in_interrupt_def rt_interrupt_get_nest_def)

lemma rt_mutex_release_owner:
  assumes run: "running k t" and mi: "mutex_inv i m k" and n: "rt_interrupt_nest k = 0" and o: "owner m = Some t"
  shows "\<exists>m' k'. rt_mutex_release i m k = Some (RT_EOK, m', k') \<and> kinv 0 k' \<and>
     (if hold m \<noteq> 1 then m' = m\<lparr>hold := hold m - 1\<rparr> \<and> k' = k
      else case q_list k (Wait i) of
        [] \<Rightarrow> m' = mutex_fields \<and> q_list k' (Wait i) = [] \<and>
              threads k' = (threads k)(t := restored (threads k t) (original_priority m))
      | w # ws \<Rightarrow> m' = \<lparr>mtx_value = 0, original_priority = current_priority (threads k w), hold = 1, owner = Some w\<rparr> \<and>
              q_list k' (Wait i) = ws \<and>
              threads k' = (threads k)(t := restored (threads k t) (original_priority m),
                                       w := (threads k w)\<lparr>stat := RT_THREAD_READY\<rparr>))"
proof -
  have ctx: "in_thread_context k = Some t"
    using runningD(2) [OF run] n by (simp add: in_thread_context_def rt_thread_self_def not_in_interrupt_def rt_interrupt_get_nest_def)
  have mv: "mtx_value m = 0" "unat (original_priority m) < 32" "t \<notin> set (q_list k (Wait i))"
    using mi o by (simp_all add: mutex_inv_def)
  show ?thesis
  proof (cases "hold m = 1")
    case False
    then have "hold m - 1 \<noteq> 0" by simp
    with False ctx o runningD(1) [OF run] show ?thesis by (simp add: rt_mutex_release_def Let_def)
  next
    case True
    have "live k t" using runningD(3) [OF run] by (simp add: live_def)
    from restore_spec [OF runningD(1) [OF run] this mv(2)] obtain k1 where
      k1: "(if original_priority m \<noteq> current_priority (threads k t)
              then do { (_, k) \<leftarrow> rt_thread_control t (RT_THREAD_CTRL_CHANGE_PRIORITY (original_priority m)) k; Some k }
              else Some k) = Some k1" and inv1: "kinv 0 k1"
      and th1: "threads k1 = (threads k)(t := restored (threads k t) (original_priority m))"
      and fr: "same_ctx k k1" "q_list k1 (Wait i) = q_list k (Wait i)" by blast
    show ?thesis
    proof (cases "q_list k (Wait i)")
      case Nil
      have "rt_mutex_release i m k = Some (RT_EOK, m\<lparr>hold := 0, mtx_value := 1, owner := None, original_priority := 0xff\<rparr>, k1)"
        using ctx o True k1 fr(2) Nil mv(1) by (simp add: rt_mutex_release_def Let_def split del: if_split cong: if_cong)
      moreover have "m\<lparr>hold := 0, mtx_value := 1, owner := None, original_priority := 0xff\<rparr> = mutex_fields"
        by (cases m) (simp add: mutex_fields_def)
      ultimately show ?thesis using inv1 th1 fr Nil True by simp
    next
      case (Cons w ws)
      have wt: "w \<noteq> t" using mv(3) Cons by auto
      have l1: "q_list k1 (Wait i) = w # ws" using fr(2) Cons by simp
      have c1: "rt_current_thread k1 = Some t" using fr(1) runningD(2) [OF run] by (simp add: same_ctx_def)
      from wake_schedule_spec [OF inv1 waiting_simps(1) l1 c1] obtain k2 k' where
        k2: "rt_ipc_list_resume (Wait i) k1 = Some k2" "rt_schedule k2 = Some k'" "kinv 0 k'"
          "threads k' = (threads k1)(w := (threads k1 w)\<lparr>stat := RT_THREAD_READY\<rparr>)" "q_list k' (Wait i) = ws" by blast
      have "rt_mutex_release i m k = Some (RT_EOK, m\<lparr>hold := 1, owner := Some w, original_priority := current_priority (threads k w)\<rparr>, k')"
        using ctx o True k1 k2 l1 th1 wt by (simp add: rt_mutex_release_def Let_def split del: if_split cong: if_cong)
      moreover have "m\<lparr>hold := 1, owner := Some w, original_priority := current_priority (threads k w)\<rparr> =
          \<lparr>mtx_value = 0, original_priority = current_priority (threads k w), hold = 1, owner = Some w\<rparr>"
        using mv(1) by (cases m) simp
      moreover have "threads k' = (threads k)(t := restored (threads k t) (original_priority m),
                                       w := (threads k w)\<lparr>stat := RT_THREAD_READY\<rparr>)"
        using k2(4) th1 wt by (simp add: fun_eq_iff)
      ultimately show ?thesis using k2 Cons True by simp
    qed
  qed
qed

text \<open>Release keeps the invariants.\<close>

lemma release_mutex_inv:
  assumes run: "running k t" and mi: "mutex_inv i m k" and n: "rt_interrupt_nest k = 0"
    and o: "owner m = Some t" and r: "rt_mutex_release i m k = Some (RT_EOK, m', k')"
  shows "mutex_inv i m' k' \<and> (inherits i m k \<longrightarrow> inherits i m' k')"
proof -
  from rt_mutex_release_owner [OF run mi n o] r have
    cs: "if hold m \<noteq> 1 then m' = m\<lparr>hold := hold m - 1\<rparr> \<and> k' = k
      else case q_list k (Wait i) of
        [] \<Rightarrow> m' = mutex_fields \<and> q_list k' (Wait i) = [] \<and>
              threads k' = (threads k)(t := restored (threads k t) (original_priority m))
      | w # ws \<Rightarrow> m' = \<lparr>mtx_value = 0, original_priority = current_priority (threads k w), hold = 1, owner = Some w\<rparr> \<and>
              q_list k' (Wait i) = ws \<and>
              threads k' = (threads k)(t := restored (threads k t) (original_priority m),
                                       w := (threads k w)\<lparr>stat := RT_THREAD_READY\<rparr>)" by auto
  have tw: "t \<notin> set (q_list k (Wait i))" using mi o by (simp add: mutex_inv_def)
  show ?thesis
  proof (cases "hold m = 1")
    case False
    then have "hold m - 1 \<noteq> 0" by simp
    with cs False mi o show ?thesis by (simp add: mutex_inv_def inherits_def)
  next
    case True
    show ?thesis
    proof (cases "q_list k (Wait i)")
      case Nil
      with cs True show ?thesis by (simp add: mutex_inv_def inherits_def mutex_fields_def)
    next
      case (Cons w ws)
      have d: "w \<notin> set ws" using fam_wf_distinct [OF kinv_wf(1) [OF runningD(1) [OF run]], of "Wait i"] Cons by simp
      have "stat (threads k w) = RT_THREAD_SUSPEND"
        using waiting_suspended [OF runningD(1) [OF run] waiting_simps(1), of w i] Cons by simp
      then have p: "prio k w < 32" using kinv_live(1) [OF runningD(1) [OF run], of w] by (simp add: thread_static_ok_def)
      from cs True Cons have m': "m' = \<lparr>mtx_value = 0, original_priority = current_priority (threads k w), hold = 1, owner = Some w\<rparr>"
        and l': "q_list k' (Wait i) = ws"
        and th': "threads k' = (threads k)(t := restored (threads k t) (original_priority m), w := (threads k w)\<lparr>stat := RT_THREAD_READY\<rparr>)"
        by simp_all
      have "mutex_inv i m' k'" using d p by (simp add: mutex_inv_def m' l' live_def th')
      moreover have pr: "prio k' x = prio k x" if "x \<in> set (w # ws)" for x using that tw Cons th' by auto
      then have mp: "map (prio k') ws = map (prio k) ws" by (intro map_cong) simp_all
      have "inherits i m' k'" if "inherits i m k"
        using that Cons pr unfolding inherits_def m' l' mp by simp
      ultimately show ?thesis by blast
    qed
  qed
qed


section \<open>What a mutex guarantees\<close>

text \<open>
  C10: \<^verbatim>\<open>rt_mutex_take\<close> in every branch: the owner takes it again by counting the holds, a free
  mutex gets its caller as owner, a held one gives \<^verbatim>\<open>-RT_ETIMEOUT\<close> at once without waiting time, and
  otherwise the caller waits while the owner inherits its priority when that is higher.  The
  ownership invariant and, for \<^verbatim>\<open>RT_IPC_FLAG_PRIO\<close>, the inheritance invariant are kept.
\<close>

theorem rt_mutex_take_correct:
  assumes run: "running k t" and mi: "mutex_inv i m k" and fl: "ipc_flag_ok i k" and tm: "time_ok time"
    and n: "rt_interrupt_nest k = 0" and h: "owner m = Some t \<longrightarrow> unat (hold m) < 255"
  shows "\<exists>out m' k'. rt_mutex_take i time m k = Some (out, m', k') \<and> kinv 0 k' \<and> mutex_inv i m' k' \<and>
     (ipc_flag i k = RT_IPC_FLAG_PRIO \<and> inherits i m k \<longrightarrow> inherits i m' k') \<and>
     (if owner m = None \<or> owner m = Some t
      then out = Ret RT_EOK \<and> owner m' = Some t \<and> unat (hold m') = Suc (unat (hold m))
      else if time = 0 then out = Ret (- RT_ETIMEOUT) \<and> m' = m
      else out = Blocked t \<and> m' = m \<and> stat (threads k' t) = RT_THREAD_SUSPEND \<and> t \<in> set (q_list k' (Wait i)) \<and>
           (\<forall>own. owner m = Some own \<longrightarrow> prio k' own = min (prio k own) (prio k t)))"
proof -
  consider (now) "owner m = None \<or> owner m = Some t" | (nowait) own where "owner m = Some own" "own \<noteq> t" "time = 0"
    | (wait) own where "owner m = Some own" "own \<noteq> t" "time \<noteq> 0" by (cases "owner m") auto
  then show ?thesis
  proof cases
    case now
    from rt_mutex_take_now [OF run mi n h now, of time] obtain m' k' where
      "rt_mutex_take i time m k = Some (Ret RT_EOK, m', k')" "kinv 0 k'" "mutex_inv i m' k'" "inherits i m k \<longrightarrow> inherits i m' k'"
      "owner m' = Some t" "unat (hold m') = Suc (unat (hold m))" by blast
    with now show ?thesis by simp
  next
    case nowait
    from rt_mutex_take_timeout [OF run mi n nowait(1,2)] nowait show ?thesis by auto
  next
    case wait
    from rt_mutex_take_block [OF run mi fl tm n wait] obtain k' where
      k': "rt_mutex_take i time m k = Some (Blocked t, m, k')" "kinv 0 k'"
        "threads k' = (threads k)(own := boosted k t own, t := (threads k t)\<lparr>error := RT_EOK, stat := RT_THREAD_SUSPEND\<rparr>)"
        "q_list k' (Wait i) = wait_insert (ipc_flag i k) (\<lambda>s. current_priority (threads k s)) t (q_list k (Wait i))" by blast
    note inv' = block_mutex_inv [OF mi wait(1,2) k'(3,4)]
    have "prio k' own = min (prio k own) (prio k t)" using k'(3) wait(2) boosted_prio by simp
    with k' inv' wait show ?thesis by auto
  qed
qed

definition led_mutex :: rt_mutex where
  "led_mutex = \<lparr>mtx_value = 0, original_priority = 20, hold = 1, owner = Some 1\<rparr>"

lemma led_mutex_inv: "mutex_inv 7 led_mutex boot_kernel"
  by (simp add: mutex_inv_def led_mutex_def live_def boot_kernel boot_no_waiters)

theorem rt_mutex_take_correct_witness:
  "\<exists>k'. rt_mutex_take 7 RT_WAITING_FOREVER led_mutex boot_kernel = Some (Blocked 2, led_mutex, k') \<and> prio k' 1 = 8"
proof -
  have "ipc_flag_ok 7 boot_kernel" "time_ok RT_WAITING_FOREVER" by (simp_all add: ipc_flag_ok_def boot_ipc_flag time_ok_def)
  from rt_mutex_take_correct [OF boot_running led_mutex_inv this boot_kernel(11)] show ?thesis
    by (auto simp: led_mutex_def boot_kernel boot_kernel1)
qed

text \<open>
  C11: \<^verbatim>\<open>rt_mutex_release\<close> in every branch: anybody but the owner gets \<^verbatim>\<open>-RT_ERROR\<close> and changes nothing;
  an inner release only counts down; the outermost one gives the owner back the priority it had
  when it took the mutex, and either frees the mutex or hands it to the first waiter, which
  becomes ready as its owner and whose \<^verbatim>\<open>rt_mutex_take\<close> will return \<^verbatim>\<open>RT_EOK\<close>.  The invariants are kept.
\<close>

theorem rt_mutex_release_correct:
  assumes run: "running k t" and mi: "mutex_inv i m k" and n: "rt_interrupt_nest k = 0"
    and e: "\<forall>w\<in>set (q_list k (Wait i)). error (threads k w) = RT_EOK"
  shows "\<exists>r m' k'. rt_mutex_release i m k = Some (r, m', k') \<and> kinv 0 k' \<and> mutex_inv i m' k' \<and>
     (inherits i m k \<longrightarrow> inherits i m' k') \<and>
     (if owner m \<noteq> Some t then r = - RT_ERROR \<and> m' = m \<and> queues k' = queues k
      else r = RT_EOK \<and>
        (if hold m \<noteq> 1 then m' = m\<lparr>hold := hold m - 1\<rparr> \<and> k' = k
         else current_priority (threads k' t) = original_priority m \<and>
           (case q_list k (Wait i) of
              [] \<Rightarrow> m' = mutex_fields
            | w # ws \<Rightarrow> owner m' = Some w \<and> hold m' = 1 \<and> q_list k' (Wait i) = ws \<and>
                original_priority m' = current_priority (threads k' w) \<and>
                stat (threads k' w) = RT_THREAD_READY \<and> rt_mutex_take_wake w k' = RT_EOK)))"
proof (cases "owner m = Some t")
  case False
  let ?k = "upd_thread t (\<lambda>th. th\<lparr>error := - RT_ERROR\<rparr>) k"
  have "kinv 0 ?k" by (rule kinv_upd_error [OF runningD(1) [OF run]])
  moreover have "mutex_inv i m ?k = mutex_inv i m k" by (intro mutex_inv_cong) simp_all
  moreover have "inherits i m ?k = inherits i m k" by (intro inherits_cong) simp_all
  ultimately show ?thesis using rt_mutex_release_not_owner [OF run n False, of i] False mi by simp
next
  case True
  have tw: "t \<notin> set (q_list k (Wait i))" using mi True by (simp add: mutex_inv_def)
  from rt_mutex_release_owner [OF run mi n True] obtain m' k' where r: "rt_mutex_release i m k = Some (RT_EOK, m', k')" "kinv 0 k'"
    and cs: "if hold m \<noteq> 1 then m' = m\<lparr>hold := hold m - 1\<rparr> \<and> k' = k
      else case q_list k (Wait i) of
        [] \<Rightarrow> m' = mutex_fields \<and> q_list k' (Wait i) = [] \<and>
              threads k' = (threads k)(t := restored (threads k t) (original_priority m))
      | w # ws \<Rightarrow> m' = \<lparr>mtx_value = 0, original_priority = current_priority (threads k w), hold = 1, owner = Some w\<rparr> \<and>
              q_list k' (Wait i) = ws \<and>
              threads k' = (threads k)(t := restored (threads k t) (original_priority m),
                                       w := (threads k w)\<lparr>stat := RT_THREAD_READY\<rparr>)" by blast
  have "if hold m \<noteq> 1 then m' = m\<lparr>hold := hold m - 1\<rparr> \<and> k' = k
         else current_priority (threads k' t) = original_priority m \<and>
           (case q_list k (Wait i) of
              [] \<Rightarrow> m' = mutex_fields
            | w # ws \<Rightarrow> owner m' = Some w \<and> hold m' = 1 \<and> q_list k' (Wait i) = ws \<and>
                original_priority m' = current_priority (threads k' w) \<and>
                stat (threads k' w) = RT_THREAD_READY \<and> rt_mutex_take_wake w k' = RT_EOK)"
    using cs tw e by (cases "q_list k (Wait i)") (auto simp: rt_mutex_take_wake_def split: if_splits)
  with r release_mutex_inv [OF run mi n True r(1)] True show ?thesis by simp
qed

definition init_mutex :: rt_mutex where
  "init_mutex = \<lparr>mtx_value = 0, original_priority = 8, hold = 1, owner = Some 2\<rparr>"

theorem rt_mutex_release_correct_witness:
  "\<exists>m' k'. rt_mutex_release 7 init_mutex boot_kernel = Some (RT_EOK, m', k') \<and> m' = mutex_fields"
proof -
  have "mutex_inv 7 init_mutex boot_kernel"
    by (simp add: mutex_inv_def init_mutex_def live_def boot_kernel boot_no_waiters)
  from rt_mutex_release_correct [OF boot_running this boot_kernel(11)] show ?thesis
    by (auto simp: init_mutex_def boot_no_waiters)
qed


text \<open>A take without waiting and a release that succeed, as steps on the mutex and the kernel.\<close>

definition take_step :: "nat \<Rightarrow> rt_mutex \<times> kernel \<Rightarrow> (rt_mutex \<times> kernel) option" where
  "take_step i = (\<lambda>(m, k). case rt_mutex_take i RT_WAITING_NO m k of
     Some (Ret e, m', k') \<Rightarrow> if e = RT_EOK then Some (m', k') else None | _ \<Rightarrow> None)"

definition release_step :: "nat \<Rightarrow> rt_mutex \<times> kernel \<Rightarrow> (rt_mutex \<times> kernel) option" where
  "release_step i = (\<lambda>(m, k). case rt_mutex_release i m k of
     Some (e, m', k') \<Rightarrow> if e = RT_EOK then Some (m', k') else None | _ \<Rightarrow> None)"

lemma running_upd_error: "running k t \<Longrightarrow> running (upd_thread u (\<lambda>th. th\<lparr>error := e\<rparr>) k) t"
  using kinv_upd_error [of 0 k u e] by (auto simp: running_def)

lemma takes_spec:
  assumes "running k t" and "mutex_inv i m k" and "rt_interrupt_nest k = 0" and "owner m = Some t"
    and "unat (hold m) + length xs \<le> 255"
  shows "\<exists>m' k'. seq_opt (\<lambda>_. take_step i) xs (m, k) = Some (m', k') \<and> running k' t \<and> mutex_inv i m' k' \<and>
     rt_interrupt_nest k' = 0 \<and> owner m' = Some t \<and> unat (hold m') = unat (hold m) + length xs \<and>
     original_priority m' = original_priority m \<and> q_list k' (Wait i) = q_list k (Wait i)"
  using assms
proof (induction xs arbitrary: m k)
  case (Cons x xs)
  have "owner m = Some t \<longrightarrow> unat (hold m) < 255" using Cons.prems(5) by simp
  from rt_mutex_take_now [OF Cons.prems(1-3) this, of RT_WAITING_NO] Cons.prems(4) obtain m1 where
    m1: "rt_mutex_take i RT_WAITING_NO m k = Some (Ret RT_EOK, m1, upd_thread t (\<lambda>th. th\<lparr>error := RT_EOK\<rparr>) k)"
      "mutex_inv i m1 (upd_thread t (\<lambda>th. th\<lparr>error := RT_EOK\<rparr>) k)" "owner m1 = Some t"
      "unat (hold m1) = Suc (unat (hold m))" "original_priority m1 = original_priority m" by auto
  let ?k1 = "upd_thread t (\<lambda>th. th\<lparr>error := RT_EOK\<rparr>) k"
  have "unat (hold m1) + length xs \<le> 255" "rt_interrupt_nest ?k1 = 0" using Cons.prems(3,5) m1(4) by simp_all
  from Cons.IH [OF running_upd_error [OF Cons.prems(1)] m1(2) this(2) m1(3) this(1)] m1 show ?case
    by (auto simp: take_step_def)
qed simp

lemma release_inner:
  assumes "running k t" and "mutex_inv i m k" and "rt_interrupt_nest k = 0" and "owner m = Some t" and "hold m \<noteq> 1"
  shows "release_step i (m, k) = Some (m\<lparr>hold := hold m - 1\<rparr>, k) \<and> mutex_inv i (m\<lparr>hold := hold m - 1\<rparr>) k"
proof -
  from rt_mutex_release_owner [OF assms(1-4)] assms(5)
  have r: "rt_mutex_release i m k = Some (RT_EOK, m\<lparr>hold := hold m - 1\<rparr>, k)" by simp
  with release_mutex_inv [OF assms(1-4)] show ?thesis by (simp add: release_step_def)
qed

lemma release_outer:
  assumes "running k t" and "mutex_inv i m k" and "rt_interrupt_nest k = 0" and "owner m = Some t" and "hold m = 1"
    and "q_list k (Wait i) = []"
  shows "\<exists>k'. release_step i (m, k) = Some (mutex_fields, k') \<and> kinv 0 k' \<and> current_priority (threads k' t) = original_priority m"
proof -
  from rt_mutex_release_owner [OF assms(1-4)] obtain m' k' where
    r: "rt_mutex_release i m k = Some (RT_EOK, m', k')" "kinv 0 k'"
    "if hold m \<noteq> 1 then m' = m\<lparr>hold := hold m - 1\<rparr> \<and> k' = k
      else case q_list k (Wait i) of
        [] \<Rightarrow> m' = mutex_fields \<and> q_list k' (Wait i) = [] \<and>
              threads k' = (threads k)(t := restored (threads k t) (original_priority m))
      | w # ws \<Rightarrow> m' = \<lparr>mtx_value = 0, original_priority = current_priority (threads k w), hold = 1, owner = Some w\<rparr> \<and>
              q_list k' (Wait i) = ws \<and>
              threads k' = (threads k)(t := restored (threads k t) (original_priority m),
                                       w := (threads k w)\<lparr>stat := RT_THREAD_READY\<rparr>)" by blast
  then have "m' = mutex_fields \<and> threads k' = (threads k)(t := restored (threads k t) (original_priority m))"
    using assms(5,6) by simp
  with r show ?thesis by (simp add: release_step_def)
qed

lemma releases_spec:
  assumes "running k t" and "mutex_inv i m k" and "rt_interrupt_nest k = 0" and "owner m = Some t"
    and "unat (hold m) = length xs" and "xs \<noteq> []" and "q_list k (Wait i) = []"
  shows "\<exists>k'. seq_opt (\<lambda>_. release_step i) xs (m, k) = Some (mutex_fields, k') \<and> kinv 0 k' \<and>
     current_priority (threads k' t) = original_priority m"
  using assms
proof (induction xs arbitrary: m)
  case (Cons x xs)
  show ?case
  proof (cases "hold m = 1")
    case True
    then have "xs = []" using Cons.prems(5) by simp
    with release_outer [OF Cons.prems(1-4) True Cons.prems(7)] show ?thesis by auto
  next
    case False
    from release_inner [OF Cons.prems(1-4) False] have
      r: "release_step i (m, k) = Some (m\<lparr>hold := hold m - 1\<rparr>, k)" "mutex_inv i (m\<lparr>hold := hold m - 1\<rparr>) k" by simp_all
    have h: "unat (hold m) = Suc (length xs)" using Cons.prems(5) by simp
    then have "hold m \<noteq> 0" by auto
    then have l: "unat (hold m - 1) = length xs" using h by (simp add: unat_minus_one)
    have "hold m - 1 \<noteq> 0" using False by simp
    then have "xs \<noteq> []" using l by (metis length_0_conv unat_eq_zero)
    with Cons.IH [OF Cons.prems(1) r(2) Cons.prems(3)] Cons.prems(4,7) l r show ?thesis by simp
  qed
qed simp

text \<open>
  Recursive locking is a round trip: a thread that takes a free mutex any number of times, up to
  the 255 the hold count has room for, and releases it as often, leaves it free, exactly as
  it was after \<^verbatim>\<open>rt_mutex_init\<close>, and has the priority it started with.
\<close>

theorem rt_mutex_recursive_roundtrip:
  assumes run: "running k t" and n: "rt_interrupt_nest k = 0" and e: "q_list k (Wait i) = []" and l: "0 < l" "l \<le> 255"
  shows "\<exists>s k'. seq_opt (\<lambda>_. take_step i) [0..<l] (mutex_fields, k) = Some s \<and>
     owner (fst s) = Some t \<and> unat (hold (fst s)) = l \<and>
     seq_opt (\<lambda>_. release_step i) [0..<l] s = Some (mutex_fields, k') \<and> kinv 0 k' \<and> prio k' t = prio k t"
proof -
  let ?k1 = "upd_thread t (\<lambda>th. th\<lparr>error := RT_EOK\<rparr>) k"
  have mi: "mutex_inv i mutex_fields k" using e by (simp add: mutex_inv_def mutex_fields_def)
  from rt_mutex_take_now [OF run mi n, of RT_WAITING_NO] obtain m1 where
    m1: "rt_mutex_take i RT_WAITING_NO mutex_fields k = Some (Ret RT_EOK, m1, ?k1)" "mutex_inv i m1 ?k1"
      "owner m1 = Some t" "unat (hold m1) = 1" "original_priority m1 = current_priority (threads k t)"
    by (auto simp: mutex_fields_def)
  define xs where "xs = [1..<l]"
  have xs: "[0..<l] = 0 # xs" and len: "length xs = l - 1" unfolding xs_def using l upt_conv_Cons [of 0 l] by simp_all
  have "unat (hold m1) + length xs \<le> 255" using m1(4) len l by simp
  from takes_spec [OF running_upd_error [OF run] m1(2) _ m1(3) this] n obtain m2 k2 where
    m2: "seq_opt (\<lambda>_. take_step i) xs (m1, ?k1) = Some (m2, k2)" "running k2 t" "mutex_inv i m2 k2" "rt_interrupt_nest k2 = 0"
      "owner m2 = Some t" "unat (hold m2) = l" "original_priority m2 = current_priority (threads k t)" "q_list k2 (Wait i) = []"
    using m1(4,5) len l e by auto
  have "unat (hold m2) = length [0..<l]" "[0..<l] \<noteq> []" using m2(6) l by simp_all
  from releases_spec [OF m2(2-5) this m2(8)] m2(7) obtain k' where
    k': "seq_opt (\<lambda>_. release_step i) [0..<l] (m2, k2) = Some (mutex_fields, k')" "kinv 0 k'" "prio k' t = prio k t" by auto
  have "seq_opt (\<lambda>_. take_step i) [0..<l] (mutex_fields, k) = Some (m2, k2)"
    unfolding xs using m1(1) m2(1) by (simp add: take_step_def)
  with k' m2(5,6) show ?thesis by auto
qed

theorem rt_mutex_recursive_roundtrip_witness:
  "\<exists>s k'. seq_opt (\<lambda>_. take_step 7) [0..<255] (mutex_fields, boot_kernel) = Some s \<and>
     seq_opt (\<lambda>_. release_step 7) [0..<255] s = Some (mutex_fields, k') \<and> prio k' 2 = 8"
  using rt_mutex_recursive_roundtrip [OF boot_running boot_kernel(11) boot_no_waiters, of 255 7]
  by (auto simp: boot_kernel simp del: upt_rec_numeral)

end
