(* ===== verification/Event.thy ===== *)
theory Event
  imports Mutex
begin

text \<open>
  Event sets, \<^verbatim>\<open>src/ipc.c\<close>: 32 event bits, threads that wait for all or for any of a set of them,
  and the pass \<^verbatim>\<open>rt_event_send\<close> makes over the waiting threads.
\<close>

unbundle bit_operations_syntax

abbreviation (input) RT_EVENT_FLAG_AND :: u8 where "RT_EVENT_FLAG_AND \<equiv> 1"
abbreviation (input) RT_EVENT_FLAG_OR :: u8 where "RT_EVENT_FLAG_OR \<equiv> 2"
abbreviation (input) RT_EVENT_FLAG_CLEAR :: u8 where "RT_EVENT_FLAG_CLEAR \<equiv> 4"

section \<open>The operations\<close>

record rt_event =
  ev_set :: u32

definition rt_event_init :: "nat \<Rightarrow> cstr \<Rightarrow> u8 \<Rightarrow> kernel \<Rightarrow> (rt_err_t \<times> rt_event \<times> kernel) option" where
  "rt_event_init i name flag k =
     do { os \<leftarrow> rt_object_init (OIpc i) RT_Object_Class_Event name (objs k);
          let k = set_ipc_flag i flag (k\<lparr>objs := os\<rparr>);
          k \<leftarrow> rt_ipc_object_init i k;
          Some (RT_EOK, \<lparr>ev_set = 0\<rparr>, k) }"

definition rt_event_detach :: "nat \<Rightarrow> kernel \<Rightarrow> (rt_err_t \<times> kernel) option" where
  "rt_event_detach i k =
     do { k \<leftarrow> rt_ipc_list_resume_all (Wait i) k;
          Some (RT_EOK, k\<lparr>objs := rt_object_detach (OIpc i) (objs k)\<rparr>) }"

definition rt_event_create ::
  "nat option \<Rightarrow> cstr \<Rightarrow> u8 \<Rightarrow> kernel \<Rightarrow> ((nat \<times> rt_event) option \<times> kernel) option" where
  "rt_event_create mem name flag k =
     do { not_in_interrupt k;
          (event, os) \<leftarrow> rt_object_allocate (map_option OIpc mem) RT_Object_Class_Event name (objs k);
          let k = k\<lparr>objs := os\<rparr>;
          (case mem of
             None \<Rightarrow> Some (None, k)
           | Some i \<Rightarrow> do { let k = set_ipc_flag i flag k;
                            k \<leftarrow> rt_ipc_object_init i k;
                            Some (Some (i, \<lparr>ev_set = 0\<rparr>), k) }) }"

definition rt_event_delete :: "nat \<Rightarrow> kernel \<Rightarrow> (rt_err_t \<times> kernel) option" where
  "rt_event_delete i k =
     do { not_in_interrupt k;
          k \<leftarrow> rt_ipc_list_resume_all (Wait i) k;
          os \<leftarrow> rt_object_delete (OIpc i) (objs k);
          Some (RT_EOK, k\<lparr>objs := os\<rparr>) }"

text \<open>
  The loop of \<^verbatim>\<open>rt_event_send\<close>.  It moves on to the next node before it resumes a thread, which
  unlinks that thread alone: it visits the threads on the list at its start, one after the other.
\<close>

fun rt_event_send_loop :: "tid list \<Rightarrow> u32 \<Rightarrow> bool \<Rightarrow> kernel \<Rightarrow> (u32 \<times> bool \<times> kernel) option" where
  "rt_event_send_loop [] evset need_schedule k = Some (evset, need_schedule, k)"
| "rt_event_send_loop (thread # n) evset need_schedule k =
     (let th = threads k thread;
          (status, k) =
            (if event_info th AND RT_EVENT_FLAG_AND \<noteq> 0 then
               (if event_set th AND evset = event_set th then (RT_EOK, k) else (- RT_ERROR, k))
             else if event_info th AND RT_EVENT_FLAG_OR \<noteq> 0 then
               (if event_set th AND evset \<noteq> 0
                then (RT_EOK, upd_thread thread (\<lambda>th. th\<lparr>event_set := event_set th AND evset\<rparr>) k)
                else (- RT_ERROR, k))
             else (- RT_ERROR, k))
      in if status = RT_EOK then
           do { let evset = (if event_info (threads k thread) AND RT_EVENT_FLAG_CLEAR \<noteq> 0
                           then evset AND NOT (event_set (threads k thread)) else evset);
                (_, k) \<leftarrow> rt_thread_resume thread k;
                rt_event_send_loop n evset True k }
         else rt_event_send_loop n evset need_schedule k)"

definition rt_event_send :: "nat \<Rightarrow> u32 \<Rightarrow> rt_event \<Rightarrow> kernel \<Rightarrow> (rt_err_t \<times> rt_event \<times> kernel) option" where
  "rt_event_send i evset event k =
     (if evset = 0 then Some (- RT_ERROR, event, k)
      else do { let event = event\<lparr>ev_set := ev_set event OR evset\<rparr>;
                (set', need_schedule, k) \<leftarrow>
                  (if \<not> fam_isempty (Wait i) (queues k)
                   then rt_event_send_loop (q_list k (Wait i)) (ev_set event) False k
                   else Some (ev_set event, False, k));
                k \<leftarrow> (if need_schedule then rt_schedule k else Some k);
                Some (RT_EOK, event\<lparr>ev_set := set'\<rparr>, k) })"

text \<open>The result of \<^verbatim>\<open>rt_event_recv\<close> is its error code and what it stored in \<^verbatim>\<open>*recved\<close>, if it did.\<close>

definition rt_event_recv ::
  "nat \<Rightarrow> u32 \<Rightarrow> u8 \<Rightarrow> rt_int32_t \<Rightarrow> rt_event \<Rightarrow> kernel \<Rightarrow>
     ((rt_err_t \<times> u32 option, tid) outcome \<times> rt_event \<times> kernel) option" where
  "rt_event_recv i evset option timeout event k =
     do { thread \<leftarrow> in_thread_context k;
          if evset = 0 then Some (Ret (- RT_ERROR, None), event, k)
          else
            do { let k = upd_thread thread (\<lambda>th. th\<lparr>error := RT_EOK\<rparr>) k;
                 status \<leftarrow>
                   (if option AND RT_EVENT_FLAG_AND \<noteq> 0
                    then Some (if ev_set event AND evset = evset then RT_EOK else - RT_ERROR)
                    else if option AND RT_EVENT_FLAG_OR \<noteq> 0
                    then Some (if ev_set event AND evset \<noteq> 0 then RT_EOK else - RT_ERROR)
                    else None);
                 if status = RT_EOK then
                   Some (Ret (error (threads k thread), Some (ev_set event AND evset)),
                         (if option AND RT_EVENT_FLAG_CLEAR \<noteq> 0
                          then event\<lparr>ev_set := ev_set event AND NOT evset\<rparr> else event), k)
                 else if timeout = 0 then
                   do { let k = upd_thread thread (\<lambda>th. th\<lparr>error := - RT_ETIMEOUT\<rparr>) k;
                        Some (Ret (error (threads k thread), None), event, k) }
                 else
                   do { let k = upd_thread thread (\<lambda>th. th\<lparr>event_set := evset, event_info := option\<rparr>) k;
                        k \<leftarrow> ipc_wait (Wait i) (ipc_flag i k) timeout thread k;
                        Some (Blocked thread, event, k) } } }"

definition rt_event_recv_wake :: "tid \<Rightarrow> kernel \<Rightarrow> rt_err_t \<times> u32 option" where
  "rt_event_recv_wake thread k =
     (if error (threads k thread) \<noteq> RT_EOK then (error (threads k thread), None)
      else (error (threads k thread), Some (event_set (threads k thread))))"

definition rt_event_control ::
  "nat \<Rightarrow> ipc_cmd \<Rightarrow> rt_event \<Rightarrow> kernel \<Rightarrow> (rt_err_t \<times> rt_event \<times> kernel) option" where
  "rt_event_control i cmd event k =
     (case cmd of
        RT_IPC_CMD_RESET _ \<Rightarrow>
          do { k \<leftarrow> rt_ipc_list_resume_all (Wait i) k;
               let event = event\<lparr>ev_set := 0\<rparr>;
               k \<leftarrow> rt_schedule k;
               Some (RT_EOK, event, k) }
      | RT_IPC_CMD_UNKNOWN \<Rightarrow> Some (- RT_ERROR, event, k))"

section \<open>What a waiting thread waits for\<close>

text \<open>Whether the bits \<open>evset\<close> satisfy a wait for \<open>want\<close> with the options \<open>info\<close>, and what is received.\<close>

definition satisfied :: "u32 \<Rightarrow> u8 \<Rightarrow> u32 \<Rightarrow> bool" where
  "satisfied want info evset \<longleftrightarrow>
     (if info AND RT_EVENT_FLAG_AND \<noteq> 0 then want AND evset = want
      else info AND RT_EVENT_FLAG_OR \<noteq> 0 \<and> want AND evset \<noteq> 0)"

definition left_over :: "u32 \<Rightarrow> u8 \<Rightarrow> u32 \<Rightarrow> u32" where
  "left_over want info evset = (if info AND RT_EVENT_FLAG_CLEAR \<noteq> 0 then evset AND NOT want else evset)"

text \<open>
  The pass of a sender over the waiters in their order: those that are woken, with what they
  receive, those that go on waiting, and the bits that are left.
\<close>

fun send_pass :: "(tid \<Rightarrow> u32) \<Rightarrow> (tid \<Rightarrow> u8) \<Rightarrow> tid list \<Rightarrow> u32 \<Rightarrow> (tid \<times> u32) list \<times> tid list \<times> u32" where
  "send_pass want info [] s = ([], [], s)"
| "send_pass want info (t # ts) s =
     (if satisfied (want t) (info t) s
      then case send_pass want info ts (left_over (want t AND s) (info t) s) of
             (woken, rest, s') \<Rightarrow> ((t, want t AND s) # woken, rest, s')
      else case send_pass want info ts s of (woken, rest, s') \<Rightarrow> (woken, t # rest, s'))"

text \<open>No waiting thread is satisfied by the bits that are evset: no wake-up is lost.\<close>

definition event_inv :: "nat \<Rightarrow> rt_event \<Rightarrow> kernel \<Rightarrow> bool" where
  "event_inv i event k \<longleftrightarrow>
     (\<forall>t\<in>set (q_list k (Wait i)). \<not> satisfied (event_set (threads k t)) (event_info (threads k t)) (ev_set event))"

lemma satisfied_mono: "satisfied want info (evset AND m) \<Longrightarrow> satisfied want info evset"
proof -
  have "want AND evset = want" if "want AND (evset AND m) = want"
  proof (rule bit_word_eqI)
    fix n
    have "bit (want AND (evset AND m)) n = bit want n" using that by simp
    then show "bit (want AND evset) n \<longleftrightarrow> bit want n" by (auto simp: bit_simps)
  qed
  moreover have "want AND evset \<noteq> 0" if "want AND (evset AND m) \<noteq> 0"
    using that by (auto simp flip: and.assoc)
  ultimately show "satisfied want info (evset AND m) \<Longrightarrow> satisfied want info evset"
    by (auto simp: satisfied_def split: if_splits)
qed

lemma satisfied_left_over: "satisfied want info (left_over r i evset) \<Longrightarrow> satisfied want info evset"
  by (auto simp: left_over_def intro: satisfied_mono split: if_splits)

lemma send_pass_set: "send_pass want info ts s = (woken, rest, s') \<Longrightarrow> \<exists>m. s' = s AND m"
proof (induction ts arbitrary: s woken rest s')
  case Nil
  then show ?case by (intro exI [of _ "- 1"]) simp
next
  case (Cons t ts)
  show ?case
  proof (cases "satisfied (want t) (info t) s")
    case True
    with Cons.prems Cons.IH obtain m where "s' = left_over (want t AND s) (info t) s AND m" by (force split: prod.splits)
    then show ?thesis by (auto simp: left_over_def and.assoc)
  next
    case False
    with Cons show ?thesis by (auto split: prod.splits)
  qed
qed

lemma send_pass_rest:
  "send_pass want info ts s = (woken, rest, s') \<Longrightarrow> t \<in> set rest \<Longrightarrow> \<not> satisfied (want t) (info t) s'"
proof (induction ts arbitrary: s woken rest s')
  case (Cons u ts)
  show ?case
  proof (cases "satisfied (want u) (info u) s")
    case True
    with Cons show ?thesis by (auto split: prod.splits)
  next
    case False
    then obtain rs where r: "rest = u # rs" "send_pass want info ts s = (woken, rs, s')"
      using Cons.prems(1) by (auto split: prod.splits)
    from send_pass_set [OF r(2)] obtain m where m: "s' = s AND m" by blast
    show ?thesis
    proof (cases "t = u")
      case True
      then show ?thesis using False m satisfied_mono by auto
    next
      case False
      with Cons.prems(2) r Cons.IH [OF r(2)] show ?thesis by simp
    qed
  qed
qed simp

lemma send_pass_woken:
  "send_pass want info ts s = (woken, rest, s') \<Longrightarrow> (t, r) \<in> set woken \<Longrightarrow>
     t \<in> set ts \<and> (\<exists>m. satisfied (want t) (info t) (s AND m) \<and> r = want t AND (s AND m))"
proof (induction ts arbitrary: s woken rest s')
  case (Cons u ts)
  show ?case
  proof (cases "satisfied (want u) (info u) s \<and> t = u \<and> r = want u AND s")
    case True
    then show ?thesis by (intro conjI exI [of _ "- 1"]) simp_all
  next
    case False
    define s1 where "s1 = (if satisfied (want u) (info u) s then left_over (want u AND s) (info u) s else s)"
    obtain wk rs where "send_pass want info ts s1 = (wk, rs, s')" "(t, r) \<in> set wk"
      using False Cons.prems unfolding s1_def by (auto split: prod.splits if_splits)
    from Cons.IH [OF this] obtain m where "t \<in> set ts" "satisfied (want t) (info t) (s1 AND m)" "r = want t AND (s1 AND m)" by blast
    moreover have "\<exists>m'. s1 = s AND m'" unfolding s1_def left_over_def by (auto intro: exI [of _ "- 1"])
    ultimately show ?thesis by (auto simp: and.assoc)
  qed
qed simp

lemma send_pass_rest_filter:
  "send_pass want info ts s = (woken, rest, s') \<Longrightarrow> distinct ts \<Longrightarrow> rest = filter (\<lambda>t. t \<notin> fst ` set woken) ts"
proof (induction ts arbitrary: s woken rest s')
  case (Cons u ts)
  show ?case
  proof (cases "satisfied (want u) (info u) s")
    case True
    then obtain wk where w: "woken = (u, want u AND s) # wk"
      "send_pass want info ts (left_over (want u AND s) (info u) s) = (wk, rest, s')"
      using Cons.prems(1) by (auto split: prod.splits)
    have "filter (\<lambda>t. t \<notin> fst ` set woken) ts = filter (\<lambda>t. t \<notin> fst ` set wk) ts"
      using Cons.prems(2) w(1) by (intro filter_cong) auto
    with Cons.IH [OF w(2)] Cons.prems(2) w(1) show ?thesis by simp
  next
    case False
    then obtain rs where r: "rest = u # rs" "send_pass want info ts s = (woken, rs, s')"
      using Cons.prems(1) by (auto split: prod.splits)
    have "u \<notin> fst ` set woken" using send_pass_woken [OF r(2)] Cons.prems(2) by force
    with Cons.IH [OF r(2)] Cons.prems(2) r(1) show ?thesis by simp
  qed
qed simp

section \<open>The loop of a sender\<close>

lemma static_upd_event [simp]: "thread_static_ok (th\<lparr>event_set := s, event_info := f\<rparr>) = thread_static_ok th"
  by (simp add: thread_static_ok_def stack_ok_def)

lemma kinv_upd_event:
  assumes "kinv lo k"
  shows "kinv lo (upd_thread t (\<lambda>th. th\<lparr>event_set := s, event_info := f\<rparr>) k)"
proof -
  let ?k = "upd_thread t (\<lambda>th. th\<lparr>event_set := s, event_info := f\<rparr>) k"
  have "thread_ok ?k u = thread_ok k u" for u
    by (cases "u = t") (auto simp: thread_ok_def live_def activated_def thread_timer_ok_def)
  moreover have "queue_ok lo ?k = queue_ok lo k" by (intro queue_ok_cong) auto
  ultimately show ?thesis using assms by (simp add: kinv_def ready_inv_def table_ok32_def)
qed

lemma kinv_upd_event_set:
  assumes "kinv lo k"
  shows "kinv lo (upd_thread t (\<lambda>th. th\<lparr>event_set := s\<rparr>) k)"
proof -
  have "upd_thread t (\<lambda>th. th\<lparr>event_set := s\<rparr>) k = upd_thread t (\<lambda>th. th\<lparr>event_set := s, event_info := event_info (threads k t)\<rparr>) k"
    by (simp add: upd_thread_def)
  then show ?thesis using kinv_upd_event [OF assms, where f = "event_info (threads k t)"] by (simp only:)
qed

definition woken_threads :: "(tid \<times> u32) list \<Rightarrow> (tid \<Rightarrow> rt_thread) \<Rightarrow> tid \<Rightarrow> rt_thread" where
  "woken_threads woken ths u =
     (case map_of woken u of None \<Rightarrow> ths u | Some r \<Rightarrow> (ths u)\<lparr>event_set := r, stat := RT_THREAD_READY\<rparr>)"

lemma rt_event_send_loop_satisfied:
  assumes "satisfied (event_set (threads k t)) (event_info (threads k t)) s"
    and "rt_thread_resume t (upd_thread t (\<lambda>th. th\<lparr>event_set := event_set (threads k t) AND s\<rparr>) k) = Some (e, k1)"
  shows "rt_event_send_loop (t # ts) s need k =
    rt_event_send_loop ts (left_over (event_set (threads k t) AND s) (event_info (threads k t)) s) True k1"
proof -
  have i: "upd_thread t (\<lambda>th. th\<lparr>event_set := event_set (threads k t)\<rparr>) k = k" by (simp add: upd_thread_def)
  have u: "upd_thread t (\<lambda>th. th\<lparr>event_set := event_set th AND s\<rparr>) k = upd_thread t (\<lambda>th. th\<lparr>event_set := event_set (threads k t) AND s\<rparr>) k"
    by (simp add: upd_thread_def)
  show ?thesis
  proof (cases "event_info (threads k t) AND RT_EVENT_FLAG_AND \<noteq> 0")
    case True
    then have e: "event_set (threads k t) AND s = event_set (threads k t)" using assms(1) by (simp add: satisfied_def)
    have "rt_thread_resume t k = Some (e, k1)" using assms(2) unfolding e i .
    with True e show ?thesis by (simp add: left_over_def)
  next
    case False
    then have o: "event_info (threads k t) AND RT_EVENT_FLAG_OR \<noteq> 0" "event_set (threads k t) AND s \<noteq> 0"
      using assms(1) by (auto simp: satisfied_def split: if_splits)
    with False assms(2) show ?thesis by (simp add: left_over_def u del: bit.de_Morgan_conj)
  qed
qed

lemma rt_event_send_loop_unsatisfied:
  "\<not> satisfied (event_set (threads k t)) (event_info (threads k t)) s \<Longrightarrow>
    rt_event_send_loop (t # ts) s need k = rt_event_send_loop ts s need k"
  by (auto simp: satisfied_def Let_def split: if_splits)

lemma rt_event_send_loop_spec:
  assumes "kinv 0 k" and "q_list k (Wait i) = kept @ ts"
    and "\<forall>t\<in>set ts. want t = event_set (threads k t) \<and> info t = event_info (threads k t)"
    and "send_pass want info ts s = (woken, rest, s')"
  shows "\<exists>k'. rt_event_send_loop ts s need k = Some (s', need \<or> woken \<noteq> [], k') \<and> kinv 0 k' \<and>
     threads k' = woken_threads woken (threads k) \<and> q_list k' (Wait i) = kept @ rest \<and> objs k' = objs k \<and> same_ctx k k'"
  using assms
proof (induction ts arbitrary: kept s k need woken rest)
  case Nil
  then show ?case by (simp add: woken_threads_def fun_eq_iff)
next
  case (Cons t ts)
  have wt: "want t = event_set (threads k t)" "info t = event_info (threads k t)" using Cons.prems(3) by auto
  have dist: "distinct (kept @ t # ts)" using fam_wf_distinct [OF kinv_wf(1) [OF Cons.prems(1)], of "Wait i"] Cons.prems(2) by simp
  show ?case
  proof (cases "satisfied (want t) (info t) s")
    case False
    then obtain rs where r: "rest = t # rs" "send_pass want info ts s = (woken, rs, s')"
      using Cons.prems(4) by (auto split: prod.splits)
    have l: "q_list k (Wait i) = (kept @ [t]) @ ts" using Cons.prems(2) by simp
    have w: "\<forall>t\<in>set ts. want t = event_set (threads k t) \<and> info t = event_info (threads k t)" using Cons.prems(3) by simp
    from Cons.IH [OF Cons.prems(1) l w r(2), of need] False r(1) show ?thesis
      by (simp add: rt_event_send_loop_unsatisfied wt del: rt_event_send_loop.simps)
  next
    case True
    let ?r = "want t AND s"
    let ?k1 = "upd_thread t (\<lambda>th. th\<lparr>event_set := ?r\<rparr>) k"
    obtain wk where wk: "woken = (t, ?r) # wk" "send_pass want info ts (left_over ?r (info t) s) = (wk, rest, s')"
      using True Cons.prems(4) by (auto split: prod.splits)
    have inv1: "kinv 0 ?k1" by (rule kinv_upd_event_set [OF Cons.prems(1)])
    have "stat (threads k t) = RT_THREAD_SUSPEND"
      using waiting_suspended [OF Cons.prems(1) waiting_simps(1), of t i] Cons.prems(2) by simp
    then have "stat (threads ?k1 t) = RT_THREAD_SUSPEND" by simp
    from rt_thread_resume_spec [OF inv1 this] obtain k2 where k2: "rt_thread_resume t ?k1 = Some (RT_EOK, k2)" "kinv 0 k2"
      "threads k2 = (threads ?k1)(t := (threads ?k1 t)\<lparr>stat := RT_THREAD_READY\<rparr>)" "objs k2 = objs ?k1" "same_ctx ?k1 k2"
      "\<forall>q. q_list k2 q = (if q = Ready (prio ?k1 t) then q_list ?k1 q @ [t] else remove1 t (q_list ?k1 q))" by blast
    have l2: "q_list k2 (Wait i) = kept @ ts" using k2(6) Cons.prems(2) dist by (simp add: remove1_append)
    have w2: "\<forall>u\<in>set ts. want u = event_set (threads k2 u) \<and> info u = event_info (threads k2 u)"
      using Cons.prems(3) k2(3) dist by auto
    from Cons.IH [OF k2(2) l2 w2 wk(2), of True] obtain k' where
      k': "rt_event_send_loop ts (left_over ?r (info t) s) True k2 = Some (s', True, k')" "kinv 0 k'"
        "threads k' = woken_threads wk (threads k2)" "q_list k' (Wait i) = kept @ rest" "objs k' = objs k2" "same_ctx k2 k'" by auto
    have "t \<notin> fst ` set wk" using send_pass_woken [OF wk(2)] dist by force
    then have "map_of wk t = None" by (simp add: map_of_eq_None_iff)
    then have "threads k' = woken_threads woken (threads k)"
      unfolding k'(3) wk(1) k2(3) by (auto simp: fun_eq_iff woken_threads_def split: option.splits)
    moreover have "rt_event_send_loop (t # ts) s need k = Some (s', True, k')"
      using rt_event_send_loop_satisfied [of k t s RT_EOK k2] True k2(1) k'(1) wt by (simp del: rt_event_send_loop.simps)
    ultimately show ?thesis using k' k2(4,5) wk(1) by (simp add: same_ctx_def)
  qed
qed

lemma rt_event_send_spec:
  assumes inv: "kinv 0 k" and c: "rt_current_thread k = Some c" and s: "s \<noteq> 0"
    and p: "send_pass (\<lambda>t. event_set (threads k t)) (\<lambda>t. event_info (threads k t)) (q_list k (Wait i)) (ev_set ev OR s) = (woken, rest, s')"
  shows "\<exists>k'. rt_event_send i s ev k = Some (RT_EOK, ev\<lparr>ev_set := s'\<rparr>, k') \<and> kinv 0 k' \<and>
     threads k' = woken_threads woken (threads k) \<and> q_list k' (Wait i) = rest \<and> rt_current_thread k' \<noteq> None"
proof -
  from rt_event_send_loop_spec [OF inv _ _ p, of i "[]" False] obtain k1 where
    k1: "rt_event_send_loop (q_list k (Wait i)) (ev_set ev OR s) False k = Some (s', woken \<noteq> [], k1)" "kinv 0 k1"
      "threads k1 = woken_threads woken (threads k)" "q_list k1 (Wait i) = rest" "same_ctx k k1" by auto
  have e: "(if \<not> fam_isempty (Wait i) (queues k) then rt_event_send_loop (q_list k (Wait i)) (ev_set ev OR s) False k
      else Some (ev_set ev OR s, False, k)) = Some (s', woken \<noteq> [], k1)" using k1(1) by (auto simp: fam_isempty_def)
  have c1: "rt_current_thread k1 = Some c" using k1(5) c by (simp add: same_ctx_def)
  show ?thesis
  proof (cases woken)
    case Nil
    with e s k1 c1 show ?thesis by (simp add: rt_event_send_def Let_def split del: if_split cong: if_cong)
  next
    case (Cons w ws)
    have "stat (threads k1 (fst w)) = RT_THREAD_READY" unfolding k1(3) Cons by (cases w) (simp add: woken_threads_def)
    then have "some_ready k1" unfolding some_ready_def by blast
    then obtain k' where "rt_schedule k1 = Some k'" "same_data k1 k'" "kinv 0 k'" "rt_current_thread k' \<noteq> None"
      using kinv_schedule [OF k1(2)] c1 by metis
    with e s k1 Cons show ?thesis by (simp add: rt_event_send_def same_data_def Let_def split del: if_split cong: if_cong)
  qed
qed

lemma send_pass_distinct:
  "send_pass want info ts s = (woken, rest, s') \<Longrightarrow> distinct ts \<Longrightarrow> distinct (map fst woken)"
proof (induction ts arbitrary: s woken rest s')
  case (Cons u ts)
  show ?case
  proof (cases "satisfied (want u) (info u) s")
    case True
    then obtain wk where w: "woken = (u, want u AND s) # wk"
      "send_pass want info ts (left_over (want u AND s) (info u) s) = (wk, rest, s')"
      using Cons.prems(1) by (auto split: prod.splits)
    have "u \<notin> fst ` set wk" using send_pass_woken [OF w(2)] Cons.prems(2) by force
    with Cons.IH [OF w(2)] Cons.prems(2) w(1) show ?thesis by simp
  next
    case False
    with Cons show ?thesis by (auto split: prod.splits)
  qed
qed simp

section \<open>What an event object guarantees\<close>

lemma rt_event_recv_block:
  assumes run: "running k t" and fl: "ipc_flag_ok i k" and tm: "time_ok time" and n: "rt_interrupt_nest k = 0"
    and s: "s \<noteq> 0" "time \<noteq> 0" and opt: "opt AND (RT_EVENT_FLAG_AND OR RT_EVENT_FLAG_OR) \<noteq> 0" and u: "\<not> satisfied s opt (ev_set ev)"
  shows "\<exists>k'. rt_event_recv i s opt time ev k = Some (Blocked t, ev, k') \<and> kinv 0 k' \<and>
     threads k' = (threads k)(t := (threads k t)\<lparr>error := RT_EOK, event_set := s, event_info := opt, stat := RT_THREAD_SUSPEND\<rparr>) \<and>
     q_list k' (Wait i) = wait_insert (ipc_flag i k) (\<lambda>s. current_priority (threads k s)) t (q_list k (Wait i)) \<and>
     rt_current_thread k' \<noteq> None"
proof -
  let ?k1 = "upd_thread t (\<lambda>th. th\<lparr>error := RT_EOK\<rparr>) k"
  let ?k2 = "upd_thread t (\<lambda>th. th\<lparr>event_set := s, event_info := opt\<rparr>) ?k1"
  have ctx: "in_thread_context k = Some t"
    using runningD(2) [OF run] n by (simp add: in_thread_context_def rt_thread_self_def not_in_interrupt_def rt_interrupt_get_nest_def)
  have inv2: "kinv 0 ?k2" by (intro kinv_upd_event kinv_upd_error runningD(1) [OF run])
  from runningD(5) [OF run] obtain v where v: "v \<noteq> t" "stat (threads ?k2 v) = RT_THREAD_READY" by auto
  have c2: "rt_current_thread ?k2 = Some t" "stat (threads ?k2 t) = RT_THREAD_READY" using runningD(2,3) [OF run] by simp_all
  have pr: "(\<lambda>s. current_priority (threads ?k2 s)) = (\<lambda>s. current_priority (threads k s))" by (rule ext) simp
  have flag: "ipc_flag i ?k2 = ipc_flag i k" by (simp add: ipc_flag_def)
  have "ipc_flag i k = RT_IPC_FLAG_FIFO \<or> ipc_flag i k = RT_IPC_FLAG_PRIO" using fl by (simp add: ipc_flag_ok_def)
  from ipc_wait_spec [OF inv2 order_refl c2 v(2,1) waiting_simps(1) this tm, of i] obtain k' where
    k': "ipc_wait (Wait i) (ipc_flag i k) time t ?k2 = Some k'" "kinv 0 k'"
      "threads k' = (threads ?k2)(t := (threads ?k2 t)\<lparr>stat := RT_THREAD_SUSPEND\<rparr>)"
      "q_list k' (Wait i) = wait_insert (ipc_flag i k) (\<lambda>s. current_priority (threads ?k2 s)) t (q_list ?k2 (Wait i))"
      "rt_current_thread k' \<noteq> None" by blast
  have "opt AND RT_EVENT_FLAG_AND \<noteq> 0 \<or> opt AND RT_EVENT_FLAG_OR \<noteq> 0"
    using opt unfolding bit.conj_disj_distrib by auto
  then have "rt_event_recv i s opt time ev k = Some (Blocked t, ev, k')"
    using ctx s u k'(1) flag by (auto simp: rt_event_recv_def satisfied_def Let_def and.commute split: if_splits)
  then show ?thesis using k' unfolding pr by simp
qed

lemma rt_event_recv_now:
  assumes run: "running k t" and n: "rt_interrupt_nest k = 0" and s: "s \<noteq> 0" and sat: "satisfied s opt (ev_set ev)"
  shows "rt_event_recv i s opt time ev k = Some (Ret (RT_EOK, Some (ev_set ev AND s)),
     ev\<lparr>ev_set := left_over s opt (ev_set ev)\<rparr>, upd_thread t (\<lambda>th. th\<lparr>error := RT_EOK\<rparr>) k)"
proof -
  have ctx: "in_thread_context k = Some t"
    using runningD(2) [OF run] n by (simp add: in_thread_context_def rt_thread_self_def not_in_interrupt_def rt_interrupt_get_nest_def)
  show ?thesis
    using ctx s sat by (auto simp: rt_event_recv_def satisfied_def left_over_def Let_def and.commute split: if_splits)
qed

lemma rt_event_recv_timeout:
  assumes run: "running k t" and n: "rt_interrupt_nest k = 0" and s: "s \<noteq> 0"
    and opt: "opt AND (RT_EVENT_FLAG_AND OR RT_EVENT_FLAG_OR) \<noteq> 0" and u: "\<not> satisfied s opt (ev_set ev)"
  shows "rt_event_recv i s opt 0 ev k = Some (Ret (- RT_ETIMEOUT, None), ev,
     upd_thread t (\<lambda>th. th\<lparr>error := - RT_ETIMEOUT\<rparr>) (upd_thread t (\<lambda>th. th\<lparr>error := RT_EOK\<rparr>) k))"
proof -
  have ctx: "in_thread_context k = Some t"
    using runningD(2) [OF run] n by (simp add: in_thread_context_def rt_thread_self_def not_in_interrupt_def rt_interrupt_get_nest_def)
  have "opt AND RT_EVENT_FLAG_AND \<noteq> 0 \<or> opt AND RT_EVENT_FLAG_OR \<noteq> 0"
    using opt unfolding bit.conj_disj_distrib by auto
  with ctx s u show ?thesis by (auto simp: rt_event_recv_def satisfied_def Let_def and.commute split: if_splits)
qed

lemma event_inv_antimono:
  assumes "event_inv i ev k" and "q_list k' (Wait i) = q_list k (Wait i)"
    and "\<And>u. event_set (threads k' u) = event_set (threads k u) \<and> event_info (threads k' u) = event_info (threads k u)"
  shows "event_inv i (ev\<lparr>ev_set := left_over s opt (ev_set ev)\<rparr>) k'" and "event_inv i ev k'"
  using assms satisfied_left_over by (auto simp: event_inv_def)


lemma boot_flag_ok: "ipc_flag_ok 7 boot_kernel"
  by (simp add: ipc_flag_ok_def boot_ipc_flag)


text \<open>
  C13: \<^verbatim>\<open>rt_event_send\<close> adds the bits and makes one pass over the waiters in their order, as
  \<open>send_pass\<close> says: each waiter the bits satisfy when its turn comes is made ready, its
  \<^verbatim>\<open>rt_event_recv\<close> returns the wanted bits that were there, and those are taken away if it asked
  for that; the others keep their places.  Afterwards nobody waits for what is there.
\<close>

theorem rt_event_send_correct:
  assumes inv: "kinv 0 k" and c: "rt_current_thread k = Some c" and s: "s \<noteq> 0"
    and e: "\<forall>t\<in>set (q_list k (Wait i)). error (threads k t) = RT_EOK"
  shows "\<exists>woken rest s' k'. rt_event_send i s ev k = Some (RT_EOK, ev\<lparr>ev_set := s'\<rparr>, k') \<and> kinv 0 k' \<and>
     send_pass (\<lambda>t. event_set (threads k t)) (\<lambda>t. event_info (threads k t)) (q_list k (Wait i)) (ev_set ev OR s) = (woken, rest, s') \<and>
     q_list k' (Wait i) = rest \<and> rest = filter (\<lambda>t. t \<notin> fst ` set woken) (q_list k (Wait i)) \<and>
     event_inv i (ev\<lparr>ev_set := s'\<rparr>) k' \<and>
     (\<forall>(t, r)\<in>set woken. stat (threads k' t) = RT_THREAD_READY \<and> rt_event_recv_wake t k' = (RT_EOK, Some r) \<and>
        satisfied (event_set (threads k t)) (event_info (threads k t)) (ev_set ev OR s))"
proof -
  let ?w = "\<lambda>t. event_set (threads k t)" and ?f = "\<lambda>t. event_info (threads k t)" and ?q = "q_list k (Wait i)"
  obtain woken rest s' where p: "send_pass ?w ?f ?q (ev_set ev OR s) = (woken, rest, s')" by (metis prod_cases3)
  have d: "distinct ?q" using fam_wf_distinct [OF kinv_wf(1) [OF inv]] .
  have r: "rest = filter (\<lambda>t. t \<notin> fst ` set woken) ?q" by (rule send_pass_rest_filter [OF p d])
  from rt_event_send_spec [OF inv c s p] obtain k' where k': "rt_event_send i s ev k = Some (RT_EOK, ev\<lparr>ev_set := s'\<rparr>, k')" "kinv 0 k'"
    "threads k' = woken_threads woken (threads k)" "q_list k' (Wait i) = rest" by blast
  have "event_inv i (ev\<lparr>ev_set := s'\<rparr>) k'"
  proof -
    have "threads k' t = threads k t" if "t \<in> set rest" for t
      using that r by (simp add: k'(3) woken_threads_def map_of_eq_None_iff [THEN iffD2])
    then show ?thesis using send_pass_rest [OF p] k'(4) by (simp add: event_inv_def)
  qed
  moreover have "stat (threads k' t) = RT_THREAD_READY \<and> rt_event_recv_wake t k' = (RT_EOK, Some r) \<and> satisfied (?w t) (?f t) (ev_set ev OR s)"
    if m: "(t, r) \<in> set woken" for t r
  proof -
    have "map_of woken t = Some r" using m send_pass_distinct [OF p d] by simp
    then have th: "threads k' t = (threads k t)\<lparr>event_set := r, stat := RT_THREAD_READY\<rparr>" by (simp add: k'(3) woken_threads_def)
    from send_pass_woken [OF p m] have "t \<in> set ?q" "satisfied (?w t) (?f t) (ev_set ev OR s)" using satisfied_mono by auto
    then show ?thesis using e th by (simp add: rt_event_recv_wake_def)
  qed
  ultimately show ?thesis using k' p r by blast
qed

theorem rt_event_send_correct_witness:
  "\<exists>k k'. rt_event_recv 7 6 (RT_EVENT_FLAG_OR OR RT_EVENT_FLAG_CLEAR) RT_WAITING_FOREVER \<lparr>ev_set = 1\<rparr> boot_kernel =
       Some (Blocked 2, \<lparr>ev_set = 1\<rparr>, k) \<and>
     rt_event_send 7 4 \<lparr>ev_set = 1\<rparr> k = Some (RT_EOK, \<lparr>ev_set = 1\<rparr>, k') \<and> rt_event_recv_wake 2 k' = (RT_EOK, Some 4)"
proof -
  have "time_ok RT_WAITING_FOREVER" "\<not> satisfied 6 (RT_EVENT_FLAG_OR OR RT_EVENT_FLAG_CLEAR) (ev_set \<lparr>ev_set = 1\<rparr>)"
    by (simp_all add: time_ok_def satisfied_def)
  from rt_event_recv_block [OF boot_running boot_flag_ok this(1) boot_kernel(11) _ _ _ this(2)] obtain k where
    k: "rt_event_recv 7 6 (RT_EVENT_FLAG_OR OR RT_EVENT_FLAG_CLEAR) RT_WAITING_FOREVER \<lparr>ev_set = 1\<rparr> boot_kernel =
       Some (Blocked 2, \<lparr>ev_set = 1\<rparr>, k)" "kinv 0 k" "q_list k (Wait 7) = [2]" "rt_current_thread k \<noteq> None"
      "error (threads k 2) = RT_EOK" "event_set (threads k 2) = 6" "event_info (threads k 2) = 6"
    by (auto simp: boot_no_waiters wait_insert_def)
  from k(4) obtain c where "rt_current_thread k = Some c" by blast
  from rt_event_send_correct [OF k(2) this, of 4 7 "\<lparr>ev_set = 1\<rparr>"] k show ?thesis
    by (auto simp: satisfied_def left_over_def)
qed

end
