(* ===== verification/Fifo.thy ===== *)
theory Fifo
  imports Ipc
begin

text \<open>
  Rings of slots, and the interface of a bounded first-in first-out store that a ring, a mailbox
  and a message queue share: what a client may put in and what it gets out, whatever the
  order of the calls.
\<close>

section \<open>A window of a ring\<close>

text \<open>The \<open>n\<close> slots from \<open>s\<close> on, in a ring made of the first \<open>N\<close> slots of \<open>xs\<close>.\<close>

definition window :: "nat \<Rightarrow> 'a list \<Rightarrow> nat \<Rightarrow> nat \<Rightarrow> 'a list" where
  "window N xs s n = map (\<lambda>j. xs ! ((s + j) mod N)) [0..<n]"

lemma length_window [simp]: "length (window N xs s n) = n"
  by (simp add: window_def)

lemma window_0 [simp]: "window N xs s 0 = []"
  by (simp add: window_def)

lemma window_put:
  assumes "n < N" and "N \<le> length xs" and "i = (s + n) mod N"
  shows "window N (xs[i := v]) s (Suc n) = window N xs s n @ [v]"
proof -
  have "(s + j) mod N \<noteq> i" if "j < n" for j
  proof
    assume "(s + j) mod N = i"
    with assms(3) have "(s + n) mod N = (s + j) mod N" by simp
    then have "(s + n - (s + j)) mod N = 0" using that by (intro mod_eq_dvd_iff_nat [THEN iffD1, THEN dvd_imp_mod_0]) auto
    then show False using that assms(1) by simp
  qed
  then have "window N (xs[i := v]) s n = window N xs s n" by (auto simp: window_def) (metis nth_list_update_neq)
  moreover have "i < length xs" using assms by (metis mod_less_divisor less_zeroE not_gr_zero order_less_le_trans)
  ultimately show ?thesis using assms(3) by (simp add: window_def)
qed

lemma window_get:
  assumes "s < N"
  shows "window N xs s (Suc n) = xs ! s # window N xs (Suc s mod N) n"
proof -
  have "(s + Suc j) mod N = (Suc s mod N + j) mod N" for j by (simp add: mod_add_left_eq)
  then show ?thesis using assms
    by (simp add: window_def upt_conv_Cons map_Suc_upt [symmetric] del: upt_Suc)
qed

text \<open>The C idiom: count up and start over at the end.\<close>

lemma wrap_Suc: "i < N \<Longrightarrow> (if N \<le> Suc i then 0 else Suc i) = Suc i mod N"
  by (auto simp: mod_Suc)

section \<open>Bounded first-in first-out stores\<close>

datatype 'v fifo_op = Put 'v | Get

text \<open>A run of calls, those that fail leaving the store alone: what was put in, what was got out.\<close>

fun fifo_run ::
  "('v \<Rightarrow> 's \<Rightarrow> 's option) \<Rightarrow> ('s \<Rightarrow> ('v \<times> 's) option) \<Rightarrow> 'v fifo_op list \<Rightarrow> 's \<Rightarrow> 'v list \<times> 'v list \<times> 's" where
  "fifo_run put get [] s = ([], [], s)"
| "fifo_run put get (Put v # ops) s =
     (case put v s of None \<Rightarrow> fifo_run put get ops s
      | Some s' \<Rightarrow> (case fifo_run put get ops s' of (sent, got, t) \<Rightarrow> (v # sent, got, t)))"
| "fifo_run put get (Get # ops) s =
     (case get s of None \<Rightarrow> fifo_run put get ops s
      | Some (v, s') \<Rightarrow> (case fifo_run put get ops s' of (sent, got, t) \<Rightarrow> (sent, v # got, t)))"

locale bounded_fifo =
  fixes ok :: "'s \<Rightarrow> bool" and contents :: "'s \<Rightarrow> 'v list" and capacity :: "'s \<Rightarrow> nat"
    and put :: "'v \<Rightarrow> 's \<Rightarrow> 's option" and get :: "'s \<Rightarrow> ('v \<times> 's) option"
  assumes bounded: "ok s \<Longrightarrow> length (contents s) \<le> capacity s"
    and put_law: "ok s \<Longrightarrow> length (contents s) < capacity s \<Longrightarrow>
      \<exists>s'. put v s = Some s' \<and> ok s' \<and> contents s' = contents s @ [v] \<and> capacity s' = capacity s"
    and put_full: "ok s \<Longrightarrow> length (contents s) = capacity s \<Longrightarrow> put v s = None"
    and get_law: "ok s \<Longrightarrow> contents s = v # vs \<Longrightarrow>
      \<exists>s'. get s = Some (v, s') \<and> ok s' \<and> contents s' = vs \<and> capacity s' = capacity s"
    and get_empty: "ok s \<Longrightarrow> contents s = [] \<Longrightarrow> get s = None"
begin

lemma run_fifo:
  "ok s \<Longrightarrow> fifo_run put get ops s = (sent, got, t) \<Longrightarrow>
     ok t \<and> contents s @ sent = got @ contents t \<and> capacity t = capacity s"
proof (induction ops arbitrary: s sent got)
  case (Cons a ops)
  show ?case
  proof (cases a)
    case (Put v)
    show ?thesis
    proof (cases "length (contents s) < capacity s")
      case True
      from put_law [OF Cons.prems(1) True] obtain s' where s': "put v s = Some s'" "ok s'" "contents s' = contents s @ [v]"
        "capacity s' = capacity s" by blast
      obtain sent' where "fifo_run put get ops s' = (sent', got, t)" "sent = v # sent'"
        using Cons.prems(2) Put s'(1) by (auto split: prod.splits)
      from Cons.IH [OF s'(2) this(1)] this(2) s' show ?thesis by auto
    next
      case False
      then have "put v s = None" using put_full [OF Cons.prems(1)] bounded [OF Cons.prems(1)] by simp
      with Cons Put show ?thesis by simp
    qed
  next
    case Get
    show ?thesis
    proof (cases "contents s")
      case Nil
      with get_empty [OF Cons.prems(1)] Cons.prems(2) Cons.IH [OF Cons.prems(1)] Get show ?thesis by auto
    next
      case c: (Cons v vs)
      from get_law [OF Cons.prems(1) c] obtain s' where s': "get s = Some (v, s')" "ok s'" "contents s' = vs"
        "capacity s' = capacity s" by blast
      obtain got' where "fifo_run put get ops s' = (sent, got', t)" "got = v # got'"
        using Cons.prems(2) Get s'(1) by (auto split: prod.splits)
      from Cons.IH [OF s'(2) this(1)] this(2) s' c show ?thesis by auto
    qed
  qed
qed simp

end

section \<open>Waking and waiting again\<close>

text \<open>The end of the mailbox and message queue calls: wake the first waiter, if there is one.\<close>

definition ipc_wake :: "qhead \<Rightarrow> kernel \<Rightarrow> kernel option" where
  "ipc_wake q k =
     (if \<not> fam_isempty q (queues k)
      then do { k \<leftarrow> rt_ipc_list_resume q k; rt_schedule k }
      else Some k)"

lemma ipc_wake_spec:
  assumes inv: "kinv 0 k" and c: "rt_current_thread k = Some c" and q: "waiting q"
  shows "\<exists>k'. ipc_wake q k = Some k' \<and> kinv 0 k' \<and> rt_current_thread k' \<noteq> None \<and> q_list k' q = tl (q_list k q) \<and>
     (\<forall>q'. waiting q' \<and> q' \<noteq> q \<longrightarrow> q_list k' q' = q_list k q') \<and> objs k' = objs k \<and> rt_tick k' = rt_tick k \<and>
     threads k' = (case q_list k q of [] \<Rightarrow> threads k | t # ts \<Rightarrow> (threads k)(t := (threads k t)\<lparr>stat := RT_THREAD_READY\<rparr>)) \<and>
     (q_list k q = [] \<longrightarrow> k' = k)"
proof (cases "q_list k q")
  case Nil
  with inv c show ?thesis by (simp add: ipc_wake_def fam_isempty_def)
next
  case (Cons t ts)
  from wake_schedule_spec [OF inv q Cons c] obtain k1 k' where
    "rt_ipc_list_resume q k = Some k1" "rt_schedule k1 = Some k'" "kinv 0 k'"
    "threads k' = (threads k)(t := (threads k t)\<lparr>stat := RT_THREAD_READY\<rparr>)" "q_list k' q = ts"
    "\<forall>q'. waiting q' \<and> q' \<noteq> q \<longrightarrow> q_list k' q' = q_list k q'" "objs k' = objs k" "rt_tick k' = rt_tick k" "rt_current_thread k' \<noteq> None"
    by blast
  with Cons show ?thesis by (simp add: ipc_wake_def fam_isempty_def)
qed

text \<open>The waiting time that is left when a woken thread finds that it has to wait again.\<close>

definition retry_time :: "rt_int32_t \<Rightarrow> u32 \<Rightarrow> kernel \<Rightarrow> rt_int32_t" where
  "retry_time timeout tick_delta k =
     (if 0 < sint timeout then
        let tick_delta = rt_tick_get k - tick_delta;
            timeout = timeout - tick_delta
        in if sint timeout < 0 then 0 else timeout
      else timeout)"

definition retry_delta :: "rt_int32_t \<Rightarrow> u32 \<Rightarrow> kernel \<Rightarrow> u32" where
  "retry_delta timeout tick_delta k = (if 0 < sint timeout then rt_tick_get k - tick_delta else tick_delta)"

lemma sint_small: "unat (w :: u32) < 2147483648 \<Longrightarrow> sint w = int (unat w)"
proof -
  assume "unat w < 2147483648"
  then have "- (2147483648 :: int) \<le> int (unat w)" "int (unat w) < 2147483648" by linarith+
  then have "signed_take_bit 31 (int (unat w)) = int (unat w)" by (intro signed_take_bit_int_eq_self) simp_all
  then show ?thesis by (simp add: sint_uint)
qed

lemma retry_time_elapsed:
  assumes t: "0 < sint timeout" and e: "unat (rt_tick k - tick_delta) < 2147483648"
  shows "sint (retry_time timeout tick_delta k) = max 0 (sint timeout - int (unat (rt_tick k - tick_delta)))"
proof -
  let ?d = "rt_tick k - tick_delta"
  have "sint timeout < 2147483648" using sint_lt [of timeout] by simp
  then have r: "- 2147483648 \<le> sint timeout - sint ?d" "sint timeout - sint ?d < 2147483648"
    unfolding sint_small [OF e] using t e by linarith+
  have "sint (timeout - ?d) = signed_take_bit 31 (sint timeout - sint ?d)"
    by (simp add: sint_word_ariths)
  also have "\<dots> = sint timeout - sint ?d" using r by (intro signed_take_bit_int_eq_self) simp_all
  finally show ?thesis using t sint_small [OF e] by (simp add: retry_time_def Let_def rt_tick_get_def)
qed

end
