(* ===== verification/Mailbox.thy ===== *)
theory Mailbox
  imports Event Fifo
begin

text \<open>
  Mailboxes, \<^verbatim>\<open>src/ipc.c\<close>: a ring of 32-bit mails with the receivers waiting on the list \<open>Wait i\<close> and
  the senders on \<open>SenderWait i\<close>, and its refinement of a bounded first-in first-out store.
\<close>

section \<open>The operations\<close>

record rt_mailbox =
  mb_pool :: "u32 list"
  mb_size :: u16
  mb_entry :: u16
  in_offset :: u16
  out_offset :: u16

definition mailbox_fields :: "u32 list \<Rightarrow> u32 \<Rightarrow> rt_mailbox" where
  "mailbox_fields pool size' = \<lparr>mb_pool = pool, mb_size = ucast size', mb_entry = 0, in_offset = 0, out_offset = 0\<rparr>"

text \<open>\<^verbatim>\<open>rt_list_init\<close> of the senders' list: it must be empty.\<close>

definition sender_list_init :: "nat \<Rightarrow> kernel \<Rightarrow> kernel option" where
  "sender_list_init i k = do { valid_access (q_list k (SenderWait i) = []); Some k }"

definition rt_mb_init ::
  "nat \<Rightarrow> cstr \<Rightarrow> u32 list \<Rightarrow> u32 \<Rightarrow> u8 \<Rightarrow> kernel \<Rightarrow> (rt_err_t \<times> rt_mailbox \<times> kernel) option" where
  "rt_mb_init i name msgpool size' flag k =
     do { os \<leftarrow> rt_object_init (OIpc i) RT_Object_Class_MailBox name (objs k);
          let k = set_ipc_flag i flag (k\<lparr>objs := os\<rparr>);
          k \<leftarrow> rt_ipc_object_init i k;
          k \<leftarrow> sender_list_init i k;
          Some (RT_EOK, mailbox_fields msgpool size', k) }"

definition rt_mb_detach :: "nat \<Rightarrow> kernel \<Rightarrow> (rt_err_t \<times> kernel) option" where
  "rt_mb_detach i k =
     do { k \<leftarrow> rt_ipc_list_resume_all (Wait i) k;
          k \<leftarrow> rt_ipc_list_resume_all (SenderWait i) k;
          Some (RT_EOK, k\<lparr>objs := rt_object_detach (OIpc i) (objs k)\<rparr>) }"

text \<open>\<open>mem\<close> and \<open>pool\<close> are the outcomes of the two allocations; \<open>pool\<close> is given the size it is asked for.\<close>

definition rt_mb_create ::
  "nat option \<Rightarrow> (nat \<Rightarrow> u32 list option) \<Rightarrow> cstr \<Rightarrow> u32 \<Rightarrow> u8 \<Rightarrow> kernel \<Rightarrow> ((nat \<times> rt_mailbox) option \<times> kernel) option" where
  "rt_mb_create mem pool name size' flag k =
     do { not_in_interrupt k;
          (mb, os) \<leftarrow> rt_object_allocate (map_option OIpc mem) RT_Object_Class_MailBox name (objs k);
          let k = k\<lparr>objs := os\<rparr>;
          (case mem of
             None \<Rightarrow> Some (None, k)
           | Some i \<Rightarrow>
               do { let k = set_ipc_flag i flag k;
                    k \<leftarrow> rt_ipc_object_init i k;
                    (case pool (unat (ucast size' :: u16)) of
                       None \<Rightarrow> do { os \<leftarrow> rt_object_delete (OIpc i) (objs k); Some (None, k\<lparr>objs := os\<rparr>) }
                     | Some p \<Rightarrow> do { k \<leftarrow> sender_list_init i k;
                                      Some (Some (i, mailbox_fields p size'), k) }) }) }"

text \<open>The memory of the pool is given back; it is not looked at any more.\<close>

definition rt_mb_delete :: "nat \<Rightarrow> kernel \<Rightarrow> (rt_err_t \<times> kernel) option" where
  "rt_mb_delete i k =
     do { not_in_interrupt k;
          k \<leftarrow> rt_ipc_list_resume_all (Wait i) k;
          k \<leftarrow> rt_ipc_list_resume_all (SenderWait i) k;
          os \<leftarrow> rt_object_delete (OIpc i) (objs k);
          Some (RT_EOK, k\<lparr>objs := os\<rparr>) }"

text \<open>Writing a mail at the input offset, and reading one at the output offset.\<close>

definition mb_store :: "u32 \<Rightarrow> rt_mailbox \<Rightarrow> rt_mailbox option" where
  "mb_store value mb =
     do { valid_access (unat (in_offset mb) < length (mb_pool mb));
          let mb = mb\<lparr>mb_pool := (mb_pool mb)[unat (in_offset mb) := value]\<rparr>;
          let mb = mb\<lparr>in_offset := in_offset mb + 1\<rparr>;
          let mb = (if in_offset mb \<ge> mb_size mb then mb\<lparr>in_offset := 0\<rparr> else mb);
          Some (mb\<lparr>mb_entry := mb_entry mb + 1\<rparr>) }"

definition mb_fetch :: "rt_mailbox \<Rightarrow> (u32 \<times> rt_mailbox) option" where
  "mb_fetch mb =
     do { valid_access (unat (out_offset mb) < length (mb_pool mb));
          let value = mb_pool mb ! unat (out_offset mb);
          let mb = mb\<lparr>out_offset := out_offset mb + 1\<rparr>;
          let mb = (if out_offset mb \<ge> mb_size mb then mb\<lparr>out_offset := 0\<rparr> else mb);
          Some (value, mb\<lparr>mb_entry := mb_entry mb - 1\<rparr>) }"

text \<open>
  The loop of \<^verbatim>\<open>rt_mb_send_wait\<close> from its test on, with the local variables \<^verbatim>\<open>thread\<close>, \<^verbatim>\<open>timeout\<close> and
  \<^verbatim>\<open>tick_delta\<close>; a call that waits keeps them, and tests again when it is woken.
\<close>

type_synonym wait_locals = "tid \<times> rt_int32_t \<times> u32"

definition mb_send_loop ::
  "nat \<Rightarrow> u32 \<Rightarrow> tid option \<Rightarrow> rt_int32_t \<Rightarrow> u32 \<Rightarrow> rt_mailbox \<Rightarrow> kernel \<Rightarrow>
     ((rt_err_t, wait_locals) outcome \<times> rt_mailbox \<times> kernel) option" where
  "mb_send_loop i value self timeout tick_delta mb k =
     (if mb_entry mb = mb_size mb then
        do { thread \<leftarrow> self;
             let k = upd_thread thread (\<lambda>th. th\<lparr>error := RT_EOK\<rparr>) k;
             if timeout = 0 then Some (Ret (- RT_EFULL), mb, k)
             else do { _ \<leftarrow> in_thread_context k;
                       let tick_delta = (if 0 < sint timeout then rt_tick_get k else tick_delta);
                       k \<leftarrow> ipc_wait (SenderWait i) (ipc_flag i k) timeout thread k;
                       Some (Blocked (thread, timeout, tick_delta), mb, k) } }
      else do { mb \<leftarrow> mb_store value mb;
                k \<leftarrow> ipc_wake (Wait i) k;
                Some (Ret RT_EOK, mb, k) })"

definition rt_mb_send_wait ::
  "nat \<Rightarrow> u32 \<Rightarrow> rt_int32_t \<Rightarrow> rt_mailbox \<Rightarrow> kernel \<Rightarrow> ((rt_err_t, wait_locals) outcome \<times> rt_mailbox \<times> kernel) option" where
  "rt_mb_send_wait i value timeout mb k =
     (if mb_entry mb = mb_size mb \<and> timeout = 0 then Some (Ret (- RT_EFULL), mb, k)
      else mb_send_loop i value (rt_thread_self k) timeout 0 mb k)"

definition rt_mb_send_wait_wake ::
  "nat \<Rightarrow> u32 \<Rightarrow> wait_locals \<Rightarrow> rt_mailbox \<Rightarrow> kernel \<Rightarrow> ((rt_err_t, wait_locals) outcome \<times> rt_mailbox \<times> kernel) option" where
  "rt_mb_send_wait_wake i value = (\<lambda>(thread, timeout, tick_delta) mb k.
     if error (threads k thread) \<noteq> RT_EOK then Some (Ret (error (threads k thread)), mb, k)
     else mb_send_loop i value (Some thread) (retry_time timeout tick_delta k) (retry_delta timeout tick_delta k) mb k)"

definition rt_mb_send ::
  "nat \<Rightarrow> u32 \<Rightarrow> rt_mailbox \<Rightarrow> kernel \<Rightarrow> ((rt_err_t, wait_locals) outcome \<times> rt_mailbox \<times> kernel) option" where
  "rt_mb_send i value mb k = rt_mb_send_wait i value 0 mb k"

text \<open>The result of \<^verbatim>\<open>rt_mb_recv\<close> is its error code and what it stored in \<^verbatim>\<open>*value\<close>, if it did.\<close>

definition mb_recv_loop ::
  "nat \<Rightarrow> tid option \<Rightarrow> rt_int32_t \<Rightarrow> u32 \<Rightarrow> rt_mailbox \<Rightarrow> kernel \<Rightarrow>
     ((rt_err_t \<times> u32 option, wait_locals) outcome \<times> rt_mailbox \<times> kernel) option" where
  "mb_recv_loop i self timeout tick_delta mb k =
     (if mb_entry mb = 0 then
        do { thread \<leftarrow> self;
             let k = upd_thread thread (\<lambda>th. th\<lparr>error := RT_EOK\<rparr>) k;
             if timeout = 0
             then Some (Ret (- RT_ETIMEOUT, None), mb, upd_thread thread (\<lambda>th. th\<lparr>error := - RT_ETIMEOUT\<rparr>) k)
             else do { _ \<leftarrow> in_thread_context k;
                       let tick_delta = (if 0 < sint timeout then rt_tick_get k else tick_delta);
                       k \<leftarrow> ipc_wait (Wait i) (ipc_flag i k) timeout thread k;
                       Some (Blocked (thread, timeout, tick_delta), mb, k) } }
      else do { (value, mb) \<leftarrow> mb_fetch mb;
                k \<leftarrow> ipc_wake (SenderWait i) k;
                Some (Ret (RT_EOK, Some value), mb, k) })"

definition rt_mb_recv ::
  "nat \<Rightarrow> rt_int32_t \<Rightarrow> rt_mailbox \<Rightarrow> kernel \<Rightarrow>
     ((rt_err_t \<times> u32 option, wait_locals) outcome \<times> rt_mailbox \<times> kernel) option" where
  "rt_mb_recv i timeout mb k =
     (if mb_entry mb = 0 \<and> timeout = 0 then Some (Ret (- RT_ETIMEOUT, None), mb, k)
      else mb_recv_loop i (rt_thread_self k) timeout 0 mb k)"

definition rt_mb_recv_wake ::
  "nat \<Rightarrow> wait_locals \<Rightarrow> rt_mailbox \<Rightarrow> kernel \<Rightarrow>
     ((rt_err_t \<times> u32 option, wait_locals) outcome \<times> rt_mailbox \<times> kernel) option" where
  "rt_mb_recv_wake i = (\<lambda>(thread, timeout, tick_delta) mb k.
     if error (threads k thread) \<noteq> RT_EOK then Some (Ret (error (threads k thread), None), mb, k)
     else mb_recv_loop i (Some thread) (retry_time timeout tick_delta k) (retry_delta timeout tick_delta k) mb k)"

definition rt_mb_control ::
  "nat \<Rightarrow> ipc_cmd \<Rightarrow> rt_mailbox \<Rightarrow> kernel \<Rightarrow> (rt_err_t \<times> rt_mailbox \<times> kernel) option" where
  "rt_mb_control i cmd mb k =
     (case cmd of
        RT_IPC_CMD_RESET _ \<Rightarrow>
          do { k \<leftarrow> rt_ipc_list_resume_all (Wait i) k;
               k \<leftarrow> rt_ipc_list_resume_all (SenderWait i) k;
               let mb = mb\<lparr>mb_entry := 0, in_offset := 0, out_offset := 0\<rparr>;
               k \<leftarrow> rt_schedule k;
               Some (RT_EOK, mb, k) }
      | RT_IPC_CMD_UNKNOWN \<Rightarrow> Some (- RT_ERROR, mb, k))"

section \<open>The ring\<close>

definition mb_inv :: "rt_mailbox \<Rightarrow> bool" where
  "mb_inv mb \<longleftrightarrow> 0 < unat (mb_size mb) \<and> unat (mb_size mb) \<le> length (mb_pool mb) \<and>
     unat (out_offset mb) < unat (mb_size mb) \<and> unat (mb_entry mb) \<le> unat (mb_size mb) \<and>
     unat (in_offset mb) = (unat (out_offset mb) + unat (mb_entry mb)) mod unat (mb_size mb)"

definition mails :: "rt_mailbox \<Rightarrow> u32 list" where
  "mails mb = window (unat (mb_size mb)) (mb_pool mb) (unat (out_offset mb)) (unat (mb_entry mb))"

lemma length_mails [simp]: "length (mails mb) = unat (mb_entry mb)"
  by (simp add: mails_def)

lemma unat_inc: "unat (a :: u16) < unat (b :: u16) \<Longrightarrow> unat (a + 1) = Suc (unat a)"
  using unsigned_less [of b, where ?'a = nat] by (simp add: unat_word_ariths)

lemma wrap_inc:
  assumes "unat (a :: u16) < unat (b :: u16)"
  shows "unat (if b \<le> a + 1 then 0 else a + 1) = Suc (unat a) mod unat b"
  using wrap_Suc [OF assms] unat_inc [OF assms] by (simp add: word_le_nat_alt split: if_splits)

lemma mb_store_spec:
  assumes inv: "mb_inv mb" and e: "mb_entry mb \<noteq> mb_size mb"
  shows "\<exists>mb'. mb_store v mb = Some mb' \<and> mb_inv mb' \<and> mails mb' = mails mb @ [v] \<and> mb_size mb' = mb_size mb"
proof -
  let ?N = "unat (mb_size mb)" and ?i = "unat (in_offset mb)" and ?o = "unat (out_offset mb)" and ?n = "unat (mb_entry mb)"
  note i = inv [unfolded mb_inv_def]
  have n: "?n < ?N" using i e by (metis nat_less_le word_unat_eq_iff)
  have io: "?i < ?N" using i by simp
  define mb' where "mb' = mb\<lparr>mb_pool := (mb_pool mb)[?i := v],
     in_offset := (if mb_size mb \<le> in_offset mb + 1 then 0 else in_offset mb + 1), mb_entry := mb_entry mb + 1\<rparr>"
  have "?i < length (mb_pool mb)" using i io by linarith
  then have "mb_store v mb = Some mb'" by (simp add: mb_store_def mb'_def Let_def)
  moreover have "unat (in_offset mb') = (?o + Suc ?n) mod ?N"
    unfolding mb'_def using wrap_inc [OF io] i by (simp add: mod_Suc_eq)
  then have "mb_inv mb'" using i n unat_inc [OF n] by (simp add: mb_inv_def mb'_def)
  moreover have "mails mb' = mails mb @ [v]"
    using window_put [OF n, of "mb_pool mb" ?i ?o v] i unat_inc [OF n] by (simp add: mails_def mb'_def)
  ultimately show ?thesis by (simp add: mb'_def)
qed

lemma mb_fetch_spec:
  assumes inv: "mb_inv mb" and e: "mb_entry mb \<noteq> 0"
  shows "\<exists>mb'. mb_fetch mb = Some (hd (mails mb), mb') \<and> mb_inv mb' \<and> mails mb' = tl (mails mb) \<and> mb_size mb' = mb_size mb"
proof -
  let ?N = "unat (mb_size mb)" and ?o = "unat (out_offset mb)" and ?n = "unat (mb_entry mb)"
  note i = inv [unfolded mb_inv_def]
  have n: "?n = Suc (unat (mb_entry mb - 1))" using e by (simp add: unat_minus_one unat_gt_0)
  have oN: "?o < ?N" using i by simp
  define mb' where "mb' = mb\<lparr>out_offset := (if mb_size mb \<le> out_offset mb + 1 then 0 else out_offset mb + 1), mb_entry := mb_entry mb - 1\<rparr>"
  have w: "mails mb = mb_pool mb ! ?o # window ?N (mb_pool mb) (Suc ?o mod ?N) (unat (mb_entry mb - 1))"
    unfolding mails_def n by (rule window_get [OF oN])
  have "mb_fetch mb = Some (hd (mails mb), mb')" using i w by (simp add: mb_fetch_def mb'_def Let_def)
  moreover have o': "unat (out_offset mb') = Suc ?o mod ?N" unfolding mb'_def using wrap_inc [OF oN] by simp
  then have "unat (in_offset mb) = (unat (out_offset mb') + unat (mb_entry mb - 1)) mod ?N" using i n by (simp add: mod_add_left_eq)
  then have "mb_inv mb'" using i n o' by (simp add: mb_inv_def mb'_def)
  moreover have "mails mb' = tl (mails mb)" unfolding w unfolding mails_def o' by (simp add: mb'_def)
  ultimately show ?thesis by (simp add: mb'_def)
qed

lemma mailbox_fields_inv:
  assumes "0 < unat (ucast s :: u16)" and "unat (ucast s :: u16) \<le> length p"
  shows "mb_inv (mailbox_fields p s) \<and> mails (mailbox_fields p s) = []"
  using assms by (simp add: mb_inv_def mailbox_fields_def mails_def)

section \<open>Sending and receiving in the kernel\<close>

lemma running_ctx: "running k t \<Longrightarrow> rt_interrupt_nest k = 0 \<Longrightarrow> in_thread_context k = Some t \<and> rt_thread_self k = Some t"
  using runningD(2) [of k t]
  by (simp add: in_thread_context_def rt_thread_self_def not_in_interrupt_def rt_interrupt_get_nest_def)

lemma in_thread_context_upd [simp]: "in_thread_context (upd_thread u f k) = in_thread_context k"
  by (simp add: in_thread_context_def rt_thread_self_def not_in_interrupt_def rt_interrupt_get_nest_def)

lemma ipc_flag_upd [simp]: "ipc_flag i (upd_thread u f k) = ipc_flag i k"
  by (simp add: ipc_flag_def)

lemma mb_send_room:
  assumes "kinv 0 k" and "rt_current_thread k = Some c" and "mb_inv mb" and "mb_entry mb \<noteq> mb_size mb"
  shows "\<exists>mb' k'. mb_send_loop i v self time d mb k = Some (Ret RT_EOK, mb', k') \<and> kinv 0 k' \<and> rt_current_thread k' \<noteq> None \<and>
     mb_inv mb' \<and> mb_size mb' = mb_size mb \<and> mails mb' = mails mb @ [v] \<and> q_list k' (Wait i) = tl (q_list k (Wait i)) \<and>
     q_list k' (SenderWait i) = q_list k (SenderWait i) \<and>
     threads k' = (case q_list k (Wait i) of [] \<Rightarrow> threads k | t # ts \<Rightarrow> (threads k)(t := (threads k t)\<lparr>stat := RT_THREAD_READY\<rparr>))"
proof -
  from mb_store_spec [OF assms(3,4)] obtain mb' where "mb_store v mb = Some mb'" "mb_inv mb'" "mails mb' = mails mb @ [v]"
    "mb_size mb' = mb_size mb" by blast
  moreover from ipc_wake_spec [OF assms(1,2) waiting_simps(1)] obtain k' where "ipc_wake (Wait i) k = Some k'" "kinv 0 k'"
    "rt_current_thread k' \<noteq> None" "q_list k' (Wait i) = tl (q_list k (Wait i))"
    "\<forall>q'. waiting q' \<and> q' \<noteq> Wait i \<longrightarrow> q_list k' q' = q_list k q'"
    "threads k' = (case q_list k (Wait i) of [] \<Rightarrow> threads k | t # ts \<Rightarrow> (threads k)(t := (threads k t)\<lparr>stat := RT_THREAD_READY\<rparr>))" by blast
  ultimately show ?thesis using assms(4) by (simp add: mb_send_loop_def)
qed

lemma mb_recv_some:
  assumes "kinv 0 k" and "rt_current_thread k = Some c" and "mb_inv mb" and "mb_entry mb \<noteq> 0"
  shows "\<exists>mb' k'. mb_recv_loop i self time d mb k = Some (Ret (RT_EOK, Some (hd (mails mb))), mb', k') \<and> kinv 0 k' \<and>
     rt_current_thread k' \<noteq> None \<and> mb_inv mb' \<and> mb_size mb' = mb_size mb \<and> mails mb' = tl (mails mb) \<and>
     q_list k' (SenderWait i) = tl (q_list k (SenderWait i)) \<and> q_list k' (Wait i) = q_list k (Wait i) \<and>
     threads k' = (case q_list k (SenderWait i) of [] \<Rightarrow> threads k | t # ts \<Rightarrow> (threads k)(t := (threads k t)\<lparr>stat := RT_THREAD_READY\<rparr>))"
proof -
  from mb_fetch_spec [OF assms(3,4)] obtain mb' where "mb_fetch mb = Some (hd (mails mb), mb')" "mb_inv mb'" "mails mb' = tl (mails mb)"
    "mb_size mb' = mb_size mb" by blast
  moreover from ipc_wake_spec [OF assms(1,2) waiting_simps(2)] obtain k' where "ipc_wake (SenderWait i) k = Some k'" "kinv 0 k'"
    "rt_current_thread k' \<noteq> None" "q_list k' (SenderWait i) = tl (q_list k (SenderWait i))"
    "\<forall>q'. waiting q' \<and> q' \<noteq> SenderWait i \<longrightarrow> q_list k' q' = q_list k q'"
    "threads k' = (case q_list k (SenderWait i) of [] \<Rightarrow> threads k | t # ts \<Rightarrow> (threads k)(t := (threads k t)\<lparr>stat := RT_THREAD_READY\<rparr>))" by blast
  ultimately show ?thesis using assms(4) by (simp add: mb_recv_loop_def)
qed

text \<open>Waiting, for a sender on the one list and for a receiver on the other.\<close>

lemma mb_block:
  assumes run: "running k t" and fl: "ipc_flag_ok i k" and tm: "time_ok time" and n: "rt_interrupt_nest k = 0" and t0: "time \<noteq> 0"
    and q: "waiting q"
  shows "\<exists>k'. ipc_wait q (ipc_flag i k) time t (upd_thread t (\<lambda>th. th\<lparr>error := RT_EOK\<rparr>) k) = Some k' \<and> kinv 0 k' \<and>
     threads k' = (threads k)(t := (threads k t)\<lparr>error := RT_EOK, stat := RT_THREAD_SUSPEND\<rparr>) \<and>
     q_list k' q = wait_insert (ipc_flag i k) (\<lambda>s. current_priority (threads k s)) t (q_list k q) \<and>
     (\<forall>q'. waiting q' \<and> q' \<noteq> q \<longrightarrow> q_list k' q' = q_list k q') \<and> rt_current_thread k' \<noteq> None"
  using block_spec [OF run q _ tm, of "ipc_flag i k"] fl unfolding ipc_flag_ok_def by blast

lemma mb_send_block:
  assumes run: "running k t" and fl: "ipc_flag_ok i k" and tm: "time_ok time" and n: "rt_interrupt_nest k = 0" and t0: "time \<noteq> 0"
    and e: "mb_entry mb = mb_size mb"
  shows "\<exists>k'. mb_send_loop i v (Some t) time d mb k = Some (Blocked (t, time, if 0 < sint time then rt_tick k else d), mb, k') \<and> kinv 0 k' \<and>
     threads k' = (threads k)(t := (threads k t)\<lparr>error := RT_EOK, stat := RT_THREAD_SUSPEND\<rparr>) \<and>
     q_list k' (SenderWait i) = wait_insert (ipc_flag i k) (\<lambda>s. current_priority (threads k s)) t (q_list k (SenderWait i)) \<and>
     q_list k' (Wait i) = q_list k (Wait i) \<and> rt_current_thread k' \<noteq> None"
proof -
  from mb_block [OF run fl tm n t0 waiting_simps(2)] obtain k' where
    "ipc_wait (SenderWait i) (ipc_flag i k) time t (upd_thread t (\<lambda>th. th\<lparr>error := RT_EOK\<rparr>) k) = Some k'" "kinv 0 k'"
     "threads k' = (threads k)(t := (threads k t)\<lparr>error := RT_EOK, stat := RT_THREAD_SUSPEND\<rparr>)"
     "q_list k' (SenderWait i) = wait_insert (ipc_flag i k) (\<lambda>s. current_priority (threads k s)) t (q_list k (SenderWait i))"
     "\<forall>q'. waiting q' \<and> q' \<noteq> SenderWait i \<longrightarrow> q_list k' q' = q_list k q'" "rt_current_thread k' \<noteq> None" by blast
  with e t0 running_ctx [OF run n] show ?thesis by (simp add: mb_send_loop_def Let_def rt_tick_get_def)
qed

lemma mb_recv_block:
  assumes run: "running k t" and fl: "ipc_flag_ok i k" and tm: "time_ok time" and n: "rt_interrupt_nest k = 0" and t0: "time \<noteq> 0"
    and e: "mb_entry mb = 0"
  shows "\<exists>k'. mb_recv_loop i (Some t) time d mb k = Some (Blocked (t, time, if 0 < sint time then rt_tick k else d), mb, k') \<and> kinv 0 k' \<and>
     threads k' = (threads k)(t := (threads k t)\<lparr>error := RT_EOK, stat := RT_THREAD_SUSPEND\<rparr>) \<and>
     q_list k' (Wait i) = wait_insert (ipc_flag i k) (\<lambda>s. current_priority (threads k s)) t (q_list k (Wait i)) \<and>
     q_list k' (SenderWait i) = q_list k (SenderWait i) \<and> rt_current_thread k' \<noteq> None"
proof -
  from mb_block [OF run fl tm n t0 waiting_simps(1)] obtain k' where
    "ipc_wait (Wait i) (ipc_flag i k) time t (upd_thread t (\<lambda>th. th\<lparr>error := RT_EOK\<rparr>) k) = Some k'" "kinv 0 k'"
     "threads k' = (threads k)(t := (threads k t)\<lparr>error := RT_EOK, stat := RT_THREAD_SUSPEND\<rparr>)"
     "q_list k' (Wait i) = wait_insert (ipc_flag i k) (\<lambda>s. current_priority (threads k s)) t (q_list k (Wait i))"
     "\<forall>q'. waiting q' \<and> q' \<noteq> Wait i \<longrightarrow> q_list k' q' = q_list k q'" "rt_current_thread k' \<noteq> None" by blast
  with e t0 running_ctx [OF run n] show ?thesis by (simp add: mb_recv_loop_def Let_def rt_tick_get_def)
qed

section \<open>What a mailbox guarantees\<close>

text \<open>The calls that do not wait, as a store: a mailbox and the kernel around it.\<close>

definition mb_put :: "nat \<Rightarrow> u32 \<Rightarrow> rt_mailbox \<times> kernel \<Rightarrow> (rt_mailbox \<times> kernel) option" where
  "mb_put i v = (\<lambda>(mb, k). case rt_mb_send i v mb k of
     Some (Ret e, s) \<Rightarrow> if e = RT_EOK then Some s else None | _ \<Rightarrow> None)"

definition mb_get :: "nat \<Rightarrow> rt_mailbox \<times> kernel \<Rightarrow> (u32 \<times> rt_mailbox \<times> kernel) option" where
  "mb_get i = (\<lambda>(mb, k). case rt_mb_recv i RT_WAITING_NO mb k of
     Some (Ret (e, Some v), s) \<Rightarrow> if e = RT_EOK then Some (v, s) else None | _ \<Rightarrow> None)"

definition mb_ok :: "rt_mailbox \<times> kernel \<Rightarrow> bool" where
  "mb_ok = (\<lambda>(mb, k). mb_inv mb \<and> kinv 0 k \<and> rt_current_thread k \<noteq> None)"

lemma entry_full: "mb_inv mb \<Longrightarrow> length (mails mb) = unat (mb_size mb) \<longleftrightarrow> mb_entry mb = mb_size mb"
  by (simp add: word_unat_eq_iff)

lemma entry_empty: "mails mb = [] \<longleftrightarrow> mb_entry mb = 0"
  using length_mails [of mb] by (metis length_0_conv unat_eq_zero)

lemma mb_put_law:
  assumes "mb_ok s" and "length (mails (fst s)) < unat (mb_size (fst s))"
  shows "\<exists>s'. mb_put i v s = Some s' \<and> mb_ok s' \<and> mails (fst s') = mails (fst s) @ [v] \<and> unat (mb_size (fst s')) = unat (mb_size (fst s))"
proof (cases s)
  case (Pair mb k)
  then have inv: "kinv 0 k" "mb_inv mb" "mb_entry mb \<noteq> mb_size mb" using assms by (auto simp: mb_ok_def)
  obtain c where "rt_current_thread k = Some c" using assms(1) Pair by (auto simp: mb_ok_def)
  from mb_send_room [OF inv(1) this inv(2,3), of i v "rt_thread_self k" 0 0] inv(3) Pair show ?thesis
    by (auto simp: mb_put_def rt_mb_send_def rt_mb_send_wait_def mb_ok_def)
qed

lemma mb_get_law:
  assumes "mb_ok s" and "mails (fst s) = v # vs"
  shows "\<exists>s'. mb_get i s = Some (v, s') \<and> mb_ok s' \<and> mails (fst s') = vs \<and> unat (mb_size (fst s')) = unat (mb_size (fst s))"
proof (cases s)
  case (Pair mb k)
  then have inv: "kinv 0 k" "mb_inv mb" "mb_entry mb \<noteq> 0" using assms entry_empty [of mb] by (auto simp: mb_ok_def)
  obtain c where "rt_current_thread k = Some c" using assms(1) Pair by (auto simp: mb_ok_def)
  from mb_recv_some [OF inv(1) this inv(2,3), of i "rt_thread_self k" 0 0] inv(3) assms(2) Pair show ?thesis
    by (auto simp: mb_get_def rt_mb_recv_def mb_ok_def)
qed

interpretation mailbox: bounded_fifo mb_ok "\<lambda>s. mails (fst s)" "\<lambda>s. unat (mb_size (fst s))" "mb_put i" "mb_get i" for i
proof unfold_locales
  fix s :: "rt_mailbox \<times> kernel" and v vs
  assume ok: "mb_ok s"
  then show "length (mails (fst s)) \<le> unat (mb_size (fst s))" by (cases s) (simp add: mb_ok_def mb_inv_def)
  show "length (mails (fst s)) < unat (mb_size (fst s)) \<Longrightarrow> \<exists>s'. mb_put i v s = Some s' \<and> mb_ok s' \<and>
      mails (fst s') = mails (fst s) @ [v] \<and> unat (mb_size (fst s')) = unat (mb_size (fst s))"
    by (rule mb_put_law [OF ok])
  show "length (mails (fst s)) = unat (mb_size (fst s)) \<Longrightarrow> mb_put i v s = None"
    using ok entry_full [of "fst s"] by (cases s) (simp add: mb_put_def rt_mb_send_def rt_mb_send_wait_def mb_ok_def)
  show "mails (fst s) = v # vs \<Longrightarrow> \<exists>s'. mb_get i s = Some (v, s') \<and> mb_ok s' \<and>
      mails (fst s') = vs \<and> unat (mb_size (fst s')) = unat (mb_size (fst s))"
    by (rule mb_get_law [OF ok])
  show "mails (fst s) = [] \<Longrightarrow> mb_get i s = None"
    using entry_empty [of "fst s"] by (cases s) (simp add: mb_get_def rt_mb_recv_def)
qed


text \<open>
  \<^verbatim>\<open>rt_mb_send_wait\<close> in every branch: with room it appends the mail and wakes the first waiting
  receiver; a full mailbox gives \<^verbatim>\<open>-RT_EFULL\<close> without waiting time and changes nothing, and otherwise
  the caller waits at its place in the senders' list.
\<close>

theorem rt_mb_send_wait_correct:
  assumes run: "running k t" and mi: "mb_inv mb" and fl: "ipc_flag_ok i k" and tm: "time_ok time" and n: "rt_interrupt_nest k = 0"
  shows "\<exists>out mb' k'. rt_mb_send_wait i v time mb k = Some (out, mb', k') \<and> kinv 0 k' \<and> mb_inv mb' \<and>
     (if length (mails mb) < unat (mb_size mb)
      then out = Ret RT_EOK \<and> mails mb' = mails mb @ [v] \<and> q_list k' (Wait i) = tl (q_list k (Wait i)) \<and>
        (\<forall>w ws. q_list k (Wait i) = w # ws \<longrightarrow> stat (threads k' w) = RT_THREAD_READY)
      else mb' = mb \<and>
        (if time = 0 then out = Ret (- RT_EFULL) \<and> k' = k
         else out = Blocked (t, time, if 0 < sint time then rt_tick k else 0) \<and> stat (threads k' t) = RT_THREAD_SUSPEND \<and>
              q_list k' (SenderWait i) = wait_insert (ipc_flag i k) (\<lambda>s. current_priority (threads k s)) t (q_list k (SenderWait i))))"
proof (cases "mb_entry mb = mb_size mb")
  case False
  then have "length (mails mb) < unat (mb_size mb)"
    using mi entry_full [OF mi] unfolding mb_inv_def length_mails by linarith
  with mb_send_room [OF runningD(1,2) [OF run] mi False, of i v "rt_thread_self k" time 0] False show ?thesis
    by (auto simp: rt_mb_send_wait_def)
next
  case True
  then have full: "\<not> length (mails mb) < unat (mb_size mb)" by simp
  show ?thesis
  proof (cases "time = 0")
    case T: True
    with True full mi runningD(1) [OF run] show ?thesis by (simp add: rt_mb_send_wait_def)
  next
    case False
    from mb_send_block [OF run fl tm n False True, of v 0] obtain k' where
      "mb_send_loop i v (Some t) time 0 mb k = Some (Blocked (t, time, if 0 < sint time then rt_tick k else 0), mb, k')" "kinv 0 k'"
     "threads k' = (threads k)(t := (threads k t)\<lparr>error := RT_EOK, stat := RT_THREAD_SUSPEND\<rparr>)"
     "q_list k' (SenderWait i) = wait_insert (ipc_flag i k) (\<lambda>s. current_priority (threads k s)) t (q_list k (SenderWait i))" by blast
    with True False full mi running_ctx [OF run n] show ?thesis by (simp add: rt_mb_send_wait_def)
  qed
qed

definition small_mailbox :: rt_mailbox where
  "small_mailbox = mailbox_fields [0, 0, 0] 2"

lemma small_mailbox_inv: "mb_inv small_mailbox" "mails small_mailbox = []" "mb_size small_mailbox = 2"
  using mailbox_fields_inv [of 2 "[0, 0, 0]"] by (simp_all add: small_mailbox_def mailbox_fields_def)

theorem rt_mb_send_wait_correct_witness:
  "\<exists>mb' k'. rt_mb_send_wait 7 42 5 small_mailbox boot_kernel = Some (Ret RT_EOK, mb', k') \<and> mails mb' = [42]"
proof -
  have "time_ok 5" by (simp add: time_ok_def)
  from rt_mb_send_wait_correct [OF boot_running small_mailbox_inv(1) boot_flag_ok this boot_kernel(11), of 42] show ?thesis
    by (auto simp: small_mailbox_inv simp del: length_mails)
qed

text \<open>
  C14: A mailbox is a first-in first-out store: after any sequence of \<^verbatim>\<open>rt_mb_send\<close> and \<^verbatim>\<open>rt_mb_recv\<close> calls,
  made by whichever threads and waking whichever waiters, the mails sent successfully after
  those that were there are those received, in the same order, followed by those still there.
\<close>

theorem rt_mb_fifo:
  assumes "kinv 0 k" and "rt_current_thread k = Some c" and "mb_inv mb"
    and "fifo_run (mb_put i) (mb_get i) ops (mb, k) = (sent, got, mb', k')"
  shows "mails mb @ sent = got @ mails mb' \<and> length (mails mb') \<le> unat (mb_size mb) \<and> mb_inv mb' \<and> kinv 0 k'"
proof -
  have "mb_ok (mb, k)" using assms(1-3) by (simp add: mb_ok_def)
  from mailbox.run_fifo [OF this assms(4)] mailbox.bounded [of "(mb', k')"] show ?thesis by (auto simp: mb_ok_def)
qed

theorem rt_mb_fifo_witness:
  "\<exists>sent got s. fifo_run (mb_put 7) (mb_get 7) [Get, Put 1, Put 2, Get, Put 3, Put 4] (small_mailbox, boot_kernel) = (sent, got, s) \<and>
     sent = got @ mails (fst s)"
proof -
  obtain sent got mb' k' where r: "fifo_run (mb_put 7) (mb_get 7) [Get, Put 1, Put 2, Get, Put 3, Put 4] (small_mailbox, boot_kernel) =
     (sent, got, mb', k')" by (metis prod_cases4)
  with rt_mb_fifo [OF boot_kernel(2,3) small_mailbox_inv(1) r] small_mailbox_inv show ?thesis by auto
qed

text \<open>
  The hand-shake: a thread that waits on an empty mailbox is woken by the next mail, and its
  \<^verbatim>\<open>rt_mb_recv\<close>, when it goes on, returns \<^verbatim>\<open>RT_EOK\<close> with that mail and leaves the mailbox empty.
\<close>

theorem rt_mb_handshake:
  assumes run: "running k t" and mi: "mb_inv mb" and e: "mails mb = []" and w: "q_list k (Wait i) = []"
    and fl: "ipc_flag_ok i k" and tm: "time_ok time" and t0: "time \<noteq> 0" and n: "rt_interrupt_nest k = 0"
  shows "\<exists>wl k1 mb2 k2 mb3 k3. rt_mb_recv i time mb k = Some (Blocked wl, mb, k1) \<and> stat (threads k1 t) = RT_THREAD_SUSPEND \<and>
     rt_mb_send i v mb k1 = Some (Ret RT_EOK, mb2, k2) \<and> stat (threads k2 t) = RT_THREAD_READY \<and>
     rt_mb_recv_wake i wl mb2 k2 = Some (Ret (RT_EOK, Some v), mb3, k3) \<and> mails mb3 = [] \<and> kinv 0 k3"
proof -
  let ?wl = "(t, time, if 0 < sint time then rt_tick k else 0)"
  have e0: "mb_entry mb = 0" using e by (simp add: entry_empty)
  then have room: "mb_entry mb \<noteq> mb_size mb" using mi by (auto simp: mb_inv_def)
  from mb_recv_block [OF run fl tm n t0 e0, of 0] obtain k1 where
    k1: "mb_recv_loop i (Some t) time 0 mb k = Some (Blocked ?wl, mb, k1)" "kinv 0 k1"
      "threads k1 = (threads k)(t := (threads k t)\<lparr>error := RT_EOK, stat := RT_THREAD_SUSPEND\<rparr>)" "q_list k1 (Wait i) = [t]"
      "rt_current_thread k1 \<noteq> None" using w by (auto simp: wait_insert_def)
  from k1(5) obtain c where "rt_current_thread k1 = Some c" by blast
  from mb_send_room [OF k1(2) this mi room, of i v "rt_thread_self k1" 0 0] obtain mb2 k2 where
    k2: "mb_send_loop i v (rt_thread_self k1) 0 0 mb k1 = Some (Ret RT_EOK, mb2, k2)" "kinv 0 k2" "rt_current_thread k2 \<noteq> None" "mb_inv mb2"
      "mails mb2 = [v]" "threads k2 = (threads k1)(t := (threads k1 t)\<lparr>stat := RT_THREAD_READY\<rparr>)" using e k1(4) by auto
  from k2(3) obtain c2 where c2: "rt_current_thread k2 = Some c2" by blast
  have e2: "mb_entry mb2 \<noteq> 0" using k2(5) entry_empty [of mb2] by auto
  let ?time = "retry_time time (if 0 < sint time then rt_tick k else 0) k2" and ?d = "retry_delta time (if 0 < sint time then rt_tick k else 0) k2"
  from mb_recv_some [OF k2(2) c2 k2(4) e2, of i "Some t" ?time ?d] obtain mb3 k3 where
    k3: "mb_recv_loop i (Some t) ?time ?d mb2 k2 = Some (Ret (RT_EOK, Some v), mb3, k3)" "kinv 0 k3" "mails mb3 = []" using k2(5) by auto
  have "error (threads k2 t) = RT_EOK" using k2(6) k1(3) by simp
  then have "rt_mb_recv_wake i ?wl mb2 k2 = Some (Ret (RT_EOK, Some v), mb3, k3)" using k3(1) by (simp add: rt_mb_recv_wake_def)
  moreover have "rt_mb_recv i time mb k = Some (Blocked ?wl, mb, k1)" using k1(1) running_ctx [OF run n] t0 by (simp add: rt_mb_recv_def)
  moreover have "rt_mb_send i v mb k1 = Some (Ret RT_EOK, mb2, k2)" using k2(1) room by (simp add: rt_mb_send_def rt_mb_send_wait_def)
  moreover have "stat (threads k1 t) = RT_THREAD_SUSPEND" "stat (threads k2 t) = RT_THREAD_READY" using k1(3) k2(6) by simp_all
  ultimately show ?thesis using k3 by blast
qed

theorem rt_mb_handshake_witness:
  "\<exists>wl k1 mb2 k2 mb3 k3. rt_mb_recv 7 RT_WAITING_FOREVER small_mailbox boot_kernel = Some (Blocked wl, small_mailbox, k1) \<and>
     rt_mb_send 7 42 small_mailbox k1 = Some (Ret RT_EOK, mb2, k2) \<and>
     rt_mb_recv_wake 7 wl mb2 k2 = Some (Ret (RT_EOK, Some 42), mb3, k3)"
proof -
  have "time_ok RT_WAITING_FOREVER" "RT_WAITING_FOREVER \<noteq> (0 :: rt_int32_t)" by (simp_all add: time_ok_def)
  from rt_mb_handshake [OF boot_running small_mailbox_inv(1,2) boot_no_waiters boot_flag_ok this boot_kernel(11), of 42]
  show ?thesis by blast
qed

text \<open>
  A receiver woken too late, when another thread has taken the mail, waits again for the rest
  of its time: the deadline does not move.  When its time is over it gives up with
  \<^verbatim>\<open>-RT_ETIMEOUT\<close>.
\<close>

theorem rt_mb_recv_deadline:
  assumes run: "running k t" and e: "mails mb = []" and err: "error (threads k t) = RT_EOK" and fl: "ipc_flag_ok i k"
    and n: "rt_interrupt_nest k = 0" and tm: "time_ok time" "0 < sint time" and el: "unat (rt_tick k - start) < 2 ^ 31"
  shows "if int (unat (rt_tick k - start)) < sint time
     then \<exists>time' k'. rt_mb_recv_wake i (t, time, start) mb k = Some (Blocked (t, time', rt_tick k), mb, k') \<and> kinv 0 k' \<and>
       0 < sint time' \<and> rt_tick k + time' = start + time
     else \<exists>k'. rt_mb_recv_wake i (t, time, start) mb k = Some (Ret (- RT_ETIMEOUT, None), mb, k')"
proof -
  let ?d = "rt_tick k - start" and ?time = "retry_time time start k"
  have el': "unat ?d < 2147483648" using el by simp
  have s: "sint ?time = max 0 (sint time - int (unat ?d))" by (rule retry_time_elapsed [OF tm(2) el'])
  have e0: "mb_entry mb = 0" using e by (simp add: entry_empty)
  have w: "rt_mb_recv_wake i (t, time, start) mb k = mb_recv_loop i (Some t) ?time ?d mb k"
    using err tm(2) by (simp add: rt_mb_recv_wake_def retry_delta_def rt_tick_get_def)
  show ?thesis
  proof (cases "int (unat ?d) < sint time")
    case True
    then have p: "0 < sint ?time" using s by simp
    then have t': "?time = time - ?d" using tm(2) by (auto simp: retry_time_def Let_def rt_tick_get_def split: if_splits)
    have "?time \<noteq> 0x7fffffff"
    proof
      assume a: "?time = 0x7fffffff"
      have "sint (0x7fffffff :: u32) = 2147483647" by simp
      then have "2147483647 \<le> sint time" using s True unfolding a by linarith
      moreover have "sint time < 2147483648" using sint_lt [of time] by simp
      ultimately have "sint time = sint (0x7fffffff :: u32)" by simp
      then have "time = 0x7fffffff" by (rule word_eq_iff_signed [THEN iffD2])
      with tm(1) show False by (simp add: time_ok_def)
    qed
    then have "time_ok ?time" "?time \<noteq> 0" using p by (auto simp: time_ok_def)
    from mb_recv_block [OF run fl this(1) n this(2) e0, of ?d] p w True t' show ?thesis by auto
  next
    case False
    then have "sint ?time = 0" using s by simp
    then have "?time = 0" by (simp add: signed_eq_0_iff)
    with False w e0 show ?thesis by (simp add: mb_recv_loop_def)
  qed
qed

theorem rt_mb_recv_deadline_witness:
  "\<exists>time' k'. rt_mb_recv_wake 7 (2, 10, rt_tick boot_kernel - 4) small_mailbox boot_kernel =
     Some (Blocked (2, time', rt_tick boot_kernel), small_mailbox, k') \<and> time' = 6"
proof -
  have "map_option (\<lambda>k. error (threads k 2)) boot = Some RT_EOK" by code_simp
  then have "error (threads boot_kernel 2) = RT_EOK" unfolding boot_kernel(1) by simp
  moreover have "time_ok 10" "0 < sint (10 :: rt_int32_t)" by (simp_all add: time_ok_def)
  moreover have "rt_tick boot_kernel - (rt_tick boot_kernel - 4) = 4" by simp
  then have "unat (rt_tick boot_kernel - (rt_tick boot_kernel - 4)) = 4" by (simp only: unat_numeral) simp
  ultimately obtain time' k' where r: "rt_mb_recv_wake 7 (2, 10, rt_tick boot_kernel - 4) small_mailbox boot_kernel =
     Some (Blocked (2, time', rt_tick boot_kernel), small_mailbox, k')" "rt_tick boot_kernel + time' = rt_tick boot_kernel - 4 + 10"
    using rt_mb_recv_deadline [OF boot_running small_mailbox_inv(2) _ boot_flag_ok boot_kernel(11), of 10 "rt_tick boot_kernel - 4"]
    by auto
  from r(2) have "time' = 6" by (simp add: algebra_simps)
  with r(1) show ?thesis by blast
qed

end
