(* ===== verification/MsgQueue.thy ===== *)
theory MsgQueue
  imports Mailbox "HOL-Library.Multiset"
begin

text \<open>
  Message queues, \<^verbatim>\<open>src/ipc.c\<close>: slots of a pool linked into a queue and a free list.  A message is
  moved between the two in steps of their own critical sections, with the copying done in
  between with interrupts on; the steps are definitions of their own, the calls are made of
  them, and a step relation interleaves the steps of several callers.
\<close>

unbundle bit_operations_syntax

section \<open>The operations\<close>

text \<open>
  A slot is named by its index in the pool; \<open>msg_next\<close> is the \<^verbatim>\<open>next\<close> field of its header and \<open>msg_data\<close>
  the bytes after the header.
\<close>

record rt_messagequeue =
  msg_size :: u16
  max_msgs :: u16
  mq_entry :: u16
  msg_queue_head :: "nat option"
  msg_queue_tail :: "nat option"
  msg_queue_free :: "nat option"
  msg_next :: "nat \<Rightarrow> nat option"
  msg_data :: "nat \<Rightarrow> u8 list"

definition RT_ALIGN :: "u32 \<Rightarrow> u32 \<Rightarrow> u32" where
  "RT_ALIGN sz align = (sz + align - 1) AND NOT (align - 1)"

text \<open>The loop that links all slots into the free list.\<close>

definition mq_link_free :: "rt_messagequeue \<Rightarrow> rt_messagequeue" where
  "mq_link_free mq =
     foldl (\<lambda>mq temp. mq\<lparr>msg_next := (msg_next mq)(temp := msg_queue_free mq), msg_queue_free := Some temp\<rparr>)
       (mq\<lparr>msg_queue_head := None, msg_queue_tail := None, msg_queue_free := None\<rparr>) [0..<unat (max_msgs mq)]"

text \<open>\<open>pool\<close> is the memory of the slots as it is found; a header is a pointer of 4 bytes.\<close>

definition mq_fields :: "(nat \<Rightarrow> nat option) \<Rightarrow> (nat \<Rightarrow> u8 list) \<Rightarrow> u16 \<Rightarrow> u16 \<Rightarrow> rt_messagequeue" where
  "mq_fields nx dt sz n = mq_link_free \<lparr>msg_size = sz, max_msgs = n, mq_entry = 0, msg_queue_head = None, msg_queue_tail = None,
     msg_queue_free = None, msg_next = nx, msg_data = dt\<rparr>"

definition rt_mq_init ::
  "nat \<Rightarrow> cstr \<Rightarrow> (nat \<Rightarrow> nat option) \<times> (nat \<Rightarrow> u8 list) \<Rightarrow> u32 \<Rightarrow> u32 \<Rightarrow> u8 \<Rightarrow> kernel \<Rightarrow>
     (rt_err_t \<times> rt_messagequeue \<times> kernel) option" where
  "rt_mq_init i name msgpool sz pool_size flag k =
     do { os \<leftarrow> rt_object_init (OIpc i) RT_Object_Class_MessageQueue name (objs k);
          let k = set_ipc_flag i flag (k\<lparr>objs := os\<rparr>);
          k \<leftarrow> rt_ipc_object_init i k;
          let msz = (ucast (RT_ALIGN sz 4) :: u16);
          let n = (ucast (pool_size div (ucast msz + 4)) :: u16);
          Some (RT_EOK, mq_fields (fst msgpool) (snd msgpool) msz n, k) }"

definition rt_mq_detach :: "nat \<Rightarrow> kernel \<Rightarrow> (rt_err_t \<times> kernel) option" where
  "rt_mq_detach i k =
     do { k \<leftarrow> rt_ipc_list_resume_all (Wait i) k;
          Some (RT_EOK, k\<lparr>objs := rt_object_detach (OIpc i) (objs k)\<rparr>) }"

text \<open>The memory of the pool is given back; it is not looked at any more.\<close>

definition rt_mq_delete :: "nat \<Rightarrow> kernel \<Rightarrow> (rt_err_t \<times> kernel) option" where
  "rt_mq_delete i k =
     do { not_in_interrupt k;
          k \<leftarrow> rt_ipc_list_resume_all (Wait i) k;
          os \<leftarrow> rt_object_delete (OIpc i) (objs k);
          Some (RT_EOK, k\<lparr>objs := os\<rparr>) }"

text \<open>\<open>mem\<close> and \<open>pool\<close> are the outcomes of the two allocations.\<close>

definition rt_mq_create ::
  "nat option \<Rightarrow> (u32 \<Rightarrow> ((nat \<Rightarrow> nat option) \<times> (nat \<Rightarrow> u8 list)) option) \<Rightarrow> cstr \<Rightarrow> u32 \<Rightarrow> u32 \<Rightarrow> u8 \<Rightarrow> kernel \<Rightarrow>
     ((nat \<times> rt_messagequeue) option \<times> kernel) option" where
  "rt_mq_create mem pool name sz n flag k =
     do { not_in_interrupt k;
          (mq, os) \<leftarrow> rt_object_allocate (map_option OIpc mem) RT_Object_Class_MessageQueue name (objs k);
          let k = k\<lparr>objs := os\<rparr>;
          (case mem of
             None \<Rightarrow> Some (None, k)
           | Some i \<Rightarrow>
               do { let k = set_ipc_flag i flag k;
                    k \<leftarrow> rt_ipc_object_init i k;
                    let msz = (ucast (RT_ALIGN sz 4) :: u16);
                    let n = (ucast n :: u16);
                    (case pool ((ucast msz + 4) * ucast n) of
                       None \<Rightarrow> do { (_, k) \<leftarrow> rt_mq_delete i k; Some (None, k) }
                     | Some p \<Rightarrow> Some (Some (i, mq_fields (fst p) (snd p) msz n), k)) }) }"

text \<open>The steps of a sender: take a free slot; clear its \<^verbatim>\<open>next\<close> and fill it; link it at the end.\<close>

definition mq_grab :: "rt_messagequeue \<Rightarrow> (nat \<times> rt_messagequeue) option" where
  "mq_grab mq = (case msg_queue_free mq of
     None \<Rightarrow> None
   | Some msg \<Rightarrow> Some (msg, mq\<lparr>msg_queue_free := msg_next mq msg\<rparr>))"

definition mq_copy_in :: "nat \<Rightarrow> u8 list \<Rightarrow> nat \<Rightarrow> rt_messagequeue \<Rightarrow> rt_messagequeue" where
  "mq_copy_in msg buffer sz mq =
     mq\<lparr>msg_data := (msg_data mq)(msg := take sz buffer @ drop sz (msg_data mq msg))\<rparr>"

definition mq_clear_next :: "nat \<Rightarrow> rt_messagequeue \<Rightarrow> rt_messagequeue" where
  "mq_clear_next msg mq = mq\<lparr>msg_next := (msg_next mq)(msg := None)\<rparr>"

definition mq_link_tail :: "nat \<Rightarrow> rt_messagequeue \<Rightarrow> rt_messagequeue" where
  "mq_link_tail msg mq =
     (let mq = (case msg_queue_tail mq of
                  Some tail \<Rightarrow> mq\<lparr>msg_next := (msg_next mq)(tail := Some msg)\<rparr>
                | None \<Rightarrow> mq);
          mq = mq\<lparr>msg_queue_tail := Some msg\<rparr>;
          mq = (if msg_queue_head mq = None then mq\<lparr>msg_queue_head := Some msg\<rparr> else mq)
      in mq\<lparr>mq_entry := mq_entry mq + 1\<rparr>)"

text \<open>An urgent message is linked at the beginning.\<close>

definition mq_link_head :: "nat \<Rightarrow> rt_messagequeue \<Rightarrow> rt_messagequeue" where
  "mq_link_head msg mq =
     (let mq = mq\<lparr>msg_next := (msg_next mq)(msg := msg_queue_head mq), msg_queue_head := Some msg\<rparr>;
          mq = (if msg_queue_tail mq = None then mq\<lparr>msg_queue_tail := Some msg\<rparr> else mq)
      in mq\<lparr>mq_entry := mq_entry mq + 1\<rparr>)"

text \<open>The steps of a receiver: unlink the first message; give its slot back.\<close>

definition mq_take :: "rt_messagequeue \<Rightarrow> (nat \<times> rt_messagequeue) option" where
  "mq_take mq =
     do { msg \<leftarrow> msg_queue_head mq;
          let mq = mq\<lparr>msg_queue_head := msg_next mq msg\<rparr>;
          let mq = (if msg_queue_tail mq = Some msg then mq\<lparr>msg_queue_tail := None\<rparr> else mq);
          Some (msg, mq\<lparr>mq_entry := mq_entry mq - 1\<rparr>) }"

definition mq_give :: "nat \<Rightarrow> rt_messagequeue \<Rightarrow> rt_messagequeue" where
  "mq_give msg mq = mq\<lparr>msg_next := (msg_next mq)(msg := msg_queue_free mq), msg_queue_free := Some msg\<rparr>"

definition rt_mq_send ::
  "nat \<Rightarrow> u8 list \<Rightarrow> u32 \<Rightarrow> rt_messagequeue \<Rightarrow> kernel \<Rightarrow> (rt_err_t \<times> rt_messagequeue \<times> kernel) option" where
  "rt_mq_send i buffer sz mq k =
     do { rt_assert (sz \<noteq> 0);
          if sz > ucast (msg_size mq) then Some (- RT_ERROR, mq, k)
          else (case mq_grab mq of
             None \<Rightarrow> Some (- RT_EFULL, mq, k)
           | Some (msg, mq) \<Rightarrow>
               do { valid_access (unat sz \<le> length buffer);
                    let mq = mq_link_tail msg (mq_copy_in msg buffer (unat sz) (mq_clear_next msg mq));
                    k \<leftarrow> ipc_wake (Wait i) k;
                    Some (RT_EOK, mq, k) }) }"

definition rt_mq_urgent ::
  "nat \<Rightarrow> u8 list \<Rightarrow> u32 \<Rightarrow> rt_messagequeue \<Rightarrow> kernel \<Rightarrow> (rt_err_t \<times> rt_messagequeue \<times> kernel) option" where
  "rt_mq_urgent i buffer sz mq k =
     do { rt_assert (sz \<noteq> 0);
          if sz > ucast (msg_size mq) then Some (- RT_ERROR, mq, k)
          else (case mq_grab mq of
             None \<Rightarrow> Some (- RT_EFULL, mq, k)
           | Some (msg, mq) \<Rightarrow>
               do { valid_access (unat sz \<le> length buffer);
                    let mq = mq_link_head msg (mq_copy_in msg buffer (unat sz) mq);
                    k \<leftarrow> ipc_wake (Wait i) k;
                    Some (RT_EOK, mq, k) }) }"

text \<open>The result of \<^verbatim>\<open>rt_mq_recv\<close> is its error code and the bytes it copied to \<^verbatim>\<open>buffer\<close>, if it did.\<close>

definition mq_recv_loop ::
  "nat \<Rightarrow> u32 \<Rightarrow> tid option \<Rightarrow> rt_int32_t \<Rightarrow> u32 \<Rightarrow> rt_messagequeue \<Rightarrow> kernel \<Rightarrow>
     ((rt_err_t \<times> u8 list option, wait_locals) outcome \<times> rt_messagequeue \<times> kernel) option" where
  "mq_recv_loop i sz self timeout tick_delta mq k =
     (if mq_entry mq = 0 then
        do { _ \<leftarrow> in_thread_context k;
             thread \<leftarrow> self;
             let k = upd_thread thread (\<lambda>th. th\<lparr>error := RT_EOK\<rparr>) k;
             if timeout = 0
             then Some (Ret (- RT_ETIMEOUT, None), mq, upd_thread thread (\<lambda>th. th\<lparr>error := - RT_ETIMEOUT\<rparr>) k)
             else do { let tick_delta = (if 0 < sint timeout then rt_tick_get k else tick_delta);
                       k \<leftarrow> ipc_wait (Wait i) (ipc_flag i k) timeout thread k;
                       Some (Blocked (thread, timeout, tick_delta), mq, k) } }
      else do { (msg, mq) \<leftarrow> mq_take mq;
                let bytes = take (unat (if sz > ucast (msg_size mq) then ucast (msg_size mq) else sz)) (msg_data mq msg);
                Some (Ret (RT_EOK, Some bytes), mq_give msg mq, k) })"

definition rt_mq_recv ::
  "nat \<Rightarrow> u32 \<Rightarrow> rt_int32_t \<Rightarrow> rt_messagequeue \<Rightarrow> kernel \<Rightarrow>
     ((rt_err_t \<times> u8 list option, wait_locals) outcome \<times> rt_messagequeue \<times> kernel) option" where
  "rt_mq_recv i sz timeout mq k =
     do { rt_assert (sz \<noteq> 0);
          if mq_entry mq = 0 \<and> timeout = 0 then Some (Ret (- RT_ETIMEOUT, None), mq, k)
          else mq_recv_loop i sz (rt_thread_self k) timeout 0 mq k }"

definition rt_mq_recv_wake ::
  "nat \<Rightarrow> u32 \<Rightarrow> wait_locals \<Rightarrow> rt_messagequeue \<Rightarrow> kernel \<Rightarrow>
     ((rt_err_t \<times> u8 list option, wait_locals) outcome \<times> rt_messagequeue \<times> kernel) option" where
  "rt_mq_recv_wake i sz = (\<lambda>(thread, timeout, tick_delta) mq k.
     if error (threads k thread) \<noteq> RT_EOK then Some (Ret (error (threads k thread), None), mq, k)
     else mq_recv_loop i sz (Some thread) (retry_time timeout tick_delta k) (retry_delta timeout tick_delta k) mq k)"

text \<open>The loop of a reset, which moves all messages to the free list.\<close>

partial_function (option) mq_release_all :: "rt_messagequeue \<Rightarrow> rt_messagequeue option" where
  "mq_release_all mq =
     (case msg_queue_head mq of
        None \<Rightarrow> Some mq
      | Some msg \<Rightarrow>
          (let mq = mq\<lparr>msg_queue_head := msg_next mq msg\<rparr>;
               mq = (if msg_queue_tail mq = Some msg then mq\<lparr>msg_queue_tail := None\<rparr> else mq)
           in mq_release_all (mq_give msg mq)))"

definition rt_mq_control ::
  "nat \<Rightarrow> ipc_cmd \<Rightarrow> rt_messagequeue \<Rightarrow> kernel \<Rightarrow> (rt_err_t \<times> rt_messagequeue \<times> kernel) option" where
  "rt_mq_control i cmd mq k =
     (case cmd of
        RT_IPC_CMD_RESET _ \<Rightarrow>
          do { k \<leftarrow> rt_ipc_list_resume_all (Wait i) k;
               mq \<leftarrow> mq_release_all mq;
               let mq = mq\<lparr>mq_entry := 0\<rparr>;
               k \<leftarrow> rt_schedule k;
               Some (RT_EOK, mq, k) }
      | RT_IPC_CMD_UNKNOWN \<Rightarrow> Some (- RT_ERROR, mq, k))"

section \<open>The chains of slots\<close>

fun chain :: "(nat \<Rightarrow> nat option) \<Rightarrow> nat option \<Rightarrow> nat list \<Rightarrow> bool" where
  "chain nx p [] \<longleftrightarrow> p = None"
| "chain nx p (x # xs) \<longleftrightarrow> p = Some x \<and> chain nx (nx x) xs"

lemma chain_upd [simp]: "x \<notin> set xs \<Longrightarrow> chain (nx(x := q)) p xs = chain nx p xs"
  by (induction xs arbitrary: p) auto

lemma chain_None: "chain nx None xs \<longleftrightarrow> xs = []"
  by (cases xs) auto

lemma chain_Some: "chain nx (Some x) xs \<longleftrightarrow> (\<exists>ys. xs = x # ys \<and> chain nx (nx x) ys)"
  by (cases xs) auto

lemma chain_snoc:
  "chain nx p xs \<Longrightarrow> distinct (xs @ [y]) \<Longrightarrow> xs \<noteq> [] \<Longrightarrow> chain (nx(y := None, last xs := Some y)) p (xs @ [y])"
proof (induction xs arbitrary: p)
  case (Cons x xs)
  show ?case
  proof (cases "xs = []")
    case True
    with Cons.prems show ?thesis by auto
  next
    case False
    with Cons show ?thesis by auto
  qed
qed simp

text \<open>
  The queue \<open>q\<close> and the free list \<open>f\<close> of a message queue, when the slots \<open>out\<close> are in the hands of
  callers: all slots are in one of the three places, and in one place only.
\<close>

definition mq_rep :: "nat list \<Rightarrow> nat list \<Rightarrow> nat list \<Rightarrow> rt_messagequeue \<Rightarrow> bool" where
  "mq_rep out q f mq \<longleftrightarrow> chain (msg_next mq) (msg_queue_head mq) q \<and> chain (msg_next mq) (msg_queue_free mq) f \<and>
     msg_queue_tail mq = (if q = [] then None else Some (last q)) \<and> distinct (q @ f @ out) \<and>
     set (q @ f @ out) = {..<unat (max_msgs mq)} \<and> unat (mq_entry mq) = length q \<and>
     (\<forall>m<unat (max_msgs mq). length (msg_data mq m) = unat (msg_size mq))"

lemma mq_rep_len: "mq_rep out q f mq \<Longrightarrow> length q + length f + length out = unat (max_msgs mq)"
proof -
  assume "mq_rep out q f mq"
  then have "distinct (q @ f @ out)" "set (q @ f @ out) = {..<unat (max_msgs mq)}" by (simp_all add: mq_rep_def)
  from distinct_card [OF this(1)] this(2) show ?thesis by simp
qed

lemma mq_grab_None: "mq_rep out q f mq \<Longrightarrow> mq_grab mq = None \<longleftrightarrow> f = []"
  by (cases f) (auto simp: mq_grab_def mq_rep_def split: option.splits)

lemma mq_grab_Some:
  assumes "mq_rep out q (m # f) mq"
  shows "\<exists>mq'. mq_grab mq = Some (m, mq') \<and> mq_rep (m # out) q f mq' \<and> msg_data mq' = msg_data mq \<and>
     msg_size mq' = msg_size mq \<and> max_msgs mq' = max_msgs mq"
  using assms by (auto simp: mq_grab_def mq_rep_def)

lemma mq_fill_rep:
  assumes "mq_rep (m # out) q f mq" and "n \<le> length b" and "n \<le> unat (msg_size mq)"
  shows "mq_rep (m # out) q f (mq_copy_in m b n (mq_clear_next m mq))" and "mq_rep (m # out) q f (mq_copy_in m b n mq)"
  using assms by (auto simp: mq_rep_def mq_copy_in_def mq_clear_next_def)

lemma mq_link_tail_rep:
  assumes r: "mq_rep (m # out) q f mq" and n: "msg_next mq m = None"
  shows "mq_rep out (q @ [m]) f (mq_link_tail m mq)"
proof -
  have len: "length q < unat (max_msgs mq)" using mq_rep_len [OF r] by simp
  then have e: "unat (mq_entry mq + 1) = Suc (length q)" using r unat_inc [of "mq_entry mq" "max_msgs mq"] by (simp add: mq_rep_def)
  show ?thesis
  proof (cases "q = []")
    case True
    with r n e show ?thesis by (auto simp: mq_rep_def mq_link_tail_def Let_def)
  next
    case False
    have nx: "(msg_next mq)(m := None) = msg_next mq" using n by auto
    have "last q \<in> set q" using False by simp
    then have "last q \<notin> set f" "last q \<noteq> m" using r by (auto simp: mq_rep_def)
    moreover have "chain ((msg_next mq)(m := None, last q := Some m)) (msg_queue_head mq) (q @ [m])"
      using r False by (intro chain_snoc) (auto simp: mq_rep_def)
    moreover have "msg_queue_head mq \<noteq> None" using r False by (auto simp: mq_rep_def chain_None)
    ultimately show ?thesis using r False e unfolding nx by (auto simp: mq_rep_def mq_link_tail_def Let_def)
  qed
qed

lemma mq_link_head_rep:
  assumes r: "mq_rep (m # out) q f mq"
  shows "mq_rep out (m # q) f (mq_link_head m mq)"
proof -
  have len: "length q < unat (max_msgs mq)" using mq_rep_len [OF r] by simp
  then have e: "unat (mq_entry mq + 1) = Suc (length q)" using r unat_inc [of "mq_entry mq" "max_msgs mq"] by (simp add: mq_rep_def)
  show ?thesis using r e by (cases "q = []") (auto simp: mq_rep_def mq_link_head_def Let_def)
qed

lemma mq_take_rep:
  assumes r: "mq_rep out (m # q) f mq"
  shows "\<exists>mq'. mq_take mq = Some (m, mq') \<and> mq_rep (m # out) q f mq' \<and> msg_data mq' = msg_data mq \<and>
     msg_size mq' = msg_size mq \<and> max_msgs mq' = max_msgs mq"
proof -
  have "mq_entry mq \<noteq> 0" using r by (auto simp: mq_rep_def)
  then have e: "unat (mq_entry mq - 1) = length q" using r by (simp add: mq_rep_def unat_minus_one)
  have "m \<notin> set q" using r by (simp add: mq_rep_def)
  then have l: "q \<noteq> [] \<Longrightarrow> last q \<noteq> m" by auto
  show ?thesis using r e l by (cases "q = []") (auto simp: mq_rep_def mq_take_def)
qed

lemma mq_give_rep:
  assumes r: "mq_rep (m # out) q f mq"
  shows "mq_rep out q (m # f) (mq_give m mq)"
  using r by (auto simp: mq_rep_def mq_give_def)


lemma mq_frame [simp]:
  "msg_size (mq_link_tail m mq) = msg_size mq" "max_msgs (mq_link_tail m mq) = max_msgs mq" "msg_data (mq_link_tail m mq) = msg_data mq"
  "msg_size (mq_link_head m mq) = msg_size mq" "max_msgs (mq_link_head m mq) = max_msgs mq" "msg_data (mq_link_head m mq) = msg_data mq"
  "msg_size (mq_give m mq) = msg_size mq" "max_msgs (mq_give m mq) = max_msgs mq" "msg_data (mq_give m mq) = msg_data mq"
  "msg_size (mq_copy_in m b n mq) = msg_size mq" "max_msgs (mq_copy_in m b n mq) = max_msgs mq" "msg_next (mq_copy_in m b n mq) = msg_next mq"
  "msg_data (mq_copy_in m b n mq) = (msg_data mq)(m := take n b @ drop n (msg_data mq m))"
  "msg_size (mq_clear_next m mq) = msg_size mq" "max_msgs (mq_clear_next m mq) = max_msgs mq" "msg_data (mq_clear_next m mq) = msg_data mq"
  "msg_next (mq_clear_next m mq) = (msg_next mq)(m := None)"
  by (simp_all add: mq_link_tail_def mq_link_head_def mq_give_def mq_copy_in_def mq_clear_next_def Let_def split: option.split)

text \<open>The messages in the queue, found by following its links.\<close>

fun walk :: "nat \<Rightarrow> (nat \<Rightarrow> nat option) \<Rightarrow> nat option \<Rightarrow> nat list" where
  "walk 0 nx p = []"
| "walk (Suc n) nx p = (case p of None \<Rightarrow> [] | Some x \<Rightarrow> x # walk n nx (nx x))"

lemma chain_walk: "chain nx p xs \<Longrightarrow> walk (length xs) nx p = xs"
  by (induction xs arbitrary: p) auto

definition queued :: "rt_messagequeue \<Rightarrow> nat list" where
  "queued mq = walk (unat (mq_entry mq)) (msg_next mq) (msg_queue_head mq)"

definition messages :: "rt_messagequeue \<Rightarrow> u8 list list" where
  "messages mq = map (msg_data mq) (queued mq)"

definition mq_inv :: "rt_messagequeue \<Rightarrow> bool" where
  "mq_inv mq \<longleftrightarrow> (\<exists>f. mq_rep [] (queued mq) f mq)"

lemma mq_rep_queued: "mq_rep out q f mq \<Longrightarrow> queued mq = q"
  by (auto simp: queued_def mq_rep_def chain_walk)

lemma mq_rep_inv: "mq_rep [] q f mq \<Longrightarrow> mq_inv mq \<and> messages mq = map (msg_data mq) q"
  using mq_rep_queued by (auto simp: mq_inv_def messages_def)

lemma mq_inv_rep: "mq_inv mq \<Longrightarrow> \<exists>q f. mq_rep [] q f mq \<and> messages mq = map (msg_data mq) q"
  by (auto simp: mq_inv_def messages_def)

lemma mq_link_free_fold:
  assumes "mq' = foldl (\<lambda>mq temp. mq\<lparr>msg_next := (msg_next mq)(temp := msg_queue_free mq), msg_queue_free := Some temp\<rparr>)
       (mq\<lparr>msg_queue_head := None, msg_queue_tail := None, msg_queue_free := None\<rparr>) [0..<n]"
  shows "chain (msg_next mq') (msg_queue_free mq') (rev [0..<n]) \<and> msg_queue_head mq' = None \<and> msg_queue_tail mq' = None \<and>
     msg_data mq' = msg_data mq \<and> msg_size mq' = msg_size mq \<and> max_msgs mq' = max_msgs mq \<and> mq_entry mq' = mq_entry mq"
  using assms by (induction n arbitrary: mq') auto

lemma mq_fields_rep:
  assumes "\<forall>m<unat n. length (dt m) = unat sz"
  shows "mq_rep [] [] (rev [0..<unat n]) (mq_fields nx dt sz n)" and "msg_data (mq_fields nx dt sz n) = dt"
    and "max_msgs (mq_fields nx dt sz n) = n" and "msg_size (mq_fields nx dt sz n) = sz"
  using mq_link_free_fold [OF refl, of "\<lparr>msg_size = sz, max_msgs = n, mq_entry = 0, msg_queue_head = None, msg_queue_tail = None,
     msg_queue_free = None, msg_next = nx, msg_data = dt\<rparr>" "unat n"] assms
  by (simp_all add: mq_fields_def mq_link_free_def mq_rep_def lessThan_atLeast0)

section \<open>What a message queue guarantees\<close>

lemma unat_ucast_up [simp]: "unat (ucast (w :: u16) :: u32) = unat w"
proof -
  have "unat w < 65536" using unsigned_less [of w, where ?'a = nat] by simp
  then show ?thesis by (simp add: unsigned_ucast_eq take_bit_nat_eq_self)
qed

lemma mq_send_spec:
  assumes r: "mq_rep [] q (m # f) mq" and n: "n \<le> length b" "n \<le> unat (msg_size mq)"
  shows "\<exists>mq1 d. mq_grab mq = Some (m, mq1) \<and> take n d = take n b \<and> length d = unat (msg_size mq) \<and>
     mq_inv (mq_link_tail m (mq_copy_in m b n (mq_clear_next m mq1))) \<and>
     messages (mq_link_tail m (mq_copy_in m b n (mq_clear_next m mq1))) = messages mq @ [d] \<and>
     mq_inv (mq_link_head m (mq_copy_in m b n mq1)) \<and>
     messages (mq_link_head m (mq_copy_in m b n mq1)) = d # messages mq"
proof -
  from mq_grab_Some [OF r] obtain mq1 where g: "mq_grab mq = Some (m, mq1)" "mq_rep [m] q f mq1" "msg_data mq1 = msg_data mq"
    "msg_size mq1 = msg_size mq" "max_msgs mq1 = max_msgs mq" by blast
  let ?d = "take n b @ drop n (msg_data mq m)"
  have m: "m < unat (max_msgs mq)" "m \<notin> set q" using r by (auto simp: mq_rep_def)
  then have ld: "length (msg_data mq m) = unat (msg_size mq)" using r by (simp add: mq_rep_def)
  have ms: "messages mq = map (msg_data mq) q" using mq_rep_inv [OF r] by simp
  have n1: "n \<le> unat (msg_size mq1)" using n g by simp
  have t: "mq_rep [] (q @ [m]) f (mq_link_tail m (mq_copy_in m b n (mq_clear_next m mq1)))"
    by (rule mq_link_tail_rep [OF mq_fill_rep(1) [OF g(2) n(1) n1]]) simp
  have h: "mq_rep [] (m # q) f (mq_link_head m (mq_copy_in m b n mq1))"
    by (rule mq_link_head_rep [OF mq_fill_rep(2) [OF g(2) n(1) n1]])
  have "take n ?d = take n b" "length ?d = unat (msg_size mq)" using n ld by simp_all
  moreover have "map ((msg_data mq)(m := ?d)) q = map (msg_data mq) q" using m(2) by (intro map_cong) auto
  ultimately show ?thesis using g mq_rep_inv [OF t] mq_rep_inv [OF h] ms by auto
qed

lemma mq_full: "mq_rep [] q f mq \<Longrightarrow> length (messages mq) = unat (max_msgs mq) \<longleftrightarrow> f = []"
  using mq_rep_len [of "[]" q f mq] mq_rep_inv [of q f mq] by auto

text \<open>
  C15: \<^verbatim>\<open>rt_mq_send\<close> and \<^verbatim>\<open>rt_mq_urgent\<close> in every branch: a message longer than the slots gives \<^verbatim>\<open>-RT_ERROR\<close> and a
  full queue \<^verbatim>\<open>-RT_EFULL\<close>, both without a change; otherwise the message with the bytes of the buffer is
  put at the end of the queue, or at its beginning, and the first waiting receiver is woken.
\<close>

theorem rt_mq_send_correct:
  assumes inv: "kinv 0 k" "rt_current_thread k = Some c" and mi: "mq_inv mq" and s: "sz \<noteq> 0" "unat sz \<le> length buffer"
  shows "if unat (msg_size mq) < unat sz
     then rt_mq_send i buffer sz mq k = Some (- RT_ERROR, mq, k) \<and> rt_mq_urgent i buffer sz mq k = Some (- RT_ERROR, mq, k)
     else if length (messages mq) = unat (max_msgs mq)
     then rt_mq_send i buffer sz mq k = Some (- RT_EFULL, mq, k) \<and> rt_mq_urgent i buffer sz mq k = Some (- RT_EFULL, mq, k)
     else \<exists>d mq' mq'' k'. take (unat sz) d = take (unat sz) buffer \<and> length d = unat (msg_size mq) \<and>
       rt_mq_send i buffer sz mq k = Some (RT_EOK, mq', k') \<and> mq_inv mq' \<and> messages mq' = messages mq @ [d] \<and>
       rt_mq_urgent i buffer sz mq k = Some (RT_EOK, mq'', k') \<and> mq_inv mq'' \<and> messages mq'' = d # messages mq \<and>
       kinv 0 k' \<and> q_list k' (Wait i) = tl (q_list k (Wait i)) \<and>
       (\<forall>w ws. q_list k (Wait i) = w # ws \<longrightarrow> stat (threads k' w) = RT_THREAD_READY)"
proof -
  from mq_inv_rep [OF mi] obtain q f where r: "mq_rep [] q f mq" by blast
  have sz: "sz > ucast (msg_size mq) \<longleftrightarrow> unat (msg_size mq) < unat sz" by (simp add: word_less_nat_alt)
  show ?thesis
  proof (cases "unat (msg_size mq) < unat sz")
    case True
    with s show ?thesis by (simp add: rt_mq_send_def rt_mq_urgent_def sz)
  next
    case False
    show ?thesis
    proof (cases f)
      case Nil
      then have "length (messages mq) = unat (max_msgs mq)" "mq_grab mq = None" using mq_full [OF r] mq_grab_None [OF r] by simp_all
      with False s show ?thesis by (simp add: rt_mq_send_def rt_mq_urgent_def sz)
    next
      case (Cons m f')
      then have nf: "length (messages mq) \<noteq> unat (max_msgs mq)" using mq_full [OF r] by simp
      have "mq_rep [] q (m # f') mq" using r Cons by simp
      from mq_send_spec [OF this s(2)] False obtain mq1 d where
        d: "mq_grab mq = Some (m, mq1)" "take (unat sz) d = take (unat sz) buffer" "length d = unat (msg_size mq)"
        "mq_inv (mq_link_tail m (mq_copy_in m buffer (unat sz) (mq_clear_next m mq1)))"
        "messages (mq_link_tail m (mq_copy_in m buffer (unat sz) (mq_clear_next m mq1))) = messages mq @ [d]"
        "mq_inv (mq_link_head m (mq_copy_in m buffer (unat sz) mq1))"
        "messages (mq_link_head m (mq_copy_in m buffer (unat sz) mq1)) = d # messages mq" by auto
      from ipc_wake_spec [OF inv waiting_simps(1)] obtain k' where k': "ipc_wake (Wait i) k = Some k'" "kinv 0 k'"
        "q_list k' (Wait i) = tl (q_list k (Wait i))"
        "threads k' = (case q_list k (Wait i) of [] \<Rightarrow> threads k | t # ts \<Rightarrow> (threads k)(t := (threads k t)\<lparr>stat := RT_THREAD_READY\<rparr>))" by blast
      have "rt_mq_send i buffer sz mq k = Some (RT_EOK, mq_link_tail m (mq_copy_in m buffer (unat sz) (mq_clear_next m mq1)), k')"
        "rt_mq_urgent i buffer sz mq k = Some (RT_EOK, mq_link_head m (mq_copy_in m buffer (unat sz) mq1), k')"
        using False s d(1) k'(1) by (simp_all add: rt_mq_send_def rt_mq_urgent_def sz Let_def)
      moreover have "\<forall>w ws. q_list k (Wait i) = w # ws \<longrightarrow> stat (threads k' w) = RT_THREAD_READY" using k'(4) by auto
      ultimately show ?thesis using False nf d k' by auto
    qed
  qed
qed

definition small_queue :: rt_messagequeue where
  "small_queue = mq_fields (\<lambda>_. None) (\<lambda>_. [0, 0, 0, 0]) 4 2"

lemma small_queue_inv: "mq_inv small_queue" "messages small_queue = []" "msg_size small_queue = 4" "max_msgs small_queue = 2"
  using mq_fields_rep [of 2 "\<lambda>_. [0, 0, 0, 0]" 4 "\<lambda>_. None"] mq_rep_inv by (auto simp: small_queue_def)

theorem rt_mq_send_correct_witness:
  "\<exists>d mq' k'. rt_mq_send 7 [1, 2, 3] 3 small_queue boot_kernel = Some (RT_EOK, mq', k') \<and> messages mq' = [d] \<and> take 3 d = [1, 2, 3]"
  using rt_mq_send_correct [OF boot_kernel(2,3) small_queue_inv(1), of 3 "[1, 2, 3]" 7] by (auto simp: small_queue_inv)


text \<open>
  C16: \<^verbatim>\<open>rt_mq_recv\<close> in every branch: it takes the first message, copies as much of it as the buffer and
  the slot have room for, and gives the slot back; an empty queue gives \<^verbatim>\<open>-RT_ETIMEOUT\<close> without waiting
  time, and otherwise the caller waits.
\<close>

theorem rt_mq_recv_correct:
  assumes run: "running k t" and mi: "mq_inv mq" and fl: "ipc_flag_ok i k" and tm: "time_ok time" and n: "rt_interrupt_nest k = 0"
    and s: "sz \<noteq> 0"
  shows "case messages mq of
       d # ds \<Rightarrow> \<exists>mq'. rt_mq_recv i sz time mq k = Some (Ret (RT_EOK, Some (take (unat sz) d)), mq', k) \<and> mq_inv mq' \<and> messages mq' = ds
     | [] \<Rightarrow> if time = 0 then rt_mq_recv i sz time mq k = Some (Ret (- RT_ETIMEOUT, None), mq, k)
            else \<exists>k'. rt_mq_recv i sz time mq k = Some (Blocked (t, time, if 0 < sint time then rt_tick k else 0), mq, k') \<and> kinv 0 k' \<and>
              stat (threads k' t) = RT_THREAD_SUSPEND \<and>
              q_list k' (Wait i) = wait_insert (ipc_flag i k) (\<lambda>s. current_priority (threads k s)) t (q_list k (Wait i))"
proof -
  from mq_inv_rep [OF mi] obtain q f where r: "mq_rep [] q f mq" and ms: "messages mq = map (msg_data mq) q" by blast
  show ?thesis
  proof (cases q)
    case (Cons m q')
    from mq_take_rep [of "[]" m q' f mq] r Cons obtain mq1 where t: "mq_take mq = Some (m, mq1)" "mq_rep [m] q' f mq1"
      "msg_data mq1 = msg_data mq" "msg_size mq1 = msg_size mq" by auto
    have e: "mq_entry mq \<noteq> 0" using r Cons by (auto simp: mq_rep_def)
    have "length (msg_data mq m) = unat (msg_size mq)" using r Cons by (auto simp: mq_rep_def)
    then have tk: "take (unat (if sz > ucast (msg_size mq) then ucast (msg_size mq) else sz)) (msg_data mq m) = take (unat sz) (msg_data mq m)"
      by (auto simp: word_less_nat_alt)
    have "rt_mq_recv i sz time mq k = Some (Ret (RT_EOK, Some (take (unat sz) (msg_data mq m))), mq_give m mq1, k)"
      using e s t tk by (simp add: rt_mq_recv_def mq_recv_loop_def Let_def split del: if_split cong: if_cong)
    then show ?thesis using mq_rep_inv [OF mq_give_rep [OF t(2)]] t(3) ms Cons by simp
  next
    case Nil
    then have e: "mq_entry mq = 0" using r by (simp add: mq_rep_def unat_eq_0)
    show ?thesis
    proof (cases "time = 0")
      case True
      with e ms Nil s show ?thesis by (simp add: rt_mq_recv_def)
    next
      case False
      from mb_block [OF run fl tm n False waiting_simps(1)] obtain k' where
        "ipc_wait (Wait i) (ipc_flag i k) time t (upd_thread t (\<lambda>th. th\<lparr>error := RT_EOK\<rparr>) k) = Some k'" "kinv 0 k'"
        "threads k' = (threads k)(t := (threads k t)\<lparr>error := RT_EOK, stat := RT_THREAD_SUSPEND\<rparr>)"
        "q_list k' (Wait i) = wait_insert (ipc_flag i k) (\<lambda>s. current_priority (threads k s)) t (q_list k (Wait i))" by blast
      with e False ms Nil s running_ctx [OF run n] show ?thesis
        by (simp add: rt_mq_recv_def mq_recv_loop_def Let_def rt_tick_get_def)
    qed
  qed
qed

theorem rt_mq_recv_correct_witness:
  "\<exists>d mq' k' mq''. rt_mq_send 7 [1, 2, 3] 3 small_queue boot_kernel = Some (RT_EOK, mq', k') \<and>
     rt_mq_recv 7 3 0 mq' boot_kernel = Some (Ret (RT_EOK, Some [1, 2, 3]), mq'', boot_kernel)"
proof -
  have r: "mq_rep [] [] [1, 0] small_queue"
    using mq_fields_rep(1) [of 2 "\<lambda>_. [0, 0, 0, 0]" 4 "\<lambda>_. None"] by (simp add: small_queue_def upt_rec)
  define mq' where "mq' = mq_link_tail 1 (mq_copy_in 1 [1, 2, 3] 3 (mq_clear_next 1 (small_queue\<lparr>msg_queue_free := msg_next small_queue 1\<rparr>)))"
  have g: "mq_grab small_queue = Some (1, small_queue\<lparr>msg_queue_free := msg_next small_queue 1\<rparr>)"
    using r by (simp add: mq_grab_def mq_rep_def)
  from mq_send_spec [OF r, of 3 "[1, 2, 3]"] g small_queue_inv obtain d where d: "take 3 d = [1, 2, 3]" "mq_inv mq'" "messages mq' = [d]"
    by (auto simp: mq'_def)
  have "ipc_wake (Wait 7) boot_kernel = Some boot_kernel" by (simp add: ipc_wake_def fam_isempty_def boot_no_waiters)
  then have "rt_mq_send 7 [1, 2, 3] 3 small_queue boot_kernel = Some (RT_EOK, mq', boot_kernel)"
    using g small_queue_inv by (simp add: rt_mq_send_def mq'_def)
  moreover have "time_ok 0" by (simp add: time_ok_def)
  from rt_mq_recv_correct [OF boot_running d(2) boot_flag_ok this boot_kernel(11), of 3] d obtain mq'' where
    "rt_mq_recv 7 3 0 mq' boot_kernel = Some (Ret (RT_EOK, Some [1, 2, 3]), mq'', boot_kernel)" by auto
  ultimately show ?thesis by blast
qed

section \<open>Interleaved callers\<close>

text \<open>
  Interrupts are off only within the single steps: a caller that holds a slot can be interrupted by
  another one.  A flight is a caller between two of its steps; the third component of the state
  is the sequence of messages a first-in first-out queue would hold.
\<close>

datatype mq_flight = Grabbed nat | Filled nat | FilledUrgent nat | Taken nat "u8 list"

fun slot :: "mq_flight \<Rightarrow> nat" where
  "slot (Grabbed m) = m"
| "slot (Filled m) = m"
| "slot (FilledUrgent m) = m"
| "slot (Taken m d) = m"

type_synonym mq_state = "rt_messagequeue \<times> mq_flight list \<times> u8 list list"

inductive mq_step :: "mq_state \<Rightarrow> mq_state \<Rightarrow> bool" where
  grab: "mq_grab mq = Some (m, mq') \<Longrightarrow> mq_step (mq, fs, ms) (mq', Grabbed m # fs, ms)"
| fill: "n \<le> length b \<Longrightarrow> n \<le> unat (msg_size mq) \<Longrightarrow>
    mq_step (mq, as @ Grabbed m # bs, ms) (mq_copy_in m b n (mq_clear_next m mq), as @ Filled m # bs, ms)"
| fill_urgent: "n \<le> length b \<Longrightarrow> n \<le> unat (msg_size mq) \<Longrightarrow>
    mq_step (mq, as @ Grabbed m # bs, ms) (mq_copy_in m b n mq, as @ FilledUrgent m # bs, ms)"
| link: "mq_step (mq, as @ Filled m # bs, ms) (mq_link_tail m mq, as @ bs, ms @ [msg_data mq m])"
| link_urgent: "mq_step (mq, as @ FilledUrgent m # bs, ms) (mq_link_head m mq, as @ bs, msg_data mq m # ms)"
| take_msg: "mq_entry mq \<noteq> 0 \<Longrightarrow> mq_take mq = Some (m, mq') \<Longrightarrow> mq_step (mq, fs, ms) (mq', Taken m (hd ms) # fs, tl ms)"
| give: "mq_step (mq, as @ Taken m d # bs, ms) (mq_give m mq, as @ bs, ms)"

inductive_cases mq_stepE: "mq_step (mq, fs, ms) s'"

definition flights_ok :: "rt_messagequeue \<Rightarrow> mq_flight list \<Rightarrow> bool" where
  "flights_ok mq fs \<longleftrightarrow> (\<forall>x\<in>set fs. case x of Filled m \<Rightarrow> msg_next mq m = None | Taken m d \<Rightarrow> msg_data mq m = d | _ \<Rightarrow> True)"

definition mq_state_inv :: "mq_state \<Rightarrow> bool" where
  "mq_state_inv = (\<lambda>(mq, fs, ms). \<exists>q f. mq_rep (map slot fs) q f mq \<and> ms = map (msg_data mq) q \<and> flights_ok mq fs)"

lemma mq_rep_perm: "mset out = mset out' \<Longrightarrow> mq_rep out q f mq = mq_rep out' q f mq"
proof -
  assume m: "mset out = mset out'"
  then have "set out = set out'" "distinct out = distinct out'" by (auto dest: mset_eq_setD mset_eq_imp_distinct_iff)
  then show ?thesis by (simp add: mq_rep_def)
qed

lemma mq_rep_middle: "mq_rep (map slot (as @ x # bs)) q f mq = mq_rep (slot x # map slot (as @ bs)) q f mq"
  by (rule mq_rep_perm) simp

text \<open>The steps of one caller leave what the others hold alone.\<close>

lemma flights_ok_frame:
  assumes "flights_ok mq fs" and "\<And>x. x \<in> set fs \<Longrightarrow> msg_next mq' (slot x) = msg_next mq (slot x) \<and> msg_data mq' (slot x) = msg_data mq (slot x)"
  shows "flights_ok mq' fs"
  unfolding flights_ok_def
proof
  fix x
  assume x: "x \<in> set fs"
  with assms(1) have "case x of Filled m \<Rightarrow> msg_next mq m = None | Taken m d \<Rightarrow> msg_data mq m = d | _ \<Rightarrow> True"
    unfolding flights_ok_def by blast
  with assms(2) [OF x] show "case x of Filled m \<Rightarrow> msg_next mq' m = None | Taken m d \<Rightarrow> msg_data mq' m = d | _ \<Rightarrow> True"
    by (cases x) auto
qed

lemma flights_ok_middle: "flights_ok mq (as @ x # bs) \<longleftrightarrow> flights_ok mq [x] \<and> flights_ok mq (as @ bs)"
  by (auto simp: flights_ok_def)


lemma mq_rep_out:
  assumes "mq_rep out q f mq" and "m \<in> set out"
  shows "m \<notin> set q" and "m \<notin> set f" and "msg_queue_tail mq \<noteq> Some m" and "msg_queue_free mq \<noteq> Some m" and "msg_queue_head mq \<noteq> Some m"
proof -
  show q: "m \<notin> set q" "m \<notin> set f" using assms by (auto simp: mq_rep_def)
  show "msg_queue_tail mq \<noteq> Some m" using assms(1) q(1) last_in_set [of q] by (auto simp: mq_rep_def split: if_splits)
  show "msg_queue_free mq \<noteq> Some m" "msg_queue_head mq \<noteq> Some m" using assms(1) q by (auto simp: mq_rep_def chain_Some)
qed

lemma mq_grab_next: "mq_grab mq = Some (m, mq') \<Longrightarrow> msg_next mq' = msg_next mq"
  by (auto simp: mq_grab_def split: option.splits)

lemma mq_take_next: "mq_take mq = Some (m, mq') \<Longrightarrow> msg_next mq' = msg_next mq"
  by (auto simp: mq_take_def Option.bind_eq_Some_conv Let_def split: if_splits)

lemma mq_link_next:
  "msg_queue_tail mq \<noteq> Some s \<Longrightarrow> msg_next (mq_link_tail m mq) s = msg_next mq s"
  "s \<noteq> m \<Longrightarrow> msg_next (mq_link_head m mq) s = msg_next mq s"
  "s \<noteq> m \<Longrightarrow> msg_next (mq_give m mq) s = msg_next mq s"
  by (auto simp: mq_link_tail_def mq_link_head_def mq_give_def Let_def split: option.split)

lemma mq_state_invI:
  "mq_rep (map slot fs) q f mq \<Longrightarrow> ms = map (msg_data mq) q \<Longrightarrow> flights_ok mq fs \<Longrightarrow> mq_state_inv (mq, fs, ms)"
  by (auto simp: mq_state_inv_def)

lemma mq_state_invE:
  assumes "mq_state_inv (mq, as @ x # bs, ms)"
  obtains q f where "mq_rep (slot x # map slot (as @ bs)) q f mq" "ms = map (msg_data mq) q" "flights_ok mq [x]" "flights_ok mq (as @ bs)"
    "\<And>y. y \<in> set (as @ bs) \<Longrightarrow> slot y \<noteq> slot x \<and> msg_queue_tail mq \<noteq> Some (slot y)" "slot x \<notin> set q"
proof -
  obtain q f where r: "mq_rep (slot x # map slot (as @ bs)) q f mq" "ms = map (msg_data mq) q" "flights_ok mq (as @ x # bs)"
    using assms unfolding mq_state_inv_def by (auto simp: mq_rep_middle simp del: map_append list.map)
  have "slot y \<noteq> slot x \<and> msg_queue_tail mq \<noteq> Some (slot y)" if "y \<in> set (as @ bs)" for y
  proof -
    have "slot x \<notin> slot ` set (as @ bs)" using r(1) by (auto simp: mq_rep_def)
    with imageI [OF that, of slot] have "slot y \<noteq> slot x" by metis
    with mq_rep_out(3) [OF r(1), of "slot y"] that show ?thesis by auto
  qed
  moreover have "slot x \<notin> set q" using mq_rep_out(1) [OF r(1)] by simp
  ultimately show thesis using r that flights_ok_middle by blast
qed

lemma mq_grab_step:
  assumes g: "mq_grab mq = Some (m, mq')" and i: "mq_state_inv (mq, fs, ms)"
  shows "mq_state_inv (mq', Grabbed m # fs, ms)"
proof -
  from i obtain q f where r: "mq_rep (map slot fs) q f mq" "ms = map (msg_data mq) q" "flights_ok mq fs" by (auto simp: mq_state_inv_def)
  then obtain f' where f: "f = m # f'" using g by (cases f) (auto simp: mq_grab_def mq_rep_def split: option.splits)
  from mq_grab_Some [OF r(1) [unfolded f]] g have r': "mq_rep (m # map slot fs) q f' mq'" "msg_data mq' = msg_data mq" by auto
  have "flights_ok mq' fs" using r(3) by (rule flights_ok_frame) (simp add: r'(2) mq_grab_next [OF g])
  then have "flights_ok mq' (Grabbed m # fs)" by (simp add: flights_ok_def)
  with r r' show ?thesis by (intro mq_state_invI [of _ q f']) simp_all
qed

lemma mq_fill_step:
  assumes i: "mq_state_inv (mq, as @ Grabbed m # bs, ms)" and n: "n \<le> length b" "n \<le> unat (msg_size mq)"
  shows "mq_state_inv (mq_copy_in m b n (mq_clear_next m mq), as @ Filled m # bs, ms)"
    and "mq_state_inv (mq_copy_in m b n mq, as @ FilledUrgent m # bs, ms)"
proof -
  from i obtain q f where r: "mq_rep (m # map slot (as @ bs)) q f mq" "ms = map (msg_data mq) q" "flights_ok mq (as @ bs)"
    "\<And>y. y \<in> set (as @ bs) \<Longrightarrow> slot y \<noteq> m" "m \<notin> set q" by (rule mq_state_invE) simp
  let ?t = "mq_copy_in m b n (mq_clear_next m mq)" and ?u = "mq_copy_in m b n mq"
  have d: "map ((msg_data mq)(m := x)) q = map (msg_data mq) q" for x using r(5) by (intro map_cong) auto
  have "flights_ok ?t (as @ bs)" "flights_ok ?u (as @ bs)" by (intro flights_ok_frame [OF r(3)]; simp add: r(4))+
  then have "flights_ok ?t (as @ Filled m # bs)" "flights_ok ?u (as @ FilledUrgent m # bs)"
    by (simp_all only: flights_ok_middle) (simp_all add: flights_ok_def)
  moreover have "mq_rep (map slot (as @ Filled m # bs)) q f ?t" "mq_rep (map slot (as @ FilledUrgent m # bs)) q f ?u"
    unfolding mq_rep_middle using mq_fill_rep [OF r(1) n] by simp_all
  ultimately show "mq_state_inv (?t, as @ Filled m # bs, ms)" "mq_state_inv (?u, as @ FilledUrgent m # bs, ms)"
    using r(2) d by (intro mq_state_invI [of _ q f]; simp)+
qed

lemma mq_link_step:
  assumes i: "mq_state_inv (mq, as @ Filled m # bs, ms)"
  shows "mq_state_inv (mq_link_tail m mq, as @ bs, ms @ [msg_data mq m])"
proof -
  from i obtain q f where r: "mq_rep (m # map slot (as @ bs)) q f mq" "ms = map (msg_data mq) q" "msg_next mq m = None" "flights_ok mq (as @ bs)"
    "\<And>y. y \<in> set (as @ bs) \<Longrightarrow> msg_queue_tail mq \<noteq> Some (slot y)" by (rule mq_state_invE) (simp add: flights_ok_def)
  have "flights_ok (mq_link_tail m mq) (as @ bs)" using r(5) by (intro flights_ok_frame [OF r(4)]) (simp add: mq_link_next)
  with mq_link_tail_rep [OF r(1,3)] r(2) show ?thesis by (intro mq_state_invI [of _ "q @ [m]" f]) simp_all
qed

lemma mq_link_urgent_step:
  assumes i: "mq_state_inv (mq, as @ FilledUrgent m # bs, ms)"
  shows "mq_state_inv (mq_link_head m mq, as @ bs, msg_data mq m # ms)"
proof -
  from i obtain q f where r: "mq_rep (m # map slot (as @ bs)) q f mq" "ms = map (msg_data mq) q" "flights_ok mq (as @ bs)"
    "\<And>y. y \<in> set (as @ bs) \<Longrightarrow> slot y \<noteq> m" by (rule mq_state_invE) simp
  have "flights_ok (mq_link_head m mq) (as @ bs)" using r(4) by (intro flights_ok_frame [OF r(3)]) (simp add: mq_link_next)
  with mq_link_head_rep [OF r(1)] r(2) show ?thesis by (intro mq_state_invI [of _ "m # q" f]) simp_all
qed

lemma mq_take_step:
  assumes t: "mq_entry mq \<noteq> 0" "mq_take mq = Some (m, mq')" and i: "mq_state_inv (mq, fs, ms)"
  shows "mq_state_inv (mq', Taken m (hd ms) # fs, tl ms)"
proof -
  from i obtain q f where r: "mq_rep (map slot fs) q f mq" "ms = map (msg_data mq) q" "flights_ok mq fs" by (auto simp: mq_state_inv_def)
  obtain q' where q: "q = m # q'" using r(1) t
    by (cases q) (auto simp: mq_rep_def mq_take_def Option.bind_eq_Some_conv Let_def unat_eq_0)
  from mq_take_rep [OF r(1) [unfolded q]] t have r': "mq_rep (m # map slot fs) q' f mq'" "msg_data mq' = msg_data mq" by auto
  have "flights_ok mq' fs" using r(3) by (rule flights_ok_frame) (simp add: r'(2) mq_take_next [OF t(2)])
  then have "flights_ok mq' (Taken m (hd ms) # fs)" using r(2) q r'(2) by (simp add: flights_ok_def)
  with r r' q show ?thesis by (intro mq_state_invI [of _ q' f]) simp_all
qed

lemma mq_give_step:
  assumes i: "mq_state_inv (mq, as @ Taken m d # bs, ms)"
  shows "mq_state_inv (mq_give m mq, as @ bs, ms)"
proof -
  from i obtain q f where r: "mq_rep (m # map slot (as @ bs)) q f mq" "ms = map (msg_data mq) q" "flights_ok mq (as @ bs)"
    "\<And>y. y \<in> set (as @ bs) \<Longrightarrow> slot y \<noteq> m" by (rule mq_state_invE) simp
  have "flights_ok (mq_give m mq) (as @ bs)" using r(4) by (intro flights_ok_frame [OF r(3)]) (simp add: mq_link_next)
  with mq_give_rep [OF r(1)] r(2) show ?thesis by (intro mq_state_invI [of _ q "m # f"]) simp_all
qed

lemmas mq_steps = mq_grab_step mq_fill_step mq_link_step mq_link_urgent_step mq_take_step mq_give_step

lemma mq_step_inv: "mq_step s s' \<Longrightarrow> mq_state_inv s \<Longrightarrow> mq_state_inv s'"
  by (induction rule: mq_step.induct) (simp_all add: mq_steps)

lemma mq_reach_inv: "mq_step\<^sup>*\<^sup>* s s' \<Longrightarrow> mq_state_inv s \<Longrightarrow> mq_state_inv s'"
  by (induction rule: rtranclp_induct) (simp_all add: mq_step_inv)

text \<open>
  C17: Callers of one message queue that interrupt each other anywhere between their critical
  sections do no harm: in every state reachable from a fresh queue, each slot is in the
  queue, in the free list or with one caller, and in one of them only; the queue holds exactly
  the messages linked and not yet taken, in order, with urgent ones in front; and a receiver that took
  a message still finds its bytes in the slot it copies from.
\<close>

theorem rt_mq_interleaving_safe:
  assumes "\<forall>m<unat n. length (dt m) = unat sz"
    and "mq_step\<^sup>*\<^sup>* (mq_fields nx dt sz n, [], []) (mq, fs, ms)"
  shows "\<exists>f. mq_rep (map slot fs) (queued mq) f mq \<and> messages mq = ms \<and> distinct (queued mq @ f @ map slot fs) \<and>
     set (queued mq @ f @ map slot fs) = {..<unat (max_msgs mq)} \<and>
     (mq_grab mq = None \<longleftrightarrow> f = []) \<and> (mq_entry mq = 0 \<longleftrightarrow> ms = []) \<and>
     (\<forall>m d. Taken m d \<in> set fs \<longrightarrow> msg_data mq m = d)"
proof -
  have "mq_state_inv (mq_fields nx dt sz n, [], [])"
    using mq_fields_rep(1) [OF assms(1)] by (intro mq_state_invI [of _ "[]"]) (simp_all add: flights_ok_def)
  from mq_reach_inv [OF assms(2) this] obtain q f where r: "mq_rep (map slot fs) q f mq" "ms = map (msg_data mq) q" "flights_ok mq fs"
    by (auto simp: mq_state_inv_def)
  have q: "queued mq = q" by (rule mq_rep_queued [OF r(1)])
  have "\<forall>m d. Taken m d \<in> set fs \<longrightarrow> msg_data mq m = d" using r(3) unfolding flights_ok_def by force
  moreover have "mq_entry mq = 0 \<longleftrightarrow> ms = []" using r(1,2) by (auto simp: mq_rep_def unat_eq_0 [symmetric])
  moreover have "distinct (q @ f @ map slot fs)" "set (q @ f @ map slot fs) = {..<unat (max_msgs mq)}" using r(1) by (simp_all add: mq_rep_def)
  ultimately show ?thesis using r q mq_grab_None [OF r(1)] by (intro exI [of _ f]) (simp add: messages_def)
qed

theorem rt_mq_interleaving_safe_witness:
  "\<exists>mq. mq_step\<^sup>*\<^sup>* (small_queue, [], []) (mq, [Grabbed 1], []) \<and> queued mq = []"
proof -
  have "msg_queue_free small_queue = Some 1" by (simp add: small_queue_def mq_fields_def mq_link_free_def upt_rec)
  then have "mq_grab small_queue = Some (1, small_queue\<lparr>msg_queue_free := msg_next small_queue 1\<rparr>)" by (simp add: mq_grab_def)
  then have s: "mq_step\<^sup>*\<^sup>* (small_queue, [], []) (small_queue\<lparr>msg_queue_free := msg_next small_queue 1\<rparr>, [Grabbed 1], [])"
    by (intro r_into_rtranclp mq_step.grab)
  have "\<forall>m<unat (2 :: u16). length ([0, 0, 0, 0] :: u8 list) = unat (4 :: u16)" by simp
  from rt_mq_interleaving_safe [OF this s [unfolded small_queue_def]] s show ?thesis
    unfolding small_queue_def by (auto simp: messages_def)
qed

text \<open>A reset moves all messages to the free list; its loop ends.\<close>

lemma mq_release_all_spec:
  "mq_rep [] q f (mq\<lparr>mq_entry := of_nat (length q)\<rparr>) \<Longrightarrow> \<exists>mq'. mq_release_all mq = Some mq' \<and>
     mq_rep [] [] (rev q @ f) (mq'\<lparr>mq_entry := 0\<rparr>) \<and> max_msgs mq' = max_msgs mq"
proof (induction q arbitrary: f mq)
  case Nil
  then have "msg_queue_head mq = None" by (simp add: mq_rep_def)
  with Nil show ?case by (subst mq_release_all.simps) simp
next
  case (Cons m q)
  let ?mq = "mq\<lparr>mq_entry := of_nat (length (m # q))\<rparr>"
  define mq1 where "mq1 = mq\<lparr>msg_queue_head := msg_next mq m, msg_queue_tail := (if msg_queue_tail mq = Some m then None else msg_queue_tail mq)\<rparr>"
  have h: "msg_queue_head mq = Some m" using Cons.prems by (simp add: mq_rep_def)
  have "mq_take ?mq = Some (m, mq1\<lparr>mq_entry := of_nat (length q)\<rparr>)" using h by (simp add: mq_take_def mq1_def Let_def)
  with mq_take_rep [OF Cons.prems] have "mq_rep [m] q f (mq1\<lparr>mq_entry := of_nat (length q)\<rparr>)" by auto
  from mq_give_rep [OF this] have "mq_rep [] q (m # f) ((mq_give m mq1)\<lparr>mq_entry := of_nat (length q)\<rparr>)"
    by (cases mq1) (simp add: mq_give_def)
  from Cons.IH [OF this] obtain mq' where "mq_release_all (mq_give m mq1) = Some mq'"
    "mq_rep [] [] (rev q @ m # f) (mq'\<lparr>mq_entry := 0\<rparr>)" "max_msgs mq' = max_msgs (mq_give m mq1)" by blast
  moreover have "mq_release_all mq = mq_release_all (mq_give m mq1)"
    using h by (subst mq_release_all.simps) (simp add: mq1_def Let_def)
  ultimately show ?case by (simp add: mq1_def)
qed

text \<open>
  Resetting a message queue returns: the loop that empties the queue ends, every slot is free
  again, and every waiting receiver is made ready with its \<^verbatim>\<open>rt_mq_recv\<close> going to return \<^verbatim>\<open>-RT_ERROR\<close>.
\<close>

theorem rt_mq_reset_ends:
  assumes inv: "kinv 0 k" and c: "rt_current_thread k = Some c" and sr: "some_ready k" and mi: "mq_inv mq"
  shows "\<exists>mq' k'. rt_mq_control i (RT_IPC_CMD_RESET arg) mq k = Some (RT_EOK, mq', k') \<and> kinv 0 k' \<and> mq_inv mq' \<and> messages mq' = [] \<and>
     max_msgs mq' = max_msgs mq \<and> q_list k' (Wait i) = [] \<and>
     (\<forall>t\<in>set (q_list k (Wait i)). stat (threads k' t) = RT_THREAD_READY \<and> (\<forall>sz time d mq. rt_mq_recv_wake i sz (t, time, d) mq k' = Some (Ret (- RT_ERROR, None), mq, k')))"
proof -
  from rt_ipc_list_resume_all_spec [OF inv waiting_simps(1), of i] obtain k1 where
    k1: "rt_ipc_list_resume_all (Wait i) k = Some k1" "kinv 0 k1" "threads k1 = resumed_with_error k (Wait i)"
      "q_list k1 (Wait i) = []" "same_ctx k k1" by blast
  from sr obtain u where "stat (threads k u) = RT_THREAD_READY" by (auto simp: some_ready_def)
  then have "stat (threads k1 u) = RT_THREAD_READY" by (simp add: k1(3) resumed_with_error_def)
  then have "some_ready k1" by (auto simp: some_ready_def)
  then obtain k' where k': "rt_schedule k1 = Some k'" "same_data k1 k'" "kinv 0 k'"
    using kinv_schedule [OF k1(2)] k1(5) c by (metis same_ctx_def)
  from mq_inv_rep [OF mi] obtain q f where r: "mq_rep [] q f mq" by blast
  have "length q = unat (mq_entry mq)" using r by (simp add: mq_rep_def)
  then have "of_nat (length q) = mq_entry mq" by simp
  then have "mq_rep [] q f (mq\<lparr>mq_entry := of_nat (length q)\<rparr>)" using r by simp
  from mq_release_all_spec [OF this] obtain mq1 where m: "mq_release_all mq = Some mq1" "mq_rep [] [] (rev q @ f) (mq1\<lparr>mq_entry := 0\<rparr>)"
    "max_msgs mq1 = max_msgs mq" by blast
  have "rt_mq_control i (RT_IPC_CMD_RESET arg) mq k = Some (RT_EOK, mq1\<lparr>mq_entry := 0\<rparr>, k')"
    using k1(1) m(1) k'(1) by (simp add: rt_mq_control_def)
  moreover have "stat (threads k' t) = RT_THREAD_READY \<and> error (threads k' t) = - RT_ERROR" if "t \<in> set (q_list k (Wait i))" for t
    using that k'(2) k1(3) by (simp add: same_data_def resumed_with_error_def)
  moreover have "q_list k' (Wait i) = []" using k1(4) k'(2) by (simp add: same_data_def)
  ultimately show ?thesis using k'(3) mq_rep_inv [OF m(2)] m(3) by (auto simp: rt_mq_recv_wake_def)
qed

theorem rt_mq_reset_ends_witness:
  "\<exists>mq' k'. rt_mq_control 7 (RT_IPC_CMD_RESET 0) small_queue boot_kernel = Some (RT_EOK, mq', k') \<and> messages mq' = []"
  using rt_mq_reset_ends [OF boot_kernel(2,3) runningD(4) [OF boot_running] small_queue_inv(1), of 7 0] by auto

end
