(* ===== verification/MemPool.thy ===== *)
theory MemPool
  imports MsgQueue
begin

text \<open>
  Memory pools of blocks of one size, \<^verbatim>\<open>src/mempool.c\<close>, with the error number of \<^verbatim>\<open>src/kservice.c\<close> they
  set.  The threads that wait for a block of the pool \<open>i\<close> are on the list \<open>Wait i\<close>.
\<close>

unbundle bit_operations_syntax

section \<open>The error number\<close>

definition rt_get_errno :: "kernel \<Rightarrow> rt_err_t" where
  "rt_get_errno k =
     (if rt_interrupt_get_nest k \<noteq> 0 then rt_errno k
      else case rt_thread_self k of None \<Rightarrow> rt_errno k | Some tid \<Rightarrow> error (threads k tid))"

definition rt_set_errno :: "rt_err_t \<Rightarrow> kernel \<Rightarrow> kernel" where
  "rt_set_errno e k =
     (if rt_interrupt_get_nest k \<noteq> 0 then k\<lparr>rt_errno := e\<rparr>
      else case rt_thread_self k of None \<Rightarrow> k\<lparr>rt_errno := e\<rparr> | Some tid \<Rightarrow> upd_thread tid (\<lambda>th. th\<lparr>error := e\<rparr>) k)"

text \<open>\<^verbatim>\<open>_rt_errno\<close> gives the address of the number: that of the thread, or the variable.\<close>

definition rt_errno_location :: "kernel \<Rightarrow> tid option" where
  "rt_errno_location k = (if rt_interrupt_get_nest k \<noteq> 0 then None else rt_thread_self k)"

lemma rt_errno_roundtrip: "rt_get_errno (rt_set_errno e k) = e"
  by (auto simp: rt_get_errno_def rt_set_errno_def rt_interrupt_get_nest_def rt_thread_self_def split: option.split)

section \<open>The operations\<close>

text \<open>
  A block is named by its index in the pool.  Its header is the link to the next free block, or
  for a block in use the address of its pool.
\<close>

datatype block_header = Link "nat option" | Owner nat

record rt_mempool =
  mp_size :: u32
  block_size :: u32
  block_list :: "nat option"
  block_total_count :: u32
  block_free_count :: u32
  suspend_thread_count :: u32
  block_hdr :: "nat \<Rightarrow> block_header"

definition RT_ALIGN_DOWN :: "u32 \<Rightarrow> u32 \<Rightarrow> u32" where
  "RT_ALIGN_DOWN sz align = sz AND NOT (align - 1)"

text \<open>The loop that links the blocks, and the end of the list; without a block the last store would
  be before the pool.\<close>

definition mp_link_blocks :: "nat \<Rightarrow> (nat \<Rightarrow> block_header) \<Rightarrow> (nat \<Rightarrow> block_header) option" where
  "mp_link_blocks n hdr =
     do { let hdr = foldl (\<lambda>hdr offset. hdr(offset := Link (Some (offset + 1)))) hdr [0..<n];
          valid_access (0 < n);
          Some (hdr(n - 1 := Link None)) }"

definition rt_mp_init ::
  "nat \<Rightarrow> cstr \<Rightarrow> (nat \<Rightarrow> block_header) \<Rightarrow> u32 \<Rightarrow> u32 \<Rightarrow> kernel \<Rightarrow> (rt_err_t \<times> rt_mempool \<times> kernel) option" where
  "rt_mp_init i name start sz bsz k =
     do { os \<leftarrow> rt_object_init (OIpc i) RT_Object_Class_MemPool name (objs k);
          let k = k\<lparr>objs := os\<rparr>;
          let sz = RT_ALIGN_DOWN sz 4;
          let bsz = RT_ALIGN bsz 4;
          let total = sz div (bsz + 4);
          k \<leftarrow> rt_ipc_object_init i k;
          hdr \<leftarrow> mp_link_blocks (unat total) start;
          Some (RT_EOK, \<lparr>mp_size = sz, block_size = bsz, block_list = Some 0, block_total_count = total, block_free_count = total,
                  suspend_thread_count = 0, block_hdr = hdr\<rparr>, k) }"

text \<open>The loop of \<^verbatim>\<open>rt_mp_detach\<close> and \<^verbatim>\<open>rt_mp_delete\<close>.\<close>

partial_function (option) mp_wake_all :: "nat \<Rightarrow> rt_mempool \<Rightarrow> kernel \<Rightarrow> (rt_mempool \<times> kernel) option" where
  "mp_wake_all i mp k =
     (case q_list k (Wait i) of
        [] \<Rightarrow> Some (mp, k)
      | thread # _ \<Rightarrow>
          do { let k = upd_thread thread (\<lambda>th. th\<lparr>error := - RT_ERROR\<rparr>) k;
               (_, k) \<leftarrow> rt_thread_resume thread k;
               mp_wake_all i (mp\<lparr>suspend_thread_count := suspend_thread_count mp - 1\<rparr>) k })"

definition rt_mp_detach :: "nat \<Rightarrow> rt_mempool \<Rightarrow> kernel \<Rightarrow> (rt_err_t \<times> rt_mempool \<times> kernel) option" where
  "rt_mp_detach i mp k =
     do { (mp, k) \<leftarrow> mp_wake_all i mp k;
          Some (RT_EOK, mp, k\<lparr>objs := rt_object_detach (OIpc i) (objs k)\<rparr>) }"

text \<open>\<open>mem\<close> and \<open>pool\<close> are the outcomes of the two allocations.\<close>

definition rt_mp_create ::
  "nat option \<Rightarrow> (u32 \<Rightarrow> (nat \<Rightarrow> block_header) option) \<Rightarrow> cstr \<Rightarrow> u32 \<Rightarrow> u32 \<Rightarrow> kernel \<Rightarrow> ((nat \<times> rt_mempool) option \<times> kernel) option" where
  "rt_mp_create mem pool name block_count bsz k =
     do { not_in_interrupt k;
          (mp, os) \<leftarrow> rt_object_allocate (map_option OIpc mem) RT_Object_Class_MemPool name (objs k);
          let k = k\<lparr>objs := os\<rparr>;
          (case mem of
             None \<Rightarrow> Some (None, k)
           | Some i \<Rightarrow>
               do { let bsz = RT_ALIGN bsz 4;
                    (case pool ((bsz + 4) * block_count) of
                       None \<Rightarrow> do { os \<leftarrow> rt_object_delete (OIpc i) (objs k); Some (None, k\<lparr>objs := os\<rparr>) }
                     | Some start \<Rightarrow>
                         do { k \<leftarrow> rt_ipc_object_init i k;
                              hdr \<leftarrow> mp_link_blocks (unat block_count) start;
                              Some (Some (i, \<lparr>mp_size = (bsz + 4) * block_count, block_size = bsz, block_list = Some 0,
                                      block_total_count = block_count, block_free_count = block_count,
                                      suspend_thread_count = 0, block_hdr = hdr\<rparr>), k) }) }) }"

text \<open>The memory of the pool is given back; it is not looked at any more.\<close>

definition rt_mp_delete :: "nat \<Rightarrow> rt_mempool \<Rightarrow> kernel \<Rightarrow> (rt_err_t \<times> kernel) option" where
  "rt_mp_delete i mp k =
     do { not_in_interrupt k;
          (mp, k) \<leftarrow> mp_wake_all i mp k;
          os \<leftarrow> rt_object_delete (OIpc i) (objs k);
          Some (RT_EOK, k\<lparr>objs := os\<rparr>) }"

text \<open>Taking the first block of the list, whose header must be a link.\<close>

definition mp_take :: "nat \<Rightarrow> rt_mempool \<Rightarrow> (nat \<times> rt_mempool) option" where
  "mp_take i mp =
     do { let mp = mp\<lparr>block_free_count := block_free_count mp - 1\<rparr>;
          block_ptr \<leftarrow> block_list mp;
          (case block_hdr mp block_ptr of
             Link nxt \<Rightarrow> Some (block_ptr, mp\<lparr>block_list := nxt, block_hdr := (block_hdr mp)(block_ptr := Owner i)\<rparr>)
           | Owner _ \<Rightarrow> None) }"

definition mp_alloc_loop ::
  "nat \<Rightarrow> tid option \<Rightarrow> rt_int32_t \<Rightarrow> u32 \<Rightarrow> rt_mempool \<Rightarrow> kernel \<Rightarrow>
     ((nat option, wait_locals) outcome \<times> rt_mempool \<times> kernel) option" where
  "mp_alloc_loop i self time before_sleep mp k =
     (if block_free_count mp = 0 then
        (if time = 0 then Some (Ret None, mp, rt_set_errno (- RT_ETIMEOUT) k)
         else
           do { not_in_interrupt k;
                thread \<leftarrow> self;
                let k = upd_thread thread (\<lambda>th. th\<lparr>error := RT_EOK\<rparr>) k;
                (_, k) \<leftarrow> rt_thread_suspend thread k;
                Q \<leftarrow> fam_insert_after (Wait i) thread (queues k);
                let k = k\<lparr>queues := Q\<rparr>;
                let mp = mp\<lparr>suspend_thread_count := suspend_thread_count mp + 1\<rparr>;
                let before_sleep = (if 0 < sint time then rt_tick_get k else before_sleep);
                k \<leftarrow> timer_schedule time thread k;
                Some (Blocked (thread, time, before_sleep), mp, k) })
      else do { (block, mp) \<leftarrow> mp_take i mp;
                Some (Ret (Some block), mp, k) })"

definition rt_mp_alloc ::
  "nat \<Rightarrow> rt_int32_t \<Rightarrow> rt_mempool \<Rightarrow> kernel \<Rightarrow> ((nat option, wait_locals) outcome \<times> rt_mempool \<times> kernel) option" where
  "rt_mp_alloc i time mp k = mp_alloc_loop i (rt_thread_self k) time 0 mp k"

definition rt_mp_alloc_wake ::
  "nat \<Rightarrow> wait_locals \<Rightarrow> rt_mempool \<Rightarrow> kernel \<Rightarrow> ((nat option, wait_locals) outcome \<times> rt_mempool \<times> kernel) option" where
  "rt_mp_alloc_wake i = (\<lambda>(thread, time, before_sleep) mp k.
     if error (threads k thread) \<noteq> RT_EOK then Some (Ret None, mp, k)
     else mp_alloc_loop i (Some thread) (retry_time time before_sleep k) before_sleep mp k)"

text \<open>
  A block whose header is not the pool's address is no block in use.  With a positive count the first
  thread of the list is resumed: with nobody on the list there is none.
\<close>

definition rt_mp_free :: "nat \<Rightarrow> nat \<Rightarrow> rt_mempool \<Rightarrow> kernel \<Rightarrow> (rt_mempool \<times> kernel) option" where
  "rt_mp_free i block mp k =
     do { valid_access (block_hdr mp block = Owner i);
          let mp = mp\<lparr>block_free_count := block_free_count mp + 1\<rparr>;
          let mp = mp\<lparr>block_hdr := (block_hdr mp)(block := Link (block_list mp)), block_list := Some block\<rparr>;
          if suspend_thread_count mp > 0 then
            (case q_list k (Wait i) of
               [] \<Rightarrow> None
             | thread # _ \<Rightarrow>
                 do { let k = upd_thread thread (\<lambda>th. th\<lparr>error := RT_EOK\<rparr>) k;
                      (_, k) \<leftarrow> rt_thread_resume thread k;
                      let mp = mp\<lparr>suspend_thread_count := suspend_thread_count mp - 1\<rparr>;
                      k \<leftarrow> rt_schedule k;
                      Some (mp, k) })
          else Some (mp, k) }"

section \<open>The free list\<close>

definition mp_link :: "rt_mempool \<Rightarrow> nat \<Rightarrow> nat option" where
  "mp_link mp b = (case block_hdr mp b of Link p \<Rightarrow> p | Owner _ \<Rightarrow> None)"

text \<open>The free blocks are those on the list, every other block carries its pool's address.\<close>

definition mp_rep :: "nat \<Rightarrow> nat list \<Rightarrow> rt_mempool \<Rightarrow> bool" where
  "mp_rep i f mp \<longleftrightarrow> chain (mp_link mp) (block_list mp) f \<and> distinct f \<and> set f \<subseteq> {..<unat (block_total_count mp)} \<and>
     unat (block_free_count mp) = length f \<and> (\<forall>b\<in>set f. \<exists>p. block_hdr mp b = Link p) \<and>
     (\<forall>b<unat (block_total_count mp). b \<notin> set f \<longrightarrow> block_hdr mp b = Owner i)"

definition mp_used :: "nat \<Rightarrow> rt_mempool \<Rightarrow> nat set" where
  "mp_used i mp = {b. b < unat (block_total_count mp) \<and> block_hdr mp b = Owner i}"

lemma mp_used_rep: "mp_rep i f mp \<Longrightarrow> mp_used i mp = {..<unat (block_total_count mp)} - set f"
  by (force simp: mp_used_def mp_rep_def)

lemma mp_take_spec:
  assumes r: "mp_rep i (b # f) mp"
  shows "\<exists>mp'. mp_take i mp = Some (b, mp') \<and> mp_rep i f mp' \<and> block_total_count mp' = block_total_count mp \<and>
     suspend_thread_count mp' = suspend_thread_count mp \<and>
     mp'\<lparr>block_free_count := block_free_count mp' + 1, block_hdr := (block_hdr mp')(b := Link (block_list mp')), block_list := Some b\<rparr> = mp"
proof -
  obtain p where p: "block_hdr mp b = Link p" "block_list mp = Some b" using r by (auto simp: mp_rep_def)
  have c: "chain (mp_link mp) p f" "b \<notin> set f" using r p by (auto simp: mp_rep_def mp_link_def)
  define mp' where "mp' = mp\<lparr>block_free_count := block_free_count mp - 1, block_list := p, block_hdr := (block_hdr mp)(b := Owner i)\<rparr>"
  have "block_free_count mp \<noteq> 0" using r by (auto simp: mp_rep_def)
  then have n: "unat (block_free_count mp - 1) = length f" using r by (simp add: mp_rep_def unat_minus_one)
  have "mp_link mp' = (mp_link mp)(b := None)" by (auto simp: mp'_def mp_link_def fun_eq_iff)
  then have "chain (mp_link mp') p f" using c by simp
  then have "mp_rep i f mp'" using r n by (auto simp: mp_rep_def mp'_def)
  moreover have "mp_take i mp = Some (b, mp')" using p by (simp add: mp_take_def mp'_def Let_def)
  moreover have "mp'\<lparr>block_free_count := block_free_count mp' + 1, block_hdr := (block_hdr mp')(b := Link (block_list mp')), block_list := Some b\<rparr> = mp"
    using p by (cases mp) (auto simp: mp'_def fun_eq_iff)
  ultimately show ?thesis by (auto simp: mp'_def)
qed

text \<open>Putting a block in use back on the list.\<close>

definition mp_put :: "nat \<Rightarrow> rt_mempool \<Rightarrow> rt_mempool" where
  "mp_put b mp = mp\<lparr>block_free_count := block_free_count mp + 1, block_hdr := (block_hdr mp)(b := Link (block_list mp)), block_list := Some b\<rparr>"

lemma mp_put_sel [simp]:
  "block_total_count (mp_put b mp) = block_total_count mp" "suspend_thread_count (mp_put b mp) = suspend_thread_count mp"
  by (simp_all add: mp_put_def)

lemma mp_put_rep:
  assumes r: "mp_rep i f mp" and b: "b \<in> mp_used i mp"
  shows "mp_rep i (b # f) (mp_put b mp)"
proof -
  have bf: "b < unat (block_total_count mp)" "b \<notin> set f" "block_hdr mp b = Owner i" using b r mp_used_rep [OF r] by (auto simp: mp_used_def)
  have "length (b # f) = card (set (b # f))" using r bf by (simp add: mp_rep_def distinct_card)
  also have "\<dots> \<le> card {..<unat (block_total_count mp)}" using r bf by (intro card_mono) (auto simp: mp_rep_def)
  finally have l: "length f < unat (block_total_count mp)" by simp
  have "unat (block_total_count mp) < 4294967296" using unsigned_less [of "block_total_count mp", where ?'a = nat] by simp
  then have n: "unat (block_free_count mp + 1) = Suc (length f)" using r l by (simp add: mp_rep_def unat_word_ariths)
  have "mp_link (mp_put b mp) = (mp_link mp)(b := block_list mp)" by (auto simp: mp_put_def mp_link_def fun_eq_iff)
  then have "chain (mp_link (mp_put b mp)) (Some b) (b # f)" using r bf by (simp add: mp_rep_def)
  then show ?thesis using r bf n by (auto simp: mp_rep_def mp_put_def)
qed

lemma mp_link_blocks_spec:
  assumes "0 < n"
  shows "\<exists>hdr'. mp_link_blocks n hdr = Some hdr' \<and>
     chain (\<lambda>b. case hdr' b of Link p \<Rightarrow> p | Owner _ \<Rightarrow> None) (Some 0) [0..<n] \<and> (\<forall>b<n. \<exists>p. hdr' b = Link p)"
proof -
  define h where "h = foldl (\<lambda>hdr offset. hdr(offset := Link (Some (offset + 1)))) hdr [0..<n]"
  have h: "h b = (if b < n then Link (Some (b + 1)) else hdr b)" for b unfolding h_def by (induction n) auto
  define h' where "h' = h(n - 1 := Link None)"
  let ?nx = "\<lambda>b. case h' b of Link p \<Rightarrow> p | Owner _ \<Rightarrow> None"
  have nx: "?nx b = (if Suc b < n then Some (Suc b) else None)" if "b < n" for b using that h by (auto simp: h'_def)
  have "chain ?nx (if m < n then Some m else None) [m..<n]" for m
  proof (induction "n - m" arbitrary: m)
    case (Suc d)
    then have m: "m < n" by simp
    with Suc(1) [of "Suc m"] Suc(2) show ?case unfolding upt_conv_Cons [OF m] using nx [OF m] by simp
  qed simp
  from this [of 0] have "chain ?nx (Some 0) [0..<n]" using assms by simp
  moreover have "\<forall>b<n. \<exists>p. h' b = Link p" using h by (simp add: h'_def)
  moreover have "mp_link_blocks n hdr = Some h'" using assms by (simp add: mp_link_blocks_def h_def h'_def Let_def)
  ultimately show ?thesis by blast
qed

lemma rt_mp_init_rep:
  assumes "rt_mp_init i name start sz bsz k = Some (e, mp, k')"
  shows "e = RT_EOK \<and> mp_rep i [0..<unat (block_total_count mp)] mp \<and> suspend_thread_count mp = 0 \<and> q_list k' (Wait i) = []"
proof -
  from assms obtain hdr total where t: "0 < unat total" "mp_link_blocks (unat total) start = Some hdr" "total = RT_ALIGN_DOWN sz 4 div (RT_ALIGN bsz 4 + 4)"
    and mp: "e = RT_EOK" "mp = \<lparr>mp_size = RT_ALIGN_DOWN sz 4, block_size = RT_ALIGN bsz 4, block_list = Some 0, block_total_count = total, block_free_count = total,
                  suspend_thread_count = 0, block_hdr = hdr\<rparr>" and q: "q_list k' (Wait i) = []"
    by (auto simp: rt_mp_init_def Option.bind_eq_Some_conv Let_def mp_link_blocks_def rt_ipc_object_init_def)
  from mp_link_blocks_spec [OF t(1), of start] t(2) show ?thesis using mp q by (auto simp: mp_rep_def mp_link_def [abs_def])
qed


section \<open>Waiting for a block\<close>

lemma mp_block_spec:
  assumes run: "running k t" and tm: "time_ok time" and t0: "time \<noteq> 0" and n: "rt_interrupt_nest k = 0" and e: "block_free_count mp = 0"
  shows "\<exists>k'. mp_alloc_loop i (Some t) time d mp k = Some (Blocked (t, time, if 0 < sint time then rt_tick k else d),
       mp\<lparr>suspend_thread_count := suspend_thread_count mp + 1\<rparr>, k') \<and> kinv 0 k' \<and>
     threads k' = (threads k)(t := (threads k t)\<lparr>error := RT_EOK, stat := RT_THREAD_SUSPEND\<rparr>) \<and>
     q_list k' (Wait i) = t # q_list k (Wait i) \<and> (ThreadTimer t \<in> set (rt_timer_list k') \<longleftrightarrow> 0 < sint time) \<and> rt_current_thread k' \<noteq> None"
proof -
  let ?k1 = "upd_thread t (\<lambda>th. th\<lparr>error := RT_EOK\<rparr>) k"
  have inv1: "kinv 0 ?k1" by (rule kinv_upd_error [OF runningD(1) [OF run]])
  from runningD(5) [OF run] obtain u where u: "u \<noteq> t" "stat (threads k u) = RT_THREAD_READY" by blast
  have "stat (threads ?k1 t) = RT_THREAD_READY" using runningD(3) [OF run] by simp
  from rt_thread_suspend_spec [OF inv1 this] obtain k2 where k2: "rt_thread_suspend t ?k1 = Some (RT_EOK, k2)" and inv2: "kinv 0 k2"
    and th2: "threads k2 = (threads ?k1)(t := (threads ?k1 t)\<lparr>stat := RT_THREAD_SUSPEND\<rparr>)" and l2: "q_loc k2 t = None"
    and fr: "set (rt_timer_list k2) = set (rt_timer_list k)" "ThreadTimer t \<notin> set (rt_timer_list k)" "same_ctx ?k1 k2"
    and ql: "\<forall>q. q_list k2 q = remove1 t (q_list ?k1 q)" by auto
  have ql2: "q_list k2 (Wait i) = q_list k (Wait i)" using ql running_not_waiting [OF run waiting_simps(1)] by (simp add: remove1_idem)
  from kinv_but_insert_after [OF kinv_butD [OF inv2] _ l2, of "Wait i"] obtain Q where Q: "fam_insert_after (Wait i) t (queues k2) = Some Q"
    "kinv_but 0 t (k2\<lparr>queues := Q\<rparr>)" "fam_loc Q t = Some (Wait i)" "fam_list Q = (q_list k2)(Wait i := t # q_list k2 (Wait i))" by auto
  let ?k3 = "k2\<lparr>queues := Q\<rparr>"
  have inv3: "kinv 0 ?k3"
    using Q th2 fr kinv_live [OF inv2, of t] by (intro suspended_kinv [OF Q(2)]) (auto simp: thread_timer_ok_def)
  have s3: "rt_current_thread ?k3 = Some t" "stat (threads ?k3 t) = RT_THREAD_SUSPEND" "stat (threads ?k3 u) = RT_THREAD_READY"
    "ThreadTimer t \<notin> set (rt_timer_list ?k3)"
    using th2 u fr runningD(2) [OF run] by (simp_all add: same_ctx_def)
  from timer_schedule_spec [OF inv3 order_refl s3 tm] obtain k' where k': "timer_schedule time t ?k3 = Some k'" "kinv 0 k'" "queues k' = Q"
    "threads k' = threads k2" "ThreadTimer t \<in> set (rt_timer_list k') \<longleftrightarrow> 0 < sint time" "rt_current_thread k' \<noteq> None" by auto
  have "rt_tick ?k3 = rt_tick k" using fr(3) by (simp add: same_ctx_def)
  then have "mp_alloc_loop i (Some t) time d mp k = Some (Blocked (t, time, if 0 < sint time then rt_tick k else d),
       mp\<lparr>suspend_thread_count := suspend_thread_count mp + 1\<rparr>, k')"
    using e t0 n k2 Q(1) k'(1)
    by (simp add: mp_alloc_loop_def Let_def not_in_interrupt_def rt_interrupt_get_nest_def rt_tick_get_def)
  then show ?thesis using k' th2 Q(4) ql2 by simp
qed

section \<open>What a memory pool guarantees\<close>

definition mp_inv :: "nat \<Rightarrow> rt_mempool \<Rightarrow> kernel \<Rightarrow> bool" where
  "mp_inv i mp k \<longleftrightarrow> (\<exists>f. mp_rep i f mp) \<and> unat (suspend_thread_count mp) = length (q_list k (Wait i))"

lemma mp_free_count: "mp_rep i f mp \<Longrightarrow> block_free_count mp = 0 \<longleftrightarrow> f = []"
  by (auto simp: mp_rep_def unat_eq_0 [symmetric])

text \<open>
  C18: \<^verbatim>\<open>rt_mp_alloc\<close> in every branch: with a free block it returns one that nobody has, which is in use
  from then on; an exhausted pool gives \<^verbatim>\<open>RT_NULL\<close> and the error number \<^verbatim>\<open>-RT_ETIMEOUT\<close> without waiting
  time, and otherwise the caller waits, in front of those that waited before it.
\<close>

theorem rt_mp_alloc_correct:
  assumes run: "running k t" and mi: "mp_inv i mp k" and tm: "time_ok time" and n: "rt_interrupt_nest k = 0"
    and c: "unat (suspend_thread_count mp) < 2 ^ 32 - 1"
  shows "\<exists>out mp' k'. rt_mp_alloc i time mp k = Some (out, mp', k') \<and> kinv 0 k' \<and> mp_inv i mp' k' \<and>
     (if block_free_count mp \<noteq> 0
      then \<exists>b. out = Ret (Some b) \<and> b < unat (block_total_count mp) \<and> b \<notin> mp_used i mp \<and> mp_used i mp' = insert b (mp_used i mp) \<and> k' = k
      else mp_used i mp' = mp_used i mp \<and>
        (if time = 0 then out = Ret None \<and> rt_get_errno k' = - RT_ETIMEOUT
         else out = Blocked (t, time, if 0 < sint time then rt_tick k else 0) \<and> stat (threads k' t) = RT_THREAD_SUSPEND \<and>
              q_list k' (Wait i) = t # q_list k (Wait i)))"
proof -
  from mi obtain f where r: "mp_rep i f mp" and cnt: "unat (suspend_thread_count mp) = length (q_list k (Wait i))" by (auto simp: mp_inv_def)
  have self: "rt_thread_self k = Some t" using running_ctx [OF run n] by simp
  show ?thesis
  proof (cases f)
    case (Cons b f')
    from mp_take_spec [OF r [unfolded Cons]] obtain mp' where m: "mp_take i mp = Some (b, mp')" "mp_rep i f' mp'"
      "block_total_count mp' = block_total_count mp" "suspend_thread_count mp' = suspend_thread_count mp" by blast
    have "b < unat (block_total_count mp)" "b \<notin> set f'" using r Cons by (auto simp: mp_rep_def)
    then have "b \<notin> mp_used i mp \<and> mp_used i mp' = insert b (mp_used i mp)"
      using mp_used_rep [OF r] mp_used_rep [OF m(2)] m(3) Cons by auto
    then show ?thesis using m r Cons cnt \<open>b < _\<close> runningD(1) [OF run] mp_free_count [OF r]
      by (auto simp: rt_mp_alloc_def mp_alloc_loop_def mp_inv_def)
  next
    case Nil
    then have z: "block_free_count mp = 0" using mp_free_count [OF r] by simp
    show ?thesis
    proof (cases "time = 0")
      case True
      have "kinv 0 (rt_set_errno (- RT_ETIMEOUT) k)" "q_list (rt_set_errno (- RT_ETIMEOUT) k) = q_list k"
        using self n kinv_upd_error [OF runningD(1) [OF run]] by (simp_all add: rt_set_errno_def rt_interrupt_get_nest_def)
      with True z mi show ?thesis by (auto simp: rt_mp_alloc_def mp_alloc_loop_def mp_inv_def rt_errno_roundtrip)
    next
      case False
      from mp_block_spec [OF run tm False n z, of i 0] obtain k' where k':
        "mp_alloc_loop i (Some t) time 0 mp k = Some (Blocked (t, time, if 0 < sint time then rt_tick k else 0),
           mp\<lparr>suspend_thread_count := suspend_thread_count mp + 1\<rparr>, k')" "kinv 0 k'"
        "threads k' = (threads k)(t := (threads k t)\<lparr>error := RT_EOK, stat := RT_THREAD_SUSPEND\<rparr>)"
        "q_list k' (Wait i) = t # q_list k (Wait i)" by blast
      have "unat (suspend_thread_count mp + 1) = Suc (length (q_list k (Wait i)))" using c cnt by (simp add: unat_word_ariths)
      moreover have "mp_rep i f (mp\<lparr>suspend_thread_count := suspend_thread_count mp + 1\<rparr>)"
        using r by (simp add: mp_rep_def mp_link_def [abs_def])
      ultimately show ?thesis using k' False z self by (auto simp: rt_mp_alloc_def mp_inv_def mp_used_def)
    qed
  qed
qed

definition small_pool :: rt_mempool where
  "small_pool = \<lparr>mp_size = 24, block_size = 8, block_list = Some 0, block_total_count = 2, block_free_count = 2,
     suspend_thread_count = 0, block_hdr = (\<lambda>_. Owner 0)(0 := Link (Some 1), 1 := Link None)\<rparr>"

lemma small_pool_inv: "mp_inv 7 small_pool boot_kernel"
proof -
  have "mp_rep 7 [0, 1] small_pool" by (auto simp: mp_rep_def small_pool_def mp_link_def)
  then show ?thesis by (auto simp: mp_inv_def boot_no_waiters small_pool_def)
qed

theorem rt_mp_alloc_correct_witness:
  "\<exists>b mp'. rt_mp_alloc 7 RT_WAITING_NO small_pool boot_kernel = Some (Ret (Some b), mp', boot_kernel) \<and> b < 2"
proof -
  have "time_ok 0" by (simp add: time_ok_def)
  from rt_mp_alloc_correct [OF boot_running small_pool_inv this boot_kernel(11)] show ?thesis by (auto simp: small_pool_def)
qed

lemma rt_mp_free_put:
  "block_hdr mp b = Owner i \<Longrightarrow> rt_mp_free i b mp k =
     (if suspend_thread_count mp > 0 then
        (case q_list k (Wait i) of
           [] \<Rightarrow> None
         | thread # _ \<Rightarrow>
             do { let k = upd_thread thread (\<lambda>th. th\<lparr>error := RT_EOK\<rparr>) k;
                  (_, k) \<leftarrow> rt_thread_resume thread k;
                  let mp = (mp_put b mp)\<lparr>suspend_thread_count := suspend_thread_count mp - 1\<rparr>;
                  k \<leftarrow> rt_schedule k;
                  Some (mp, k) })
      else Some (mp_put b mp, k))"
  by (simp add: rt_mp_free_def mp_put_def Let_def split: list.split)


lemma mp_alloc_wake_takes:
  assumes r: "mp_rep i (b # f) mp" and e: "error (threads k t) = RT_EOK"
  shows "\<exists>mp'. rt_mp_alloc_wake i (t, time, d) mp k = Some (Ret (Some b), mp', k) \<and> mp_rep i f mp' \<and> block_total_count mp' = block_total_count mp"
  using mp_take_spec [OF r] mp_free_count [OF r] e by (auto simp: rt_mp_alloc_wake_def mp_alloc_loop_def)

text \<open>
  C19: \<^verbatim>\<open>rt_mp_free\<close> makes a block in use free again.  With a thread waiting, the first one is made
  ready, and its \<^verbatim>\<open>rt_mp_alloc\<close>, when it goes on, returns that very block; otherwise nothing else
  changes.
\<close>

theorem rt_mp_free_correct:
  assumes inv: "kinv 0 k" and c: "rt_current_thread k = Some c" and mi: "mp_inv i mp k" and b: "b \<in> mp_used i mp"
  shows "\<exists>mp' k'. rt_mp_free i b mp k = Some (mp', k') \<and> kinv 0 k' \<and> mp_inv i mp' k' \<and> mp_used i mp' = mp_used i mp - {b} \<and>
     (case q_list k (Wait i) of
        [] \<Rightarrow> k' = k
      | t # ts \<Rightarrow> q_list k' (Wait i) = ts \<and> stat (threads k' t) = RT_THREAD_READY \<and>
          (\<forall>time d. \<exists>mp''. rt_mp_alloc_wake i (t, time, d) mp' k' = Some (Ret (Some b), mp'', k') \<and> mp_used i mp'' = mp_used i mp))"
proof -
  from mi obtain f where r: "mp_rep i f mp" and cnt: "unat (suspend_thread_count mp) = length (q_list k (Wait i))" by (auto simp: mp_inv_def)
  have p: "mp_rep i (b # f) (mp_put b mp)" by (rule mp_put_rep [OF r b])
  have o: "block_hdr mp b = Owner i" using b by (simp add: mp_used_def)
  have u: "mp_used i (mp_put b mp) = mp_used i mp - {b}" using mp_used_rep [OF r] mp_used_rep [OF p] by auto
  show ?thesis
  proof (cases "q_list k (Wait i)")
    case Nil
    then have "suspend_thread_count mp = 0" using cnt by (simp add: unat_eq_0)
    with Nil o p u inv cnt show ?thesis by (auto simp: rt_mp_free_put mp_inv_def)
  next
    case (Cons t ts)
    let ?k1 = "upd_thread t (\<lambda>th. th\<lparr>error := RT_EOK\<rparr>) k"
    let ?mp = "(mp_put b mp)\<lparr>suspend_thread_count := suspend_thread_count mp - 1\<rparr>"
    have "suspend_thread_count mp \<noteq> 0" using cnt Cons by auto
    then have s: "0 < suspend_thread_count mp" "unat (suspend_thread_count mp - 1) = length ts"
      using cnt Cons by (simp_all add: word_gt_0 unat_minus_one)
    have l1: "q_list ?k1 (Wait i) = t # ts" "rt_current_thread ?k1 = Some c" using Cons c by simp_all
    from wake_schedule_spec [OF kinv_upd_error [OF inv] waiting_simps(1) l1] obtain k2 k' where
      k': "rt_ipc_list_resume (Wait i) ?k1 = Some k2" "rt_schedule k2 = Some k'" "kinv 0 k'"
        "threads k' = (threads ?k1)(t := (threads ?k1 t)\<lparr>stat := RT_THREAD_READY\<rparr>)" "q_list k' (Wait i) = ts" by blast
    then obtain e where "rt_thread_resume t ?k1 = Some (e, k2)"
      using l1(1) by (auto simp: rt_ipc_list_resume_def Option.bind_eq_Some_conv)
    then have fr: "rt_mp_free i b mp k = Some (?mp, k')" using o s Cons k'(2) by (simp add: rt_mp_free_put)
    have p': "mp_rep i (b # f) ?mp" using p by (simp add: mp_rep_def mp_link_def [abs_def])
    have "error (threads k' t) = RT_EOK" using k'(4) by simp
    from mp_alloc_wake_takes [OF p' this] have
      "\<exists>mp''. rt_mp_alloc_wake i (t, time, d) ?mp k' = Some (Ret (Some b), mp'', k') \<and> mp_used i mp'' = mp_used i mp" for time d
      using mp_used_rep [of i f] mp_used_rep [OF r] by force
    moreover have "mp_inv i ?mp k'" using p' s k'(5) by (auto simp: mp_inv_def)
    moreover have "mp_used i ?mp = mp_used i mp - {b}" using u by (simp add: mp_used_def)
    ultimately show ?thesis using fr k' Cons by auto
  qed
qed

text \<open>An exhausted pool with one block.\<close>

definition used_pool :: rt_mempool where
  "used_pool = \<lparr>mp_size = 12, block_size = 8, block_list = None, block_total_count = 1, block_free_count = 0,
     suspend_thread_count = 0, block_hdr = (\<lambda>_. Owner 7)\<rparr>"

lemma used_pool_facts: "mp_rep 7 [] used_pool" "block_free_count used_pool = 0" "suspend_thread_count used_pool = 0"
  by (auto simp: mp_rep_def used_pool_def)

lemma used_pool_waiter:
  "\<exists>k. rt_mp_alloc 7 RT_WAITING_FOREVER used_pool boot_kernel = Some (Blocked (2, RT_WAITING_FOREVER, 0), used_pool\<lparr>suspend_thread_count := 1\<rparr>, k) \<and>
     kinv 0 k \<and> q_list k (Wait 7) = [2] \<and> ThreadTimer 2 \<notin> set (rt_timer_list k) \<and> rt_current_thread k \<noteq> None \<and>
     mp_inv 7 (used_pool\<lparr>suspend_thread_count := 1\<rparr>) k"
proof -
  have tm: "time_ok RT_WAITING_FOREVER" "RT_WAITING_FOREVER \<noteq> (0 :: rt_int32_t)" "\<not> 0 < sint (RT_WAITING_FOREVER :: rt_int32_t)"
    by (simp_all add: time_ok_def)
  from mp_block_spec [OF boot_running tm(1,2) boot_kernel(11) used_pool_facts(2), of 7 0] tm(3) obtain k where
    k: "mp_alloc_loop 7 (Some 2) RT_WAITING_FOREVER 0 used_pool boot_kernel =
        Some (Blocked (2, RT_WAITING_FOREVER, 0), used_pool\<lparr>suspend_thread_count := 1\<rparr>, k)" "kinv 0 k" "q_list k (Wait 7) = [2]"
      "ThreadTimer 2 \<notin> set (rt_timer_list k)" "rt_current_thread k \<noteq> None"
    by (auto simp: boot_no_waiters used_pool_facts)
  have "mp_rep 7 [] (used_pool\<lparr>suspend_thread_count := 1\<rparr>)" using used_pool_facts(1) by (simp add: mp_rep_def)
  then have "mp_inv 7 (used_pool\<lparr>suspend_thread_count := 1\<rparr>) k" using k(3) by (auto simp: mp_inv_def)
  then show ?thesis using k running_ctx [OF boot_running boot_kernel(11)] by (auto simp: rt_mp_alloc_def)
qed

theorem rt_mp_free_correct_witness:
  "\<exists>wl mp k mp' k' mp''. rt_mp_alloc 7 RT_WAITING_FOREVER used_pool boot_kernel = Some (Blocked wl, mp, k) \<and>
     rt_mp_free 7 0 mp k = Some (mp', k') \<and> rt_mp_alloc_wake 7 wl mp' k' = Some (Ret (Some 0), mp'', k')"
proof -
  let ?mp = "used_pool\<lparr>suspend_thread_count := 1\<rparr>"
  from used_pool_waiter obtain k where k: "rt_mp_alloc 7 RT_WAITING_FOREVER used_pool boot_kernel = Some (Blocked (2, RT_WAITING_FOREVER, 0), ?mp, k)"
    "kinv 0 k" "q_list k (Wait 7) = [2]" "rt_current_thread k \<noteq> None" "mp_inv 7 ?mp k" by blast
  have "0 \<in> mp_used 7 ?mp" by (simp add: mp_used_def used_pool_def)
  moreover from k(4) obtain c where "rt_current_thread k = Some c" by blast
  ultimately obtain mp' k' where "rt_mp_free 7 0 ?mp k = Some (mp', k')"
    "\<forall>time d. \<exists>mp''. rt_mp_alloc_wake 7 (2, time, d) mp' k' = Some (Ret (Some 0), mp'', k') \<and> mp_used 7 mp'' = mp_used 7 ?mp"
    using rt_mp_free_correct [OF k(2) _ k(5), of c 0] k(3) by auto
  with k(1) show ?thesis by blast
qed

text \<open>
  When the waiting time of the only waiter runs out, it leaves the list but not the count of
  the waiters: its \<^verbatim>\<open>rt_mp_alloc\<close> returns \<^verbatim>\<open>RT_NULL\<close>, the pool's invariant is broken, and the next
  \<^verbatim>\<open>rt_mp_free\<close> of any block resumes the head of an empty list as if it were a thread.
\<close>

theorem rt_mp_timeout_breaks_free:
  assumes inv: "kinv 0 k" and c: "rt_current_thread k = Some c" and mi: "mp_inv i mp k" and w: "q_list k (Wait i) = [t]"
    and off: "ThreadTimer t \<notin> set (rt_timer_list k)" and b: "b \<in> mp_used i mp"
  shows "\<exists>k'. rt_thread_timeout t k = Some k' \<and> kinv 0 k' \<and> rt_mp_alloc_wake i (t, time, d) mp k' = Some (Ret None, mp, k') \<and>
     q_list k' (Wait i) = [] \<and> \<not> mp_inv i mp k' \<and> rt_mp_free i b mp k' = None"
proof -
  have s: "stat (threads k t) = RT_THREAD_SUSPEND" using waiting_suspended [OF inv waiting_simps(1), of t i] w by simp
  from rt_thread_timeout_spec [OF inv s off c] obtain k' where k': "rt_thread_timeout t k = Some k'" "kinv 0 k'"
    "threads k' = (threads k)(t := (threads k t)\<lparr>error := - RT_ETIMEOUT, stat := RT_THREAD_READY\<rparr>)"
    "\<forall>q. q_list k' q = (if q = Ready (prio k t) then q_list k q @ [t] else remove1 t (q_list k q))" by blast
  have l: "q_list k' (Wait i) = []" using k'(4) w by simp
  have n: "unat (suspend_thread_count mp) = 1" using mi w by (simp add: mp_inv_def)
  then have "0 < suspend_thread_count mp" by (metis unat_0 word_gt_0 zero_neq_one)
  moreover have "block_hdr mp b = Owner i" using b by (simp add: mp_used_def)
  ultimately have "rt_mp_free i b mp k' = None" using l by (simp add: rt_mp_free_put)
  moreover have "rt_mp_alloc_wake i (t, time, d) mp k' = Some (Ret None, mp, k')" using k'(3) by (simp add: rt_mp_alloc_wake_def)
  moreover have "\<not> mp_inv i mp k'" using n l by (simp add: mp_inv_def)
  ultimately show ?thesis using k' l by blast
qed

theorem rt_mp_timeout_breaks_free_witness:
  "\<exists>wl mp k k'. rt_mp_alloc 7 RT_WAITING_FOREVER used_pool boot_kernel = Some (Blocked wl, mp, k) \<and>
     rt_thread_timeout 2 k = Some k' \<and> rt_mp_free 7 0 mp k' = None"
proof -
  let ?mp = "used_pool\<lparr>suspend_thread_count := 1\<rparr>"
  from used_pool_waiter obtain k where k: "rt_mp_alloc 7 RT_WAITING_FOREVER used_pool boot_kernel = Some (Blocked (2, RT_WAITING_FOREVER, 0), ?mp, k)"
    "kinv 0 k" "q_list k (Wait 7) = [2]" "ThreadTimer 2 \<notin> set (rt_timer_list k)" "rt_current_thread k \<noteq> None" "mp_inv 7 ?mp k" by blast
  have b: "0 \<in> mp_used 7 ?mp" by (simp add: mp_used_def used_pool_def)
  from k(5) obtain c where "rt_current_thread k = Some c" by blast
  from rt_mp_timeout_breaks_free [OF k(2) this k(6,3,4) b] k(1) show ?thesis by blast
qed

end
