(* ===== verification/Bytes.thy ===== *)
theory Bytes
  imports Prelude
begin

text \<open>
  Byte-addressed memory and the little-endian 16- and 32-bit numbers in it, as the structures the
  allocator keeps between the blocks of its memory are laid out.
\<close>

unbundle bit_operations_syntax

type_synonym bytes = "nat \<Rightarrow> u8"

definition get16 :: "bytes \<Rightarrow> nat \<Rightarrow> u16" where
  "get16 m a = ucast (m a) OR push_bit 8 (ucast (m (a + 1)))"

definition put16 :: "nat \<Rightarrow> u16 \<Rightarrow> bytes \<Rightarrow> bytes" where
  "put16 a v m = m(a := ucast v, a + 1 := ucast (drop_bit 8 v))"

definition get32 :: "bytes \<Rightarrow> nat \<Rightarrow> u32" where
  "get32 m a = ucast (get16 m a) OR push_bit 16 (ucast (get16 m (a + 2)))"

definition put32 :: "nat \<Rightarrow> u32 \<Rightarrow> bytes \<Rightarrow> bytes" where
  "put32 a v m = put16 (a + 2) (ucast (drop_bit 16 v)) (put16 a (ucast v) m)"

section \<open>Reading what was written\<close>

lemma split_word:
  "(ucast (ucast v :: u8) OR push_bit 8 (ucast (ucast (drop_bit 8 v) :: u8)) :: u16) = (v :: u16)"
  "(ucast (ucast w :: u16) OR push_bit 16 (ucast (ucast (drop_bit 16 w) :: u16)) :: u32) = (w :: u32)"
  by (rule bit_eqI; auto simp: bit_simps not_less)+

lemma get16_put16 [simp]:
  "get16 (put16 a v m) a = v"
  "a + 2 \<le> b \<or> b + 2 \<le> a \<Longrightarrow> get16 (put16 b v m) a = get16 m a"
  by (auto simp: get16_def put16_def split_word)

lemma get32_put32 [simp]:
  "get32 (put32 a v m) a = v"
  "a + 4 \<le> b \<or> b + 4 \<le> a \<Longrightarrow> get32 (put32 b v m) a = get32 m a"
  by (auto simp: get32_def put32_def split_word)

lemma get16_put32 [simp]: "a + 2 \<le> b \<or> b + 4 \<le> a \<Longrightarrow> get16 (put32 b v m) a = get16 m a"
  by (auto simp: put32_def)

lemma get32_put16 [simp]: "a + 4 \<le> b \<or> b + 2 \<le> a \<Longrightarrow> get32 (put16 b v m) a = get32 m a"
  by (auto simp: get32_def)

text \<open>Writing changes the bytes of the number only.\<close>

lemma put16_other [simp]: "i < a \<or> a + 2 \<le> i \<Longrightarrow> put16 a v m i = m i"
  by (auto simp: put16_def)

lemma put32_other [simp]: "i < a \<or> a + 4 \<le> i \<Longrightarrow> put32 a v m i = m i"
  by (auto simp: put32_def)

lemma get16_cong: "m a = m' a \<Longrightarrow> m (a + 1) = m' (a + 1) \<Longrightarrow> get16 m a = get16 m' a"
  by (simp add: get16_def)

lemma get32_cong: "(\<And>i. a \<le> i \<Longrightarrow> i < a + 4 \<Longrightarrow> m i = m' i) \<Longrightarrow> get32 m a = get32 m' a"
  by (simp add: get32_def get16_def)

end
