(* ===== verification/KMemory.thy ===== *)
theory KMemory
  imports Bytes
begin

text \<open>
  The memory routines of \<^verbatim>\<open>src/kservice.c\<close>: setting, copying, moving and comparing blocks of bytes, the
  first two a word or four words at a time where the addresses allow it (the version without
  \<^verbatim>\<open>RT_TINY_SIZE\<close>).  Each is equal to a byte-wise description of its effect.
\<close>

unbundle bit_operations_syntax

section \<open>The operations\<close>

text \<open>The byte-wise loop at the end of \<^verbatim>\<open>rt_memset\<close>.\<close>

fun set_bytes :: "nat \<Rightarrow> u32 \<Rightarrow> nat \<Rightarrow> bytes \<Rightarrow> bytes" where
  "set_bytes s d 0 m = m"
| "set_bytes s d (Suc n) m = set_bytes (s + 1) d n (m(s := ucast d))"

text \<open>The loops over single words and over four words; they return the rest of the count and the
  address reached.\<close>

fun set_words :: "nat \<Rightarrow> u32 \<Rightarrow> nat \<Rightarrow> bytes \<Rightarrow> nat \<times> nat \<times> bytes" where
  "set_words s b n m =
     (if n \<ge> 4 then set_words (s + 4) b (n - 4) (put32 s b m) else (s, n, m))"

fun set_quads :: "nat \<Rightarrow> u32 \<Rightarrow> nat \<Rightarrow> bytes \<Rightarrow> nat \<times> nat \<times> bytes" where
  "set_quads s b n m =
     (if n \<ge> 16
      then set_quads (s + 16) b (n - 16) (put32 (s + 12) b (put32 (s + 8) b (put32 (s + 4) b (put32 s b m))))
      else (s, n, m))"

definition rt_memset :: "nat \<Rightarrow> u32 \<Rightarrow> nat \<Rightarrow> bytes \<Rightarrow> bytes" where
  "rt_memset s c count m =
     (let d = c AND 0xff in
      if \<not> count < 4 \<and> s mod 4 = 0 then
        let buffer = push_bit 8 d OR d;
            buffer = buffer OR push_bit 16 buffer;
            (a, count, m) = set_quads s buffer count m;
            (a, count, m) = set_words a buffer count m
        in set_bytes a d count m
      else set_bytes s d count m)"

fun copy_bytes :: "nat \<Rightarrow> nat \<Rightarrow> nat \<Rightarrow> bytes \<Rightarrow> bytes" where
  "copy_bytes d s 0 m = m"
| "copy_bytes d s (Suc n) m = copy_bytes (d + 1) (s + 1) n (m(d := m s))"

text \<open>\<^verbatim>\<open>*aligned_dst = *aligned_src\<close>\<close>

definition copy_word :: "nat \<Rightarrow> nat \<Rightarrow> bytes \<Rightarrow> bytes" where
  "copy_word d s m = put32 d (get32 m s) m"

fun copy_words :: "nat \<Rightarrow> nat \<Rightarrow> nat \<Rightarrow> bytes \<Rightarrow> nat \<times> nat \<times> nat \<times> bytes" where
  "copy_words d s n m =
     (if n \<ge> 4 then copy_words (d + 4) (s + 4) (n - 4) (copy_word d s m) else (d, s, n, m))"

fun copy_quads :: "nat \<Rightarrow> nat \<Rightarrow> nat \<Rightarrow> bytes \<Rightarrow> nat \<times> nat \<times> nat \<times> bytes" where
  "copy_quads d s n m =
     (if n \<ge> 16
      then copy_quads (d + 16) (s + 16) (n - 16)
        (copy_word (d + 12) (s + 12) (copy_word (d + 8) (s + 8) (copy_word (d + 4) (s + 4) (copy_word d s m))))
      else (d, s, n, m))"

definition rt_memcpy :: "nat \<Rightarrow> nat \<Rightarrow> nat \<Rightarrow> bytes \<Rightarrow> bytes" where
  "rt_memcpy d s count m =
     (if \<not> count < 16 \<and> s mod 4 = 0 \<and> d mod 4 = 0 then
        let (d, s, len, m) = copy_quads d s count m;
            (d, s, len, m) = copy_words d s len m
        in copy_bytes d s len m
      else copy_bytes d s count m)"

text \<open>The loop that goes down from the end, for a destination that begins inside the source.\<close>

fun copy_down :: "nat \<Rightarrow> nat \<Rightarrow> nat \<Rightarrow> bytes \<Rightarrow> bytes" where
  "copy_down d s 0 m = m"
| "copy_down d s (Suc n) m = copy_down d s n (m(d + n := m (s + n)))"

definition rt_memmove :: "nat \<Rightarrow> nat \<Rightarrow> nat \<Rightarrow> bytes \<Rightarrow> bytes" where
  "rt_memmove d s n m =
     (if s < d \<and> d < s + n then copy_down d s n m else copy_bytes d s n m)"

fun rt_memcmp :: "nat \<Rightarrow> nat \<Rightarrow> nat \<Rightarrow> bytes \<Rightarrow> int" where
  "rt_memcmp cs ct 0 m = 0"
| "rt_memcmp cs ct (Suc n) m =
     (let res = uint (m cs) - uint (m ct)
      in if res \<noteq> 0 then res else rt_memcmp (cs + 1) (ct + 1) n m)"

declare set_words.simps [simp del] set_quads.simps [simp del] copy_words.simps [simp del] copy_quads.simps [simp del]

section \<open>The effect on the bytes\<close>

definition filled :: "nat \<Rightarrow> u8 \<Rightarrow> nat \<Rightarrow> bytes \<Rightarrow> bytes" where
  "filled s v n m = (\<lambda>i. if s \<le> i \<and> i < s + n then v else m i)"

definition copied :: "nat \<Rightarrow> nat \<Rightarrow> nat \<Rightarrow> bytes \<Rightarrow> bytes" where
  "copied d s n m = (\<lambda>i. if d \<le> i \<and> i < d + n then m (s + (i - d)) else m i)"

lemma filled_simps:
  "filled s v 0 m = m" "m(s := v) = filled s v 1 m"
  "filled (s + a) v b (filled s v a m) = filled s v (a + b) m"
  by (auto simp: filled_def fun_eq_iff)

lemma set_bytes_filled: "set_bytes s d n m = filled s (ucast d) n m"
proof (induction s d n m rule: set_bytes.induct)
  case (2 s d n m)
  then show ?case using filled_simps(3) [of s 1 "ucast d" n m] by (simp add: filled_simps(2) del: fun_upd_apply)
qed (simp add: filled_simps)

lemma put32_bytes:
  "put32 a v m i = (if i = a then ucast v else if i = a + 1 then ucast (drop_bit 8 v)
     else if i = a + 2 then ucast (drop_bit 16 v) else if i = a + 3 then ucast (drop_bit 24 v) else m i)"
proof -
  have "(ucast (ucast v :: u16) :: u8) = ucast v" "(ucast (ucast (drop_bit 16 v) :: u16) :: u8) = ucast (drop_bit 16 v)"
    "(ucast (drop_bit 8 (ucast v :: u16)) :: u8) = ucast (drop_bit 8 v)"
    "(ucast (drop_bit 8 (ucast (drop_bit 16 v) :: u16)) :: u8) = ucast (drop_bit 24 v)"
    by (rule bit_eqI; auto simp: bit_simps add.commute add.left_commute)+
  then show ?thesis by (auto simp: put32_def put16_def)
qed

lemma buffer_bytes:
  fixes c :: u32
  defines "d \<equiv> c AND 0xff"
  defines "b \<equiv> (push_bit 8 d OR d) OR push_bit 16 (push_bit 8 d OR d)"
  shows "(ucast b :: u8) = ucast c" "(ucast (drop_bit 8 b) :: u8) = ucast c"
    "(ucast (drop_bit 16 b) :: u8) = ucast c" "(ucast (drop_bit 24 b) :: u8) = ucast c" "(ucast d :: u8) = ucast c"
proof -
  have d: "d = c AND mask 8" by (simp add: d_def mask_eq_exp_minus_1)
  have m: "bit d n \<longleftrightarrow> n < 8 \<and> bit c n" for n
    unfolding d by (auto simp: bit_and_iff bit_mask_iff dest: bit_imp_le_length)
  show "(ucast b :: u8) = ucast c" "(ucast (drop_bit 8 b) :: u8) = ucast c"
    "(ucast (drop_bit 16 b) :: u8) = ucast c" "(ucast (drop_bit 24 b) :: u8) = ucast c" "(ucast d :: u8) = ucast c"
    unfolding b_def by (rule bit_eqI; auto simp: bit_simps m)+
qed

definition all_bytes :: "u32 \<Rightarrow> u8 \<Rightarrow> bool" where
  "all_bytes b v \<longleftrightarrow> ucast b = v \<and> ucast (drop_bit 8 b) = v \<and> ucast (drop_bit 16 b) = v \<and> ucast (drop_bit 24 b) = v"

lemma put32_filled: "all_bytes b v \<Longrightarrow> put32 a b m = filled a v 4 m"
  by (rule ext) (auto simp: put32_bytes filled_def all_bytes_def)

lemma set_words_filled:
  assumes "all_bytes b v"
  shows "\<exists>k \<le> n. set_words s b n m = (s + k, n - k, filled s v k m)"
proof (induction n arbitrary: s m rule: less_induct)
  case (less n)
  show ?case
  proof (cases "n \<ge> 4")
    case True
    then obtain k where "k \<le> n - 4"
      "set_words (s + 4) b (n - 4) (put32 s b m) = (s + 4 + k, n - 4 - k, filled (s + 4) v k (put32 s b m))"
      using less [of "n - 4" "s + 4" "put32 s b m"] by fastforce
    with True show ?thesis
      by (intro exI [of _ "4 + k"]) (simp add: set_words.simps [of s] put32_filled [OF assms] filled_simps(3))
  qed (simp add: set_words.simps filled_simps)
qed

lemma set_quads_filled:
  assumes "all_bytes b v"
  shows "\<exists>k \<le> n. set_quads s b n m = (s + k, n - k, filled s v k m)"
proof (induction n arbitrary: s m rule: less_induct)
  case (less n)
  show ?case
  proof (cases "n \<ge> 16")
    case True
    let ?m = "put32 (s + 12) b (put32 (s + 8) b (put32 (s + 4) b (put32 s b m)))"
    from True obtain k where "k \<le> n - 16" "set_quads (s + 16) b (n - 16) ?m = (s + 16 + k, n - 16 - k, filled (s + 16) v k ?m)"
      using less [of "n - 16" "s + 16" ?m] by fastforce
    moreover have "?m = filled s v 16 m"
      using filled_simps(3) [of s 4 v 4 m] filled_simps(3) [of s 8 v 4 m] filled_simps(3) [of s 12 v 4 m]
      by (simp add: put32_filled [OF assms])
    ultimately show ?thesis using True
      by (intro exI [of _ "16 + k"]) (simp add: set_quads.simps [of s] filled_simps(3))
  qed (simp add: set_quads.simps filled_simps)
qed

lemma rt_memset_filled: "rt_memset s c n m = filled s (ucast c) n m"
proof (cases "\<not> n < 4 \<and> s mod 4 = 0")
  case True
  define d where "d = c AND 0xff"
  define b where "b = (push_bit 8 d OR d) OR push_bit 16 (push_bit 8 d OR d)"
  have b: "all_bytes b (ucast c)" "(ucast d :: u8) = ucast c"
    using buffer_bytes [of c] by (simp_all add: all_bytes_def b_def d_def)
  obtain i where i: "i \<le> n" "set_quads s b n m = (s + i, n - i, filled s (ucast c) i m)"
    using set_quads_filled [OF b(1)] by blast
  obtain j where j: "j \<le> n - i" "set_words (s + i) b (n - i) (filled s (ucast c) i m) =
      (s + i + j, n - i - j, filled (s + i) (ucast c) j (filled s (ucast c) i m))"
    using set_words_filled [OF b(1)] by blast
  have "rt_memset s c n m = (let (a, count, m) = set_quads s b n m; (a, count, m) = set_words a b count m
      in set_bytes a d count m)"
    using True unfolding b_def d_def rt_memset_def Let_def by (simp only: simp_thms if_True)
  also have "\<dots> = set_bytes (s + i + j) d (n - i - j) (filled s (ucast c) (i + j) m)"
    using i j by (simp add: filled_simps(3))
  also have "\<dots> = filled s (ucast c) n m"
    using i j filled_simps(3) [of s "i + j" "ucast c" "n - i - j" m] by (simp add: set_bytes_filled b add.assoc)
  finally show ?thesis .
next
  case False
  then have "rt_memset s c n m = set_bytes s (c AND 0xff) n m"
    unfolding rt_memset_def Let_def by (simp only: if_False)
  then show ?thesis by (simp add: set_bytes_filled buffer_bytes)
qed

section \<open>Copying\<close>

lemma copied_simps:
  "copied d s 0 m = m" "m(d := m s) = copied d s 1 m"
  "d \<le> s \<or> s + a + b \<le> d \<Longrightarrow> copied (d + a) (s + a) b (copied d s a m) = copied d s (a + b) m"
  by (auto simp: copied_def fun_eq_iff)

lemma copy_bytes_copied: "d \<le> s \<or> s + n \<le> d \<Longrightarrow> copy_bytes d s n m = copied d s n m"
proof (induction d s n m rule: copy_bytes.induct)
  case (2 d s n m)
  then show ?case using copied_simps(3) [of d s 1 n m] by (auto simp: copied_simps(2) simp del: fun_upd_apply)
qed (simp add: copied_simps)

lemma copy_down_copied: "s \<le> d \<Longrightarrow> copy_down d s n m = copied d s n m"
proof (induction n arbitrary: m)
  case (Suc n)
  then show ?case by (auto simp: copied_def fun_eq_iff)
qed (simp add: copied_simps)

lemma copy_word_copied: "copy_word d s m = copied d s 4 m"
proof -
  have "(ucast (get32 m s) :: u8) = m s" "(ucast (drop_bit 8 (get32 m s)) :: u8) = m (s + 1)"
    "(ucast (drop_bit 16 (get32 m s)) :: u8) = m (s + 2)" "(ucast (drop_bit 24 (get32 m s)) :: u8) = m (Suc (s + 2))"
    by (rule bit_eqI; auto simp: bit_simps get32_def get16_def dest: bit_imp_le_length)+
  then show ?thesis
    by (intro ext) (auto simp: copy_word_def put32_bytes copied_def not_less less_Suc_eq numeral_eq_Suc)
qed

lemma copy_words_copied:
  assumes "d \<le> s \<or> s + n \<le> d"
  shows "\<exists>k \<le> n. copy_words d s n m = (d + k, s + k, n - k, copied d s k m)"
  using assms
proof (induction n arbitrary: d s m rule: less_induct)
  case (less n)
  show ?case
  proof (cases "n \<ge> 4")
    case True
    then obtain k where k: "k \<le> n - 4" "copy_words (d + 4) (s + 4) (n - 4) (copied d s 4 m) =
        (d + 4 + k, s + 4 + k, n - 4 - k, copied (d + 4) (s + 4) k (copied d s 4 m))"
      using less(1) [of "n - 4" "d + 4" "s + 4" "copied d s 4 m"] less(2) by fastforce
    have "copied (d + 4) (s + 4) k (copied d s 4 m) = copied d s (4 + k) m"
      using less(2) k True by (intro copied_simps(3)) auto
    with True k show ?thesis
      by (intro exI [of _ "4 + k"]) (simp add: copy_words.simps [of d] copy_word_copied)
  qed (simp add: copy_words.simps copied_simps)
qed

lemma copy_quads_copied:
  assumes "d \<le> s \<or> s + n \<le> d"
  shows "\<exists>k \<le> n. copy_quads d s n m = (d + k, s + k, n - k, copied d s k m)"
  using assms
proof (induction n arbitrary: d s m rule: less_induct)
  case (less n)
  show ?case
  proof (cases "n \<ge> 16")
    case True
    then obtain k where k: "k \<le> n - 16" "copy_quads (d + 16) (s + 16) (n - 16) (copied d s 16 m) =
        (d + 16 + k, s + 16 + k, n - 16 - k, copied (d + 16) (s + 16) k (copied d s 16 m))"
      using less(1) [of "n - 16" "d + 16" "s + 16" "copied d s 16 m"] less(2) by fastforce
    have c: "d \<le> s \<or> s + a + b \<le> d" if "a + b \<le> n" for a b using less(2) that by auto
    have q: "copy_word (d + 12) (s + 12) (copy_word (d + 8) (s + 8) (copy_word (d + 4) (s + 4) (copy_word d s m))) =
        copied d s 16 m"
      using copied_simps(3) [of d s 4 4 m] copied_simps(3) [of d s 8 4 m] copied_simps(3) [of d s 12 4 m] True
        c [of 4 4] c [of 8 4] c [of 12 4] by (simp add: copy_word_copied)
    have "copied (d + 16) (s + 16) k (copied d s 16 m) = copied d s (16 + k) m"
      using k True by (intro copied_simps(3) c) auto
    with True k show ?thesis
      by (intro exI [of _ "16 + k"]) (simp add: copy_quads.simps [of d] q)
  qed (simp add: copy_quads.simps copied_simps)
qed

lemma rt_memcpy_copied:
  assumes "d \<le> s \<or> s + n \<le> d"
  shows "rt_memcpy d s n m = copied d s n m"
proof (cases "\<not> n < 16 \<and> s mod 4 = 0 \<and> d mod 4 = 0")
  case True
  obtain i where i: "i \<le> n" "copy_quads d s n m = (d + i, s + i, n - i, copied d s i m)"
    using copy_quads_copied [OF assms] by blast
  have "d + i \<le> s + i \<or> s + i + (n - i) \<le> d + i" using assms i by auto
  from copy_words_copied [OF this, of "copied d s i m"] obtain j where j: "j \<le> n - i"
    "copy_words (d + i) (s + i) (n - i) (copied d s i m) =
       (d + i + j, s + i + j, n - i - j, copied (d + i) (s + i) j (copied d s i m))" by blast
  have "copied (d + i) (s + i) j (copied d s i m) = copied d s (i + j) m"
    using assms i j by (intro copied_simps(3)) auto
  then have "rt_memcpy d s n m = copy_bytes (d + (i + j)) (s + (i + j)) (n - i - j) (copied d s (i + j) m)"
    using True i j by (simp add: rt_memcpy_def add.assoc)
  also have "\<dots> = copied (d + (i + j)) (s + (i + j)) (n - i - j) (copied d s (i + j) m)"
    using assms i j by (intro copy_bytes_copied) auto
  also have "\<dots> = copied d s (i + j + (n - i - j)) m"
    using assms i j by (intro copied_simps(3)) auto
  finally show ?thesis using i j by simp
next
  case False
  then have "rt_memcpy d s n m = copy_bytes d s n m" unfolding rt_memcpy_def by (simp only: if_False)
  with copy_bytes_copied [OF assms] show ?thesis by simp
qed

lemma rt_memmove_copied: "rt_memmove d s n m = copied d s n m"
  by (auto simp: rt_memmove_def copy_down_copied copy_bytes_copied)

section \<open>Comparing\<close>

definition block :: "bytes \<Rightarrow> nat \<Rightarrow> nat \<Rightarrow> u8 list" where
  "block m a n = map m [a ..< a + n]"

lemma block_Suc: "block m a (Suc n) = m a # block m (Suc a) n"
  by (simp add: block_def upt_rec del: upt_Suc)

lemma rt_memcmp_zero: "rt_memcmp a b n m = 0 \<longleftrightarrow> block m a n = block m b n"
proof (induction a b n m rule: rt_memcmp.induct)
  case (2 a b n m)
  then show ?case by (auto simp: block_Suc Let_def word_uint_eq_iff)
qed (simp add: block_def)

text \<open>
  C28: \<^verbatim>\<open>rt_memset\<close>, \<^verbatim>\<open>rt_memcpy\<close> and \<^verbatim>\<open>rt_memmove\<close> do exactly what the byte-wise descriptions say: the bytes
  of the destination get the low byte of the value, or what the bytes of the source were before
  the call, and every other byte keeps its value.  \<^verbatim>\<open>rt_memmove\<close> does so however the two areas
  overlap, \<^verbatim>\<open>rt_memcpy\<close> when they do not or when the destination is the lower one, in its word-wise
  loops as in its byte-wise one.
\<close>

theorem rt_mem_block_ops:
  "rt_memset d c n m = (\<lambda>i. if i \<in> {d ..< d + n} then ucast c else m i) \<and>
   rt_memmove d s n m = (\<lambda>i. if i \<in> {d ..< d + n} then m (s + (i - d)) else m i) \<and>
   (d \<le> s \<or> s + n \<le> d \<longrightarrow> rt_memcpy d s n m = rt_memmove d s n m) \<and>
   (rt_memcmp s d n m = 0 \<longleftrightarrow> (\<forall>j < n. m (s + j) = m (d + j)))"
proof -
  have "map m [s ..< s + n] = map m [d ..< d + n] \<longleftrightarrow> (\<forall>j < n. m (s + j) = m (d + j))"
    by (simp add: list_eq_iff_nth_eq)
  moreover have "filled d (ucast c) n m = (\<lambda>i. if i \<in> {d ..< d + n} then ucast c else m i)"
    "copied d s n m = (\<lambda>i. if i \<in> {d ..< d + n} then m (s + (i - d)) else m i)"
    by (auto simp: filled_def copied_def)
  ultimately show ?thesis
    by (simp add: rt_memcmp_zero block_def rt_memset_filled rt_memmove_copied rt_memcpy_copied)
qed

theorem rt_mem_block_ops_witness:
  "rt_memcpy 100 40 23 (\<lambda>i. of_nat i) = rt_memmove 100 40 23 (\<lambda>i. of_nat i) \<and>
   rt_memmove 44 40 23 (\<lambda>i. of_nat i) 50 = 46"
  using rt_mem_block_ops [of 100 _ 23 "\<lambda>i. of_nat i" 40] rt_mem_block_ops [of 44 _ 23 "\<lambda>i. of_nat i" 40] by simp

end
