(* ===== verification/Mem.thy ===== *)
theory Mem
  imports MemPool KMemory
begin

text \<open>
  The small memory heap, \<^verbatim>\<open>src/mem.c\<close>: a first-fit allocator over one area of memory that is cut into
  blocks, each a \<^verbatim>\<open>struct heap_mem\<close> of 12 bytes followed by its data.  The headers lie in the same bytes the
  data does.  A block is named by the offset of its header from \<^verbatim>\<open>heap_ptr\<close>, as the fields \<^verbatim>\<open>next\<close> and
  \<^verbatim>\<open>prev\<close> do and as the pointers \<^verbatim>\<open>lfree\<close> and \<^verbatim>\<open>heap_end\<close> are compared; the pointers given to and taken from
  the callers are addresses, \<open>None\<close> being \<^verbatim>\<open>RT_NULL\<close>.  The semaphore \<^verbatim>\<open>heap_sem\<close> protects all of it; a call
  that has to wait for it is \<open>Blocked\<close> with what it does when it has it.
\<close>

unbundle bit_operations_syntax

section \<open>The operations\<close>

abbreviation (input) RT_ALIGN_SIZE :: u32 where "RT_ALIGN_SIZE \<equiv> 4"
abbreviation (input) HEAP_MAGIC :: u16 where "HEAP_MAGIC \<equiv> 0x1ea0"
abbreviation (input) MIN_SIZE :: u32 where "MIN_SIZE \<equiv> 12"
abbreviation (input) MIN_SIZE_ALIGNED :: u32 where "MIN_SIZE_ALIGNED \<equiv> 12"
abbreviation (input) SIZEOF_STRUCT_MEM :: u32 where "SIZEOF_STRUCT_MEM \<equiv> 12"

text \<open>The fields of a \<^verbatim>\<open>struct heap_mem\<close> at an offset.\<close>

abbreviation (input) h_magic :: "bytes \<Rightarrow> nat \<Rightarrow> u16" where "h_magic m p \<equiv> get16 m p"
abbreviation (input) h_used :: "bytes \<Rightarrow> nat \<Rightarrow> u16" where "h_used m p \<equiv> get16 m (p + 2)"
abbreviation (input) h_next :: "bytes \<Rightarrow> nat \<Rightarrow> u32" where "h_next m p \<equiv> get32 m (p + 4)"
abbreviation (input) h_prev :: "bytes \<Rightarrow> nat \<Rightarrow> u32" where "h_prev m p \<equiv> get32 m (p + 8)"

record rt_heap =
  heap_ptr :: u32
  heap_bytes :: bytes
  heap_end :: u32
  lfree :: u32
  heap_sem :: rt_semaphore
  mem_size_aligned :: u32
  used_mem :: u32
  max_mem :: u32

text \<open>Headers are read and written inside the area, which has room for the data and two headers.\<close>

definition hdr_ok :: "u32 \<Rightarrow> rt_heap \<Rightarrow> unit option" where
  "hdr_ok p h = valid_access (unat p \<le> unat (mem_size_aligned h) + 12)"

definition rd_used :: "u32 \<Rightarrow> rt_heap \<Rightarrow> u16 option" where
  "rd_used p h = do { hdr_ok p h; Some (h_used (heap_bytes h) (unat p)) }"
definition rd_magic :: "u32 \<Rightarrow> rt_heap \<Rightarrow> u16 option" where
  "rd_magic p h = do { hdr_ok p h; Some (h_magic (heap_bytes h) (unat p)) }"
definition rd_next :: "u32 \<Rightarrow> rt_heap \<Rightarrow> u32 option" where
  "rd_next p h = do { hdr_ok p h; Some (h_next (heap_bytes h) (unat p)) }"
definition rd_prev :: "u32 \<Rightarrow> rt_heap \<Rightarrow> u32 option" where
  "rd_prev p h = do { hdr_ok p h; Some (h_prev (heap_bytes h) (unat p)) }"

definition wr_used :: "u32 \<Rightarrow> u16 \<Rightarrow> rt_heap \<Rightarrow> rt_heap option" where
  "wr_used p v h = do { hdr_ok p h; Some (h\<lparr>heap_bytes := put16 (unat p + 2) v (heap_bytes h)\<rparr>) }"
definition wr_magic :: "u32 \<Rightarrow> u16 \<Rightarrow> rt_heap \<Rightarrow> rt_heap option" where
  "wr_magic p v h = do { hdr_ok p h; Some (h\<lparr>heap_bytes := put16 (unat p) v (heap_bytes h)\<rparr>) }"
definition wr_next :: "u32 \<Rightarrow> u32 \<Rightarrow> rt_heap \<Rightarrow> rt_heap option" where
  "wr_next p v h = do { hdr_ok p h; Some (h\<lparr>heap_bytes := put32 (unat p + 4) v (heap_bytes h)\<rparr>) }"
definition wr_prev :: "u32 \<Rightarrow> u32 \<Rightarrow> rt_heap \<Rightarrow> rt_heap option" where
  "wr_prev p v h = do { hdr_ok p h; Some (h\<lparr>heap_bytes := put32 (unat p + 8) v (heap_bytes h)\<rparr>) }"

text \<open>The two halves of \<^verbatim>\<open>plug_holes\<close>, forward and backward.\<close>

definition plug_forward :: "u32 \<Rightarrow> rt_heap \<Rightarrow> rt_heap option" where
  "plug_forward mem h =
     do { nmem \<leftarrow> rd_next mem h;
          nused \<leftarrow> rd_used nmem h;
          if mem \<noteq> nmem \<and> nused = 0 \<and> nmem \<noteq> heap_end h then
            do { let h = (if lfree h = nmem then h\<lparr>lfree := mem\<rparr> else h);
                 n \<leftarrow> rd_next nmem h;
                 h \<leftarrow> wr_next mem n h;
                 wr_prev n mem h }
          else Some h }"

definition plug_backward :: "u32 \<Rightarrow> rt_heap \<Rightarrow> rt_heap option" where
  "plug_backward mem h =
     do { pmem \<leftarrow> rd_prev mem h;
          pused \<leftarrow> rd_used pmem h;
          if pmem \<noteq> mem \<and> pused = 0 then
            do { let h = (if lfree h = mem then h\<lparr>lfree := pmem\<rparr> else h);
                 n \<leftarrow> rd_next mem h;
                 h \<leftarrow> wr_next pmem n h;
                 wr_prev n pmem h }
          else Some h }"

definition plug_holes :: "u32 \<Rightarrow> rt_heap \<Rightarrow> rt_heap option" where
  "plug_holes mem h =
     do { rt_assert (mem < heap_end h);
          used \<leftarrow> rd_used mem h;
          rt_assert (used = 0);
          h \<leftarrow> plug_forward mem h;
          plug_backward mem h }"

definition rt_system_heap_init :: "nat \<Rightarrow> u32 \<Rightarrow> u32 \<Rightarrow> rt_heap \<Rightarrow> kernel \<Rightarrow> (rt_heap \<times> kernel) option" where
  "rt_system_heap_init i begin_addr end_addr h k =
     do { let begin_align = RT_ALIGN begin_addr RT_ALIGN_SIZE;
          let end_align = RT_ALIGN_DOWN end_addr RT_ALIGN_SIZE;
          not_in_interrupt k;
          if end_align > 2 * SIZEOF_STRUCT_MEM \<and> end_align - 2 * SIZEOF_STRUCT_MEM \<ge> begin_align then
            do { let h = h\<lparr>mem_size_aligned := end_align - begin_align - 2 * SIZEOF_STRUCT_MEM\<rparr>;
                 let h = h\<lparr>heap_ptr := begin_align\<rparr>;
                 h \<leftarrow> wr_magic 0 HEAP_MAGIC h;
                 h \<leftarrow> wr_next 0 (mem_size_aligned h + SIZEOF_STRUCT_MEM) h;
                 h \<leftarrow> wr_prev 0 0 h;
                 h \<leftarrow> wr_used 0 0 h;
                 e \<leftarrow> rd_next 0 h;
                 let h = h\<lparr>heap_end := e\<rparr>;
                 h \<leftarrow> wr_magic e HEAP_MAGIC h;
                 h \<leftarrow> wr_used e 1 h;
                 h \<leftarrow> wr_next e (mem_size_aligned h + SIZEOF_STRUCT_MEM) h;
                 h \<leftarrow> wr_prev e (mem_size_aligned h + SIZEOF_STRUCT_MEM) h;
                 (_, sem, k) \<leftarrow> rt_sem_init i [0x68, 0x65, 0x61, 0x70] 1 RT_IPC_FLAG_FIFO k;
                 Some (h\<lparr>heap_sem := sem, lfree := 0\<rparr>, k) }
          else Some (h, k) }"

text \<open>The search of \<^verbatim>\<open>rt_malloc\<close>, from \<^verbatim>\<open>lfree\<close> on.\<close>

partial_function (option) malloc_find :: "u32 \<Rightarrow> u32 \<Rightarrow> rt_heap \<Rightarrow> u32 option option" where
  "malloc_find ptr sz h =
     (if ptr < mem_size_aligned h - sz then
        do { used \<leftarrow> rd_used ptr h;
             nxt \<leftarrow> rd_next ptr h;
             if used = 0 \<and> nxt - (ptr + SIZEOF_STRUCT_MEM) \<ge> sz then Some (Some ptr)
             else malloc_find nxt sz h }
      else Some None)"

definition count_used :: "u32 \<Rightarrow> rt_heap \<Rightarrow> rt_heap" where
  "count_used n h =
     (let h = h\<lparr>used_mem := used_mem h + n\<rparr>
      in if max_mem h < used_mem h then h\<lparr>max_mem := used_mem h\<rparr> else h)"

text \<open>The search for the next free block when the lowest one has been taken.\<close>

partial_function (option) next_free :: "u32 \<Rightarrow> rt_heap \<Rightarrow> u32 option" where
  "next_free p h =
     do { used \<leftarrow> rd_used p h;
          if used \<noteq> 0 \<and> p \<noteq> heap_end h then do { n \<leftarrow> rd_next p h; next_free n h } else Some p }"

text \<open>Taking the block that was found: with or without a remainder.\<close>

definition malloc_split :: "u32 \<Rightarrow> u32 \<Rightarrow> rt_heap \<Rightarrow> rt_heap option" where
  "malloc_split ptr sz h =
     do { let ptr2 = ptr + SIZEOF_STRUCT_MEM + sz;
          h \<leftarrow> wr_used ptr2 0 h;
          nxt \<leftarrow> rd_next ptr h;
          h \<leftarrow> wr_next ptr2 nxt h;
          h \<leftarrow> wr_prev ptr2 ptr h;
          h \<leftarrow> wr_next ptr ptr2 h;
          h \<leftarrow> wr_used ptr 1 h;
          nxt2 \<leftarrow> rd_next ptr2 h;
          h \<leftarrow> (if nxt2 \<noteq> mem_size_aligned h + SIZEOF_STRUCT_MEM then wr_prev nxt2 ptr2 h else Some h);
          Some (count_used (sz + SIZEOF_STRUCT_MEM) h) }"

definition malloc_whole :: "u32 \<Rightarrow> rt_heap \<Rightarrow> rt_heap option" where
  "malloc_whole ptr h =
     do { h \<leftarrow> wr_used ptr 1 h;
          nxt \<leftarrow> rd_next ptr h;
          Some (count_used (nxt - ptr) h) }"

definition malloc_use :: "u32 \<Rightarrow> u32 \<Rightarrow> rt_heap \<Rightarrow> rt_heap option" where
  "malloc_use ptr sz h =
     do { nxt \<leftarrow> rd_next ptr h;
          h \<leftarrow> (if nxt - (ptr + SIZEOF_STRUCT_MEM) \<ge> sz + SIZEOF_STRUCT_MEM + MIN_SIZE_ALIGNED
               then malloc_split ptr sz h else malloc_whole ptr h);
          h \<leftarrow> wr_magic ptr HEAP_MAGIC h;
          if ptr = lfree h then
            do { l \<leftarrow> next_free (lfree h) h;
                 used \<leftarrow> rd_used l h;
                 rt_assert (l = heap_end h \<or> used = 0);
                 Some (h\<lparr>lfree := l\<rparr>) }
          else Some h }"

definition heap_release :: "nat \<Rightarrow> rt_heap \<Rightarrow> kernel \<Rightarrow> (rt_heap \<times> kernel) option" where
  "heap_release i h k =
     do { (_, sem, k) \<leftarrow> rt_sem_release i (heap_sem h) k; Some (h\<lparr>heap_sem := sem\<rparr>, k) }"

text \<open>\<^verbatim>\<open>rt_malloc\<close> from the point where it has the semaphore, and up to there.\<close>

definition malloc_locked :: "nat \<Rightarrow> u32 \<Rightarrow> rt_heap \<Rightarrow> kernel \<Rightarrow> (u32 option \<times> rt_heap \<times> kernel) option" where
  "malloc_locked i sz h k =
     do { found \<leftarrow> malloc_find (lfree h) sz h;
          (case found of
             Some ptr \<Rightarrow>
               do { h \<leftarrow> malloc_use ptr sz h;
                    (h, k) \<leftarrow> heap_release i h k;
                    let mem = heap_ptr h + ptr;
                    rt_assert (mem + SIZEOF_STRUCT_MEM + sz \<le> heap_ptr h + heap_end h);
                    rt_assert ((mem + SIZEOF_STRUCT_MEM) mod RT_ALIGN_SIZE = 0);
                    rt_assert (mem AND (RT_ALIGN_SIZE - 1) = 0);
                    Some (Some (mem + SIZEOF_STRUCT_MEM), h, k) }
           | None \<Rightarrow> do { (h, k) \<leftarrow> heap_release i h k; Some (None, h, k) }) }"

definition rt_malloc ::
  "nat \<Rightarrow> u32 \<Rightarrow> rt_heap \<Rightarrow> kernel \<Rightarrow> ((u32 option, tid \<times> u32) outcome \<times> rt_heap \<times> kernel) option" where
  "rt_malloc i sz h k =
     do { not_in_interrupt k;
          if sz = 0 then Some (Ret None, h, k)
          else
            (let sz = RT_ALIGN sz RT_ALIGN_SIZE in
             if sz > mem_size_aligned h then Some (Ret None, h, k)
             else
               (let sz = (if sz < MIN_SIZE_ALIGNED then MIN_SIZE_ALIGNED else sz) in
                do { (r, sem, k) \<leftarrow> rt_sem_take i RT_WAITING_FOREVER (heap_sem h) k;
                     let h = h\<lparr>heap_sem := sem\<rparr>;
                     (case r of
                        Blocked t \<Rightarrow> Some (Blocked (t, sz), h, k)
                      | Ret _ \<Rightarrow> do { (a, h, k) \<leftarrow> malloc_locked i sz h k; Some (Ret a, h, k) }) })) }"

definition free_locked :: "nat \<Rightarrow> u32 \<Rightarrow> rt_heap \<Rightarrow> kernel \<Rightarrow> (rt_heap \<times> kernel) option" where
  "free_locked i mem h k =
     do { used \<leftarrow> rd_used mem h;
          rt_assert (used \<noteq> 0);
          magic \<leftarrow> rd_magic mem h;
          rt_assert (magic = HEAP_MAGIC);
          h \<leftarrow> wr_used mem 0 h;
          h \<leftarrow> wr_magic mem 0 h;
          let h = (if mem < lfree h then h\<lparr>lfree := mem\<rparr> else h);
          nxt \<leftarrow> rd_next mem h;
          let h = h\<lparr>used_mem := used_mem h - (nxt - mem)\<rparr>;
          h \<leftarrow> plug_holes mem h;
          heap_release i h k }"

definition rt_free ::
  "nat \<Rightarrow> u32 option \<Rightarrow> rt_heap \<Rightarrow> kernel \<Rightarrow> ((unit, tid \<times> u32) outcome \<times> rt_heap \<times> kernel) option" where
  "rt_free i rmem h k =
     do { not_in_interrupt k;
          (case rmem of
             None \<Rightarrow> Some (Ret (), h, k)
           | Some a \<Rightarrow>
               do { rt_assert (a AND (RT_ALIGN_SIZE - 1) = 0);
                    rt_assert (a \<ge> heap_ptr h \<and> a < heap_ptr h + heap_end h);
                    let mem = a - heap_ptr h - SIZEOF_STRUCT_MEM;
                    (r, sem, k) \<leftarrow> rt_sem_take i RT_WAITING_FOREVER (heap_sem h) k;
                    let h = h\<lparr>heap_sem := sem\<rparr>;
                    (case r of
                       Blocked t \<Rightarrow> Some (Blocked (t, mem), h, k)
                     | Ret _ \<Rightarrow> do { (h, k) \<leftarrow> free_locked i mem h k; Some (Ret (), h, k) }) }) }"

text \<open>
  \<^verbatim>\<open>rt_realloc\<close> gives up the semaphore and takes it again; each place where the calling thread may stop
  running is a place where it goes on: waiting for the semaphore, in \<^verbatim>\<open>rt_malloc\<close> and in \<^verbatim>\<open>rt_free\<close>, or
  switched away from when a release has resumed a thread of higher priority.
\<close>

datatype realloc_pc =
    Re_new u32
  | Re_locked u32 u32
  | Re_expand u32 u32 u32
  | Re_malloc u32 u32 u32 u32
  | Re_copy u32 u32 u32 "u32 option"
  | Re_free u32 u32

definition realloc_split :: "u32 \<Rightarrow> u32 \<Rightarrow> u32 \<Rightarrow> rt_heap \<Rightarrow> rt_heap option" where
  "realloc_split ptr sz newsize h =
     do { let h = h\<lparr>used_mem := used_mem h - (sz - newsize)\<rparr>;
          let ptr2 = ptr + SIZEOF_STRUCT_MEM + newsize;
          h \<leftarrow> wr_magic ptr2 HEAP_MAGIC h;
          h \<leftarrow> wr_used ptr2 0 h;
          nxt \<leftarrow> rd_next ptr h;
          h \<leftarrow> wr_next ptr2 nxt h;
          h \<leftarrow> wr_prev ptr2 ptr h;
          h \<leftarrow> wr_next ptr ptr2 h;
          nxt2 \<leftarrow> rd_next ptr2 h;
          h \<leftarrow> (if nxt2 \<noteq> mem_size_aligned h + SIZEOF_STRUCT_MEM then wr_prev nxt2 ptr2 h else Some h);
          plug_holes ptr2 h }"

text \<open>The bytes are copied by \<^verbatim>\<open>rt_memcpy\<close>; the heap begins at an aligned address, so the offsets are aligned
  as the addresses are.\<close>

definition realloc_copy ::
  "nat \<Rightarrow> u32 \<Rightarrow> u32 \<Rightarrow> u32 \<Rightarrow> u32 option \<Rightarrow> rt_heap \<Rightarrow> kernel \<Rightarrow>
     ((u32 option, tid \<times> realloc_pc) outcome \<times> rt_heap \<times> kernel) option" where
  "realloc_copy i rmem sz newsize nmem h k =
     (case nmem of
        None \<Rightarrow> Some (Ret None, h, k)
      | Some b \<Rightarrow>
          do { let len = (if sz < newsize then sz else newsize);
               let h = h\<lparr>heap_bytes := rt_memcpy (unat (b - heap_ptr h)) (unat (rmem - heap_ptr h)) (unat len) (heap_bytes h)\<rparr>;
               (r, h, k) \<leftarrow> rt_free i (Some rmem) h k;
               (case r of
                  Blocked (t, mem) \<Rightarrow> Some (Blocked (t, Re_free b mem), h, k)
                | Ret _ \<Rightarrow> Some (Ret (Some b), h, k)) })"

definition realloc_expand ::
  "nat \<Rightarrow> u32 \<Rightarrow> u32 \<Rightarrow> u32 \<Rightarrow> rt_heap \<Rightarrow> kernel \<Rightarrow>
     ((u32 option, tid \<times> realloc_pc) outcome \<times> rt_heap \<times> kernel) option" where
  "realloc_expand i rmem sz newsize h k =
     do { self \<leftarrow> rt_thread_self k;
          (r, h, k') \<leftarrow> rt_malloc i newsize h k;
          (case r of
             Blocked (t, s) \<Rightarrow> Some (Blocked (t, Re_malloc rmem sz newsize s), h, k')
           | Ret nmem \<Rightarrow>
               if rt_thread_self k' = Some self then realloc_copy i rmem sz newsize nmem h k'
               else Some (Blocked (self, Re_copy rmem sz newsize nmem), h, k')) }"

definition realloc_locked ::
  "nat \<Rightarrow> u32 \<Rightarrow> u32 \<Rightarrow> rt_heap \<Rightarrow> kernel \<Rightarrow>
     ((u32 option, tid \<times> realloc_pc) outcome \<times> rt_heap \<times> kernel) option" where
  "realloc_locked i rmem newsize h k =
     (if rmem < heap_ptr h \<or> rmem \<ge> heap_ptr h + heap_end h then
        do { (h, k) \<leftarrow> heap_release i h k; Some (Ret (Some rmem), h, k) }
      else
        do { let ptr = rmem - heap_ptr h - SIZEOF_STRUCT_MEM;
             nxt \<leftarrow> rd_next ptr h;
             let sz = nxt - ptr - SIZEOF_STRUCT_MEM;
             if sz = newsize then do { (h, k) \<leftarrow> heap_release i h k; Some (Ret (Some rmem), h, k) }
             else if newsize + SIZEOF_STRUCT_MEM + MIN_SIZE < sz then
               do { h \<leftarrow> realloc_split ptr sz newsize h;
                    (h, k) \<leftarrow> heap_release i h k;
                    Some (Ret (Some rmem), h, k) }
             else
               do { self \<leftarrow> rt_thread_self k;
                    (h, k') \<leftarrow> heap_release i h k;
                    if rt_thread_self k' = Some self then realloc_expand i rmem sz newsize h k'
                    else Some (Blocked (self, Re_expand rmem sz newsize), h, k') } })"

definition rt_realloc ::
  "nat \<Rightarrow> u32 option \<Rightarrow> u32 \<Rightarrow> rt_heap \<Rightarrow> kernel \<Rightarrow>
     ((u32 option, tid \<times> realloc_pc) outcome \<times> rt_heap \<times> kernel) option" where
  "rt_realloc i rmem newsize h k =
     do { not_in_interrupt k;
          let newsize = RT_ALIGN newsize RT_ALIGN_SIZE;
          if newsize > mem_size_aligned h then Some (Ret None, h, k)
          else
            (case rmem of
               None \<Rightarrow>
                 do { (r, h, k) \<leftarrow> rt_malloc i newsize h k;
                      (case r of
                         Blocked (t, s) \<Rightarrow> Some (Blocked (t, Re_new s), h, k)
                       | Ret a \<Rightarrow> Some (Ret a, h, k)) }
             | Some a \<Rightarrow>
                 do { (r, sem, k) \<leftarrow> rt_sem_take i RT_WAITING_FOREVER (heap_sem h) k;
                      let h = h\<lparr>heap_sem := sem\<rparr>;
                      (case r of
                         Blocked t \<Rightarrow> Some (Blocked (t, Re_locked a newsize), h, k)
                       | Ret _ \<Rightarrow> realloc_locked i a newsize h k) }) }"

text \<open>A thread that was stopped in \<^verbatim>\<open>rt_realloc\<close> runs again.\<close>

definition rt_realloc_wake ::
  "nat \<Rightarrow> realloc_pc \<Rightarrow> rt_heap \<Rightarrow> kernel \<Rightarrow> ((u32 option, tid \<times> realloc_pc) outcome \<times> rt_heap \<times> kernel) option" where
  "rt_realloc_wake i pc h k =
     (case pc of
        Re_new s \<Rightarrow> do { (a, h, k) \<leftarrow> malloc_locked i s h k; Some (Ret a, h, k) }
      | Re_locked a newsize \<Rightarrow> realloc_locked i a newsize h k
      | Re_expand a sz newsize \<Rightarrow> realloc_expand i a sz newsize h k
      | Re_malloc a sz newsize s \<Rightarrow>
          do { self \<leftarrow> rt_thread_self k;
               (nmem, h, k') \<leftarrow> malloc_locked i s h k;
               if rt_thread_self k' = Some self then realloc_copy i a sz newsize nmem h k'
               else Some (Blocked (self, Re_copy a sz newsize nmem), h, k') }
      | Re_copy a sz newsize nmem \<Rightarrow> realloc_copy i a sz newsize nmem h k
      | Re_free b mem \<Rightarrow> do { (h, k) \<leftarrow> free_locked i mem h k; Some (Ret (Some b), h, k) })"

text \<open>\<^verbatim>\<open>rt_calloc\<close> up to its result, and from the point where a waiting call has the semaphore.\<close>

definition calloc_clear :: "u32 \<Rightarrow> u32 option \<Rightarrow> rt_heap \<Rightarrow> rt_heap" where
  "calloc_clear len p h =
     (case p of
        None \<Rightarrow> h
      | Some a \<Rightarrow> h\<lparr>heap_bytes := rt_memset (unat (a - heap_ptr h)) 0 (unat len) (heap_bytes h)\<rparr>)"

definition rt_calloc ::
  "nat \<Rightarrow> u32 \<Rightarrow> u32 \<Rightarrow> rt_heap \<Rightarrow> kernel \<Rightarrow> ((u32 option, tid \<times> u32 \<times> u32) outcome \<times> rt_heap \<times> kernel) option" where
  "rt_calloc i cnt sz h k =
     do { not_in_interrupt k;
          (r, h, k) \<leftarrow> rt_malloc i (cnt * sz) h k;
          (case r of
             Blocked (t, s) \<Rightarrow> Some (Blocked (t, s, cnt * sz), h, k)
           | Ret p \<Rightarrow> Some (Ret p, calloc_clear (cnt * sz) p h, k)) }"

definition rt_calloc_wake :: "nat \<Rightarrow> u32 \<Rightarrow> u32 \<Rightarrow> rt_heap \<Rightarrow> kernel \<Rightarrow> (u32 option \<times> rt_heap \<times> kernel) option" where
  "rt_calloc_wake i s len h k =
     do { (p, h, k) \<leftarrow> malloc_locked i s h k; Some (p, calloc_clear len p h, k) }"

definition rt_memory_info :: "rt_heap \<Rightarrow> u32 \<times> u32 \<times> u32" where
  "rt_memory_info h = (mem_size_aligned h, used_mem h, max_mem h)"

end
