(* ===== verification/MemInv.thy ===== *)
theory MemInv
  imports Mem
begin

text \<open>
  The blocks of the small memory heap: a list of lengths and marks of use stands for the headers in
  memory, and allocation, release and joining of blocks are operations on such lists.  The
  invariant \<open>heap_rep\<close> says that the headers represent the list, that no two free blocks are
  neighbours, that \<^verbatim>\<open>lfree\<close> is a free block or the end, and that the memory in use is counted.
\<close>

unbundle bit_operations_syntax

section \<open>The blocks in memory\<close>

text \<open>
  A list of lengths (with the header) and marks of use stands for the blocks that follow each
  other from \<open>a\<close> to \<open>z\<close>; the block before the first one begins at \<open>q\<close>.
\<close>

type_synonym blocks = "(nat \<times> bool) list"

definition hdr_rep :: "bytes \<Rightarrow> nat \<Rightarrow> nat \<Rightarrow> nat \<Rightarrow> bool \<Rightarrow> bool" where
  "hdr_rep m q a n u \<longleftrightarrow> 12 \<le> n \<and> 4 dvd n \<and> unat (h_next m a) = a + n \<and> unat (h_prev m a) = q \<and>
     h_used m a = of_bool u \<and> (u \<longrightarrow> h_magic m a = HEAP_MAGIC)"

fun seg :: "bytes \<Rightarrow> nat \<Rightarrow> nat \<Rightarrow> blocks \<Rightarrow> nat \<Rightarrow> bool" where
  "seg m q a [] z \<longleftrightarrow> a = z"
| "seg m q a ((n, u) # bs) z \<longleftrightarrow> hdr_rep m q a n u \<and> seg m a (a + n) bs z"

definition blen :: "blocks \<Rightarrow> nat" where
  "blen bs = sum_list (map fst bs)"

lemma blen_simps [simp]: "blen [] = 0" "blen (b # bs) = fst b + blen bs" "blen (xs @ ys) = blen xs + blen ys"
  by (simp_all add: blen_def)

fun lastp :: "nat \<Rightarrow> nat \<Rightarrow> blocks \<Rightarrow> nat" where
  "lastp q a [] = q"
| "lastp q a ((n, u) # bs) = lastp a (a + n) bs"

lemma seg_end: "seg m q a bs z \<Longrightarrow> z = a + blen bs"
  by (induction m q a bs z rule: seg.induct) auto

lemma seg_append:
  "seg m q a (xs @ ys) z \<longleftrightarrow> seg m q a xs (a + blen xs) \<and> seg m (lastp q a xs) (a + blen xs) ys z"
  by (induction q a xs rule: lastp.induct) (auto simp: add.assoc)

lemma lastp_append [simp]: "lastp q a (xs @ ys) = lastp (lastp q a xs) (a + blen xs) ys"
  by (induction q a xs rule: lastp.induct) (auto simp: add.assoc)

lemma hdr_rep_cong:
  assumes "\<And>i. a \<le> i \<Longrightarrow> i < a + 12 \<Longrightarrow> m' i = m i"
  shows "hdr_rep m' q a n u = hdr_rep m q a n u"
proof -
  have "get16 m' a = get16 m a" "get16 m' (a + 2) = get16 m (a + 2)" "get32 m' (a + 4) = get32 m (a + 4)"
    "get32 m' (a + 8) = get32 m (a + 8)"
    using assms by (simp_all add: get32_def get16_def)
  then show ?thesis by (simp add: hdr_rep_def)
qed

lemma seg_cong:
  "(\<And>i. a \<le> i \<Longrightarrow> i < a + blen bs \<Longrightarrow> m' i = m i) \<Longrightarrow> seg m q a bs z \<Longrightarrow> seg m' q a bs z"
proof (induction m q a bs z rule: seg.induct)
  case (2 m q a n u bs z)
  have "12 \<le> n" using 2(3) by (simp add: hdr_rep_def)
  then have "hdr_rep m' q a n u" using 2(2,3) hdr_rep_cong [of a m' m] by simp
  moreover have "seg m' a (a + n) bs z" using 2 by simp
  ultimately show ?case by simp
qed simp

text \<open>Only the link back of the first block changes.\<close>

lemma seg_relink:
  assumes "seg m q a bs z" and "\<And>i. a \<le> i \<Longrightarrow> i < z \<Longrightarrow> i < a + 8 \<or> a + 12 \<le> i \<Longrightarrow> m' i = m i"
    and "bs \<noteq> [] \<Longrightarrow> unat (h_prev m' a) = q'"
  shows "seg m' q' a bs z"
proof (cases bs)
  case (Cons b rest)
  obtain n u where b: "b = (n, u)" by force
  have h: "hdr_rep m q a n u" and s: "seg m a (a + n) rest z" using assms(1) Cons b by simp_all
  have z: "z = a + n + blen rest" "12 \<le> n" using seg_end [OF s] h by (simp_all add: hdr_rep_def)
  have "get16 m' a = get16 m a" "get16 m' (a + 2) = get16 m (a + 2)" "get32 m' (a + 4) = get32 m (a + 4)"
    using assms(2) z by (simp_all add: get32_def get16_def)
  then have "hdr_rep m' q' a n u" using h assms(3) Cons by (simp add: hdr_rep_def)
  moreover have "seg m' a (a + n) rest z" using z assms(2) by (intro seg_cong [OF _ s]) auto
  ultimately show ?thesis using Cons b by simp
qed (use assms in simp)

section \<open>The invariant\<close>

definition used_len :: "blocks \<Rightarrow> nat" where
  "used_len bs = blen (filter snd bs)"

lemma used_len_simps [simp]: "used_len [] = 0" "used_len (xs @ ys) = used_len xs + used_len ys"
  "used_len ((n, u) # bs) = (if u then n + used_len bs else used_len bs)"
  by (simp_all add: used_len_def)

text \<open>No two free blocks follow each other.\<close>

definition no_adj :: "blocks \<Rightarrow> bool" where
  "no_adj bs = successively (\<lambda>b c. snd b \<or> snd c) bs"

text \<open>\<^verbatim>\<open>lfree\<close> is a free block or the end.\<close>

definition lfree_ok :: "blocks \<Rightarrow> nat \<Rightarrow> bool" where
  "lfree_ok bs l \<longleftrightarrow> (\<exists>xs ys. bs = xs @ ys \<and> l = blen xs \<and> (ys = [] \<or> \<not> snd (hd ys)))"

definition heap_core :: "blocks \<Rightarrow> rt_heap \<Rightarrow> bool" where
  "heap_core bs h \<longleftrightarrow>
     seg (heap_bytes h) 0 0 bs (unat (mem_size_aligned h) + 12) \<and>
     heap_end h = mem_size_aligned h + 12 \<and> h_used (heap_bytes h) (unat (mem_size_aligned h) + 12) = 1 \<and>
     unat (heap_ptr h) + unat (mem_size_aligned h) + 24 < 2 ^ 32 \<and> 4 dvd unat (heap_ptr h) \<and>
     12 \<le> unat (mem_size_aligned h) \<and> used_mem h = of_nat (used_len bs) \<and> used_mem h \<le> max_mem h"

definition heap_rep :: "blocks \<Rightarrow> rt_heap \<Rightarrow> bool" where
  "heap_rep bs h \<longleftrightarrow> heap_core bs h \<and> no_adj bs \<and> lfree_ok bs (unat (lfree h))"

lemma heap_core_upd [simp]:
  "heap_core bs (h\<lparr>lfree := l\<rparr>) = heap_core bs h" "heap_core bs (h\<lparr>heap_sem := sem\<rparr>) = heap_core bs h"
  "heap_rep bs (h\<lparr>heap_sem := sem\<rparr>) = heap_rep bs h"
  by (simp_all add: heap_core_def heap_rep_def)

text \<open>What the operations never change.\<close>

definition same_area :: "rt_heap \<Rightarrow> rt_heap \<Rightarrow> bool" where
  "same_area h h' \<longleftrightarrow> heap_ptr h' = heap_ptr h \<and> heap_end h' = heap_end h \<and> mem_size_aligned h' = mem_size_aligned h"

lemma same_area_trans: "same_area a b \<Longrightarrow> same_area b c \<Longrightarrow> same_area a c"
  by (simp add: same_area_def)

text \<open>The bytes outside the blocks from \<open>p\<close> to \<open>e\<close>, except for the link back of the block at \<open>e\<close>.\<close>

definition same_outside :: "nat \<Rightarrow> nat \<Rightarrow> bytes \<Rightarrow> bytes \<Rightarrow> bool" where
  "same_outside p e m m' \<longleftrightarrow> (\<forall>i. i < p \<or> e \<le> i \<and> (i < e + 8 \<or> e + 12 \<le> i) \<longrightarrow> m' i = m i)"

lemma seg_replace:
  assumes s: "seg m 0 0 (xs @ old @ ys) z" and n: "seg m' (lastp 0 0 xs) (blen xs) new (blen xs + blen old)"
    and o: "same_outside (blen xs) (blen xs + blen old) m m'"
    and l: "ys \<noteq> [] \<Longrightarrow> unat (h_prev m' (blen xs + blen old)) = lastp (lastp 0 0 xs) (blen xs) new"
  shows "seg m' 0 0 (xs @ new @ ys) z \<and> h_used m' z = h_used m z"
proof -
  have parts: "seg m 0 0 xs (blen xs)"
    "seg m (lastp 0 0 (xs @ old)) (blen xs + blen old) ys z" using s by (simp_all add: seg_append add.assoc)
  have z: "z = blen xs + blen old + blen ys" using seg_end [OF parts(2)] .
  have "seg m' 0 0 xs (blen xs)" using o by (intro seg_cong [OF _ parts(1)]) (simp add: same_outside_def)
  moreover have "seg m' (lastp (lastp 0 0 xs) (blen xs) new) (blen xs + blen old) ys z"
    using o l by (intro seg_relink [OF parts(2)]) (auto simp: same_outside_def)
  moreover have "blen new = blen old" using seg_end [OF n] by simp
  ultimately have "seg m' 0 0 (xs @ new @ ys) z" using n by (simp add: seg_append)
  moreover have "h_used m' z = h_used m z"
  proof (cases ys)
    case (Cons b ws)
    then have "12 \<le> blen ys" using parts(2) by (cases b) (auto simp: hdr_rep_def)
    then show ?thesis using o z by (intro get16_cong) (auto simp: same_outside_def)
  qed (use o z in \<open>auto intro!: get16_cong simp: same_outside_def\<close>)
  ultimately show ?thesis by blast
qed

lemma heap_core_replace:
  assumes "heap_core (xs @ old @ ys) h" and "seg (heap_bytes h') (lastp 0 0 xs) (blen xs) new (blen xs + blen old)"
    and "same_outside (blen xs) (blen xs + blen old) (heap_bytes h) (heap_bytes h')"
    and "ys \<noteq> [] \<Longrightarrow> unat (h_prev (heap_bytes h') (blen xs + blen old)) = lastp (lastp 0 0 xs) (blen xs) new"
    and "same_area h h'" and "used_mem h' = of_nat (used_len (xs @ new @ ys))" and "used_mem h' \<le> max_mem h'"
  shows "heap_core (xs @ new @ ys) h'"
proof -
  have "seg (heap_bytes h) 0 0 (xs @ old @ ys) (unat (mem_size_aligned h) + 12)" using assms(1) by (simp add: heap_core_def)
  from seg_replace [OF this assms(2-4)] assms(1,5,6,7) show ?thesis by (simp add: heap_core_def same_area_def)
qed

lemma used_len_le: "used_len bs \<le> blen bs"
  by (induction bs) (auto simp: used_len_def)

section \<open>The search\<close>

fun first_fit :: "nat \<Rightarrow> nat \<Rightarrow> nat \<Rightarrow> blocks \<Rightarrow> nat option" where
  "first_fit s M a [] = None"
| "first_fit s M a ((n, u) # bs) =
     (if a + s < M then (if \<not> u \<and> s + 12 \<le> n then Some a else first_fit s M (a + n) bs) else None)"

lemma unat_plus: "unat (x :: u32) + unat y < 2 ^ 32 \<Longrightarrow> unat (x + y) = unat x + unat y"
  using unat_add_lem [of x y] by simp

lemma unat_minus: "unat (y :: u32) \<le> unat x \<Longrightarrow> unat (x - y) = unat x - unat y"
  by (simp add: unat_sub_if_size)

lemma unat_nat: "a < 2 ^ 32 \<Longrightarrow> unat (of_nat a :: u32) = a"
  by (simp add: unsigned_of_nat take_bit_nat_eq_self)

lemma of_bool_word_zero [simp]: "(of_bool u :: u16) = 0 \<longleftrightarrow> \<not> u"
  by (cases u) auto

lemma unat_plus12: "unat (x :: u32) + 12 < 2 ^ 32 \<Longrightarrow> unat (x + 12) = unat x + 12"
  using unat_plus [of x 12] by simp

lemma hdr_next_word:
  assumes "hdr_rep m q p n u"
  shows "h_next m p = of_nat (p + n)"
proof -
  have "h_next m p = of_nat (unat (h_next m p))" by simp
  with assms show ?thesis by (simp only: hdr_rep_def)
qed

lemma malloc_find_seg:
  assumes "seg (heap_bytes h) q a bs (unat (mem_size_aligned h) + 12)" and "unat sz \<le> unat (mem_size_aligned h)"
    and "unat (mem_size_aligned h) + 24 < 2 ^ 32"
  shows "\<exists>r. malloc_find (of_nat a) sz h = Some r \<and>
    map_option unat r = first_fit (unat sz) (unat (mem_size_aligned h)) a bs"
  using assms(1)
proof (induction bs arbitrary: q a)
  case Nil
  then have "unat (of_nat a :: u32) = a" using assms(3) by (intro unat_nat) simp
  moreover have "unat (mem_size_aligned h - sz) = unat (mem_size_aligned h) - unat sz" using assms(2) by (rule unat_minus)
  ultimately have "\<not> of_nat a < mem_size_aligned h - sz" using Nil by (simp add: word_less_nat_alt)
  then show ?case by (simp add: malloc_find.simps)
next
  case (Cons b bs)
  obtain n u where b: "b = (n, u)" by force
  have h: "hdr_rep (heap_bytes h) q a n u" and s: "seg (heap_bytes h) a (a + n) bs (unat (mem_size_aligned h) + 12)"
    using Cons.prems b by auto
  have le: "a + n \<le> unat (mem_size_aligned h) + 12" "12 \<le> n" using seg_end [OF s] h by (simp_all add: hdr_rep_def)
  have a: "unat (of_nat a :: u32) = a" using le assms(3) by (intro unat_nat) simp
  have nx: "h_next (heap_bytes h) a = of_nat (a + n)"
    using h by (rule hdr_next_word)
  have an: "unat (of_nat (a + n) :: u32) = a + n" using le assms(3) by (intro unat_nat) simp
  have lt: "of_nat a < mem_size_aligned h - sz \<longleftrightarrow> a + unat sz < unat (mem_size_aligned h)"
    using a assms(2) by (auto simp: word_less_nat_alt unat_minus)
  have "unat (of_nat (a + n) - (of_nat a + 12) :: u32) = n - 12"
    using a an le assms(3) by (subst unat_minus) (simp_all add: unat_plus12 del: of_nat_add)
  then have fit: "of_nat (a + n) - (of_nat a + 12) \<ge> sz \<longleftrightarrow> unat sz + 12 \<le> n"
    using le by (auto simp: word_le_nat_alt)
  have rd: "rd_used (of_nat a) h = Some (of_bool u)" "rd_next (of_nat a) h = Some (of_nat (a + n))"
    using h nx a le by (simp_all add: rd_used_def rd_next_def hdr_ok_def hdr_rep_def)
  obtain r where "malloc_find (of_nat (a + n)) sz h = Some r"
    "map_option unat r = first_fit (unat sz) (unat (mem_size_aligned h)) (a + n) bs" using Cons.IH [OF s] by blast
  then show ?case
    using lt fit a by (simp add: b malloc_find.simps [of "of_nat a"] rd del: of_nat_add)
qed

text \<open>What is found is the first free block that is long enough, except for a block at the very
  end of the heap that fits exactly.\<close>

lemma first_fit_Some:
  "first_fit s M a bs = Some p \<Longrightarrow>
     \<exists>xs n ys. bs = xs @ (n, False) # ys \<and> p = a + blen xs \<and> s + 12 \<le> n \<and> p + s < M \<and>
       (\<forall>b \<in> set xs. snd b \<or> fst b < s + 12)"
proof (induction s M a bs rule: first_fit.induct)
  case (2 s M a n u bs)
  show ?case
  proof (cases "\<not> u \<and> s + 12 \<le> n")
    case True
    with 2(2) have "a + s < M" "p = a" by (cases "a + s < M"; auto)+
    with True show ?thesis by (intro exI [of _ "[]"]) simp
  next
    case False
    with 2(2) have *: "a + s < M" "first_fit s M (a + n) bs = Some p" by (cases "a + s < M"; auto)+
    from 2(1) [OF *(1) False *(2)] obtain xs n' ys where
      "bs = xs @ (n', False) # ys" "p = a + n + blen xs" "s + 12 \<le> n'" "p + s < M" "\<forall>b \<in> set xs. snd b \<or> fst b < s + 12" by (elim exE conjE)
    with False show ?thesis by (intro exI [of _ "(n, u) # xs"] exI [of _ n'] exI [of _ ys]) auto
  qed
qed simp

lemma first_fit_None:
  "first_fit s M a bs = None \<Longrightarrow> bs = xs @ (n, False) # ys \<Longrightarrow> M + 12 = a + blen bs \<Longrightarrow>
     \<forall>b \<in> set ys. 12 \<le> fst b \<Longrightarrow> n < s + 12 \<or> (n = s + 12 \<and> ys = [])"
proof (induction xs arbitrary: a bs)
  case Nil
  show ?case
  proof (cases "a + s < M")
    case False
    then have "n + blen ys \<le> s + 12" using Nil by simp
    moreover have "ys \<noteq> [] \<Longrightarrow> 12 \<le> blen ys" using Nil(4) by (cases ys) auto
    ultimately show ?thesis by (cases "ys = []") auto
  qed (use Nil in \<open>simp split: if_splits\<close>)
next
  case (Cons b xs)
  obtain k u where b: "b = (k, u)" by force
  show ?case
  proof (cases "a + s < M")
    case True
    with Cons.prems(1,2) b have "first_fit s M (a + k) (xs @ (n, False) # ys) = None"
      by (cases "\<not> u \<and> s + 12 \<le> k") auto
    with Cons.prems(2,3,4) b show ?thesis by (intro Cons.IH [OF _ refl]) simp_all
  next
    case False
    then have "k + (blen xs + (n + blen ys)) \<le> s + 12" using Cons b by simp
    moreover have "ys \<noteq> [] \<Longrightarrow> 12 \<le> blen ys" using Cons(5) by (cases ys) auto
    ultimately show ?thesis by (cases "ys = []") auto
  qed
qed

section \<open>Taking a block\<close>

definition take_block :: "nat \<Rightarrow> nat \<Rightarrow> blocks" where
  "take_block s n = (if s + 36 \<le> n then [(s + 12, True), (n - (s + 12), False)] else [(n, True)])"

lemma blen_take_block [simp]: "s + 12 \<le> n \<Longrightarrow> blen (take_block s n) = n"
  by (simp add: take_block_def)

lemma next_free_seg:
  assumes "seg (heap_bytes h) q a bs (unat (heap_end h))" and "h_used (heap_bytes h) (unat (heap_end h)) = 1"
    and "unat (heap_end h) = unat (mem_size_aligned h) + 12"
  shows "next_free (of_nat a) h = Some (of_nat (a + blen (takeWhile snd bs)))"
  using assms(1)
proof (induction bs arbitrary: q a)
  case Nil
  then have "of_nat a = heap_end h" by simp
  with assms show ?case by (simp add: next_free.simps [of "heap_end h"] rd_used_def hdr_ok_def)
next
  case (Cons b bs)
  obtain n u where b: "b = (n, u)" by force
  have h: "hdr_rep (heap_bytes h) q a n u" and s: "seg (heap_bytes h) a (a + n) bs (unat (heap_end h))"
    using Cons.prems b by auto
  have le: "a + n \<le> unat (heap_end h)" "12 \<le> n" using seg_end [OF s] h by (simp_all add: hdr_rep_def)
  have a: "unat (of_nat a :: u32) = a" using le unsigned_less [of "heap_end h", where ?'a = nat] by (intro unat_nat) simp
  have nx: "h_next (heap_bytes h) a = of_nat (a + n)"
    using h by (rule hdr_next_word)
  have "of_nat a \<noteq> heap_end h" using a le by auto
  moreover have "rd_used (of_nat a) h = Some (of_bool u)" "rd_next (of_nat a) h = Some (of_nat (a + n))"
    using h nx a le assms(3) by (simp_all add: rd_used_def rd_next_def hdr_ok_def hdr_rep_def)
  ultimately show ?case
    using Cons.IH [OF s] by (simp add: b next_free.simps [of "of_nat a"] add.assoc del: of_nat_add)
qed

text \<open>What the two ways of taking a block leave in memory.\<close>

lemma malloc_split_bytes:
  assumes h: "hdr_rep (heap_bytes h) q p n False" and p: "unat ptr = p" and n: "unat sz + 36 \<le> n" and "4 dvd unat sz"
    and e: "p + n \<le> unat (mem_size_aligned h) + 12" and M: "unat (mem_size_aligned h) + 24 < 2 ^ 32"
  shows "\<exists>m. malloc_split ptr sz h = Some (count_used (sz + 12) (h\<lparr>heap_bytes := m\<rparr>)) \<and>
     (\<forall>i. i < p \<or> p + n + 12 \<le> i \<or> (p + n \<le> i \<and> i < p + n + 8) \<longrightarrow> m i = heap_bytes h i) \<and>
     unat (h_next m p) = p + (unat sz + 12) \<and> unat (h_prev m p) = q \<and> h_used m p = 1 \<and>
     hdr_rep m p (p + (unat sz + 12)) (n - (unat sz + 12)) False \<and>
     (p + n \<noteq> unat (mem_size_aligned h) + 12 \<longrightarrow> unat (h_prev m (p + n)) = p + (unat sz + 12))"
proof -
  define p2 where "p2 = ptr + 12 + sz"
  have p2: "unat p2 = p + (unat sz + 12)" using p n e M by (simp add: p2_def unat_plus)
  define nw :: u32 where "nw = of_nat (p + n)"
  have nw: "unat nw = p + n" unfolding nw_def using e M by (intro unat_nat) simp
  have nx: "h_next (heap_bytes h) p = nw" using hdr_next_word [OF h] by (simp add: nw_def)
  define m5 where "m5 = put16 (p + 2) 1 (put32 (p + 4) p2 (put32 (unat p2 + 8) ptr (put32 (unat p2 + 4) nw
     (put16 (unat p2 + 2) 0 (heap_bytes h)))))"
  define m where "m = (if nw \<noteq> mem_size_aligned h + 12 then put32 (p + n + 8) p2 m5 else m5)"
  have E: "unat (mem_size_aligned h + 12) = unat (mem_size_aligned h) + 12" using M by (intro unat_plus12) simp
  have "malloc_split ptr sz h = Some (count_used (sz + 12) (h\<lparr>heap_bytes := m\<rparr>))"
    using p p2 n e nw
    by (simp add: malloc_split_def p2_def [symmetric] rd_next_def wr_used_def wr_next_def wr_prev_def hdr_ok_def nx
        m5_def m_def Let_def del: of_nat_add)
  moreover have "\<forall>i. i < p \<or> p + n \<le> i \<longrightarrow> m5 i = heap_bytes h i" using p2 n by (auto simp: m5_def)
  then have "\<forall>i. i < p \<or> p + n + 12 \<le> i \<or> (p + n \<le> i \<and> i < p + n + 8) \<longrightarrow> m i = heap_bytes h i"
    by (auto simp: m_def)
  moreover have "h_next m5 p = p2" "h_prev m5 p = h_prev (heap_bytes h) p" "h_used m5 p = 1"
    "h_next m5 (unat p2) = nw" "h_prev m5 (unat p2) = ptr" "h_used m5 (unat p2) = 0"
    using p2 n by (simp_all add: m5_def)
  then have "h_next m p = p2" "h_prev m p = h_prev (heap_bytes h) p" "h_used m p = 1"
    "h_next m (unat p2) = nw" "h_prev m (unat p2) = ptr" "h_used m (unat p2) = 0"
    using p2 n by (simp_all add: m_def)
  then have "unat (h_next m p) = p + (unat sz + 12)" "unat (h_prev m p) = q" "h_used m p = 1"
    and "hdr_rep m p (p + (unat sz + 12)) (n - (unat sz + 12)) False"
    using p2 nw p n h \<open>4 dvd unat sz\<close> by (simp_all add: hdr_rep_def)
  moreover have "p + n \<noteq> unat (mem_size_aligned h) + 12 \<longrightarrow> unat (h_prev m (p + n)) = p + (unat sz + 12)"
    using p2 nw E by (auto simp: m_def)
  ultimately show ?thesis by blast
qed

lemma heap_core_block:
  assumes "heap_core (xs @ (n, u) # ys) h"
  shows "hdr_rep (heap_bytes h) (lastp 0 0 xs) (blen xs) n u" "blen xs + n \<le> unat (mem_size_aligned h) + 12"
    "unat (mem_size_aligned h) + 24 < 2 ^ 32" "blen xs + n = unat (mem_size_aligned h) + 12 \<longleftrightarrow> ys = []"
proof -
  have s: "seg (heap_bytes h) 0 0 (xs @ (n, u) # ys) (unat (mem_size_aligned h) + 12)"
    and "unat (mem_size_aligned h) + 24 < 2 ^ 32" using assms by (simp_all add: heap_core_def)
  from s have h: "hdr_rep (heap_bytes h) (lastp 0 0 xs) (blen xs) n u"
    and t: "seg (heap_bytes h) (blen xs) (blen xs + n) ys (unat (mem_size_aligned h) + 12)" by (simp_all add: seg_append)
  show "hdr_rep (heap_bytes h) (lastp 0 0 xs) (blen xs) n u" "blen xs + n \<le> unat (mem_size_aligned h) + 12"
    "unat (mem_size_aligned h) + 24 < 2 ^ 32" using h seg_end [OF t] \<open>unat (mem_size_aligned h) + 24 < 2 ^ 32\<close> by simp_all
  show "blen xs + n = unat (mem_size_aligned h) + 12 \<longleftrightarrow> ys = []"
    using seg_end [OF t] t by (cases ys) (auto simp: hdr_rep_def)
qed

lemma count_used_simps [simp]:
  "heap_bytes (count_used n h) = heap_bytes h" "lfree (count_used n h) = lfree h" "heap_sem (count_used n h) = heap_sem h"
  "heap_ptr (count_used n h) = heap_ptr h" "heap_end (count_used n h) = heap_end h"
  "mem_size_aligned (count_used n h) = mem_size_aligned h" "used_mem (count_used n h) = used_mem h + n"
  "used_mem h + n \<le> max_mem (count_used n h)"
  by (auto simp: count_used_def Let_def not_less)

lemma heap_core_take:
  assumes c: "heap_core (xs @ (n, False) # ys) h"
    and "seg (heap_bytes h') (lastp 0 0 xs) (blen xs) new (blen xs + n)"
    and "same_outside (blen xs) (blen xs + n) (heap_bytes h) (heap_bytes h')"
    and "ys \<noteq> [] \<Longrightarrow> unat (h_prev (heap_bytes h') (blen xs + n)) = lastp (lastp 0 0 xs) (blen xs) new"
    and "same_area h h'" and u: "used_mem h' = used_mem h + of_nat (used_len new)" and "used_mem h' \<le> max_mem h'"
  shows "heap_core (xs @ new @ ys) h'"
proof (rule heap_core_replace [of xs "[(n, False)]" ys h])
  show "heap_core (xs @ [(n, False)] @ ys) h" using c by simp
  have "used_mem h = of_nat (used_len (xs @ (n, False) # ys))" using c by (simp add: heap_core_def)
  with u show "used_mem h' = of_nat (used_len (xs @ new @ ys))" by simp
qed (use assms in simp_all)

text \<open>The blocks after a block has been taken, before \<^verbatim>\<open>lfree\<close> moves on.\<close>

lemma malloc_taken:
  assumes c: "heap_core (xs @ (n, False) # ys) h" and p: "unat ptr = blen xs" and s: "unat sz + 12 \<le> n" "4 dvd unat sz"
  shows "\<exists>h1 h2. (if sz + 12 + 12 \<le> of_nat (blen xs + n) - (ptr + 12) then malloc_split ptr sz h else malloc_whole ptr h) = Some h1 \<and>
     wr_magic ptr HEAP_MAGIC h1 = Some h2 \<and> heap_core (xs @ take_block (unat sz) n @ ys) h2 \<and>
     same_area h h2 \<and> lfree h2 = lfree h \<and> heap_sem h2 = heap_sem h \<and>
     same_outside (blen xs) (blen xs + n) (heap_bytes h) (heap_bytes h2)"
proof -
  note b = heap_core_block [OF c]
  have hd: "12 \<le> n" "4 dvd n" "unat (h_next (heap_bytes h) (blen xs)) = blen xs + n"
    "unat (h_prev (heap_bytes h) (blen xs)) = lastp 0 0 xs" using b(1) by (simp_all add: hdr_rep_def)
  define nw :: u32 where "nw = of_nat (blen xs + n)"
  have nw: "unat nw = blen xs + n" unfolding nw_def using b(2,3) by (intro unat_nat) simp
  have pn: "unat (ptr + 12) = blen xs + 12" using p b(2,3) s by (subst unat_plus12) simp_all
  have "unat (nw - (ptr + 12)) = n - 12" using nw pn s by (subst unat_minus) simp_all
  moreover have "unat (sz + 12 + 12) = unat sz + 24"
    using s b(2,3) unat_plus [of 24 sz] by simp
  ultimately have cond: "sz + 12 + 12 \<le> nw - (ptr + 12) \<longleftrightarrow> unat sz + 36 \<le> n" using s by (auto simp: word_le_nat_alt)
  show ?thesis
  proof (cases "unat sz + 36 \<le> n")
    case True
    from malloc_split_bytes [OF b(1) p True s(2) b(2,3)] obtain m where m:
      "malloc_split ptr sz h = Some (count_used (sz + 12) (h\<lparr>heap_bytes := m\<rparr>))"
      "\<forall>i. i < blen xs \<or> blen xs + n + 12 \<le> i \<or> (blen xs + n \<le> i \<and> i < blen xs + n + 8) \<longrightarrow> m i = heap_bytes h i"
      "unat (h_next m (blen xs)) = blen xs + (unat sz + 12)" "unat (h_prev m (blen xs)) = lastp 0 0 xs" "h_used m (blen xs) = 1"
      "hdr_rep m (blen xs) (blen xs + (unat sz + 12)) (n - (unat sz + 12)) False"
      "blen xs + n \<noteq> unat (mem_size_aligned h) + 12 \<longrightarrow> unat (h_prev m (blen xs + n)) = blen xs + (unat sz + 12)"
      by blast
    define h1 where "h1 = count_used (sz + 12) (h\<lparr>heap_bytes := m\<rparr>)"
    define h2 where "h2 = h1\<lparr>heap_bytes := put16 (blen xs) HEAP_MAGIC m\<rparr>"
    have tb: "take_block (unat sz) n = [(unat sz + 12, True), (n - (unat sz + 12), False)]" using True by (simp add: take_block_def)
    have "wr_magic ptr HEAP_MAGIC h1 = Some h2"
      using p b(2) s by (simp add: wr_magic_def hdr_ok_def h2_def h1_def)
    moreover have so: "same_outside (blen xs) (blen xs + n) (heap_bytes h) (heap_bytes h2)"
      using m(2) s by (auto simp: same_outside_def h2_def h1_def)
    have "hdr_rep (heap_bytes h2) (blen xs) (blen xs + (unat sz + 12)) (n - (unat sz + 12)) False"
      using m(6) by (subst hdr_rep_cong [of _ _ m]) (auto simp: h2_def h1_def)
    note r = this
    moreover have "heap_core (xs @ take_block (unat sz) n @ ys) h2"
    proof (intro heap_core_take [OF c _ so])
      show "seg (heap_bytes h2) (lastp 0 0 xs) (blen xs) (take_block (unat sz) n) (blen xs + n)"
        using m(3,4,5) r s by (simp add: tb) (simp add: hdr_rep_def h2_def h1_def)
      show "unat (h_prev (heap_bytes h2) (blen xs + n)) = lastp (lastp 0 0 xs) (blen xs) (take_block (unat sz) n)" if "ys \<noteq> []"
        using m(7) b(4) that s by (simp add: tb h2_def h1_def)
    qed (use count_used_simps(8) [of "h\<lparr>heap_bytes := m\<rparr>" "sz + 12"] in \<open>simp_all add: h2_def h1_def same_area_def tb\<close>)
    moreover have "same_area h h2" "lfree h2 = lfree h" "heap_sem h2 = heap_sem h" by (simp_all add: h2_def h1_def same_area_def)
    ultimately show ?thesis using m(1) True cond so unfolding nw_def h1_def [symmetric] by auto
  next
    case False
    define m where "m = put16 (blen xs) HEAP_MAGIC (put16 (blen xs + 2) 1 (heap_bytes h))"
    define h1 where "h1 = count_used (nw - ptr) (h\<lparr>heap_bytes := put16 (blen xs + 2) 1 (heap_bytes h)\<rparr>)"
    define h2 where "h2 = h1\<lparr>heap_bytes := m\<rparr>"
    have tb: "take_block (unat sz) n = [(n, True)]" using False by (simp add: take_block_def)
    have nx: "h_next (heap_bytes h) (blen xs) = nw" using hdr_next_word [OF b(1)] by (simp add: nw_def)
    have "malloc_whole ptr h = Some h1"
      using p b(2) s nx by (simp add: malloc_whole_def wr_used_def rd_next_def hdr_ok_def h1_def)
    moreover have "wr_magic ptr HEAP_MAGIC h1 = Some h2"
      using p b(2) s by (simp add: wr_magic_def hdr_ok_def h2_def h1_def m_def)
    moreover have so: "same_outside (blen xs) (blen xs + n) (heap_bytes h) (heap_bytes h2)"
      using s by (auto simp: same_outside_def h2_def m_def)
    moreover have "nw - ptr = of_nat n" using nw p by (metis nw_def add_diff_cancel_left' of_nat_add of_nat_unat ucast_id)
    note d = this
    moreover have "unat (h_prev (heap_bytes h) (blen xs + n)) = blen xs" if "ys \<noteq> []"
      using c that by (cases ys) (auto simp: heap_core_def seg_append hdr_rep_def)
    note old_prev = this
    have "heap_core (xs @ take_block (unat sz) n @ ys) h2"
    proof (intro heap_core_take [OF c _ so])
      show "seg (heap_bytes h2) (lastp 0 0 xs) (blen xs) (take_block (unat sz) n) (blen xs + n)"
        using hd by (simp add: tb) (simp add: hdr_rep_def h2_def m_def)
      show "unat (h_prev (heap_bytes h2) (blen xs + n)) = lastp (lastp 0 0 xs) (blen xs) (take_block (unat sz) n)" if "ys \<noteq> []"
        using that old_prev s by (simp add: tb h2_def m_def)
    qed (use d count_used_simps(8) [of "h\<lparr>heap_bytes := put16 (blen xs + 2) 1 (heap_bytes h)\<rparr>" "nw - ptr"] in \<open>simp_all add: h2_def h1_def same_area_def tb\<close>)
    moreover have "same_area h h2" "lfree h2 = lfree h" "heap_sem h2 = heap_sem h" by (simp_all add: h2_def h1_def same_area_def)
    ultimately show ?thesis using False cond so unfolding nw_def by auto
  qed
qed

lemma no_adj_simps [simp]:
  "no_adj []" "no_adj [b]"
  "no_adj (xs @ ys) \<longleftrightarrow> no_adj xs \<and> no_adj ys \<and> (xs = [] \<or> ys = [] \<or> snd (last xs) \<or> snd (hd ys))"
  "no_adj (b # bs) \<longleftrightarrow> (bs = [] \<or> snd b \<or> snd (hd bs)) \<and> no_adj bs"
  by (auto simp: no_adj_def successively_append_iff successively_Cons)

lemma hd_take_block [simp]: "take_block s n \<noteq> []" "snd (hd (take_block s n))"
  by (simp_all add: take_block_def)

lemma no_adj_take: "no_adj (xs @ (n, False) # ys) \<Longrightarrow> no_adj (xs @ take_block s n @ ys)"
  by (auto simp: take_block_def)

text \<open>Another block's position is still one after blocks \<open>old\<close> have been replaced.\<close>

lemma lfree_ok_replace:
  assumes "lfree_ok (xs @ (n, u) # ys) l" and "l \<noteq> blen xs" and "blen new = n"
  shows "lfree_ok (xs @ new @ ys) l"
proof -
  from assms(1) obtain X Y where *: "xs @ (n, u) # ys = X @ Y" "l = blen X" "Y = [] \<or> \<not> snd (hd Y)"
    by (auto simp: lfree_ok_def)
  from *(1) consider W where "xs = X @ W" "Y = W @ (n, u) # ys" | W where "X = xs @ W" "(n, u) # ys = W @ Y"
    by (auto simp: append_eq_append_conv2)
  then show ?thesis
  proof cases
    case 1
    then have "W \<noteq> []" using *(2) assms(2) by auto
    with 1 * show ?thesis unfolding lfree_ok_def by (intro exI [of _ X] exI [of _ "W @ new @ ys"]) auto
  next
    case 2
    then have "W \<noteq> []" using *(2) assms(2) by auto
    with 2 obtain V where "W = (n, u) # V" "ys = V @ Y" by (cases W) auto
    with 2 * assms(3) show ?thesis unfolding lfree_ok_def by (intro exI [of _ "xs @ new @ V"] exI [of _ Y]) auto
  qed
qed

lemma lfree_ok_takeWhile: "lfree_ok (xs @ bs) (blen xs + blen (takeWhile snd bs))"
proof -
  have "xs @ bs = (xs @ takeWhile snd bs) @ dropWhile snd bs" by simp
  moreover have "dropWhile snd bs = [] \<or> \<not> snd (hd (dropWhile snd bs))" using hd_dropWhile [of snd bs] by auto
  ultimately show ?thesis
    unfolding lfree_ok_def by (intro exI [of _ "xs @ takeWhile snd bs"] exI [of _ "dropWhile snd bs"]) simp
qed

lemma heap_core_pos:
  assumes "heap_core (xs @ ys) h"
  shows "blen xs \<le> unat (mem_size_aligned h) + 12" "unat (of_nat (blen xs) :: u32) = blen xs"
    "unat (heap_end h) = unat (mem_size_aligned h) + 12"
    "seg (heap_bytes h) (lastp 0 0 xs) (blen xs) ys (unat (mem_size_aligned h) + 12)"
proof -
  show s: "seg (heap_bytes h) (lastp 0 0 xs) (blen xs) ys (unat (mem_size_aligned h) + 12)"
    using assms by (simp add: heap_core_def seg_append)
  show le: "blen xs \<le> unat (mem_size_aligned h) + 12" using seg_end [OF s] by simp
  have M: "unat (mem_size_aligned h) + 24 < 2 ^ 32" using assms by (simp add: heap_core_def)
  then show "unat (of_nat (blen xs) :: u32) = blen xs" using le by (intro unat_nat) simp
  show "unat (heap_end h) = unat (mem_size_aligned h) + 12" using assms M by (simp add: heap_core_def unat_plus12)
qed

lemma next_free_core:
  assumes c: "heap_core (xs @ bs) h"
  defines "l \<equiv> of_nat (blen xs + blen (takeWhile snd bs)) :: u32"
  shows "next_free (of_nat (blen xs)) h = Some l" "unat l = blen xs + blen (takeWhile snd bs)"
    "\<exists>u. rd_used l h = Some u \<and> (l = heap_end h \<or> u = 0)"
proof -
  note p = heap_core_pos [OF c]
  have "h_used (heap_bytes h) (unat (heap_end h)) = 1" using c p(3) by (simp add: heap_core_def)
  from next_free_seg [OF _ this p(3)] p(3,4) show "next_free (of_nat (blen xs)) h = Some l" by (simp add: l_def)
  have "heap_core ((xs @ takeWhile snd bs) @ dropWhile snd bs) h" using c by simp
  note q = heap_core_pos [OF this]
  show ul: "unat l = blen xs + blen (takeWhile snd bs)" using q(2) by (simp add: l_def)
  show "\<exists>u. rd_used l h = Some u \<and> (l = heap_end h \<or> u = 0)"
  proof (cases "dropWhile snd bs")
    case Nil
    with q(4) ul q(3) have "l = heap_end h" by (simp add: word_unat_eq_iff)
    then show ?thesis using q(3) by (simp add: rd_used_def hdr_ok_def)
  next
    case (Cons b ws)
    with hd_dropWhile [of snd bs] obtain n where "b = (n, False)" by (cases b) auto
    with q(4) Cons ul q(1) show ?thesis by (auto simp: rd_used_def hdr_ok_def hdr_rep_def)
  qed
qed

lemma malloc_use_rep:
  assumes r: "heap_rep (xs @ (n, False) # ys) h" and p: "unat ptr = blen xs" and s: "unat sz + 12 \<le> n" "4 dvd unat sz"
  defines "bs' \<equiv> xs @ take_block (unat sz) n @ ys"
  shows "\<exists>h'. malloc_use ptr sz h = Some h' \<and> heap_rep bs' h' \<and> same_area h h' \<and> heap_sem h' = heap_sem h \<and>
    same_outside (blen xs) (blen xs + n) (heap_bytes h) (heap_bytes h') \<and>
    unat (lfree h') = (if unat (lfree h) = blen xs then blen xs + blen (takeWhile snd (take_block (unat sz) n @ ys))
      else unat (lfree h))"
proof -
  have c: "heap_core (xs @ (n, False) # ys) h" and na: "no_adj (xs @ (n, False) # ys)"
    and lf: "lfree_ok (xs @ (n, False) # ys) (unat (lfree h))" using r by (simp_all add: heap_rep_def)
  note b = heap_core_block [OF c]
  from malloc_taken [OF c p s] obtain h1 h2 where t:
    "(if sz + 12 + 12 \<le> of_nat (blen xs + n) - (ptr + 12) then malloc_split ptr sz h else malloc_whole ptr h) = Some h1"
    "wr_magic ptr HEAP_MAGIC h1 = Some h2" "heap_core bs' h2" "same_area h h2" "lfree h2 = lfree h"
    "heap_sem h2 = heap_sem h" "same_outside (blen xs) (blen xs + n) (heap_bytes h) (heap_bytes h2)"
    unfolding bs'_def by blast
  have "rd_next ptr h = Some (of_nat (blen xs + n))"
    using p b(2) hdr_next_word [OF b(1)] s by (simp add: rd_next_def hdr_ok_def)
  with t(1,2,5) have use: "malloc_use ptr sz h = (if ptr = lfree h then
      do { l \<leftarrow> next_free (lfree h) h2; used \<leftarrow> rd_used l h2; rt_assert (l = heap_end h2 \<or> used = 0); Some (h2\<lparr>lfree := l\<rparr>) }
      else Some h2)"
    by (simp add: malloc_use_def del: of_nat_add)
  have na': "no_adj bs'" using no_adj_take [OF na] by (simp add: bs'_def)
  show ?thesis
  proof (cases "unat (lfree h) = blen xs")
    case True
    with p have "lfree h = ptr" by (simp add: word_unat_eq_iff)
    moreover have "of_nat (unat ptr) = ptr" by simp
    ultimately have l: "lfree h = ptr" "ptr = of_nat (blen xs)" unfolding p by simp_all
    note n = next_free_core [OF t(3) [unfolded bs'_def]]
    let ?l = "of_nat (blen xs + blen (takeWhile snd (take_block (unat sz) n @ ys))) :: u32"
    have "malloc_use ptr sz h = Some (h2\<lparr>lfree := ?l\<rparr>)" using use l n(1,3) by (auto simp del: of_nat_add)
    moreover have "lfree_ok bs' (unat ?l)" unfolding n(2) bs'_def by (rule lfree_ok_takeWhile)
    then have "heap_rep bs' (h2\<lparr>lfree := ?l\<rparr>)" using t(3) na' by (simp add: heap_rep_def del: of_nat_add)
    ultimately show ?thesis using t n(2) True by (auto simp: same_area_def simp del: of_nat_add)
  next
    case False
    then have "malloc_use ptr sz h = Some h2" using use p by auto
    moreover have "lfree_ok bs' (unat (lfree h2))"
      using lfree_ok_replace [OF lf False] s t(5) by (simp add: bs'_def)
    then have "heap_rep bs' h2" using t(3) na' by (simp add: heap_rep_def)
    ultimately show ?thesis using t False by auto
  qed
qed

section \<open>The blocks in use\<close>

text \<open>The positions and lengths of the blocks in use.\<close>

fun in_use :: "nat \<Rightarrow> blocks \<Rightarrow> (nat \<times> nat) set" where
  "in_use a [] = {}"
| "in_use a ((n, u) # bs) = (if u then {(a, n)} else {}) \<union> in_use (a + n) bs"

lemma in_use_append [simp]: "in_use a (xs @ ys) = in_use a xs \<union> in_use (a + blen xs) ys"
  by (induction a xs rule: in_use.induct) (auto simp: add.assoc)

lemma in_use_bounds: "(q, l) \<in> in_use a bs \<Longrightarrow> a \<le> q \<and> q + l \<le> a + blen bs"
  by (induction a bs rule: in_use.induct) (fastforce split: if_splits)+

definition data_kept :: "(nat \<times> nat) set \<Rightarrow> bytes \<Rightarrow> bytes \<Rightarrow> bool" where
  "data_kept L m m' \<longleftrightarrow> (\<forall>(q, l) \<in> L. \<forall>i \<in> {q + 12 ..< q + l}. m' i = m i)"

lemma data_kept_trans: "data_kept L m m' \<Longrightarrow> data_kept L m' m'' \<Longrightarrow> data_kept L m m''"
  by (fastforce simp: data_kept_def)

lemma data_kept_mono: "L \<subseteq> L' \<Longrightarrow> data_kept L' m m' \<Longrightarrow> data_kept L m m'"
  unfolding data_kept_def by blast

lemma data_kept_outside:
  assumes "same_outside (blen xs) (blen xs + n) m m'"
  shows "data_kept (in_use 0 xs \<union> in_use (blen xs + n) ys) m m'"
proof -
  have "m' i = m i" if "(q, l) \<in> in_use 0 xs \<union> in_use (blen xs + n) ys" "q + 12 \<le> i" "i < q + l" for q l i
    using that assms in_use_bounds [of q l 0 xs] in_use_bounds [of q l "blen xs + n" ys] by (auto simp: same_outside_def)
  then show ?thesis unfolding data_kept_def by fastforce
qed

lemma seg_dvd: "seg m q a bs z \<Longrightarrow> 4 dvd a \<Longrightarrow> 4 dvd z"
  by (induction m q a bs z rule: seg.induct) (auto simp: hdr_rep_def)

lemma heap_core_dvd: "heap_core (xs @ ys) h \<Longrightarrow> 4 dvd blen xs"
  using seg_dvd [of _ 0 0 xs "blen xs"] by (auto simp: heap_core_def seg_append)

section \<open>Sizes\<close>

lemma unat_mod4: "unat ((x :: u32) mod 4) = unat x mod 4"
  by (simp add: unat_mod)

lemma and_three: "(x :: u32) AND 3 = x mod 4"
proof -
  have "x AND mask 2 = x mod 2 ^ 2" by (simp only: take_bit_eq_mask [symmetric] take_bit_eq_mod)
  then show ?thesis by (simp add: mask_eq_exp_minus_1)
qed

lemma and_not_three: "(x :: u32) AND NOT 3 = x - x mod 4"
proof -
  have "x = (x AND NOT 3) + (x AND 3)" by (subst disjunctive_add) (auto simp: bit_simps intro: bit_eqI)
  then show ?thesis by (metis add_diff_cancel_right' and_three)
qed

lemma unat_align4:
  "unat (RT_ALIGN x 4) = (if unat x + 3 < 2 ^ 32 then (unat x + 3) div 4 * 4 else 0)"
proof -
  have "x + 4 - 1 = x + 3" "(4 :: u32) - 1 = 3" by simp_all
  then have "unat (RT_ALIGN x 4) = unat ((x + 3) - (x + 3) mod 4)" unfolding RT_ALIGN_def by (simp only: and_not_three)
  also have "\<dots> = unat (x + 3) - unat (x + 3) mod 4" by (subst unat_minus) (simp_all add: unat_mod4)
  also have "\<dots> = unat (x + 3) div 4 * 4" by (simp add: minus_mod_eq_div_mult)
  finally have *: "unat (RT_ALIGN x 4) = unat (x + 3) div 4 * 4" .
  show ?thesis
  proof (cases "unat x + 3 < 2 ^ 32")
    case True
    with * unat_plus [of x 3] show ?thesis by simp
  next
    case False
    then have "unat (x + 3) < 3"
      using unsigned_less [of x, where ?'a = nat] by (simp add: unat_word_ariths(1) mod_if) linarith
    with * False show ?thesis by simp
  qed
qed

section \<open>Allocation\<close>

text \<open>The heap's semaphore is free: nobody is in a call and nobody waits for it.\<close>

definition heap_idle :: "nat \<Rightarrow> rt_heap \<Rightarrow> kernel \<Rightarrow> bool" where
  "heap_idle i h k \<longleftrightarrow> sem_value (heap_sem h) = 1 \<and> q_list k (Wait i) = [] \<and> rt_interrupt_nest k = 0"

lemma heap_idle_take:
  assumes "heap_idle i h k"
  shows "not_in_interrupt k = Some ()"
    "rt_sem_take i RT_WAITING_FOREVER (heap_sem h) k = Some (Ret RT_EOK, (heap_sem h)\<lparr>sem_value := 0\<rparr>, k)"
  using assms by (simp_all add: heap_idle_def not_in_interrupt_def rt_interrupt_get_nest_def rt_assert_def rt_sem_take_def)

lemma heap_idle_release:
  assumes "heap_idle i h k" and "heap_sem h' = (heap_sem h)\<lparr>sem_value := 0\<rparr>"
  shows "heap_release i h' k = Some (h'\<lparr>heap_sem := heap_sem h\<rparr>, k)"
  using assms by (simp add: heap_idle_def heap_release_def rt_sem_release_def fam_isempty_def)

text \<open>The size that is looked for.\<close>

definition request :: "u32 \<Rightarrow> nat" where
  "request sz = max 12 (unat (RT_ALIGN sz 4))"

lemma request_word:
  "unat (if RT_ALIGN sz 4 < 12 then 12 else RT_ALIGN sz 4) = request sz" "4 dvd request sz"
proof -
  have "4 dvd unat (RT_ALIGN sz 4)" by (simp add: unat_align4)
  then show "4 dvd request sz" by (simp add: request_def max_def)
qed (auto simp: request_def word_less_nat_alt max_def)

lemma malloc_locked_found:
  assumes r: "heap_rep bs h" and sz: "unat sz = s" "s \<le> unat (mem_size_aligned h)" "4 dvd s"
    and l: "bs = ls @ rs" "unat (lfree h) = blen ls"
    and f: "first_fit s (unat (mem_size_aligned h)) (blen ls) rs = Some p"
    and rel: "\<And>h'. heap_sem h' = heap_sem h \<Longrightarrow> heap_release i h' k = Some (h'\<lparr>heap_sem := sem\<rparr>, k)"
  shows "\<exists>xs n ys h'. rs = xs @ (n, False) # ys \<and> s + 12 \<le> n \<and> (\<forall>b \<in> set xs. snd b \<or> fst b < s + 12) \<and>
    p = blen (ls @ xs) \<and> malloc_locked i sz h k = Some (Some (heap_ptr h + of_nat p + 12), h', k) \<and>
    heap_rep (ls @ xs @ take_block s n @ ys) h' \<and> same_area h h' \<and> heap_sem h' = sem \<and>
    same_outside p (p + n) (heap_bytes h) (heap_bytes h') \<and>
    unat (lfree h') = (if xs = [] then p + blen (takeWhile snd (take_block s n @ ys)) else blen ls)"
proof -
  have c: "heap_core bs h" using r by (simp add: heap_rep_def)
  have hp: "unat (heap_ptr h) + unat (mem_size_aligned h) + 24 < 2 ^ 32" "4 dvd unat (heap_ptr h)"
    "heap_end h = mem_size_aligned h + 12" using c by (simp_all add: heap_core_def)
  have "seg (heap_bytes h) (lastp 0 0 ls) (blen ls) rs (unat (mem_size_aligned h) + 12)"
    using heap_core_pos(4) c l by blast
  from malloc_find_seg [OF this, of sz] sz hp(1) f obtain w where
    w: "malloc_find (of_nat (blen ls)) sz h = Some (Some w)" "unat w = p" by auto
  have lw: "of_nat (blen ls) = lfree h" by (simp flip: l(2))
  from first_fit_Some [OF f] obtain xs n ys where x: "rs = xs @ (n, False) # ys" "p = blen (ls @ xs)" "s + 12 \<le> n"
    "p + s < unat (mem_size_aligned h)" "\<forall>b \<in> set xs. snd b \<or> fst b < s + 12" by auto
  have r': "heap_rep ((ls @ xs) @ (n, False) # ys) h" using r l x by simp
  from malloc_use_rep [OF r' _ _] w(2) x(2,3) sz obtain h' where h': "malloc_use w sz h = Some h'"
    "heap_rep ((ls @ xs) @ take_block s n @ ys) h'" "same_area h h'" "heap_sem h' = heap_sem h"
    "same_outside p (p + n) (heap_bytes h) (heap_bytes h')"
    "unat (lfree h') = (if unat (lfree h) = p then p + blen (takeWhile snd (take_block s n @ ys)) else unat (lfree h))"
    by (metis)
  have "4 dvd p" using heap_core_dvd [of "ls @ xs"] c l x by simp
  have ww: "w = of_nat p" by (simp flip: w(2))
  have up: "unat (heap_ptr h + w) = unat (heap_ptr h) + p" using w(2) x(4) hp(1) by (subst unat_plus) simp_all
  have up12: "unat (heap_ptr h + w + 12) = unat (heap_ptr h) + p + 12" using up x(4) hp(1) by (subst unat_plus) simp_all
  have ups: "unat (heap_ptr h + w + 12 + sz) = unat (heap_ptr h) + p + 12 + s"
    using up12 x(4) hp(1) sz(1) by (subst unat_plus) simp_all
  have ue: "unat (heap_ptr h + heap_end h) = unat (heap_ptr h) + (unat (mem_size_aligned h) + 12)"
    using hp by (subst unat_plus) (simp_all add: unat_plus12)
  have a: "heap_ptr h + w + 12 + sz \<le> heap_ptr h + heap_end h" using ups ue x(4) by (simp add: word_le_nat_alt)
  have "unat ((heap_ptr h + w + 12) mod 4) = 0" "unat ((heap_ptr h + w) mod 4) = 0"
    using up up12 \<open>4 dvd p\<close> hp(2) by (simp_all add: unat_mod4 mod_eq_0_iff_dvd)
  then have "(heap_ptr h + w + 12) mod 4 = 0" "(heap_ptr h + w) AND 3 = 0"
    by (simp_all add: and_three unat_eq_0)
  then have "malloc_locked i sz h k = Some (Some (heap_ptr h + of_nat p + 12), h'\<lparr>heap_sem := sem\<rparr>, k)"
    using w(1) h'(1,3) rel [OF h'(4)] a lw unfolding ww by (simp add: malloc_locked_def same_area_def Let_def)
  moreover have "unat (lfree h) = p \<longleftrightarrow> xs = []"
  proof -
    have "xs \<noteq> [] \<Longrightarrow> blen xs \<noteq> 0"
      using c l x by (cases xs) (auto simp: heap_core_def seg_append hdr_rep_def)
    then show ?thesis using l x by (cases "xs = []") auto
  qed
  ultimately show ?thesis using h' x l
    by (intro exI [of _ xs] exI [of _ n] exI [of _ ys] exI [of _ "h'\<lparr>heap_sem := sem\<rparr>"]) (simp add: same_area_def)
qed

lemma in_use_take:
  assumes "s + 12 \<le> n"
  shows "\<exists>l \<le> n. s + 12 \<le> l \<and> in_use 0 (xs @ take_block s n @ ys) = insert (blen xs, l) (in_use 0 (xs @ (n, False) # ys))"
  using assms by (cases "s + 36 \<le> n") (auto simp: take_block_def intro: exI [of _ "s + 12"] exI [of _ n])

lemma in_use_apart:
  assumes "(q, l) \<in> in_use 0 (xs @ (n, False) # ys)"
  shows "q + l \<le> blen xs \<or> blen xs + n \<le> q"
  using assms in_use_bounds [of q l 0 xs] in_use_bounds [of q l "blen xs + n" ys] by auto

text \<open>A block at \<open>p\<close> has been added to the blocks in use, apart from all others, and their data is as
  before.\<close>

definition allocated :: "blocks \<Rightarrow> rt_heap \<Rightarrow> nat \<Rightarrow> nat \<Rightarrow> blocks \<Rightarrow> rt_heap \<Rightarrow> bool" where
  "allocated bs h p len bs' h' \<longleftrightarrow> heap_rep bs' h' \<and> same_area h h' \<and> 4 dvd unat (heap_ptr h + of_nat p + 12) \<and>
     in_use 0 bs' = insert (p, len) (in_use 0 bs) \<and> (\<forall>(q, l) \<in> in_use 0 bs. q + l \<le> p \<or> p + len \<le> q) \<and>
     data_kept (in_use 0 bs) (heap_bytes h) (heap_bytes h')"

lemma heap_core_addr:
  assumes "heap_core (xs @ (n, u) # ys) h"
  shows "unat (heap_ptr h + of_nat (blen xs) + 12) = unat (heap_ptr h) + blen xs + 12"
    "4 dvd unat (heap_ptr h + of_nat (blen xs) + 12)" "unat (of_nat (blen xs) + 12 :: u32) = blen xs + 12"
proof -
  have *: "unat (of_nat (blen xs) :: u32) = blen xs" "blen xs + n \<le> unat (mem_size_aligned h) + 12" "12 \<le> n"
    "unat (heap_ptr h) + unat (mem_size_aligned h) + 24 < 2 ^ 32" "4 dvd unat (heap_ptr h)" "4 dvd blen xs"
    using heap_core_pos(2) [OF assms] heap_core_block(1,2) [OF assms] heap_core_dvd [OF assms] assms
    by (simp_all add: hdr_rep_def heap_core_def)
  have "unat (heap_ptr h + of_nat (blen xs)) = unat (heap_ptr h) + blen xs" using * by (subst unat_plus) simp_all
  then show "unat (heap_ptr h + of_nat (blen xs) + 12) = unat (heap_ptr h) + blen xs + 12"
    using * by (subst unat_plus) simp_all
  with * show "4 dvd unat (heap_ptr h + of_nat (blen xs) + 12)" by simp
  show "unat (of_nat (blen xs) + 12 :: u32) = blen xs + 12" using * by (subst unat_plus) simp_all
qed

lemma allocatedI:
  assumes "heap_rep (xs @ (n, False) # ys) h" and "s + 12 \<le> n" and "heap_rep (xs @ take_block s n @ ys) h'"
    and "same_area h h'" and o: "same_outside (blen xs) (blen xs + n) (heap_bytes h) (heap_bytes h')"
  shows "\<exists>len. s + 12 \<le> len \<and> allocated (xs @ (n, False) # ys) h (blen xs) len (xs @ take_block s n @ ys) h'"
proof -
  from in_use_take [OF assms(2)] obtain len where len: "len \<le> n" "s + 12 \<le> len"
    "in_use 0 (xs @ take_block s n @ ys) = insert (blen xs, len) (in_use 0 (xs @ (n, False) # ys))" by blast
  have "4 dvd unat (heap_ptr h + of_nat (blen xs) + 12)"
    using heap_core_addr(2) [of xs n False ys h] assms(1) by (simp add: heap_rep_def)
  moreover have "data_kept (in_use 0 (xs @ (n, False) # ys)) (heap_bytes h) (heap_bytes h')"
    using data_kept_outside [OF o] by simp
  moreover have "\<forall>(q, l) \<in> in_use 0 (xs @ (n, False) # ys). q + l \<le> blen xs \<or> blen xs + len \<le> q"
    using in_use_apart [of _ _ xs n ys] len(1) by fastforce
  ultimately show ?thesis using len assms by (auto simp: allocated_def)
qed

lemma malloc_locked_none:
  assumes r: "heap_rep bs h" and sz: "unat sz = s" "s \<le> unat (mem_size_aligned h)"
    and l: "bs = ls @ rs" "unat (lfree h) = blen ls"
    and f: "first_fit s (unat (mem_size_aligned h)) (blen ls) rs = None"
  shows "malloc_locked i sz h k = do { (h, k) \<leftarrow> heap_release i h k; Some (None, h, k) }"
    "rs = xs @ (n, False) # ys \<Longrightarrow> n < s + 12 \<or> (n = s + 12 \<and> ys = [])"
proof -
  have c: "heap_core (ls @ rs) h" using r l by (simp add: heap_rep_def)
  note sg = heap_core_pos(4) [OF c]
  have "unat (mem_size_aligned h) + 24 < 2 ^ 32" using c by (simp add: heap_core_def)
  from malloc_find_seg [OF sg, of sz] sz this f have "malloc_find (of_nat (blen ls)) sz h = Some None" by auto
  moreover have "of_nat (blen ls) = lfree h" by (simp flip: l(2))
  ultimately show "malloc_locked i sz h k = do { (h, k) \<leftarrow> heap_release i h k; Some (None, h, k) }"
    by (simp add: malloc_locked_def)
  assume rs: "rs = xs @ (n, False) # ys"
  have "12 \<le> fst b" if "b \<in> set ys" for b
  proof -
    from that rs obtain y1 y2 where "rs = (xs @ (n, False) # y1) @ b # y2" by (metis append.assoc append_Cons split_list)
    with sg show ?thesis by (cases b) (simp add: seg_append hdr_rep_def)
  qed
  then show "n < s + 12 \<or> (n = s + 12 \<and> ys = [])"
    using first_fit_None [OF f rs] seg_end [OF sg] by simp
qed

lemma rt_malloc_spec:
  assumes r: "heap_rep (ls @ rs) h" and l: "unat (lfree h) = blen ls" and i: "heap_idle i h k"
  shows "if sz = 0 \<or> mem_size_aligned h < RT_ALIGN sz 4 then rt_malloc i sz h k = Some (Ret None, h, k)
    else (rt_malloc i sz h k = Some (Ret None, h, k) \<and>
       (\<forall>xs n ys. rs = xs @ (n, False) # ys \<longrightarrow> n < request sz + 12 \<or> (n = request sz + 12 \<and> ys = []))) \<or>
      (\<exists>xs n ys h' len. rs = xs @ (n, False) # ys \<and> request sz + 12 \<le> n \<and> (\<forall>b \<in> set xs. snd b \<or> fst b < request sz + 12) \<and>
         rt_malloc i sz h k = Some (Ret (Some (heap_ptr h + of_nat (blen (ls @ xs)) + 12)), h', k) \<and> heap_idle i h' k \<and>
         request sz + 12 \<le> len \<and> allocated (ls @ rs) h (blen (ls @ xs)) len (ls @ xs @ take_block (request sz) n @ ys) h' \<and>
         unat (lfree h') = (if xs = [] then blen ls + blen (takeWhile snd (take_block (request sz) n @ ys)) else blen ls))"
proof (cases "sz = 0 \<or> mem_size_aligned h < RT_ALIGN sz 4")
  note t = heap_idle_take [OF i]
  case True
  then show ?thesis using t(1) by (auto simp: rt_malloc_def Let_def)
next
  note t = heap_idle_take [OF i]
  case s: False
  define w where "w = (if RT_ALIGN sz 4 < 12 then 12 else RT_ALIGN sz 4)"
  define h0 where "h0 = h\<lparr>heap_sem := (heap_sem h)\<lparr>sem_value := 0\<rparr>\<rparr>"
  have w: "unat w = request sz" "4 dvd request sz" using request_word [of sz] by (simp_all add: w_def)
  have "12 \<le> unat (mem_size_aligned h)" using r by (simp add: heap_rep_def heap_core_def)
  then have wM: "request sz \<le> unat (mem_size_aligned h0)"
    using s by (simp add: request_def h0_def word_le_nat_alt not_less)
  have r0: "heap_rep (ls @ rs) h0" "unat (lfree h0) = blen ls" using r l by (simp_all add: h0_def)
  have rel: "heap_release i h' k = Some (h'\<lparr>heap_sem := heap_sem h\<rparr>, k)" if "heap_sem h' = heap_sem h0" for h'
    using that by (intro heap_idle_release [OF i]) (simp add: h0_def)
  have call: "rt_malloc i sz h k = do { (a, h, k) \<leftarrow> malloc_locked i w h0 k; Some (Ret a, h, k) }"
    using s t unfolding rt_malloc_def Let_def w_def h0_def by auto
  show ?thesis
  proof (cases "first_fit (request sz) (unat (mem_size_aligned h0)) (blen ls) rs")
    case None
    note n = malloc_locked_none [OF r0(1) w(1) wM refl r0(2) None]
    have "rt_malloc i sz h k = Some (Ret None, h, k)" using n(1) call rel [of h0] by (simp add: h0_def)
    then show ?thesis using n(2) s by auto
  next
    case (Some p)
    from malloc_locked_found [OF r0(1) w(1) wM w(2) refl r0(2) Some rel] obtain xs n ys h' where
      x: "rs = xs @ (n, False) # ys" "request sz + 12 \<le> n" "\<forall>b \<in> set xs. snd b \<or> fst b < request sz + 12" "p = blen (ls @ xs)"
      and m: "malloc_locked i w h0 k = Some (Some (heap_ptr h0 + of_nat p + 12), h', k)"
      and h': "heap_rep (ls @ xs @ take_block (request sz) n @ ys) h'" "same_area h0 h'" "heap_sem h' = heap_sem h"
        "same_outside p (p + n) (heap_bytes h0) (heap_bytes h')"
        "unat (lfree h') = (if xs = [] then p + blen (takeWhile snd (take_block (request sz) n @ ys)) else blen ls)" by blast
    from allocatedI [of "ls @ xs" n ys h "request sz" h'] r x h' obtain len where
      "request sz + 12 \<le> len" "allocated (ls @ rs) h (blen (ls @ xs)) len (ls @ xs @ take_block (request sz) n @ ys) h'"
      by (auto simp: h0_def same_area_def)
    moreover have "rt_malloc i sz h k = Some (Ret (Some (heap_ptr h + of_nat (blen (ls @ xs)) + 12)), h', k)"
      using call m x(4) by (simp add: h0_def)
    moreover have "heap_idle i h' k" using i h' by (simp add: heap_idle_def)
    moreover have "unat (lfree h') = (if xs = [] then blen ls + blen (takeWhile snd (take_block (request sz) n @ ys)) else blen ls)"
      using h'(5) x(4) by simp
    ultimately show ?thesis using x(1-3) unfolding if_not_P [OF s] by blast
  qed
qed

section \<open>Joining free blocks\<close>

lemma lfree_ok_merge:
  assumes "lfree_ok (xs @ (n1, False) # (n2, False) # ys) l" and "0 < n1" and "0 < n2"
  shows "lfree_ok (xs @ (n1 + n2, False) # ys) (if l = blen xs + n1 then blen xs else l)"
proof (cases "l = blen xs \<or> l = blen xs + n1")
  case True
  then show ?thesis unfolding lfree_ok_def by (intro exI [of _ xs] exI [of _ "(n1 + n2, False) # ys"]) auto
next
  case False
  from assms(1) have "lfree_ok ((xs @ [(n1, False)]) @ (n2, False) # ys) l" by simp
  from lfree_ok_replace [OF this, of "[(n2, True)]"] False have "lfree_ok (xs @ (n1, False) # (n2, True) # ys) l" by simp
  then obtain X Y where *: "xs @ (n1, False) # (n2, True) # ys = X @ Y" "l = blen X" "Y = [] \<or> \<not> snd (hd Y)"
    by (auto simp: lfree_ok_def)
  from *(1) consider W where "xs = X @ W" "Y = W @ (n1, False) # (n2, True) # ys"
    | W where "X = xs @ W" "(n1, False) # (n2, True) # ys = W @ Y" by (auto simp: append_eq_append_conv2)
  then show ?thesis
  proof cases
    case 1
    then have "W \<noteq> []" using *(2) False by auto
    with 1 * False show ?thesis
      unfolding lfree_ok_def by (intro exI [of _ X] exI [of _ "W @ (n1 + n2, False) # ys"]) auto
  next
    case 2
    with *(2) False obtain b c V where "W = b # c # V" by (cases W; cases "tl W") auto
    with 2 * False show ?thesis
      unfolding lfree_ok_def by (intro exI [of _ "xs @ (n1 + n2, False) # V"] exI [of _ Y]) auto
  qed
qed

text \<open>The two stores that join a free block with the free block behind it.\<close>

lemma heap_core_merge:
  assumes c: "heap_core (xs @ (n1, False) # (n2, False) # ys) h" and p: "unat p = blen xs"
  defines "e \<equiv> of_nat (blen xs + n1 + n2) :: u32"
  shows "\<exists>h1 h2. wr_next p e (h\<lparr>lfree := l\<rparr>) = Some h1 \<and> wr_prev e p h1 = Some h2 \<and>
    heap_core (xs @ (n1 + n2, False) # ys) h2 \<and> same_area h h2 \<and> lfree h2 = l \<and> heap_sem h2 = heap_sem h \<and>
    same_outside (blen xs) (blen xs + (n1 + n2)) (heap_bytes h) (heap_bytes h2)"
proof -
  note b1 = heap_core_block [OF c]
  have c': "heap_core ((xs @ [(n1, False)]) @ (n2, False) # ys) h" using c by simp
  note b2 = heap_core_block [OF c']
  have e: "unat e = blen xs + n1 + n2" unfolding e_def using b2(2,3) by (intro unat_nat) simp
  have n: "12 \<le> n1" "12 \<le> n2" "4 dvd n1" "4 dvd n2" "unat (h_prev (heap_bytes h) (blen xs)) = lastp 0 0 xs" "h_used (heap_bytes h) (blen xs) = 0"
    using b1(1) b2(1) by (simp_all add: hdr_rep_def)
  define h1 where "h1 = h\<lparr>lfree := l, heap_bytes := put32 (blen xs + 4) e (heap_bytes h)\<rparr>"
  define h2 where "h2 = h1\<lparr>heap_bytes := put32 (unat e + 8) p (heap_bytes h1)\<rparr>"
  have "wr_next p e (h\<lparr>lfree := l\<rparr>) = Some h1" "wr_prev e p h1 = Some h2"
    using p e b2(2) by (simp_all add: wr_next_def wr_prev_def hdr_ok_def h1_def h2_def)
  moreover have so: "same_outside (blen xs) (blen xs + (n1 + n2)) (heap_bytes h) (heap_bytes h2)"
    using e n by (auto simp: same_outside_def h2_def h1_def)
  moreover have "heap_core (xs @ [(n1 + n2, False)] @ ys) h2"
  proof (rule heap_core_replace [of xs "[(n1, False), (n2, False)]" ys h])
    show "seg (heap_bytes h2) (lastp 0 0 xs) (blen xs) [(n1 + n2, False)] (blen xs + blen [(n1, False), (n2, False)])"
      using n e by (simp add: hdr_rep_def h2_def h1_def)
    show "unat (h_prev (heap_bytes h2) (blen xs + blen [(n1, False), (n2, False)])) =
      lastp (lastp 0 0 xs) (blen xs) [(n1 + n2, False)]" using e p by (simp add: h2_def add.assoc)
    show "used_mem h2 = of_nat (used_len (xs @ [(n1 + n2, False)] @ ys))" "used_mem h2 \<le> max_mem h2"
      using c by (auto simp: heap_core_def h2_def h1_def)
  qed (use c so in \<open>simp_all add: same_area_def h2_def h1_def\<close>)
  moreover have "same_area h h2" "lfree h2 = l" "heap_sem h2 = heap_sem h" by (simp_all add: same_area_def h2_def h1_def)
  ultimately show ?thesis by auto
qed

definition join_next :: "nat \<Rightarrow> blocks \<Rightarrow> nat \<times> blocks" where
  "join_next n ys = (if ys \<noteq> [] \<and> \<not> snd (hd ys) then (n + fst (hd ys), tl ys) else (n, ys))"

definition join_prev :: "blocks \<Rightarrow> nat \<Rightarrow> blocks \<times> nat" where
  "join_prev xs n = (if xs \<noteq> [] \<and> \<not> snd (last xs) then (butlast xs, fst (last xs) + n) else (xs, n))"

text \<open>One step of joining keeps the parts of the invariant that hold already, and all data.\<close>

definition joined :: "blocks \<Rightarrow> rt_heap \<Rightarrow> blocks \<Rightarrow> rt_heap \<Rightarrow> bool" where
  "joined bs h bs' h' \<longleftrightarrow> heap_core bs' h' \<and> lfree_ok bs' (unat (lfree h')) \<and> same_area h h' \<and> heap_sem h' = heap_sem h \<and>
     in_use 0 bs' = in_use 0 bs \<and> data_kept (in_use 0 bs) (heap_bytes h) (heap_bytes h') \<and> lfree h' \<le> lfree h"

lemma rd_next_lfree [simp]: "rd_next p (h\<lparr>lfree := l\<rparr>) = rd_next p h"
  by (simp add: rd_next_def hdr_ok_def)

lemma lfree_upd_same [simp]: "h\<lparr>lfree := lfree h\<rparr> = h"
  by simp

lemma plug_forward_joined:
  assumes c: "heap_core (xs @ (n, False) # ys) h" and l: "lfree_ok (xs @ (n, False) # ys) (unat (lfree h))"
    and p: "unat mem = blen xs" and j: "join_next n ys = (n', ys')"
  shows "\<exists>h'. plug_forward mem h = Some h' \<and> joined (xs @ (n, False) # ys) h (xs @ (n', False) # ys') h' \<and> (n' = n \<longrightarrow> h' = h)"
proof -
  note b = heap_core_block [OF c]
  define nw :: u32 where "nw = of_nat (blen xs + n)"
  have nw: "unat nw = blen xs + n" unfolding nw_def using b(2,3) by (intro unat_nat) simp
  have "12 \<le> n" using b(1) by (simp add: hdr_rep_def)
  have ne: "mem \<noteq> nw" using nw p \<open>12 \<le> n\<close> by auto
  have rn: "rd_next mem h = Some nw" using hdr_next_word [OF b(1)] p b(2) by (simp add: rd_next_def hdr_ok_def nw_def)
  have E: "unat (heap_end h) = unat (mem_size_aligned h) + 12" using heap_core_pos(3) [OF c] .
  show ?thesis
  proof (cases "ys \<noteq> [] \<and> \<not> snd (hd ys)")
    case True
    then obtain n2 zs where ys: "ys = (n2, False) # zs" by (cases ys) auto
    with j have j': "n' = n + n2" "ys' = zs" by (simp_all add: join_next_def)
    have c2: "heap_core ((xs @ [(n, False)]) @ (n2, False) # zs) h" using c ys by simp
    note b2 = heap_core_block [OF c2]
    have "rd_used nw h = Some 0" "rd_next nw h = Some (of_nat (blen xs + n + n2))" "nw \<noteq> heap_end h"
      using b2(1,2) nw E hdr_next_word [OF b2(1)] b(4) ys
      by (auto simp: rd_used_def rd_next_def hdr_ok_def hdr_rep_def simp del: of_nat_add)
    moreover from c ys have "heap_core (xs @ (n, False) # (n2, False) # zs) h" by simp
    from heap_core_merge [OF this p, of "if lfree h = nw then mem else lfree h"] obtain h1 h2 where
      m: "wr_next mem (of_nat (blen xs + n + n2)) (h\<lparr>lfree := if lfree h = nw then mem else lfree h\<rparr>) = Some h1"
        "wr_prev (of_nat (blen xs + n + n2)) mem h1 = Some h2" "heap_core (xs @ (n + n2, False) # zs) h2"
        "same_area h h2" "lfree h2 = (if lfree h = nw then mem else lfree h)" "heap_sem h2 = heap_sem h"
        "same_outside (blen xs) (blen xs + (n + n2)) (heap_bytes h) (heap_bytes h2)" by blast
    ultimately have "plug_forward mem h = Some h2"
      using rn ne unfolding plug_forward_def Let_def
      by (cases "lfree h = nw") (simp_all add: rd_next_lfree del: of_nat_add)
    moreover have "lfree_ok (xs @ (n + n2, False) # zs) (unat (lfree h2))"
      using lfree_ok_merge [of xs n n2 zs "unat (lfree h)"] l ys b(1) b2(1) m(5) nw p
      by (auto simp: hdr_rep_def word_unat_eq_iff)
    moreover have "data_kept (in_use 0 (xs @ (n, False) # ys)) (heap_bytes h) (heap_bytes h2)"
      using data_kept_outside [OF m(7), of zs] ys by (simp add: add.assoc)
    moreover have "lfree h2 \<le> lfree h" using m(5) nw p by (auto simp: word_le_nat_alt)
    moreover have "n' \<noteq> n" using j' b2(1) by (simp add: hdr_rep_def)
    ultimately show ?thesis using m ys j' by (auto simp: joined_def add.assoc)
  next
    case False
    have "\<exists>u. rd_used nw h = Some u \<and> (u \<noteq> 0 \<or> nw = heap_end h)"
    proof (cases ys)
      case Nil
      then have "nw = heap_end h" using b(4) nw E by (simp add: word_unat_eq_iff)
      then show ?thesis using E by (simp add: rd_used_def hdr_ok_def)
    next
      case (Cons y zs)
      with False obtain n2 where "ys = (n2, True) # zs" by (cases y) auto
      with c have c2: "heap_core ((xs @ [(n, False)]) @ (n2, True) # zs) h" by simp
      show ?thesis using heap_core_block(1,2) [OF c2] nw by (simp add: rd_used_def hdr_ok_def hdr_rep_def)
    qed
    then have "plug_forward mem h = Some h" using rn by (auto simp: plug_forward_def)
    moreover have "n' = n" "ys' = ys" using j False by (auto simp: join_next_def)
    ultimately show ?thesis using c l by (auto simp: joined_def same_area_def data_kept_def)
  qed
qed

lemma plug_backward_joined:
  assumes c: "heap_core (xs @ (n, False) # ys) h" and l: "lfree_ok (xs @ (n, False) # ys) (unat (lfree h))"
    and p: "unat mem = blen xs" and j: "join_prev xs n = (xs', n')"
  shows "\<exists>h'. plug_backward mem h = Some h' \<and> joined (xs @ (n, False) # ys) h (xs' @ (n', False) # ys) h' \<and> (n' = n \<longrightarrow> h' = h)"
proof -
  note b = heap_core_block [OF c]
  define nw :: u32 where "nw = of_nat (blen xs + n)"
  have rn: "rd_next mem h = Some nw" using hdr_next_word [OF b(1)] p b(2) by (simp add: rd_next_def hdr_ok_def nw_def)
  define pw where "pw = h_prev (heap_bytes h) (blen xs)"
  have rp: "rd_prev mem h = Some pw" using p b(2) by (simp add: rd_prev_def hdr_ok_def pw_def)
  have up: "unat pw = lastp 0 0 xs" using b(1) by (simp add: pw_def hdr_rep_def)
  show ?thesis
  proof (cases "xs = []")
    case True
    then have "pw = mem" using up p by (simp add: word_unat_eq_iff)
    then have "plug_backward mem h = Some h" using rp p b(2) True by (simp add: plug_backward_def rd_used_def hdr_ok_def)
    moreover have "n' = n" "xs' = xs" using j True by (auto simp: join_prev_def)
    ultimately show ?thesis using c l by (auto simp: joined_def same_area_def data_kept_def)
  next
    case False
    then obtain zs n0 u where xs: "xs = zs @ [(n0, u)]" by (cases xs rule: rev_cases) auto
    then have c0: "heap_core (zs @ (n0, u) # (n, False) # ys) h" using c by simp
    note b0 = heap_core_block [OF c0]
    have pz: "unat pw = blen zs" using up xs by simp
    have "pw \<noteq> mem" using pz p xs b0(1) by (auto simp: hdr_rep_def)
    have ru: "rd_used pw h = Some (of_bool u)" using b0(1,2) pz by (simp add: rd_used_def hdr_ok_def hdr_rep_def)
    show ?thesis
    proof (cases u)
      case True
      then have "plug_backward mem h = Some h" using rp ru by (simp add: plug_backward_def)
      moreover have "n' = n" "xs' = xs" using j xs True by (auto simp: join_prev_def)
      ultimately show ?thesis using c l by (auto simp: joined_def same_area_def data_kept_def)
    next
      case False
      have j': "xs' = zs" "n' = n0 + n" using j xs False by (simp_all add: join_prev_def)
      from c0 False have "heap_core (zs @ (n0, False) # (n, False) # ys) h" by simp
      from heap_core_merge [OF this pz, of "if lfree h = mem then pw else lfree h"] obtain h1 h2 where
        m: "wr_next pw (of_nat (blen zs + n0 + n)) (h\<lparr>lfree := if lfree h = mem then pw else lfree h\<rparr>) = Some h1"
          "wr_prev (of_nat (blen zs + n0 + n)) pw h1 = Some h2" "heap_core (zs @ (n0 + n, False) # ys) h2"
          "same_area h h2" "lfree h2 = (if lfree h = mem then pw else lfree h)" "heap_sem h2 = heap_sem h"
          "same_outside (blen zs) (blen zs + (n0 + n)) (heap_bytes h) (heap_bytes h2)" by blast
      moreover have "nw = of_nat (blen zs + n0 + n)" by (simp add: nw_def xs)
      ultimately have "plug_backward mem h = Some h2"
        using rn rp ru False \<open>pw \<noteq> mem\<close> unfolding plug_backward_def Let_def
        by (cases "lfree h = mem") (simp_all del: of_nat_add)
      moreover have "lfree_ok (zs @ (n0 + n, False) # ys) (unat (lfree h2))"
        using lfree_ok_merge [of zs n0 n ys "unat (lfree h)"] l xs False b(1) b0(1) m(5) pz p
        by (auto simp: hdr_rep_def word_unat_eq_iff)
      moreover have "data_kept (in_use 0 (xs @ (n, False) # ys)) (heap_bytes h) (heap_bytes h2)"
        using data_kept_outside [OF m(7), of ys] xs False by (simp add: add.assoc)
      moreover have "lfree h2 \<le> lfree h" using m(5) pz p xs by (auto simp: word_le_nat_alt)
      moreover have "n' \<noteq> n" using j' b0(1) by (simp add: hdr_rep_def)
      ultimately show ?thesis using m xs j' False by (auto simp: joined_def add.assoc)
    qed
  qed
qed

definition freed :: "blocks \<Rightarrow> nat \<Rightarrow> blocks \<Rightarrow> blocks" where
  "freed xs n ys = (let (n, ys) = join_next n ys; (xs, n) = join_prev xs n in xs @ (n, False) # ys)"

lemma joined_trans: "joined a h b h' \<Longrightarrow> joined b h' c h'' \<Longrightarrow> joined a h c h''"
  by (fastforce simp: joined_def same_area_def data_kept_def)

lemma plug_holes_joined:
  assumes c: "heap_core (xs @ (n, False) # ys) h" and l: "lfree_ok (xs @ (n, False) # ys) (unat (lfree h))"
    and p: "unat mem = blen xs"
  shows "\<exists>h'. plug_holes mem h = Some h' \<and> joined (xs @ (n, False) # ys) h (freed xs n ys) h' \<and>
    (join_next n ys = (n, ys) \<and> join_prev xs n = (xs, n) \<longrightarrow> h' = h)"
proof -
  obtain n1 ys1 where j1: "join_next n ys = (n1, ys1)" by force
  obtain xs2 n2 where j2: "join_prev xs n1 = (xs2, n2)" by force
  from plug_forward_joined [OF c l p j1] obtain h1 where
    h1: "plug_forward mem h = Some h1" "joined (xs @ (n, False) # ys) h (xs @ (n1, False) # ys1) h1" "n1 = n \<longrightarrow> h1 = h" by blast
  from plug_backward_joined [OF _ _ p j2, of ys1 h1] h1(2) obtain h2 where
    h2: "plug_backward mem h1 = Some h2" "joined (xs @ (n1, False) # ys1) h1 (xs2 @ (n2, False) # ys1) h2" "n2 = n1 \<longrightarrow> h2 = h1"
    by (auto simp: joined_def)
  note b = heap_core_block [OF c]
  have "rd_used mem h = Some 0" "mem < heap_end h"
    using b(1,2) p heap_core_pos(3) [OF c] by (simp_all add: rd_used_def hdr_ok_def hdr_rep_def word_less_nat_alt)
  then have "plug_holes mem h = Some h2" using h1(1) h2(1) by (simp add: plug_holes_def)
  moreover have "freed xs n ys = xs2 @ (n2, False) # ys1" using j1 j2 by (simp add: freed_def)
  moreover have "join_next n ys = (n, ys) \<and> join_prev xs n = (xs, n) \<longrightarrow> h2 = h" using j1 j2 h1(3) h2(3) by auto
  ultimately show ?thesis using joined_trans [OF h1(2) h2(2)] by simp
qed

lemma no_adj_freed:
  assumes "no_adj xs" and "no_adj ys"
  shows "no_adj (freed xs n ys)"
proof -
  obtain n1 ys1 where j1: "join_next n ys = (n1, ys1)" by force
  obtain xs2 n2 where j2: "join_prev xs n1 = (xs2, n2)" by force
  have "no_adj ys1 \<and> (ys1 = [] \<or> snd (hd ys1))"
    using j1 assms(2) by (cases ys) (auto simp: join_next_def split: if_splits)
  moreover have "no_adj xs2 \<and> (xs2 = [] \<or> snd (last xs2))"
    using j2 assms(1) by (cases xs rule: rev_cases) (auto simp: join_prev_def split: if_splits)
  ultimately show ?thesis using j1 j2 by (auto simp: freed_def)
qed

section \<open>Releasing a block\<close>

lemma seg_sizes: "seg m q a bs z \<Longrightarrow> b \<in> set bs \<Longrightarrow> 12 \<le> fst b"
  by (induction m q a bs z rule: seg.induct) (auto simp: hdr_rep_def)

lemma heap_core_sizes: "heap_core bs h \<Longrightarrow> \<forall>b \<in> set bs. 12 \<le> fst b"
  using seg_sizes by (auto simp: heap_core_def)

lemma blen_inj: "X @ Y = xs @ ys \<Longrightarrow> blen X = blen xs \<Longrightarrow> \<forall>b \<in> set (xs @ ys). 0 < fst b \<Longrightarrow> X = xs"
proof (induction X arbitrary: xs)
  case Nil
  then show ?case by (cases xs) auto
next
  case (Cons b X)
  show ?case
  proof (cases xs)
    case Nil
    with Cons.prems have "0 < fst b" by (metis append_Cons append_Nil list.set_intros(1))
    with Cons.prems Nil show ?thesis by simp
  next
    case (Cons c zs)
    with Cons.prems Cons.IH [of zs] show ?thesis by auto
  qed
qed

lemma lfree_not_used:
  assumes "heap_rep (xs @ (n, True) # ys) h"
  shows "unat (lfree h) \<noteq> blen xs"
proof
  have c: "heap_core (xs @ (n, True) # ys) h" and l: "lfree_ok (xs @ (n, True) # ys) (unat (lfree h))"
    using assms by (simp_all add: heap_rep_def)
  assume e: "unat (lfree h) = blen xs"
  from l obtain X Y where *: "X @ Y = xs @ (n, True) # ys" "unat (lfree h) = blen X" "Y = [] \<or> \<not> snd (hd Y)"
    unfolding lfree_ok_def by metis
  then have "X = xs" using blen_inj [OF *(1)] heap_core_sizes [OF c] e by force
  with * show False by auto
qed

lemma free_marked:
  assumes r: "heap_rep (xs @ (n, True) # ys) h" and p: "unat mem = blen xs"
  defines "h1 \<equiv> h\<lparr>heap_bytes := put16 (blen xs) 0 (put16 (blen xs + 2) 0 (heap_bytes h)),
     lfree := if mem < lfree h then mem else lfree h, used_mem := used_mem h - (of_nat (blen xs + n) - mem)\<rparr>"
  shows "heap_core (xs @ (n, False) # ys) h1" "lfree_ok (xs @ (n, False) # ys) (unat (lfree h1))"
    "free_locked i mem h k = do { h' \<leftarrow> plug_holes mem h1; heap_release i h' k }"
    "same_outside (blen xs) (blen xs + n) (heap_bytes h) (heap_bytes h1)"
proof -
  have c: "heap_core (xs @ (n, True) # ys) h" and l: "lfree_ok (xs @ (n, True) # ys) (unat (lfree h))"
    using r by (simp_all add: heap_rep_def)
  note b = heap_core_block [OF c]
  have hd: "12 \<le> n" "4 dvd n" "unat (h_next (heap_bytes h) (blen xs)) = blen xs + n"
    "unat (h_prev (heap_bytes h) (blen xs)) = lastp 0 0 xs" "h_used (heap_bytes h) (blen xs) = 1"
    "h_magic (heap_bytes h) (blen xs) = HEAP_MAGIC" using b(1) by (simp_all add: hdr_rep_def)
  have "rd_next mem h = Some (of_nat (blen xs + n))"
    using p b(2) hdr_next_word [OF b(1)] by (simp add: rd_next_def hdr_ok_def)
  then show "free_locked i mem h k = do { h' \<leftarrow> plug_holes mem h1; heap_release i h' k }"
    using p b(2) hd(5,6)
    by (simp add: free_locked_def rd_used_def rd_magic_def rd_next_def wr_used_def wr_magic_def hdr_ok_def Let_def h1_def del: of_nat_add)
  show so: "same_outside (blen xs) (blen xs + n) (heap_bytes h) (heap_bytes h1)"
    using hd by (auto simp: same_outside_def h1_def)
  have "of_nat (unat mem) = mem" by simp
  then have mem: "mem = of_nat (blen xs)" unfolding p by simp
  show "heap_core (xs @ (n, False) # ys) h1"
  proof -
    have "heap_core (xs @ [(n, False)] @ ys) h1"
    proof (rule heap_core_replace [of xs "[(n, True)]" ys h])
      show "seg (heap_bytes h1) (lastp 0 0 xs) (blen xs) [(n, False)] (blen xs + blen [(n, True)])"
        using hd by (simp add: hdr_rep_def h1_def)
      show "unat (h_prev (heap_bytes h1) (blen xs + blen [(n, True)])) = lastp (lastp 0 0 xs) (blen xs) [(n, False)]" if "ys \<noteq> []"
        using c that hd by (cases ys) (auto simp: heap_core_def seg_append hdr_rep_def h1_def)
      have u: "used_mem h = of_nat (used_len xs) + (of_nat n + of_nat (used_len ys))" using c by (simp add: heap_core_def)
      then show "used_mem h1 = of_nat (used_len (xs @ [(n, False)] @ ys))" by (simp add: h1_def mem)
      have "n + (used_len xs + used_len ys) < 2 ^ 32"
        using used_len_le [of xs] used_len_le [of ys] b(2,3) heap_core_pos(4) [OF c, THEN seg_end] by simp
      then have "unat (of_nat (used_len xs + used_len ys) :: u32) \<le> unat (of_nat (n + (used_len xs + used_len ys)) :: u32)"
        by (simp add: unat_nat del: of_nat_add)
      then have "used_mem h1 \<le> used_mem h" using u by (simp add: word_le_nat_alt h1_def mem add.commute add.left_commute)
      moreover have "used_mem h \<le> max_mem h" using c unfolding heap_core_def by blast
      moreover have "max_mem h1 = max_mem h" by (simp add: h1_def)
      ultimately show "used_mem h1 \<le> max_mem h1" by (metis order_trans)
    qed (use c so in \<open>simp_all add: same_area_def h1_def\<close>)
    then show ?thesis by simp
  qed
  show "lfree_ok (xs @ (n, False) # ys) (unat (lfree h1))"
  proof (cases "mem < lfree h")
    case True
    then have "unat (lfree h1) = blen xs" by (simp add: h1_def p)
    then show ?thesis unfolding lfree_ok_def by (intro exI [of _ xs] exI [of _ "(n, False) # ys"]) simp
  next
    case False
    have "unat (lfree h) \<noteq> blen xs" using lfree_not_used [OF r] .
    with lfree_ok_replace [OF l this, of "[(n, False)]"] False show ?thesis by (simp add: h1_def)
  qed
qed

lemma rt_free_spec:
  assumes r: "heap_rep (xs @ (n, True) # ys) h" and i: "heap_idle i h k" and z: "12 < n \<or> ys \<noteq> []"
  shows "\<exists>h'. rt_free i (Some (heap_ptr h + of_nat (blen xs) + 12)) h k = Some (Ret (), h', k) \<and>
    heap_rep (freed xs n ys) h' \<and> heap_idle i h' k \<and> same_area h h' \<and> unat (lfree h') \<le> min (blen xs) (unat (lfree h)) \<and>
    in_use 0 (freed xs n ys) = in_use 0 (xs @ (n, True) # ys) - {(blen xs, n)} \<and>
    data_kept (in_use 0 (freed xs n ys)) (heap_bytes h) (heap_bytes h')"
proof -
  have c: "heap_core (xs @ (n, True) # ys) h" and na: "no_adj xs" "no_adj ys" using r by (simp_all add: heap_rep_def)
  define h0 where "h0 = h\<lparr>heap_sem := (heap_sem h)\<lparr>sem_value := 0\<rparr>\<rparr>"
  define mem :: u32 where "mem = of_nat (blen xs)"
  have p: "unat mem = blen xs" using heap_core_pos(2) [OF c] by (simp add: mem_def)
  have r0: "heap_rep (xs @ (n, True) # ys) h0" using r by (simp add: h0_def)
  define h1 where "h1 = h0\<lparr>heap_bytes := put16 (blen xs) 0 (put16 (blen xs + 2) 0 (heap_bytes h0)),
     lfree := if mem < lfree h0 then mem else lfree h0, used_mem := used_mem h0 - (of_nat (blen xs + n) - mem)\<rparr>"
  note m = free_marked [OF r0 p, folded h1_def]
  from plug_holes_joined [OF m(1,2) p] obtain h2 where "plug_holes mem h1 = Some h2"
    and h2: "joined (xs @ (n, False) # ys) h1 (freed xs n ys) h2" by blast
  then have h2r: "free_locked i mem h0 k = heap_release i h2 k" by (simp add: m(3))
  define h' where "h' = h2\<lparr>heap_sem := heap_sem h\<rparr>"
  have "heap_sem h2 = (heap_sem h)\<lparr>sem_value := 0\<rparr>" using h2 by (simp add: joined_def h1_def h0_def)
  then have fl: "free_locked i mem h0 k = Some (h', k)" using heap_idle_release [OF i] h2r by (simp add: h'_def)
  note ad = heap_core_addr [OF c]
  have "(heap_ptr h + mem + 12) AND 3 = 0"
    using ad(2) by (simp add: and_three mem_def unat_mod4 flip: unat_eq_0) 
  moreover have "unat (heap_ptr h + heap_end h) = unat (heap_ptr h) + (unat (mem_size_aligned h) + 12)"
    using c heap_core_pos(3) [OF c] by (subst unat_plus) (auto simp: heap_core_def)
  then have "heap_ptr h \<le> heap_ptr h + mem + 12 \<and> heap_ptr h + mem + 12 < heap_ptr h + heap_end h"
    using ad(1) heap_core_block(1,2,4) [OF c] z by (auto simp: word_le_nat_alt word_less_nat_alt mem_def hdr_rep_def)
  ultimately have "rt_free i (Some (heap_ptr h + mem + 12)) h k = Some (Ret (), h', k)"
    using heap_idle_take [OF i] fl by (simp add: rt_free_def Let_def h0_def)
  moreover have inv: "heap_rep (freed xs n ys) h'" "same_area h h'" "heap_idle i h' k"
    using h2 no_adj_freed [OF na] i by (simp_all add: heap_rep_def joined_def h'_def h1_def h0_def same_area_def heap_idle_def)
  have "unat (lfree h') \<le> min (blen xs) (unat (lfree h))"
    using h2 p by (auto simp: joined_def h'_def h1_def h0_def word_le_nat_alt word_less_nat_alt split: if_splits)
  have iu: "in_use 0 (freed xs n ys) = in_use 0 xs \<union> in_use (blen xs + n) ys" using h2 by (simp add: joined_def)
  have "(blen xs, n) \<notin> in_use 0 xs \<union> in_use (blen xs + n) ys"
    using in_use_bounds [of "blen xs" n 0 xs] in_use_bounds [of "blen xs" n "blen xs + n" ys] heap_core_block(1) [OF c]
    by (auto simp: hdr_rep_def)
  then have "in_use 0 (freed xs n ys) = in_use 0 (xs @ (n, True) # ys) - {(blen xs, n)}" unfolding iu by auto
  moreover note \<open>unat (lfree h') \<le> min (blen xs) (unat (lfree h))\<close>
  moreover have "data_kept (in_use 0 (freed xs n ys)) (heap_bytes h) (heap_bytes h')"
  proof -
    from h2 have 2: "data_kept (in_use 0 xs \<union> in_use (blen xs + n) ys) (heap_bytes h1) (heap_bytes h2)" by (simp add: joined_def)
    have 1: "data_kept (in_use 0 xs \<union> in_use (blen xs + n) ys) (heap_bytes h0) (heap_bytes h1)"
      by (rule data_kept_outside [OF m(4)])
    from data_kept_trans [OF 1 2] show ?thesis unfolding iu by (simp add: h'_def h0_def)
  qed
  ultimately show ?thesis using inv unfolding mem_def by blast
qed

end
