(* ===== verification/MemProps.thy ===== *)
theory MemProps
  imports MemInv
begin

text \<open>
  What the small memory heap guarantees: initialisation, allocation, release and the change of the
  size of a block, for a heap in which no other call is under way.
\<close>

unbundle bit_operations_syntax

section \<open>Changing the size of a block\<close>

text \<open>The block cut in two, before the rest is joined with what is behind it.\<close>

lemma realloc_split_cut:
  assumes r: "heap_rep (xs @ (n, True) # ys) h" and p: "unat ptr = blen xs" and w: "unat w + 36 < n" "4 dvd unat w"
    and sz: "unat sz + 12 = n"
  shows "\<exists>h1. realloc_split ptr sz w h = plug_holes (ptr + 12 + w) h1 \<and> unat (ptr + 12 + w) = blen xs + (unat w + 12) \<and>
    heap_core (xs @ [(unat w + 12, True), (n - (unat w + 12), False)] @ ys) h1 \<and>
    same_area h h1 \<and> lfree h1 = lfree h \<and> heap_sem h1 = heap_sem h \<and>
    same_outside (blen xs) (blen xs + n) (heap_bytes h) (heap_bytes h1) \<and>
    (\<forall>i \<in> {blen xs + 12 ..< blen xs + 12 + unat w}. heap_bytes h1 i = heap_bytes h i)"
proof -
  have c: "heap_core (xs @ (n, True) # ys) h" using r by (simp add: heap_rep_def)
  note b = heap_core_block [OF c]
  have hd: "4 dvd n" "unat (h_prev (heap_bytes h) (blen xs)) = lastp 0 0 xs" "h_used (heap_bytes h) (blen xs) = 1"
    "h_magic (heap_bytes h) (blen xs) = HEAP_MAGIC" using b(1) by (simp_all add: hdr_rep_def)
  define p2 where "p2 = ptr + 12 + w"
  have p2: "unat p2 = blen xs + (unat w + 12)" using p w b(2,3) by (simp add: p2_def unat_plus)
  define nw :: u32 where "nw = of_nat (blen xs + n)"
  have nw: "unat nw = blen xs + n" unfolding nw_def using b(2,3) by (intro unat_nat) simp
  have nx: "h_next (heap_bytes h) (blen xs) = nw" using hdr_next_word [OF b(1)] by (simp add: nw_def)
  define m5 where "m5 = put32 (blen xs + 4) p2 (put32 (unat p2 + 8) ptr (put32 (unat p2 + 4) nw
     (put16 (unat p2 + 2) 0 (put16 (unat p2) HEAP_MAGIC (heap_bytes h)))))"
  define m where "m = (if nw \<noteq> mem_size_aligned h + 12 then put32 (blen xs + n + 8) p2 m5 else m5)"
  define h1 where "h1 = h\<lparr>used_mem := used_mem h - (sz - w), heap_bytes := m\<rparr>"
  have E: "unat (mem_size_aligned h + 12) = unat (mem_size_aligned h) + 12" using b(3) by (intro unat_plus12) simp
  have call: "realloc_split ptr sz w h = plug_holes p2 h1"
    using p p2 w b(2) nw
    by (simp add: realloc_split_def p2_def [symmetric] rd_next_def wr_magic_def wr_used_def wr_next_def wr_prev_def hdr_ok_def nx
        m5_def m_def h1_def Let_def del: of_nat_add)
  have "\<forall>i. i < blen xs \<or> blen xs + n \<le> i \<or> blen xs + 12 \<le> i \<and> i < unat p2 \<longrightarrow> m5 i = heap_bytes h i"
    using p2 w by (auto simp: m5_def)
  then have so: "same_outside (blen xs) (blen xs + n) (heap_bytes h) m"
    and dk: "\<forall>i \<in> {blen xs + 12 ..< blen xs + 12 + unat w}. m i = heap_bytes h i"
    using p2 w by (auto simp: same_outside_def m_def)
  have "h_next m5 (blen xs) = p2" "h_prev m5 (blen xs) = h_prev (heap_bytes h) (blen xs)"
    "h_used m5 (blen xs) = h_used (heap_bytes h) (blen xs)" "h_magic m5 (blen xs) = h_magic (heap_bytes h) (blen xs)"
    "h_next m5 (unat p2) = nw" "h_prev m5 (unat p2) = ptr" "h_used m5 (unat p2) = 0"
    using p2 by (simp_all add: m5_def)
  then have f: "h_next m (blen xs) = p2" "h_prev m (blen xs) = h_prev (heap_bytes h) (blen xs)"
    "h_used m (blen xs) = h_used (heap_bytes h) (blen xs)" "h_magic m (blen xs) = h_magic (heap_bytes h) (blen xs)"
    "h_next m (unat p2) = nw" "h_prev m (unat p2) = ptr" "h_used m (unat p2) = 0"
    using p2 w by (simp_all add: m_def)
  have "heap_core (xs @ [(unat w + 12, True), (n - (unat w + 12), False)] @ ys) h1"
  proof (rule heap_core_replace [of xs "[(n, True)]" ys h])
    have "hdr_rep m (lastp 0 0 xs) (blen xs) (unat w + 12) True" using f(1-4) hd p2 w by (simp add: hdr_rep_def)
    moreover have "hdr_rep m (blen xs) (blen xs + (unat w + 12)) (n - (unat w + 12)) False"
      using f(5-7) hd(1) p2 w nw p by (simp add: hdr_rep_def)
    ultimately show "seg (heap_bytes h1) (lastp 0 0 xs) (blen xs) [(unat w + 12, True), (n - (unat w + 12), False)] (blen xs + blen [(n, True)])"
      using w by (simp add: h1_def)
    show "unat (h_prev (heap_bytes h1) (blen xs + blen [(n, True)])) =
        lastp (lastp 0 0 xs) (blen xs) [(unat w + 12, True), (n - (unat w + 12), False)]" if "ys \<noteq> []"
      using that b(4) nw E p2 by (auto simp: h1_def m_def)
    have u: "used_mem h = of_nat (used_len xs) + (of_nat n + of_nat (used_len ys))" using c by (simp add: heap_core_def)
    have szw: "sz - w = of_nat n - of_nat (unat w + 12)"
    proof -
      have "of_nat (unat sz + 12) = (of_nat n :: u32)" by (simp only: sz)
      then show ?thesis by (simp add: algebra_simps)
    qed
    show "used_mem h1 = of_nat (used_len (xs @ [(unat w + 12, True), (n - (unat w + 12), False)] @ ys))"
      unfolding h1_def using u szw by (simp add: algebra_simps)
    have "n + (used_len xs + used_len ys) < 2 ^ 32"
      using used_len_le [of xs] used_len_le [of ys] b(2,3) heap_core_pos(4) [OF c, THEN seg_end] by simp
    then have "unat (of_nat (unat w + 12 + (used_len xs + used_len ys)) :: u32) \<le> unat (of_nat (n + (used_len xs + used_len ys)) :: u32)"
      using w by (simp add: unat_nat del: of_nat_add)
    moreover have "used_mem h1 = of_nat (unat w + 12 + (used_len xs + used_len ys))"
      unfolding h1_def using u szw by (simp add: algebra_simps)
    moreover have "used_mem h = of_nat (n + (used_len xs + used_len ys))" using u by (simp add: algebra_simps)
    ultimately have "used_mem h1 \<le> used_mem h" unfolding word_le_nat_alt by metis
    moreover have "used_mem h \<le> max_mem h" using c unfolding heap_core_def by blast
    moreover have "max_mem h1 = max_mem h" by (simp add: h1_def)
    ultimately show "used_mem h1 \<le> max_mem h1" by (metis order_trans)
  qed (use c so in \<open>simp_all add: same_area_def h1_def\<close>)
  then show ?thesis using call p2 so dk by (intro exI [of _ h1]) (simp add: p2_def h1_def same_area_def)
qed

text \<open>\<^verbatim>\<open>rt_realloc\<close> to a much smaller size.\<close>

definition shrunk :: "blocks \<Rightarrow> nat \<Rightarrow> nat \<Rightarrow> blocks \<Rightarrow> blocks" where
  "shrunk xs n w ys = xs @ (w + 12, True) # (let (r, ys) = join_next (n - (w + 12)) ys in (r, False) # ys)"

lemma freed_shrunk: "freed (xs @ [(w + 12, True)]) (n - (w + 12)) ys = shrunk xs n w ys"
  by (simp add: freed_def shrunk_def join_prev_def split: prod.splits)

lemma realloc_locked_entry:
  assumes c: "heap_core (xs @ (n, True) # ys) h" and z: "12 < n \<or> ys \<noteq> []"
  defines "a \<equiv> heap_ptr h + of_nat (blen xs) + 12"
  shows "\<not> (a < heap_ptr h \<or> a \<ge> heap_ptr h + heap_end h)" "a - heap_ptr h - 12 = of_nat (blen xs)"
    "rd_next (of_nat (blen xs)) h = Some (of_nat (blen xs + n))" "unat (of_nat (blen xs + n) - of_nat (blen xs) - 12 :: u32) + 12 = n"
proof -
  note b = heap_core_block [OF c] and pos = heap_core_pos [OF c]
  have n: "12 \<le> n" using b(1) by (simp add: hdr_rep_def)
  have "unat (heap_ptr h + heap_end h) = unat (heap_ptr h) + (unat (mem_size_aligned h) + 12)"
    using c pos(3) by (subst unat_plus) (auto simp: heap_core_def)
  then show "\<not> (a < heap_ptr h \<or> a \<ge> heap_ptr h + heap_end h)"
    using heap_core_addr(1) [OF c] b(1,2,4) z by (auto simp: word_le_nat_alt word_less_nat_alt a_def hdr_rep_def)
  show "a - heap_ptr h - 12 = of_nat (blen xs)" by (simp add: a_def)
  show "rd_next (of_nat (blen xs)) h = Some (of_nat (blen xs + n))"
    using pos(1,2) hdr_next_word [OF b(1)] by (simp add: rd_next_def hdr_ok_def)
  have "unat (of_nat n :: u32) = n" using b(2,3) by (intro unat_nat) simp
  then show "unat (of_nat (blen xs + n) - of_nat (blen xs) - 12 :: u32) + 12 = n" using n by (simp add: unat_minus)
qed

lemma rt_realloc_entry:
  assumes i: "heap_idle i h k" and c: "heap_core (xs @ (n, True) # ys) h" and z: "12 < n \<or> ys \<noteq> []"
    and v: "v = RT_ALIGN newsize 4" "\<not> mem_size_aligned h < v"
  defines "a \<equiv> heap_ptr h + of_nat (blen xs) + 12" and "h0 \<equiv> h\<lparr>heap_sem := (heap_sem h)\<lparr>sem_value := 0\<rparr>\<rparr>"
  shows "\<exists>sz. unat sz + 12 = n \<and> rt_realloc i (Some a) newsize h k =
    (if sz = v then Some (Ret (Some a), h, k)
     else if v + 12 + 12 < sz then
       do { h \<leftarrow> realloc_split (of_nat (blen xs)) sz v h0; (h, k) \<leftarrow> heap_release i h k; Some (Ret (Some a), h, k) }
     else do { self \<leftarrow> rt_thread_self k; realloc_expand i a sz v h k })"
proof -
  have c0: "heap_core (xs @ (n, True) # ys) h0" using c by (simp add: h0_def)
  define nw :: u32 where "nw = of_nat (blen xs + n)"
  define ptr :: u32 where "ptr = of_nat (blen xs)"
  define sz where "sz = nw - ptr - 12"
  have a0: "a = heap_ptr h0 + of_nat (blen xs) + 12" by (simp add: a_def h0_def)
  note en = realloc_locked_entry [OF c0 z, folded a0 nw_def ptr_def, folded sz_def]
  have rel: "heap_release i h0 k = Some (h, k)" using heap_idle_release [OF i, of h0] by (simp add: h0_def)
  have "rt_realloc i (Some a) newsize h k = realloc_locked i a v h0 k"
    using heap_idle_take [OF i] v by (simp add: rt_realloc_def Let_def h0_def)
  also have "\<dots> = (if sz = v then Some (Ret (Some a), h, k)
     else if v + 12 + 12 < sz then
       do { h \<leftarrow> realloc_split ptr sz v h0; (h, k) \<leftarrow> heap_release i h k; Some (Ret (Some a), h, k) }
     else do { self \<leftarrow> rt_thread_self k; realloc_expand i a sz v h k })"
    unfolding realloc_locked_def if_not_P [OF en(1)] Let_def en(2) en(3) Option.bind.simps sz_def [symmetric] rel
    by (simp cong: if_cong option.case_cong add: Option.bind_eq_Some_conv) (cases "rt_thread_self k"; simp)
  finally show ?thesis using en(4) unfolding ptr_def by blast
qed

lemma rt_realloc_shrink:
  assumes r: "heap_rep (xs @ (n, True) # ys) h" and i: "heap_idle i h k" and w: "unat (RT_ALIGN newsize 4) + 36 < n"
  shows "\<exists>h'. rt_realloc i (Some (heap_ptr h + of_nat (blen xs) + 12)) newsize h k =
      Some (Ret (Some (heap_ptr h + of_nat (blen xs) + 12)), h', k) \<and>
    heap_rep (shrunk xs n (unat (RT_ALIGN newsize 4)) ys) h' \<and> heap_idle i h' k \<and> same_area h h' \<and> lfree h' \<le> lfree h \<and>
    data_kept (insert (blen xs, unat (RT_ALIGN newsize 4) + 12) (in_use 0 (xs @ (n, True) # ys) - {(blen xs, n)})) (heap_bytes h) (heap_bytes h') \<and>
    (ys = [] \<or> snd (hd ys) \<longrightarrow> lfree h' = lfree h)"
proof -
  define v where "v = RT_ALIGN newsize 4"
  have w': "unat v + 36 < n" "4 dvd unat v" using w by (simp_all add: v_def unat_align4)
  define h0 where "h0 = h\<lparr>heap_sem := (heap_sem h)\<lparr>sem_value := 0\<rparr>\<rparr>"
  have r0: "heap_rep (xs @ (n, True) # ys) h0" using r by (simp add: h0_def)
  then have c0: "heap_core (xs @ (n, True) # ys) h0" by (simp add: heap_rep_def)
  define ptr :: u32 where "ptr = of_nat (blen xs)"
  have c: "heap_core (xs @ (n, True) # ys) h" using r by (simp add: heap_rep_def)
  have M: "\<not> mem_size_aligned h < v" using w' heap_core_block(2) [OF c] by (simp add: word_less_nat_alt)
  from rt_realloc_entry [OF i c _ v_def M, folded h0_def ptr_def] w' obtain sz where sz: "unat sz + 12 = n"
    and call: "rt_realloc i (Some (heap_ptr h + ptr + 12)) newsize h k =
    (if sz = v then Some (Ret (Some (heap_ptr h + ptr + 12)), h, k)
     else if v + 12 + 12 < sz then
       do { h' \<leftarrow> realloc_split ptr sz v h0; (h'', k) \<leftarrow> heap_release i h' k; Some (Ret (Some (heap_ptr h + ptr + 12)), h'', k) }
     else do { self \<leftarrow> rt_thread_self k; realloc_expand i (heap_ptr h + ptr + 12) sz v h k })" by auto
  have p: "unat ptr = blen xs" using heap_core_pos(2) [OF c0] by (simp add: ptr_def)
  from realloc_split_cut [OF r0 p w' sz] obtain h1 where h1: "realloc_split ptr sz v h0 = plug_holes (ptr + 12 + v) h1"
    "unat (ptr + 12 + v) = blen xs + (unat v + 12)"
    "heap_core ((xs @ [(unat v + 12, True)]) @ (n - (unat v + 12), False) # ys) h1" "same_area h0 h1" "lfree h1 = lfree h0"
    "heap_sem h1 = heap_sem h0" "same_outside (blen xs) (blen xs + n) (heap_bytes h0) (heap_bytes h1)"
    "\<forall>i \<in> {blen xs + 12 ..< blen xs + 12 + unat v}. heap_bytes h1 i = heap_bytes h0 i" by auto
  have "lfree_ok (xs @ [(unat v + 12, True), (n - (unat v + 12), False)] @ ys) (unat (lfree h0))"
    using r0 w' by (intro lfree_ok_replace [OF _ lfree_not_used [OF r0]]) (auto simp: heap_rep_def)
  then have "lfree_ok ((xs @ [(unat v + 12, True)]) @ (n - (unat v + 12), False) # ys) (unat (lfree h1))" by (simp add: h1(5))
  from plug_holes_joined [OF h1(3) this] h1(2) obtain h2 where h2: "realloc_split ptr sz v h0 = Some h2"
    "joined ((xs @ [(unat v + 12, True)]) @ (n - (unat v + 12), False) # ys) h1 (shrunk xs n (unat v) ys) h2"
    "join_next (n - (unat v + 12)) ys = (n - (unat v + 12), ys) \<longrightarrow> h2 = h1"
    using h1(1) unfolding freed_shrunk by (auto simp: join_prev_def)
  define h' where "h' = h2\<lparr>heap_sem := heap_sem h\<rparr>"
  have "heap_sem h2 = (heap_sem h)\<lparr>sem_value := 0\<rparr>" using h2(2) h1(6) by (simp add: joined_def h0_def)
  then have rel: "heap_release i h2 k = Some (h', k)" using heap_idle_release [OF i] by (simp add: h'_def)
  have "unat (v + 12 + 12) = unat v + 24" using w' heap_core_block(2,3) [OF c0] unat_plus [of 24 v] by simp
  then have "v + 12 + 12 < sz" "sz \<noteq> v" using sz w' by (auto simp: word_less_nat_alt)
  then have "rt_realloc i (Some (heap_ptr h + ptr + 12)) newsize h k = Some (Ret (Some (heap_ptr h + ptr + 12)), h', k)"
    using call h2(1) rel by simp
  moreover have "no_adj (shrunk xs n (unat v) ys)"
    unfolding freed_shrunk [symmetric] using r by (intro no_adj_freed) (auto simp: heap_rep_def)
  then have "heap_rep (shrunk xs n (unat v) ys) h'" "heap_idle i h' k" "same_area h h'" "lfree h' \<le> lfree h"
    using h2(2) h1(4,5) i by (simp_all add: heap_rep_def joined_def h'_def h0_def same_area_def heap_idle_def)
  moreover have "ys = [] \<or> snd (hd ys) \<longrightarrow> lfree h' = lfree h"
    using h2(3) h1(5) by (auto simp: join_next_def h'_def h0_def)
  moreover have "data_kept (insert (blen xs, unat v + 12) (in_use 0 (xs @ (n, True) # ys) - {(blen xs, n)})) (heap_bytes h) (heap_bytes h')"
  proof -
    let ?L = "insert (blen xs, unat v + 12) (in_use 0 xs \<union> in_use (blen xs + n) ys)"
    have "data_kept ?L (heap_bytes h0) (heap_bytes h1)"
      using data_kept_outside [OF h1(7), of ys] h1(8) by (auto simp: data_kept_def)
    moreover have "in_use 0 ((xs @ [(unat v + 12, True)]) @ (n - (unat v + 12), False) # ys) = ?L" using w' by auto
    with h2(2) have "data_kept ?L (heap_bytes h1) (heap_bytes h2)" by (simp only: joined_def)
    ultimately have "data_kept ?L (heap_bytes h0) (heap_bytes h2)" by (rule data_kept_trans)
    moreover have "insert (blen xs, unat v + 12) (in_use 0 (xs @ (n, True) # ys) - {(blen xs, n)}) \<subseteq> ?L" by auto
    ultimately have "data_kept (insert (blen xs, unat v + 12) (in_use 0 (xs @ (n, True) # ys) - {(blen xs, n)})) (heap_bytes h0) (heap_bytes h2)"
      by (rule data_kept_mono [rotated])
    then show ?thesis by (simp add: h'_def h0_def)
  qed
  ultimately show ?thesis unfolding v_def ptr_def by blast
qed

text \<open>Writing into the data of a block changes no header.\<close>

lemma heap_rep_data:
  assumes r: "heap_rep (xs @ (n, True) # ys) h" and o: "\<And>i. i < blen xs + 12 \<or> blen xs + n \<le> i \<Longrightarrow> m i = heap_bytes h i"
  shows "heap_rep (xs @ (n, True) # ys) (h\<lparr>heap_bytes := m\<rparr>)"
proof -
  have c: "heap_core (xs @ (n, True) # ys) h" using r by (simp add: heap_rep_def)
  note b = heap_core_block [OF c]
  have s: "seg (heap_bytes h) 0 0 xs (blen xs)" "seg (heap_bytes h) (blen xs) (blen xs + n) ys (unat (mem_size_aligned h) + 12)"
    using c by (simp_all add: heap_core_def seg_append)
  have "seg m 0 0 xs (blen xs)" using o by (intro seg_cong [OF _ s(1)]) simp
  moreover have "seg m (blen xs) (blen xs + n) ys (unat (mem_size_aligned h) + 12)" using o by (intro seg_cong [OF _ s(2)]) simp
  moreover have "hdr_rep m (lastp 0 0 xs) (blen xs) n True" using b(1) o by (subst hdr_rep_cong [of _ _ "heap_bytes h"]) simp_all
  moreover have "h_used m (unat (mem_size_aligned h) + 12) = h_used (heap_bytes h) (unat (mem_size_aligned h) + 12)"
    using b(2) o by (intro get16_cong) simp_all
  ultimately have "heap_core (xs @ (n, True) # ys) (h\<lparr>heap_bytes := m\<rparr>)"
    using c unfolding heap_core_def by (auto simp: seg_append)
  then show ?thesis using r by (simp add: heap_rep_def)
qed

lemma in_use_split: "(q, l) \<in> in_use a bs \<Longrightarrow> \<exists>xs ys. bs = xs @ (l, True) # ys \<and> q = a + blen xs"
proof (induction a bs rule: in_use.induct)
  case (2 a n u bs)
  show ?case
  proof (cases "u \<and> (q, l) = (a, n)")
    case True
    then show ?thesis by (intro exI [of _ "[]"] exI [of _ bs]) simp
  next
    case False
    with 2(2) have "(q, l) \<in> in_use (a + n) bs" by (auto split: if_splits)
    from 2(1) [OF this] obtain xs ys where "bs = xs @ (l, True) # ys" "q = a + n + blen xs" by blast
    then show ?thesis by (intro exI [of _ "(n, u) # xs"] exI [of _ ys]) simp
  qed
qed simp

lemma rt_malloc_aligned:
  assumes r: "heap_rep bs h" and i: "heap_idle i h k" and v: "4 dvd unat v" "\<not> mem_size_aligned h < v"
  shows "rt_malloc i v h k = Some (Ret None, h, k) \<or>
    (\<exists>p len bs' h'. rt_malloc i v h k = Some (Ret (Some (heap_ptr h + of_nat p + 12)), h', k) \<and> heap_idle i h' k \<and>
       unat v + 12 \<le> len \<and> allocated bs h p len bs' h')"
proof -
  from r obtain ls rs where l: "bs = ls @ rs" "unat (lfree h) = blen ls" by (auto simp: heap_rep_def lfree_ok_def)
  have M: "unat (mem_size_aligned h) + 24 < 2 ^ 32" using r by (simp add: heap_rep_def heap_core_def)
  then have "unat v + 3 < 2 ^ 32" using v(2) by (simp add: word_less_nat_alt)
  then have "unat (RT_ALIGN v 4) = unat v" using v(1) by (simp add: unat_align4) presburger
  then have al: "RT_ALIGN v 4 = v" "unat v \<le> request v" by (simp_all add: word_unat_eq_iff request_def)
  from r l have "heap_rep (ls @ rs) h" by simp
  note sp = rt_malloc_spec [OF this l(2) i, of v]
  show ?thesis
  proof (cases "v = 0 \<or> mem_size_aligned h < RT_ALIGN v 4")
    case True
    with sp show ?thesis by simp
  next
    case False
    from sp [unfolded if_not_P [OF False]] consider (none) "rt_malloc i v h k = Some (Ret None, h, k)"
      | (some) xs n ys h2 len where
        "rt_malloc i v h k = Some (Ret (Some (heap_ptr h + of_nat (blen (ls @ xs)) + 12)), h2, k)" "heap_idle i h2 k"
        "request v + 12 \<le> len" "allocated (ls @ rs) h (blen (ls @ xs)) len (ls @ xs @ take_block (request v) n @ ys) h2"
      by blast
    then show ?thesis
    proof cases
      case some
      then have "unat v + 12 \<le> len" using al(2) by simp
      with some l show ?thesis by blast
    qed simp
  qed
qed

lemma rt_realloc_expand:
  assumes r: "heap_rep (xs @ (n, True) # ys) h" and i: "heap_idle i h k" and t: "rt_current_thread k = Some t" and n: "12 < n"
    and v: "v = RT_ALIGN newsize 4" "\<not> mem_size_aligned h < v" "unat v + 12 \<noteq> n" "n \<le> unat v + 36"
  defines "L \<equiv> in_use 0 (xs @ (n, True) # ys) - {(blen xs, n)}"
  shows "rt_realloc i (Some (heap_ptr h + of_nat (blen xs) + 12)) newsize h k = Some (Ret None, h, k) \<or>
    (\<exists>p len bs' h'. rt_realloc i (Some (heap_ptr h + of_nat (blen xs) + 12)) newsize h k =
         Some (Ret (Some (heap_ptr h + of_nat p + 12)), h', k) \<and>
       heap_rep bs' h' \<and> heap_idle i h' k \<and> same_area h h' \<and> unat v + 12 \<le> len \<and> in_use 0 bs' = insert (p, len) L \<and>
       data_kept L (heap_bytes h) (heap_bytes h') \<and>
       (\<forall>j < min (n - 12) (unat v). heap_bytes h' (p + 12 + j) = heap_bytes h (blen xs + 12 + j)))"
proof -
  define a where "a = heap_ptr h + of_nat (blen xs) + 12"
  let ?bs = "xs @ (n, True) # ys"
  have c: "heap_core ?bs h" using r by (simp add: heap_rep_def)
  have v4: "4 dvd unat v" by (simp add: v(1) unat_align4)
  from rt_realloc_entry [OF i c _ v(1,2), folded a_def] n obtain sz where sz: "unat sz + 12 = n"
    and e: "rt_realloc i (Some a) newsize h k = (if sz = v then Some (Ret (Some a), h, k)
     else if v + 12 + 12 < sz then
       do { h \<leftarrow> realloc_split (of_nat (blen xs)) sz v (h\<lparr>heap_sem := (heap_sem h)\<lparr>sem_value := 0\<rparr>\<rparr>);
            (h, k) \<leftarrow> heap_release i h k; Some (Ret (Some a), h, k) }
     else do { self \<leftarrow> rt_thread_self k; realloc_expand i a sz v h k })" by blast
  have "unat (mem_size_aligned h) + 24 < 2 ^ 32" using c by (simp add: heap_core_def)
  then have "unat (v + 12 + 12) = unat v + 24" using v(2) unat_plus [of 24 v] by (simp add: word_less_nat_alt)
  then have ne: "sz \<noteq> v" "\<not> v + 12 + 12 < sz" using sz v(3,4) by (auto simp: word_less_nat_alt)
  have call: "rt_realloc i (Some a) newsize h k = realloc_expand i a sz v h k" using e ne t by (simp add: rt_thread_self_def)
  have len: "unat (if sz < v then sz else v) = min (n - 12) (unat v)" using sz by (auto simp: word_less_nat_alt)
  from rt_malloc_aligned [OF r i v4 v(2)] show ?thesis
  proof (elim disjE exE conjE)
    assume "rt_malloc i v h k = Some (Ret None, h, k)"
    then have "realloc_expand i a sz v h k = Some (Ret None, h, k)"
      using t by (simp add: realloc_expand_def realloc_copy_def rt_thread_self_def)
    with call show ?thesis by (simp add: a_def)
  next
    fix p ln bs1 h1
    assume m: "rt_malloc i v h k = Some (Ret (Some (heap_ptr h + of_nat p + 12)), h1, k)" and i1: "heap_idle i h1 k"
      and ln: "unat v + 12 \<le> ln" and al: "allocated ?bs h p ln bs1 h1"
    have r1: "heap_rep bs1 h1" and sa: "same_area h h1" and u1: "in_use 0 bs1 = insert (p, ln) (in_use 0 ?bs)"
      and ap: "\<forall>(q, l) \<in> in_use 0 ?bs. q + l \<le> p \<or> p + ln \<le> q" and dk: "data_kept (in_use 0 ?bs) (heap_bytes h) (heap_bytes h1)"
      using al by (simp_all add: allocated_def)
    have here: "(blen xs, n) \<in> in_use 0 ?bs" by simp
    have apx: "blen xs + n \<le> p \<or> p + ln \<le> blen xs" using ap here by blast
    from in_use_split [of p ln 0 bs1] u1 obtain X Y where X: "bs1 = X @ (ln, True) # Y" "p = blen X" by auto
    define b where "b = heap_ptr h + of_nat p + 12"
    define m2 where "m2 = copied (p + 12) (blen xs + 12) (min (n - 12) (unat v)) (heap_bytes h1)"
    define h2 where "h2 = h1\<lparr>heap_bytes := m2\<rparr>"
    have c1: "heap_core (X @ (ln, True) # Y) h1" using r1 X by (simp add: heap_rep_def)
    have off: "unat (b - heap_ptr h1) = p + 12" "unat (a - heap_ptr h1) = blen xs + 12"
      using heap_core_addr(3) [OF c1] heap_core_addr(3) [OF c] sa X(2) by (simp_all add: b_def a_def same_area_def)
    have mc: "rt_memcpy (p + 12) (blen xs + 12) (min (n - 12) (unat v)) (heap_bytes h1) = m2"
      unfolding m2_def using apx ln by (intro rt_memcpy_copied) auto
    have r2: "heap_rep bs1 h2"
      unfolding X(1) h2_def using r1 X ln by (intro heap_rep_data) (auto simp: m2_def copied_def)
    have i2: "heap_idle i h2 k" using i1 by (simp add: heap_idle_def h2_def)
    from in_use_split [of "blen xs" n 0 bs1] u1 here obtain P Q where P: "bs1 = P @ (n, True) # Q" "blen xs = blen P" by auto
    from rt_free_spec [of P n Q h2 i k] r2 i2 n P obtain h3 where h3:
      "rt_free i (Some (heap_ptr h2 + of_nat (blen P) + 12)) h2 k = Some (Ret (), h3, k)" "heap_rep (freed P n Q) h3"
      "heap_idle i h3 k" "same_area h2 h3" "in_use 0 (freed P n Q) = in_use 0 bs1 - {(blen xs, n)}"
      "data_kept (in_use 0 (freed P n Q)) (heap_bytes h2) (heap_bytes h3)" by auto
    have ad: "heap_ptr h2 + of_nat (blen P) + 12 = a" using sa P by (simp add: a_def h2_def same_area_def)
    have "realloc_expand i a sz v h k = Some (Ret (Some b), h3, k)"
      using m t h3(1) off mc len
      by (simp add: realloc_expand_def realloc_copy_def rt_thread_self_def ad Let_def b_def [symmetric] h2_def [symmetric])
    moreover have "(p, ln) \<noteq> (blen xs, n)" using apx n by auto
    then have u3: "in_use 0 (freed P n Q) = insert (p, ln) L" using h3(5) u1 by (auto simp: L_def)
    moreover have "heap_bytes h3 i = heap_bytes h i" if "(q, l) \<in> L" "q + 12 \<le> i" "i < q + l" for q l i
    proof -
      have "q + l \<le> p \<or> p + ln \<le> q" using ap that(1) by (auto simp: L_def)
      then have "heap_bytes h2 i = heap_bytes h1 i" using that ln by (auto simp: h2_def m2_def copied_def)
      moreover have "heap_bytes h3 i = heap_bytes h2 i" "heap_bytes h1 i = heap_bytes h i"
        using h3(6) dk that u3 unfolding data_kept_def L_def by fastforce+
      ultimately show ?thesis by simp
    qed
    then have "data_kept L (heap_bytes h) (heap_bytes h3)" unfolding data_kept_def by fastforce
    moreover have "heap_bytes h3 (p + 12 + j) = heap_bytes h (blen xs + 12 + j)" if "j < min (n - 12) (unat v)" for j
    proof -
      have "heap_bytes h3 (p + 12 + j) = heap_bytes h2 (p + 12 + j)"
        using h3(6) that ln u3 unfolding data_kept_def by fastforce
      also have "\<dots> = heap_bytes h1 (blen xs + 12 + j)" using that by (simp add: h2_def m2_def copied_def)
      also have "\<dots> = heap_bytes h (blen xs + 12 + j)" using dk here that unfolding data_kept_def by fastforce
      finally show ?thesis .
    qed
    moreover have "same_area h h3" using sa h3(4) by (simp add: same_area_def h2_def)
    ultimately show ?thesis
      using h3(2,3) ln call unfolding a_def [symmetric] b_def
      by (intro disjI2 exI [of _ p] exI [of _ ln] exI [of _ "freed P n Q"] exI [of _ h3]) simp
  qed
qed

section \<open>Initialisation\<close>

definition heap_area :: "u32 \<Rightarrow> u32 \<Rightarrow> u32" where
  "heap_area b e = RT_ALIGN_DOWN e 4 - RT_ALIGN b 4 - 24"

lemma unat_align_down4: "4 dvd unat (RT_ALIGN_DOWN x 4)"
proof -
  have "(4 :: u32) - 1 = 3" by simp
  then have "unat (RT_ALIGN_DOWN x 4) = unat (x - x mod 4)" unfolding RT_ALIGN_DOWN_def by (simp only: and_not_three)
  also have "\<dots> = unat x - unat x mod 4" by (subst unat_minus) (simp_all add: unat_mod4)
  also have "\<dots> = unat x div 4 * 4" by (simp add: minus_mod_eq_div_mult)
  finally show ?thesis by simp
qed

text \<open>The new heap is one free block.\<close>

lemma rt_system_heap_init_rep:
  assumes b: "unat (RT_ALIGN b 4) + 36 \<le> unat (RT_ALIGN_DOWN e 4)" and k: "rt_interrupt_nest k = 0"
    and s: "rt_sem_init i [0x68, 0x65, 0x61, 0x70] 1 RT_IPC_FLAG_FIFO k = Some (r, sem, k')" and u: "used_mem h = 0"
  shows "\<exists>h'. rt_system_heap_init i b e h k = Some (h', k') \<and>
    heap_rep [(unat (heap_area b e) + 12, False)] h' \<and> heap_ptr h' = RT_ALIGN b 4 \<and> mem_size_aligned h' = heap_area b e \<and>
    lfree h' = 0 \<and> heap_sem h' = sem"
proof -
  define B where "B = RT_ALIGN b 4"
  define E where "E = RT_ALIGN_DOWN e 4"
  define M where "M = heap_area b e"
  have bE: "unat B + 36 \<le> unat E" using b by (simp add: B_def E_def)
  have dvd: "4 dvd unat B" "4 dvd unat E" using unat_align_down4 by (simp_all add: B_def E_def unat_align4)
  have lt: "unat E < 2 ^ 32" using unsigned_less [of E, where ?'a = nat] by simp
  have M: "unat M = unat E - unat B - 24"
    unfolding M_def heap_area_def B_def [symmetric] E_def [symmetric] using bE by (simp add: unat_minus)
  have g: "24 < E" "B \<le> E - 24" using bE by (simp_all add: word_less_nat_alt word_le_nat_alt unat_minus)
  have M12: "unat (M + 12) = unat M + 12" using M lt by (intro unat_plus12) simp
  define m where "m = put32 (unat M + 12 + 8) (M + 12) (put32 (unat M + 12 + 4) (M + 12) (put16 (unat M + 12 + 2) 1 (put16 (unat M + 12) HEAP_MAGIC
     (put16 (Suc (Suc 0)) 0 (put32 8 0 (put32 4 (M + 12) (put16 0 HEAP_MAGIC (heap_bytes h))))))))"
  define h' where "h' = h\<lparr>mem_size_aligned := M, heap_ptr := B, heap_bytes := m, heap_end := M + 12, heap_sem := sem, lfree := 0\<rparr>"
  have ME: "E - B - 24 = M" by (simp add: M_def heap_area_def B_def E_def)
  have "rt_system_heap_init i b e h k = Some (h', k')"
    using g s k M12
    by (simp add: rt_system_heap_init_def Let_def B_def [symmetric] E_def [symmetric] ME not_in_interrupt_def rt_interrupt_get_nest_def
        wr_magic_def wr_next_def wr_prev_def wr_used_def rd_next_def hdr_ok_def h'_def m_def)
  moreover have Mn: "4 dvd unat M" "12 \<le> unat M" "unat B + unat M + 24 < 2 ^ 32" using M dvd bE lt by auto
  have hr: "hdr_rep m 0 0 (unat M + 12) False" "h_used m (unat M + 12) = 1"
    using Mn M12 by (simp_all add: hdr_rep_def m_def)
  then have "heap_core [(unat M + 12, False)] h'" using Mn dvd u by (simp add: heap_core_def h'_def)
  then have "heap_rep [(unat M + 12, False)] h'" by (auto simp: heap_rep_def lfree_ok_def h'_def intro: exI [of _ "[]"])
  ultimately show ?thesis by (auto simp: h'_def B_def M_def)
qed

section \<open>A heap on the board\<close>

definition boot_heap :: rt_heap where
  "boot_heap = \<lparr>heap_ptr = 0, heap_bytes = (\<lambda>_. 0), heap_end = 0, lfree = 0, heap_sem = \<lparr>sem_value = 0\<rparr>,
     mem_size_aligned = 0, used_mem = 0, max_mem = 0\<rparr>"

text \<open>A heap of 0xfe8 bytes at 0x20001000, on the kernel that has been started.\<close>

lemma boot_heap_init:
  obtains h k where "rt_system_heap_init 9 0x20001000 0x20002000 boot_heap boot_kernel = Some (h, k)"
    "heap_rep [(0xff4, False)] h" "heap_idle 9 h k" "heap_ptr h = 0x20001000" "mem_size_aligned h = 0xfe8" "lfree h = 0"
    "rt_current_thread k = Some 2"
proof -
  have ev: "map_option (\<lambda>k. (rt_interrupt_nest k, map_option (\<lambda>(r, sem, k'). (sem, q_list k' (Wait 9), rt_interrupt_nest k', rt_current_thread k'))
      (rt_sem_init 9 [0x68, 0x65, 0x61, 0x70] 1 RT_IPC_FLAG_FIFO k))) boot = Some (0, Some (\<lparr>sem_value = 1\<rparr>, [], 0, Some 2))" by code_simp
  then obtain r sem k where k: "rt_interrupt_nest boot_kernel = 0" "sem_value sem = 1" "q_list k (Wait 9) = []" "rt_interrupt_nest k = 0"
    "rt_sem_init 9 [0x68, 0x65, 0x61, 0x70] 1 RT_IPC_FLAG_FIFO boot_kernel = Some (r, sem, k)" "rt_current_thread k = Some 2"
    unfolding boot_kernel(1) by (auto, metis rt_semaphore.select_convs(1))
  have "RT_ALIGN 0x20001000 4 = 0x20001000" "RT_ALIGN_DOWN 0x20002000 4 = 0x20002000" by code_simp+
  then have a: "unat (RT_ALIGN 0x20001000 4) + 36 \<le> unat (RT_ALIGN_DOWN 0x20002000 4)" "heap_area 0x20001000 0x20002000 = 0xfe8"
    "RT_ALIGN 0x20001000 4 = 0x20001000" by (simp_all add: heap_area_def)
  from rt_system_heap_init_rep [OF a(1) k(1) k(5), of boot_heap] obtain h where
    "rt_system_heap_init 9 0x20001000 0x20002000 boot_heap boot_kernel = Some (h, k)" "heap_rep [(0xff4, False)] h"
    "heap_ptr h = 0x20001000" "mem_size_aligned h = 0xfe8" "lfree h = 0" "heap_sem h = sem"
    using a by (auto simp: boot_heap_def)
  with k show ?thesis by (intro that [of h k]) (simp_all add: heap_idle_def)
qed

lemma boot_heap_malloc:
  assumes "sz = 100 \<or> sz = 0xfdc"
  shows "\<exists>h k h'. heap_rep [(0xff4, False)] h \<and> heap_idle 9 h k \<and> rt_malloc 9 sz h k = Some (Ret (Some 0x2000100c), h', k) \<and>
    heap_rep (take_block (unat sz) 0xff4) h' \<and> heap_idle 9 h' k \<and> heap_ptr h' = 0x20001000 \<and> mem_size_aligned h' = 0xfe8 \<and>
    unat (lfree h') = blen (takeWhile snd (take_block (unat sz) 0xff4)) \<and> rt_current_thread k = Some 2"
proof -
  from boot_heap_init obtain h k where h: "heap_rep [(0xff4, False)] h" "heap_idle 9 h k" "heap_ptr h = 0x20001000"
    "mem_size_aligned h = 0xfe8" "lfree h = 0" "rt_current_thread k = Some 2" by metis
  have r: "RT_ALIGN sz 4 = sz" "request sz = unat sz"
    using assms by (auto simp: word_unat_eq_iff unat_align4 request_def)
  have ns: "\<not> (sz = 0 \<or> mem_size_aligned h < RT_ALIGN sz 4)" using assms r h(4) by auto
  have "heap_rep ([] @ [(0xff4, False)]) h" "unat (lfree h) = blen []" using h by simp_all
  from rt_malloc_spec [OF this h(2), of sz, unfolded if_not_P [OF ns] r(2)]
  consider (none) "\<forall>xs n ys. [(0xff4, False)] = xs @ (n, False) # ys \<longrightarrow> n < unat sz + 12 \<or> (n = unat sz + 12 \<and> ys = [])"
    | (some) xs n ys h' len where "[(0xff4, False)] = xs @ (n, False) # ys"
      "rt_malloc 9 sz h k = Some (Ret (Some (heap_ptr h + of_nat (blen ([] @ xs)) + 12)), h', k)" "heap_idle 9 h' k"
      "allocated ([] @ [(0xff4, False)]) h (blen ([] @ xs)) len ([] @ xs @ take_block (unat sz) n @ ys) h'"
      "unat (lfree h') = (if xs = [] then blen [] + blen (takeWhile snd (take_block (unat sz) n @ ys)) else blen [])"
    by blast
  then show ?thesis
  proof cases
    case none
    from none [rule_format, of "[]" "0xff4" "[]"] assms show ?thesis by auto
  next
    case some
    from some(1) have "xs = []" "n = 0xff4" "ys = []" by (cases xs; auto)+
    with some h show ?thesis by (intro exI [of _ h] exI [of _ k] exI [of _ h']) (simp add: allocated_def same_area_def)
  qed
qed

section \<open>Properties\<close>

text \<open>
  C25: \<^verbatim>\<open>rt_malloc\<close> in every branch, when no other call is in the heap.  A request for nothing or for more than the
  heap has is refused.  Otherwise the size is rounded up to a multiple of 4 and to at least 12, and
  the first free block from \<^verbatim>\<open>lfree\<close> on that is long enough is taken, a remainder that can hold 12 bytes
  being split off.  The block is added to the blocks in use, lies apart from all of them, is
  aligned, and no byte of their data changes; the heap stays well formed.  Only when no free block
  is long enough, but for one at the very end that fits exactly, nothing is returned, and nothing
  changes.
\<close>

theorem rt_malloc_correct:
  assumes r: "heap_rep (ls @ rs) h" and l: "unat (lfree h) = blen ls" and i: "heap_idle i h k"
  shows "if sz = 0 \<or> mem_size_aligned h < RT_ALIGN sz 4 then rt_malloc i sz h k = Some (Ret None, h, k)
    else (rt_malloc i sz h k = Some (Ret None, h, k) \<and>
       (\<forall>xs n ys. rs = xs @ (n, False) # ys \<longrightarrow> n < request sz + 12 \<or> (n = request sz + 12 \<and> ys = []))) \<or>
      (\<exists>xs n ys h' len. rs = xs @ (n, False) # ys \<and> request sz + 12 \<le> n \<and> (\<forall>b \<in> set xs. snd b \<or> fst b < request sz + 12) \<and>
         rt_malloc i sz h k = Some (Ret (Some (heap_ptr h + of_nat (blen (ls @ xs)) + 12)), h', k) \<and> heap_idle i h' k \<and>
         request sz + 12 \<le> len \<and> allocated (ls @ rs) h (blen (ls @ xs)) len (ls @ xs @ take_block (request sz) n @ ys) h')"
proof (cases "sz = 0 \<or> mem_size_aligned h < RT_ALIGN sz 4")
  case True
  with rt_malloc_spec [OF assms, of sz] show ?thesis by (simp only: if_True)
next
  case False
  with rt_malloc_spec [OF assms, of sz] show ?thesis unfolding if_not_P [OF False] by blast
qed

theorem rt_malloc_correct_witness:
  "\<exists>h k h'. heap_rep [(0xff4, False)] h \<and> rt_malloc 9 99 h k = Some (Ret (Some 0x2000100c), h', k) \<and>
     heap_rep [(112, True), (0xff4 - 112, False)] h'"
proof -
  from boot_heap_init obtain h k where h: "heap_rep [(0xff4, False)] h" "heap_idle 9 h k" "heap_ptr h = 0x20001000"
    "mem_size_aligned h = 0xfe8" "lfree h = 0" by metis
  obtain w :: u32 where w: "w = 99" by simp
  have r: "RT_ALIGN w 4 = 100" unfolding w by code_simp
  have ns: "\<not> (w = 0 \<or> mem_size_aligned h < RT_ALIGN w 4)" using h(4) r w by simp
  have "heap_rep ([] @ [(0xff4, False)]) h" "unat (lfree h) = blen []" using h by simp_all
  from rt_malloc_correct [OF this h(2), of w, unfolded if_not_P [OF ns]]
  consider (none) "\<forall>xs n ys. [(0xff4, False)] = xs @ (n, False) # ys \<longrightarrow> n < request w + 12 \<or> (n = request w + 12 \<and> ys = [])"
    | (some) xs n ys h' len where "[(0xff4, False)] = xs @ (n, False) # ys"
      "rt_malloc 9 w h k = Some (Ret (Some (heap_ptr h + of_nat (blen ([] @ xs)) + 12)), h', k)"
      "allocated ([] @ [(0xff4, False)]) h (blen ([] @ xs)) len ([] @ xs @ take_block (request w) n @ ys) h'"
    by blast
  then show ?thesis
  proof cases
    case none
    from none [rule_format, of "[]" "0xff4" "[]"] show ?thesis by (simp add: request_def r)
  next
    case some
    from some(1) have "xs = []" "n = 0xff4" "ys = []" by (cases xs; auto)+
    moreover have "request w = 100" by (simp add: request_def r)
    ultimately show ?thesis using some h w
      by (intro exI [of _ h] exI [of _ k] exI [of _ h']) (simp add: allocated_def take_block_def)
  qed
qed

text \<open>
  C26: \<^verbatim>\<open>rt_free\<close> of a block in use, when no other call is in the heap: the block is joined with the free
  blocks before and behind it, the heap stays well formed, exactly this block is no longer in use,
  no byte of the data of the others changes, and the next search starts no later than at it.
\<close>

theorem rt_free_correct:
  assumes "heap_rep (xs @ (n, True) # ys) h" and "heap_idle i h k" and "12 < n \<or> ys \<noteq> []"
  shows "\<exists>h'. rt_free i (Some (heap_ptr h + of_nat (blen xs) + 12)) h k = Some (Ret (), h', k) \<and>
    heap_rep (freed xs n ys) h' \<and> heap_idle i h' k \<and> same_area h h' \<and> unat (lfree h') \<le> min (blen xs) (unat (lfree h)) \<and>
    in_use 0 (freed xs n ys) = in_use 0 (xs @ (n, True) # ys) - {(blen xs, n)} \<and>
    data_kept (in_use 0 (freed xs n ys)) (heap_bytes h) (heap_bytes h')"
  by (rule rt_free_spec [OF assms])

theorem rt_free_correct_witness:
  "\<exists>h k h'. heap_rep [(112, True), (0xff4 - 112, False)] h \<and> rt_free 9 (Some 0x2000100c) h k = Some (Ret (), h', k) \<and>
     heap_rep [(0xff4, False)] h'"
proof -
  from boot_heap_malloc [of 100] obtain h k where h: "heap_rep (take_block 100 0xff4) h" "heap_idle 9 h k" "heap_ptr h = 0x20001000"
    by auto
  then have "heap_rep ([] @ (112, True) # [(0xff4 - 112, False)]) h" by (simp add: take_block_def)
  from rt_free_correct [OF this h(2)] h show ?thesis
    by (auto simp: take_block_def freed_def join_next_def join_prev_def)
qed

lemma freed_take:
  assumes "no_adj (xs @ (n, False) # ys)" and "s + 12 \<le> n"
  shows "\<exists>l zs. take_block s n @ ys = (l, True) # zs \<and> s + 12 \<le> l \<and> freed xs l zs = xs @ (n, False) # ys"
proof (cases "s + 36 \<le> n")
  case True
  then show ?thesis using assms
    by (auto simp: take_block_def freed_def join_next_def join_prev_def)
next
  case False
  then show ?thesis using assms
    by (cases ys) (auto simp: take_block_def freed_def join_next_def join_prev_def)
qed

text \<open>
  What \<^verbatim>\<open>rt_malloc\<close> has returned, \<^verbatim>\<open>rt_free\<close> takes back: the two calls leave the blocks of the heap and
  the memory counted as used as they were, the next search starts no later, and no byte of the data
  of a block in use has changed.
\<close>

theorem rt_malloc_free_roundtrip:
  assumes r: "heap_rep bs h" and i: "heap_idle i h k" and m: "rt_malloc i sz h k = Some (Ret (Some a), h', k')"
  shows "\<exists>h''. rt_free i (Some a) h' k' = Some (Ret (), h'', k) \<and> heap_rep bs h'' \<and> lfree h'' \<le> lfree h \<and>
    used_mem h'' = used_mem h \<and> data_kept (in_use 0 bs) (heap_bytes h) (heap_bytes h'')"
proof -
  from r obtain ls rs where l: "bs = ls @ rs" "unat (lfree h) = blen ls" by (auto simp: heap_rep_def lfree_ok_def)
  from r l have "heap_rep (ls @ rs) h" by simp
  note sp = rt_malloc_spec [OF this l(2) i, of sz]
  have ns: "\<not> (sz = 0 \<or> mem_size_aligned h < RT_ALIGN sz 4)"
  proof
    assume "sz = 0 \<or> mem_size_aligned h < RT_ALIGN sz 4"
    with sp m show False by simp
  qed
  from sp [unfolded if_not_P [OF ns]] consider (none) "rt_malloc i sz h k = Some (Ret None, h, k)"
    | (some) xs n ys h2 len where "rs = xs @ (n, False) # ys" "request sz + 12 \<le> n"
      "rt_malloc i sz h k = Some (Ret (Some (heap_ptr h + of_nat (blen (ls @ xs)) + 12)), h2, k)" "heap_idle i h2 k"
      "allocated (ls @ rs) h (blen (ls @ xs)) len (ls @ xs @ take_block (request sz) n @ ys) h2"
      "unat (lfree h2) = (if xs = [] then blen ls + blen (takeWhile snd (take_block (request sz) n @ ys)) else blen ls)"
    by blast
  then obtain xs n ys len where x: "rs = xs @ (n, False) # ys" "request sz + 12 \<le> n"
    and a: "a = heap_ptr h + of_nat (blen (ls @ xs)) + 12" "k' = k" "heap_idle i h' k"
    and al: "allocated (ls @ rs) h (blen (ls @ xs)) len (ls @ xs @ take_block (request sz) n @ ys) h'"
    and lf: "unat (lfree h') = (if xs = [] then blen ls + blen (takeWhile snd (take_block (request sz) n @ ys)) else blen ls)"
  proof cases
    case none
    with m show ?thesis by simp
  next
    case some
    with m show ?thesis by (intro that [of xs n ys len]) simp_all
  qed
  have "no_adj ((ls @ xs) @ (n, False) # ys)" using r l x by (simp add: heap_rep_def)
  from freed_take [OF this x(2)] obtain b zs where t: "take_block (request sz) n @ ys = (b, True) # zs"
    "request sz + 12 \<le> b" "freed (ls @ xs) b zs = bs" using l x by auto
  have r': "heap_rep ((ls @ xs) @ (b, True) # zs) h'" using al t by (simp add: allocated_def)
  have hp: "heap_ptr h' = heap_ptr h" using al by (simp add: allocated_def same_area_def)
  have "12 < b" using t(2) by (simp add: request_def)
  with rt_free_spec [OF r' a(3)] obtain h'' where f: "rt_free i (Some a) h' k = Some (Ret (), h'', k)" "heap_rep bs h''"
    "unat (lfree h'') \<le> min (blen (ls @ xs)) (unat (lfree h'))" "data_kept (in_use 0 bs) (heap_bytes h') (heap_bytes h'')"
    using t(3) a hp by auto
  have "used_mem h'' = used_mem h" using r f(2) by (simp add: heap_rep_def heap_core_def)
  moreover have "data_kept (in_use 0 bs) (heap_bytes h) (heap_bytes h')" using al l by (simp add: allocated_def)
  note data_kept_trans [OF this f(4)]
  moreover have "lfree h'' \<le> lfree h" using f(3) lf l by (auto simp: word_le_nat_alt split: if_splits)
  ultimately show ?thesis using f a(2) by auto
qed

theorem rt_malloc_free_roundtrip_witness:
  "\<exists>h k h' h''. heap_rep [(0xff4, False)] h \<and> rt_malloc 9 100 h k = Some (Ret (Some 0x2000100c), h', k) \<and>
     rt_free 9 (Some 0x2000100c) h' k = Some (Ret (), h'', k) \<and> heap_rep [(0xff4, False)] h''"
proof -
  from boot_heap_malloc [of 100] obtain h k h' where h: "heap_rep [(0xff4, False)] h" "heap_idle 9 h k"
    "rt_malloc 9 100 h k = Some (Ret (Some 0x2000100c), h', k)" by auto
  from rt_malloc_free_roundtrip [OF this] this show ?thesis by blast
qed



text \<open>
  Cutting a block with \<^verbatim>\<open>rt_realloc\<close> in a heap whose blocks are all in use does not move \<^verbatim>\<open>lfree\<close> back to the
  rest that has become free: \<^verbatim>\<open>rt_malloc\<close> then finds nothing, whatever is asked for, although the rest
  is free and long enough.
\<close>

theorem rt_realloc_hides_free:
  assumes r: "heap_rep (xs @ (n, True) # ys) h" and i: "heap_idle i h k" and e: "lfree h = heap_end h"
    and w: "unat (RT_ALIGN newsize 4) + 36 < n" and y: "ys = [] \<or> snd (hd ys)"
  shows "\<exists>h'. rt_realloc i (Some (heap_ptr h + of_nat (blen xs) + 12)) newsize h k =
      Some (Ret (Some (heap_ptr h + of_nat (blen xs) + 12)), h', k) \<and>
    heap_rep (xs @ (unat (RT_ALIGN newsize 4) + 12, True) # (n - (unat (RT_ALIGN newsize 4) + 12), False) # ys) h' \<and>
    24 < n - (unat (RT_ALIGN newsize 4) + 12) \<and> (\<forall>sz. rt_malloc i sz h' k = Some (Ret None, h', k))"
proof -
  from rt_realloc_shrink [OF r i w] y obtain h' where h':
    "rt_realloc i (Some (heap_ptr h + of_nat (blen xs) + 12)) newsize h k = Some (Ret (Some (heap_ptr h + of_nat (blen xs) + 12)), h', k)"
    "heap_rep (shrunk xs n (unat (RT_ALIGN newsize 4)) ys) h'" "heap_idle i h' k" "same_area h h'" "lfree h' = lfree h" by blast
  define bs where "bs = shrunk xs n (unat (RT_ALIGN newsize 4)) ys"
  have bs: "bs = xs @ (unat (RT_ALIGN newsize 4) + 12, True) # (n - (unat (RT_ALIGN newsize 4) + 12), False) # ys"
    using y by (auto simp: bs_def shrunk_def join_next_def)
  have c: "heap_core (bs @ []) h'" using h'(2) by (simp add: heap_rep_def bs_def)
  have "unat (lfree h') = blen bs"
    using heap_core_pos(3) [OF c] heap_core_pos(4) [OF c] h'(4,5) e by (simp add: same_area_def)
  moreover have "heap_rep (bs @ []) h'" using h'(2) by (simp add: bs_def)
  ultimately have "rt_malloc i sz h' k = Some (Ret None, h', k)" for sz
    using rt_malloc_spec [of bs "[]" h' i k sz] h'(3) by (auto split: if_splits)
  then show ?thesis using h'(1,2) w bs unfolding bs_def by auto
qed

theorem rt_realloc_hides_free_witness:
  "\<exists>h k h'. heap_rep [(0xff4, True)] h \<and> rt_realloc 9 (Some 0x2000100c) 100 h k = Some (Ret (Some 0x2000100c), h', k) \<and>
     heap_rep [(112, True), (0xff4 - 112, False)] h' \<and> rt_malloc 9 16 h' k = Some (Ret None, h', k)"
proof -
  from boot_heap_malloc [of "0xfdc"] obtain h k where h: "heap_rep (take_block 0xfdc 0xff4) h" "heap_idle 9 h k" "heap_ptr h = 0x20001000"
    "mem_size_aligned h = 0xfe8" "unat (lfree h) = blen (takeWhile snd (take_block 0xfdc 0xff4))" by auto
  then have r: "heap_rep ([] @ (0xff4, True) # []) h" and l: "unat (lfree h) = 0xff4" by (simp_all add: take_block_def)
  have "heap_end h = 0xff4" using r h(4) by (simp add: heap_rep_def heap_core_def)
  then have "lfree h = heap_end h" using l by (simp add: word_unat_eq_iff)
  moreover have "RT_ALIGN 100 4 = 100" by code_simp
  ultimately show ?thesis using rt_realloc_hides_free [OF r h(2), of 100] r h(3) by auto
qed

text \<open>
  The size of a request is rounded up with no regard to the range of its type: for the three
  largest sizes the result is 0, and \<^verbatim>\<open>rt_malloc\<close> returns a block of the smallest size as if there were
  room for 4 gigabytes.
\<close>

theorem rt_malloc_size_wraps:
  assumes r: "heap_rep (ls @ (n, False) # ys) h" and l: "unat (lfree h) = blen ls" and i: "heap_idle i h k"
    and sz: "0xfffffffc < sz" and n: "24 < n"
  shows "\<exists>h'. rt_malloc i sz h k = Some (Ret (Some (heap_ptr h + of_nat (blen ls) + 12)), h', k) \<and>
    heap_rep (ls @ take_block 12 n @ ys) h'"
proof -
  have "unat sz + 3 \<ge> 2 ^ 32" using sz by (simp add: word_less_nat_alt)
  then have al: "unat (RT_ALIGN sz 4) = 0" by (simp add: unat_align4)
  then have s: "\<not> (sz = 0 \<or> mem_size_aligned h < RT_ALIGN sz 4)" "request sz = 12"
    using sz by (auto simp: word_less_nat_alt request_def)
  from rt_malloc_spec [OF r l i, of sz, unfolded if_not_P [OF s(1)] s(2)]
  consider (none) "\<forall>xs m zs. (n, False) # ys = xs @ (m, False) # zs \<longrightarrow> m < 24 \<or> m = 24 \<and> zs = []"
    | (some) xs m zs h' len where "(n, False) # ys = xs @ (m, False) # zs" "\<forall>b \<in> set xs. snd b \<or> fst b < 24"
      "rt_malloc i sz h k = Some (Ret (Some (heap_ptr h + of_nat (blen (ls @ xs)) + 12)), h', k)"
      "allocated (ls @ (n, False) # ys) h (blen (ls @ xs)) len (ls @ xs @ take_block 12 m @ zs) h'"
    by fastforce
  then show ?thesis
  proof cases
    case none
    with n show ?thesis by (auto dest: spec [of _ "[]"])
  next
    case some
    have "xs = []" using some(1,2) n by (cases xs) auto
    with some show ?thesis by (auto simp: allocated_def)
  qed
qed

theorem rt_malloc_size_wraps_witness:
  "\<exists>h k h'. heap_rep [(0xff4, False)] h \<and> rt_malloc 9 0xfffffffd h k = Some (Ret (Some 0x2000100c), h', k) \<and>
     heap_rep [(24, True), (0xff4 - 24, False)] h'"
proof -
  from boot_heap_init obtain h k where h: "heap_rep [(0xff4, False)] h" "heap_idle 9 h k" "heap_ptr h = 0x20001000"
    "lfree h = 0" by metis
  from rt_malloc_size_wraps [of "[]" "0xff4" "[]" h 9 k "0xfffffffd"] h show ?thesis
    by (auto simp: take_block_def)
qed

end
