(* ===== verification/KString.thy ===== *)
theory KString
  imports KMemory "HOL-Library.Sublist"
begin

text \<open>
  The string routines of \<^verbatim>\<open>src/kservice.c\<close> on strings in memory: a string is the bytes from its address up to
  the first zero byte.  The loops run until they meet a zero byte, so they are partial functions;
  on the addresses of strings they return, and the results are those of the lists of bytes.
\<close>

unbundle bit_operations_syntax

section \<open>The operations\<close>

partial_function (option) strlen_loop :: "bytes \<Rightarrow> nat \<Rightarrow> nat option" where
  "strlen_loop m sc = (if m sc \<noteq> 0 then strlen_loop m (sc + 1) else Some sc)"

definition rt_strlen :: "bytes \<Rightarrow> nat \<Rightarrow> nat option" where
  "rt_strlen m s = do { sc \<leftarrow> strlen_loop m s; Some (sc - s) }"

text \<open>The difference of two characters as the unsigned number that is returned.\<close>

partial_function (option) rt_strcmp :: "bytes \<Rightarrow> nat \<Rightarrow> nat \<Rightarrow> u32 option" where
  "rt_strcmp m cs ct =
     (if m cs \<noteq> 0 \<and> m cs = m ct then rt_strcmp m (cs + 1) (ct + 1)
      else Some (ucast (m cs) - ucast (m ct)))"

text \<open>A letter \<^verbatim>\<open>A\<close> to \<^verbatim>\<open>Z\<close> becomes the small one.\<close>

definition lower :: "u8 \<Rightarrow> u8" where
  "lower c = (if 0x41 \<le> c \<and> c \<le> 0x5a then c + (0x61 - 0x41) else c)"

partial_function (option) rt_strcasecmp :: "bytes \<Rightarrow> nat \<Rightarrow> nat \<Rightarrow> u32 option" where
  "rt_strcasecmp m a b =
     (let ca = lower (m a); cb = lower (m b)
      in if ca = cb \<and> ca \<noteq> 0 then rt_strcasecmp m (a + 1) (b + 1)
         else Some (ucast ca - ucast cb))"

function strstr_loop :: "bytes \<Rightarrow> nat \<Rightarrow> nat \<Rightarrow> int \<Rightarrow> int \<Rightarrow> nat option" where
  "strstr_loop m s1 s2 l1 l2 =
     (if l1 \<ge> l2 then
        (if rt_memcmp s1 s2 (nat l2) m = 0 then Some s1
         else strstr_loop m (s1 + 1) s2 (l1 - 1) l2)
      else None)"
  by pat_completeness auto
termination by (relation "measure (\<lambda>(m, s1, s2, l1, l2). nat (l1 - l2 + 1))") auto

definition rt_strstr :: "bytes \<Rightarrow> nat \<Rightarrow> nat \<Rightarrow> nat option option" where
  "rt_strstr m s1 s2 =
     do { l2 \<leftarrow> rt_strlen m s2;
          if l2 = 0 then Some (Some s1)
          else do { l1 \<leftarrow> rt_strlen m s1; Some (strstr_loop m s1 s2 (int l1) (int l2)) } }"

declare strstr_loop.simps [simp del]

section \<open>Strings in memory\<close>

fun str_at :: "bytes \<Rightarrow> nat \<Rightarrow> u8 list \<Rightarrow> bool" where
  "str_at m a [] \<longleftrightarrow> m a = 0"
| "str_at m a (c # s) \<longleftrightarrow> m a = c \<and> c \<noteq> 0 \<and> str_at m (a + 1) s"

lemma str_at_block: "str_at m a s \<Longrightarrow> k \<le> length s \<Longrightarrow> block m a k = take k s"
proof (induction s arbitrary: a k)
  case (Cons c s)
  then show ?case by (cases k) (auto simp: block_Suc, auto simp: block_def)
qed (simp add: block_def)

lemma str_at_unique: "str_at m a s \<Longrightarrow> str_at m a t \<Longrightarrow> s = t"
proof (induction s arbitrary: a t)
  case Nil
  then show ?case by (cases t) auto
next
  case (Cons c s)
  then show ?case by (cases t) auto
qed

lemma strlen_loop_str: "str_at m a s \<Longrightarrow> strlen_loop m a = Some (a + length s)"
  by (induction s arbitrary: a) (simp_all add: strlen_loop.simps [of m])

lemma rt_strlen_str: "str_at m a s \<Longrightarrow> rt_strlen m a = Some (length s)"
  by (simp add: rt_strlen_def strlen_loop_str)

lemma ucast_diff_zero: "(ucast (x :: u8) - ucast y :: u32) = 0 \<longleftrightarrow> x = y"
proof
  assume "(ucast x - ucast y :: u32) = 0"
  then have "unat (ucast x :: u32) = unat (ucast y :: u32)" by simp
  moreover have "unat (ucast w :: u32) = unat w" for w :: u8
    using unsigned_less [of w, where ?'a = nat] by (simp add: unsigned_ucast_eq take_bit_nat_eq_self)
  ultimately show "x = y" by (simp add: word_unat_eq_iff)
qed simp

lemma ucast_zero: "(ucast (x :: u8) :: u32) = 0 \<longleftrightarrow> x = 0"
  using ucast_diff_zero [of x 0] by simp

lemma rt_strcmp_str:
  "str_at m a s \<Longrightarrow> str_at m b t \<Longrightarrow> \<exists>r. rt_strcmp m a b = Some r \<and> (r = 0 \<longleftrightarrow> s = t)"
proof (induction s arbitrary: a b t)
  case Nil
  then show ?case by (cases t) (simp_all add: rt_strcmp.simps [of m] ucast_zero)
next
  case (Cons c s)
  then show ?case
    by (cases t) (auto simp add: rt_strcmp.simps [of m a] ucast_diff_zero ucast_zero simp del: right_minus_eq)
qed

lemma lower_zero [simp]: "lower c = 0 \<longleftrightarrow> c = 0" "lower 0 = 0"
proof -
  show "lower c = 0 \<longleftrightarrow> c = 0"
    using uint_add_lem [of c 32] by (auto simp: lower_def word_le_def word_uint_eq_iff uint_word_ariths)
  show "lower 0 = 0" by (simp add: lower_def)
qed

lemma rt_strcasecmp_str:
  "str_at m a s \<Longrightarrow> str_at m b t \<Longrightarrow>
     \<exists>r. rt_strcasecmp m a b = Some r \<and> (r = 0 \<longleftrightarrow> map lower s = map lower t)"
proof (induction s arbitrary: a b t)
  case Nil
  then show ?case by (cases t) (simp_all add: rt_strcasecmp.simps [of m] ucast_zero)
next
  case (Cons c s)
  then show ?case
    by (cases t) (auto simp add: rt_strcasecmp.simps [of m a] ucast_diff_zero ucast_zero Let_def simp del: right_minus_eq)
qed

section \<open>The first occurrence\<close>

fun find_sub :: "u8 list \<Rightarrow> u8 list \<Rightarrow> nat option" where
  "find_sub t [] = (if t = [] then Some 0 else None)"
| "find_sub t (c # s) = (if prefix t (c # s) then Some 0 else map_option Suc (find_sub t s))"

lemma find_sub_None: "find_sub t s = None \<longleftrightarrow> \<not> sublist t s"
  by (induction s) (auto simp: sublist_Cons_right)

lemma find_sub_Some:
  "find_sub t s = Some k \<Longrightarrow> prefix t (drop k s) \<and> k \<le> length s \<and> (\<forall>j < k. \<not> prefix t (drop j s))"
proof (induction s arbitrary: k)
  case Nil
  then show ?case by (simp split: if_splits)
next
  case (Cons c s)
  show ?case
  proof (cases "prefix t (c # s)")
    case False
    with Cons obtain k' where "k = Suc k'" "find_sub t s = Some k'" by auto
    with Cons.IH [of k'] False show ?thesis by (auto simp: less_Suc_eq_0_disj)
  qed (use Cons in simp)
qed

lemma prefix_block: "str_at m a s \<Longrightarrow> length t \<le> length s \<Longrightarrow> prefix t s \<longleftrightarrow> block m a (length t) = t"
  by (auto simp: str_at_block prefix_def) (metis append_take_drop_id)

lemma find_sub_short: "length s < length t \<Longrightarrow> find_sub t s = None"
  by (auto simp: find_sub_None dest: sublist_length_le)

lemma strstr_loop_str:
  assumes "str_at m b t" and "t \<noteq> []"
  shows "str_at m a s \<Longrightarrow>
    strstr_loop m a b (int (length s)) (int (length t)) = map_option ((+) a) (find_sub t s)"
proof (induction s arbitrary: a)
  case Nil
  with assms show ?case by (simp add: strstr_loop.simps)
next
  case (Cons c s)
  have t: "block m b (length t) = t" using str_at_block [OF assms(1)] by simp
  show ?case
  proof (cases "length (c # s) < length t")
    case False
    then have "prefix t (c # s) \<longleftrightarrow> block m a (length t) = t" using prefix_block [OF Cons.prems, of t] by simp
    with Cons False t show ?thesis
      by (auto simp: strstr_loop.simps [of m a] rt_memcmp_zero option.map_comp comp_def)
  qed (simp add: strstr_loop.simps find_sub_short del: find_sub.simps)
qed

text \<open>
  On strings in memory \<^verbatim>\<open>rt_strlen\<close>, \<^verbatim>\<open>rt_strcmp\<close>, \<^verbatim>\<open>rt_strcasecmp\<close> and \<^verbatim>\<open>rt_strstr\<close> return: the length; 0
  exactly for equal strings, with or without regard to case; and the address of the first
  occurrence of the second string in the first one, or no address when it does not occur in it.
\<close>

theorem rt_str_ops:
  assumes "str_at m a s" and "str_at m b t"
  shows "rt_strlen m a = Some (length s) \<and>
    (\<exists>r. rt_strcmp m a b = Some r \<and> (r = 0 \<longleftrightarrow> s = t)) \<and>
    (\<exists>r. rt_strcasecmp m a b = Some r \<and> (r = 0 \<longleftrightarrow> map lower s = map lower t)) \<and>
    (\<exists>r. rt_strstr m a b = Some r \<and> (r = None \<longleftrightarrow> \<not> sublist t s) \<and>
       (\<forall>p. r = Some p \<longrightarrow> a \<le> p \<and> prefix t (drop (p - a) s) \<and> (\<forall>j < p - a. \<not> prefix t (drop j s))))"
proof -
  have "rt_strstr m a b = Some (map_option ((+) a) (find_sub t s))"
  proof (cases "t = []")
    case True
    then have "find_sub t s = Some 0" by (cases s) auto
    with True assms show ?thesis by (simp add: rt_strstr_def rt_strlen_str [OF assms(2)])
  qed (simp add: rt_strstr_def rt_strlen_str [OF assms(1)] rt_strlen_str [OF assms(2)] strstr_loop_str [OF assms(2) _ assms(1)])
  moreover have "find_sub t s = None \<longleftrightarrow> \<not> sublist t s" by (rule find_sub_None)
  ultimately show ?thesis
    using rt_strlen_str [OF assms(1)] rt_strcmp_str [OF assms] rt_strcasecmp_str [OF assms] find_sub_Some [of t s] by auto
qed

theorem rt_str_ops_witness:
  "rt_strstr (\<lambda>i. [0x61, 0x62, 0x61, 0x63, 0, 0x61, 0x63, 0] ! i) 0 5 = Some (Some 2)"
proof -
  define m :: bytes where "m = (\<lambda>i. [0x61, 0x62, 0x61, 0x63, 0, 0x61, 0x63, 0] ! i)"
  have "str_at m 0 [0x61, 0x62, 0x61, 0x63]" "str_at m 5 [0x61, 0x63]" unfolding m_def by code_simp+
  from rt_str_ops [OF this] obtain r where r: "rt_strstr m 0 5 = Some r"
    "(r = None \<longleftrightarrow> \<not> sublist [0x61, 0x63] [0x61, 0x62, 0x61, 0x63 :: u8])"
    "\<forall>p. r = Some p \<longrightarrow> prefix [0x61, 0x63] (drop p [0x61, 0x62, 0x61, 0x63 :: u8]) \<and>
       (\<forall>j < p. \<not> prefix [0x61, 0x63] (drop j [0x61, 0x62, 0x61, 0x63 :: u8]))" by auto
  have "sublist [0x61, 0x63] [0x61, 0x62, 0x61, 0x63 :: u8]" unfolding sublist_def by (intro exI [of _ "[0x61, 0x62]"] exI [of _ "[]"]) simp
  with r obtain p where p: "r = Some p" by auto
  have "prefix [0x61, 0x63] (drop p [0x61, 0x62, 0x61, 0x63 :: u8])" using r p by auto
  moreover have "\<not> 4 \<le> p" using calculation by (auto simp: prefix_def)
  ultimately have "p = 2" by (auto simp: numeral_eq_Suc le_Suc_eq not_le less_Suc_eq)
  with r p show ?thesis by (simp add: m_def)
qed

end
