(* ===== verification/RingBuffer.thy ===== *)
theory RingBuffer
  imports Fifo
begin

text \<open>
  The ring buffer of the device drivers, \<^verbatim>\<open>components/drivers/src/ringbuffer.c\<close> and its inline
  functions in \<^verbatim>\<open>rtdevice.h\<close>: 15-bit indices with a mirror bit each, and blocks copied in at most
  two pieces.  C's expressions are of type \<^verbatim>\<open>int\<close>; what is stored is cut to the field.
\<close>

unbundle bit_operations_syntax

section \<open>The operations\<close>

record rt_ringbuffer =
  buffer :: "u8 list"
  read_mirror :: bool
  read_index :: "15 word"
  write_mirror :: bool
  write_index :: "15 word"
  buffer_size :: int \<comment> \<open>a signed short\<close>

datatype rt_ringbuffer_state = RT_RINGBUFFER_EMPTY | RT_RINGBUFFER_FULL | RT_RINGBUFFER_HALFFULL

definition rt_ringbuffer_get_size :: "rt_ringbuffer \<Rightarrow> u16" where
  "rt_ringbuffer_get_size rb = word_of_int (buffer_size rb)"

definition rt_ringbuffer_status :: "rt_ringbuffer \<Rightarrow> rt_ringbuffer_state" where
  "rt_ringbuffer_status rb =
     (if read_index rb = write_index rb
      then (if read_mirror rb = write_mirror rb then RT_RINGBUFFER_EMPTY else RT_RINGBUFFER_FULL)
      else RT_RINGBUFFER_HALFFULL)"

definition rt_ringbuffer_data_len :: "rt_ringbuffer \<Rightarrow> u16" where
  "rt_ringbuffer_data_len rb =
     (case rt_ringbuffer_status rb of
        RT_RINGBUFFER_EMPTY \<Rightarrow> 0
      | RT_RINGBUFFER_FULL \<Rightarrow> word_of_int (buffer_size rb)
      | RT_RINGBUFFER_HALFFULL \<Rightarrow>
          (if write_index rb > read_index rb
           then word_of_int (uint (write_index rb) - uint (read_index rb))
           else word_of_int (buffer_size rb - (uint (read_index rb) - uint (write_index rb)))))"

definition rt_ringbuffer_space_len :: "rt_ringbuffer \<Rightarrow> int" where
  "rt_ringbuffer_space_len rb = buffer_size rb - uint (rt_ringbuffer_data_len rb)"

definition rt_ringbuffer_init :: "u8 list \<Rightarrow> int \<Rightarrow> rt_ringbuffer option" where
  "rt_ringbuffer_init pool sz =
     do { rt_assert (sz > 0);
          Some \<lparr>buffer = pool, read_mirror = False, read_index = 0, write_mirror = False, write_index = 0,
                buffer_size = sz AND NOT 3\<rparr> }"

text \<open>\<^verbatim>\<open>memcpy\<close> of the first \<open>n\<close> bytes at \<open>src\<close> to the offset \<open>off\<close> of \<open>dst\<close>, and from an offset.\<close>

definition copy_to :: "int \<Rightarrow> u8 list \<Rightarrow> int \<Rightarrow> u8 list \<Rightarrow> u8 list option" where
  "copy_to off src n dst =
     do { valid_access (0 \<le> off \<and> 0 \<le> n \<and> nat n \<le> length src \<and> nat off + nat n \<le> length dst);
          Some (take (nat off) dst @ take (nat n) src @ drop (nat off + nat n) dst) }"

definition copy_from :: "int \<Rightarrow> int \<Rightarrow> u8 list \<Rightarrow> u8 list option" where
  "copy_from off n src =
     do { valid_access (0 \<le> off \<and> 0 \<le> n \<and> nat off + nat n \<le> length src);
          Some (take (nat n) (drop (nat off) src)) }"

text \<open>The copy of a block of \<open>length\<close> bytes to the write index in two pieces, crossing the mirror.\<close>

definition put_wrap :: "u8 list \<Rightarrow> u16 \<Rightarrow> rt_ringbuffer \<Rightarrow> rt_ringbuffer option" where
  "put_wrap ptr len rb =
     do { let first = buffer_size rb - uint (write_index rb);
          buf \<leftarrow> copy_to (uint (write_index rb)) ptr first (buffer rb);
          valid_access (0 \<le> first);
          buf \<leftarrow> copy_to 0 (drop (nat first) ptr) (uint len - first) buf;
          Some (rb\<lparr>buffer := buf, write_mirror := \<not> write_mirror rb, write_index := word_of_int (uint len - first)\<rparr>) }"

definition rt_ringbuffer_put :: "u8 list \<Rightarrow> u16 \<Rightarrow> rt_ringbuffer \<Rightarrow> (u16 \<times> rt_ringbuffer) option" where
  "rt_ringbuffer_put ptr len rb =
     (let sz = (word_of_int (rt_ringbuffer_space_len rb) :: u16) in
      if sz = 0 then Some (0, rb)
      else let len = (if sz < len then sz else len) in
        if buffer_size rb - uint (write_index rb) > uint len then
          do { buf \<leftarrow> copy_to (uint (write_index rb)) ptr (uint len) (buffer rb);
               Some (len, rb\<lparr>buffer := buf, write_index := write_index rb + ucast len\<rparr>) }
        else do { rb \<leftarrow> put_wrap ptr len rb; Some (len, rb) })"

definition rt_ringbuffer_put_force :: "u8 list \<Rightarrow> u16 \<Rightarrow> rt_ringbuffer \<Rightarrow> (u16 \<times> rt_ringbuffer) option" where
  "rt_ringbuffer_put_force ptr len rb =
     (let space_length = (word_of_int (rt_ringbuffer_space_len rb) :: u16);
          len = (if len > space_length then word_of_int (buffer_size rb) else len) in
      if buffer_size rb - uint (write_index rb) > uint len then
        do { buf \<leftarrow> copy_to (uint (write_index rb)) ptr (uint len) (buffer rb);
             let rb = rb\<lparr>buffer := buf, write_index := write_index rb + ucast len\<rparr>;
             Some (len, if len > space_length then rb\<lparr>read_index := write_index rb\<rparr> else rb) }
      else
        do { rb \<leftarrow> put_wrap ptr len rb;
             Some (len, if len > space_length
                        then rb\<lparr>read_mirror := \<not> read_mirror rb, read_index := write_index rb\<rparr> else rb) })"

text \<open>What \<^verbatim>\<open>rt_ringbuffer_get\<close> copies to \<^verbatim>\<open>ptr\<close> is part of the result.\<close>

definition rt_ringbuffer_get :: "u16 \<Rightarrow> rt_ringbuffer \<Rightarrow> (u8 list \<times> rt_ringbuffer) option" where
  "rt_ringbuffer_get len rb =
     (let sz = rt_ringbuffer_data_len rb in
      if sz = 0 then Some ([], rb)
      else let len = (if sz < len then sz else len) in
        if buffer_size rb - uint (read_index rb) > uint len then
          do { bs \<leftarrow> copy_from (uint (read_index rb)) (uint len) (buffer rb);
               Some (bs, rb\<lparr>read_index := read_index rb + ucast len\<rparr>) }
        else
          do { let first = buffer_size rb - uint (read_index rb);
               as \<leftarrow> copy_from (uint (read_index rb)) first (buffer rb);
               bs \<leftarrow> copy_from 0 (uint len - first) (buffer rb);
               Some (as @ bs, rb\<lparr>read_mirror := \<not> read_mirror rb, read_index := word_of_int (uint len - first)\<rparr>) })"

definition rt_ringbuffer_putchar :: "u8 \<Rightarrow> rt_ringbuffer \<Rightarrow> (u16 \<times> rt_ringbuffer) option" where
  "rt_ringbuffer_putchar ch rb =
     (if rt_ringbuffer_space_len rb = 0 then Some (0, rb)
      else do { valid_access (unat (write_index rb) < length (buffer rb));
                let rb = rb\<lparr>buffer := (buffer rb)[unat (write_index rb) := ch]\<rparr>;
                Some (1, if uint (write_index rb) = buffer_size rb - 1
                         then rb\<lparr>write_mirror := \<not> write_mirror rb, write_index := 0\<rparr>
                         else rb\<lparr>write_index := write_index rb + 1\<rparr>) })"

definition rt_ringbuffer_putchar_force :: "u8 \<Rightarrow> rt_ringbuffer \<Rightarrow> (u16 \<times> rt_ringbuffer) option" where
  "rt_ringbuffer_putchar_force ch rb =
     do { let old_state = rt_ringbuffer_status rb;
          valid_access (unat (write_index rb) < length (buffer rb));
          let rb = rb\<lparr>buffer := (buffer rb)[unat (write_index rb) := ch]\<rparr>;
          Some (1, if uint (write_index rb) = buffer_size rb - 1
                   then (let rb = rb\<lparr>write_mirror := \<not> write_mirror rb, write_index := 0\<rparr>
                         in if old_state = RT_RINGBUFFER_FULL
                            then rb\<lparr>read_mirror := \<not> read_mirror rb, read_index := write_index rb\<rparr> else rb)
                   else (let rb = rb\<lparr>write_index := write_index rb + 1\<rparr>
                         in if old_state = RT_RINGBUFFER_FULL then rb\<lparr>read_index := write_index rb\<rparr> else rb)) }"

definition rt_ringbuffer_getchar :: "rt_ringbuffer \<Rightarrow> (u8 option \<times> rt_ringbuffer) option" where
  "rt_ringbuffer_getchar rb =
     (if rt_ringbuffer_data_len rb = 0 then Some (None, rb)
      else do { valid_access (unat (read_index rb) < length (buffer rb));
                Some (Some (buffer rb ! unat (read_index rb)),
                      if uint (read_index rb) = buffer_size rb - 1
                      then rb\<lparr>read_mirror := \<not> read_mirror rb, read_index := 0\<rparr>
                      else rb\<lparr>read_index := read_index rb + 1\<rparr>) })"

section \<open>The bytes in the buffer\<close>

definition rb_N :: "rt_ringbuffer \<Rightarrow> nat" where
  "rb_N rb = nat (buffer_size rb)"

definition rb_n :: "rt_ringbuffer \<Rightarrow> nat" where
  "rb_n rb = (if read_mirror rb = write_mirror rb then unat (write_index rb) - unat (read_index rb)
              else rb_N rb + unat (write_index rb) - unat (read_index rb))"

definition rb_inv :: "rt_ringbuffer \<Rightarrow> bool" where
  "rb_inv rb \<longleftrightarrow> 0 < buffer_size rb \<and> buffer_size rb < 2 ^ 15 \<and> rb_N rb \<le> length (buffer rb) \<and>
     unat (read_index rb) < rb_N rb \<and> unat (write_index rb) < rb_N rb \<and>
     (if read_mirror rb = write_mirror rb then unat (read_index rb) \<le> unat (write_index rb)
      else unat (write_index rb) \<le> unat (read_index rb))"

definition rb_bytes :: "rt_ringbuffer \<Rightarrow> u8 list" where
  "rb_bytes rb = window (rb_N rb) (buffer rb) (unat (read_index rb)) (rb_n rb)"

lemma rb_size: "rb_inv rb \<Longrightarrow> buffer_size rb = int (rb_N rb)"
  by (simp add: rb_inv_def rb_N_def)

lemma rb_N_bound: "rb_inv rb \<Longrightarrow> rb_N rb < 32768"
  by (simp add: rb_inv_def rb_N_def nat_less_iff)

lemma rb_n_bound: "rb_inv rb \<Longrightarrow> rb_n rb \<le> rb_N rb"
  by (auto simp: rb_inv_def rb_n_def split: if_splits)

lemma uint_small16: "n < 65536 \<Longrightarrow> uint (word_of_int (int n) :: u16) = int n"
  by (simp add: unsigned_of_nat take_bit_nat_eq_self)

lemma rb_data_len:
  assumes inv: "rb_inv rb"
  shows "uint (rt_ringbuffer_data_len rb) = int (rb_n rb)"
proof -
  have eq: "read_index rb = write_index rb \<longleftrightarrow> unat (read_index rb) = unat (write_index rb)" by (simp add: word_unat_eq_iff)
  have lt: "read_index rb < write_index rb \<longleftrightarrow> unat (read_index rb) < unat (write_index rb)" by (simp add: word_less_nat_alt)
  have "rt_ringbuffer_data_len rb = word_of_int (int (rb_n rb))"
    using inv rb_size [OF inv]
    by (auto simp: rt_ringbuffer_data_len_def rt_ringbuffer_status_def rb_n_def rb_inv_def eq lt uint_nat of_nat_diff
        simp del: of_nat_unat split: if_splits intro!: arg_cong [of _ _ word_of_int])
  then show ?thesis using rb_n_bound [OF inv] rb_N_bound [OF inv] uint_small16 [of "rb_n rb"] by simp
qed


text \<open>Writing a block into the ring byte by byte, and in the pieces the code copies.\<close>

fun ring_write :: "nat \<Rightarrow> nat \<Rightarrow> 'a list \<Rightarrow> 'a list \<Rightarrow> 'a list" where
  "ring_write N i [] xs = xs"
| "ring_write N i (b # bs) xs = ring_write N (Suc i mod N) bs (xs[i := b])"

lemma length_ring_write [simp]: "length (ring_write N i bs xs) = length xs"
  by (induction N i bs xs rule: ring_write.induct) auto

lemma window_ring_write:
  "n + length bs \<le> N \<Longrightarrow> N \<le> length xs \<Longrightarrow> i = (s + n) mod N \<Longrightarrow>
     window N (ring_write N i bs xs) s (n + length bs) = window N xs s n @ bs"
proof (induction bs arbitrary: i n xs)
  case (Cons b bs)
  have "Suc i mod N = (s + Suc n) mod N" using Cons.prems(3) by (simp add: mod_Suc_eq)
  with Cons.IH [of "Suc n" "xs[i := b]" "Suc i mod N"] Cons.prems window_put [of n N xs i s b] show ?case by simp
qed simp

lemma ring_write_flat:
  "off + length bs \<le> N \<Longrightarrow> N \<le> length xs \<Longrightarrow> ring_write N off bs xs = take off xs @ bs @ drop (off + length bs) xs"
proof (induction bs arbitrary: off xs)
  case (Cons b bs)
  show ?case
  proof (cases bs)
    case Nil
    with Cons.prems show ?thesis by (simp add: upd_conv_take_nth_drop)
  next
    case c: (Cons b' bs')
    then have "Suc off mod N = Suc off" using Cons.prems by simp
    with Cons.IH [of "Suc off" "xs[off := b]"] Cons.prems show ?thesis by (simp add: take_Suc_conv_app_nth take_update_swap list_update_append)
  qed
qed simp

lemma ring_write_append:
  "i < N \<Longrightarrow> ring_write N i (as @ bs) xs = ring_write N ((i + length as) mod N) bs (ring_write N i as xs)"
proof (induction as arbitrary: i xs)
  case (Cons a as)
  have "Suc i mod N < N" using Cons.prems by simp
  from Cons.IH [OF this, of "xs[i := a]"] show ?case by (simp add: mod_add_left_eq)
qed simp

lemma window_append: "window N xs s (a + b) = window N xs s a @ window N xs (s + a) b"
  by (rule nth_equalityI) (auto simp: window_def nth_append)

lemma window_flat: "s + n \<le> N \<Longrightarrow> N \<le> length xs \<Longrightarrow> window N xs s n = take n (drop s xs)"
  by (rule nth_equalityI) (auto simp: window_def)

lemma window_mod: "window N xs (s mod N) n = window N xs s n"
  by (simp add: window_def mod_add_left_eq)


section \<open>Putting and getting blocks\<close>

lemma rb_spaces:
  assumes inv: "rb_inv rb"
  shows "rt_ringbuffer_space_len rb = int (rb_N rb - rb_n rb)"
    and "unat (word_of_int (rt_ringbuffer_space_len rb) :: u16) = rb_N rb - rb_n rb"
proof -
  show s: "rt_ringbuffer_space_len rb = int (rb_N rb - rb_n rb)"
    using rb_data_len [OF inv] rb_size [OF inv] rb_n_bound [OF inv] by (simp add: rt_ringbuffer_space_len_def of_nat_diff)
  have "rb_N rb - rb_n rb < 65536" using rb_N_bound [OF inv] by simp
  then show "unat (word_of_int (rt_ringbuffer_space_len rb) :: u16) = rb_N rb - rb_n rb"
    unfolding s by (simp add: unsigned_of_nat take_bit_nat_eq_self)
qed

lemma rb_write_pos: "rb_inv rb \<Longrightarrow> unat (write_index rb) = (unat (read_index rb) + rb_n rb) mod rb_N rb"
  by (auto simp: rb_inv_def rb_n_def split: if_splits)

text \<open>The new indices after \<open>m\<close> more bytes have been written or read.\<close>

lemma index_add:
  assumes "unat (w :: 15 word) + unat (len :: u16) < 32768"
  shows "unat (w + ucast len) = unat w + unat len"
proof -
  have "unat (ucast len :: 15 word) = unat len" using assms by (simp add: unsigned_ucast_eq take_bit_nat_eq_self)
  then show ?thesis using assms by (simp add: unat_word_ariths)
qed

lemma index_of_int: "n < 32768 \<Longrightarrow> unat (word_of_int (int n) :: 15 word) = n"
  by (simp add: unsigned_of_nat take_bit_nat_eq_self)

text \<open>The state after the bytes \<open>bs\<close> have been written.\<close>

definition rb_adv :: "u8 list \<Rightarrow> rt_ringbuffer \<Rightarrow> rt_ringbuffer" where
  "rb_adv bs rb = (let w = unat (write_index rb) + length bs in
     rb\<lparr>buffer := ring_write (rb_N rb) (unat (write_index rb)) bs (buffer rb),
        write_index := of_nat (if w < rb_N rb then w else w - rb_N rb),
        write_mirror := (if w < rb_N rb then write_mirror rb else \<not> write_mirror rb)\<rparr>)"

lemma rb_adv_sel [simp]:
  "read_index (rb_adv bs rb) = read_index rb" "read_mirror (rb_adv bs rb) = read_mirror rb"
  "buffer_size (rb_adv bs rb) = buffer_size rb" "rb_N (rb_adv bs rb) = rb_N rb"
  "buffer (rb_adv bs rb) = ring_write (rb_N rb) (unat (write_index rb)) bs (buffer rb)"
  "write_mirror (rb_adv bs rb) = (if unat (write_index rb) + length bs < rb_N rb then write_mirror rb else \<not> write_mirror rb)"
  by (simp_all add: rb_adv_def Let_def rb_N_def)

lemma rb_adv_index:
  assumes "rb_inv rb" and "length bs \<le> rb_N rb"
  shows "unat (write_index (rb_adv bs rb)) =
    (if unat (write_index rb) + length bs < rb_N rb then unat (write_index rb) + length bs else unat (write_index rb) + length bs - rb_N rb)"
proof -
  let ?w = "unat (write_index rb) + length bs"
  have "(if ?w < rb_N rb then ?w else ?w - rb_N rb) < 32768"
    using assms rb_N_bound [OF assms(1)] by (auto simp: rb_inv_def)
  then show ?thesis unfolding rb_adv_def Let_def by (simp add: unsigned_of_nat take_bit_nat_eq_self split: if_splits)
qed

lemma rb_adv_spec:
  assumes inv: "rb_inv rb" and m: "rb_n rb + length bs \<le> rb_N rb"
  shows "rb_inv (rb_adv bs rb)" and "rb_n (rb_adv bs rb) = rb_n rb + length bs" and "rb_bytes (rb_adv bs rb) = rb_bytes rb @ bs"
proof -
  have l: "length bs \<le> rb_N rb" using m by simp
  note ix = rb_adv_index [OF inv l]
  show i: "rb_inv (rb_adv bs rb)" and n: "rb_n (rb_adv bs rb) = rb_n rb + length bs"
    using inv m ix by (auto simp: rb_inv_def rb_n_def split: if_splits)
  show "rb_bytes (rb_adv bs rb) = rb_bytes rb @ bs"
    unfolding rb_bytes_def using n window_ring_write [OF m _ rb_write_pos [OF inv], of "buffer rb"] inv by (simp add: rb_inv_def)
qed

lemma rb_adv_Nil: "rb_inv rb \<Longrightarrow> rb_adv [] rb = rb"
  by (cases rb) (simp add: rb_adv_def Let_def rb_inv_def rb_N_def)

lemma rb_adv_Cons:
  assumes inv: "rb_inv rb" and m: "rb_n rb + length (b # bs) \<le> rb_N rb"
  shows "rb_adv bs (rb_adv [b] rb) = rb_adv (b # bs) rb"
proof -
  have "length [b] \<le> rb_N rb" using m by simp
  note ix = rb_adv_index [OF inv this]
  have w: "unat (write_index rb) < rb_N rb" "Suc (length bs) \<le> rb_N rb" using inv m by (simp_all add: rb_inv_def)
  have e: "unat (write_index (rb_adv [b] rb)) = Suc (unat (write_index rb)) mod rb_N rb" using ix w by (auto simp: mod_Suc)
  show ?thesis
  proof (cases "Suc (unat (write_index rb)) < rb_N rb")
    case True
    then have "unat (write_index (rb_adv [b] rb)) = Suc (unat (write_index rb))" using ix by simp
    with True show ?thesis by (simp add: rb_adv_def [of bs] rb_adv_def [of "b # bs"] Let_def)
  next
    case False
    then have z: "unat (write_index (rb_adv [b] rb)) = 0" "Suc (unat (write_index rb)) = rb_N rb" using ix w by simp_all
    then have e: "unat (write_index rb) + length (b # bs) - rb_N rb = length bs" "\<not> unat (write_index rb) + length (b # bs) < rb_N rb" by simp_all
    have "rb_adv (b # bs) rb = rb\<lparr>buffer := ring_write (rb_N rb) 0 bs ((buffer rb)[unat (write_index rb) := b]),
        write_index := of_nat (length bs), write_mirror := \<not> write_mirror rb\<rparr>"
      unfolding rb_adv_def Let_def e(1) using e(2) z(2) by simp
    moreover have "rb_adv bs (rb_adv [b] rb) = (rb_adv [b] rb)\<lparr>buffer := ring_write (rb_N rb) 0 bs (buffer (rb_adv [b] rb)),
        write_index := of_nat (length bs), write_mirror := write_mirror (rb_adv [b] rb)\<rparr>"
      using z w by (simp add: rb_adv_def [of bs] Let_def)
    moreover have "rb_adv [b] rb = rb\<lparr>buffer := (buffer rb)[unat (write_index rb) := b], write_index := 0, write_mirror := \<not> write_mirror rb\<rparr>"
      using z(2) by (simp add: rb_adv_def Let_def)
    ultimately show ?thesis by simp
  qed
qed

lemma put_wrap_adv:
  assumes inv: "rb_inv rb" and m: "unat len \<le> rb_N rb" and p: "unat len \<le> length ptr" and w: "rb_N rb \<le> unat (write_index rb) + unat len"
  shows "put_wrap ptr len rb = Some (rb_adv (take (unat len) ptr) rb)"
proof -
  let ?N = "rb_N rb" and ?w = "unat (write_index rb)" and ?l = "unat len" and ?bs = "take (unat len) ptr"
  have b: "?w < ?N" "?N \<le> length (buffer rb)" using inv by (simp_all add: rb_inv_def)
  define f where "f = ?N - ?w"
  define r where "r = ?l - f"
  have fw: "?w + f = ?N" "f \<le> ?l" "f + r = ?l" "f \<le> length ptr" using b w p by (simp_all add: f_def r_def)
  have f: "buffer_size rb - uint (write_index rb) = int f" using rb_size [OF inv] fw(1) by (simp add: uint_nat del: of_nat_unat)
  have l: "uint len - int f = int r" using fw(3) by (simp add: uint_nat flip: fw(3) del: of_nat_unat)
  let ?buf1 = "ring_write ?N ?w (take f ptr) (buffer rb)" and ?bs2 = "take r (drop f ptr)"
  have lf: "length (take f ptr) = f" "length ?bs2 = r" using fw p by simp_all
  have c1: "copy_to (uint (write_index rb)) ptr (int f) (buffer rb) = Some ?buf1"
    using ring_write_flat [of ?w "take f ptr" ?N "buffer rb"] b lf fw by (simp add: copy_to_def nat_uint_eq)
  have c2: "copy_to 0 (drop f ptr) (int r) ?buf1 = Some (ring_write ?N 0 ?bs2 ?buf1)"
    using ring_write_flat [of 0 ?bs2 ?N ?buf1] b lf p fw m by (simp add: copy_to_def)
  have sp: "?bs = take f ptr @ ?bs2" using fw(3) by (simp add: take_add [symmetric])
  have "(?w + length (take f ptr)) mod ?N = 0" using fw(1) lf by simp
  then have buf: "ring_write ?N 0 ?bs2 ?buf1 = ring_write ?N ?w ?bs (buffer rb)"
    unfolding sp using ring_write_append [OF b(1), of "take f ptr" ?bs2 "buffer rb"] by simp
  have "put_wrap ptr len rb = Some (rb\<lparr>buffer := ring_write ?N ?w ?bs (buffer rb), write_mirror := \<not> write_mirror rb, write_index := word_of_int (int r)\<rparr>)"
    unfolding put_wrap_def Let_def f l using c1 c2 buf by simp
  moreover have "?w + length ?bs - ?N = r" "\<not> ?w + length ?bs < ?N" using fw p by simp_all
  ultimately show ?thesis by (simp add: rb_adv_def Let_def)
qed

lemma rt_ringbuffer_put_adv:
  assumes inv: "rb_inv rb" and p: "unat len \<le> length ptr"
  shows "\<exists>n. rt_ringbuffer_put ptr len rb = Some (n, rb_adv (take (unat n) ptr) rb) \<and> unat n = min (unat len) (rb_N rb - rb_n rb)"
proof -
  let ?sz = "word_of_int (rt_ringbuffer_space_len rb) :: u16" and ?w = "unat (write_index rb)"
  note sz = rb_spaces(2) [OF inv]
  define n where "n = (if ?sz < len then ?sz else len)"
  have n: "unat n = min (unat len) (rb_N rb - rb_n rb)" unfolding n_def using sz by (auto simp: word_less_nat_alt)
  have m: "unat n \<le> rb_N rb" "unat n \<le> length ptr" using n p by auto
  have c: "buffer_size rb - uint (write_index rb) > uint n \<longleftrightarrow> ?w + unat n < rb_N rb"
    using rb_size [OF inv] by (auto simp: uint_nat simp del: of_nat_unat)
  consider (full) "?sz = 0" | (flat) "?sz \<noteq> 0" "?w + unat n < rb_N rb" | (wrap) "?sz \<noteq> 0" "\<not> ?w + unat n < rb_N rb" by blast
  then show ?thesis
  proof cases
    case full
    then have "rb_N rb - rb_n rb = 0" using sz by simp
    with full rb_adv_Nil [OF inv] show ?thesis by (intro exI [of _ 0]) (simp add: rt_ringbuffer_put_def Let_def)
  next
    case flat
    let ?bs = "take (unat n) ptr"
    have b: "rb_N rb \<le> length (buffer rb)" using inv by (simp add: rb_inv_def)
    have "copy_to (uint (write_index rb)) ptr (uint n) (buffer rb) = Some (ring_write (rb_N rb) ?w ?bs (buffer rb))"
      using ring_write_flat [of ?w ?bs "rb_N rb" "buffer rb"] flat b m by (simp add: copy_to_def nat_uint_eq)
    then have "rt_ringbuffer_put ptr len rb = Some (n, rb\<lparr>buffer := ring_write (rb_N rb) ?w ?bs (buffer rb), write_index := write_index rb + ucast n\<rparr>)"
      using flat c unfolding rt_ringbuffer_put_def n_def by (simp add: Let_def split del: if_split)
    moreover have "unat (write_index rb + ucast n) = ?w + unat n" using flat rb_N_bound [OF inv] by (intro index_add) simp
    then have "write_index rb + ucast n = of_nat (?w + unat n)" by (metis ucast_id of_nat_unat unsigned_of_nat)
    ultimately show ?thesis using n flat m by (auto simp: rb_adv_def Let_def)
  next
    case wrap
    then have "put_wrap ptr n rb = Some (rb_adv (take (unat n) ptr) rb)" by (intro put_wrap_adv [OF inv m]) simp
    then have "rt_ringbuffer_put ptr len rb = Some (n, rb_adv (take (unat n) ptr) rb)"
      using wrap c unfolding rt_ringbuffer_put_def n_def by (simp add: Let_def split del: if_split)
    with n show ?thesis by blast
  qed
qed

lemma rt_ringbuffer_putchar_adv:
  assumes inv: "rb_inv rb"
  shows "rt_ringbuffer_putchar ch rb = Some (if rb_n rb = rb_N rb then (0, rb) else (1, rb_adv [ch] rb))"
proof -
  have w: "unat (write_index rb) < rb_N rb" "unat (write_index rb) < length (buffer rb)" "rb_n rb \<le> rb_N rb"
    using inv rb_n_bound [OF inv] by (auto simp: rb_inv_def)
  have s: "rt_ringbuffer_space_len rb = 0 \<longleftrightarrow> rb_n rb = rb_N rb" using rb_spaces(1) [OF inv] w(3) by auto
  have e: "uint (write_index rb) = buffer_size rb - 1 \<longleftrightarrow> \<not> unat (write_index rb) + 1 < rb_N rb"
    using rb_size [OF inv] w(1) by (auto simp: uint_nat simp del: of_nat_unat)
  show ?thesis
  proof (cases "unat (write_index rb) + 1 < rb_N rb")
    case True
    then show ?thesis using s e w by (simp add: rt_ringbuffer_putchar_def rb_adv_def Let_def add.commute)
  next
    case False
    then have "Suc (unat (write_index rb)) - rb_N rb = 0" using w by simp
    then show ?thesis using False s e w by (simp add: rt_ringbuffer_putchar_def rb_adv_def Let_def)
  qed
qed


text \<open>The state after \<open>m\<close> bytes have been read.\<close>

lemma rb_read:
  assumes inv: "rb_inv rb" and m: "m \<le> rb_n rb"
    and rd: "buffer rb' = buffer rb" "write_index rb' = write_index rb" "write_mirror rb' = write_mirror rb" "buffer_size rb' = buffer_size rb"
    and ix: "if unat (read_index rb) + m < rb_N rb
       then unat (read_index rb') = unat (read_index rb) + m \<and> read_mirror rb' = read_mirror rb
       else unat (read_index rb') = unat (read_index rb) + m - rb_N rb \<and> read_mirror rb' = (\<not> read_mirror rb)"
  shows "rb_inv rb' \<and> rb_bytes rb' = drop m (rb_bytes rb) \<and> rb_N rb' = rb_N rb"
proof -
  have N: "rb_N rb' = rb_N rb" using rd by (simp add: rb_N_def)
  have n: "rb_inv rb' \<and> rb_n rb' = rb_n rb - m" using inv m rd ix N by (auto simp: rb_inv_def rb_n_def split: if_splits)
  have le: "unat (read_index rb) < rb_N rb" "m \<le> rb_N rb" using inv m rb_n_bound [OF inv] by (auto simp: rb_inv_def)
  have r: "unat (read_index rb') = (unat (read_index rb) + m) mod rb_N rb"
    using ix le by (auto simp: le_mod_geq split: if_splits)
  have "rb_bytes rb = window (rb_N rb) (buffer rb) (unat (read_index rb)) (m + (rb_n rb - m))" using m by (simp add: rb_bytes_def)
  then have "drop m (rb_bytes rb) = window (rb_N rb) (buffer rb) (unat (read_index rb) + m) (rb_n rb - m)" by (simp add: window_append)
  also have "\<dots> = rb_bytes rb'" unfolding rb_bytes_def using n N rd r by (simp add: window_mod)
  finally show ?thesis using n N by simp
qed

lemma rb_taken:
  assumes inv: "rb_inv rb" and m: "m \<le> rb_n rb"
  shows "take m (rb_bytes rb) = window (rb_N rb) (buffer rb) (unat (read_index rb)) m"
proof -
  have "rb_bytes rb = window (rb_N rb) (buffer rb) (unat (read_index rb)) (m + (rb_n rb - m))" using m by (simp add: rb_bytes_def)
  then show ?thesis by (simp add: window_append)
qed

lemma rt_ringbuffer_get_spec:
  assumes inv: "rb_inv rb"
  shows "\<exists>rb'. rt_ringbuffer_get len rb = Some (take (unat len) (rb_bytes rb), rb') \<and> rb_inv rb' \<and>
     rb_bytes rb' = drop (unat len) (rb_bytes rb) \<and> rb_N rb' = rb_N rb"
proof -
  let ?sz = "rt_ringbuffer_data_len rb" and ?r = "unat (read_index rb)" and ?N = "rb_N rb"
  have sz: "unat ?sz = rb_n rb" using rb_data_len [OF inv] by (simp add: uint_nat del: of_nat_unat)
  define n where "n = (if ?sz < len then ?sz else len)"
  have n: "unat n = min (unat len) (rb_n rb)" unfolding n_def using sz by (auto simp: word_less_nat_alt)
  have lb: "length (rb_bytes rb) = rb_n rb" by (simp add: rb_bytes_def)
  have tk: "take (unat len) (rb_bytes rb) = take (unat n) (rb_bytes rb)" "drop (unat len) (rb_bytes rb) = drop (unat n) (rb_bytes rb)"
    using n lb by (auto simp: min_def)
  have b: "?N \<le> length (buffer rb)" "?r < ?N" "unat n \<le> rb_n rb" using inv n by (simp_all add: rb_inv_def)
  have c: "buffer_size rb - uint (read_index rb) > uint n \<longleftrightarrow> ?r + unat n < ?N"
    using rb_size [OF inv] by (auto simp: uint_nat simp del: of_nat_unat)
  consider (empty) "?sz = 0" | (flat) "?sz \<noteq> 0" "?r + unat n < ?N" | (wrap) "?sz \<noteq> 0" "\<not> ?r + unat n < ?N" by blast
  then show ?thesis
  proof cases
    case empty
    then have "rb_bytes rb = []" using sz lb by simp
    with empty inv show ?thesis by (simp add: rt_ringbuffer_get_def)
  next
    case flat
    have "copy_from (uint (read_index rb)) (uint n) (buffer rb) = Some (take (unat n) (rb_bytes rb))"
      using flat b by (simp add: copy_from_def nat_uint_eq rb_taken [OF inv] window_flat)
    then have "rt_ringbuffer_get len rb = Some (take (unat n) (rb_bytes rb), rb\<lparr>read_index := read_index rb + ucast n\<rparr>)"
      using flat c unfolding rt_ringbuffer_get_def n_def by (simp add: Let_def split del: if_split)
    moreover have "unat (read_index rb + ucast n) = ?r + unat n" using flat rb_N_bound [OF inv] by (intro index_add) simp
    then have "rb_inv (rb\<lparr>read_index := read_index rb + ucast n\<rparr>) \<and> rb_bytes (rb\<lparr>read_index := read_index rb + ucast n\<rparr>) = drop (unat n) (rb_bytes rb)
      \<and> rb_N (rb\<lparr>read_index := read_index rb + ucast n\<rparr>) = ?N" using flat by (intro rb_read [OF inv b(3)]) simp_all
    ultimately show ?thesis unfolding tk by blast
  next
    case wrap
    define f where "f = ?N - ?r"
    define r where "r = unat n - f"
    have fw: "?r + f = ?N" "f \<le> unat n" "f + r = unat n" "r \<le> ?N" using b wrap rb_n_bound [OF inv] by (simp_all add: f_def r_def)
    have f: "buffer_size rb - uint (read_index rb) = int f" using rb_size [OF inv] fw(1) by (simp add: uint_nat del: of_nat_unat)
    have l: "uint n - int f = int r" using fw(3) by (simp add: uint_nat flip: fw(3) del: of_nat_unat)
    let ?rb = "rb\<lparr>read_mirror := \<not> read_mirror rb, read_index := word_of_int (int r)\<rparr>"
    have "window ?N (buffer rb) ?r (f + r) = take f (drop ?r (buffer rb)) @ take r (buffer rb)"
      unfolding window_append fw(1) using window_mod [of ?N "buffer rb" ?N r] fw b by (simp add: window_flat)
    then have "take (unat n) (rb_bytes rb) = take f (drop ?r (buffer rb)) @ take r (buffer rb)" using rb_taken [OF inv b(3)] fw(3) by simp
    moreover have "copy_from (uint (read_index rb)) (int f) (buffer rb) = Some (take f (drop ?r (buffer rb)))"
      "copy_from 0 (int r) (buffer rb) = Some (take r (buffer rb))" using fw b by (simp_all add: copy_from_def nat_uint_eq)
    ultimately have g: "rt_ringbuffer_get len rb = Some (take (unat n) (rb_bytes rb), ?rb)"
      using wrap c unfolding rt_ringbuffer_get_def n_def [symmetric] Let_def f l by (simp split del: if_split)
    have "unat (word_of_int (int r) :: 15 word) = r" using rb_N_bound [OF inv] b fw wrap rb_n_bound [OF inv] by (intro index_of_int) simp
    then have "rb_inv ?rb \<and> rb_bytes ?rb = drop (unat n) (rb_bytes rb) \<and> rb_N ?rb = ?N" using wrap fw by (intro rb_read [OF inv b(3)]) auto
    with g show ?thesis unfolding tk by blast
  qed
qed

lemma rt_ringbuffer_getchar_spec:
  assumes inv: "rb_inv rb"
  shows "\<exists>rb'. rt_ringbuffer_getchar rb = Some (if rb_bytes rb = [] then None else Some (hd (rb_bytes rb)), rb') \<and> rb_inv rb' \<and>
     rb_bytes rb' = tl (rb_bytes rb) \<and> rb_N rb' = rb_N rb"
proof (cases "rb_n rb = 0")
  case True
  then have "rb_bytes rb = []" "rt_ringbuffer_data_len rb = 0" using rb_data_len [OF inv] by (simp_all add: rb_bytes_def unsigned_eq_0_iff)
  with inv show ?thesis by (simp add: rt_ringbuffer_getchar_def)
next
  case False
  have d: "rt_ringbuffer_data_len rb \<noteq> 0" using False rb_data_len [OF inv] by auto
  have b: "unat (read_index rb) < rb_N rb" "unat (read_index rb) < length (buffer rb)" "1 \<le> rb_n rb" using inv False by (auto simp: rb_inv_def)
  define rb' where "rb' = (if uint (read_index rb) = buffer_size rb - 1
      then rb\<lparr>read_mirror := \<not> read_mirror rb, read_index := 0\<rparr> else rb\<lparr>read_index := read_index rb + 1\<rparr>)"
  have e: "uint (read_index rb) = buffer_size rb - 1 \<longleftrightarrow> \<not> unat (read_index rb) + 1 < rb_N rb"
    using rb_size [OF inv] b(1) by (auto simp: uint_nat simp del: of_nat_unat)
  have i: "unat (read_index rb) + 1 < rb_N rb \<Longrightarrow> unat (read_index rb + 1) = unat (read_index rb) + 1"
    using rb_N_bound [OF inv] by (simp add: unat_word_ariths)
  have "rb_inv rb' \<and> rb_bytes rb' = drop 1 (rb_bytes rb) \<and> rb_N rb' = rb_N rb"
    using b(1) i by (intro rb_read [OF inv b(3)]) (auto simp: rb'_def e)
  moreover have "hd (rb_bytes rb) = buffer rb ! unat (read_index rb)" "rb_bytes rb \<noteq> []"
    using b by (auto simp: rb_bytes_def window_def hd_map)
  moreover have "rt_ringbuffer_getchar rb = Some (Some (buffer rb ! unat (read_index rb)), rb')"
    using d b(2) by (simp add: rt_ringbuffer_getchar_def rb'_def)
  ultimately show ?thesis by (simp add: drop_Suc)
qed


section \<open>What a ring buffer guarantees\<close>

text \<open>Putting the bytes of a block one by one, until the buffer is full.\<close>

fun putchars :: "u8 list \<Rightarrow> rt_ringbuffer \<Rightarrow> (nat \<times> rt_ringbuffer) option" where
  "putchars [] rb = Some (0, rb)"
| "putchars (b # bs) rb =
     do { (n, rb) \<leftarrow> rt_ringbuffer_putchar b rb;
          if n = 0 then Some (0, rb) else do { (m, rb) \<leftarrow> putchars bs rb; Some (Suc m, rb) } }"

lemma putchars_adv:
  "rb_inv rb \<Longrightarrow> putchars bs rb = Some (min (length bs) (rb_N rb - rb_n rb), rb_adv (take (rb_N rb - rb_n rb) bs) rb)"
proof (induction bs arbitrary: rb)
  case Nil
  then show ?case by (simp add: rb_adv_Nil)
next
  case (Cons b bs)
  show ?case
  proof (cases "rb_n rb = rb_N rb")
    case True
    with Cons.prems show ?thesis by (simp add: rt_ringbuffer_putchar_adv rb_adv_Nil)
  next
    case False
    then have m: "rb_n rb + length [b] \<le> rb_N rb" using rb_n_bound [OF Cons.prems] by simp
    note adv = rb_adv_spec [OF Cons.prems m]
    obtain r where r: "rb_N rb - rb_n rb = Suc r" "rb_N rb - Suc (rb_n rb) = r" using m by (cases "rb_N rb - rb_n rb") auto
    have "rb_adv (take r bs) (rb_adv [b] rb) = rb_adv (b # take r bs) rb"
      using r rb_n_bound [OF Cons.prems] by (intro rb_adv_Cons [OF Cons.prems]) simp
    with Cons.IH [OF adv(1)] adv(2) r False Cons.prems show ?thesis by (simp add: rt_ringbuffer_putchar_adv)
  qed
qed

text \<open>
  C20: The block copies in two pieces do what the byte operations would do: \<^verbatim>\<open>rt_ringbuffer_put\<close> leaves
  exactly the state that putting the bytes one by one until the buffer is full leaves, and
  returns their number; \<^verbatim>\<open>rt_ringbuffer_get\<close> returns the oldest bytes, as many as are asked for and
  there, and takes them out.
\<close>

theorem rt_ringbuffer_put_bytewise:
  assumes inv: "rb_inv rb" and p: "unat len \<le> length ptr"
  shows "map_option (\<lambda>(n, rb'). (unat n, rb')) (rt_ringbuffer_put ptr len rb) = putchars (take (unat len) ptr) rb \<and>
     (\<exists>rb'. rt_ringbuffer_get len rb = Some (take (unat len) (rb_bytes rb), rb') \<and> rb_inv rb' \<and> rb_bytes rb' = drop (unat len) (rb_bytes rb))"
proof -
  from rt_ringbuffer_put_adv [OF assms] obtain n where
    "rt_ringbuffer_put ptr len rb = Some (n, rb_adv (take (unat n) ptr) rb)" "unat n = min (unat len) (rb_N rb - rb_n rb)" by blast
  moreover have "putchars (take (unat len) ptr) rb =
      Some (min (unat len) (rb_N rb - rb_n rb), rb_adv (take (min (unat len) (rb_N rb - rb_n rb)) ptr) rb)"
    using putchars_adv [OF inv, of "take (unat len) ptr"] p by (simp add: min.commute)
  ultimately show ?thesis using rt_ringbuffer_get_spec [OF inv, of len] by auto
qed

definition small_rb :: rt_ringbuffer where
  "small_rb = \<lparr>buffer = [1, 2, 3, 4], read_mirror = False, read_index = 2, write_mirror = False, write_index = 3, buffer_size = 4\<rparr>"

lemma small_rb_inv: "rb_inv small_rb"
  by (simp add: rb_inv_def rb_N_def small_rb_def)

theorem rt_ringbuffer_put_bytewise_witness:
  "map_option (\<lambda>(n, rb'). (unat n, rb')) (rt_ringbuffer_put [7, 8, 9, 10, 11] 5 small_rb) = putchars [7, 8, 9, 10, 11] small_rb"
  using rt_ringbuffer_put_bytewise [OF small_rb_inv, of 5 "[7, 8, 9, 10, 11]"] by simp

text \<open>The byte operations as a store.\<close>

definition rb_put :: "u8 \<Rightarrow> rt_ringbuffer \<Rightarrow> rt_ringbuffer option" where
  "rb_put ch rb = (case rt_ringbuffer_putchar ch rb of Some (n, rb') \<Rightarrow> if n = 1 then Some rb' else None | None \<Rightarrow> None)"

definition rb_get :: "rt_ringbuffer \<Rightarrow> (u8 \<times> rt_ringbuffer) option" where
  "rb_get rb = (case rt_ringbuffer_getchar rb of Some (Some ch, rb') \<Rightarrow> Some (ch, rb') | _ \<Rightarrow> None)"

interpretation ringbuffer: bounded_fifo rb_inv rb_bytes rb_N rb_put rb_get
proof unfold_locales
  fix rb :: rt_ringbuffer and v vs
  assume inv: "rb_inv rb"
  have l: "length (rb_bytes rb) = rb_n rb" by (simp add: rb_bytes_def)
  show "length (rb_bytes rb) \<le> rb_N rb" using rb_n_bound [OF inv] l by simp
  show "length (rb_bytes rb) < rb_N rb \<Longrightarrow> \<exists>s'. rb_put v rb = Some s' \<and> rb_inv s' \<and> rb_bytes s' = rb_bytes rb @ [v] \<and> rb_N s' = rb_N rb"
    using rt_ringbuffer_putchar_adv [OF inv, of v] rb_adv_spec [OF inv, of "[v]"] l by (auto simp: rb_put_def)
  show "length (rb_bytes rb) = rb_N rb \<Longrightarrow> rb_put v rb = None"
    using rt_ringbuffer_putchar_adv [OF inv, of v] l by (simp add: rb_put_def)
  show "rb_bytes rb = v # vs \<Longrightarrow> \<exists>s'. rb_get rb = Some (v, s') \<and> rb_inv s' \<and> rb_bytes s' = vs \<and> rb_N s' = rb_N rb"
    using rt_ringbuffer_getchar_spec [OF inv] by (auto simp: rb_get_def)
  show "rb_bytes rb = [] \<Longrightarrow> rb_get rb = None"
    using rt_ringbuffer_getchar_spec [OF inv] by (auto simp: rb_get_def)
qed

text \<open>
  C21: A ring buffer is a first-in first-out store of bytes: whatever the order of
  \<^verbatim>\<open>rt_ringbuffer_putchar\<close> and \<^verbatim>\<open>rt_ringbuffer_getchar\<close> calls, the bytes that were there followed by those put in
  are those got out followed by those still there.
\<close>

theorem rt_ringbuffer_fifo:
  assumes "rb_inv rb" and "fifo_run rb_put rb_get ops rb = (sent, got, rb')"
  shows "rb_bytes rb @ sent = got @ rb_bytes rb' \<and> length (rb_bytes rb') \<le> rb_N rb \<and> rb_inv rb'"
  using ringbuffer.run_fifo [OF assms] ringbuffer.bounded [of rb'] by auto

theorem rt_ringbuffer_fifo_witness:
  "\<exists>sent got rb'. fifo_run rb_put rb_get [Put 9, Get, Put 10, Get, Get, Get] small_rb = (sent, got, rb') \<and> 3 # sent = got @ rb_bytes rb'"
proof -
  obtain sent got rb' where r: "fifo_run rb_put rb_get [Put 9, Get, Put 10, Get, Get, Get] small_rb = (sent, got, rb')" by (metis prod_cases3)
  have "rb_bytes small_rb = [3]" by (simp add: rb_bytes_def rb_n_def rb_N_def small_rb_def window_def)
  with rt_ringbuffer_fifo [OF small_rb_inv r] r show ?thesis by auto
qed

text \<open>
  \<^verbatim>\<open>rt_ringbuffer_put_force\<close> of more than there is room for claims to have stored a bufferful.  When
  the data in the buffer crosses its end that is so; otherwise the buffer is empty
  afterwards: the old and the new bytes are lost.
\<close>

theorem rt_ringbuffer_put_force_loses:
  assumes inv: "rb_inv rb" and d: "rb_bytes rb \<noteq> []" and over: "rb_N rb - length (rb_bytes rb) < unat len" and p: "rb_N rb \<le> length ptr"
  shows "\<exists>n rb'. rt_ringbuffer_put_force ptr len rb = Some (n, rb') \<and> unat n = rb_N rb \<and> rb_inv rb' \<and>
     rb_bytes rb' = (if read_mirror rb = write_mirror rb then [] else take (rb_N rb) ptr)"
proof -
  let ?sp = "word_of_int (rt_ringbuffer_space_len rb) :: u16" and ?n = "word_of_int (buffer_size rb) :: u16" and ?bs = "take (rb_N rb) ptr"
  have l: "length (rb_bytes rb) = rb_n rb" by (simp add: rb_bytes_def)
  have sp: "unat ?sp = rb_N rb - rb_n rb" by (rule rb_spaces(2) [OF inv])
  have n: "unat ?n = rb_N rb" unfolding rb_size [OF inv] using rb_N_bound [OF inv] by (simp add: unsigned_of_nat take_bit_nat_eq_self)
  have o1: "len > ?sp" using sp over l by (simp add: word_less_nat_alt)
  have "0 < rb_n rb" using d l by (metis length_greater_0_conv)
  then have o2: "?n > ?sp" using sp n rb_n_bound [OF inv] by (simp add: word_less_nat_alt)
  have c: "\<not> buffer_size rb - uint (write_index rb) > uint ?n" using rb_size [OF inv] n by (simp add: uint_nat del: of_nat_unat)
  have w: "put_wrap ptr ?n rb = Some (rb_adv ?bs rb)" using put_wrap_adv [OF inv, of ?n ptr] n p by simp
  define rb' where "rb' = (rb_adv ?bs rb)\<lparr>read_mirror := \<not> read_mirror rb, read_index := write_index (rb_adv ?bs rb)\<rparr>"
  have r: "rt_ringbuffer_put_force ptr len rb = Some (?n, rb')"
    using o1 o2 c w by (simp add: rt_ringbuffer_put_force_def Let_def rb'_def)
  have lb: "length ?bs = rb_N rb" using p by simp
  have ix: "unat (write_index (rb_adv ?bs rb)) = unat (write_index rb)" using rb_adv_index [OF inv, of ?bs] lb by simp
  have wi: "unat (write_index rb) < rb_N rb" "rb_N rb \<le> length (buffer rb)" using inv by (simp_all add: rb_inv_def)
  have N: "rb_N rb' = rb_N rb" by (simp add: rb'_def rb_N_def)
  have i: "rb_inv rb'" using inv ix lb N by (simp add: rb_inv_def rb'_def)
  have m: "read_mirror rb' = write_mirror rb' \<longleftrightarrow> read_mirror rb = write_mirror rb" using lb by (simp add: rb'_def)
  have "rb_n rb' = (if read_mirror rb = write_mirror rb then 0 else rb_N rb)" using m N by (simp add: rb_n_def) (simp add: rb'_def)
  moreover have "window (rb_N rb) (buffer rb') (unat (read_index rb')) (rb_N rb) = ?bs"
    using window_ring_write [of 0 ?bs "rb_N rb" "buffer rb" "unat (write_index rb)" "unat (write_index rb)"] lb wi ix by (simp add: rb'_def)
  ultimately have "rb_bytes rb' = (if read_mirror rb = write_mirror rb then [] else ?bs)" using N by (simp add: rb_bytes_def)
  with r n i show ?thesis by blast
qed

theorem rt_ringbuffer_put_force_loses_witness:
  "\<exists>n rb'. rt_ringbuffer_put_force [7, 8, 9, 10] 4 small_rb = Some (n, rb') \<and> unat n = 4 \<and> rb_bytes rb' = []"
proof -
  have b: "rb_bytes small_rb = [3]" "rb_N small_rb = 4" by (simp_all add: rb_bytes_def rb_n_def rb_N_def small_rb_def window_def)
  from rt_ringbuffer_put_force_loses [OF small_rb_inv, of 4 "[7, 8, 9, 10]"] b show ?thesis by (auto simp: small_rb_def)
qed

end
