(* ===== verification/DataQueue.thy ===== *)
theory DataQueue
  imports Mailbox
begin

text \<open>
  Data queues, \<^verbatim>\<open>components/drivers/src/dataqueue.c\<close>: a ring of pointers with their sizes, whose two 16-bit
  indices run freely and are masked at each access.  Threads wait to push on the list
  \<open>SenderWait i\<close> and to pop on \<open>Wait i\<close>; a pop wakes a pusher when the queue is down to its low water mark.
\<close>

unbundle bit_operations_syntax

section \<open>The operations\<close>

record rt_data_item =
  data_ptr :: u32
  data_size :: u32

text \<open>\<open>queue\<close> is \<open>None\<close> for \<^verbatim>\<open>RT_NULL\<close>; of the callback \<^verbatim>\<open>evt_notify\<close> only whether there is one.\<close>

record rt_data_queue =
  dq_size :: u16
  lwm :: u16
  waiting_lwm :: bool
  get_index :: u16
  put_index :: u16
  queue :: "rt_data_item list option"
  evt_notify :: bool

datatype dq_event = RT_DATAQUEUE_EVENT_POP | RT_DATAQUEUE_EVENT_PUSH | RT_DATAQUEUE_EVENT_LWM

text \<open>\<^verbatim>\<open>RT_DATAQUEUE_SIZE\<close>: both indices are promoted to \<^verbatim>\<open>int\<close> before the subtraction.\<close>

definition RT_DATAQUEUE_SIZE :: "rt_data_queue \<Rightarrow> int" where
  "RT_DATAQUEUE_SIZE q = uint (put_index q) - uint (get_index q)"

definition RT_DATAQUEUE_EMPTY :: "rt_data_queue \<Rightarrow> int" where
  "RT_DATAQUEUE_EMPTY q = uint (dq_size q) - RT_DATAQUEUE_SIZE q"

text \<open>The two lists are initialised: they must be empty.  \<open>malloc\<close> gives the items asked for, or none.\<close>

definition rt_data_queue_init ::
  "nat \<Rightarrow> (nat \<Rightarrow> rt_data_item list option) \<Rightarrow> u16 \<Rightarrow> u16 \<Rightarrow> bool \<Rightarrow> kernel \<Rightarrow> (rt_err_t \<times> rt_data_queue \<times> kernel) option" where
  "rt_data_queue_init i malloc sz low notify k =
     do { k \<leftarrow> sender_list_init i k;
          k \<leftarrow> rt_ipc_object_init i k;
          let q = \<lparr>dq_size = sz, lwm = low, waiting_lwm = False, get_index = 0, put_index = 0, queue = malloc (unat sz), evt_notify = notify\<rparr>;
          Some (if queue q = None then - RT_ENOMEM else RT_EOK, q, k) }"

text \<open>The address of the item an index stands for: the index under the mask.\<close>

definition dq_slot :: "u16 \<Rightarrow> rt_data_queue \<Rightarrow> nat" where
  "dq_slot ix q = unat (ix AND (dq_size q - 1))"

definition dq_store :: "rt_data_item \<Rightarrow> rt_data_queue \<Rightarrow> rt_data_queue option" where
  "dq_store it q =
     do { items \<leftarrow> queue q;
          valid_access (dq_slot (put_index q) q < length items);
          Some (q\<lparr>queue := Some (items[dq_slot (put_index q) q := it]), put_index := put_index q + 1\<rparr>) }"

definition dq_load :: "rt_data_queue \<Rightarrow> rt_data_item option" where
  "dq_load q =
     do { items \<leftarrow> queue q;
          valid_access (dq_slot (get_index q) q < length items);
          Some (items ! dq_slot (get_index q) q) }"

text \<open>The call of the callback, the last thing an operation does.\<close>

definition dq_notify :: "dq_event \<Rightarrow> rt_data_queue \<Rightarrow> dq_event option" where
  "dq_notify e q = (if evt_notify q then Some e else None)"

text \<open>The result of a push is its error code and the event it passes to the callback, if it does.\<close>

definition dq_push_loop ::
  "nat \<Rightarrow> rt_data_item \<Rightarrow> tid option \<Rightarrow> rt_int32_t \<Rightarrow> rt_data_queue \<Rightarrow> kernel \<Rightarrow>
     ((rt_err_t \<times> dq_event option, tid) outcome \<times> rt_data_queue \<times> kernel) option" where
  "dq_push_loop i it self timeout q k =
     (if RT_DATAQUEUE_SIZE q = uint (dq_size q) then
        do { let q = q\<lparr>waiting_lwm := True\<rparr>;
             if timeout = 0 then Some (Ret (- RT_ETIMEOUT, None), q, k)
             else do { not_in_interrupt k;
                       thread \<leftarrow> self;
                       let k = upd_thread thread (\<lambda>th. th\<lparr>error := RT_EOK\<rparr>) k;
                       k \<leftarrow> ipc_wait (SenderWait i) RT_IPC_FLAG_FIFO timeout thread k;
                       Some (Blocked thread, q, k) } }
      else do { q \<leftarrow> dq_store it q;
                if \<not> fam_isempty (Wait i) (queues k) then
                  do { k \<leftarrow> rt_ipc_list_resume (Wait i) k;
                       k \<leftarrow> rt_schedule k;
                       Some (Ret (RT_EOK, None), q, k) }
                else Some (Ret (RT_EOK, dq_notify RT_DATAQUEUE_EVENT_PUSH q), q, k) })"

definition rt_data_queue_push ::
  "nat \<Rightarrow> rt_data_item \<Rightarrow> rt_int32_t \<Rightarrow> rt_data_queue \<Rightarrow> kernel \<Rightarrow>
     ((rt_err_t \<times> dq_event option, tid) outcome \<times> rt_data_queue \<times> kernel) option" where
  "rt_data_queue_push i it timeout q k = dq_push_loop i it (rt_thread_self k) timeout q k"

text \<open>A thread that is woken without an error goes back to the test, with the same waiting time.\<close>

definition rt_data_queue_push_wake ::
  "nat \<Rightarrow> rt_data_item \<Rightarrow> rt_int32_t \<Rightarrow> tid \<Rightarrow> rt_data_queue \<Rightarrow> kernel \<Rightarrow>
     ((rt_err_t \<times> dq_event option, tid) outcome \<times> rt_data_queue \<times> kernel) option" where
  "rt_data_queue_push_wake i it timeout thread q k =
     (if error (threads k thread) \<noteq> RT_EOK then Some (Ret (error (threads k thread), None), q, k)
      else dq_push_loop i it (Some thread) timeout q k)"

text \<open>
  A pop also tells whether it restores the interrupt level it found: after a pop down to the low
  water mark this is done only on the way that resumes a thread.
\<close>

record pop_result =
  pop_err :: rt_err_t
  pop_item :: "rt_data_item option"
  pop_event :: "dq_event option"
  level_restored :: bool

definition dq_pop_failed :: "rt_err_t \<Rightarrow> pop_result" where
  "dq_pop_failed e = \<lparr>pop_err = e, pop_item = None, pop_event = None, level_restored = True\<rparr>"

definition dq_pop_loop ::
  "nat \<Rightarrow> tid option \<Rightarrow> rt_int32_t \<Rightarrow> rt_data_queue \<Rightarrow> kernel \<Rightarrow> ((pop_result, tid) outcome \<times> rt_data_queue \<times> kernel) option" where
  "dq_pop_loop i self timeout q k =
     (if get_index q = put_index q then
        (if timeout = 0 then Some (Ret (dq_pop_failed (- RT_ETIMEOUT)), q, k)
         else do { not_in_interrupt k;
                   thread \<leftarrow> self;
                   let k = upd_thread thread (\<lambda>th. th\<lparr>error := RT_EOK\<rparr>) k;
                   k \<leftarrow> ipc_wait (Wait i) RT_IPC_FLAG_FIFO timeout thread k;
                   Some (Blocked thread, q, k) })
      else do { it \<leftarrow> dq_load q;
                let q = q\<lparr>get_index := get_index q + 1\<rparr>;
                if waiting_lwm q \<and> RT_DATAQUEUE_SIZE q \<le> uint (lwm q) then
                  do { let q = q\<lparr>waiting_lwm := False\<rparr>;
                       (on, k) \<leftarrow> (if \<not> fam_isempty (SenderWait i) (queues k) then
                                    do { k \<leftarrow> rt_ipc_list_resume (SenderWait i) k;
                                         k \<leftarrow> rt_schedule k;
                                         Some (True, k) }
                                  else Some (False, k));
                       Some (Ret \<lparr>pop_err = RT_EOK, pop_item = Some it, pop_event = dq_notify RT_DATAQUEUE_EVENT_LWM q, level_restored = on\<rparr>, q, k) }
                else Some (Ret \<lparr>pop_err = RT_EOK, pop_item = Some it, pop_event = dq_notify RT_DATAQUEUE_EVENT_POP q, level_restored = True\<rparr>, q, k) })"

definition rt_data_queue_pop ::
  "nat \<Rightarrow> rt_int32_t \<Rightarrow> rt_data_queue \<Rightarrow> kernel \<Rightarrow> ((pop_result, tid) outcome \<times> rt_data_queue \<times> kernel) option" where
  "rt_data_queue_pop i timeout q k = dq_pop_loop i (rt_thread_self k) timeout q k"

definition rt_data_queue_pop_wake ::
  "nat \<Rightarrow> rt_int32_t \<Rightarrow> tid \<Rightarrow> rt_data_queue \<Rightarrow> kernel \<Rightarrow> ((pop_result, tid) outcome \<times> rt_data_queue \<times> kernel) option" where
  "rt_data_queue_pop_wake i timeout thread q k =
     (if error (threads k thread) \<noteq> RT_EOK then Some (Ret (dq_pop_failed (error (threads k thread))), q, k)
      else dq_pop_loop i (Some thread) timeout q k)"

definition rt_data_queue_peak :: "rt_data_queue \<Rightarrow> (rt_err_t \<times> rt_data_item option) option" where
  "rt_data_queue_peak q =
     (if get_index q = put_index q then Some (- RT_EEMPTY, None)
      else do { it \<leftarrow> dq_load q; Some (RT_EOK, Some it) })"

text \<open>The two loops of \<^verbatim>\<open>rt_data_queue_reset\<close> are that of \<^verbatim>\<open>rt_ipc_list_resume_all\<close>; the items stay.\<close>

definition rt_data_queue_reset :: "nat \<Rightarrow> kernel \<Rightarrow> kernel option" where
  "rt_data_queue_reset i k =
     do { let k = rt_enter_critical k;
          k \<leftarrow> rt_ipc_list_resume_all (Wait i) k;
          k \<leftarrow> rt_ipc_list_resume_all (SenderWait i) k;
          k \<leftarrow> rt_exit_critical k;
          rt_schedule k }"

section \<open>The ring\<close>

definition dq_count :: "rt_data_queue \<Rightarrow> nat" where
  "dq_count q = unat (put_index q - get_index q)"

definition dq_inv :: "rt_data_queue \<Rightarrow> bool" where
  "dq_inv q \<longleftrightarrow> (\<exists>j<16. unat (dq_size q) = 2 ^ j) \<and> (\<exists>xs. queue q = Some xs \<and> unat (dq_size q) \<le> length xs) \<and> dq_count q \<le> unat (dq_size q)"

definition dq_items :: "rt_data_queue \<Rightarrow> rt_data_item list" where
  "dq_items q = window (unat (dq_size q)) (the (queue q)) (dq_slot (get_index q) q) (dq_count q)"

lemma length_dq_items [simp]: "length (dq_items q) = dq_count q"
  by (simp add: dq_items_def)

lemma index_inc_left: "unat (p - g :: u16) < unat (s :: u16) \<Longrightarrow> unat (p + 1 - g) = Suc (unat (p - g))"
  using unat_inc [of "p - g" s] by (simp add: algebra_simps)

lemma index_inc_right: "g \<noteq> p \<Longrightarrow> unat (p - g) = Suc (unat (p - (g + 1) :: u16))"
  using unat_minus_one [of "p - g"] unat_gt_0 [of "p - g"] by (simp add: diff_diff_eq)

lemma dq_count_0: "dq_count q = 0 \<longleftrightarrow> get_index q = put_index q"
  by (auto simp: dq_count_def unat_eq_0)

text \<open>The test for a full queue is right as long as the put index has not overtaken its range.\<close>

lemma dq_size_count:
  "RT_DATAQUEUE_SIZE q = int (dq_count q) - (if put_index q < get_index q then 65536 else 0)"
  by (simp add: RT_DATAQUEUE_SIZE_def dq_count_def uint_sub_if' word_less_def)

lemma dq_full_test:
  "RT_DATAQUEUE_SIZE q = uint (dq_size q) \<longleftrightarrow> get_index q \<le> put_index q \<and> dq_count q = unat (dq_size q)"
proof -
  have "dq_count q < 65536" using unsigned_less [of "put_index q - get_index q", where ?'a = nat] by (simp add: dq_count_def)
  then have "int (dq_count q) - 65536 < uint (dq_size q)" using uint_nat [of "dq_size q"] by linarith
  moreover have "int (dq_count q) = uint (dq_size q) \<longleftrightarrow> dq_count q = unat (dq_size q)" using uint_nat [of "dq_size q"] by linarith
  ultimately show ?thesis unfolding dq_size_count by (simp add: not_less [symmetric])
qed

lemma dq_slot_mod:
  assumes "dq_inv q"
  shows "dq_slot ix q = unat ix mod unat (dq_size q)" "0 < unat (dq_size q)" "unat (dq_size q) dvd 65536"
proof -
  from assms obtain j where j: "j < 16" and u: "unat (dq_size q) = 2 ^ j" by (auto simp: dq_inv_def)
  have "dq_size q = 2 ^ j" using arg_cong [OF u, of "word_of_nat :: nat \<Rightarrow> u16"] by simp
  then have "ix AND (dq_size q - 1) = take_bit j ix" by (simp add: take_bit_eq_mask mask_eq_exp_minus_1)
  then show "dq_slot ix q = unat ix mod unat (dq_size q)" unfolding dq_slot_def u by (metis unsigned_take_bit_eq take_bit_eq_mod)
  show "0 < unat (dq_size q)" by (simp add: u)
  have "(2 :: nat) ^ j dvd 2 ^ 16" using j by (intro le_imp_power_dvd) simp
  then show "unat (dq_size q) dvd 65536" by (simp add: u)
qed

lemma unat_inc_mod:
  assumes "N dvd 65536"
  shows "unat (a + (b :: u16)) mod N = (unat a + unat b) mod N"
  using assms by (simp add: unat_word_ariths mod_mod_cancel)

lemma dq_slot_put:
  assumes "dq_inv q"
  shows "dq_slot (put_index q) q = (dq_slot (get_index q) q + dq_count q) mod unat (dq_size q)"
  using unat_inc_mod [OF dq_slot_mod(3) [OF assms], of "get_index q" "put_index q - get_index q"]
  by (simp add: dq_slot_mod [OF assms] dq_count_def mod_add_left_eq)

lemma dq_store_spec:
  assumes inv: "dq_inv q" and n: "dq_count q < unat (dq_size q)"
  shows "\<exists>q'. dq_store v q = Some q' \<and> dq_inv q' \<and> dq_items q' = dq_items q @ [v] \<and> dq_count q' = Suc (dq_count q) \<and>
     dq_size q' = dq_size q \<and> lwm q' = lwm q \<and> evt_notify q' = evt_notify q \<and> waiting_lwm q' = waiting_lwm q \<and>
     get_index q' = get_index q \<and> put_index q' = put_index q + 1"
proof -
  let ?N = "unat (dq_size q)"
  from inv obtain xs where xs: "queue q = Some xs" "?N \<le> length xs" by (auto simp: dq_inv_def)
  define q' where "q' = q\<lparr>queue := Some (xs[dq_slot (put_index q) q := v]), put_index := put_index q + 1\<rparr>"
  have "dq_slot (put_index q) q < length xs" using dq_slot_mod(1,2) [OF inv] xs(2) by (metis mod_less_divisor order_less_le_trans)
  then have st: "dq_store v q = Some q'" using xs(1) by (simp add: dq_store_def q'_def)
  have c: "dq_count q' = Suc (dq_count q)" using index_inc_left [of "put_index q" "get_index q" "dq_size q"] n
    by (simp add: dq_count_def q'_def)
  then have inv': "dq_inv q'" using inv n xs unfolding dq_inv_def by (auto simp: q'_def)
  have "dq_items q' = dq_items q @ [v]"
    using window_put [OF n xs(2) dq_slot_put [OF inv], of v] c xs(1) by (simp add: dq_items_def q'_def dq_slot_def)
  then show ?thesis using st c inv' by (simp add: q'_def)
qed

lemma dq_load_spec:
  assumes inv: "dq_inv q" and n: "get_index q \<noteq> put_index q"
  shows "dq_load q = Some (hd (dq_items q))" and "dq_inv (q\<lparr>get_index := get_index q + 1\<rparr>)"
    and "dq_items (q\<lparr>get_index := get_index q + 1\<rparr>) = tl (dq_items q)"
proof -
  let ?N = "unat (dq_size q)" and ?q = "q\<lparr>get_index := get_index q + 1\<rparr>"
  from inv obtain xs where xs: "queue q = Some xs" "?N \<le> length xs" by (auto simp: dq_inv_def)
  have s: "dq_slot (get_index q) q < ?N" using dq_slot_mod(1,2) [OF inv] by simp
  have c: "dq_count q = Suc (dq_count ?q)" using index_inc_right [OF n] by (simp add: dq_count_def)
  have w: "dq_items q = xs ! dq_slot (get_index q) q # window ?N xs (Suc (dq_slot (get_index q) q) mod ?N) (dq_count ?q)"
    unfolding dq_items_def c using window_get [OF s] xs(1) by simp
  show "dq_load q = Some (hd (dq_items q))" using s xs w by (simp add: dq_load_def)
  show inv': "dq_inv ?q" using inv c by (auto simp: dq_inv_def)
  have "dq_slot (get_index q + 1) q = Suc (dq_slot (get_index q) q) mod ?N"
    using unat_inc_mod [OF dq_slot_mod(3) [OF inv], of "get_index q" 1] by (simp add: dq_slot_mod [OF inv] mod_Suc_eq)
  then show "dq_items ?q = tl (dq_items q)" unfolding w using xs(1) by (simp add: dq_items_def dq_slot_def)
qed


section \<open>What a data queue guarantees\<close>

lemma dq_inv_lwm [simp]: "dq_inv (q\<lparr>waiting_lwm := b\<rparr>) = dq_inv q" "dq_items (q\<lparr>waiting_lwm := b\<rparr>) = dq_items q"
  "dq_count (q\<lparr>waiting_lwm := b\<rparr>) = dq_count q" "RT_DATAQUEUE_SIZE (q\<lparr>waiting_lwm := b\<rparr>) = RT_DATAQUEUE_SIZE q"
  by (simp_all add: dq_inv_def dq_items_def dq_count_def dq_slot_def RT_DATAQUEUE_SIZE_def)

text \<open>Waiting, for a pusher on the one list and for a popper on the other.\<close>

lemma dq_block:
  assumes run: "running k t" and tm: "time_ok time" and q: "waiting l"
  shows "\<exists>k'. ipc_wait l RT_IPC_FLAG_FIFO time t (upd_thread t (\<lambda>th. th\<lparr>error := RT_EOK\<rparr>) k) = Some k' \<and> kinv 0 k' \<and>
     threads k' = (threads k)(t := (threads k t)\<lparr>error := RT_EOK, stat := RT_THREAD_SUSPEND\<rparr>) \<and>
     q_list k' l = q_list k l @ [t] \<and> (\<forall>q'. waiting q' \<and> q' \<noteq> l \<longrightarrow> q_list k' q' = q_list k q') \<and>
     rt_current_thread k' \<noteq> None \<and> rt_scheduler_lock_nest k' = rt_scheduler_lock_nest k \<and> rt_interrupt_nest k' = rt_interrupt_nest k \<and>
     (rt_scheduler_lock_nest k = 0 \<longrightarrow> rt_current_thread k' \<noteq> Some t)"
  using block_spec [OF run q _ tm, of RT_IPC_FLAG_FIFO] by (auto simp: wait_insert_def)

text \<open>
  The two places where a waiting thread is woken are those of a mailbox.
\<close>

lemma dq_push_room:
  assumes "kinv 0 k" and "rt_current_thread k = Some c" and inv: "dq_inv q" and n: "dq_count q < unat (dq_size q)"
  shows "\<exists>ev q' k'. dq_push_loop i it self time q k = Some (Ret (RT_EOK, ev), q', k') \<and> kinv 0 k' \<and> rt_current_thread k' \<noteq> None \<and>
     dq_inv q' \<and> dq_size q' = dq_size q \<and> waiting_lwm q' = waiting_lwm q \<and> lwm q' = lwm q \<and> dq_items q' = dq_items q @ [it] \<and>
     get_index q' = get_index q \<and> put_index q' = put_index q + 1 \<and>
     ev = (if q_list k (Wait i) = [] then dq_notify RT_DATAQUEUE_EVENT_PUSH q else None) \<and>
     ipc_wake (Wait i) k = Some k' \<and> q_list k' (Wait i) = tl (q_list k (Wait i)) \<and> q_list k' (SenderWait i) = q_list k (SenderWait i) \<and>
     threads k' = (case q_list k (Wait i) of [] \<Rightarrow> threads k | t # ts \<Rightarrow> (threads k)(t := (threads k t)\<lparr>stat := RT_THREAD_READY\<rparr>))"
proof -
  from dq_store_spec [OF inv n, of it] obtain q' where q': "dq_store it q = Some q'" "dq_inv q'" "dq_items q' = dq_items q @ [it]"
    "dq_size q' = dq_size q" "lwm q' = lwm q" "waiting_lwm q' = waiting_lwm q" "evt_notify q' = evt_notify q"
    "get_index q' = get_index q" "put_index q' = put_index q + 1" by blast
  from ipc_wake_spec [OF assms(1,2) waiting_simps(1)] obtain k' where k': "ipc_wake (Wait i) k = Some k'" "kinv 0 k'"
    "rt_current_thread k' \<noteq> None" "q_list k' (Wait i) = tl (q_list k (Wait i))"
    "\<forall>q'. waiting q' \<and> q' \<noteq> Wait i \<longrightarrow> q_list k' q' = q_list k q'"
    "threads k' = (case q_list k (Wait i) of [] \<Rightarrow> threads k | t # ts \<Rightarrow> (threads k)(t := (threads k t)\<lparr>stat := RT_THREAD_READY\<rparr>))" by blast
  have "RT_DATAQUEUE_SIZE q \<noteq> uint (dq_size q)" using n unfolding dq_full_test by simp
  then have "dq_push_loop i it self time q k =
     Some (Ret (RT_EOK, if q_list k (Wait i) = [] then dq_notify RT_DATAQUEUE_EVENT_PUSH q else None), q', k')"
    using q'(1,7) k'(1) by (auto simp: dq_push_loop_def ipc_wake_def fam_isempty_def dq_notify_def Option.bind_eq_Some_conv split: if_splits)
  with q' k' show ?thesis by auto
qed

lemma dq_pop_some:
  assumes "kinv 0 k" and "rt_current_thread k = Some c" and inv: "dq_inv q" and n: "get_index q \<noteq> put_index q"
  defines "low \<equiv> waiting_lwm q \<and> RT_DATAQUEUE_SIZE (q\<lparr>get_index := get_index q + 1\<rparr>) \<le> uint (lwm q)"
  shows "\<exists>r q' k'. dq_pop_loop i self time q k = Some (Ret r, q', k') \<and> kinv 0 k' \<and> rt_current_thread k' \<noteq> None \<and>
     dq_inv q' \<and> dq_items q' = tl (dq_items q) \<and> q' = q\<lparr>get_index := get_index q + 1, waiting_lwm := (waiting_lwm q \<and> \<not> low)\<rparr> \<and>
     r = \<lparr>pop_err = RT_EOK, pop_item = Some (hd (dq_items q)),
          pop_event = dq_notify (if low then RT_DATAQUEUE_EVENT_LWM else RT_DATAQUEUE_EVENT_POP) q,
          level_restored = (\<not> low \<or> q_list k (SenderWait i) \<noteq> [])\<rparr> \<and>
     q_list k' (Wait i) = q_list k (Wait i) \<and>
     (if low then ipc_wake (SenderWait i) k = Some k' \<and> q_list k' (SenderWait i) = tl (q_list k (SenderWait i)) \<and>
        threads k' = (case q_list k (SenderWait i) of [] \<Rightarrow> threads k | t # ts \<Rightarrow> (threads k)(t := (threads k t)\<lparr>stat := RT_THREAD_READY\<rparr>))
      else k' = k)"
proof -
  let ?q = "q\<lparr>get_index := get_index q + 1\<rparr>"
  note l = dq_load_spec [OF inv n]
  from ipc_wake_spec [OF assms(1,2) waiting_simps(2)] obtain k' where k': "ipc_wake (SenderWait i) k = Some k'" "kinv 0 k'"
    "rt_current_thread k' \<noteq> None" "q_list k' (SenderWait i) = tl (q_list k (SenderWait i))"
    "\<forall>q'. waiting q' \<and> q' \<noteq> SenderWait i \<longrightarrow> q_list k' q' = q_list k q'"
    "threads k' = (case q_list k (SenderWait i) of [] \<Rightarrow> threads k | t # ts \<Rightarrow> (threads k)(t := (threads k t)\<lparr>stat := RT_THREAD_READY\<rparr>))" by blast
  show ?thesis
  proof (cases low)
    case True
    then have "dq_pop_loop i self time q k = Some (Ret \<lparr>pop_err = RT_EOK, pop_item = Some (hd (dq_items q)),
       pop_event = dq_notify RT_DATAQUEUE_EVENT_LWM q, level_restored = (q_list k (SenderWait i) \<noteq> [])\<rparr>, ?q\<lparr>waiting_lwm := False\<rparr>, k')"
      using n l(1) k'(1) unfolding low_def
      by (auto simp: dq_pop_loop_def ipc_wake_def fam_isempty_def dq_notify_def Option.bind_eq_Some_conv Let_def split: if_splits)
    with True k' l show ?thesis by auto
  next
    case False
    then have "dq_pop_loop i self time q k = Some (Ret \<lparr>pop_err = RT_EOK, pop_item = Some (hd (dq_items q)),
       pop_event = dq_notify RT_DATAQUEUE_EVENT_POP q, level_restored = True\<rparr>, ?q, k)"
      using n l(1) unfolding low_def by (auto simp: dq_pop_loop_def dq_notify_def Let_def)
    with False assms(1,2) l show ?thesis by auto
  qed
qed


text \<open>
  C22: \<^verbatim>\<open>rt_data_queue_push\<close> in every branch, as long as the 16-bit put index has not run over before a full
  queue: with room the item goes behind the others and the first popper that waits is woken, or else
  the callback is told; a full queue is left as it is, with \<^verbatim>\<open>waiting_lwm\<close> set, and the caller gets
  \<^verbatim>\<open>-RT_ETIMEOUT\<close> without waiting time or waits behind the others.
\<close>

theorem rt_data_queue_push_correct:
  assumes run: "running k t" and inv: "dq_inv q" and nw: "dq_count q = unat (dq_size q) \<Longrightarrow> get_index q \<le> put_index q"
    and tm: "time_ok time" and n: "rt_interrupt_nest k = 0"
  shows "\<exists>out q' k'. rt_data_queue_push i it time q k = Some (out, q', k') \<and> kinv 0 k' \<and> dq_inv q' \<and>
     (if dq_count q < unat (dq_size q)
      then dq_items q' = dq_items q @ [it] \<and>
        (case q_list k (Wait i) of
           [] \<Rightarrow> out = Ret (RT_EOK, dq_notify RT_DATAQUEUE_EVENT_PUSH q) \<and> k' = k
         | u # us \<Rightarrow> out = Ret (RT_EOK, None) \<and> stat (threads k' u) = RT_THREAD_READY \<and> q_list k' (Wait i) = us)
      else dq_items q' = dq_items q \<and> waiting_lwm q' \<and>
        (if time = 0 then out = Ret (- RT_ETIMEOUT, None) \<and> k' = k
         else out = Blocked t \<and> stat (threads k' t) = RT_THREAD_SUSPEND \<and> q_list k' (SenderWait i) = q_list k (SenderWait i) @ [t]))"
proof (cases "dq_count q < unat (dq_size q)")
  case True
  from dq_push_room [OF runningD(1,2) [OF run] inv True, of i it "rt_thread_self k" time] obtain ev q' k' where
    "dq_push_loop i it (rt_thread_self k) time q k = Some (Ret (RT_EOK, ev), q', k')" "kinv 0 k'" "dq_inv q'"
    "dq_items q' = dq_items q @ [it]" "ev = (if q_list k (Wait i) = [] then dq_notify RT_DATAQUEUE_EVENT_PUSH q else None)"
    "q_list k' (Wait i) = tl (q_list k (Wait i))" and w: "ipc_wake (Wait i) k = Some k'" and
    "threads k' = (case q_list k (Wait i) of [] \<Rightarrow> threads k | t # ts \<Rightarrow> (threads k)(t := (threads k t)\<lparr>stat := RT_THREAD_READY\<rparr>))" by blast
  then show ?thesis using True by (auto simp: rt_data_queue_push_def ipc_wake_def fam_isempty_def split: list.split)
next
  case False
  then have f: "dq_count q = unat (dq_size q)" using inv by (simp add: dq_inv_def)
  then have full: "RT_DATAQUEUE_SIZE q = uint (dq_size q)" using nw unfolding dq_full_test by simp
  from dq_block [OF run tm waiting_simps(2), of i] obtain k' where
    "ipc_wait (SenderWait i) RT_IPC_FLAG_FIFO time t (upd_thread t (\<lambda>th. th\<lparr>error := RT_EOK\<rparr>) k) = Some k'" "kinv 0 k'"
    "threads k' = (threads k)(t := (threads k t)\<lparr>error := RT_EOK, stat := RT_THREAD_SUSPEND\<rparr>)"
    "q_list k' (SenderWait i) = q_list k (SenderWait i) @ [t]" by blast
  then show ?thesis using f full inv n running_ctx [OF run n] runningD(1) [OF run]
    by (auto simp: rt_data_queue_push_def dq_push_loop_def Let_def not_in_interrupt_def rt_interrupt_get_nest_def)
qed

text \<open>
  C23: \<^verbatim>\<open>rt_data_queue_pop\<close> in every branch: the first item is taken off; when a pusher had to wait and no more
  items than the low water mark are left, the first pusher is woken and the callback is told so.  On that
  way the interrupt level is restored only if there is a pusher to wake: otherwise the call
  returns with the interrupts off.  An empty queue gives \<^verbatim>\<open>-RT_ETIMEOUT\<close> or makes the caller wait.
\<close>

theorem rt_data_queue_pop_correct:
  assumes run: "running k t" and inv: "dq_inv q" and tm: "time_ok time" and n: "rt_interrupt_nest k = 0"
  shows "\<exists>out q' k'. rt_data_queue_pop i time q k = Some (out, q', k') \<and> kinv 0 k' \<and> dq_inv q' \<and>
     (case dq_items q of
        v # vs \<Rightarrow> dq_items q' = vs \<and> (\<exists>r. out = Ret r \<and> pop_err r = RT_EOK \<and> pop_item r = Some v \<and>
          (if waiting_lwm q \<and> RT_DATAQUEUE_SIZE (q\<lparr>get_index := get_index q + 1\<rparr>) \<le> uint (lwm q)
           then \<not> waiting_lwm q' \<and> pop_event r = dq_notify RT_DATAQUEUE_EVENT_LWM q \<and>
             (case q_list k (SenderWait i) of
                [] \<Rightarrow> \<not> level_restored r \<and> k' = k
              | u # us \<Rightarrow> level_restored r \<and> stat (threads k' u) = RT_THREAD_READY \<and> q_list k' (SenderWait i) = us)
           else waiting_lwm q' = waiting_lwm q \<and> pop_event r = dq_notify RT_DATAQUEUE_EVENT_POP q \<and> level_restored r \<and> k' = k))
      | [] \<Rightarrow> q' = q \<and>
          (if time = 0 then out = Ret (dq_pop_failed (- RT_ETIMEOUT)) \<and> k' = k
           else out = Blocked t \<and> stat (threads k' t) = RT_THREAD_SUSPEND \<and> q_list k' (Wait i) = q_list k (Wait i) @ [t]))"
proof (cases "get_index q = put_index q")
  case True
  then have e: "dq_items q = []" using length_dq_items [of q] dq_count_0 [of q] by (simp del: length_dq_items)
  from dq_block [OF run tm waiting_simps(1), of i] obtain k' where
    "ipc_wait (Wait i) RT_IPC_FLAG_FIFO time t (upd_thread t (\<lambda>th. th\<lparr>error := RT_EOK\<rparr>) k) = Some k'" "kinv 0 k'"
    "threads k' = (threads k)(t := (threads k t)\<lparr>error := RT_EOK, stat := RT_THREAD_SUSPEND\<rparr>)"
    "q_list k' (Wait i) = q_list k (Wait i) @ [t]" by blast
  then show ?thesis using True e inv n running_ctx [OF run n] runningD(1) [OF run]
    by (auto simp: rt_data_queue_pop_def dq_pop_loop_def Let_def not_in_interrupt_def rt_interrupt_get_nest_def)
next
  case False
  let ?low = "waiting_lwm q \<and> RT_DATAQUEUE_SIZE (q\<lparr>get_index := get_index q + 1\<rparr>) \<le> uint (lwm q)"
  from False have "dq_items q \<noteq> []" using length_dq_items [of q] dq_count_0 [of q] by (metis list.size(3))
  then obtain v vs where e: "dq_items q = v # vs" by (cases "dq_items q") auto
  from dq_pop_some [OF runningD(1,2) [OF run] inv False, of i "rt_thread_self k" time] obtain r q' k' where
    p: "dq_pop_loop i (rt_thread_self k) time q k = Some (Ret r, q', k')" "kinv 0 k'" "dq_inv q'" "dq_items q' = tl (dq_items q)"
    "q' = q\<lparr>get_index := get_index q + 1, waiting_lwm := (waiting_lwm q \<and> \<not> ?low)\<rparr>"
    "r = \<lparr>pop_err = RT_EOK, pop_item = Some (hd (dq_items q)),
          pop_event = dq_notify (if ?low then RT_DATAQUEUE_EVENT_LWM else RT_DATAQUEUE_EVENT_POP) q,
          level_restored = (\<not> ?low \<or> q_list k (SenderWait i) \<noteq> [])\<rparr>"
    "if ?low then ipc_wake (SenderWait i) k = Some k' \<and> q_list k' (SenderWait i) = tl (q_list k (SenderWait i)) \<and>
        threads k' = (case q_list k (SenderWait i) of [] \<Rightarrow> threads k | t # ts \<Rightarrow> (threads k)(t := (threads k t)\<lparr>stat := RT_THREAD_READY\<rparr>))
      else k' = k" by blast
  show ?thesis
  proof (cases ?low)
    case True
    with p e show ?thesis by (auto simp: rt_data_queue_pop_def ipc_wake_def fam_isempty_def split: list.splits)
  next
    case False
    with p e show ?thesis by (auto simp: rt_data_queue_pop_def)
  qed
qed

lemma boot_no_senders: "q_list boot_kernel (SenderWait i) = []"
proof -
  have "t \<notin> set (q_list boot_kernel (SenderWait i))" for t
    using waiting_suspended [OF boot_kernel(2) waiting_simps(2), of t i] boot_kernel(4) [of t] by (auto split: if_splits)
  then show ?thesis by (metis list.set_intros(1) neq_Nil_conv)
qed

text \<open>A queue of two places with one item, its indices about to run over.\<close>

definition small_dq :: "u16 \<Rightarrow> rt_data_queue" where
  "small_dq p = \<lparr>dq_size = 2, lwm = 1, waiting_lwm = False, get_index = p - 1, put_index = p,
     queue = Some [\<lparr>data_ptr = 0x100, data_size = 4\<rparr>, \<lparr>data_ptr = 0x104, data_size = 8\<rparr>], evt_notify = True\<rparr>"

lemma small_dq_inv: "dq_inv (small_dq p)" "dq_count (small_dq p) = 1" "unat (dq_size (small_dq p)) = 2"
proof -
  have "\<exists>j<16. (2 :: nat) = 2 ^ j" by (intro exI [of _ 1]) simp
  then show "dq_inv (small_dq p)" by (simp add: dq_inv_def small_dq_def dq_count_def)
qed (simp_all add: small_dq_def dq_count_def)

theorem rt_data_queue_push_correct_witness:
  "\<exists>q'. rt_data_queue_push 7 \<lparr>data_ptr = 0x108, data_size = 1\<rparr> RT_WAITING_NO (small_dq 5) boot_kernel =
     Some (Ret (RT_EOK, Some RT_DATAQUEUE_EVENT_PUSH), q', boot_kernel) \<and> dq_items q' = dq_items (small_dq 5) @ [\<lparr>data_ptr = 0x108, data_size = 1\<rparr>]"
proof -
  have "dq_count (small_dq 5) = unat (dq_size (small_dq 5)) \<Longrightarrow> get_index (small_dq 5) \<le> put_index (small_dq 5)" "time_ok 0"
    by (simp_all add: small_dq_inv time_ok_def)
  from rt_data_queue_push_correct [OF boot_running small_dq_inv(1) this boot_kernel(11), of 7 "\<lparr>data_ptr = 0x108, data_size = 1\<rparr>"]
  show ?thesis by (auto simp: small_dq_inv boot_no_waiters dq_notify_def) (simp add: small_dq_def)
qed

theorem rt_data_queue_pop_correct_witness:
  "\<exists>r q'. rt_data_queue_pop 7 RT_WAITING_NO ((small_dq 5)\<lparr>waiting_lwm := True\<rparr>) boot_kernel = Some (Ret r, q', boot_kernel) \<and>
     pop_item r = Some \<lparr>data_ptr = 0x100, data_size = 4\<rparr> \<and> \<not> level_restored r"
proof -
  let ?q = "(small_dq 5)\<lparr>waiting_lwm := True\<rparr>"
  have "dq_items ?q = [\<lparr>data_ptr = 0x100, data_size = 4\<rparr>]"
    by (simp add: dq_items_def dq_count_def small_dq_def window_def dq_slot_def)
  moreover have "RT_DATAQUEUE_SIZE (?q\<lparr>get_index := get_index ?q + 1\<rparr>) \<le> uint (lwm ?q)"
    by (simp add: RT_DATAQUEUE_SIZE_def small_dq_def)
  moreover have "time_ok 0" "dq_inv ?q" by (simp_all add: time_ok_def small_dq_inv)
  ultimately show ?thesis using rt_data_queue_pop_correct [OF boot_running _ _ boot_kernel(11), of ?q 0 7]
    by (auto simp: boot_no_senders)
qed


text \<open>
  The indices run over at 65536, but the test for a full queue subtracts them as integers.  When the
  put index has run over and the get index has not, a full queue is not seen as full: a push returns
  \<^verbatim>\<open>RT_EOK\<close>, writes over the oldest item and leaves the queue with one item more than it has places.
\<close>

theorem rt_data_queue_index_wrap_overwrites:
  assumes inv: "dq_inv q" and full: "dq_count q = unat (dq_size q)" and w: "put_index q < get_index q" and e: "q_list k (Wait i) = []"
  shows "\<exists>q'. rt_data_queue_push i it time q k = Some (Ret (RT_EOK, dq_notify RT_DATAQUEUE_EVENT_PUSH q), q', k) \<and>
     rt_data_queue_peak q' = Some (RT_EOK, Some it) \<and> dq_count q' = Suc (unat (dq_size q')) \<and> \<not> dq_inv q'"
proof -
  from inv obtain xs j where xs: "queue q = Some xs" "unat (dq_size q) \<le> length xs" and j: "j < 16" "unat (dq_size q) = 2 ^ j"
    by (auto simp: dq_inv_def)
  define q' where "q' = q\<lparr>queue := Some (xs[dq_slot (put_index q) q := it]), put_index := put_index q + 1\<rparr>"
  have slot: "dq_slot (put_index q) q = dq_slot (get_index q) q"
    using dq_slot_put [OF inv] full dq_slot_mod(1,2) [OF inv] by simp
  have len: "dq_slot (put_index q) q < length xs" using dq_slot_mod(1,2) [OF inv] xs(2) by (metis mod_less_divisor order_less_le_trans)
  have "RT_DATAQUEUE_SIZE q \<noteq> uint (dq_size q)" using w unfolding dq_full_test by (simp add: not_le)
  then have p: "rt_data_queue_push i it time q k = Some (Ret (RT_EOK, dq_notify RT_DATAQUEUE_EVENT_PUSH q), q', k)"
    using xs(1) len e by (simp add: rt_data_queue_push_def dq_push_loop_def dq_store_def fam_isempty_def dq_notify_def q'_def)
  have "unat (put_index q - get_index q) < unat (0xFFFF :: u16)"
    using j full power_increasing [of j 15 "2 :: nat"] by (simp add: dq_count_def)
  from index_inc_left [OF this] have c: "dq_count q' = Suc (unat (dq_size q'))" using full by (simp add: dq_count_def q'_def)
  then have "get_index q' \<noteq> put_index q'" using dq_count_0 [of q'] by auto
  then have "rt_data_queue_peak q' = Some (RT_EOK, Some it)"
    using xs slot len by (simp add: rt_data_queue_peak_def dq_load_def q'_def dq_slot_def)
  then show ?thesis using p c by (auto simp: dq_inv_def)
qed

definition wrapped_queue :: rt_data_queue where
  "wrapped_queue = (small_dq 0)\<lparr>put_index := 1\<rparr>"

theorem rt_data_queue_index_wrap_overwrites_witness:
  "\<exists>q'. rt_data_queue_push 7 \<lparr>data_ptr = 0x108, data_size = 1\<rparr> RT_WAITING_NO wrapped_queue boot_kernel =
     Some (Ret (RT_EOK, Some RT_DATAQUEUE_EVENT_PUSH), q', boot_kernel) \<and>
     rt_data_queue_peak q' = Some (RT_EOK, Some \<lparr>data_ptr = 0x108, data_size = 1\<rparr>) \<and> \<not> dq_inv q'"
proof -
  have "\<exists>j<16. (2 :: nat) = 2 ^ j" by (intro exI [of _ 1]) simp
  then have "dq_inv wrapped_queue" "dq_count wrapped_queue = unat (dq_size wrapped_queue)" "put_index wrapped_queue < get_index wrapped_queue"
    "dq_notify RT_DATAQUEUE_EVENT_PUSH wrapped_queue = Some RT_DATAQUEUE_EVENT_PUSH"
    by (simp_all add: wrapped_queue_def small_dq_def dq_inv_def dq_count_def dq_notify_def word_less_nat_alt unsigned_minus_1_eq_mask mask_eq_exp_minus_1)
  from rt_data_queue_index_wrap_overwrites [OF this(1-3) boot_no_waiters, of 7 "\<lparr>data_ptr = 0x108, data_size = 1\<rparr>" 0] this(4)
  show ?thesis by auto
qed

text \<open>
  Only one pusher is woken when the queue is down to its low water mark, and \<^verbatim>\<open>waiting_lwm\<close> is cleared for
  all: a second one that waits is not woken by any later pop, however empty the queue becomes.  Here
  the first pusher runs, its item is popped as well, and the queue is empty with the second pusher still waiting.
\<close>

theorem rt_data_queue_second_pusher_stays:
  assumes inv: "kinv 0 k" and c: "rt_current_thread k = Some c" and q: "dq_inv q" "dq_count q = 1" "waiting_lwm q"
    and w: "q_list k (SenderWait i) = [a, b]" "q_list k (Wait i) = []" and ea: "error (threads k a) = RT_EOK"
  shows "\<exists>r1 q1 k1 e2 q2 k2 r3 q3 k3. dq_pop_loop i self time q k = Some (Ret r1, q1, k1) \<and>
     rt_data_queue_push_wake i it timeout a q1 k1 = Some (Ret (RT_EOK, e2), q2, k2) \<and>
     dq_pop_loop i self' time' q2 k2 = Some (Ret r3, q3, k3) \<and> pop_item r3 = Some it \<and>
     dq_items q3 = [] \<and> q_list k3 (SenderWait i) = [b] \<and> stat (threads k3 b) = RT_THREAD_SUSPEND"
proof -
  have n: "get_index q \<noteq> put_index q" using q(2) dq_count_0 [of q] by auto
  have z: "dq_count (q\<lparr>get_index := get_index q + 1\<rparr>) = 0" using index_inc_right [OF n] q(2) by (simp add: dq_count_def)
  then have eq: "get_index q + 1 = put_index q" using dq_count_0 [of "q\<lparr>get_index := get_index q + 1\<rparr>"] by simp
  then have low: "waiting_lwm q \<and> RT_DATAQUEUE_SIZE (q\<lparr>get_index := get_index q + 1\<rparr>) \<le> uint (lwm q)"
    using q(3) by (simp add: RT_DATAQUEUE_SIZE_def)
  from dq_pop_some [OF inv c q(1) n, of i self time] low w obtain r1 k1 where
    p1: "dq_pop_loop i self time q k = Some (Ret r1, q\<lparr>get_index := get_index q + 1, waiting_lwm := False\<rparr>, k1)" "kinv 0 k1"
    "rt_current_thread k1 \<noteq> None" "dq_inv (q\<lparr>get_index := get_index q + 1, waiting_lwm := False\<rparr>)"
    "dq_items (q\<lparr>get_index := get_index q + 1, waiting_lwm := False\<rparr>) = tl (dq_items q)"
    "q_list k1 (Wait i) = []" "q_list k1 (SenderWait i) = [b]" "threads k1 = (threads k)(a := (threads k a)\<lparr>stat := RT_THREAD_READY\<rparr>)"
    by auto
  let ?q1 = "q\<lparr>get_index := get_index q + 1, waiting_lwm := False\<rparr>"
  from p1(3) obtain c1 where c1: "rt_current_thread k1 = Some c1" by blast
  have "dq_count ?q1 < unat (dq_size ?q1)" using z dq_slot_mod(2) [OF q(1)] by (simp add: dq_count_def)
  from dq_push_room [OF p1(2) c1 p1(4) this, of i it "Some a" timeout] p1(6,7) obtain e2 q2 k2 where
    p2: "dq_push_loop i it (Some a) timeout ?q1 k1 = Some (Ret (RT_EOK, e2), q2, k2)" "kinv 0 k2" "rt_current_thread k2 \<noteq> None" "dq_inv q2"
    "\<not> waiting_lwm q2" "dq_items q2 = dq_items ?q1 @ [it]" "get_index q2 = put_index q" "put_index q2 = put_index q + 1"
    "q_list k2 (SenderWait i) = [b]" "threads k2 = threads k1" using eq by auto
  have i2: "dq_items q2 = [it]" using p2(6) p1(5) q(2) length_dq_items [of q] by (cases "dq_items q") auto
  from p2(3) obtain c2 where c2: "rt_current_thread k2 = Some c2" by blast
  have "get_index q2 \<noteq> put_index q2" using p2(7,8) by simp
  from dq_pop_some [OF p2(2) c2 p2(4) this, of i self' time'] p2(5) i2 obtain r3 q3 where
    p3: "dq_pop_loop i self' time' q2 k2 = Some (Ret r3, q3, k2)" "dq_items q3 = []" "pop_item r3 = Some it" by auto
  have "rt_data_queue_push_wake i it timeout a ?q1 k1 = Some (Ret (RT_EOK, e2), q2, k2)"
    using p2(1) p1(8) ea by (simp add: rt_data_queue_push_wake_def)
  moreover have "stat (threads k2 b) = RT_THREAD_SUSPEND" using waiting_suspended [OF p2(2) waiting_simps(2), of b i] p2(9) by simp
  ultimately show ?thesis using p1(1) p3 p2(9) by blast
qed

end
