(* ===== verification/Completion.thy ===== *)
theory Completion
  imports Mailbox
begin

text \<open>
  Completions, \<^verbatim>\<open>components/drivers/src/completion.c\<close>: a flag that one thread waits for, on the list
  \<open>Wait i\<close>, and that another thread or an interrupt handler sets.
\<close>

section \<open>The operations\<close>

datatype completion_flag = RT_UNCOMPLETED | RT_COMPLETED

text \<open>\<^verbatim>\<open>rt_list_init\<close> of the waiting list: it must be empty.\<close>

definition rt_completion_init :: "nat \<Rightarrow> kernel \<Rightarrow> (completion_flag \<times> kernel) option" where
  "rt_completion_init i k = do { valid_access (q_list k (Wait i) = []); Some (RT_UNCOMPLETED, k) }"

definition rt_completion_wait ::
  "nat \<Rightarrow> rt_int32_t \<Rightarrow> completion_flag \<Rightarrow> kernel \<Rightarrow> ((rt_err_t, tid) outcome \<times> completion_flag \<times> kernel) option" where
  "rt_completion_wait i timeout flag k =
     (if flag \<noteq> RT_COMPLETED then
        do { rt_assert (fam_isempty (Wait i) (queues k));
             if timeout = 0 then Some (Ret (- RT_ETIMEOUT), flag, k)
             else do { thread \<leftarrow> rt_thread_self k;
                       let k = upd_thread thread (\<lambda>th. th\<lparr>error := RT_EOK\<rparr>) k;
                       (_, k) \<leftarrow> rt_thread_suspend thread k;
                       Q \<leftarrow> fam_insert_before (Wait i) thread (queues k);
                       let k = k\<lparr>queues := Q\<rparr>;
                       not_in_interrupt k;
                       k \<leftarrow> timer_schedule timeout thread k;
                       Some (Blocked thread, flag, k) } }
      else Some (Ret RT_EOK, RT_UNCOMPLETED, k))"

text \<open>What a thread that was woken does: it takes its error number and clears the flag.\<close>

definition rt_completion_wait_wake :: "tid \<Rightarrow> completion_flag \<Rightarrow> kernel \<Rightarrow> rt_err_t \<times> completion_flag \<times> kernel" where
  "rt_completion_wait_wake thread flag k = (error (threads k thread), RT_UNCOMPLETED, k)"

definition rt_completion_done :: "nat \<Rightarrow> completion_flag \<Rightarrow> kernel \<Rightarrow> (completion_flag \<times> kernel) option" where
  "rt_completion_done i flag k =
     (if flag = RT_COMPLETED then Some (flag, k)
      else if \<not> fam_isempty (Wait i) (queues k) then
        do { k \<leftarrow> rt_ipc_list_resume (Wait i) k;
             k \<leftarrow> rt_schedule k;
             Some (RT_COMPLETED, k) }
      else Some (RT_COMPLETED, k))"

section \<open>One waiter at most\<close>

definition comp_inv :: "nat \<Rightarrow> completion_flag \<Rightarrow> kernel \<Rightarrow> bool" where
  "comp_inv i flag k \<longleftrightarrow> length (q_list k (Wait i)) \<le> 1 \<and> (flag = RT_COMPLETED \<longrightarrow> q_list k (Wait i) = [])"

text \<open>On an empty list, a waiting call of a running thread.\<close>

lemma completion_block:
  assumes run: "running k t" and tm: "time_ok time" and n: "rt_interrupt_nest k = 0" and t0: "time \<noteq> 0" and e: "q_list k (Wait i) = []"
  shows "\<exists>k'. rt_completion_wait i time RT_UNCOMPLETED k = Some (Blocked t, RT_UNCOMPLETED, k') \<and> kinv 0 k' \<and>
     threads k' = (threads k)(t := (threads k t)\<lparr>error := RT_EOK, stat := RT_THREAD_SUSPEND\<rparr>) \<and> q_list k' (Wait i) = [t] \<and>
     (ThreadTimer t \<in> set (rt_timer_list k') \<longleftrightarrow> 0 < sint time) \<and> rt_current_thread k' \<noteq> None"
proof -
  let ?k1 = "upd_thread t (\<lambda>th. th\<lparr>error := RT_EOK\<rparr>) k"
  from block_spec [OF run waiting_simps(1) _ tm, of RT_IPC_FLAG_FIFO i] obtain k' where
    w: "ipc_wait (Wait i) RT_IPC_FLAG_FIFO time t ?k1 = Some k'" and k': "kinv 0 k'"
    "threads k' = (threads k)(t := (threads k t)\<lparr>error := RT_EOK, stat := RT_THREAD_SUSPEND\<rparr>)"
    "q_list k' (Wait i) = [t]" "ThreadTimer t \<in> set (rt_timer_list k') \<longleftrightarrow> 0 < sint time" "rt_current_thread k' \<noteq> None"
    using e by (auto simp: wait_insert_def)
  from w obtain k2 where k2: "rt_ipc_list_suspend (Wait i) t RT_IPC_FLAG_FIFO ?k1 = Some k2" "timer_schedule time t k2 = Some k'"
    by (auto simp: ipc_wait_def Option.bind_eq_Some_conv)
  then obtain r k3 Q where s: "rt_thread_suspend t ?k1 = Some (r, k3)" "fam_insert_before (Wait i) t (queues k3) = Some Q" "k2 = k3\<lparr>queues := Q\<rparr>"
    by (auto simp: rt_ipc_list_suspend_def Option.bind_eq_Some_conv)
  have "kinv 0 ?k1" "stat (threads ?k1 t) = RT_THREAD_READY" using kinv_upd_error [OF runningD(1) [OF run]] runningD(3) [OF run] by simp_all
  from rt_ipc_list_suspend_spec [OF this waiting_simps(1), of RT_IPC_FLAG_FIFO i] k2(1) n have "rt_interrupt_nest k2 = 0"
    by (auto simp: same_ctx_def)
  then have "rt_completion_wait i time RT_UNCOMPLETED k = Some (Blocked t, RT_UNCOMPLETED, k')"
    using s k2(2) e t0 running_ctx [OF run n]
    by (simp add: rt_completion_wait_def fam_isempty_def not_in_interrupt_def rt_interrupt_get_nest_def Let_def)
  with k' show ?thesis by blast
qed

text \<open>
  C24: \<^verbatim>\<open>rt_completion_wait\<close> in every branch, for the one thread that may wait: a completion that is done is
  used up at once; otherwise the caller gets \<^verbatim>\<open>-RT_ETIMEOUT\<close> without a waiting time, and waits with one, until
  \<^verbatim>\<open>rt_completion_done\<close> makes it ready and its call returns \<^verbatim>\<open>RT_EOK\<close> with the flag cleared.
\<close>

theorem rt_completion_correct:
  assumes run: "running k t" and ci: "comp_inv i flag k" and w: "q_list k (Wait i) = []" and tm: "time_ok time" and n: "rt_interrupt_nest k = 0"
  shows "\<exists>out flag' k'. rt_completion_wait i time flag k = Some (out, flag', k') \<and> kinv 0 k' \<and> comp_inv i flag' k' \<and>
     (if flag = RT_COMPLETED then out = Ret RT_EOK \<and> flag' = RT_UNCOMPLETED \<and> k' = k
      else if time = 0 then out = Ret (- RT_ETIMEOUT) \<and> flag' = flag \<and> k' = k
      else out = Blocked t \<and> flag' = RT_UNCOMPLETED \<and> stat (threads k' t) = RT_THREAD_SUSPEND \<and>
        (\<exists>flag'' k''. rt_completion_done i flag' k' = Some (flag'', k'') \<and> kinv 0 k'' \<and> comp_inv i flag'' k'' \<and>
           stat (threads k'' t) = RT_THREAD_READY \<and> rt_completion_wait_wake t flag'' k'' = (RT_EOK, RT_UNCOMPLETED, k'')))"
proof (cases "flag = RT_COMPLETED \<or> time = 0")
  case True
  with w ci runningD(1) [OF run] show ?thesis by (auto simp: rt_completion_wait_def comp_inv_def fam_isempty_def)
next
  case False
  then have f: "flag = RT_UNCOMPLETED" "time \<noteq> 0" using completion_flag.exhaust by auto
  from completion_block [OF run tm n f(2) w] obtain k' where k': "rt_completion_wait i time RT_UNCOMPLETED k = Some (Blocked t, RT_UNCOMPLETED, k')"
    "kinv 0 k'" "threads k' = (threads k)(t := (threads k t)\<lparr>error := RT_EOK, stat := RT_THREAD_SUSPEND\<rparr>)" "q_list k' (Wait i) = [t]"
    "rt_current_thread k' \<noteq> None" by blast
  then obtain c where c: "rt_current_thread k' = Some c" by blast
  from wake_schedule_spec [OF k'(2) waiting_simps(1) k'(4) c] obtain k1 k'' where
    k1: "rt_ipc_list_resume (Wait i) k' = Some k1" "rt_schedule k1 = Some k''" "kinv 0 k''"
    "threads k'' = (threads k')(t := (threads k' t)\<lparr>stat := RT_THREAD_READY\<rparr>)" "q_list k'' (Wait i) = []" by blast
  have "rt_completion_done i RT_UNCOMPLETED k' = Some (RT_COMPLETED, k'')"
    using k1(1,2) k'(4) by (simp add: rt_completion_done_def fam_isempty_def)
  then show ?thesis using k' k1 f by (auto simp: comp_inv_def rt_completion_wait_wake_def)
qed

theorem rt_completion_correct_witness:
  "\<exists>k' flag'' k''. rt_completion_wait 7 RT_WAITING_FOREVER RT_UNCOMPLETED boot_kernel = Some (Blocked 2, RT_UNCOMPLETED, k') \<and>
     rt_completion_done 7 RT_UNCOMPLETED k' = Some (flag'', k'') \<and> rt_completion_wait_wake 2 flag'' k'' = (RT_EOK, RT_UNCOMPLETED, k'')"
proof -
  have "comp_inv 7 RT_UNCOMPLETED boot_kernel" "q_list boot_kernel (Wait 7) = []" "time_ok RT_WAITING_FOREVER"
    by (simp_all add: comp_inv_def boot_no_waiters time_ok_def)
  from rt_completion_correct [OF boot_running this boot_kernel(11)] show ?thesis by force
qed

text \<open>
  A completion is remembered: done before the wait, with nobody waiting, it makes the next wait return
  at once, and being done twice is being done once.
\<close>

theorem rt_completion_done_remembered:
  assumes "q_list k (Wait i) = []"
  shows "rt_completion_done i flag k = Some (RT_COMPLETED, k) \<and>
     rt_completion_done i RT_COMPLETED k = Some (RT_COMPLETED, k) \<and>
     rt_completion_wait i time RT_COMPLETED k = Some (Ret RT_EOK, RT_UNCOMPLETED, k)"
  using assms by (cases flag) (simp_all add: rt_completion_done_def rt_completion_wait_def fam_isempty_def)

text \<open>
  A waiter whose time is up is ready with the error \<^verbatim>\<open>-RT_ETIMEOUT\<close>, but runs only later.  When the
  completion is done before it runs, the waiter clears the flag all the same and returns the error: the
  completion is lost, and the next wait has nothing to return at once with.
\<close>

theorem rt_completion_timeout_loses:
  assumes inv: "kinv 0 k" and c: "rt_current_thread k = Some c" and w: "q_list k (Wait i) = [t]" and off: "ThreadTimer t \<notin> set (rt_timer_list k)"
  shows "\<exists>k'. rt_thread_timeout t k = Some k' \<and> kinv 0 k' \<and>
     rt_completion_done i RT_UNCOMPLETED k' = Some (RT_COMPLETED, k') \<and>
     rt_completion_wait_wake t RT_COMPLETED k' = (- RT_ETIMEOUT, RT_UNCOMPLETED, k') \<and>
     rt_completion_wait i 0 RT_UNCOMPLETED k' = Some (Ret (- RT_ETIMEOUT), RT_UNCOMPLETED, k')"
proof -
  have s: "stat (threads k t) = RT_THREAD_SUSPEND" using waiting_suspended [OF inv waiting_simps(1), of t i] w by simp
  from rt_thread_timeout_spec [OF inv s off c] obtain k' where k': "rt_thread_timeout t k = Some k'" "kinv 0 k'"
    "threads k' = (threads k)(t := (threads k t)\<lparr>error := - RT_ETIMEOUT, stat := RT_THREAD_READY\<rparr>)"
    "\<forall>q. q_list k' q = (if q = Ready (prio k t) then q_list k q @ [t] else remove1 t (q_list k q))" by blast
  have "q_list k' (Wait i) = []" using k'(4) w by simp
  with k' show ?thesis
    by (simp add: rt_completion_done_def rt_completion_wait_wake_def rt_completion_wait_def fam_isempty_def)
qed

theorem rt_completion_timeout_loses_witness:
  "\<exists>k k'. rt_completion_wait 7 RT_WAITING_FOREVER RT_UNCOMPLETED boot_kernel = Some (Blocked 2, RT_UNCOMPLETED, k) \<and>
     rt_thread_timeout 2 k = Some k' \<and> rt_completion_done 7 RT_UNCOMPLETED k' = Some (RT_COMPLETED, k') \<and>
     rt_completion_wait_wake 2 RT_COMPLETED k' = (- RT_ETIMEOUT, RT_UNCOMPLETED, k')"
proof -
  have tm: "time_ok RT_WAITING_FOREVER" "RT_WAITING_FOREVER \<noteq> (0 :: rt_int32_t)" "\<not> 0 < sint (RT_WAITING_FOREVER :: rt_int32_t)"
    by (simp_all add: time_ok_def)
  have "q_list boot_kernel (Wait 7) = []" by (simp add: boot_no_waiters)
  from completion_block [OF boot_running tm(1) boot_kernel(11) tm(2) this] tm(3) obtain k c where
    k: "rt_completion_wait 7 RT_WAITING_FOREVER RT_UNCOMPLETED boot_kernel = Some (Blocked 2, RT_UNCOMPLETED, k)" "kinv 0 k"
      "q_list k (Wait 7) = [2]" "ThreadTimer 2 \<notin> set (rt_timer_list k)" "rt_current_thread k = Some c" by auto
  from rt_completion_timeout_loses [OF k(2,5,3,4)] k(1) show ?thesis by blast
qed

end
