(* ===== verification/FinshVM.thy ===== *)
theory FinshVM
  imports Bytes
begin

text \<open>
  The virtual machine of the finsh shell, \<^verbatim>\<open>components/finsh/finsh_vm.c\<close> and \<^verbatim>\<open>finsh_ops.c\<close>: a stack of 64
  four-byte cells, a text segment of 128 bytes and the memory the byte code reads and writes.  A cell is
  the union \<^verbatim>\<open>finsh_value\<close>: an operation on bytes or words changes the low bytes of a cell only.  Characters
  are unsigned, as on the ARM boards; additions and multiplications wrap.
\<close>

unbundle bit_operations_syntax

abbreviation (input) FINSH_STACK_MAX :: nat where "FINSH_STACK_MAX \<equiv> 64"
abbreviation (input) FINSH_TEXT_MAX :: nat where "FINSH_TEXT_MAX \<equiv> 128"

section \<open>Cells\<close>

datatype width = BYTE | WORD | DWORD

text \<open>The members \<^verbatim>\<open>char_value\<close>, \<^verbatim>\<open>short_value\<close> and \<^verbatim>\<open>long_value\<close> of a cell, as the C program reads them.\<close>

fun cell_int :: "width \<Rightarrow> u32 \<Rightarrow> int" where
  "cell_int BYTE v = uint (ucast v :: u8)"
| "cell_int WORD v = sint (ucast v :: u16)"
| "cell_int DWORD v = sint v"

fun cell_put :: "width \<Rightarrow> int \<Rightarrow> u32 \<Rightarrow> u32" where
  "cell_put BYTE x v = (v AND NOT 0xff) OR ucast (word_of_int x :: u8)"
| "cell_put WORD x v = (v AND NOT 0xffff) OR ucast (word_of_int x :: u16)"
| "cell_put DWORD x v = word_of_int x"

text \<open>A \<^verbatim>\<open>char\<close>, \<^verbatim>\<open>short\<close> or \<^verbatim>\<open>long\<close> in memory.\<close>

fun mem_int :: "width \<Rightarrow> bytes \<Rightarrow> u32 \<Rightarrow> int" where
  "mem_int BYTE m a = uint (m (unat a))"
| "mem_int WORD m a = sint (get16 m (unat a))"
| "mem_int DWORD m a = sint (get32 m (unat a))"

fun mem_put :: "width \<Rightarrow> u32 \<Rightarrow> int \<Rightarrow> bytes \<Rightarrow> bytes" where
  "mem_put BYTE a x m = m(unat a := word_of_int x)"
| "mem_put WORD a x m = put16 (unat a) (word_of_int x) m"
| "mem_put DWORD a x m = put32 (unat a) (word_of_int x) m"

section \<open>Operations\<close>

datatype binop = Add | Sub | Div | Mod | Mul | And | Or | Xor | Shl | Shr

text \<open>C's operators on the operands promoted to \<^verbatim>\<open>int\<close>.  A division by zero, the overflow of a division and
  a shift by less than 0 or more than 31 places are undefined.\<close>

definition c_div :: "int \<Rightarrow> int \<Rightarrow> int" where
  "c_div a b = sgn a * sgn b * (\<bar>a\<bar> div \<bar>b\<bar>)"

definition c_mod :: "int \<Rightarrow> int \<Rightarrow> int" where
  "c_mod a b = a - c_div a b * b"

fun c_op :: "binop \<Rightarrow> int \<Rightarrow> int \<Rightarrow> int option" where
  "c_op Add a b = Some (a + b)"
| "c_op Sub a b = Some (a - b)"
| "c_op Mul a b = Some (a * b)"
| "c_op Div a b = (if b = 0 \<or> a = - (2 ^ 31) \<and> b = - 1 then None else Some (c_div a b))"
| "c_op Mod a b = (if b = 0 \<or> a = - (2 ^ 31) \<and> b = - 1 then None else Some (c_mod a b))"
| "c_op And a b = Some (a AND b)"
| "c_op Or a b = Some (a OR b)"
| "c_op Xor a b = Some (a XOR b)"
| "c_op Shl a b = (if 0 \<le> b \<and> b < 32 then Some (push_bit (nat b) a) else None)"
| "c_op Shr a b = (if 0 \<le> b \<and> b < 32 then Some (drop_bit (nat b) a) else None)"

datatype finsh_op =
    OP_no_op
  | OP_bin binop width
  | OP_bw width
  | OP_ld width
  | OP_ld_value width
  | OP_st width
  | OP_pop
  | OP_call
  | OP_ld_value_stack width

record finsh_vm =
  vm_stack :: "u32 list"
  finsh_sp :: nat
  text_segment :: "u8 list"
  finsh_pc :: nat
  vm_mem :: bytes

text \<open>The system functions: called at an address with the arguments, they give a result and may change the memory.\<close>

type_synonym syscalls = "u32 \<Rightarrow> u32 list \<Rightarrow> bytes \<Rightarrow> (u32 \<times> bytes) option"

text \<open>The cell \<open>n\<close> below the stack pointer, and the bytes at the program counter.\<close>

definition cell :: "nat \<Rightarrow> finsh_vm \<Rightarrow> u32 option" where
  "cell n vm = do { valid_access (n \<le> finsh_sp vm \<and> finsh_sp vm - n < length (vm_stack vm)); Some (vm_stack vm ! (finsh_sp vm - n)) }"

definition set_cell :: "nat \<Rightarrow> u32 \<Rightarrow> finsh_vm \<Rightarrow> finsh_vm option" where
  "set_cell n v vm =
     do { valid_access (n \<le> finsh_sp vm \<and> finsh_sp vm - n < length (vm_stack vm));
          Some (vm\<lparr>vm_stack := (vm_stack vm)[finsh_sp vm - n := v]\<rparr>) }"

definition move_sp :: "int \<Rightarrow> finsh_vm \<Rightarrow> finsh_vm option" where
  "move_sp d vm =
     do { valid_access (0 \<le> int (finsh_sp vm) + d \<and> int (finsh_sp vm) + d \<le> int (length (vm_stack vm)));
          Some (vm\<lparr>finsh_sp := nat (int (finsh_sp vm) + d)\<rparr>) }"

definition text_at :: "nat \<Rightarrow> finsh_vm \<Rightarrow> u8 option" where
  "text_at i vm = do { valid_access (finsh_pc vm + i < length (text_segment vm)); Some (text_segment vm ! (finsh_pc vm + i)) }"

definition FINSH_GET16 :: "finsh_vm \<Rightarrow> u16 option" where
  "FINSH_GET16 vm = do { a \<leftarrow> text_at 0 vm; b \<leftarrow> text_at 1 vm; Some (ucast a OR push_bit 8 (ucast b)) }"

definition FINSH_GET32 :: "finsh_vm \<Rightarrow> u32 option" where
  "FINSH_GET32 vm =
     do { a \<leftarrow> text_at 0 vm; b \<leftarrow> text_at 1 vm; c \<leftarrow> text_at 2 vm; d \<leftarrow> text_at 3 vm;
          Some (ucast a OR push_bit 8 (ucast b) OR push_bit 16 (ucast c) OR push_bit 24 (ucast d)) }"

text \<open>The macros \<^verbatim>\<open>OP_BIN_BYTE\<close>, \<^verbatim>\<open>OP_BIN_WORD\<close> and \<^verbatim>\<open>OP_BIN_DWORD\<close>.\<close>

definition OP_BIN :: "binop \<Rightarrow> width \<Rightarrow> finsh_vm \<Rightarrow> finsh_vm option" where
  "OP_BIN f w vm =
     do { a \<leftarrow> cell 2 vm;
          b \<leftarrow> cell 1 vm;
          x \<leftarrow> c_op f (cell_int w a) (cell_int w b);
          vm \<leftarrow> set_cell 2 (cell_put w x a) vm;
          move_sp (- 1) vm }"

definition do_bw :: "width \<Rightarrow> finsh_vm \<Rightarrow> finsh_vm option" where
  "do_bw w vm = do { a \<leftarrow> cell 1 vm; set_cell 1 (cell_put w (NOT (cell_int w a)) a) vm }"

text \<open>Storing at the stack pointer and moving it up.\<close>

definition push :: "width \<Rightarrow> int \<Rightarrow> finsh_vm \<Rightarrow> finsh_vm option" where
  "push w x vm = do { a \<leftarrow> cell 0 vm; vm \<leftarrow> set_cell 0 (cell_put w x a) vm; move_sp 1 vm }"

fun do_ld :: "width \<Rightarrow> finsh_vm \<Rightarrow> finsh_vm option" where
  "do_ld BYTE vm = do { b \<leftarrow> text_at 0 vm; vm \<leftarrow> push BYTE (uint b) vm; Some (vm\<lparr>finsh_pc := finsh_pc vm + 1\<rparr>) }"
| "do_ld WORD vm = do { s \<leftarrow> FINSH_GET16 vm; vm \<leftarrow> push WORD (sint s) vm; Some (vm\<lparr>finsh_pc := finsh_pc vm + 2\<rparr>) }"
| "do_ld DWORD vm = do { l \<leftarrow> FINSH_GET32 vm; vm \<leftarrow> push DWORD (sint l) vm; Some (vm\<lparr>finsh_pc := finsh_pc vm + 4\<rparr>) }"

definition do_ld_value :: "width \<Rightarrow> finsh_vm \<Rightarrow> finsh_vm option" where
  "do_ld_value w vm =
     do { p \<leftarrow> FINSH_GET32 vm;
          vm \<leftarrow> push w (mem_int w (vm_mem vm) p) vm;
          Some (vm\<lparr>finsh_pc := finsh_pc vm + 4\<rparr>) }"

definition do_ld_value_stack :: "width \<Rightarrow> finsh_vm \<Rightarrow> finsh_vm option" where
  "do_ld_value_stack w vm = do { a \<leftarrow> cell 1 vm; set_cell 1 (cell_put w (mem_int w (vm_mem vm) a) a) vm }"

definition do_st :: "width \<Rightarrow> finsh_vm \<Rightarrow> finsh_vm option" where
  "do_st w vm =
     do { p \<leftarrow> cell 2 vm;
          v \<leftarrow> cell 1 vm;
          move_sp (- 1) (vm\<lparr>vm_mem := mem_put w p (cell_int w v) (vm_mem vm)\<rparr>) }"

text \<open>
  The array of the arguments has 16 places; a call with more writes past its end.  The function is called
  with as many arguments as there are, and with a 0 when there are none.
\<close>

definition do_call :: "syscalls \<Rightarrow> finsh_vm \<Rightarrow> finsh_vm option" where
  "do_call sys vm =
     do { p \<leftarrow> text_at 0 vm;
          let vm = vm\<lparr>finsh_pc := finsh_pc vm + 1\<rparr>;
          let parameters = unat p;
          valid_access (parameters \<le> 16);
          vm \<leftarrow> move_sp (- 1 - int parameters) vm;
          valid_access (finsh_sp vm + parameters < length (vm_stack vm));
          f \<leftarrow> cell 0 vm;
          let args = take parameters (drop (finsh_sp vm + 1) (vm_stack vm));
          (r, m) \<leftarrow> sys f (if parameters = 0 then [0] else args) (vm_mem vm);
          push DWORD (sint r) (vm\<lparr>vm_mem := m\<rparr>) }"

fun exec_op :: "syscalls \<Rightarrow> finsh_op \<Rightarrow> finsh_vm \<Rightarrow> finsh_vm option" where
  "exec_op sys OP_no_op vm = Some vm"
| "exec_op sys (OP_bin f w) vm = OP_BIN f w vm"
| "exec_op sys (OP_bw w) vm = do_bw w vm"
| "exec_op sys (OP_ld w) vm = do_ld w vm"
| "exec_op sys (OP_ld_value w) vm = do_ld_value w vm"
| "exec_op sys (OP_st w) vm = do_st w vm"
| "exec_op sys OP_pop vm = move_sp (- 1) vm"
| "exec_op sys OP_call vm = do_call sys vm"
| "exec_op sys (OP_ld_value_stack w) vm = do_ld_value_stack w vm"

text \<open>The table of the operations; the entry after the last is \<^verbatim>\<open>NULL\<close>.\<close>

definition op_table :: "finsh_op list" where
  "op_table =
     [OP_no_op,
      OP_bin Add BYTE, OP_bin Add WORD, OP_bin Add DWORD,
      OP_bin Sub BYTE, OP_bin Sub WORD, OP_bin Sub DWORD,
      OP_bin Div BYTE, OP_bin Div WORD, OP_bin Div DWORD,
      OP_bin Mod BYTE, OP_bin Mod WORD, OP_bin Mod DWORD,
      OP_bin Mul BYTE, OP_bin Mul WORD, OP_bin Mul DWORD,
      OP_bin And BYTE, OP_bin And WORD, OP_bin And DWORD,
      OP_bin Or BYTE, OP_bin Or WORD, OP_bin Or DWORD,
      OP_bin Xor BYTE, OP_bin Xor WORD, OP_bin Xor DWORD,
      OP_bw BYTE, OP_bw WORD, OP_bw DWORD,
      OP_bin Shl BYTE, OP_bin Shl WORD, OP_bin Shl DWORD,
      OP_bin Shr BYTE, OP_bin Shr WORD, OP_bin Shr DWORD,
      OP_ld BYTE, OP_ld WORD, OP_ld DWORD,
      OP_ld_value BYTE, OP_ld_value WORD, OP_ld_value DWORD,
      OP_st BYTE, OP_st WORD, OP_st DWORD,
      OP_pop,
      OP_call,
      OP_ld_value_stack BYTE, OP_ld_value_stack WORD, OP_ld_value_stack DWORD]"

text \<open>The numbers \<^verbatim>\<open>FINSH_OP_*\<close> of \<^verbatim>\<open>finsh_ops.h\<close>.\<close>

fun width_index :: "width \<Rightarrow> u8" where
  "width_index BYTE = 0" | "width_index WORD = 1" | "width_index DWORD = 2"

fun bin_code :: "binop \<Rightarrow> u8" where
  "bin_code Add = 0x01" | "bin_code Sub = 0x04" | "bin_code Div = 0x07" | "bin_code Mod = 0x0A" | "bin_code Mul = 0x0D"
| "bin_code And = 0x10" | "bin_code Or = 0x13" | "bin_code Xor = 0x16" | "bin_code Shl = 0x1C" | "bin_code Shr = 0x1F"

fun op_code :: "finsh_op \<Rightarrow> u8" where
  "op_code OP_no_op = 0x00"
| "op_code (OP_bin f w) = bin_code f + width_index w"
| "op_code (OP_bw w) = 0x19 + width_index w"
| "op_code (OP_ld w) = 0x22 + width_index w"
| "op_code (OP_ld_value w) = 0x25 + width_index w"
| "op_code (OP_st w) = 0x28 + width_index w"
| "op_code OP_pop = 0x2B"
| "op_code OP_call = 0x2C"
| "op_code (OP_ld_value_stack w) = 0x2D + width_index w"

text \<open>One turn of the loop of \<^verbatim>\<open>finsh_vm_run\<close>: the operation at the program counter.\<close>

definition vm_step :: "syscalls \<Rightarrow> finsh_vm \<Rightarrow> finsh_vm option" where
  "vm_step sys vm =
     do { b \<leftarrow> text_at 0 vm;
          valid_access (unat b < length op_table);
          exec_op sys (op_table ! unat b) (vm\<lparr>finsh_pc := finsh_pc vm + 1\<rparr>) }"

section \<open>The machine goes forward\<close>

lemma cell_simps [simp]:
  "set_cell n v vm = Some vm' \<Longrightarrow> finsh_pc vm' = finsh_pc vm"
  "move_sp d vm = Some vm' \<Longrightarrow> finsh_pc vm' = finsh_pc vm"
  by (auto simp: set_cell_def move_sp_def)

lemma push_pc: "push w x vm = Some vm' \<Longrightarrow> finsh_pc vm' = finsh_pc vm"
  by (auto simp: push_def Option.bind_eq_Some_conv)

lemma exec_op_pc: "exec_op sys op vm = Some vm' \<Longrightarrow> finsh_pc vm \<le> finsh_pc vm'"
proof (cases op)
  case (OP_ld w)
  then show "exec_op sys op vm = Some vm' \<Longrightarrow> finsh_pc vm \<le> finsh_pc vm'"
    by (cases w) (auto simp: Option.bind_eq_Some_conv dest!: push_pc)
qed (auto simp: OP_BIN_def do_bw_def do_ld_value_def do_st_def do_call_def do_ld_value_stack_def Option.bind_eq_Some_conv Let_def
       dest!: push_pc)

lemma vm_step_pc: "vm_step sys vm = Some vm' \<Longrightarrow> finsh_pc vm < finsh_pc vm'"
  by (force simp: vm_step_def Option.bind_eq_Some_conv dest: exec_op_pc)

text \<open>There are no jumps: every turn moves the program counter, which is what ends the loop.\<close>

function vm_loop :: "syscalls \<Rightarrow> finsh_vm \<Rightarrow> finsh_vm option" where
  "vm_loop sys vm =
     (if finsh_pc vm < FINSH_TEXT_MAX
      then (case vm_step sys vm of None \<Rightarrow> None | Some vm' \<Rightarrow> vm_loop sys vm')
      else Some vm)"
  by pat_completeness auto

termination vm_loop
  by (relation "measure (\<lambda>(sys, vm). FINSH_TEXT_MAX - finsh_pc vm)") (auto dest: vm_step_pc)

declare vm_loop.simps [simp del]

definition finsh_vm_run :: "syscalls \<Rightarrow> finsh_vm \<Rightarrow> finsh_vm option" where
  "finsh_vm_run sys vm = vm_loop sys (vm\<lparr>finsh_sp := 0, finsh_pc := 0\<rparr>)"

definition finsh_stack_bottom :: "finsh_vm \<Rightarrow> u32" where
  "finsh_stack_bottom vm = vm_stack vm ! 0"

end
