(* ===== verification/FinshCompiler.thy ===== *)
theory FinshCompiler
  imports FinshVM
begin

text \<open>
  The abstract syntax tree of the finsh shell, \<^verbatim>\<open>components/finsh/finsh_node.h\<close>, with the type check and the
  code generator of \<^verbatim>\<open>finsh_compiler.c\<close>.  A node points to its first child and its next sibling;
  the nodes a parser builds are a tree, so they are a datatype here.
\<close>

unbundle bit_operations_syntax

section \<open>Nodes\<close>

datatype finsh_node_type =
    FINSH_NODE_UNKNOWN \<comment> \<open>a free entry of the node table\<close>
  | FINSH_NODE_ID
  | FINSH_NODE_VALUE_CHAR
  | FINSH_NODE_VALUE_INT
  | FINSH_NODE_VALUE_LONG
  | FINSH_NODE_VALUE_STRING
  | FINSH_NODE_VALUE_NULL
  | FINSH_NODE_SYS_BIN binop \<comment> \<open>\<^verbatim>\<open>FINSH_NODE_SYS_ADD\<close> to \<^verbatim>\<open>FINSH_NODE_SYS_SHR\<close> but \<^verbatim>\<open>BITWISE\<close>\<close>
  | FINSH_NODE_SYS_BITWISE
  | FINSH_NODE_SYS_FUNC
  | FINSH_NODE_SYS_ASSIGN
  | FINSH_NODE_SYS_CAST
  | FINSH_NODE_SYS_PREINC
  | FINSH_NODE_SYS_PREDEC
  | FINSH_NODE_SYS_INC
  | FINSH_NODE_SYS_DEC
  | FINSH_NODE_SYS_GETVALUE
  | FINSH_NODE_SYS_GETADDR
  | FINSH_NODE_SYS_NULL

abbreviation (input) FINSH_DATA_TYPE_VOID :: u8 where "FINSH_DATA_TYPE_VOID \<equiv> 0x00"
abbreviation (input) FINSH_DATA_TYPE_BYTE :: u8 where "FINSH_DATA_TYPE_BYTE \<equiv> 0x01"
abbreviation (input) FINSH_DATA_TYPE_WORD :: u8 where "FINSH_DATA_TYPE_WORD \<equiv> 0x02"
abbreviation (input) FINSH_DATA_TYPE_DWORD :: u8 where "FINSH_DATA_TYPE_DWORD \<equiv> 0x03"

abbreviation (input) FINSH_IDTYPE_VAR :: u8 where "FINSH_IDTYPE_VAR \<equiv> 0x01"
abbreviation (input) FINSH_IDTYPE_SYSVAR :: u8 where "FINSH_IDTYPE_SYSVAR \<equiv> 0x02"
abbreviation (input) FINSH_IDTYPE_SYSCALL :: u8 where "FINSH_IDTYPE_SYSCALL \<equiv> 0x04"
abbreviation (input) FINSH_IDTYPE_ADDRESS :: u8 where "FINSH_IDTYPE_ADDRESS \<equiv> 0x08"

datatype finsh_type =
    finsh_type_unknown | finsh_type_void | finsh_type_voidp | finsh_type_char | finsh_type_uchar | finsh_type_charp
  | finsh_type_short | finsh_type_ushort | finsh_type_shortp | finsh_type_int | finsh_type_uint | finsh_type_intp
  | finsh_type_long | finsh_type_ulong | finsh_type_longp

text \<open>The union \<^verbatim>\<open>id\<close> of a node is a pointer to a variable, a system variable or a system function: an address.\<close>

datatype finsh_node = Node
  (node_type: finsh_node_type) (data_type: u8) (idtype: u8) (node_value: u32) (id_ptr: u32)
  (child: "finsh_node option") (sibling: "finsh_node option")

fun set_sibling :: "finsh_node option \<Rightarrow> finsh_node \<Rightarrow> finsh_node" where
  "set_sibling s (Node nt dt it v p c _) = Node nt dt it v p c s"

datatype finsh_error =
    FINSH_ERROR_OK
  | FINSH_ERROR_INVALID_TOKEN
  | FINSH_ERROR_EXPECT_TYPE
  | FINSH_ERROR_UNKNOWN_TYPE
  | FINSH_ERROR_VARIABLE_EXIST
  | FINSH_ERROR_EXPECT_OPERATOR
  | FINSH_ERROR_MEMORY_FULL
  | FINSH_ERROR_UNKNOWN_OP
  | FINSH_ERROR_UNKNOWN_NODE
  | FINSH_ERROR_EXPECT_CHAR
  | FINSH_ERROR_UNEXPECT_END
  | FINSH_ERROR_UNKNOWN_TOKEN
  | FINSH_ERROR_NO_FLOAT
  | FINSH_ERROR_UNKNOWN_SYMBOL
  | FINSH_ERROR_NULL_NODE

text \<open>
  What the compiler reads through the pointers: the type of a \<^verbatim>\<open>struct finsh_var\<close>, the type and the address of a
  \<^verbatim>\<open>struct finsh_sysvar\<close>, the function of a \<^verbatim>\<open>struct finsh_syscall\<close>.  The value of a variable is 20 bytes into
  its structure, after 17 bytes of name and the type.
\<close>

record symbols =
  var_type :: "u32 \<Rightarrow> finsh_type"
  sysvar_type :: "u32 \<Rightarrow> finsh_type"
  sysvar_var :: "u32 \<Rightarrow> u32"
  syscall_func :: "u32 \<Rightarrow> u32"

definition var_value :: "u32 \<Rightarrow> u32" where
  "var_value p = p + 20"

section \<open>Type check\<close>

text \<open>The last two \<^verbatim>\<open>switch\<close> statements of \<^verbatim>\<open>finsh_type_check\<close>; \<open>None\<close> is the unknown type.\<close>

fun type_data :: "finsh_type \<Rightarrow> u8 option" where
  "type_data finsh_type_void = Some FINSH_DATA_TYPE_VOID"
| "type_data finsh_type_char = Some FINSH_DATA_TYPE_BYTE"
| "type_data finsh_type_uchar = Some FINSH_DATA_TYPE_BYTE"
| "type_data finsh_type_short = Some FINSH_DATA_TYPE_WORD"
| "type_data finsh_type_ushort = Some FINSH_DATA_TYPE_WORD"
| "type_data finsh_type_unknown = None"
| "type_data _ = Some FINSH_DATA_TYPE_DWORD"

text \<open>\<open>e\<close> is the error number, kept unless the function sets it.\<close>

definition id_data_type :: "symbols \<Rightarrow> u8 \<Rightarrow> u32 \<Rightarrow> u8 \<Rightarrow> finsh_error \<Rightarrow> u8 \<times> finsh_error" where
  "id_data_type S it p dt e =
     (if it AND FINSH_IDTYPE_VAR \<noteq> 0 then
        (if p = 0 then (dt, e) else case type_data (var_type S p) of Some d \<Rightarrow> (d, e) | None \<Rightarrow> (dt, FINSH_ERROR_UNKNOWN_TYPE))
      else if it AND FINSH_IDTYPE_SYSVAR \<noteq> 0 then
        (if p = 0 then (dt, e) else case type_data (sysvar_type S p) of Some d \<Rightarrow> (d, e) | None \<Rightarrow> (dt, FINSH_ERROR_UNKNOWN_TYPE))
      else (dt, e))"

definition leaf_data_type :: "symbols \<Rightarrow> finsh_node_type \<Rightarrow> u8 \<Rightarrow> u32 \<Rightarrow> u8 \<Rightarrow> finsh_error \<Rightarrow> u8 \<times> finsh_error" where
  "leaf_data_type S nt it p dt e =
     (case nt of
        FINSH_NODE_ID \<Rightarrow> id_data_type S it p dt e
      | FINSH_NODE_VALUE_CHAR \<Rightarrow> (FINSH_DATA_TYPE_BYTE, e)
      | FINSH_NODE_VALUE_INT \<Rightarrow> (FINSH_DATA_TYPE_DWORD, e)
      | FINSH_NODE_VALUE_LONG \<Rightarrow> (FINSH_DATA_TYPE_DWORD, e)
      | FINSH_NODE_VALUE_STRING \<Rightarrow> (FINSH_DATA_TYPE_DWORD, e)
      | FINSH_NODE_VALUE_NULL \<Rightarrow> (FINSH_DATA_TYPE_DWORD, e)
      | _ \<Rightarrow> (dt, e))"

definition child_is_addr :: "finsh_node_type \<Rightarrow> u8 \<Rightarrow> u8" where
  "child_is_addr nt is_addr =
     (if nt = FINSH_NODE_SYS_ASSIGN \<or> nt = FINSH_NODE_SYS_PREINC \<or> nt = FINSH_NODE_SYS_PREDEC \<or> nt = FINSH_NODE_SYS_GETADDR
      then FINSH_IDTYPE_ADDRESS
      else if nt = FINSH_NODE_SYS_GETVALUE \<and> is_addr \<noteq> 0 then 0
      else is_addr)"

fun finsh_type_check :: "symbols \<Rightarrow> u8 \<Rightarrow> finsh_node \<Rightarrow> finsh_error \<Rightarrow> finsh_node \<times> finsh_error" where
  "finsh_type_check S is_addr (Node nt dt it v p c s) e =
     (let (c', e) = (case c of None \<Rightarrow> (None, e)
                     | Some n \<Rightarrow> (let (n', e) = finsh_type_check S (child_is_addr nt is_addr) n e in (Some n', e)));
          (s', e) = (case s of None \<Rightarrow> (None, e)
                     | Some n \<Rightarrow> (let (n', e) = finsh_type_check S 0 n e in (Some n', e)));
          it = (if it \<noteq> FINSH_IDTYPE_SYSCALL then it OR is_addr else it)
      in case c' of
           Some n \<Rightarrow> (Node nt (data_type n) it v p c' s', e)
         | None \<Rightarrow> (let (dt, e) = leaf_data_type S nt it p dt e in (Node nt dt it v p c' s', e)))"

section \<open>Code generation\<close>

fun word_bytes :: "u16 \<Rightarrow> u8 list" where
  "word_bytes v = [ucast v, ucast (drop_bit 8 v)]"

fun dword_bytes :: "u32 \<Rightarrow> u8 list" where
  "dword_bytes v = [ucast v, ucast (drop_bit 8 v), ucast (drop_bit 16 v), ucast (drop_bit 24 v)]"

text \<open>The data type an operation is chosen for.\<close>

fun data_width :: "u8 \<Rightarrow> width option" where
  "data_width d = (if d = FINSH_DATA_TYPE_BYTE then Some BYTE else if d = FINSH_DATA_TYPE_WORD then Some WORD
                   else if d = FINSH_DATA_TYPE_DWORD then Some DWORD else None)"

text \<open>The types a value is loaded of; \<^verbatim>\<open>void\<close>, \<^verbatim>\<open>void *\<close> and the unknown type have no code.\<close>

fun load_width :: "finsh_type \<Rightarrow> width option" where
  "load_width finsh_type_char = Some BYTE"
| "load_width finsh_type_uchar = Some BYTE"
| "load_width finsh_type_short = Some WORD"
| "load_width finsh_type_ushort = Some WORD"
| "load_width finsh_type_unknown = None"
| "load_width finsh_type_void = None"
| "load_width finsh_type_voidp = None"
| "load_width _ = Some DWORD"

definition load_code :: "u8 \<Rightarrow> finsh_type \<Rightarrow> u32 \<Rightarrow> u8 list" where
  "load_code it ty a =
     (case load_width ty of
        None \<Rightarrow> []
      | Some w \<Rightarrow> op_code (if it AND FINSH_IDTYPE_ADDRESS \<noteq> 0 then OP_ld DWORD else OP_ld_value w) # dword_bytes a)"

definition id_code :: "symbols \<Rightarrow> u8 \<Rightarrow> u32 \<Rightarrow> u8 list" where
  "id_code S it p =
     (if it AND FINSH_IDTYPE_SYSCALL \<noteq> 0 then op_code (OP_ld DWORD) # dword_bytes (syscall_func S p)
      else if it AND FINSH_IDTYPE_SYSVAR \<noteq> 0 then (if p = 0 then [] else load_code it (sysvar_type S p) (sysvar_var S p))
      else (if p = 0 then [] else load_code it (var_type S p) (var_value p)))"

text \<open>The operation of the data type, and none for a type that has none.\<close>

definition width_code :: "(width \<Rightarrow> finsh_op) \<Rightarrow> u8 \<Rightarrow> u8 list" where
  "width_code f d = (case data_width d of Some w \<Rightarrow> [op_code (f w)] | None \<Rightarrow> [])"

definition assign_code :: "u8 \<Rightarrow> u8 list option" where
  "assign_code d = (case data_width d of Some w \<Rightarrow> Some [op_code (OP_st w), op_code (OP_ld_value_stack w)] | None \<Rightarrow> None)"

text \<open>The constant 1 of a width.\<close>

fun one_code :: "width \<Rightarrow> u8 list" where
  "one_code BYTE = [op_code (OP_ld BYTE), 1]"
| "one_code WORD = op_code (OP_ld WORD) # word_bytes 1"
| "one_code DWORD = op_code (OP_ld DWORD) # dword_bytes 1"

text \<open>\<^verbatim>\<open>++x\<close> and \<^verbatim>\<open>--x\<close>, with the address on the stack: the value is loaded again as four bytes for every width.\<close>

definition pre_code :: "binop \<Rightarrow> u8 \<Rightarrow> u32 \<Rightarrow> u8 list" where
  "pre_code f d a =
     (case data_width d of
        None \<Rightarrow> []
      | Some w \<Rightarrow> op_code (OP_ld_value w) # dword_bytes a @ one_code w @
          [op_code (OP_bin f w), op_code (OP_st w), op_code (OP_ld_value_stack DWORD)])"

definition post_code :: "binop \<Rightarrow> u8 \<Rightarrow> u32 \<Rightarrow> u8 list" where
  "post_code f d a =
     (case data_width d of
        None \<Rightarrow> []
      | Some w \<Rightarrow> op_code (OP_ld DWORD) # dword_bytes a @ op_code (OP_ld_value w) # dword_bytes a @ one_code w @
          [op_code (OP_bin f w), op_code (OP_st w), op_code OP_pop])"

text \<open>\<open>x\<close> is the child, of which the pointer is taken for that of a variable.\<close>

definition inc_code :: "(u8 \<Rightarrow> u32 \<Rightarrow> u8 list) \<Rightarrow> finsh_node option \<Rightarrow> u8 \<Rightarrow> u8 list" where
  "inc_code g c d =
     (case c of
        Some x \<Rightarrow> if node_type x = FINSH_NODE_ID then g d (var_value (id_ptr x)) else []
      | None \<Rightarrow> [])"

fun count_siblings :: "finsh_node \<Rightarrow> nat" where
  "count_siblings (Node nt dt it v p c s) = (case s of None \<Rightarrow> 0 | Some n \<Rightarrow> Suc (count_siblings n))"

text \<open>
  The code of a node after that of its children, and the error it sets.  An assignment looks at its
  child without checking that there is one.
\<close>

definition node_code :: "symbols \<Rightarrow> finsh_node \<Rightarrow> (u8 list \<times> finsh_error option) option" where
  "node_code S n =
     (case node_type n of
        FINSH_NODE_ID \<Rightarrow> Some (id_code S (idtype n) (id_ptr n), None)
      | FINSH_NODE_VALUE_CHAR \<Rightarrow> Some ([op_code (OP_ld BYTE), ucast (node_value n)], None)
      | FINSH_NODE_VALUE_INT \<Rightarrow> Some (op_code (OP_ld DWORD) # dword_bytes (node_value n), None)
      | FINSH_NODE_VALUE_LONG \<Rightarrow> Some (op_code (OP_ld DWORD) # dword_bytes (node_value n), None)
      | FINSH_NODE_VALUE_NULL \<Rightarrow> Some (op_code (OP_ld DWORD) # dword_bytes (node_value n), None)
      | FINSH_NODE_VALUE_STRING \<Rightarrow> Some (op_code (OP_ld DWORD) # dword_bytes (node_value n), None)
      | FINSH_NODE_SYS_BIN f \<Rightarrow> Some (width_code (OP_bin f) (data_type n), None)
      | FINSH_NODE_SYS_BITWISE \<Rightarrow> Some (width_code OP_bw (data_type n), None)
      | FINSH_NODE_SYS_FUNC \<Rightarrow>
          (case child n of
             None \<Rightarrow> Some ([], None)
           | Some f \<Rightarrow> Some ([op_code OP_call, word_of_nat (count_siblings f)], None))
      | FINSH_NODE_SYS_ASSIGN \<Rightarrow>
          (case child n of
             None \<Rightarrow> None
           | Some x \<Rightarrow>
               (if node_type x = FINSH_NODE_ID then
                  (case assign_code (data_type x) of Some b \<Rightarrow> Some (b, None) | None \<Rightarrow> Some ([], Some FINSH_ERROR_UNKNOWN_TYPE))
                else if node_type x = FINSH_NODE_SYS_GETVALUE then
                  (case assign_code (data_type x AND 0x0f) of Some b \<Rightarrow> Some (b, None) | None \<Rightarrow> Some ([], Some FINSH_ERROR_UNKNOWN_TYPE))
                else Some ([], None)))
      | FINSH_NODE_SYS_PREINC \<Rightarrow> Some (inc_code (pre_code Add) (child n) (data_type n), None)
      | FINSH_NODE_SYS_PREDEC \<Rightarrow> Some (inc_code (pre_code Sub) (child n) (data_type n), None)
      | FINSH_NODE_SYS_INC \<Rightarrow> Some (inc_code (post_code Add) (child n) (data_type n), None)
      | FINSH_NODE_SYS_DEC \<Rightarrow> Some (inc_code (post_code Sub) (child n) (data_type n), None)
      | FINSH_NODE_SYS_GETVALUE \<Rightarrow>
          Some (if idtype n AND FINSH_IDTYPE_ADDRESS \<noteq> 0 then [] else width_code OP_ld_value_stack (data_type n), None)
      | FINSH_NODE_SYS_GETADDR \<Rightarrow> Some ([], None)
      | FINSH_NODE_SYS_NULL \<Rightarrow> Some (dword_bytes 0, None)
      | FINSH_NODE_SYS_CAST \<Rightarrow> Some ([], Some FINSH_ERROR_UNKNOWN_NODE)
      | FINSH_NODE_UNKNOWN \<Rightarrow> Some ([], Some FINSH_ERROR_UNKNOWN_NODE))"

text \<open>The text segment with the position of the next byte; it is written without a look at its size.\<close>

record compiler =
  code_text :: "u8 list"
  finsh_compile_pc :: nat
  finsh_errno :: finsh_error

definition finsh_code_byte :: "u8 \<Rightarrow> compiler \<Rightarrow> compiler option" where
  "finsh_code_byte x st =
     do { valid_access (finsh_compile_pc st < length (code_text st));
          Some (st\<lparr>code_text := (code_text st)[finsh_compile_pc st := x], finsh_compile_pc := finsh_compile_pc st + 1\<rparr>) }"

fun emit :: "u8 list \<Rightarrow> compiler \<Rightarrow> compiler option" where
  "emit [] st = Some st"
| "emit (b # bs) st = do { st \<leftarrow> finsh_code_byte b st; emit bs st }"

fun finsh_compile :: "symbols \<Rightarrow> finsh_node \<Rightarrow> compiler \<Rightarrow> compiler option" where
  "finsh_compile S (Node nt dt it v p c s) st =
     do { st \<leftarrow> (case c of None \<Rightarrow> Some st | Some n \<Rightarrow> finsh_compile S n st);
          (bs, e) \<leftarrow> node_code S (Node nt dt it v p c s);
          st \<leftarrow> emit bs st;
          let st = (case e of None \<Rightarrow> st | Some x \<Rightarrow> st\<lparr>finsh_errno := x\<rparr>);
          (case s of None \<Rightarrow> Some st | Some n \<Rightarrow> finsh_compile S n st) }"

text \<open>The statements are the siblings of the root; all but the last are followed by a pop.\<close>

fun compile_statements :: "symbols \<Rightarrow> finsh_node \<Rightarrow> compiler \<Rightarrow> compiler option" where
  "compile_statements S (Node nt dt it v p c s) st =
     do { st \<leftarrow> finsh_compile S (Node nt dt it v p c None) st;
          (case s of
             None \<Rightarrow> Some st
           | Some n \<Rightarrow> do { st \<leftarrow> finsh_code_byte (op_code OP_pop) st; compile_statements S n st }) }"

text \<open>The text segment is cleared, and of the stack the first cell.\<close>

definition finsh_compiler_run ::
  "symbols \<Rightarrow> finsh_node option \<Rightarrow> finsh_error \<Rightarrow> finsh_vm \<Rightarrow> (finsh_vm \<times> finsh_error) option" where
  "finsh_compiler_run S node e vm =
     do { let (node, e) = (case node of None \<Rightarrow> (None, e) | Some n \<Rightarrow> (let (n, e) = finsh_type_check S 0 n e in (Some n, e)));
          valid_access (0 < length (vm_stack vm));
          let st = \<lparr>code_text = replicate FINSH_TEXT_MAX 0, finsh_compile_pc = 0, finsh_errno = e\<rparr>;
          st \<leftarrow> (case node of None \<Rightarrow> Some st | Some n \<Rightarrow> compile_statements S n st);
          Some (vm\<lparr>text_segment := code_text st, vm_stack := (vm_stack vm)[0 := 0]\<rparr>, finsh_errno st) }"

end
