(* ===== verification/FinshToken.thy ===== *)
theory FinshToken
  imports FinshCompiler
begin

text \<open>
  The tokens of a line of the finsh shell, \<^verbatim>\<open>components/finsh/finsh_token.c\<close>.  The line is the list of its characters before
  the terminating zero; the buffer of the last identifier or string has 128 bytes, as in the C structure.
\<close>

unbundle bit_operations_syntax

abbreviation (input) FINSH_STRING_MAX :: nat where "FINSH_STRING_MAX \<equiv> 128"
abbreviation (input) FINSH_NAME_MAX :: nat where "FINSH_NAME_MAX \<equiv> 16"

section \<open>State\<close>

datatype finsh_token_type =
    finsh_token_type_left_paren | finsh_token_type_right_paren | finsh_token_type_comma | finsh_token_type_semicolon
  | finsh_token_type_mul | finsh_token_type_add | finsh_token_type_inc | finsh_token_type_sub | finsh_token_type_dec
  | finsh_token_type_div | finsh_token_type_mod | finsh_token_type_assign | finsh_token_type_and | finsh_token_type_or
  | finsh_token_type_xor | finsh_token_type_bitwise | finsh_token_type_shl | finsh_token_type_shr
  | finsh_token_type_void | finsh_token_type_char | finsh_token_type_short | finsh_token_type_int | finsh_token_type_long
  | finsh_token_type_unsigned
  | finsh_token_type_value_char | finsh_token_type_value_int | finsh_token_type_value_long | finsh_token_type_value_string
  | finsh_token_type_value_null
  | finsh_token_type_identifier | finsh_token_type_bad | finsh_token_type_eof
  | finsh_token_type_none \<comment> \<open>the value 0 before the first token\<close>

record finsh_token =
  tok_eof :: bool
  tok_replay :: bool
  tok_position :: nat
  current_token :: finsh_token_type
  tok_value :: u32
  tok_string :: "u8 list"
  tok_line :: "u8 list"
  global_errno :: finsh_error

text \<open>A character constant.\<close>

abbreviation lit :: "char \<Rightarrow> u8" where "lit c \<equiv> of_char c"

definition finsh_token_init :: "u8 list \<Rightarrow> 'a finsh_token_scheme \<Rightarrow> 'a finsh_token_scheme" where
  "finsh_token_init line self =
     self\<lparr>tok_eof := False, tok_replay := False, tok_position := 0, current_token := finsh_token_type_none, tok_value := 0,
          tok_string := replicate FINSH_STRING_MAX 0, tok_line := line\<rparr>"

definition finsh_error_set :: "finsh_error \<Rightarrow> 'a finsh_token_scheme \<Rightarrow> 'a finsh_token_scheme" where
  "finsh_error_set e self = self\<lparr>global_errno := e\<rparr>"

definition finsh_token_replay :: "'a finsh_token_scheme \<Rightarrow> 'a finsh_token_scheme" where
  "finsh_token_replay self = self\<lparr>tok_replay := True\<rparr>"

definition is_alpha :: "u8 \<Rightarrow> bool" where
  "is_alpha ch \<longleftrightarrow> (ucast (ch OR 0x20) :: u32) - of_char CHR ''a'' < 26"

definition is_digit :: "u8 \<Rightarrow> bool" where
  "is_digit ch \<longleftrightarrow> lit CHR ''0'' \<le> ch \<and> ch \<le> lit CHR ''9''"

definition is_separator :: "u8 \<Rightarrow> bool" where
  "is_separator ch \<longleftrightarrow> \<not> (lit CHR ''a'' \<le> ch \<and> ch \<le> lit CHR ''z'' \<or> lit CHR ''A'' \<le> ch \<and> ch \<le> lit CHR ''Z'' \<or>
     is_digit ch \<or> ch = lit CHR ''_'')"

section \<open>Characters\<close>

text \<open>At the end of the line the position goes back to 0.\<close>

definition token_next_char :: "'a finsh_token_scheme \<Rightarrow> (u8 \<times> 'a finsh_token_scheme) option" where
  "token_next_char self =
     (if tok_eof self then Some (0, self)
      else if tok_position self = length (tok_line self) then Some (0, self\<lparr>tok_eof := True, tok_position := 0\<rparr>)
      else do { valid_access (tok_position self < length (tok_line self));
                let ch = tok_line self ! tok_position self;
                if ch = 10 then Some (0, self\<lparr>tok_eof := True, tok_position := 0\<rparr>)
                else Some (ch, self\<lparr>tok_position := tok_position self + 1\<rparr>) })"

definition token_prev_char :: "'a finsh_token_scheme \<Rightarrow> 'a finsh_token_scheme" where
  "token_prev_char self =
     (if tok_eof self then self
      else if tok_position self = 0 then self
      else self\<lparr>tok_position := tok_position self - 1\<rparr>)"

text \<open>
  The loops that collect characters: from the character \<open>ch\<close> on, as long as \<open>P\<close> holds; the result has the characters, the first
  one after them and the state after reading it.
\<close>

partial_function (option) token_span ::
  "(u8 \<Rightarrow> bool) \<Rightarrow> u8 \<Rightarrow> 'a finsh_token_scheme \<Rightarrow> (u8 list \<times> u8 \<times> 'a finsh_token_scheme) option" where
  "token_span P ch self =
     (if P ch then do { (ch', self) \<leftarrow> token_next_char self; (cs, r) \<leftarrow> token_span P ch' self; Some (ch # cs, r) }
      else Some ([], ch, self))"

definition token_trim_space :: "'a finsh_token_scheme \<Rightarrow> 'a finsh_token_scheme option" where
  "token_trim_space self =
     do { (ch, self) \<leftarrow> token_next_char self;
          (cs, ch, self) \<leftarrow> token_span (\<lambda>ch. ch = lit CHR '' '' \<or> ch = 9 \<or> ch = 13) ch self;
          Some (token_prev_char self) }"

text \<open>The bytes written to the front of a buffer of \<open>n\<close> bytes.\<close>

definition buffer_write :: "nat \<Rightarrow> u8 list \<Rightarrow> u8 list \<Rightarrow> u8 list option" where
  "buffer_write n bs buf = do { valid_access (length bs \<le> n); Some (bs @ drop (length bs) buf) }"

text \<open>The string in a buffer.\<close>

definition c_string :: "u8 list \<Rightarrow> u8 list" where
  "c_string bs = takeWhile (\<lambda>b. b \<noteq> 0) bs"

section \<open>Identifiers\<close>

text \<open>The result, 0 or \<^verbatim>\<open>-1\<close>, is not looked at.  After an identifier the end of the line is taken back.\<close>

definition token_get_string :: "'a finsh_token_scheme \<Rightarrow> 'a finsh_token_scheme option" where
  "token_get_string self =
     do { (ch, self) \<leftarrow> token_next_char self;
          if tok_eof self then Some self
          else do {
            str \<leftarrow> buffer_write FINSH_STRING_MAX [0] (tok_string self);
            let self = self\<lparr>tok_string := str\<rparr>;
            if is_digit ch then Some (token_prev_char self)
            else do {
              (cs, ch, self) \<leftarrow> token_span (\<lambda>ch. \<not> is_separator ch) ch self;
              let self = token_prev_char (self\<lparr>tok_eof := False\<rparr>);
              str \<leftarrow> buffer_write FINSH_STRING_MAX (cs @ [0]) (tok_string self);
              Some (self\<lparr>tok_string := str\<rparr>) } } }"

definition finsh_name_table :: "(u8 list \<times> finsh_token_type) list" where
  "finsh_name_table =
     [(map of_char ''void'', finsh_token_type_void),
      (map of_char ''char'', finsh_token_type_char),
      (map of_char ''short'', finsh_token_type_short),
      (map of_char ''int'', finsh_token_type_int),
      (map of_char ''long'', finsh_token_type_long),
      (map of_char ''unsigned'', finsh_token_type_unsigned),
      (map of_char ''NULL'', finsh_token_type_value_null),
      (map of_char ''null'', finsh_token_type_value_null)]"

definition token_match_name :: "u8 list \<Rightarrow> finsh_token_type option" where
  "token_match_name str = map_of finsh_name_table str"

section \<open>Values\<close>

text \<open>
  The digits of \<^verbatim>\<open>'\113'\<close> are read to a buffer of 4 bytes, from the second one on, and \<^verbatim>\<open>atoi\<close> is called at their end:
  it sees an empty string and gives 0.
\<close>

definition token_proc_char :: "'a finsh_token_scheme \<Rightarrow> (u8 \<times> 'a finsh_token_scheme) option" where
  "token_proc_char self =
     do { (ch, self) \<leftarrow> token_next_char self;
          (ch, self) \<leftarrow>
            (if ch = 92 then
               do { (ch, self) \<leftarrow> token_next_char self;
                    if ch = lit CHR ''n'' then Some (10, self)
                    else if ch = lit CHR ''t'' then Some (9, self)
                    else if ch = lit CHR ''v'' then Some (11, self)
                    else if ch = lit CHR ''b'' then Some (8, self)
                    else if ch = lit CHR ''r'' then Some (13, self)
                    else if ch = 92 then Some (92, self)
                    else if ch = 39 then Some (39, self)
                    else do { (cs, ch, self) \<leftarrow> token_span is_digit ch self;
                              valid_access (length cs < 4);
                              Some (0, token_prev_char self) } }
             else Some (ch, self));
          (q, self) \<leftarrow> token_next_char self;
          if q \<noteq> 39 then Some (ch, finsh_error_set FINSH_ERROR_EXPECT_CHAR (token_prev_char self))
          else Some (ch, self) }"

text \<open>The digits of \<^verbatim>\<open>\x\<close> are the 16 characters from \<^verbatim>\<open>0\<close> on, those of an octal escape the 8 from \<^verbatim>\<open>0\<close> on.\<close>

definition escape_digits :: "u32 \<Rightarrow> u8 list \<Rightarrow> u32" where
  "escape_digits b cs = foldl (\<lambda>r c. r * b + ucast c - of_char CHR ''0'') 0 cs"

definition digit_below :: "u32 \<Rightarrow> u8 \<Rightarrow> bool" where
  "digit_below n ch \<longleftrightarrow> (ucast ch :: u32) - of_char CHR ''0'' < n"

definition token_proc_escape :: "'a finsh_token_scheme \<Rightarrow> (u32 \<times> 'a finsh_token_scheme) option" where
  "token_proc_escape self =
     do { (ch, self) \<leftarrow> token_next_char self;
          if ch = lit CHR ''n'' then Some (10, self)
          else if ch = lit CHR ''t'' then Some (9, self)
          else if ch = lit CHR ''v'' then Some (11, self)
          else if ch = lit CHR ''b'' then Some (8, self)
          else if ch = lit CHR ''r'' then Some (13, self)
          else if ch = lit CHR ''f'' then Some (12, self)
          else if ch = lit CHR ''a'' then Some (7, self)
          else if ch = lit CHR ''x'' then
            do { (ch, self) \<leftarrow> token_next_char self;
                 (cs, ch, self) \<leftarrow> token_span (digit_below 16) ch self;
                 Some (escape_digits 16 cs, token_prev_char self) }
          else if digit_below 8 ch then
            do { (cs, ch, self) \<leftarrow> token_span (digit_below 8) ch self;
                 Some (escape_digits 8 cs, token_prev_char self) }
          else Some (0, self) }"

text \<open>
  The characters of a string go to the buffer one by one, \<open>n\<close> of them so far; without a closing quote the loop
  ends at the end of the line, with an error, or of the buffer.
\<close>

partial_function (option) string_loop :: "nat \<Rightarrow> 'a finsh_token_scheme \<Rightarrow> 'a finsh_token_scheme option" where
  "string_loop n self =
     (if n < FINSH_STRING_MAX then
        do { (ch, self) \<leftarrow> token_next_char self;
             if tok_eof self then Some (finsh_error_set FINSH_ERROR_UNEXPECT_END self)
             else if ch = 92 then
               do { (r, self) \<leftarrow> token_proc_escape self;
                    string_loop (n + 1) (self\<lparr>tok_string := (tok_string self)[n := ucast r]\<rparr>) }
             else if ch = 34 then Some (self\<lparr>tok_string := (tok_string self)[n := 0]\<rparr>)
             else string_loop (n + 1) (self\<lparr>tok_string := (tok_string self)[n := ch]\<rparr>) }
      else Some self)"

definition token_proc_string :: "'a finsh_token_scheme \<Rightarrow> 'a finsh_token_scheme option" where
  "token_proc_string self = string_loop 0 self"

declare token_span.simps [code] string_loop.simps [code]

text \<open>The number in base \<open>2 ^ shift\<close>, in two words of which the low one is the result.\<close>

definition digit_value :: "u8 \<Rightarrow> u32" where
  "digit_value t =
     (if lit CHR ''a'' \<le> t \<and> t \<le> lit CHR ''f'' then ucast t - of_char CHR ''a'' + 10
      else if lit CHR ''A'' \<le> t \<and> t \<le> lit CHR ''F'' then ucast t - of_char CHR ''A'' + 10
      else ucast t - of_char CHR ''0'')"

fun spec_step :: "nat \<Rightarrow> u32 \<times> u32 \<Rightarrow> u8 \<Rightarrow> u32 \<times> u32" where
  "spec_step shift (b0, b1) c = (push_bit shift b0 OR digit_value c, push_bit shift b1 OR drop_bit (32 - shift) b0)"

definition token_spec_number :: "u8 list \<Rightarrow> nat \<Rightarrow> u32" where
  "token_spec_number str b =
     (let shift = (if b = 16 then 4 else if b = 8 then 3 else 1)
      in fst (foldl (spec_step shift) (0, 0) str))"

text \<open>The end of \<^verbatim>\<open>token_proc_number\<close>: the suffix \<^verbatim>\<open>l\<close> or \<^verbatim>\<open>L\<close>.\<close>

definition number_suffix :: "u32 \<Rightarrow> u8 \<Rightarrow> 'a finsh_token_scheme \<Rightarrow> 'a finsh_token_scheme" where
  "number_suffix v ch self =
     (let self = self\<lparr>tok_value := v, current_token := finsh_token_type_value_int\<rparr>
      in if ch = lit CHR ''l'' \<or> ch = lit CHR ''L'' then self\<lparr>current_token := finsh_token_type_value_long\<rparr>
         else token_prev_char self)"

definition token_proc_number :: "'a finsh_token_scheme \<Rightarrow> 'a finsh_token_scheme option" where
  "token_proc_number self =
     do { (ch, self) \<leftarrow> token_next_char self;
          if ch = lit CHR ''0'' then
            do { (ch, self) \<leftarrow> token_next_char self;
                 if ch = lit CHR ''x'' \<or> ch = lit CHR ''X'' then
                   do { (ch, self) \<leftarrow> token_next_char self;
                        (cs, ch, self) \<leftarrow> token_span (\<lambda>ch. is_digit ch \<or> is_alpha ch) ch self;
                        valid_access (length cs < 128);
                        Some (number_suffix (token_spec_number cs 16) ch self) }
                 else if ch = lit CHR ''b'' \<or> ch = lit CHR ''B'' then
                   do { (ch, self) \<leftarrow> token_next_char self;
                        (cs, ch, self) \<leftarrow> token_span (\<lambda>ch. ch = lit CHR ''0'' \<or> ch = lit CHR ''1'') ch self;
                        valid_access (length cs < 128);
                        Some (number_suffix (token_spec_number cs 2) ch self) }
                 else if lit CHR ''0'' \<le> ch \<and> ch \<le> lit CHR ''7'' then
                   do { (cs, ch, self) \<leftarrow> token_span (\<lambda>ch. lit CHR ''0'' \<le> ch \<and> ch \<le> lit CHR ''7'') ch self;
                        valid_access (length cs < 128);
                        Some (number_suffix (token_spec_number cs 8) ch self) }
                 else Some ((token_prev_char self)\<lparr>tok_value := 0, current_token := finsh_token_type_value_int\<rparr>) }
          else
            do { (cs, ch, self) \<leftarrow> token_span is_digit ch self;
                 Some (number_suffix (foldl (\<lambda>v c. v * 10 + (ucast c - of_char CHR ''0'')) 0 cs) ch self) } }"

section \<open>Tokens\<close>

text \<open>An operator of one character that is another one when the character is there twice.\<close>

definition token_twice ::
  "u8 \<Rightarrow> finsh_token_type \<Rightarrow> finsh_token_type \<Rightarrow> 'a finsh_token_scheme \<Rightarrow> 'a finsh_token_scheme option" where
  "token_twice c two one self =
     do { (ch, self) \<leftarrow> token_next_char self;
          if ch = c then Some (self\<lparr>current_token := two\<rparr>)
          else Some ((token_prev_char self)\<lparr>current_token := one\<rparr>) }"

definition single_token :: "u8 \<Rightarrow> finsh_token_type option" where
  "single_token ch =
     map_of [(lit CHR ''('', finsh_token_type_left_paren), (lit CHR '')'', finsh_token_type_right_paren),
             (lit CHR '','', finsh_token_type_comma), (lit CHR '';'', finsh_token_type_semicolon),
             (lit CHR ''&'', finsh_token_type_and), (lit CHR ''*'', finsh_token_type_mul),
             (lit CHR ''|'', finsh_token_type_or), (lit CHR ''%'', finsh_token_type_mod),
             (lit CHR ''~'', finsh_token_type_bitwise), (lit CHR ''^'', finsh_token_type_xor),
             (lit CHR ''='', finsh_token_type_assign)] ch"

definition token_operator :: "u8 \<Rightarrow> 'a finsh_token_scheme \<Rightarrow> 'a finsh_token_scheme option" where
  "token_operator ch self =
     (case single_token ch of
        Some t \<Rightarrow> Some (self\<lparr>current_token := t\<rparr>)
      | None \<Rightarrow>
          if ch = lit CHR ''+'' then token_twice ch finsh_token_type_inc finsh_token_type_add self
          else if ch = lit CHR ''-'' then token_twice ch finsh_token_type_dec finsh_token_type_sub self
          else if ch = lit CHR ''/'' then token_twice ch finsh_token_type_eof finsh_token_type_div self
          else if ch = lit CHR ''<'' then token_twice ch finsh_token_type_shl finsh_token_type_bad self
          else if ch = lit CHR ''>'' then token_twice ch finsh_token_type_shr finsh_token_type_bad self
          else if ch = 39 then
            do { (c, self) \<leftarrow> token_proc_char self;
                 Some (self\<lparr>tok_value := (tok_value self AND NOT 0xff) OR ucast c, current_token := finsh_token_type_value_char\<rparr>) }
          else if ch = 34 then
            do { self \<leftarrow> token_proc_string self; Some (self\<lparr>current_token := finsh_token_type_value_string\<rparr>) }
          else if is_digit ch then token_proc_number (token_prev_char self)
          else Some ((finsh_error_set FINSH_ERROR_UNKNOWN_TOKEN self)\<lparr>current_token := finsh_token_type_bad\<rparr>))"

definition token_run :: "'a finsh_token_scheme \<Rightarrow> 'a finsh_token_scheme option" where
  "token_run self =
     do { self \<leftarrow> token_trim_space self;
          self \<leftarrow> token_get_string self;
          if tok_eof self then Some (self\<lparr>current_token := finsh_token_type_eof\<rparr>)
          else do {
            c \<leftarrow> (if tok_string self = [] then None else Some (hd (tok_string self)));
            if c \<noteq> 0 then
              (case token_match_name (c_string (tok_string self)) of
                 Some t \<Rightarrow> Some (self\<lparr>current_token := t\<rparr>)
               | None \<Rightarrow> Some (self\<lparr>current_token := finsh_token_type_identifier\<rparr>))
            else do { (ch, self) \<leftarrow> token_next_char self; token_operator ch self } } }"

definition finsh_token_token :: "'a finsh_token_scheme \<Rightarrow> (finsh_token_type \<times> 'a finsh_token_scheme) option" where
  "finsh_token_token self =
     do { self \<leftarrow> (if tok_replay self then Some (self\<lparr>tok_replay := False\<rparr>) else token_run self);
          Some (current_token self, self) }"

end
