(* ===== verification/FinshLex.thy ===== *)
theory FinshLex
  imports FinshToken
begin

text \<open>
  What the tokenizer of the finsh shell makes of a line: a relation between tokens and the texts that spell them, with any white
  space between them, and that the tokenizer reads the tokens of such a text one after the other.
\<close>

unbundle bit_operations_syntax

section \<open>Positions\<close>

text \<open>The characters from the position on.\<close>

definition at :: "'a finsh_token_scheme \<Rightarrow> u8 list \<Rightarrow> bool" where
  "at self cs \<longleftrightarrow> \<not> tok_eof self \<and> tok_position self \<le> length (tok_line self) \<and> drop (tok_position self) (tok_line self) = cs"

lemma at_simps [simp]:
  "at (self\<lparr>current_token := ty\<rparr>) cs = at self cs"
  "at (self\<lparr>tok_value := v\<rparr>) cs = at self cs"
  "at (self\<lparr>tok_string := s\<rparr>) cs = at self cs"
  "at (self\<lparr>tok_replay := b\<rparr>) cs = at self cs"
  "at (self\<lparr>global_errno := e\<rparr>) cs = at self cs"
  by (simp_all add: at_def)

lemma upd_swap [simp]: "(self\<lparr>tok_string := s\<rparr>)\<lparr>tok_position := n\<rparr> = self\<lparr>tok_position := n, tok_string := s\<rparr>"
  by simp

lemma at_skip: "at self (xs @ cs) \<Longrightarrow> n = tok_position self + length xs \<Longrightarrow> at (self\<lparr>tok_position := n\<rparr>) cs"
  by (auto simp: at_def) (metis append_eq_conv_conj drop_drop add.commute length_append length_drop le_add_diff_inverse nat_add_left_cancel_le le_add1)+

lemma at_eof [simp]: "at self cs \<Longrightarrow> \<not> tok_eof self"
  by (simp add: at_def)

lemma next_at:
  assumes "at self (c # cs)" and "c \<noteq> 10"
  shows "token_next_char self = Some (c, self\<lparr>tok_position := tok_position self + 1\<rparr>)"
proof -
  have "tok_position self < length (tok_line self)" using assms(1) by (auto simp: at_def intro: ccontr)
  moreover have "tok_line self ! tok_position self = c" using assms(1) \<open>tok_position self < _\<close> by (auto simp: at_def hd_drop_conv_nth [symmetric])
  ultimately show ?thesis using assms by (simp add: token_next_char_def at_def)
qed

lemma next_end: "at self [] \<Longrightarrow> token_next_char self = Some (0, self\<lparr>tok_eof := True, tok_position := 0\<rparr>)"
  by (simp add: token_next_char_def at_def)

lemma prev_at: "\<not> tok_eof self \<Longrightarrow> tok_position self = Suc n \<Longrightarrow> token_prev_char self = self\<lparr>tok_position := n\<rparr>"
  by (simp add: token_prev_char_def)

lemma prev_eof: "tok_eof self \<Longrightarrow> token_prev_char self = self"
  by (simp add: token_prev_char_def)

lemma span_stop: "\<not> P x \<Longrightarrow> token_span P x self = Some ([], x, self)"
  by (subst token_span.simps) simp

lemma span_at:
  "at self (xs @ c # cs) \<Longrightarrow> \<forall>y\<in>set xs. P y \<and> y \<noteq> 10 \<Longrightarrow> P x \<Longrightarrow> \<not> P c \<Longrightarrow> c \<noteq> 10 \<Longrightarrow>
     token_span P x self = Some (x # xs, c, self\<lparr>tok_position := tok_position self + length xs + 1\<rparr>)"
proof (induction xs arbitrary: x self)
  case Nil
  then show ?case by (subst token_span.simps) (simp add: next_at span_stop)
next
  case (Cons y ys)
  have "at (self\<lparr>tok_position := tok_position self + 1\<rparr>) (ys @ c # cs)" using at_skip [of self "[y]"] Cons.prems(1) by simp
  from Cons.IH [OF this, of y] Cons.prems show ?case by (subst token_span.simps) (simp add: next_at)
qed

lemma span_end:
  "at self xs \<Longrightarrow> \<forall>y\<in>set xs. P y \<and> y \<noteq> 10 \<Longrightarrow> P x \<Longrightarrow> \<not> P 0 \<Longrightarrow>
     token_span P x self = Some (x # xs, 0, self\<lparr>tok_eof := True, tok_position := 0\<rparr>)"
proof (induction xs arbitrary: x self)
  case Nil
  then show ?case by (subst token_span.simps) (simp add: next_end span_stop)
next
  case (Cons y ys)
  have "at (self\<lparr>tok_position := tok_position self + 1\<rparr>) ys" using at_skip [of self "[y]"] Cons.prems(1) by simp
  from Cons.IH [OF this, of y] Cons.prems show ?case by (subst token_span.simps) (simp add: next_at)
qed

section \<open>White space\<close>

definition white :: "u8 \<Rightarrow> bool" where
  "white ch \<longleftrightarrow> ch = lit CHR '' '' \<or> ch = 9 \<or> ch = 13"

lemma white_newline: "white w \<Longrightarrow> w \<noteq> 10"
  by (auto simp: white_def)

lemma trim_white:
  "token_trim_space self =
     do { (ch, self) \<leftarrow> token_next_char self; (cs, ch, self) \<leftarrow> token_span white ch self; Some (token_prev_char self) }"
  by (simp add: token_trim_space_def white_def [abs_def])

lemma trim_at:
  assumes "at self (ws @ c # cs)" and "\<forall>w\<in>set ws. white w" and "\<not> white c" and "c \<noteq> 10"
  shows "token_trim_space self = Some (self\<lparr>tok_position := tok_position self + length ws\<rparr>)"
proof (cases ws)
  case Nil
  then show ?thesis using assms by (simp add: trim_white next_at span_stop prev_at)
next
  case (Cons w ws')
  have "at (self\<lparr>tok_position := tok_position self + 1\<rparr>) (ws' @ c # cs)" using at_skip [of self "[w]"] assms(1) Cons by simp
  from span_at [OF this, of white w] assms Cons show ?thesis
    by (simp add: trim_white next_at prev_at white_newline)
qed

lemma trim_end:
  assumes "at self ws" and "\<forall>w\<in>set ws. white w"
  shows "token_trim_space self = Some (self\<lparr>tok_eof := True, tok_position := 0\<rparr>)"
proof (cases ws)
  case Nil
  have "\<not> white 0" by (simp add: white_def)
  then show ?thesis using assms Nil by (simp add: trim_white next_end span_stop prev_eof)
next
  case (Cons w ws')
  have "at (self\<lparr>tok_position := tok_position self + 1\<rparr>) ws'" using at_skip [of self "[w]"] assms(1) Cons by simp
  from span_end [OF this, of white w] have "token_span white w (self\<lparr>tok_position := tok_position self + 1\<rparr>) =
    Some (w # ws', 0, self\<lparr>tok_eof := True, tok_position := 0\<rparr>)" using assms Cons by (simp add: white_newline) (simp add: white_def)
  then show ?thesis using assms Cons
    by (simp add: trim_white next_at prev_eof white_newline)
qed

text \<open>The end of the line gives the last token.\<close>

lemma run_end:
  assumes "at self ws" and "\<forall>w\<in>set ws. white w"
  shows "token_run self = Some (self\<lparr>tok_eof := True, tok_position := 0, current_token := finsh_token_type_eof\<rparr>)"
  using trim_end [OF assms] by (simp add: token_run_def token_get_string_def token_next_char_def)

section \<open>Identifiers\<close>

lemma separator_newline: "\<not> is_separator y \<Longrightarrow> y \<noteq> 10 \<and> y \<noteq> 0 \<and> \<not> white y"
  by (auto simp: is_separator_def is_digit_def white_def)

lemma get_string_name:
  assumes "at self (x # xs @ c # cs)" and "\<forall>y\<in>set (x # xs). \<not> is_separator y" and "\<not> is_digit x" and "is_separator c" and "c \<noteq> 10"
    and "length xs < FINSH_STRING_MAX - 1"
  shows "token_get_string self =
    Some (self\<lparr>tok_position := tok_position self + length (x # xs), tok_string := (x # xs) @ [0] @ drop (length (x # xs) + 1) (tok_string self)\<rparr>)"
proof -
  have x: "x \<noteq> 10" "\<not> is_separator x" using assms(2) separator_newline by auto
  have "at (self\<lparr>tok_position := tok_position self + 1, tok_string := s\<rparr>) (xs @ c # cs)" for s
    using at_skip [of self "[x]" "xs @ c # cs" "tok_position self + 1"] assms(1) by simp
  from span_at [OF this, of "\<lambda>ch. \<not> is_separator ch" x] show ?thesis
    using assms x by (simp add: token_get_string_def next_at buffer_write_def prev_at separator_newline)
qed

lemma get_string_none:
  assumes "at self (x # xs)" and "is_separator x \<or> is_digit x" and "x \<noteq> 10"
  shows "token_get_string self = Some (self\<lparr>tok_string := 0 # drop 1 (tok_string self)\<rparr>)"
proof (cases "is_digit x")
  case True
  then show ?thesis using assms by (simp add: token_get_string_def next_at buffer_write_def prev_at)
next
  case False
  then show ?thesis using assms
    by (simp add: token_get_string_def next_at buffer_write_def prev_at span_stop)
qed

section \<open>Runs\<close>

lemma run_name:
  assumes "at self (ws @ (x # xs) @ c # cs)" and "\<forall>w\<in>set ws. white w" and "\<forall>y\<in>set (x # xs). \<not> is_separator y" and "\<not> is_digit x"
    and "is_separator c" and "c \<noteq> 10" and "length xs < FINSH_STRING_MAX - 1"
  shows "token_run self =
    Some (self\<lparr>tok_position := tok_position self + length ws + length (x # xs),
               tok_string := (x # xs) @ [0] @ drop (length (x # xs) + 1) (tok_string self),
               current_token := (case token_match_name (x # xs) of Some t \<Rightarrow> t | None \<Rightarrow> finsh_token_type_identifier)\<rparr>)"
proof -
  have x: "x \<noteq> 10" "\<not> white x" "x \<noteq> 0" using assms(3) separator_newline by auto
  have "token_trim_space self = Some (self\<lparr>tok_position := tok_position self + length ws\<rparr>)"
    using assms x by (intro trim_at [of self ws x "xs @ c # cs"]) simp_all
  moreover have a: "at (self\<lparr>tok_position := tok_position self + length ws\<rparr>) (x # xs @ c # cs)" using at_skip [OF assms(1)] by simp
  moreover note get_string_name [OF a assms(3-7)] assms(1)
  moreover have "c_string ((x # xs) @ [0] @ zs) = x # xs" for zs
    using assms(3) separator_newline by (auto simp: c_string_def takeWhile_append2)
  ultimately show ?thesis using x by (simp add: token_run_def split: option.split)
qed

lemma run_operator:
  assumes "at self (ws @ x # cs)" and "\<forall>w\<in>set ws. white w" and "is_separator x \<or> is_digit x" and "\<not> white x" and "x \<noteq> 10"
  shows "token_run self =
    token_operator x (self\<lparr>tok_position := tok_position self + length ws + 1, tok_string := 0 # drop 1 (tok_string self)\<rparr>)"
proof -
  have "token_trim_space self = Some (self\<lparr>tok_position := tok_position self + length ws\<rparr>)"
    using assms by (intro trim_at [of self ws x cs]) simp_all
  moreover have a: "at (self\<lparr>tok_position := tok_position self + length ws\<rparr>) (x # cs)" using at_skip [OF assms(1)] by simp
  moreover note get_string_none [OF a assms(3,5)] assms(1)
  moreover have "at (self\<lparr>tok_position := tok_position self + length ws, tok_string := s\<rparr>) (x # cs)" for s using a by simp
  from next_at [OF this assms(5)] have "token_next_char (self\<lparr>tok_position := tok_position self + length ws, tok_string := s\<rparr>) =
    Some (x, self\<lparr>tok_position := tok_position self + length ws + 1, tok_string := s\<rparr>)" for s by simp
  ultimately show ?thesis by (simp add: token_run_def)
qed

section \<open>Texts of tokens\<close>

datatype atok = TOp finsh_token_type | TName "u8 list" | TInt u32 | TLong u32 | TChar u8

fun ttype :: "atok \<Rightarrow> finsh_token_type" where
  "ttype (TOp ty) = ty"
| "ttype (TName nm) = finsh_token_type_identifier"
| "ttype (TInt v) = finsh_token_type_value_int"
| "ttype (TLong v) = finsh_token_type_value_long"
| "ttype (TChar c) = finsh_token_type_value_char"

fun keyword_text :: "finsh_token_type \<Rightarrow> string option" where
  "keyword_text finsh_token_type_void = Some ''void''"
| "keyword_text finsh_token_type_char = Some ''char''"
| "keyword_text finsh_token_type_short = Some ''short''"
| "keyword_text finsh_token_type_int = Some ''int''"
| "keyword_text finsh_token_type_long = Some ''long''"
| "keyword_text finsh_token_type_unsigned = Some ''unsigned''"
| "keyword_text finsh_token_type_value_null = Some ''NULL''"
| "keyword_text _ = None"

fun op_text :: "finsh_token_type \<Rightarrow> string option" where
  "op_text finsh_token_type_left_paren = Some ''(''"
| "op_text finsh_token_type_right_paren = Some '')''"
| "op_text finsh_token_type_comma = Some '',''"
| "op_text finsh_token_type_semicolon = Some '';''"
| "op_text finsh_token_type_mul = Some ''*''"
| "op_text finsh_token_type_add = Some ''+''"
| "op_text finsh_token_type_inc = Some ''++''"
| "op_text finsh_token_type_sub = Some ''-''"
| "op_text finsh_token_type_dec = Some ''--''"
| "op_text finsh_token_type_div = Some ''/''"
| "op_text finsh_token_type_mod = Some ''%''"
| "op_text finsh_token_type_assign = Some ''=''"
| "op_text finsh_token_type_and = Some ''&''"
| "op_text finsh_token_type_or = Some ''|''"
| "op_text finsh_token_type_xor = Some ''^''"
| "op_text finsh_token_type_bitwise = Some ''~''"
| "op_text finsh_token_type_shl = Some ''<<''"
| "op_text finsh_token_type_shr = Some ''>>''"
| "op_text _ = None"

definition is_name :: "u8 list \<Rightarrow> bool" where
  "is_name nm \<longleftrightarrow> nm \<noteq> [] \<and> length nm < FINSH_STRING_MAX \<and> (\<forall>y\<in>set nm. \<not> is_separator y) \<and> \<not> is_digit (hd nm) \<and> token_match_name nm = None"

definition decimal :: "u8 list \<Rightarrow> bool" where
  "decimal ds \<longleftrightarrow> ds \<noteq> [] \<and> hd ds \<noteq> lit CHR ''0'' \<and> (\<forall>d\<in>set ds. is_digit d)"

definition dec_value :: "u8 list \<Rightarrow> u32" where
  "dec_value ds = foldl (\<lambda>v d. v * 10 + (ucast d - of_char CHR ''0'')) 0 ds"

fun token_text :: "atok \<Rightarrow> u8 list \<Rightarrow> bool" where
  "token_text (TOp ty) cs \<longleftrightarrow> map_option (map of_char) (op_text ty) = Some cs \<or> map_option (map of_char) (keyword_text ty) = Some cs"
| "token_text (TName nm) cs \<longleftrightarrow> cs = nm \<and> is_name nm"
| "token_text (TInt v) cs \<longleftrightarrow> decimal cs \<and> v = dec_value cs \<or> cs = [lit CHR ''0''] \<and> v = 0"
| "token_text (TLong v) cs \<longleftrightarrow> (\<exists>ds l. cs = ds @ [l] \<and> decimal ds \<and> (l = lit CHR ''l'' \<or> l = lit CHR ''L'') \<and> v = dec_value ds)"
| "token_text (TChar c) cs \<longleftrightarrow> cs = [39, c, 39] \<and> c \<noteq> 92 \<and> c \<noteq> 10"

text \<open>What follows the text of a token does not belong to it.\<close>

definition separated :: "u8 list \<Rightarrow> bool" where
  "separated rest \<longleftrightarrow> rest \<noteq> [] \<and> is_separator (hd rest) \<and> hd rest \<noteq> 10"

fun ends :: "atok \<Rightarrow> u8 list \<Rightarrow> bool" where
  "ends (TName nm) rest = separated rest"
| "ends (TInt v) rest = separated rest"
| "ends (TOp ty) rest =
     (if keyword_text ty \<noteq> None then separated rest
      else if ty \<in> {finsh_token_type_add, finsh_token_type_sub, finsh_token_type_div}
      then rest \<noteq> [] \<and> map_option (map of_char) (op_text ty) \<noteq> Some [hd rest] \<and> hd rest \<noteq> 10
      else True)"
| "ends _ rest = True"

text \<open>The value of a token in the state.\<close>

fun payload :: "atok \<Rightarrow> u32 \<Rightarrow> u8 list \<Rightarrow> bool" where
  "payload (TName nm) v s \<longleftrightarrow> c_string s = nm"
| "payload (TInt n) v s \<longleftrightarrow> v = n"
| "payload (TLong n) v s \<longleftrightarrow> v = n"
| "payload (TChar c) v s \<longleftrightarrow> ucast v = c"
| "payload _ v s \<longleftrightarrow> True"

definition lexed :: "atok \<Rightarrow> u8 list \<Rightarrow> 'a finsh_token_scheme \<Rightarrow> 'a finsh_token_scheme \<Rightarrow> bool" where
  "lexed t rest self self' \<longleftrightarrow>
     (\<exists>p v s. self' = self\<lparr>tok_position := p, tok_value := v, tok_string := s, current_token := ttype t\<rparr> \<and>
        at (self\<lparr>tok_position := p\<rparr>) rest \<and> payload t v s \<and> (length (tok_string self) = FINSH_STRING_MAX \<longrightarrow> length s = FINSH_STRING_MAX))"

lemma lexedI:
  assumes "self' = self\<lparr>tok_position := p, tok_value := v, tok_string := s, current_token := ttype t\<rparr>" and "at (self\<lparr>tok_position := p\<rparr>) rest"
    and "payload t v s" and "length (tok_string self) = FINSH_STRING_MAX \<longrightarrow> length s = FINSH_STRING_MAX"
  shows "lexed t rest self self'"
  using assms by (auto simp: lexed_def)

lemma lex_name:
  assumes "at self (ws @ cs @ rest)" and "\<forall>w\<in>set ws. white w" and "separated rest"
    and "cs \<noteq> []" and "length cs < FINSH_STRING_MAX" and "\<forall>y\<in>set cs. \<not> is_separator y" and "\<not> is_digit (hd cs)"
    and "ttype t = (case token_match_name cs of Some t \<Rightarrow> t | None \<Rightarrow> finsh_token_type_identifier)" and "payload t (tok_value self) (cs @ [0])"
  shows "\<exists>self'. token_run self = Some self' \<and> lexed t rest self self'"
proof -
  obtain x xs where cs: "cs = x # xs" using assms(4) by (cases cs) auto
  obtain c r where r: "rest = c # r" "is_separator c" "c \<noteq> 10" using assms(3) by (cases rest) (auto simp: separated_def)
  have s: "payload t (tok_value self) (cs @ 0 # zs)" for zs
    using assms(9) by (cases t) (auto simp: c_string_def takeWhile_append)
  have "at (self\<lparr>tok_position := tok_position self + length (ws @ cs)\<rparr>) rest" using at_skip [of self "ws @ cs" rest] assms(1) by simp
  moreover have "token_run self =
    Some (self\<lparr>tok_position := tok_position self + length ws + length (x # xs), tok_string := (x # xs) @ [0] @ drop (length (x # xs) + 1) (tok_string self),
      current_token := (case token_match_name (x # xs) of Some t \<Rightarrow> t | None \<Rightarrow> finsh_token_type_identifier)\<rparr>)"
    using assms cs r by (intro run_name) auto
  ultimately show ?thesis using assms(5,8) cs s
    by (auto simp: add.assoc intro!: lexedI [where p = "tok_position self + length (ws @ cs)" and v = "tok_value self" and s = "cs @ 0 # drop (length cs + 1) (tok_string self)"])
qed

lemma match_keyword: "keyword_text ty = Some k \<Longrightarrow> token_match_name (map of_char k) = Some ty"
  by (cases ty) (auto simp: token_match_name_def finsh_name_table_def)

lemma keyword_chars: "keyword_text ty = Some k \<Longrightarrow> k \<noteq> [] \<and> length k < 9 \<and> (\<forall>y\<in>set k. \<not> is_separator (of_char y)) \<and> \<not> is_digit (of_char (hd k))"
  by (cases ty) (auto simp: is_separator_def is_digit_def)

section \<open>Operators\<close>

lemma lex_single:
  assumes "at self (ws @ x # rest)" and "\<forall>w\<in>set ws. white w" and "is_separator x" and "\<not> white x" and "x \<noteq> 10" and "single_token x = Some ty"
  shows "\<exists>self'. token_run self = Some self' \<and> lexed (TOp ty) rest self self'"
proof -
  have "at (self\<lparr>tok_position := tok_position self + length ws + 1\<rparr>) rest" using at_skip [of self "ws @ [x]" rest] assms(1) by simp
  then show ?thesis using run_operator [OF assms(1,2) _ assms(4,5)] assms(3,6)
    by (auto simp: token_operator_def intro!: lexedI [where p = "tok_position self + length ws + 1" and v = "tok_value self" and s = "0 # drop 1 (tok_string self)"])
qed

text \<open>The operators of which the second character decides.\<close>

lemma operator_twice:
  "token_operator (lit CHR ''+'') self = token_twice (lit CHR ''+'') finsh_token_type_inc finsh_token_type_add self"
  "token_operator (lit CHR ''-'') self = token_twice (lit CHR ''-'') finsh_token_type_dec finsh_token_type_sub self"
  "token_operator (lit CHR ''/'') self = token_twice (lit CHR ''/'') finsh_token_type_eof finsh_token_type_div self"
  "token_operator (lit CHR ''<'') self = token_twice (lit CHR ''<'') finsh_token_type_shl finsh_token_type_bad self"
  "token_operator (lit CHR ''>'') self = token_twice (lit CHR ''>'') finsh_token_type_shr finsh_token_type_bad self"
  by (simp_all add: token_operator_def single_token_def)

lemma lex_twice:
  fixes self :: "'a finsh_token_scheme"
  assumes "at self (ws @ x # y # rest)" and "\<forall>w\<in>set ws. white w" and "is_separator x" and "\<not> white x" and "x \<noteq> 10" and "y \<noteq> 10"
    and "\<And>self :: 'a finsh_token_scheme. token_operator x self = token_twice x two one self"
  shows "\<exists>self'. token_run self = Some self' \<and> (if y = x then lexed (TOp two) rest self self' else lexed (TOp one) (y # rest) self self')"
proof -
  let ?self = "self\<lparr>tok_position := tok_position self + length ws + 1, tok_string := 0 # drop 1 (tok_string self)\<rparr>"
  have 1: "at (self\<lparr>tok_position := tok_position self + length ws + 1\<rparr>) (y # rest)" using at_skip [of self "ws @ [x]" "y # rest"] assms(1) by simp
  have 2: "at (self\<lparr>tok_position := tok_position self + length ws + 2\<rparr>) rest" using at_skip [of self "ws @ [x, y]" rest] assms(1) by simp
  have n: "token_next_char ?self = Some (y, self\<lparr>tok_position := tok_position self + length ws + 2, tok_string := 0 # drop 1 (tok_string self)\<rparr>)"
    using next_at [of ?self y rest] 1 assms(6) by simp
  have "token_run self = token_twice x two one ?self" using run_operator [OF assms(1,2) _ assms(4,5)] assms(3,7) by simp
  note r = this
  show ?thesis
  proof (cases "y = x")
    case True
    then show ?thesis using r n 2 by (auto simp: token_twice_def
      intro!: lexedI [where p = "tok_position self + length ws + 2" and v = "tok_value self" and s = "0 # drop 1 (tok_string self)"])
  next
    case False
    then show ?thesis using r n 1 assms(1) by (auto simp: token_twice_def prev_at
      intro!: lexedI [where p = "tok_position self + length ws + 1" and v = "tok_value self" and s = "0 # drop 1 (tok_string self)"])
  qed
qed

lemma lex_op:
  assumes "at self (ws @ map of_char k @ rest)" and "\<forall>w\<in>set ws. white w" and "op_text ty = Some k" and "ends (TOp ty) rest"
  shows "\<exists>self'. token_run self = Some self' \<and> lexed (TOp ty) rest self self'"
proof (cases "ty \<in> {finsh_token_type_add, finsh_token_type_inc, finsh_token_type_sub, finsh_token_type_dec, finsh_token_type_div, finsh_token_type_shl, finsh_token_type_shr}")
  case False
  have "length k = 1" using assms(3) False by (cases ty) auto
  then obtain y where k: "k = [y]" by (metis One_nat_def length_0_conv length_Suc_conv)
  have "is_separator (of_char y) \<and> \<not> white (of_char y) \<and> of_char y \<noteq> (10 :: u8) \<and> single_token (of_char y) = Some ty"
    using assms(3) False k by (cases ty) (auto simp: is_separator_def is_digit_def white_def single_token_def)
  then show ?thesis using assms(1,2) k by (intro lex_single [of self ws "of_char y" rest ty]) simp_all
next
  case True
  have sep: "is_separator 43" "is_separator 45" "is_separator 47" "is_separator 60" "is_separator 62"
    "\<not> white 43" "\<not> white 45" "\<not> white 47" "\<not> white 60" "\<not> white 62"
    by (simp_all add: is_separator_def is_digit_def white_def)
  note t = lex_twice [of self ws, OF _ assms(2) _ _ _ _ operator_twice(1)] lex_twice [of self ws, OF _ assms(2) _ _ _ _ operator_twice(2)]
    lex_twice [of self ws, OF _ assms(2) _ _ _ _ operator_twice(3)] lex_twice [of self ws, OF _ assms(2) _ _ _ _ operator_twice(4)]
    lex_twice [of self ws, OF _ assms(2) _ _ _ _ operator_twice(5)]
  show ?thesis
  proof (cases rest)
    case Nil
    then show ?thesis using True assms t [where y = 43 and rest = "[]"] t [where y = 45 and rest = "[]"] t [where y = 60 and rest = "[]"] t [where y = 62 and rest = "[]"] sep
      by auto
  next
    case (Cons c r)
    then show ?thesis using True assms t [where y = c and rest = r] t [where y = 43 and rest = rest] t [where y = 45 and rest = rest]
        t [where y = 60 and rest = rest] t [where y = 62 and rest = rest] sep
      by auto
  qed
qed

section \<open>Values\<close>

lemma digit_newline: "is_digit d \<Longrightarrow> d \<noteq> 10 \<and> \<not> white d \<and> d \<noteq> lit CHR ''l'' \<and> d \<noteq> lit CHR ''L''"
  by (auto simp: is_digit_def white_def)

lemma operator_digit: "is_digit d \<Longrightarrow> token_operator d self = token_proc_number (token_prev_char self)"
  by (auto simp: token_operator_def single_token_def is_digit_def)

lemma separator_number: "is_separator c \<Longrightarrow> \<not> is_digit c \<and> c \<noteq> lit CHR ''l'' \<and> c \<noteq> lit CHR ''L'' \<and> c \<noteq> lit CHR ''x'' \<and> c \<noteq> lit CHR ''X'' \<and>
    c \<noteq> lit CHR ''b'' \<and> c \<noteq> lit CHR ''B'' \<and> \<not> (lit CHR ''0'' \<le> c \<and> c \<le> lit CHR ''7'')"
  by (auto simp: is_separator_def is_digit_def word_le_nat_alt)

text \<open>The digits of a decimal number and the character after them.\<close>

lemma proc_number_decimal:
  assumes "at self (ds @ c # rest)" and "decimal ds" and "\<not> is_digit c" and "c \<noteq> 10"
  shows "token_proc_number self = Some (number_suffix (dec_value ds) c (self\<lparr>tok_position := tok_position self + length ds + 1\<rparr>))"
proof -
  obtain d ds' where ds: "ds = d # ds'" "d \<noteq> lit CHR ''0''" "is_digit d" "\<forall>x\<in>set ds'. is_digit x" "d \<noteq> 10"
    using assms(2) by (cases ds) (auto simp: decimal_def digit_newline)
  have "at (self\<lparr>tok_position := tok_position self + 1\<rparr>) (ds' @ c # rest)" using at_skip [of self "[d]" "ds' @ c # rest"] assms(1) ds by simp
  from span_at [OF this, of is_digit d] show ?thesis using assms ds
    by (simp add: token_proc_number_def next_at digit_newline dec_value_def)
qed

lemma lex_number:
  assumes "at self (ws @ ds @ c # rest)" and "\<forall>w\<in>set ws. white w" and "decimal ds" and "\<not> is_digit c" and "c \<noteq> 10"
  shows "\<exists>self'. token_run self = Some self' \<and>
    (if c = lit CHR ''l'' \<or> c = lit CHR ''L'' then lexed (TLong (dec_value ds)) rest self self' else lexed (TInt (dec_value ds)) (c # rest) self self')"
proof -
  obtain d ds' where ds: "ds = d # ds'" "is_digit d" "d \<noteq> 10" "\<not> white d" using assms(3) by (cases ds) (auto simp: decimal_def digit_newline)
  let ?p = "tok_position self + length ws" and ?s = "0 # drop 1 (tok_string self)"
  have 0: "at (self\<lparr>tok_position := ?p, tok_string := ?s\<rparr>) (ds @ c # rest)" using at_skip [OF assms(1)] by simp
  have 1: "at (self\<lparr>tok_position := ?p + length ds\<rparr>) (c # rest)" using at_skip [of self "ws @ ds" "c # rest"] assms(1) by (simp add: add.assoc)
  have 2: "at (self\<lparr>tok_position := ?p + length ds + 1\<rparr>) rest" using at_skip [of self "ws @ ds @ [c]" rest] assms(1) by (simp add: add.assoc)
  have "token_run self = token_proc_number (self\<lparr>tok_position := ?p, tok_string := ?s\<rparr>)"
    using run_operator [of self ws d "ds' @ c # rest"] assms(1,2) ds by (simp add: operator_digit prev_at)
  then have r: "token_run self = Some (number_suffix (dec_value ds) c (self\<lparr>tok_position := ?p + length ds + 1, tok_string := ?s\<rparr>))"
    using proc_number_decimal [OF 0 assms(3-5)] by simp
  show ?thesis
  proof (cases "c = lit CHR ''l'' \<or> c = lit CHR ''L''")
    case True
    then show ?thesis using r 2 by (auto simp: number_suffix_def intro!: lexedI [where p = "?p + length ds + 1" and v = "dec_value ds" and s = ?s])
  next
    case False
    then show ?thesis using r 1 assms(1)
      by (auto simp: number_suffix_def prev_at intro!: lexedI [where p = "?p + length ds" and v = "dec_value ds" and s = ?s])
  qed
qed

lemma lex_zero:
  assumes "at self (ws @ lit CHR ''0'' # c # rest)" and "\<forall>w\<in>set ws. white w" and "is_separator c" and "c \<noteq> 10"
  shows "\<exists>self'. token_run self = Some self' \<and> lexed (TInt 0) (c # rest) self self'"
proof -
  let ?p = "tok_position self + length ws" and ?s = "0 # drop 1 (tok_string self)"
  have z: "is_digit (lit CHR ''0'')" by (simp add: is_digit_def)
  have 0: "at (self\<lparr>tok_position := ?p, tok_string := ?s\<rparr>) (lit CHR ''0'' # c # rest)" using at_skip [OF assms(1)] by simp
  have 1: "at (self\<lparr>tok_position := ?p + 1\<rparr>) (c # rest)" using at_skip [of self "ws @ [lit CHR ''0'']" "c # rest"] assms(1) by simp
  have n: "token_next_char (self\<lparr>tok_position := ?p, tok_string := ?s\<rparr>) = Some (lit CHR ''0'', self\<lparr>tok_position := ?p + 1, tok_string := ?s\<rparr>)"
    using next_at [OF 0] by simp
  have m: "token_next_char (self\<lparr>tok_position := ?p + 1, tok_string := ?s\<rparr>) = Some (c, self\<lparr>tok_position := ?p + 2, tok_string := ?s\<rparr>)"
    using next_at [of "self\<lparr>tok_position := ?p + 1, tok_string := ?s\<rparr>" c rest] 1 assms(4) by simp
  have "token_run self = token_proc_number (self\<lparr>tok_position := ?p, tok_string := ?s\<rparr>)"
    using run_operator [OF assms(1,2)] assms(1) z digit_newline [OF z] by (simp add: prev_at operator_digit)
  then show ?thesis using n m 1 assms(1,3) separator_number [OF assms(3)]
    by (auto simp: token_proc_number_def prev_at intro!: lexedI [where p = "?p + 1" and v = 0 and s = ?s])
qed

lemma lex_char:
  assumes "at self (ws @ [39, c, 39] @ rest)" and "\<forall>w\<in>set ws. white w" and "c \<noteq> 92" and "c \<noteq> 10"
  shows "\<exists>self'. token_run self = Some self' \<and> lexed (TChar c) rest self self'"
proof -
  let ?p = "tok_position self + length ws" and ?s = "0 # drop 1 (tok_string self)" and ?v = "(tok_value self AND NOT 0xff) OR ucast c"
  have q: "is_separator 39" "\<not> white 39" "single_token 39 = None" by (simp_all add: is_separator_def is_digit_def white_def single_token_def)
  have 1: "at (self\<lparr>tok_position := ?p + 1, tok_string := ?s\<rparr>) (c # 39 # rest)" using at_skip [of self "ws @ [39]" "c # 39 # rest"] assms(1) by simp
  have 2: "at (self\<lparr>tok_position := ?p + 1 + 1, tok_string := ?s\<rparr>) (39 # rest)" using at_skip [of self "ws @ [39, c]" "39 # rest"] assms(1) by simp
  have 3: "at (self\<lparr>tok_position := ?p + 1 + 1 + 1\<rparr>) rest" using at_skip [of self "ws @ [39, c, 39]" rest] assms(1) by (simp add: eval_nat_numeral)
  have v: "ucast ?v = c"
  proof -
    have m: "(0xff :: u32) = mask 8" by (simp add: mask_eq_exp_minus_1)
    show ?thesis unfolding m by (intro bit_eqI) (auto simp: bit_simps)
  qed
  have "token_run self = token_operator 39 (self\<lparr>tok_position := ?p + 1, tok_string := ?s\<rparr>)"
    using run_operator [of self ws 39 "c # 39 # rest"] assms(1,2) q by simp
  then show ?thesis using next_at [OF 1 assms(4)] next_at [OF 2] 3 v assms(3) q
    by (auto simp: token_operator_def token_proc_char_def intro!: lexedI [where p = "?p + 1 + 1 + 1" and v = ?v and s = ?s])
qed

text \<open>A text that spells a token gives that token.\<close>

lemma lex_token:
  assumes "at self (ws @ cs @ rest)" and "\<forall>w\<in>set ws. white w" and "token_text t cs" and "ends t rest"
  shows "\<exists>self'. token_run self = Some self' \<and> lexed t rest self self'"
proof (cases t)
  case (TOp ty)
  show ?thesis
  proof (cases "keyword_text ty")
    case None
    then obtain k where "op_text ty = Some k" "cs = map of_char k" using assms(3) TOp by auto
    then show ?thesis using lex_op [of self ws k rest ty] assms TOp by simp
  next
    case (Some k)
    then have "op_text ty = None" by (cases ty) auto
    then have "cs = map of_char k" using assms(3) TOp Some by auto
    then show ?thesis using lex_name [OF assms(1,2), of t] assms(4) TOp Some match_keyword [OF Some] keyword_chars [OF Some]
      by (auto simp: hd_map)
  qed
next
  case (TName nm)
  then show ?thesis using lex_name [OF assms(1,2), of t] assms(3,4)
    by (auto simp: is_name_def c_string_def takeWhile_append takeWhile_eq_all_conv dest: separator_newline)
next
  case (TInt v)
  obtain c r where r: "rest = c # r" "is_separator c" "c \<noteq> 10" using assms(4) TInt by (cases rest) (auto simp: separated_def)
  show ?thesis
  proof (cases "decimal cs")
    case True
    have "v = dec_value cs" using True assms(3) TInt by (auto simp: decimal_def)
    then show ?thesis using lex_number [of self ws cs c r] True assms r separator_number [OF r(2)] TInt by auto
  next
    case False
    then show ?thesis using lex_zero [of self ws c r] assms r TInt by auto
  qed
next
  case (TLong v)
  then obtain ds l where "cs = ds @ [l]" "decimal ds" "l = lit CHR ''l'' \<or> l = lit CHR ''L''" "v = dec_value ds" using assms(3) by auto
  then show ?thesis using lex_number [of self ws ds l rest] assms(1,2) TLong by (auto simp: is_digit_def)
next
  case (TChar c)
  then show ?thesis using lex_char [of self ws c rest] assms by auto
qed

section \<open>Texts of lines\<close>

text \<open>The texts of tokens, each after any white space.\<close>

inductive spells :: "atok list \<Rightarrow> u8 list \<Rightarrow> bool" where
  spells_Nil: "\<forall>w\<in>set ws. white w \<Longrightarrow> spells [] ws"
| spells_Cons: "\<forall>w\<in>set ws. white w \<Longrightarrow> token_text t cs \<Longrightarrow> ends t rest \<Longrightarrow> spells ts rest \<Longrightarrow> spells (t # ts) (ws @ cs @ rest)"

inductive_cases spells_NilE: "spells [] cs"
inductive_cases spells_ConsE: "spells (t # ts) cs"

text \<open>The tokens a state still gives, with one that is to be read again in front.\<close>

definition feeds :: "'a finsh_token_scheme \<Rightarrow> atok list \<Rightarrow> bool" where
  "feeds st ts \<longleftrightarrow> length (tok_string st) = FINSH_STRING_MAX \<and>
     (\<exists>cs. at st cs \<and>
        (if tok_replay st
         then \<exists>t ts'. ts = t # ts' \<and> current_token st = ttype t \<and> payload t (tok_value st) (tok_string st) \<and> spells ts' cs
         else spells ts cs))"

text \<open>Reading a token changes the fields of the tokenizer only.\<close>

definition token_only :: "'a finsh_token_scheme \<Rightarrow> 'a finsh_token_scheme \<Rightarrow> bool" where
  "token_only st st' \<longleftrightarrow>
     st' = st\<lparr>tok_eof := tok_eof st', tok_replay := tok_replay st', tok_position := tok_position st', current_token := current_token st',
              tok_value := tok_value st', tok_string := tok_string st'\<rparr>"

lemma feeds_token:
  assumes "feeds st (t # ts)"
  obtains st' where "finsh_token_token st = Some (ttype t, st')" "feeds st' ts" "feeds (finsh_token_replay st') (t # ts)"
    "payload t (tok_value st') (tok_string st')" "token_only st st'" "tok_replay st' = False" "current_token st' = ttype t"
proof (cases "tok_replay st")
  case True
  then show ?thesis using assms by (intro that [of "st\<lparr>tok_replay := False\<rparr>"])
    (auto simp: finsh_token_token_def feeds_def finsh_token_replay_def token_only_def)
next
  case False
  then obtain ws cs rest where s: "at st (ws @ cs @ rest)" "\<forall>w\<in>set ws. white w" "token_text t cs" "ends t rest" "spells ts rest"
    using assms by (auto simp: feeds_def elim: spells_ConsE)
  then obtain st' where st': "token_run st = Some st'" "lexed t rest st st'" using lex_token by blast
  have "at st' rest" "current_token st' = ttype t" "payload t (tok_value st') (tok_string st')" "tok_replay st' = tok_replay st"
    "length (tok_string st') = FINSH_STRING_MAX" "token_only st st'"
    using st'(2) assms by (auto simp: lexed_def feeds_def token_only_def)
  then show ?thesis using st' s False by (intro that [of st']) (auto simp: finsh_token_token_def feeds_def finsh_token_replay_def)
qed

lemma feeds_end:
  assumes "feeds st []"
  obtains st' where "finsh_token_token st = Some (finsh_token_type_eof, st')" "token_only st st'"
proof -
  obtain ws where "at st ws" "\<forall>w\<in>set ws. white w" "\<not> tok_replay st"
    using assms by (auto simp: feeds_def elim: spells_NilE split: if_splits)
  then show ?thesis using run_end [of st ws]
    by (intro that [of "st\<lparr>tok_eof := True, tok_position := 0, current_token := finsh_token_type_eof\<rparr>"])
      (auto simp: finsh_token_token_def token_only_def)
qed

lemma feeds_init: "spells ts line \<Longrightarrow> feeds (finsh_token_init line st) ts"
  by (auto simp: feeds_def finsh_token_init_def at_def)

end
