(* ===== verification/FinshVar.thy ===== *)
theory FinshVar
  imports FinshToken
begin

text \<open>
  The tables of the finsh shell: its variables (\<^verbatim>\<open>components/finsh/finsh_var.c\<close>), the system variables and functions
  it knows (\<^verbatim>\<open>finsh_var.c\<close>, \<^verbatim>\<open>finsh_vm.c\<close>), and the heap its strings live in (\<^verbatim>\<open>finsh_heap.c\<close>).  A variable is a structure of 24
  bytes; its name and its type are entries of a list here, its value is in the memory.  A name is the list of its
  characters.
\<close>

unbundle bit_operations_syntax

abbreviation (input) FINSH_VARIABLE_MAX :: nat where "FINSH_VARIABLE_MAX \<equiv> 8"
abbreviation (input) FINSH_HEAP_MAX :: u32 where "FINSH_HEAP_MAX \<equiv> 128"

record finsh_var =
  var_name :: "u8 list"
  fvar_type :: finsh_type

text \<open>The memory, the variables with the address of their table, the two lists of heap blocks with the address of the heap.\<close>

record finsh_data =
  shell_mem :: bytes
  global_variable :: "finsh_var list"
  variable_base :: u32
  finsh_heap_base :: u32
  free_list :: u32
  allocate_list :: u32

section \<open>Variables\<close>

definition no_var :: finsh_var where
  "no_var = \<lparr>var_name = [], fvar_type = finsh_type_unknown\<rparr>"

definition var_addr :: "u32 \<Rightarrow> nat \<Rightarrow> u32" where
  "var_addr base i = base + word_of_nat (24 * i)"

definition finsh_var_init :: "finsh_data \<Rightarrow> finsh_data" where
  "finsh_var_init d =
     d\<lparr>global_variable := replicate FINSH_VARIABLE_MAX no_var,
       shell_mem := foldl (\<lambda>m i. mem_put DWORD (var_value (var_addr (variable_base d) i)) 0 m) (shell_mem d) [0..<FINSH_VARIABLE_MAX]\<rparr>"

text \<open>\<^verbatim>\<open>strncmp\<close> of a name in the table and another one, up to 16 characters.\<close>

definition same_name :: "u8 list \<Rightarrow> finsh_var \<Rightarrow> bool" where
  "same_name name v \<longleftrightarrow> take FINSH_NAME_MAX (var_name v) = take FINSH_NAME_MAX name"

fun find_index :: "('a \<Rightarrow> bool) \<Rightarrow> 'a list \<Rightarrow> nat option" where
  "find_index P [] = None"
| "find_index P (x # xs) = (if P x then Some 0 else map_option Suc (find_index P xs))"

definition finsh_var_insert :: "u8 list \<Rightarrow> finsh_type \<Rightarrow> finsh_data \<Rightarrow> int \<times> finsh_data" where
  "finsh_var_insert name ty d =
     (if \<exists>v\<in>set (global_variable d). same_name name v then (- 1, d)
      else case find_index (\<lambda>v. fvar_type v = finsh_type_unknown) (global_variable d) of
             None \<Rightarrow> (- 1, d)
           | Some i \<Rightarrow> (int i, d\<lparr>global_variable := (global_variable d)[i := \<lparr>var_name = take FINSH_NAME_MAX name, fvar_type = ty\<rparr>]\<rparr>))"

definition finsh_var_lookup :: "u8 list \<Rightarrow> finsh_data \<Rightarrow> nat option" where
  "finsh_var_lookup name d = find_index (same_name name) (global_variable d)"

definition finsh_var_delete :: "u8 list \<Rightarrow> finsh_data \<Rightarrow> int \<times> finsh_data" where
  "finsh_var_delete name d =
     (case finsh_var_lookup name d of
        None \<Rightarrow> (- 1, d)
      | Some i \<Rightarrow> (0, d\<lparr>global_variable := (global_variable d)[i := no_var],
                        shell_mem := mem_put DWORD (var_value (var_addr (variable_base d) i)) 0 (shell_mem d)\<rparr>))"

section \<open>System variables and functions\<close>

text \<open>
  The tables the linker lays out and the lists other code appends to, each entry with its name and the address of its structure.
\<close>

record finsh_tables =
  sysvar_table :: "(u8 list \<times> u32) list"
  sysvar_list :: "(u8 list \<times> u32) list"
  syscall_table :: "(u8 list \<times> u32) list"
  syscall_list :: "(u8 list \<times> u32) list"

text \<open>In the tables names are compared in full; in the lists the name may be the beginning of that of the entry.\<close>

definition prefix_name :: "u8 list \<Rightarrow> u8 list \<Rightarrow> bool" where
  "prefix_name name entry \<longleftrightarrow> take (length name) entry = name"

definition table_lookup :: "(u8 list \<times> u32) list \<Rightarrow> (u8 list \<times> u32) list \<Rightarrow> u8 list \<Rightarrow> u32 option" where
  "table_lookup table items name =
     (case find (\<lambda>(n, p). n = name) table of
        Some (n, p) \<Rightarrow> Some p
      | None \<Rightarrow> map_option snd (find (\<lambda>(n, p). prefix_name name n) items))"

definition finsh_sysvar_lookup :: "finsh_tables \<Rightarrow> u8 list \<Rightarrow> u32 option" where
  "finsh_sysvar_lookup G name = table_lookup (sysvar_table G) (sysvar_list G) name"

definition finsh_syscall_lookup :: "finsh_tables \<Rightarrow> u8 list \<Rightarrow> u32 option" where
  "finsh_syscall_lookup G name = table_lookup (syscall_table G) (syscall_list G) name"

text \<open>The new item is the first of its list; \<open>item\<close> is the address of its structure, and \<open>None\<close> when there was no memory for it.\<close>

definition finsh_sysvar_append :: "u8 list \<Rightarrow> u32 option \<Rightarrow> finsh_tables \<Rightarrow> finsh_tables" where
  "finsh_sysvar_append name item G = (case item of None \<Rightarrow> G | Some p \<Rightarrow> G\<lparr>sysvar_list := (name, p) # sysvar_list G\<rparr>)"

definition finsh_syscall_append :: "u8 list \<Rightarrow> u32 option \<Rightarrow> finsh_tables \<Rightarrow> finsh_tables" where
  "finsh_syscall_append name item G = (case item of None \<Rightarrow> G | Some p \<Rightarrow> G\<lparr>syscall_list := (name, p) # syscall_list G\<rparr>)"

section \<open>The string heap\<close>

text \<open>A block has a header of its length and the pointer to the next block.\<close>

definition blk_length :: "u32 \<Rightarrow> finsh_data \<Rightarrow> u32" where
  "blk_length h d = get32 (shell_mem d) (unat h)"

definition blk_next :: "u32 \<Rightarrow> finsh_data \<Rightarrow> u32" where
  "blk_next h d = get32 (shell_mem d) (unat h + 4)"

definition set_length :: "u32 \<Rightarrow> u32 \<Rightarrow> finsh_data \<Rightarrow> finsh_data" where
  "set_length h v d = d\<lparr>shell_mem := put32 (unat h) v (shell_mem d)\<rparr>"

definition set_next :: "u32 \<Rightarrow> u32 \<Rightarrow> finsh_data \<Rightarrow> finsh_data" where
  "set_next h v d = d\<lparr>shell_mem := put32 (unat h + 4) v (shell_mem d)\<rparr>"

definition finsh_block_get_data :: "u32 \<Rightarrow> u32" where
  "finsh_block_get_data h = h + 8"

definition finsh_block_get_header :: "u32 \<Rightarrow> u32" where
  "finsh_block_get_header p = p - 8"

definition HEAP_ALIGN_SIZE :: "u32 \<Rightarrow> u32" where
  "HEAP_ALIGN_SIZE sz = (sz + 3) AND NOT 3"

text \<open>Bytes set to zero from an address on.\<close>

definition clear_bytes :: "u32 \<Rightarrow> u32 \<Rightarrow> bytes \<Rightarrow> bytes" where
  "clear_bytes a n m = (\<lambda>i. if unat a \<le> i \<and> i < unat a + unat n then 0 else m i)"

definition finsh_heap_init :: "finsh_data \<Rightarrow> finsh_data" where
  "finsh_heap_init d =
     (let h = finsh_heap_base d;
          d = d\<lparr>shell_mem := clear_bytes h FINSH_HEAP_MAX (shell_mem d), free_list := h\<rparr>
      in (set_next h 0 (set_length h (FINSH_HEAP_MAX - 8) d))\<lparr>allocate_list := 0\<rparr>)"

text \<open>The list a block function works on, given by address in the code.\<close>

datatype which = Free | Alloc

fun list_head :: "which \<Rightarrow> finsh_data \<Rightarrow> u32" where
  "list_head Free d = free_list d" | "list_head Alloc d = allocate_list d"

fun set_head :: "which \<Rightarrow> u32 \<Rightarrow> finsh_data \<Rightarrow> finsh_data" where
  "set_head Free h d = d\<lparr>free_list := h\<rparr>" | "set_head Alloc h d = d\<lparr>allocate_list := h\<rparr>"

text \<open>The search through a list, which ends at a block that satisfies \<open>P\<close> or with \<^verbatim>\<open>NULL\<close>.\<close>

partial_function (option) block_search :: "(u32 \<Rightarrow> finsh_data \<Rightarrow> bool) \<Rightarrow> u32 \<Rightarrow> finsh_data \<Rightarrow> u32 option" where
  "block_search P node d =
     (if node = 0 then Some 0 else if P node d then Some node else block_search P (blk_next node d) d)"

definition finsh_block_insert :: "which \<Rightarrow> u32 \<Rightarrow> finsh_data \<Rightarrow> finsh_data option" where
  "finsh_block_insert l header d =
     (if list_head l d = 0 then Some (set_head l header d)
      else if header < list_head l d then Some (set_head l header (set_next header (list_head l d) d))
      else do {
        node \<leftarrow> block_search (\<lambda>node d. header < blk_next node d \<or> blk_next node d = 0) (list_head l d) d;
        valid_access (node \<noteq> 0);
        let d = (if blk_next node d \<noteq> 0 then set_next header (blk_next node d) d else d);
        Some (set_next node header d) })"

definition finsh_block_remove :: "which \<Rightarrow> u32 \<Rightarrow> finsh_data \<Rightarrow> finsh_data option" where
  "finsh_block_remove l header d =
     (if list_head l d = header then Some (set_next header 0 (set_head l (blk_next header d) d))
      else do {
        node \<leftarrow> block_search (\<lambda>node d. blk_next node d = header) (list_head l d) d;
        Some (if node \<noteq> 0 then set_next node (blk_next header d) d else d) })"

definition finsh_block_split :: "u32 \<Rightarrow> u32 \<Rightarrow> finsh_data \<Rightarrow> finsh_data" where
  "finsh_block_split header sz d =
     (let nxt = header + 8 + sz;
          d = set_length nxt (blk_length header d - 8 - sz) d;
          d = set_length header sz d;
          d = set_next nxt (blk_next header d) d
      in set_next header nxt d)"

definition finsh_block_merge :: "which \<Rightarrow> u32 \<Rightarrow> finsh_data \<Rightarrow> finsh_data option" where
  "finsh_block_merge l header d =
     do { let next_node = blk_next header d;
          prev_node \<leftarrow> (if list_head l d = header then Some 0
                       else block_search (\<lambda>node d. blk_next node d = header) (list_head l d) d);
          let close = (next_node \<noteq> 0 \<and> header + blk_length header d + 8 = next_node);
          if prev_node \<noteq> 0 \<and> prev_node + blk_length prev_node d + 8 = header then
            (if close then
               Some (let d = set_length prev_node (blk_length prev_node d + blk_length header d + blk_length next_node d + 16) d
                     in set_next prev_node (blk_next next_node d) d)
             else
               Some (let d = set_length prev_node (blk_length prev_node d + blk_length header d + 8) d
                     in set_next prev_node (blk_next header d) d))
          else if close then
            Some (let d = set_length header (blk_length header d + blk_length next_node d + 8) d
                  in set_next header (blk_next next_node d) d)
          else Some d }"

definition finsh_heap_free :: "u32 \<Rightarrow> finsh_data \<Rightarrow> finsh_data option" where
  "finsh_heap_free p d =
     do { let header = finsh_block_get_header p;
          d \<leftarrow> finsh_block_remove Alloc header d;
          d \<leftarrow> finsh_block_insert Free header d;
          finsh_block_merge Free header d }"

text \<open>A block is in use when a variable points to it.\<close>

definition in_variable :: "u32 \<Rightarrow> finsh_data \<Rightarrow> bool" where
  "in_variable header d \<longleftrightarrow>
     (\<exists>i<FINSH_VARIABLE_MAX. fvar_type (global_variable d ! i) \<noteq> finsh_type_unknown \<and>
        get32 (shell_mem d) (unat (var_value (var_addr (variable_base d) i))) = finsh_block_get_data header)"

partial_function (option) gc_loop :: "u32 \<Rightarrow> finsh_data \<Rightarrow> finsh_data option" where
  "gc_loop header d =
     (if header = 0 then Some d
      else let nxt = blk_next header d
           in if in_variable header d then gc_loop nxt d
              else do { d \<leftarrow> finsh_heap_free (finsh_block_get_data header) d; gc_loop nxt d })"

declare block_search.simps [code] gc_loop.simps [code]

definition finsh_heap_gc :: "finsh_data \<Rightarrow> finsh_data option" where
  "finsh_heap_gc d = gc_loop (allocate_list d) d"

definition heap_use :: "u32 \<Rightarrow> u32 \<Rightarrow> finsh_data \<Rightarrow> (u32 \<times> finsh_data) option" where
  "heap_use header sz d =
     do { let d = finsh_block_split header sz d;
          d \<leftarrow> finsh_block_remove Free header d;
          let d = set_next header 0 d;
          d \<leftarrow> finsh_block_insert Alloc header d;
          let d = d\<lparr>shell_mem := clear_bytes (finsh_block_get_data header) sz (shell_mem d)\<rparr>;
          Some (finsh_block_get_data header, d) }"

text \<open>The first search asks for more than the size and a header, the one after the collection for at least that.\<close>

definition finsh_heap_allocate :: "u32 \<Rightarrow> finsh_data \<Rightarrow> (u32 \<times> finsh_data) option" where
  "finsh_heap_allocate sz d =
     do { let sz = HEAP_ALIGN_SIZE sz;
          header \<leftarrow> block_search (\<lambda>h d. \<not> blk_length h d \<le> sz + 8) (free_list d) d;
          if header \<noteq> 0 then heap_use header sz d
          else do {
            d \<leftarrow> finsh_heap_gc d;
            header \<leftarrow> block_search (\<lambda>h d. \<not> blk_length h d < sz + 8) (free_list d) d;
            if header = 0 then Some (0, d) else heap_use header sz d } }"

end
