(* ===== verification/FinshParser.thy ===== *)
theory FinshParser
  imports FinshVar
begin

text \<open>
  The parser of the finsh shell, \<^verbatim>\<open>components/finsh/finsh_parser.c\<close> with the node table of \<^verbatim>\<open>finsh_node.c\<close>, and the run of a line,
  \<^verbatim>\<open>finsh_run_line\<close> of \<^verbatim>\<open>shell.c\<close>.  A parsing function takes the state and gives a node, \<open>None\<close> for \<^verbatim>\<open>NULL\<close>, and
  the state.  The functions call each other, and their loops end with the tokens: they have a number of
  calls and turns left, and no result when it is used up.
\<close>

unbundle bit_operations_syntax

abbreviation (input) FINSH_NODE_MAX :: nat where "FINSH_NODE_MAX \<equiv> 16"

text \<open>Of the node table only the number of entries in use matters: they are filled in order and cleared all together.\<close>

record finsh_shell = finsh_token +
  node_count :: nat
  shell_data :: finsh_data
  parser_root :: "finsh_node option"

type_synonym 'a parser = "finsh_shell \<Rightarrow> ('a \<times> finsh_shell) option"

section \<open>Nodes\<close>

definition finsh_node_init :: "finsh_shell \<Rightarrow> finsh_shell" where
  "finsh_node_init st = st\<lparr>node_count := 0\<rparr>"

definition finsh_node_allocate :: "finsh_node_type \<Rightarrow> finsh_shell \<Rightarrow> finsh_node option \<times> finsh_shell" where
  "finsh_node_allocate ty st =
     (if node_count st = FINSH_NODE_MAX then (None, st)
      else (Some (Node ty 0 0 0 0 None None), st\<lparr>node_count := node_count st + 1\<rparr>))"

text \<open>
  The symbol of a name: its kind and its address.  A name of 16 characters or more is cut and has no zero at its
  end; only the variables are looked up with a limit.
\<close>

definition lookup_symbol :: "finsh_tables \<Rightarrow> u8 list \<Rightarrow> finsh_data \<Rightarrow> (u8 \<times> u32) option option" where
  "lookup_symbol G name d =
     (case finsh_var_lookup name d of
        Some i \<Rightarrow> Some (Some (FINSH_IDTYPE_VAR, var_addr (variable_base d) i))
      | None \<Rightarrow> do {
          valid_access (length name < FINSH_NAME_MAX);
          Some (case finsh_sysvar_lookup G name of
                  Some p \<Rightarrow> Some (FINSH_IDTYPE_SYSVAR, p)
                | None \<Rightarrow> map_option (\<lambda>p. (FINSH_IDTYPE_SYSCALL, p)) (finsh_syscall_lookup G name)) })"

definition finsh_node_new_id :: "finsh_tables \<Rightarrow> u8 list \<Rightarrow> finsh_node option parser" where
  "finsh_node_new_id G name st =
     do { sym \<leftarrow> lookup_symbol G name (shell_data st);
          (case sym of
             None \<Rightarrow> Some (None, finsh_error_set FINSH_ERROR_UNKNOWN_SYMBOL st)
           | Some (ty, p) \<Rightarrow>
               (case finsh_node_allocate FINSH_NODE_ID st of
                  (None, st) \<Rightarrow> Some (None, finsh_error_set FINSH_ERROR_MEMORY_FULL st)
                | (Some n, st) \<Rightarrow> Some (Some (Node (node_type n) (data_type n) ty (node_value n) p (child n) (sibling n)), st))) }"

text \<open>The nodes of constants: \<^verbatim>\<open>finsh_node_new_char\<close>, \<^verbatim>\<open>finsh_node_new_int\<close>, \<^verbatim>\<open>finsh_node_new_long\<close> and \<^verbatim>\<open>finsh_node_new_ptr\<close>.\<close>

definition finsh_node_new_value :: "finsh_node_type \<Rightarrow> u32 \<Rightarrow> finsh_shell \<Rightarrow> finsh_node option \<times> finsh_shell" where
  "finsh_node_new_value ty v st =
     (case finsh_node_allocate ty st of
        (None, st) \<Rightarrow> (None, finsh_error_set FINSH_ERROR_MEMORY_FULL st)
      | (Some n, st) \<Rightarrow> (Some (Node (node_type n) (data_type n) (idtype n) v (id_ptr n) (child n) (sibling n)), st))"

definition put_bytes :: "u32 \<Rightarrow> u8 list \<Rightarrow> bytes \<Rightarrow> bytes" where
  "put_bytes a bs m = foldl (\<lambda>m i. m(unat a + i := bs ! i)) m [0..<length bs]"

text \<open>The pointer \<^verbatim>\<open>finsh_heap_allocate\<close> gives is used without a check.\<close>

definition finsh_node_new_string :: "u8 list \<Rightarrow> finsh_node option parser" where
  "finsh_node_new_string s st =
     (case finsh_node_allocate FINSH_NODE_VALUE_STRING st of
        (None, st) \<Rightarrow> Some (None, finsh_error_set FINSH_ERROR_MEMORY_FULL st)
      | (Some n, st) \<Rightarrow>
          do { (p, d) \<leftarrow> finsh_heap_allocate (word_of_nat (length s + 1)) (shell_data st);
               valid_access (p \<noteq> 0);
               let d = d\<lparr>shell_mem := put_bytes p (s @ [0]) (shell_mem d)\<rparr>;
               Some (Some (Node (node_type n) (data_type n) (idtype n) p (id_ptr n) (child n) (sibling n)), st\<lparr>shell_data := d\<rparr>) })"

definition make_sys_node ::
  "finsh_node_type \<Rightarrow> finsh_node option \<Rightarrow> finsh_node option \<Rightarrow> finsh_shell \<Rightarrow> finsh_node option \<times> finsh_shell" where
  "make_sys_node ty node1 node2 st =
     (case finsh_node_allocate ty st of
        (None, st) \<Rightarrow> (None, finsh_error_set FINSH_ERROR_NULL_NODE st)
      | (Some n, st) \<Rightarrow>
          (case node1 of
             None \<Rightarrow> (Some n, finsh_error_set FINSH_ERROR_NULL_NODE st)
           | Some n1 \<Rightarrow> (Some (Node (node_type n) (data_type n) (idtype n) (node_value n) (id_ptr n) (Some (set_sibling node2 n1)) (sibling n)), st)))"

section \<open>Tokens and types\<close>

definition check_token :: "finsh_token_type \<Rightarrow> finsh_token_type \<Rightarrow> finsh_shell \<Rightarrow> finsh_shell" where
  "check_token token ty st =
     (if token \<noteq> ty then finsh_token_replay (finsh_error_set FINSH_ERROR_INVALID_TOKEN st) else st)"

definition match_token :: "finsh_token_type \<Rightarrow> finsh_shell \<Rightarrow> finsh_shell option" where
  "match_token ty st = do { (token, st) \<leftarrow> finsh_token_token st; Some (check_token token ty st) }"

fun is_base_type :: "finsh_token_type \<Rightarrow> bool" where
  "is_base_type token \<longleftrightarrow> token \<in> {finsh_token_type_void, finsh_token_type_char, finsh_token_type_short, finsh_token_type_int, finsh_token_type_long}"

fun base_type :: "finsh_token_type \<Rightarrow> finsh_type" where
  "base_type finsh_token_type_void = finsh_type_void"
| "base_type finsh_token_type_char = finsh_type_char"
| "base_type finsh_token_type_short = finsh_type_short"
| "base_type finsh_token_type_int = finsh_type_int"
| "base_type finsh_token_type_long = finsh_type_long"
| "base_type _ = finsh_type_unknown"

fun unsigned_type :: "finsh_token_type \<Rightarrow> finsh_type option" where
  "unsigned_type finsh_token_type_char = Some finsh_type_uchar"
| "unsigned_type finsh_token_type_short = Some finsh_type_ushort"
| "unsigned_type finsh_token_type_int = Some finsh_type_uint"
| "unsigned_type finsh_token_type_long = Some finsh_type_ulong"
| "unsigned_type _ = None"

fun pointer_type :: "finsh_type \<Rightarrow> finsh_type" where
  "pointer_type finsh_type_char = finsh_type_charp"
| "pointer_type finsh_type_uchar = finsh_type_charp"
| "pointer_type finsh_type_short = finsh_type_shortp"
| "pointer_type finsh_type_ushort = finsh_type_shortp"
| "pointer_type finsh_type_int = finsh_type_intp"
| "pointer_type finsh_type_uint = finsh_type_intp"
| "pointer_type finsh_type_long = finsh_type_longp"
| "pointer_type finsh_type_ulong = finsh_type_longp"
| "pointer_type _ = finsh_type_voidp"

definition proc_pointer :: "finsh_type \<Rightarrow> finsh_type parser" where
  "proc_pointer ty st =
     do { (token, st) \<leftarrow> finsh_token_token st;
          if token = finsh_token_type_mul then Some (pointer_type ty, st) else Some (ty, finsh_token_replay st) }"

definition proc_type :: "finsh_type parser" where
  "proc_type st =
     do { (token, st) \<leftarrow> finsh_token_token st;
          if is_base_type token then proc_pointer (base_type token) st
          else if token = finsh_token_type_unsigned then
            do { (token, st) \<leftarrow> finsh_token_token st;
                 if is_base_type token then
                   (case unsigned_type token of
                      Some ty \<Rightarrow> proc_pointer ty st
                    | None \<Rightarrow> Some (finsh_type_unknown, finsh_error_set FINSH_ERROR_UNKNOWN_TYPE (finsh_token_replay st)))
                 else proc_pointer finsh_type_unknown (finsh_error_set FINSH_ERROR_EXPECT_TYPE (finsh_token_replay st)) }
          else Some (finsh_type_unknown, finsh_error_set FINSH_ERROR_UNKNOWN_TYPE (finsh_token_replay st)) }"

definition proc_identifier :: "u8 list parser" where
  "proc_identifier st =
     do { st \<leftarrow> match_token finsh_token_type_identifier st;
          Some (take FINSH_NAME_MAX (c_string (tok_string st)), st) }"

section \<open>Binary operators\<close>

fun mul_ops :: "finsh_token_type \<Rightarrow> binop option" where
  "mul_ops finsh_token_type_mul = Some Mul"
| "mul_ops finsh_token_type_div = Some Div"
| "mul_ops finsh_token_type_mod = Some Mod"
| "mul_ops _ = None"

fun add_ops :: "finsh_token_type \<Rightarrow> binop option" where
  "add_ops finsh_token_type_sub = Some Sub"
| "add_ops finsh_token_type_add = Some Add"
| "add_ops _ = None"

fun shift_ops :: "finsh_token_type \<Rightarrow> binop option" where
  "shift_ops finsh_token_type_shl = Some Shl"
| "shift_ops finsh_token_type_shr = Some Shr"
| "shift_ops _ = None"

fun and_ops :: "finsh_token_type \<Rightarrow> binop option" where
  "and_ops token = (if token = finsh_token_type_and then Some And else None)"

fun xor_ops :: "finsh_token_type \<Rightarrow> binop option" where
  "xor_ops token = (if token = finsh_token_type_xor then Some Xor else None)"

fun or_ops :: "finsh_token_type \<Rightarrow> binop option" where
  "or_ops token = (if token = finsh_token_type_or then Some Or else None)"

text \<open>The loop that the functions of the six levels share; \<open>sub\<close> is the function of the next level.\<close>

fun binary_loop ::
  "nat \<Rightarrow> (finsh_token_type \<Rightarrow> binop option) \<Rightarrow> finsh_node option parser \<Rightarrow> finsh_node option \<Rightarrow> finsh_token_type \<Rightarrow> finsh_node option parser" where
  "binary_loop 0 ops sub left token st = None"
| "binary_loop (Suc n) ops sub left token st =
     (case ops token of
        None \<Rightarrow> Some (left, finsh_token_replay st)
      | Some f \<Rightarrow>
          do { (right, st) \<leftarrow> sub st;
               let (left, st) = (case right of
                   None \<Rightarrow> (left, finsh_error_set FINSH_ERROR_EXPECT_OPERATOR st)
                 | Some r \<Rightarrow> make_sys_node (FINSH_NODE_SYS_BIN f) left right st);
               (token, st) \<leftarrow> finsh_token_token st;
               binary_loop n ops sub left token st })"

definition binary_expr ::
  "nat \<Rightarrow> (finsh_token_type \<Rightarrow> binop option) \<Rightarrow> finsh_node option parser \<Rightarrow> finsh_node option parser" where
  "binary_expr n ops sub st =
     do { (left, st) \<leftarrow> sub st; (token, st) \<leftarrow> finsh_token_token st; binary_loop n ops sub left token st }"

definition proc_multiplicative_expr :: "nat \<Rightarrow> finsh_node option parser \<Rightarrow> finsh_node option parser" where
  "proc_multiplicative_expr n cast = binary_expr n mul_ops cast"

definition proc_additive_expr :: "nat \<Rightarrow> finsh_node option parser \<Rightarrow> finsh_node option parser" where
  "proc_additive_expr n cast = binary_expr n add_ops (proc_multiplicative_expr n cast)"

definition proc_shift_expr :: "nat \<Rightarrow> finsh_node option parser \<Rightarrow> finsh_node option parser" where
  "proc_shift_expr n cast = binary_expr n shift_ops (proc_additive_expr n cast)"

definition proc_and_expr :: "nat \<Rightarrow> finsh_node option parser \<Rightarrow> finsh_node option parser" where
  "proc_and_expr n cast = binary_expr n and_ops (proc_shift_expr n cast)"

definition proc_exclusive_or_expr :: "nat \<Rightarrow> finsh_node option parser \<Rightarrow> finsh_node option parser" where
  "proc_exclusive_or_expr n cast = binary_expr n xor_ops (proc_and_expr n cast)"

definition proc_inclusive_or_expr :: "nat \<Rightarrow> finsh_node option parser \<Rightarrow> finsh_node option parser" where
  "proc_inclusive_or_expr n cast = binary_expr n or_ops (proc_exclusive_or_expr n cast)"

section \<open>Primary and postfix expressions\<close>

text \<open>The node of the function \<open>assign\<close> is that of \<^verbatim>\<open>proc_assign_expr\<close>, which is all that \<^verbatim>\<open>proc_expr\<close> calls.\<close>

definition proc_primary_expr :: "finsh_tables \<Rightarrow> finsh_node option parser \<Rightarrow> finsh_node option parser" where
  "proc_primary_expr G assign st =
     do { (token, st) \<leftarrow> finsh_token_token st;
          (case token of
             finsh_token_type_identifier \<Rightarrow>
               do { (name, st) \<leftarrow> proc_identifier (finsh_token_replay st); finsh_node_new_id G name st }
           | finsh_token_type_left_paren \<Rightarrow>
               do { (expr, st) \<leftarrow> assign st; st \<leftarrow> match_token finsh_token_type_right_paren st; Some (expr, st) }
           | finsh_token_type_value_int \<Rightarrow> Some (finsh_node_new_value FINSH_NODE_VALUE_INT (tok_value st) st)
           | finsh_token_type_value_long \<Rightarrow> Some (finsh_node_new_value FINSH_NODE_VALUE_LONG (tok_value st) st)
           | finsh_token_type_value_char \<Rightarrow> Some (finsh_node_new_value FINSH_NODE_VALUE_CHAR (ucast (ucast (tok_value st) :: u8)) st)
           | finsh_token_type_value_string \<Rightarrow> finsh_node_new_string (c_string (tok_string st)) st
           | finsh_token_type_value_null \<Rightarrow> Some (finsh_node_new_value FINSH_NODE_VALUE_NULL 0 st)
           | _ \<Rightarrow> Some (None, finsh_error_set FINSH_ERROR_INVALID_TOKEN st)) }"

text \<open>Nodes linked as siblings; the last one keeps its own.\<close>

fun link_siblings :: "finsh_node list \<Rightarrow> finsh_node option" where
  "link_siblings [] = None"
| "link_siblings [n] = Some n"
| "link_siblings (n # ns) = Some (set_sibling (link_siblings ns) n)"

fun param_loop :: "nat \<Rightarrow> finsh_node option parser \<Rightarrow> finsh_node list \<Rightarrow> finsh_token_type \<Rightarrow> finsh_node list parser" where
  "param_loop 0 assign ns token st = None"
| "param_loop (Suc n) assign ns token st =
     (if token = finsh_token_type_comma then
        do { (a, st) \<leftarrow> assign st;
             let (ns, st) = (case a of
                 Some x \<Rightarrow> (ns @ [x], st)
               | None \<Rightarrow> (butlast ns @ [set_sibling None (last ns)], finsh_error_set FINSH_ERROR_EXPECT_OPERATOR st));
             (token, st) \<leftarrow> finsh_token_token st;
             param_loop n assign ns token st }
      else Some (ns, finsh_token_replay st))"

definition proc_param_list :: "nat \<Rightarrow> finsh_node option parser \<Rightarrow> finsh_node option parser" where
  "proc_param_list n assign st =
     do { (a, st) \<leftarrow> assign st;
          (case a of
             None \<Rightarrow> Some (None, st)
           | Some x \<Rightarrow>
               do { (token, st) \<leftarrow> finsh_token_token st;
                    (ns, st) \<leftarrow> param_loop n assign [x] token st;
                    Some (link_siblings ns, st) }) }"

fun postfix_loop :: "nat \<Rightarrow> finsh_node option parser \<Rightarrow> finsh_node option \<Rightarrow> finsh_token_type \<Rightarrow> finsh_node option parser" where
  "postfix_loop 0 assign postfix token st = None"
| "postfix_loop (Suc n) assign postfix token st =
     (if token = finsh_token_type_inc then
        do { let (postfix, st) = make_sys_node FINSH_NODE_SYS_INC postfix None st;
             (token, st) \<leftarrow> finsh_token_token st;
             postfix_loop n assign postfix token st }
      else if token = finsh_token_type_dec then
        do { let (postfix, st) = make_sys_node FINSH_NODE_SYS_DEC postfix None st;
             (token, st) \<leftarrow> finsh_token_token st;
             postfix_loop n assign postfix token st }
      else if token = finsh_token_type_left_paren then
        do { (token, st) \<leftarrow> finsh_token_token st;
             (params, st) \<leftarrow>
               (if token \<noteq> finsh_token_type_right_paren then
                  do { (params, st) \<leftarrow> proc_param_list n assign (finsh_token_replay st);
                       st \<leftarrow> match_token finsh_token_type_right_paren st;
                       Some (params, st) }
                else Some (None, st));
             let (postfix, st) = make_sys_node FINSH_NODE_SYS_FUNC postfix params st;
             (token, st) \<leftarrow> finsh_token_token st;
             postfix_loop n assign postfix token st }
      else Some (postfix, finsh_token_replay st))"

definition proc_postfix_expr :: "finsh_tables \<Rightarrow> nat \<Rightarrow> finsh_node option parser \<Rightarrow> finsh_node option parser" where
  "proc_postfix_expr G n assign st =
     do { (postfix, st) \<leftarrow> proc_primary_expr G assign st;
          (token, st) \<leftarrow> finsh_token_token st;
          postfix_loop n assign postfix token st }"

definition proc_unary_expr :: "finsh_tables \<Rightarrow> nat \<Rightarrow> finsh_node option parser \<Rightarrow> finsh_node option parser \<Rightarrow> finsh_node option parser" where
  "proc_unary_expr G n cast assign st =
     do { (token, st) \<leftarrow> finsh_token_token st;
          (case token of
             finsh_token_type_add \<Rightarrow> cast st
           | finsh_token_type_inc \<Rightarrow> do { (c, st) \<leftarrow> cast st; Some (make_sys_node FINSH_NODE_SYS_PREINC c None st) }
           | finsh_token_type_sub \<Rightarrow>
               do { (c, st) \<leftarrow> cast st;
                    let (z, st) = finsh_node_new_value FINSH_NODE_VALUE_LONG 0 st;
                    Some (make_sys_node (FINSH_NODE_SYS_BIN Sub) z c st) }
           | finsh_token_type_dec \<Rightarrow> do { (c, st) \<leftarrow> cast st; Some (make_sys_node FINSH_NODE_SYS_PREDEC c None st) }
           | finsh_token_type_bitwise \<Rightarrow> do { (c, st) \<leftarrow> cast st; Some (make_sys_node FINSH_NODE_SYS_BITWISE c None st) }
           | finsh_token_type_mul \<Rightarrow> do { (c, st) \<leftarrow> cast st; Some (make_sys_node FINSH_NODE_SYS_GETVALUE c None st) }
           | finsh_token_type_and \<Rightarrow> do { (c, st) \<leftarrow> cast st; Some (make_sys_node FINSH_NODE_SYS_GETADDR c None st) }
           | _ \<Rightarrow> proc_postfix_expr G n assign (finsh_token_replay st)) }"

section \<open>Expressions\<close>

text \<open>The field \<^verbatim>\<open>data_type\<close> of a node of a cast expression, which holds the number of the type.\<close>

fun type_number :: "finsh_type \<Rightarrow> u8" where
  "type_number finsh_type_unknown = 0" | "type_number finsh_type_void = 1" | "type_number finsh_type_voidp = 2"
| "type_number finsh_type_char = 3" | "type_number finsh_type_uchar = 4" | "type_number finsh_type_charp = 5"
| "type_number finsh_type_short = 6" | "type_number finsh_type_ushort = 7" | "type_number finsh_type_shortp = 8"
| "type_number finsh_type_int = 9" | "type_number finsh_type_uint = 10" | "type_number finsh_type_intp = 11"
| "type_number finsh_type_long = 12" | "type_number finsh_type_ulong = 13" | "type_number finsh_type_longp = 14"

fun set_data_type :: "u8 \<Rightarrow> finsh_node \<Rightarrow> finsh_node" where
  "set_data_type d (Node nt _ it v p c s) = Node nt d it v p c s"

fun proc_cast_expr :: "finsh_tables \<Rightarrow> nat \<Rightarrow> finsh_node option parser"
  and proc_assign_expr :: "finsh_tables \<Rightarrow> nat \<Rightarrow> finsh_node option parser" where
  "proc_cast_expr G 0 st = None"
| "proc_cast_expr G (Suc n) st =
     do { (token, st) \<leftarrow> finsh_token_token st;
          (done, st) \<leftarrow>
            (if token = finsh_token_type_left_paren then
               do { (ty, st) \<leftarrow> proc_type st;
                    st \<leftarrow> match_token finsh_token_type_right_paren st;
                    (c, st) \<leftarrow> proc_cast_expr G n st;
                    Some (map_option (set_data_type (type_number ty)) c, st) }
             else Some (None, st));
          (case done of
             Some c \<Rightarrow> Some (Some c, st)
           | None \<Rightarrow> proc_unary_expr G n (proc_cast_expr G n) (proc_assign_expr G n) (finsh_token_replay st)) }"
| "proc_assign_expr G 0 st = None"
| "proc_assign_expr G (Suc n) st =
     do { (left, st) \<leftarrow> proc_inclusive_or_expr n (proc_cast_expr G n) st;
          (token, st) \<leftarrow> finsh_token_token st;
          if token = finsh_token_type_assign then
            do { (assign, st) \<leftarrow> proc_assign_expr G n st; Some (make_sys_node FINSH_NODE_SYS_ASSIGN left assign st) }
          else Some (left, finsh_token_replay st) }"

section \<open>Statements and declarations\<close>

definition proc_expr_statement :: "finsh_tables \<Rightarrow> nat \<Rightarrow> finsh_node option parser" where
  "proc_expr_statement G n st =
     do { (token, st) \<leftarrow> finsh_token_token st;
          if token \<noteq> finsh_token_type_semicolon then
            do { (expr, st) \<leftarrow> proc_assign_expr G n (finsh_token_replay st);
                 st \<leftarrow> match_token finsh_token_type_semicolon st;
                 Some (expr, st) }
          else Some (None, st) }"

definition declare_var :: "finsh_type \<Rightarrow> u8 list parser" where
  "declare_var ty st =
     do { (name, st) \<leftarrow> proc_identifier st;
          let (r, d) = finsh_var_insert name ty (shell_data st);
          let st = st\<lparr>shell_data := d\<rparr>;
          Some (name, if r < 0 then finsh_error_set FINSH_ERROR_VARIABLE_EXIST st else st) }"

text \<open>The initialisation of a variable: its right side, and the assignment behind the nodes so far.  Without a right side the token stays.
  When there is no node left for the assignment there is none for a later right side either.\<close>

definition init_var ::
  "finsh_tables \<Rightarrow> nat \<Rightarrow> u8 list \<Rightarrow> finsh_node list \<Rightarrow> finsh_token_type \<Rightarrow> (finsh_node list \<times> finsh_token_type) parser" where
  "init_var G n name ns token st =
     do { (assign, st) \<leftarrow> proc_assign_expr G n st;
          (case assign of
             None \<Rightarrow> Some ((ns, token), st)
           | Some x \<Rightarrow>
               do { (idnode, st) \<leftarrow> finsh_node_new_id G name st;
                    let (e, st) = make_sys_node FINSH_NODE_SYS_ASSIGN idnode assign st;
                    let ns = (case e of Some y \<Rightarrow> ns @ [y] | None \<Rightarrow> ns);
                    (token, st) \<leftarrow> finsh_token_token st;
                    Some ((ns, token), st) }) }"

fun declarators :: "finsh_tables \<Rightarrow> nat \<Rightarrow> finsh_type \<Rightarrow> finsh_node list \<Rightarrow> finsh_token_type \<Rightarrow> finsh_node list parser" where
  "declarators G 0 ty ns token st = None"
| "declarators G (Suc n) ty ns token st =
     (if token = finsh_token_type_comma then
        do { (name, st) \<leftarrow> declare_var ty st;
             (token, st) \<leftarrow> finsh_token_token st;
             ((ns, token), st) \<leftarrow> (if token = finsh_token_type_assign then init_var G n name ns token st else Some ((ns, token), st));
             declarators G n ty ns token st }
      else Some (ns, check_token token finsh_token_type_semicolon st))"

definition proc_variable_decl :: "finsh_tables \<Rightarrow> nat \<Rightarrow> finsh_node option parser" where
  "proc_variable_decl G n st =
     do { (ty, st) \<leftarrow> proc_type st;
          (name, st) \<leftarrow> declare_var ty st;
          (token, st) \<leftarrow> finsh_token_token st;
          if token = finsh_token_type_comma then
            do { (ns, st) \<leftarrow> declarators G n ty [] token st; Some (link_siblings ns, st) }
          else if token = finsh_token_type_assign then
            do { ((ns, token), st) \<leftarrow> init_var G n name [] token st;
                 (ns, st) \<leftarrow> declarators G n ty ns token st;
                 Some (link_siblings ns, st) }
          else if token = finsh_token_type_semicolon then Some (None, st)
          else Some (None, finsh_error_set FINSH_ERROR_EXPECT_TYPE st) }"

text \<open>
  The statements are linked behind \<open>root\<close>; \<open>k\<close> is the position of the one the variable \<^verbatim>\<open>node\<close> of the code points to.
\<close>

fun set_sibling_at :: "nat \<Rightarrow> finsh_node option \<Rightarrow> finsh_node \<Rightarrow> finsh_node" where
  "set_sibling_at 0 s n = set_sibling s n"
| "set_sibling_at (Suc k) s n = set_sibling (map_option (set_sibling_at k s) (sibling n)) n"

definition link_statement :: "finsh_node option \<Rightarrow> nat \<Rightarrow> finsh_shell \<Rightarrow> nat \<times> finsh_shell" where
  "link_statement s k st =
     (case parser_root st of
        None \<Rightarrow> (0, st\<lparr>parser_root := s\<rparr>)
      | Some r \<Rightarrow> (if s = None then k else k + 1, st\<lparr>parser_root := Some (set_sibling_at k s r)\<rparr>))"

fun parser_loop :: "finsh_tables \<Rightarrow> nat \<Rightarrow> nat \<Rightarrow> finsh_token_type \<Rightarrow> finsh_shell \<Rightarrow> finsh_shell option" where
  "parser_loop G 0 k token st = None"
| "parser_loop G (Suc n) k token st =
     (if token = finsh_token_type_eof \<or> token = finsh_token_type_bad then Some st
      else do {
        let decl = (is_base_type token \<or> token = finsh_token_type_unsigned);
        let fresh = (parser_root st = None);
        (s, st) \<leftarrow> (if decl then proc_variable_decl G n (finsh_token_replay st)
                    else proc_expr_statement G n (finsh_token_replay st));
        let (k, st) = link_statement s k st;
        st \<leftarrow> (if \<not> decl \<and> token \<noteq> finsh_token_type_identifier \<and> \<not> fresh \<and> s = None
               then map_option snd (finsh_token_token st) else Some st);
        if parser_root st = None then Some st
        else do { (token, st) \<leftarrow> finsh_token_token st; parser_loop G n k token st } })"

definition finsh_parser_run :: "finsh_tables \<Rightarrow> nat \<Rightarrow> u8 list \<Rightarrow> finsh_shell \<Rightarrow> finsh_shell option" where
  "finsh_parser_run G n line st =
     do { (token, st) \<leftarrow> finsh_token_token (finsh_token_init line st); parser_loop G n 0 token st }"

section \<open>Lines\<close>

definition finsh_flush :: "finsh_shell \<Rightarrow> finsh_shell" where
  "finsh_flush st =
     finsh_error_set FINSH_ERROR_OK (finsh_node_init ((finsh_token_init [] st)\<lparr>parser_root := None\<rparr>))"

definition finsh_init :: "finsh_shell \<Rightarrow> finsh_shell" where
  "finsh_init st = (finsh_flush st)\<lparr>shell_data := finsh_heap_init (finsh_var_init (shell_data st))\<rparr>"

definition finsh_reset :: "finsh_shell \<Rightarrow> finsh_shell" where
  "finsh_reset st =
     finsh_error_set FINSH_ERROR_OK (finsh_node_init (st\<lparr>shell_data := finsh_heap_init (finsh_var_init (shell_data st))\<rparr>))"

text \<open>The types of the variables, which the compiler reads in their structures; \<open>S\<close> has those of the system's.\<close>

definition symbols_of :: "symbols \<Rightarrow> finsh_data \<Rightarrow> symbols" where
  "symbols_of S d =
     S\<lparr>var_type := (\<lambda>p. case find (\<lambda>i. var_addr (variable_base d) i = p) [0..<length (global_variable d)] of
                      Some i \<Rightarrow> fvar_type (global_variable d ! i) | None \<Rightarrow> finsh_type_unknown)\<rparr>"

text \<open>
  The memory is that of the variables and the heap.  The result is the value the line prints; a line with an error has none.
\<close>

definition finsh_run_line ::
  "finsh_tables \<Rightarrow> symbols \<Rightarrow> syscalls \<Rightarrow> nat \<Rightarrow> u8 list \<Rightarrow> finsh_shell \<times> finsh_vm \<Rightarrow> (u32 option \<times> finsh_shell \<times> finsh_vm) option" where
  "finsh_run_line G S sys n line = (\<lambda>(st, vm).
     do { st \<leftarrow> finsh_parser_run G n line st;
          (st, vm) \<leftarrow>
            (if global_errno st = FINSH_ERROR_OK then
               do { (vm, e) \<leftarrow> finsh_compiler_run (symbols_of S (shell_data st)) (parser_root st) FINSH_ERROR_OK vm;
                    Some (finsh_error_set e st, vm) }
             else Some (st, vm));
          if global_errno st = FINSH_ERROR_OK then
            do { vm \<leftarrow> finsh_vm_run sys (vm\<lparr>vm_mem := shell_mem (shell_data st)\<rparr>);
                 let st = st\<lparr>shell_data := (shell_data st)\<lparr>shell_mem := vm_mem vm\<rparr>\<rparr>;
                 Some (Some (finsh_stack_bottom vm), finsh_flush st, vm) }
          else Some (None, finsh_flush st, vm) })"

end
