(* ===== verification/FinshSem.thy ===== *)
theory FinshSem
  imports FinshCompiler
begin

text \<open>
  A semantics of the expressions of the finsh shell that knows nothing of byte code, the tree the parser
  makes of an expression and the code it should have.  The expressions are typed the way they are meant
  to be: both operands of an operation have the width of the operation.
\<close>

unbundle bit_operations_syntax

section \<open>Expressions\<close>

text \<open>A variable or a system variable, by the address of its structure.\<close>

datatype lval = LVar u32 | LSys u32

datatype fexpr =
    EChar u8
  | EInt u32
  | ELong u32
  | ENull
  | EId lval
  | EBin binop fexpr fexpr
  | EBitwise fexpr
  | EAssign lval fexpr
  | EPre binop u32
  | EPost binop u32
  | ECall u32 "fexpr list"
  | EDeref fexpr
  | EStore fexpr fexpr \<comment> \<open>\<^verbatim>\<open>*p = x\<close>\<close>
  | EAddr lval

section \<open>The tree\<close>

definition leaf :: "finsh_node_type \<Rightarrow> u8 \<Rightarrow> u32 \<Rightarrow> u32 \<Rightarrow> finsh_node" where
  "leaf nt it v p = Node nt 0 it v p None None"

fun lval_node :: "lval \<Rightarrow> finsh_node" where
  "lval_node (LVar p) = leaf FINSH_NODE_ID FINSH_IDTYPE_VAR 0 p"
| "lval_node (LSys p) = leaf FINSH_NODE_ID FINSH_IDTYPE_SYSVAR 0 p"

text \<open>What \<^verbatim>\<open>make_sys_node\<close> makes.\<close>

definition sys_node :: "finsh_node_type \<Rightarrow> finsh_node \<Rightarrow> finsh_node option \<Rightarrow> finsh_node" where
  "sys_node nt n1 n2 = Node nt 0 0 0 0 (Some (set_sibling n2 n1)) None"

abbreviation inc_type :: "binop \<Rightarrow> finsh_node_type" where
  "inc_type f \<equiv> (if f = Add then FINSH_NODE_SYS_INC else FINSH_NODE_SYS_DEC)"

abbreviation preinc_type :: "binop \<Rightarrow> finsh_node_type" where
  "preinc_type f \<equiv> (if f = Add then FINSH_NODE_SYS_PREINC else FINSH_NODE_SYS_PREDEC)"

fun node_of :: "fexpr \<Rightarrow> finsh_node" and nodes_of :: "fexpr list \<Rightarrow> finsh_node option" where
  "node_of (EChar c) = leaf FINSH_NODE_VALUE_CHAR 0 (ucast c) 0"
| "node_of (EInt n) = leaf FINSH_NODE_VALUE_INT 0 n 0"
| "node_of (ELong n) = leaf FINSH_NODE_VALUE_LONG 0 n 0"
| "node_of ENull = leaf FINSH_NODE_VALUE_NULL 0 0 0"
| "node_of (EId l) = lval_node l"
| "node_of (EBin f a b) = sys_node (FINSH_NODE_SYS_BIN f) (node_of a) (Some (node_of b))"
| "node_of (EBitwise a) = sys_node FINSH_NODE_SYS_BITWISE (node_of a) None"
| "node_of (EAssign l e) = sys_node FINSH_NODE_SYS_ASSIGN (lval_node l) (Some (node_of e))"
| "node_of (EPre f p) = sys_node (preinc_type f) (lval_node (LVar p)) None"
| "node_of (EPost f p) = sys_node (inc_type f) (lval_node (LVar p)) None"
| "node_of (ECall p es) = sys_node FINSH_NODE_SYS_FUNC (leaf FINSH_NODE_ID FINSH_IDTYPE_SYSCALL 0 p) (nodes_of es)"
| "node_of (EDeref a) = sys_node FINSH_NODE_SYS_GETVALUE (node_of a) None"
| "node_of (EStore a b) = sys_node FINSH_NODE_SYS_ASSIGN (sys_node FINSH_NODE_SYS_GETVALUE (node_of a) None) (Some (node_of b))"
| "node_of (EAddr l) = sys_node FINSH_NODE_SYS_GETADDR (lval_node l) None"
| "nodes_of [] = None"
| "nodes_of (e # es) = Some (set_sibling (nodes_of es) (node_of e))"

section \<open>Types\<close>

fun lval_type :: "symbols \<Rightarrow> lval \<Rightarrow> finsh_type" where
  "lval_type S (LVar p) = var_type S p"
| "lval_type S (LSys p) = sysvar_type S p"

fun lval_addr :: "symbols \<Rightarrow> lval \<Rightarrow> u32" where
  "lval_addr S (LVar p) = var_value p"
| "lval_addr S (LSys p) = sysvar_var S p"

fun lval_ptr :: "lval \<Rightarrow> u32" where
  "lval_ptr (LVar p) = p" | "lval_ptr (LSys p) = p"

definition lval_width :: "symbols \<Rightarrow> lval \<Rightarrow> width option" where
  "lval_width S l = (if lval_ptr l = 0 then None else load_width (lval_type S l))"

text \<open>The width of a value on the stack; a well-typed expression has one.\<close>

fun ewidth :: "symbols \<Rightarrow> fexpr \<Rightarrow> width" where
  "ewidth S (EChar c) = BYTE"
| "ewidth S (EId l) = the (lval_width S l)"
| "ewidth S (EBin f a b) = ewidth S a"
| "ewidth S (EBitwise a) = ewidth S a"
| "ewidth S (EAssign l e) = the (lval_width S l)"
| "ewidth S (EPre f p) = the (lval_width S (LVar p))"
| "ewidth S (EPost f p) = the (lval_width S (LVar p))"
| "ewidth S _ = DWORD"

text \<open>The type the compiler works out from the left is that width; not so for a call, and for \<^verbatim>\<open>&\<close> of a shorter variable.\<close>

fun typed_left :: "symbols \<Rightarrow> fexpr \<Rightarrow> bool" where
  "typed_left S (ECall p es) = False"
| "typed_left S (EAddr l) = (lval_width S l = Some DWORD)"
| "typed_left S (EDeref a) = typed_left S a"
| "typed_left S (EStore a b) = typed_left S a"
| "typed_left S (EBin f a b) = typed_left S a"
| "typed_left S (EBitwise a) = typed_left S a"
| "typed_left S _ = True"

fun well_typed :: "symbols \<Rightarrow> fexpr \<Rightarrow> bool" where
  "well_typed S (EChar c) = True"
| "well_typed S (EInt n) = True"
| "well_typed S (ELong n) = True"
| "well_typed S ENull = True"
| "well_typed S (EId l) = (lval_width S l \<noteq> None)"
| "well_typed S (EBin f a b) = (well_typed S a \<and> well_typed S b \<and> typed_left S a \<and> ewidth S a = ewidth S b)"
| "well_typed S (EBitwise a) = (well_typed S a \<and> typed_left S a)"
| "well_typed S (EAssign l e) = (well_typed S e \<and> lval_width S l = Some (ewidth S e))"
| "well_typed S (EPre f p) = (lval_width S (LVar p) \<noteq> None \<and> (f = Add \<or> f = Sub))"
| "well_typed S (EPost f p) = (lval_width S (LVar p) \<noteq> None \<and> (f = Add \<or> f = Sub))"
| "well_typed S (ECall p es) = (length es \<le> 16 \<and> (\<forall>e\<in>set es. well_typed S e \<and> ewidth S e = DWORD))"
| "well_typed S (EDeref a) = (well_typed S a \<and> typed_left S a \<and> ewidth S a = DWORD)"
| "well_typed S (EStore a b) = (well_typed S a \<and> typed_left S a \<and> ewidth S a = DWORD \<and> well_typed S b \<and> ewidth S b = DWORD)"
| "well_typed S (EAddr l) = (lval_width S l \<noteq> None)"

section \<open>Meaning\<close>

text \<open>A number converted to a width.\<close>

definition wrap :: "width \<Rightarrow> int \<Rightarrow> int" where
  "wrap w x = cell_int w (cell_put w x 0)"

fun eval :: "symbols \<Rightarrow> syscalls \<Rightarrow> fexpr \<Rightarrow> bytes \<Rightarrow> (int \<times> bytes) option"
  and evals :: "symbols \<Rightarrow> syscalls \<Rightarrow> fexpr list \<Rightarrow> bytes \<Rightarrow> (int list \<times> bytes) option" where
  "eval S sys (EChar c) m = Some (uint c, m)"
| "eval S sys (EInt n) m = Some (sint n, m)"
| "eval S sys (ELong n) m = Some (sint n, m)"
| "eval S sys ENull m = Some (0, m)"
| "eval S sys (EId l) m = Some (mem_int (the (lval_width S l)) m (lval_addr S l), m)"
| "eval S sys (EBin f a b) m =
     do { (x, m) \<leftarrow> eval S sys a m; (y, m) \<leftarrow> eval S sys b m; z \<leftarrow> c_op f x y; Some (wrap (ewidth S a) z, m) }"
| "eval S sys (EBitwise a) m = do { (x, m) \<leftarrow> eval S sys a m; Some (wrap (ewidth S a) (NOT x), m) }"
| "eval S sys (EAssign l e) m =
     do { (x, m) \<leftarrow> eval S sys e m; Some (x, mem_put (ewidth S e) (lval_addr S l) x m) }"
| "eval S sys (EPre f p) m =
     do { let w = the (lval_width S (LVar p));
          z \<leftarrow> c_op f (mem_int w m (var_value p)) 1;
          Some (wrap w z, mem_put w (var_value p) z m) }"
| "eval S sys (EPost f p) m =
     do { let w = the (lval_width S (LVar p));
          let x = mem_int w m (var_value p);
          z \<leftarrow> c_op f x 1;
          Some (x, mem_put w (var_value p) z m) }"
| "eval S sys (ECall p es) m =
     do { (xs, m) \<leftarrow> evals S sys es m;
          (r, m) \<leftarrow> sys (syscall_func S p) (if es = [] then [0] else map word_of_int xs) m;
          Some (sint r, m) }"
| "eval S sys (EDeref a) m = do { (x, m) \<leftarrow> eval S sys a m; Some (mem_int DWORD m (word_of_int x), m) }"
| "eval S sys (EStore a b) m =
     do { (x, m) \<leftarrow> eval S sys a m; (y, m) \<leftarrow> eval S sys b m; Some (y, mem_put DWORD (word_of_int x) y m) }"
| "eval S sys (EAddr l) m = Some (sint (lval_addr S l), m)"
| "evals S sys [] m = Some ([], m)"
| "evals S sys (e # es) m = do { (x, m) \<leftarrow> eval S sys e m; (xs, m) \<leftarrow> evals S sys es m; Some (x # xs, m) }"

section \<open>The code\<close>

definition ld_addr :: "u32 \<Rightarrow> u8 list" where
  "ld_addr a = op_code (OP_ld DWORD) # dword_bytes a"

definition ld_val :: "width \<Rightarrow> u32 \<Rightarrow> u8 list" where
  "ld_val w a = op_code (OP_ld_value w) # dword_bytes a"

definition st_back :: "width \<Rightarrow> u8 list" where
  "st_back w = [op_code (OP_st w), op_code (OP_ld_value_stack w)]"

fun code :: "symbols \<Rightarrow> fexpr \<Rightarrow> u8 list" and codes :: "symbols \<Rightarrow> fexpr list \<Rightarrow> u8 list" where
  "code S (EChar c) = [op_code (OP_ld BYTE), c]"
| "code S (EInt n) = ld_addr n"
| "code S (ELong n) = ld_addr n"
| "code S ENull = ld_addr 0"
| "code S (EId l) = ld_val (the (lval_width S l)) (lval_addr S l)"
| "code S (EBin f a b) = code S a @ code S b @ [op_code (OP_bin f (ewidth S a))]"
| "code S (EBitwise a) = code S a @ [op_code (OP_bw (ewidth S a))]"
| "code S (EAssign l e) = ld_addr (lval_addr S l) @ code S e @ st_back (ewidth S e)"
| "code S (EPre f p) = (let w = the (lval_width S (LVar p)); a = var_value p in
     ld_addr a @ ld_val w a @ one_code w @ [op_code (OP_bin f w), op_code (OP_st w), op_code (OP_ld_value_stack DWORD)])"
| "code S (EPost f p) = (let w = the (lval_width S (LVar p)); a = var_value p in
     ld_val w a @ ld_addr a @ ld_val w a @ one_code w @ [op_code (OP_bin f w), op_code (OP_st w), op_code OP_pop])"
| "code S (ECall p es) = ld_addr (syscall_func S p) @ codes S es @ [op_code OP_call, word_of_nat (length es)]"
| "code S (EDeref a) = code S a @ [op_code (OP_ld_value_stack DWORD)]"
| "code S (EStore a b) = code S a @ code S b @ st_back DWORD"
| "code S (EAddr l) = ld_addr (lval_addr S l)"
| "codes S [] = []"
| "codes S (e # es) = code S e @ codes S es"

text \<open>The cells an expression needs.\<close>

fun depth :: "fexpr \<Rightarrow> nat" and depths :: "fexpr list \<Rightarrow> nat" where
  "depth (EBin f a b) = max (depth a) (Suc (depth b))"
| "depth (EBitwise a) = depth a"
| "depth (EAssign l e) = Suc (depth e)"
| "depth (EPre f p) = 3"
| "depth (EPost f p) = 4"
| "depth (ECall p es) = Suc (depths es)"
| "depth (EDeref a) = depth a"
| "depth (EStore a b) = max (depth a) (Suc (depth b))"
| "depth _ = 1"
| "depths [] = 0"
| "depths (e # es) = max (depth e) (Suc (depths es))"

end
