(* ===== verification/FinshCorrect.thy ===== *)
theory FinshCorrect
  imports FinshSem
begin

text \<open>
  The compiler of the finsh shell generates the code of theory FinshSem for every well-typed expression, and the
  virtual machine that runs this code computes the value of the expression.
\<close>

unbundle bit_operations_syntax

section \<open>The type check of a tree\<close>

lemma load_type_data: "load_width ty = Some w \<Longrightarrow> \<exists>d. type_data ty = Some d \<and> data_width d = Some w"
  by (cases ty) auto

fun width_data :: "width \<Rightarrow> u8" where
  "width_data BYTE = FINSH_DATA_TYPE_BYTE" | "width_data WORD = FINSH_DATA_TYPE_WORD" | "width_data DWORD = FINSH_DATA_TYPE_DWORD"

lemma data_width_data [simp]: "data_width (width_data w) = Some w"
  by (cases w) simp_all

lemma load_type_width_data: "load_width ty = Some w \<Longrightarrow> type_data ty = Some (width_data w)"
  by (cases ty) auto

text \<open>The data type the check gives the node of an expression.\<close>

fun dtype :: "symbols \<Rightarrow> fexpr \<Rightarrow> u8" where
  "dtype S (EChar c) = FINSH_DATA_TYPE_BYTE"
| "dtype S (EId l) = width_data (the (lval_width S l))"
| "dtype S (EBin f a b) = dtype S a"
| "dtype S (EBitwise a) = dtype S a"
| "dtype S (EAssign l e) = width_data (the (lval_width S l))"
| "dtype S (EPre f p) = width_data (the (lval_width S (LVar p)))"
| "dtype S (EPost f p) = width_data (the (lval_width S (LVar p)))"
| "dtype S (ECall p es) = FINSH_DATA_TYPE_VOID"
| "dtype S (EDeref a) = dtype S a"
| "dtype S (EStore a b) = dtype S a"
| "dtype S (EAddr l) = width_data (the (lval_width S l))"
| "dtype S _ = FINSH_DATA_TYPE_DWORD"

lemma dtype_ewidth: "well_typed S e \<Longrightarrow> typed_left S e \<Longrightarrow> dtype S e = width_data (ewidth S e)"
  by (induction e) auto

text \<open>The tree after the check, with the flag that asks for an address.\<close>

fun lval_typed :: "symbols \<Rightarrow> u8 \<Rightarrow> lval \<Rightarrow> finsh_node" where
  "lval_typed S a (LVar p) = Node FINSH_NODE_ID (width_data (the (lval_width S (LVar p)))) (FINSH_IDTYPE_VAR OR a) 0 p None None"
| "lval_typed S a (LSys p) = Node FINSH_NODE_ID (width_data (the (lval_width S (LSys p)))) (FINSH_IDTYPE_SYSVAR OR a) 0 p None None"

definition typed_sys :: "finsh_node_type \<Rightarrow> u8 \<Rightarrow> finsh_node \<Rightarrow> finsh_node option \<Rightarrow> finsh_node" where
  "typed_sys nt it n1 n2 = Node nt (data_type n1) it 0 0 (Some (set_sibling n2 n1)) None"

fun typed_of :: "symbols \<Rightarrow> fexpr \<Rightarrow> finsh_node" and typeds_of :: "symbols \<Rightarrow> fexpr list \<Rightarrow> finsh_node option" where
  "typed_of S (EChar c) = Node FINSH_NODE_VALUE_CHAR FINSH_DATA_TYPE_BYTE 0 (ucast c) 0 None None"
| "typed_of S (EInt n) = Node FINSH_NODE_VALUE_INT FINSH_DATA_TYPE_DWORD 0 n 0 None None"
| "typed_of S (ELong n) = Node FINSH_NODE_VALUE_LONG FINSH_DATA_TYPE_DWORD 0 n 0 None None"
| "typed_of S ENull = Node FINSH_NODE_VALUE_NULL FINSH_DATA_TYPE_DWORD 0 0 0 None None"
| "typed_of S (EId l) = lval_typed S 0 l"
| "typed_of S (EBin f a b) = typed_sys (FINSH_NODE_SYS_BIN f) 0 (typed_of S a) (Some (typed_of S b))"
| "typed_of S (EBitwise a) = typed_sys FINSH_NODE_SYS_BITWISE 0 (typed_of S a) None"
| "typed_of S (EAssign l e) = typed_sys FINSH_NODE_SYS_ASSIGN 0 (lval_typed S FINSH_IDTYPE_ADDRESS l) (Some (typed_of S e))"
| "typed_of S (EPre f p) = typed_sys (preinc_type f) 0 (lval_typed S FINSH_IDTYPE_ADDRESS (LVar p)) None"
| "typed_of S (EPost f p) = typed_sys (inc_type f) 0 (lval_typed S 0 (LVar p)) None"
| "typed_of S (ECall p es) = typed_sys FINSH_NODE_SYS_FUNC 0 (Node FINSH_NODE_ID 0 FINSH_IDTYPE_SYSCALL 0 p None None) (typeds_of S es)"
| "typed_of S (EDeref a) = typed_sys FINSH_NODE_SYS_GETVALUE 0 (typed_of S a) None"
| "typed_of S (EStore a b) =
     typed_sys FINSH_NODE_SYS_ASSIGN 0 (typed_sys FINSH_NODE_SYS_GETVALUE FINSH_IDTYPE_ADDRESS (typed_of S a) None) (Some (typed_of S b))"
| "typed_of S (EAddr l) = typed_sys FINSH_NODE_SYS_GETADDR 0 (lval_typed S FINSH_IDTYPE_ADDRESS l) None"
| "typeds_of S [] = None"
| "typeds_of S (e # es) = Some (set_sibling (typeds_of S es) (typed_of S e))"

lemma data_type_set_sibling [simp]: "data_type (set_sibling s n) = data_type n" "set_sibling s (set_sibling s' n) = set_sibling s n"
  "node_type (set_sibling s n) = node_type n" "id_ptr (set_sibling s n) = id_ptr n" "child (set_sibling s n) = child n"
  "idtype (set_sibling s n) = idtype n" "sibling (set_sibling s n) = s" "node_value (set_sibling s n) = node_value n"
  by (cases n; simp)+

lemma data_type_typed: "well_typed S e \<Longrightarrow> data_type (typed_of S e) = dtype S e"
proof (induction e)
  case (EId l)
  then show ?case by (cases l) auto
next
  case (EAssign l e)
  then show ?case by (cases l) (auto simp: typed_sys_def)
next
  case (EAddr l)
  then show ?case by (cases l) (auto simp: typed_sys_def)
qed (auto simp: typed_sys_def)

text \<open>The check of the siblings, if there are any.\<close>

definition check_opt :: "symbols \<Rightarrow> finsh_node option \<Rightarrow> finsh_error \<Rightarrow> finsh_node option \<times> finsh_error" where
  "check_opt S s e = (case s of None \<Rightarrow> (None, e) | Some n \<Rightarrow> (let (n', e) = finsh_type_check S 0 n e in (Some n', e)))"

lemma check_opt_simps [simp]:
  "check_opt S None e = (None, e)"
  "finsh_type_check S 0 n e = (n', e') \<Longrightarrow> check_opt S (Some n) e = (Some n', e')"
  by (simp_all add: check_opt_def)

lemma check_sys:
  assumes c: "finsh_type_check S (child_is_addr nt a) (set_sibling n2 n1) e = (n1', e)" and s: "check_opt S s e = (s', e)"
  shows "finsh_type_check S a (set_sibling s (sys_node nt n1 n2)) e = (Node nt (data_type n1') a 0 0 (Some n1') s', e)"
  using c s by (simp add: sys_node_def check_opt_def)

lemma check_lval:
  assumes w: "lval_width S l = Some w" and s: "check_opt S s e = (s', e)" and a: "a = 0 \<or> a = FINSH_IDTYPE_ADDRESS"
  shows "finsh_type_check S a (set_sibling s (lval_node l)) e = (set_sibling s' (lval_typed S a l), e)"
proof -
  have t: "type_data (lval_type S l) = Some (width_data w)" "lval_ptr l \<noteq> 0"
    using w load_type_width_data [of "lval_type S l" w] by (auto simp: lval_width_def split: if_splits)
  show ?thesis
  proof (cases l)
    case (LVar p)
    with a s t w show ?thesis by (auto simp: leaf_def check_opt_def leaf_data_type_def id_data_type_def)
  next
    case (LSys p)
    with a s t w show ?thesis by (auto simp: leaf_def check_opt_def leaf_data_type_def id_data_type_def)
  qed
qed

lemma check_leaf:
  assumes s: "check_opt S s e = (s', e)" and "leaf_data_type S nt it p 0 e = (d, e)"
  shows "finsh_type_check S 0 (set_sibling s (leaf nt it v p)) e = (Node nt d it v p None s', e)"
  using assms by (auto simp: leaf_def check_opt_def)

lemma sibling_lval [simp]: "set_sibling None (lval_node l) = lval_node l" "set_sibling None (lval_typed S a l) = lval_typed S a l"
  by (cases l; simp add: leaf_def)+

lemma sibling_leaf [simp]: "set_sibling None (leaf nt it v p) = leaf nt it v p" "set_sibling None (sys_node nt a b) = sys_node nt a b"
  "set_sibling None (typed_sys nt it a b) = typed_sys nt it a b"
  by (simp_all add: leaf_def sys_node_def typed_sys_def)

lemma sibling_None [simp]: "set_sibling None (node_of x) = node_of x" "set_sibling None (typed_of S x) = typed_of S x"
  by (cases x; simp)+

lemma check_chain:
  assumes "\<And>x s s'. x \<in> set xs \<Longrightarrow> check_opt S s e = (s', e) \<Longrightarrow>
     finsh_type_check S 0 (set_sibling s (node_of x)) e = (set_sibling s' (typed_of S x), e)"
  shows "check_opt S (nodes_of xs) e = (typeds_of S xs, e)"
  using assms
proof (induction xs)
  case (Cons x xs)
  have "check_opt S (nodes_of xs) e = (typeds_of S xs, e)" using Cons by simp
  from Cons.prems [OF _ this, of x] show ?case by simp
qed simp

lemma typed_sysE:
  assumes "finsh_type_check S (child_is_addr nt 0) (set_sibling n2 n1) e = (set_sibling n2' n1', e)" and "check_opt S s e = (s', e)"
  shows "finsh_type_check S 0 (set_sibling s (sys_node nt n1 n2)) e = (set_sibling s' (typed_sys nt 0 n1' n2'), e)"
  using check_sys [OF assms] by (simp add: typed_sys_def)

lemma type_check_typed:
  "well_typed S x \<Longrightarrow> check_opt S s e = (s', e) \<Longrightarrow>
     finsh_type_check S 0 (set_sibling s (node_of x)) e = (set_sibling s' (typed_of S x), e)"
proof (induction x arbitrary: s s')
  case (EId l)
  then show ?case using check_lval [of S l _ s e s' 0] by auto
next
  case (EBin f a b)
  have "check_opt S (Some (node_of b)) e = (Some (typed_of S b), e)" using EBin.IH(2) [of None None] EBin.prems by simp
  then show ?case using EBin by (auto intro!: typed_sysE simp: child_is_addr_def)
next
  case (EBitwise a)
  then show ?case using EBitwise.IH [of None None] by (auto intro!: typed_sysE simp: child_is_addr_def)
next
  case (EAssign l b)
  have "check_opt S (Some (node_of b)) e = (Some (typed_of S b), e)" using EAssign.IH [of None None] EAssign.prems by simp
  then show ?case using EAssign.prems by (auto intro!: typed_sysE check_lval simp: child_is_addr_def)
next
  case (EPre f p)
  then show ?case using check_lval [of S "LVar p" _ None e None FINSH_IDTYPE_ADDRESS] by (auto intro!: typed_sysE simp: child_is_addr_def)
next
  case (EPost f p)
  then show ?case using check_lval [of S "LVar p" _ None e None 0] by (auto intro!: typed_sysE simp: child_is_addr_def)
next
  case (ECall p es)
  have "check_opt S (nodes_of es) e = (typeds_of S es, e)" using ECall by (intro check_chain) auto
  then show ?case using ECall.prems
    by (auto intro!: typed_sysE simp: child_is_addr_def check_leaf leaf_data_type_def id_data_type_def)
next
  case (EDeref a)
  then show ?case using EDeref.IH [of None None] by (auto intro!: typed_sysE simp: child_is_addr_def)
next
  case (EStore a b)
  have b: "check_opt S (Some (node_of b)) e = (Some (typed_of S b), e)" using EStore.IH(2) [of None None] EStore.prems by simp
  have "finsh_type_check S 0 (node_of a) e = (typed_of S a, e)" using EStore.IH(1) [of None None] EStore.prems by simp
  then have "finsh_type_check S FINSH_IDTYPE_ADDRESS (set_sibling (Some (node_of b)) (sys_node FINSH_NODE_SYS_GETVALUE (node_of a) None)) e =
    (set_sibling (Some (typed_of S b)) (typed_sys FINSH_NODE_SYS_GETVALUE FINSH_IDTYPE_ADDRESS (typed_of S a) None), e)"
    using check_sys [OF _ b, of FINSH_NODE_SYS_GETVALUE FINSH_IDTYPE_ADDRESS None "node_of a" "typed_of S a"]
    by (simp add: child_is_addr_def typed_sys_def)
  then show ?case using EStore.prems by (auto intro!: typed_sysE simp: child_is_addr_def)
next
  case (EAddr l)
  then show ?case using check_lval [of S l _ None e None FINSH_IDTYPE_ADDRESS] by (auto intro!: typed_sysE simp: child_is_addr_def)
qed (auto simp: check_leaf leaf_data_type_def)

section \<open>The code of a tree\<close>

lemma emit_append: "emit (as @ bs) st = do { st \<leftarrow> emit as st; emit bs st }"
proof (induction as arbitrary: st)
  case (Cons a as)
  then have "emit (as @ bs) = (\<lambda>st. do { st \<leftarrow> emit as st; emit bs st })" by blast
  then show ?case by simp
qed simp

lemma bind_emit_append: "do { st \<leftarrow> emit (as @ bs) st; g st } = do { st \<leftarrow> emit as st; st \<leftarrow> emit bs st; g st }"
  by (simp add: emit_append)

definition compile_opt :: "symbols \<Rightarrow> finsh_node option \<Rightarrow> compiler \<Rightarrow> compiler option" where
  "compile_opt S s st = (case s of None \<Rightarrow> Some st | Some n \<Rightarrow> finsh_compile S n st)"

lemma compile_opt_simps [simp]: "compile_opt S None = Some" "compile_opt S (Some n) = finsh_compile S n"
  by (simp_all add: compile_opt_def fun_eq_iff)

lemma node_code_sibling: "node_code S (set_sibling s n) = node_code S n"
  by (cases "node_type n") (simp_all add: node_code_def)

lemma compile_node:
  assumes "node_code S n = Some (bs, None)"
  shows "finsh_compile S (set_sibling s n) st =
    do { st \<leftarrow> compile_opt S (child n) st; st \<leftarrow> emit bs st; compile_opt S s st }"
  using assms node_code_sibling [of S s n] by (cases n) (simp add: compile_opt_def split: option.splits)

lemma compile_sys:
  assumes "node_code S (typed_sys nt it n1 n2) = Some (bs, None)"
    and "\<And>st. finsh_compile S (set_sibling n2 n1) st = do { st \<leftarrow> emit as st; compile_opt S n2 st }"
    and "\<And>st. compile_opt S n2 st = emit cs st"
  shows "finsh_compile S (set_sibling s (typed_sys nt it n1 n2)) st = do { st \<leftarrow> emit (as @ cs @ bs) st; compile_opt S s st }"
  using assms(2,3) by (simp add: compile_node [OF assms(1)] emit_append) (simp add: typed_sys_def emit_append)

lemma compile_sys1:
  assumes "node_code S (typed_sys nt it n None) = Some (bs, None)" and "\<And>st. finsh_compile S (set_sibling None n) st = emit as st"
  shows "finsh_compile S (set_sibling s (typed_sys nt it n None)) st = do { st \<leftarrow> emit (as @ bs) st; compile_opt S s st }"
  using compile_sys [OF assms(1), of as "[]"] assms(2) by simp

lemma compile_lval:
  assumes "lval_width S l = Some w"
  shows "finsh_compile S (set_sibling s (lval_typed S 0 l)) st = do { st \<leftarrow> emit (ld_val w (lval_addr S l)) st; compile_opt S s st }"
    "finsh_compile S (set_sibling s (lval_typed S FINSH_IDTYPE_ADDRESS l)) st =
       do { st \<leftarrow> emit (ld_addr (lval_addr S l)) st; compile_opt S s st }"
proof -
  have "load_width (lval_type S l) = Some w" "lval_ptr l \<noteq> 0" using assms by (auto simp: lval_width_def split: if_splits)
  then have "node_code S (lval_typed S 0 l) = Some (ld_val w (lval_addr S l), None)"
    "node_code S (lval_typed S FINSH_IDTYPE_ADDRESS l) = Some (ld_addr (lval_addr S l), None)"
    by (cases l; simp add: node_code_def id_code_def load_code_def ld_val_def ld_addr_def)+
  note this [THEN compile_node, of s st]
  moreover have "child (lval_typed S a l) = None" for a by (cases l) auto
  ultimately show "finsh_compile S (set_sibling s (lval_typed S 0 l)) st = do { st \<leftarrow> emit (ld_val w (lval_addr S l)) st; compile_opt S s st }"
    "finsh_compile S (set_sibling s (lval_typed S FINSH_IDTYPE_ADDRESS l)) st =
       do { st \<leftarrow> emit (ld_addr (lval_addr S l)) st; compile_opt S s st }" by simp_all
qed

lemma compile_leaf:
  assumes "node_code S (Node nt d it v p None None) = Some (bs, None)"
  shows "finsh_compile S (Node nt d it v p None s) st = do { st \<leftarrow> emit bs st; compile_opt S s st }"
  using compile_node [OF assms, of s st] by simp

lemma compile_chain:
  assumes "\<And>x s st. x \<in> set xs \<Longrightarrow>
     finsh_compile S (set_sibling s (typed_of S x)) st = do { st \<leftarrow> emit (code S x) st; compile_opt S s st }"
  shows "compile_opt S (typeds_of S xs) st = emit (codes S xs) st"
  using assms
proof (induction xs arbitrary: st)
  case (Cons x xs)
  then have "compile_opt S (typeds_of S xs) = emit (codes S xs)" by auto
  then show ?case using Cons.prems [of x] by (simp add: emit_append)
qed simp

lemma count_typeds: "count_siblings (Node nt d it v p c (typeds_of S es)) = length es"
proof (induction es arbitrary: nt d it v p c)
  case (Cons x xs)
  then show ?case by (cases "typed_of S x") simp
qed simp

lemma lval_data_type: "data_type (lval_typed S a l) = width_data (the (lval_width S l))" "node_type (lval_typed S a l) = FINSH_NODE_ID"
  by (cases l; simp)+

lemma node_type_typed_sys [simp]: "node_type (typed_sys nt it a b) = nt" "data_type (typed_sys nt it a b) = data_type a"
  "idtype (typed_sys nt it a b) = it" "child (typed_sys nt it a b) = Some (set_sibling b a)"
  by (simp_all add: typed_sys_def)

lemma ucast8: "(ucast (ucast (c :: u8) :: u32) :: u8) = c"
  by (rule bit_eqI) (simp add: bit_simps)

lemma compile_typed:
  "well_typed S x \<Longrightarrow>
     finsh_compile S (set_sibling s (typed_of S x)) st = do { st \<leftarrow> emit (code S x) st; compile_opt S s st }"
proof (induction x arbitrary: s st)
  case (EId l)
  then show ?case using compile_lval [of S l] by auto
next
  case (EBin f a b)
  then have d: "data_width (data_type (typed_of S a)) = Some (ewidth S a)" by (simp add: data_type_typed dtype_ewidth del: data_width.simps)
  then show ?case using EBin EBin.IH(2) [of None]
    by (auto simp: node_code_def width_code_def simp del: data_width.simps intro!: compile_sys)
next
  case (EBitwise a)
  then have d: "data_width (data_type (typed_of S a)) = Some (ewidth S a)" by (simp add: data_type_typed dtype_ewidth del: data_width.simps)
  then show ?case using EBitwise EBitwise.IH [of None]
    by (auto simp: node_code_def width_code_def simp del: data_width.simps intro!: compile_sys1)
next
  case (EAssign l b)
  then show ?case using EAssign.IH [of None]
    by (auto simp: node_code_def assign_code_def lval_data_type st_back_def compile_lval simp del: data_width.simps intro!: compile_sys)
next
  case (EPre f p)
  then obtain w where w: "lval_width S (LVar p) = Some w" by auto
  let ?g = "op_code (OP_ld_value w) # dword_bytes (var_value p) @ one_code w @ [op_code (OP_bin f w), op_code (OP_st w), op_code (OP_ld_value_stack DWORD)]"
  have "node_code S (typed_sys (preinc_type f) 0 (lval_typed S FINSH_IDTYPE_ADDRESS (LVar p)) None) = Some (?g, None)"
    using w EPre.prems by (auto simp: node_code_def inc_code_def pre_code_def simp del: data_width.simps dword_bytes.simps)
  from compile_sys1 [OF this, of "ld_addr (var_value p)"] compile_lval(2) [OF w, of None] w show ?case
    by (simp add: ld_val_def Let_def del: lval_typed.simps dword_bytes.simps finsh_compile.simps)
next
  case (EPost f p)
  then obtain w where w: "lval_width S (LVar p) = Some w" by auto
  let ?g = "ld_addr (var_value p) @ ld_val w (var_value p) @ one_code w @ [op_code (OP_bin f w), op_code (OP_st w), op_code OP_pop]"
  have "node_code S (typed_sys (inc_type f) 0 (lval_typed S 0 (LVar p)) None) = Some (?g, None)"
    using w EPost.prems by (auto simp: node_code_def inc_code_def post_code_def ld_addr_def ld_val_def simp del: data_width.simps dword_bytes.simps)
  from compile_sys1 [OF this, of "ld_val w (var_value p)"] compile_lval(1) [OF w, of None] w show ?case
    by (simp add: Let_def del: lval_typed.simps finsh_compile.simps)
next
  case (ECall p es)
  let ?f = "Node FINSH_NODE_ID 0 FINSH_IDTYPE_SYSCALL 0 p None None"
  have "compile_opt S (typeds_of S es) st = emit (codes S es) st" for st using ECall by (intro compile_chain) auto
  moreover have "finsh_compile S (set_sibling (typeds_of S es) ?f) st =
     do { st \<leftarrow> emit (ld_addr (syscall_func S p)) st; compile_opt S (typeds_of S es) st }" for st
  proof -
    have "node_code S ?f = Some (ld_addr (syscall_func S p), None)" by (simp add: node_code_def id_code_def ld_addr_def)
    from compile_leaf [OF this] show ?thesis by (simp del: finsh_compile.simps)
  qed
  ultimately show ?case
    using compile_sys [of S FINSH_NODE_SYS_FUNC 0 ?f "typeds_of S es" "[op_code OP_call, word_of_nat (length es)]"
        "ld_addr (syscall_func S p)" "codes S es" s st] by (simp add: node_code_def count_typeds del: count_siblings.simps)
next
  case (EDeref a)
  then have d: "data_width (data_type (typed_of S a)) = Some DWORD" by (simp add: data_type_typed dtype_ewidth)
  then show ?case using EDeref EDeref.IH [of None]
    by (auto simp: node_code_def width_code_def simp del: data_width.simps intro!: compile_sys1)
next
  case (EStore a b)
  let ?l = "typed_sys FINSH_NODE_SYS_GETVALUE FINSH_IDTYPE_ADDRESS (typed_of S a) None"
  have "data_type (typed_of S a) = FINSH_DATA_TYPE_DWORD" using EStore.prems by (simp add: data_type_typed dtype_ewidth)
  then have "node_code S (typed_sys FINSH_NODE_SYS_ASSIGN 0 ?l (Some (typed_of S b))) = Some (st_back DWORD, None)"
    by (simp add: node_code_def assign_code_def st_back_def)
  moreover have "node_code S ?l = Some ([], None)" by (simp add: node_code_def)
  from compile_sys1 [OF this, of "code S a"] EStore EStore.IH(1) [of None] have
    "finsh_compile S (set_sibling (Some (typed_of S b)) ?l) st = do { st \<leftarrow> emit (code S a) st; compile_opt S (Some (typed_of S b)) st }" for st
    by simp
  ultimately show ?case using compile_sys [of S FINSH_NODE_SYS_ASSIGN 0 ?l "Some (typed_of S b)" "st_back DWORD" "code S a" "code S b" s st]
      EStore.IH(2) [of None] EStore.prems by simp
next
  case (EAddr l)
  then obtain w where w: "lval_width S l = Some w" by auto
  have "node_code S (typed_sys FINSH_NODE_SYS_GETADDR 0 (lval_typed S FINSH_IDTYPE_ADDRESS l) None) = Some ([], None)" by (simp add: node_code_def)
  from compile_sys1 [OF this, of "ld_addr (lval_addr S l)"] compile_lval(2) [OF w, of None] show ?case
    by (simp del: lval_typed.simps finsh_compile.simps)
qed (simp_all add: node_code_def ld_addr_def compile_opt_def [abs_def] ucast8 del: dword_bytes.simps)

end
