(* ===== verification/FinshParse.thy ===== *)
theory FinshParse
  imports FinshLex FinshParser FinshCorrect
begin

text \<open>
  What the parser of the finsh shell makes of the tokens of an expression.  The relation \<open>toks\<close> has the texts of an expression: the
  precedence of C for the operators, no parentheses (the parser takes any parenthesis for a cast), names for the variables
  and functions.  The parser gives the tree of the expression for each of them.
\<close>

section \<open>Tokens of expressions\<close>

fun op_level :: "binop \<Rightarrow> nat" where
  "op_level Or = 1" | "op_level Xor = 2" | "op_level And = 3" | "op_level Shl = 4" | "op_level Shr = 4"
| "op_level Add = 5" | "op_level Sub = 5" | "op_level Mul = 6" | "op_level Div = 6" | "op_level Mod = 6"

fun op_token :: "binop \<Rightarrow> finsh_token_type" where
  "op_token Or = finsh_token_type_or" | "op_token Xor = finsh_token_type_xor" | "op_token And = finsh_token_type_and"
| "op_token Shl = finsh_token_type_shl" | "op_token Shr = finsh_token_type_shr" | "op_token Add = finsh_token_type_add"
| "op_token Sub = finsh_token_type_sub" | "op_token Mul = finsh_token_type_mul" | "op_token Div = finsh_token_type_div"
| "op_token Mod = finsh_token_type_mod"

definition named :: "finsh_tables \<Rightarrow> finsh_data \<Rightarrow> u8 list \<Rightarrow> u8 \<Rightarrow> u32 \<Rightarrow> bool" where
  "named G d nm ty p \<longleftrightarrow> lookup_symbol G (take FINSH_NAME_MAX nm) d = Some (Some (ty, p))"

fun named_lval :: "finsh_tables \<Rightarrow> finsh_data \<Rightarrow> u8 list \<Rightarrow> lval \<Rightarrow> bool" where
  "named_lval G d nm (LVar p) = named G d nm FINSH_IDTYPE_VAR p"
| "named_lval G d nm (LSys p) = named G d nm FINSH_IDTYPE_SYSVAR p"

inductive toks :: "finsh_tables \<Rightarrow> finsh_data \<Rightarrow> nat \<Rightarrow> fexpr \<Rightarrow> atok list \<Rightarrow> bool"
  and args :: "finsh_tables \<Rightarrow> finsh_data \<Rightarrow> fexpr list \<Rightarrow> atok list \<Rightarrow> bool"
  for G d where
  tChar: "toks G d 8 (EChar c) [TChar c]"
| tInt: "toks G d 8 (EInt v) [TInt v]"
| tLong: "toks G d 8 (ELong v) [TLong v]"
| tNull: "toks G d 8 ENull [TOp finsh_token_type_value_null]"
| tId: "named_lval G d nm l \<Longrightarrow> toks G d 8 (EId l) [TName nm]"
| tInc: "named_lval G d nm (LVar p) \<Longrightarrow> toks G d 8 (EPost Add p) [TName nm, TOp finsh_token_type_inc]"
| tDec: "named_lval G d nm (LVar p) \<Longrightarrow> toks G d 8 (EPost Sub p) [TName nm, TOp finsh_token_type_dec]"
| tCall: "named G d nm FINSH_IDTYPE_SYSCALL p \<Longrightarrow> args G d es ts \<Longrightarrow>
    toks G d 8 (ECall p es) (TName nm # TOp finsh_token_type_left_paren # ts @ [TOp finsh_token_type_right_paren])"
| tPreInc: "named_lval G d nm (LVar p) \<Longrightarrow> toks G d 7 (EPre Add p) [TOp finsh_token_type_inc, TName nm]"
| tPreDec: "named_lval G d nm (LVar p) \<Longrightarrow> toks G d 7 (EPre Sub p) [TOp finsh_token_type_dec, TName nm]"
| tBitwise: "toks G d 7 x ts \<Longrightarrow> toks G d 7 (EBitwise x) (TOp finsh_token_type_bitwise # ts)"
| tDeref: "toks G d 7 x ts \<Longrightarrow> toks G d 7 (EDeref x) (TOp finsh_token_type_mul # ts)"
| tAddr: "named_lval G d nm l \<Longrightarrow> toks G d 7 (EAddr l) [TOp finsh_token_type_and, TName nm]"
| tMinus: "toks G d 7 x ts \<Longrightarrow> toks G d 7 (EBin Sub (ELong 0) x) (TOp finsh_token_type_sub # ts)"
| tPlus: "toks G d 7 x ts \<Longrightarrow> toks G d 7 x (TOp finsh_token_type_add # ts)"
| tBin: "toks G d (op_level f) x ts \<Longrightarrow> toks G d (Suc (op_level f)) y us \<Longrightarrow>
    toks G d (op_level f) (EBin f x y) (ts @ TOp (op_token f) # us)"
| tAssign: "named_lval G d nm l \<Longrightarrow> toks G d 0 x ts \<Longrightarrow> toks G d 0 (EAssign l x) (TName nm # TOp finsh_token_type_assign # ts)"
| tStore: "toks G d 7 x ts \<Longrightarrow> toks G d 0 y us \<Longrightarrow>
    toks G d 0 (EStore x y) (TOp finsh_token_type_mul # ts @ TOp finsh_token_type_assign # us)"
| tUp: "toks G d (Suc l) x ts \<Longrightarrow> toks G d l x ts"
| aNil: "args G d [] []"
| aOne: "toks G d 0 x ts \<Longrightarrow> args G d [x] ts"
| aCons: "toks G d 0 x ts \<Longrightarrow> args G d (y # ys) us \<Longrightarrow> args G d (x # y # ys) (ts @ TOp finsh_token_type_comma # us)"

text \<open>The entries of the node table an expression takes.\<close>

fun nodes :: "fexpr \<Rightarrow> nat" where
  "nodes (EBin f a b) = 1 + nodes a + nodes b"
| "nodes (EBitwise a) = 1 + nodes a"
| "nodes (EAssign l e) = 2 + nodes e"
| "nodes (EPre f p) = 2"
| "nodes (EPost f p) = 2"
| "nodes (ECall p es) = 2 + sum_list (map nodes es)"
| "nodes (EDeref a) = 1 + nodes a"
| "nodes (EStore a b) = 2 + nodes a + nodes b"
| "nodes (EAddr l) = 2"
| "nodes _ = 1"

section \<open>Levels\<close>

fun level_ops :: "nat \<Rightarrow> finsh_token_type \<Rightarrow> binop option" where
  "level_ops l ty =
     (if l = 1 then or_ops ty else if l = 2 then xor_ops ty else if l = 3 then and_ops ty else if l = 4 then shift_ops ty
      else if l = 5 then add_ops ty else if l = 6 then mul_ops ty else None)"

fun lev :: "finsh_tables \<Rightarrow> nat \<Rightarrow> nat \<Rightarrow> finsh_node option parser" where
  "lev G l n =
     (if l = 0 then proc_assign_expr G n
      else if l = 1 then proc_inclusive_or_expr n (proc_cast_expr G n)
      else if l = 2 then proc_exclusive_or_expr n (proc_cast_expr G n)
      else if l = 3 then proc_and_expr n (proc_cast_expr G n)
      else if l = 4 then proc_shift_expr n (proc_cast_expr G n)
      else if l = 5 then proc_additive_expr n (proc_cast_expr G n)
      else if l = 6 then proc_multiplicative_expr n (proc_cast_expr G n)
      else if l = 7 then proc_cast_expr G n
      else proc_postfix_expr G n (proc_assign_expr G n))"

declare lev.simps [simp del] level_ops.simps [simp del]

lemma lev_binary: "1 \<le> l \<Longrightarrow> l \<le> 6 \<Longrightarrow> lev G l n = binary_expr n (level_ops l) (lev G (Suc l) n)"
proof -
  assume "1 \<le> l" "l \<le> 6"
  then consider "l = 1" | "l = 2" | "l = 3" | "l = 4" | "l = 5" | "l = 6" by linarith
  then show ?thesis
    by cases (simp_all add: lev.simps level_ops.simps [abs_def] proc_inclusive_or_expr_def proc_exclusive_or_expr_def proc_and_expr_def
        proc_shift_expr_def proc_additive_expr_def proc_multiplicative_expr_def fun_eq_iff
        del: or_ops.simps xor_ops.simps and_ops.simps)
qed

lemma level_op: "level_ops (op_level f) (op_token f) = Some f"
  by (cases f) (simp_all add: level_ops.simps)

text \<open>The tokens behind an expression of a level that do not go on with it.\<close>

definition stops :: "nat \<Rightarrow> finsh_token_type \<Rightarrow> bool" where
  "stops l ty \<longleftrightarrow> ty \<notin> {finsh_token_type_inc, finsh_token_type_dec, finsh_token_type_left_paren} \<and>
     (\<forall>k\<in>{1, 2, 3, 4, 5, 6}. l \<le> k \<longrightarrow> level_ops k ty = None) \<and> (l = 0 \<longrightarrow> ty \<noteq> finsh_token_type_assign)"

lemma stops_Suc: "stops l ty \<Longrightarrow> stops (Suc l) ty"
  by (auto simp: stops_def)

lemma stops_op: "stops (Suc (op_level f)) (op_token f)"
  by (cases f) (simp_all add: stops_def level_ops.simps)

lemma stops_level: "stops l ty \<Longrightarrow> 1 \<le> l \<Longrightarrow> l \<le> 6 \<Longrightarrow> level_ops l ty = None"
proof -
  assume "stops l ty" "1 \<le> l" "l \<le> 6"
  moreover from this consider "l = 1" | "l = 2" | "l = 3" | "l = 4" | "l = 5" | "l = 6" by linarith
  ultimately show ?thesis by (auto simp: stops_def)
qed

lemma stops_end: "stops l finsh_token_type_semicolon" "stops l finsh_token_type_comma" "stops l finsh_token_type_right_paren"
  by (simp_all add: stops_def level_ops.simps)

lemma stops_assign: "0 < l \<Longrightarrow> stops l finsh_token_type_assign"
  by (simp add: stops_def level_ops.simps)

section \<open>Results\<close>

text \<open>A number of nodes made, and no other change.\<close>

definition moved :: "finsh_shell \<Rightarrow> nat \<Rightarrow> finsh_shell \<Rightarrow> bool" where
  "moved st k st' \<longleftrightarrow> node_count st' = node_count st + k \<and> global_errno st' = global_errno st \<and> shell_data st' = shell_data st \<and>
     parser_root st' = parser_root st"

definition yields :: "finsh_node option parser \<Rightarrow> finsh_shell \<Rightarrow> finsh_node \<Rightarrow> nat \<Rightarrow> atok list \<Rightarrow> bool" where
  "yields p st n k rest \<longleftrightarrow> (\<exists>st'. p st = Some (Some n, st') \<and> feeds st' rest \<and> moved st k st')"

lemma feeds_simps [simp]:
  "feeds (st\<lparr>node_count := k\<rparr>) ts = feeds st ts"
  "feeds (st\<lparr>shell_data := d\<rparr>) ts = feeds st ts"
  "feeds (st\<lparr>parser_root := r\<rparr>) ts = feeds st ts"
  "feeds ((st :: finsh_shell)\<lparr>global_errno := e\<rparr>) ts = feeds st ts"
  by (simp_all add: feeds_def at_def)

lemma moved_trans: "moved st j st1 \<Longrightarrow> moved st1 k st2 \<Longrightarrow> moved st (j + k) st2"
  by (simp add: moved_def)

lemma moved_replay [simp]: "moved st k (finsh_token_replay st') = moved st k st'" "moved (finsh_token_replay st) k st' = moved st k st'"
  by (simp_all add: moved_def finsh_token_replay_def)

lemma token_only_moved: "token_only st st' \<Longrightarrow> moved st 0 (st' :: finsh_shell)"
proof -
  assume "token_only st st'"
  then have h: "st' = st\<lparr>tok_eof := tok_eof st', tok_replay := tok_replay st', tok_position := tok_position st', current_token := current_token st',
              tok_value := tok_value st', tok_string := tok_string st'\<rparr>" by (simp only: token_only_def)
  have "node_count st' = node_count st" by (subst h) simp
  moreover have "global_errno st' = global_errno st" by (subst h) simp
  moreover have "shell_data st' = shell_data st" by (subst h) simp
  moreover have "parser_root st' = parser_root st" by (subst h) simp
  ultimately show ?thesis by (simp add: moved_def)
qed

text \<open>Reading the next token.\<close>

lemma next_token:
  assumes "feeds (st :: finsh_shell) (t # ts)"
  obtains st' where "finsh_token_token st = Some (ttype t, st')" "feeds st' ts" "feeds (finsh_token_replay st') (t # ts)" "moved st 0 st'"
    "payload t (tok_value st') (tok_string st')" "tok_replay st' = False" "current_token st' = ttype t"
proof (rule feeds_token [OF assms])
  fix st'
  assume "finsh_token_token st = Some (ttype t, st')" "feeds st' ts" "feeds (finsh_token_replay st') (t # ts)"
    "payload t (tok_value st') (tok_string st')" "token_only st st'" "tok_replay st' = False" "current_token st' = ttype t"
  then show ?thesis using token_only_moved by (intro that)
qed

lemma yieldsI: "p st = Some (Some n, st') \<Longrightarrow> feeds st' rest \<Longrightarrow> moved st k st' \<Longrightarrow> yields p st n k rest"
  by (auto simp: yields_def)

section \<open>Binary expressions\<close>

definition parses :: "finsh_tables \<Rightarrow> finsh_data \<Rightarrow> nat \<Rightarrow> fexpr \<Rightarrow> atok list \<Rightarrow> bool" where
  "parses G d l x ts \<longleftrightarrow>
     (\<exists>N. \<forall>n\<ge>N. \<forall>st t rest. feeds st (ts @ t # rest) \<longrightarrow> shell_data st = d \<longrightarrow> node_count st + nodes x \<le> FINSH_NODE_MAX \<longrightarrow> stops l (ttype t) \<longrightarrow>
        yields (lev G l n) st (node_of x) (nodes x) (t # rest))"

lemma parsesD:
  assumes "parses G d l x ts"
  obtains N where "\<And>n st t rest. N \<le> n \<Longrightarrow> feeds st (ts @ t # rest) \<Longrightarrow> shell_data st = d \<Longrightarrow> node_count st + nodes x \<le> FINSH_NODE_MAX \<Longrightarrow>
    stops l (ttype t) \<Longrightarrow> yields (lev G l n) st (node_of x) (nodes x) (t # rest)"
  using assms unfolding parses_def by blast

text \<open>The loop of a level gets to the end of the expression in \<open>c\<close> turns, whatever follows.\<close>

definition loops :: "finsh_tables \<Rightarrow> finsh_data \<Rightarrow> nat \<Rightarrow> fexpr \<Rightarrow> atok list \<Rightarrow> bool" where
  "loops G d l x ts \<longleftrightarrow>
     (\<exists>N c. \<forall>n\<ge>N. \<forall>st t rest. feeds st (ts @ t # rest) \<longrightarrow> shell_data st = d \<longrightarrow> node_count st + nodes x \<le> FINSH_NODE_MAX \<longrightarrow> stops (Suc l) (ttype t) \<longrightarrow>
        (\<exists>st'. lev G l n st = binary_loop (n - c) (level_ops l) (lev G (Suc l) n) (Some (node_of x)) (ttype t) st' \<and> c < n \<and>
           feeds st' rest \<and> feeds (finsh_token_replay st') (t # rest) \<and> moved st (nodes x) st'))"

lemma loopsD:
  assumes "loops G d l x ts"
  obtains N c where "\<And>n st t rest. N \<le> n \<Longrightarrow> feeds st (ts @ t # rest) \<Longrightarrow> shell_data st = d \<Longrightarrow> node_count st + nodes x \<le> FINSH_NODE_MAX \<Longrightarrow>
    stops (Suc l) (ttype t) \<Longrightarrow>
    \<exists>st'. lev G l n st = binary_loop (n - c) (level_ops l) (lev G (Suc l) n) (Some (node_of x)) (ttype t) st' \<and> c < n \<and>
       feeds st' rest \<and> feeds (finsh_token_replay st') (t # rest) \<and> moved st (nodes x) st'"
  using assms unfolding loops_def by blast

lemma loops_parses:
  assumes l: "loops G d l x ts" and r: "1 \<le> l" "l \<le> 6"
  shows "parses G d l x ts"
proof -
  obtain N c where N: "\<And>n st t rest. N \<le> n \<Longrightarrow> feeds st (ts @ t # rest) \<Longrightarrow> shell_data st = d \<Longrightarrow> node_count st + nodes x \<le> FINSH_NODE_MAX \<Longrightarrow>
    stops (Suc l) (ttype t) \<Longrightarrow>
    \<exists>st'. lev G l n st = binary_loop (n - c) (level_ops l) (lev G (Suc l) n) (Some (node_of x)) (ttype t) st' \<and> c < n \<and>
       feeds st' rest \<and> feeds (finsh_token_replay st') (t # rest) \<and> moved st (nodes x) st'" using l by (rule loopsD) blast
  show ?thesis unfolding parses_def
  proof (intro exI [of _ N] allI impI)
    fix n and st :: finsh_shell and t rest
    assume h: "N \<le> n" "feeds st (ts @ t # rest)" "shell_data st = d" "node_count st + nodes x \<le> FINSH_NODE_MAX" "stops l (ttype t)"
    obtain st' where st': "lev G l n st = binary_loop (n - c) (level_ops l) (lev G (Suc l) n) (Some (node_of x)) (ttype t) st'" "c < n"
      "feeds (finsh_token_replay st') (t # rest)" "moved st (nodes x) st'" using N [OF h(1-4) stops_Suc [OF h(5)]] by blast
    obtain j where "n - c = Suc j" using st'(2) by (metis Suc_diff_Suc)
    then have "lev G l n st = Some (Some (node_of x), finsh_token_replay st')" using st'(1) stops_level [OF h(5) r] by simp
    then show "yields (lev G l n) st (node_of x) (nodes x) (t # rest)" using st' by (intro yieldsI [of _ _ _ "finsh_token_replay st'"]) simp_all
  qed
qed

lemma parses_loops:
  assumes p: "parses G d (Suc l) x ts" and r: "1 \<le> l" "l \<le> 6"
  shows "loops G d l x ts"
proof -
  obtain N where N: "\<And>n st t rest. N \<le> n \<Longrightarrow> feeds st (ts @ t # rest) \<Longrightarrow> shell_data st = d \<Longrightarrow> node_count st + nodes x \<le> FINSH_NODE_MAX \<Longrightarrow>
    stops (Suc l) (ttype t) \<Longrightarrow> yields (lev G (Suc l) n) st (node_of x) (nodes x) (t # rest)" using p by (rule parsesD) blast
  show ?thesis unfolding loops_def
  proof (rule exI [of _ "Suc N"], rule exI [of _ 0], intro allI impI)
    fix n and st :: finsh_shell and t rest
    assume h: "Suc N \<le> n" "feeds st (ts @ t # rest)" "shell_data st = d" "node_count st + nodes x \<le> FINSH_NODE_MAX" "stops (Suc l) (ttype t)"
    obtain st1 where 1: "lev G (Suc l) n st = Some (Some (node_of x), st1)" "feeds st1 (t # rest)" "moved st (nodes x) st1"
      using N [of n st t rest] h by (auto simp: yields_def)
    obtain st2 where 2: "finsh_token_token st1 = Some (ttype t, st2)" "feeds st2 rest" "feeds (finsh_token_replay st2) (t # rest)" "moved st1 0 st2"
      using next_token [OF 1(2)] by blast
    have "lev G l n st = binary_loop n (level_ops l) (lev G (Suc l) n) (Some (node_of x)) (ttype t) st2"
      using 1 2 by (simp add: lev_binary [OF r] binary_expr_def)
    then show "\<exists>st'. lev G l n st = binary_loop (n - 0) (level_ops l) (lev G (Suc l) n) (Some (node_of x)) (ttype t) st' \<and> 0 < n \<and>
       feeds st' rest \<and> feeds (finsh_token_replay st') (t # rest) \<and> moved st (nodes x) st'"
      using 2 moved_trans [OF 1(3) 2(4)] h(1) by auto
  qed
qed

lemma make_sys_node_room:
  "node_count st < FINSH_NODE_MAX \<Longrightarrow> make_sys_node nt (Some a) b st = (Some (sys_node nt a b), st\<lparr>node_count := node_count st + 1\<rparr>)"
  by (simp add: make_sys_node_def finsh_node_allocate_def sys_node_def)

lemma loops_bin:
  assumes a: "loops G d (op_level f) x ts" and b: "parses G d (Suc (op_level f)) y us"
  shows "loops G d (op_level f) (EBin f x y) (ts @ TOp (op_token f) # us)"
proof -
  let ?l = "op_level f"
  obtain N c where N: "\<And>n st t rest. N \<le> n \<Longrightarrow> feeds st (ts @ t # rest) \<Longrightarrow> shell_data st = d \<Longrightarrow> node_count st + nodes x \<le> FINSH_NODE_MAX \<Longrightarrow>
    stops (Suc ?l) (ttype t) \<Longrightarrow>
    \<exists>st'. lev G ?l n st = binary_loop (n - c) (level_ops ?l) (lev G (Suc ?l) n) (Some (node_of x)) (ttype t) st' \<and> c < n \<and>
       feeds st' rest \<and> feeds (finsh_token_replay st') (t # rest) \<and> moved st (nodes x) st'" using a by (rule loopsD) blast
  obtain M where M: "\<And>n st t rest. M \<le> n \<Longrightarrow> feeds st (us @ t # rest) \<Longrightarrow> shell_data st = d \<Longrightarrow> node_count st + nodes y \<le> FINSH_NODE_MAX \<Longrightarrow>
    stops (Suc ?l) (ttype t) \<Longrightarrow> yields (lev G (Suc ?l) n) st (node_of y) (nodes y) (t # rest)" using b by (rule parsesD) blast
  show ?thesis unfolding loops_def
  proof (rule exI [of _ "N + M + c + 2"], rule exI [of _ "Suc c"], intro allI impI)
    fix n and st :: finsh_shell and t rest
    assume h: "N + M + c + 2 \<le> n" "feeds st ((ts @ TOp (op_token f) # us) @ t # rest)" "shell_data st = d"
      "node_count st + nodes (EBin f x y) \<le> FINSH_NODE_MAX" "stops (Suc ?l) (ttype t)"
    obtain st1 where 1: "lev G ?l n st = binary_loop (n - c) (level_ops ?l) (lev G (Suc ?l) n) (Some (node_of x)) (op_token f) st1"
      "feeds st1 (us @ t # rest)" "moved st (nodes x) st1" using N [of n st "TOp (op_token f)" "us @ t # rest"] h stops_op [of f] by auto
    obtain st2 where 2: "lev G (Suc ?l) n st1 = Some (Some (node_of y), st2)" "feeds st2 (t # rest)" "moved st1 (nodes y) st2"
      using M [of n st1 t rest] h 1 by (auto simp: yields_def moved_def)
    have m: "moved st (nodes x + nodes y) st2" using moved_trans [OF 1(3) 2(3)] .
    then have k: "node_count st2 < FINSH_NODE_MAX" using h(4) by (simp add: moved_def)
    let ?st3 = "st2\<lparr>node_count := node_count st2 + 1\<rparr>"
    obtain st4 where 4: "finsh_token_token ?st3 = Some (ttype t, st4)" "feeds st4 rest" "feeds (finsh_token_replay st4) (t # rest)" "moved ?st3 0 st4"
      using next_token [of ?st3 t rest] 2(2) by auto
    define j where "j = n - Suc c"
    then have j: "n - c = Suc j" "j = n - Suc c" using h(1) by simp_all
    have "lev G ?l n st = binary_loop j (level_ops ?l) (lev G (Suc ?l) n) (Some (node_of (EBin f x y))) (ttype t) st4"
      using 1 2 4 k j make_sys_node_room [OF k, of "FINSH_NODE_SYS_BIN f" "node_of x" "Some (node_of y)"] by (simp add: level_op)
    moreover have "moved st (nodes (EBin f x y)) st4" using m 4(4) by (simp add: moved_def)
    ultimately show "\<exists>st'. lev G ?l n st = binary_loop (n - Suc c) (level_ops ?l) (lev G (Suc ?l) n) (Some (node_of (EBin f x y))) (ttype t) st' \<and> Suc c < n \<and>
       feeds st' rest \<and> feeds (finsh_token_replay st') (t # rest) \<and> moved st (nodes (EBin f x y)) st'"
      using 4 j h(1) by auto
  qed
qed

section \<open>Primary and postfix expressions\<close>

lemma new_value_room:
  "node_count st < FINSH_NODE_MAX \<Longrightarrow> finsh_node_new_value nt v st = (Some (leaf nt 0 v 0), st\<lparr>node_count := node_count st + 1\<rparr>)"
  by (simp add: finsh_node_new_value_def finsh_node_allocate_def leaf_def)

lemma moved_room: "moved st k st' \<Longrightarrow> moved st (k + 1) (st'\<lparr>node_count := node_count st' + 1\<rparr>)"
  by (simp add: moved_def)

lemma primary_name:
  assumes f: "feeds st (TName nm # rest)" and s: "named G (shell_data st) nm ty p" and k: "node_count st < FINSH_NODE_MAX"
  shows "yields (proc_primary_expr G assign) st (leaf FINSH_NODE_ID ty 0 p) 1 rest"
proof -
  obtain st1 where 1: "finsh_token_token st = Some (finsh_token_type_identifier, st1)" "feeds (finsh_token_replay st1) (TName nm # rest)" "moved st 0 st1"
    using next_token [OF f] by auto
  obtain st2 where 2: "finsh_token_token (finsh_token_replay st1) = Some (finsh_token_type_identifier, st2)" "feeds st2 rest"
    "moved (finsh_token_replay st1) 0 st2" "c_string (tok_string st2) = nm" using next_token [OF 1(2)] by auto
  have m: "moved st 0 st2" using moved_trans [OF 1(3)] 2(3) by auto
  then have "node_count st2 = node_count st" "shell_data st2 = shell_data st" by (simp_all add: moved_def)
  then have "proc_primary_expr G assign st = Some (Some (leaf FINSH_NODE_ID ty 0 p), st2\<lparr>node_count := node_count st2 + 1\<rparr>)"
    using 1(1) 2(1,4) s k by (simp add: proc_primary_expr_def proc_identifier_def match_token_def check_token_def finsh_node_new_id_def
        finsh_node_allocate_def named_def leaf_def)
  then show ?thesis using 2(2) moved_room [OF m] by (intro yieldsI) auto
qed

text \<open>The constants.\<close>

fun const_of :: "atok \<Rightarrow> fexpr option" where
  "const_of (TInt v) = Some (EInt v)"
| "const_of (TLong v) = Some (ELong v)"
| "const_of (TChar c) = Some (EChar c)"
| "const_of (TOp ty) = (if ty = finsh_token_type_value_null then Some ENull else None)"
| "const_of (TName nm) = None"

lemma primary_const:
  assumes f: "feeds st (t # rest)" and c: "const_of t = Some x" and k: "node_count st < FINSH_NODE_MAX"
  shows "yields (proc_primary_expr G assign) st (node_of x) 1 rest"
proof -
  obtain st1 where 1: "finsh_token_token st = Some (ttype t, st1)" "feeds st1 rest" "moved st 0 st1" "payload t (tok_value st1) (tok_string st1)"
    using next_token [OF f] by auto
  have k1: "node_count st1 < FINSH_NODE_MAX" using 1(3) k by (simp add: moved_def)
  have "proc_primary_expr G assign st = Some (Some (node_of x), st1\<lparr>node_count := node_count st1 + 1\<rparr>)"
    using 1 c new_value_room [OF k1] by (cases t) (auto simp: proc_primary_expr_def split: if_splits)
  then show ?thesis using 1(2) moved_room [OF 1(3)] by (intro yieldsI) auto
qed

lemma yieldsD:
  assumes "yields p st n k rest"
  obtains st' where "p st = Some (Some n, st')" "feeds st' rest" "moved st k st'"
  using assms by (auto simp: yields_def)

text \<open>Behind a primary expression the loop of the postfix operators starts with the next token.\<close>

lemma postfix_start:
  assumes "yields (proc_primary_expr G assign) st a k (t # rest)"
  obtains st' where "proc_postfix_expr G n assign st = postfix_loop n assign (Some a) (ttype t) st'" "feeds st' rest" "moved st k st'"
    "feeds (finsh_token_replay st') (t # rest)"
proof -
  obtain st1 where 1: "proc_primary_expr G assign st = Some (Some a, st1)" "feeds st1 (t # rest)" "moved st k st1" using yieldsD [OF assms] .
  obtain st2 where 2: "finsh_token_token st1 = Some (ttype t, st2)" "feeds st2 rest" "moved st1 0 st2" "feeds (finsh_token_replay st2) (t # rest)"
    using next_token [OF 1(2)] by blast
  show ?thesis using that [of st2] 1 2 moved_trans [OF 1(3) 2(3)] by (simp add: proc_postfix_expr_def)
qed

lemma postfix_stop:
  assumes "feeds (finsh_token_replay st') (t # rest)" and "stops l (ttype t)" and "moved st k st'"
    and "p st = postfix_loop (Suc n) assign (Some a) (ttype t) st'"
  shows "yields p st a k (t # rest)"
  using assms by (intro yieldsI [of _ _ _ "finsh_token_replay st'"]) (auto simp: stops_def)

lemma postfix_primary:
  assumes "yields (proc_primary_expr G assign) st a k (t # rest)" and "stops l (ttype t)"
  shows "yields (proc_postfix_expr G (Suc n) assign) st a k (t # rest)"
proof -
  obtain st' where "proc_postfix_expr G (Suc n) assign st = postfix_loop (Suc n) assign (Some a) (ttype t) st'" "moved st k st'"
    "feeds (finsh_token_replay st') (t # rest)" using postfix_start [OF assms(1), of "Suc n"] .
  then show ?thesis using assms(2) by (intro postfix_stop) auto
qed

lemma postfix_inc:
  assumes p: "yields (proc_primary_expr G assign) st a k (TOp ty # t # rest)" and s: "stops l (ttype t)" and r: "node_count st + k < FINSH_NODE_MAX"
    and ty: "ty = finsh_token_type_inc \<and> nt = FINSH_NODE_SYS_INC \<or> ty = finsh_token_type_dec \<and> nt = FINSH_NODE_SYS_DEC"
  shows "yields (proc_postfix_expr G (Suc (Suc n)) assign) st (sys_node nt a None) (k + 1) (t # rest)"
proof -
  obtain st1 where 1: "proc_postfix_expr G (Suc (Suc n)) assign st = postfix_loop (Suc (Suc n)) assign (Some a) ty st1" "feeds st1 (t # rest)" "moved st k st1"
    using postfix_start [OF p, of "Suc (Suc n)"] by auto
  let ?st2 = "st1\<lparr>node_count := node_count st1 + 1\<rparr>"
  have m: "make_sys_node nt (Some a) None st1 = (Some (sys_node nt a None), ?st2)" using 1(3) r by (intro make_sys_node_room) (simp add: moved_def)
  obtain st3 where 3: "finsh_token_token ?st2 = Some (ttype t, st3)" "feeds (finsh_token_replay st3) (t # rest)" "moved ?st2 0 st3"
    using next_token [of ?st2 t rest] 1(2) by auto
  have "proc_postfix_expr G (Suc (Suc n)) assign st = postfix_loop (Suc n) assign (Some (sys_node nt a None)) (ttype t) st3"
    using 1(1) m 3(1) ty by auto
  then show ?thesis using 3 s moved_trans [OF moved_room [OF 1(3)] 3(3)] by (intro postfix_stop) auto
qed

section \<open>Calls\<close>

text \<open>The arguments from one on, behind the nodes \<open>ns\<close>.\<close>

definition param_from :: "nat \<Rightarrow> finsh_node option parser \<Rightarrow> finsh_node list \<Rightarrow> finsh_node list parser" where
  "param_from j assign ns st =
     do { (a, st) \<leftarrow> assign st;
          (case a of None \<Rightarrow> None
           | Some x \<Rightarrow> do { (token, st) \<leftarrow> finsh_token_token st; param_loop j assign (ns @ [x]) token st }) }"

lemma param_from_one:
  assumes "yields assign st x k (t # rest)" and "ttype t \<noteq> finsh_token_type_comma"
  shows "\<exists>st'. param_from (Suc j) assign ns st = Some (ns @ [x], st') \<and> feeds st' (t # rest) \<and> moved st k st'"
proof -
  obtain st1 where 1: "assign st = Some (Some x, st1)" "feeds st1 (t # rest)" "moved st k st1" using yieldsD [OF assms(1)] .
  obtain st2 where 2: "finsh_token_token st1 = Some (ttype t, st2)" "moved st1 0 st2" "feeds (finsh_token_replay st2) (t # rest)"
    using next_token [OF 1(2)] by blast
  show ?thesis using 1 2 assms(2) moved_trans [OF 1(3) 2(2)]
    by (intro exI [of _ "finsh_token_replay st2"]) (simp add: param_from_def)
qed

lemma param_from_comma:
  assumes "yields assign st x k (TOp finsh_token_type_comma # rest)"
    and "\<And>st1. feeds st1 rest \<Longrightarrow> moved st k st1 \<Longrightarrow> \<exists>st'. param_from j assign (ns @ [x]) st1 = Some (ms, st') \<and> feeds st' rest' \<and> moved st1 i st'"
  shows "\<exists>st'. param_from (Suc j) assign ns st = Some (ms, st') \<and> feeds st' rest' \<and> moved st (k + i) st'"
proof -
  obtain st1 where 1: "assign st = Some (Some x, st1)" "feeds st1 (TOp finsh_token_type_comma # rest)" "moved st k st1" using yieldsD [OF assms(1)] .
  obtain st2 where 2: "finsh_token_token st1 = Some (finsh_token_type_comma, st2)" "feeds st2 rest" "moved st1 0 st2" using next_token [OF 1(2)] by auto
  have m: "moved st k st2" using moved_trans [OF 1(3) 2(3)] by simp
  obtain st' where 3: "param_from j assign (ns @ [x]) st2 = Some (ms, st')" "feeds st' rest'" "moved st2 i st'" using assms(2) [OF 2(2) m] by blast
  then obtain y st3 where y: "assign st2 = Some (Some y, st3)" by (auto simp: param_from_def Option.bind_eq_Some_conv split: option.splits)
  have "param_from (Suc j) assign ns st = param_from j assign (ns @ [x]) st2" using 1 2 y by (simp add: param_from_def)
  then show ?thesis using 3 moved_trans [OF m 3(3)] by auto
qed

definition parses_args :: "finsh_tables \<Rightarrow> finsh_data \<Rightarrow> fexpr list \<Rightarrow> atok list \<Rightarrow> bool" where
  "parses_args G d es ts \<longleftrightarrow>
     (es \<noteq> [] \<longrightarrow> (\<exists>N. \<forall>n\<ge>N. \<forall>j\<ge>length es. \<forall>ns st rest. feeds st (ts @ TOp finsh_token_type_right_paren # rest) \<longrightarrow> shell_data st = d \<longrightarrow>
        node_count st + sum_list (map nodes es) \<le> FINSH_NODE_MAX \<longrightarrow>
        (\<exists>st'. param_from j (proc_assign_expr G n) ns st = Some (ns @ map node_of es, st') \<and>
           feeds st' (TOp finsh_token_type_right_paren # rest) \<and> moved st (sum_list (map nodes es)) st')))"

lemma parses_args_one:
  assumes "parses G d 0 x ts"
  shows "parses_args G d [x] ts"
proof -
  obtain N where N: "\<And>n st t rest. N \<le> n \<Longrightarrow> feeds st (ts @ t # rest) \<Longrightarrow> shell_data st = d \<Longrightarrow> node_count st + nodes x \<le> FINSH_NODE_MAX \<Longrightarrow>
    stops 0 (ttype t) \<Longrightarrow> yields (lev G 0 n) st (node_of x) (nodes x) (t # rest)" using assms by (rule parsesD) blast
  show ?thesis unfolding parses_args_def
  proof (intro impI exI [of _ N] allI)
    fix n j ns and st :: finsh_shell and rest
    assume h: "N \<le> n" "length [x] \<le> j" "feeds st (ts @ TOp finsh_token_type_right_paren # rest)" "shell_data st = d"
      "node_count st + sum_list (map nodes [x]) \<le> FINSH_NODE_MAX"
    obtain i where "j = Suc i" using h(2) by (cases j) auto
    moreover have "yields (proc_assign_expr G n) st (node_of x) (nodes x) (TOp finsh_token_type_right_paren # rest)"
      using N [OF h(1,3,4)] h(5) by (simp add: stops_end lev.simps)
    ultimately show "\<exists>st'. param_from j (proc_assign_expr G n) ns st = Some (ns @ map node_of [x], st') \<and>
       feeds st' (TOp finsh_token_type_right_paren # rest) \<and> moved st (sum_list (map nodes [x])) st'"
      using param_from_one [of "proc_assign_expr G n" st "node_of x" "nodes x" "TOp finsh_token_type_right_paren" rest i ns] by simp
  qed
qed

lemma parses_args_cons:
  assumes x: "parses G d 0 x ts" and ys: "parses_args G d (y # ys) us"
  shows "parses_args G d (x # y # ys) (ts @ TOp finsh_token_type_comma # us)"
proof -
  obtain N where N: "\<And>n st t rest. N \<le> n \<Longrightarrow> feeds st (ts @ t # rest) \<Longrightarrow> shell_data st = d \<Longrightarrow> node_count st + nodes x \<le> FINSH_NODE_MAX \<Longrightarrow>
    stops 0 (ttype t) \<Longrightarrow> yields (lev G 0 n) st (node_of x) (nodes x) (t # rest)" using x by (rule parsesD) blast
  obtain M where M: "\<And>n j ns st rest. M \<le> n \<Longrightarrow> length (y # ys) \<le> j \<Longrightarrow> feeds st (us @ TOp finsh_token_type_right_paren # rest) \<Longrightarrow> shell_data st = d \<Longrightarrow>
      node_count st + sum_list (map nodes (y # ys)) \<le> FINSH_NODE_MAX \<Longrightarrow>
      \<exists>st'. param_from j (proc_assign_expr G n) ns st = Some (ns @ map node_of (y # ys), st') \<and>
           feeds st' (TOp finsh_token_type_right_paren # rest) \<and> moved st (sum_list (map nodes (y # ys))) st'"
    using ys unfolding parses_args_def by blast
  show ?thesis unfolding parses_args_def
  proof (intro impI exI [of _ "N + M"] allI)
    fix n j ns and st :: finsh_shell and rest
    assume h: "N + M \<le> n" "length (x # y # ys) \<le> j" "feeds st ((ts @ TOp finsh_token_type_comma # us) @ TOp finsh_token_type_right_paren # rest)"
      "shell_data st = d" "node_count st + sum_list (map nodes (x # y # ys)) \<le> FINSH_NODE_MAX"
    obtain i where i: "j = Suc i" "length (y # ys) \<le> i" using h(2) by (cases j) auto
    have a: "yields (proc_assign_expr G n) st (node_of x) (nodes x) (TOp finsh_token_type_comma # us @ TOp finsh_token_type_right_paren # rest)"
      using N [of n st "TOp finsh_token_type_comma"] h by (simp add: stops_end lev.simps)
    have "\<exists>st'. param_from (Suc i) (proc_assign_expr G n) ns st = Some (ns @ map node_of (x # y # ys), st') \<and>
       feeds st' (TOp finsh_token_type_right_paren # rest) \<and> moved st (nodes x + sum_list (map nodes (y # ys))) st'"
    proof (rule param_from_comma [OF a])
      fix st1
      assume s: "feeds st1 (us @ TOp finsh_token_type_right_paren # rest)" "moved st (nodes x) st1"
      show "\<exists>st'. param_from i (proc_assign_expr G n) (ns @ [node_of x]) st1 = Some (ns @ map node_of (x # y # ys), st') \<and>
         feeds st' (TOp finsh_token_type_right_paren # rest) \<and> moved st1 (sum_list (map nodes (y # ys))) st'"
        using M [of n i st1 rest "ns @ [node_of x]"] s h i by (simp add: moved_def)
    qed
    then show "\<exists>st'. param_from j (proc_assign_expr G n) ns st = Some (ns @ map node_of (x # y # ys), st') \<and>
       feeds st' (TOp finsh_token_type_right_paren # rest) \<and> moved st (sum_list (map nodes (x # y # ys))) st'"
      using i by simp
  qed
qed

lemma link_nodes: "es \<noteq> [] \<Longrightarrow> link_siblings (map node_of es) = nodes_of es"
proof (induction es)
  case (Cons e es)
  then show ?case by (cases es) simp_all
qed simp

text \<open>The parameter list as a whole.\<close>

lemma param_list:
  assumes "parses_args G d es ts" and "es \<noteq> []"
  obtains N where "\<And>n j st rest. N \<le> n \<Longrightarrow> length es \<le> j \<Longrightarrow> feeds st (ts @ TOp finsh_token_type_right_paren # rest) \<Longrightarrow> shell_data st = d \<Longrightarrow>
      node_count st + sum_list (map nodes es) \<le> FINSH_NODE_MAX \<Longrightarrow>
      \<exists>st'. proc_param_list j (proc_assign_expr G n) st = Some (nodes_of es, st') \<and>
        feeds st' (TOp finsh_token_type_right_paren # rest) \<and> moved st (sum_list (map nodes es)) st'"
proof -
  obtain N where N: "\<And>n j ns st rest. N \<le> n \<Longrightarrow> length es \<le> j \<Longrightarrow> feeds st (ts @ TOp finsh_token_type_right_paren # rest) \<Longrightarrow> shell_data st = d \<Longrightarrow>
      node_count st + sum_list (map nodes es) \<le> FINSH_NODE_MAX \<Longrightarrow>
      \<exists>st'. param_from j (proc_assign_expr G n) ns st = Some (ns @ map node_of es, st') \<and>
           feeds st' (TOp finsh_token_type_right_paren # rest) \<and> moved st (sum_list (map nodes es)) st'"
    using assms unfolding parses_args_def by blast
  have p: "param_from j (proc_assign_expr G n) [] st = Some (ns, st') \<Longrightarrow> proc_param_list j (proc_assign_expr G n) st = Some (link_siblings ns, st')"
    for j n st ns st'
    by (cases "proc_assign_expr G n st") (auto simp: param_from_def proc_param_list_def split: option.splits prod.splits Option.bind_split_asm)
  show ?thesis
  proof (rule that [of N])
    fix n j and st :: finsh_shell and rest
    assume h: "N \<le> n" "length es \<le> j" "feeds st (ts @ TOp finsh_token_type_right_paren # rest)" "shell_data st = d"
      "node_count st + sum_list (map nodes es) \<le> FINSH_NODE_MAX"
    then show "\<exists>st'. proc_param_list j (proc_assign_expr G n) st = Some (nodes_of es, st') \<and>
        feeds st' (TOp finsh_token_type_right_paren # rest) \<and> moved st (sum_list (map nodes es)) st'"
      using N [OF h, of "[]"] p link_nodes [OF assms(2)] by force
  qed
qed

lemma match_token_feeds:
  assumes "feeds st (TOp ty # rest)"
  obtains st' where "match_token ty st = Some st'" "feeds st' rest" "moved st 0 st'"
proof -
  obtain st' where "finsh_token_token st = Some (ty, st')" "feeds st' rest" "moved st 0 st'" using next_token [OF assms] by auto
  then show ?thesis by (intro that [of st']) (auto simp: match_token_def check_token_def)
qed

lemma postfix_call:
  assumes p: "yields (proc_primary_expr G assign) st a k (TOp finsh_token_type_left_paren # u # us)" and s: "stops l (ttype t)"
    and r: "node_count st + k + i < FINSH_NODE_MAX"
    and c: "\<And>st1. feeds st1 (u # us) \<Longrightarrow> moved st k st1 \<Longrightarrow>
       (ttype u = finsh_token_type_right_paren \<and> us = t # rest \<and> ns = None \<and> i = 0) \<or>
       (ttype u \<noteq> finsh_token_type_right_paren \<and>
        (\<exists>st'. proc_param_list (Suc n) assign st1 = Some (ns, st') \<and> feeds st' (TOp finsh_token_type_right_paren # t # rest) \<and> moved st1 i st'))"
  shows "yields (proc_postfix_expr G (Suc (Suc n)) assign) st (sys_node FINSH_NODE_SYS_FUNC a ns) (k + i + 1) (t # rest)"
proof -
  obtain st1 where 1: "proc_postfix_expr G (Suc (Suc n)) assign st = postfix_loop (Suc (Suc n)) assign (Some a) finsh_token_type_left_paren st1"
    "feeds st1 (u # us)" "moved st k st1" using postfix_start [OF p, of "Suc (Suc n)"] by auto
  obtain st2 where 2: "finsh_token_token st1 = Some (ttype u, st2)" "feeds st2 us" "moved st1 0 st2" "feeds (finsh_token_replay st2) (u # us)"
    using next_token [OF 1(2)] by blast
  have m2: "moved st k st2" using moved_trans [OF 1(3) 2(3)] by simp
  obtain st3 where 3: "(if ttype u \<noteq> finsh_token_type_right_paren then
        do { (params, st) \<leftarrow> proc_param_list (Suc n) assign (finsh_token_replay st2); st \<leftarrow> match_token finsh_token_type_right_paren st; Some (params, st) }
      else Some (None, st2)) = Some (ns, st3)" "feeds st3 (t # rest)" "moved st (k + i) st3"
  proof (cases "ttype u = finsh_token_type_right_paren")
    case True
    then show ?thesis using c [OF 1(2,3)] 2 m2 by (intro that [of st2]) auto
  next
    case False
    obtain st' where st': "proc_param_list (Suc n) assign (finsh_token_replay st2) = Some (ns, st')" "feeds st' (TOp finsh_token_type_right_paren # t # rest)"
      "moved (finsh_token_replay st2) i st'" using c [OF 2(4)] m2 False by auto
    obtain st4 where "match_token finsh_token_type_right_paren st' = Some st4" "feeds st4 (t # rest)" "moved st' 0 st4" using match_token_feeds [OF st'(2)] .
    then show ?thesis using st' False moved_trans [OF m2, of i st'] moved_trans [of st "k + i" st' 0 st4] by (intro that [of st4]) auto
  qed
  let ?st4 = "st3\<lparr>node_count := node_count st3 + 1\<rparr>"
  have m: "make_sys_node FINSH_NODE_SYS_FUNC (Some a) ns st3 = (Some (sys_node FINSH_NODE_SYS_FUNC a ns), ?st4)"
    using 3(3) r by (intro make_sys_node_room) (simp add: moved_def)
  obtain st5 where 5: "finsh_token_token ?st4 = Some (ttype t, st5)" "feeds (finsh_token_replay st5) (t # rest)" "moved ?st4 0 st5"
    using next_token [of ?st4 t rest] 3(2) by auto
  have "proc_postfix_expr G (Suc (Suc n)) assign st = postfix_loop (Suc n) assign (Some (sys_node FINSH_NODE_SYS_FUNC a ns)) (ttype t) st5"
    using 1(1) 2(1) 3(1) 5(1) m by simp
  then show ?thesis using 5 s moved_trans [OF moved_room [OF 3(3)] 5(3)] by (intro postfix_stop) auto
qed

section \<open>The levels of an expression\<close>

text \<open>The first token of an expression: a name, a constant or a unary operator.\<close>

fun starts :: "nat \<Rightarrow> atok \<Rightarrow> bool" where
  "starts l (TOp ty) \<longleftrightarrow> ty = finsh_token_type_value_null \<or>
     l \<le> 7 \<and> ty \<in> {finsh_token_type_inc, finsh_token_type_dec, finsh_token_type_bitwise, finsh_token_type_mul, finsh_token_type_and,
       finsh_token_type_sub, finsh_token_type_add}"
| "starts l _ \<longleftrightarrow> True"

lemma starts_mono: "starts (Suc l) t \<Longrightarrow> starts l t"
  by (cases t) auto

lemma op_level_le: "op_level f \<le> 6" "1 \<le> op_level f"
  by (cases f; simp)+

lemma toks_start:
  "toks G d l x ts \<Longrightarrow> l \<le> 8 \<and> (\<exists>t us. ts = t # us \<and> starts l t)"
  "args G d es ts \<Longrightarrow> es \<noteq> [] \<longrightarrow> (\<exists>t us. ts = t # us \<and> starts 0 t)"
proof (induction rule: toks_args.inducts)
  case (tUp l x ts)
  then show ?case using starts_mono by auto
next
  case (tBin f x ts y us)
  then show ?case using op_level_le [of f] by auto
qed auto

lemma cast_unary:
  assumes "feeds st (t # ts)" and "ttype t \<noteq> finsh_token_type_left_paren"
  obtains st' where "proc_cast_expr G (Suc n) st = proc_unary_expr G n (proc_cast_expr G n) (proc_assign_expr G n) st'" "feeds st' (t # ts)" "moved st 0 st'"
proof -
  obtain st1 where "finsh_token_token st = Some (ttype t, st1)" "feeds (finsh_token_replay st1) (t # ts)" "moved st 0 st1" using next_token [OF assms(1)] by blast
  then show ?thesis using assms(2) by (intro that [of "finsh_token_replay st1"]) auto
qed

text \<open>Without a unary operator in front the cast level is the postfix level.\<close>

lemma parses_up7:
  assumes p: "parses G d 8 x ts" and s: "\<exists>t us. ts = t # us \<and> starts 8 t"
  shows "parses G d 7 x ts"
proof -
  obtain N where N: "\<And>n st t rest. N \<le> n \<Longrightarrow> feeds st (ts @ t # rest) \<Longrightarrow> shell_data st = d \<Longrightarrow> node_count st + nodes x \<le> FINSH_NODE_MAX \<Longrightarrow>
    stops 8 (ttype t) \<Longrightarrow> yields (lev G 8 n) st (node_of x) (nodes x) (t # rest)" using p by (rule parsesD) blast
  obtain u us where u: "ts = u # us" "starts 8 u" using s by blast
  have nu: "ttype u \<notin> {finsh_token_type_left_paren, finsh_token_type_inc, finsh_token_type_dec, finsh_token_type_bitwise, finsh_token_type_mul,
      finsh_token_type_and, finsh_token_type_sub, finsh_token_type_add}" using u(2) by (cases u) auto
  show ?thesis unfolding parses_def
  proof (intro exI [of _ "Suc N"] allI impI)
    fix n and st :: finsh_shell and t rest
    assume h: "Suc N \<le> n" "feeds st (ts @ t # rest)" "shell_data st = d" "node_count st + nodes x \<le> FINSH_NODE_MAX" "stops 7 (ttype t)"
    obtain j where j: "n = Suc j" "N \<le> j" using h(1) by (cases n) auto
    obtain st1 where 1: "proc_cast_expr G (Suc j) st = proc_unary_expr G j (proc_cast_expr G j) (proc_assign_expr G j) st1" "feeds st1 (ts @ t # rest)" "moved st 0 st1"
      using cast_unary [of st u "us @ t # rest"] h(2) u nu by auto
    obtain st2 where 2: "finsh_token_token st1 = Some (ttype u, st2)" "feeds (finsh_token_replay st2) (ts @ t # rest)" "moved st1 0 st2"
      using next_token [of st1 u "us @ t # rest"] 1(2) u by auto
    have m: "moved st 0 (finsh_token_replay st2)" using moved_trans [OF 1(3) 2(3)] by simp
    have "stops 8 (ttype t)" using h(5) stops_Suc [of 7] by simp
    then have "yields (lev G 8 j) (finsh_token_replay st2) (node_of x) (nodes x) (t # rest)"
      using N [OF j(2) 2(2)] h m by (simp add: moved_def)
    then obtain st3 where 3: "lev G 8 j (finsh_token_replay st2) = Some (Some (node_of x), st3)" "feeds st3 (t # rest)" "moved (finsh_token_replay st2) (nodes x) st3"
      by (rule yieldsD)
    have "lev G 7 n st = Some (Some (node_of x), st3)" using 1(1) 2(1) 3(1) j nu
      by (auto simp: lev.simps proc_unary_expr_def split: finsh_token_type.split)
    then show "yields (lev G 7 n) st (node_of x) (nodes x) (t # rest)" using 3 moved_trans [OF m, of "nodes x" st3] by (intro yieldsI) auto
  qed
qed

lemma parses_const: "const_of t = Some x \<Longrightarrow> parses G d 8 x [t]"
proof -
  assume c: "const_of t = Some x"
  then have k: "nodes x = 1" by (cases t) (auto split: if_splits)
  show ?thesis unfolding parses_def
  proof (intro exI [of _ 1] allI impI)
    fix n :: nat and st :: finsh_shell and u rest
    assume h: "1 \<le> n" "feeds st ([t] @ u # rest)" "node_count st + nodes x \<le> FINSH_NODE_MAX" "stops 8 (ttype u)"
    obtain j where "n = Suc j" using h(1) by (cases n) auto
    then show "yields (lev G 8 n) st (node_of x) (nodes x) (u # rest)"
      using postfix_primary [OF primary_const [OF _ c] h(4), where n = j] h k by (simp add: lev.simps)
  qed
qed

lemma parses_name:
  assumes "named_lval G d nm l"
  shows "parses G d 8 (EId l) [TName nm]"
proof -
  obtain ty p where l: "named G d nm ty p" "lval_node l = leaf FINSH_NODE_ID ty 0 p" using assms by (cases l) auto
  show ?thesis unfolding parses_def
  proof (intro exI [of _ 1] allI impI)
    fix n :: nat and st :: finsh_shell and u rest
    assume h: "1 \<le> n" "feeds st ([TName nm] @ u # rest)" "shell_data st = d" "node_count st + nodes (EId l) \<le> FINSH_NODE_MAX" "stops 8 (ttype u)"
    obtain j where "n = Suc j" using h(1) by (cases n) auto
    then show "yields (lev G 8 n) st (node_of (EId l)) (nodes (EId l)) (u # rest)"
      using postfix_primary [OF primary_name h(5), where n = j] h l by (simp add: lev.simps)
  qed
qed

lemma parses_post:
  assumes s: "named_lval G d nm (LVar p)" and f: "f = Add \<and> ty = finsh_token_type_inc \<or> f = Sub \<and> ty = finsh_token_type_dec"
  shows "parses G d 8 (EPost f p) [TName nm, TOp ty]"
  unfolding parses_def
proof (intro exI [of _ 2] allI impI)
  fix n :: nat and st :: finsh_shell and u rest
  assume h: "2 \<le> n" "feeds st ([TName nm, TOp ty] @ u # rest)" "shell_data st = d" "node_count st + nodes (EPost f p) \<le> FINSH_NODE_MAX" "stops 8 (ttype u)"
  obtain j where j: "n = Suc (Suc j)" using h(1) by (metis add_2_eq_Suc le_Suc_ex)
  have p: "yields (proc_primary_expr G (proc_assign_expr G n)) st (lval_node (LVar p)) 1 (TOp ty # u # rest)"
    using primary_name [of st nm "TOp ty # u # rest" G] s h by simp
  show "yields (lev G 8 n) st (node_of (EPost f p)) (nodes (EPost f p)) (u # rest)"
    using postfix_inc [OF p h(5), of "inc_type f" j] f h j by (auto simp: lev.simps numeral_2_eq_2)
qed

lemma parses_call:
  assumes s: "named G d nm FINSH_IDTYPE_SYSCALL p" and a: "args G d es ts" "parses_args G d es ts"
  shows "parses G d 8 (ECall p es) (TName nm # TOp finsh_token_type_left_paren # ts @ [TOp finsh_token_type_right_paren])"
proof -
  obtain N where N: "\<And>n j st rest. N \<le> n \<Longrightarrow> length es \<le> j \<Longrightarrow> feeds st (ts @ TOp finsh_token_type_right_paren # rest) \<Longrightarrow> shell_data st = d \<Longrightarrow>
      node_count st + sum_list (map nodes es) \<le> FINSH_NODE_MAX \<Longrightarrow> es \<noteq> [] \<Longrightarrow>
      \<exists>st'. proc_param_list j (proc_assign_expr G n) st = Some (nodes_of es, st') \<and>
        feeds st' (TOp finsh_token_type_right_paren # rest) \<and> moved st (sum_list (map nodes es)) st'"
  proof (cases "es = []")
    case False
    then show ?thesis using param_list [OF a(2) False] that by metis
  qed (use that in blast)
  show ?thesis unfolding parses_def
  proof (intro exI [of _ "N + length es + 2"] allI impI)
    fix n and st :: finsh_shell and t rest
    assume h: "N + length es + 2 \<le> n" "feeds st ((TName nm # TOp finsh_token_type_left_paren # ts @ [TOp finsh_token_type_right_paren]) @ t # rest)"
      "shell_data st = d" "node_count st + nodes (ECall p es) \<le> FINSH_NODE_MAX" "stops 8 (ttype t)"
    obtain j where j: "n = Suc (Suc j)" "length es \<le> Suc j" "N \<le> n" using h(1) by (cases n; cases "n - 1") auto
    obtain u us where u: "ts @ TOp finsh_token_type_right_paren # t # rest = u # us" by (cases "ts @ TOp finsh_token_type_right_paren # t # rest") auto
    have p: "yields (proc_primary_expr G (proc_assign_expr G n)) st (leaf FINSH_NODE_ID FINSH_IDTYPE_SYSCALL 0 p) 1 (TOp finsh_token_type_left_paren # u # us)"
      using primary_name [of st nm "TOp finsh_token_type_left_paren # u # us" G FINSH_IDTYPE_SYSCALL p] s h u by simp
    have "yields (proc_postfix_expr G (Suc (Suc j)) (proc_assign_expr G n)) st
        (sys_node FINSH_NODE_SYS_FUNC (leaf FINSH_NODE_ID FINSH_IDTYPE_SYSCALL 0 p) (nodes_of es)) (1 + sum_list (map nodes es) + 1) (t # rest)"
    proof (rule postfix_call [OF p h(5)])
      show "node_count st + 1 + sum_list (map nodes es) < FINSH_NODE_MAX" using h(4) by simp
      fix st1
      assume 1: "feeds st1 (u # us)" "moved st 1 st1"
      show "(ttype u = finsh_token_type_right_paren \<and> us = t # rest \<and> nodes_of es = None \<and> sum_list (map nodes es) = 0) \<or>
       (ttype u \<noteq> finsh_token_type_right_paren \<and>
        (\<exists>st'. proc_param_list (Suc j) (proc_assign_expr G n) st1 = Some (nodes_of es, st') \<and>
          feeds st' (TOp finsh_token_type_right_paren # t # rest) \<and> moved st1 (sum_list (map nodes es)) st'))"
      proof (cases "es = []")
        case True
        then have "ts = []" using a(1) by (auto elim: args.cases)
        then show ?thesis using u True by auto
      next
        case False
        then have "ttype u \<noteq> finsh_token_type_right_paren" using toks_start(2) [OF a(1)] u by (cases u) auto
        then show ?thesis using N [of n "Suc j" st1 "t # rest"] j 1 u h False by (auto simp: moved_def)
      qed
    qed
    then show "yields (lev G 8 n) st (node_of (ECall p es)) (nodes (ECall p es)) (t # rest)" using j by (simp add: lev.simps)
  qed
qed

text \<open>A unary operator reads a cast expression; \<open>wrap\<close> is what it makes of its node.\<close>

lemma parses_unary_op:
  assumes x: "parses G d 7 x ts" and nu: "ty \<noteq> finsh_token_type_left_paren"
    and u: "\<And>n cast st st1 st2 c. finsh_token_token st = Some (ty, st1) \<Longrightarrow> cast st1 = Some (Some (node_of x), st2) \<Longrightarrow>
      node_count st2 + k \<le> FINSH_NODE_MAX \<Longrightarrow>
      proc_unary_expr G n cast (proc_assign_expr G n) st = Some (Some (node_of y), st2\<lparr>node_count := node_count st2 + k\<rparr>)"
    and k: "nodes y = nodes x + k"
  shows "parses G d 7 y (TOp ty # ts)"
proof -
  obtain N where N: "\<And>n st t rest. N \<le> n \<Longrightarrow> feeds st (ts @ t # rest) \<Longrightarrow> shell_data st = d \<Longrightarrow> node_count st + nodes x \<le> FINSH_NODE_MAX \<Longrightarrow>
    stops 7 (ttype t) \<Longrightarrow> yields (lev G 7 n) st (node_of x) (nodes x) (t # rest)" using x by (rule parsesD) blast
  show ?thesis unfolding parses_def
  proof (intro exI [of _ "Suc N"] allI impI)
    fix n :: nat and st :: finsh_shell and t rest
    assume h: "Suc N \<le> n" "feeds st ((TOp ty # ts) @ t # rest)" "shell_data st = d" "node_count st + nodes y \<le> FINSH_NODE_MAX" "stops 7 (ttype t)"
    obtain j where j: "n = Suc j" "N \<le> j" using h(1) by (cases n) auto
    obtain st1 where 1: "proc_cast_expr G (Suc j) st = proc_unary_expr G j (proc_cast_expr G j) (proc_assign_expr G j) st1"
      "feeds st1 (TOp ty # ts @ t # rest)" "moved st 0 st1" using cast_unary [of st "TOp ty" "ts @ t # rest"] h(2) nu by auto
    obtain st2 where 2: "finsh_token_token st1 = Some (ty, st2)" "feeds st2 (ts @ t # rest)" "moved st1 0 st2" using next_token [OF 1(2)] by auto
    have m: "moved st 0 st2" using moved_trans [OF 1(3) 2(3)] by simp
    then have "yields (lev G 7 j) st2 (node_of x) (nodes x) (t # rest)" using N [OF j(2) 2(2)] h k by (simp add: moved_def)
    then obtain st3 where 3: "proc_cast_expr G j st2 = Some (Some (node_of x), st3)" "feeds st3 (t # rest)" "moved st2 (nodes x) st3"
      by (auto simp: lev.simps elim: yieldsD)
    have m3: "moved st (nodes x) st3" using moved_trans [OF m 3(3)] by simp
    then have r: "node_count st3 + k \<le> FINSH_NODE_MAX" using h(4) k by (simp add: moved_def)
    have "lev G 7 n st = Some (Some (node_of y), st3\<lparr>node_count := node_count st3 + k\<rparr>)"
      using u [where cast = "proc_cast_expr G j", OF 2(1) 3(1) r] 1(1) j by (simp add: lev.simps)
    then show "yields (lev G 7 n) st (node_of y) (nodes y) (t # rest)" by (rule yieldsI) (use 3(2) m3 k in \<open>auto simp: moved_def\<close>)
  qed
qed

lemma parses_unary:
  assumes "parses G d 7 x ts" and "node_of y = sys_node nt (node_of x) None" and "nodes y = nodes x + 1"
    and "(ty, nt) \<in> {(finsh_token_type_inc, FINSH_NODE_SYS_PREINC), (finsh_token_type_dec, FINSH_NODE_SYS_PREDEC), (finsh_token_type_bitwise, FINSH_NODE_SYS_BITWISE),
      (finsh_token_type_mul, FINSH_NODE_SYS_GETVALUE), (finsh_token_type_and, FINSH_NODE_SYS_GETADDR)}"
  shows "parses G d 7 y (TOp ty # ts)"
  by (rule parses_unary_op [OF assms(1) _ _ assms(3)]) (use assms(2,4) in \<open>auto simp: proc_unary_expr_def make_sys_node_room\<close>)

lemma parses_plus: "parses G d 7 x ts \<Longrightarrow> parses G d 7 x (TOp finsh_token_type_add # ts)"
  by (rule parses_unary_op [where k = 0]) (auto simp: proc_unary_expr_def)

lemma parses_minus: "parses G d 7 x ts \<Longrightarrow> parses G d 7 (EBin Sub (ELong 0) x) (TOp finsh_token_type_sub # ts)"
  by (rule parses_unary_op [where k = 2]) (auto simp: proc_unary_expr_def new_value_room make_sys_node_room)

section \<open>Assignments\<close>

lemma parses_up0:
  assumes "parses G d 1 x ts"
  shows "parses G d 0 x ts"
proof -
  obtain N where N: "\<And>n st t rest. N \<le> n \<Longrightarrow> feeds st (ts @ t # rest) \<Longrightarrow> shell_data st = d \<Longrightarrow> node_count st + nodes x \<le> FINSH_NODE_MAX \<Longrightarrow>
    stops 1 (ttype t) \<Longrightarrow> yields (lev G 1 n) st (node_of x) (nodes x) (t # rest)" using assms by (rule parsesD) blast
  show ?thesis unfolding parses_def
  proof (intro exI [of _ "Suc N"] allI impI)
    fix n :: nat and st :: finsh_shell and t rest
    assume h: "Suc N \<le> n" "feeds st (ts @ t # rest)" "shell_data st = d" "node_count st + nodes x \<le> FINSH_NODE_MAX" "stops 0 (ttype t)"
    obtain j where j: "n = Suc j" "N \<le> j" using h(1) by (cases n) auto
    have "stops 1 (ttype t)" "ttype t \<noteq> finsh_token_type_assign" using h(5) stops_Suc [of 0] by (auto simp: stops_def)
    then obtain st1 where 1: "lev G 1 j st = Some (Some (node_of x), st1)" "feeds st1 (t # rest)" "moved st (nodes x) st1"
      using N [OF j(2) h(2-4)] by (auto elim: yieldsD)
    obtain st2 where 2: "finsh_token_token st1 = Some (ttype t, st2)" "feeds (finsh_token_replay st2) (t # rest)" "moved st1 0 st2"
      using next_token [OF 1(2)] by blast
    have "lev G 0 n st = Some (Some (node_of x), finsh_token_replay st2)"
      using 1(1) 2(1) j \<open>ttype t \<noteq> finsh_token_type_assign\<close> by (simp add: lev.simps)
    then show "yields (lev G 0 n) st (node_of x) (nodes x) (t # rest)" by (rule yieldsI) (use 2 moved_trans [OF 1(3) 2(3)] in auto)
  qed
qed

lemma parses_assign:
  assumes x: "parses G d 1 x ts" and e: "parses G d 0 e us" and y: "node_of y = sys_node FINSH_NODE_SYS_ASSIGN (node_of x) (Some (node_of e))"
    and k: "nodes y = nodes x + nodes e + 1"
  shows "parses G d 0 y (ts @ TOp finsh_token_type_assign # us)"
proof -
  obtain N where N: "\<And>n st t rest. N \<le> n \<Longrightarrow> feeds st (ts @ t # rest) \<Longrightarrow> shell_data st = d \<Longrightarrow> node_count st + nodes x \<le> FINSH_NODE_MAX \<Longrightarrow>
    stops 1 (ttype t) \<Longrightarrow> yields (lev G 1 n) st (node_of x) (nodes x) (t # rest)" using x by (rule parsesD) blast
  obtain M where M: "\<And>n st t rest. M \<le> n \<Longrightarrow> feeds st (us @ t # rest) \<Longrightarrow> shell_data st = d \<Longrightarrow> node_count st + nodes e \<le> FINSH_NODE_MAX \<Longrightarrow>
    stops 0 (ttype t) \<Longrightarrow> yields (lev G 0 n) st (node_of e) (nodes e) (t # rest)" using e by (rule parsesD) blast
  show ?thesis unfolding parses_def
  proof (intro exI [of _ "Suc (N + M)"] allI impI)
    fix n :: nat and st :: finsh_shell and t rest
    assume h: "Suc (N + M) \<le> n" "feeds st ((ts @ TOp finsh_token_type_assign # us) @ t # rest)" "shell_data st = d"
      "node_count st + nodes y \<le> FINSH_NODE_MAX" "stops 0 (ttype t)"
    obtain j where j: "n = Suc j" "N \<le> j" "M \<le> j" using h(1) by (cases n) auto
    have "yields (lev G 1 j) st (node_of x) (nodes x) (TOp finsh_token_type_assign # us @ t # rest)"
      using N [OF j(2), of st "TOp finsh_token_type_assign" "us @ t # rest"] h k by (simp add: stops_assign)
    then obtain st1 where 1: "lev G 1 j st = Some (Some (node_of x), st1)" "feeds st1 (TOp finsh_token_type_assign # us @ t # rest)" "moved st (nodes x) st1"
      by (rule yieldsD)
    obtain st2 where 2: "finsh_token_token st1 = Some (finsh_token_type_assign, st2)" "feeds st2 (us @ t # rest)" "moved st1 0 st2"
      using next_token [OF 1(2)] by auto
    have m2: "moved st (nodes x) st2" using moved_trans [OF 1(3) 2(3)] by simp
    then have "yields (lev G 0 j) st2 (node_of e) (nodes e) (t # rest)" using M [OF j(3) 2(2)] h k by (simp add: moved_def)
    then obtain st3 where 3: "proc_assign_expr G j st2 = Some (Some (node_of e), st3)" "feeds st3 (t # rest)" "moved st2 (nodes e) st3"
      by (auto simp: lev.simps elim: yieldsD)
    have m3: "moved st (nodes x + nodes e) st3" using moved_trans [OF m2 3(3)] .
    then have "node_count st3 < FINSH_NODE_MAX" using h(4) k by (simp add: moved_def)
    then have "lev G 0 n st = Some (Some (node_of y), st3\<lparr>node_count := node_count st3 + 1\<rparr>)"
      using 1(1) 2(1) 3(1) j y by (simp add: lev.simps make_sys_node_room)
    then show "yields (lev G 0 n) st (node_of y) (nodes y) (t # rest)" using 3(2) moved_room [OF m3] k by (intro yieldsI) auto
  qed
qed

section \<open>All expressions\<close>

lemma parses_up:
  assumes "parses G d (Suc l) x ts" and "l \<le> 7" and "l = 7 \<longrightarrow> (\<exists>t us. ts = t # us \<and> starts 8 t)"
  shows "parses G d l x ts"
proof (cases "l = 7")
  case True
  then show ?thesis using assms parses_up7 by simp
next
  case False
  then show ?thesis using assms parses_up0 loops_parses [OF parses_loops [OF assms(1)]] by (cases "l = 0") auto
qed

lemma parses_down:
  assumes "parses G d 7 x ts"
  shows "parses G d 1 x ts"
proof -
  have "parses G d (7 - k) x ts" if "k \<le> 6" for k
    using that
  proof (induction k)
    case (Suc k)
    then have "7 - k = Suc (7 - Suc k)" by simp
    then have "parses G d (Suc (7 - Suc k)) x ts" using Suc by simp
    then show ?case by (rule parses_up) auto
  qed (simp add: assms)
  from this [of 6] show ?thesis by simp
qed

lemma parses_lval: "named_lval G d nm l \<Longrightarrow> parses G d 7 (EId l) [TName nm]"
  using parses_up7 [OF parses_name] by auto

theorem parses_toks:
  "toks G d l x ts \<Longrightarrow> parses G d l x ts \<and> (1 \<le> l \<and> l \<le> 6 \<longrightarrow> loops G d l x ts)"
  "args G d es ts \<Longrightarrow> parses_args G d es ts"
proof (induction rule: toks_args.inducts)
  case (tUp l x ts)
  have "l \<le> 7" "l = 7 \<longrightarrow> (\<exists>t us. ts = t # us \<and> starts 8 t)" using toks_start(1) [OF tUp(1)] by auto
  then show ?case using tUp(2) parses_up [of G d l x ts] parses_loops [of G d l x ts] by auto
next
  case (tBin f x ts y us)
  then have "loops G d (op_level f) (EBin f x y) (ts @ TOp (op_token f) # us)" using op_level_le [of f] loops_bin by auto
  then show ?case using op_level_le [of f] loops_parses by auto
next
  case (tAssign nm l x ts)
  then show ?case using parses_assign [OF parses_down [OF parses_lval], of G d nm l x ts "EAssign l x"] by auto
next
  case (tStore x ts y us)
  have "parses G d 7 (EDeref x) (TOp finsh_token_type_mul # ts)" using tStore by (intro parses_unary [of G d x]) auto
  then show ?case using parses_assign [OF parses_down, of G d "EDeref x" "TOp finsh_token_type_mul # ts" y us "EStore x y"] tStore by auto
next
  case (tCall nm p es ts)
  then show ?case using parses_call by auto
next
  case (tPreInc nm p)
  then show ?case using parses_unary [OF parses_lval, of G d nm "LVar p" "EPre Add p"] by auto
next
  case (tPreDec nm p)
  then show ?case using parses_unary [OF parses_lval, of G d nm "LVar p" "EPre Sub p"] by auto
next
  case (tAddr nm l)
  then show ?case using parses_unary [OF parses_lval, of G d nm l "EAddr l"] by auto
next
  case (tBitwise x ts)
  then show ?case using parses_unary [of G d x ts "EBitwise x"] by auto
next
  case (tDeref x ts)
  then show ?case using parses_unary [of G d x ts "EDeref x"] by auto
next
  case aNil
  then show ?case by (simp add: parses_args_def)
qed (auto intro: parses_const parses_name parses_post parses_plus parses_minus parses_args_one parses_args_cons)

end
