(* ===== verification/FinshRun.thy ===== *)
theory FinshRun
  imports FinshSem
begin

text \<open>
  What the virtual machine of the finsh shell does with single operations: the widths of the cells and of the memory,
  and one lemma per operation that takes the loop from the state before it to the state after it.
\<close>

unbundle bit_operations_syntax

section \<open>Widths\<close>

lemma low_byte: "(ucast ((v AND NOT 0xff) OR ucast b :: u32) :: u8) = b"
proof -
  have m: "(0xff :: u32) = mask 8" by (simp add: mask_eq_exp_minus_1)
  show ?thesis unfolding m by (intro bit_eqI) (auto simp: bit_simps)
qed

lemma low_word: "(ucast ((v AND NOT 0xffff) OR ucast b :: u32) :: u16) = b"
proof -
  have m: "(0xffff :: u32) = mask 16" by (simp add: mask_eq_exp_minus_1)
  show ?thesis unfolding m by (intro bit_eqI) (auto simp: bit_simps)
qed

lemma word_of_int_sint: "word_of_int (sint w) = w"
  by simp

lemma wrap_simps: "wrap BYTE x = uint (word_of_int x :: u8)" "wrap WORD x = sint (word_of_int x :: u16)" "wrap DWORD x = sint (word_of_int x :: u32)"
  using low_byte [of 0 "word_of_int x"] low_word [of 0 "word_of_int x"] by (simp_all only: wrap_def cell_int.simps cell_put.simps)

lemma cell_int_put [simp]: "cell_int w (cell_put w x v) = wrap w x"
  by (cases w) (simp_all only: wrap_simps cell_int.simps cell_put.simps low_byte low_word)

lemma wrap_cell [simp]: "wrap w (cell_int w v) = cell_int w v"
  by (cases w) (simp_all only: wrap_simps cell_int.simps word_of_int_uint word_of_int_sint)

lemma wrap_wrap [simp]: "wrap w (wrap w x) = wrap w x"
  by (metis cell_int_put wrap_cell)

lemma wrap_mem [simp]: "wrap w (mem_int w m a) = mem_int w m a"
  by (cases w) (simp_all only: wrap_simps mem_int.simps word_of_int_uint word_of_int_sint)

lemma mem_int_put [simp]: "mem_int w (mem_put w a x m) a = wrap w x"
  by (cases w) (simp_all add: wrap_simps)

text \<open>The low bytes of four bytes of memory.\<close>

lemma cell_int_get32: "cell_int w (get32 m (unat a)) = mem_int w m a"
proof -
  have "(ucast (get32 m n) :: u8) = m n" "(ucast (get32 m n) :: u16) = get16 m n" for n
    by (rule bit_eqI; auto simp: get32_def get16_def bit_simps)+
  then show ?thesis by (cases w) simp_all
qed

lemma wrap_one: "wrap w 1 = 1"
  by (cases w) (simp_all add: wrap_simps)

section \<open>Single operations\<close>

definition mk :: "u8 list \<Rightarrow> nat \<Rightarrow> nat \<Rightarrow> u32 list \<Rightarrow> bytes \<Rightarrow> finsh_vm" where
  "mk t pc sp stk m = \<lparr>vm_stack = stk, finsh_sp = sp, text_segment = t, finsh_pc = pc, vm_mem = m\<rparr>"

lemma mk_sel [simp]: "vm_stack (mk t pc sp stk m) = stk" "finsh_sp (mk t pc sp stk m) = sp" "text_segment (mk t pc sp stk m) = t"
  "finsh_pc (mk t pc sp stk m) = pc" "vm_mem (mk t pc sp stk m) = m"
  by (simp_all add: mk_def)

lemma mk_upd [simp]: "(mk t pc sp stk m)\<lparr>vm_stack := stk'\<rparr> = mk t pc sp stk' m" "(mk t pc sp stk m)\<lparr>finsh_sp := sp'\<rparr> = mk t pc sp' stk m"
  "(mk t pc sp stk m)\<lparr>finsh_pc := pc'\<rparr> = mk t pc' sp stk m" "(mk t pc sp stk m)\<lparr>vm_mem := m'\<rparr> = mk t pc sp stk m'"
  by (simp_all add: mk_def)

text \<open>The numbers of the header are the positions in the table.\<close>

lemma op_table_code: "unat (op_code op) < length op_table \<and> op_table ! unat (op_code op) = op"
proof (cases op)
  case (OP_bin f w)
  then show ?thesis by (cases f; cases w) (simp_all add: op_table_def)
next
  case (OP_bw w)
  then show ?thesis by (cases w) (simp_all add: op_table_def)
next
  case (OP_ld w)
  then show ?thesis by (cases w) (simp_all add: op_table_def)
next
  case (OP_ld_value w)
  then show ?thesis by (cases w) (simp_all add: op_table_def)
next
  case (OP_st w)
  then show ?thesis by (cases w) (simp_all add: op_table_def)
next
  case (OP_ld_value_stack w)
  then show ?thesis by (cases w) (simp_all add: op_table_def)
qed (simp_all add: op_table_def)

lemma run_op:
  assumes "t = pre @ op_code op # post" and "length t = FINSH_TEXT_MAX" and "pc = length pre"
  shows "vm_loop sys (mk t pc sp stk m) =
    (case exec_op sys op (mk t (Suc pc) sp stk m) of None \<Rightarrow> None | Some vm' \<Rightarrow> vm_loop sys vm')"
  using assms op_table_code [of op]
  by (subst vm_loop.simps) (simp add: vm_step_def text_at_def)

lemma text_at_mk: "t = pre @ bs @ post \<Longrightarrow> pc = length pre \<Longrightarrow> i < length bs \<Longrightarrow> text_at i (mk t pc sp stk m) = Some (bs ! i)"
  by (simp add: text_at_def nth_append)

lemma dword_join:
  "(ucast (ucast v :: u8) OR push_bit 8 (ucast (ucast (drop_bit 8 v) :: u8)) OR push_bit 16 (ucast (ucast (drop_bit 16 v) :: u8)) OR
     push_bit 24 (ucast (ucast (drop_bit 24 v) :: u8)) :: u32) = (v :: u32)"
proof (rule bit_word_eqI)
  fix n :: nat
  assume "n < LENGTH(32)"
  consider "n < 8" | "8 \<le> n" "n < 16" | "16 \<le> n" "n < 24" | "24 \<le> n" by linarith
  then show "bit (ucast (ucast v :: u8) OR push_bit 8 (ucast (ucast (drop_bit 8 v) :: u8)) OR push_bit 16 (ucast (ucast (drop_bit 16 v) :: u8)) OR
     push_bit 24 (ucast (ucast (drop_bit 24 v) :: u8)) :: u32) n = bit v n"
    using \<open>n < LENGTH(32)\<close> by cases (auto simp: bit_simps)
qed

lemma get32_mk: "t = pre @ dword_bytes v @ post \<Longrightarrow> pc = length pre \<Longrightarrow> FINSH_GET32 (mk t pc sp stk m) = Some v"
  using text_at_mk [of t pre "dword_bytes v" post pc] dword_join [of v] by (simp add: FINSH_GET32_def)

lemma push_mk: "sp < length stk \<Longrightarrow> push w x (mk t pc sp stk m) = Some (mk t pc (Suc sp) (stk[sp := cell_put w x (stk ! sp)]) m)"
  by (simp add: push_def cell_def set_cell_def move_sp_def)

lemma move_sp_mk: "n \<le> length stk \<Longrightarrow> move_sp (- 1) (mk t pc (Suc n) stk m) = Some (mk t pc n stk m)"
  "n \<le> length stk \<Longrightarrow> move_sp (- 1 - int k) (mk t pc (Suc n + k) stk m) = Some (mk t pc n stk m)"
  "n < length stk \<Longrightarrow> move_sp 1 (mk t pc n stk m) = Some (mk t pc (Suc n) stk m)"
  by (simp_all add: move_sp_def)

lemma run_ld_addr:
  assumes "t = pre @ ld_addr a @ post" and "length t = FINSH_TEXT_MAX" and "pc = length pre" and "sp < length stk"
  shows "vm_loop sys (mk t pc sp stk m) = vm_loop sys (mk t (pc + length (ld_addr a)) (Suc sp) (stk[sp := a]) m)"
proof -
  have t: "t = pre @ op_code (OP_ld DWORD) # (dword_bytes a @ post)" using assms(1) by (simp add: ld_addr_def del: dword_bytes.simps)
  have "FINSH_GET32 (mk t (Suc pc) sp stk m) = Some a"
    using t assms(3) by (intro get32_mk [of t "pre @ [op_code (OP_ld DWORD)]" a post]) simp_all
  then show ?thesis using run_op [OF t assms(2,3)] push_mk [OF assms(4), of DWORD] by (simp add: ld_addr_def eval_nat_numeral)
qed

lemma run_ld_val:
  assumes "t = pre @ ld_val w a @ post" and "length t = FINSH_TEXT_MAX" and "pc = length pre" and "sp < length stk"
  shows "vm_loop sys (mk t pc sp stk m) =
    vm_loop sys (mk t (pc + length (ld_val w a)) (Suc sp) (stk[sp := cell_put w (mem_int w m a) (stk ! sp)]) m)"
proof -
  have t: "t = pre @ op_code (OP_ld_value w) # (dword_bytes a @ post)" using assms(1) by (simp add: ld_val_def del: dword_bytes.simps)
  have "FINSH_GET32 (mk t (Suc pc) sp stk m) = Some a"
    using t assms(3) by (intro get32_mk [of t "pre @ [op_code (OP_ld_value w)]" a post]) simp_all
  then show ?thesis using run_op [OF t assms(2,3)] push_mk [OF assms(4), of w] by (simp add: ld_val_def do_ld_value_def eval_nat_numeral)
qed

lemma run_ld_byte:
  assumes "t = pre @ [op_code (OP_ld BYTE), c] @ post" and "length t = FINSH_TEXT_MAX" and "pc = length pre" and "sp < length stk"
  shows "vm_loop sys (mk t pc sp stk m) = vm_loop sys (mk t (pc + 2) (Suc sp) (stk[sp := cell_put BYTE (uint c) (stk ! sp)]) m)"
proof -
  have t: "t = pre @ op_code (OP_ld BYTE) # (c # post)" using assms(1) by simp
  have "text_at 0 (mk t (Suc pc) sp stk m) = Some c"
    using t assms(3) text_at_mk [of t "pre @ [op_code (OP_ld BYTE)]" "[c]" post] by simp
  then show ?thesis using run_op [OF t assms(2,3)] push_mk [OF assms(4), of BYTE] by simp
qed

lemma run_one:
  assumes "t = pre @ one_code w @ post" and "length t = FINSH_TEXT_MAX" and "pc = length pre" and "sp < length stk"
  shows "vm_loop sys (mk t pc sp stk m) = vm_loop sys (mk t (pc + length (one_code w)) (Suc sp) (stk[sp := cell_put w 1 (stk ! sp)]) m)"
proof (cases w)
  case BYTE
  then show ?thesis using run_ld_byte [of t pre 1 post] assms by simp
next
  case DWORD
  then show ?thesis using run_ld_addr [of t pre 1 post] assms by (simp add: ld_addr_def)
next
  case WORD
  have t: "t = pre @ op_code (OP_ld WORD) # (word_bytes 1 @ post)" using assms(1) WORD by simp
  have "text_at 0 (mk t (Suc pc) sp stk m) = Some 1" "text_at 1 (mk t (Suc pc) sp stk m) = Some 0"
    using t assms(3) text_at_mk [of t "pre @ [op_code (OP_ld WORD)]" "word_bytes 1" post] by simp_all
  then have "FINSH_GET16 (mk t (Suc pc) sp stk m) = Some 1" by (simp add: FINSH_GET16_def)
  then show ?thesis using run_op [OF t assms(2,3)] push_mk [OF assms(4), of WORD] WORD by simp
qed

lemma run_bin:
  assumes "t = pre @ op_code (OP_bin f w) # post" and "length t = FINSH_TEXT_MAX" and "pc = length pre" and "Suc n < length stk"
  shows "vm_loop sys (mk t pc (Suc (Suc n)) stk m) =
    (case c_op f (cell_int w (stk ! n)) (cell_int w (stk ! Suc n)) of
       None \<Rightarrow> None
     | Some x \<Rightarrow> vm_loop sys (mk t (Suc pc) (Suc n) (stk[n := cell_put w x (stk ! n)]) m))"
  using run_op [OF assms(1-3)] assms(4)
  by (simp add: OP_BIN_def cell_def set_cell_def move_sp_mk split: option.split)

lemma run_bw:
  assumes "t = pre @ op_code (OP_bw w) # post" and "length t = FINSH_TEXT_MAX" and "pc = length pre" and "n < length stk"
  shows "vm_loop sys (mk t pc (Suc n) stk m) =
    vm_loop sys (mk t (Suc pc) (Suc n) (stk[n := cell_put w (NOT (cell_int w (stk ! n))) (stk ! n)]) m)"
  using run_op [OF assms(1-3)] assms(4) by (simp add: do_bw_def cell_def set_cell_def)

lemma run_st:
  assumes "t = pre @ op_code (OP_st w) # post" and "length t = FINSH_TEXT_MAX" and "pc = length pre" and "Suc n < length stk"
  shows "vm_loop sys (mk t pc (Suc (Suc n)) stk m) =
    vm_loop sys (mk t (Suc pc) (Suc n) stk (mem_put w (stk ! n) (cell_int w (stk ! Suc n)) m))"
  using run_op [OF assms(1-3)] assms(4) by (simp add: do_st_def cell_def move_sp_mk)

lemma run_ld_stack:
  assumes "t = pre @ op_code (OP_ld_value_stack w) # post" and "length t = FINSH_TEXT_MAX" and "pc = length pre" and "n < length stk"
  shows "vm_loop sys (mk t pc (Suc n) stk m) = vm_loop sys (mk t (Suc pc) (Suc n) (stk[n := cell_put w (mem_int w m (stk ! n)) (stk ! n)]) m)"
  using run_op [OF assms(1-3)] assms(4) by (simp add: do_ld_value_stack_def cell_def set_cell_def)

lemma run_pop:
  assumes "t = pre @ op_code OP_pop # post" and "length t = FINSH_TEXT_MAX" and "pc = length pre" and "n < length stk"
  shows "vm_loop sys (mk t pc (Suc n) stk m) = vm_loop sys (mk t (Suc pc) n stk m)"
  using run_op [OF assms(1-3)] assms(4) by (simp add: move_sp_mk)

lemma run_call:
  assumes "t = pre @ [op_code OP_call, word_of_nat k] @ post" and "length t = FINSH_TEXT_MAX" and "pc = length pre"
    and "Suc n + k \<le> length stk" and "k \<le> 16"
  shows "vm_loop sys (mk t pc (Suc n + k) stk m) =
    (case sys (stk ! n) (if k = 0 then [0] else take k (drop (Suc n) stk)) m of
       None \<Rightarrow> None
     | Some (r, m') \<Rightarrow> vm_loop sys (mk t (pc + 2) (Suc n) (stk[n := r]) m'))"
proof -
  have t: "t = pre @ op_code OP_call # (word_of_nat k # post)" using assms(1) by simp
  have "text_at 0 (mk t (Suc pc) sp stk m) = Some (word_of_nat k)" for sp
    using t assms(3) text_at_mk [of t "pre @ [op_code OP_call]" "[word_of_nat k]" post] by simp
  moreover have "unat (word_of_nat k :: u8) = k" using assms(5) by (simp add: unat_of_nat)
  ultimately show ?thesis using run_op [OF t assms(2,3)] assms(4,5) move_sp_mk(2) [of n stk k]
    by (simp add: do_call_def move_sp_mk cell_def Let_def push_def set_cell_def split: option.split)
qed

end
