(* ===== verification/FinshExec.thy ===== *)
theory FinshExec
  imports FinshRun
begin

text \<open>
  What the virtual machine of the finsh shell does with the code of an expression: it leaves one cell more on the
  stack, with the value of the expression, and the memory the expression leaves.
\<close>

unbundle bit_operations_syntax

section \<open>Results\<close>

text \<open>
  The run \<open>L\<close> gets to the position \<open>pc\<close>, with one cell more that has the value in its width, the cells
  below as they were; it stops without a result where the expression has none.
\<close>

definition computes :: "syscalls \<Rightarrow> u8 list \<Rightarrow> finsh_vm option \<Rightarrow> nat \<Rightarrow> u32 list \<Rightarrow> nat \<Rightarrow> width \<Rightarrow> (int \<times> bytes) option \<Rightarrow> bool" where
  "computes sys t L sp stk pc w r \<longleftrightarrow>
     (case r of
        None \<Rightarrow> L = None
      | Some (v, m) \<Rightarrow> \<exists>stk'. L = vm_loop sys (mk t pc (Suc sp) stk' m) \<and>
          length stk' = length stk \<and> take sp stk' = take sp stk \<and> cell_int w (stk' ! sp) = v)"

text \<open>The same for the arguments of a call, which have four bytes each.\<close>

definition computes_list :: "syscalls \<Rightarrow> u8 list \<Rightarrow> finsh_vm option \<Rightarrow> nat \<Rightarrow> u32 list \<Rightarrow> nat \<Rightarrow> nat \<Rightarrow> (int list \<times> bytes) option \<Rightarrow> bool" where
  "computes_list sys t L sp stk pc n r \<longleftrightarrow>
     (case r of
        None \<Rightarrow> L = None
      | Some (vs, m) \<Rightarrow> \<exists>stk'. L = vm_loop sys (mk t pc (sp + n) stk' m) \<and>
          length stk' = length stk \<and> take sp stk' = take sp stk \<and> take n (drop sp stk') = map word_of_int vs)"

lemma computesI:
  "pc = pc' \<Longrightarrow> length stk' = length stk \<Longrightarrow> take sp stk' = take sp stk \<Longrightarrow> cell_int w (stk' ! sp) = v \<Longrightarrow>
    computes sys t (vm_loop sys (mk t pc (Suc sp) stk' m)) sp stk pc' w (Some (v, m))"
  by (auto simp: computes_def)

lemma computes_None: "computes sys t None sp stk pc w None"
  by (simp add: computes_def)

text \<open>What follows an expression starts from its value.\<close>

lemma computes_bind:
  assumes c: "computes sys t L sp1 stk1 pc1 w1 r"
    and f: "\<And>v m stk'. length stk' = length stk1 \<Longrightarrow> take sp1 stk' = take sp1 stk1 \<Longrightarrow> cell_int w1 (stk' ! sp1) = v \<Longrightarrow>
       computes sys t (vm_loop sys (mk t pc1 (Suc sp1) stk' m)) sp stk pc w (f (v, m))"
  shows "computes sys t L sp stk pc w (Option.bind r f)"
  using assms by (cases r) (auto simp: computes_def [of _ _ _ _ stk1] intro: computes_None)

lemma computes_list_bind:
  assumes c: "computes_list sys t L sp1 stk1 pc1 n r"
    and f: "\<And>vs m stk'. length stk' = length stk1 \<Longrightarrow> take sp1 stk' = take sp1 stk1 \<Longrightarrow> take n (drop sp1 stk') = map word_of_int vs \<Longrightarrow>
       computes sys t (vm_loop sys (mk t pc1 (sp1 + n) stk' m)) sp stk pc w (f (vs, m))"
  shows "computes sys t L sp stk pc w (Option.bind r f)"
  using assms by (cases r) (auto simp: computes_list_def intro: computes_None)

definition runs :: "symbols \<Rightarrow> syscalls \<Rightarrow> fexpr \<Rightarrow> bool" where
  "runs S sys x \<longleftrightarrow> (\<forall>t pre post sp stk m. t = pre @ code S x @ post \<longrightarrow> length t = FINSH_TEXT_MAX \<longrightarrow> sp + depth x \<le> length stk \<longrightarrow>
     computes sys t (vm_loop sys (mk t (length pre) sp stk m)) sp stk (length pre + length (code S x)) (ewidth S x) (eval S sys x m))"

lemma runsD: "runs S sys x \<Longrightarrow> t = pre @ code S x @ post \<Longrightarrow> length t = FINSH_TEXT_MAX \<Longrightarrow> sp + depth x \<le> length stk \<Longrightarrow> pc = length pre \<Longrightarrow>
    computes sys t (vm_loop sys (mk t pc sp stk m)) sp stk (pc + length (code S x)) (ewidth S x) (eval S sys x m)"
  by (simp add: runs_def)

lemma runsI:
  assumes "\<And>t pre post sp (stk :: u32 list) m. t = pre @ code S x @ post \<Longrightarrow> length t = FINSH_TEXT_MAX \<Longrightarrow> sp + depth x \<le> length stk \<Longrightarrow>
     computes sys t (vm_loop sys (mk t (length pre) sp stk m)) sp stk (length pre + length (code S x)) (ewidth S x) (eval S sys x m)"
  shows "runs S sys x"
  using assms by (simp add: runs_def)

section \<open>The stack\<close>

lemma depth_pos: "0 < depth x"
  by (induction x) (auto simp: max_def)

lemma take_below [simp]: "n \<le> i \<Longrightarrow> take n (xs[i := v]) = take n xs"
  by (intro nth_equalityI) auto

lemma take_nth_eq: "take n xs = take n ys \<Longrightarrow> i < n \<Longrightarrow> xs ! i = ys ! i"
  by (metis nth_take)

lemma take_le_eq: "take n xs = take n ys \<Longrightarrow> k \<le> n \<Longrightarrow> take k xs = take k ys"
  by (metis min.absorb1 take_take)

declare cell_put.simps [simp del] cell_int.simps [simp del]

section \<open>Expressions\<close>

lemma runs_const:
  assumes "code S x = ld_addr n" and "\<And>m. eval S sys x m = Some (sint n, m)" and "ewidth S x = DWORD"
  shows "runs S sys x"
proof (rule runsI)
  fix t pre post sp and stk :: "u32 list" and m
  assume t: "t = pre @ code S x @ post" "length t = FINSH_TEXT_MAX" "sp + depth x \<le> length stk"
  have "sp < length stk" using depth_pos [of x] t by simp
  then show "computes sys t (vm_loop sys (mk t (length pre) sp stk m)) sp stk (length pre + length (code S x)) (ewidth S x) (eval S sys x m)"
    using run_ld_addr [of t pre n post "length pre" sp stk sys m] t assms by (auto intro!: computesI simp: cell_int.simps)
qed

lemma runs_char: "runs S sys (EChar c)"
proof (rule runsI)
  fix t pre post sp and stk :: "u32 list" and m
  assume t: "t = pre @ code S (EChar c) @ post" "length t = FINSH_TEXT_MAX" "sp + depth (EChar c) \<le> length stk"
  have "wrap BYTE (uint c) = uint c" by (simp add: wrap_simps)
  then show "computes sys t (vm_loop sys (mk t (length pre) sp stk m)) sp stk (length pre + length (code S (EChar c))) (ewidth S (EChar c)) (eval S sys (EChar c) m)"
    using run_ld_byte [of t pre c post "length pre" sp stk sys m] t by (auto intro!: computesI)
qed

lemma runs_id: "lval_width S l = Some w \<Longrightarrow> runs S sys (EId l)"
proof (rule runsI)
  fix t pre post sp and stk :: "u32 list" and m
  assume t: "lval_width S l = Some w" "t = pre @ code S (EId l) @ post" "length t = FINSH_TEXT_MAX" "sp + depth (EId l) \<le> length stk"
  then show "computes sys t (vm_loop sys (mk t (length pre) sp stk m)) sp stk (length pre + length (code S (EId l))) (ewidth S (EId l)) (eval S sys (EId l) m)"
    using run_ld_val [of t pre w "lval_addr S l" post "length pre" sp stk sys m] by (auto intro!: computesI)
qed

lemma runs_bitwise:
  assumes "runs S sys a"
  shows "runs S sys (EBitwise a)"
proof (rule runsI)
  fix t pre post sp and stk :: "u32 list" and m
  assume t: "t = pre @ code S (EBitwise a) @ post" "length t = FINSH_TEXT_MAX" "sp + depth (EBitwise a) \<le> length stk"
  have c: "computes sys t (vm_loop sys (mk t (length pre) sp stk m)) sp stk (length pre + length (code S a)) (ewidth S a) (eval S sys a m)"
    using t by (intro runsD [OF assms]) auto
  show "computes sys t (vm_loop sys (mk t (length pre) sp stk m)) sp stk (length pre + length (code S (EBitwise a)))
      (ewidth S (EBitwise a)) (eval S sys (EBitwise a) m)"
    unfolding eval.simps
  proof (rule computes_bind [OF c])
    fix v m and stk' :: "u32 list"
    assume s: "length stk' = length stk" "take sp stk' = take sp stk" "cell_int (ewidth S a) (stk' ! sp) = v"
    then have "sp < length stk'" using t depth_pos [of a] by simp
    then show "computes sys t (vm_loop sys (mk t (length pre + length (code S a)) (Suc sp) stk' m)) sp stk (length pre + length (code S (EBitwise a)))
        (ewidth S (EBitwise a)) (case (v, m) of (x, m) \<Rightarrow> Some (wrap (ewidth S a) (NOT x), m))"
      using run_bw [of t "pre @ code S a" "ewidth S a" post "length pre + length (code S a)" sp stk' sys m] t s
      by (auto intro!: computesI)
  qed
qed

lemma runs_bin:
  assumes a: "runs S sys a" and b: "runs S sys b" and w: "ewidth S a = ewidth S b"
  shows "runs S sys (EBin f a b)"
proof (rule runsI)
  fix t pre post sp and stk :: "u32 list" and m
  let ?x = "EBin f a b"
  assume t: "t = pre @ code S ?x @ post" "length t = FINSH_TEXT_MAX" "sp + depth ?x \<le> length stk"
  have c: "computes sys t (vm_loop sys (mk t (length pre) sp stk m)) sp stk (length pre + length (code S a)) (ewidth S a) (eval S sys a m)"
    using t by (intro runsD [OF a]) auto
  show "computes sys t (vm_loop sys (mk t (length pre) sp stk m)) sp stk (length pre + length (code S ?x)) (ewidth S ?x) (eval S sys ?x m)"
    unfolding eval.simps
  proof (rule computes_bind [OF c], clarsimp, rule computes_bind)
    fix m and stk' :: "u32 list"
    assume s: "length stk' = length stk" "take sp stk' = take sp stk"
    show "computes sys t (vm_loop sys (mk t (length pre + length (code S a)) (Suc sp) stk' m)) (Suc sp) stk'
        (length pre + length (code S a) + length (code S b)) (ewidth S b) (eval S sys b m)"
      using t s by (intro runsD [OF b, of t "pre @ code S a"]) auto
    fix v m2 and stk2 :: "u32 list"
    assume s2: "length stk2 = length stk'" "take (Suc sp) stk2 = take (Suc sp) stk'" "cell_int (ewidth S b) (stk2 ! Suc sp) = v"
    have "Suc sp < length stk2" using t s s2 depth_pos [of b] by simp
    moreover have "stk2 ! sp = stk' ! sp" "take sp stk2 = take sp stk"
      using take_nth_eq [OF s2(2)] take_le_eq [OF s2(2), of sp] s by simp_all
    ultimately show "computes sys t (vm_loop sys (mk t (length pre + length (code S a) + length (code S b)) (Suc (Suc sp)) stk2 m2)) sp stk
        (Suc (length pre + (length (code S a) + length (code S b)))) (ewidth S a)
        (case (v, m2) of (y, m) \<Rightarrow> c_op f (cell_int (ewidth S a) (stk' ! sp)) y \<bind> (\<lambda>z. Some (wrap (ewidth S a) z, m)))"
      using run_bin [of t "pre @ code S a @ code S b" f "ewidth S a" post "length pre + length (code S a) + length (code S b)" sp stk2 sys m2] t s s2 w
      by (auto intro!: computesI computes_None split: option.split)
  qed
qed

lemma runs_deref:
  assumes a: "runs S sys a" and w: "ewidth S a = DWORD"
  shows "runs S sys (EDeref a)"
proof (rule runsI)
  fix t pre post sp and stk :: "u32 list" and m
  let ?x = "EDeref a"
  assume t: "t = pre @ code S ?x @ post" "length t = FINSH_TEXT_MAX" "sp + depth ?x \<le> length stk"
  have c: "computes sys t (vm_loop sys (mk t (length pre) sp stk m)) sp stk (length pre + length (code S a)) (ewidth S a) (eval S sys a m)"
    using t by (intro runsD [OF a]) auto
  show "computes sys t (vm_loop sys (mk t (length pre) sp stk m)) sp stk (length pre + length (code S ?x)) (ewidth S ?x) (eval S sys ?x m)"
    unfolding eval.simps
  proof (rule computes_bind [OF c])
    fix v m and stk' :: "u32 list"
    assume s: "length stk' = length stk" "take sp stk' = take sp stk" "cell_int (ewidth S a) (stk' ! sp) = v"
    have "sp < length stk'" using t s depth_pos [of a] by simp
    moreover have "word_of_int v = stk' ! sp" using s w by (auto simp: cell_int.simps)
    ultimately show "computes sys t (vm_loop sys (mk t (length pre + length (code S a)) (Suc sp) stk' m)) sp stk (length pre + length (code S ?x))
        (ewidth S ?x) (case (v, m) of (x, m) \<Rightarrow> Some (mem_int DWORD m (word_of_int x), m))"
      using run_ld_stack [of t "pre @ code S a" DWORD post "length pre + length (code S a)" sp stk' sys m] t s
      by (auto intro!: computesI simp del: mem_int.simps)
  qed
qed

text \<open>A store with the address below the value, and the load that gives the value back.\<close>

lemma computes_store:
  assumes t: "t = pre @ st_back w @ post" "length t = FINSH_TEXT_MAX" and n: "Suc sp < length stk2"
    and s: "length stk2 = length stk" "take sp stk2 = take sp stk" and v: "cell_int w (stk2 ! Suc sp) = v" and a: "stk2 ! sp = a"
    and pc: "pc = length pre" "pc' = pc + length (st_back w)"
  shows "computes sys t (vm_loop sys (mk t pc (Suc (Suc sp)) stk2 m)) sp stk pc' w (Some (v, mem_put w a v m))"
proof -
  let ?m = "mem_put w a v m"
  have "vm_loop sys (mk t pc (Suc (Suc sp)) stk2 m) = vm_loop sys (mk t (Suc pc) (Suc sp) stk2 ?m)"
    using run_st [of t pre w "op_code (OP_ld_value_stack w) # post" pc sp stk2 sys m] assms by (simp add: st_back_def)
  also have "\<dots> = vm_loop sys (mk t pc' (Suc sp) (stk2[sp := cell_put w (mem_int w ?m (stk2 ! sp)) (stk2 ! sp)]) ?m)"
    using run_ld_stack [of t "pre @ [op_code (OP_st w)]" w post "Suc pc" sp stk2 sys ?m] assms by (simp add: st_back_def)
  finally show ?thesis using n s v a by (auto intro!: computesI simp del: mem_put.simps mem_int.simps)
qed

lemma runs_assign:
  assumes e: "runs S sys e" and w: "lval_width S l = Some (ewidth S e)"
  shows "runs S sys (EAssign l e)"
proof (rule runsI)
  fix t pre post sp and stk :: "u32 list" and m
  let ?x = "EAssign l e" and ?a = "lval_addr S l"
  assume t: "t = pre @ code S ?x @ post" "length t = FINSH_TEXT_MAX" "sp + depth ?x \<le> length stk"
  have "vm_loop sys (mk t (length pre) sp stk m) = vm_loop sys (mk t (length pre + length (ld_addr ?a)) (Suc sp) (stk[sp := ?a]) m)"
    using t by (intro run_ld_addr [of t pre ?a "code S e @ st_back (ewidth S e) @ post"]) auto
  moreover have "computes sys t (vm_loop sys (mk t (length pre + length (ld_addr ?a)) (Suc sp) (stk[sp := ?a]) m)) (Suc sp) (stk[sp := ?a])
      (length pre + length (ld_addr ?a) + length (code S e)) (ewidth S e) (eval S sys e m)"
    using t by (intro runsD [OF e, of t "pre @ ld_addr ?a"]) auto
  ultimately have c: "computes sys t (vm_loop sys (mk t (length pre) sp stk m)) (Suc sp) (stk[sp := ?a])
      (length pre + length (ld_addr ?a) + length (code S e)) (ewidth S e) (eval S sys e m)" by simp
  show "computes sys t (vm_loop sys (mk t (length pre) sp stk m)) sp stk (length pre + length (code S ?x)) (ewidth S ?x) (eval S sys ?x m)"
    unfolding eval.simps
  proof (rule computes_bind [OF c])
    fix v m and stk' :: "u32 list"
    assume s: "length stk' = length (stk[sp := ?a])" "take (Suc sp) stk' = take (Suc sp) (stk[sp := ?a])" "cell_int (ewidth S e) (stk' ! Suc sp) = v"
    have "stk' ! sp = ?a" "take sp stk' = take sp stk"
      using take_nth_eq [OF s(2)] take_le_eq [OF s(2), of sp] t by simp_all
    then show "computes sys t (vm_loop sys (mk t (length pre + length (ld_addr ?a) + length (code S e)) (Suc (Suc sp)) stk' m)) sp stk (length pre + length (code S ?x))
        (ewidth S ?x) (case (v, m) of (x, m) \<Rightarrow> Some (x, mem_put (ewidth S e) ?a x m))"
      using t s w depth_pos [of e]
      by (auto simp del: mem_put.simps intro!: computes_store [of _ "pre @ ld_addr ?a @ code S e" "ewidth S e" post])
  qed
qed

lemma runs_store:
  assumes a: "runs S sys a" and b: "runs S sys b" and w: "ewidth S a = DWORD" "ewidth S b = DWORD"
  shows "runs S sys (EStore a b)"
proof (rule runsI)
  fix t pre post sp and stk :: "u32 list" and m
  let ?x = "EStore a b"
  assume t: "t = pre @ code S ?x @ post" "length t = FINSH_TEXT_MAX" "sp + depth ?x \<le> length stk"
  have c: "computes sys t (vm_loop sys (mk t (length pre) sp stk m)) sp stk (length pre + length (code S a)) (ewidth S a) (eval S sys a m)"
    using t by (intro runsD [OF a]) auto
  show "computes sys t (vm_loop sys (mk t (length pre) sp stk m)) sp stk (length pre + length (code S ?x)) (ewidth S ?x) (eval S sys ?x m)"
    unfolding eval.simps
  proof (rule computes_bind [OF c], clarsimp simp del: mem_put.simps, rule computes_bind)
    fix m and stk' :: "u32 list"
    assume s: "length stk' = length stk" "take sp stk' = take sp stk"
    show "computes sys t (vm_loop sys (mk t (length pre + length (code S a)) (Suc sp) stk' m)) (Suc sp) stk'
        (length pre + length (code S a) + length (code S b)) (ewidth S b) (eval S sys b m)"
      using t s by (intro runsD [OF b, of t "pre @ code S a"]) auto
    fix v m2 and stk2 :: "u32 list"
    assume s2: "length stk2 = length stk'" "take (Suc sp) stk2 = take (Suc sp) stk'" "cell_int (ewidth S b) (stk2 ! Suc sp) = v"
    have "Suc sp < length stk2" using t s s2 depth_pos [of b] by simp
    moreover have "stk2 ! sp = stk' ! sp" "take sp stk2 = take sp stk"
      using take_nth_eq [OF s2(2)] take_le_eq [OF s2(2), of sp] s by simp_all
    moreover have "word_of_int (cell_int (ewidth S a) (stk' ! sp)) = stk' ! sp" using w by (auto simp: cell_int.simps)
    ultimately show "computes sys t (vm_loop sys (mk t (length pre + length (code S a) + length (code S b)) (Suc (Suc sp)) stk2 m2)) sp stk
        (length pre + (length (code S a) + (length (code S b) + length (st_back DWORD)))) DWORD
        (case (v, m2) of (y, m) \<Rightarrow> Some (y, mem_put DWORD (word_of_int (cell_int (ewidth S a) (stk' ! sp))) y m))"
      using t s s2 w by (auto simp del: mem_put.simps intro!: computes_store [of _ "pre @ code S a @ code S b" DWORD post])
  qed
qed

text \<open>The sum with 1 and its store, with the address of the variable left on the stack.\<close>

abbreviation inc_bytes :: "binop \<Rightarrow> width \<Rightarrow> u32 \<Rightarrow> u8 list" where
  "inc_bytes f w a \<equiv> ld_addr a @ ld_val w a @ one_code w @ [op_code (OP_bin f w), op_code (OP_st w)]"

lemma mem_put_wrap [simp]: "mem_put w a (wrap w x) m = mem_put w a x m"
  by (cases w) (simp_all add: wrap_simps)

lemma run_inc:
  assumes t: "t = pre @ inc_bytes f w a @ post" "length t = FINSH_TEXT_MAX" and sp: "sp + 2 < length stk"
    and z: "c_op f (mem_int w m a) 1 = Some z" and pc: "pc = length pre"
  shows "\<exists>stk'. vm_loop sys (mk t pc sp stk m) = vm_loop sys (mk t (pc + length (inc_bytes f w a)) (Suc sp) stk' (mem_put w a z m)) \<and>
    length stk' = length stk \<and> take sp stk' = take sp stk \<and> stk' ! sp = a"
proof -
  define s1 where "s1 = stk[sp := a]"
  define s2 where "s2 = s1[Suc sp := cell_put w (mem_int w m a) (s1 ! Suc sp)]"
  define s3 where "s3 = s2[Suc (Suc sp) := cell_put w 1 (s2 ! Suc (Suc sp))]"
  define s4 where "s4 = s3[Suc sp := cell_put w z (s3 ! Suc sp)]"
  let ?p1 = "pc + length (ld_addr a)"
  let ?p2 = "?p1 + length (ld_val w a)"
  let ?p3 = "?p2 + length (one_code w)"
  note s = s1_def s2_def s3_def s4_def
  have "vm_loop sys (mk t pc sp stk m) = vm_loop sys (mk t ?p1 (Suc sp) s1 m)"
    unfolding s1_def using t sp pc by (intro run_ld_addr) auto
  also have "\<dots> = vm_loop sys (mk t ?p2 (Suc (Suc sp)) s2 m)"
    unfolding s2_def using t sp pc s1_def by (intro run_ld_val [of t "pre @ ld_addr a"]) auto
  also have "\<dots> = vm_loop sys (mk t ?p3 (Suc (Suc (Suc sp))) s3 m)"
    unfolding s3_def using t sp pc s1_def s2_def by (intro run_one [of t "pre @ ld_addr a @ ld_val w a"]) auto
  also have "\<dots> = vm_loop sys (mk t (Suc ?p3) (Suc (Suc sp)) s4 m)"
    using run_bin [of t "pre @ ld_addr a @ ld_val w a @ one_code w" f w "op_code (OP_st w) # post" ?p3 "Suc sp" s3 sys m] t sp pc z
    by (simp add: s wrap_one)
  also have "\<dots> = vm_loop sys (mk t (Suc (Suc ?p3)) (Suc sp) s4 (mem_put w a z m))"
    using run_st [of t "pre @ ld_addr a @ ld_val w a @ one_code w @ [op_code (OP_bin f w)]" w post "Suc ?p3" sp s4 sys m] t sp pc
    by (simp add: s)
  finally show ?thesis using sp by (intro exI [of _ s4]) (simp add: s add.assoc)
qed

lemma runs_pre:
  assumes w: "lval_width S (LVar p) = Some w" and f: "f = Add \<or> f = Sub"
  shows "runs S sys (EPre f p)"
proof (rule runsI)
  fix t pre post sp and stk :: "u32 list" and m
  let ?x = "EPre f p" and ?a = "var_value p"
  assume t: "t = pre @ code S ?x @ post" "length t = FINSH_TEXT_MAX" "sp + depth ?x \<le> length stk"
  obtain z where z: "c_op f (mem_int w m ?a) 1 = Some z" using f by auto
  obtain stk' where s: "vm_loop sys (mk t (length pre) sp stk m) =
      vm_loop sys (mk t (length pre + length (inc_bytes f w ?a)) (Suc sp) stk' (mem_put w ?a z m))"
    "length stk' = length stk" "take sp stk' = take sp stk" "stk' ! sp = ?a"
    using run_inc [of t pre ?a w f "op_code (OP_ld_value_stack DWORD) # post" sp stk m z "length pre" sys] t w z by (auto simp: Let_def)
  have "cell_int w (cell_put DWORD (mem_int DWORD (mem_put w ?a z m) ?a) v) = wrap w z" for v
    using cell_int_get32 [of w "mem_put w ?a z m" ?a] by (simp add: cell_put.simps del: mem_put.simps)
  then show "computes sys t (vm_loop sys (mk t (length pre) sp stk m)) sp stk (length pre + length (code S ?x)) (ewidth S ?x) (eval S sys ?x m)"
    using run_ld_stack [of t "pre @ inc_bytes f w ?a" DWORD post "length pre + length (inc_bytes f w ?a)" sp stk' sys "mem_put w ?a z m"] t w z s
    by (auto simp: Let_def simp del: mem_put.simps mem_int.simps intro!: computesI)
qed

lemma runs_post:
  assumes w: "lval_width S (LVar p) = Some w" and f: "f = Add \<or> f = Sub"
  shows "runs S sys (EPost f p)"
proof (rule runsI)
  fix t pre post sp and stk :: "u32 list" and m
  let ?x = "EPost f p" and ?a = "var_value p"
  assume t: "t = pre @ code S ?x @ post" "length t = FINSH_TEXT_MAX" "sp + depth ?x \<le> length stk"
  obtain z where z: "c_op f (mem_int w m ?a) 1 = Some z" using f by auto
  let ?s = "stk[sp := cell_put w (mem_int w m ?a) (stk ! sp)]" and ?p = "length pre + length (ld_val w ?a)"
  have 1: "vm_loop sys (mk t (length pre) sp stk m) = vm_loop sys (mk t ?p (Suc sp) ?s m)"
    using t w by (intro run_ld_val) (auto simp: Let_def)
  obtain stk' where s: "vm_loop sys (mk t ?p (Suc sp) ?s m) =
      vm_loop sys (mk t (?p + length (inc_bytes f w ?a)) (Suc (Suc sp)) stk' (mem_put w ?a z m))"
    "length stk' = length stk" "take (Suc sp) stk' = take (Suc sp) ?s"
    using run_inc [of t "pre @ ld_val w ?a" ?a w f "op_code OP_pop # post" "Suc sp" ?s m z ?p sys] t w z by (auto simp: Let_def)
  have "stk' ! sp = cell_put w (mem_int w m ?a) (stk ! sp)" "take sp stk' = take sp stk"
    using take_nth_eq [OF s(3)] take_le_eq [OF s(3), of sp] t by simp_all
  then show "computes sys t (vm_loop sys (mk t (length pre) sp stk m)) sp stk (length pre + length (code S ?x)) (ewidth S ?x) (eval S sys ?x m)"
    using run_pop [of t "pre @ ld_val w ?a @ inc_bytes f w ?a" post "?p + length (inc_bytes f w ?a)" "Suc sp" stk' sys "mem_put w ?a z m"] t w z s 1
    by (auto simp: Let_def simp del: mem_put.simps mem_int.simps intro!: computesI)
qed

section \<open>Calls\<close>

text \<open>The arguments, each above the ones before.\<close>

lemma take_snoc_list: "sp < length (xs :: 'a list) \<Longrightarrow> take (Suc n) (drop sp xs) = xs ! sp # take n (drop (Suc sp) xs)"
  by (metis Cons_nth_drop_Suc take_Suc_Cons)

lemma runs_list:
  assumes "\<forall>e\<in>set es. runs S sys e \<and> ewidth S e = DWORD" and "t = pre @ codes S es @ post" and "length t = FINSH_TEXT_MAX"
    and "sp + depths es \<le> length stk" and "pc = length pre"
  shows "computes_list sys t (vm_loop sys (mk t pc sp stk m)) sp stk (pc + length (codes S es)) (length es) (evals S sys es m)"
  using assms
proof (induction es arbitrary: pre pc sp stk m)
  case Nil
  then show ?case by (auto simp: computes_list_def)
next
  case (Cons e es)
  have c: "computes sys t (vm_loop sys (mk t pc sp stk m)) sp stk (pc + length (code S e)) DWORD (eval S sys e m)"
    using Cons.prems runsD [of S sys e t pre "codes S es @ post" sp stk pc m] by auto
  show ?case
  proof (cases "eval S sys e m")
    case None
    with c show ?thesis by (simp add: computes_def computes_list_def)
  next
    case (Some r)
    obtain v m1 where r: "r = (v, m1)" by (cases r)
    obtain stk1 where s1: "vm_loop sys (mk t pc sp stk m) = vm_loop sys (mk t (pc + length (code S e)) (Suc sp) stk1 m1)"
      "length stk1 = length stk" "take sp stk1 = take sp stk" "cell_int DWORD (stk1 ! sp) = v"
      using c Some r by (auto simp: computes_def)
    have v: "stk1 ! sp = word_of_int v" using s1(4) by (auto simp: cell_int.simps)
    have sp: "sp < length stk" using Cons.prems depth_pos [of e] by simp
    have l: "computes_list sys t (vm_loop sys (mk t (pc + length (code S e)) (Suc sp) stk1 m1)) (Suc sp) stk1
        (pc + length (code S e) + length (codes S es)) (length es) (evals S sys es m1)"
      using Cons.prems s1 by (intro Cons.IH [of "pre @ code S e"]) auto
    show ?thesis
    proof (cases "evals S sys es m1")
      case None
      with l show ?thesis using s1 Some r by (simp add: computes_list_def)
    next
      case (Some q)
      obtain vs m2 where q: "q = (vs, m2)" by (cases q)
      obtain stk2 where s2: "vm_loop sys (mk t (pc + length (code S e)) (Suc sp) stk1 m1) =
            vm_loop sys (mk t (pc + length (code S e) + length (codes S es)) (Suc sp + length es) stk2 m2)"
        "length stk2 = length stk1" "take (Suc sp) stk2 = take (Suc sp) stk1" "take (length es) (drop (Suc sp) stk2) = map word_of_int vs"
        using l Some q by (auto simp: computes_list_def)
      have "stk2 ! sp = word_of_int v" "take sp stk2 = take sp stk"
        using take_nth_eq [OF s2(3)] take_le_eq [OF s2(3), of sp] v s1 by simp_all
      then show ?thesis
        using s1 s2 sp Some r q \<open>eval S sys e m = Some r\<close>
        by (auto simp: computes_list_def add.assoc take_snoc_list intro!: exI [of _ stk2])
    qed
  qed
qed

lemma length_le_depths: "length es \<le> depths es"
  by (induction es) auto

lemma runs_call:
  assumes es: "\<forall>e\<in>set es. runs S sys e \<and> ewidth S e = DWORD" and n: "length es \<le> 16"
  shows "runs S sys (ECall p es)"
proof (rule runsI)
  fix t pre post :: "u8 list" and sp and stk :: "u32 list" and m
  let ?x = "ECall p es" and ?a = "syscall_func S p"
  let ?p1 = "length pre + length (ld_addr ?a)"
  assume t: "t = pre @ code S ?x @ post" "length t = FINSH_TEXT_MAX" "sp + depth ?x \<le> length stk"
  have "vm_loop sys (mk t (length pre) sp stk m) = vm_loop sys (mk t ?p1 (Suc sp) (stk[sp := ?a]) m)"
    using t by (intro run_ld_addr) auto
  then have c: "computes_list sys t (vm_loop sys (mk t (length pre) sp stk m)) (Suc sp) (stk[sp := ?a]) (?p1 + length (codes S es)) (length es) (evals S sys es m)"
    using runs_list [OF es, of t "pre @ ld_addr ?a" "[op_code OP_call, word_of_nat (length es)] @ post" "Suc sp" "stk[sp := ?a]" ?p1 m] t by simp
  show "computes sys t (vm_loop sys (mk t (length pre) sp stk m)) sp stk (length pre + length (code S ?x)) (ewidth S ?x) (eval S sys ?x m)"
    unfolding eval.simps
  proof (rule computes_list_bind [OF c])
    fix vs m and stk' :: "u32 list"
    assume s: "length stk' = length (stk[sp := ?a])" "take (Suc sp) stk' = take (Suc sp) (stk[sp := ?a])"
      "take (length es) (drop (Suc sp) stk') = map word_of_int vs"
    have "stk' ! sp = ?a" "take sp stk' = take sp stk"
      using take_nth_eq [OF s(2)] take_le_eq [OF s(2), of sp] t by simp_all
    then show "computes sys t (vm_loop sys (mk t (?p1 + length (codes S es)) (Suc sp + length es) stk' m)) sp stk (length pre + length (code S ?x)) (ewidth S ?x)
        (case (vs, m) of (xs, m) \<Rightarrow> sys ?a (if es = [] then [0] else map word_of_int xs) m \<bind> (\<lambda>(r, m). Some (sint r, m)))"
      using run_call [of t "pre @ ld_addr ?a @ codes S es" "length es" post "?p1 + length (codes S es)" sp stk' sys m] t s n length_le_depths [of es]
      by (auto intro!: computesI computes_None simp: cell_int.simps split: option.split)
  qed
qed

text \<open>The code of a well-typed expression computes it.\<close>

lemma runs_well_typed: "well_typed S x \<Longrightarrow> runs S sys x"
proof (induction x)
  case (EId l)
  then show ?case by (auto intro: runs_id)
next
  case (ECall p es)
  then show ?case by (auto intro!: runs_call)
qed (auto intro: runs_char runs_const runs_bitwise runs_bin runs_assign runs_pre runs_post runs_deref runs_store)

end
