(* ===== verification/FinshProps.thy ===== *)
theory FinshProps
  imports FinshCorrect FinshExec
begin

text \<open>
  The compiler and the virtual machine of the finsh shell together: the statements of a line, type checked, compiled
  and run, do what their expressions mean, as long as the code fits the text segment; and what happens where it does
  not, or where the types are not as the compiler takes them to be.
\<close>

unbundle bit_operations_syntax

section \<open>The statements of a line\<close>

fun exec :: "symbols \<Rightarrow> syscalls \<Rightarrow> fexpr list \<Rightarrow> bytes \<Rightarrow> (int \<times> bytes) option" where
  "exec S sys [] m = Some (0, m)"
| "exec S sys [x] m = eval S sys x m"
| "exec S sys (x # xs) m = do { (v, m) \<leftarrow> eval S sys x m; exec S sys xs m }"

fun prog_code :: "symbols \<Rightarrow> fexpr list \<Rightarrow> u8 list" where
  "prog_code S [] = []"
| "prog_code S [x] = code S x"
| "prog_code S (x # xs) = code S x @ op_code OP_pop # prog_code S xs"

section \<open>Emission\<close>

text \<open>The compiler writes the bytes one after the other, and past the end of the text segment when there are too many.\<close>

lemma emit_fits:
  "finsh_compile_pc st + length bs \<le> length (code_text st) \<Longrightarrow>
     emit bs st = Some (st\<lparr>code_text := take (finsh_compile_pc st) (code_text st) @ bs @ drop (finsh_compile_pc st + length bs) (code_text st),
       finsh_compile_pc := finsh_compile_pc st + length bs\<rparr>)"
proof (induction bs arbitrary: st)
  case (Cons b bs)
  let ?n = "finsh_compile_pc st" and ?t = "code_text st"
  have "take (Suc ?n) (?t[?n := b]) = take ?n ?t @ [b]" "drop (Suc ?n + length bs) (?t[?n := b]) = drop (Suc ?n + length bs) ?t"
    using Cons.prems by (simp_all add: take_Suc_conv_app_nth)
  with Cons show ?case by (simp add: finsh_code_byte_def)
qed simp

lemma emit_overflow:
  "length (code_text st) < finsh_compile_pc st + length bs \<Longrightarrow> finsh_compile_pc st \<le> length (code_text st) \<Longrightarrow> emit bs st = None"
proof (induction bs arbitrary: st)
  case (Cons b bs)
  then show ?case by (cases "finsh_compile_pc st < length (code_text st)") (simp_all add: finsh_code_byte_def)
qed simp

lemma compile_statements_sibling:
  "compile_statements S (set_sibling s n) st =
     do { st \<leftarrow> finsh_compile S (set_sibling None n) st;
          (case s of None \<Rightarrow> Some st | Some n \<Rightarrow> do { st \<leftarrow> finsh_code_byte (op_code OP_pop) st; compile_statements S n st }) }"
  by (cases n) (auto split: option.split)

lemma compile_statements_typed:
  "xs \<noteq> [] \<Longrightarrow> \<forall>x\<in>set xs. well_typed S x \<Longrightarrow> compile_statements S (the (typeds_of S xs)) st = emit (prog_code S xs) st"
proof (induction S xs arbitrary: st rule: prog_code.induct)
  case (2 S x)
  then show ?case using compile_typed [of S x None] compile_statements_sibling [of S None "typed_of S x" st] by simp
next
  case (3 S x y ys)
  then have "compile_statements S (the (typeds_of S (y # ys))) = emit (prog_code S (y # ys))" by auto
  then show ?case using 3 compile_typed [of S x None] by (simp add: compile_statements_sibling emit_append)
qed simp

lemma compiler_run_typed:
  assumes "xs \<noteq> []" and "\<forall>x\<in>set xs. well_typed S x" and "0 < length (vm_stack vm)"
  shows "finsh_compiler_run S (nodes_of xs) e vm =
    (if length (prog_code S xs) \<le> FINSH_TEXT_MAX
     then Some (vm\<lparr>text_segment := prog_code S xs @ replicate (FINSH_TEXT_MAX - length (prog_code S xs)) 0, vm_stack := (vm_stack vm)[0 := 0]\<rparr>, e)
     else None)"
proof -
  have "check_opt S (nodes_of xs) e = (typeds_of S xs, e)"
    using assms(2) by (intro check_chain type_check_typed) auto
  moreover obtain n n' where n: "nodes_of xs = Some n" "typeds_of S xs = Some n'" using assms(1) by (cases xs) auto
  ultimately have "finsh_type_check S 0 n e = (n', e)" by (simp add: check_opt_def split: prod.splits)
  moreover have "compile_statements S n' st = emit (prog_code S xs) st" for st
    using compile_statements_typed [OF assms(1,2), of st] n by simp
  ultimately show ?thesis
    using n assms(3) by (simp add: finsh_compiler_run_def emit_fits emit_overflow)
qed

section \<open>Execution\<close>

lemma run_zeros:
  "t = pre @ replicate n 0 \<Longrightarrow> length t = FINSH_TEXT_MAX \<Longrightarrow> pc = length pre \<Longrightarrow>
     vm_loop sys (mk t pc sp stk m) = Some (mk t FINSH_TEXT_MAX sp stk m)"
proof (induction n arbitrary: pre pc)
  case 0
  then show ?case by (subst vm_loop.simps) simp
next
  case (Suc n)
  have "vm_loop sys (mk t pc sp stk m) = vm_loop sys (mk t (Suc pc) sp stk m)"
    using run_op [of t pre OP_no_op "replicate n 0" pc sys sp stk m] Suc.prems by simp
  also have "\<dots> = Some (mk t FINSH_TEXT_MAX sp stk m)"
    using Suc.prems by (intro Suc.IH [of "pre @ [0]"]) simp_all
  finally show ?case .
qed

lemma run_prog:
  "xs \<noteq> [] \<Longrightarrow> \<forall>x\<in>set xs. well_typed S x \<and> depth x \<le> length stk \<Longrightarrow> t = pre @ prog_code S xs @ post \<Longrightarrow> length t = FINSH_TEXT_MAX \<Longrightarrow>
     pc = length pre \<Longrightarrow>
     computes sys t (vm_loop sys (mk t pc 0 stk m)) 0 stk (pc + length (prog_code S xs)) (ewidth S (last xs)) (exec S sys xs m)"
proof (induction S xs arbitrary: pre pc stk m rule: prog_code.induct)
  case (2 S x)
  then show ?case using runsD [OF runs_well_typed, of S x t pre post 0 stk pc sys m] by simp
next
  case (3 S x y ys)
  let ?xs = "y # ys"
  have c: "computes sys t (vm_loop sys (mk t pc 0 stk m)) 0 stk (pc + length (code S x)) (ewidth S x) (eval S sys x m)"
    using 3 by (intro runsD [OF runs_well_typed]) auto
  show ?case unfolding exec.simps
  proof (rule computes_bind [OF c])
    fix v m and stk' :: "u32 list"
    assume s: "length stk' = length stk"
    have "0 < length stk'" using s "3.prems"(2) depth_pos [of x] by fastforce
    then have "vm_loop sys (mk t (pc + length (code S x)) (Suc 0) stk' m) = vm_loop sys (mk t (Suc (pc + length (code S x))) 0 stk' m)"
      using 3 s by (intro run_pop [of t "pre @ code S x"]) simp_all
    moreover have "computes sys t (vm_loop sys (mk t (Suc (pc + length (code S x))) 0 stk' m)) 0 stk'
        (Suc (pc + length (code S x)) + length (prog_code S ?xs)) (ewidth S (last ?xs)) (exec S sys ?xs m)"
      using 3 s by (intro "3.IH" [of stk' "pre @ code S x @ [op_code OP_pop]"]) simp_all
    ultimately show "computes sys t (vm_loop sys (mk t (pc + length (code S x)) (Suc 0) stk' m)) 0 stk (pc + length (prog_code S (x # ?xs)))
        (ewidth S (last (x # ?xs))) (case (v, m) of (v, m) \<Rightarrow> exec S sys ?xs m)"
      using s by (simp add: computes_def add.assoc cong: option.case_cong)
  qed
qed simp

lemma compile_run_typed:
  assumes "xs \<noteq> []" and "\<forall>x\<in>set xs. well_typed S x \<and> depth x \<le> FINSH_STACK_MAX"
    and "length (prog_code S xs) \<le> FINSH_TEXT_MAX" and "length (vm_stack vm) = FINSH_STACK_MAX"
  shows "\<exists>vm'. finsh_compiler_run S (nodes_of xs) FINSH_ERROR_OK vm = Some (vm', FINSH_ERROR_OK) \<and>
    (case exec S sys xs (vm_mem vm) of
       None \<Rightarrow> finsh_vm_run sys vm' = None
     | Some (v, m) \<Rightarrow> \<exists>vm''. finsh_vm_run sys vm' = Some vm'' \<and> vm_mem vm'' = m \<and> finsh_sp vm'' = 1 \<and>
         cell_int (ewidth S (last xs)) (finsh_stack_bottom vm'') = v)"
proof -
  let ?z = "replicate (FINSH_TEXT_MAX - length (prog_code S xs)) (0 :: u8)" and ?s = "(vm_stack vm)[0 := 0]"
  let ?t = "prog_code S xs @ ?z" and ?m = "vm_mem vm"
  let ?vm = "vm\<lparr>text_segment := ?t, vm_stack := ?s\<rparr>"
  have l: "length ?t = FINSH_TEXT_MAX" using assms(3) by simp
  have "computes sys ?t (vm_loop sys (mk ?t 0 0 ?s ?m)) 0 ?s (0 + length (prog_code S xs)) (ewidth S (last xs)) (exec S sys xs ?m)"
    using assms l by (intro run_prog [of xs S ?s ?t "[]" ?z]) simp_all
  then have c: "computes sys ?t (finsh_vm_run sys ?vm) 0 ?s (length (prog_code S xs)) (ewidth S (last xs)) (exec S sys xs ?m)"
    by (cases vm) (simp add: finsh_vm_run_def mk_def)
  have "case exec S sys xs ?m of
       None \<Rightarrow> finsh_vm_run sys ?vm = None
     | Some (v, m) \<Rightarrow> \<exists>vm''. finsh_vm_run sys ?vm = Some vm'' \<and> vm_mem vm'' = m \<and> finsh_sp vm'' = 1 \<and>
         cell_int (ewidth S (last xs)) (finsh_stack_bottom vm'') = v"
  proof (cases "exec S sys xs ?m")
    case None
    with c show ?thesis by (simp add: computes_def)
  next
    case (Some r)
    obtain v m where r: "r = (v, m)" by (cases r)
    obtain stk' where "finsh_vm_run sys ?vm = vm_loop sys (mk ?t (length (prog_code S xs)) (Suc 0) stk' m)"
      "cell_int (ewidth S (last xs)) (stk' ! 0) = v" using c Some r by (auto simp: computes_def)
    then show ?thesis using run_zeros [of ?t "prog_code S xs" _ "length (prog_code S xs)" sys "Suc 0" stk' m] l Some r
      by (simp add: finsh_stack_bottom_def)
  qed
  then show ?thesis using compiler_run_typed [OF assms(1), of S vm FINSH_ERROR_OK] assms by simp
qed

section \<open>The properties\<close>

text \<open>
  The statements of a line, well typed and with code that fits the text segment, are compiled without an error,
  and the machine then does what they mean one after the other: it ends, with the memory the last one leaves and its value,
  in its width, at the bottom of the stack; it goes wrong only where a statement has no meaning in C.\<close>

theorem finsh_compile_run_correct:
  assumes "xs \<noteq> []" and "\<forall>x\<in>set xs. well_typed S x \<and> depth x \<le> FINSH_STACK_MAX"
    and "length (prog_code S xs) \<le> FINSH_TEXT_MAX" and "length (vm_stack vm) = FINSH_STACK_MAX"
  shows "\<exists>vm'. finsh_compiler_run S (nodes_of xs) FINSH_ERROR_OK vm = Some (vm', FINSH_ERROR_OK) \<and>
    (case exec S sys xs (vm_mem vm) of
       None \<Rightarrow> finsh_vm_run sys vm' = None
     | Some (v, m) \<Rightarrow> \<exists>vm''. finsh_vm_run sys vm' = Some vm'' \<and> vm_mem vm'' = m \<and> finsh_sp vm'' = 1 \<and>
         cell_int (ewidth S (last xs)) (finsh_stack_bottom vm'') = v)"
  using compile_run_typed [OF assms] .

text \<open>
  The compiler does not look at the size of the text segment: it writes past its end exactly when the code of the
  statements is longer, whatever the expressions are.\<close>

theorem finsh_compiler_overflow:
  assumes "xs \<noteq> []" and "\<forall>x\<in>set xs. well_typed S x" and "0 < length (vm_stack vm)"
  shows "finsh_compiler_run S (nodes_of xs) e vm = None \<longleftrightarrow> FINSH_TEXT_MAX < length (prog_code S xs)"
  using compiler_run_typed [OF assms, of e] by auto

text \<open>
  The type check gives a call the type of the function's node, \<^verbatim>\<open>void\<close>, and an operation takes its type from its left
  operand: with a call on the left no operation is compiled at all, whichever operator it is, and the line leaves both operands on the
  stack, the result of the call at the bottom.\<close>

theorem finsh_call_left_operand_dropped:
  assumes "well_typed S (ECall p es)" and "well_typed S b" and "0 < length (vm_stack vm)"
    and "length (code S (ECall p es) @ code S b) \<le> FINSH_TEXT_MAX"
  shows "finsh_compiler_run S (Some (node_of (EBin f (ECall p es) b))) e vm =
    Some (vm\<lparr>text_segment := code S (ECall p es) @ code S b @ replicate (FINSH_TEXT_MAX - length (code S (ECall p es) @ code S b)) 0,
             vm_stack := (vm_stack vm)[0 := 0]\<rparr>, e)"
proof -
  let ?a = "ECall p es"
  let ?n = "typed_sys (FINSH_NODE_SYS_BIN f) 0 (typed_of S ?a) (Some (typed_of S b))"
  have b: "check_opt S (Some (node_of b)) e = (Some (typed_of S b), e)" using type_check_typed [OF assms(2), of None e None] by simp
  have t: "finsh_type_check S 0 (node_of (EBin f ?a b)) e = (?n, e)"
    using typed_sysE [of S "FINSH_NODE_SYS_BIN f" "Some (node_of b)" "node_of ?a" e "Some (typed_of S b)" "typed_of S ?a" None None]
      type_check_typed [OF assms(1) b] by (simp add: child_is_addr_def del: node_of.simps(11) typed_of.simps(11) well_typed.simps finsh_type_check.simps)
  have v: "data_type (typed_of S ?a) = FINSH_DATA_TYPE_VOID" using data_type_typed [OF assms(1)] by simp
  have n: "node_code S ?n = Some ([], None)" using v by (simp add: node_code_def width_code_def)
  have c: "finsh_compile S (set_sibling s ?n) st = do { st \<leftarrow> emit (code S ?a @ code S b @ []) st; compile_opt S s st }" for s st
    using compile_typed [OF assms(1)] compile_typed [OF assms(2), of None] by (intro compile_sys [OF n]) auto
  have "compile_statements S ?n st = emit (code S ?a @ code S b) st" for st
    using compile_statements_sibling [of S None ?n st] c [of None st] by simp
  then show ?thesis using t assms(3,4) by (simp add: finsh_compiler_run_def emit_fits del: node_of.simps code.simps)
qed

text \<open>A value has its width: the numbers an expression can have are those of its type.\<close>

lemma eval_width:
  "well_typed S x \<Longrightarrow> eval S sys x m = Some (v, m') \<Longrightarrow> wrap (ewidth S x) v = v"
proof (induction x arbitrary: m v m')
  case (EAssign l x)
  then show ?case by (auto split: bind_splits)
qed (auto simp: wrap_simps Let_def split: bind_splits prod.splits)


section \<open>Instances\<close>

definition int_symbols :: symbols where
  "int_symbols = \<lparr>var_type = (\<lambda>_. finsh_type_int), sysvar_type = (\<lambda>_. finsh_type_int), sysvar_var = (\<lambda>p. p), syscall_func = (\<lambda>p. p)\<rparr>"

definition no_syscalls :: syscalls where
  "no_syscalls f args m = None"

definition fresh_vm :: finsh_vm where
  "fresh_vm = \<lparr>vm_stack = replicate FINSH_STACK_MAX 0, finsh_sp = 0, text_segment = replicate FINSH_TEXT_MAX 0, finsh_pc = 0, vm_mem = (\<lambda>_. 0)\<rparr>"

lemmas instance_simps = int_symbols_def no_syscalls_def fresh_vm_def lval_width_def ld_addr_def ld_val_def st_back_def

text \<open>\<^verbatim>\<open>a = 7; a * 6;\<close>\<close>

theorem finsh_compile_run_correct_witness:
  "let xs = [EAssign (LVar 4) (EInt 7), EBin Mul (EId (LVar 4)) (EInt 6)] in
   (\<exists>vm'. finsh_compiler_run int_symbols (nodes_of xs) FINSH_ERROR_OK fresh_vm = Some (vm', FINSH_ERROR_OK) \<and>
     (\<exists>vm''. finsh_vm_run no_syscalls vm' = Some vm'' \<and> cell_int DWORD (finsh_stack_bottom vm'') = 42))"
proof -
  let ?xs = "[EAssign (LVar 4) (EInt 7), EBin Mul (EId (LVar 4)) (EInt 6)]"
  have "\<exists>m. exec int_symbols no_syscalls ?xs (vm_mem fresh_vm) = Some (42, m)"
    by (simp add: instance_simps wrap_simps)
  then show ?thesis using finsh_compile_run_correct [of ?xs int_symbols fresh_vm no_syscalls]
    by (auto simp: instance_simps simp del: exec.simps nodes_of.simps)
qed

text \<open>\<^verbatim>\<open>a++;\<close> six times.\<close>

theorem finsh_compiler_overflow_witness:
  "finsh_compiler_run int_symbols (nodes_of [EPost Add 4, EPost Add 4, EPost Add 4, EPost Add 4, EPost Add 4, EPost Add 4]) FINSH_ERROR_OK fresh_vm = None"
  using finsh_compiler_overflow [of "[EPost Add 4, EPost Add 4, EPost Add 4, EPost Add 4, EPost Add 4, EPost Add 4]" int_symbols fresh_vm FINSH_ERROR_OK]
  by (simp add: instance_simps Let_def del: nodes_of.simps)

text \<open>\<^verbatim>\<open>f(1) + 2;\<close> and \<^verbatim>\<open>f(1) - 2;\<close> have the same code.\<close>

theorem finsh_call_left_operand_dropped_witness:
  "finsh_compiler_run int_symbols (Some (node_of (EBin Add (ECall 8 [EInt 1]) (EInt 2)))) FINSH_ERROR_OK fresh_vm =
   finsh_compiler_run int_symbols (Some (node_of (EBin Sub (ECall 8 [EInt 1]) (EInt 2)))) FINSH_ERROR_OK fresh_vm"
  using finsh_call_left_operand_dropped [of int_symbols 8 "[EInt 1]" "EInt 2" fresh_vm Add FINSH_ERROR_OK]
    finsh_call_left_operand_dropped [of int_symbols 8 "[EInt 1]" "EInt 2" fresh_vm Sub FINSH_ERROR_OK]
  by (simp add: instance_simps del: node_of.simps)


end
