(* ===== verification/FinshLine.thy ===== *)
theory FinshLine
  imports FinshParse FinshProps
begin

text \<open>
  The run of a line of the finsh shell from its characters to its value: tokenizer, parser, type check, compiler and virtual machine
  together, against the meaning of the expressions the line spells.
\<close>

section \<open>Statements\<close>

inductive line_toks :: "finsh_tables \<Rightarrow> finsh_data \<Rightarrow> fexpr list \<Rightarrow> atok list \<Rightarrow> bool" for G d where
  lNil: "line_toks G d [] []"
| lCons: "toks G d 0 x us \<Longrightarrow> line_toks G d xs vs \<Longrightarrow> line_toks G d (x # xs) (us @ TOp finsh_token_type_semicolon # vs)"

text \<open>A statement linked behind the others.\<close>

lemma set_sibling_at_nodes:
  "ys \<noteq> [] \<Longrightarrow> map_option (set_sibling_at (length ys - 1) (Some (node_of x))) (nodes_of ys) = nodes_of (ys @ [x])"
proof (induction ys)
  case (Cons y ys)
  show ?case
  proof (cases "ys = []")
    case False
    then obtain k where k: "length ys = Suc k" by (cases ys) auto
    have "map_option (set_sibling_at k (Some (node_of x))) (nodes_of ys) = nodes_of (ys @ [x])" using Cons.IH [OF False] k by simp
    then show ?thesis using k by simp
  qed simp
qed simp

lemma link_statement_nodes:
  assumes "parser_root st = nodes_of ys" and "k = length ys - 1"
  shows "link_statement (Some (node_of x)) k st = (length (ys @ [x]) - 1, st\<lparr>parser_root := nodes_of (ys @ [x])\<rparr>)"
proof (cases "ys = []")
  case True
  then show ?thesis using assms by (simp add: link_statement_def)
next
  case False
  then obtain r where "nodes_of ys = Some r" by (cases ys) auto
  then show ?thesis using assms set_sibling_at_nodes [OF False, of x] False by (simp add: link_statement_def)
qed

lemma expr_statement:
  assumes "toks G d 0 x us"
  obtains N where "\<And>n st rest. N \<le> n \<Longrightarrow> feeds st (us @ TOp finsh_token_type_semicolon # rest) \<Longrightarrow> shell_data st = d \<Longrightarrow>
    node_count st + nodes x \<le> FINSH_NODE_MAX \<Longrightarrow> yields (proc_expr_statement G n) st (node_of x) (nodes x) rest"
proof -
  obtain N where N: "\<And>n st t rest. N \<le> n \<Longrightarrow> feeds st (us @ t # rest) \<Longrightarrow> shell_data st = d \<Longrightarrow> node_count st + nodes x \<le> FINSH_NODE_MAX \<Longrightarrow>
    stops 0 (ttype t) \<Longrightarrow> yields (lev G 0 n) st (node_of x) (nodes x) (t # rest)" using parses_toks(1) [OF assms, THEN conjunct1] by (rule parsesD) blast
  obtain u us' where u: "us = u # us'" "starts 0 u" using toks_start(1) [OF assms] by auto
  show ?thesis
  proof (rule that [of N])
    fix n and st :: finsh_shell and rest
    assume h: "N \<le> n" "feeds st (us @ TOp finsh_token_type_semicolon # rest)" "shell_data st = d" "node_count st + nodes x \<le> FINSH_NODE_MAX"
    obtain st1 where 1: "finsh_token_token st = Some (ttype u, st1)" "feeds (finsh_token_replay st1) (us @ TOp finsh_token_type_semicolon # rest)" "moved st 0 st1"
      using next_token [of st u "us' @ TOp finsh_token_type_semicolon # rest"] h(2) u by auto
    have "yields (lev G 0 n) (finsh_token_replay st1) (node_of x) (nodes x) (TOp finsh_token_type_semicolon # rest)"
      using N [OF h(1) 1(2)] h 1(3) by (simp add: stops_end moved_def finsh_token_replay_def)
    then obtain st2 where 2: "proc_assign_expr G n (finsh_token_replay st1) = Some (Some (node_of x), st2)" "feeds st2 (TOp finsh_token_type_semicolon # rest)"
      "moved (finsh_token_replay st1) (nodes x) st2" by (auto simp: lev.simps elim: yieldsD)
    obtain st3 where 3: "match_token finsh_token_type_semicolon st2 = Some st3" "feeds st3 rest" "moved st2 0 st3" using match_token_feeds [OF 2(2)] .
    have "ttype u \<noteq> finsh_token_type_semicolon" using u(2) by (cases u) auto
    then have "proc_expr_statement G n st = Some (Some (node_of x), st3)" using 1 2 3 by (simp add: proc_expr_statement_def)
    then show "yields (proc_expr_statement G n) st (node_of x) (nodes x) rest"
      by (rule yieldsI) (use 1(3) 2(3) 3 in \<open>auto simp: moved_def finsh_token_replay_def\<close>)
  qed
qed

text \<open>The loop of the parser from the next token on, behind the statements \<open>ys\<close>.\<close>

lemma parser_loop_statements:
  assumes "line_toks G d xs ts"
  shows "\<exists>N. \<forall>n\<ge>N. \<forall>st ys. feeds st ts \<longrightarrow> shell_data st = d \<longrightarrow> node_count st + sum_list (map nodes xs) \<le> FINSH_NODE_MAX \<longrightarrow>
    parser_root st = nodes_of ys \<longrightarrow>
    (\<exists>st'. (do { (token, st) \<leftarrow> finsh_token_token st; parser_loop G n (length ys - 1) token st }) = Some st' \<and>
       parser_root st' = nodes_of (ys @ xs) \<and> global_errno st' = global_errno st \<and> shell_data st' = d)"
  using assms
proof (induction rule: line_toks.induct)
  case lNil
  show ?case
  proof (intro exI [of _ 1] allI impI)
    fix n :: nat and st :: finsh_shell and ys
    assume h: "1 \<le> n" "feeds st []" "shell_data st = d" "parser_root st = nodes_of ys"
    obtain m where "n = Suc m" using h(1) by (cases n) auto
    moreover obtain st' where "finsh_token_token st = Some (finsh_token_type_eof, st')" "moved st 0 st'" using feeds_end [OF h(2)] token_only_moved by metis
    ultimately show "\<exists>st'. (do { (token, st) \<leftarrow> finsh_token_token st; parser_loop G n (length ys - 1) token st }) = Some st' \<and>
       parser_root st' = nodes_of (ys @ []) \<and> global_errno st' = global_errno st \<and> shell_data st' = d"
      using h by (simp add: moved_def)
  qed
next
  case (lCons x us xs vs)
  obtain N where N: "\<And>n st rest. N \<le> n \<Longrightarrow> feeds st (us @ TOp finsh_token_type_semicolon # rest) \<Longrightarrow> shell_data st = d \<Longrightarrow>
    node_count st + nodes x \<le> FINSH_NODE_MAX \<Longrightarrow> yields (proc_expr_statement G n) st (node_of x) (nodes x) rest" using expr_statement [OF lCons.hyps(1)] by blast
  obtain M where M: "\<And>n st ys. M \<le> n \<Longrightarrow> feeds st vs \<Longrightarrow> shell_data st = d \<Longrightarrow> node_count st + sum_list (map nodes xs) \<le> FINSH_NODE_MAX \<Longrightarrow>
    parser_root st = nodes_of ys \<Longrightarrow>
    \<exists>st'. (do { (token, st) \<leftarrow> finsh_token_token st; parser_loop G n (length ys - 1) token st }) = Some st' \<and>
       parser_root st' = nodes_of (ys @ xs) \<and> global_errno st' = global_errno st \<and> shell_data st' = d" using lCons.IH by blast
  obtain u us' where u: "us = u # us'" "starts 0 u" using toks_start(1) [OF lCons.hyps(1)] by auto
  have nu: "ttype u \<notin> {finsh_token_type_eof, finsh_token_type_bad, finsh_token_type_unsigned, finsh_token_type_void, finsh_token_type_char,
      finsh_token_type_short, finsh_token_type_int, finsh_token_type_long}" using u(2) by (cases u) auto
  show ?case
  proof (intro exI [of _ "Suc (N + M)"] allI impI)
    fix n :: nat and st :: finsh_shell and ys
    assume h: "Suc (N + M) \<le> n" "feeds st (us @ TOp finsh_token_type_semicolon # vs)" "shell_data st = d"
      "node_count st + sum_list (map nodes (x # xs)) \<le> FINSH_NODE_MAX" "parser_root st = nodes_of ys"
    obtain m where m: "n = Suc m" "N \<le> m" "M \<le> m" using h(1) by (cases n) auto
    obtain st1 where 1: "finsh_token_token st = Some (ttype u, st1)" "feeds (finsh_token_replay st1) (us @ TOp finsh_token_type_semicolon # vs)" "moved st 0 st1"
      using next_token [of st u "us' @ TOp finsh_token_type_semicolon # vs"] h(2) u by auto
    have "yields (proc_expr_statement G m) (finsh_token_replay st1) (node_of x) (nodes x) vs"
      using N [OF m(2) 1(2)] h 1(3) by (simp add: moved_def finsh_token_replay_def)
    then obtain st2 where 2: "proc_expr_statement G m (finsh_token_replay st1) = Some (Some (node_of x), st2)" "feeds st2 vs" "moved (finsh_token_replay st1) (nodes x) st2"
      by (rule yieldsD)
    have m2: "moved st (nodes x) st2" using moved_trans [OF 1(3), of "nodes x" st2] 2(3) by simp
    have r: "parser_root st2 = nodes_of ys" "parser_root st1 = nodes_of ys" using m2 1(3) h(5) by (simp_all add: moved_def)
    let ?st3 = "st2\<lparr>parser_root := nodes_of (ys @ [x])\<rparr>"
    have l: "link_statement (Some (node_of x)) (length ys - 1) st2 = (length (ys @ [x]) - 1, ?st3)" using link_statement_nodes [OF r(1)] by simp
    obtain q where q: "nodes_of (ys @ [x]) = Some q" by (cases "ys @ [x]") auto
    have "parser_loop G n (length ys - 1) (ttype u) st1 =
      do { (token, st) \<leftarrow> finsh_token_token ?st3; parser_loop G m (length (ys @ [x]) - 1) token st }"
      using m(1) 2(1) l q nu by (simp add: Let_def)
    moreover have "\<exists>st'. (do { (token, st) \<leftarrow> finsh_token_token ?st3; parser_loop G m (length (ys @ [x]) - 1) token st }) = Some st' \<and>
       parser_root st' = nodes_of ((ys @ [x]) @ xs) \<and> global_errno st' = global_errno ?st3 \<and> shell_data st' = d"
      using M [OF m(3), of ?st3 "ys @ [x]"] 2(2) m2 h(3,4) by (simp add: moved_def)
    ultimately show "\<exists>st'. (do { (token, st) \<leftarrow> finsh_token_token st; parser_loop G n (length ys - 1) token st }) = Some st' \<and>
       parser_root st' = nodes_of (ys @ x # xs) \<and> global_errno st' = global_errno st \<and> shell_data st' = d"
      using 1(1) m2 by (auto simp: moved_def)
  qed
qed

section \<open>Lines\<close>

text \<open>The shell between two lines.\<close>

definition shell_ready :: "finsh_shell \<Rightarrow> bool" where
  "shell_ready st \<longleftrightarrow> parser_root st = None \<and> node_count st = 0 \<and> global_errno st = FINSH_ERROR_OK"

lemma flush_ready: "shell_ready (finsh_flush st)" "shell_data (finsh_flush st) = shell_data st"
  by (simp_all add: shell_ready_def finsh_flush_def finsh_error_set_def finsh_node_init_def finsh_token_init_def)

lemma finsh_parser_parses:
  assumes "line_toks G (shell_data st) xs ts" and "spells ts line" and "sum_list (map nodes xs) \<le> FINSH_NODE_MAX" and "shell_ready st"
  shows "\<exists>N. \<forall>n\<ge>N. \<exists>st'. finsh_parser_run G n line st = Some st' \<and> parser_root st' = nodes_of xs \<and> global_errno st' = FINSH_ERROR_OK \<and>
    shell_data st' = shell_data st"
proof -
  obtain N where N: "\<And>n st1 ys. N \<le> n \<Longrightarrow> feeds st1 ts \<Longrightarrow> shell_data st1 = shell_data st \<Longrightarrow> node_count st1 + sum_list (map nodes xs) \<le> FINSH_NODE_MAX \<Longrightarrow>
    parser_root st1 = nodes_of ys \<Longrightarrow>
    \<exists>st'. (do { (token, st) \<leftarrow> finsh_token_token st1; parser_loop G n (length ys - 1) token st }) = Some st' \<and>
       parser_root st' = nodes_of (ys @ xs) \<and> global_errno st' = global_errno st1 \<and> shell_data st' = shell_data st"
    using parser_loop_statements [OF assms(1)] by blast
  show ?thesis
  proof (intro exI [of _ N] allI impI)
    fix n
    assume "N \<le> n"
    then show "\<exists>st'. finsh_parser_run G n line st = Some st' \<and> parser_root st' = nodes_of xs \<and> global_errno st' = FINSH_ERROR_OK \<and> shell_data st' = shell_data st"
      using N [OF _ feeds_init [OF assms(2), of st], of n "[]"] assms(3,4) by (simp add: finsh_parser_run_def shell_ready_def finsh_token_init_def)
  qed
qed

text \<open>
  C30: a line whose characters spell statements, with any white space between their tokens, is parsed to the trees of the statements in
  their order, without an error and without a change of the variables, if the node table has room for them; the parser returns.\<close>

theorem finsh_parser_correct:
  assumes "line_toks G (shell_data st) xs ts" and "spells ts line" and "sum_list (map nodes xs) \<le> FINSH_NODE_MAX" and "shell_ready st"
  shows "\<exists>N. \<forall>n\<ge>N. \<exists>st'. finsh_parser_run G n line st = Some st' \<and> parser_root st' = nodes_of xs \<and> global_errno st' = FINSH_ERROR_OK \<and>
    shell_data st' = shell_data st"
  using finsh_parser_parses [OF assms] .


section \<open>Instances\<close>

text \<open>A shell with a variable \<^verbatim>\<open>int a\<close>.\<close>

definition a_data :: finsh_data where
  "a_data = \<lparr>shell_mem = (\<lambda>_. 0), global_variable = \<lparr>var_name = [97], fvar_type = finsh_type_int\<rparr> # replicate 7 no_var,
     variable_base = 0x1000, finsh_heap_base = 0x2000, free_list = 0, allocate_list = 0\<rparr>"

definition a_shell :: finsh_shell where
  "a_shell = \<lparr>tok_eof = False, tok_replay = False, tok_position = 0, current_token = finsh_token_type_none, tok_value = 0, tok_string = replicate 128 0,
     tok_line = [], global_errno = FINSH_ERROR_OK, node_count = 0, shell_data = a_data, parser_root = None\<rparr>"

definition no_tables :: finsh_tables where
  "no_tables = \<lparr>sysvar_table = [], sysvar_list = [], syscall_table = [], syscall_list = []\<rparr>"

abbreviation (input) line :: "string \<Rightarrow> u8 list" where "line s \<equiv> map of_char s"

lemma toks_le: "toks G d k x ts \<Longrightarrow> l \<le> k \<Longrightarrow> toks G d l x ts"
proof (induction "k - l" arbitrary: l)
  case (Suc n)
  have "toks G d (Suc l) x ts" by (rule Suc.hyps(1) [OF _ Suc.prems(1)]) (use Suc.hyps(2) in simp_all)
  then show ?case by (rule tUp)
qed simp

lemma a_named: "named_lval no_tables a_data [97] (LVar 0x1000)"
  by code_simp

text \<open>The tokens and the text of \<^verbatim>\<open>a = 7; a*6;\<close>.\<close>

abbreviation (input) a_exprs :: "fexpr list" where
  "a_exprs \<equiv> [EAssign (LVar 0x1000) (EInt 7), EBin Mul (EId (LVar 0x1000)) (EInt 6)]"

abbreviation (input) a_tokens :: "atok list" where
  "a_tokens \<equiv> [TName [97], TOp finsh_token_type_assign, TInt 7, TOp finsh_token_type_semicolon,
     TName [97], TOp finsh_token_type_mul, TInt 6, TOp finsh_token_type_semicolon]"

lemma a_toks: "line_toks no_tables a_data a_exprs a_tokens"
proof -
  let ?e = "EBin Mul (EId (LVar 0x1000)) (EInt 6)"
  have "toks no_tables a_data 0 (EAssign (LVar 0x1000) (EInt 7)) (TName [97] # TOp finsh_token_type_assign # [TInt 7])"
    by (intro tAssign a_named toks_le [OF tInt]) simp
  moreover have "toks no_tables a_data (op_level Mul) ?e ([TName [97]] @ TOp (op_token Mul) # [TInt 6])"
    by (intro tBin toks_le [OF tId [OF a_named]] toks_le [OF tInt]) simp_all
  then have "toks no_tables a_data 0 ?e ([TName [97]] @ TOp (op_token Mul) # [TInt 6])" by (rule toks_le) simp
  ultimately show ?thesis
    using lCons [OF _ lCons [OF _ lNil], of no_tables a_data "EAssign (LVar 0x1000) (EInt 7)" "[TName [97], TOp finsh_token_type_assign, TInt 7]"
        ?e "[TName [97], TOp (op_token Mul), TInt 6]"] by simp
qed

lemma a_name: "is_name [97]"
  by (simp add: is_name_def is_separator_def is_digit_def token_match_name_def finsh_name_table_def)

lemma a_numbers: "decimal [55]" "decimal [54]" "dec_value [55] = 7" "dec_value [54] = 6"
  by (simp_all add: decimal_def is_digit_def dec_value_def)

lemma a_separated: "separated (32 # cs)" "separated (59 # cs)" "separated (42 # cs)"
  by (simp_all add: separated_def is_separator_def is_digit_def)

lemma a_spells: "spells a_tokens (line ''a = 7; a*6;'')"
proof -
  note c = spells_Cons [where ws = "[]"] spells_Cons [where ws = "[32]"] and s = a_name a_numbers a_separated white_def
  have "spells [TOp finsh_token_type_semicolon] [59]" using c(1) [of "TOp finsh_token_type_semicolon" "[59]" "[]" "[]"] spells_Nil [of "[]"] by simp
  then have "spells [TInt 6, TOp finsh_token_type_semicolon] [54, 59]" using c(1) [of "TInt 6" "[54]" "[59]"] by (simp add: s)
  then have "spells [TOp finsh_token_type_mul, TInt 6, TOp finsh_token_type_semicolon] [42, 54, 59]"
    using c(1) [of "TOp finsh_token_type_mul" "[42]" "[54, 59]"] by simp
  then have "spells [TName [97], TOp finsh_token_type_mul, TInt 6, TOp finsh_token_type_semicolon] [32, 97, 42, 54, 59]"
    using c(2) [of "TName [97]" "[97]" "[42, 54, 59]"] by (simp add: s)
  then have "spells (TOp finsh_token_type_semicolon # [TName [97], TOp finsh_token_type_mul, TInt 6, TOp finsh_token_type_semicolon]) [59, 32, 97, 42, 54, 59]"
    using c(1) [of "TOp finsh_token_type_semicolon" "[59]" "[32, 97, 42, 54, 59]"] by simp
  then have "spells (drop 2 a_tokens) [32, 55, 59, 32, 97, 42, 54, 59]"
    using c(2) [of "TInt 7" "[55]" "[59, 32, 97, 42, 54, 59]"] by (simp add: s)
  then have "spells (drop 1 a_tokens) [32, 61, 32, 55, 59, 32, 97, 42, 54, 59]"
    using c(2) [of "TOp finsh_token_type_assign" "[61]" "[32, 55, 59, 32, 97, 42, 54, 59]"] by (simp add: s)
  then show ?thesis
    using c(1) [of "TName [97]" "[97]" "[32, 61, 32, 55, 59, 32, 97, 42, 54, 59]"] by (simp add: s)
qed

lemma a_shell_ready: "shell_ready a_shell" "shell_data a_shell = a_data"
  by (simp_all add: shell_ready_def a_shell_def)

theorem finsh_parser_correct_witness:
  "\<exists>N. \<forall>n\<ge>N. \<exists>st'. finsh_parser_run no_tables n (line ''a = 7; a*6;'') a_shell = Some st' \<and> parser_root st' = nodes_of a_exprs \<and>
     global_errno st' = FINSH_ERROR_OK \<and> shell_data st' = a_data"
proof -
  have "sum_list (map nodes a_exprs) \<le> FINSH_NODE_MAX" by simp
  from finsh_parser_correct [OF _ a_spells this a_shell_ready(1), of no_tables] a_toks show ?thesis unfolding a_shell_ready(2) by blast
qed

lemma a_symbols: "var_type (symbols_of int_symbols a_data) 0x1000 = finsh_type_int"
  by (simp add: symbols_of_def a_data_def var_addr_def eval_nat_numeral upt_rec)


section \<open>Lines that are not what they look like\<close>

text \<open>
  A declaration without an initial value makes no node, and the parser leaves its loop: the rest of the line is not parsed, without an error.
\<close>

theorem declaration_ends_line:
  "map_option (\<lambda>st. (parser_root st, global_errno st)) (finsh_parser_run no_tables 40 (line ''int b; a = 5;'') a_shell) = Some (None, FINSH_ERROR_OK)"
  by code_simp

text \<open>
  Of the initial values of one declaration the loop links the next statement to the first: the second assignment is no longer in the tree.
\<close>

fun statements :: "finsh_node option \<Rightarrow> nat" where
  "statements None = 0"
| "statements (Some (Node nt dt it v p c s)) = Suc (statements s)"

theorem second_initialiser_lost:
  "map_option (\<lambda>st. (statements (parser_root st), global_errno st)) (finsh_parser_run no_tables 60 (line ''int b=1,c=2;'') a_shell) = Some (2, FINSH_ERROR_OK)"
  "map_option (\<lambda>st. (statements (parser_root st), global_errno st)) (finsh_parser_run no_tables 60 (line ''int b=1,c=2; a;'') a_shell) = Some (2, FINSH_ERROR_OK)"
  by code_simp+

text \<open>A parenthesis in front of an operand is always taken for a cast: an expression in parentheses is an error.\<close>

theorem parenthesis_rejected:
  "map_option (\<lambda>st. global_errno st = FINSH_ERROR_OK) (finsh_parser_run no_tables 60 (line ''(1+2)*3;'') a_shell) = Some False"
  "map_option (\<lambda>st. global_errno st = FINSH_ERROR_OK) (finsh_parser_run no_tables 60 (line ''2*(1+2);'') a_shell) = Some False"
  by code_simp+

text \<open>The digits of an escaped character are read and dropped; the suffix of a hexadecimal number is taken for one of its digits.\<close>

theorem token_values_lost:
  "map_option (\<lambda>(ty, st). (ty, tok_value st)) (finsh_token_token (finsh_token_init [39, 92, 54, 53, 39] a_shell)) = Some (finsh_token_type_value_char, 0)"
  "map_option (\<lambda>(ty, st). (ty, tok_value st)) (finsh_token_token (finsh_token_init (line ''0x10L'') a_shell)) = Some (finsh_token_type_value_int, 284)"
  by code_simp+

text \<open>An identifier at the end of the line puts the position back to the start of the line.\<close>

theorem identifier_at_end_restarts:
  "map_option (\<lambda>(ty, st). (ty, tok_eof st, tok_position st)) (finsh_token_token (finsh_token_init (line ''list'') a_shell)) =
     Some (finsh_token_type_identifier, False, 0)"
  by code_simp

end
