(* ===== verification/Device.thy ===== *)
theory Device
  imports MemPool Bytes
begin

text \<open>
  The device layer, \<^verbatim>\<open>src/device.c\<close>.  A device has the pointers to the functions of its driver; the code behind a pointer is
  an argument, a record of functions on the state.  The state has the kernel, the memory the buffers of
  a transfer are in, the devices, the console, and whatever the drivers keep for themselves.
\<close>

unbundle bit_operations_syntax

abbreviation (input) RT_ENOSYS :: rt_err_t where "RT_ENOSYS \<equiv> 6"
abbreviation (input) RT_EBUSY :: rt_err_t where "RT_EBUSY \<equiv> 7"
abbreviation (input) RT_DEVICE_FLAG_STANDALONE :: u16 where "RT_DEVICE_FLAG_STANDALONE \<equiv> 0x008"
abbreviation (input) RT_DEVICE_FLAG_ACTIVATED :: u16 where "RT_DEVICE_FLAG_ACTIVATED \<equiv> 0x010"
abbreviation (input) RT_DEVICE_FLAG_STREAM :: u16 where "RT_DEVICE_FLAG_STREAM \<equiv> 0x040"
abbreviation (input) RT_DEVICE_OFLAG_CLOSE :: u16 where "RT_DEVICE_OFLAG_CLOSE \<equiv> 0"
abbreviation (input) RT_DEVICE_OFLAG_RDWR :: u16 where "RT_DEVICE_OFLAG_RDWR \<equiv> 0x003"
abbreviation (input) RT_DEVICE_OFLAG_OPEN :: u16 where "RT_DEVICE_OFLAG_OPEN \<equiv> 0x008"

section \<open>State\<close>

text \<open>A pointer to a function is the number of the function, \<open>None\<close> for \<^verbatim>\<open>RT_NULL\<close>.\<close>

record rt_device =
  dev_flag :: u16
  open_flag :: u16
  ref_count :: u8
  rx_indicate :: "nat option"
  tx_complete :: "nat option"
  dev_init :: "nat option"
  dev_open :: "nat option"
  dev_close :: "nat option"
  dev_read :: "nat option"
  dev_write :: "nat option"
  dev_control :: "nat option"

record 'w system =
  sys_kernel :: kernel
  sys_mem :: bytes
  devices :: "nat \<Rightarrow> rt_device"
  console_device :: "nat option"
  sys_world :: 'w

record 'w driver_code =
  call_init :: "nat \<Rightarrow> nat \<Rightarrow> 'w system \<Rightarrow> (rt_err_t \<times> 'w system) option"
  call_open :: "nat \<Rightarrow> nat \<Rightarrow> u16 \<Rightarrow> 'w system \<Rightarrow> (rt_err_t \<times> 'w system) option"
  call_close :: "nat \<Rightarrow> nat \<Rightarrow> 'w system \<Rightarrow> (rt_err_t \<times> 'w system) option"
  call_read :: "nat \<Rightarrow> nat \<Rightarrow> u32 \<Rightarrow> u32 \<Rightarrow> u32 \<Rightarrow> 'w system \<Rightarrow> (u32 \<times> 'w system) option"
  call_write :: "nat \<Rightarrow> nat \<Rightarrow> u32 \<Rightarrow> u32 \<Rightarrow> u32 \<Rightarrow> 'w system \<Rightarrow> (u32 \<times> 'w system) option"
  call_control :: "nat \<Rightarrow> nat \<Rightarrow> u8 \<Rightarrow> u32 \<Rightarrow> 'w system \<Rightarrow> (rt_err_t \<times> 'w system) option"

definition upd_device :: "nat \<Rightarrow> (rt_device \<Rightarrow> rt_device) \<Rightarrow> 'w system \<Rightarrow> 'w system" where
  "upd_device d f s = s\<lparr>devices := (devices s)(d := f (devices s d))\<rparr>"

section \<open>The operations\<close>

definition rt_device_find :: "cstr \<Rightarrow> 'w system \<Rightarrow> (objref option \<times> 'w system) option" where
  "rt_device_find name s =
     do { let k = sys_kernel s;
          let k = (if rt_thread_self k \<noteq> None then rt_enter_critical k else k);
          let r = find_named (obj_hdr (objs k)) name (fam_list (rt_object_container (objs k)) (class_code RT_Object_Class_Device));
          k \<leftarrow> (if rt_thread_self k \<noteq> None then rt_exit_critical k else Some k);
          Some (r, s\<lparr>sys_kernel := k\<rparr>) }"

text \<open>A device is given by its number, \<open>None\<close> is \<^verbatim>\<open>RT_NULL\<close>.\<close>

definition rt_device_register :: "nat option \<Rightarrow> cstr \<Rightarrow> u16 \<Rightarrow> 'w system \<Rightarrow> (rt_err_t \<times> 'w system) option" where
  "rt_device_register dev name flags s =
     (case dev of
        None \<Rightarrow> Some (- RT_ERROR, s)
      | Some d \<Rightarrow>
          do { (r, s) \<leftarrow> rt_device_find name s;
               if r \<noteq> None then Some (- RT_ERROR, s)
               else do {
                 os \<leftarrow> rt_object_init (ODevice d) RT_Object_Class_Device name (objs (sys_kernel s));
                 let s = s\<lparr>sys_kernel := (sys_kernel s)\<lparr>objs := os\<rparr>\<rparr>;
                 Some (RT_EOK, upd_device d (\<lambda>v. v\<lparr>dev_flag := flags, ref_count := 0\<rparr>) s) } })"

definition rt_device_unregister :: "nat \<Rightarrow> 'w system \<Rightarrow> rt_err_t \<times> 'w system" where
  "rt_device_unregister d s =
     (RT_EOK, s\<lparr>sys_kernel := (sys_kernel s)\<lparr>objs := rt_object_detach (ODevice d) (objs (sys_kernel s))\<rparr>\<rparr>)"

definition rt_device_init_all :: rt_err_t where
  "rt_device_init_all = RT_EOK"

definition rt_device_init :: "'w driver_code \<Rightarrow> nat \<Rightarrow> 'w system \<Rightarrow> (rt_err_t \<times> 'w system) option" where
  "rt_device_init C d s =
     (case dev_init (devices s d) of
        Some f \<Rightarrow>
          if dev_flag (devices s d) AND RT_DEVICE_FLAG_ACTIVATED = 0 then
            do { (r, s) \<leftarrow> call_init C f d s;
                 if r \<noteq> RT_EOK then Some (r, s)
                 else Some (r, upd_device d (\<lambda>v. v\<lparr>dev_flag := dev_flag v OR RT_DEVICE_FLAG_ACTIVATED\<rparr>) s) }
          else Some (RT_EOK, s)
      | None \<Rightarrow> Some (RT_EOK, s))"

text \<open>The initialisation at the first opening; \<open>True\<close> when it failed and the caller returns its result.\<close>

definition open_init :: "'w driver_code \<Rightarrow> nat \<Rightarrow> 'w system \<Rightarrow> (bool \<times> rt_err_t \<times> 'w system) option" where
  "open_init C d s =
     (if dev_flag (devices s d) AND RT_DEVICE_FLAG_ACTIVATED = 0 then
        do { (r, s) \<leftarrow> (case dev_init (devices s d) of Some f \<Rightarrow> call_init C f d s | None \<Rightarrow> Some (RT_EOK, s));
             if r \<noteq> RT_EOK then Some (True, r, s)
             else Some (False, r, upd_device d (\<lambda>v. v\<lparr>dev_flag := dev_flag v OR RT_DEVICE_FLAG_ACTIVATED\<rparr>) s) }
      else Some (False, RT_EOK, s))"

definition rt_device_open :: "'w driver_code \<Rightarrow> nat \<Rightarrow> u16 \<Rightarrow> 'w system \<Rightarrow> (rt_err_t \<times> 'w system) option" where
  "rt_device_open C d oflag s =
     do { (failed, r, s) \<leftarrow> open_init C d s;
          if failed then Some (r, s)
          else if dev_flag (devices s d) AND RT_DEVICE_FLAG_STANDALONE \<noteq> 0 \<and> open_flag (devices s d) AND RT_DEVICE_OFLAG_OPEN \<noteq> 0
          then Some (- RT_EBUSY, s)
          else do {
            (r, s) \<leftarrow> (case dev_open (devices s d) of Some f \<Rightarrow> call_open C f d oflag s | None \<Rightarrow> Some (r, s));
            if r = RT_EOK \<or> r = - RT_ENOSYS then
              do { let s = upd_device d (\<lambda>v. v\<lparr>open_flag := oflag OR RT_DEVICE_OFLAG_OPEN, ref_count := ref_count v + 1\<rparr>) s;
                   rt_assert (ref_count (devices s d) \<noteq> 0);
                   Some (r, s) }
            else Some (r, s) } }"

definition rt_device_close :: "'w driver_code \<Rightarrow> nat \<Rightarrow> 'w system \<Rightarrow> (rt_err_t \<times> 'w system) option" where
  "rt_device_close C d s =
     (if ref_count (devices s d) = 0 then Some (- RT_ERROR, s)
      else do {
        let s = upd_device d (\<lambda>v. v\<lparr>ref_count := ref_count v - 1\<rparr>) s;
        if ref_count (devices s d) \<noteq> 0 then Some (RT_EOK, s)
        else do {
          (r, s) \<leftarrow> (case dev_close (devices s d) of Some f \<Rightarrow> call_close C f d s | None \<Rightarrow> Some (RT_EOK, s));
          if r = RT_EOK \<or> r = - RT_ENOSYS then Some (r, upd_device d (\<lambda>v. v\<lparr>open_flag := RT_DEVICE_OFLAG_CLOSE\<rparr>) s)
          else Some (r, s) } })"

definition sys_set_errno :: "rt_err_t \<Rightarrow> 'w system \<Rightarrow> 'w system" where
  "sys_set_errno e s = s\<lparr>sys_kernel := rt_set_errno e (sys_kernel s)\<rparr>"

definition rt_device_read :: "'w driver_code \<Rightarrow> nat \<Rightarrow> u32 \<Rightarrow> u32 \<Rightarrow> u32 \<Rightarrow> 'w system \<Rightarrow> (u32 \<times> 'w system) option" where
  "rt_device_read C d pos buffer sz s =
     (if ref_count (devices s d) = 0 then Some (0, sys_set_errno (- RT_ERROR) s)
      else case dev_read (devices s d) of
             Some f \<Rightarrow> call_read C f d pos buffer sz s
           | None \<Rightarrow> Some (0, sys_set_errno (- RT_ENOSYS) s))"

definition rt_device_write :: "'w driver_code \<Rightarrow> nat \<Rightarrow> u32 \<Rightarrow> u32 \<Rightarrow> u32 \<Rightarrow> 'w system \<Rightarrow> (u32 \<times> 'w system) option" where
  "rt_device_write C d pos buffer sz s =
     (if ref_count (devices s d) = 0 then Some (0, sys_set_errno (- RT_ERROR) s)
      else case dev_write (devices s d) of
             Some f \<Rightarrow> call_write C f d pos buffer sz s
           | None \<Rightarrow> Some (0, sys_set_errno (- RT_ENOSYS) s))"

definition rt_device_control :: "'w driver_code \<Rightarrow> nat \<Rightarrow> u8 \<Rightarrow> u32 \<Rightarrow> 'w system \<Rightarrow> (rt_err_t \<times> 'w system) option" where
  "rt_device_control C d cmd arg s =
     (case dev_control (devices s d) of Some f \<Rightarrow> call_control C f d cmd arg s | None \<Rightarrow> Some (RT_EOK, s))"

definition rt_device_set_rx_indicate :: "nat \<Rightarrow> nat option \<Rightarrow> 'w system \<Rightarrow> rt_err_t \<times> 'w system" where
  "rt_device_set_rx_indicate d rx_ind s = (RT_EOK, upd_device d (\<lambda>v. v\<lparr>rx_indicate := rx_ind\<rparr>) s)"

definition rt_device_set_tx_complete :: "nat \<Rightarrow> nat option \<Rightarrow> 'w system \<Rightarrow> rt_err_t \<times> 'w system" where
  "rt_device_set_tx_complete d tx_done s = (RT_EOK, upd_device d (\<lambda>v. v\<lparr>tx_complete := tx_done\<rparr>) s)"

section \<open>Errors\<close>


section \<open>Sessions\<close>

text \<open>
  An application opens, closes, reads and writes a device in any order.  What the driver sees of it is a sequence of events; the driver answers with
  any results, which may depend on all that happened before.
\<close>

datatype dev_call = DOpen u16 | DClose | DRead u32 u32 u32 | DWrite u32 u32 u32

fun dev_step :: "'w driver_code \<Rightarrow> nat \<Rightarrow> dev_call \<Rightarrow> 'w system \<Rightarrow> 'w system option" where
  "dev_step C d (DOpen oflag) s = map_option snd (rt_device_open C d oflag s)"
| "dev_step C d DClose s = map_option snd (rt_device_close C d s)"
| "dev_step C d (DRead pos buffer sz) s = map_option snd (rt_device_read C d pos buffer sz s)"
| "dev_step C d (DWrite pos buffer sz) s = map_option snd (rt_device_write C d pos buffer sz s)"

fun dev_run :: "'w driver_code \<Rightarrow> nat \<Rightarrow> dev_call list \<Rightarrow> 'w system \<Rightarrow> 'w system option" where
  "dev_run C d [] s = Some s"
| "dev_run C d (c # cs) s = do { s \<leftarrow> dev_step C d c s; dev_run C d cs s }"

datatype dev_event = EInit rt_err_t | EOpen u16 rt_err_t | EClose rt_err_t | ERead | EWrite

definition log_driver :: "(dev_event list \<Rightarrow> rt_err_t) \<Rightarrow> dev_event list driver_code" where
  "log_driver res =
     \<lparr>call_init = (\<lambda>f d s. let r = res (sys_world s) in Some (r, s\<lparr>sys_world := sys_world s @ [EInit r]\<rparr>)),
      call_open = (\<lambda>f d oflag s. let r = res (sys_world s) in Some (r, s\<lparr>sys_world := sys_world s @ [EOpen oflag r]\<rparr>)),
      call_close = (\<lambda>f d s. let r = res (sys_world s) in Some (r, s\<lparr>sys_world := sys_world s @ [EClose r]\<rparr>)),
      call_read = (\<lambda>f d pos buffer sz s. Some (sz, s\<lparr>sys_world := sys_world s @ [ERead]\<rparr>)),
      call_write = (\<lambda>f d pos buffer sz s. Some (sz, s\<lparr>sys_world := sys_world s @ [EWrite]\<rparr>)),
      call_control = (\<lambda>f d cmd arg s. Some (RT_EOK, s))\<rparr>"

text \<open>
  The protocol a driver can rely on: one successful initialisation first, then openings, transfers only while it is open, and
  one closing for any number of openings.
\<close>

datatype phase = Uninit | Idle | Opened

fun protocol_step :: "phase \<Rightarrow> dev_event \<Rightarrow> phase option" where
  "protocol_step Uninit (EInit r) = Some (if r = RT_EOK then Idle else Uninit)"
| "protocol_step Idle (EOpen oflag r) = Some (if r = RT_EOK \<or> r = - RT_ENOSYS then Opened else Idle)"
| "protocol_step Opened (EOpen oflag r) = Some Opened"
| "protocol_step Opened (EClose r) = Some Idle"
| "protocol_step Opened ERead = Some Opened"
| "protocol_step Opened EWrite = Some Opened"
| "protocol_step p e = None"

fun protocol :: "phase \<Rightarrow> dev_event list \<Rightarrow> phase option" where
  "protocol p [] = Some p"
| "protocol p (e # es) = do { p \<leftarrow> protocol_step p e; protocol p es }"

lemma protocol_snoc: "protocol p es = Some p' \<Longrightarrow> protocol p (es @ [e]) = protocol_step p' e"
  by (induction es arbitrary: p) (auto simp: Option.bind_eq_Some_conv)

text \<open>The phase a device is in, with the number of times it is open.\<close>

definition dev_phase :: "nat \<Rightarrow> dev_event list system \<Rightarrow> phase" where
  "dev_phase d s = (if ref_count (devices s d) \<noteq> 0 then Opened else if dev_flag (devices s d) AND RT_DEVICE_FLAG_ACTIVATED \<noteq> 0 then Idle else Uninit)"

definition dev_ok :: "nat \<Rightarrow> nat \<Rightarrow> dev_event list system \<Rightarrow> bool" where
  "dev_ok d n s \<longleftrightarrow>
     protocol Uninit (sys_world s) = Some (dev_phase d s) \<and> unat (ref_count (devices s d)) \<le> n \<and>
     (ref_count (devices s d) \<noteq> 0 \<longrightarrow> dev_flag (devices s d) AND RT_DEVICE_FLAG_ACTIVATED \<noteq> 0) \<and>
     dev_init (devices s d) \<noteq> None \<and> dev_open (devices s d) \<noteq> None \<and> dev_close (devices s d) \<noteq> None \<and>
     dev_read (devices s d) \<noteq> None \<and> dev_write (devices s d) \<noteq> None"

lemma upd_device_simps [simp]:
  "devices (upd_device d f s) d = f (devices s d)" "sys_world (upd_device d f s) = sys_world s"
  by (simp_all add: upd_device_def)

lemma log_driver_simps [simp]:
  "call_init (log_driver res) f d s = Some (res (sys_world s), s\<lparr>sys_world := sys_world s @ [EInit (res (sys_world s))]\<rparr>)"
  "call_open (log_driver res) f d oflag s = Some (res (sys_world s), s\<lparr>sys_world := sys_world s @ [EOpen oflag (res (sys_world s))]\<rparr>)"
  "call_close (log_driver res) f d s = Some (res (sys_world s), s\<lparr>sys_world := sys_world s @ [EClose (res (sys_world s))]\<rparr>)"
  "call_read (log_driver res) f d pos buffer sz s = Some (sz, s\<lparr>sys_world := sys_world s @ [ERead]\<rparr>)"
  "call_write (log_driver res) f d pos buffer sz s = Some (sz, s\<lparr>sys_world := sys_world s @ [EWrite]\<rparr>)"
  by (simp_all add: log_driver_def Let_def)

lemma activate [simp]: "(fl OR RT_DEVICE_FLAG_ACTIVATED) AND RT_DEVICE_FLAG_ACTIVATED \<noteq> 0" for fl :: u16
proof -
  have "bit ((fl OR RT_DEVICE_FLAG_ACTIVATED) AND RT_DEVICE_FLAG_ACTIVATED) 4" by (simp add: bit_simps)
  then show ?thesis by (metis bit_0_eq bot_apply bot_bool_def)
qed

lemma ref_step:
  "unat (c :: u8) < 255 \<Longrightarrow> c + 1 \<noteq> 0 \<and> unat (c + 1) = unat c + 1"
  "c \<noteq> 0 \<Longrightarrow> unat (c - 1) = unat c - 1"
proof -
  assume c: "unat c < 255"
  have "unat (c + 1) = unat c + 1" using c by (simp add: unat_word_ariths)
  then show "c + 1 \<noteq> 0 \<and> unat (c + 1) = unat c + 1" by (metis add_is_0 one_neq_zero unat_0)
qed (simp add: unat_minus_one)

lemma open_init_ok:
  assumes "dev_ok d n s"
  shows "\<exists>fl r s1. open_init (log_driver res) d s = Some (fl, r, s1) \<and> dev_ok d n s1 \<and>
    (\<not> fl \<longrightarrow> r = RT_EOK \<and> dev_phase d s1 \<noteq> Uninit)"
proof (cases "dev_flag (devices s d) AND RT_DEVICE_FLAG_ACTIVATED = 0")
  case True
  with assms obtain f where f: "dev_init (devices s d) = Some f" "ref_count (devices s d) = 0" "protocol Uninit (sys_world s) = Some Uninit"
    by (auto simp: dev_ok_def dev_phase_def)
  then show ?thesis using True assms protocol_snoc [OF f(3)] by (auto simp: open_init_def dev_ok_def dev_phase_def)
next
  case False
  then show ?thesis using assms by (auto simp: open_init_def dev_phase_def)
qed

lemma dev_open_ok:
  assumes "dev_ok d n s" and "n < 255"
  shows "\<exists>r s'. rt_device_open (log_driver res) d oflag s = Some (r, s') \<and> dev_ok d (n + 1) s'"
proof -
  obtain fl r s1 where i: "open_init (log_driver res) d s = Some (fl, r, s1)" "dev_ok d n s1" "\<not> fl \<Longrightarrow> r = RT_EOK \<and> dev_phase d s1 \<noteq> Uninit"
    using open_init_ok [OF assms(1)] by blast
  obtain f where f: "dev_open (devices s1 d) = Some f" using i(2) by (auto simp: dev_ok_def)
  have c: "unat (ref_count (devices s1 d)) < 255" using i(2) assms(2) by (simp add: dev_ok_def)
  have p: "protocol Uninit (sys_world s1 @ [e]) = protocol_step (dev_phase d s1) e" for e using i(2) protocol_snoc by (auto simp: dev_ok_def)
  have "dev_ok d (n + 1) s1" using i(2) by (simp add: dev_ok_def)
  then show ?thesis using i f p c ref_step(1) [OF c]
    by (cases fl) (auto simp: rt_device_open_def dev_ok_def dev_phase_def Let_def split: if_splits)
qed

lemma dev_close_ok:
  assumes "dev_ok d n s"
  shows "\<exists>r s'. rt_device_close (log_driver res) d s = Some (r, s') \<and> dev_ok d n s'"
proof -
  obtain f where f: "dev_close (devices s d) = Some f" using assms by (auto simp: dev_ok_def)
  have p: "protocol Uninit (sys_world s @ [e]) = protocol_step (dev_phase d s) e" for e using assms protocol_snoc by (auto simp: dev_ok_def)
  show ?thesis using f p assms ref_step(2) [of "ref_count (devices s d)"]
    by (auto simp: rt_device_close_def dev_ok_def dev_phase_def Let_def split: if_splits)
qed

lemma dev_ok_log:
  "dev_ok d n s \<Longrightarrow> protocol_step (dev_phase d s) e = Some (dev_phase d s) \<Longrightarrow> dev_ok d n (s\<lparr>sys_world := sys_world s @ [e]\<rparr>)"
  by (auto simp: dev_ok_def dev_phase_def protocol_snoc)

lemma dev_transfer_ok:
  assumes "dev_ok d n s"
  shows "\<exists>r s'. rt_device_read (log_driver res) d pos buffer sz s = Some (r, s') \<and> dev_ok d n s'"
    and "\<exists>r s'. rt_device_write (log_driver res) d pos buffer sz s = Some (r, s') \<and> dev_ok d n s'"
proof -
  obtain f g where f: "dev_read (devices s d) = Some f" "dev_write (devices s d) = Some g" using assms by (auto simp: dev_ok_def)
  have e: "dev_ok d n (sys_set_errno e s)" for e using assms by (simp add: dev_ok_def dev_phase_def sys_set_errno_def)
  have l: "dev_ok d n (s\<lparr>sys_world := sys_world s @ [ERead]\<rparr>)" "dev_ok d n (s\<lparr>sys_world := sys_world s @ [EWrite]\<rparr>)" if "ref_count (devices s d) \<noteq> 0"
    using that by (auto intro!: dev_ok_log [OF assms] simp: dev_phase_def)
  show "\<exists>r s'. rt_device_read (log_driver res) d pos buffer sz s = Some (r, s') \<and> dev_ok d n s'"
    "\<exists>r s'. rt_device_write (log_driver res) d pos buffer sz s = Some (r, s') \<and> dev_ok d n s'"
    using e l f by (cases "ref_count (devices s d) = 0"; simp add: rt_device_read_def rt_device_write_def)+
qed

lemma dev_step_ok: "dev_ok d n s \<Longrightarrow> n < 255 \<Longrightarrow> \<exists>s'. dev_step (log_driver res) d c s = Some s' \<and> dev_ok d (n + 1) s'"
proof -
  assume a: "dev_ok d n s" "n < 255"
  have m: "dev_ok d (n + 1) s'" if "dev_ok d n s'" for s' using that by (simp add: dev_ok_def)
  show ?thesis
    using dev_open_ok [OF a, of res] dev_close_ok [OF a(1), of res] dev_transfer_ok [OF a(1), of res] m by (cases c) fastforce+
qed

lemma dev_run_ok: "dev_ok d n s \<Longrightarrow> n + length cs \<le> 255 \<Longrightarrow> \<exists>s'. dev_run (log_driver res) d cs s = Some s' \<and> dev_ok d (n + length cs) s'"
proof (induction cs arbitrary: n s)
  case (Cons c cs)
  obtain s1 where 1: "dev_step (log_driver res) d c s = Some s1" "dev_ok d (n + 1) s1" using dev_step_ok [OF Cons.prems(1)] Cons.prems(2) by force
  from Cons.IH [OF 1(2)] Cons.prems(2) 1(1) show ?case by auto
qed simp


text \<open>A device with all the functions, not initialised yet.\<close>

definition a_device :: rt_device where
  "a_device = \<lparr>dev_flag = RT_DEVICE_FLAG_STANDALONE, open_flag = 0, ref_count = 0, rx_indicate = None, tx_complete = None, dev_init = Some 1, dev_open = Some 2,
     dev_close = Some 3, dev_read = Some 4, dev_write = Some 5, dev_control = None\<rparr>"

definition a_system :: "kernel \<Rightarrow> dev_event list system" where
  "a_system k = \<lparr>sys_kernel = k, sys_mem = (\<lambda>_. 0), devices = (\<lambda>_. a_device), console_device = None, sys_world = []\<rparr>"



section \<open>A device that cannot be opened again\<close>

text \<open>
  When the driver cannot close a stand-alone device, the count is 0 already and the flag still says that it is open: it cannot be closed
  again and, being stand-alone, not opened either.
\<close>

theorem rt_device_close_failed:
  assumes "ref_count (devices s d) = 1" and "dev_close (devices s d) = Some f" and "dev_flag (devices s d) AND RT_DEVICE_FLAG_ACTIVATED \<noteq> 0"
    and "dev_flag (devices s d) AND RT_DEVICE_FLAG_STANDALONE \<noteq> 0" and "open_flag (devices s d) AND RT_DEVICE_OFLAG_OPEN \<noteq> 0"
    and "res (sys_world s) \<noteq> RT_EOK" and "res (sys_world s) \<noteq> - RT_ENOSYS"
  shows "\<exists>s'. rt_device_close (log_driver res) d s = Some (res (sys_world s), s') \<and>
    rt_device_close (log_driver res) d s' = Some (- RT_ERROR, s') \<and> rt_device_open (log_driver res) d oflag s' = Some (- RT_EBUSY, s')"
  using assms by (auto simp: rt_device_close_def rt_device_open_def open_init_def Let_def)

end
