(* ===== verification/Format.thy ===== *)
theory Format
  imports KString
begin

text \<open>
  Formatted output, \<^verbatim>\<open>rt_vsnprintf\<close> of \<^verbatim>\<open>src/kservice.c\<close> and the functions around it: \<^verbatim>\<open>RT_PRINTF_PRECISION\<close> is on,
  \<^verbatim>\<open>RT_PRINTF_SPECIAL\<close> and \<^verbatim>\<open>RT_PRINTF_LONGLONG\<close> are off.  The format is the list of its characters before the
  terminating zero; the arguments are the list of the words \<^verbatim>\<open>va_arg\<close> takes one by one, integers and
  pointers alike.  Taking an argument that is not there, and an overflow of an \<^verbatim>\<open>int\<close>, is undefined and gives \<open>None\<close>.
\<close>

unbundle bit_operations_syntax

section \<open>The output\<close>

text \<open>The position, the address of the last byte of the buffer, and the memory.\<close>

record printer =
  out_str :: u32
  out_end :: u32
  out_mem :: bytes

definition put_char :: "u8 \<Rightarrow> printer \<Rightarrow> printer" where
  "put_char c st =
     (let st' = (if out_str st \<le> out_end st then st\<lparr>out_mem := (out_mem st)(unat (out_str st) := c)\<rparr> else st)
      in st'\<lparr>out_str := out_str st + 1\<rparr>)"

fun put_chars :: "u8 list \<Rightarrow> printer \<Rightarrow> printer" where
  "put_chars [] st = st"
| "put_chars (c # cs) st = put_chars cs (put_char c st)"

text \<open>The loop \<^verbatim>\<open>while (size-- > 0)\<close> that puts a character, and \<^verbatim>\<open>size\<close> after it.\<close>

definition pad_loop :: "u8 \<Rightarrow> int \<Rightarrow> printer \<Rightarrow> int \<times> printer" where
  "pad_loop c n st = (min n 0 - 1, put_chars (replicate (nat n) c) st)"

text \<open>The bits of the flags.\<close>

record fmt_flags =
  ZEROPAD :: bool
  SIGN :: bool
  PLUS :: bool
  SPACE :: bool
  LEFT :: bool
  SPECIAL :: bool
  LARGE :: bool

definition no_flags :: fmt_flags where
  "no_flags = \<lparr>ZEROPAD = False, SIGN = False, PLUS = False, SPACE = False, LEFT = False, SPECIAL = False, LARGE = False\<rparr>"

abbreviation chr :: "char \<Rightarrow> u8" where "chr c \<equiv> of_char c"

section \<open>Numbers\<close>

definition fmt_digit :: "bool \<Rightarrow> u32 \<Rightarrow> u8" where
  "fmt_digit large d = (if d < 10 then 48 + ucast d else if large then 55 + ucast d else 87 + ucast d)"

text \<open>Every base but 10 is taken for 16.\<close>

definition divide :: "u32 \<Rightarrow> u32 \<Rightarrow> u32 \<times> u32" where
  "divide n base = (if base = 10 then (n mod 10, n div 10) else (n mod 16, n div 16))"

lemma divide_less: "n \<noteq> 0 \<Longrightarrow> unat (snd (divide n base)) < unat n"
  by (simp add: divide_def unat_div unat_gt_0)

function tmp_digits :: "bool \<Rightarrow> u32 \<Rightarrow> u32 \<Rightarrow> u8 list" where
  "tmp_digits large base num =
     (if num = 0 then [] else let (r, num') = divide num base in fmt_digit large r # tmp_digits large base num')"
  by pat_completeness auto
termination
  by (relation "measure (\<lambda>(large, base, num). unat num)") (auto, metis divide_less snd_conv)

declare tmp_digits.simps [simp del]

text \<open>The second half of \<^verbatim>\<open>print_number\<close>, from the digits in the order they were found in on.\<close>

definition put_number :: "u8 \<Rightarrow> u8 list \<Rightarrow> int \<Rightarrow> int \<Rightarrow> fmt_flags \<Rightarrow> printer \<Rightarrow> printer" where
  "put_number sign tmp s precision ty st =
     (let c = (if ZEROPAD ty then chr CHR ''0'' else chr CHR '' '');
          i = int (length tmp);
          precision = (if i > precision then i else precision);
          sz = s - precision;
          (sz, st) =
            (if \<not> ZEROPAD ty \<and> \<not> LEFT ty then pad_loop (chr CHR '' '') (if sign \<noteq> 0 \<and> sz > 0 then sz - 1 else sz) st
             else (sz, st));
          (sz, st) =
            (if sign \<noteq> 0 then (if out_str st \<le> out_end st then sz - 1 else sz, put_char sign st) else (sz, st));
          (sz, st) = (if \<not> LEFT ty then pad_loop c sz st else (sz, st));
          st = put_chars (replicate (nat (precision - i)) (chr CHR ''0'')) st;
          st = put_chars (rev tmp) st
      in snd (pad_loop (chr CHR '' '') sz st))"

definition print_number :: "u32 \<Rightarrow> u32 \<Rightarrow> int \<Rightarrow> int \<Rightarrow> fmt_flags \<Rightarrow> printer \<Rightarrow> printer option" where
  "print_number num base s precision ty st =
     do { let ty = (if LEFT ty then ty\<lparr>ZEROPAD := False\<rparr> else ty);
          let (sign, num) =
            (if SIGN ty then
               (if sint num < 0 then (chr CHR ''-'', - num)
                else if PLUS ty then (chr CHR ''+'', num)
                else if SPACE ty then (chr CHR '' '', num)
                else (0, num))
             else (0, num));
          let tmp = (if num = 0 then [chr CHR ''0''] else tmp_digits (LARGE ty) base num);
          valid_access (length tmp \<le> 16);
          Some (put_number sign tmp s precision ty st) }"

section \<open>The format\<close>

definition fmt_isdigit :: "u8 \<Rightarrow> bool" where
  "fmt_isdigit c \<longleftrightarrow> (ucast c :: u32) - 48 < 10"

fun skip_atoi :: "int \<Rightarrow> u8 list \<Rightarrow> (int \<times> u8 list) option" where
  "skip_atoi i [] = Some (i, [])"
| "skip_atoi i (c # s) =
     (if fmt_isdigit c then do { let i = i * 10 + uint c - 48; valid_access (i < 2 ^ 31); skip_atoi i s } else Some (i, c # s))"

fun scan_flags :: "fmt_flags \<Rightarrow> u8 list \<Rightarrow> fmt_flags \<times> u8 list" where
  "scan_flags fl [] = (fl, [])"
| "scan_flags fl (c # s) =
     (if c = chr CHR ''-'' then scan_flags (fl\<lparr>LEFT := True\<rparr>) s
      else if c = chr CHR ''+'' then scan_flags (fl\<lparr>PLUS := True\<rparr>) s
      else if c = chr CHR '' '' then scan_flags (fl\<lparr>SPACE := True\<rparr>) s
      else if c = chr CHR ''#'' then scan_flags (fl\<lparr>SPECIAL := True\<rparr>) s
      else if c = chr CHR ''0'' then scan_flags (fl\<lparr>ZEROPAD := True\<rparr>) s
      else (fl, c # s))"

text \<open>The character at a position of the format, 0 at its end.\<close>

definition fmt_char :: "u8 list \<Rightarrow> u8" where
  "fmt_char s = (case s of [] \<Rightarrow> 0 | c # _ \<Rightarrow> c)"

definition va_arg :: "u32 list \<Rightarrow> (u32 \<times> u32 list) option" where
  "va_arg args = (case args of [] \<Rightarrow> None | a # as \<Rightarrow> Some (a, as))"

definition scan_width :: "fmt_flags \<Rightarrow> u8 list \<Rightarrow> u32 list \<Rightarrow> (int \<times> fmt_flags \<times> u8 list \<times> u32 list) option" where
  "scan_width fl s args =
     (if fmt_isdigit (fmt_char s) then do { (w, s) \<leftarrow> skip_atoi 0 s; Some (w, fl, s, args) }
      else if fmt_char s = chr CHR ''*'' then
        do { (a, args) \<leftarrow> va_arg args;
             let w = sint a;
             valid_access (w \<noteq> - (2 ^ 31));
             Some (if w < 0 then (- w, fl\<lparr>LEFT := True\<rparr>, tl s, args) else (w, fl, tl s, args)) }
      else Some (- 1, fl, s, args))"

definition scan_precision :: "u8 list \<Rightarrow> u32 list \<Rightarrow> (int \<times> u8 list \<times> u32 list) option" where
  "scan_precision s args =
     (if fmt_char s = chr CHR ''.'' then
        do { let s = tl s;
             (p, s, args) \<leftarrow>
               (if fmt_isdigit (fmt_char s) then do { (p, s) \<leftarrow> skip_atoi 0 s; Some (p, s, args) }
                else if fmt_char s = chr CHR ''*'' then do { (a, args) \<leftarrow> va_arg args; Some (sint a, tl s, args) }
                else Some (- 1, s, args));
             Some (if p < 0 then 0 else p, s, args) }
      else Some (- 1, s, args))"

definition scan_qualifier :: "u8 list \<Rightarrow> u8 \<times> u8 list" where
  "scan_qualifier s = (if fmt_char s = chr CHR ''h'' \<or> fmt_char s = chr CHR ''l'' then (fmt_char s, tl s) else (0, s))"

text \<open>The characters of a string argument, read one by one.\<close>

fun put_string :: "nat \<Rightarrow> u32 \<Rightarrow> printer \<Rightarrow> printer" where
  "put_string 0 s st = st"
| "put_string (Suc n) s st = put_string n (s + 1) (put_char (out_mem st (unat s)) st)"

definition null_text :: "u8 list" where
  "null_text = map of_char ''(NULL)''"

definition fmt_c :: "int \<Rightarrow> fmt_flags \<Rightarrow> u32 \<Rightarrow> printer \<Rightarrow> printer" where
  "fmt_c field_width fl a st =
     (let pad = replicate (nat (field_width - 1)) (chr CHR '' '');
          st = (if LEFT fl then st else put_chars pad st);
          st = put_char (ucast a) st
      in if LEFT fl then put_chars pad st else st)"

definition fmt_s :: "int \<Rightarrow> int \<Rightarrow> fmt_flags \<Rightarrow> u32 \<Rightarrow> printer \<Rightarrow> printer option" where
  "fmt_s field_width precision fl s st =
     do { len \<leftarrow> (if s = 0 then Some (length null_text) else rt_strlen (out_mem st) (unat s));
          let len = (if precision > 0 \<and> int len > precision then nat precision else len);
          let pad = replicate (nat (field_width - int len)) (chr CHR '' '');
          let st = (if LEFT fl then st else put_chars pad st);
          let st = (if s = 0 then put_chars (take len null_text) st else put_string len s st);
          Some (if LEFT fl then put_chars pad st else st) }"

text \<open>The argument of a number, cut to its width and extended again.\<close>

definition fmt_num :: "u8 \<Rightarrow> fmt_flags \<Rightarrow> u32 \<Rightarrow> u32" where
  "fmt_num qualifier fl a =
     (if qualifier = chr CHR ''h'' then (if SIGN fl then scast (ucast a :: u16) else ucast (ucast a :: u16)) else a)"

text \<open>The \<^verbatim>\<open>switch\<close> on the character of the conversion.\<close>

definition convert :: "u8 \<Rightarrow> u8 \<Rightarrow> int \<Rightarrow> int \<Rightarrow> fmt_flags \<Rightarrow> u32 list \<Rightarrow> printer \<Rightarrow> (u32 list \<times> printer) option" where
  "convert c qualifier field_width precision fl args st =
     (if c = chr CHR ''c'' then
        do { (a, args) \<leftarrow> va_arg args; Some (args, fmt_c field_width fl a st) }
      else if c = chr CHR ''s'' then
        do { (a, args) \<leftarrow> va_arg args; st \<leftarrow> fmt_s field_width precision fl a st; Some (args, st) }
      else if c = chr CHR ''p'' then
        do { (a, args) \<leftarrow> va_arg args;
             let (w, fl) = (if field_width = - 1 then (8, fl\<lparr>ZEROPAD := True\<rparr>) else (field_width, fl));
             st \<leftarrow> print_number a 16 w precision fl st;
             Some (args, st) }
      else if c = chr CHR ''%'' then Some (args, put_char (chr CHR ''%'') st)
      else if c \<in> {chr CHR ''o'', chr CHR ''X'', chr CHR ''x'', chr CHR ''d'', chr CHR ''i'', chr CHR ''u''} then
        do { let base = (if c = chr CHR ''o'' then 8 else if c = chr CHR ''X'' \<or> c = chr CHR ''x'' then 16 else 10);
             let fl = (if c = chr CHR ''X'' then fl\<lparr>LARGE := True\<rparr> else fl);
             let fl = (if c = chr CHR ''d'' \<or> c = chr CHR ''i'' then fl\<lparr>SIGN := True\<rparr> else fl);
             (a, args) \<leftarrow> va_arg args;
             st \<leftarrow> print_number (fmt_num qualifier fl a) base field_width precision fl st;
             Some (args, st) }
      else Some (args, (if c \<noteq> 0 then put_char c else id) (put_char (chr CHR ''%'') st)))"

text \<open>A conversion, from the character behind \<^verbatim>\<open>%\<close> on; the rest of the format is what the loop goes on with.\<close>

definition directive :: "u8 list \<Rightarrow> u32 list \<Rightarrow> printer \<Rightarrow> (u8 list \<times> u32 list \<times> printer) option" where
  "directive s args st =
     do { let (fl, s) = scan_flags no_flags s;
          (field_width, fl, s, args) \<leftarrow> scan_width fl s args;
          (precision, s, args) \<leftarrow> scan_precision s args;
          let (qualifier, s) = scan_qualifier s;
          (args, st) \<leftarrow> convert (fmt_char s) qualifier field_width precision fl args st;
          Some (tl s, args, st) }"

lemma skip_atoi_length: "skip_atoi i s = Some (j, s') \<Longrightarrow> length s' \<le> length s"
proof (induction s arbitrary: i)
  case (Cons c s)
  then show ?case by (auto simp: Let_def split: if_splits dest: le_SucI)
qed simp

lemma scan_flags_length: "scan_flags fl s = (fl', s') \<Longrightarrow> length s' \<le> length s"
proof (induction s arbitrary: fl)
  case (Cons c s)
  then show ?case by (auto split: if_splits dest: le_SucI)
qed simp

lemma scan_width_length: "scan_width fl s args = Some (w, fl', s', args') \<Longrightarrow> length s' \<le> length s"
  by (auto simp: scan_width_def Option.bind_eq_Some_conv Let_def split: if_splits dest: skip_atoi_length)

lemma scan_precision_length: "scan_precision s args = Some (p, s', args') \<Longrightarrow> length s' \<le> length s"
  by (auto simp: scan_precision_def Option.bind_eq_Some_conv Let_def split: if_splits dest!: skip_atoi_length)

lemma scan_qualifier_length: "scan_qualifier s = (q, s') \<Longrightarrow> length s' \<le> length s"
  by (auto simp: scan_qualifier_def split: if_splits)

lemma directive_length:
  assumes "directive s args st = Some (s', args', st')"
  shows "length s' \<le> length s"
proof -
  obtain fl s1 where 1: "scan_flags no_flags s = (fl, s1)" by fastforce
  with assms obtain w fl' s2 args2 p s3 args3 where 2: "scan_width fl s1 args = Some (w, fl', s2, args2)" "scan_precision s2 args2 = Some (p, s3, args3)"
    by (auto simp: directive_def Option.bind_eq_Some_conv)
  obtain q s4 where 3: "scan_qualifier s3 = (q, s4)" by fastforce
  have "s' = tl s4" using assms 1 2 3 by (auto simp: directive_def Option.bind_eq_Some_conv)
  then show ?thesis
    using scan_flags_length [OF 1] scan_width_length [OF 2(1)] scan_precision_length [OF 2(2)] scan_qualifier_length [OF 3] by simp
qed

declare strlen_loop.simps [code]

function vsn_loop :: "u8 list \<Rightarrow> u32 list \<Rightarrow> printer \<Rightarrow> printer option" where
  "vsn_loop [] args st = Some st"
| "vsn_loop (c # s) args st =
     (if c \<noteq> chr CHR ''%'' then vsn_loop s args (put_char c st)
      else case directive s args st of
             None \<Rightarrow> None
           | Some (s', args', st') \<Rightarrow> vsn_loop s' args' st')"
  by pat_completeness auto
termination
  by (relation "measure (\<lambda>(s, args, st). length s)") (auto dest: directive_length simp: less_Suc_eq_le)

definition rt_vsnprintf :: "u32 \<Rightarrow> u32 \<Rightarrow> u8 list \<Rightarrow> u32 list \<Rightarrow> bytes \<Rightarrow> (u32 \<times> bytes) option" where
  "rt_vsnprintf buf sz fmt args m =
     do { let e = buf + sz - 1;
          let e = (if e < buf then - 1 else e);
          st \<leftarrow> vsn_loop fmt args \<lparr>out_str = buf, out_end = e, out_mem = m\<rparr>;
          let a = (if out_str st \<le> out_end st then out_str st else out_end st);
          Some (out_str st - buf, (out_mem st)(unat a := 0)) }"

definition rt_snprintf :: "u32 \<Rightarrow> u32 \<Rightarrow> u8 list \<Rightarrow> u32 list \<Rightarrow> bytes \<Rightarrow> (u32 \<times> bytes) option" where
  "rt_snprintf buf sz fmt args m = rt_vsnprintf buf sz fmt args m"

definition rt_vsprintf :: "u32 \<Rightarrow> u8 list \<Rightarrow> u32 list \<Rightarrow> bytes \<Rightarrow> (u32 \<times> bytes) option" where
  "rt_vsprintf buf fmt args m = rt_vsnprintf buf (- 1) fmt args m"

definition rt_sprintf :: "u32 \<Rightarrow> u8 list \<Rightarrow> u32 list \<Rightarrow> bytes \<Rightarrow> (u32 \<times> bytes) option" where
  "rt_sprintf buf fmt args m = rt_vsprintf buf fmt args m"

end
