(* ===== verification/FormatProps.thy ===== *)
theory FormatProps
  imports Format
begin

text \<open>
  What formatted output means: a format is a sequence of characters and conversions, each conversion has a text,
  and \<^verbatim>\<open>rt_vsnprintf\<close> puts the text of the format to the buffer, cut where the buffer ends.
\<close>

unbundle bit_operations_syntax

section \<open>The text of a number\<close>

definition spec_digit :: "bool \<Rightarrow> nat \<Rightarrow> u8" where
  "spec_digit large d = (if d < 10 then 48 else if large then 55 else 87) + word_of_nat d"

function digits_of :: "bool \<Rightarrow> nat \<Rightarrow> nat \<Rightarrow> u8 list" where
  "digits_of large b n =
     (if b < 2 \<or> n < b then [spec_digit large n] else digits_of large b (n div b) @ [spec_digit large (n mod b)])"
  by pat_completeness auto
termination by (relation "measure (\<lambda>(large, b, n). n)") auto

declare digits_of.simps [simp del]

definition spaces :: "nat \<Rightarrow> u8 list" where
  "spaces n = replicate n (chr CHR '' '')"

definition sp_pad :: "bool \<Rightarrow> int \<Rightarrow> u8 list \<Rightarrow> u8 list" where
  "sp_pad left w t = (let n = nat (w - int (length t)) in if left then t @ spaces n else spaces n @ t)"

definition sign_text :: "fmt_flags \<Rightarrow> int \<Rightarrow> u8 list" where
  "sign_text fl v =
     (if \<not> SIGN fl then []
      else if v < 0 then [chr CHR ''-'']
      else if PLUS fl then [chr CHR ''+'']
      else if SPACE fl then [chr CHR '' ''] else [])"

text \<open>The digits with at least \<open>p\<close> of them, the sign in front, and the whole brought to the width.\<close>

definition number_text :: "nat \<Rightarrow> int \<Rightarrow> int \<Rightarrow> fmt_flags \<Rightarrow> int \<Rightarrow> u8 list" where
  "number_text b w p fl v =
     (let ds = digits_of (LARGE fl) b (nat \<bar>v\<bar>);
          body = replicate (nat p - length ds) (chr CHR ''0'') @ ds;
          sg = sign_text fl v
      in if ZEROPAD fl \<and> \<not> LEFT fl
         then sg @ replicate (nat (w - int (length sg + length body))) (chr CHR ''0'') @ body
         else sp_pad (LEFT fl) w (sg @ body))"

section \<open>Digits\<close>

abbreviation radix :: "u32 \<Rightarrow> nat" where "radix base \<equiv> (if base = 10 then 10 else 16)"

lemma divide_radix:
  "divide n base = (word_of_nat (unat n mod radix base), word_of_nat (unat n div radix base))"
proof -
  have "n mod 10 = word_of_nat (unat n mod 10)" "n div 10 = word_of_nat (unat n div 10)"
    "n mod 16 = word_of_nat (unat n mod 16)" "n div 16 = word_of_nat (unat n div 16)"
    by (simp_all add: word_unat_eq_iff unat_mod unat_div le_unat_uoi [of _ n] div_le_dividend order_trans [OF mod_less_eq_dividend])
  then show ?thesis by (simp add: divide_def)
qed

lemma fmt_digit_spec: "d < 16 \<Longrightarrow> fmt_digit large (word_of_nat d) = spec_digit large d"
proof -
  assume "d < 16"
  then have u: "unat (word_of_nat d :: u32) = d" by (simp add: unat_of_nat take_bit_nat_eq_self_iff)
  have "ucast (word_of_nat d :: u32) = (word_of_nat d :: u8)" using u by (metis of_nat_unat)
  then show ?thesis by (simp add: fmt_digit_def spec_digit_def word_less_nat_alt u)
qed

lemma tmp_digits_rev:
  "num \<noteq> 0 \<Longrightarrow> rev (tmp_digits large base num) = digits_of large (radix base) (unat num)"
proof (induction large base num rule: tmp_digits.induct)
  case (1 large base num)
  let ?b = "radix base" and ?n = "unat num"
  let ?q = "word_of_nat (?n div ?b) :: u32"
  have q: "unat ?q = ?n div ?b" by (rule uno_simps(2))
  have d: "fmt_digit large (word_of_nat (?n mod ?b)) = spec_digit large (?n mod ?b)" by (intro fmt_digit_spec) (auto intro: less_trans [OF mod_less_divisor])
  have r: "rev (tmp_digits large base num) = rev (tmp_digits large base ?q) @ [spec_digit large (?n mod ?b)]"
    using 1(2) d by (subst tmp_digits.simps) (simp add: divide_radix)
  show ?case
  proof (cases "?n < ?b")
    case True
    then have "?q = 0" by simp
    then show ?thesis using r True by (subst digits_of.simps) (simp add: tmp_digits.simps [of _ _ 0] split: if_splits)
  next
    case False
    then have "?q \<noteq> 0" using q by (auto simp: word_unat_eq_iff)
    then show ?thesis using 1(1) [OF 1(2) refl divide_radix [symmetric]] q r False by (subst digits_of.simps) (simp split: if_splits)
  qed
qed

lemma length_digits: "1 < b \<Longrightarrow> n < b ^ k \<Longrightarrow> 0 < k \<Longrightarrow> length (digits_of large b n) \<le> k"
proof (induction large b n arbitrary: k rule: digits_of.induct)
  case (1 large b n)
  show ?case
  proof (cases "n < b")
    case True
    then show ?thesis using 1 by (subst digits_of.simps) simp
  next
    case False
    then obtain j where k: "k = Suc j" "0 < j" using 1 by (cases k; cases "k - 1") auto
    then have "n div b < b ^ j" using 1 by (simp add: less_mult_imp_div_less mult.commute)
    with 1 False k show ?thesis by (subst digits_of.simps) (simp add: not_less)
  qed
qed

lemma tmp_length: "num \<noteq> 0 \<Longrightarrow> length (tmp_digits large base num) \<le> 16"
proof -
  assume "num \<noteq> 0"
  have "unat num < 2 ^ 32" using unsigned_less [of num] by simp
  then have "unat num < radix base ^ 10" by (simp split: if_splits)
  then have "length (digits_of large (radix base) (unat num)) \<le> 10" by (intro length_digits) simp_all
  moreover have "length (tmp_digits large base num) = length (digits_of large (radix base) (unat num))"
    using arg_cong [OF tmp_digits_rev [OF \<open>num \<noteq> 0\<close>, of large base], of length] by simp
  ultimately show ?thesis by simp
qed

section \<open>Output\<close>

text \<open>A text was put to a buffer of \<open>n\<close> bytes at \<open>b\<close>: what fits is in the memory.\<close>

definition shown :: "nat \<Rightarrow> nat \<Rightarrow> bytes \<Rightarrow> u8 list \<Rightarrow> printer \<Rightarrow> bool" where
  "shown b n m t st \<longleftrightarrow>
     out_str st = word_of_nat (b + length t) \<and> out_end st = word_of_nat (b + n - 1) \<and>
     out_mem st = (\<lambda>a. if b \<le> a \<and> a < b + min n (length t) then t ! (a - b) else m a)"

lemma unat_nat32: "k < 2 ^ 32 \<Longrightarrow> unat (word_of_nat k :: u32) = k"
  by (simp add: unat_of_nat take_bit_nat_eq_self_iff)

lemma shown_room:
  assumes "shown b n m t st" and "0 < n" and "b + n \<le> 2 ^ 32" and "b + length t < 2 ^ 32"
  shows "out_str st \<le> out_end st \<longleftrightarrow> length t < n" and "unat (out_str st) = b + length t"
proof -
  have "unat (out_end st) = b + n - 1" using assms unat_nat32 [of "b + n - 1"] by (simp add: shown_def)
  moreover show "unat (out_str st) = b + length t" using assms unat_nat32 [of "b + length t"] by (simp add: shown_def)
  ultimately show "out_str st \<le> out_end st \<longleftrightarrow> length t < n" using assms(2) by (auto simp: word_le_nat_alt)
qed

lemma shown_put:
  assumes "shown b n m t st" and "0 < n" and "b + n \<le> 2 ^ 32" and "b + length t < 2 ^ 32"
  shows "shown b n m (t @ [c]) (put_char c st)"
  using shown_room [OF assms] assms(1) 
  by (auto simp: put_char_def shown_def Let_def fun_eq_iff nth_append)

lemma shown_puts:
  "shown b n m t st \<Longrightarrow> 0 < n \<Longrightarrow> b + n \<le> 2 ^ 32 \<Longrightarrow> b + length t + length cs \<le> 2 ^ 32 \<Longrightarrow> shown b n m (t @ cs) (put_chars cs st)"
proof (induction cs arbitrary: t st)
  case (Cons c cs)
  have "shown b n m (t @ [c]) (put_char c st)" using Cons.prems by (intro shown_put) simp_all
  from Cons.IH [OF this] Cons.prems show ?case by simp
qed simp

section \<open>Printing a number\<close>

lemma put_chars_append: "put_chars (xs @ ys) st = put_chars ys (put_chars xs st)"
  by (induction xs arbitrary: st) simp_all

definition num_value :: "fmt_flags \<Rightarrow> u32 \<Rightarrow> int" where
  "num_value fl num = (if SIGN fl then sint num else uint num)"

lemma unat_neg32: "sint num < 0 \<Longrightarrow> unat (- num :: u32) = nat (- sint num)"
proof -
  assume n: "sint num < 0"
  have "- (2 ^ 31) \<le> sint num" using sint_greater_eq [of num] by simp
  then have "(- sint num) mod 2 ^ 32 = - sint num" using n by (intro mod_pos_pos_trivial) simp_all
  moreover have "uint (- num) = (- sint num) mod 2 ^ 32" using uint_word_of_int [of "- sint num", where 'a = 32] by simp
  ultimately show ?thesis by (simp add: unat_eq_nat_uint)
qed

lemma unat_sint: "0 \<le> sint num \<Longrightarrow> unat (num :: u32) = nat (sint num)"
proof -
  assume n: "0 \<le> sint num"
  have "sint num < 2 ^ 31" using sint_less [of num] by simp
  then have "sint num mod 2 ^ 32 = sint num" using n by (intro mod_pos_pos_trivial) simp_all
  moreover have "uint num = sint num mod 2 ^ 32" using uint_word_of_int [of "sint num", where 'a = 32] by simp
  ultimately show ?thesis by (simp add: unat_eq_nat_uint)
qed

text \<open>When the sign no longer fits, its width is not counted.\<close>

definition full_width :: "bool \<Rightarrow> fmt_flags \<Rightarrow> int \<Rightarrow> int \<Rightarrow> int" where
  "full_width room fl v w = (if (ZEROPAD fl \<or> LEFT fl) \<and> sign_text fl v \<noteq> [] \<and> \<not> room then w + 1 else w)"

lemma digits_zero: "1 < b \<Longrightarrow> digits_of large b 0 = [chr CHR ''0'']"
  by (subst digits_of.simps) (simp add: spec_digit_def)

text \<open>The body of a number: zeros up to the precision, then the digits.\<close>

definition body_text :: "int \<Rightarrow> u8 list \<Rightarrow> u8 list" where
  "body_text p ds = replicate (nat p - length ds) (chr CHR ''0'') @ ds"

lemma put_number_text:
  assumes "LEFT ty \<longrightarrow> \<not> ZEROPAD ty" and "sg = (if sign = 0 then [] else [sign])"
    and "w' = (if (ZEROPAD ty \<or> LEFT ty) \<and> sign \<noteq> 0 \<and> \<not> out_str st \<le> out_end st then w + 1 else w)"
  shows "put_number sign tmp w p ty st =
    put_chars (if ZEROPAD ty then sg @ replicate (nat (w' - int (length sg + length (body_text p (rev tmp))))) (chr CHR ''0'') @ body_text p (rev tmp)
               else sp_pad (LEFT ty) w' (sg @ body_text p (rev tmp))) st"
proof -
  have l: "int (length (body_text p (rev tmp))) = (if int (length tmp) > p then int (length tmp) else p)"
    "nat ((if int (length tmp) > p then int (length tmp) else p) - int (length tmp)) = nat p - length tmp"
    by (auto simp: body_text_def)
  have e: "w - (1 + x) = w - x - 1" for x by simp
  consider "ZEROPAD ty" "\<not> LEFT ty" | "\<not> ZEROPAD ty" "\<not> LEFT ty" | "\<not> ZEROPAD ty" "LEFT ty" using assms(1) by blast
  then show ?thesis
    by cases (auto simp: put_number_def pad_loop_def l e assms(2,3) put_chars_append sp_pad_def spaces_def body_text_def Let_def)
qed

lemma digits_value:
  assumes "unat num = nat \<bar>v\<bar>" and "tmp = (if num = 0 then [chr CHR ''0''] else tmp_digits large base num)"
  shows "rev tmp = digits_of large (radix base) (nat \<bar>v\<bar>)"
proof (cases "num = 0")
  case True
  then show ?thesis using assms digits_zero [of "radix base" large] by simp
next
  case False
  then show ?thesis using tmp_digits_rev [OF False, of large base] assms by simp
qed

lemma print_number_text:
  "print_number num base w p fl st =
     Some (put_chars (number_text (radix base) (full_width (out_str st \<le> out_end st) fl (num_value fl num) w) p fl (num_value fl num)) st)"
proof -
  define ty where "ty = (if LEFT fl then fl\<lparr>ZEROPAD := False\<rparr> else fl)"
  have ty: "LEFT ty = LEFT fl" "ZEROPAD ty \<longleftrightarrow> ZEROPAD fl \<and> \<not> LEFT fl" "SIGN ty = SIGN fl" "PLUS ty = PLUS fl" "SPACE ty = SPACE fl" "LARGE ty = LARGE fl"
    by (simp_all add: ty_def)
  obtain sign n where sn: "(if SIGN ty then (if sint num < 0 then (chr CHR ''-'', - num) else if PLUS ty then (chr CHR ''+'', num)
       else if SPACE ty then (chr CHR '' '', num) else (0, num)) else (0, num)) = (sign, n)" by fastforce
  define tmp where "tmp = (if n = 0 then [chr CHR ''0''] else tmp_digits (LARGE fl) base n)"
  let ?v = "num_value fl num"
  have sg: "sign_text fl ?v = (if sign = 0 then [] else [sign])" using sn by (auto simp: sign_text_def num_value_def ty split: if_splits)
  have "unat n = nat \<bar>?v\<bar>" using sn by (auto simp: num_value_def unat_neg32 unat_sint ty split: if_splits)
  from digits_value [OF this tmp_def] have t: "rev tmp = digits_of (LARGE fl) (radix base) (nat \<bar>?v\<bar>)" .
  have "length tmp \<le> 16" using tmp_length [of n] by (simp add: tmp_def)
  then have "print_number num base w p fl st = Some (put_number sign tmp w p ty st)"
    unfolding print_number_def Let_def ty_def [symmetric] sn by (auto simp: tmp_def ty split: if_splits)
  also have "put_number sign tmp w p ty st = put_chars (number_text (radix base) (full_width (out_str st \<le> out_end st) fl ?v w) p fl ?v) st"
    by (subst put_number_text [OF _ sg refl]) (auto simp: ty number_text_def full_width_def sg t body_text_def Let_def)
  finally show ?thesis .
qed

lemma nat_step: "nat (w - x) \<le> nat (w + 1 - x)" "nat (w + 1 - x) \<le> Suc (nat (w - x))"
  by linarith+

lemma full_width_text:
  "length (number_text b w p fl v) \<le> length (number_text b (full_width r fl v w) p fl v)"
  "length (number_text b (full_width r fl v w) p fl v) \<le> Suc (length (number_text b w p fl v))"
  by (auto simp: number_text_def full_width_def sp_pad_def spaces_def Let_def nat_step)

section \<open>Formats\<close>

datatype fnum = Absent | Number nat | Star

text \<open>
  A character, or a conversion: its flags, width, precision (\<open>None\<close> without a point), qualifier (0 without one) and letter.
\<close>

datatype item = Lit u8 | Conv "u8 list" fnum "fnum option" u8 u8

fun spell_num :: "fnum \<Rightarrow> u8 list" where
  "spell_num Absent = []"
| "spell_num (Number n) = digits_of False 10 n"
| "spell_num Star = [chr CHR ''*'']"

fun spell :: "item \<Rightarrow> u8 list" where
  "spell (Lit c) = [c]"
| "spell (Conv fs w p q c) =
     [chr CHR ''%''] @ fs @ spell_num w @ (case p of None \<Rightarrow> [] | Some n \<Rightarrow> chr CHR ''.'' # spell_num n) @ (if q = 0 then [] else [q]) @ [c]"

abbreviation flag_chars :: "u8 set" where
  "flag_chars \<equiv> {chr CHR ''-'', chr CHR ''+'', chr CHR '' '', chr CHR ''#'', chr CHR ''0''}"

abbreviation number_chars :: "u8 set" where
  "number_chars \<equiv> {chr CHR ''X'', chr CHR ''x'', chr CHR ''d'', chr CHR ''i'', chr CHR ''u''}"

fun wf_num :: "fnum \<Rightarrow> bool" where
  "wf_num (Number n) \<longleftrightarrow> n < 2 ^ 31"
| "wf_num _ \<longleftrightarrow> True"

fun wf_item :: "item \<Rightarrow> bool" where
  "wf_item (Lit c) \<longleftrightarrow> c \<noteq> chr CHR ''%'' \<and> c \<noteq> 0"
| "wf_item (Conv fs w p q c) \<longleftrightarrow>
     set fs \<subseteq> flag_chars \<and> wf_num w \<and> w \<noteq> Number 0 \<and> (case p of None \<Rightarrow> True | Some n \<Rightarrow> wf_num n) \<and>
     q \<in> {0, chr CHR ''h'', chr CHR ''l''} \<and> c \<in> {chr CHR ''c'', chr CHR ''s'', chr CHR ''p'', chr CHR ''%''} \<union> number_chars"

definition flags_of :: "u8 list \<Rightarrow> fmt_flags" where
  "flags_of fs = \<lparr>ZEROPAD = chr CHR ''0'' \<in> set fs, SIGN = False, PLUS = chr CHR ''+'' \<in> set fs, SPACE = chr CHR '' '' \<in> set fs,
     LEFT = chr CHR ''-'' \<in> set fs, SPECIAL = chr CHR ''#'' \<in> set fs, LARGE = False\<rparr>"

text \<open>The width, given or the next argument; a negative argument asks for the left side.\<close>

fun width_of :: "fnum \<Rightarrow> fmt_flags \<Rightarrow> u32 list \<Rightarrow> (int \<times> fmt_flags \<times> u32 list) option" where
  "width_of Absent fl args = Some (- 1, fl, args)"
| "width_of (Number n) fl args = Some (int n, fl, args)"
| "width_of Star fl [] = None"
| "width_of Star fl (a # args) =
     (if sint a = - (2 ^ 31) then None else Some (\<bar>sint a\<bar>, if sint a < 0 then fl\<lparr>LEFT := True\<rparr> else fl, args))"

fun precision_of :: "fnum option \<Rightarrow> u32 list \<Rightarrow> (int \<times> u32 list) option" where
  "precision_of None args = Some (- 1, args)"
| "precision_of (Some Absent) args = Some (0, args)"
| "precision_of (Some (Number n)) args = Some (int n, args)"
| "precision_of (Some Star) [] = None"
| "precision_of (Some Star) (a # args) = Some (max 0 (sint a), args)"

text \<open>The text of a conversion of the argument \<open>a\<close>; a precision of 0 does not cut a string.\<close>

definition string_text :: "bytes \<Rightarrow> int \<Rightarrow> u32 \<Rightarrow> u8 list option" where
  "string_text m p a =
     do { cs \<leftarrow> (if a = 0 then Some null_text else do { n \<leftarrow> rt_strlen m (unat a); valid_access (unat a + n < 2 ^ 32); Some (map m [unat a ..< unat a + n]) });
          Some (if p > 0 then take (nat p) cs else cs) }"

definition int_text :: "int \<Rightarrow> int \<Rightarrow> fmt_flags \<Rightarrow> u8 \<Rightarrow> u8 \<Rightarrow> u32 \<Rightarrow> u8 list" where
  "int_text w p fl q c a =
     (let fl = fl\<lparr>SIGN := c \<in> {chr CHR ''d'', chr CHR ''i''}, LARGE := c = chr CHR ''X''\<rparr>;
          b = (if c \<in> {chr CHR ''X'', chr CHR ''x''} then 16 else 10);
          v = (if q = chr CHR ''h'' then (if SIGN fl then sint (ucast a :: u16) else uint (ucast a :: u16))
               else if SIGN fl then sint a else uint a)
      in number_text b w p fl v)"

definition conv_text :: "bytes \<Rightarrow> int \<Rightarrow> int \<Rightarrow> fmt_flags \<Rightarrow> u8 \<Rightarrow> u8 \<Rightarrow> u32 \<Rightarrow> u8 list option" where
  "conv_text m w p fl q c a =
     (if c = chr CHR ''c'' then Some (sp_pad (LEFT fl) w [ucast a])
      else if c = chr CHR ''s'' then map_option (sp_pad (LEFT fl) w) (string_text m p a)
      else if c = chr CHR ''p'' then
        Some (if w = - 1 then number_text 16 8 p (fl\<lparr>ZEROPAD := True\<rparr>) (uint a) else number_text 16 w p fl (uint a))
      else Some (int_text w p fl q c a))"

fun item_text :: "bytes \<Rightarrow> item \<Rightarrow> u32 list \<Rightarrow> (u8 list \<times> u32 list) option" where
  "item_text m (Lit c) args = Some ([c], args)"
| "item_text m (Conv fs w p q c) args =
     do { (w, fl, args) \<leftarrow> width_of w (flags_of fs) args;
          (p, args) \<leftarrow> precision_of p args;
          if c = chr CHR ''%'' then Some ([c], args)
          else (case args of [] \<Rightarrow> None | a # args \<Rightarrow> do { t \<leftarrow> conv_text m w p fl q c a; Some (t, args) }) }"

fun items_text :: "bytes \<Rightarrow> item list \<Rightarrow> u32 list \<Rightarrow> u8 list option" where
  "items_text m [] args = Some []"
| "items_text m (x # xs) args =
     do { (t, args) \<leftarrow> item_text m x args; u \<leftarrow> items_text m xs args; Some (t @ u) }"

section \<open>Reading the format\<close>

lemma fmt_char_simps [simp]: "fmt_char [] = 0" "fmt_char (c # s) = c"
  by (simp_all add: fmt_char_def)

lemma scan_flags_app:
  assumes "set fs \<subseteq> flag_chars" and "fmt_char r \<notin> flag_chars"
  shows "scan_flags fl (fs @ r) =
    (fl\<lparr>ZEROPAD := ZEROPAD fl \<or> chr CHR ''0'' \<in> set fs, PLUS := PLUS fl \<or> chr CHR ''+'' \<in> set fs, SPACE := SPACE fl \<or> chr CHR '' '' \<in> set fs,
        LEFT := LEFT fl \<or> chr CHR ''-'' \<in> set fs, SPECIAL := SPECIAL fl \<or> chr CHR ''#'' \<in> set fs\<rparr>, r)"
  using assms(1)
proof (induction fs arbitrary: fl)
  case Nil
  then show ?case using assms(2) by (cases r) auto
next
  case (Cons c fs)
  then show ?case by auto
qed

lemma scan_flags_of: "set fs \<subseteq> flag_chars \<Longrightarrow> fmt_char r \<notin> flag_chars \<Longrightarrow> scan_flags no_flags (fs @ r) = (flags_of fs, r)"
  by (simp add: scan_flags_app no_flags_def flags_of_def)

lemma spec_digit_decimal:
  "d < 10 \<Longrightarrow> fmt_isdigit (spec_digit large d)" "d < 10 \<Longrightarrow> uint (spec_digit large d) = 48 + int d"
proof -
  assume "d < 10"
  then have "d \<in> {0, 1, 2, 3, 4, 5, 6, 7, 8, 9}" by auto
  then show "fmt_isdigit (spec_digit large d)" "uint (spec_digit large d) = 48 + int d"
    by (auto simp: spec_digit_def fmt_isdigit_def)
qed

lemma skip_digits: "int n < 2 ^ 31 \<Longrightarrow> skip_atoi 0 (digits_of large 10 n @ r) = skip_atoi (int n) r"
proof (induction large "10 :: nat" n arbitrary: r rule: digits_of.induct)
  case (1 large n)
  show ?case
  proof (cases "n < 10")
    case True
    then show ?thesis by (subst digits_of.simps) (simp add: spec_digit_decimal)
  next
    case False
    have "int (n div 10) < 2 ^ 31" using 1(2) by simp
    with 1(1) False have "skip_atoi 0 (digits_of large 10 (n div 10) @ s) = skip_atoi (int (n div 10)) s" for s by simp
    moreover have "int (n div 10) * 10 + (48 + int (n mod 10)) - 48 = int n" using div_mult_mod_eq [of n 10] by linarith
    ultimately show ?thesis using False 1(2) by (subst digits_of.simps) (simp add: spec_digit_decimal)
  qed
qed

lemma skip_stop: "\<not> fmt_isdigit (fmt_char r) \<Longrightarrow> skip_atoi i r = Some (i, r)"
  by (cases r) simp_all

lemma digits_first:
  assumes "0 < n"
  shows "\<exists>c cs. digits_of large 10 n = c # cs \<and> fmt_isdigit c \<and> c \<noteq> chr CHR ''0''"
  using assms
proof (induction large "10 :: nat" n rule: digits_of.induct)
  case (1 large n)
  show ?case
  proof (cases "n < 10")
    case True
    have "uint (spec_digit large n) \<noteq> uint (48 :: u8)" using True 1(2) by (simp add: spec_digit_decimal)
    then have "spec_digit large n \<noteq> 48" by metis
    then show ?thesis using True by (subst digits_of.simps) (auto simp: spec_digit_decimal)
  next
    case False
    then have "0 < n div 10" by (simp add: div_greater_zero_iff)
    then show ?thesis using 1(1) False by (subst digits_of.simps) auto
  qed
qed

lemma digits_first_zero: "\<exists>c cs. digits_of large 10 n = c # cs \<and> fmt_isdigit c"
proof (cases "n = 0")
  case True
  then show ?thesis by (simp add: digits_zero fmt_isdigit_def)
next
  case False
  then show ?thesis using digits_first [of n large] by blast
qed

lemma not_digit: "\<not> fmt_isdigit 42" "\<not> fmt_isdigit 0" "\<not> fmt_isdigit (chr CHR ''.'')" "\<not> fmt_isdigit (chr CHR ''h'')"
  "\<not> fmt_isdigit (chr CHR ''l'')" "c \<in> {chr CHR ''c'', chr CHR ''s'', chr CHR ''p'', chr CHR ''%''} \<union> number_chars \<Longrightarrow> \<not> fmt_isdigit c"
  by (auto simp: fmt_isdigit_def)

lemma scan_width_of:
  assumes "wf_num w" and "\<not> fmt_isdigit (fmt_char r)" and "fmt_char r \<noteq> chr CHR ''*''"
  shows "scan_width fl (spell_num w @ r) args = map_option (\<lambda>(w, fl, args). (w, fl, r, args)) (width_of w fl args)"
proof (cases w)
  case Absent
  then show ?thesis using assms by (simp add: scan_width_def)
next
  case (Number n)
  obtain c cs where "digits_of False 10 n = c # cs" "fmt_isdigit c" using digits_first_zero by blast
  then show ?thesis using Number assms skip_digits [of n False r] by (simp add: scan_width_def skip_stop)
next
  case Star
  then show ?thesis by (cases args) (auto simp: scan_width_def not_digit va_arg_def)
qed

lemma scan_precision_of:
  assumes "case p of None \<Rightarrow> True | Some n \<Rightarrow> wf_num n" and "\<not> fmt_isdigit (fmt_char r)" and "fmt_char r \<noteq> chr CHR ''*''" and "fmt_char r \<noteq> chr CHR ''.''"
  shows "scan_precision ((case p of None \<Rightarrow> [] | Some n \<Rightarrow> chr CHR ''.'' # spell_num n) @ r) args =
    map_option (\<lambda>(p, args). (p, r, args)) (precision_of p args)"
proof (cases p)
  case None
  then show ?thesis using assms by (simp add: scan_precision_def)
next
  case (Some w)
  show ?thesis
  proof (cases w)
    case Absent
    then show ?thesis using assms Some by (simp add: scan_precision_def)
  next
    case (Number n)
    obtain c cs where "digits_of False 10 n = c # cs" "fmt_isdigit c" using digits_first_zero by blast
    then show ?thesis using Some Number assms skip_digits [of n False r] by (simp add: scan_precision_def skip_stop)
  next
    case Star
    then show ?thesis using Some by (cases args) (auto simp: scan_precision_def not_digit va_arg_def max_def Let_def)
  qed
qed

section \<open>Conversions\<close>

text \<open>The bytes outside the buffer are what they were.\<close>

definition agrees :: "nat \<Rightarrow> nat \<Rightarrow> bytes \<Rightarrow> bytes \<Rightarrow> bool" where
  "agrees b n m m' \<longleftrightarrow> (\<forall>a. \<not> (b \<le> a \<and> a < b + n) \<longrightarrow> m' a = m a)"

lemma shown_agrees: "shown b n m t st \<Longrightarrow> agrees b n m (out_mem st)"
  by (auto simp: shown_def agrees_def)

text \<open>What a conversion may put instead of its text when that does not fit.\<close>

definition text_or_cut :: "nat \<Rightarrow> u8 list \<Rightarrow> u8 list \<Rightarrow> u8 list \<Rightarrow> bool" where
  "text_or_cut n t x u \<longleftrightarrow> u = x \<or> n \<le> length t \<and> length x \<le> length u \<and> length u \<le> Suc (length x)"

lemma number_shown:
  assumes "shown b n m t st" and "0 < n" and "b + n \<le> 2 ^ 32" and "b + length t + length (number_text (radix base) w p fl (num_value fl num)) < 2 ^ 32"
  shows "\<exists>st' u. print_number num base w p fl st = Some st' \<and> shown b n m (t @ u) st' \<and> text_or_cut n t (number_text (radix base) w p fl (num_value fl num)) u"
proof -
  let ?v = "num_value fl num"
  let ?u = "number_text (radix base) (full_width (out_str st \<le> out_end st) fl ?v w) p fl ?v"
  have "length ?u \<le> Suc (length (number_text (radix base) w p fl ?v))" "length (number_text (radix base) w p fl ?v) \<le> length ?u" by (rule full_width_text)+
  moreover have "out_str st \<le> out_end st \<longleftrightarrow> length t < n" using assms by (intro shown_room(1) [OF assms(1)]) linarith+
  moreover have "full_width True fl ?v w = w" by (simp add: full_width_def)
  ultimately have "text_or_cut n t (number_text (radix base) w p fl ?v) ?u" by (cases "length t < n") (simp_all add: text_or_cut_def)
  moreover have "shown b n m (t @ ?u) (put_chars ?u st)" using assms full_width_text(2) [of "radix base" "out_str st \<le> out_end st" fl ?v w p]
    by (intro shown_puts) simp_all
  ultimately show ?thesis using print_number_text by blast
qed

lemma put_string_shown:
  assumes "\<And>m'. agrees b n m m' \<Longrightarrow> map m' [unat s ..< unat s + k] = cs" and "unat s + k < 2 ^ 32"
    and "shown b n m t st" and "0 < n" and "b + n \<le> 2 ^ 32" and "b + length t + k < 2 ^ 32"
  shows "shown b n m (t @ cs) (put_string k s st)"
  using assms
proof (induction k arbitrary: s t st cs)
  case 0
  then show ?case using shown_agrees [of b n m t st] by simp
next
  case (Suc k)
  have a: "agrees b n m (out_mem st)" using Suc.prems(3) by (rule shown_agrees)
  have u: "unat (s + 1) = unat s + 1" using unat_nat32 [of "unat s + 1"] Suc.prems(2) by (simp add: add.commute)
  let ?cs = "map (out_mem st) [unat (s + 1) ..< unat (s + 1) + k]"
  have i: "[unat s ..< unat s + Suc k] = unat s # [unat (s + 1) ..< unat (s + 1) + k]" unfolding u by (simp add: upt_conv_Cons del: upt_Suc)
  have c: "cs = out_mem st (unat s) # ?cs" using Suc.prems(1) [OF a] unfolding i by simp
  have "map m' [unat (s + 1) ..< unat (s + 1) + k] = ?cs" if "agrees b n m m'" for m'
    using Suc.prems(1) [OF that] Suc.prems(1) [OF a] unfolding i by auto
  moreover have "shown b n m (t @ [out_mem st (unat s)]) (put_char (out_mem st (unat s)) st)" using Suc.prems by (intro shown_put) simp_all
  ultimately have "shown b n m ((t @ [out_mem st (unat s)]) @ ?cs) (put_string k (s + 1) (put_char (out_mem st (unat s)) st))"
    using Suc.prems u by (intro Suc.IH) simp_all
  then show ?case using c by simp
qed

lemma string_textD:
  "string_text m p a = Some cs \<Longrightarrow> a \<noteq> 0 \<Longrightarrow>
     \<exists>l. rt_strlen m (unat a) = Some l \<and> unat a + l < 2 ^ 32 \<and> cs = (if p > 0 then take (nat p) else id) (map m [unat a ..< unat a + l])"
  unfolding string_text_def by (auto simp: Option.bind_eq_Some_conv simp del: take_all_iff take_map take_upt)

lemma string_shown:
  assumes "\<And>m'. agrees b n m m' \<Longrightarrow> string_text m' p a = Some cs" and "shown b n m t st" and "0 < n" and "b + n \<le> 2 ^ 32"
    and "b + length t + length (sp_pad (LEFT fl) w cs) < 2 ^ 32"
  shows "\<exists>st'. fmt_s w p fl a st = Some st' \<and> shown b n m (t @ sp_pad (LEFT fl) w cs) st'"
proof -
  have ag: "agrees b n m (out_mem st)" using assms(2) by (rule shown_agrees)
  obtain l where l: "(if a = 0 then Some (length null_text) else rt_strlen (out_mem st) (unat a)) = Some l" "a \<noteq> 0 \<Longrightarrow> unat a + l < 2 ^ 32"
    "cs = (if p > 0 then take (nat p) else id) (if a = 0 then null_text else map (out_mem st) [unat a ..< unat a + l])"
    using assms(1) [OF ag] by (auto simp: string_text_def Option.bind_eq_Some_conv split: if_splits)
  define k where "k = (if p > 0 \<and> int l > p then nat p else l)"
  let ?pad = "replicate (nat (w - int k)) (chr CHR '' '')"
  have k: "length cs = k" using l(1,3) by (auto simp: k_def split: if_splits)
  have put: "shown b n m (t' @ cs) (if a = 0 then put_chars (take k null_text) st' else put_string k a st')"
    if s: "shown b n m t' st'" "b + length t' + k < 2 ^ 32" for t' st'
  proof (cases "a = 0")
    case True
    then have "cs = take k null_text" using l(1,3) by (auto simp: k_def)
    then show ?thesis using True s assms(3,4) k by (simp add: shown_puts)
  next
    case False
    have "map m' [unat a ..< unat a + k] = cs" if g: "agrees b n m m'" for m'
    proof -
      obtain l' where "cs = (if p > 0 then take (nat p) else id) (map m' [unat a ..< unat a + l'])"
        using string_textD [OF assms(1) [OF g] False] by blast
      then have "cs = take k (map m' [unat a ..< unat a + l'])" "k \<le> l'" using k by (auto simp: min_def split: if_splits)
      then show ?thesis by (simp add: take_map)
    qed
    then show ?thesis using False l(2) s assms(3,4) by (auto intro!: put_string_shown simp: k_def)
  qed
  have f: "fmt_s w p fl a st = Some (let st' = (if LEFT fl then st else put_chars ?pad st);
      st' = (if a = 0 then put_chars (take k null_text) st' else put_string k a st') in if LEFT fl then put_chars ?pad st' else st')"
    using l(1) by (simp add: fmt_s_def k_def Let_def)
  show ?thesis
  proof (cases "LEFT fl")
    case True
    then have "shown b n m ((t @ cs) @ ?pad) (put_chars ?pad (if a = 0 then put_chars (take k null_text) st else put_string k a st))"
      using assms k by (intro shown_puts put) (simp_all add: sp_pad_def spaces_def Let_def)
    then show ?thesis using True f k by (simp add: sp_pad_def spaces_def Let_def)
  next
    case False
    then have "shown b n m ((t @ ?pad) @ cs) (if a = 0 then put_chars (take k null_text) (put_chars ?pad st) else put_string k a (put_chars ?pad st))"
      using assms k by (intro put shown_puts) (simp_all add: sp_pad_def spaces_def Let_def)
    then show ?thesis using False f k by (auto simp: sp_pad_def spaces_def Let_def)
  qed
qed

lemma char_shown:
  assumes "shown b n m t st" and "0 < n" and "b + n \<le> 2 ^ 32" and "b + length t + length (sp_pad (LEFT fl) w [ucast a]) < 2 ^ 32"
  shows "shown b n m (t @ sp_pad (LEFT fl) w [ucast a]) (fmt_c w fl a st)"
proof -
  have "fmt_c w fl a st = put_chars (sp_pad (LEFT fl) w [ucast a]) st"
    by (simp add: fmt_c_def sp_pad_def spaces_def put_chars_append Let_def)
  then show ?thesis using assms shown_puts [of b n m t st] by simp
qed

text \<open>The number an argument is printed as.\<close>

lemma num_value_fmt:
  "num_value fl (fmt_num q fl a) =
     (if q = chr CHR ''h'' then (if SIGN fl then sint (ucast a :: u16) else uint (ucast a :: u16)) else if SIGN fl then sint a else uint a)"
proof -
  have "sint (scast x :: u32) = sint x" for x :: u16
    using sint_greater_eq [of x] sint_less [of x] by (simp add: signed_scast_eq signed_take_bit_int_eq_self_iff)
  moreover have "uint (ucast x :: u32) = uint x" for x :: u16
    using uint_bounded [of x] by (simp add: unsigned_ucast_eq take_bit_int_eq_self_iff)
  ultimately show ?thesis by (simp add: num_value_def fmt_num_def)
qed

lemma scan_conv:
  assumes "wf_item (Conv fs w p q c)"
  shows "directive (tl (spell (Conv fs w p q c)) @ r) args st =
    do { (w, fl, args) \<leftarrow> width_of w (flags_of fs) args;
         (p, args) \<leftarrow> precision_of p args;
         (args, st) \<leftarrow> convert c q w p fl args st;
         Some (r, args, st) }"
proof -
  let ?q = "(if q = 0 then [] else [q]) @ [c] @ r"
  let ?p = "(case p of None \<Rightarrow> [] | Some n \<Rightarrow> chr CHR ''.'' # spell_num n) @ ?q"
  have q: "fmt_char ?q \<in> {chr CHR ''h'', chr CHR ''l'', chr CHR ''c'', chr CHR ''s'', chr CHR ''p'', chr CHR ''%''} \<union> number_chars"
    "scan_qualifier ?q = (q, c # r)" using assms by (auto simp: scan_qualifier_def)
  then have p: "\<not> fmt_isdigit (fmt_char ?q)" "fmt_char ?q \<noteq> chr CHR ''*''" "fmt_char ?q \<noteq> chr CHR ''.''" by (auto simp: fmt_isdigit_def)
  have w: "\<not> fmt_isdigit (fmt_char ?p)" "fmt_char ?p \<noteq> chr CHR ''*''" "fmt_char ?p \<notin> flag_chars"
    using p q by (cases p; auto simp: fmt_isdigit_def)+
  have "fmt_char (spell_num w @ ?p) \<notin> flag_chars"
  proof (cases w)
    case (Number n)
    then obtain d ds where "digits_of False 10 n = d # ds" "fmt_isdigit d" "d \<noteq> chr CHR ''0''" using digits_first [of n False] assms by auto
    then show ?thesis using Number by (auto simp: fmt_isdigit_def)
  qed (use w in auto)
  then have f: "scan_flags no_flags (fs @ spell_num w @ ?p) = (flags_of fs, spell_num w @ ?p)" using assms by (intro scan_flags_of) auto
  have 1: "scan_width fl (spell_num w @ ?p) args = map_option (\<lambda>(w, fl, args). (w, fl, ?p, args)) (width_of w fl args)" for fl args
    using assms w by (intro scan_width_of) auto
  have 2: "scan_precision ?p args = map_option (\<lambda>(p, args). (p, ?q, args)) (precision_of p args)" for args
    using assms p by (intro scan_precision_of) auto
  have "tl (spell (Conv fs w p q c)) @ r = fs @ spell_num w @ ?p" by simp
  then show ?thesis unfolding directive_def f
    by (simp only: Let_def prod.case f 1 bind_map_option comp_def 2 q(2) case_prod_beta fst_conv snd_conv fmt_char_simps list.sel)
      (simp add: case_prod_unfold)
qed

section \<open>Strings apart from the buffer\<close>

lemma strlen_loop_Some: "strlen_loop m sc = Some r \<Longrightarrow> sc \<le> r \<and> str_at m sc (map m [sc..<r])"
proof (erule strlen_loop.raw_induct [rotated])
  fix loop :: "bytes \<Rightarrow> nat \<Rightarrow> nat option" and m sc r
  assume IH: "\<And>m sc r. loop m sc = Some r \<Longrightarrow> sc \<le> r \<and> str_at m sc (map m [sc..<r])"
    and step: "(if m sc \<noteq> 0 then loop m (sc + 1) else Some sc) = Some r"
  show "sc \<le> r \<and> str_at m sc (map m [sc..<r])"
  proof (cases "m sc = 0")
    case False
    then show ?thesis using IH [of m "sc + 1" r] step by (auto simp: upt_conv_Cons)
  qed (use step in simp)
qed

lemma rt_strlen_Some: "rt_strlen m a = Some l \<Longrightarrow> str_at m a (map m [a..<a + l])"
  using strlen_loop_Some [of m a "a + l"] by (auto simp: rt_strlen_def Option.bind_eq_Some_conv dest: strlen_loop_Some)

lemma str_at_cong: "str_at m a s \<Longrightarrow> (\<And>i. i \<le> length s \<Longrightarrow> m' (a + i) = m (a + i)) \<Longrightarrow> str_at m' a s"
proof (induction s arbitrary: a)
  case Nil
  then show ?case using Nil.prems(2) [of 0] by simp
next
  case (Cons c s)
  have "str_at m' (a + 1) s"
  proof (rule Cons.IH)
    fix i
    assume "i \<le> length s"
    then show "m' (a + 1 + i) = m (a + 1 + i)" using Cons.prems(2) [of "i + 1"] by (simp add: add.assoc add.commute)
  qed (use Cons.prems in simp)
  then show ?case using Cons.prems Cons.prems(2) [of 0] by simp
qed

text \<open>The string with its terminating zero lies outside the buffer.\<close>

definition string_apart :: "nat \<Rightarrow> nat \<Rightarrow> bytes \<Rightarrow> u32 \<Rightarrow> bool" where
  "string_apart b n m a \<longleftrightarrow>
     a = 0 \<or> (case rt_strlen m (unat a) of None \<Rightarrow> False | Some l \<Rightarrow> unat a + l < b \<or> b + n \<le> unat a)"

lemma string_text_agrees:
  assumes "agrees b n m m'" and "string_apart b n m a"
  shows "string_text m' p a = string_text m p a"
proof (cases "a = 0")
  case False
  then obtain l where l: "rt_strlen m (unat a) = Some l" "unat a + l < b \<or> b + n \<le> unat a"
    using assms(2) by (auto simp: string_apart_def split: option.splits)
  have e: "m' (unat a + i) = m (unat a + i)" if "i \<le> l" for i using assms(1) l(2) that by (auto simp: agrees_def)
  have "str_at m' (unat a) (map m [unat a ..< unat a + l])" using rt_strlen_Some [OF l(1)] by (rule str_at_cong) (simp add: e)
  then have 1: "rt_strlen m' (unat a) = Some l" by (simp add: rt_strlen_str)
  have 2: "map m' [unat a ..< unat a + l] = map m [unat a ..< unat a + l]"
  proof (rule map_cong [OF refl])
    fix i
    assume "i \<in> set [unat a ..< unat a + l]"
    then show "m' i = m i" using e [of "i - unat a"] by (auto simp: le_diff_conv)
  qed
  show ?thesis by (simp only: string_text_def 1 2 l(1) bind.bind_lunit)
qed (simp add: string_text_def)

fun item_string :: "item \<Rightarrow> u32 list \<Rightarrow> u32 option" where
  "item_string (Lit c) args = None"
| "item_string (Conv fs w p q c) args =
     (if c \<noteq> chr CHR ''s'' then None
      else do { (w, fl, args) \<leftarrow> width_of w (flags_of fs) args; (p, args) \<leftarrow> precision_of p args; (a, args) \<leftarrow> va_arg args; Some a })"

fun strings_apart :: "nat \<Rightarrow> nat \<Rightarrow> bytes \<Rightarrow> item list \<Rightarrow> u32 list \<Rightarrow> bool" where
  "strings_apart b n m [] args \<longleftrightarrow> True"
| "strings_apart b n m (x # xs) args \<longleftrightarrow>
     (case item_string x args of None \<Rightarrow> True | Some a \<Rightarrow> string_apart b n m a) \<and>
     (case item_text m x args of None \<Rightarrow> True | Some (t, args) \<Rightarrow> strings_apart b n m xs args)"

section \<open>The text of a format\<close>

lemma convert_shown:
  assumes c: "c \<in> {chr CHR ''c'', chr CHR ''s'', chr CHR ''p''} \<union> number_chars" and fl: "\<not> SIGN fl" "\<not> LARGE fl"
    and x0: "conv_text m w p fl q c a = Some x" and ap: "c = chr CHR ''s'' \<Longrightarrow> string_apart b n m a"
    and st: "shown b n m t st" "0 < n" "b + n \<le> 2 ^ 32" "b + length t + length x < 2 ^ 32"
  shows "\<exists>st' u. convert c q w p fl (a # args) st = Some (args, st') \<and> shown b n m (t @ u) st' \<and> text_or_cut n t x u"
proof -
  note num = number_shown [OF st(1-3)]
  consider "c = chr CHR ''c''" | "c = chr CHR ''s''" | "c = chr CHR ''p''" | "c \<in> number_chars" using c by blast
  then show ?thesis
  proof cases
    case 1
    then have "x = sp_pad (LEFT fl) w [ucast a]" using x0 by (simp add: conv_text_def)
    then show ?thesis using 1 char_shown [OF st(1-3), of fl w a] st(4) by (fastforce simp: convert_def va_arg_def text_or_cut_def)
  next
    case 2
    obtain cs where cs: "x = sp_pad (LEFT fl) w cs" "string_text m p a = Some cs" using x0 2 by (auto simp: conv_text_def)
    have "string_text m' p a = Some cs" if "agrees b n m m'" for m' using string_text_agrees [OF that ap [OF 2]] cs(2) by simp
    from string_shown [OF this st(1-3)] cs st(4) show ?thesis using 2 by (fastforce simp: convert_def va_arg_def text_or_cut_def)
  next
    case 3
    let ?fl = "if w = - 1 then fl\<lparr>ZEROPAD := True\<rparr> else fl" and ?w = "if w = - 1 then 8 else w"
    have "x = number_text (radix 16) ?w p ?fl (num_value ?fl a)" using x0 3 fl by (auto simp: conv_text_def num_value_def)
    then show ?thesis using 3 num [of 16 ?w p ?fl a] st(4) by (auto simp: convert_def va_arg_def)
  next
    case 4
    let ?fl = "fl\<lparr>SIGN := c \<in> {chr CHR ''d'', chr CHR ''i''}, LARGE := c = chr CHR ''X''\<rparr>" and ?b = "if c \<in> {chr CHR ''X'', chr CHR ''x''} then 16 else 10 :: u32"
    have "x = number_text (radix ?b) w p ?fl (num_value ?fl (fmt_num q ?fl a))"
      using x0 4 by (auto simp: conv_text_def int_text_def num_value_fmt Let_def)
    moreover have "convert c q w p fl (a # args) st = do { st \<leftarrow> print_number (fmt_num q ?fl a) ?b w p ?fl st; Some (args, st) }"
      using 4 fl by (cases fl) (auto simp: convert_def va_arg_def Let_def)
    ultimately show ?thesis using num [of ?b w p ?fl "fmt_num q ?fl a"] st(4) by auto
  qed
qed

lemma width_of_flags: "width_of w (flags_of fs) args = Some (w', fl, args') \<Longrightarrow> \<not> SIGN fl \<and> \<not> LARGE fl"
  by (cases "(w, flags_of fs, args)" rule: width_of.cases) (auto simp: flags_of_def split: if_splits)

lemma item_shown:
  assumes x: "wf_item (Conv fs w p q c)" "item_text m (Conv fs w p q c) args = Some (x, args')"
    and ap: "case item_string (Conv fs w p q c) args of None \<Rightarrow> True | Some a \<Rightarrow> string_apart b n m a"
    and st: "shown b n m t st" "0 < n" "b + n \<le> 2 ^ 32" "b + length t + length x < 2 ^ 32"
  shows "\<exists>st' u. directive (tl (spell (Conv fs w p q c)) @ r) args st = Some (r, args', st') \<and> shown b n m (t @ u) st' \<and> text_or_cut n t x u"
proof -
  obtain w1 fl args1 p1 args2 where 1: "width_of w (flags_of fs) args = Some (w1, fl, args1)" "precision_of p args1 = Some (p1, args2)"
    using x(2) by (auto simp: Option.bind_eq_Some_conv)
  note sc = scan_conv [OF x(1), of r args st]
  show ?thesis
  proof (cases "c = chr CHR ''%''")
    case True
    then have "x = [c]" "args' = args2" using x(2) 1 by simp_all
    moreover have "shown b n m (t @ [c]) (put_char c st)" using st \<open>x = [c]\<close> by (intro shown_put) simp_all
    moreover have "convert c q w1 p1 fl args2 st = Some (args2, put_char c st)" using True by (simp add: convert_def)
    ultimately show ?thesis using 1 unfolding sc by (auto simp: text_or_cut_def)
  next
    case False
    then obtain a where a: "args2 = a # args'" "conv_text m w1 p1 fl q c a = Some x"
      using x(2) 1 by (auto simp: Option.bind_eq_Some_conv split: list.splits)
    have "c = chr CHR ''s'' \<Longrightarrow> string_apart b n m a" using ap 1 a by (simp add: va_arg_def)
    moreover have "c \<in> {chr CHR ''c'', chr CHR ''s'', chr CHR ''p''} \<union> number_chars" using x(1) False by auto
    moreover have "\<not> SIGN fl" "\<not> LARGE fl" using width_of_flags [OF 1(1)] by simp_all
    ultimately have "\<exists>st' u. convert c q w1 p1 fl (a # args') st = Some (args', st') \<and> shown b n m (t @ u) st' \<and> text_or_cut n t x u"
      using a st by (intro convert_shown) auto
    then show ?thesis using 1 a unfolding sc by auto
  qed
qed

text \<open>
  The text of the whole format: what fits of it is put; behind the end of the buffer there may be one character more for each conversion.
\<close>

lemma items_shown:
  assumes "0 < n" and "b + n \<le> 2 ^ 32"
  shows "\<forall>x\<in>set xs. wf_item x \<Longrightarrow> items_text m xs args = Some tx \<Longrightarrow> strings_apart b n m xs args \<Longrightarrow>
    shown b n m t st \<Longrightarrow> b + length t + length tx + length xs < 2 ^ 32 \<Longrightarrow>
    \<exists>st' u. vsn_loop (concat (map spell xs)) args st = Some st' \<and> shown b n m (t @ u) st' \<and>
      (u = tx \<or> n \<le> length (t @ u) \<and> n \<le> length (t @ tx) \<and> take (n - length t) u = take (n - length t) tx) \<and>
      length tx \<le> length u \<and> length u \<le> length tx + length xs"
proof (induction xs arbitrary: args tx t st)
  case (Cons x xs)
  obtain x1 args1 x2 where x: "item_text m x args = Some (x1, args1)" "items_text m xs args1 = Some x2" "tx = x1 @ x2"
    using Cons.prems(2) by (auto simp: Option.bind_eq_Some_conv)
  have "\<exists>st1 u1. vsn_loop (spell x @ concat (map spell xs)) args st = vsn_loop (concat (map spell xs)) args1 st1 \<and>
      shown b n m (t @ u1) st1 \<and> text_or_cut n t x1 u1"
  proof (cases x)
    case (Lit c)
    then have "shown b n m (t @ [c]) (put_char c st)" using Cons.prems assms x by (intro shown_put) auto
    then show ?thesis using Lit Cons.prems x by (auto simp: text_or_cut_def)
  next
    case (Conv fs w p q c)
    then obtain st1 u1 where "directive (tl (spell x) @ concat (map spell xs)) args st = Some (concat (map spell xs), args1, st1)"
      "shown b n m (t @ u1) st1" "text_or_cut n t x1 u1"
      using item_shown [of fs w p q c m args x1 args1 b n t st "concat (map spell xs)"] Cons.prems assms x by auto
    then show ?thesis using Conv by (intro exI [of _ st1] exI [of _ u1]) simp
  qed
  then obtain st1 u1 where 1: "vsn_loop (spell x @ concat (map spell xs)) args st = vsn_loop (concat (map spell xs)) args1 st1"
    "shown b n m (t @ u1) st1" "text_or_cut n t x1 u1" by blast
  have l: "length x1 \<le> length u1" "length u1 \<le> Suc (length x1)" using 1(3) by (auto simp: text_or_cut_def)
  obtain st2 u2 where 2: "vsn_loop (concat (map spell xs)) args1 st1 = Some st2" "shown b n m ((t @ u1) @ u2) st2"
    "u2 = x2 \<or> n \<le> length ((t @ u1) @ u2) \<and> n \<le> length ((t @ u1) @ x2) \<and> take (n - length (t @ u1)) u2 = take (n - length (t @ u1)) x2"
    "length x2 \<le> length u2" "length u2 \<le> length x2 + length xs"
    using Cons.IH [OF _ x(2) _ 1(2)] Cons.prems x l by auto
  show ?case
  proof (intro exI conjI)
    show "vsn_loop (concat (map spell (x # xs))) args st = Some st2" using 1(1) 2(1) by simp
    show "shown b n m (t @ (u1 @ u2)) st2" using 2(2) by simp
    show "u1 @ u2 = tx \<or> n \<le> length (t @ u1 @ u2) \<and> n \<le> length (t @ tx) \<and> take (n - length t) (u1 @ u2) = take (n - length t) tx"
      using 1(3) 2(3) x(3) by (auto simp: text_or_cut_def)
    show "length tx \<le> length (u1 @ u2)" "length (u1 @ u2) \<le> length tx + length (x # xs)" using l 2(4,5) x(3) by simp_all
  qed
qed simp

lemma rt_vsnprintf_text:
  assumes "\<forall>x\<in>set xs. wf_item x" and "items_text m xs args = Some text" and "strings_apart (unat buf) (unat sz) m xs args"
    and "0 < sz" and "unat buf + unat sz \<le> 2 ^ 32" and "unat buf + length text + length xs < 2 ^ 32"
  shows "\<exists>r m'. rt_vsnprintf buf sz (concat (map spell xs)) args m = Some (r, m') \<and>
    (let k = min (length text) (unat sz - 1) in
       map m' [unat buf ..< unat buf + k] = take k text \<and> m' (unat buf + k) = 0) \<and>
    (\<forall>a. \<not> (unat buf \<le> a \<and> a < unat buf + unat sz) \<longrightarrow> m' a = m a) \<and>
    (if length text < unat sz then unat r = length text else unat sz \<le> unat r)"
proof -
  let ?b = "unat buf" and ?n = "unat sz"
  let ?st = "\<lparr>out_str = buf, out_end = word_of_nat (?b + ?n - 1), out_mem = m\<rparr>"
  have n: "0 < ?n" using assms(4) by (simp add: unat_gt_0)
  have e: "buf + sz - 1 = word_of_nat (?b + ?n - 1)" using n by (simp add: of_nat_diff)
  have "unat (word_of_nat (?b + ?n - 1) :: u32) = ?b + ?n - 1" using assms(5) n by (intro unat_nat32) simp
  then have le: "\<not> word_of_nat (?b + ?n - 1) < buf" using n by (simp add: word_less_nat_alt)
  have "shown ?b ?n m [] ?st" by (auto simp: shown_def fun_eq_iff)
  from items_shown [OF n assms(5) assms(1,2,3) this] obtain st u where s: "vsn_loop (concat (map spell xs)) args ?st = Some st" "shown ?b ?n m u st"
    "u = text \<or> ?n \<le> length u \<and> ?n \<le> length text \<and> take ?n u = take ?n text" "length text \<le> length u" "length u \<le> length text + length xs"
    using assms(6) by auto
  have u: "?b + length u < 2 ^ 32" using s(5) assms(6) by simp
  note room = shown_room [OF s(2) n assms(5) u]
  have en: "unat (out_end st) = ?b + ?n - 1" using s(2) unat_nat32 [of "?b + ?n - 1"] n assms(5) by (simp add: shown_def)
  let ?k = "min (length u) (?n - 1)"
  have a: "unat (if out_str st \<le> out_end st then out_str st else out_end st) = ?b + ?k" using room en n by auto
  have r: "unat (out_str st - buf) = length u" using room(2) by (subst unat_sub) (simp_all add: word_le_nat_alt)
  have run: "rt_vsnprintf buf sz (concat (map spell xs)) args m = Some (out_str st - buf, (out_mem st)(?b + ?k := 0))"
    using s(1) le by (simp add: rt_vsnprintf_def e a)
  have k: "?k = min (length text) (?n - 1)" "take ?k u = take ?k text"
  proof -
    have "take (?n - 1) u = take (?n - 1) text" if "take ?n u = take ?n text" using arg_cong [OF that, of "take (?n - 1)"] by simp
    then show "?k = min (length text) (?n - 1)" "take ?k u = take ?k text" using s(3) n by (auto simp: min_def)
  qed
  have m: "(out_mem st) (?b + i) = u ! i" if "i < ?k" for i using s(2) that by (auto simp: shown_def)
  let ?m = "(out_mem st)(?b + ?k := 0)"
  have "map ?m [?b ..< ?b + ?k] = take ?k u" by (rule nth_equalityI) (use m in auto)
  then have 1: "let k = min (length text) (?n - 1) in map ?m [?b ..< ?b + k] = take k text \<and> ?m (?b + k) = 0"
    unfolding k(1) [symmetric] Let_def k(2) by simp
  have 2: "\<forall>a. \<not> (?b \<le> a \<and> a < ?b + ?n) \<longrightarrow> ?m a = m a" using s(2) n by (auto simp: shown_def)
  have 3: "if length text < ?n then unat (out_str st - buf) = length text else ?n \<le> unat (out_str st - buf)" using r s(3,4) by auto
  show ?thesis using run 1 2 3 by blast
qed


text \<open>\<^verbatim>\<open>"%5d|%s"\<close> of -42 and a string, cut to a buffer of 7 bytes.\<close>

definition a_string :: bytes where
  "a_string = (\<lambda>i. if i = 200 then chr CHR ''o'' else if i = 201 then chr CHR ''k'' else 0)"


section \<open>Where the output is not what was asked for\<close>

text \<open>The conversion \<^verbatim>\<open>%o\<close> asks for base 8, which \<^verbatim>\<open>divide\<close> takes for 16: the number is printed in base 16.\<close>

theorem fmt_octal_is_hexadecimal:
  "convert (chr CHR ''o'') q w p fl (a # args) st = convert (chr CHR ''x'') q w p fl (a # args) st"
  by (simp add: convert_def va_arg_def Let_def print_number_text)

text \<open>A size of 0 is taken for no limit at all: the text is written whatever the buffer is.\<close>

theorem vsnprintf_size_zero:
  "map_option (\<lambda>(r, m). (unat r, map m [100..<104])) (rt_vsnprintf 100 0 (map of_char ''abc'') [] (\<lambda>_. 7)) = Some (3, [97, 98, 99, 0])"
  by code_simp

text \<open>With a sign that does not fit the result counts one character too many.\<close>

theorem vsnprintf_result_off:
  "map_option (\<lambda>(r, m). unat r) (rt_vsnprintf 100 20 (map of_char ''%05d'') [- 1] (\<lambda>_. 0)) = Some 5"
  "map_option (\<lambda>(r, m). unat r) (rt_vsnprintf 100 1 (map of_char ''a%05d'') [- 1] (\<lambda>_. 0)) = Some 7"
  by code_simp+

end
