(* ===== verification/Console.thy ===== *)
theory Console
  imports Device FormatProps
begin

text \<open>
  The console of \<^verbatim>\<open>src/kservice.c\<close>: which device it is, and \<^verbatim>\<open>rt_kprintf\<close>, which formats its text in a buffer of
  \<^verbatim>\<open>RT_CONSOLEBUF_SIZE\<close> bytes and sends it to that device, or to the output of the port (an argument) while there is none.
\<close>

unbundle bit_operations_syntax

abbreviation (input) RT_CONSOLEBUF_SIZE :: u32 where "RT_CONSOLEBUF_SIZE \<equiv> 128"

section \<open>The operations\<close>

definition rt_console_get_device :: "'w system \<Rightarrow> nat option" where
  "rt_console_get_device s = console_device s"

text \<open>The container of the devices holds devices only; its objects are named by the number of the device.\<close>

definition rt_console_set_device :: "'w driver_code \<Rightarrow> cstr \<Rightarrow> 'w system \<Rightarrow> (nat option \<times> 'w system) option" where
  "rt_console_set_device C name s =
     do { let old = console_device s;
          (r, s) \<leftarrow> rt_device_find name s;
          (case r of
             Some (ODevice new) \<Rightarrow>
               do { (_, s) \<leftarrow> (case console_device s of Some d \<Rightarrow> rt_device_close C d s | None \<Rightarrow> Some (RT_EOK, s));
                    let s = s\<lparr>console_device := Some new\<rparr>;
                    (_, s) \<leftarrow> rt_device_open C new (RT_DEVICE_OFLAG_RDWR OR RT_DEVICE_FLAG_STREAM) s;
                    Some (old, s) }
           | Some _ \<Rightarrow> None
           | None \<Rightarrow> Some (old, s)) }"

definition rt_kprintf ::
  "'w driver_code \<Rightarrow> (u32 \<Rightarrow> 'w system \<Rightarrow> 'w system option) \<Rightarrow> u32 \<Rightarrow> u8 list \<Rightarrow> u32 list \<Rightarrow> 'w system \<Rightarrow> 'w system option" where
  "rt_kprintf C rt_hw_console_output rt_log_buf fmt args s =
     do { (len, m) \<leftarrow> rt_vsnprintf rt_log_buf (RT_CONSOLEBUF_SIZE - 1) fmt args (sys_mem s);
          let s = s\<lparr>sys_mem := m\<rparr>;
          let len = (if len > RT_CONSOLEBUF_SIZE - 1 then RT_CONSOLEBUF_SIZE - 1 else len);
          (case console_device s of
             None \<Rightarrow> rt_hw_console_output rt_log_buf s
           | Some d \<Rightarrow>
               do { let old_flag = open_flag (devices s d);
                    let s = upd_device d (\<lambda>v. v\<lparr>open_flag := open_flag v OR RT_DEVICE_FLAG_STREAM\<rparr>) s;
                    (_, s) \<leftarrow> rt_device_write C d 0 rt_log_buf len s;
                    Some (upd_device d (\<lambda>v. v\<lparr>open_flag := old_flag\<rparr>) s) }) }"

section \<open>What reaches the console\<close>

text \<open>A driver that keeps the bytes it is given to write.\<close>

definition byte_driver :: "u8 list driver_code" where
  "byte_driver =
     \<lparr>call_init = (\<lambda>f d s. Some (RT_EOK, s)), call_open = (\<lambda>f d oflag s. Some (RT_EOK, s)), call_close = (\<lambda>f d s. Some (RT_EOK, s)),
      call_read = (\<lambda>f d pos buffer sz s. Some (0, s)),
      call_write = (\<lambda>f d pos buffer sz s. Some (sz, s\<lparr>sys_world := sys_world s @ map (sys_mem s) [unat buffer ..< unat buffer + unat sz]\<rparr>)),
      call_control = (\<lambda>f d cmd arg s. Some (RT_EOK, s))\<rparr>"

text \<open>
  What \<^verbatim>\<open>rt_kprintf\<close> sends to an open console device is the text of its format; of a text that does not fit the buffer the first 126
  characters, and then a zero byte.  The flags of the device are as before, and no other memory than the buffer is written.\<close>

theorem rt_kprintf_correct:
  assumes "\<forall>x\<in>set xs. wf_item x" and "items_text (sys_mem s) xs args = Some text" and "strings_apart (unat buf) 127 (sys_mem s) xs args"
    and "unat buf + 128 \<le> 2 ^ 32" and "unat buf + length text + length xs < 2 ^ 32"
    and "console_device s = Some d" and "ref_count (devices s d) \<noteq> 0" and "dev_write (devices s d) = Some f"
  shows "\<exists>s'. rt_kprintf byte_driver out buf (concat (map spell xs)) args s = Some s' \<and>
    sys_world s' = sys_world s @ (if length text \<le> 126 then text else take 126 text @ [0]) \<and> devices s' = devices s \<and>
    (\<forall>a. \<not> (unat buf \<le> a \<and> a < unat buf + 127) \<longrightarrow> sys_mem s' a = sys_mem s a)"
proof -
  have u: "unat (127 :: u32) = 127" and h: "0 < (127 :: u32)" "unat buf + unat (127 :: u32) \<le> 2 ^ 32" using assms(4) by simp_all
  obtain r m where v: "rt_vsnprintf buf 127 (concat (map spell xs)) args (sys_mem s) = Some (r, m)"
    "let k = min (length text) (127 - 1) in map m [unat buf ..< unat buf + k] = take k text \<and> m (unat buf + k) = 0"
    "\<forall>a. \<not> (unat buf \<le> a \<and> a < unat buf + 127) \<longrightarrow> m a = sys_mem s a" "if length text < 127 then unat r = length text else 127 \<le> unat r"
    using rt_vsnprintf_text [OF assms(1,2) _ h assms(5), unfolded u, OF assms(3)] by blast
  let ?len = "if r > 127 then 127 else r"
  have len: "unat ?len = (if length text \<le> 126 then length text else 127)" using v(4) by (auto simp: word_less_nat_alt)
  have b: "map m [unat buf ..< unat buf + unat ?len] = (if length text \<le> 126 then text else take 126 text @ [0])"
  proof (cases "length text \<le> 126")
    case True
    then show ?thesis using v(2) len by (simp add: Let_def)
  next
    case False
    then have "[unat buf ..< unat buf + unat ?len] = [unat buf ..< unat buf + 126] @ [unat buf + 126]" using len upt_Suc_append [of "unat buf" "unat buf + 126"] by (simp add: add.commute)
    then show ?thesis using v(2) False by (simp add: Let_def)
  qed
  have "rt_kprintf byte_driver out buf (concat (map spell xs)) args s =
      Some (s\<lparr>sys_mem := m, sys_world := sys_world s @ map m [unat buf ..< unat buf + unat ?len]\<rparr>)"
    using v(1) assms(6-8) by (simp add: rt_kprintf_def rt_device_write_def upd_device_def byte_driver_def Let_def)
  then show ?thesis using b v(3) by auto
qed

theorem rt_kprintf_correct_witness:
  "\<forall>k. \<exists>s'. rt_kprintf byte_driver (\<lambda>_ _. None) 100 (concat (map spell [Lit (chr CHR ''x''), Conv [] Absent None 0 (chr CHR ''d'')])) [- 42]
      \<lparr>sys_kernel = k, sys_mem = (\<lambda>_. 0), devices = (\<lambda>_. a_device\<lparr>ref_count := 1\<rparr>), console_device = Some 0, sys_world = []\<rparr> = Some s' \<and>
    sys_world s' = map of_char ''x-42''"
proof
  fix k
  let ?xs = "[Lit (chr CHR ''x''), Conv [] Absent None 0 (chr CHR ''d'')]"
  let ?s = "\<lparr>sys_kernel = k, sys_mem = (\<lambda>_. 0), devices = (\<lambda>_. a_device\<lparr>ref_count := 1\<rparr>), console_device = Some 0, sys_world = []\<rparr>"
  have n: "number_text 10 (- 1) (- 1) (flags_of []\<lparr>SIGN := True, LARGE := False\<rparr>) (- 42) = map of_char ''-42''" by code_simp
  have t: "items_text (sys_mem ?s) ?xs [- 42] = Some (map of_char ''x-42'')" using n by (simp add: conv_text_def int_text_def Let_def)
  have a: "strings_apart (unat (100 :: u32)) 127 (sys_mem ?s) ?xs [- 42]" by (simp split: option.split)
  have w: "\<forall>x\<in>set ?xs. wf_item x" by simp
  from rt_kprintf_correct [OF w t a, of 0 5 "\<lambda>_ _. None"]
  show "\<exists>s'. rt_kprintf byte_driver (\<lambda>_ _. None) 100 (concat (map spell ?xs)) [- 42] ?s = Some s' \<and> sys_world s' = map of_char ''x-42''"
    by (auto simp: a_device_def simp del: spell.simps)
qed

end
