(* ===== verification/DfsPath.thy ===== *)
theory DfsPath
  imports KService
begin

text \<open>
  Path names of the device file system, \<^verbatim>\<open>components/dfs/src/dfs.c\<close>: the loop of \<^verbatim>\<open>dfs_normalize_path\<close>, which works in place on a
  buffer, and \<^verbatim>\<open>dfs_subdir\<close>.  The loop is compared with the meaning of a path as a sequence of names.
\<close>

abbreviation (input) SEP :: u8 where "SEP \<equiv> 0x2f"
abbreviation (input) DOT :: u8 where "DOT \<equiv> 0x2e"

section \<open>The loop\<close>

text \<open>The buffer is the list of its bytes; a pointer into it is an index.  An access outside the buffer has no result.\<close>

definition rd :: "u8 list \<Rightarrow> nat \<Rightarrow> u8 option" where
  "rd b i = (if i < length b then Some (b ! i) else None)"

definition wr :: "u8 list \<Rightarrow> nat \<Rightarrow> u8 \<Rightarrow> u8 list option" where
  "wr b i c = (if i < length b then Some (b[i := c]) else None)"

partial_function (option) skip_sep :: "u8 list \<Rightarrow> nat \<Rightarrow> nat option" where
  "skip_sep b src = do { c \<leftarrow> rd b src; if c = SEP then skip_sep b (src + 1) else Some src }"

partial_function (option) copy_name :: "u8 list \<Rightarrow> nat \<Rightarrow> nat \<Rightarrow> (u8 \<times> u8 list \<times> nat \<times> nat) option" where
  "copy_name b src dst =
     do { c \<leftarrow> rd b src;
          if c \<noteq> 0 \<and> c \<noteq> SEP then do { b \<leftarrow> wr b dst c; copy_name b (src + 1) (dst + 1) }
          else Some (c, b, src + 1, dst) }"

text \<open>What a name that begins with a dot is.\<close>

datatype dots = Dot_end | Dot_sep | Up_end | Up_sep | Name

definition look_dots :: "u8 list \<Rightarrow> nat \<Rightarrow> dots option" where
  "look_dots b src =
     do { c \<leftarrow> rd b src;
          if c \<noteq> DOT then Some Name
          else do {
            c \<leftarrow> rd b (src + 1);
            if c = 0 then Some Dot_end
            else if c = SEP then Some Dot_sep
            else if c = DOT then
              do { c \<leftarrow> rd b (src + 2); Some (if c = 0 then Up_end else if c = SEP then Up_sep else Name) }
            else Some Name } }"

text \<open>\<^verbatim>\<open>while (dst0 < dst && dst[-1] != '/') dst --;\<close>\<close>

fun back_name :: "u8 list \<Rightarrow> nat \<Rightarrow> nat option" where
  "back_name b 0 = Some 0"
| "back_name b (Suc i) = do { c \<leftarrow> rd b i; if c \<noteq> SEP then back_name b i else Some (Suc i) }"

text \<open>The label \<^verbatim>\<open>up_one\<close>; \<open>None\<close> inside when the pointer leaves the buffer and the function returns \<^verbatim>\<open>RT_NULL\<close>.\<close>

definition up_one :: "u8 list \<Rightarrow> nat \<Rightarrow> nat option option" where
  "up_one b dst = (if dst = 0 then Some None else do { dst \<leftarrow> back_name b (dst - 1); Some (Some dst) })"

partial_function (option) norm_loop :: "u8 list \<Rightarrow> nat \<Rightarrow> nat \<Rightarrow> (u8 list \<times> nat) option option" where
  "norm_loop b src dst =
     do { k \<leftarrow> look_dots b src;
          if k = Dot_sep then do { src \<leftarrow> skip_sep b (src + 2); norm_loop b src dst }
          else if k = Up_end \<or> k = Up_sep then
            do { src \<leftarrow> (if k = Up_end then Some (src + 2) else skip_sep b (src + 3));
                 r \<leftarrow> up_one b dst;
                 (case r of None \<Rightarrow> Some None | Some dst \<Rightarrow> norm_loop b src dst) }
          else
            do { let src = (if k = Dot_end then src + 1 else src);
                 (c, b, src, dst) \<leftarrow> copy_name b src dst;
                 if c = SEP then do { b \<leftarrow> wr b dst SEP; src \<leftarrow> skip_sep b src; norm_loop b src (dst + 1) }
                 else Some (Some (b, dst)) } }"

declare skip_sep.simps [code] copy_name.simps [code] norm_loop.simps [code]

text \<open>The end of the string and of \<^verbatim>\<open>dfs_normalize_path\<close>: with \<open>dst\<close> at the begin of the buffer the byte before it is read.\<close>

definition norm_end :: "u8 list \<Rightarrow> nat \<Rightarrow> u8 list option" where
  "norm_end b dst =
     do { b \<leftarrow> wr b dst 0;
          valid_access (dst \<noteq> 0);
          let dst = dst - 1;
          if dst = 0 then Some b
          else do { c \<leftarrow> rd b dst; if c = SEP then wr b dst 0 else Some b } }"

definition c_text :: "u8 list \<Rightarrow> u8 list" where
  "c_text b = takeWhile (\<lambda>c. c \<noteq> 0) b"

text \<open>The path in the buffer of a string, after the loop; \<open>None\<close> inside for \<^verbatim>\<open>RT_NULL\<close>.\<close>

definition norm_path :: "u8 list \<Rightarrow> u8 list option option" where
  "norm_path s =
     do { r \<leftarrow> norm_loop (s @ [0]) 0 0;
          (case r of None \<Rightarrow> Some None | Some (b, dst) \<Rightarrow> do { b \<leftarrow> norm_end b dst; Some (Some (c_text b)) }) }"

definition dfs_subdir :: "u8 list \<Rightarrow> u8 list \<Rightarrow> u8 list option option" where
  "dfs_subdir directory filename =
     (if length directory = length filename then Some None
      else do {
        valid_access (length directory \<le> length filename);
        let dir = length directory;
        let dir = (if (filename @ [0]) ! dir \<noteq> SEP \<and> dir \<noteq> 0 then dir - 1 else dir);
        Some (Some (drop dir filename)) })"

section \<open>The meaning of a path\<close>

fun split_path :: "u8 list \<Rightarrow> u8 list list" where
  "split_path [] = [[]]"
| "split_path (c # s) = (if c = SEP then [] # split_path s else (c # hd (split_path s)) # tl (split_path s))"

definition path_names :: "u8 list \<Rightarrow> u8 list list" where
  "path_names s = filter (\<lambda>w. w \<noteq> []) (split_path s)"

text \<open>
  The names are followed one after the other.  The flag says whether there is a root: going up from it loses the leading separator, and going up
  from the empty path fails.
\<close>

fun resolve :: "bool \<times> u8 list list \<Rightarrow> u8 list list \<Rightarrow> (bool \<times> u8 list list) option" where
  "resolve p [] = Some p"
| "resolve (r, ws) (w # names) =
     (if w = [DOT] then resolve (r, ws) names
      else if w = [DOT, DOT] then
        (if ws \<noteq> [] then resolve (r, butlast ws) names else if r then resolve (False, []) names else None)
      else resolve (r, ws @ [w]) names)"

definition with_seps :: "bool \<times> u8 list list \<Rightarrow> u8 list" where
  "with_seps p = (if fst p then [SEP] else []) @ concat (map (\<lambda>w. w @ [SEP]) (snd p))"

definition path_text :: "bool \<times> u8 list list \<Rightarrow> u8 list" where
  "path_text p =
     (if snd p = [] then (if fst p then [SEP] else []) else with_seps (fst p, butlast (snd p)) @ last (snd p))"

section \<open>The steps of the loop\<close>

lemma rd_drop: "drop src b = c # t \<Longrightarrow> rd b src = Some c \<and> drop (src + 1) b = t"
  by (metis Suc_eq_plus1 drop_eq_Nil2 leI list.distinct(1) list.inject rd_def Cons_nth_drop_Suc)

lemma drop_shift: "drop src b = w @ t \<Longrightarrow> drop (src + length w) b = t"
  by (metis add.commute append_eq_conv_conj drop_drop)

lemma rd_drop_Suc: "drop src b = c # d # t \<Longrightarrow> rd b (Suc src) = Some d"
  using rd_drop [of src b c "d # t"] rd_drop [of "src + 1" b d t] by simp

lemma rd_drop_2: "drop src b = c # d # e # t \<Longrightarrow> rd b (Suc (Suc src)) = Some e"
  using rd_drop [of src b c "d # e # t"] rd_drop_Suc [of "src + 1" b d e t] by simp

lemma skip_sep_drop:
  "drop src b = replicate n SEP @ c # t \<Longrightarrow> c \<noteq> SEP \<Longrightarrow> skip_sep b src = Some (src + n)"
proof (induction n arbitrary: src)
  case 0
  then show ?case using rd_drop [of src b c t] by (simp add: skip_sep.simps [of b src])
next
  case (Suc n)
  then show ?case using rd_drop [of src b SEP "replicate n SEP @ c # t"] by (simp add: skip_sep.simps [of b src])
qed

lemma copy_name_drop:
  "\<lbrakk>drop src b = w @ c # t; SEP \<notin> set w; 0 \<notin> set w; c = 0 \<or> c = SEP; dst \<le> src\<rbrakk> \<Longrightarrow>
   \<exists>b'. copy_name b src dst = Some (c, b', src + length w + 1, dst + length w) \<and> length b' = length b \<and>
     take (dst + length w) b' = take dst b @ w \<and> drop (src + length w + 1) b' = t"
proof (induction w arbitrary: src dst b)
  case Nil
  then show ?case using rd_drop [of src b c t] by (auto simp: copy_name.simps [of b src])
next
  case (Cons x w)
  from Cons.prems rd_drop [of src b x "w @ c # t"] have r: "rd b src = Some x" and d: "drop (Suc src) b = w @ c # t"
    and l: "src < length b" by (auto simp: not_le rd_def split: if_splits)
  let ?b = "b[dst := x]"
  have w: "wr b dst x = Some ?b" using l Cons.prems(5) by (simp add: wr_def)
  have "drop (Suc src) ?b = w @ c # t" using d Cons.prems(5) by simp
  then obtain b' where b': "copy_name ?b (Suc src) (Suc dst) = Some (c, b', Suc src + length w + 1, Suc dst + length w)"
    "length b' = length b" "take (Suc dst + length w) b' = take (Suc dst) ?b @ w" "drop (Suc src + length w + 1) b' = t"
    using Cons.IH [of "Suc src" ?b "Suc dst"] Cons.prems by auto
  have "take (Suc dst) ?b = take dst b @ [x]" using l Cons.prems(5) by (simp add: take_Suc_conv_app_nth)
  then show ?case using b' r w Cons.prems by (simp add: copy_name.simps [of b src])
qed

lemma take_snoc_nth: "take (Suc (length p)) b = p @ [x] \<Longrightarrow> b ! length p = x"
  by (metis lessI nth_append_length nth_take)

lemma back_name_take:
  "\<lbrakk>take (length pre + length w) b = pre @ w; length pre + length w \<le> length b; SEP \<notin> set w; pre = [] \<or> last pre = SEP\<rbrakk> \<Longrightarrow>
   back_name b (length pre + length w) = Some (length pre)"
proof (induction w rule: rev_induct)
  case Nil
  show ?case
  proof (cases pre rule: rev_cases)
    case (snoc p x)
    then have "rd b (length p) = Some SEP" using Nil take_snoc_nth [of p b SEP] by (simp add: rd_def)
    then show ?thesis using snoc by simp
  qed simp
next
  case (snoc x w)
  let ?n = "length pre + length w"
  have "take ?n (take (Suc ?n) b) = pre @ w" using snoc.prems(1) by simp
  then have t: "take ?n b = pre @ w" by (simp add: min_def)
  have "rd b ?n = Some x" using snoc.prems(1,2) take_snoc_nth [of "pre @ w" b x] by (simp add: rd_def)
  then show ?case using snoc t by simp
qed

lemma look_dots_drop:
  assumes "drop src b = w @ c # t" and "SEP \<notin> set w" and "0 \<notin> set w" and "c = 0 \<or> c = SEP"
  shows "look_dots b src = Some (if w = [DOT] then (if c = 0 then Dot_end else Dot_sep)
     else if w = [DOT, DOT] then (if c = 0 then Up_end else Up_sep) else Name)"
proof -
  consider "w = []" | x where "w = [x]" | x y where "w = [x, y]" | x y z v where "w = x # y # z # v"
    by (metis list.exhaust)
  then show ?thesis
    using assms rd_drop [of src b] rd_drop_Suc [of src b] rd_drop_2 [of src b]
    by cases (auto simp: look_dots_def)
qed

section \<open>Names and separators\<close>

lemma split_path_append: "split_path (w @ SEP # s) = split_path w @ split_path s"
proof (induction w)
  case (Cons c w)
  have "split_path w \<noteq> []" by (cases w) auto
  then show ?case using Cons by simp
qed simp

lemma split_path_word: "SEP \<notin> set w \<Longrightarrow> split_path w = [w]"
  by (induction w) auto

lemma path_names_simps [simp]:
  "path_names [] = []"
  "path_names (SEP # s) = path_names s"
  "path_names (replicate n SEP @ s) = path_names s"
  "SEP \<notin> set w \<Longrightarrow> path_names w = (if w = [] then [] else [w])"
  "SEP \<notin> set w \<Longrightarrow> path_names (w @ SEP # s) = (if w = [] then [] else [w]) @ path_names s"
proof -
  show 1: "path_names (SEP # s) = path_names s" for s by (simp add: path_names_def)
  show "path_names (replicate n SEP @ s) = path_names s" by (induction n) (simp_all add: 1)
qed (auto simp: path_names_def split_path_word split_path_append)

lemma path_cases:
  obtains (word) "SEP \<notin> set s"
  | (sep) w n r where "s = w @ SEP # replicate n SEP @ r" "SEP \<notin> set w" "r = [] \<or> hd r \<noteq> SEP"
proof (cases "SEP \<in> set s")
  case True
  then obtain w u where s: "s = w @ SEP # u" "SEP \<notin> set w" by (meson split_list_first)
  let ?n = "length (takeWhile (\<lambda>c. c = SEP) u)"
  have "takeWhile (\<lambda>c. c = SEP) u = replicate ?n SEP" by (rule replicate_eqI) (auto dest: set_takeWhileD)
  then have "u = replicate ?n SEP @ dropWhile (\<lambda>c. c = SEP) u" by (metis takeWhile_dropWhile_id)
  then have "s = w @ SEP # replicate ?n SEP @ dropWhile (\<lambda>c. c = SEP) u" using s(1) by simp
  moreover have "dropWhile (\<lambda>c. c = SEP) u = [] \<or> hd (dropWhile (\<lambda>c. c = SEP) u) \<noteq> SEP" by (meson hd_dropWhile)
  ultimately show ?thesis using s(2) sep by blast
qed (rule word)

definition name_ok :: "u8 list \<Rightarrow> bool" where
  "name_ok w \<longleftrightarrow> w \<noteq> [] \<and> SEP \<notin> set w \<and> 0 \<notin> set w"

definition norm_inv :: "u8 list \<Rightarrow> nat \<Rightarrow> nat \<Rightarrow> bool \<times> u8 list list \<Rightarrow> u8 list \<Rightarrow> bool" where
  "norm_inv b src dst p rest \<longleftrightarrow>
     drop src b = rest @ [0] \<and> take dst b = with_seps p \<and> dst = length (with_seps p) \<and> dst \<le> src \<and> 0 \<notin> set rest \<and>
     (\<forall>w \<in> set (snd p). name_ok w)"

definition norm_out :: "bool \<times> u8 list list \<Rightarrow> u8 list \<Rightarrow> nat \<Rightarrow> bool" where
  "norm_out p b dst \<longleftrightarrow>
     dst < length b \<and> (\<forall>w \<in> set (snd p). name_ok w) \<and> (take dst b = with_seps p \<or> snd p \<noteq> [] \<and> take dst b = path_text p)"

lemma with_seps_simps [simp]:
  "with_seps (r, []) = (if r then [SEP] else [])" "with_seps (r, ws @ [w]) = with_seps (r, ws) @ w @ [SEP]"
  "path_text (r, ws @ [w]) = with_seps (r, ws) @ w"
  by (simp_all add: with_seps_def path_text_def)

lemma with_seps_last: "with_seps p = [] \<or> last (with_seps p) = SEP"
  by (cases p; cases "snd p" rule: rev_cases) auto

lemma take_prefix: "take n b = p @ us \<Longrightarrow> take (length p) b = p"
  by (metis append_eq_conv_conj append_take_drop_id append_assoc)

lemma up_one_take:
  assumes "take dst b = with_seps (r, ws)" and "dst = length (with_seps (r, ws))" and "dst \<le> length b" and "\<forall>w \<in> set ws. name_ok w"
  shows "up_one b dst = Some (if ws \<noteq> [] then Some (length (with_seps (r, butlast ws))) else if r then Some 0 else None)"
proof (cases ws rule: rev_cases)
  case Nil
  then show ?thesis using assms by (auto simp: up_one_def)
next
  case (snoc us w)
  let ?p = "with_seps (r, us)"
  have d: "dst = Suc (length ?p + length w)" using assms(2) snoc by simp
  have t: "take (length ?p + length w) b = ?p @ w" using assms(1) snoc take_prefix [of dst b "?p @ w" "[SEP]"] by simp
  have "back_name b (length ?p + length w) = Some (length ?p)"
    using back_name_take [OF t _ _ with_seps_last] assms(3,4) d snoc by (simp add: name_ok_def)
  then show ?thesis using d snoc by (simp add: up_one_def)
qed

lemma up_step:
  assumes "norm_inv b src dst (r, ws) rest" and "drop src' b = rest' @ [0]" and "0 \<notin> set rest'" and "dst \<le> src'"
    and "p = (if ws \<noteq> [] then (r, butlast ws) else (False, []))"
  shows "norm_inv b src' (length (with_seps p)) p rest'"
proof -
  obtain us where "with_seps (r, ws) = with_seps p @ us"
    using assms(5) by (cases ws rule: rev_cases) auto
  then have "length (with_seps p) \<le> dst" "take (length (with_seps p)) b = with_seps p"
    using assms(1) take_prefix [of dst b "with_seps p" us] by (auto simp: norm_inv_def)
  moreover have "\<forall>w \<in> set (snd p). name_ok w" using assms(1,5) by (auto simp: norm_inv_def dest: in_set_butlastD)
  ultimately show ?thesis using assms \<open>length (with_seps p) \<le> dst\<close> by (simp add: norm_inv_def)
qed

text \<open>A name is copied to the end of what is kept.\<close>

lemma copy_step:
  assumes "norm_inv b src dst (r, ws) rest" and "rest @ [0] = w @ c # t" and "name_ok w" and "c = 0 \<or> c = SEP"
  shows "\<exists>b'. copy_name b src dst = Some (c, b', src + length w + 1, dst + length w) \<and> length b' = length b \<and>
    take (dst + length w) b' = with_seps (r, ws) @ w \<and> drop (src + length w + 1) b' = t \<and> src + length w < length b"
proof -
  have d: "drop src b = w @ c # t" using assms(1,2) by (simp add: norm_inv_def)
  then have "src + length w < length b" by (metis drop_eq_Nil2 drop_shift list.distinct(1) not_le)
  then show ?thesis using copy_name_drop [OF d _ _ assms(4)] assms(1,3) by (fastforce simp: norm_inv_def name_ok_def)
qed

lemma skip_rest:
  "drop src b = replicate n SEP @ r @ [0] \<Longrightarrow> r = [] \<or> hd r \<noteq> SEP \<Longrightarrow>
   skip_sep b src = Some (src + n) \<and> drop (src + n) b = r @ [0]"
  using skip_sep_drop [of src b n "hd (r @ [0])" "tl (r @ [0])"] drop_shift [of src b "replicate n SEP" "r @ [0]"]
  by (cases r) auto

fun norm_result :: "(bool \<times> u8 list list) option \<Rightarrow> (u8 list \<times> nat) option option \<Rightarrow> bool" where
  "norm_result None x \<longleftrightarrow> x = Some None"
| "norm_result (Some p) x \<longleftrightarrow> (\<exists>b dst. x = Some (Some (b, dst)) \<and> norm_out p b dst)"

text \<open>The steps of the loop: what it does with the next name, by the name and whether a separator follows.\<close>

lemma norm_inv_dst: "norm_inv b src dst p rest \<Longrightarrow> dst < length b"
  by (auto simp: norm_inv_def intro: le_less_trans) (metis drop_eq_Nil2 le_less_trans not_le snoc_eq_iff_butlast)

abbreviation (input) upper :: "bool \<Rightarrow> u8 list list \<Rightarrow> bool \<times> u8 list list" where
  "upper r ws \<equiv> if ws \<noteq> [] then (r, butlast ws) else (False, [])"

lemma up_one_inv:
  "norm_inv b src dst (r, ws) rest \<Longrightarrow> up_one b dst = Some (if ws \<noteq> [] \<or> r then Some (length (with_seps (upper r ws))) else None)"
  using up_one_take [of dst b r ws] norm_inv_dst [of b src dst "(r, ws)" rest] by (auto simp: norm_inv_def)

lemma last_dots:
  assumes "norm_inv b src dst p rest" and "SEP \<notin> set rest"
  shows "look_dots b src = Some (if rest = [DOT] then Dot_end else if rest = [DOT, DOT] then Up_end else Name)"
  using look_dots_drop [of src b rest 0 "[]"] assms by (auto simp: norm_inv_def)

lemma last_nothing:
  assumes inv: "norm_inv b src dst p rest" and rest: "rest = [] \<or> rest = [DOT]"
  shows "norm_result (Some p) (norm_loop b src dst)"
proof -
  have "drop (src + length rest) b = [0]" using drop_shift [of src b rest "[0]"] inv by (simp add: norm_inv_def)
  then have "copy_name b (src + length rest) dst = Some (0, b, src + length rest + 1, dst)"
    using rd_drop [of "src + length rest" b 0 "[]"] by (simp add: copy_name.simps [of b "src + length rest"])
  moreover have "norm_out p b dst" using inv norm_inv_dst [OF inv] by (auto simp: norm_inv_def norm_out_def)
  ultimately show ?thesis using rest last_dots [OF inv] by (auto simp: norm_loop.simps [of b src])
qed

lemma last_up:
  assumes inv: "norm_inv b src dst (r, ws) [DOT, DOT]"
  shows "norm_result (resolve (r, ws) [[DOT, DOT]]) (norm_loop b src dst)"
proof -
  have "dst \<le> src" using inv by (simp add: norm_inv_def)
  moreover have "drop (src + 2) b = [] @ [0]" using drop_shift [of src b "[DOT, DOT]" "[0]"] inv by (simp add: norm_inv_def)
  ultimately have "norm_inv b (src + 2) (length (with_seps (upper r ws))) (upper r ws) []"
    using up_step [OF inv _ _ _ refl, of "src + 2" "[]"] by simp
  then show ?thesis using last_nothing [of b "src + 2" _ "upper r ws" "[]"] last_dots [OF inv] up_one_inv [OF inv]
    by (auto simp: norm_loop.simps [of b src] split: if_splits)
qed

lemma last_name:
  assumes inv: "norm_inv b src dst (r, ws) rest" and "rest \<noteq> [DOT]" "rest \<noteq> [DOT, DOT]" "name_ok rest"
  shows "norm_result (Some (r, ws @ [rest])) (norm_loop b src dst)"
proof -
  obtain b' where "copy_name b src dst = Some (0, b', src + length rest + 1, dst + length rest)" "length b' = length b"
    "take (dst + length rest) b' = with_seps (r, ws) @ rest" "src + length rest < length b"
    using copy_step [OF inv, of rest 0 "[]"] assms(4) by auto
  moreover have "norm_out (r, ws @ [rest]) b' (dst + length rest)"
    using calculation assms(4) inv by (auto simp: norm_out_def norm_inv_def)
  ultimately show ?thesis using assms last_dots [OF inv] by (auto simp: norm_loop.simps [of b src] name_ok_def)
qed

lemma norm_loop_last:
  assumes inv: "norm_inv b src dst p rest" and "SEP \<notin> set rest"
  shows "norm_result (resolve p (path_names rest)) (norm_loop b src dst)"
proof -
  obtain r ws where p: "p = (r, ws)" by fastforce
  consider "rest = [] \<or> rest = [DOT]" | "rest = [DOT, DOT]" | "rest \<noteq> [DOT]" "rest \<noteq> [DOT, DOT]" "name_ok rest"
    using assms by (auto simp: name_ok_def norm_inv_def)
  then show ?thesis
  proof cases
    case 1
    then show ?thesis using last_nothing [OF inv] p by auto
  next
    case 2
    then show ?thesis using last_up inv p by auto
  next
    case 3
    then show ?thesis using last_name [of b src dst r ws rest] inv assms(2) p by (auto simp: name_ok_def)
  qed
qed

lemma sep_dots:
  assumes "norm_inv b src dst p rest" and "rest = w @ SEP # replicate n SEP @ s" and "name_ok w"
  shows "look_dots b src = Some (if w = [DOT] then Dot_sep else if w = [DOT, DOT] then Up_sep else Name)"
    "drop (src + length w + 1) b = replicate n SEP @ s @ [0]"
  using look_dots_drop [of src b w SEP "replicate n SEP @ s @ [0]"] drop_shift [of src b "w @ [SEP]"] assms by (auto simp: norm_inv_def name_ok_def)

lemma sep_dot:
  assumes inv: "norm_inv b src dst p rest" and rest: "rest = [DOT] @ SEP # replicate n SEP @ s" and s: "s = [] \<or> hd s \<noteq> SEP"
  shows "\<exists>src'. norm_loop b src dst = norm_loop b src' dst \<and> norm_inv b src' dst p s"
proof -
  have w: "name_ok [DOT]" by (simp add: name_ok_def)
  note d = sep_dots [OF inv rest w]
  note sk = skip_rest [OF d(2) s]
  have "norm_inv b (Suc (Suc (src + n))) dst p s" using sk inv rest by (auto simp: norm_inv_def)
  moreover have "norm_loop b src dst = norm_loop b (Suc (Suc (src + n))) dst" using d sk by (simp add: norm_loop.simps [of b src])
  ultimately show ?thesis by blast
qed

lemma sep_up:
  assumes inv: "norm_inv b src dst (r, ws) rest" and rest: "rest = [DOT, DOT] @ SEP # replicate n SEP @ s" and s: "s = [] \<or> hd s \<noteq> SEP"
  shows "(if ws \<noteq> [] \<or> r then \<exists>src' dst'. norm_loop b src dst = norm_loop b src' dst' \<and> norm_inv b src' dst' (upper r ws) s
    else norm_loop b src dst = Some None)"
proof -
  have w: "name_ok [DOT, DOT]" by (simp add: name_ok_def)
  note d = sep_dots [OF inv rest w]
  note sk = skip_rest [OF d(2) s]
  have "0 \<notin> set s" "dst \<le> src" using inv rest by (simp_all add: norm_inv_def)
  then have "norm_inv b (Suc (Suc (Suc (src + n)))) (length (with_seps (upper r ws))) (upper r ws) s"
    using up_step [OF inv _ _ _ refl, of "Suc (Suc (Suc (src + n)))" s] sk by (simp add: eval_nat_numeral)
  then show ?thesis using d sk up_one_inv [OF inv]
    by (auto simp: norm_loop.simps [of b src] eval_nat_numeral split: if_splits)
qed

lemma sep_name:
  assumes inv: "norm_inv b src dst (r, ws) rest" and rest: "rest = w @ SEP # replicate n SEP @ s" and s: "s = [] \<or> hd s \<noteq> SEP"
    and w: "name_ok w" "w \<noteq> [DOT]" "w \<noteq> [DOT, DOT]"
  shows "\<exists>b' src' dst'. norm_loop b src dst = norm_loop b' src' dst' \<and> norm_inv b' src' dst' (r, ws @ [w]) s"
proof -
  note d = sep_dots [OF inv rest w(1)]
  have "rest @ [0] = w @ SEP # replicate n SEP @ s @ [0]" using rest by simp
  from copy_step [OF inv this w(1)] obtain b' where b': "copy_name b src dst = Some (SEP, b', src + length w + 1, dst + length w)" "length b' = length b"
    "take (dst + length w) b' = with_seps (r, ws) @ w" "drop (src + length w + 1) b' = replicate n SEP @ s @ [0]" "src + length w < length b" by auto
  let ?b = "b'[dst + length w := SEP]"
  have dw: "dst + length w < length b'" using b' inv by (simp add: norm_inv_def)
  have "drop (src + length w + 1) ?b = replicate n SEP @ s @ [0]" using b' inv by (simp add: norm_inv_def)
  note sk' = skip_rest [OF this s]
  have "take (dst + length w + 1) ?b = with_seps (r, ws @ [w])" using b' dw by (simp add: take_Suc_conv_app_nth)
  moreover have "0 \<notin> set s" using inv rest by (simp add: norm_inv_def)
  ultimately have "norm_inv ?b (src + length w + 1 + n) (dst + length w + 1) (r, ws @ [w]) s"
    using sk' inv w(1) by (simp add: norm_inv_def)
  moreover have "norm_loop b src dst = norm_loop ?b (src + length w + 1 + n) (dst + length w + 1)"
    using d sk' b' dw w by (simp add: norm_loop.simps [of b src] wr_def)
  ultimately show ?thesis by blast
qed

lemma norm_loop_inv:
  "norm_inv b src dst p rest \<Longrightarrow> rest = [] \<or> hd rest \<noteq> SEP \<Longrightarrow> norm_result (resolve p (path_names rest)) (norm_loop b src dst)"
proof (induction rest arbitrary: b src dst p rule: length_induct)
  case (1 rest)
  obtain r ws where p: "p = (r, ws)" by fastforce
  note inv = "1.prems"(1) [unfolded p]
  show ?case
  proof (cases rest rule: path_cases)
    case word
    then show ?thesis using norm_loop_last "1.prems"(1) by blast
  next
    case (sep w n s)
    then have w: "w \<noteq> []" "name_ok w" and ls: "length s < length rest" using "1.prems" by (auto simp: norm_inv_def name_ok_def)
    have pn: "path_names rest = w # path_names s" using sep w by simp
    note IH = "1.IH" [rule_format, OF ls _ sep(3)]
    consider "w = [DOT]" | "w = [DOT, DOT]" | "w \<noteq> [DOT]" "w \<noteq> [DOT, DOT]" by blast
    then show ?thesis
    proof cases
      case 1
      then show ?thesis using sep_dot [of b src dst p rest n s] sep inv p pn IH by fastforce
    next
      case 2
      then show ?thesis using sep_up [OF inv, of n s] sep p pn IH by (fastforce split: if_splits)
    next
      case 3
      then show ?thesis using sep_name [OF inv sep(1) sep(3) w(2)] p pn IH by fastforce
    qed
  qed
qed

section \<open>The path that is built\<close>

definition resolve_path :: "u8 list \<Rightarrow> (bool \<times> u8 list list) option" where
  "resolve_path s = resolve (s \<noteq> [] \<and> hd s = SEP, []) (path_names s)"

lemma norm_loop_start:
  assumes "0 \<notin> set s"
  shows "norm_result (resolve_path s) (norm_loop (s @ [0]) 0 0)"
proof (cases "s = [] \<or> hd s \<noteq> SEP")
  case True
  have "norm_inv (s @ [0]) 0 0 (False, []) s" using assms by (simp add: norm_inv_def)
  then show ?thesis using norm_loop_inv [of "s @ [0]" 0 0 "(False, [])" s] True by (auto simp: resolve_path_def)
next
  case False
  then obtain n r where s: "s = SEP # replicate n SEP @ r" "r = [] \<or> hd r \<noteq> SEP"
    by (cases s rule: path_cases) (auto simp: hd_append split: if_splits dest: hd_in_set)
  let ?b = "s @ [0]"
  have "rd ?b 0 = Some SEP" using False by (cases s) (auto simp: rd_def)
  then have c: "look_dots ?b 0 = Some Name" "copy_name ?b 0 0 = Some (SEP, ?b, 1, 0)"
    by (simp_all add: look_dots_def copy_name.simps [of ?b 0])
  have d: "drop 1 ?b = replicate n SEP @ r @ [0]" using s by simp
  note sk = skip_rest [OF d s(2)]
  have "norm_inv ?b (1 + n) 1 (True, []) r" using sk assms s by (auto simp: norm_inv_def)
  moreover have "wr ?b 0 SEP = Some ?b" using s by (simp add: wr_def)
  then have "norm_loop ?b 0 0 = norm_loop ?b (1 + n) 1" using c sk by (simp add: norm_loop.simps [of ?b 0 0])
  moreover have "resolve_path s = resolve (True, []) (path_names r)" using s by (simp add: resolve_path_def)
  ultimately show ?thesis using norm_loop_inv [OF _ s(2)] by simp
qed

lemma path_text_no0: "\<forall>w \<in> set (snd p). name_ok w \<Longrightarrow> 0 \<notin> set (with_seps p) \<and> 0 \<notin> set (path_text p)"
  by (cases p; cases "snd p" rule: rev_cases) (auto simp: with_seps_def name_ok_def path_text_def)

lemma c_text_take: "0 \<notin> set (take n b) \<Longrightarrow> n < length b \<Longrightarrow> b ! n = 0 \<Longrightarrow> c_text b = take n b"
  unfolding c_text_def by (rule takeWhile_eq_take_P_nth) (auto simp: in_set_conv_nth)

lemma norm_end_out:
  assumes "norm_out p b dst"
  shows "do { b \<leftarrow> norm_end b dst; Some (c_text b) } = (if p = (False, []) then None else Some (path_text p))"
proof -
  obtain r ws where p: "p = (r, ws)" by fastforce
  have l: "dst < length b" "length (take dst b) = dst" using assms by (auto simp: norm_out_def)
  note no0 = path_text_no0 [of p]
  let ?b = "b[dst := 0]"
  have t: "take dst ?b = take dst b" by simp
  have full: "c_text ?b = take dst b" using c_text_take [of dst ?b] assms no0 l by (auto simp: norm_out_def)
  have cut: "c_text (?b[dst - 1 := 0]) = butlast (take dst b)" if "dst \<noteq> 0"
  proof -
    have "0 \<notin> set (take dst b)" using assms no0 by (auto simp: norm_out_def)
    then have "0 \<notin> set (take (dst - 1) b)" using set_take_subset_set_take [of "dst - 1" dst b] by auto
    then show ?thesis using c_text_take [of "dst - 1" "?b[dst - 1 := 0]"] l that by (simp add: butlast_conv_take min_def)
  qed
  show ?thesis
  proof (cases ws rule: rev_cases)
    case Nil
    then show ?thesis using assms p full l by (auto simp: norm_out_def norm_end_def wr_def path_text_def)
  next
    case (snoc us w)
    have w: "w \<noteq> []" "SEP \<notin> set w" using assms p snoc by (auto simp: norm_out_def name_ok_def)
    have d: "dst \<noteq> 0" using assms p snoc l(2) w by (intro notI) (auto simp: norm_out_def)
    have "take dst b \<noteq> []" using d l by auto
    then have n: "?b ! (dst - 1) = last (take dst b)" using d l(1) by (simp add: last_conv_nth)
    consider "take dst b = with_seps (r, us) @ w @ [SEP]" | "take dst b = with_seps (r, us) @ w" using assms p snoc by (auto simp: norm_out_def)
    then show ?thesis
    proof cases
      case 1
      then have "2 \<le> dst" using w l(2) by (cases w) auto
      then show ?thesis using 1 n cut d l p snoc by (simp add: norm_end_def wr_def rd_def butlast_append Let_def)
    next
      case 2
      then have "last (take dst b) \<noteq> SEP" using w last_in_set [of w] by (metis last_appendR)
      then show ?thesis using 2 n full d l p snoc by (auto simp: norm_end_def wr_def rd_def Let_def)
    qed
  qed
qed

lemma norm_path_correct:
  assumes "0 \<notin> set s"
  shows "norm_path s = (case resolve_path s of
      None \<Rightarrow> Some None | Some p \<Rightarrow> if p = (False, []) then None else Some (Some (path_text p)))"
proof (cases "resolve_path s")
  case (Some p)
  then obtain b dst where b: "norm_loop (s @ [0]) 0 0 = Some (Some (b, dst))" "norm_out p b dst"
    using norm_loop_start [OF assms] by auto
  then show ?thesis using norm_end_out [OF b(2)] Some
    by (cases "norm_end b dst") (auto simp: norm_path_def split: if_splits)
qed (use norm_loop_start [OF assms] in \<open>simp add: norm_path_def\<close>)

text \<open>The names of the result are names of the path that are not dots, and a result that is a path from the root is its own normal form.\<close>

lemma path_names_ok: "0 \<notin> set s \<Longrightarrow> w \<in> set (path_names s) \<Longrightarrow> name_ok w"
proof -
  assume s: "0 \<notin> set s"
  have ne: "split_path u \<noteq> []" for u by (cases u) auto
  have "\<forall>w \<in> set (split_path s). SEP \<notin> set w \<and> 0 \<notin> set w" using s
  proof (induction s)
    case (Cons c s)
    then have "\<forall>w \<in> set (split_path s). SEP \<notin> set w \<and> 0 \<notin> set w" by simp
    then show ?case using Cons.prems list.set_sel [OF ne [of s]] by auto
  qed simp
  then show "w \<in> set (path_names s) \<Longrightarrow> name_ok w" by (auto simp: path_names_def name_ok_def)
qed

lemma resolve_names:
  "resolve p names = Some q \<Longrightarrow> \<forall>w \<in> set (snd p). w \<noteq> [DOT] \<and> w \<noteq> [DOT, DOT] \<and> name_ok w \<Longrightarrow> \<forall>w \<in> set names. name_ok w \<Longrightarrow>
   \<forall>w \<in> set (snd q). w \<noteq> [DOT] \<and> w \<noteq> [DOT, DOT] \<and> name_ok w"
proof (induction p names rule: resolve.induct)
  case (2 r ws w names)
  have b: "\<forall>w \<in> set (butlast ws). w \<noteq> [DOT] \<and> w \<noteq> [DOT, DOT] \<and> name_ok w" using "2.prems"(2) by (auto dest: in_set_butlastD)
  consider "w = [DOT]" | "w = [DOT, DOT]" "ws \<noteq> []" | "w = [DOT, DOT]" "ws = []" | "w \<noteq> [DOT]" "w \<noteq> [DOT, DOT]" by blast
  then show ?case
  proof cases
    case 1
    then show ?thesis using "2.IH"(1) "2.prems" by simp
  next
    case 2
    then show ?thesis using "2.IH"(2) "2.prems" b by simp
  next
    case 3
    then show ?thesis using "2.IH"(3) "2.prems" by (simp split: if_splits)
  next
    case 4
    then show ?thesis using "2.IH"(4) "2.prems" by simp
  qed
qed simp

lemma path_names_with_seps: "\<forall>w \<in> set ws. name_ok w \<Longrightarrow> path_names (with_seps (r, ws) @ s) = ws @ path_names s"
proof -
  assume "\<forall>w \<in> set ws. name_ok w"
  then have "path_names (concat (map (\<lambda>w. w @ [SEP]) ws) @ s) = ws @ path_names s"
    by (induction ws) (auto simp: name_ok_def)
  then show ?thesis by (simp add: with_seps_def)
qed

lemma path_names_text: "\<forall>w \<in> set ws. name_ok w \<Longrightarrow> path_names (path_text (r, ws)) = ws"
  using path_names_with_seps [of "butlast ws" r "last ws"]
  by (cases ws rule: rev_cases) (auto simp: path_text_def name_ok_def)

lemma resolve_plain: "\<forall>w \<in> set ws. w \<noteq> [DOT] \<and> w \<noteq> [DOT, DOT] \<Longrightarrow> resolve (r, vs) ws = Some (r, vs @ ws)"
  by (induction ws arbitrary: vs) auto

lemma path_text_root: "path_text (True, ws) \<noteq> [] \<and> hd (path_text (True, ws)) = SEP"
  by (simp add: path_text_def with_seps_def)

lemma resolve_path_text:
  assumes "0 \<notin> set s" and "resolve_path s = Some (True, ws)"
  shows "resolve_path (path_text (True, ws)) = Some (True, ws)" and "0 \<notin> set (path_text (True, ws))"
proof -
  have w: "\<forall>w \<in> set ws. w \<noteq> [DOT] \<and> w \<noteq> [DOT, DOT] \<and> name_ok w"
    using resolve_names [OF assms(2) [unfolded resolve_path_def]] path_names_ok [OF assms(1)] by auto
  then show "resolve_path (path_text (True, ws)) = Some (True, ws)"
    using resolve_plain [of ws True "[]"] path_text_root [of ws] by (simp add: resolve_path_def path_names_text)
  show "0 \<notin> set (path_text (True, ws))" using path_text_no0 [of "(True, ws)"] w by simp
qed

end
