(* ===== verification/Dfs.thy ===== *)
theory Dfs
  imports DfsPath Device
begin

text \<open>
  The device file system, \<^verbatim>\<open>components/dfs/src\<close>: the tables of \<^verbatim>\<open>dfs.c\<close>, the mounting of \<^verbatim>\<open>dfs_fs.c\<close> and the operations on files of
  \<^verbatim>\<open>dfs_file.c\<close>, without \<^verbatim>\<open>DFS_USING_WORKDIR\<close> and \<^verbatim>\<open>DFS_USING_STDIO\<close>.  The code of a file system is reached through the pointers of its
  operations; it is an argument, a record of functions on the state.

  The strings the heap holds are a map from their addresses.  An allocation is refused or gives a new address, as \<^verbatim>\<open>rt_malloc\<close> does; which requests are refused is
  part of the state.  Releasing an address that is not allocated has no result.  The lock is the number of times the caller
  holds \<^verbatim>\<open>fslock\<close>, a mutex its holder can take again.
\<close>

unbundle bit_operations_syntax

abbreviation (input) DFS_FD_MAX :: nat where "DFS_FD_MAX \<equiv> 4"
abbreviation (input) DFS_FILESYSTEMS_MAX :: nat where "DFS_FILESYSTEMS_MAX \<equiv> 2"
abbreviation (input) DFS_FILESYSTEM_TYPES_MAX :: nat where "DFS_FILESYSTEM_TYPES_MAX \<equiv> 4"
abbreviation (input) DFS_FD_MAGIC :: u16 where "DFS_FD_MAGIC \<equiv> 0xfdfd"
abbreviation (input) DFS_FS_FLAG_FULLPATH :: u32 where "DFS_FS_FLAG_FULLPATH \<equiv> 0x01"

abbreviation (input) NO_WORKING_DIR :: string where "NO_WORKING_DIR \<equiv> ''system does not support working directory\<newline>''"

abbreviation (input) DFS_STATUS_ENOENT :: int where "DFS_STATUS_ENOENT \<equiv> 2"
abbreviation (input) DFS_STATUS_EIO :: int where "DFS_STATUS_EIO \<equiv> 5"
abbreviation (input) DFS_STATUS_EBADF :: int where "DFS_STATUS_EBADF \<equiv> 9"
abbreviation (input) DFS_STATUS_ENOMEM :: int where "DFS_STATUS_ENOMEM \<equiv> 12"
abbreviation (input) DFS_STATUS_EBUSY :: int where "DFS_STATUS_EBUSY \<equiv> 16"
abbreviation (input) DFS_STATUS_EEXIST :: int where "DFS_STATUS_EEXIST \<equiv> 17"
abbreviation (input) DFS_STATUS_EXDEV :: int where "DFS_STATUS_EXDEV \<equiv> 18"
abbreviation (input) DFS_STATUS_ENODEV :: int where "DFS_STATUS_ENODEV \<equiv> 19"
abbreviation (input) DFS_STATUS_ENOTDIR :: int where "DFS_STATUS_ENOTDIR \<equiv> 20"
abbreviation (input) DFS_STATUS_EINVAL :: int where "DFS_STATUS_EINVAL \<equiv> 22"
abbreviation (input) DFS_STATUS_ENOSPC :: int where "DFS_STATUS_ENOSPC \<equiv> 28"
abbreviation (input) DFS_STATUS_ENOSYS :: int where "DFS_STATUS_ENOSYS \<equiv> 38"

abbreviation (input) DFS_O_RDONLY :: u32 where "DFS_O_RDONLY \<equiv> 0"
abbreviation (input) DFS_O_WRONLY :: u32 where "DFS_O_WRONLY \<equiv> 1"
abbreviation (input) DFS_O_CREAT :: u32 where "DFS_O_CREAT \<equiv> 0x100"
abbreviation (input) DFS_O_TRUNC :: u32 where "DFS_O_TRUNC \<equiv> 0x1000"
abbreviation (input) DFS_O_APPEND :: u32 where "DFS_O_APPEND \<equiv> 0x2000"
abbreviation (input) DFS_O_DIRECTORY :: u32 where "DFS_O_DIRECTORY \<equiv> 0x200000"
abbreviation (input) DFS_F_OPEN :: u32 where "DFS_F_OPEN \<equiv> 0x01000000"
abbreviation (input) DFS_F_DIRECTORY :: u32 where "DFS_F_DIRECTORY \<equiv> 0x02000000"
abbreviation (input) DFS_F_EOF :: u32 where "DFS_F_EOF \<equiv> 0x04000000"
abbreviation (input) FT_REGULAR :: u16 where "FT_REGULAR \<equiv> 0"
abbreviation (input) FT_DIRECTORY :: u16 where "FT_DIRECTORY \<equiv> 2"

section \<open>State\<close>

text \<open>The pointers to the data of a file system are numbers, 0 for \<^verbatim>\<open>RT_NULL\<close>. A descriptor is an entry of \<^verbatim>\<open>fd_table\<close>, or a variable of a function.\<close>

datatype fdref = Fd nat | Var nat

record dfs_fd =
  fd_magic :: u16
  fd_type :: u16
  fd_path :: "nat option"
  fd_ref_count :: int
  fd_fs :: "nat option"
  fd_flags :: u32
  fd_size :: u32
  fd_pos :: u32
  fd_data :: nat

definition zero_fd :: dfs_fd where
  "zero_fd = \<lparr>fd_magic = 0, fd_type = 0, fd_path = None, fd_ref_count = 0, fd_fs = None, fd_flags = 0, fd_size = 0, fd_pos = 0, fd_data = 0\<rparr>"

record fs_operation =
  op_name :: "u8 list"
  op_flags :: u32
  op_mount :: "nat option"
  op_unmount :: "nat option"
  op_mkfs :: "nat option"
  op_statfs :: "nat option"
  op_open :: "nat option"
  op_close :: "nat option"
  op_ioctl :: "nat option"
  op_read :: "nat option"
  op_write :: "nat option"
  op_flush :: "nat option"
  op_lseek :: "nat option"
  op_getdents :: "nat option"
  op_unlink :: "nat option"
  op_stat :: "nat option"
  op_rename :: "nat option"

record dfs_filesystem =
  fs_dev_id :: "nat option"
  fs_path :: "nat option"
  fs_ops :: "nat option"
  fs_data :: nat

definition zero_fs :: dfs_filesystem where
  "zero_fs = \<lparr>fs_dev_id = None, fs_path = None, fs_ops = None, fs_data = 0\<rparr>"

text \<open>What \<^verbatim>\<open>rt_kprintf\<close> is called with: the format and its arguments.\<close>

datatype karg = KInt u32 | KStr "u8 list"

text \<open>A directory stream, with the address of its buffer.\<close>

record dir =
  dir_fd :: int
  dir_buf :: u32
  dir_num :: int
  dir_cur :: int

record 'w dfs =
  dfs_sys :: "'w system"
  fslock :: nat
  filesystem_operation_table :: "nat \<Rightarrow> nat option"
  filesystem_table :: "nat \<Rightarrow> dfs_filesystem"
  fds :: "fdref \<Rightarrow> dfs_fd"
  strs :: "nat \<rightharpoonup> u8 list"
  dirs :: "nat \<rightharpoonup> dir"
  alloc_ok :: "nat \<Rightarrow> bool"
  alloc_no :: nat
  kmsgs :: "(u8 list \<times> karg list) list"

text \<open>The constant structures of the operations, by their numbers, and the code behind the pointers.\<close>

record 'w fs_code =
  op_struct :: "nat \<Rightarrow> fs_operation"
  c_mount :: "nat \<Rightarrow> nat \<Rightarrow> u32 \<Rightarrow> nat \<Rightarrow> 'w dfs \<Rightarrow> (int \<times> 'w dfs) option"
  c_unmount :: "nat \<Rightarrow> nat \<Rightarrow> 'w dfs \<Rightarrow> (int \<times> 'w dfs) option"
  c_mkfs :: "nat \<Rightarrow> nat \<Rightarrow> 'w dfs \<Rightarrow> (int \<times> 'w dfs) option"
  c_statfs :: "nat \<Rightarrow> nat \<Rightarrow> u32 \<Rightarrow> 'w dfs \<Rightarrow> (int \<times> 'w dfs) option"
  c_open :: "nat \<Rightarrow> fdref \<Rightarrow> 'w dfs \<Rightarrow> (int \<times> 'w dfs) option"
  c_close :: "nat \<Rightarrow> fdref \<Rightarrow> 'w dfs \<Rightarrow> (int \<times> 'w dfs) option"
  c_ioctl :: "nat \<Rightarrow> fdref \<Rightarrow> u32 \<Rightarrow> u32 \<Rightarrow> 'w dfs \<Rightarrow> (int \<times> 'w dfs) option"
  c_read :: "nat \<Rightarrow> fdref \<Rightarrow> u32 \<Rightarrow> u32 \<Rightarrow> 'w dfs \<Rightarrow> (int \<times> 'w dfs) option"
  c_write :: "nat \<Rightarrow> fdref \<Rightarrow> u32 \<Rightarrow> u32 \<Rightarrow> 'w dfs \<Rightarrow> (int \<times> 'w dfs) option"
  c_flush :: "nat \<Rightarrow> fdref \<Rightarrow> 'w dfs \<Rightarrow> (int \<times> 'w dfs) option"
  c_lseek :: "nat \<Rightarrow> fdref \<Rightarrow> u32 \<Rightarrow> 'w dfs \<Rightarrow> (int \<times> 'w dfs) option"
  c_getdents :: "nat \<Rightarrow> fdref \<Rightarrow> u32 \<Rightarrow> u32 \<Rightarrow> 'w dfs \<Rightarrow> (int \<times> 'w dfs) option"
  c_unlink :: "nat \<Rightarrow> nat \<Rightarrow> u8 list option \<Rightarrow> 'w dfs \<Rightarrow> (int \<times> 'w dfs) option"
  c_stat :: "nat \<Rightarrow> nat \<Rightarrow> u8 list option \<Rightarrow> u32 \<Rightarrow> 'w dfs \<Rightarrow> (int \<times> 'w dfs) option"
  c_rename :: "nat \<Rightarrow> nat \<Rightarrow> u8 list option \<Rightarrow> u8 list option \<Rightarrow> 'w dfs \<Rightarrow> (int \<times> 'w dfs) option"

definition upd_fd :: "fdref \<Rightarrow> (dfs_fd \<Rightarrow> dfs_fd) \<Rightarrow> 'w dfs \<Rightarrow> 'w dfs" where
  "upd_fd d f s = s\<lparr>fds := (fds s)(d := f (fds s d))\<rparr>"

definition upd_fs :: "nat \<Rightarrow> (dfs_filesystem \<Rightarrow> dfs_filesystem) \<Rightarrow> 'w dfs \<Rightarrow> 'w dfs" where
  "upd_fs i f s = s\<lparr>filesystem_table := (filesystem_table s)(i := f (filesystem_table s i))\<rparr>"

definition dfs_errno :: "int \<Rightarrow> 'w dfs \<Rightarrow> 'w dfs" where
  "dfs_errno e s = s\<lparr>dfs_sys := sys_set_errno e (dfs_sys s)\<rparr>"

definition kmsg :: "string \<Rightarrow> karg list \<Rightarrow> 'w dfs \<Rightarrow> 'w dfs" where
  "kmsg fmt args s = s\<lparr>kmsgs := kmsgs s @ [(map of_char fmt, args)]\<rparr>"

section \<open>Strings on the heap\<close>

definition str_malloc :: "u8 list \<Rightarrow> 'w dfs \<Rightarrow> nat option \<times> 'w dfs" where
  "str_malloc t s =
     (let n = alloc_no s; s1 = s\<lparr>alloc_no := n + 1\<rparr>
      in if alloc_ok s n then (Some n, s1\<lparr>strs := (strs s1)(n \<mapsto> t)\<rparr>) else (None, s1))"

definition str_free :: "nat option \<Rightarrow> 'w dfs \<Rightarrow> 'w dfs option" where
  "str_free p s =
     (case p of None \<Rightarrow> Some s
      | Some a \<Rightarrow> do { valid_access (strs s a \<noteq> None); Some (s\<lparr>strs := (strs s)(a := None)\<rparr>) })"

definition rt_strdup :: "u8 list \<Rightarrow> 'w dfs \<Rightarrow> nat option \<times> 'w dfs" where
  "rt_strdup t s = str_malloc t s"

definition str_of :: "nat \<Rightarrow> 'w dfs \<Rightarrow> u8 list option" where
  "str_of a s = strs s a"

section \<open>dfs.c\<close>

definition dfs_init :: "'w dfs \<Rightarrow> int \<times> 'w dfs" where
  "dfs_init s =
     (0, s\<lparr>filesystem_operation_table := (\<lambda>_. None), filesystem_table := (\<lambda>_. zero_fs),
           fds := (\<lambda>d. case d of Fd i \<Rightarrow> (if i < DFS_FD_MAX then zero_fd else fds s d) | Var i \<Rightarrow> fds s d), fslock := 0\<rparr>)"

definition dfs_lock :: "'w dfs \<Rightarrow> 'w dfs" where
  "dfs_lock s = s\<lparr>fslock := fslock s + 1\<rparr>"

definition dfs_unlock :: "'w dfs \<Rightarrow> 'w dfs" where
  "dfs_unlock s = s\<lparr>fslock := fslock s - 1\<rparr>"

fun first_free :: "nat \<Rightarrow> nat \<Rightarrow> 'w dfs \<Rightarrow> nat" where
  "first_free idx 0 s = idx"
| "first_free idx (Suc n) s = (if fd_ref_count (fds s (Fd idx)) > 0 then first_free (idx + 1) n s else idx)"

definition fd_new :: "'w dfs \<Rightarrow> int \<times> 'w dfs" where
  "fd_new s =
     (let s = dfs_lock s; idx = first_free 0 DFS_FD_MAX s
      in if idx = DFS_FD_MAX then (- 1, dfs_unlock s)
         else (int idx, dfs_unlock (upd_fd (Fd idx) (\<lambda>d. d\<lparr>fd_ref_count := 1, fd_magic := DFS_FD_MAGIC\<rparr>) s)))"

definition fd_get :: "int \<Rightarrow> 'w dfs \<Rightarrow> fdref option \<times> 'w dfs" where
  "fd_get fd s =
     (if fd < 0 \<or> fd \<ge> int DFS_FD_MAX then (None, s)
      else
        let s = dfs_lock s; d = Fd (nat fd)
        in if fd_magic (fds s d) \<noteq> DFS_FD_MAGIC then (None, dfs_unlock s)
           else (Some d, dfs_unlock (upd_fd d (\<lambda>v. v\<lparr>fd_ref_count := fd_ref_count v + 1\<rparr>) s)))"

definition fd_put :: "fdref \<Rightarrow> 'w dfs \<Rightarrow> 'w dfs" where
  "fd_put d s =
     (let s = dfs_lock s;
          s = upd_fd d (\<lambda>v. v\<lparr>fd_ref_count := fd_ref_count v - 1\<rparr>) s;
          s = (if fd_ref_count (fds s d) = 0 then upd_fd d (\<lambda>_. zero_fd) s else s)
      in dfs_unlock s)"

text \<open>\<open>None\<close> inside is \<^verbatim>\<open>RT_NULL\<close>; otherwise the address of the full path.\<close>

definition dfs_normalize_path :: "u8 list option \<Rightarrow> u8 list \<Rightarrow> 'w dfs \<Rightarrow> (nat option \<times> 'w dfs) option" where
  "dfs_normalize_path directory filename s =
     (let absolute = (filename \<noteq> [] \<and> hd filename = SEP)
      in if directory = None \<and> \<not> absolute then Some (None, kmsg NO_WORKING_DIR [] s)
         else
           let text = (if \<not> absolute then the directory @ [SEP] @ filename else filename);
               (p, s) = (if \<not> absolute then str_malloc text s else rt_strdup text s)
           in (case p of
                 None \<Rightarrow> Some (None, s)
               | Some fullpath \<Rightarrow>
                   do { r \<leftarrow> norm_path text;
                        (case r of
                           None \<Rightarrow> do { s \<leftarrow> str_free (Some fullpath) s; Some (None, s) }
                         | Some t \<Rightarrow> Some (Some fullpath, s\<lparr>strs := (strs s)(fullpath \<mapsto> t)\<rparr>)) }))"

section \<open>dfs_fs.c\<close>

fun register_scan :: "'w fs_code \<Rightarrow> u8 list \<Rightarrow> nat list \<Rightarrow> nat option \<Rightarrow> 'w dfs \<Rightarrow> nat option option" where
  "register_scan C name [] vacant s = Some vacant"
| "register_scan C name (i # is) vacant s =
     (case filesystem_operation_table s i of
        None \<Rightarrow> register_scan C name is (if vacant = None then Some i else vacant) s
      | Some p \<Rightarrow> if op_name (op_struct C p) = name then None else register_scan C name is vacant s)"

definition dfs_register :: "'w fs_code \<Rightarrow> nat \<Rightarrow> 'w dfs \<Rightarrow> int \<times> 'w dfs" where
  "dfs_register C ops s =
     (let s = dfs_lock s
      in case register_scan C (op_name (op_struct C ops)) [0 ..< DFS_FILESYSTEM_TYPES_MAX] None s of
           None \<Rightarrow> (- 1, dfs_unlock s)
         | Some None \<Rightarrow> (0, dfs_unlock s)
         | Some (Some i) \<Rightarrow> (0, dfs_unlock (s\<lparr>filesystem_operation_table := (filesystem_operation_table s)(i := Some ops)\<rparr>)))"

text \<open>One entry of the table, with the best one so far and the length of its path.\<close>

definition lookup_step :: "u8 list \<Rightarrow> 'w dfs \<Rightarrow> nat \<Rightarrow> nat option \<times> nat \<Rightarrow> (nat option \<times> nat) option" where
  "lookup_step path s i best =
     (case fs_path (filesystem_table s i) of
        None \<Rightarrow> Some best
      | Some a \<Rightarrow>
          if fs_ops (filesystem_table s i) = None then Some best
          else do {
            m \<leftarrow> str_of a s;
            let fspath = length m;
            if fspath < snd best \<or> take fspath path \<noteq> m then Some best
            else if fspath > 1 \<and> length path > fspath \<and> path ! fspath \<noteq> SEP then Some best
            else Some (Some i, fspath) })"

fun lookup_loop :: "u8 list \<Rightarrow> 'w dfs \<Rightarrow> nat list \<Rightarrow> nat option \<times> nat \<Rightarrow> (nat option \<times> nat) option" where
  "lookup_loop path s [] best = Some best"
| "lookup_loop path s (i # is) best = do { best \<leftarrow> lookup_step path s i best; lookup_loop path s is best }"

definition dfs_filesystem_lookup :: "u8 list \<Rightarrow> 'w dfs \<Rightarrow> (nat option \<times> 'w dfs) option" where
  "dfs_filesystem_lookup path s =
     do { let s = dfs_lock s;
          best \<leftarrow> lookup_loop path s [0 ..< DFS_FILESYSTEMS_MAX] (None, 0);
          Some (fst best, dfs_unlock s) }"

definition dfs_filesystem_get_mounted_path :: "nat \<Rightarrow> 'w dfs \<Rightarrow> nat option \<times> 'w dfs" where
  "dfs_filesystem_get_mounted_path device s =
     (let s = dfs_lock s;
          r = find (\<lambda>i. fs_ops (filesystem_table s i) \<noteq> None \<and> fs_dev_id (filesystem_table s i) = Some device) [0 ..< DFS_FILESYSTEMS_MAX];
          path = (case r of None \<Rightarrow> None | Some i \<Rightarrow> fs_path (filesystem_table s i))
      in (path, dfs_unlock s))"

text \<open>The path of a full path below the mount point of a file system.\<close>

definition below :: "nat \<Rightarrow> u8 list \<Rightarrow> 'w dfs \<Rightarrow> u8 list option option" where
  "below fs fullpath s =
     do { a \<leftarrow> fs_path (filesystem_table s fs); m \<leftarrow> str_of a s; dfs_subdir m fullpath }"

definition ops_of :: "'w fs_code \<Rightarrow> nat \<Rightarrow> 'w dfs \<Rightarrow> fs_operation option" where
  "ops_of C fs s = map_option (op_struct C) (fs_ops (filesystem_table s fs))"

fun open_scan :: "nat \<Rightarrow> u8 list \<Rightarrow> nat list \<Rightarrow> 'w dfs \<Rightarrow> bool option" where
  "open_scan fs mountpath [] s = Some False"
| "open_scan fs mountpath (i # is) s =
     (if fd_fs (fds s (Fd i)) = Some fs then
        do { a \<leftarrow> fd_path (fds s (Fd i));
             path \<leftarrow> str_of a s;
             if path = mountpath then Some True else open_scan fs mountpath is s }
      else open_scan fs mountpath is s)"

definition fd_is_open :: "u8 list \<Rightarrow> 'w dfs \<Rightarrow> (int \<times> 'w dfs) option" where
  "fd_is_open pathname s =
     do { (p, s) \<leftarrow> dfs_normalize_path None pathname s;
          (case p of
             None \<Rightarrow> Some (- 1, s)
           | Some a \<Rightarrow>
               do { fullpath \<leftarrow> str_of a s;
                    (fs, s) \<leftarrow> dfs_filesystem_lookup fullpath s;
                    (case fs of
                       None \<Rightarrow> do { s \<leftarrow> str_free p s; Some (- 1, s) }
                     | Some f \<Rightarrow>
                         do { b \<leftarrow> fs_path (filesystem_table s f);
                              m \<leftarrow> str_of b s;
                              valid_access (m = [SEP] \<or> length m \<le> length fullpath);
                              let mountpath = (if m = [SEP] then fullpath else drop (length m) fullpath);
                              let s = dfs_lock s;
                              r \<leftarrow> open_scan f mountpath [0 ..< DFS_FD_MAX] s;
                              s \<leftarrow> str_free p s;
                              Some (if r then 0 else - 1, dfs_unlock s) }) }) }"

section \<open>dfs_file.c\<close>

text \<open>A descriptor is a pointer, \<open>None\<close> for \<^verbatim>\<open>RT_NULL\<close>; using it then has no result.\<close>

definition fd_ops :: "'w fs_code \<Rightarrow> fdref \<Rightarrow> 'w dfs \<Rightarrow> fs_operation option" where
  "fd_ops C d s = do { fs \<leftarrow> fd_fs (fds s d); ops_of C fs s }"

definition clear_fd :: "fdref \<Rightarrow> 'w dfs \<Rightarrow> 'w dfs option" where
  "clear_fd d s = do { s \<leftarrow> str_free (fd_path (fds s d)) s; Some (upd_fd d (\<lambda>_. zero_fd) s) }"

text \<open>The path the file system sees.\<close>

definition open_path :: "fs_operation \<Rightarrow> nat \<Rightarrow> nat \<Rightarrow> u8 list \<Rightarrow> fdref \<Rightarrow> 'w dfs \<Rightarrow> 'w dfs option" where
  "open_path ops fs a fullpath d s =
     (if op_flags ops AND DFS_FS_FLAG_FULLPATH = 0 then
        do { sub \<leftarrow> below fs fullpath s;
             let (q, s) = rt_strdup (case sub of None \<Rightarrow> [SEP] | Some t \<Rightarrow> t) s;
             let s = upd_fd d (\<lambda>v. v\<lparr>fd_path := q\<rparr>) s;
             str_free (Some a) s }
      else Some (upd_fd d (\<lambda>v. v\<lparr>fd_path := Some a\<rparr>) s))"

definition open_end :: "u32 \<Rightarrow> fdref \<Rightarrow> int \<Rightarrow> 'w dfs \<Rightarrow> (int \<times> 'w dfs) option" where
  "open_end flags d result s =
     (if result < 0 then do { s \<leftarrow> clear_fd d s; Some (result, s) }
      else
        let s = upd_fd d (\<lambda>v. v\<lparr>fd_flags := fd_flags v OR DFS_F_OPEN\<rparr>) s;
            s = (if flags AND DFS_O_DIRECTORY \<noteq> 0
                 then upd_fd d (\<lambda>v. v\<lparr>fd_type := FT_DIRECTORY, fd_flags := fd_flags v OR DFS_F_DIRECTORY\<rparr>) s else s)
        in Some (0, s))"

definition dfs_file_open :: "'w fs_code \<Rightarrow> fdref option \<Rightarrow> u8 list \<Rightarrow> u32 \<Rightarrow> 'w dfs \<Rightarrow> (int \<times> 'w dfs) option" where
  "dfs_file_open C fd path flags s =
     (case fd of
        None \<Rightarrow> Some (- DFS_STATUS_EINVAL, s)
      | Some d \<Rightarrow>
          do { (p, s) \<leftarrow> dfs_normalize_path None path s;
               (case p of
                  None \<Rightarrow> Some (- 1, s)
                | Some a \<Rightarrow>
                    do { fullpath \<leftarrow> str_of a s;
                         (r, s) \<leftarrow> dfs_filesystem_lookup fullpath s;
                         (case r of
                            None \<Rightarrow> do { s \<leftarrow> str_free p s; Some (- DFS_STATUS_ENOENT, s) }
                          | Some fs \<Rightarrow>
                              do { ops \<leftarrow> ops_of C fs s;
                                   let s = upd_fd d (\<lambda>v. v\<lparr>fd_fs := Some fs, fd_type := FT_REGULAR, fd_flags := flags, fd_size := 0, fd_pos := 0\<rparr>) s;
                                   s \<leftarrow> open_path ops fs a fullpath d s;
                                   (case op_open ops of
                                      None \<Rightarrow> do { s \<leftarrow> clear_fd d s; Some (- DFS_STATUS_ENOSYS, s) }
                                    | Some f \<Rightarrow>
                                        do { (result, s) \<leftarrow> c_open C f d s; open_end flags d result s }) }) }) })"

definition dfs_file_close :: "'w fs_code \<Rightarrow> fdref \<Rightarrow> 'w dfs \<Rightarrow> (int \<times> 'w dfs) option" where
  "dfs_file_close C d s =
     do { ops \<leftarrow> fd_ops C d s;
          (result, s) \<leftarrow> (case op_close ops of None \<Rightarrow> Some (0, s) | Some f \<Rightarrow> c_close C f d s);
          if result < 0 then Some (result, s)
          else do { s \<leftarrow> clear_fd d s; Some (result, s) } }"

definition dfs_file_ioctl :: "'w fs_code \<Rightarrow> fdref option \<Rightarrow> u32 \<Rightarrow> u32 \<Rightarrow> 'w dfs \<Rightarrow> (int \<times> 'w dfs) option" where
  "dfs_file_ioctl C fd cmd args s =
     (case fd of
        None \<Rightarrow> Some (- DFS_STATUS_EINVAL, s)
      | Some d \<Rightarrow>
          if fd_type (fds s d) \<noteq> FT_REGULAR then Some (- DFS_STATUS_EINVAL, s)
          else do { ops \<leftarrow> fd_ops C d s;
                    (case op_ioctl ops of Some f \<Rightarrow> c_ioctl C f d cmd args s | None \<Rightarrow> Some (- DFS_STATUS_ENOSYS, s)) })"

definition dfs_file_read :: "'w fs_code \<Rightarrow> fdref option \<Rightarrow> u32 \<Rightarrow> u32 \<Rightarrow> 'w dfs \<Rightarrow> (int \<times> 'w dfs) option" where
  "dfs_file_read C fd buf len s =
     (case fd of
        None \<Rightarrow> Some (- DFS_STATUS_EINVAL, s)
      | Some d \<Rightarrow>
          do { ops \<leftarrow> fd_ops C d s;
               (case op_read ops of
                  None \<Rightarrow> Some (- DFS_STATUS_ENOSYS, s)
                | Some f \<Rightarrow>
                    do { (result, s) \<leftarrow> c_read C f d buf len s;
                         let s = (if result < 0 then upd_fd d (\<lambda>v. v\<lparr>fd_flags := fd_flags v OR DFS_F_EOF\<rparr>) s else s);
                         Some (result, s) }) })"

definition dfs_file_getdents :: "'w fs_code \<Rightarrow> fdref option \<Rightarrow> u32 \<Rightarrow> u32 \<Rightarrow> 'w dfs \<Rightarrow> (int \<times> 'w dfs) option" where
  "dfs_file_getdents C fd dirp nbytes s =
     (case fd of
        None \<Rightarrow> Some (- DFS_STATUS_EINVAL, s)
      | Some d \<Rightarrow>
          if fd_type (fds s d) \<noteq> FT_DIRECTORY then Some (- DFS_STATUS_EINVAL, s)
          else do { ops \<leftarrow> fd_ops C d s;
                    (case op_getdents ops of Some f \<Rightarrow> c_getdents C f d dirp nbytes s | None \<Rightarrow> Some (- DFS_STATUS_ENOSYS, s)) })"

definition dfs_file_unlink :: "'w fs_code \<Rightarrow> u8 list \<Rightarrow> 'w dfs \<Rightarrow> (int \<times> 'w dfs) option" where
  "dfs_file_unlink C path s =
     do { (p, s) \<leftarrow> dfs_normalize_path None path s;
          (case p of
             None \<Rightarrow> Some (- DFS_STATUS_EINVAL, s)
           | Some a \<Rightarrow>
               do { fullpath \<leftarrow> str_of a s;
                    (r, s) \<leftarrow> dfs_filesystem_lookup fullpath s;
                    (result, s) \<leftarrow>
                      (case r of
                         None \<Rightarrow> Some (- DFS_STATUS_ENOENT, s)
                       | Some fs \<Rightarrow>
                           do { (busy, s) \<leftarrow> fd_is_open fullpath s;
                                if busy = 0 then Some (- DFS_STATUS_EBUSY, s)
                                else do {
                                  ops \<leftarrow> ops_of C fs s;
                                  (case op_unlink ops of
                                     Some f \<Rightarrow>
                                       if op_flags ops AND DFS_FS_FLAG_FULLPATH = 0 then
                                         do { sub \<leftarrow> below fs fullpath s;
                                              c_unlink C f fs (Some (case sub of None \<Rightarrow> [SEP] | Some t \<Rightarrow> t)) s }
                                       else c_unlink C f fs (Some fullpath) s
                                   | None \<Rightarrow> Some (- DFS_STATUS_ENOSYS, s)) } });
                    s \<leftarrow> str_free p s;
                    Some (result, s) }) }"

definition dfs_file_write :: "'w fs_code \<Rightarrow> fdref option \<Rightarrow> u32 \<Rightarrow> u32 \<Rightarrow> 'w dfs \<Rightarrow> (int \<times> 'w dfs) option" where
  "dfs_file_write C fd buf len s =
     (case fd of
        None \<Rightarrow> Some (- DFS_STATUS_EINVAL, s)
      | Some d \<Rightarrow>
          do { ops \<leftarrow> fd_ops C d s;
               (case op_write ops of None \<Rightarrow> Some (- DFS_STATUS_ENOSYS, s) | Some f \<Rightarrow> c_write C f d buf len s) })"

definition dfs_file_flush :: "'w fs_code \<Rightarrow> fdref option \<Rightarrow> 'w dfs \<Rightarrow> (int \<times> 'w dfs) option" where
  "dfs_file_flush C fd s =
     (case fd of
        None \<Rightarrow> Some (- DFS_STATUS_EINVAL, s)
      | Some d \<Rightarrow>
          do { ops \<leftarrow> fd_ops C d s;
               (case op_flush ops of None \<Rightarrow> Some (- DFS_STATUS_ENOSYS, s) | Some f \<Rightarrow> c_flush C f d s) })"

definition dfs_file_lseek :: "'w fs_code \<Rightarrow> fdref \<Rightarrow> u32 \<Rightarrow> 'w dfs \<Rightarrow> (int \<times> 'w dfs) option" where
  "dfs_file_lseek C d offset s =
     (if fd_fs (fds s d) = None then Some (- DFS_STATUS_EINVAL, s)
      else do {
        ops \<leftarrow> fd_ops C d s;
        (case op_lseek ops of
           None \<Rightarrow> Some (- DFS_STATUS_ENOSYS, s)
         | Some f \<Rightarrow>
             do { (result, s) \<leftarrow> c_lseek C f d offset s;
                  let s = (if result \<ge> 0 then upd_fd d (\<lambda>v. v\<lparr>fd_pos := word_of_int result\<rparr>) s else s);
                  Some (result, s) }) })"

text \<open>A \<^verbatim>\<open>struct stat\<close> in memory.\<close>

definition put_stat :: "u32 \<Rightarrow> u16 \<Rightarrow> u32 \<Rightarrow> 'w dfs \<Rightarrow> 'w dfs" where
  "put_stat buf mode sz s =
     s\<lparr>dfs_sys := (dfs_sys s)\<lparr>sys_mem :=
        (put32 (unat buf + 16) 512 \<circ> put32 (unat buf + 12) 0 \<circ> put32 (unat buf + 8) sz \<circ> put16 (unat buf + 4) mode \<circ> put32 (unat buf) 0) (sys_mem (dfs_sys s))\<rparr>\<rparr>"

abbreviation (input) DFS_S_RW :: u16 where "DFS_S_RW \<equiv> 0x1B6"
abbreviation (input) DFS_S_IFDIR :: u16 where "DFS_S_IFDIR \<equiv> 0x4000"
abbreviation (input) DFS_S_IFREG :: u16 where "DFS_S_IFREG \<equiv> 0x8000"
abbreviation (input) DFS_S_IX :: u16 where "DFS_S_IX \<equiv> 0x49"

definition dfs_file_stat :: "'w fs_code \<Rightarrow> u8 list \<Rightarrow> u32 \<Rightarrow> 'w dfs \<Rightarrow> (int \<times> 'w dfs) option" where
  "dfs_file_stat C path buf s =
     do { (p, s) \<leftarrow> dfs_normalize_path None path s;
          (case p of
             None \<Rightarrow> Some (- 1, s)
           | Some a \<Rightarrow>
               do { fullpath \<leftarrow> str_of a s;
                    (r, s) \<leftarrow> dfs_filesystem_lookup fullpath s;
                    (case r of
                       None \<Rightarrow> do { s \<leftarrow> str_free p s; Some (- DFS_STATUS_ENOENT, s) }
                     | Some fs \<Rightarrow>
                         do { sub \<leftarrow> below fs fullpath s;
                              if fullpath = [SEP] \<or> sub = None then
                                do { let s = put_stat buf (DFS_S_RW OR DFS_S_IFDIR OR DFS_S_IX) 0 s;
                                     s \<leftarrow> str_free p s;
                                     Some (0, s) }
                              else do {
                                ops \<leftarrow> ops_of C fs s;
                                (case op_stat ops of
                                   None \<Rightarrow> do { s \<leftarrow> str_free p s; Some (- DFS_STATUS_ENOSYS, s) }
                                 | Some f \<Rightarrow>
                                     do { (result, s) \<leftarrow> c_stat C f fs (if op_flags ops AND DFS_FS_FLAG_FULLPATH \<noteq> 0 then Some fullpath else sub) buf s;
                                          s \<leftarrow> str_free p s;
                                          Some (result, s) }) } }) }) }"

definition dfs_file_rename :: "'w fs_code \<Rightarrow> u8 list \<Rightarrow> u8 list \<Rightarrow> 'w dfs \<Rightarrow> (int \<times> 'w dfs) option" where
  "dfs_file_rename C oldpath newpath s =
     do { (p, s) \<leftarrow> dfs_normalize_path None oldpath s;
          (case p of
             None \<Rightarrow> Some (- DFS_STATUS_ENOENT, s)
           | Some a \<Rightarrow>
               do { (q, s) \<leftarrow> dfs_normalize_path None newpath s;
                    (result, s) \<leftarrow>
                      (case q of
                         None \<Rightarrow> Some (- DFS_STATUS_ENOENT, s)
                       | Some b \<Rightarrow>
                           do { oldfullpath \<leftarrow> str_of a s;
                                newfullpath \<leftarrow> str_of b s;
                                (oldfs, s) \<leftarrow> dfs_filesystem_lookup oldfullpath s;
                                (newfs, s) \<leftarrow> dfs_filesystem_lookup newfullpath s;
                                if oldfs = newfs then
                                  do { fs \<leftarrow> oldfs;
                                       ops \<leftarrow> ops_of C fs s;
                                       (case op_rename ops of
                                          None \<Rightarrow> Some (- DFS_STATUS_ENOSYS, s)
                                        | Some f \<Rightarrow>
                                            if op_flags ops AND DFS_FS_FLAG_FULLPATH \<noteq> 0
                                            then c_rename C f fs (Some oldfullpath) (Some newfullpath) s
                                            else do { old \<leftarrow> below fs oldfullpath s;
                                                      new \<leftarrow> below fs newfullpath s;
                                                      c_rename C f fs old new s }) }
                                else Some (- DFS_STATUS_EXDEV, s) });
                    s \<leftarrow> str_free p s;
                    s \<leftarrow> str_free q s;
                    Some (result, s) }) }"

section \<open>Mounting\<close>

text \<open>An operation of the device layer on the devices of the state.\<close>

definition on_sys :: "('w system \<Rightarrow> ('a \<times> 'w system) option) \<Rightarrow> 'w dfs \<Rightarrow> ('a \<times> 'w dfs) option" where
  "on_sys f s = do { (r, y) \<leftarrow> f (dfs_sys s); Some (r, s\<lparr>dfs_sys := y\<rparr>) }"

text \<open>The search of the type: an empty entry of the table is used like any other.\<close>

fun mount_find :: "'w fs_code \<Rightarrow> u8 list \<Rightarrow> nat list \<Rightarrow> 'w dfs \<Rightarrow> nat option option" where
  "mount_find C filesystemtype [] s = Some None"
| "mount_find C filesystemtype (i # is) s =
     do { p \<leftarrow> filesystem_operation_table s i;
          if op_name (op_struct C p) = filesystemtype then Some (Some p) else mount_find C filesystemtype is s }"

text \<open>The search of an empty entry; \<open>None\<close> inside when something is mounted at the path.\<close>

fun mount_scan :: "u8 list \<Rightarrow> nat list \<Rightarrow> nat option \<Rightarrow> 'w dfs \<Rightarrow> nat option option option" where
  "mount_scan path [] fs s = Some (Some fs)"
| "mount_scan path (i # is) fs s =
     (if fs_ops (filesystem_table s i) = None then mount_scan path is (if fs = None then Some i else fs) s
      else do {
        a \<leftarrow> fs_path (filesystem_table s i);
        m \<leftarrow> str_of a s;
        if m = path then Some None else mount_scan path is fs s })"

definition mount_err1 :: "nat \<Rightarrow> 'w dfs \<Rightarrow> (int \<times> 'w dfs) option" where
  "mount_err1 a s = do { s \<leftarrow> str_free (Some a) (dfs_unlock s); Some (- 1, s) }"

text \<open>Whether the directory can be mounted on: the root, the directory of the devices, or a directory that can be opened.\<close>

definition mount_point_ok :: "'w fs_code \<Rightarrow> u8 list \<Rightarrow> 'w dfs \<Rightarrow> (bool \<times> 'w dfs) option" where
  "mount_point_ok C fullpath s =
     (if fullpath \<noteq> [SEP] \<and> fullpath \<noteq> map of_char ''/dev'' then
        do { (r, s) \<leftarrow> dfs_file_open C (Some (Var 0)) fullpath (DFS_O_RDONLY OR DFS_O_DIRECTORY) s;
             if r < 0 then Some (False, s)
             else do { (_, s) \<leftarrow> dfs_file_close C (Var 0) s; Some (True, s) } }
      else Some (True, s))"

definition mount_device :: "'w driver_code \<Rightarrow> nat option \<Rightarrow> 'w dfs \<Rightarrow> (bool \<times> 'w dfs) option" where
  "mount_device D dev_id s =
     (case dev_id of
        None \<Rightarrow> Some (True, s)
      | Some d \<Rightarrow> do { (r, s) \<leftarrow> on_sys (rt_device_open D d RT_DEVICE_OFLAG_RDWR) s; Some (r = RT_EOK, s) })"

definition mount_entry :: "'w fs_code \<Rightarrow> 'w driver_code \<Rightarrow> nat \<Rightarrow> nat \<Rightarrow> nat \<Rightarrow> nat \<Rightarrow> nat option \<Rightarrow> u32 \<Rightarrow> nat \<Rightarrow> 'w dfs \<Rightarrow> (int \<times> 'w dfs) option" where
  "mount_entry C D p f a fs dev_id rwflag data s =
     do { let s = upd_fs fs (\<lambda>v. v\<lparr>fs_path := Some a, fs_ops := Some p, fs_dev_id := dev_id\<rparr>) s;
          let s = dfs_unlock s;
          (opened, s) \<leftarrow> mount_device D dev_id s;
          if \<not> opened then mount_err1 a (upd_fs fs (\<lambda>_. zero_fs) (dfs_lock s))
          else do {
            (r, s) \<leftarrow> c_mount C f fs rwflag data s;
            if r < 0 then
              do { (_, s) \<leftarrow> (case dev_id of
                                None \<Rightarrow> Some (RT_EOK, s)
                              | Some _ \<Rightarrow> do { d \<leftarrow> fs_dev_id (filesystem_table s fs); on_sys (rt_device_close D d) s });
                   mount_err1 a (upd_fs fs (\<lambda>_. zero_fs) (dfs_lock s)) }
            else Some (0, s) } }"

definition mount_at :: "'w fs_code \<Rightarrow> 'w driver_code \<Rightarrow> nat \<Rightarrow> nat \<Rightarrow> u8 list \<Rightarrow> nat option \<Rightarrow> u32 \<Rightarrow> nat \<Rightarrow> 'w dfs \<Rightarrow> (int \<times> 'w dfs) option" where
  "mount_at C D p f path dev_id rwflag data s =
     do { (r, s) \<leftarrow> dfs_normalize_path None path s;
          (case r of
             None \<Rightarrow> Some (- 1, dfs_errno (- DFS_STATUS_ENOTDIR) s)
           | Some a \<Rightarrow>
               do { fullpath \<leftarrow> str_of a s;
                    (ok, s) \<leftarrow> mount_point_ok C fullpath s;
                    if \<not> ok then do { s \<leftarrow> str_free (Some a) s; Some (- 1, dfs_errno (- DFS_STATUS_ENOTDIR) s) }
                    else do {
                      let s = dfs_lock s;
                      e \<leftarrow> mount_scan path [0 ..< DFS_FILESYSTEMS_MAX] None s;
                      (case e of
                         None \<Rightarrow> mount_err1 a (dfs_errno (- DFS_STATUS_EINVAL) s)
                       | Some None \<Rightarrow> mount_err1 a (dfs_errno (- DFS_STATUS_ENOSPC) s)
                       | Some (Some fs) \<Rightarrow> mount_entry C D p f a fs dev_id rwflag data s) } }) }"

definition dfs_mount ::
  "'w fs_code \<Rightarrow> 'w driver_code \<Rightarrow> cstr option \<Rightarrow> u8 list \<Rightarrow> u8 list \<Rightarrow> u32 \<Rightarrow> nat \<Rightarrow> 'w dfs \<Rightarrow> (int \<times> 'w dfs) option" where
  "dfs_mount C D device_name path filesystemtype rwflag data s =
     do { (found, s) \<leftarrow> (case device_name of
                            None \<Rightarrow> Some (Some None, s)
                          | Some name \<Rightarrow>
                              do { (r, s) \<leftarrow> on_sys (rt_device_find name) s;
                                   (case r of None \<Rightarrow> Some (None, s) | Some (ODevice d) \<Rightarrow> Some (Some (Some d), s) | Some _ \<Rightarrow> None) });
          (case found of
             None \<Rightarrow> Some (- 1, dfs_errno (- DFS_STATUS_ENODEV) s)
           | Some dev_id \<Rightarrow>
               do { let s = dfs_lock s;
                    t \<leftarrow> mount_find C filesystemtype [0 ..< DFS_FILESYSTEM_TYPES_MAX] s;
                    let s = dfs_unlock s;
                    (case t of
                       None \<Rightarrow> Some (- 1, dfs_errno (- DFS_STATUS_ENODEV) s)
                     | Some p \<Rightarrow>
                         (case op_mount (op_struct C p) of
                            None \<Rightarrow> Some (- 1, dfs_errno (- DFS_STATUS_ENOSYS) s)
                          | Some f \<Rightarrow> mount_at C D p f path dev_id rwflag data s)) }) }"

fun unmount_find :: "u8 list \<Rightarrow> nat list \<Rightarrow> 'w dfs \<Rightarrow> nat option option" where
  "unmount_find fullpath [] s = Some None"
| "unmount_find fullpath (i # is) s =
     (case fs_path (filesystem_table s i) of
        None \<Rightarrow> unmount_find fullpath is s
      | Some a \<Rightarrow> do { m \<leftarrow> str_of a s; if m = fullpath then Some (Some i) else unmount_find fullpath is s })"

definition unmount_err1 :: "nat \<Rightarrow> 'w dfs \<Rightarrow> (int \<times> 'w dfs) option" where
  "unmount_err1 a s = do { s \<leftarrow> str_free (Some a) (dfs_unlock s); Some (- 1, s) }"

definition dfs_unmount :: "'w fs_code \<Rightarrow> 'w driver_code \<Rightarrow> u8 list \<Rightarrow> 'w dfs \<Rightarrow> (int \<times> 'w dfs) option" where
  "dfs_unmount C D specialfile s =
     do { (p, s) \<leftarrow> dfs_normalize_path None specialfile s;
          (case p of
             None \<Rightarrow> Some (- 1, dfs_errno (- DFS_STATUS_ENOTDIR) s)
           | Some a \<Rightarrow>
               do { fullpath \<leftarrow> str_of a s;
                    let s = dfs_lock s;
                    r \<leftarrow> unmount_find fullpath [0 ..< DFS_FILESYSTEMS_MAX] s;
                    (case r of
                       None \<Rightarrow> unmount_err1 a s
                     | Some fs \<Rightarrow>
                         do { ops \<leftarrow> ops_of C fs s;
                              (case op_unmount ops of
                                 None \<Rightarrow> unmount_err1 a s
                               | Some f \<Rightarrow>
                                   do { (r, s) \<leftarrow> c_unmount C f fs s;
                                        if r < 0 then unmount_err1 a s
                                        else do {
                                          (_, s) \<leftarrow> (case fs_dev_id (filesystem_table s fs) of
                                                       None \<Rightarrow> Some (RT_EOK, s)
                                                     | Some d \<Rightarrow> on_sys (rt_device_close D d) s);
                                          s \<leftarrow> str_free (fs_path (filesystem_table s fs)) s;
                                          let s = dfs_unlock (upd_fs fs (\<lambda>_. zero_fs) s);
                                          s \<leftarrow> str_free (Some a) s;
                                          Some (0, s) } }) }) }) }"

fun mkfs_find :: "'w fs_code \<Rightarrow> u8 list \<Rightarrow> nat list \<Rightarrow> 'w dfs \<Rightarrow> nat option" where
  "mkfs_find C fs_name [] s = None"
| "mkfs_find C fs_name (i # is) s =
     (case filesystem_operation_table s i of
        None \<Rightarrow> mkfs_find C fs_name is s
      | Some p \<Rightarrow> if op_name (op_struct C p) = fs_name then Some p else mkfs_find C fs_name is s)"

definition dfs_mkfs :: "'w fs_code \<Rightarrow> u8 list \<Rightarrow> cstr option \<Rightarrow> 'w dfs \<Rightarrow> (int \<times> 'w dfs) option" where
  "dfs_mkfs C fs_name device_name s =
     do { (dev_id, s) \<leftarrow> (case device_name of
                             None \<Rightarrow> Some (None, s)
                           | Some name \<Rightarrow>
                               do { (r, s) \<leftarrow> on_sys (rt_device_find name) s;
                                    (case r of None \<Rightarrow> Some (None, s) | Some (ODevice d) \<Rightarrow> Some (Some d, s) | Some _ \<Rightarrow> None) });
          (case dev_id of
             None \<Rightarrow> Some (- 1, dfs_errno (- DFS_STATUS_ENODEV) s)
           | Some d \<Rightarrow>
               let s = dfs_lock s; t = mkfs_find C fs_name [0 ..< DFS_FILESYSTEM_TYPES_MAX] s; s = dfs_unlock s
               in (case t of
                  Some p \<Rightarrow>
                    (case op_mkfs (op_struct C p) of
                       None \<Rightarrow> Some (- 1, dfs_errno (- DFS_STATUS_ENOSYS) s)
                     | Some f \<Rightarrow> c_mkfs C f d s)
                | None \<Rightarrow> Some (- 1, kmsg ''Can not find the file system which named as %s.\<newline>'' [KStr fs_name] s))) }"

definition dfs_statfs :: "'w fs_code \<Rightarrow> u8 list \<Rightarrow> u32 \<Rightarrow> 'w dfs \<Rightarrow> (int \<times> 'w dfs) option" where
  "dfs_statfs C path buffer s =
     do { (r, s) \<leftarrow> dfs_filesystem_lookup path s;
          (case r of
             None \<Rightarrow> Some (- 1, s)
           | Some fs \<Rightarrow>
               do { ops \<leftarrow> ops_of C fs s;
                    (case op_statfs ops of None \<Rightarrow> Some (- 1, s) | Some f \<Rightarrow> c_statfs C f fs buffer s) }) }"

record dfs_mount_tbl =
  mt_device_name :: "cstr option"
  mt_path :: "u8 list"
  mt_filesystemtype :: "u8 list"
  mt_rwflag :: u32
  mt_data :: nat

text \<open>The table of the mounts at the start; its end is an entry without a path.\<close>

fun dfs_mount_table :: "'w fs_code \<Rightarrow> 'w driver_code \<Rightarrow> dfs_mount_tbl list \<Rightarrow> 'w dfs \<Rightarrow> (int \<times> 'w dfs) option" where
  "dfs_mount_table C D [] s = Some (0, s)"
| "dfs_mount_table C D (m # ms) s =
     do { (r, s) \<leftarrow> dfs_mount C D (mt_device_name m) (mt_path m) (mt_filesystemtype m) (mt_rwflag m) (mt_data m) s;
          if r \<noteq> 0 then Some (- RT_ERROR, kmsg ''mount fs[%s] on %s failed.\<newline>'' [KStr (mt_filesystemtype m), KStr (mt_path m)] s)
          else dfs_mount_table C D ms s }"

record dfs_partition =
  part_type :: u8
  part_offset :: u32
  part_size :: u32

definition le32 :: "bytes \<Rightarrow> nat \<Rightarrow> u32" where
  "le32 m a = ucast (m a) OR push_bit 8 (ucast (m (a + 1))) OR push_bit 16 (ucast (m (a + 2))) OR push_bit 24 (ucast (m (a + 3)))"

definition dfs_filesystem_get_partition :: "dfs_partition \<Rightarrow> u32 \<Rightarrow> u32 \<Rightarrow> 'w dfs \<Rightarrow> rt_err_t \<times> dfs_partition \<times> 'w dfs" where
  "dfs_filesystem_get_partition part buf pindex s =
     (let m = sys_mem (dfs_sys s); dpt = unat (buf + 0x1be + pindex * 16); type = m (dpt + 4)
      in if m dpt \<noteq> 0x80 \<and> m dpt \<noteq> 0x00 then (- RT_ERROR, part, s)
         else if type = 0 then (- RT_ERROR, part, s)
         else
           let part = part\<lparr>part_type := type, part_offset := le32 m (dpt + 8), part_size := le32 m (dpt + 12)\<rparr>;
               sz = part_size part;
               s = kmsg ''found part[%d], begin: %d, size: '' [KInt pindex, KInt (part_offset part * 512)] s;
               s = (if drop_bit 11 sz = 0 then kmsg ''%d%s'' [KInt (drop_bit 1 sz), KStr (map of_char ''KB\<newline>'')] s
                    else let part_sz = drop_bit 11 sz
                         in if drop_bit 10 part_sz = 0
                            then kmsg ''%d.%d%s'' [KInt part_sz, KInt (drop_bit 1 sz AND 0x3FF), KStr (map of_char ''MB\<newline>'')] s
                            else kmsg ''%d.%d%s'' [KInt (drop_bit 10 part_sz), KInt (part_sz AND 0x3FF), KStr (map of_char ''GB\<newline>'')] s)
           in (RT_EOK, part, s))"

end
