(* ===== verification/DfsPosix.thy ===== *)
theory DfsPosix
  imports Dfs
begin

text \<open>
  The functions of \<^verbatim>\<open>components/dfs/src/dfs_posix.c\<close> on file descriptors, paths and directory streams.  A function that fails returns -1, or
  \<^verbatim>\<open>RT_NULL\<close>, and sets the error number.
\<close>

unbundle bit_operations_syntax

section \<open>Files\<close>

definition posix_open :: "'w fs_code \<Rightarrow> u8 list \<Rightarrow> u32 \<Rightarrow> 'w dfs \<Rightarrow> (int \<times> 'w dfs) option" where
  "posix_open C file flags s =
     (let (fd, s) = fd_new s
      in if fd < 0 then Some (- 1, dfs_errno (- DFS_STATUS_ENOMEM) s)
         else
           let (r, s) = fd_get fd s
           in do { d \<leftarrow> r;
                   (result, s) \<leftarrow> dfs_file_open C (Some d) file flags s;
                   if result < 0 then
                     let s = fd_put d s; s = fd_put d s in Some (- 1, dfs_errno result s)
                   else Some (fd, fd_put d s) })"

text \<open>What the functions on a descriptor have in common: the number is checked first.\<close>

definition with_fd :: "int \<Rightarrow> (fdref \<Rightarrow> 'w dfs \<Rightarrow> (int \<times> 'w dfs) option) \<Rightarrow> 'w dfs \<Rightarrow> (int \<times> 'w dfs) option" where
  "with_fd fd body s =
     (let (r, s) = fd_get fd s
      in case r of None \<Rightarrow> Some (- 1, dfs_errno (- DFS_STATUS_EBADF) s) | Some d \<Rightarrow> body d s)"

definition posix_close :: "'w fs_code \<Rightarrow> int \<Rightarrow> 'w dfs \<Rightarrow> (int \<times> 'w dfs) option" where
  "posix_close C fd =
     with_fd fd (\<lambda>d s.
       do { (result, s) \<leftarrow> dfs_file_close C d s;
            let s = fd_put d s;
            if result < 0 then Some (- 1, dfs_errno result s)
            else Some (0, fd_put d s) })"

definition posix_read :: "'w fs_code \<Rightarrow> int \<Rightarrow> u32 \<Rightarrow> u32 \<Rightarrow> 'w dfs \<Rightarrow> (int \<times> 'w dfs) option" where
  "posix_read C fd buf len =
     with_fd fd (\<lambda>d s.
       do { (result, s) \<leftarrow> dfs_file_read C (Some d) buf len s;
            if result < 0 then Some (- 1, dfs_errno result (fd_put d s))
            else Some (result, fd_put d s) })"

definition posix_write :: "'w fs_code \<Rightarrow> int \<Rightarrow> u32 \<Rightarrow> u32 \<Rightarrow> 'w dfs \<Rightarrow> (int \<times> 'w dfs) option" where
  "posix_write C fd buf len =
     with_fd fd (\<lambda>d s.
       do { (result, s) \<leftarrow> dfs_file_write C (Some d) buf len s;
            if result < 0 then Some (- 1, dfs_errno result (fd_put d s))
            else Some (result, fd_put d s) })"

abbreviation (input) DFS_SEEK_SET :: int where "DFS_SEEK_SET \<equiv> 0"
abbreviation (input) DFS_SEEK_CUR :: int where "DFS_SEEK_CUR \<equiv> 1"
abbreviation (input) DFS_SEEK_END :: int where "DFS_SEEK_END \<equiv> 2"

definition posix_lseek :: "'w fs_code \<Rightarrow> int \<Rightarrow> u32 \<Rightarrow> int \<Rightarrow> 'w dfs \<Rightarrow> (int \<times> 'w dfs) option" where
  "posix_lseek C fd offset whence =
     with_fd fd (\<lambda>d s.
       if whence \<noteq> DFS_SEEK_SET \<and> whence \<noteq> DFS_SEEK_CUR \<and> whence \<noteq> DFS_SEEK_END then Some (- 1, dfs_errno (- DFS_STATUS_EINVAL) s)
       else
         let offset = (if whence = DFS_SEEK_CUR then offset + fd_pos (fds s d)
                       else if whence = DFS_SEEK_END then offset + fd_size (fds s d) else offset)
         in if sint offset < 0 then Some (- 1, dfs_errno (- DFS_STATUS_EINVAL) s)
            else do {
              (result, s) \<leftarrow> dfs_file_lseek C d offset s;
              if result < 0 then Some (- 1, dfs_errno result (fd_put d s))
              else Some (sint offset, fd_put d s) })"

section \<open>Paths\<close>

definition neg_errno :: "int \<times> 'w dfs \<Rightarrow> int \<times> 'w dfs" where
  "neg_errno rs = (if fst rs < 0 then (- 1, dfs_errno (fst rs) (snd rs)) else (0, snd rs))"

definition posix_rename :: "'w fs_code \<Rightarrow> u8 list \<Rightarrow> u8 list \<Rightarrow> 'w dfs \<Rightarrow> (int \<times> 'w dfs) option" where
  "posix_rename C old new s = map_option neg_errno (dfs_file_rename C old new s)"

definition posix_unlink :: "'w fs_code \<Rightarrow> u8 list \<Rightarrow> 'w dfs \<Rightarrow> (int \<times> 'w dfs) option" where
  "posix_unlink C pathname s = map_option neg_errno (dfs_file_unlink C pathname s)"

definition posix_rmdir :: "'w fs_code \<Rightarrow> u8 list \<Rightarrow> 'w dfs \<Rightarrow> (int \<times> 'w dfs) option" where
  "posix_rmdir C pathname s = map_option neg_errno (dfs_file_unlink C pathname s)"

definition posix_stat :: "'w fs_code \<Rightarrow> u8 list \<Rightarrow> u32 \<Rightarrow> 'w dfs \<Rightarrow> (int \<times> 'w dfs) option" where
  "posix_stat C file buf s =
     do { (result, s) \<leftarrow> dfs_file_stat C file buf s;
          if result < 0 then Some (- 1, dfs_errno result s) else Some (result, s) }"

definition posix_statfs :: "'w fs_code \<Rightarrow> u8 list \<Rightarrow> u32 \<Rightarrow> 'w dfs \<Rightarrow> (int \<times> 'w dfs) option" where
  "posix_statfs C path buf s =
     do { (result, s) \<leftarrow> dfs_statfs C path buf s;
          if result < 0 then Some (- 1, dfs_errno result s) else Some (result, s) }"

definition posix_fstat :: "int \<Rightarrow> u32 \<Rightarrow> 'w dfs \<Rightarrow> (int \<times> 'w dfs) option" where
  "posix_fstat fildes buf =
     with_fd fildes (\<lambda>d s.
       let mode = DFS_S_IFREG OR DFS_S_RW;
           mode = (if fd_type (fds s d) = FT_DIRECTORY then (mode AND NOT DFS_S_IFREG) OR DFS_S_IFDIR OR DFS_S_IX else mode);
           s = put_stat buf mode (fd_size (fds s d)) s
       in Some (0, fd_put d s))"

section \<open>Directories\<close>

definition posix_mkdir :: "'w fs_code \<Rightarrow> u8 list \<Rightarrow> 'w dfs \<Rightarrow> (int \<times> 'w dfs) option" where
  "posix_mkdir C path s =
     (let (fd, s) = fd_new s
      in if fd = - 1 then Some (- 1, dfs_errno (- DFS_STATUS_ENOMEM) s)
         else
           let (r, s) = fd_get fd s
           in do { d \<leftarrow> r;
                   (result, s) \<leftarrow> dfs_file_open C (Some d) path (DFS_O_DIRECTORY OR DFS_O_CREAT) s;
                   if result < 0 then Some (- 1, dfs_errno result (fd_put d s))
                   else do { (_, s) \<leftarrow> dfs_file_close C d s; Some (0, fd_put d s) } })"

text \<open>The memory of a directory stream; its buffer is at the address given by the number of the allocation.\<close>

definition dir_malloc :: "(nat \<Rightarrow> u32) \<Rightarrow> 'w dfs \<Rightarrow> nat option \<times> 'w dfs" where
  "dir_malloc addr s =
     (let n = alloc_no s; s1 = s\<lparr>alloc_no := n + 1\<rparr>
      in if alloc_ok s n then (Some n, s1\<lparr>dirs := (dirs s1)(n \<mapsto> \<lparr>dir_fd = 0, dir_buf = addr n, dir_num = 0, dir_cur = 0\<rparr>)\<rparr>) else (None, s1))"

definition upd_dir :: "nat \<Rightarrow> (dir \<Rightarrow> dir) \<Rightarrow> 'w dfs \<Rightarrow> 'w dfs" where
  "upd_dir t f s = s\<lparr>dirs := (dirs s)(t := map_option f (dirs s t))\<rparr>"

definition posix_opendir :: "'w fs_code \<Rightarrow> (nat \<Rightarrow> u32) \<Rightarrow> u8 list \<Rightarrow> 'w dfs \<Rightarrow> (nat option \<times> 'w dfs) option" where
  "posix_opendir C addr name s =
     (let (fd, s) = fd_new s
      in if fd = - 1 then Some (None, dfs_errno (- DFS_STATUS_ENOMEM) s)
         else
           let (r, s) = fd_get fd s
           in do { d \<leftarrow> r;
                   (result, s) \<leftarrow> dfs_file_open C (Some d) name (DFS_O_RDONLY OR DFS_O_DIRECTORY) s;
                   if result \<ge> 0 then
                     (case dir_malloc addr s of
                        (None, s) \<Rightarrow> do { (_, s) \<leftarrow> dfs_file_close C d s; Some (None, fd_put d (fd_put d s)) }
                      | (Some t, s) \<Rightarrow> Some (Some t, fd_put d (upd_dir t (\<lambda>v. v\<lparr>dir_fd := fd\<rparr>) s)))
                   else
                     let s = fd_put d s; s = fd_put d s in Some (None, dfs_errno result s) })"

definition d_reclen :: "u32 \<Rightarrow> int \<Rightarrow> 'w dfs \<Rightarrow> u16" where
  "d_reclen buf cur s = get16 (sys_mem (dfs_sys s)) (unat buf + nat cur + 2)"

text \<open>The result is the address of an entry.\<close>

definition posix_readdir :: "'w fs_code \<Rightarrow> nat \<Rightarrow> 'w dfs \<Rightarrow> (u32 option \<times> 'w dfs) option" where
  "posix_readdir C t s =
     do { v \<leftarrow> dirs s t;
          let (r, s) = fd_get (dir_fd v) s;
          (case r of
             None \<Rightarrow> Some (None, dfs_errno (- DFS_STATUS_EBADF) s)
           | Some d \<Rightarrow>
               do { let v = (if dir_num v \<noteq> 0 then v\<lparr>dir_cur := dir_cur v + uint (d_reclen (dir_buf v) (dir_cur v) s)\<rparr> else v);
                    let s = upd_dir t (\<lambda>_. v) s;
                    if dir_num v = 0 \<or> dir_cur v \<ge> dir_num v then
                      do { (result, s) \<leftarrow> dfs_file_getdents C (Some d) (dir_buf v) (512 - 1) s;
                           if result \<le> 0 then Some (None, dfs_errno result (fd_put d s))
                           else
                             let s = upd_dir t (\<lambda>v. v\<lparr>dir_num := result, dir_cur := 0\<rparr>) s
                             in Some (Some (dir_buf v), fd_put d s) }
                    else Some (Some (dir_buf v + word_of_int (dir_cur v)), fd_put d s) }) }"

definition posix_telldir :: "nat \<Rightarrow> 'w dfs \<Rightarrow> (int \<times> 'w dfs) option" where
  "posix_telldir t s =
     do { v \<leftarrow> dirs s t;
          let (r, s) = fd_get (dir_fd v) s;
          (case r of
             None \<Rightarrow> Some (0, dfs_errno (- DFS_STATUS_EBADF) s)
           | Some d \<Rightarrow> Some (sint (fd_pos (fds s d)) - dir_num v + dir_cur v, fd_put d s)) }"

definition posix_seekdir :: "'w fs_code \<Rightarrow> nat \<Rightarrow> u32 \<Rightarrow> 'w dfs \<Rightarrow> 'w dfs option" where
  "posix_seekdir C t offset s =
     do { v \<leftarrow> dirs s t;
          let (r, s) = fd_get (dir_fd v) s;
          (case r of
             None \<Rightarrow> Some (dfs_errno (- DFS_STATUS_EBADF) s)
           | Some d \<Rightarrow>
               do { (result, s) \<leftarrow> dfs_file_lseek C d offset s;
                    let s = (if result \<ge> 0 then upd_dir t (\<lambda>v. v\<lparr>dir_num := 0, dir_cur := 0\<rparr>) s else s);
                    Some (fd_put d s) }) }"

definition posix_rewinddir :: "'w fs_code \<Rightarrow> nat \<Rightarrow> 'w dfs \<Rightarrow> 'w dfs option" where
  "posix_rewinddir C t s =
     do { v \<leftarrow> dirs s t;
          let (r, s) = fd_get (dir_fd v) s;
          (case r of
             None \<Rightarrow> Some (dfs_errno (- DFS_STATUS_EBADF) s)
           | Some d \<Rightarrow>
               do { (result, s) \<leftarrow> dfs_file_lseek C d 0 s;
                    let s = (if result \<ge> 0 then upd_dir t (\<lambda>v. v\<lparr>dir_num := 0, dir_cur := 0\<rparr>) s else s);
                    Some (fd_put d s) }) }"

definition posix_closedir :: "'w fs_code \<Rightarrow> nat \<Rightarrow> 'w dfs \<Rightarrow> (int \<times> 'w dfs) option" where
  "posix_closedir C t s =
     do { v \<leftarrow> dirs s t;
          let (r, s) = fd_get (dir_fd v) s;
          (case r of
             None \<Rightarrow> Some (- 1, dfs_errno (- DFS_STATUS_EBADF) s)
           | Some d \<Rightarrow>
               do { (result, s) \<leftarrow> dfs_file_close C d s;
                    let s = fd_put d (fd_put d s);
                    valid_access (dirs s t \<noteq> None);
                    let s = s\<lparr>dirs := (dirs s)(t := None)\<rparr>;
                    if result < 0 then Some (- 1, dfs_errno result s) else Some (0, s) }) }"

definition posix_getcwd :: "u32 \<Rightarrow> 'w dfs \<Rightarrow> u32 \<times> 'w dfs" where
  "posix_getcwd buf s = (buf, kmsg NO_WORKING_DIR [] s)"

end
