(* ===== verification/DfsLookup.thy ===== *)
theory DfsLookup
  imports DfsPosix "HOL-Library.Sublist"
begin

text \<open>
  What \<^verbatim>\<open>dfs_normalize_path\<close>, \<^verbatim>\<open>dfs_filesystem_lookup\<close> and \<^verbatim>\<open>dfs_subdir\<close> compute, in terms of the names of a path.
\<close>

section \<open>Full paths\<close>

definition with_str :: "u8 list \<Rightarrow> 'w dfs \<Rightarrow> 'w dfs" where
  "with_str t s = s\<lparr>alloc_no := alloc_no s + 1, strs := (strs s)(alloc_no s \<mapsto> t)\<rparr>"

definition without_str :: "'w dfs \<Rightarrow> 'w dfs" where
  "without_str s = s\<lparr>alloc_no := alloc_no s + 1, strs := (strs s)(alloc_no s := None)\<rparr>"

lemma normalize_cases:
  assumes "0 \<notin> set text" and "alloc_ok s (alloc_no s)" and "text = (if filename \<noteq> [] \<and> hd filename = SEP then filename else the directory @ [SEP] @ filename)"
    and "directory \<noteq> None \<or> filename \<noteq> [] \<and> hd filename = SEP"
  shows "dfs_normalize_path directory filename s =
    (case resolve_path text of
       None \<Rightarrow> Some (None, without_str s)
     | Some p \<Rightarrow> if p = (False, []) then None else Some (Some (alloc_no s), with_str (path_text p) s))"
proof -
  have f: "str_malloc text s = (Some (alloc_no s), with_str text s)"
    using assms(2) by (simp add: str_malloc_def with_str_def Let_def)
  have g: "str_free (Some (alloc_no s)) (with_str text s) = Some (without_str s)"
    by (simp add: str_free_def with_str_def without_str_def)
  show ?thesis using f g assms(3,4) norm_path_correct [OF assms(1)]
    by (cases "resolve_path text") (auto simp: dfs_normalize_path_def rt_strdup_def Let_def with_str_def split: if_splits)
qed

lemma normalize_root:
  assumes "0 \<notin> set filename" and "filename \<noteq> []" and "hd filename = SEP" and "alloc_ok s (alloc_no s)"
    and "resolve_path filename = Some (True, ws)"
  shows "dfs_normalize_path directory filename s = Some (Some (alloc_no s), with_str (path_text (True, ws)) s)"
  using normalize_cases [of filename s filename directory] assms by simp

text \<open>
  C35: the full path built from a path that stays below the root has the names of the path, in their order, without the empty ones and the dots, and a name
  followed by two dots left out; it begins with a separator and has no other than the ones between the names. Building it again changes nothing.\<close>

theorem dfs_normalize_path_correct:
  assumes "0 \<notin> set filename" and "filename \<noteq> []" and "hd filename = SEP" and "alloc_ok s (alloc_no s)" and "alloc_ok s (alloc_no s + 1)"
    and "resolve_path filename = Some (True, ws)"
  shows "\<exists>a s1 t. dfs_normalize_path directory filename s = Some (Some a, s1) \<and> strs s a = strs s (alloc_no s) \<and> strs s1 = (strs s)(a \<mapsto> t) \<and>
    t = SEP # concat (map (\<lambda>w. w @ [SEP]) (butlast ws)) @ (if ws = [] then [] else last ws) \<and>
    (\<forall>w \<in> set ws. w \<noteq> [] \<and> SEP \<notin> set w \<and> w \<noteq> [DOT] \<and> w \<noteq> [DOT, DOT]) \<and>
    (\<exists>b s2. dfs_normalize_path None t s1 = Some (Some b, s2) \<and> strs s2 b = Some t \<and> b \<noteq> a)"
proof -
  let ?t = "path_text (True, ws)"
  note r = resolve_path_text [OF assms(1,6)]
  have n: "dfs_normalize_path None ?t (with_str ?t s) = Some (Some (alloc_no s + 1), with_str ?t (with_str ?t s))"
    using normalize_root [OF r(2) _ _ _ r(1), of "with_str ?t s" None] path_text_root [of ws] assms(5) by (simp add: with_str_def)
  have w: "\<forall>w \<in> set ws. w \<noteq> [DOT] \<and> w \<noteq> [DOT, DOT] \<and> name_ok w"
    using resolve_names [OF assms(6) [unfolded resolve_path_def]] path_names_ok [OF assms(1)] by auto
  show ?thesis
    using normalize_root [OF assms(1-4,6), of directory] n w
    by (intro exI [of _ "alloc_no s"] exI [of _ "with_str ?t s"] exI [of _ ?t])
      (auto simp: with_str_def path_text_def with_seps_def name_ok_def)
qed

section \<open>Mounted file systems\<close>

definition mounted :: "'w dfs \<Rightarrow> nat \<Rightarrow> u8 list \<Rightarrow> bool" where
  "mounted s i m \<longleftrightarrow> i < DFS_FILESYSTEMS_MAX \<and> fs_ops (filesystem_table s i) \<noteq> None \<and>
     (\<exists>a. fs_path (filesystem_table s i) = Some a \<and> strs s a = Some m)"

text \<open>No entry of the table has a path that is not there.\<close>

definition mounts_ok :: "'w dfs \<Rightarrow> bool" where
  "mounts_ok s \<longleftrightarrow> (\<forall>i < DFS_FILESYSTEMS_MAX. \<forall>a. fs_path (filesystem_table s i) = Some a \<longrightarrow> strs s a \<noteq> None)"

definition covers :: "u8 list \<Rightarrow> u8 list \<Rightarrow> bool" where
  "covers m path \<longleftrightarrow> take (length m) path = m \<and> (length m \<le> 1 \<or> length path \<le> length m \<or> path ! length m = SEP)"

fun best_of :: "'w dfs \<Rightarrow> u8 list \<Rightarrow> nat set \<Rightarrow> nat option \<times> nat \<Rightarrow> bool" where
  "best_of s path I (None, n) \<longleftrightarrow> n = 0 \<and> (\<forall>j m'. j \<in> I \<and> mounted s j m' \<longrightarrow> \<not> covers m' path)"
| "best_of s path I (Some i, n) \<longleftrightarrow>
     (\<exists>m. mounted s i m \<and> covers m path \<and> n = length m) \<and> (\<forall>j m'. j \<in> I \<and> mounted s j m' \<and> covers m' path \<longrightarrow> length m' \<le> n)"

lemma mounted_unique: "mounted s i m \<Longrightarrow> mounted s i m' \<Longrightarrow> m' = m"
  by (auto simp: mounted_def)

lemma lookup_step_skip:
  assumes "mounts_ok s" and "i < DFS_FILESYSTEMS_MAX" and "\<not> (\<exists>m. mounted s i m)"
  shows "lookup_step path s i best = Some best"
proof (cases "fs_path (filesystem_table s i)")
  case (Some a)
  then show ?thesis using assms by (auto simp: lookup_step_def mounted_def mounts_ok_def)
qed (simp add: lookup_step_def)

lemma lookup_step_mounted:
  assumes "mounted s i m"
  shows "lookup_step path s i best = Some (if covers m path \<and> snd best \<le> length m then (Some i, length m) else best)"
proof -
  obtain a p where a: "fs_path (filesystem_table s i) = Some a" "strs s a = Some m" "fs_ops (filesystem_table s i) = Some p"
    using assms by (auto simp: mounted_def)
  define T where "T \<longleftrightarrow> take (length m) path = m"
  show ?thesis
    unfolding lookup_step_def a option.case str_of_def bind.simps Let_def covers_def T_def [symmetric]
    by (cases T; cases "length m < snd best"; cases "length m \<le> 1"; cases "length path \<le> length m") auto
qed

lemma lookup_step_best:
  assumes "mounts_ok s" and "i < DFS_FILESYSTEMS_MAX" and "best_of s path I best"
  shows "\<exists>best'. lookup_step path s i best = Some best' \<and> best_of s path (insert i I) best'"
proof (cases "\<exists>m. mounted s i m")
  case False
  obtain r n where "best = (r, n)" by fastforce
  then have "best_of s path (insert i I) best" using assms(3) False by (cases r) auto
  then show ?thesis using lookup_step_skip [OF assms(1,2) False] by simp
next
  case True
  then obtain m where m: "mounted s i m" by blast
  obtain r n where best: "best = (r, n)" by fastforce
  let ?c = "covers m path \<and> n \<le> length m"
  have "best_of s path (insert i I) (if ?c then (Some i, length m) else best)"
  proof (cases r)
    case None
    then have none: "n = 0" "\<And>j m'. j \<in> I \<Longrightarrow> mounted s j m' \<Longrightarrow> \<not> covers m' path" using assms(3) best by auto
    show ?thesis
    proof (cases "covers m path")
      case True
      have "length m' \<le> length m" if "j \<in> insert i I" "mounted s j m'" "covers m' path" for j m'
        using none(2) [of j m'] mounted_unique [OF m, of m'] that by auto
      then show ?thesis using True none(1) m by auto
    next
      case False
      have "\<not> covers m' path" if "j \<in> insert i I" "mounted s j m'" for j m'
        using none(2) [of j m'] mounted_unique [OF m, of m'] that False by auto
      then show ?thesis using False none(1) best None by auto
    qed
  next
    case (Some k)
    have old: "length m' \<le> n" if "j \<in> I" "mounted s j m'" "covers m' path" for j m' using assms(3) best Some that by auto
    have new: "length m' \<le> length m" if "?c" "j \<in> insert i I" "mounted s j m'" "covers m' path" for j m'
      using old [of j m'] mounted_unique [OF m, of m'] that by auto
    show ?thesis
    proof (cases ?c)
      case True
      then show ?thesis using new m by auto
    next
      case False
      then have "length m' \<le> n" if "j \<in> insert i I" "mounted s j m'" "covers m' path" for j m'
        using old [of j m'] mounted_unique [OF m, of m'] that by auto
      then show ?thesis using False assms(3) best Some by auto
    qed
  qed
  then show ?thesis using lookup_step_mounted [OF m, of path best] best by simp
qed

lemma lookup_loop_best:
  "mounts_ok s \<Longrightarrow> \<forall>i \<in> set is. i < DFS_FILESYSTEMS_MAX \<Longrightarrow> best_of s path I best \<Longrightarrow>
   \<exists>best'. lookup_loop path s is best = Some best' \<and> best_of s path (set is \<union> I) best'"
proof (induction "is" arbitrary: I best)
  case (Cons i "is")
  then obtain b where b: "lookup_step path s i best = Some b" "best_of s path (insert i I) b"
    using lookup_step_best [of s i path I best] by auto
  then obtain b' where "lookup_loop path s is b = Some b'" "best_of s path (set is \<union> insert i I) b'"
    using Cons.IH [OF Cons.prems(1) _ b(2)] Cons.prems(2) by auto
  then show ?case using b(1) by (intro exI [of _ b']) simp
qed simp

lemma lock_tables [simp]:
  "mounts_ok (dfs_lock s) = mounts_ok s" "mounted (dfs_lock s) = mounted s" "dfs_unlock (dfs_lock s) = s"
  by (auto simp: mounts_ok_def mounted_def dfs_lock_def dfs_unlock_def fun_eq_iff)

lemma lookup_best:
  assumes "mounts_ok s"
  obtains r n where "dfs_filesystem_lookup path s = Some (r, s)" "best_of s path {0 ..< DFS_FILESYSTEMS_MAX} (r, n)"
proof -
  have b: "best_of (dfs_lock s) path {} (None, 0)" by simp
  obtain best where l: "lookup_loop path (dfs_lock s) [0 ..< DFS_FILESYSTEMS_MAX] (None, 0) = Some best"
    "best_of (dfs_lock s) path (set [0 ..< DFS_FILESYSTEMS_MAX] \<union> {}) best"
    using lookup_loop_best [OF _ _ b, of "[0 ..< DFS_FILESYSTEMS_MAX]"] assms by auto
  obtain r n where best: "best = (r, n)" by fastforce
  have "best_of (dfs_lock s) path I (r, n) = best_of s path I (r, n)" for I by (cases r) simp_all
  then have "best_of s path {0 ..< DFS_FILESYSTEMS_MAX} (r, n)" using l(2) best by (metis Un_empty_right set_upt)
  moreover have "dfs_filesystem_lookup path s = Some (r, s)" using l(1) best by (simp add: dfs_filesystem_lookup_def Let_def)
  ultimately show ?thesis using that by blast
qed

section \<open>Mount points by their names\<close>

abbreviation root_path :: "u8 list list \<Rightarrow> u8 list" where
  "root_path ws \<equiv> path_text (True, ws)"

definition seps_names :: "u8 list list \<Rightarrow> u8 list" where
  "seps_names ws = concat (map (\<lambda>w. SEP # w) ws)"

lemma seps_names_simps [simp]:
  "seps_names [] = []" "seps_names (w # ws) = SEP # w @ seps_names ws" "seps_names (us @ ws) = seps_names us @ seps_names ws"
  by (simp_all add: seps_names_def)

lemma with_seps_names: "with_seps (True, ws) = seps_names ws @ [SEP]"
  by (induction ws rule: rev_induct) simp_all

lemma root_path_names: "root_path ws = (if ws = [] then [SEP] else seps_names ws)"
  by (cases ws rule: rev_cases) (simp_all add: with_seps_names, simp add: path_text_def)

lemma seps_names_hd: "seps_names ws = [] \<or> hd (seps_names ws) = SEP"
  by (cases ws) auto

lemma name_append_eq:
  assumes "m @ x = p @ y" and "SEP \<notin> set m" and "SEP \<notin> set p" and "x = [] \<or> hd x = SEP" and "y = [] \<or> hd y = SEP"
  shows "m = p \<and> x = y"
proof -
  have t: "takeWhile (\<lambda>c. c \<noteq> SEP) (u @ v) = u" if "SEP \<notin> set u" "v = [] \<or> hd v = SEP" for u v :: "u8 list"
    using that by (cases v) (auto simp: takeWhile_append takeWhile_eq_all_conv)
  have "m = p" using t [of m x] t [of p y] assms by metis
  then show ?thesis using assms(1) by simp
qed

lemma seps_names_prefix:
  "\<forall>w \<in> set ms. name_ok w \<Longrightarrow> \<forall>w \<in> set ps. name_ok w \<Longrightarrow> seps_names ps = seps_names ms @ rest \<Longrightarrow> rest = [] \<or> hd rest = SEP \<Longrightarrow> prefix ms ps"
proof (induction ms arbitrary: ps)
  case (Cons m ms)
  then obtain p qs where ps: "ps = p # qs" by (cases ps) auto
  have h: "seps_names ms @ rest = [] \<or> hd (seps_names ms @ rest) = SEP" using Cons.prems(4) seps_names_hd [of ms] by (cases "seps_names ms") auto
  have "p = m \<and> seps_names qs = seps_names ms @ rest"
    using name_append_eq [of p "seps_names qs" m "seps_names ms @ rest"] Cons.prems ps seps_names_hd [of qs] h by (auto simp: name_ok_def)
  then show ?case using Cons ps by simp
qed simp

lemma seps_names_length: "\<forall>w \<in> set ws. name_ok w \<Longrightarrow> ws \<noteq> [] \<Longrightarrow> 2 \<le> length (seps_names ws)"
  by (cases ws) (auto simp: name_ok_def Suc_le_eq)

lemma covers_names:
  assumes "\<forall>w \<in> set ms. name_ok w" and "\<forall>w \<in> set ps. name_ok w"
  shows "covers (root_path ms) (root_path ps) \<longleftrightarrow> prefix ms ps"
proof (cases "ms = []")
  case True
  then show ?thesis using path_text_root [of ps] by (cases "root_path ps") (auto simp: covers_def root_path_names)
next
  case ms: False
  note l = seps_names_length [OF assms(1) ms]
  show ?thesis
  proof (cases "ps = []")
    case True
    then show ?thesis using ms l by (auto simp: covers_def root_path_names dest: arg_cong [of _ _ length])
  next
    case ps: False
    show ?thesis
    proof
      assume c: "covers (root_path ms) (root_path ps)"
      define rest where "rest = drop (length (seps_names ms)) (seps_names ps)"
      have "seps_names ps = seps_names ms @ rest"
        using c ms ps append_take_drop_id [of "length (seps_names ms)" "seps_names ps"] by (simp add: covers_def root_path_names rest_def)
      moreover have "rest = [] \<or> hd rest = SEP" using c ms ps l
        by (cases "length (seps_names ps) \<le> length (seps_names ms)") (auto simp: covers_def root_path_names rest_def hd_drop_conv_nth)
      ultimately show "prefix ms ps" using seps_names_prefix assms by blast
    next
      assume "prefix ms ps"
      then obtain rs where "ps = ms @ rs" by (auto simp: prefix_def)
      then show "covers (root_path ms) (root_path ps)" using ms by (cases rs) (auto simp: covers_def root_path_names nth_append)
    qed
  qed
qed

lemma dfs_subdir_names:
  assumes "\<forall>w \<in> set (ms @ rs). name_ok w"
  shows "dfs_subdir (root_path ms) (root_path (ms @ rs)) = Some (if rs = [] then None else Some (root_path rs))"
proof (cases rs)
  case (Cons r qs)
  then have "r \<noteq> []" "SEP \<notin> set r" using assms by (auto simp: name_ok_def)
  then obtain c cs where "r = c # cs" "c \<noteq> SEP" by (cases r) auto
  then show ?thesis using Cons by (cases "ms = []") (simp_all add: dfs_subdir_def root_path_names Let_def nth_append)
qed (simp add: dfs_subdir_def)

lemma root_path_prefix_length:
  assumes "prefix ms ps" and "prefix ks ps" and "\<forall>w \<in> set ps. name_ok w" and "length (root_path ks) \<le> length (root_path ms)"
  shows "prefix ks ms"
proof -
  have "prefix ks ms \<or> prefix ms ks" using assms(1,2) prefix_same_cases by blast
  moreover have "ks = ms" if k: "prefix ms ks"
  proof -
    obtain rs where rs: "ks = ms @ rs" using k by (auto simp: prefix_def)
    have ok: "\<forall>w \<in> set rs. name_ok w" using assms(2,3) rs by (auto simp: prefix_def)
    show ?thesis using assms(4) rs seps_names_length [OF ok] by (cases "rs = []"; cases "ms = []") (auto simp: root_path_names)
  qed
  ultimately show ?thesis by auto
qed

text \<open>
  C36: the file system a full path belongs to is the one mounted at the most specific directory above it: every other mount point above the path is
  above that one too; the path the file system is given has the remaining names. When nothing is found nothing is mounted above the path.\<close>

theorem dfs_filesystem_lookup_correct:
  assumes "mounts_ok s" and "\<forall>i m. mounted s i m \<longrightarrow> (\<exists>ms. m = root_path ms \<and> (\<forall>w \<in> set ms. name_ok w))" and "\<forall>w \<in> set ps. name_ok w"
  shows "\<exists>r. dfs_filesystem_lookup (root_path ps) s = Some (r, s) \<and>
    (case r of
       None \<Rightarrow> \<not> (\<exists>i ms. mounted s i (root_path ms) \<and> prefix ms ps)
     | Some i \<Rightarrow> \<exists>ms rs. mounted s i (root_path ms) \<and> ps = ms @ rs \<and> below i (root_path ps) s = Some (if rs = [] then None else Some (root_path rs)) \<and>
                 (\<forall>j ks. mounted s j (root_path ks) \<and> prefix ks ps \<longrightarrow> prefix ks ms))"
proof -
  obtain r n where r: "dfs_filesystem_lookup (root_path ps) s = Some (r, s)" "best_of s (root_path ps) {0 ..< DFS_FILESYSTEMS_MAX} (r, n)"
    using lookup_best [OF assms(1)] by blast
  have lim: "j \<in> {0 ..< DFS_FILESYSTEMS_MAX}" if "mounted s j m" for j m using that by (simp add: mounted_def)
  have cov: "covers (root_path ks) (root_path ps)" if "prefix ks ps" for ks
    using covers_names [of ks ps] that assms(3) by (auto simp: prefix_def)
  show ?thesis
  proof (cases r)
    case None
    then show ?thesis using r lim cov by fastforce
  next
    case (Some i)
    then obtain m where m: "mounted s i m" "covers m (root_path ps)" "n = length m" using r(2) by auto
    obtain ms where ms: "m = root_path ms" "\<forall>w \<in> set ms. name_ok w" using assms(2) m(1) by blast
    have p: "prefix ms ps" using covers_names [OF ms(2) assms(3)] m(2) ms(1) by simp
    then obtain rs where rs: "ps = ms @ rs" by (auto simp: prefix_def)
    have "below i (root_path ps) s = Some (if rs = [] then None else Some (root_path rs))"
      using dfs_subdir_names [of ms rs] m(1) ms(1) assms(3) rs by (auto simp: below_def mounted_def str_of_def)
    moreover have "prefix ks ms" if k: "mounted s j (root_path ks)" "prefix ks ps" for j ks
      using root_path_prefix_length [OF p k(2) assms(3)] r(2) Some m(3) ms(1) lim [OF k(1)] cov [OF k(2)] k(1) by auto
    ultimately show ?thesis using r(1) Some m(1) ms(1) rs by auto
  qed
qed

section \<open>Paths above the root\<close>

text \<open>
  Going up from the root loses the root: the full path of \<open>/..\<close> is empty, and removing the separator at its end reads the byte before the buffer; the
  full path of \<open>/../a\<close> is \<open>a\<close>.\<close>

theorem dfs_normalize_above_root:
  assumes "alloc_ok s (alloc_no s)"
  shows "dfs_normalize_path directory [SEP, DOT, DOT] s = None"
    and "dfs_normalize_path directory [SEP, DOT, DOT, SEP, 0x61] s = Some (Some (alloc_no s), with_str [0x61] s)"
    and "dfs_normalize_path directory [SEP, DOT, DOT, SEP, DOT, DOT] s = Some (None, without_str s)"
  using normalize_cases [of "[SEP, DOT, DOT]" s "[SEP, DOT, DOT]" directory]
    normalize_cases [of "[SEP, DOT, DOT, SEP, 0x61]" s "[SEP, DOT, DOT, SEP, 0x61]" directory]
    normalize_cases [of "[SEP, DOT, DOT, SEP, DOT, DOT]" s "[SEP, DOT, DOT, SEP, DOT, DOT]" directory] assms
  by (simp_all add: resolve_path_def path_names_def path_text_def with_seps_def)

section \<open>Examples\<close>

definition no_devices :: "unit system" where
  "no_devices = \<lparr>sys_kernel = kernel0, sys_mem = (\<lambda>_. 0), devices = (\<lambda>_. a_device), console_device = None, sys_world = ()\<rparr>"

text \<open>A file system at the root and one at \<open>/mnt\<close>.\<close>

definition two_mounts :: "'w system \<Rightarrow> 'w dfs" where
  "two_mounts y =
     \<lparr>dfs_sys = y, fslock = 0, filesystem_operation_table = (\<lambda>_. None),
      filesystem_table = (\<lambda>i. zero_fs\<lparr>fs_path := Some i, fs_ops := Some 0\<rparr>), fds = (\<lambda>_. zero_fd),
      strs = [0 \<mapsto> [SEP], 1 \<mapsto> map of_char ''/mnt''], dirs = Map.empty, alloc_ok = (\<lambda>_. True), alloc_no = 2, kmsgs = []\<rparr>"

theorem dfs_normalize_path_correct_witness:
  "\<exists>a s1. dfs_normalize_path None (map of_char ''/mnt//./x/../a.txt/'') (two_mounts no_devices) = Some (Some a, s1) \<and>
     strs s1 a = Some (map of_char ''/mnt/a.txt'')"
proof -
  have r: "resolve_path (map of_char ''/mnt//./x/../a.txt/'') = Some (True, [map of_char ''mnt'', map of_char ''a.txt''])"
    by (simp add: resolve_path_def path_names_def)
  show ?thesis
    using dfs_normalize_path_correct [OF _ _ _ _ _ r, of "two_mounts no_devices" None] by (auto simp: two_mounts_def)
qed

lemma two_mounts_names:
  "mounted (two_mounts y) i m \<longleftrightarrow> (i = 0 \<and> m = root_path []) \<or> (i = 1 \<and> m = root_path [map of_char ''mnt''])"
  by (auto simp: mounted_def two_mounts_def root_path_names less_2_cases_iff)

theorem dfs_filesystem_lookup_correct_witness:
  "\<exists>r. dfs_filesystem_lookup (root_path [map of_char ''mnt'', map of_char ''a.txt'']) (two_mounts no_devices) = Some (r, two_mounts no_devices) \<and> r = Some 1"
proof -
  let ?s = "two_mounts no_devices" and ?m = "[map of_char ''mnt''] :: u8 list list" and ?p = "[map of_char ''mnt'', map of_char ''a.txt''] :: u8 list list"
  have n: "\<forall>w \<in> set ?p. name_ok w" by (simp add: name_ok_def)
  have ok: "mounts_ok ?s" by (auto simp: mounts_ok_def two_mounts_def less_2_cases_iff)
  have all: "\<forall>i m. mounted ?s i m \<longrightarrow> (\<exists>ms. m = root_path ms \<and> (\<forall>w \<in> set ms. name_ok w))"
    unfolding two_mounts_names
    by (intro allI impI, elim disjE conjE) (rule exI [of _ "[]"], simp, rule exI [of _ ?m], simp add: name_ok_def)
  obtain r where r: "dfs_filesystem_lookup (root_path ?p) ?s = Some (r, ?s)"
    "case r of None \<Rightarrow> \<not> (\<exists>i ms. mounted ?s i (root_path ms) \<and> prefix ms ?p)
      | Some i \<Rightarrow> \<exists>ms rs. mounted ?s i (root_path ms) \<and> ?p = ms @ rs \<and> below i (root_path ?p) ?s = Some (if rs = [] then None else Some (root_path rs)) \<and>
                 (\<forall>j ks. mounted ?s j (root_path ks) \<and> prefix ks ?p \<longrightarrow> prefix ks ms)"
    using dfs_filesystem_lookup_correct [OF ok all n] by blast
  have m1: "mounted ?s 1 (root_path ?m)" by (simp add: two_mounts_names)
  have "r \<noteq> None" using r(2) m1 by (cases r) (force simp: prefix_def)+
  then obtain i ms where i: "r = Some i" "mounted ?s i (root_path ms)" "\<forall>j ks. mounted ?s j (root_path ks) \<and> prefix ks ?p \<longrightarrow> prefix ks ms"
    using r(2) by auto
  have "prefix ?m ms" using i(3) [rule_format, OF conjI [OF m1]] by simp
  then have "root_path ms \<noteq> root_path []" by (auto simp: prefix_def root_path_names)
  then have "r = Some 1" using i(1,2) by (auto simp: two_mounts_names)
  then show ?thesis using r(1) by simp
qed

end
