(* ===== verification/DfsProps.thy ===== *)
theory DfsProps
  imports DfsLookup
begin

text \<open>
  The descriptors and the strings of the device file system.  A file system promises to leave alone what is not its own; with that every
  string on the heap belongs to one mount point or one open file, before and after every operation.
\<close>

unbundle bit_operations_syntax

lemma bind_SomeE:
  assumes "Option.bind x f = Some y"
  obtains a where "x = Some a" "f a = Some y"
  using assms by (auto simp: Option.bind_eq_Some_conv)

section \<open>What stays\<close>

definition keeps :: "'w dfs \<Rightarrow> 'w dfs \<Rightarrow> bool" where
  "keeps s s' \<longleftrightarrow>
     fslock s' = fslock s \<and> filesystem_operation_table s' = filesystem_operation_table s \<and> dirs s' = dirs s \<and> alloc_no s \<le> alloc_no s' \<and>
     (\<forall>i. fs_dev_id (filesystem_table s' i) = fs_dev_id (filesystem_table s i) \<and> fs_path (filesystem_table s' i) = fs_path (filesystem_table s i) \<and>
          fs_ops (filesystem_table s' i) = fs_ops (filesystem_table s i))"

lemma keeps_refl [simp]: "keeps s s"
  by (simp add: keeps_def)

lemma keeps_trans [trans]: "keeps s t \<Longrightarrow> keeps t u \<Longrightarrow> keeps s u"
  by (auto simp: keeps_def)

lemma keeps_updates [simp]:
  "keeps s (upd_fd d f t) = keeps s t" "keeps s (dfs_errno e t) = keeps s t" "keeps s (kmsg m as t) = keeps s t"
  "keeps s (t\<lparr>strs := x\<rparr>) = keeps s t" "keeps s (put_stat buf mode sz t) = keeps s t" "keeps (upd_fd d f s) t = keeps s t"
  by (simp_all add: keeps_def upd_fd_def dfs_errno_def kmsg_def put_stat_def)

text \<open>A function of a file system: other descriptors and the strings stay, and so do the fields of its own descriptor that the file system does not own.\<close>

definition drv_frame :: "fdref option \<Rightarrow> 'w dfs \<Rightarrow> 'w dfs \<Rightarrow> bool" where
  "drv_frame d s s' \<longleftrightarrow>
     keeps s s' \<and> strs s' = strs s \<and> (\<forall>e. Some e \<noteq> d \<longrightarrow> fds s' e = fds s e) \<and>
     (\<forall>e. fd_magic (fds s' e) = fd_magic (fds s e) \<and> fd_type (fds s' e) = fd_type (fds s e) \<and> fd_path (fds s' e) = fd_path (fds s e) \<and>
          fd_ref_count (fds s' e) = fd_ref_count (fds s e) \<and> fd_fs (fds s' e) = fd_fs (fds s e))"

definition fresh :: "'w dfs \<Rightarrow> bool" where
  "fresh s \<longleftrightarrow> (\<forall>a. alloc_no s \<le> a \<longrightarrow> strs s a = None)"

lemma keeps_tables: "keeps s s' \<Longrightarrow> strs s' = strs s \<Longrightarrow> mounts_ok s' = mounts_ok s \<and> mounted s' = mounted s"
  by (auto simp: keeps_def mounts_ok_def mounted_def fun_eq_iff)

lemma fresh_keeps: "fresh s \<Longrightarrow> keeps s s' \<Longrightarrow> strs s' = strs s \<Longrightarrow> fresh s'"
  by (auto simp: fresh_def keeps_def)

section \<open>Building and looking up a path\<close>

text \<open>The outcome of building a full path: nothing is left on the heap, or the path.\<close>

definition normalized :: "nat option \<Rightarrow> 'w dfs \<Rightarrow> 'w dfs \<Rightarrow> bool" where
  "normalized p s s' \<longleftrightarrow>
     keeps s s' \<and> fds s' = fds s \<and>
     (case p of None \<Rightarrow> strs s' = strs s | Some a \<Rightarrow> strs s a = None \<and> a < alloc_no s' \<and> (\<exists>t. strs s' = (strs s)(a \<mapsto> t) \<and> 0 \<notin> set t))"

lemma normalize_outcome:
  assumes "dfs_normalize_path directory path s = Some (p, s')" and "fresh s" and "0 \<notin> set path" and "directory = None \<or> 0 \<notin> set (the directory)"
  shows "normalized p s s' \<and> fresh s'"
proof (cases "directory = None \<and> \<not> (path \<noteq> [] \<and> hd path = SEP)")
  case True
  then show ?thesis using assms(1,2) by (auto simp: dfs_normalize_path_def normalized_def kmsg_def fresh_def keeps_def Let_def)
next
  case False
  define full where "full = (if path \<noteq> [] \<and> hd path = SEP then path else the directory @ [SEP] @ path)"
  have t0: "0 \<notin> set full" using assms(3,4) False by (auto simp: full_def)
  show ?thesis
  proof (cases "alloc_ok s (alloc_no s)")
    case True
    note n = normalize_cases [OF t0 True full_def, unfolded assms(1)]
    have f: "strs s (alloc_no s) = None" using assms(2) by (simp add: fresh_def)
    show ?thesis
    proof (cases "resolve_path full")
      case None
      then show ?thesis using n False f assms(2)
        by (auto simp: normalized_def without_str_def keeps_def fresh_def fun_eq_iff)
    next
      case (Some q)
      then have q: "q \<noteq> (False, [])" "p = Some (alloc_no s)" "s' = with_str (path_text q) s" using n False by (auto split: if_splits)
      have "\<forall>w \<in> set (snd q). name_ok w"
        using resolve_names [OF Some [unfolded resolve_path_def]] path_names_ok [OF t0] by auto
      then have "0 \<notin> set (path_text q)" using path_text_no0 by blast
      then show ?thesis using q f assms(2) by (auto simp: normalized_def with_str_def keeps_def fresh_def)
    qed
  next
    case no: False
    then have "p = None \<and> s' = s\<lparr>alloc_no := alloc_no s + 1\<rparr>"
      using assms(1) False by (auto simp: dfs_normalize_path_def rt_strdup_def str_malloc_def Let_def split: if_splits)
    then show ?thesis using assms(2) by (auto simp: normalized_def keeps_def fresh_def)
  qed
qed

lemma lookup_outcome:
  assumes "mounts_ok s"
  obtains r where "dfs_filesystem_lookup path s = Some (r, s)"
    "\<And>i. r = Some i \<Longrightarrow> \<exists>m. mounted s i m \<and> covers m path"
proof -
  obtain r n where "dfs_filesystem_lookup path s = Some (r, s)" "best_of s path {0 ..< DFS_FILESYSTEMS_MAX} (r, n)"
    using lookup_best [OF assms] by blast
  then show ?thesis using that by (cases r) auto
qed

lemma below_total:
  assumes "mounted s i m" and "covers m path"
  shows "\<exists>sub. below i path s = Some sub"
proof -
  have "length m \<le> length path" using assms(2) unfolding covers_def by (metis length_take min.cobounded1)
  then show ?thesis using assms(1) by (auto simp: below_def mounted_def str_of_def dfs_subdir_def Let_def)
qed

lemma ops_of_mounted: "mounted s i m \<Longrightarrow> \<exists>ops. ops_of C i s = Some ops"
  by (auto simp: mounted_def ops_of_def)

section \<open>Opening\<close>

text \<open>A path is on the heap, or there was no memory for it.\<close>

definition path_owned :: "nat option \<Rightarrow> 'w dfs \<Rightarrow> 'w dfs \<Rightarrow> bool" where
  "path_owned p s s' \<longleftrightarrow>
     (case p of None \<Rightarrow> strs s' = strs s | Some a \<Rightarrow> strs s a = None \<and> a < alloc_no s' \<and> (\<exists>t. strs s' = (strs s)(a \<mapsto> t)))"

definition open_outcome :: "fdref \<Rightarrow> int \<Rightarrow> 'w dfs \<Rightarrow> 'w dfs \<Rightarrow> bool" where
  "open_outcome d r s s' \<longleftrightarrow>
     keeps s s' \<and> fresh s' \<and> (\<forall>e. e \<noteq> d \<longrightarrow> fds s' e = fds s e) \<and>
     (if r < 0 then strs s' = strs s \<and> (fds s' d = fds s d \<or> fds s' d = zero_fd)
      else r = 0 \<and> fd_magic (fds s' d) = fd_magic (fds s d) \<and> fd_ref_count (fds s' d) = fd_ref_count (fds s d) \<and>
           (\<exists>fs m. fd_fs (fds s' d) = Some fs \<and> mounted s fs m) \<and> path_owned (fd_path (fds s' d)) s s')"

lemma open_path_outcome:
  assumes "open_path ops fs a full d s = Some s1" and "fresh s" and "strs s = S(a \<mapsto> full)" and "S a = None" and "a < alloc_no s"
  shows "keeps s s1 \<and> fresh s1 \<and> (\<exists>q. fds s1 = (fds s)(d := (fds s d)\<lparr>fd_path := q\<rparr>) \<and>
    (case q of None \<Rightarrow> strs s1 = S | Some b \<Rightarrow> S b = None \<and> b < alloc_no s1 \<and> (\<exists>t. strs s1 = S(b \<mapsto> t))))"
proof (cases "op_flags ops AND DFS_FS_FLAG_FULLPATH = 0")
  case True
  then obtain t where t: "str_free (Some a) (upd_fd d (\<lambda>v. v\<lparr>fd_path := fst (rt_strdup t s)\<rparr>) (snd (rt_strdup t s))) = Some s1"
    using assms(1) by (auto simp: open_path_def Let_def split_beta Option.bind_eq_Some_conv)
  have n: "a \<noteq> alloc_no s" "S (alloc_no s) = None" using assms(2,3,5) by (auto simp: fresh_def)
  have Sn: "\<forall>x. alloc_no s \<le> x \<longrightarrow> S x = None" using assms(2-4) by (auto simp: fresh_def split: if_splits)
  have S: "S(alloc_no s \<mapsto> t, a := None) = S(alloc_no s \<mapsto> t)" "S(a := None) = S" using assms(4) n by (auto simp: fun_eq_iff)
  show ?thesis
  proof (cases "alloc_ok s (alloc_no s)")
    case True
    then have "s1 = s\<lparr>alloc_no := Suc (alloc_no s), fds := (fds s)(d := fds s d\<lparr>fd_path := Some (alloc_no s)\<rparr>), strs := S(alloc_no s \<mapsto> t)\<rparr>"
      using t assms(3) n S by (auto simp: rt_strdup_def str_malloc_def str_free_def Let_def upd_fd_def fun_upd_twist)
    then show ?thesis using assms(3) n Sn by (auto simp: keeps_def fresh_def intro!: exI [of _ "Some (alloc_no s)"])
  next
    case False
    then have "s1 = s\<lparr>alloc_no := Suc (alloc_no s), fds := (fds s)(d := fds s d\<lparr>fd_path := None\<rparr>), strs := S\<rparr>"
      using t assms(3) S by (auto simp: rt_strdup_def str_malloc_def str_free_def Let_def upd_fd_def)
    then show ?thesis using assms(3) Sn by (auto simp: keeps_def fresh_def intro!: exI [of _ None])
  qed
next
  case False
  then have "s1 = upd_fd d (\<lambda>v. v\<lparr>fd_path := Some a\<rparr>) s" using assms(1) by (simp add: open_path_def)
  then show ?thesis using assms(2-5) by (auto simp: fresh_def upd_fd_def keeps_def intro!: exI [of _ "Some a"])
qed

lemma clear_fd_outcome:
  assumes "clear_fd d s = Some s'" and "case fd_path (fds s d) of None \<Rightarrow> strs s = S | Some b \<Rightarrow> S b = None \<and> (\<exists>t. strs s = S(b \<mapsto> t))" and "fresh s"
  shows "keeps s s' \<and> fresh s' \<and> strs s' = S \<and> fds s' = (fds s)(d := zero_fd)"
proof (cases "fd_path (fds s d)")
  case None
  then show ?thesis using assms by (auto simp: clear_fd_def str_free_def upd_fd_def keeps_def fresh_def)
next
  case (Some b)
  then have "S(b := None) = S" "strs s = S(b := strs s b)" "s' = upd_fd d (\<lambda>_. zero_fd) (s\<lparr>strs := (strs s)(b := None)\<rparr>)"
    using assms(1,2) by (auto simp: clear_fd_def str_free_def fun_eq_iff)
  moreover from this(1,2) have "(strs s)(b := None) = S" by (metis fun_upd_upd)
  ultimately show ?thesis using assms(3) by (auto simp: upd_fd_def keeps_def fresh_def)
qed

locale fs_driver =
  fixes C :: "'w fs_code"
  assumes open_frame: "c_open C f d s = Some (r, s') \<Longrightarrow> drv_frame (Some d) s s'"
    and close_frame: "c_close C f d s = Some (r, s') \<Longrightarrow> drv_frame (Some d) s s'"
    and read_frame: "c_read C f d buf len s = Some (r, s') \<Longrightarrow> drv_frame (Some d) s s'"
    and write_frame: "c_write C f d buf len s = Some (r, s') \<Longrightarrow> drv_frame (Some d) s s'"
    and lseek_frame: "c_lseek C f d off s = Some (r, s') \<Longrightarrow> drv_frame (Some d) s s'"
    and unlink_frame: "c_unlink C f fs p s = Some (r, s') \<Longrightarrow> drv_frame None s s'"
    and stat_frame: "c_stat C f fs p buf s = Some (r, s') \<Longrightarrow> drv_frame None s s'"
    and rename_frame: "c_rename C f fs p q s = Some (r, s') \<Longrightarrow> drv_frame None s s'"
begin

lemma open_tail:
  assumes "c_open C f d s2 = Some (result, s3)" and "fresh s2"
    and "case fd_path (fds s2 d) of None \<Rightarrow> strs s2 = S | Some b \<Rightarrow> S b = None \<and> b < alloc_no s2 \<and> (\<exists>t. strs s2 = S(b \<mapsto> t))"
    and "open_end flags d result s3 = Some (r, s')"
  shows "keeps s2 s' \<and> fresh s' \<and> (\<forall>e. e \<noteq> d \<longrightarrow> fds s' e = fds s2 e) \<and>
    (if r < 0 then strs s' = S \<and> fds s' d = zero_fd
     else r = 0 \<and> strs s' = strs s2 \<and> fd_magic (fds s' d) = fd_magic (fds s2 d) \<and> fd_ref_count (fds s' d) = fd_ref_count (fds s2 d) \<and>
          fd_fs (fds s' d) = fd_fs (fds s2 d) \<and> fd_path (fds s' d) = fd_path (fds s2 d))"
proof -
  have fr: "drv_frame (Some d) s2 s3" using open_frame [OF assms(1)] .
  then have k: "keeps s2 s3" "strs s3 = strs s2" "fresh s3" using fresh_keeps [OF assms(2)] by (auto simp: drv_frame_def)
  show ?thesis
  proof (cases "result < 0")
    case True
    then have c: "clear_fd d s3 = Some s'" "r = result" using assms(4) by (auto simp: open_end_def Option.bind_eq_Some_conv)
    have "case fd_path (fds s3 d) of None \<Rightarrow> strs s3 = S | Some b \<Rightarrow> S b = None \<and> (\<exists>t. strs s3 = S(b \<mapsto> t))"
      using assms(3) fr k(2) by (auto simp: drv_frame_def split: option.splits)
    from clear_fd_outcome [OF c(1) this k(3)] show ?thesis
      using True c(2) fr keeps_trans [OF k(1)] by (auto simp: drv_frame_def)
  next
    case False
    then show ?thesis using assms(4) fr k
      by (auto simp: open_end_def drv_frame_def fresh_def Let_def upd_fd_def keeps_def split: if_splits)
  qed
qed

lemma file_open_outcome:
  assumes "dfs_file_open C (Some d) path flags s = Some (r, s')" and "fresh s" and "mounts_ok s" and "0 \<notin> set path"
  shows "open_outcome d r s s'"
proof -
  obtain p s1 where n: "dfs_normalize_path None path s = Some (p, s1)"
    using assms(1) by (auto simp: dfs_file_open_def Option.bind_eq_Some_conv)
  then have o: "normalized p s s1" "fresh s1" using normalize_outcome [OF n assms(2,4)] by auto
  show ?thesis
  proof (cases p)
    case None
    then show ?thesis using assms(1) n o by (auto simp: dfs_file_open_def open_outcome_def normalized_def)
  next
    case (Some a)
    then obtain full where full: "strs s a = None" "a < alloc_no s1" "strs s1 = (strs s)(a \<mapsto> full)" "keeps s s1" "fds s1 = fds s"
      using o by (auto simp: normalized_def)
    have "mounts_ok s1" using assms(3) full by (auto simp: mounts_ok_def keeps_def)
    then obtain q where q: "dfs_filesystem_lookup full s1 = Some (q, s1)" "\<And>i. q = Some i \<Longrightarrow> \<exists>m. mounted s1 i m \<and> covers m full"
      using lookup_outcome by blast
    show ?thesis
    proof (cases q)
      case None
      have "(strs s1)(a := None) = strs s" using full by (auto simp: fun_eq_iff)
      then show ?thesis using assms(1) n Some full q None o(2)
        by (auto simp: dfs_file_open_def str_of_def str_free_def open_outcome_def keeps_def fresh_def)
    next
      case fs: (Some fs)
      obtain m where m: "mounted s1 fs m" "covers m full" using q(2) fs by blast
      have m0: "\<exists>m. mounted s fs m" using m(1) full assms(3) by (auto simp: mounted_def keeps_def mounts_ok_def)
      let ?s1 = "upd_fd d (\<lambda>v. v\<lparr>fd_fs := Some fs, fd_type := FT_REGULAR, fd_flags := flags, fd_size := 0, fd_pos := 0\<rparr>) s1"
      obtain ops s2 where s2: "ops_of C fs s1 = Some ops" "open_path ops fs a full d ?s1 = Some s2"
        using assms(1) n Some full q fs by (auto simp: dfs_file_open_def str_of_def Option.bind_eq_Some_conv)
      have f1: "fresh ?s1" "strs ?s1 = (strs s)(a \<mapsto> full)" "a < alloc_no ?s1" using o(2) full by (auto simp: fresh_def upd_fd_def)
      obtain b where b: "keeps ?s1 s2" "fresh s2" "fds s2 = (fds ?s1)(d := (fds ?s1 d)\<lparr>fd_path := b\<rparr>)"
        "case b of None \<Rightarrow> strs s2 = strs s | Some c \<Rightarrow> strs s c = None \<and> c < alloc_no s2 \<and> (\<exists>t. strs s2 = (strs s)(c \<mapsto> t))"
        using open_path_outcome [OF s2(2) f1(1,2) full(1) f1(3)] by blast
      have b': "case fd_path (fds s2 d) of None \<Rightarrow> strs s2 = strs s | Some c \<Rightarrow> strs s c = None \<and> c < alloc_no s2 \<and> (\<exists>t. strs s2 = (strs s)(c \<mapsto> t))"
        using b(3,4) by simp
      have k2: "keeps s s2" using keeps_trans [OF full(4)] b(1) by simp
      show ?thesis
      proof (cases "op_open ops")
        case None
        have "clear_fd d s2 = Some s'" "r = - DFS_STATUS_ENOSYS"
          using assms(1) n Some full q fs s2 None by (auto simp: dfs_file_open_def str_of_def Option.bind_eq_Some_conv)
        moreover have "case fd_path (fds s2 d) of None \<Rightarrow> strs s2 = strs s | Some c \<Rightarrow> strs s c = None \<and> (\<exists>t. strs s2 = (strs s)(c \<mapsto> t))"
          using b' by (auto split: option.splits)
        ultimately show ?thesis using clear_fd_outcome [OF _ _ b(2)] keeps_trans [OF k2] b(3) full(5)
          by (fastforce simp: open_outcome_def upd_fd_def)
      next
        case (Some f)
        then obtain res s3 where s3: "c_open C f d s2 = Some (res, s3)"
          and t: "open_end flags d res s3 = Some (r, s')"
          using assms(1) n \<open>p = Some a\<close> full q fs s2 by (auto simp: dfs_file_open_def str_of_def Option.bind_eq_Some_conv)
        note tail = open_tail [OF s3 b(2) b' t]
        have fd2: "fds s2 e = (if e = d then (fds s d)\<lparr>fd_fs := Some fs, fd_type := FT_REGULAR, fd_flags := flags, fd_size := 0, fd_pos := 0, fd_path := b\<rparr> else fds s e)" for e
          using b(3) full(5) by (simp add: upd_fd_def)
        have k: "keeps s s'" using keeps_trans [OF k2] tail by blast
        have al: "alloc_no s2 \<le> alloc_no s'" using tail by (simp add: keeps_def)
        show ?thesis
        proof (cases "r < 0")
          case True
          then show ?thesis using tail k fd2 by (simp add: open_outcome_def)
        next
          case False
          then have "fd_path (fds s' d) = b" "strs s' = strs s2" using tail fd2 by simp_all
          then have "path_owned (fd_path (fds s' d)) s s'" using b(4) al by (auto simp: path_owned_def split: option.splits)
          then show ?thesis using False tail k fd2 m0 by (simp add: open_outcome_def)
        qed
      qed
    qed
  qed
qed

end

section \<open>The invariant\<close>

definition fd_closed :: "dfs_fd \<Rightarrow> bool" where
  "fd_closed v \<longleftrightarrow> fd_ref_count v \<le> 0 \<and> fd_magic v \<noteq> DFS_FD_MAGIC \<and> fd_path v = None \<and> fd_fs v = None"

definition fd_opened :: "'w dfs \<Rightarrow> dfs_fd \<Rightarrow> bool" where
  "fd_opened s v \<longleftrightarrow> fd_ref_count v \<ge> 1 \<and> fd_magic v = DFS_FD_MAGIC \<and> (\<exists>fs m. fd_fs v = Some fs \<and> mounted s fs m)"

lemma closed_not_opened: "fd_closed v \<Longrightarrow> \<not> fd_opened s v"
  by (simp add: fd_closed_def fd_opened_def)

text \<open>Who owns a string: a mount point or a descriptor.\<close>

fun owner :: "'w dfs \<Rightarrow> nat + nat \<Rightarrow> nat option" where
  "owner s (Inl i) = (if i < DFS_FILESYSTEMS_MAX then fs_path (filesystem_table s i) else None)"
| "owner s (Inr i) = (if i < DFS_FD_MAX then fd_path (fds s (Fd i)) else None)"

definition strs_owned :: "'w dfs \<Rightarrow> bool" where
  "strs_owned s \<longleftrightarrow> (\<forall>a. strs s a \<noteq> None \<longleftrightarrow> (\<exists>x. owner s x = Some a)) \<and> (\<forall>x y a. owner s x = Some a \<and> owner s y = Some a \<longrightarrow> x = y)"

definition dfs_inv :: "'w dfs \<Rightarrow> bool" where
  "dfs_inv s \<longleftrightarrow>
     fslock s = 0 \<and> fresh s \<and> strs_owned s \<and>
     (\<forall>i < DFS_FILESYSTEMS_MAX. fs_path (filesystem_table s i) = None \<longleftrightarrow> fs_ops (filesystem_table s i) = None) \<and>
     (\<forall>i < DFS_FD_MAX. fd_closed (fds s (Fd i)) \<or> fd_opened s (fds s (Fd i)))"

lemma inv_mounts_ok: "dfs_inv s \<Longrightarrow> mounts_ok s"
  unfolding dfs_inv_def strs_owned_def mounts_ok_def by (metis owner.simps(1))

lemma inv_owned: "dfs_inv s \<Longrightarrow> i < DFS_FD_MAX \<Longrightarrow> fd_path (fds s (Fd i)) = Some a \<Longrightarrow> strs s a \<noteq> None"
  unfolding dfs_inv_def strs_owned_def by (metis owner.simps(2))

text \<open>The invariant after a change of one descriptor: its path is released, and the new one is its own.\<close>

lemma inv_change:
  assumes inv: "dfs_inv s" and k: "keeps s s'" and fr: "fresh s'" and others: "\<And>e. e \<noteq> Fd i \<Longrightarrow> fds s' e = fds s e" and i: "i < DFS_FD_MAX"
    and S: "S = (case fd_path (fds s (Fd i)) of None \<Rightarrow> strs s | Some a \<Rightarrow> (strs s)(a := None))"
    and own: "case fd_path (fds s' (Fd i)) of None \<Rightarrow> strs s' = S | Some b \<Rightarrow> S b = None \<and> (\<exists>t. strs s' = S(b \<mapsto> t))"
    and ok: "fd_closed (fds s' (Fd i)) \<or> fd_opened s' (fds s' (Fd i))"
  shows "dfs_inv s'"
proof -
  have o: "owner s' x = (if x = Inr i then fd_path (fds s' (Fd i)) else owner s x)" for x
    using k others i by (cases x) (auto simp: keeps_def)
  have oi: "owner s (Inr i) = fd_path (fds s (Fd i))" using i by simp
  have so: "strs_owned s" using inv by (simp add: dfs_inv_def)
  have Sa: "S a \<noteq> None \<longleftrightarrow> (\<exists>x. x \<noteq> Inr i \<and> owner s x = Some a)" for a
  proof (cases "fd_path (fds s (Fd i))")
    case None
    then show ?thesis using so S oi unfolding strs_owned_def by (metis option.case(1) option.distinct(1))
  next
    case (Some c)
    then have "S = (strs s)(c := None)" using S by simp
    then show ?thesis using so oi Some unfolding strs_owned_def by (metis fun_upd_apply option.inject)
  qed
  have uniq: "x = y" if "owner s x = Some a" "owner s y = Some a" for x y a using so that unfolding strs_owned_def by blast
  have so': "strs_owned s'"
  proof (cases "fd_path (fds s' (Fd i))")
    case None
    then have "strs s' = S" using own by simp
    then show ?thesis unfolding strs_owned_def o using Sa uniq None by (auto split: if_splits)
  next
    case (Some b)
    then obtain t where b: "S b = None" "strs s' = S(b \<mapsto> t)" using own by auto
    then have "owner s x \<noteq> Some b" if "x \<noteq> Inr i" for x using Sa [of b] that by blast
    then show ?thesis unfolding strs_owned_def o using Sa uniq Some b(2) by (auto split: if_splits)
  qed
  have mnt: "strs s' a = strs s a" if "j < DFS_FILESYSTEMS_MAX" "fs_path (filesystem_table s j) = Some a" for j a
  proof -
    have "owner s (Inl j) = Some a" using that by simp
    then have "S a \<noteq> None" "fd_path (fds s (Fd i)) \<noteq> Some a" using Sa [of a] uniq [of "Inl j" a "Inr i"] oi by auto
    then show ?thesis using S own by (auto split: option.splits)
  qed
  then have mm: "mounted s' fs m = mounted s fs m" for fs m using k by (auto simp: mounted_def keeps_def)
  have "fd_closed (fds s' (Fd j)) \<or> fd_opened s' (fds s' (Fd j))" if "j < DFS_FD_MAX" for j
    using that inv ok others [of "Fd j"] mm by (cases "j = i") (auto simp: dfs_inv_def fd_opened_def)
  then show ?thesis using inv k fr so' by (simp add: dfs_inv_def keeps_def)
qed

section \<open>The descriptors\<close>

lemma first_free_spec:
  "idx \<le> first_free idx n s \<and> first_free idx n s \<le> idx + n \<and> (\<forall>j. idx \<le> j \<and> j < first_free idx n s \<longrightarrow> fd_ref_count (fds s (Fd j)) > 0) \<and>
   (first_free idx n s < idx + n \<longrightarrow> fd_ref_count (fds s (Fd (first_free idx n s))) \<le> 0)"
proof (induction n arbitrary: idx)
  case (Suc n)
  show ?case
  proof (cases "fd_ref_count (fds s (Fd idx)) > 0")
    case True
    then show ?thesis using Suc.IH [of "idx + 1"] by (auto simp: le_eq_less_or_eq [of idx] Suc_le_eq)
  qed auto
qed simp

definition taken :: "nat \<Rightarrow> 'w dfs \<Rightarrow> 'w dfs" where
  "taken i s = upd_fd (Fd i) (\<lambda>d. d\<lparr>fd_magic := DFS_FD_MAGIC, fd_ref_count := 2\<rparr>) s"

lemma lock_simps [simp]:
  "fds (dfs_lock s) = fds s" "fds (dfs_unlock s) = fds s" "strs (dfs_lock s) = strs s"
  "dfs_unlock (upd_fd d f (dfs_lock s)) = upd_fd d f s" "first_free n m (dfs_lock s) = first_free n m s"
  "dfs_unlock (upd_fd d f (upd_fd e g (dfs_lock s))) = upd_fd d f (upd_fd e g s)"
proof -
  show "first_free n m (dfs_lock s) = first_free n m s" by (induction m arbitrary: n) (simp_all add: dfs_lock_def)
qed (simp_all add: dfs_lock_def dfs_unlock_def upd_fd_def)

lemma fd_new_cases:
  assumes "dfs_inv s"
  obtains (full) "fd_new s = (- 1, s)" "\<forall>i < DFS_FD_MAX. fd_opened s (fds s (Fd i))"
  | (new) i where "i < DFS_FD_MAX" "fd_closed (fds s (Fd i))" "\<forall>j < i. fd_opened s (fds s (Fd j))" "fst (fd_new s) = int i"
      "fd_get (int i) (snd (fd_new s)) = (Some (Fd i), taken i s)"
proof -
  let ?i = "first_free 0 DFS_FD_MAX s"
  note ff = first_free_spec [of 0 DFS_FD_MAX s]
  have op: "fd_opened s (fds s (Fd j))" if "j < ?i" "j < DFS_FD_MAX" for j
  proof -
    have "fd_ref_count (fds s (Fd j)) > 0" using that(1) ff by simp
    then have "\<not> fd_closed (fds s (Fd j))" by (simp add: fd_closed_def)
    then show ?thesis using assms that(2) by (auto simp: dfs_inv_def)
  qed
  show ?thesis
  proof (cases "?i = DFS_FD_MAX")
    case True
    then show ?thesis using full op by (simp add: fd_new_def Let_def)
  next
    case False
    then have i: "?i < DFS_FD_MAX" using ff by linarith
    then have "fd_ref_count (fds s (Fd ?i)) \<le> 0" using ff by simp
    then have c: "fd_closed (fds s (Fd ?i))" using assms i by (auto simp: dfs_inv_def fd_opened_def)
    have "\<forall>j < ?i. fd_opened s (fds s (Fd j))" using op i by simp
    moreover have "fd_new s = (int ?i, upd_fd (Fd ?i) (\<lambda>d. d\<lparr>fd_ref_count := 1, fd_magic := DFS_FD_MAGIC\<rparr>) s)"
      using False by (simp add: fd_new_def Let_def)
    moreover have "fd_get (int ?i) (upd_fd (Fd ?i) (\<lambda>d. d\<lparr>fd_ref_count := 1, fd_magic := DFS_FD_MAGIC\<rparr>) s) = (Some (Fd ?i), taken ?i s)"
      using i by (simp add: fd_get_def Let_def taken_def upd_fd_def dfs_lock_def dfs_unlock_def)
    ultimately show ?thesis using new [of ?i] i c by simp
  qed
qed

lemma fd_put_simp:
  "fd_put d s = upd_fd d (\<lambda>v. if fd_ref_count v = 1 then zero_fd else v\<lparr>fd_ref_count := fd_ref_count v - 1\<rparr>) s"
  by (simp add: fd_put_def Let_def upd_fd_def dfs_lock_def dfs_unlock_def)

lemma upd_fd_simps [simp]:
  "fds (upd_fd d f s) e = (if e = d then f (fds s d) else fds s e)" "strs (upd_fd d f s) = strs s" "fresh (upd_fd d f s) = fresh s"
  "mounted (upd_fd d f s) = mounted s" "mounts_ok (upd_fd d f s) = mounts_ok s" "fd_opened (upd_fd d f s) = fd_opened s"
  "strs (dfs_errno n s) = strs s" "fds (dfs_errno n s) = fds s" "fresh (dfs_errno n s) = fresh s" "fd_opened (dfs_errno n s) = fd_opened s"
  by (auto simp: upd_fd_def fresh_def mounted_def mounts_ok_def fd_opened_def dfs_errno_def fun_eq_iff)

lemma path_owned_upd [simp]: "path_owned p (upd_fd d f s) s' = path_owned p s s'"
  by (cases p) (simp_all add: path_owned_def)

lemma inv_errno [simp]: "dfs_inv (dfs_errno e s) = dfs_inv s"
proof -
  have "owner (dfs_errno e s) x = owner s x" for x by (cases x) (simp_all add: dfs_errno_def)
  then show ?thesis by (simp add: dfs_inv_def strs_owned_def) (simp add: dfs_errno_def)
qed

lemma fd_get_cases:
  assumes "dfs_inv s"
  obtains (bad) "fd_get fd s = (None, s)" "fd < 0 \<or> fd \<ge> int DFS_FD_MAX \<or> fd_closed (fds s (Fd (nat fd)))"
  | (got) i where "fd = int i" "i < DFS_FD_MAX" "fd_opened s (fds s (Fd i))"
      "fd_get fd s = (Some (Fd i), upd_fd (Fd i) (\<lambda>v. v\<lparr>fd_ref_count := fd_ref_count v + 1\<rparr>) s)"
proof (cases "fd < 0 \<or> fd \<ge> int DFS_FD_MAX")
  case True
  then show ?thesis by (intro bad) (auto simp: fd_get_def)
next
  case False
  then obtain i where i: "fd = int i" "i < DFS_FD_MAX" by (metis int_nat_eq linorder_not_le nat_less_iff nat_int of_nat_less_iff)
  then consider "fd_closed (fds s (Fd i))" | "fd_opened s (fds s (Fd i))" using assms by (auto simp: dfs_inv_def)
  then show ?thesis
  proof cases
    case 1
    then show ?thesis using bad i by (simp add: fd_get_def Let_def fd_closed_def)
  next
    case 2
    then show ?thesis using got [OF i 2] i by (simp add: fd_get_def Let_def fd_opened_def)
  qed
qed

section \<open>The functions keep the invariant\<close>

lemma inv_same_paths:
  assumes "dfs_inv s" and "keeps s s'" and "strs s' = strs s" and "i < DFS_FD_MAX" and "\<And>e. e \<noteq> Fd i \<Longrightarrow> fds s' e = fds s e"
    and "fd_path (fds s' (Fd i)) = fd_path (fds s (Fd i))" and "fd_closed (fds s' (Fd i)) \<or> fd_opened s (fds s' (Fd i))"
  shows "dfs_inv s'"
proof -
  have m: "mounted s' = mounted s" and fr: "fresh s'" using keeps_tables [OF assms(2,3)] fresh_keeps assms(1-3) by (auto simp: dfs_inv_def)
  have "owner s (Inr i) = fd_path (fds s (Fd i))" using assms(4) by simp
  then have "\<exists>t. strs s a = Some t" if "fd_path (fds s (Fd i)) = Some a" for a
    using assms(1) that unfolding dfs_inv_def strs_owned_def by (metis option.exhaust)
  then have "case fd_path (fds s' (Fd i)) of
      None \<Rightarrow> strs s' = (case fd_path (fds s (Fd i)) of None \<Rightarrow> strs s | Some a \<Rightarrow> (strs s)(a := None))
    | Some b \<Rightarrow> (case fd_path (fds s (Fd i)) of None \<Rightarrow> strs s | Some a \<Rightarrow> (strs s)(a := None)) b = None \<and>
        (\<exists>t. strs s' = (case fd_path (fds s (Fd i)) of None \<Rightarrow> strs s | Some a \<Rightarrow> (strs s)(a := None))(b \<mapsto> t))"
    using assms(3,6) by (auto split: option.splits) (metis fun_upd_triv)
  from inv_change [OF assms(1,2) fr assms(5,4) refl this] show ?thesis using assms(7) m by (simp add: fd_opened_def)
qed

context fs_driver
begin

lemma posix_open_inv:
  assumes inv: "dfs_inv s" and path: "0 \<notin> set path" and run: "posix_open C path flags s = Some (r, s')"
  shows "dfs_inv s' \<and>
    (r < 0 \<longrightarrow> r = - 1 \<and> strs s' = strs s \<and> (\<forall>i < DFS_FD_MAX. fd_opened s' (fds s' (Fd i)) = fd_opened s (fds s (Fd i)))) \<and>
    (r \<ge> 0 \<longrightarrow> (\<exists>i < DFS_FD_MAX. r = int i \<and> fd_closed (fds s (Fd i)) \<and> (\<forall>j < i. fd_opened s (fds s (Fd j))) \<and>
       fd_opened s' (fds s' (Fd i)) \<and> (\<forall>e. e \<noteq> Fd i \<longrightarrow> fds s' e = fds s e)))"
  using inv
proof (cases rule: fd_new_cases)
  case full
  then show ?thesis using run inv by (auto simp: posix_open_def)
next
  case (new i)
  then obtain r1 s2 where o: "dfs_file_open C (Some (Fd i)) path flags (taken i s) = Some (r1, s2)"
    and e: "(if r1 < 0 then Some (- 1, dfs_errno r1 (fd_put (Fd i) (fd_put (Fd i) s2))) else Some (int i, fd_put (Fd i) s2)) = Some (r, s')"
    using run by (auto simp: posix_open_def Let_def split_beta Option.bind_eq_Some_conv split: if_splits)
  have "fresh (taken i s)" "mounts_ok (taken i s)" using inv inv_mounts_ok [OF inv] by (simp_all add: taken_def dfs_inv_def)
  from file_open_outcome [OF o this path] have out: "open_outcome (Fd i) r1 (taken i s) s2" .
  have k: "keeps s s2" "fresh s2" "\<And>e. e \<noteq> Fd i \<Longrightarrow> fds s2 e = fds s e"
    using out by (auto simp: open_outcome_def taken_def)
  have pn: "fd_path (fds s (Fd i)) = None" using new(2) by (simp add: fd_closed_def)
  show ?thesis
  proof (cases "r1 < 0")
    case True
    let ?t = "fd_put (Fd i) (fd_put (Fd i) s2)"
    have st: "strs s2 = strs s" using out True by (simp add: open_outcome_def taken_def)
    have c: "fd_closed (fds ?t (Fd i))" using out True
      by (auto simp: open_outcome_def fd_put_simp taken_def fd_closed_def zero_fd_def)
    have it: "dfs_inv ?t"
      by (rule inv_same_paths [OF inv _ _ new(1)]) (use k st c pn in \<open>simp_all add: fd_put_simp fd_closed_def\<close>)
    have m: "mounted ?t = mounted s" using keeps_tables [OF k(1) st] by (simp add: fd_put_simp)
    then have mo: "fd_opened ?t v = fd_opened s v" for v by (simp add: fd_opened_def)
    have same: "fd_opened ?t (fds ?t (Fd j)) = fd_opened s (fds s (Fd j))" for j
    proof (cases "j = i")
      case True
      then show ?thesis using closed_not_opened [OF c, of ?t] closed_not_opened [OF new(2), of s] by simp
    next
      case False
      then have "fds ?t (Fd j) = fds s (Fd j)" using k(3) [of "Fd j"] by (simp add: fd_put_simp)
      then show ?thesis using mo by simp
    qed
    have "r = - 1" "s' = dfs_errno r1 ?t" "strs ?t = strs s" using e True st by (simp_all add: fd_put_simp)
    then show ?thesis using it same by simp
  next
    case False
    then have out': "fd_magic (fds s2 (Fd i)) = DFS_FD_MAGIC" "fd_ref_count (fds s2 (Fd i)) = 2" "\<exists>fs m. fd_fs (fds s2 (Fd i)) = Some fs \<and> mounted s fs m"
      "path_owned (fd_path (fds s2 (Fd i))) s s2"
      using out by (simp_all add: open_outcome_def taken_def)
    let ?t = "fd_put (Fd i) s2"
    have own: "case fd_path (fds ?t (Fd i)) of None \<Rightarrow> strs ?t = strs s | Some b \<Rightarrow> strs s b = None \<and> (\<exists>t. strs ?t = (strs s)(b \<mapsto> t))"
      using out'(2,4) by (auto simp: path_owned_def fd_put_simp split: option.splits)
    have op: "fd_opened ?t (fds ?t (Fd i))"
    proof -
      obtain fs m where m: "fd_fs (fds s2 (Fd i)) = Some fs" "mounted s fs m" using out'(3) by blast
      have "mounted s2 fs m" using m(2) k(1) out'(4) by (auto simp: mounted_def keeps_def path_owned_def split: option.splits)
      then show ?thesis using out'(1,2) m(1) by (auto simp: fd_opened_def fd_put_simp)
    qed
    have S0: "strs s = (case fd_path (fds s (Fd i)) of None \<Rightarrow> strs s | Some a \<Rightarrow> (strs s)(a := None))" using pn by simp
    have kt: "keeps s ?t" "fresh ?t" "\<And>e. e \<noteq> Fd i \<Longrightarrow> fds ?t e = fds s e" using k by (simp_all add: fd_put_simp)
    have "dfs_inv ?t" using inv_change [OF inv kt new(1) S0 own] op by simp
    then show ?thesis using e False new op k(3) by (auto simp: fd_put_simp)
  qed
qed

lemma posix_close_inv:
  assumes inv: "dfs_inv s" and run: "posix_close C fd s = Some (r, s')"
  shows "dfs_inv s' \<and> (r = - 1 \<and> strs s' = strs s \<or>
    (\<exists>i < DFS_FD_MAX. r = 0 \<and> fd = int i \<and> fd_opened s (fds s (Fd i)) \<and> fd_closed (fds s' (Fd i)) \<and> (\<forall>e. e \<noteq> Fd i \<longrightarrow> fds s' e = fds s e) \<and>
       strs s' = (case fd_path (fds s (Fd i)) of None \<Rightarrow> strs s | Some a \<Rightarrow> (strs s)(a := None))))"
  using inv
proof (cases rule: fd_get_cases [where fd = fd])
  case bad
  then show ?thesis using run inv by (auto simp: posix_close_def with_fd_def Let_def)
next
  case (got i)
  let ?s1 = "upd_fd (Fd i) (\<lambda>v. v\<lparr>fd_ref_count := fd_ref_count v + 1\<rparr>) s"
  obtain r2 s4 where cl: "dfs_file_close C (Fd i) ?s1 = Some (r2, s4)"
    and t: "(if r2 < 0 then Some (- 1, dfs_errno r2 (fd_put (Fd i) s4)) else Some (0, fd_put (Fd i) (fd_put (Fd i) s4))) = Some (r, s')"
    using run got(4) by (auto simp: posix_close_def with_fd_def Let_def Option.bind_eq_Some_conv)
  obtain ops :: fs_operation and x where x: "(case op_close ops of None \<Rightarrow> Some (0, ?s1) | Some f \<Rightarrow> c_close C f (Fd i) ?s1) = Some x"
    "(case x of (result, s) \<Rightarrow> if result < 0 then Some (result, s) else do { s \<leftarrow> clear_fd (Fd i) s; Some (result, s) }) = Some (r2, s4)"
    using cl unfolding dfs_file_close_def by (elim bind_SomeE)
  then obtain res s2 where c: "(case op_close ops of None \<Rightarrow> Some (0, ?s1) | Some f \<Rightarrow> c_close C f (Fd i) ?s1) = Some (res, s2)"
    and c2: "(if res < 0 then Some (res, s2) else do { s \<leftarrow> clear_fd (Fd i) s2; Some (res, s) }) = Some (r2, s4)"
    by (cases x) simp
  have fr: "drv_frame (Some (Fd i)) ?s1 s2"
    using c close_frame [of _ "Fd i" ?s1 res s2] by (auto simp: drv_frame_def split: option.splits)
  then have k: "keeps s s2" "strs s2 = strs s" "\<And>e. e \<noteq> Fd i \<Longrightarrow> fds s2 e = fds s e" "fd_path (fds s2 (Fd i)) = fd_path (fds s (Fd i))"
    "fd_ref_count (fds s2 (Fd i)) = fd_ref_count (fds s (Fd i)) + 1" "fd_magic (fds s2 (Fd i)) = fd_magic (fds s (Fd i))"
    "fd_fs (fds s2 (Fd i)) = fd_fs (fds s (Fd i))"
    by (auto simp: drv_frame_def)
  show ?thesis
  proof (cases "res < 0")
    case True
    have "dfs_inv (fd_put (Fd i) s2)"
      by (rule inv_same_paths [OF inv _ _ got(2)]) (use k got(3) in \<open>auto simp: fd_put_simp fd_opened_def\<close>)
    then show ?thesis using t c2 True k(2) by (auto simp: fd_put_simp)
  next
    case False
    then obtain s3 where s3: "clear_fd (Fd i) s2 = Some s3" and r: "r = 0" "s' = fd_put (Fd i) (fd_put (Fd i) s3)"
      using t c2 by (auto simp: Option.bind_eq_Some_conv)
    let ?S = "case fd_path (fds s (Fd i)) of None \<Rightarrow> strs s | Some a \<Rightarrow> (strs s)(a := None)"
    have own: "strs s a \<noteq> None" if "fd_path (fds s (Fd i)) = Some a" for a
      using inv got(2) that unfolding dfs_inv_def strs_owned_def by (metis owner.simps(2))
    have "case fd_path (fds s2 (Fd i)) of None \<Rightarrow> strs s2 = ?S | Some b \<Rightarrow> ?S b = None \<and> (\<exists>t. strs s2 = ?S(b \<mapsto> t))"
      using k(2,4) own by (auto split: option.splits) (metis fun_upd_triv)
    from clear_fd_outcome [OF s3 this] have c3: "keeps s2 s3" "fresh s3" "strs s3 = ?S" "fds s3 = (fds s2)(Fd i := zero_fd)"
      using fresh_keeps [OF _ k(1,2)] inv by (auto simp: dfs_inv_def)
    have f': "fds s' (Fd i) = zero_fd\<lparr>fd_ref_count := - 2\<rparr>" "\<And>e. e \<noteq> Fd i \<Longrightarrow> fds s' e = fds s e" "strs s' = ?S" "keeps s s'" "fresh s'"
      using c3 r k(3) keeps_trans [OF k(1) c3(1)] by (simp_all add: fd_put_simp zero_fd_def)
    then have cl: "fd_closed (fds s' (Fd i))" "fd_path (fds s' (Fd i)) = None" by (simp_all add: fd_closed_def zero_fd_def)
    have "dfs_inv s'"
      by (rule inv_change [OF inv f'(4,5,2) got(2) refl]) (use f'(3) cl in simp_all)
    then show ?thesis using r(1) got f' cl by auto
  qed
qed

end

section \<open>Reading, writing and seeking\<close>

definition fd_frame :: "nat \<Rightarrow> 'w dfs \<Rightarrow> 'w dfs \<Rightarrow> bool" where
  "fd_frame i s s' \<longleftrightarrow>
     keeps s s' \<and> strs s' = strs s \<and> (\<forall>e. e \<noteq> Fd i \<longrightarrow> fds s' e = fds s e) \<and> fd_path (fds s' (Fd i)) = fd_path (fds s (Fd i)) \<and>
     fd_magic (fds s' (Fd i)) = fd_magic (fds s (Fd i)) \<and> fd_fs (fds s' (Fd i)) = fd_fs (fds s (Fd i)) \<and>
     fd_ref_count (fds s' (Fd i)) \<ge> fd_ref_count (fds s (Fd i)) - 1"

lemma drv_fd_frame: "drv_frame (Some (Fd i)) s s' \<Longrightarrow> fd_ref_count (fds s (Fd i)) \<ge> 2 \<Longrightarrow> fd_frame i s (fd_put (Fd i) s')"
  by (auto simp: drv_frame_def fd_frame_def fd_put_simp)

lemma drv_upd: "drv_frame (Some d) s s' \<Longrightarrow>
    (\<And>v. fd_magic (f v) = fd_magic v \<and> fd_type (f v) = fd_type v \<and> fd_path (f v) = fd_path v \<and> fd_ref_count (f v) = fd_ref_count v \<and> fd_fs (f v) = fd_fs v) \<Longrightarrow>
    drv_frame (Some d) s (upd_fd d f s')"
  by (auto simp: drv_frame_def)

lemma fd_frame_errno [simp]: "fd_frame i s (dfs_errno e s') = fd_frame i s s'"
  by (simp add: fd_frame_def)

lemma with_fd_inv:
  assumes inv: "dfs_inv s" and run: "with_fd fd body s = Some (r, s')"
    and body: "\<And>i s1. body (Fd i) s1 = Some (r, s') \<Longrightarrow> fd_ref_count (fds s1 (Fd i)) \<ge> 2 \<Longrightarrow> fd_frame i s1 s'"
  shows "dfs_inv s' \<and> strs s' = strs s"
  using inv
proof (cases rule: fd_get_cases [where fd = fd])
  case bad
  then show ?thesis using run inv by (auto simp: with_fd_def Let_def)
next
  case (got i)
  let ?s1 = "upd_fd (Fd i) (\<lambda>v. v\<lparr>fd_ref_count := fd_ref_count v + 1\<rparr>) s"
  have b: "body (Fd i) ?s1 = Some (r, s')" using run got(4) by (simp add: with_fd_def)
  have "fd_ref_count (fds ?s1 (Fd i)) \<ge> 2" using got(3) by (simp add: fd_opened_def)
  from body [OF b this] have f: "fd_frame i ?s1 s'" .
  then have "dfs_inv s'"
    by (intro inv_same_paths [OF inv _ _ got(2)]) (use got(3) in \<open>auto simp: fd_frame_def fd_opened_def\<close>)
  then show ?thesis using f by (simp add: fd_frame_def)
qed

context fs_driver
begin

lemma file_read_frame:
  assumes "dfs_file_read C (Some d) buf len s = Some (r, s')"
  shows "drv_frame (Some d) s s'"
proof -
  obtain ops :: fs_operation where ops: "(case op_read ops of
       None \<Rightarrow> Some (- DFS_STATUS_ENOSYS, s)
     | Some f \<Rightarrow> do { (result, s) \<leftarrow> c_read C f d buf len s;
                     let s = (if result < 0 then upd_fd d (\<lambda>v. v\<lparr>fd_flags := fd_flags v OR DFS_F_EOF\<rparr>) s else s);
                     Some (result, s) }) = Some (r, s')"
    using assms by (auto simp: dfs_file_read_def elim!: bind_SomeE)
  show ?thesis
  proof (cases "op_read ops")
    case None
    then show ?thesis using ops by (simp add: drv_frame_def)
  next
    case (Some f)
    then obtain s1 where "c_read C f d buf len s = Some (r, s1)" "s' = (if r < 0 then upd_fd d (\<lambda>v. v\<lparr>fd_flags := fd_flags v OR DFS_F_EOF\<rparr>) s1 else s1)"
      using ops by (auto simp: Let_def elim!: bind_SomeE)
    then show ?thesis by (auto intro!: drv_upd dest: read_frame)
  qed
qed

lemma file_write_frame: "dfs_file_write C (Some d) buf len s = Some (r, s') \<Longrightarrow> drv_frame (Some d) s s'"
  by (auto simp: dfs_file_write_def drv_frame_def elim!: bind_SomeE split: option.splits dest!: write_frame)

lemma file_lseek_frame:
  assumes "dfs_file_lseek C d off s = Some (r, s')"
  shows "drv_frame (Some d) s s'"
proof (cases "fd_fs (fds s d)")
  case None
  then show ?thesis using assms by (auto simp: dfs_file_lseek_def drv_frame_def)
next
  case (Some fs)
  then obtain ops :: fs_operation where ops: "(case op_lseek ops of
       None \<Rightarrow> Some (- DFS_STATUS_ENOSYS, s)
     | Some f \<Rightarrow> do { (result, s) \<leftarrow> c_lseek C f d off s;
                     let s = (if result \<ge> 0 then upd_fd d (\<lambda>v. v\<lparr>fd_pos := word_of_int result\<rparr>) s else s);
                     Some (result, s) }) = Some (r, s')"
    using assms by (auto simp: dfs_file_lseek_def elim!: bind_SomeE)
  show ?thesis
  proof (cases "op_lseek ops")
    case None
    then show ?thesis using ops by (simp add: drv_frame_def)
  next
    case (Some f)
    then obtain s1 where "c_lseek C f d off s = Some (r, s1)" "s' = (if r \<ge> 0 then upd_fd d (\<lambda>v. v\<lparr>fd_pos := word_of_int r\<rparr>) s1 else s1)"
      using ops by (auto simp: Let_def elim!: bind_SomeE)
    then show ?thesis by (auto intro!: drv_upd dest: lseek_frame)
  qed
qed

lemma posix_read_inv: "dfs_inv s \<Longrightarrow> posix_read C fd buf len s = Some (r, s') \<Longrightarrow> dfs_inv s' \<and> strs s' = strs s"
  unfolding posix_read_def
  by (erule (1) with_fd_inv) (auto elim!: bind_SomeE dest!: file_read_frame intro!: drv_fd_frame split: if_splits)

lemma posix_write_inv: "dfs_inv s \<Longrightarrow> posix_write C fd buf len s = Some (r, s') \<Longrightarrow> dfs_inv s' \<and> strs s' = strs s"
  unfolding posix_write_def
  by (erule (1) with_fd_inv) (auto elim!: bind_SomeE dest!: file_write_frame intro!: drv_fd_frame split: if_splits)

lemma posix_lseek_inv: "dfs_inv s \<Longrightarrow> posix_lseek C fd off whence s = Some (r, s') \<Longrightarrow> dfs_inv s' \<and> strs s' = strs s"
  unfolding posix_lseek_def
proof (erule (1) with_fd_inv)
  fix i and s1 :: "'w dfs"
  assume r: "fd_ref_count (fds s1 (Fd i)) \<ge> 2"
  assume "(if whence \<noteq> DFS_SEEK_SET \<and> whence \<noteq> DFS_SEEK_CUR \<and> whence \<noteq> DFS_SEEK_END then Some (- 1, dfs_errno (- DFS_STATUS_EINVAL) s1)
       else
         let offset = (if whence = DFS_SEEK_CUR then off + fd_pos (fds s1 (Fd i))
                       else if whence = DFS_SEEK_END then off + fd_size (fds s1 (Fd i)) else off)
         in if sint offset < 0 then Some (- 1, dfs_errno (- DFS_STATUS_EINVAL) s1)
            else do {
              (result, s) \<leftarrow> dfs_file_lseek C (Fd i) offset s1;
              if result < 0 then Some (- 1, dfs_errno result (fd_put (Fd i) s))
              else Some (sint offset, fd_put (Fd i) s) }) = Some (r, s')"
  then show "fd_frame i s1 s'"
    using r by (auto simp: Let_def fd_frame_def [of i s1 s1] elim!: bind_SomeE split: if_splits dest!: file_lseek_frame intro!: drv_fd_frame)
qed

end

section \<open>Functions on paths\<close>

definition quiet :: "'w dfs \<Rightarrow> 'w dfs \<Rightarrow> bool" where
  "quiet s s' \<longleftrightarrow> keeps s s' \<and> strs s' = strs s \<and> fds s' = fds s"

lemma quiet_simps [simp]: "quiet s s" "quiet s (dfs_errno e t) = quiet s t" "quiet s (put_stat buf mode sz t) = quiet s t"
  by (simp_all add: quiet_def) (simp add: put_stat_def)

lemma quiet_trans [trans]: "quiet s t \<Longrightarrow> quiet t u \<Longrightarrow> quiet s u"
  by (auto simp: quiet_def intro: keeps_trans)

lemma quiet_inv: "dfs_inv s \<Longrightarrow> quiet s s' \<Longrightarrow> dfs_inv s'"
  by (rule inv_same_paths [of s s' 0]) (auto simp: quiet_def dfs_inv_def)

text \<open>A string that is allocated, used and released again.\<close>

lemma free_quiet:
  assumes "normalized (Some a) s s1" and "quiet s1 s2" and "str_free (Some a) s2 = Some s3"
  shows "quiet s s3"
proof -
  obtain t where t: "strs s a = None" "strs s1 = (strs s)(a \<mapsto> t)" "keeps s s1" "fds s1 = fds s" using assms(1) by (auto simp: normalized_def)
  have "(strs s1)(a := None) = strs s" using t by (auto simp: fun_eq_iff)
  then show ?thesis using assms(2,3) t keeps_trans [OF t(3)] by (auto simp: quiet_def str_free_def)
qed

lemma quiet_none: "normalized None s s' \<Longrightarrow> quiet s s'"
  by (simp add: normalized_def quiet_def)

lemma normalized_mounts: "normalized p s s' \<Longrightarrow> mounts_ok s \<Longrightarrow> mounts_ok s'"
  by (auto simp: normalized_def mounts_ok_def keeps_def split: option.splits)

lemma quiet_mounts: "quiet s s' \<Longrightarrow> mounts_ok s \<Longrightarrow> mounts_ok s'" and quiet_fresh: "quiet s s' \<Longrightarrow> fresh s \<Longrightarrow> fresh s'"
  using keeps_tables fresh_keeps by (auto simp: quiet_def)

lemma lookup_state: "dfs_filesystem_lookup path s = Some (r, s') \<Longrightarrow> s' = s"
  by (auto simp: dfs_filesystem_lookup_def Let_def elim!: bind_SomeE)

lemma fd_is_open_quiet:
  assumes "fd_is_open path s = Some (r, s')" and "fresh s" and "0 \<notin> set path"
  shows "quiet s s'"
proof -
  obtain p s1 where n: "dfs_normalize_path None path s = Some (p, s1)" using assms(1) by (auto simp: fd_is_open_def elim!: bind_SomeE)
  then have o: "normalized p s s1" using normalize_outcome [OF n assms(2,3)] by blast
  show ?thesis
  proof (cases p)
    case None
    then show ?thesis using assms(1) n o quiet_none by (auto simp: fd_is_open_def)
  next
    case (Some a)
    have "str_free (Some a) s1 = Some s' \<or> (\<exists>s3. str_free (Some a) (dfs_lock s1) = Some s3 \<and> s' = dfs_unlock s3)"
      using assms(1) n Some by (auto simp: fd_is_open_def Let_def elim!: bind_SomeE split: option.splits dest!: lookup_state)
    then have "str_free (Some a) s1 = Some s'"
      by (auto simp: str_free_def dfs_lock_def dfs_unlock_def)
    then show ?thesis using free_quiet [OF o [unfolded Some] quiet_simps(1)] by blast
  qed
qed

context fs_driver
begin

lemma drv_quiet: "drv_frame None s s' \<Longrightarrow> quiet s s'"
  by (auto simp: drv_frame_def quiet_def)

lemma file_unlink_quiet:
  assumes run: "dfs_file_unlink C path s = Some (r, s')" and "fresh s" and "0 \<notin> set path"
  shows "quiet s s'"
proof -
  obtain p s1 where n: "dfs_normalize_path None path s = Some (p, s1)" using run by (auto simp: dfs_file_unlink_def elim!: bind_SomeE)
  then have o: "normalized p s s1" "fresh s1" using normalize_outcome [OF n assms(2,3)] by auto
  show ?thesis
  proof (cases p)
    case None
    then show ?thesis using run n o quiet_none by (auto simp: dfs_file_unlink_def)
  next
    case (Some a)
    then obtain t where t: "strs s1 a = Some t" "0 \<notin> set t" using o by (auto simp: normalized_def)
    obtain s2 where f: "str_free (Some a) s2 = Some s'" and
      c: "s2 = s1 \<or> (\<exists>busy sb f fs q r'. fd_is_open t s1 = Some (busy, sb) \<and> (s2 = sb \<or> c_unlink C f fs q sb = Some (r', s2)))"
      using run n Some t(1)
      by (auto simp: dfs_file_unlink_def str_of_def elim!: bind_SomeE split: option.splits if_splits dest!: lookup_state) blast+
    have "quiet s1 s2"
      using c fd_is_open_quiet [OF _ o(2) t(2)] by (auto dest!: unlink_frame drv_quiet intro: quiet_trans)
    then show ?thesis using free_quiet [OF o(1) [unfolded Some] _ f] by blast
  qed
qed

lemma file_stat_quiet:
  assumes run: "dfs_file_stat C path buf s = Some (r, s')" and "fresh s" and "0 \<notin> set path"
  shows "quiet s s'"
proof -
  obtain p s1 where n: "dfs_normalize_path None path s = Some (p, s1)" using run by (auto simp: dfs_file_stat_def elim!: bind_SomeE)
  then have o: "normalized p s s1" using normalize_outcome [OF n assms(2,3)] by auto
  show ?thesis
  proof (cases p)
    case None
    then show ?thesis using run n o quiet_none by (auto simp: dfs_file_stat_def)
  next
    case (Some a)
    obtain s2 where f: "str_free (Some a) s2 = Some s'" and
      c: "s2 = s1 \<or> (\<exists>mode. s2 = put_stat buf mode 0 s1) \<or> (\<exists>f fs q r'. c_stat C f fs q buf s1 = Some (r', s2))"
      using run n Some
      by (auto simp: dfs_file_stat_def str_of_def Let_def elim!: bind_SomeE split: option.splits if_splits dest!: lookup_state) blast+
    have "quiet s1 s2" using c drv_quiet [OF stat_frame] by auto
    then show ?thesis using free_quiet [OF o [unfolded Some] _ f] by blast
  qed
qed

lemma file_rename_quiet:
  assumes run: "dfs_file_rename C old new s = Some (r, s')" and "fresh s" and "0 \<notin> set old" and "0 \<notin> set new"
  shows "quiet s s'"
proof -
  obtain p s1 where n: "dfs_normalize_path None old s = Some (p, s1)" using run by (auto simp: dfs_file_rename_def elim!: bind_SomeE)
  then have o: "normalized p s s1" "fresh s1" using normalize_outcome [OF n assms(2,3)] by auto
  show ?thesis
  proof (cases p)
    case None
    then show ?thesis using run n o quiet_none by (auto simp: dfs_file_rename_def)
  next
    case (Some a)
    then obtain q s2 where n2: "dfs_normalize_path None new s1 = Some (q, s2)" using run n by (auto simp: dfs_file_rename_def elim!: bind_SomeE)
    then have o2: "normalized q s1 s2" using normalize_outcome [OF n2 o(2) assms(4)] by auto
    obtain s3 s4 where f: "str_free (Some a) s3 = Some s4" "str_free q s4 = Some s'" and
      c: "s3 = s2 \<or> (\<exists>f fs x y r'. c_rename C f fs x y s2 = Some (r', s3))"
      using run n Some n2
      by (auto simp: dfs_file_rename_def str_of_def elim!: bind_SomeE split: option.splits if_splits dest!: lookup_state) blast+
    have q3: "quiet s2 s3" using c drv_quiet [OF rename_frame] by auto
    show ?thesis
    proof (cases q)
      case None
      then show ?thesis using f quiet_trans [OF quiet_none q3] o2 free_quiet [OF o(1) [unfolded Some] _ f(1)] by (auto simp: str_free_def)
    next
      case (Some b)
      obtain t where "strs s1 b = None" "strs s2 = (strs s1)(b \<mapsto> t)" using o2 Some by (auto simp: normalized_def)
      moreover have "strs s1 a \<noteq> None" using o(1) \<open>p = Some a\<close> by (auto simp: normalized_def)
      ultimately have ab: "a \<noteq> b" by auto
      then obtain s5 where f': "str_free (Some b) s3 = Some s5" "str_free (Some a) s5 = Some s'"
        using f Some by (auto simp: str_free_def fun_upd_twist)
      have "quiet s1 s5" using free_quiet [OF o2 [unfolded Some] q3 f'(1)] .
      then show ?thesis using free_quiet [OF o(1) [unfolded \<open>p = Some a\<close>] _ f'(2)] by blast
    qed
  qed
qed

end

section \<open>Opening and closing return\<close>

text \<open>A path that is relative, or that does not end above the root.\<close>

definition sane_path :: "u8 list \<Rightarrow> bool" where
  "sane_path path \<longleftrightarrow> 0 \<notin> set path \<and> (path \<noteq> [] \<and> hd path = SEP \<longrightarrow> resolve_path path \<noteq> Some (False, []))"

lemma normalize_total:
  assumes "sane_path path"
  shows "\<exists>p s1. dfs_normalize_path None path s = Some (p, s1)"
proof (cases "path \<noteq> [] \<and> hd path = SEP")
  case True
  show ?thesis
  proof (cases "alloc_ok s (alloc_no s)")
    case ok: True
    then show ?thesis using normalize_cases [of path s path None] assms True by (cases "resolve_path path") (auto simp: sane_path_def)
  next
    case False
    then show ?thesis using True by (auto simp: dfs_normalize_path_def rt_strdup_def str_malloc_def Let_def)
  qed
qed (auto simp: dfs_normalize_path_def)

lemma clear_fd_total: "(\<And>a. fd_path (fds s d) = Some a \<Longrightarrow> strs s a \<noteq> None) \<Longrightarrow> \<exists>s'. clear_fd d s = Some s'"
  by (cases "fd_path (fds s d)") (auto simp: clear_fd_def str_free_def)

lemma open_path_total:
  assumes "\<exists>sub. below fs full s = Some sub" and "strs s a \<noteq> None"
  shows "\<exists>s'. open_path ops fs a full d s = Some s'"
  using assms by (auto simp: open_path_def rt_strdup_def str_malloc_def str_free_def Let_def upd_fd_def)

lemma file_open_total:
  assumes drv: "fs_driver C" and ret: "\<And>f s1. c_open C f d s1 \<noteq> None" and s: "fresh s" "mounts_ok s" and path: "sane_path path"
  shows "\<exists>r s'. dfs_file_open C (Some d) path flags s = Some (r, s')"
proof -
  obtain p s1 where n: "dfs_normalize_path None path s = Some (p, s1)" using normalize_total [OF path] by blast
  then have o: "normalized p s s1" "fresh s1" using normalize_outcome [OF n s(1)] path by (auto simp: sane_path_def)
  show ?thesis
  proof (cases p)
    case (Some a)
    then obtain full where full: "strs s a = None" "a < alloc_no s1" "strs s1 = (strs s)(a \<mapsto> full)" "keeps s s1" "fds s1 = fds s"
      using o by (auto simp: normalized_def)
    obtain q where q: "dfs_filesystem_lookup full s1 = Some (q, s1)" "\<And>i. q = Some i \<Longrightarrow> \<exists>m. mounted s1 i m \<and> covers m full"
      using lookup_outcome [OF normalized_mounts [OF o(1) s(2)]] by blast
    show ?thesis
    proof (cases q)
      case None
      then show ?thesis using n Some full q by (auto simp: dfs_file_open_def str_of_def str_free_def)
    next
      case fs: (Some fs)
      obtain m where m: "mounted s1 fs m" "covers m full" using q(2) fs by blast
      obtain ops where ops: "ops_of C fs s1 = Some ops" using ops_of_mounted [OF m(1)] by blast
      let ?s1 = "upd_fd d (\<lambda>v. v\<lparr>fd_fs := Some fs, fd_type := FT_REGULAR, fd_flags := flags, fd_size := 0, fd_pos := 0\<rparr>) s1"
      have "\<exists>sub. below fs full ?s1 = Some sub" using below_total [of ?s1 fs m full] m by simp
      then obtain s2 where s2: "open_path ops fs a full d ?s1 = Some s2" using open_path_total [of fs full ?s1 a] full by auto
      have f1: "fresh ?s1" "strs ?s1 = (strs s)(a \<mapsto> full)" "a < alloc_no ?s1" using o(2) full by (simp_all, simp add: upd_fd_def)
      have own: "fd_path (fds s2 d) = Some b \<Longrightarrow> strs s2 b \<noteq> None" for b
        using open_path_outcome [OF s2 f1(1,2) full(1) f1(3)] by auto
      show ?thesis
      proof (cases "op_open ops")
        case None
        obtain s3 where "clear_fd d s2 = Some s3" using clear_fd_total [OF own] by blast
        then show ?thesis using n Some full q fs ops s2 None by (simp add: dfs_file_open_def str_of_def Let_def)
      next
        case f: (Some f)
        obtain r s3 where s3: "c_open C f d s2 = Some (r, s3)" using ret [of f s2] by auto
        have fr: "drv_frame (Some d) s2 s3" using fs_driver.open_frame [OF drv s3] .
        have "\<exists>s4. clear_fd d s3 = Some s4" by (rule clear_fd_total) (use fr own in \<open>simp add: drv_frame_def\<close>)
        then have "\<exists>r s4. open_end flags d r' s3 = Some (r, s4)" for r' by (auto simp: open_end_def Let_def)
        then show ?thesis using n Some full q fs ops s2 f s3 by (simp add: dfs_file_open_def str_of_def Let_def)
      qed
    qed
  qed (use n in \<open>simp add: dfs_file_open_def\<close>)
qed

lemma posix_open_total:
  assumes "fs_driver C" and "\<forall>f d s. c_open C f d s \<noteq> None" and "dfs_inv s" and "sane_path path"
  shows "\<exists>r s'. posix_open C path flags s = Some (r, s')"
  using assms(3)
proof (cases rule: fd_new_cases)
  case full
  then show ?thesis by (simp add: posix_open_def)
next
  case (new i)
  have "fresh (taken i s)" "mounts_ok (taken i s)" using assms(3) inv_mounts_ok [OF assms(3)] by (simp_all add: taken_def dfs_inv_def)
  then obtain r s2 where "dfs_file_open C (Some (Fd i)) path flags (taken i s) = Some (r, s2)"
    using file_open_total [OF assms(1) _ _ _ assms(4)] assms(2) by blast
  then show ?thesis using new by (simp add: posix_open_def Let_def split_beta)
qed


lemma posix_close_total:
  assumes "fs_driver C" and "\<forall>f d s. c_close C f d s \<noteq> None" and "dfs_inv s"
  shows "\<exists>r s'. posix_close C fd s = Some (r, s')"
  using assms(3)
proof (cases rule: fd_get_cases [where fd = fd])
  case bad
  then show ?thesis by (simp add: posix_close_def with_fd_def)
next
  case (got i)
  let ?s1 = "upd_fd (Fd i) (\<lambda>v. v\<lparr>fd_ref_count := fd_ref_count v + 1\<rparr>) s"
  obtain fs m where fs: "fd_fs (fds s (Fd i)) = Some fs" "mounted ?s1 fs m" using got(3) by (auto simp: fd_opened_def)
  obtain ops where ops: "fd_ops C (Fd i) ?s1 = Some ops" using ops_of_mounted [OF fs(2)] fs(1) by (auto simp: fd_ops_def)
  obtain r s2 where c: "(case op_close ops of None \<Rightarrow> Some (0, ?s1) | Some f \<Rightarrow> c_close C f (Fd i) ?s1) = Some (r, s2)"
    using assms(2) by (cases "op_close ops") (auto, metis not_None_eq surj_pair)
  have fr: "drv_frame (Some (Fd i)) ?s1 s2"
  proof (cases "op_close ops")
    case None
    then show ?thesis using c by (simp add: drv_frame_def)
  next
    case (Some f)
    then show ?thesis using c fs_driver.close_frame [OF assms(1), of f "Fd i" ?s1 r s2] by simp
  qed
  have "strs s2 a \<noteq> None" if "fd_path (fds s2 (Fd i)) = Some a" for a
    using fr that inv_owned [OF assms(3) got(2), of a] by (simp add: drv_frame_def)
  then obtain s3 where "clear_fd (Fd i) s2 = Some s3" using clear_fd_total by blast
  then show ?thesis using got(4) ops c by (auto simp: posix_close_def with_fd_def dfs_file_close_def Let_def)
qed

text \<open>
  Closing an open descriptor frees it with its path and nothing else, unless the file system refuses; then, and for a number that is not an open
  descriptor, the result is -1 and everything stays open.\<close>

theorem posix_close_correct:
  assumes "fs_driver C" and "\<forall>f d s. c_close C f d s \<noteq> None" and "dfs_inv s"
  shows "\<exists>r s'. posix_close C fd s = Some (r, s') \<and> dfs_inv s' \<and> (r = - 1 \<and> strs s' = strs s \<or>
    (\<exists>i < DFS_FD_MAX. r = 0 \<and> fd = int i \<and> fd_opened s (fds s (Fd i)) \<and> fd_closed (fds s' (Fd i)) \<and> (\<forall>e. e \<noteq> Fd i \<longrightarrow> fds s' e = fds s e) \<and>
       strs s' = (case fd_path (fds s (Fd i)) of None \<Rightarrow> strs s | Some a \<Rightarrow> (strs s)(a := None))))"
proof -
  obtain r s' where run: "posix_close C fd s = Some (r, s')" using posix_close_total [OF assms] by blast
  then show ?thesis using fs_driver.posix_close_inv [OF assms(1,3) run] by blast
qed

section \<open>Any sequence of calls\<close>

datatype posix_call =
    POpen "u8 list" u32 | PClose int | PRead int u32 u32 | PWrite int u32 u32 | PSeek int u32 int
  | PUnlink "u8 list" | PStat "u8 list" u32 | PRename "u8 list" "u8 list"

fun posix_step :: "'w fs_code \<Rightarrow> posix_call \<Rightarrow> 'w dfs \<Rightarrow> (int \<times> 'w dfs) option" where
  "posix_step C (POpen path flags) s = posix_open C path flags s"
| "posix_step C (PClose fd) s = posix_close C fd s"
| "posix_step C (PRead fd buf len) s = posix_read C fd buf len s"
| "posix_step C (PWrite fd buf len) s = posix_write C fd buf len s"
| "posix_step C (PSeek fd off whence) s = posix_lseek C fd off whence s"
| "posix_step C (PUnlink path) s = posix_unlink C path s"
| "posix_step C (PStat path buf) s = posix_stat C path buf s"
| "posix_step C (PRename old new) s = posix_rename C old new s"

fun posix_run :: "'w fs_code \<Rightarrow> posix_call list \<Rightarrow> 'w dfs \<Rightarrow> (int list \<times> 'w dfs) option" where
  "posix_run C [] s = Some ([], s)"
| "posix_run C (c # cs) s = do { (r, s) \<leftarrow> posix_step C c s; (rs, s) \<leftarrow> posix_run C cs s; Some (r # rs, s) }"

fun call_paths :: "posix_call \<Rightarrow> u8 list set" where
  "call_paths (POpen path flags) = {path}"
| "call_paths (PUnlink path) = {path}"
| "call_paths (PStat path buf) = {path}"
| "call_paths (PRename old new) = {old, new}"
| "call_paths c = {}"

lemma inv_fresh: "dfs_inv s \<Longrightarrow> fresh s"
  by (simp add: dfs_inv_def)

lemma posix_step_inv:
  assumes "fs_driver C" and "dfs_inv s" and "posix_step C c s = Some (r, s')" and "\<forall>p \<in> call_paths c. 0 \<notin> set p"
  shows "dfs_inv s'"
proof (cases c)
  case (POpen path flags)
  then show ?thesis using fs_driver.posix_open_inv [OF assms(1,2)] assms(3,4) by simp
next
  case (PClose fd)
  then show ?thesis using fs_driver.posix_close_inv [OF assms(1,2)] assms(3) by simp
next
  case (PRead fd buf len)
  then show ?thesis using fs_driver.posix_read_inv [OF assms(1,2)] assms(3) by simp
next
  case (PWrite fd buf len)
  then show ?thesis using fs_driver.posix_write_inv [OF assms(1,2)] assms(3) by simp
next
  case (PSeek fd off whence)
  then show ?thesis using fs_driver.posix_lseek_inv [OF assms(1,2)] assms(3) by simp
next
  case (PUnlink path)
  then obtain r2 s2 where u: "dfs_file_unlink C path s = Some (r2, s2)" "s' = s2 \<or> s' = dfs_errno r2 s2"
    using assms(3) by (auto simp: posix_unlink_def neg_errno_def split: if_splits)
  then have "quiet s s2" using fs_driver.file_unlink_quiet [OF assms(1) _ inv_fresh [OF assms(2)]] assms(4) PUnlink by simp
  then show ?thesis using quiet_inv [OF assms(2)] u by auto
next
  case (PStat path buf)
  then obtain r2 s2 where u: "dfs_file_stat C path buf s = Some (r2, s2)" "s' = s2 \<or> s' = dfs_errno r2 s2"
    using assms(3) by (auto simp: posix_stat_def elim!: bind_SomeE split: if_splits)
  then have "quiet s s2" using fs_driver.file_stat_quiet [OF assms(1) _ inv_fresh [OF assms(2)]] assms(4) PStat by simp
  then show ?thesis using quiet_inv [OF assms(2)] u by auto
next
  case (PRename old new)
  then obtain r2 s2 where u: "dfs_file_rename C old new s = Some (r2, s2)" "s' = s2 \<or> s' = dfs_errno r2 s2"
    using assms(3) by (auto simp: posix_rename_def neg_errno_def split: if_splits)
  then have "quiet s s2" using fs_driver.file_rename_quiet [OF assms(1) _ inv_fresh [OF assms(2)]] assms(4) PRename by simp
  then show ?thesis using quiet_inv [OF assms(2)] u by auto
qed


section \<open>Where the code fails\<close>

text \<open>A directory that cannot be made costs a descriptor: the function releases one of the two references it has. After four such calls no file can be opened.\<close>

lemma mkdir_relative:
  assumes "path = [] \<or> hd path \<noteq> SEP" and "i < DFS_FD_MAX" and "\<forall>j < i. fd_ref_count (fds s (Fd j)) > 0" and "fd_ref_count (fds s (Fd i)) \<le> 0"
  shows "\<exists>s'. posix_mkdir C path s = Some (- 1, s') \<and> fd_ref_count (fds s' (Fd i)) = 1 \<and> (\<forall>j. j \<noteq> i \<longrightarrow> fds s' (Fd j) = fds s (Fd j))"
proof -
  have ff: "first_free 0 DFS_FD_MAX s = i"
  proof (rule ccontr)
    assume "first_free 0 DFS_FD_MAX s \<noteq> i"
    then show False using first_free_spec [of 0 DFS_FD_MAX s] assms(2-4) by (metis add_0 leD le0 linorder_neqE_nat)
  qed
  then have "fd_new s = (int i, upd_fd (Fd i) (\<lambda>d. d\<lparr>fd_ref_count := 1, fd_magic := DFS_FD_MAGIC\<rparr>) s)"
    using assms(2) by (simp add: fd_new_def Let_def)
  then show ?thesis using assms(1,2)
    by (auto simp: posix_mkdir_def fd_get_def Let_def dfs_file_open_def dfs_normalize_path_def fd_put_simp upd_fd_def kmsg_def dfs_errno_def
        dfs_lock_def dfs_unlock_def)
qed

theorem posix_mkdir_loses_descriptors:
  assumes "path = [] \<or> hd path \<noteq> SEP" and "\<forall>i < DFS_FD_MAX. fd_ref_count (fds s (Fd i)) = 0"
  shows "\<exists>s1 s2 s3 s4 s5. posix_mkdir C path s = Some (- 1, s1) \<and> posix_mkdir C path s1 = Some (- 1, s2) \<and> posix_mkdir C path s2 = Some (- 1, s3) \<and>
    posix_mkdir C path s3 = Some (- 1, s4) \<and> posix_open C file flags s4 = Some (- 1, s5)"
proof -
  obtain s1 where s1: "posix_mkdir C path s = Some (- 1, s1)" "fd_ref_count (fds s1 (Fd 0)) = 1" "\<And>j. j \<noteq> 0 \<Longrightarrow> fds s1 (Fd j) = fds s (Fd j)"
    using mkdir_relative [OF assms(1), of 0 s C] assms(2) by auto
  obtain s2 where s2: "posix_mkdir C path s1 = Some (- 1, s2)" "fd_ref_count (fds s2 (Fd 1)) = 1" "\<And>j. j \<noteq> 1 \<Longrightarrow> fds s2 (Fd j) = fds s1 (Fd j)"
    using mkdir_relative [OF assms(1), of 1 s1 C] assms(2) s1 by auto
  obtain s3 where s3: "posix_mkdir C path s2 = Some (- 1, s3)" "fd_ref_count (fds s3 (Fd 2)) = 1" "\<And>j. j \<noteq> 2 \<Longrightarrow> fds s3 (Fd j) = fds s2 (Fd j)"
    using mkdir_relative [OF assms(1), of 2 s2 C] assms(2) s1 s2 by (auto simp: less_2_cases_iff)
  have lt3: "j < 3 \<longleftrightarrow> j = 0 \<or> j = 1 \<or> j = 2" for j :: nat by auto
  obtain s4 where s4: "posix_mkdir C path s3 = Some (- 1, s4)" "fd_ref_count (fds s4 (Fd 3)) = 1" "\<And>j. j \<noteq> 3 \<Longrightarrow> fds s4 (Fd j) = fds s3 (Fd j)"
    using mkdir_relative [OF assms(1), of 3 s3 C] assms(2) s1 s2 s3 by (auto simp: lt3)
  have "first_free 0 DFS_FD_MAX s4 = DFS_FD_MAX" using s1 s2 s3 s4 by (simp add: eval_nat_numeral)
  then have "\<exists>s5. posix_open C file flags s4 = Some (- 1, s5)" by (simp add: posix_open_def fd_new_def Let_def)
  then show ?thesis using s1(1) s2(1) s3(1) s4(1) by blast
qed

text \<open>Mounting reads the name of every entry of the table of types up to the one it looks for, also when the entry is empty.\<close>

theorem dfs_mount_empty_entry:
  "filesystem_operation_table s 0 = None \<Longrightarrow> dfs_mount C D None path filesystemtype rwflag data s = None"
  by (simp add: dfs_mount_def dfs_lock_def eval_nat_numeral upt_rec)

text \<open>A type for which the table has no room is not registered, and the result is still success.\<close>

theorem dfs_register_full:
  assumes "\<forall>i < DFS_FILESYSTEM_TYPES_MAX. \<exists>p. filesystem_operation_table s i = Some p \<and> op_name (op_struct C p) \<noteq> op_name (op_struct C ops)"
  shows "dfs_register C ops s = (0, s)"
proof -
  have "register_scan C name is vacant t = Some vacant"
    if "\<forall>i \<in> set is. \<exists>p. filesystem_operation_table t i = Some p \<and> op_name (op_struct C p) \<noteq> name" for "is" vacant name t
    using that by (induction "is") auto
  from this [of "[0 ..< DFS_FILESYSTEM_TYPES_MAX]" "dfs_lock s" "op_name (op_struct C ops)" None] show ?thesis
    using assms by (simp add: dfs_register_def Let_def) (simp add: dfs_lock_def dfs_unlock_def)
qed

section \<open>Examples\<close>

text \<open>A file system that says yes to everything.\<close>

definition null_fs :: "unit fs_code" where
  "null_fs =
     \<lparr>op_struct = (\<lambda>_. \<lparr>op_name = [], op_flags = 0, op_mount = Some 0, op_unmount = Some 0, op_mkfs = None, op_statfs = None, op_open = Some 0, op_close = Some 0,
        op_ioctl = None, op_read = Some 0, op_write = Some 0, op_flush = None, op_lseek = Some 0, op_getdents = None, op_unlink = Some 0, op_stat = Some 0, op_rename = Some 0\<rparr>),
      c_mount = (\<lambda>_ _ _ _ s. Some (0, s)), c_unmount = (\<lambda>_ _ s. Some (0, s)), c_mkfs = (\<lambda>_ _ s. Some (0, s)), c_statfs = (\<lambda>_ _ _ s. Some (0, s)),
      c_open = (\<lambda>_ _ s. Some (0, s)), c_close = (\<lambda>_ _ s. Some (0, s)), c_ioctl = (\<lambda>_ _ _ _ s. Some (0, s)), c_read = (\<lambda>_ _ _ _ s. Some (0, s)),
      c_write = (\<lambda>_ _ _ _ s. Some (0, s)), c_flush = (\<lambda>_ _ s. Some (0, s)), c_lseek = (\<lambda>_ _ _ s. Some (0, s)), c_getdents = (\<lambda>_ _ _ _ s. Some (0, s)),
      c_unlink = (\<lambda>_ _ _ s. Some (0, s)), c_stat = (\<lambda>_ _ _ _ s. Some (0, s)), c_rename = (\<lambda>_ _ _ _ s. Some (0, s))\<rparr>"

lemma null_driver: "fs_driver null_fs"
  by unfold_locales (auto simp: null_fs_def drv_frame_def)

lemma two_mounts_inv: "dfs_inv (two_mounts y)"
proof -
  have o: "owner (two_mounts y) x = Some a \<longleftrightarrow> (a = 0 \<and> x = Inl 0) \<or> (a = 1 \<and> x = Inl 1)" for x a
    by (cases x) (auto simp: two_mounts_def zero_fd_def less_2_cases_iff)
  have "strs_owned (two_mounts y)" unfolding strs_owned_def o by (auto simp: two_mounts_def)
  then show ?thesis by (auto simp: dfs_inv_def two_mounts_def fresh_def fd_closed_def zero_fd_def)
qed

abbreviation (input) a_path :: "u8 list" where
  "a_path \<equiv> [0x2f, 0x61]"

lemma a_path_sane: "sane_path a_path"
  by (simp add: sane_path_def resolve_path_def path_names_def)


theorem posix_close_correct_witness:
  "\<exists>r s'. posix_close null_fs 0 (two_mounts no_devices) = Some (r, s') \<and> dfs_inv s' \<and> r = - 1"
proof -
  have "\<forall>f d s. c_close null_fs f d s \<noteq> None" by (simp add: null_fs_def)
  from posix_close_correct [OF null_driver this two_mounts_inv [of no_devices], of 0] show ?thesis
    by (auto simp: two_mounts_def fd_opened_def zero_fd_def)
qed


end
