(* ===== verification/Ramfs.thy ===== *)
theory Ramfs
  imports DfsProps
begin

text \<open>
  The file system in memory, \<^verbatim>\<open>components/dfs/filesystems/ramfs/dfs_ramfs.c\<close>: one directory of files, each an entry with a name and a block of memory.
  The entries and blocks come from a memory heap of the file system, which refuses a request or gives new memory; the content of new memory is part of the state.
  An entry is a number: 0 is \<^verbatim>\<open>RT_NULL\<close> and 1 the root, which is an entry of its own, not in its list.
\<close>

unbundle bit_operations_syntax

abbreviation (input) RAMFS_NAME_MAX :: nat where "RAMFS_NAME_MAX \<equiv> 32"
abbreviation (input) RAMFS_ROOT :: nat where "RAMFS_ROOT \<equiv> 1"

section \<open>State\<close>

text \<open>The name is the text in the array: with 32 bytes it has no end. The data are the bytes of the block the entry points to.\<close>

record ramfs_dirent =
  de_name :: "u8 list"
  de_data :: "u8 list option"
  de_size :: u32

record dfs_ramfs =
  root_list :: "nat list"
  dirents :: "nat \<rightharpoonup> ramfs_dirent"
  mh_ok :: "nat \<Rightarrow> bool"
  mh_no :: nat
  mh_junk :: "nat \<Rightarrow> u8"
  mh_pool_size :: u32
  mh_available :: u32

text \<open>The file systems by the pointers to them.\<close>

type_synonym rams = "nat \<Rightarrow> dfs_ramfs"

definition ram :: "nat \<Rightarrow> rams dfs \<Rightarrow> dfs_ramfs" where
  "ram q s = sys_world (dfs_sys s) q"

definition upd_ram :: "nat \<Rightarrow> (dfs_ramfs \<Rightarrow> dfs_ramfs) \<Rightarrow> rams dfs \<Rightarrow> rams dfs" where
  "upd_ram q f s = s\<lparr>dfs_sys := (dfs_sys s)\<lparr>sys_world := (sys_world (dfs_sys s))(q := f (ram q s))\<rparr>\<rparr>"

definition upd_dirent :: "nat \<Rightarrow> (ramfs_dirent \<Rightarrow> ramfs_dirent) \<Rightarrow> dfs_ramfs \<Rightarrow> dfs_ramfs" where
  "upd_dirent e f r = r\<lparr>dirents := (dirents r)(e := map_option f (dirents r e))\<rparr>"

definition mem_put :: "nat \<Rightarrow> u8 list \<Rightarrow> rams dfs \<Rightarrow> rams dfs" where
  "mem_put a bs s =
     s\<lparr>dfs_sys := (dfs_sys s)\<lparr>sys_mem := (\<lambda>i. if a \<le> i \<and> i < a + length bs then bs ! (i - a) else sys_mem (dfs_sys s) i)\<rparr>\<rparr>"

definition mem_get :: "nat \<Rightarrow> nat \<Rightarrow> rams dfs \<Rightarrow> u8 list" where
  "mem_get a n s = map (sys_mem (dfs_sys s)) [a ..< a + n]"

section \<open>Operations\<close>

definition dfs_ramfs_mount :: "nat \<Rightarrow> u32 \<Rightarrow> nat \<Rightarrow> rams dfs \<Rightarrow> (int \<times> rams dfs) option" where
  "dfs_ramfs_mount fs rwflag data s =
     (if data = 0 then Some (- DFS_STATUS_EIO, s) else Some (0, upd_fs fs (\<lambda>v. v\<lparr>fs_data := data\<rparr>) s))"

definition dfs_ramfs_unmount :: "nat \<Rightarrow> rams dfs \<Rightarrow> (int \<times> rams dfs) option" where
  "dfs_ramfs_unmount fs s = Some (0, upd_fs fs (\<lambda>v. v\<lparr>fs_data := 0\<rparr>) s)"

definition fs_ram :: "nat \<Rightarrow> rams dfs \<Rightarrow> nat" where
  "fs_ram fs s = fs_data (filesystem_table s fs)"

definition dfs_ramfs_statfs :: "nat \<Rightarrow> u32 \<Rightarrow> rams dfs \<Rightarrow> (int \<times> rams dfs) option" where
  "dfs_ramfs_statfs fs buf s =
     do { let q = fs_ram fs s;
          rt_assert (q \<noteq> 0);
          rt_assert (buf \<noteq> 0);
          let r = ram q s;
          Some (0, s\<lparr>dfs_sys := (dfs_sys s)\<lparr>sys_mem :=
             (put32 (unat buf + 8) (mh_available r div 512) \<circ> put32 (unat buf + 4) (mh_pool_size r div 512) \<circ> put32 (unat buf) 512) (sys_mem (dfs_sys s))\<rparr>\<rparr>) }"

definition dfs_ramfs_ioctl :: "fdref \<Rightarrow> u32 \<Rightarrow> u32 \<Rightarrow> rams dfs \<Rightarrow> (int \<times> rams dfs) option" where
  "dfs_ramfs_ioctl d cmd args s = Some (- DFS_STATUS_EIO, s)"

text \<open>\<^verbatim>\<open>rt_strcmp\<close> of a name with a string: a name without an end is read beyond its array when the string begins with it.\<close>

definition name_eq :: "u8 list \<Rightarrow> u8 list \<Rightarrow> bool option" where
  "name_eq name path =
     (if length name < RAMFS_NAME_MAX then Some (name = path)
      else if take RAMFS_NAME_MAX path = name then None else Some False)"

fun find_dirent :: "u8 list \<Rightarrow> nat list \<Rightarrow> dfs_ramfs \<Rightarrow> nat option" where
  "find_dirent subpath [] r = Some 0"
| "find_dirent subpath (e # es) r =
     do { v \<leftarrow> dirents r e;
          b \<leftarrow> name_eq (de_name v) subpath;
          if b then Some e else find_dirent subpath es r }"

definition dfs_ramfs_lookup :: "u8 list \<Rightarrow> dfs_ramfs \<Rightarrow> nat option" where
  "dfs_ramfs_lookup path r =
     (let subpath = dropWhile (\<lambda>c. c = SEP) path
      in if subpath = [] then Some RAMFS_ROOT else find_dirent subpath (root_list r) r)"

definition fd_ram :: "fdref \<Rightarrow> rams dfs \<Rightarrow> nat option" where
  "fd_ram d s = do { fs \<leftarrow> fd_fs (fds s d); Some (fs_ram fs s) }"

definition dfs_ramfs_read :: "fdref \<Rightarrow> u32 \<Rightarrow> u32 \<Rightarrow> rams dfs \<Rightarrow> (int \<times> rams dfs) option" where
  "dfs_ramfs_read d buf cnt s =
     do { let v = fds s d;
          rt_assert (fd_data v \<noteq> 0);
          let length' = (if cnt < fd_size v - fd_pos v then cnt else fd_size v - fd_pos v);
          s \<leftarrow> (if length' > 0 then
                  do { q \<leftarrow> fd_ram d s;
                       e \<leftarrow> dirents (ram q s) (fd_data v);
                       data \<leftarrow> de_data e;
                       valid_access (unat (fd_pos v) + unat length' \<le> length data);
                       Some (mem_put (unat buf) (take (unat length') (drop (unat (fd_pos v)) data)) s) }
                else Some s);
          Some (sint length', upd_fd d (\<lambda>v. v\<lparr>fd_pos := fd_pos v + length'\<rparr>) s) }"

text \<open>\<^verbatim>\<open>rt_memheap_realloc\<close> of the data of an entry; \<open>None\<close> inside when it is refused.\<close>

definition realloc_data :: "nat \<Rightarrow> nat \<Rightarrow> dfs_ramfs \<Rightarrow> bool \<times> dfs_ramfs" where
  "realloc_data e n r =
     (let i = mh_no r; r1 = r\<lparr>mh_no := i + 1\<rparr>
      in if mh_ok r i then
           (True, upd_dirent e (\<lambda>v. let old = (case de_data v of None \<Rightarrow> [] | Some x \<Rightarrow> x)
                                      in v\<lparr>de_data := Some (take n (old @ map (mh_junk r) [length old ..< n]))\<rparr>) r1)
         else (False, r1))"

definition write_grow :: "fdref \<Rightarrow> nat \<Rightarrow> u32 \<Rightarrow> rams dfs \<Rightarrow> bool \<times> rams dfs" where
  "write_grow d q cnt s =
     (let v = fds s d
      in if cnt + fd_pos v > fd_size v then
           (case realloc_data (fd_data v) (unat (fd_pos v + cnt)) (ram q s) of
              (False, r) \<Rightarrow> (False, dfs_errno (- RT_ENOMEM) (upd_ram q (\<lambda>_. r) s))
            | (True, r) \<Rightarrow>
                (True, upd_fd d (\<lambda>v. v\<lparr>fd_size := fd_pos v + cnt\<rparr>)
                   (upd_ram q (\<lambda>_. upd_dirent (fd_data v) (\<lambda>e. e\<lparr>de_size := fd_pos v + cnt\<rparr>) r) s)))
         else (True, s))"

definition write_data :: "fdref \<Rightarrow> nat \<Rightarrow> u32 \<Rightarrow> u32 \<Rightarrow> rams dfs \<Rightarrow> (int \<times> rams dfs) option" where
  "write_data d q buf cnt s =
     do { let v = fds s d;
          let pos = unat (fd_pos v);
          s \<leftarrow> (if cnt > 0 then
                  do { e \<leftarrow> dirents (ram q s) (fd_data v);
                       data \<leftarrow> de_data e;
                       valid_access (pos + unat cnt \<le> length data);
                       let bs = mem_get (unat buf) (unat cnt) s;
                       Some (upd_ram q (upd_dirent (fd_data v) (\<lambda>e. e\<lparr>de_data := Some (take pos data @ bs @ drop (pos + unat cnt) data)\<rparr>)) s) }
                else Some s);
          Some (sint cnt, upd_fd d (\<lambda>v. v\<lparr>fd_pos := fd_pos v + cnt\<rparr>) s) }"

definition dfs_ramfs_write :: "fdref \<Rightarrow> u32 \<Rightarrow> u32 \<Rightarrow> rams dfs \<Rightarrow> (int \<times> rams dfs) option" where
  "dfs_ramfs_write d buf cnt s =
     do { q \<leftarrow> fd_ram d s;
          rt_assert (q \<noteq> 0);
          rt_assert (fd_data (fds s d) \<noteq> 0);
          valid_access (dirents (ram q s) (fd_data (fds s d)) \<noteq> None);
          (case write_grow d q cnt s of (False, s) \<Rightarrow> Some (0, s) | (True, s) \<Rightarrow> write_data d q buf cnt s) }"

definition dfs_ramfs_lseek :: "fdref \<Rightarrow> u32 \<Rightarrow> rams dfs \<Rightarrow> (int \<times> rams dfs) option" where
  "dfs_ramfs_lseek d offset s =
     (if sint offset \<le> sint (fd_size (fds s d)) then Some (sint offset, upd_fd d (\<lambda>v. v\<lparr>fd_pos := offset\<rparr>) s)
      else Some (- DFS_STATUS_EIO, s))"

definition dfs_ramfs_close :: "fdref \<Rightarrow> rams dfs \<Rightarrow> (int \<times> rams dfs) option" where
  "dfs_ramfs_close d s = Some (0, upd_fd d (\<lambda>v. v\<lparr>fd_data := 0\<rparr>) s)"

text \<open>A new entry, put at the begin of the directory; 0 when there is no memory.\<close>

definition create_dirent :: "u8 list \<Rightarrow> dfs_ramfs \<Rightarrow> nat \<times> dfs_ramfs" where
  "create_dirent path r =
     (let i = mh_no r; r1 = r\<lparr>mh_no := i + 1\<rparr>; name = take RAMFS_NAME_MAX (dropWhile (\<lambda>c. c = SEP) path)
      in if mh_ok r i then
           (i + 2, r1\<lparr>dirents := (dirents r1)(i + 2 \<mapsto> \<lparr>de_name = name, de_data = None, de_size = 0\<rparr>), root_list := (i + 2) # root_list r1\<rparr>)
         else (0, r1))"

text \<open>The entry of a file to be opened, or the error.\<close>

definition open_dirent :: "u8 list \<Rightarrow> u32 \<Rightarrow> dfs_ramfs \<Rightarrow> ((int + nat) \<times> dfs_ramfs) option" where
  "open_dirent path flags r =
     (if flags AND DFS_O_DIRECTORY \<noteq> 0 then
        if flags AND DFS_O_CREAT \<noteq> 0 then Some (Inl (- DFS_STATUS_ENOSPC), r)
        else do { e \<leftarrow> dfs_ramfs_lookup path r;
                  Some (if e = 0 then Inl (- DFS_STATUS_ENOENT) else Inr e, r) }
      else
        do { e \<leftarrow> dfs_ramfs_lookup path r;
             if e = RAMFS_ROOT then Some (Inl (- DFS_STATUS_ENOENT), r)
             else if e = 0 \<and> flags AND DFS_O_CREAT = 0 \<and> flags AND DFS_O_WRONLY = 0 then Some (Inl (- DFS_STATUS_ENOENT), r)
             else
               let (e, r) = (if e = 0 then create_dirent path r else (e, r))
               in if e = 0 then Some (Inl (- DFS_STATUS_ENOMEM), r)
                  else
                    let r = (if flags AND DFS_O_TRUNC \<noteq> 0 then upd_dirent e (\<lambda>v. v\<lparr>de_size := 0, de_data := None\<rparr>) r else r)
                    in Some (Inr e, r) })"

definition dfs_ramfs_open :: "fdref \<Rightarrow> rams dfs \<Rightarrow> (int \<times> rams dfs) option" where
  "dfs_ramfs_open d s =
     do { q \<leftarrow> fd_ram d s;
          rt_assert (q \<noteq> 0);
          a \<leftarrow> fd_path (fds s d);
          path \<leftarrow> str_of a s;
          let flags = fd_flags (fds s d);
          (x, r) \<leftarrow> open_dirent path flags (ram q s);
          let s = upd_ram q (\<lambda>_. r) s;
          (case x of
             Inl err \<Rightarrow> Some (err, s)
           | Inr e \<Rightarrow>
               do { v \<leftarrow> dirents r e;
                    let sz = de_size v;
                    Some (0, upd_fd d (\<lambda>v. v\<lparr>fd_data := e, fd_size := sz, fd_pos := (if flags AND DFS_O_APPEND \<noteq> 0 then sz else 0)\<rparr>) s) }) }"

definition dfs_ramfs_stat :: "nat \<Rightarrow> u8 list option \<Rightarrow> u32 \<Rightarrow> rams dfs \<Rightarrow> (int \<times> rams dfs) option" where
  "dfs_ramfs_stat fs path st s =
     do { let q = fs_ram fs s;
          valid_access (q \<noteq> 0);
          p \<leftarrow> path;
          e \<leftarrow> dfs_ramfs_lookup p (ram q s);
          if e = 0 then Some (- DFS_STATUS_ENOENT, s)
          else do { v \<leftarrow> dirents (ram q s) e; Some (0, put_stat st (DFS_S_IFREG OR DFS_S_RW) (de_size v) s) } }"

text \<open>One directory entry in memory: type, length of the name, length of the record, name.\<close>

definition SIZEOF_DIRENT :: nat where
  "SIZEOF_DIRENT = 260"

definition put_dirent :: "nat \<Rightarrow> u8 list \<Rightarrow> rams dfs \<Rightarrow> rams dfs" where
  "put_dirent a name s =
     mem_put (a + 4) (name @ replicate (RAMFS_NAME_MAX - length name) 0)
       (s\<lparr>dfs_sys := (dfs_sys s)\<lparr>sys_mem := (put16 (a + 2) (of_nat SIZEOF_DIRENT) \<circ> (\<lambda>m. m(a := 0x01, a + 1 := 8))) (sys_mem (dfs_sys s))\<rparr>\<rparr>)"

fun getdents_loop :: "fdref \<Rightarrow> nat \<Rightarrow> nat list \<Rightarrow> nat \<Rightarrow> nat \<Rightarrow> nat \<Rightarrow> nat \<Rightarrow> rams dfs \<Rightarrow> (nat \<times> rams dfs) option" where
  "getdents_loop d q [] dirp index end' cnt s = Some (cnt, s)"
| "getdents_loop d q (e # es) dirp index end' cnt s =
     (if index < end' then
        if index \<ge> unat (fd_pos (fds s d)) then
          do { v \<leftarrow> dirents (ram q s) e;
               let s = put_dirent (dirp + cnt * SIZEOF_DIRENT) (de_name v) s;
               let s = upd_fd d (\<lambda>v. v\<lparr>fd_pos := fd_pos v + 1\<rparr>) s;
               getdents_loop d q es dirp (index + 1) end' (cnt + 1) s }
        else getdents_loop d q es dirp (index + 1) end' cnt s
      else Some (cnt, s))"

definition dfs_ramfs_getdents :: "fdref \<Rightarrow> u32 \<Rightarrow> u32 \<Rightarrow> rams dfs \<Rightarrow> (int \<times> rams dfs) option" where
  "dfs_ramfs_getdents d dirp cnt s =
     do { q \<leftarrow> fd_ram d s;
          if fd_data (fds s d) \<noteq> RAMFS_ROOT then Some (- DFS_STATUS_EINVAL, s)
          else
            let n = unat cnt div SIZEOF_DIRENT
            in if n = 0 then Some (- DFS_STATUS_EINVAL, s)
               else do {
                 (c, s) \<leftarrow> getdents_loop d q (root_list (ram q s)) (unat dirp) 0 (unat (fd_pos (fds s d) + of_nat n)) 0 s;
                 Some (int (c * SIZEOF_DIRENT), s) } }"

definition dfs_ramfs_unlink :: "nat \<Rightarrow> u8 list option \<Rightarrow> rams dfs \<Rightarrow> (int \<times> rams dfs) option" where
  "dfs_ramfs_unlink fs path s =
     do { let q = fs_ram fs s;
          rt_assert (q \<noteq> 0);
          p \<leftarrow> path;
          e \<leftarrow> dfs_ramfs_lookup p (ram q s);
          if e = 0 then Some (- DFS_STATUS_ENOENT, s)
          else do {
            rt_assert (e \<noteq> RAMFS_ROOT);
            Some (0, upd_ram q (\<lambda>r. r\<lparr>root_list := remove1 e (root_list r), dirents := (dirents r)(e := None)\<rparr>) s) } }"

definition dfs_ramfs_rename :: "nat \<Rightarrow> u8 list option \<Rightarrow> u8 list option \<Rightarrow> rams dfs \<Rightarrow> (int \<times> rams dfs) option" where
  "dfs_ramfs_rename fs oldpath newpath s =
     do { let q = fs_ram fs s;
          rt_assert (q \<noteq> 0);
          new \<leftarrow> newpath;
          e \<leftarrow> dfs_ramfs_lookup new (ram q s);
          if e \<noteq> 0 then Some (- DFS_STATUS_EEXIST, s)
          else do {
            old \<leftarrow> oldpath;
            e \<leftarrow> dfs_ramfs_lookup old (ram q s);
            if e = 0 then Some (- DFS_STATUS_ENOENT, s)
            else Some (0, upd_ram q (upd_dirent e (\<lambda>v. v\<lparr>de_name := take RAMFS_NAME_MAX new\<rparr>)) s) } }"

text \<open>The table of the operations, and the code behind it.\<close>

definition ramfs_ops :: fs_operation where
  "ramfs_ops =
     \<lparr>op_name = map of_char ''ram'', op_flags = 0, op_mount = Some 0, op_unmount = Some 0, op_mkfs = None, op_statfs = Some 0, op_open = Some 0, op_close = Some 0,
      op_ioctl = Some 0, op_read = Some 0, op_write = Some 0, op_flush = None, op_lseek = Some 0, op_getdents = Some 0, op_unlink = Some 0, op_stat = Some 0,
      op_rename = Some 0\<rparr>"

definition ramfs :: "rams fs_code" where
  "ramfs =
     \<lparr>op_struct = (\<lambda>_. ramfs_ops), c_mount = (\<lambda>_. dfs_ramfs_mount), c_unmount = (\<lambda>_. dfs_ramfs_unmount), c_mkfs = (\<lambda>_ _ _. None),
      c_statfs = (\<lambda>_. dfs_ramfs_statfs), c_open = (\<lambda>_. dfs_ramfs_open), c_close = (\<lambda>_. dfs_ramfs_close), c_ioctl = (\<lambda>_. dfs_ramfs_ioctl),
      c_read = (\<lambda>_. dfs_ramfs_read), c_write = (\<lambda>_. dfs_ramfs_write), c_flush = (\<lambda>_ _ _. None), c_lseek = (\<lambda>_. dfs_ramfs_lseek),
      c_getdents = (\<lambda>_. dfs_ramfs_getdents), c_unlink = (\<lambda>_. dfs_ramfs_unlink), c_stat = (\<lambda>_. dfs_ramfs_stat), c_rename = (\<lambda>_. dfs_ramfs_rename)\<rparr>"

definition dfs_ramfs_init :: "rams dfs \<Rightarrow> int \<times> rams dfs" where
  "dfs_ramfs_init s = (let (_, s) = dfs_register ramfs 0 s in (0, s))"

text \<open>A new file system: what the memory heap will answer is given. It is \<open>None\<close> when the heap cannot be set up.\<close>

definition dfs_ramfs_create :: "bool \<Rightarrow> (nat \<Rightarrow> bool) \<Rightarrow> (nat \<Rightarrow> u8) \<Rightarrow> u32 \<Rightarrow> u32 \<Rightarrow> dfs_ramfs option" where
  "dfs_ramfs_create init_ok ok junk pool_size available =
     (if init_ok then
        Some \<lparr>root_list = [], dirents = [RAMFS_ROOT \<mapsto> \<lparr>de_name = map of_char ''.'', de_data = None, de_size = 0\<rparr>], mh_ok = ok, mh_no = 0, mh_junk = junk,
              mh_pool_size = pool_size, mh_available = available\<rparr>
      else None)"

section \<open>The file system keeps to its own\<close>

lemma drv_world [simp]:
  "drv_frame d s (upd_ram q f t) = drv_frame d s t" "drv_frame d s (mem_put a bs t) = drv_frame d s t"
  "drv_frame d s (put_stat st mode sz t) = drv_frame d s t" "drv_frame d s (dfs_errno e t) = drv_frame d s t"
  "drv_frame d s (t\<lparr>dfs_sys := y\<rparr>) = drv_frame d s t" "drv_frame d s s"
  by (simp_all add: drv_frame_def upd_ram_def mem_put_def put_stat_def dfs_errno_def keeps_def)

lemma drv_own:
  "drv_frame (Some d) s t \<Longrightarrow> drv_frame (Some d) s (upd_fd d (\<lambda>v. v\<lparr>fd_pos := p v\<rparr>) t)"
  "drv_frame (Some d) s t \<Longrightarrow> drv_frame (Some d) s (upd_fd d (\<lambda>v. v\<lparr>fd_size := z v\<rparr>) t)"
  "drv_frame (Some d) s t \<Longrightarrow> drv_frame (Some d) s (upd_fd d (\<lambda>v. v\<lparr>fd_data := e v\<rparr>) t)"
  "drv_frame (Some d) s t \<Longrightarrow> drv_frame (Some d) s (upd_fd d (\<lambda>v. v\<lparr>fd_data := e v, fd_size := z v, fd_pos := p v\<rparr>) t)"
  by (rule drv_upd; simp)+

lemma write_grow_frame: "drv_frame (Some d) s (snd (write_grow d q n s))"
  by (auto simp: write_grow_def Let_def split: prod.splits bool.splits intro!: drv_own)

interpretation ramdrv: fs_driver ramfs
proof
  fix f d s r s' and buf len off :: u32 and fs p q
  show "c_open ramfs f d s = Some (r, s') \<Longrightarrow> drv_frame (Some d) s s'"
    by (auto simp: ramfs_def dfs_ramfs_open_def Let_def elim!: bind_SomeE split: sum.splits prod.splits intro!: drv_own)
  show "c_close ramfs f d s = Some (r, s') \<Longrightarrow> drv_frame (Some d) s s'"
    by (auto simp: ramfs_def dfs_ramfs_close_def intro!: drv_own)
  show "c_read ramfs f d buf len s = Some (r, s') \<Longrightarrow> drv_frame (Some d) s s'"
    by (auto simp: ramfs_def dfs_ramfs_read_def Let_def elim!: bind_SomeE split: if_splits intro!: drv_own)
  show "c_write ramfs f d buf len s = Some (r, s') \<Longrightarrow> drv_frame (Some d) s s'"
    using write_grow_frame [of d s]
    by (auto simp: ramfs_def dfs_ramfs_write_def write_data_def Let_def elim!: bind_SomeE split: if_splits prod.splits bool.splits intro!: drv_own) (metis snd_conv)+
  show "c_lseek ramfs f d off s = Some (r, s') \<Longrightarrow> drv_frame (Some d) s s'"
    by (auto simp: ramfs_def dfs_ramfs_lseek_def split: if_splits intro!: drv_own)
  show "c_unlink ramfs f fs p s = Some (r, s') \<Longrightarrow> drv_frame None s s'"
    by (auto simp: ramfs_def dfs_ramfs_unlink_def Let_def elim!: bind_SomeE split: if_splits)
  show "c_stat ramfs f fs p buf s = Some (r, s') \<Longrightarrow> drv_frame None s s'"
    by (auto simp: ramfs_def dfs_ramfs_stat_def Let_def elim!: bind_SomeE split: if_splits)
  show "c_rename ramfs f fs p q s = Some (r, s') \<Longrightarrow> drv_frame None s s'"
    by (auto simp: ramfs_def dfs_ramfs_rename_def Let_def elim!: bind_SomeE split: if_splits)
qed

section \<open>A file is a list of bytes\<close>

text \<open>The contents and the position of an open file.\<close>

definition file_at :: "fdref \<Rightarrow> rams dfs \<Rightarrow> u8 list \<Rightarrow> nat \<Rightarrow> bool" where
  "file_at d s D pos \<longleftrightarrow>
     (\<exists>fs e. fd_fs (fds s d) = Some fs \<and> fs_ops (filesystem_table s fs) \<noteq> None \<and> fs_ram fs s \<noteq> 0 \<and> fd_data (fds s d) > RAMFS_ROOT \<and>
        dirents (ram (fs_ram fs s) s) (fd_data (fds s d)) = Some e \<and>
        (case de_data e of None \<Rightarrow> D = [] | Some D' \<Rightarrow> D' = D) \<and>
        unat (fd_size (fds s d)) = length D \<and> de_size e = fd_size (fds s d) \<and> unat (fd_pos (fds s d)) = pos \<and> pos \<le> length D)"

lemma upd_ram_simps [simp]:
  "ram q (upd_ram q f s) = f (ram q s)" "fds (upd_ram q f s) = fds s" "filesystem_table (upd_ram q f s) = filesystem_table s"
  "ram q (upd_fd d g s) = ram q s" "filesystem_table (upd_fd d g s) = filesystem_table s" "sys_mem (dfs_sys (upd_ram q f s)) = sys_mem (dfs_sys s)"
  "sys_mem (dfs_sys (upd_fd d g s)) = sys_mem (dfs_sys s)" "ram q (mem_put a bs s) = ram q s" "fds (mem_put a bs s) = fds s"
  "filesystem_table (mem_put a bs s) = filesystem_table s" "mem_get a n (upd_ram q f s) = mem_get a n s" "mem_get a n (upd_fd d g s) = mem_get a n s"
  "fs_ram fs (upd_ram q f s) = fs_ram fs s" "fs_ram fs (upd_fd d g s) = fs_ram fs s" "fs_ram fs (mem_put a bs s) = fs_ram fs s"
  by (simp_all add: ram_def upd_ram_def upd_fd_def mem_put_def mem_get_def fs_ram_def)

lemma dirents_upd [simp]: "dirents (upd_dirent e f r) x = (if x = e then map_option f (dirents r e) else dirents r x)"
  by (simp add: upd_dirent_def)

lemma length_mem_get [simp]: "length (mem_get a n s) = n"
  by (simp add: mem_get_def)

lemma mem_get_put: "mem_get a (length bs) (mem_put a bs s) = bs"
  by (rule nth_equalityI) (simp_all add: mem_get_def mem_put_def)

lemma unat_add_small: "unat a + unat b < 2 ^ 32 \<Longrightarrow> unat (a + b :: u32) = unat a + unat b"
  by (simp add: unat_word_ariths)

lemma unat_sub_le: "unat b \<le> unat a \<Longrightarrow> unat (a - b :: u32) = unat a - unat b"
  by (simp add: unat_sub word_le_nat_alt)


lemma ramfs_simps [simp]:
  "op_struct ramfs p = ramfs_ops" "op_open ramfs_ops = Some 0" "op_close ramfs_ops = Some 0" "op_read ramfs_ops = Some 0" "op_write ramfs_ops = Some 0"
  "op_lseek ramfs_ops = Some 0" "op_flags ramfs_ops = 0" "c_open ramfs f = dfs_ramfs_open" "c_close ramfs f = dfs_ramfs_close"
  "c_read ramfs f = dfs_ramfs_read" "c_write ramfs f = dfs_ramfs_write" "c_lseek ramfs f = dfs_ramfs_lseek"
  by (simp_all add: ramfs_def ramfs_ops_def)

lemma ram_fd_ops: "file_at d s D pos \<Longrightarrow> fd_ops ramfs d s = Some ramfs_ops"
  by (auto simp: file_at_def fd_ops_def ops_of_def)

text \<open>An open file with its entry.\<close>

definition ram_file :: "fdref \<Rightarrow> rams dfs \<Rightarrow> u8 list \<Rightarrow> nat \<Rightarrow> nat \<Rightarrow> ramfs_dirent \<Rightarrow> bool" where
  "ram_file d s D pos fs e \<longleftrightarrow>
     fd_fs (fds s d) = Some fs \<and> fs_ops (filesystem_table s fs) \<noteq> None \<and> fs_ram fs s \<noteq> 0 \<and> fd_data (fds s d) > RAMFS_ROOT \<and>
     dirents (ram (fs_ram fs s) s) (fd_data (fds s d)) = Some e \<and> (case de_data e of None \<Rightarrow> D = [] | Some D' \<Rightarrow> D' = D) \<and>
     unat (fd_size (fds s d)) = length D \<and> de_size e = fd_size (fds s d) \<and> unat (fd_pos (fds s d)) = pos \<and> pos \<le> length D"

lemma file_at_ram: "file_at d s D pos \<longleftrightarrow> (\<exists>fs e. ram_file d s D pos fs e)"
  by (auto simp: file_at_def ram_file_def)

lemma ram_file_data: "ram_file d s D pos fs e \<Longrightarrow> D \<noteq> [] \<Longrightarrow> de_data e = Some D"
  by (auto simp: ram_file_def split: option.splits)

lemma ram_file_pos: "ram_file d s D pos fs e \<Longrightarrow> unat p = pos' \<Longrightarrow> pos' \<le> length D \<Longrightarrow> ram_file d (upd_fd d (\<lambda>v. v\<lparr>fd_pos := p\<rparr>) s) D pos' fs e"
  by (auto simp: ram_file_def)

lemma ram_read:
  assumes f: "file_at d s D pos" and n: "unat n + length D < 2147483648"
  shows "\<exists>s' m. dfs_file_read ramfs (Some d) buf n s = Some (int m, s') \<and> m = min (unat n) (length D - pos) \<and>
    mem_get (unat buf) m s' = take m (drop pos D) \<and> file_at d s' D (pos + m)"
proof -
  obtain fs e where e: "ram_file d s D pos fs e" using f by (auto simp: file_at_ram)
  note e' = e [unfolded ram_file_def]
  define w where "w = (if n < fd_size (fds s d) - fd_pos (fds s d) then n else fd_size (fds s d) - fd_pos (fds s d))"
  define m where "m = min (unat n) (length D - pos)"
  have w: "unat w = m" using e' by (auto simp: w_def m_def unat_sub_le word_less_nat_alt min_def)
  have sw: "sint w = int m" using w n sint_small [of w] by (simp add: m_def)
  have pm: "pos + m \<le> length D" using e' by (auto simp: m_def)
  have pw: "unat (fd_pos (fds s d) + w) = pos + m" using unat_add_small [of "fd_pos (fds s d)" w] w e' n pm by simp
  have run: "dfs_file_read ramfs (Some d) buf n s = dfs_ramfs_read d buf n s"
    if "dfs_ramfs_read d buf n s = Some (int x, t)" for x t
    using ram_fd_ops [OF f] that by (simp add: dfs_file_read_def)
  let ?bs = "take m (drop pos D)"
  define t where "t = (if m = 0 then s else mem_put (unat buf) ?bs s)"
  have r: "dfs_ramfs_read d buf n s = Some (sint w, upd_fd d (\<lambda>v. v\<lparr>fd_pos := fd_pos v + w\<rparr>) t)"
  proof (cases "m = 0")
    case True
    then have "\<not> w > 0" using w by (metis unat_eq_0 word_gt_0)
    then show ?thesis using e' True by (simp add: dfs_ramfs_read_def Let_def w_def [symmetric] t_def)
  next
    case False
    then have "w > 0" "D \<noteq> []" using w pm by (auto simp: word_gt_0)
    then show ?thesis using e' ram_file_data [OF e] False w pm
      by (simp add: dfs_ramfs_read_def Let_def w_def [symmetric] t_def fd_ram_def)
  qed
  have "ram_file d t D pos fs e" using e by (simp add: t_def ram_file_def)
  moreover have "fds t d = fds s d" by (simp add: t_def)
  ultimately have "file_at d (upd_fd d (\<lambda>v. v\<lparr>fd_pos := fd_pos v + w\<rparr>) t) D (pos + m)"
    using pw pm by (auto simp: file_at_ram ram_file_def)
  moreover have "mem_get (unat buf) m (upd_fd d (\<lambda>v. v\<lparr>fd_pos := fd_pos v + w\<rparr>) t) = ?bs"
    using mem_get_put [of "unat buf" ?bs s] pm by (simp add: t_def) (simp add: mem_get_def)
  ultimately show ?thesis using run [OF r [unfolded sw]] r sw m_def by auto
qed

lemma ram_lseek:
  assumes f: "file_at d s D pos" and n: "unat n < 2147483648" "length D < 2147483648"
  shows "\<exists>s'. dfs_file_lseek ramfs d n s = Some (if unat n \<le> length D then int (unat n) else - DFS_STATUS_EIO, s') \<and>
    file_at d s' D (if unat n \<le> length D then unat n else pos)"
proof -
  obtain fs e where e: "ram_file d s D pos fs e" using f by (auto simp: file_at_ram)
  note e' = e [unfolded ram_file_def]
  have sn: "sint n = int (unat n)" "sint (fd_size (fds s d)) = int (length D)"
    using n e' sint_small [of n] sint_small [of "fd_size (fds s d)"] by simp_all
  then have "sint n \<le> sint (fd_size (fds s d)) \<longleftrightarrow> unat n \<le> length D" by (simp only: of_nat_le_iff)
  then have l: "dfs_ramfs_lseek d n s = Some (if unat n \<le> length D then (int (unat n), upd_fd d (\<lambda>v. v\<lparr>fd_pos := n\<rparr>) s) else (- DFS_STATUS_EIO, s))"
    using sn(1) by (simp add: dfs_ramfs_lseek_def)
  have p: "upd_fd d (\<lambda>v. v\<lparr>fd_pos := word_of_int (int (unat n))\<rparr>) (upd_fd d (\<lambda>v. v\<lparr>fd_pos := n\<rparr>) s) = upd_fd d (\<lambda>v. v\<lparr>fd_pos := n\<rparr>) s"
    by (simp add: upd_fd_def)
  show ?thesis
  proof (cases "unat n \<le> length D")
    case True
    then have "dfs_file_lseek ramfs d n s = Some (int (unat n), upd_fd d (\<lambda>v. v\<lparr>fd_pos := n\<rparr>) s)"
      using l p ram_fd_ops [OF f] e' by (simp add: dfs_file_lseek_def)
    then show ?thesis using True ram_file_pos [OF e refl, of n] by (auto simp: file_at_ram)
  next
    case False
    then show ?thesis using l ram_fd_ops [OF f] e' f by (auto simp: dfs_file_lseek_def)
  qed
qed

lemma ram_file_grown:
  assumes "ram_file d s D pos fs e" and "length D < pos + unat n" and "pos + unat n < 2147483648" and "mh_ok (ram (fs_ram fs s) s) (mh_no (ram (fs_ram fs s) s))"
  shows "\<exists>s' e' J. write_grow d (fs_ram fs s) n s = (True, s') \<and> ram_file d s' (D @ J) pos fs e' \<and> de_data e' = Some (D @ J) \<and>
    length (D @ J) = pos + unat n \<and> sys_mem (dfs_sys s') = sys_mem (dfs_sys s) \<and> fs_ram fs s' = fs_ram fs s"
proof -
  note e = assms(1) [unfolded ram_file_def]
  let ?v = "fds s d" and ?q = "fs_ram fs s" and ?r = "ram (fs_ram fs s) s"
  have u: "unat (fd_pos ?v + n) = pos + unat n" "unat (n + fd_pos ?v) = pos + unat n"
    using unat_add_small [of "fd_pos ?v" n] e assms(3) by (simp_all add: add.commute)
  have g: "n + fd_pos ?v > fd_size ?v" using u(2) e assms(2) by (simp add: word_less_nat_alt)
  define J where "J = map (mh_junk ?r) [length D ..< pos + unat n]"
  have J: "length (D @ J) = pos + unat n" using assms(2) by (simp add: J_def)
  have old: "take (pos + unat n) ((case de_data e of None \<Rightarrow> [] | Some x \<Rightarrow> x) @
      map (mh_junk ?r) [length (case de_data e of None \<Rightarrow> [] | Some x \<Rightarrow> x) ..< pos + unat n]) = D @ J"
    using e J by (auto simp: J_def split: option.splits)
  let ?e' = "e\<lparr>de_data := Some (D @ J), de_size := fd_pos ?v + n\<rparr>"
  let ?r' = "snd (realloc_data (fd_data ?v) (unat (fd_pos ?v + n)) ?r)"
  have re: "fst (realloc_data (fd_data ?v) (unat (fd_pos ?v + n)) ?r)" "dirents ?r' (fd_data ?v) = Some (e\<lparr>de_data := Some (D @ J)\<rparr>)"
    using assms(4) e u(1) old by (simp_all add: realloc_data_def Let_def)
  let ?s' = "upd_fd d (\<lambda>v. v\<lparr>fd_size := fd_pos v + n\<rparr>) (upd_ram ?q (\<lambda>_. upd_dirent (fd_data ?v) (\<lambda>e. e\<lparr>de_size := fd_pos ?v + n\<rparr>) ?r') s)"
  have "write_grow d ?q n s = (True, ?s')"
    using g re(1) by (cases "realloc_data (fd_data ?v) (unat (fd_pos ?v + n)) ?r") (simp add: write_grow_def Let_def)
  moreover have "ram_file d ?s' (D @ J) pos fs ?e'" using e re(2) u(1) J by (auto simp: ram_file_def)
  ultimately show ?thesis using J by (intro exI [of _ ?s'] exI [of _ ?e'] exI [of _ J]) simp
qed

lemma ram_write_at:
  assumes f: "ram_file d s D pos fs e" and n: "pos + unat n \<le> length D" "length D < 2147483648" and m: "sys_mem (dfs_sys s) = sys_mem (dfs_sys s0)"
  shows "\<exists>s'. write_data d (fs_ram fs s) buf n s = Some (int (unat n), s') \<and>
     file_at d s' (take pos D @ mem_get (unat buf) (unat n) s0 @ drop (pos + unat n) D) (pos + unat n)"
proof -
  note e = f [unfolded ram_file_def]
  have sn: "sint n = int (unat n)" using n sint_small [of n] by simp
  have u: "unat (fd_pos (fds s d) + n) = pos + unat n" using unat_add_small [of "fd_pos (fds s d)" n] e n by simp
  have mg: "mem_get a k s = mem_get a k s0" for a k using m by (simp add: mem_get_def)
  show ?thesis
  proof (cases "n > 0")
    case True
    then have "unat n > 0" by (simp add: word_less_nat_alt)
    then have "D \<noteq> []" using n(1) by (cases D) simp_all
    then have D: "de_data e = Some D" using ram_file_data [OF f] by blast
    let ?D = "take pos D @ mem_get (unat buf) (unat n) s0 @ drop (pos + unat n) D"
    let ?s1 = "upd_ram (fs_ram fs s) (upd_dirent (fd_data (fds s d)) (\<lambda>e. e\<lparr>de_data := Some ?D\<rparr>)) s"
    have "length ?D = length D" using e n by simp
    then have "ram_file d ?s1 ?D pos fs (e\<lparr>de_data := Some ?D\<rparr>)" using e by (auto simp: ram_file_def)
    then have "file_at d (upd_fd d (\<lambda>v. v\<lparr>fd_pos := fd_pos v + n\<rparr>) ?s1) ?D (pos + unat n)"
      using u n \<open>length ?D = length D\<close> by (auto simp: file_at_ram ram_file_def)
    then show ?thesis using True e D n mg sn by (simp add: write_data_def Let_def)
  next
    case False
    then have "n = 0" by (simp add: word_gt_0)
    then show ?thesis using e f by (auto simp: write_data_def Let_def file_at_ram ram_file_def mem_get_def)
  qed
qed

lemma ram_write:
  assumes f: "file_at d s D pos" and n: "unat n + max pos (length D) < 2147483648"
  shows "(\<exists>s'. dfs_file_write ramfs (Some d) buf n s = Some (int (unat n), s') \<and>
      file_at d s' (take pos D @ mem_get (unat buf) (unat n) s @ drop (pos + unat n) D) (pos + unat n)) \<or>
    (\<exists>s'. dfs_file_write ramfs (Some d) buf n s = Some (0, s') \<and> pos + unat n > length D \<and> file_at d s' D pos)"
proof -
  obtain fs e where e: "ram_file d s D pos fs e" using f by (auto simp: file_at_ram)
  note e' = e [unfolded ram_file_def]
  let ?q = "fs_ram fs s"
  have pn: "unat (n + fd_pos (fds s d)) = pos + unat n" using unat_add_small [of n "fd_pos (fds s d)"] e' n by (simp add: add.commute)
  have pn': "pos + unat n < 2147483648" using n by simp
  have run: "dfs_file_write ramfs (Some d) buf n s = dfs_ramfs_write d buf n s"
    using ram_fd_ops [OF f] by (simp add: dfs_file_write_def)
  have q: "fd_ram d s = Some ?q" using e' by (simp add: fd_ram_def)
  show ?thesis
  proof (cases "pos + unat n > length D")
    case grow: True
    show ?thesis
    proof (cases "mh_ok (ram ?q s) (mh_no (ram ?q s))")
      case True
      then obtain s1 e1 J where s1: "write_grow d ?q n s = (True, s1)" "ram_file d s1 (D @ J) pos fs e1" "length (D @ J) = pos + unat n"
        "sys_mem (dfs_sys s1) = sys_mem (dfs_sys s)" "fs_ram fs s1 = ?q"
        using ram_file_grown [OF e grow pn'] by blast
      have "pos + unat n \<le> length (D @ J)" "length (D @ J) < 2147483648" using s1(3) n by auto
      from ram_write_at [OF s1(2) this s1(4), of buf] obtain s2 where
        "dfs_ramfs_write d buf n s = Some (int (unat n), s2)"
        "file_at d s2 (take pos (D @ J) @ mem_get (unat buf) (unat n) s @ drop (pos + unat n) (D @ J)) (pos + unat n)"
        using q e' s1 by (auto simp: dfs_ramfs_write_def)
      moreover have "take pos (D @ J) = take pos D" "drop (pos + unat n) (D @ J) = drop (pos + unat n) D" using e' s1(3) grow by auto
      ultimately show ?thesis using run by auto
    next
      case False
      have g: "n + fd_pos (fds s d) > fd_size (fds s d)" using pn grow e' by (simp add: word_less_nat_alt)
      let ?r = "(ram ?q s)\<lparr>mh_no := mh_no (ram ?q s) + 1\<rparr>"
      let ?s = "dfs_errno (- RT_ENOMEM) (upd_ram ?q (\<lambda>_. ?r) s)"
      have "write_grow d ?q n s = (False, ?s)" using g False by (simp add: write_grow_def realloc_data_def Let_def)
      then have "dfs_ramfs_write d buf n s = Some (0, ?s)" using q e' by (simp add: dfs_ramfs_write_def)
      moreover have "ram x (dfs_errno k t) = ram x t" "filesystem_table (dfs_errno k t) = filesystem_table t" "fs_ram x (dfs_errno k t) = fs_ram x t" for x k t
        by (simp_all add: ram_def dfs_errno_def sys_set_errno_def fs_ram_def)
      then have "ram_file d ?s D pos fs e" using e' by (simp add: ram_file_def)
      ultimately show ?thesis using run grow by (auto simp: file_at_ram)
    qed
  next
    case False
    then have "\<not> n + fd_pos (fds s d) > fd_size (fds s d)" using pn e' by (simp add: word_less_nat_alt)
    then have g: "write_grow d ?q n s = (True, s)" by (simp add: write_grow_def Let_def)
    have "pos + unat n \<le> length D" "length D < 2147483648" using False n by auto
    from ram_write_at [OF e this refl, of buf] obtain s2 where
      "dfs_ramfs_write d buf n s = Some (int (unat n), s2)"
      "file_at d s2 (take pos D @ mem_get (unat buf) (unat n) s @ drop (pos + unat n) D) (pos + unat n)"
      using q e' g by (auto simp: dfs_ramfs_write_def)
    then show ?thesis using run by auto
  qed
qed


text \<open>A file system with one file of three bytes, open at its begin.\<close>

definition one_file :: dfs_ramfs where
  "one_file =
     \<lparr>root_list = [2], dirents = [1 \<mapsto> \<lparr>de_name = [DOT], de_data = None, de_size = 0\<rparr>, 2 \<mapsto> \<lparr>de_name = [0x61], de_data = Some [10, 20, 30], de_size = 3\<rparr>],
      mh_ok = (\<lambda>_. True), mh_no = 5, mh_junk = (\<lambda>_. 0), mh_pool_size = 4096, mh_available = 2048\<rparr>"

definition file_opened :: "rams dfs" where
  "file_opened =
     (let s = two_mounts \<lparr>sys_kernel = kernel0, sys_mem = (\<lambda>_. 7), devices = (\<lambda>_. a_device), console_device = None, sys_world = (\<lambda>_. one_file)\<rparr>
      in s\<lparr>filesystem_table := (\<lambda>i. (filesystem_table s i)\<lparr>fs_data := 0x1000\<rparr>),
           fds := (\<lambda>_. zero_fd\<lparr>fd_magic := DFS_FD_MAGIC, fd_ref_count := 1, fd_fs := Some 0, fd_data := 2, fd_size := 3, fd_pos := 2\<rparr>)\<rparr>)"


section \<open>Lost files\<close>

lemma find_dirent_name: "find_dirent p es r = Some e \<Longrightarrow> e \<noteq> 0 \<Longrightarrow> e \<in> set es \<and> (\<exists>v. dirents r e = Some v \<and> de_name v = p)"
  by (induction es) (auto elim!: bind_SomeE simp: name_eq_def split: if_splits)

text \<open>
  A file that is renamed gets the new path with its separator as its name, while a path is looked up without its first separators: no path leads
  to the file any more.\<close>

theorem ramfs_rename_loses_file:
  assumes "dfs_ramfs_rename fs (Some old) (Some (SEP # new)) s = Some (0, s')" and "dfs_ramfs_lookup old (ram (fs_ram fs s) s) = Some e" and "e > RAMFS_ROOT"
  shows "dfs_ramfs_lookup p (ram (fs_ram fs s) s') \<noteq> Some e"
proof
  let ?q = "fs_ram fs s"
  have s': "s' = upd_ram ?q (upd_dirent e (\<lambda>v. v\<lparr>de_name := take RAMFS_NAME_MAX (SEP # new)\<rparr>)) s"
    using assms by (auto simp: dfs_ramfs_rename_def Let_def elim!: bind_SomeE split: if_splits)
  assume "dfs_ramfs_lookup p (ram ?q s') = Some e"
  then obtain v where v: "dirents (ram ?q s') e = Some v" "de_name v = dropWhile (\<lambda>c. c = SEP) p" "dropWhile (\<lambda>c. c = SEP) p \<noteq> []"
    using assms(3) find_dirent_name [of _ _ "ram ?q s'" e] by (fastforce simp: dfs_ramfs_lookup_def Let_def split: if_splits)
  have "hd (de_name v) = SEP" using v(1) by (auto simp: s' upd_dirent_def)
  then show False using v(2,3) hd_dropWhile [of "\<lambda>c. c = SEP" p] by auto
qed

text \<open>
  Every descriptor has its own copy of the size of the file. One that was opened before another made the file longer takes its end from the copy:
  the block is cut, and what the other wrote is lost.\<close>

theorem ramfs_write_cuts_file:
  "\<exists>s1 s2 e1 e2. dfs_ramfs_write (Fd 0) 0x2000 5 file_opened = Some (5, s1) \<and> dfs_ramfs_write (Fd 1) 0x2000 2 s1 = Some (2, s2) \<and>
     dirents (ram 0x1000 s1) 2 = Some e1 \<and> de_data e1 = Some [10, 20, 7, 7, 7, 7, 7] \<and>
     dirents (ram 0x1000 s2) 2 = Some e2 \<and> de_data e2 = Some [10, 20, 7, 7]"
  by (simp add: file_opened_def Let_def two_mounts_def fs_ram_def ram_def one_file_def dfs_ramfs_write_def fd_ram_def write_grow_def realloc_data_def
      write_data_def upd_fd_def upd_ram_def upd_dirent_def mem_get_def upt_rec)

section \<open>From a path to the bytes\<close>

lemma file_at_ref [simp]: "file_at d (upd_fd d (\<lambda>v. v\<lparr>fd_ref_count := c v\<rparr>) s) D pos = file_at d s D pos"
  by (auto simp: file_at_def)

lemma file_at_put: "file_at d s D pos \<Longrightarrow> fd_ref_count (fds s d) \<ge> 2 \<Longrightarrow> file_at d (fd_put d s) D pos"
  by (auto simp: file_at_def fd_put_simp)

text \<open>An open descriptor of a file.\<close>

definition open_file :: "nat \<Rightarrow> rams dfs \<Rightarrow> u8 list \<Rightarrow> nat \<Rightarrow> bool" where
  "open_file i s D pos \<longleftrightarrow>
     i < DFS_FD_MAX \<and> fd_magic (fds s (Fd i)) = DFS_FD_MAGIC \<and> fd_ref_count (fds s (Fd i)) \<ge> 1 \<and> file_at (Fd i) s D pos"

lemma with_open_file:
  assumes "open_file i s D pos"
  obtains s1 where "\<And>body. with_fd (int i) body s = body (Fd i) s1" "file_at (Fd i) s1 D pos" "fd_ref_count (fds s1 (Fd i)) \<ge> 2"
    "fd_magic (fds s1 (Fd i)) = DFS_FD_MAGIC" "\<And>a n. mem_get a n s1 = mem_get a n s"
proof
  let ?s1 = "upd_fd (Fd i) (\<lambda>v. v\<lparr>fd_ref_count := fd_ref_count v + 1\<rparr>) s"
  show "with_fd (int i) body s = body (Fd i) ?s1" for body
    using assms by (simp add: with_fd_def fd_get_def Let_def open_file_def)
qed (use assms in \<open>simp_all add: open_file_def\<close>)

lemma open_file_back:
  assumes "drv_frame (Some (Fd i)) s1 s2" and "fd_ref_count (fds s1 (Fd i)) \<ge> 2" and "fd_magic (fds s1 (Fd i)) = DFS_FD_MAGIC"
    and "file_at (Fd i) s2 D pos" and "i < DFS_FD_MAX"
  shows "open_file i (fd_put (Fd i) s2) D pos"
  using assms file_at_put [OF assms(4)] by (auto simp: open_file_def drv_frame_def fd_put_simp)

lemma open_file_write:
  assumes "open_file i s D pos" and "unat n + max pos (length D) < 2147483648"
  shows "(\<exists>s'. posix_write ramfs (int i) buf n s = Some (int (unat n), s') \<and>
      open_file i s' (take pos D @ mem_get (unat buf) (unat n) s @ drop (pos + unat n) D) (pos + unat n)) \<or>
    (\<exists>s'. posix_write ramfs (int i) buf n s = Some (0, s') \<and> pos + unat n > length D \<and> open_file i s' D pos)"
proof -
  obtain s1 where s1: "\<And>body. with_fd (int i) body s = body (Fd i) s1" "file_at (Fd i) s1 D pos" "fd_ref_count (fds s1 (Fd i)) \<ge> 2"
    "fd_magic (fds s1 (Fd i)) = DFS_FD_MAGIC" "\<And>a n. mem_get a n s1 = mem_get a n s" by (rule with_open_file [OF assms(1)]) (rule that)
  have i: "i < DFS_FD_MAX" using assms(1) by (simp add: open_file_def)
  have put_back: "posix_write ramfs (int i) buf n s = Some (int m, fd_put (Fd i) s') \<and> open_file i (fd_put (Fd i) s') E p"
    if "dfs_file_write ramfs (Some (Fd i)) buf n s1 = Some (int m, s')" "file_at (Fd i) s' E p" for m s' E p
    using that open_file_back [OF ramdrv.file_write_frame [OF that(1)] s1(3,4) that(2) i] s1(1) by (simp add: posix_write_def)
  from ram_write [OF s1(2) assms(2), of buf] show ?thesis
  proof (elim disjE exE conjE)
    fix s'
    assume w: "dfs_file_write ramfs (Some (Fd i)) buf n s1 = Some (int (unat n), s')"
      "file_at (Fd i) s' (take pos D @ mem_get (unat buf) (unat n) s1 @ drop (pos + unat n) D) (pos + unat n)"
    then show ?thesis using put_back [OF w] by (metis s1(5))
  next
    fix s'
    assume w: "dfs_file_write ramfs (Some (Fd i)) buf n s1 = Some (0, s')" "pos + unat n > length D" "file_at (Fd i) s' D pos"
    then show ?thesis using put_back [of 0 s' D pos] by (intro disjI2 exI [of _ "fd_put (Fd i) s'"]) simp
  qed
qed

lemma open_file_read:
  assumes "open_file i s D pos" and "unat n + length D < 2147483648"
  shows "\<exists>s' m. posix_read ramfs (int i) buf n s = Some (int m, s') \<and> m = min (unat n) (length D - pos) \<and>
    mem_get (unat buf) m s' = take m (drop pos D) \<and> open_file i s' D (pos + m)"
proof -
  obtain s1 where s1: "\<And>body. with_fd (int i) body s = body (Fd i) s1" "file_at (Fd i) s1 D pos" "fd_ref_count (fds s1 (Fd i)) \<ge> 2"
    "fd_magic (fds s1 (Fd i)) = DFS_FD_MAGIC" "\<And>a n. mem_get a n s1 = mem_get a n s" by (rule with_open_file [OF assms(1)]) (rule that)
  have i: "i < DFS_FD_MAX" using assms(1) by (simp add: open_file_def)
  obtain s2 m where w: "dfs_file_read ramfs (Some (Fd i)) buf n s1 = Some (int m, s2)" "m = min (unat n) (length D - pos)"
    "mem_get (unat buf) m s2 = take m (drop pos D)" "file_at (Fd i) s2 D (pos + m)" using ram_read [OF s1(2) assms(2), of buf] by blast
  have "posix_read ramfs (int i) buf n s = Some (int m, fd_put (Fd i) s2)" using s1(1) w(1) by (simp add: posix_read_def)
  moreover have "mem_get (unat buf) m (fd_put (Fd i) s2) = take m (drop pos D)" using w(3) by (simp add: fd_put_simp)
  ultimately show ?thesis using open_file_back [OF ramdrv.file_read_frame [OF w(1)] s1(3,4) w(4) i] w(2) by blast
qed

lemma open_file_seek:
  assumes "open_file i s D pos" and "unat n \<le> length D" and "length D < 2147483648"
  shows "\<exists>s'. posix_lseek ramfs (int i) n DFS_SEEK_SET s = Some (int (unat n), s') \<and> open_file i s' D (unat n)"
proof -
  obtain s1 where s1: "\<And>body. with_fd (int i) body s = body (Fd i) s1" "file_at (Fd i) s1 D pos" "fd_ref_count (fds s1 (Fd i)) \<ge> 2"
    "fd_magic (fds s1 (Fd i)) = DFS_FD_MAGIC" "\<And>a n. mem_get a n s1 = mem_get a n s" by (rule with_open_file [OF assms(1)]) (rule that)
  have i: "i < DFS_FD_MAX" using assms(1) by (simp add: open_file_def)
  have sn: "sint n = int (unat n)" using assms sint_small [of n] by simp
  obtain s2 where w: "dfs_file_lseek ramfs (Fd i) n s1 = Some (int (unat n), s2)" "file_at (Fd i) s2 D (unat n)"
    using ram_lseek [OF s1(2) _ assms(3), of n] assms(2,3) by (auto simp only: if_True intro: le_less_trans)
  have "posix_lseek ramfs (int i) n DFS_SEEK_SET s = Some (int (unat n), fd_put (Fd i) s2)"
    using s1(1) w(1) sn by (simp add: posix_lseek_def)
  then show ?thesis using open_file_back [OF ramdrv.file_lseek_frame [OF w(1)] s1(3,4) w(2) i] by blast
qed

end
