(* ===== verification/RamfsPosix.thy ===== *)
theory RamfsPosix
  imports Ramfs
begin

text \<open>
  From a path to the bytes of a file: what is written to a path of the memory file system through one descriptor is read from the path through another.
\<close>

unbundle bit_operations_syntax

section \<open>What the calls keep\<close>

text \<open>The files and their names.\<close>

definition same_names :: "dfs_ramfs \<Rightarrow> dfs_ramfs \<Rightarrow> bool" where
  "same_names r r' \<longleftrightarrow>
     root_list r' = root_list r \<and> mh_ok r' = mh_ok r \<and> (\<forall>e. map_option de_name (dirents r' e) = map_option de_name (dirents r e))"

definition io_frame :: "rams dfs \<Rightarrow> rams dfs \<Rightarrow> bool" where
  "io_frame s s' \<longleftrightarrow>
     filesystem_table s' = filesystem_table s \<and> alloc_ok s' = alloc_ok s \<and> strs s' = strs s \<and> (\<forall>q. same_names (ram q s) (ram q s')) \<and>
     (\<forall>e. fd_fs (fds s' e) = fd_fs (fds s e) \<and> fd_data (fds s' e) = fd_data (fds s e))"

lemma same_names_refl [simp]: "same_names r r"
  by (simp add: same_names_def)

lemma same_names_trans [trans]: "same_names r t \<Longrightarrow> same_names t u \<Longrightarrow> same_names r u"
  by (simp add: same_names_def)

lemma same_names_upd:
  "same_names r t \<Longrightarrow> (\<And>v. de_name (f v) = de_name v) \<Longrightarrow> same_names r (upd_dirent e f t)" "same_names r t \<Longrightarrow> same_names r (t\<lparr>mh_no := n\<rparr>)"
  by (auto simp: same_names_def upd_dirent_def option.map_comp comp_def)

lemma io_refl [simp]: "io_frame s s"
  by (simp add: io_frame_def)

lemma io_trans [trans]: "io_frame s t \<Longrightarrow> io_frame t u \<Longrightarrow> io_frame s u"
  unfolding io_frame_def using same_names_trans by (metis (no_types, lifting))

lemma ram_upd: "ram p (upd_ram q f s) = (if p = q then f (ram q s) else ram p s)"
  by (simp add: ram_def upd_ram_def)

lemma io_updates:
  "io_frame s t \<Longrightarrow> (\<And>v. fd_fs (f v) = fd_fs v \<and> fd_data (f v) = fd_data v) \<Longrightarrow> io_frame s (upd_fd d f t)"
  "io_frame s t \<Longrightarrow> same_names (ram q s) (g (ram q t)) \<Longrightarrow> io_frame s (upd_ram q g t)"
  "io_frame s (dfs_errno k t) = io_frame s t" "io_frame s (mem_put a bs t) = io_frame s t"
  by (auto simp: io_frame_def ram_upd) (auto simp: upd_ram_def upd_fd_def dfs_errno_def sys_set_errno_def mem_put_def ram_def)

lemma fd_put_io: "fd_ref_count (fds s d) \<noteq> 1 \<Longrightarrow> io_frame s (fd_put d s)"
  by (auto simp: fd_put_simp io_frame_def upd_fd_def ram_def)

lemma write_grow_io: "io_frame s (snd (write_grow d q n s))"
proof -
  have "same_names r (snd (realloc_data e k r))" for e k r
    by (auto simp: realloc_data_def Let_def intro!: same_names_upd)
  then show ?thesis
    by (auto simp: write_grow_def Let_def io_updates(3) split: prod.splits bool.splits intro!: io_updates(1,2) same_names_upd) (metis snd_conv)+
qed

lemma dfs_ramfs_write_io: "dfs_ramfs_write d buf n s = Some (r, s') \<Longrightarrow> io_frame s s'"
proof -
  assume run: "dfs_ramfs_write d buf n s = Some (r, s')"
  have w: "io_frame t t'" if "write_data d q buf n t = Some (x, t')" for q t x t'
    using that by (auto simp: write_data_def Let_def elim!: bind_SomeE split: if_splits intro!: io_updates(1,2) same_names_upd)
  obtain q where "(case write_grow d q n s of (False, s) \<Rightarrow> Some (0, s) | (True, s) \<Rightarrow> write_data d q buf n s) = Some (r, s')"
    using run by (auto simp: dfs_ramfs_write_def elim!: bind_SomeE split: if_splits)
  then show ?thesis using write_grow_io [of s d q n] w io_trans by (fastforce split: prod.splits bool.splits)
qed

lemma dfs_ramfs_read_io: "dfs_ramfs_read d buf n s = Some (r, s') \<Longrightarrow> io_frame s s'"
  by (auto simp: dfs_ramfs_read_def Let_def io_updates(4) elim!: bind_SomeE split: if_splits intro!: io_updates(1))

lemma dfs_file_write_io: "dfs_file_write ramfs (Some d) buf n s = Some (r, s') \<Longrightarrow> io_frame s s'"
  by (auto simp: dfs_file_write_def fd_ops_def ops_of_def elim!: bind_SomeE dest: dfs_ramfs_write_io)

lemma dfs_file_read_io: "dfs_file_read ramfs (Some d) buf n s = Some (r, s') \<Longrightarrow> io_frame s s'"
  by (auto simp: dfs_file_read_def fd_ops_def ops_of_def Let_def elim!: bind_SomeE dest!: dfs_ramfs_read_io intro!: io_updates(1))

section \<open>Open files\<close>

definition open_at :: "nat \<Rightarrow> rams dfs \<Rightarrow> nat \<Rightarrow> nat \<Rightarrow> u8 list \<Rightarrow> nat \<Rightarrow> bool" where
  "open_at i s fs e D pos \<longleftrightarrow> open_file i s D pos \<and> fd_fs (fds s (Fd i)) = Some fs \<and> fd_data (fds s (Fd i)) = e"

abbreviation held :: "nat \<Rightarrow> rams dfs \<Rightarrow> rams dfs" where
  "held i \<equiv> upd_fd (Fd i) (\<lambda>v. v\<lparr>fd_ref_count := fd_ref_count v + 1\<rparr>)"

lemma with_fd_open: "open_file i s D pos \<Longrightarrow> with_fd (int i) body s = body (Fd i) (held i s)"
  by (simp add: with_fd_def fd_get_def Let_def open_file_def)

lemma put_io:
  assumes "open_file i s D pos" and "io_frame (held i s) s2" and "drv_frame (Some (Fd i)) (held i s) s2"
  shows "io_frame s (fd_put (Fd i) s2)"
proof -
  have "io_frame s (held i s)" by (rule io_updates(1)) simp_all
  moreover have "fd_ref_count (fds s2 (Fd i)) \<noteq> 1" using assms(1,3) by (simp add: drv_frame_def open_file_def)
  ultimately show ?thesis using assms(2) fd_put_io io_trans by blast
qed

lemma posix_write_io:
  assumes "open_file i s D pos" and "posix_write ramfs (int i) buf n s = Some (r, s')"
  shows "io_frame s s'"
proof -
  obtain x s2 where w: "dfs_file_write ramfs (Some (Fd i)) buf n (held i s) = Some (x, s2)"
    and s': "s' = fd_put (Fd i) s2 \<or> s' = dfs_errno x (fd_put (Fd i) s2)"
    using assms(2) unfolding posix_write_def with_fd_open [OF assms(1)] by (auto elim!: bind_SomeE split: if_splits)
  from put_io [OF assms(1) dfs_file_write_io [OF w] ramdrv.file_write_frame [OF w]] s' show ?thesis
    by (auto simp: io_updates(3))
qed

lemma posix_read_io:
  assumes "open_file i s D pos" and "posix_read ramfs (int i) buf n s = Some (r, s')"
  shows "io_frame s s'"
proof -
  obtain x s2 where w: "dfs_file_read ramfs (Some (Fd i)) buf n (held i s) = Some (x, s2)"
    and s': "s' = fd_put (Fd i) s2 \<or> s' = dfs_errno x (fd_put (Fd i) s2)"
    using assms(2) unfolding posix_read_def with_fd_open [OF assms(1)] by (auto elim!: bind_SomeE split: if_splits)
  from put_io [OF assms(1) dfs_file_read_io [OF w] ramdrv.file_read_frame [OF w]] s' show ?thesis
    by (auto simp: io_updates(3))
qed

lemma dfs_ramfs_write_result:
  assumes "dfs_ramfs_write d buf n s = Some (r, s')" and "fd_ram d s = Some q" and "mh_ok (ram q s) (mh_no (ram q s))"
  shows "r = sint n"
proof -
  have "fst (write_grow d q n s)" using assms(3) by (auto simp: write_grow_def realloc_data_def Let_def)
  then obtain t where "write_data d q buf n t = Some (r, s')"
    using assms(1,2) by (cases "write_grow d q n s") (auto simp: dfs_ramfs_write_def elim!: bind_SomeE split: if_splits)
  then show ?thesis by (auto simp: write_data_def Let_def elim!: bind_SomeE split: if_splits)
qed

text \<open>With memory for the file a write does all of it.\<close>

lemma open_at_write:
  assumes f: "open_at i s fs e D pos" and n: "unat n + max pos (length D) < 2147483648" and ok: "\<And>k. mh_ok (ram (fs_ram fs s) s) k"
  shows "\<exists>s'. posix_write ramfs (int i) buf n s = Some (int (unat n), s') \<and> io_frame s s' \<and>
    open_at i s' fs e (take pos D @ mem_get (unat buf) (unat n) s @ drop (pos + unat n) D) (pos + unat n)"
proof -
  have o: "open_file i s D pos" using f by (simp add: open_at_def)
  have no: "posix_write ramfs (int i) buf n s \<noteq> Some (0, s')" if long: "pos + unat n > length D" for s'
  proof
    assume r: "posix_write ramfs (int i) buf n s = Some (0, s')"
    then obtain s2 where "dfs_file_write ramfs (Some (Fd i)) buf n (held i s) = Some (0, s2)"
      unfolding posix_write_def with_fd_open [OF o] by (auto elim!: bind_SomeE split: if_splits)
    moreover have "fd_ram (Fd i) (held i s) = Some (fs_ram fs s)" using f by (simp add: open_at_def fd_ram_def)
    ultimately have z: "sint n = 0"
      using dfs_ramfs_write_result [of "Fd i" buf n "held i s" 0 s2 "fs_ram fs s"] ok
      by (auto simp: dfs_file_write_def fd_ops_def ops_of_def elim!: bind_SomeE)
    have "sint n = int (unat n)" using sint_small [of n] n by simp
    then have "int (unat n) = int 0" using z by (simp only: of_nat_0)
    then have "unat n = 0" by (simp only: of_nat_eq_iff)
    moreover have "pos \<le> length D" using o by (auto simp: open_file_def file_at_def)
    ultimately show False using long by simp
  qed
  then obtain s' where s': "posix_write ramfs (int i) buf n s = Some (int (unat n), s')"
    "open_file i s' (take pos D @ mem_get (unat buf) (unat n) s @ drop (pos + unat n) D) (pos + unat n)"
    using open_file_write [OF o n, of buf] by blast
  then show ?thesis using posix_write_io [OF o s'(1)] f by (auto simp: open_at_def io_frame_def)
qed

lemma open_at_read:
  assumes f: "open_at i s fs e D pos" and n: "unat n + length D < 2147483648"
  shows "\<exists>s' m. posix_read ramfs (int i) buf n s = Some (int m, s') \<and> m = min (unat n) (length D - pos) \<and>
    mem_get (unat buf) m s' = take m (drop pos D) \<and> io_frame s s' \<and> open_at i s' fs e D (pos + m)"
proof -
  have o: "open_file i s D pos" using f by (simp add: open_at_def)
  obtain s' m where s': "posix_read ramfs (int i) buf n s = Some (int m, s')" "m = min (unat n) (length D - pos)"
    "mem_get (unat buf) m s' = take m (drop pos D)" "open_file i s' D (pos + m)" using open_file_read [OF o n, of buf] by blast
  then show ?thesis using posix_read_io [OF o s'(1)] f by (auto simp: open_at_def io_frame_def)
qed

section \<open>Files by their names\<close>

definition file_named :: "dfs_ramfs \<Rightarrow> u8 list \<Rightarrow> nat \<Rightarrow> u8 list \<Rightarrow> bool" where
  "file_named r w e D \<longleftrightarrow>
     dfs_ramfs_lookup (SEP # w) r = Some e \<and> e > RAMFS_ROOT \<and>
     (\<exists>v. dirents r e = Some v \<and> (case de_data v of None \<Rightarrow> D = [] | Some D' \<Rightarrow> D' = D) \<and> unat (de_size v) = length D)"

lemma find_same_names: "same_names r r' \<Longrightarrow> find_dirent p es r' = find_dirent p es r"
proof (induction es)
  case (Cons e es)
  have "map_option de_name (dirents r' e) = map_option de_name (dirents r e)" using Cons.prems by (simp add: same_names_def)
  then show ?case unfolding find_dirent.simps Cons.IH [OF Cons.prems] by (cases "dirents r e"; cases "dirents r' e") simp_all
qed simp

lemma lookup_same_names: "same_names r r' \<Longrightarrow> dfs_ramfs_lookup p r' = dfs_ramfs_lookup p r"
  using find_same_names [of r r'] by (simp add: dfs_ramfs_lookup_def Let_def same_names_def)

lemma lookup_name: "name_ok w \<Longrightarrow> dfs_ramfs_lookup (SEP # w) r = find_dirent w (root_list r) r"
proof -
  assume "name_ok w"
  then have "dropWhile (\<lambda>c. c = SEP) (SEP # w) = w" "w \<noteq> []" by (cases w; auto simp: name_ok_def)+
  then show ?thesis by (simp add: dfs_ramfs_lookup_def)
qed

text \<open>The bytes an open descriptor sees are those of the file with the name.\<close>

lemma open_at_named:
  assumes "open_at i s fs e D pos" and "dfs_ramfs_lookup (SEP # w) (ram (fs_ram fs s) s) = Some e"
  shows "file_named (ram (fs_ram fs s) s) w e D"
  using assms by (auto simp: open_at_def open_file_def file_at_def file_named_def)

lemma open_dirent_found:
  assumes "file_named r w e D" and "flags AND DFS_O_DIRECTORY = 0"
  obtains r' where "open_dirent (SEP # w) flags r = Some (Inr e, r')" "file_named r' w e (if flags AND DFS_O_TRUNC = 0 then D else [])" "same_names r r'"
proof (cases "flags AND DFS_O_TRUNC = 0")
  case True
  then show ?thesis using that [of r] assms by (auto simp: open_dirent_def file_named_def)
next
  case False
  let ?r = "upd_dirent e (\<lambda>v. v\<lparr>de_size := 0, de_data := None\<rparr>) r"
  have sn: "same_names r ?r" by (rule same_names_upd(1)) simp_all
  have "open_dirent (SEP # w) flags r = Some (Inr e, ?r)" using assms False by (auto simp: open_dirent_def file_named_def)
  moreover have "file_named ?r w e []" using assms(1) lookup_same_names [OF sn] by (auto simp: file_named_def)
  ultimately show ?thesis using that [of ?r] sn False by simp
qed

lemma open_dirent_new:
  assumes "name_ok w" and "length w < RAMFS_NAME_MAX" and "dfs_ramfs_lookup (SEP # w) r = Some 0" and "mh_ok r (mh_no r)"
    and "flags AND DFS_O_DIRECTORY = 0" and "flags AND DFS_O_CREAT \<noteq> 0"
  obtains r' where "open_dirent (SEP # w) flags r = Some (Inr (mh_no r + 2), r')" "file_named r' w (mh_no r + 2) []" "mh_ok r' = mh_ok r"
proof -
  let ?e = "mh_no r + 2"
  let ?v = "\<lparr>de_name = w, de_data = None, de_size = 0\<rparr>"
  let ?r1 = "r\<lparr>mh_no := mh_no r + 1, dirents := (dirents r)(?e \<mapsto> ?v), root_list := ?e # root_list r\<rparr>"
  define r' where "r' = (if flags AND DFS_O_TRUNC \<noteq> 0 then upd_dirent ?e (\<lambda>v. v\<lparr>de_size := 0, de_data := None\<rparr>) ?r1 else ?r1)"
  have w: "dropWhile (\<lambda>c. c = SEP) (SEP # w) = w" using assms(1) by (cases w) (auto simp: name_ok_def)
  have c: "create_dirent (SEP # w) r = (?e, ?r1)" using assms(2,4) by (simp add: create_dirent_def Let_def w del: dropWhile.simps)
  have "open_dirent (SEP # w) flags r = Some (Inr ?e, r')" using assms(3,5,6) c by (simp add: open_dirent_def r'_def Let_def)
  moreover have d: "dirents r' ?e = Some ?v" "root_list r' = ?e # root_list r" by (auto simp: r'_def upd_dirent_def)
  then have "file_named r' w ?e []" using assms(1,2) by (simp add: file_named_def lookup_name name_eq_def)
  moreover have "mh_ok r' = mh_ok r" by (simp add: r'_def upd_dirent_def)
  ultimately show ?thesis using that by blast
qed

section \<open>Opening a path\<close>

text \<open>A path that leads to the name \<open>w\<close> in the memory file system mounted as \<open>fs\<close>, with memory for what is asked.\<close>

definition named_mounts :: "'w dfs \<Rightarrow> bool" where
  "named_mounts s \<longleftrightarrow> (\<forall>i m. mounted s i m \<longrightarrow> (\<exists>ms. m = root_path ms \<and> (\<forall>w \<in> set ms. name_ok w)))"

definition leads_to :: "u8 list \<Rightarrow> nat \<Rightarrow> u8 list list \<Rightarrow> u8 list \<Rightarrow> 'w dfs \<Rightarrow> bool" where
  "leads_to path fs ms w s \<longleftrightarrow>
     0 \<notin> set path \<and> path \<noteq> [] \<and> hd path = SEP \<and> resolve_path path = Some (True, ms @ [w]) \<and> named_mounts s \<and> mounted s fs (root_path ms) \<and>
     (\<forall>j ks. mounted s j (root_path ks) \<and> prefix ks (ms @ [w]) \<longrightarrow> j = fs \<or> strict_prefix ks ms)"

definition ram_path :: "u8 list \<Rightarrow> nat \<Rightarrow> u8 list \<Rightarrow> rams dfs \<Rightarrow> bool" where
  "ram_path path fs w s \<longleftrightarrow>
     dfs_inv s \<and> (\<forall>n. alloc_ok s n) \<and> fs_ram fs s \<noteq> 0 \<and> (\<forall>k. mh_ok (ram (fs_ram fs s) s) k) \<and> (\<exists>ms. leads_to path fs ms w s)"

lemma leads_to_names: "leads_to path fs ms w s \<Longrightarrow> \<forall>x \<in> set (ms @ [w]). name_ok x"
proof -
  assume "leads_to path fs ms w s"
  then have r: "resolve_path path = Some (True, ms @ [w])" "0 \<notin> set path" by (simp_all add: leads_to_def)
  show ?thesis using resolve_names [OF r(1) [unfolded resolve_path_def]] path_names_ok [OF r(2)] by auto
qed

lemma leads_to_same: "mounted s' = mounted s \<Longrightarrow> leads_to path fs ms w s' = leads_to path fs ms w s"
  by (simp add: leads_to_def named_mounts_def)

lemma leads_to_lookup:
  assumes l: "leads_to path fs ms w s" and m: "mounts_ok s"
  shows "dfs_filesystem_lookup (root_path (ms @ [w])) s = Some (Some fs, s)" "below fs (root_path (ms @ [w])) s = Some (Some (root_path [w]))"
proof -
  note nm = leads_to_names [OF l]
  have l': "mounted s fs (root_path ms)" "\<forall>j ks. mounted s j (root_path ks) \<and> prefix ks (ms @ [w]) \<longrightarrow> j = fs \<or> strict_prefix ks ms"
    and named: "\<forall>i m. mounted s i m \<longrightarrow> (\<exists>ms. m = root_path ms \<and> (\<forall>w \<in> set ms. name_ok w))"
    using l by (simp_all add: leads_to_def named_mounts_def)
  let ?p = "root_path (ms @ [w])"
  obtain r n where r: "dfs_filesystem_lookup ?p s = Some (r, s)" "best_of s ?p {0 ..< DFS_FILESYSTEMS_MAX} (r, n)"
    using lookup_best [OF m] by blast
  have f: "fs < DFS_FILESYSTEMS_MAX" "covers (root_path ms) ?p" using l'(1) covers_names [of ms "ms @ [w]"] nm by (auto simp: mounted_def)
  then have "r \<noteq> None" using r(2) l'(1) by (cases r) auto
  then obtain i k where i: "r = Some i" "mounted s i k" "covers k ?p" "n = length k" "length (root_path ms) \<le> n" using r(2) l'(1) f by auto
  obtain ks where ks: "k = root_path ks" "\<forall>w \<in> set ks. name_ok w" using named i(2) by blast
  have p: "prefix ks (ms @ [w])" using covers_names [OF ks(2) nm] i(3) ks(1) by simp
  have "prefix ms ks" using root_path_prefix_length [OF p _ nm, of ms] i(4,5) ks(1) by simp
  then have "\<not> strict_prefix ks ms" by (simp add: prefix_order.less_le_not_le)
  then have "i = fs" using l'(2) p i(2) ks(1) by blast
  then show "dfs_filesystem_lookup (root_path (ms @ [w])) s = Some (Some fs, s)" using r(1) i(1) by simp
  show "below fs (root_path (ms @ [w])) s = Some (Some (root_path [w]))"
    using dfs_subdir_names [OF nm] l'(1) by (auto simp: below_def mounted_def str_of_def)
qed


lemma mounted_same:
  assumes "filesystem_table s' = filesystem_table s" and "\<And>i a. i < DFS_FILESYSTEMS_MAX \<Longrightarrow> fs_path (filesystem_table s i) = Some a \<Longrightarrow> strs s' a = strs s a"
  shows "mounted s' = mounted s"
  using assms by (auto simp: mounted_def fun_eq_iff)

text \<open>The state in which the file system is asked to open the file.\<close>

definition path_opened :: "fdref \<Rightarrow> nat \<Rightarrow> u32 \<Rightarrow> u8 list \<Rightarrow> rams dfs \<Rightarrow> rams dfs" where
  "path_opened d fs flags w s =
     upd_fd d (\<lambda>v. v\<lparr>fd_fs := Some fs, fd_type := FT_REGULAR, fd_flags := flags, fd_size := 0, fd_pos := 0, fd_path := Some (alloc_no s + 1)\<rparr>)
       (s\<lparr>alloc_no := alloc_no s + 2, strs := (strs s)(alloc_no s + 1 \<mapsto> root_path [w])\<rparr>)"

lemma file_open_ram:
  assumes l: "leads_to path fs ms w s" and fr: "fresh s" and m: "mounts_ok s" and ok: "\<And>n. alloc_ok s n" and ops: "fs_ops (filesystem_table s fs) \<noteq> None"
  shows "dfs_file_open ramfs (Some d) path flags s =
    do { (result, s) \<leftarrow> dfs_ramfs_open d (path_opened d fs flags w s); open_end flags d result s }"
proof -
  let ?t = "root_path (ms @ [w])" and ?a = "alloc_no s"
  let ?s1 = "with_str ?t s"
  let ?s2 = "upd_fd d (\<lambda>v. v\<lparr>fd_fs := Some fs, fd_type := FT_REGULAR, fd_flags := flags, fd_size := 0, fd_pos := 0\<rparr>) ?s1"
  have free: "strs s ?a = None" "strs s (?a + 1) = None" using fr by (simp_all add: fresh_def)
  have p: "0 \<notin> set path" "path \<noteq> []" "hd path = SEP" "resolve_path path = Some (True, ms @ [w])" using l by (simp_all add: leads_to_def)
  have mm: "mounted ?s1 = mounted s" by (rule mounted_same) (use m free in \<open>auto simp: with_str_def mounts_ok_def\<close>)
  have m1: "mounts_ok ?s1" using m by (simp add: mounts_ok_def with_str_def)
  note lk = leads_to_lookup [OF leads_to_same [OF mm, THEN iffD2, OF l] m1]
  have b: "below fs ?t ?s2 = Some (Some (root_path [w]))" using lk(2) by (simp add: below_def str_of_def upd_fd_def)
  have "open_path ramfs_ops fs ?a ?t d ?s2 = Some (path_opened d fs flags w s)"
    using b ok free by (simp add: open_path_def rt_strdup_def str_malloc_def str_free_def with_str_def upd_fd_def path_opened_def fun_upd_twist)
      (auto simp: fun_eq_iff)
  moreover have "ops_of ramfs fs ?s1 = Some ramfs_ops" using ops by (auto simp: ops_of_def with_str_def)
  moreover have "str_of ?a ?s1 = Some ?t" by (simp add: str_of_def with_str_def)
  ultimately show ?thesis using normalize_root [OF p(1-3) ok p(4), of None] lk(1) by (simp add: dfs_file_open_def)
qed

lemma ramfs_open_entry:
  assumes "open_dirent (SEP # w) flags (ram (fs_ram fs s) s) = Some (Inr e, r)" and "dirents r e = Some v" and "fs_ram fs s \<noteq> 0"
  shows "dfs_ramfs_open d (path_opened d fs flags w s) =
    Some (0, upd_fd d (\<lambda>x. x\<lparr>fd_data := e, fd_size := de_size v, fd_pos := (if flags AND DFS_O_APPEND \<noteq> 0 then de_size v else 0)\<rparr>)
      (upd_ram (fs_ram fs s) (\<lambda>_. r) (path_opened d fs flags w s)))"
proof -
  let ?s = "path_opened d fs flags w s"
  have "fd_ram d ?s = Some (fs_ram fs s)" by (simp add: path_opened_def fd_ram_def fs_ram_def upd_fd_def)
  moreover have "fd_path (fds ?s d) = Some (alloc_no s + 1)" "fd_flags (fds ?s d) = flags" by (simp_all add: path_opened_def)
  moreover have "str_of (alloc_no s + 1) ?s = Some (SEP # w)" by (simp add: str_of_def path_opened_def root_path_names)
  moreover have "ram (fs_ram fs s) ?s = ram (fs_ram fs s) s" by (simp add: path_opened_def ram_def upd_fd_def)
  ultimately show ?thesis using assms by (simp add: dfs_ramfs_open_def Let_def)
qed


lemma taken_simps [simp]:
  "filesystem_table (taken i s) = filesystem_table s" "strs (taken i s) = strs s" "alloc_no (taken i s) = alloc_no s" "alloc_ok (taken i s) = alloc_ok s"
  "dfs_sys (taken i s) = dfs_sys s" "fresh (taken i s) = fresh s" "mounts_ok (taken i s) = mounts_ok s" "mounted (taken i s) = mounted s"
  by (simp_all add: taken_def upd_fd_def fresh_def mounts_ok_def mounted_def fun_eq_iff)

lemma posix_open_ram:
  assumes rp: "ram_path path fs w s" and i: "i < DFS_FD_MAX" "fst (fd_new s) = int i" "fd_get (int i) (snd (fd_new s)) = (Some (Fd i), taken i s)"
    and od: "open_dirent (SEP # w) flags (ram (fs_ram fs s) s) = Some (Inr e, r)" and v: "dirents r e = Some v" and nd: "flags AND DFS_O_DIRECTORY = 0"
  shows "\<exists>s'. posix_open ramfs path flags s = Some (int i, s') \<and> filesystem_table s' = filesystem_table s \<and> alloc_ok s' = alloc_ok s \<and>
    strs s' = (strs s)(alloc_no s + 1 \<mapsto> root_path [w]) \<and> ram (fs_ram fs s) s' = r \<and> sys_mem (dfs_sys s') = sys_mem (dfs_sys s) \<and>
    fd_magic (fds s' (Fd i)) = DFS_FD_MAGIC \<and> fd_ref_count (fds s' (Fd i)) = 1 \<and> fd_fs (fds s' (Fd i)) = Some fs \<and> fd_data (fds s' (Fd i)) = e \<and>
    fd_size (fds s' (Fd i)) = de_size v \<and> fd_pos (fds s' (Fd i)) = (if flags AND DFS_O_APPEND \<noteq> 0 then de_size v else 0)"
proof -
  have q: "fs_ram fs s \<noteq> 0" and ok: "\<And>n. alloc_ok s n" and inv: "dfs_inv s" using rp by (simp_all add: ram_path_def)
  obtain ms where l: "leads_to path fs ms w s" using rp by (auto simp: ram_path_def)
  let ?s0 = "taken i s" and ?d = "Fd i"
  have l0: "leads_to path fs ms w ?s0" using l leads_to_same [of ?s0 s] by simp
  have ops: "fs_ops (filesystem_table ?s0 fs) \<noteq> None" using l by (auto simp: leads_to_def mounted_def)
  have tr: "fs_ram fs ?s0 = fs_ram fs s" "ram (fs_ram fs s) ?s0 = ram (fs_ram fs s) s" by (simp_all add: fs_ram_def ram_def)
  let ?s3 = "upd_fd ?d (\<lambda>x. x\<lparr>fd_data := e, fd_size := de_size v, fd_pos := (if flags AND DFS_O_APPEND \<noteq> 0 then de_size v else 0)\<rparr>)
      (upd_ram (fs_ram fs s) (\<lambda>_. r) (path_opened ?d fs flags w ?s0))"
  have "dfs_ramfs_open ?d (path_opened ?d fs flags w ?s0) = Some (0, ?s3)"
    using ramfs_open_entry [of w flags fs ?s0 e r v ?d] od v q tr by simp
  moreover have "dfs_file_open ramfs (Some ?d) path flags ?s0 =
      do { (result, s) \<leftarrow> dfs_ramfs_open ?d (path_opened ?d fs flags w ?s0); open_end flags ?d result s }"
    by (rule file_open_ram [OF l0 _ _ _ ops]) (use inv inv_mounts_ok [OF inv] ok in \<open>simp_all add: dfs_inv_def\<close>)
  ultimately have "dfs_file_open ramfs (Some ?d) path flags ?s0 = open_end flags ?d 0 ?s3" by simp
  then have run: "posix_open ramfs path flags s = Some (int i, fd_put ?d (upd_fd ?d (\<lambda>x. x\<lparr>fd_flags := fd_flags x OR DFS_F_OPEN\<rparr>) ?s3))"
    using i nd by (cases "fd_new s") (simp add: posix_open_def open_end_def Let_def)
  show ?thesis unfolding run
    by (rule exI, intro conjI, rule refl) (simp_all add: fd_put_simp path_opened_def taken_def, simp_all add: upd_fd_def upd_ram_def)
qed


lemma ram_path_same:
  assumes "ram_path path fs w s" and "dfs_inv s'" and "alloc_ok s' = alloc_ok s" and "filesystem_table s' = filesystem_table s" and "mounted s' = mounted s"
    and "mh_ok (ram (fs_ram fs s) s') = mh_ok (ram (fs_ram fs s) s)"
  shows "ram_path path fs w s'"
proof -
  have "fs_ram fs s' = fs_ram fs s" using assms(4) by (simp add: fs_ram_def)
  then show ?thesis using assms leads_to_same [OF assms(5)] by (simp add: ram_path_def)
qed

lemma open_at_path:
  assumes rp: "ram_path path fs w s" and cl: "\<exists>i < DFS_FD_MAX. fd_closed (fds s (Fd i))" and nd: "flags AND DFS_O_DIRECTORY = 0"
    and od: "open_dirent (SEP # w) flags (ram (fs_ram fs s) s) = Some (Inr e, r)" and fn: "file_named r w e D" and mh: "mh_ok r = mh_ok (ram (fs_ram fs s) s)"
  shows "\<exists>i s'. posix_open ramfs path flags s = Some (int i, s') \<and> open_at i s' fs e D (if flags AND DFS_O_APPEND \<noteq> 0 then length D else 0) \<and>
    ram_path path fs w s' \<and> ram (fs_ram fs s') s' = r \<and> (\<forall>a n. mem_get a n s' = mem_get a n s)"
proof -
  have inv: "dfs_inv s" using rp by (simp add: ram_path_def)
  obtain v where v: "dirents r e = Some v" "case de_data v of None \<Rightarrow> D = [] | Some D' \<Rightarrow> D' = D" "unat (de_size v) = length D" "e > RAMFS_ROOT"
    using fn by (auto simp: file_named_def)
  from inv show ?thesis
  proof (cases rule: fd_new_cases)
    case full
    then show ?thesis using cl closed_not_opened by blast
  next
    case (new i)
    note o = posix_open_ram [OF rp new(1,4,5) od v(1) nd]
    then obtain s' where s': "posix_open ramfs path flags s = Some (int i, s')" "filesystem_table s' = filesystem_table s" "alloc_ok s' = alloc_ok s"
      "strs s' = (strs s)(alloc_no s + 1 \<mapsto> root_path [w])" "ram (fs_ram fs s) s' = r" "sys_mem (dfs_sys s') = sys_mem (dfs_sys s)"
      "fd_magic (fds s' (Fd i)) = DFS_FD_MAGIC" "fd_ref_count (fds s' (Fd i)) = 1" "fd_fs (fds s' (Fd i)) = Some fs" "fd_data (fds s' (Fd i)) = e"
      "fd_size (fds s' (Fd i)) = de_size v" "fd_pos (fds s' (Fd i)) = (if flags AND DFS_O_APPEND \<noteq> 0 then de_size v else 0)" by blast
    have q: "fs_ram fs s' = fs_ram fs s" using s'(2) by (simp add: fs_ram_def)
    have p: "0 \<notin> set path" "fs_ops (filesystem_table s fs) \<noteq> None" "fs_ram fs s \<noteq> 0" using rp by (auto simp: ram_path_def leads_to_def mounted_def)
    have "dfs_inv s'" using ramdrv.posix_open_inv [OF inv p(1) s'(1)] by blast
    moreover have "strs s (alloc_no s + 1) = None" using inv by (simp add: dfs_inv_def fresh_def)
    then have "mounted s' = mounted s"
      using inv_mounts_ok [OF inv] s'(2,4) by (intro mounted_same) (auto simp: mounts_ok_def)
    ultimately have "ram_path path fs w s'" using ram_path_same [OF rp _ s'(3,2)] mh s'(5) by blast
    moreover have "open_at i s' fs e D (if flags AND DFS_O_APPEND \<noteq> 0 then length D else 0)"
      using s' q v p(2,3) new(1) by (auto simp: open_at_def open_file_def file_at_def)
    moreover have "mem_get a n s' = mem_get a n s" for a n using s'(6) by (simp add: mem_get_def)
    moreover have "ram (fs_ram fs s') s' = r" using s'(5) q by simp
    ultimately show ?thesis using s'(1) by blast
  qed
qed

text \<open>Closing gives the descriptor back, and the file stays as it is.\<close>

lemma open_at_close:
  assumes f: "open_at i s fs e D pos" and rp: "ram_path path fs w s"
  shows "\<exists>s'. posix_close ramfs (int i) s = Some (0, s') \<and> fd_closed (fds s' (Fd i)) \<and> ram_path path fs w s' \<and>
    ram (fs_ram fs s') s' = ram (fs_ram fs s) s \<and> (\<forall>a n. mem_get a n s' = mem_get a n s)"
proof -
  have inv: "dfs_inv s" using rp by (simp add: ram_path_def)
  have o: "open_file i s D pos" and i: "i < DFS_FD_MAX" using f by (simp_all add: open_at_def open_file_def)
  let ?d = "Fd i" and ?p = "fd_path (fds s (Fd i))"
  let ?S = "case ?p of None \<Rightarrow> strs s | Some a \<Rightarrow> (strs s)(a := None)"
  let ?s1 = "upd_fd ?d (\<lambda>v. v\<lparr>fd_data := 0\<rparr>) (held i s)"
  let ?s' = "fd_put ?d (fd_put ?d (upd_fd ?d (\<lambda>_. zero_fd) (s\<lparr>strs := ?S\<rparr>)))"
  have "clear_fd ?d ?s1 = Some (upd_fd ?d (\<lambda>_. zero_fd) (s\<lparr>strs := ?S\<rparr>))"
    using inv_owned [OF inv i] by (cases ?p) (auto simp: clear_fd_def str_free_def upd_fd_def fun_eq_iff)
  moreover have "fd_ops ramfs ?d (held i s) = Some ramfs_ops" using o by (auto simp: fd_ops_def ops_of_def open_file_def file_at_def)
  ultimately have run: "posix_close ramfs (int i) s = Some (0, ?s')"
    unfolding posix_close_def with_fd_open [OF o] by (simp add: dfs_file_close_def dfs_ramfs_close_def)
  have inv': "dfs_inv ?s'" using ramdrv.posix_close_inv [OF inv run] by blast
  have mm: "mounted ?s' = mounted s"
  proof (rule mounted_same)
    fix j a
    assume j: "j < DFS_FILESYSTEMS_MAX" "fs_path (filesystem_table s j) = Some a"
    then have "owner s (Inl j) = Some a" "owner s (Inr i) = ?p" using i by simp_all
    then have "?p \<noteq> Some a" using inv unfolding dfs_inv_def strs_owned_def by (metis Inl_Inr_False)
    then show "strs ?s' a = strs s a" by (cases ?p) (auto simp: fd_put_simp upd_fd_def)
  qed (simp add: fd_put_simp upd_fd_def)
  have "ram_path path fs w ?s'"
    by (rule ram_path_same [OF rp inv' _ _ mm]) (simp_all add: fd_put_simp upd_fd_def ram_def)
  moreover have "fd_closed (fds ?s' ?d)" by (simp add: fd_put_simp fd_closed_def zero_fd_def)
  moreover have "ram (fs_ram fs ?s') ?s' = ram (fs_ram fs s) s" "mem_get a n ?s' = mem_get a n s" for a n
    by (simp_all add: fd_put_simp upd_fd_def ram_def fs_ram_def mem_get_def)
  ultimately show ?thesis using run by blast
qed


section \<open>Writing to a path and reading it\<close>

lemma ram_path_io:
  assumes "ram_path path fs w s" and "io_frame s s'" and "dfs_inv s'"
  shows "ram_path path fs w s'"
proof (rule ram_path_same [OF assms(1,3)])
  show "mounted s' = mounted s" by (rule mounted_same) (use assms(2) in \<open>simp_all add: io_frame_def\<close>)
qed (use assms(2) in \<open>simp_all add: io_frame_def same_names_def\<close>)

text \<open>Opening a path to write: the file is there afterwards, and what was in it.\<close>

lemma open_to_write:
  assumes rp: "ram_path path fs w s" and cl: "\<exists>i < DFS_FD_MAX. fd_closed (fds s (Fd i))" and w: "length w < RAMFS_NAME_MAX"
    and nd: "flags AND DFS_O_DIRECTORY = 0" and cr: "flags AND DFS_O_CREAT \<noteq> 0"
    and old: "file_named (ram (fs_ram fs s) s) w e D \<or> dfs_ramfs_lookup (SEP # w) (ram (fs_ram fs s) s) = Some 0 \<and> D = []"
    and D: "D1 = (if flags AND DFS_O_TRUNC = 0 then D else [])" and p: "p = (if flags AND DFS_O_APPEND \<noteq> 0 then length D1 else 0)"
  shows "\<exists>i s' e. posix_open ramfs path flags s = Some (int i, s') \<and> open_at i s' fs e D1 p \<and> ram_path path fs w s' \<and>
    file_named (ram (fs_ram fs s') s') w e D1 \<and> (\<forall>a n. mem_get a n s' = mem_get a n s)"
proof -
  let ?r = "ram (fs_ram fs s) s"
  have "name_ok w" using rp leads_to_names by (fastforce simp: ram_path_def)
  moreover have "mh_ok ?r (mh_no ?r)" using rp by (simp add: ram_path_def)
  ultimately obtain e r where "open_dirent (SEP # w) flags ?r = Some (Inr e, r)" "file_named r w e D1" "mh_ok r = mh_ok ?r"
    using old
  proof (elim disjE conjE)
    assume f: "file_named ?r w e D"
    obtain r' where "open_dirent (SEP # w) flags ?r = Some (Inr e, r')" "file_named r' w e D1" "same_names ?r r'"
      using open_dirent_found [OF f nd, folded D] by blast
    then show ?thesis using that [of e r'] by (simp add: same_names_def)
  next
    assume "name_ok w" "mh_ok ?r (mh_no ?r)" "dfs_ramfs_lookup (SEP # w) ?r = Some 0" "D = []"
    then obtain r' where "open_dirent (SEP # w) flags ?r = Some (Inr (mh_no ?r + 2), r')" "file_named r' w (mh_no ?r + 2) []" "mh_ok r' = mh_ok ?r"
      using open_dirent_new [OF _ w _ _ nd cr, of ?r] by blast
    then show ?thesis using that [of "mh_no ?r + 2" r'] D \<open>D = []\<close> by simp
  qed
  then show ?thesis using open_at_path [OF rp cl nd] p by blast
qed

text \<open>
  C40: what is written to a path of the memory file system is what is read from it. A file is opened, or made, and written at its begin, over its
  content or at its end as the flags ask, and closed; opened again, the path gives the bytes of the buffer in place of what they were written over, with the other bytes
  of the file as they were.\<close>

theorem posix_ramfs_round_trip:
  assumes path: "ram_path path fs w s" "length w < RAMFS_NAME_MAX" and closed: "\<exists>i < DFS_FD_MAX. fd_closed (fds s (Fd i))"
    and flags: "wflags AND DFS_O_DIRECTORY = 0" "wflags AND DFS_O_CREAT \<noteq> 0"
      "rflags AND DFS_O_DIRECTORY = 0" "rflags AND DFS_O_TRUNC = 0" "rflags AND DFS_O_APPEND = 0"
    and old: "file_named (ram (fs_ram fs s) s) w e D \<or> dfs_ramfs_lookup (SEP # w) (ram (fs_ram fs s) s) = Some 0 \<and> D = []"
    and small: "unat k + unat n + length D < 2147483648"
    and D1: "D1 = (if wflags AND DFS_O_TRUNC = 0 then D else [])" and p: "p = (if wflags AND DFS_O_APPEND \<noteq> 0 then length D1 else 0)"
    and D2: "D2 = take p D1 @ mem_get (unat buf) (unat n) s @ drop (p + unat n) D1"
  shows "\<exists>i s1 s2 s3 j s4 s5. posix_open ramfs path wflags s = Some (int i, s1) \<and> posix_write ramfs (int i) buf n s1 = Some (int (unat n), s2) \<and>
    posix_close ramfs (int i) s2 = Some (0, s3) \<and> posix_open ramfs path rflags s3 = Some (int j, s4) \<and>
    posix_read ramfs (int j) buf' k s4 = Some (int (min (unat k) (length D2)), s5) \<and>
    mem_get (unat buf') (min (unat k) (length D2)) s5 = take (unat k) D2"
proof -
  obtain i s1 e where o: "posix_open ramfs path wflags s = Some (int i, s1)" "open_at i s1 fs e D1 p" "ram_path path fs w s1"
    "file_named (ram (fs_ram fs s1) s1) w e D1" "\<And>a n. mem_get a n s1 = mem_get a n s"
    using open_to_write [OF path(1) closed path(2) flags(1,2) old D1 p] by blast
  have l: "unat n + max p (length D1) < 2147483648" "unat k + length D2 < 2147483648" using small by (auto simp: D1 D2 p)
  have "mh_ok (ram (fs_ram fs s1) s1) x" for x using o(3) by (simp add: ram_path_def)
  then obtain s2 where w: "posix_write ramfs (int i) buf n s1 = Some (int (unat n), s2)" "io_frame s1 s2" "open_at i s2 fs e D2 (p + unat n)"
    using open_at_write [OF o(2) l(1), of buf] o(5) D2 by auto
  have "dfs_inv s2" using ramdrv.posix_write_inv [OF _ w(1)] o(3) by (simp add: ram_path_def)
  then have rp2: "ram_path path fs w s2" by (rule ram_path_io [OF o(3) w(2)])
  have "same_names (ram (fs_ram fs s1) s1) (ram (fs_ram fs s2) s2)" using w(2) by (auto simp: io_frame_def fs_ram_def)
  then have "dfs_ramfs_lookup (SEP # w) (ram (fs_ram fs s2) s2) = Some e" using o(4) lookup_same_names by (simp add: file_named_def)
  then have n2: "file_named (ram (fs_ram fs s2) s2) w e D2" by (rule open_at_named [OF w(3)])
  obtain s3 where c: "posix_close ramfs (int i) s2 = Some (0, s3)" "fd_closed (fds s3 (Fd i))" "ram_path path fs w s3"
    "ram (fs_ram fs s3) s3 = ram (fs_ram fs s2) s2" using open_at_close [OF w(3) rp2] by blast
  have cl: "\<exists>i < DFS_FD_MAX. fd_closed (fds s3 (Fd i))" using c(2) o(2) by (auto simp: open_at_def open_file_def)
  obtain r where r: "open_dirent (SEP # w) rflags (ram (fs_ram fs s3) s3) = Some (Inr e, r)" "file_named r w e D2" "same_names (ram (fs_ram fs s3) s3) r"
    using open_dirent_found [OF n2 flags(3)] flags(4) unfolding c(4) by (simp only: if_True simp_thms) blast
  then have "mh_ok r = mh_ok (ram (fs_ram fs s3) s3)" by (simp add: same_names_def)
  then obtain j s4 where o2: "posix_open ramfs path rflags s3 = Some (int j, s4)" "open_at j s4 fs e D2 0"
    using open_at_path [OF c(3) cl flags(3) r(1,2)] flags(5) by auto
  obtain s5 m where rd: "posix_read ramfs (int j) buf' k s4 = Some (int m, s5)" "m = min (unat k) (length D2)" "mem_get (unat buf') m s5 = take m D2"
    using open_at_read [OF o2(2) l(2), of buf'] by auto
  then have "mem_get (unat buf') m s5 = take (unat k) D2" by (simp add: min_def)
  then show ?thesis using o(1) w(1) c(1) o2(1) rd(1,2) by blast
qed


text \<open>The memory file system at the root, with the file of the example above.\<close>

definition ram_mounted :: "rams dfs" where
  "ram_mounted =
     (let s = two_mounts \<lparr>sys_kernel = kernel0, sys_mem = (\<lambda>_. 7), devices = (\<lambda>_. a_device), console_device = None, sys_world = (\<lambda>_. one_file)\<rparr>
      in s\<lparr>filesystem_table := (\<lambda>i. (filesystem_table s i)\<lparr>fs_data := 0x1000\<rparr>)\<rparr>)"

lemma ram_mounted_names: "mounted ram_mounted i m \<longleftrightarrow> (i = 0 \<and> m = root_path []) \<or> (i = 1 \<and> m = root_path [map of_char ''mnt''])"
proof -
  have "mounted ram_mounted = mounted (two_mounts no_devices)" by (auto simp: ram_mounted_def Let_def mounted_def two_mounts_def fun_eq_iff)
  then show ?thesis by (simp only: two_mounts_names)
qed

lemma ram_mounted_inv: "dfs_inv ram_mounted"
proof -
  have o: "owner ram_mounted = owner (two_mounts no_devices)"
  proof
    show "owner ram_mounted x = owner (two_mounts no_devices) x" for x by (cases x) (auto simp: ram_mounted_def Let_def two_mounts_def)
  qed
  have "strs ram_mounted = strs (two_mounts no_devices)" by (simp add: ram_mounted_def Let_def two_mounts_def)
  then have "strs_owned ram_mounted = strs_owned (two_mounts no_devices)" by (simp only: strs_owned_def o)
  moreover have "strs_owned (two_mounts no_devices)" using two_mounts_inv [of no_devices] by (simp add: dfs_inv_def)
  ultimately show ?thesis by (auto simp: dfs_inv_def ram_mounted_def Let_def two_mounts_def fresh_def fd_closed_def zero_fd_def)
qed

lemma ram_mounted_path: "ram_path a_path 0 [0x61] ram_mounted"
proof -
  have named: "named_mounts ram_mounted" unfolding named_mounts_def ram_mounted_names
    by (intro allI impI, elim disjE conjE) (rule exI [of _ "[]"], simp, rule exI [of _ "[map of_char ''mnt'']"], simp add: name_ok_def)
  have "j = 0 \<or> strict_prefix ks []" if m: "mounted ram_mounted j (root_path ks)" and "prefix ks ([] @ [[0x61]])" for j ks
  proof -
    have "ks = [] \<or> ks = [[0x61]]" using that(2) by (cases ks) (auto simp: Cons_prefix_Cons)
    then show ?thesis using m by (auto simp: ram_mounted_names root_path_names)
  qed
  then have "leads_to a_path 0 [] [0x61] ram_mounted"
    using named ram_mounted_names [of 0 "root_path []"] by (auto simp: leads_to_def resolve_path_def path_names_def)
  then show ?thesis using ram_mounted_inv
    by (auto simp: ram_path_def ram_mounted_def Let_def two_mounts_def fs_ram_def ram_def one_file_def)
qed

theorem posix_ramfs_round_trip_witness:
  "\<exists>i s1 s2 s3 j s4 s5. posix_open ramfs a_path (DFS_O_CREAT OR DFS_O_APPEND) ram_mounted = Some (int i, s1) \<and>
     posix_write ramfs (int i) 0x2000 2 s1 = Some (2, s2) \<and> posix_close ramfs (int i) s2 = Some (0, s3) \<and>
     posix_open ramfs a_path 0 s3 = Some (int j, s4) \<and> posix_read ramfs (int j) 0x3000 100 s4 = Some (5, s5) \<and>
     mem_get 0x3000 5 s5 = [10, 20, 30, 7, 7]"
proof -
  let ?f = "DFS_O_CREAT OR DFS_O_APPEND :: u32" and ?D = "[10, 20, 30] :: u8 list" and ?s = ram_mounted
  have m: "mem_get 0x2000 2 ?s = [7, 7]" by (simp add: mem_get_def ram_mounted_def Let_def two_mounts_def upt_rec)
  have c: "\<exists>i < DFS_FD_MAX. fd_closed (fds ?s (Fd i))"
    by (rule exI [of _ 0]) (simp add: ram_mounted_def Let_def two_mounts_def fd_closed_def zero_fd_def)
  have f: "file_named (ram (fs_ram 0 ?s) ?s) [0x61] 2 ?D"
    by (simp add: file_named_def dfs_ramfs_lookup_def name_eq_def ram_mounted_def Let_def two_mounts_def ram_def fs_ram_def one_file_def)
  have five: "(5 :: nat) = Suc (Suc (Suc (Suc (Suc 0))))" by simp
  from posix_ramfs_round_trip [where k = "100" and rflags = 0 and wflags = ?f and buf' = "0x3000" and n = 2 and buf = "0x2000",
      OF ram_mounted_path _ c _ _ _ _ _ disjI1 [OF f] _ refl refl refl]
  show ?thesis using m by (simp add: five)
qed

end
