(* ===== verification/Spec2Isabelle.thy ===== *)
theory Spec2Isabelle
  imports MemProps KString RingBuffer DataQueue Completion FinshLine Console RamfsPosix
begin

text \<open>
  A verification development for RT-Thread 2.0.1, a real-time operating system in C: its kernel, its device layer and console, the queues
  its drivers use, the way of a line through its shell (tokens, parser, compiler and virtual machine), and its device file system
  with the file system in memory.

  \<^bold>\<open>The program.\<close>  The kernel (\<^verbatim>\<open>src/src\<close>, \<^verbatim>\<open>src/include\<close>) keeps its data in intrusive doubly linked
  lists.  Threads are ready, in one list per priority summarised by a 32-bit word, or suspended, or
  in the list of ended threads.  The tick interrupt counts the ticks and the time slice and
  dispatches the timers; every thread has a timer, which ends its sleeping and its waiting.  The IPC
  objects (semaphore, mutex, event, mailbox, message queue) and the memory pools keep a list of
  the threads that wait for them; a call that has to wait suspends its thread, starts the thread's
  timer and calls the scheduler, and goes on when another call, or the timer, has resumed it.

  \<^bold>\<open>How it is modelled.\<close>  The configuration is that of \<^verbatim>\<open>bsp/stm32f103ZET6/rtconfig.h\<close> with the checks
  of \<^verbatim>\<open>RT_DEBUG\<close> on: 32 priorities, names of 8 bytes, one level in the timer list, no hooks, no modules,
  no soft timers.  Machine integers are words of their width.  The state is the record \<open>kernel\<close>;
  every function of the C code is a function on it.  A result \<open>None\<close> is an execution that stops in
  \<^verbatim>\<open>RT_ASSERT\<close> or does what C leaves undefined (linking a node that is linked already).  Code with
  interrupts disabled is one step.  A call that may wait returns either a result or \<open>Blocked\<close> with the state
  after its \<^verbatim>\<open>rt_schedule\<close>; what it does when the thread runs again is a second function, the one
  with \<open>_wake\<close> in its name.  Loops whose end depends on the state (the timer dispatcher, the idle clean-up,
  resuming all the waiters) are partial functions on \<open>option\<close>, and that they end is proved.  Code reached
  through pointers (the timeout functions, the clean-up functions of threads, the port's stack
  initialisation, the allocator behind \<^verbatim>\<open>RT_KERNEL_MALLOC\<close>) is an argument.

  \<^bold>\<open>The theories.\<close>
  \<^item> Prelude: types of machine words, assertions, lemmas on lists, options and words.
  \<^item> RtList (\<^verbatim>\<open>rtservice.h\<close>): the pointer operations on a heap of list nodes, families of
    sequences as their abstraction, and the refinement between the two; every other theory
    uses the families.
  \<^item> KService (\<^verbatim>\<open>kservice.c\<close>): the search for the lowest set bit, strings.
  \<^item> Object (\<^verbatim>\<open>object.c\<close>): headers and containers of the kernel objects, with their invariant.
  \<^item> KState: the state of the kernel, interrupt nesting (\<^verbatim>\<open>irq.c\<close>) and the tick counter.
  \<^item> Timer, Clock (\<^verbatim>\<open>timer.c\<close>, \<^verbatim>\<open>clock.c\<close>): the timer queue ordered by the wrapping ticks, the dispatcher and
    the tick interrupt.
  \<^item> Scheduler (\<^verbatim>\<open>scheduler.c\<close>), Thread (\<^verbatim>\<open>thread.c\<close>), Idle (\<^verbatim>\<open>idle.c\<close>), Boot (the start of the board): the
    invariant \<open>kinv\<close> relates ready lists, summary word, thread states and timers; every operation
    keeps it.
  \<^item> KernelProps: what these operations guarantee: the boot sequence, the choice of the
    scheduler, nested critical sections, suspend and resume, round robin, changes of priority, sleeping and waking
    at the right tick, dispatch of the due timers, clean-up; and three places where the code
    fails its purpose.
  \<^item> Ipc, Semaphore, Mutex, Event, Fifo, Mailbox, MsgQueue (\<^verbatim>\<open>ipc.c\<close>): the order in which waiters
    are resumed; each call in every branch (result, error, waiting) with the invariant of
    its object; the counting semaphore as an abstract specification; ownership and priority
    inheritance of the mutex; no lost wake-up of an event.  The locale \<open>bounded_fifo\<close> of Fifo states
    the contract of a bounded first-in first-out store and what any sequence of calls on it
    does; mailbox and ring buffer interpret it.  MsgQueue also has a step relation in which senders and receivers
    interrupt each other between their critical sections.
  \<^item> MemPool (\<^verbatim>\<open>mempool.c\<close>): the pool of blocks of one size and its waiters.
  \<^item> Bytes, KMemory, KString (\<^verbatim>\<open>kservice.c\<close>): memory as bytes, the memory and string routines; the word-wise
    loops are equal to byte-wise descriptions.
  \<^item> Format, FormatProps (\<^verbatim>\<open>kservice.c\<close>): \<^verbatim>\<open>rt_vsnprintf\<close> with all its conversions, the text a format means, and that what is
    written is that text, cut to the buffer; digits are those of the number in its base.
  \<^item> Device, Console (\<^verbatim>\<open>device.c\<close>, \<^verbatim>\<open>kservice.c\<close>): the device layer with the functions of the drivers as arguments, its errors, and
    the protocol every driver sees whatever the application does; \<^verbatim>\<open>rt_kprintf\<close> on the console device.
  \<^item> Mem, MemInv, MemProps (\<^verbatim>\<open>mem.c\<close>): the first-fit heap allocator.  Headers and data lie in the same
    bytes; lists of blocks abstract from the headers.  Allocation, release and the change of a size
    in every branch keep the heap well formed and the data of all other blocks; allocating and
    releasing is a round trip; two places where the code fails its purpose.
  \<^item> RingBuffer (\<^verbatim>\<open>components/drivers/src/ringbuffer.c\<close>): the byte ring with mirror bits; the block copies are
    equivalent to byte-wise puts.
  \<^item> DataQueue, Completion (\<^verbatim>\<open>components/drivers/src\<close>): the queue of data items with its low water mark and
    the one-shot completion, each call in every branch, and what the wrapping of the 16-bit indices does to the queue.
  \<^item> FinshVM, FinshCompiler (\<^verbatim>\<open>components/finsh\<close>): the stack machine of the shell with its 48 operations, the
    type check and the code generator on the tree of a line.
  \<^item> FinshSem, FinshCorrect, FinshRun, FinshExec, FinshProps: a semantics of typed expressions, the code the
    compiler makes of their trees, what each operation of the machine and then the code of each expression
    does, and from these the correctness of a compiled line and the soundness of the type check.
  \<^item> FinshToken, FinshVar, FinshParser (\<^verbatim>\<open>finsh_token.c\<close>, \<^verbatim>\<open>finsh_var.c\<close>, \<^verbatim>\<open>finsh_heap.c\<close>, \<^verbatim>\<open>finsh_node.c\<close>,
    \<^verbatim>\<open>finsh_parser.c\<close>, \<^verbatim>\<open>shell.c\<close>): the tokenizer, the variables, symbol tables and string heap, the recursive descent parser
    and \<^verbatim>\<open>finsh_run_line\<close>.
  \<^item> FinshLex, FinshParse, FinshLine: which texts spell which tokens and which tokens stand for which expressions;
    the tokenizer and the parser read them back, so that a line does, from its characters on, what its
    statements mean; and lines where the code fails its purpose.

  \<^item> DfsPath, Dfs, DfsPosix (\<^verbatim>\<open>components/dfs/src\<close>): the device file system.  A path is made full in place, a mount table
    says which file system it belongs to, and descriptors with reference counts stand for open files; the functions of a file
    system are arguments, and the strings on the heap are a map from addresses.
  \<^item> DfsLookup, DfsProps: the full path has the names the path resolves to; the file system found is the one at the most specific mount point;
    every string has one owner, a mount point or an open descriptor, before and after every sequence of calls.  The locale
    \<open>fs_driver\<close> is the contract of a file system: it leaves alone what is not its own.
  \<^item> Ramfs, RamfsPosix (\<^verbatim>\<open>components/dfs/filesystems/ramfs\<close>): the file system in memory.  It interprets \<open>fs_driver\<close>, and its files refine lists
    of bytes with a position; what is written to a path is read from the path.

  \<^bold>\<open>Bounds.\<close>  Timers are started with at most half the range of the ticks, as the code asserts; the
  order of the timer queue is proved for timeouts that lie in one such window around the current tick.
  The counters of semaphores (16 bits) and of mutex holds (8 bits) wrap, and the theorems about them
  either bound the count or state the wrap.  The parser of the shell is a recursion with fuel, since a line can make
  its loops go on for ever; for a line of statements it is proved that from some fuel on the result is there and
  the same.  The shell has 16 nodes, 128 bytes of code and a stack of 64 cells; its theorems have these limits as hypotheses.
  The device file system has 4 descriptors, 2 mount points and 4 types of file systems; files of the memory file system are shorter
  than 2 GB in the theorems, since positions are signed.

  \<^bold>\<open>Not modelled.\<close>  The other heap allocators (\<^verbatim>\<open>memheap.c\<close>, \<^verbatim>\<open>slab.c\<close>), the drivers behind the device layer,
  dynamic modules, the terminal of the shell, the other file systems and the shell's commands on files, network stacks, C library layers, board support and CPU ports: they are
  applications of the kernel, hardware access or imported code.
\<close>

end
